(* ===== verification/Prelude.thy ===== *)
theory Prelude
  imports Main "HOL-Library.Word"
begin

text \<open>
  Shared by every component: the machine-integer types of the C sources, counted loops as
  recursion, arrays of 64-bit words read as one natural number, and the collections of
  rewrite rules the component proofs use.
\<close>

unbundle bit_operations_syntax

named_theorems word_array_simps "length, index and bit rules for arrays of 64-bit words"
named_theorems loop_simps "unfolding rules for counted loops"

type_synonym u64 = "64 word"
type_synonym u32 = "32 word"

abbreviation UINT64_MAX :: u64 where
  "UINT64_MAX \<equiv> - 1"

section \<open>Counted loops\<close>

text \<open>
  \<open>for_loop n f s\<close> runs the body \<open>f 0\<close>, ..., \<open>f (n - 1)\<close> in this order on the state \<open>s\<close>
  (the C loop \<open>for (i = 0; i < n; i++)\<close>); \<open>for_down n f s\<close> runs \<open>f (n - 1)\<close>, ..., \<open>f 0\<close>
  (the C loop \<open>for (i = n - 1; i >= 0; i--)\<close>).
\<close>

primrec for_loop :: "nat \<Rightarrow> (nat \<Rightarrow> 's \<Rightarrow> 's) \<Rightarrow> 's \<Rightarrow> 's" where
  "for_loop 0 f s = s"
| "for_loop (Suc n) f s = f n (for_loop n f s)"

primrec for_down :: "nat \<Rightarrow> (nat \<Rightarrow> 's \<Rightarrow> 's) \<Rightarrow> 's \<Rightarrow> 's" where
  "for_down 0 f s = s"
| "for_down (Suc n) f s = for_down n f (f n s)"

lemma for_loop_invariant:
  assumes "P 0 s" and "\<And>i t. i < n \<Longrightarrow> P i t \<Longrightarrow> P (Suc i) (f i t)"
  shows "P n (for_loop n f s)"
  using assms(2)
proof (induction n)
  case 0
  then show ?case using assms(1) by simp
next
  case (Suc n)
  then show ?case by simp
qed

lemma for_down_invariant:
  assumes "P n s" and "\<And>i t. i < n \<Longrightarrow> P (Suc i) t \<Longrightarrow> P i (f i t)"
  shows "P 0 (for_down n f s)"
  using assms
proof (induction n arbitrary: s)
  case 0
  then show ?case by simp
next
  case (Suc n)
  then show ?case by simp
qed

lemma for_loop_cong_bounded:
  assumes "\<And>i t. i < n \<Longrightarrow> f i t = g i t"
  shows "for_loop n f s = for_loop n g s"
  using assms by (induction n) auto

lemma nth_update_or: "xs[i := x] ! j = (if i = j \<and> j < length xs then x else xs ! j)"
  by (cases "i < length xs") (auto simp: nth_list_update list_update_beyond)

lemma replicate_4: "replicate 4 x = [x, x, x, x]"
  by (simp add: numeral_eq_Suc)

text \<open>A loop that writes one cell of an array per iteration.\<close>

lemma length_for_loop_update [simp]:
  "length (for_loop n (\<lambda>i a. a[i := f i]) xs) = length xs"
  by (induction n) auto

lemma nth_for_loop_update:
  assumes "n \<le> length xs" and "k < length xs"
  shows "for_loop n (\<lambda>i a. a[i := f i]) xs ! k = (if k < n then f k else xs ! k)"
  using assms(1)
proof (induction n)
  case 0
  then show ?case by simp
next
  case (Suc n)
  with assms(2) show ?case by (simp add: nth_list_update)
qed

lemma length_for_down_update [simp]:
  "length (for_down n (\<lambda>i a. a[i := f i]) xs) = length xs"
  by (induction n arbitrary: xs) auto

lemma nth_for_down_update:
  assumes "n \<le> length xs" and "k < length xs"
  shows "for_down n (\<lambda>i a. a[i := f i]) xs ! k = (if k < n then f k else xs ! k)"
  using assms
proof (induction n arbitrary: xs)
  case 0
  then show ?case by simp
next
  case (Suc n)
  then show ?case by (auto simp: nth_list_update less_Suc_eq)
qed

section \<open>Arrays of 64-bit words\<close>

text \<open>
  \<open>wval ws\<close> is the natural number an array holds, least significant word first, and
  \<open>wbit ws n\<close> its bit \<open>n\<close>, read the way the code reads it: word \<open>n / 64\<close>, bit \<open>n % 64\<close>.
\<close>

fun wval :: "u64 list \<Rightarrow> nat" where
  "wval [] = 0"
| "wval (w # ws) = unat w + 2 ^ 64 * wval ws"

definition wbit :: "u64 list \<Rightarrow> nat \<Rightarrow> bool" where
  "wbit ws n \<longleftrightarrow> n div 64 < length ws \<and> bit (ws ! (n div 64)) (n mod 64)"

lemma unat_u64_less: "unat (w :: u64) < 2 ^ 64"
proof -
  have "unat w < 2 ^ LENGTH(64)" by (rule unsigned_less)
  then show ?thesis by simp
qed

lemma unat_u64_less_numeral: "unat (w :: u64) < 18446744073709551616"
  using unat_u64_less [of w] by simp

lemma bit_u64_beyond: "64 \<le> n \<Longrightarrow> \<not> bit (w :: u64) n"
  using bit_imp_le_length [of w n] by auto

lemma wbit_Nil [simp]: "wbit [] n = False"
  by (simp add: wbit_def)

lemma wbit_Cons: "wbit (w # ws) n = (if n < 64 then bit w n else wbit ws (n - 64))"
proof (cases "n < 64")
  case True
  then show ?thesis by (simp add: wbit_def)
next
  case False
  then have "n div 64 = Suc ((n - 64) div 64)" and "n mod 64 = (n - 64) mod 64"
    by (simp_all add: le_div_geq le_mod_geq)
  with False show ?thesis by (simp add: wbit_def)
qed

lemma bit_unat_u64: "bit (unat (w :: u64)) n = bit w n"
  by (simp add: bit_unsigned_iff)

lemma bit_wval_aux:
  fixes u x :: nat
  assumes "u < 2 ^ 64"
  shows "bit (u + 2 ^ 64 * x) n = (if n < 64 then bit u n else bit x (n - 64))"
proof (cases "n < 64")
  case True
  have "take_bit 64 (u + 2 ^ 64 * x) = u"
    using assms by (simp add: take_bit_eq_mod)
  then have "bit u n = bit (take_bit 64 (u + 2 ^ 64 * x)) n" by simp
  with True show ?thesis by (simp add: bit_take_bit_iff)
next
  case False
  have "drop_bit 64 (u + 2 ^ 64 * x) = x"
    using assms by (simp add: drop_bit_eq_div)
  then have "bit x (n - 64) = bit (drop_bit 64 (u + 2 ^ 64 * x)) (n - 64)" by simp
  with False show ?thesis by (simp add: bit_drop_bit_eq)
qed

lemma bit_wval: "bit (wval ws) n = wbit ws n"
proof (induction ws arbitrary: n)
  case Nil
  then show ?case by simp
next
  case (Cons w ws)
  then show ?case
    by (simp only: wval.simps bit_wval_aux [OF unat_u64_less] wbit_Cons bit_unat_u64)
qed

lemma wval_bound: "wval ws < 2 ^ (64 * length ws)"
proof (induction ws)
  case Nil
  then show ?case by simp
next
  case (Cons w ws)
  have "unat w + 2 ^ 64 * wval ws < 2 ^ 64 * (wval ws + 1)"
    using unat_u64_less [of w] by (simp add: algebra_simps)
  also have "\<dots> \<le> 2 ^ 64 * 2 ^ (64 * length ws)"
    using Cons by (intro mult_le_mono) auto
  also have "\<dots> = 2 ^ (64 * length (w # ws))"
    by (simp add: power_add)
  finally show ?case by simp
qed

lemma wval_eq_iff:
  assumes "length ws = length vs"
  shows "wval ws = wval vs \<longleftrightarrow> ws = vs"
  using assms
proof (induction ws vs rule: list_induct2)
  case Nil
  then show ?case by simp
next
  case (Cons x xs y ys)
  have "unat x + 2 ^ 64 * wval xs = unat y + 2 ^ 64 * wval ys \<longleftrightarrow>
        unat x = unat y \<and> wval xs = wval ys"
  proof
    assume eq: "unat x + 2 ^ 64 * wval xs = unat y + 2 ^ 64 * wval ys"
    have "(unat x + 2 ^ 64 * wval xs) mod 2 ^ 64 = (unat y + 2 ^ 64 * wval ys) mod 2 ^ 64"
      by (simp only: eq)
    then have "unat x = unat y"
      using unat_u64_less [of x] unat_u64_less [of y] by simp
    with eq show "unat x = unat y \<and> wval xs = wval ys" by simp
  qed simp
  with Cons show ?case by (simp add: word_unat_eq_iff)
qed

lemma wval_append: "wval (xs @ ys) = wval xs + 2 ^ (64 * length xs) * wval ys"
  by (induction xs) (simp_all add: power_add algebra_simps)

lemma wval_replicate_0 [simp]: "wval (replicate n 0) = 0"
  by (induction n) auto

lemma wbit_replicate_0 [simp]: "wbit (replicate n 0) k = False"
  by (auto simp: wbit_def)

lemma bit_less_exp: "(x :: nat) < 2 ^ k \<Longrightarrow> bit x n \<Longrightarrow> n < k"
  by (metis bit_take_bit_iff take_bit_nat_eq_self)

lemma wval_lt_exp_iff: "wval ws < 2 ^ k \<longleftrightarrow> (\<forall>n \<ge> k. \<not> wbit ws n)"
proof
  assume lt: "wval ws < 2 ^ k"
  then have "take_bit k (wval ws) = wval ws" by (simp add: take_bit_nat_eq_self)
  then show "\<forall>n \<ge> k. \<not> wbit ws n"
    by (metis bit_take_bit_iff bit_wval linorder_not_less)
next
  assume hi: "\<forall>n \<ge> k. \<not> wbit ws n"
  have "take_bit k (wval ws) = wval ws"
    by (rule bit_eqI) (use hi in \<open>auto simp: bit_take_bit_iff bit_wval linorder_not_le [symmetric]\<close>)
  then show "wval ws < 2 ^ k" by (metis take_bit_nat_less_exp)
qed

section \<open>Decimal numerals\<close>

text \<open>What \<open>printf\<close> writes for \<open>%llu\<close>, and for \<open>%d\<close>.\<close>

definition digit_char :: "nat \<Rightarrow> char" where
  "digit_char d = char_of (48 + d)"

fun show_nat :: "nat \<Rightarrow> string" where
  "show_nat n = (if n < 10 then [digit_char n] else show_nat (n div 10) @ [digit_char (n mod 10)])"

declare show_nat.simps [simp del]

definition show_int :: "int \<Rightarrow> string" where
  "show_int i = (if i < 0 then CHR ''-'' # show_nat (nat (- i)) else show_nat (nat i))"

lemma of_char_digit: "d < 10 \<Longrightarrow> of_char (digit_char d) = (48 + d :: nat)"
  by (simp add: digit_char_def)

end
