(* ===== verification/Util_Limits.thy ===== *)
theory Util_Limits
  imports Prelude
begin

text \<open>
  The checked size arithmetic, input limits, recursion-depth counters, byte buffers and
  truncating string copy of src/util.c. \<open>size_t\<close> is a 64-bit word. A function that
  returns -1 and leaves \<open>*out\<close> untouched, or returns 0 and stores a result, is an option;
  callers of the checked functions pass non-NULL out pointers, so the NULL guards have no
  counterpart. The file and descriptor functions of util.c are pure input/output.
\<close>

type_synonym usize = "64 word"

abbreviation SIZE_MAX :: usize where
  "SIZE_MAX \<equiv> - 1"

section \<open>Input limits\<close>

datatype JZInputLimitKind =
    JZ_LIMIT_SOURCE_FILE_BYTES | JZ_LIMIT_SOURCE_TOKENS | JZ_LIMIT_IMPORT_DEPTH
  | JZ_LIMIT_IMPORT_RETAINED_SOURCE_BYTES | JZ_LIMIT_IMPORT_RETAINED_TOKEN_BYTES
  | JZ_LIMIT_CHIP_JSON_BYTES | JZ_LIMIT_CHIP_JSON_TOKENS | JZ_LIMIT_CHIP_JSON_NESTING_DEPTH
  | JZ_LIMIT_MEM_INIT_FILE_BYTES | JZ_LIMIT_MEM_INIT_MIF_DEPTH
  | JZ_LIMIT_PARSER_EXPR_DEPTH | JZ_LIMIT_PARSER_STATEMENT_DEPTH | JZ_LIMIT_CONST_EVAL_DEPTH
  | JZ_LIMIT_IR_EXPR_DEPTH | JZ_LIMIT_IR_STATEMENT_DEPTH | JZ_LIMIT_AST_DEPTH
  | JZ_LIMIT_TEMPLATE_EXPAND_DEPTH | JZ_LIMIT_TRISTATE_DEPTH | JZ_LIMIT_SEM_RECURSION_DEPTH
  | JZ_LIMIT_REPORT_RECURSION_DEPTH | JZ_LIMIT_CHIP_VARIANT_TUPLES | JZ_LIMIT_IR_EXPANDED_ITEMS
  | JZ_LIMIT_SEM_BRANCH_STATES | JZ_LIMIT_SIM_INSTANCE_DEPTH | JZ_LIMIT_SIM_MEMORY_DEPTH
  | JZ_LIMIT_SIM_MEMORY_OBJECT_BYTES | JZ_LIMIT_EMITTED_TRACE_BYTES | JZ_LIMIT_RTLIL_MEM_INIT_EMIT_BYTES

fun jz_input_limit_value :: "JZInputLimitKind \<Rightarrow> usize" where
  "jz_input_limit_value JZ_LIMIT_SOURCE_FILE_BYTES = 16 * 1024 * 1024"
| "jz_input_limit_value JZ_LIMIT_SOURCE_TOKENS = 1024 * 1024"
| "jz_input_limit_value JZ_LIMIT_IMPORT_DEPTH = 64"
| "jz_input_limit_value JZ_LIMIT_IMPORT_RETAINED_SOURCE_BYTES = 16 * 1024 * 1024"
| "jz_input_limit_value JZ_LIMIT_IMPORT_RETAINED_TOKEN_BYTES = 64 * 1024 * 1024"
| "jz_input_limit_value JZ_LIMIT_CHIP_JSON_BYTES = 4 * 1024 * 1024"
| "jz_input_limit_value JZ_LIMIT_CHIP_JSON_TOKENS = 256 * 1024"
| "jz_input_limit_value JZ_LIMIT_CHIP_JSON_NESTING_DEPTH = 128"
| "jz_input_limit_value JZ_LIMIT_MEM_INIT_FILE_BYTES = 64 * 1024 * 1024"
| "jz_input_limit_value JZ_LIMIT_MEM_INIT_MIF_DEPTH = 1024 * 1024"
| "jz_input_limit_value JZ_LIMIT_PARSER_EXPR_DEPTH = 512"
| "jz_input_limit_value JZ_LIMIT_PARSER_STATEMENT_DEPTH = 512"
| "jz_input_limit_value JZ_LIMIT_CONST_EVAL_DEPTH = 512"
| "jz_input_limit_value JZ_LIMIT_IR_EXPR_DEPTH = 512"
| "jz_input_limit_value JZ_LIMIT_IR_STATEMENT_DEPTH = 512"
| "jz_input_limit_value JZ_LIMIT_AST_DEPTH = 4096"
| "jz_input_limit_value JZ_LIMIT_TEMPLATE_EXPAND_DEPTH = 1024"
| "jz_input_limit_value JZ_LIMIT_TRISTATE_DEPTH = 1024"
| "jz_input_limit_value JZ_LIMIT_SEM_RECURSION_DEPTH = 1024"
| "jz_input_limit_value JZ_LIMIT_REPORT_RECURSION_DEPTH = 1024"
| "jz_input_limit_value JZ_LIMIT_CHIP_VARIANT_TUPLES = 1024 * 1024"
| "jz_input_limit_value JZ_LIMIT_IR_EXPANDED_ITEMS = 1024 * 1024"
| "jz_input_limit_value JZ_LIMIT_SEM_BRANCH_STATES = 64 * 1024"
| "jz_input_limit_value JZ_LIMIT_SIM_INSTANCE_DEPTH = 1024"
| "jz_input_limit_value JZ_LIMIT_SIM_MEMORY_DEPTH = 1024 * 1024"
| "jz_input_limit_value JZ_LIMIT_SIM_MEMORY_OBJECT_BYTES = 128 * 1024 * 1024"
| "jz_input_limit_value JZ_LIMIT_EMITTED_TRACE_BYTES = 64 * 1024 * 1024"
| "jz_input_limit_value JZ_LIMIT_RTLIL_MEM_INIT_EMIT_BYTES = 64 * 1024 * 1024"

text \<open>A depth counter is an \<open>unsigned\<close>; entering returns \<open>None\<close> at the limit.\<close>

definition jz_depth_enter_checked :: "u32 \<Rightarrow> JZInputLimitKind \<Rightarrow> u32 option" where
  "jz_depth_enter_checked depth kind =
     (let limit = jz_input_limit_value kind
      in if limit = 0 \<or> ucast depth \<ge> limit then None else Some (depth + 1))"

definition jz_depth_leave :: "u32 \<Rightarrow> u32" where
  "jz_depth_leave depth = (if depth > 0 then depth - 1 else depth)"

section \<open>Checked arithmetic\<close>

definition jz_size_add_checked :: "usize \<Rightarrow> usize \<Rightarrow> usize option" where
  "jz_size_add_checked a b = (if a > SIZE_MAX - b then None else Some (a + b))"

definition jz_size_mul_checked :: "usize \<Rightarrow> usize \<Rightarrow> usize option" where
  "jz_size_mul_checked a b = (if a \<noteq> 0 \<and> b > SIZE_MAX div a then None else Some (a * b))"

definition jz_size_mul_add_checked :: "usize \<Rightarrow> usize \<Rightarrow> usize \<Rightarrow> usize option" where
  "jz_size_mul_add_checked a b c =
     (case jz_size_mul_checked a b of None \<Rightarrow> None | Some p \<Rightarrow> jz_size_add_checked p c)"

definition jz_size_align_up_checked :: "usize \<Rightarrow> usize \<Rightarrow> usize option" where
  "jz_size_align_up_checked sz alignment =
     (if alignment = 0 then None
      else if alignment AND (alignment - 1) \<noteq> 0 then None
      else case jz_size_add_checked sz (alignment - 1) of
             None \<Rightarrow> None
           | Some rounded \<Rightarrow> Some (rounded AND NOT (alignment - 1)))"

text \<open>The \<open>while (grown < minimum)\<close> loop; \<open>None\<close> would be a loop that never ends.\<close>

partial_function (option) grow_loop :: "usize \<Rightarrow> usize \<Rightarrow> usize option" where
  "grow_loop minimum grown =
     (if grown < minimum
      then if grown > SIZE_MAX div 2 then Some minimum
           else case jz_size_add_checked grown grown of
                  None \<Rightarrow> Some minimum
                | Some nxt \<Rightarrow> grow_loop minimum nxt
      else Some grown)"

declare grow_loop.simps [code]

text \<open>The outer option is that of the loop, the inner one the result -1.\<close>

definition jz_size_grow_doubling_checked :: "usize \<Rightarrow> usize \<Rightarrow> usize \<Rightarrow> usize option option" where
  "jz_size_grow_doubling_checked current minimum initial =
     (if minimum = 0 then Some (Some current)
      else let grown0 = (if current \<noteq> 0 then current else initial);
               grown1 = (if grown0 = 0 then 1 else grown0)
           in case grow_loop minimum grown1 of
                None \<Rightarrow> None
              | Some grown \<Rightarrow> if grown < minimum then Some None else Some (Some grown))"

definition jz_size_from_int_checked :: "int \<Rightarrow> usize option" where
  "jz_size_from_int_checked v = (if v < 0 then None else Some (word_of_int v))"

definition jz_limit_accumulate_checked :: "usize \<Rightarrow> usize \<Rightarrow> JZInputLimitKind \<Rightarrow> usize option" where
  "jz_limit_accumulate_checked current add kind =
     (case jz_size_add_checked current add of
        None \<Rightarrow> None
      | Some nxt \<Rightarrow> let limit = jz_input_limit_value kind
                     in if limit \<noteq> 0 \<and> nxt > limit then None else Some nxt)"

section \<open>Strings and buffers\<close>

text \<open>
  \<open>jz_strcpy_trunc\<close>: the C string left in \<open>dst\<close> (\<open>None\<close> when nothing is written) and the
  returned length of the source.
\<close>

definition jz_strcpy_trunc :: "nat \<Rightarrow> string option \<Rightarrow> string option \<times> nat" where
  "jz_strcpy_trunc dst_size src =
     (if dst_size = 0 then (None, case src of None \<Rightarrow> 0 | Some s \<Rightarrow> length s)
      else case src of
             None \<Rightarrow> (Some [], 0)
           | Some s \<Rightarrow> let src_len = length s;
                            copy_len = (if src_len < dst_size - 1 then src_len else dst_size - 1)
                        in (Some (take copy_len s), src_len))"

text \<open>
  A buffer is its valid bytes and its capacity (\<open>len\<close> is the number of bytes). Whether
  \<open>realloc\<close> succeeds is the parameter \<open>alloc_ok\<close>, a function of the requested size.
\<close>

record JZBuffer =
  buf_bytes :: "8 word list"
  buf_cap :: usize

definition jz_buf_reserve :: "(usize \<Rightarrow> bool) \<Rightarrow> JZBuffer \<Rightarrow> usize \<Rightarrow> JZBuffer option" where
  "jz_buf_reserve alloc_ok buf new_cap =
     (if new_cap \<le> buf_cap buf then Some buf
      else case jz_size_grow_doubling_checked (buf_cap buf) new_cap 16 of
             Some (Some cap) \<Rightarrow>
               (case jz_size_mul_checked cap 1 of
                  None \<Rightarrow> None
                | Some new_bytes \<Rightarrow> if alloc_ok new_bytes then Some (buf\<lparr>buf_cap := cap\<rparr>) else None)
           | _ \<Rightarrow> None)"

definition jz_buf_append :: "(usize \<Rightarrow> bool) \<Rightarrow> JZBuffer \<Rightarrow> 8 word list \<Rightarrow> JZBuffer option" where
  "jz_buf_append alloc_ok buf data =
     (let len = word_of_nat (length data)
      in if len = 0 then Some buf
         else case jz_size_add_checked (word_of_nat (length (buf_bytes buf))) len of
                None \<Rightarrow> None
              | Some new_len \<Rightarrow>
                  (case jz_buf_reserve alloc_ok buf new_len of
                     None \<Rightarrow> None
                   | Some buf' \<Rightarrow> Some (buf'\<lparr>buf_bytes := buf_bytes buf' @ data\<rparr>)))"

definition jz_buf_free :: "JZBuffer \<Rightarrow> JZBuffer" where
  "jz_buf_free buf = \<lparr>buf_bytes = [], buf_cap = 0\<rparr>"

section \<open>Checked arithmetic is exact\<close>

lemma unat_power_two: "k < 64 \<Longrightarrow> unat ((2 :: usize) ^ k) = 2 ^ k"
proof -
  assume k: "k < 64"
  have "unat (word_of_nat (2 ^ k) :: usize) = 2 ^ k mod 2 ^ LENGTH(64)" by (rule unat_of_nat)
  also have "\<dots> = 2 ^ k" using k by (intro mod_less power_strict_increasing) simp_all
  finally show ?thesis by simp
qed

lemma unat_SIZE_MAX: "unat SIZE_MAX = 2 ^ 64 - 1"
  by (simp add: unsigned_minus_1_eq_mask mask_eq_exp_minus_1)

lemma unat_SIZE_MAX_minus: "unat (SIZE_MAX - b) = 2 ^ 64 - 1 - unat (b :: usize)"
proof -
  have "unat (SIZE_MAX - b) = unat SIZE_MAX - unat b" by (rule unat_sub) simp
  then show ?thesis by (simp only: unat_SIZE_MAX)
qed

lemma add_checked_iff:
  "jz_size_add_checked a b = Some r \<longleftrightarrow> unat a + unat b < 2 ^ 64 \<and> unat r = unat a + unat b"
proof -
  have lt: "a > SIZE_MAX - b \<longleftrightarrow> \<not> unat a + unat b < 2 ^ 64"
    using unat_u64_less [of b] by (simp add: word_less_nat_alt unat_SIZE_MAX_minus) linarith
  show ?thesis
  proof (cases "unat a + unat b < 2 ^ 64")
    case True
    then have "unat (a + b) = unat a + unat b" by (simp add: unat_word_ariths)
    with True lt show ?thesis
      by (auto simp: jz_size_add_checked_def word_unat_eq_iff)
  next
    case False
    with lt show ?thesis by (simp add: jz_size_add_checked_def)
  qed
qed

lemma add_checked_None: "jz_size_add_checked a b = None \<longleftrightarrow> 2 ^ 64 \<le> unat a + unat b"
proof (cases "unat a + unat b < 2 ^ 64")
  case True
  then have "unat (a + b) = unat a + unat b" by (simp add: unat_word_ariths)
  with True have "jz_size_add_checked a b = Some (a + b)" by (simp add: add_checked_iff)
  with True show ?thesis by simp
next
  case False
  then have "jz_size_add_checked a b \<noteq> Some r" for r by (simp add: add_checked_iff)
  with False show ?thesis by (cases "jz_size_add_checked a b") auto
qed

lemma mul_checked_iff:
  "jz_size_mul_checked a b = Some r \<longleftrightarrow> unat a * unat b < 2 ^ 64 \<and> unat r = unat a * unat b"
proof (cases "a = 0")
  case True
  then show ?thesis by (auto simp: jz_size_mul_checked_def unat_eq_0)
next
  case False
  then have a: "unat a > 0" by (simp add: unat_gt_0)
  have "b > SIZE_MAX div a \<longleftrightarrow> (2 ^ 64 - 1) div unat a < unat b"
    by (simp add: word_less_nat_alt unat_div unat_SIZE_MAX)
  also have "\<dots> \<longleftrightarrow> \<not> unat a * unat b < 2 ^ 64"
    using a by (auto simp: div_less_iff_less_mult not_less mult.commute)
  finally have lt: "b > SIZE_MAX div a \<longleftrightarrow> \<not> unat a * unat b < 2 ^ 64" .
  show ?thesis
  proof (cases "unat a * unat b < 2 ^ 64")
    case True
    then have "unat (a * b) = unat a * unat b" by (simp add: unat_word_ariths)
    with True lt show ?thesis by (auto simp: jz_size_mul_checked_def word_unat_eq_iff)
  next
    case F: False
    with lt \<open>a \<noteq> 0\<close> show ?thesis by (simp add: jz_size_mul_checked_def)
  qed
qed

section \<open>Doubling\<close>

lemma grow_loop_result:
  assumes "grown \<noteq> 0"
  shows "\<exists>r. grow_loop minimum grown = Some r \<and> minimum \<le> r \<and> grown \<le> r \<and>
           (r = grown \<or> r = minimum \<or> unat r < 2 * unat minimum)"
  using assms
proof (induction "unat minimum - unat grown" arbitrary: grown rule: less_induct)
  case less
  show ?case
  proof (cases "grown < minimum")
    case False
    then show ?thesis by (subst grow_loop.simps) auto
  next
    case True
    show ?thesis
    proof (cases "jz_size_add_checked grown grown")
      case None
      with True show ?thesis by (subst grow_loop.simps) (auto simp: less_imp_le)
    next
      case (Some nxt)
      then have nxt: "unat nxt = 2 * unat grown" by (simp add: add_checked_iff)
      have g: "0 < unat grown" using less.prems by (simp add: unat_gt_0)
      have lt: "unat grown < unat minimum" using True by (simp add: word_less_nat_alt)
      have "nxt \<noteq> 0" using nxt g by (auto simp: unat_eq_0 [symmetric])
      moreover have "unat minimum - unat nxt < unat minimum - unat grown" using nxt g lt by linarith
      ultimately obtain r where r: "grow_loop minimum nxt = Some r" "minimum \<le> r" "nxt \<le> r"
        "r = nxt \<or> r = minimum \<or> unat r < 2 * unat minimum"
        using less.hyps by blast
      have "grown \<le> r" using r(2) True by simp
      moreover have "r = grown \<or> r = minimum \<or> unat r < 2 * unat minimum"
        using r(4) nxt lt by auto
      ultimately show ?thesis
        using True Some r(1,2) lt by (subst grow_loop.simps) (auto simp: less_imp_le)
    qed
  qed
qed

section \<open>Alignment\<close>

lemma power_of_two_trick:
  assumes "al \<noteq> (0 :: usize)" "al AND (al - 1) = 0"
  shows "\<exists>k < 64. al = 2 ^ k"
proof -
  define n where "n = unat al"
  have n: "0 < n" "n < 2 ^ 64" using assms(1) unat_u64_less [of al] by (simp_all add: n_def unat_gt_0)
  have pred: "unat (al - 1) = n - 1" using assms(1) by (simp add: n_def unat_minus_one)
  obtain k where k: "2 ^ k \<le> n" "n < 2 ^ (k + 1)"
    using ex_power_ivl1 [of 2 n] n(1) by auto
  have k64: "k < 64"
  proof (rule ccontr)
    assume "\<not> k < 64"
    then have "(2 :: nat) ^ 64 \<le> 2 ^ k" by (intro power_increasing) simp_all
    with k(1) n(2) show False by linarith
  qed
  have top: "bit m k" if "2 ^ k \<le> m" "m < 2 ^ (k + 1)" for m :: nat
  proof -
    have "m div 2 ^ k = 1" using that by (intro div_nat_eqI) simp_all
    then show ?thesis by (simp add: bit_iff_odd)
  qed
  have "n = 2 ^ k"
  proof (rule ccontr)
    assume "n \<noteq> 2 ^ k"
    with k have "bit n k" "bit (n - 1) k" by (auto intro!: top)
    then have "bit al k" "bit (al - 1) k" using pred by (metis bit_unat_u64 n_def)+
    then have "bit (al AND (al - 1)) k" by (simp add: bit_and_iff)
    with assms(2) show False by simp
  qed
  then have "al = 2 ^ k" using k64 by (simp add: word_unat_eq_iff n_def unat_power_two)
  with k64 show ?thesis by blast
qed

lemma unat_and_not_mask: "unat (x AND NOT (2 ^ k - 1) :: usize) = unat x div 2 ^ k * 2 ^ k"
proof -
  have "unat (x AND NOT (mask k) :: usize) = push_bit k (drop_bit k (unat x))"
  proof (rule bit_eqI)
    fix m
    have "bit x m \<Longrightarrow> m < 64" using bit_u64_beyond [of m x] by (cases "64 \<le> m") auto
    then show "bit (unat (x AND NOT (mask k) :: usize)) m \<longleftrightarrow> bit (push_bit k (drop_bit k (unat x))) m"
      by (auto simp: bit_unat_u64 bit_and_iff bit_not_iff bit_mask_iff bit_push_bit_iff bit_drop_bit_eq)
  qed
  then show ?thesis by (simp add: push_bit_eq_mult drop_bit_eq_div mask_eq_exp_minus_1)
qed

lemma align_up_pow2:
  assumes "k < 64"
  shows "jz_size_align_up_checked sz (2 ^ k) = Some r \<longleftrightarrow>
         unat sz + (2 ^ k - 1) < 2 ^ 64 \<and> unat r = (unat sz + (2 ^ k - 1)) div 2 ^ k * 2 ^ k"
proof -
  have p: "(2 :: usize) ^ k \<noteq> 0" "unat ((2 :: usize) ^ k - 1) = 2 ^ k - 1"
  proof -
    have u: "unat ((2 :: usize) ^ k) = 2 ^ k" using assms by (rule unat_power_two)
    then show "(2 :: usize) ^ k \<noteq> 0" by (metis power_not_zero unat_0 zero_neq_numeral)
    then show "unat ((2 :: usize) ^ k - 1) = 2 ^ k - 1" using u by (simp add: unat_minus_one)
  qed
  have trick: "(2 :: usize) ^ k AND (2 ^ k - 1) = 0"
    by (rule bit_word_eqI) (auto simp: bit_and_iff bit_exp_iff mask_eq_exp_minus_1 [symmetric] bit_mask_iff)
  show ?thesis
    using p trick
    by (auto simp: jz_size_align_up_checked_def add_checked_iff unat_and_not_mask word_unat_eq_iff
        add_checked_None split: option.splits)
qed

section \<open>Properties\<close>

text \<open>Note: the checked size operations are exact: they return the true sum, product or
  multiply-add when it fits 64 bits, and the error exactly when it does not.\<close>

theorem size_arith_checked_exact:
  "(jz_size_add_checked a b = Some r \<longleftrightarrow> unat a + unat b < 2 ^ 64 \<and> unat r = unat a + unat b) \<and>
   (jz_size_mul_checked a b = Some r \<longleftrightarrow> unat a * unat b < 2 ^ 64 \<and> unat r = unat a * unat b) \<and>
   (jz_size_mul_add_checked a b c = Some r \<longleftrightarrow>
      unat a * unat b + unat c < 2 ^ 64 \<and> unat r = unat a * unat b + unat c)"
proof -
  have "jz_size_mul_add_checked a b c = Some r \<longleftrightarrow>
      unat a * unat b + unat c < 2 ^ 64 \<and> unat r = unat a * unat b + unat c"
  proof (cases "unat a * unat b < 2 ^ 64")
    case True
    then have p: "unat (a * b) = unat a * unat b" by (simp add: unat_word_ariths)
    then have "jz_size_mul_checked a b = Some (a * b)" using True by (simp add: mul_checked_iff)
    then show ?thesis by (simp add: jz_size_mul_add_checked_def add_checked_iff p)
  next
    case False
    then have "jz_size_mul_checked a b = None"
      using mul_checked_iff [of a b] by (cases "jz_size_mul_checked a b") auto
    with False show ?thesis by (simp add: jz_size_mul_add_checked_def)
  qed
  then show ?thesis using add_checked_iff mul_checked_iff by blast
qed

text \<open>Note: aligning up succeeds exactly for power-of-two alignments when the padded size does
  not overflow, and returns the least multiple of the alignment that is not below the size.\<close>

theorem size_align_up_correct:
  "jz_size_align_up_checked sz al = Some r \<longleftrightarrow>
     (\<exists>k. k < 64 \<and> al = 2 ^ k) \<and> unat sz + (unat al - 1) < 2 ^ 64 \<and>
     unat al dvd unat r \<and> unat sz \<le> unat r \<and> unat r < unat sz + unat al"
proof (cases "\<exists>k. k < 64 \<and> al = 2 ^ k")
  case True
  then obtain k where k: "k < 64" "al = 2 ^ k" by blast
  have u: "unat al = 2 ^ k" using k by (simp add: unat_power_two)
  have "m = (n + (2 ^ k - 1)) div 2 ^ k * 2 ^ k \<longleftrightarrow> 2 ^ k dvd m \<and> n \<le> m \<and> m < n + 2 ^ k" for m n :: nat
  proof
    assume m: "m = (n + (2 ^ k - 1)) div 2 ^ k * 2 ^ k"
    have "m + (n + (2 ^ k - 1)) mod 2 ^ k = n + (2 ^ k - 1)" unfolding m by (rule div_mult_mod_eq)
    moreover have "(n + (2 ^ k - 1)) mod 2 ^ k < 2 ^ k" by simp
    moreover have "(1 :: nat) \<le> 2 ^ k" by simp
    ultimately have "n \<le> m" "m < n + 2 ^ k" by linarith+
    then show "2 ^ k dvd m \<and> n \<le> m \<and> m < n + 2 ^ k" using m by simp
  next
    assume "2 ^ k dvd m \<and> n \<le> m \<and> m < n + 2 ^ k"
    then obtain q where q: "m = 2 ^ k * q" "n \<le> 2 ^ k * q" "2 ^ k * q < n + 2 ^ k" by auto
    have "(n + (2 ^ k - 1)) div 2 ^ k = q"
      by (rule div_nat_eqI) (use q in \<open>simp_all add: algebra_simps\<close>)
    then show "m = (n + (2 ^ k - 1)) div 2 ^ k * 2 ^ k" using q(1) by simp
  qed
  then show ?thesis using align_up_pow2 [OF k(1), of sz r] True u k(2) by simp
next
  case False
  then have "jz_size_align_up_checked sz al = None"
    using power_of_two_trick [of al] by (auto simp: jz_size_align_up_checked_def)
  with False show ?thesis by simp
qed

text \<open>Note: growing a capacity by doubling always ends and always succeeds, with a capacity at
  least the minimum and at least the current one.\<close>

theorem size_grow_doubling_total:
  "\<exists>r. jz_size_grow_doubling_checked current minimum initial = Some (Some r) \<and> minimum \<le> r \<and> current \<le> r"
proof (cases "minimum = 0")
  case True
  then show ?thesis by (simp add: jz_size_grow_doubling_checked_def)
next
  case False
  define g where "g = (if (if current \<noteq> 0 then current else initial) = 0 then 1
                       else if current \<noteq> 0 then current else initial)"
  have g: "g \<noteq> 0" "current \<le> g" by (auto simp: g_def)
  obtain r where r: "grow_loop minimum g = Some r" "minimum \<le> r" "g \<le> r"
    using grow_loop_result [OF g(1), of minimum] by blast
  then have "jz_size_grow_doubling_checked current minimum initial = Some (Some r)"
    using False by (simp add: jz_size_grow_doubling_checked_def Let_def g_def)
  with r g(2) show ?thesis by fastforce
qed

end
