(* ===== verification/Lexer_Tokens.thy ===== *)
theory Lexer_Tokens
  imports Util_Limits Ctype
begin

text \<open>
  The data of the tokenizer, include/lexer.h and src/lexer.c: token types, tokens with their
  locations, the token stream and the state of a lexer pass.
\<close>

section \<open>Tokens\<close>

text \<open>The enumerators of \<open>JZTokenType\<close>; the keyword tokens form two enumerations of their own,
  the directives (which start with an at sign) and the upper-case keywords.\<close>

datatype JZDirective =
    JZ_TOK_KW_MODULE | JZ_TOK_KW_ENDMOD | JZ_TOK_KW_PROJECT | JZ_TOK_KW_ENDPROJ | JZ_TOK_KW_BLACKBOX
  | JZ_TOK_KW_NEW | JZ_TOK_KW_TOP | JZ_TOK_KW_IMPORT | JZ_TOK_KW_GLOBAL | JZ_TOK_KW_ENDGLOB
  | JZ_TOK_KW_FEATURE | JZ_TOK_KW_ENDFEAT | JZ_TOK_KW_FEATURE_ELSE | JZ_TOK_KW_CHECK | JZ_TOK_KW_TEMPLATE
  | JZ_TOK_KW_ENDTEMPLATE | JZ_TOK_KW_APPLY | JZ_TOK_KW_SCRATCH | JZ_TOK_KW_TESTBENCH | JZ_TOK_KW_ENDTB
  | JZ_TOK_KW_SETUP | JZ_TOK_KW_UPDATE | JZ_TOK_KW_TB_CLOCK | JZ_TOK_KW_EXPECT_EQ | JZ_TOK_KW_EXPECT_NEQ
  | JZ_TOK_KW_EXPECT_TRI | JZ_TOK_KW_SIMULATION | JZ_TOK_KW_ENDSIM | JZ_TOK_KW_RUN | JZ_TOK_KW_RUN_UNTIL
  | JZ_TOK_KW_RUN_WHILE | JZ_TOK_KW_PRINT | JZ_TOK_KW_PRINT_IF | JZ_TOK_KW_TRACE | JZ_TOK_KW_SIM_SELECT
  | JZ_TOK_KW_MARK | JZ_TOK_KW_MARK_IF | JZ_TOK_KW_ALERT | JZ_TOK_KW_ALERT_IF

datatype JZKeyword =
    JZ_TOK_KW_CONST | JZ_TOK_KW_PORT | JZ_TOK_KW_WIRE | JZ_TOK_KW_REGISTER | JZ_TOK_KW_LATCH | JZ_TOK_KW_MEM
  | JZ_TOK_KW_ASYNC | JZ_TOK_KW_SYNC | JZ_TOK_KW_MUX | JZ_TOK_KW_CDC | JZ_TOK_KW_CONFIG | JZ_TOK_KW_CLOCKS
  | JZ_TOK_KW_IN_PINS | JZ_TOK_KW_OUT_PINS | JZ_TOK_KW_INOUT_PINS | JZ_TOK_KW_MAP | JZ_TOK_KW_CLOCK_GEN
  | JZ_TOK_KW_IF | JZ_TOK_KW_ELIF | JZ_TOK_KW_ELSE | JZ_TOK_KW_SELECT | JZ_TOK_KW_CASE | JZ_TOK_KW_DEFAULT
  | JZ_TOK_KW_IN | JZ_TOK_KW_OUT | JZ_TOK_KW_INOUT | JZ_TOK_KW_OVERRIDE | JZ_TOK_KW_GND | JZ_TOK_KW_VCC
  | JZ_TOK_KW_DISCONNECT | JZ_TOK_KW_TEST | JZ_TOK_KW_TAP

datatype JZTokenType =
    JZ_TOK_EOF | JZ_TOK_IDENTIFIER | JZ_TOK_NUMBER | JZ_TOK_SIZED_NUMBER | JZ_TOK_STRING | JZ_TOK_NO_CONNECT
  | JZ_TOK_LBRACE | JZ_TOK_RBRACE | JZ_TOK_LPAREN | JZ_TOK_RPAREN | JZ_TOK_LBRACKET | JZ_TOK_RBRACKET
  | JZ_TOK_SEMICOLON | JZ_TOK_COMMA | JZ_TOK_DOT | JZ_TOK_AT | JZ_TOK_OP_ASSIGN | JZ_TOK_OP_ASSIGN_Z
  | JZ_TOK_OP_ASSIGN_S | JZ_TOK_OP_DRIVE | JZ_TOK_OP_DRIVE_Z | JZ_TOK_OP_DRIVE_S | JZ_TOK_OP_LE_Z
  | JZ_TOK_OP_LE_S | JZ_TOK_OP_PLUS | JZ_TOK_OP_MINUS | JZ_TOK_OP_STAR | JZ_TOK_OP_SLASH | JZ_TOK_OP_PERCENT
  | JZ_TOK_OP_AMP | JZ_TOK_OP_PIPE | JZ_TOK_OP_CARET | JZ_TOK_OP_TILDE | JZ_TOK_OP_BANG | JZ_TOK_OP_AND_AND
  | JZ_TOK_OP_OR_OR | JZ_TOK_OP_EQ | JZ_TOK_OP_NEQ | JZ_TOK_OP_LT | JZ_TOK_OP_LE | JZ_TOK_OP_GT | JZ_TOK_OP_GE
  | JZ_TOK_OP_SHL | JZ_TOK_OP_SHR | JZ_TOK_OP_ASHR | JZ_TOK_OP_QUESTION | JZ_TOK_OP_COLON
  | JZ_TOK_DIRECTIVE JZDirective | JZ_TOK_KEYWORD JZKeyword | JZ_TOK_OTHER

datatype JZNumericBase = JZ_NUM_BASE_NONE | JZ_NUM_BASE_BIN | JZ_NUM_BASE_DEC | JZ_NUM_BASE_HEX

record JZNumericInfo =
  is_sized :: bool
  num_base :: JZNumericBase
  width_chars :: nat

record JZLocation =
  loc_filename :: string
  loc_line :: nat
  loc_column :: nat

text \<open>A NULL lexeme is \<open>None\<close>.\<close>

record JZToken =
  tok_type :: JZTokenType
  tok_loc :: JZLocation
  lexeme :: "string option"
  tok_num :: JZNumericInfo

definition zero_num :: JZNumericInfo where
  "zero_num = \<lparr>is_sized = False, num_base = JZ_NUM_BASE_NONE, width_chars = 0\<rparr>"

record JZTokenStream =
  tokens :: "JZToken list"
  capacity :: usize

record Diagnostic =
  diag_loc :: JZLocation
  diag_code :: string

record LexerState =
  filename :: string
  src :: string
  pos :: nat
  line :: nat
  column :: nat
  out :: JZTokenStream
  diagnostics :: "Diagnostic list option"
  had_error :: bool
  stop_lexing :: bool
  last_token_end :: nat
  last_token_valid :: bool

definition here :: "LexerState \<Rightarrow> JZLocation" where
  "here st = \<lparr>loc_filename = filename st, loc_line = line st, loc_column = column st\<rparr>"

end
