(* ===== verification/Parse_Core.thy ===== *)
theory Parse_Core
  imports Lexer_Tokens Util_Limits
begin

text \<open>
  The core of the recursive-descent parser (parser/parser_core.c): the cursor over the tokens,
  diagnostics, names, raw text and copies of syntax trees. A parser is a record that every
  operation takes and returns; the counter of the nesting of expressions, a static variable of
  parser_expressions.c, is a field of it. Allocations succeed.
\<close>

section \<open>Syntax trees (include/ast.h)\<close>

datatype JZASTNodeType =
    JZ_AST_MODULE | JZ_AST_BLOCK | JZ_AST_BLACKBOX | JZ_AST_FEATURE_GUARD | JZ_AST_PORT_BLOCK | JZ_AST_MODULE_INSTANCE | JZ_AST_PORT_DECL
  | JZ_AST_STMT_ASSIGN | JZ_AST_STMT_IF | JZ_AST_STMT_ELIF | JZ_AST_STMT_ELSE | JZ_AST_STMT_SELECT | JZ_AST_STMT_CASE | JZ_AST_STMT_DEFAULT
  | JZ_AST_EXPR_LITERAL | JZ_AST_EXPR_IDENTIFIER | JZ_AST_EXPR_QUALIFIED_IDENTIFIER | JZ_AST_EXPR_BUS_ACCESS | JZ_AST_EXPR_INDEXED_MEMBER_ACCESS
  | JZ_AST_EXPR_UNARY | JZ_AST_EXPR_BINARY | JZ_AST_EXPR_TERNARY | JZ_AST_EXPR_CONCAT | JZ_AST_EXPR_SLICE
  | JZ_AST_EXPR_BUILTIN_CALL | JZ_AST_EXPR_SPECIAL_DRIVER | JZ_AST_RAW_TEXT

datatype JZASTNode =
  AST_NODE (node_type: JZASTNodeType) (node_loc: JZLocation) (node_name: "string option") (node_text: "string option")
    (block_kind: "string option") (children: "JZASTNode list")

definition jz_ast_new :: "JZASTNodeType \<Rightarrow> JZLocation \<Rightarrow> JZASTNode" where
  "jz_ast_new ty loc = AST_NODE ty loc None None None []"

fun jz_ast_set_name :: "string \<Rightarrow> JZASTNode \<Rightarrow> JZASTNode" where
  "jz_ast_set_name n (AST_NODE ty loc _ tx bk cs) = AST_NODE ty loc (Some n) tx bk cs"

fun jz_ast_set_text :: "string \<Rightarrow> JZASTNode \<Rightarrow> JZASTNode" where
  "jz_ast_set_text t (AST_NODE ty loc n _ bk cs) = AST_NODE ty loc n (Some t) bk cs"

fun jz_ast_set_block_kind :: "string \<Rightarrow> JZASTNode \<Rightarrow> JZASTNode" where
  "jz_ast_set_block_kind k (AST_NODE ty loc n tx _ cs) = AST_NODE ty loc n tx (Some k) cs"

fun jz_ast_add_child :: "JZASTNode \<Rightarrow> JZASTNode \<Rightarrow> JZASTNode" where
  "jz_ast_add_child (AST_NODE ty loc n tx bk cs) c = AST_NODE ty loc n tx bk (cs @ [c])"

section \<open>The parser and its cursor\<close>

record TokenParser =
  stream :: "JZToken list"
  tpos :: nat
  g_parser_expr_depth :: u32
  tdiags :: "Diagnostic list option"

definition tk_peek :: "TokenParser \<Rightarrow> JZToken" where
  "tk_peek p = (if tpos p < length (stream p) then stream p ! tpos p else stream p ! (length (stream p) - 1))"

text \<open>The type of the current token.\<close>

definition tk_type :: "TokenParser \<Rightarrow> JZTokenType" where
  "tk_type p = tok_type (tk_peek p)"

definition tk_advance :: "TokenParser \<Rightarrow> TokenParser" where
  "tk_advance p = (if tpos p < length (stream p) then p\<lparr>tpos := tpos p + 1\<rparr> else p)"

definition tk_match :: "JZTokenType \<Rightarrow> TokenParser \<Rightarrow> bool \<times> TokenParser" where
  "tk_match ty p = (if tk_type p = ty then (True, tk_advance p) else (False, p))"

section \<open>Diagnostics\<close>

definition add_diag :: "string \<Rightarrow> TokenParser \<Rightarrow> TokenParser" where
  "add_diag code p = p\<lparr>tdiags := map_option (\<lambda>ds. ds @ [\<lparr>diag_loc = tok_loc (tk_peek p), diag_code = code\<rparr>]) (tdiags p)\<rparr>"

definition parser_error :: "TokenParser \<Rightarrow> TokenParser" where
  "parser_error p = add_diag ''PARSE_SYNTAX_ERROR'' p"

definition parser_error_rule :: "string \<Rightarrow> TokenParser \<Rightarrow> TokenParser" where
  "parser_error_rule rule_id p = add_diag rule_id p"

definition parser_report_rule :: "JZToken \<Rightarrow> string \<Rightarrow> TokenParser \<Rightarrow> TokenParser" where
  "parser_report_rule t rule_id p =
     p\<lparr>tdiags := map_option (\<lambda>ds. ds @ [\<lparr>diag_loc = tok_loc t, diag_code = rule_id\<rparr>]) (tdiags p)\<rparr>"

definition parser_error_id_syntax_or_parse :: "TokenParser \<Rightarrow> TokenParser" where
  "parser_error_id_syntax_or_parse p =
     (case lexeme (tk_peek p) of
        Some (c # _) \<Rightarrow>
          if isalnum c \<or> c \<in> {CHR ''_'', CHR ''.'', CHR ''#'', CHR ''$'', CHR ''-''} \<or> of_char c \<ge> (128 :: nat)
          then parser_report_rule (tk_peek p) ''ID_SYNTAX_INVALID'' p
          else parser_error p
      | _ \<Rightarrow> parser_error p)"

section \<open>Text of token ranges\<close>

definition parser_join_token_lexemes_spaced :: "TokenParser \<Rightarrow> nat \<Rightarrow> nat \<Rightarrow> bool \<Rightarrow> string" where
  "parser_join_token_lexemes_spaced p start stop trailing_space =
     concat (map (\<lambda>i. case lexeme (stream p ! i) of
                        None \<Rightarrow> []
                      | Some l \<Rightarrow> if trailing_space \<or> i + 1 < stop then l @ '' '' else l) [start ..< stop])"

definition parser_join_token_lexemes_compact :: "TokenParser \<Rightarrow> nat \<Rightarrow> nat \<Rightarrow> string" where
  "parser_join_token_lexemes_compact p start stop =
     concat (map (\<lambda>i. case lexeme (stream p ! i) of None \<Rightarrow> [] | Some l \<Rightarrow> l) [start ..< stop])"

definition make_raw_text_node :: "TokenParser \<Rightarrow> nat \<Rightarrow> nat \<Rightarrow> JZASTNode option" where
  "make_raw_text_node p start stop =
     (if start \<ge> stop then None
      else let node = jz_ast_new JZ_AST_RAW_TEXT (tok_loc (stream p ! start));
               buf = parser_join_token_lexemes_spaced p start stop True
           in Some (if buf = [] then node else jz_ast_set_text buf node))"

section \<open>Identifiers\<close>

definition decl_keywords :: "string list" where
  "decl_keywords = [
     ''IF'', ''ELIF'', ''ELSE'', ''SELECT'', ''CASE'', ''DEFAULT'', ''CONST'', ''PORT'', ''REGISTER'', ''LATCH'', ''WIRE'',
     ''MEM'', ''MUX'', ''CDC'', ''IN'', ''OUT'', ''INOUT'', ''ASYNCHRONOUS'', ''SYNCHRONOUS'', ''OVERRIDE'', ''CONFIG'',
     ''CLOCKS'', ''IN_PINS'', ''OUT_PINS'', ''INOUT_PINS'', ''MAP'', ''CLOCK_GEN'', ''BUS'', ''SOURCE'', ''TARGET'',
     ''IDX'', ''VCC'', ''GND'']"

definition is_decl_identifier_token :: "JZToken \<Rightarrow> bool" where
  "is_decl_identifier_token t =
     (case lexeme t of
        None \<Rightarrow> False
      | Some l \<Rightarrow> tok_type t = JZ_TOK_IDENTIFIER \<or> l \<in> set decl_keywords)"

definition accepts_segment :: "bool \<Rightarrow> bool \<Rightarrow> JZToken \<Rightarrow> bool" where
  "accepts_segment allow_config allow_decl_keywords t \<longleftrightarrow>
     lexeme t \<noteq> None \<and>
     ((if allow_decl_keywords then is_decl_identifier_token t else tok_type t = JZ_TOK_IDENTIFIER) \<or>
      (allow_config \<and> tok_type t = JZ_TOK_KEYWORD JZ_TOK_KW_CONFIG))"

text \<open>
  The loop reads a segment and goes on after a dot; the name is what it has read when no segment
  follows, so that a name may end in a dot. The result is the name and the location of its first
  segment, or None if there is none; the outer None means that the fuel ran out.
\<close>

fun qualified_name_loop ::
  "nat \<Rightarrow> bool \<Rightarrow> bool \<Rightarrow> (string \<times> JZLocation) option \<Rightarrow> TokenParser \<Rightarrow> ((string \<times> JZLocation) option \<times> TokenParser) option" where
  "qualified_name_loop 0 ac ad buf p = None"
| "qualified_name_loop (Suc n) ac ad buf p =
     (let id = tk_peek p
      in if \<not> accepts_segment ac ad id then Some (buf, p)
         else let loc = (case buf of None \<Rightarrow> tok_loc id | Some (_, l) \<Rightarrow> l);
                  s = (case buf of None \<Rightarrow> [] | Some (s, _) \<Rightarrow> s) @ the (lexeme id);
                  (dot, p1) = tk_match JZ_TOK_DOT (tk_advance p)
              in if dot then qualified_name_loop n ac ad (Some (s @ ''.'', loc)) p1 else Some (Some (s, loc), p1))"

definition parser_parse_qualified_name ::
  "nat \<Rightarrow> bool \<Rightarrow> bool \<Rightarrow> TokenParser \<Rightarrow> ((string \<times> JZLocation) option \<times> TokenParser) option" where
  "parser_parse_qualified_name n allow_config allow_decl_keywords p = qualified_name_loop n allow_config allow_decl_keywords None p"

section \<open>Copies\<close>

fun parser_clone_ast_tree :: "JZASTNode \<Rightarrow> JZASTNode" where
  "parser_clone_ast_tree (AST_NODE ty loc n tx bk cs) = AST_NODE ty loc n tx bk (map parser_clone_ast_tree cs)"

text \<open>With a depth counter, which every return restores; None when the tree is too deep.\<close>

fun parser_clone_ast_tree_checked :: "JZInputLimitKind \<Rightarrow> u32 \<Rightarrow> JZASTNode \<Rightarrow> JZASTNode option"
and clone_children_checked :: "JZInputLimitKind \<Rightarrow> u32 \<Rightarrow> JZASTNode list \<Rightarrow> JZASTNode list option" where
  "parser_clone_ast_tree_checked limit depth (AST_NODE ty loc n tx bk cs) =
     (case jz_depth_enter_checked depth limit of
        None \<Rightarrow> None
      | Some d \<Rightarrow> map_option (AST_NODE ty loc n tx bk) (clone_children_checked limit d cs))"
| "clone_children_checked limit d [] = Some []"
| "clone_children_checked limit d (c # cs) =
     (case parser_clone_ast_tree_checked limit d c of
        None \<Rightarrow> None
      | Some c' \<Rightarrow> map_option (Cons c') (clone_children_checked limit d cs))"

end
