(* ===== verification/Parse_Expr.thy ===== *)
theory Parse_Expr
  imports Parse_Core
begin

text \<open>
  The expression parser (parser/parser_expressions.c). Every function takes the parser and
  returns a node, or None after a diagnostic, with the parser it leaves. The outer option is the
  fuel: the functions that call each other (parse_expression, parse_ternary_expr,
  parse_unary_expr) and the loops take a number of steps, which parse_expression_total shows to
  be enough. The functions in between take the recursive ones as arguments.
\<close>

type_synonym parsed = "(JZASTNode option \<times> TokenParser) option"

text \<open>Going on with a node, and handing a failure up.\<close>

definition then_parse :: "parsed \<Rightarrow> (JZASTNode \<Rightarrow> TokenParser \<Rightarrow> parsed) \<Rightarrow> parsed" where
  "then_parse r f =
     (case r of
        None \<Rightarrow> None
      | Some (None, p) \<Rightarrow> Some (None, p)
      | Some (Some e, p) \<Rightarrow> f e p)"

definition fail_at :: "TokenParser \<Rightarrow> parsed" where
  "fail_at p = Some (None, parser_error p)"

section \<open>Binary operators\<close>

definition binary_node :: "string \<Rightarrow> JZLocation \<Rightarrow> JZASTNode \<Rightarrow> JZASTNode \<Rightarrow> JZASTNode" where
  "binary_node kind loc left right =
     jz_ast_add_child (jz_ast_add_child (jz_ast_set_block_kind kind (jz_ast_new JZ_AST_EXPR_BINARY loc)) left) right"

text \<open>The loop the ten levels share; \<open>ops\<close> gives the kinds of the operators of the level.\<close>

fun parse_binary_loop :: "nat \<Rightarrow> (JZTokenType \<Rightarrow> string option) \<Rightarrow> (TokenParser \<Rightarrow> parsed) \<Rightarrow> JZASTNode \<Rightarrow> TokenParser \<Rightarrow> parsed" where
  "parse_binary_loop 0 ops operand left p = None"
| "parse_binary_loop (Suc n) ops operand left p =
     (case ops (tk_type p) of
        None \<Rightarrow> Some (Some left, p)
      | Some kind \<Rightarrow>
          then_parse (operand (tk_advance p)) (\<lambda>right q.
            parse_binary_loop n ops operand (binary_node kind (tok_loc (tk_peek p)) left right) q))"

definition parse_binary_level :: "nat \<Rightarrow> (JZTokenType \<Rightarrow> string option) \<Rightarrow> (TokenParser \<Rightarrow> parsed) \<Rightarrow> TokenParser \<Rightarrow> parsed" where
  "parse_binary_level n ops operand p = then_parse (operand p) (parse_binary_loop n ops operand)"

definition multiplicative_ops :: "JZTokenType \<Rightarrow> string option" where
  "multiplicative_ops = map_of [(JZ_TOK_OP_STAR, ''MUL''), (JZ_TOK_OP_SLASH, ''DIV''), (JZ_TOK_OP_PERCENT, ''MOD'')]"

definition additive_ops :: "JZTokenType \<Rightarrow> string option" where
  "additive_ops = map_of [(JZ_TOK_OP_PLUS, ''ADD''), (JZ_TOK_OP_MINUS, ''SUB'')]"

definition shift_ops :: "JZTokenType \<Rightarrow> string option" where
  "shift_ops = map_of [(JZ_TOK_OP_SHL, ''SHL''), (JZ_TOK_OP_SHR, ''SHR''), (JZ_TOK_OP_ASHR, ''ASHR'')]"

definition relational_ops :: "JZTokenType \<Rightarrow> string option" where
  "relational_ops = map_of [(JZ_TOK_OP_LT, ''LT''), (JZ_TOK_OP_LE, ''LE''), (JZ_TOK_OP_GT, ''GT''), (JZ_TOK_OP_GE, ''GE'')]"

definition equality_ops :: "JZTokenType \<Rightarrow> string option" where
  "equality_ops = map_of [(JZ_TOK_OP_EQ, ''EQ''), (JZ_TOK_OP_NEQ, ''NEQ'')]"

definition parse_multiplicative_expr :: "nat \<Rightarrow> (TokenParser \<Rightarrow> parsed) \<Rightarrow> TokenParser \<Rightarrow> parsed" where
  "parse_multiplicative_expr n unary = parse_binary_level n multiplicative_ops unary"

definition parse_additive_expr :: "nat \<Rightarrow> (TokenParser \<Rightarrow> parsed) \<Rightarrow> TokenParser \<Rightarrow> parsed" where
  "parse_additive_expr n unary = parse_binary_level n additive_ops (parse_multiplicative_expr n unary)"

definition parse_shift_expr :: "nat \<Rightarrow> (TokenParser \<Rightarrow> parsed) \<Rightarrow> TokenParser \<Rightarrow> parsed" where
  "parse_shift_expr n unary = parse_binary_level n shift_ops (parse_additive_expr n unary)"

definition parse_relational_expr :: "nat \<Rightarrow> (TokenParser \<Rightarrow> parsed) \<Rightarrow> TokenParser \<Rightarrow> parsed" where
  "parse_relational_expr n unary = parse_binary_level n relational_ops (parse_shift_expr n unary)"

definition parse_equality_expr :: "nat \<Rightarrow> (TokenParser \<Rightarrow> parsed) \<Rightarrow> TokenParser \<Rightarrow> parsed" where
  "parse_equality_expr n unary = parse_binary_level n equality_ops (parse_relational_expr n unary)"

definition parse_bitwise_and_expr :: "nat \<Rightarrow> (TokenParser \<Rightarrow> parsed) \<Rightarrow> TokenParser \<Rightarrow> parsed" where
  "parse_bitwise_and_expr n unary = parse_binary_level n (map_of [(JZ_TOK_OP_AMP, ''BIT_AND'')]) (parse_equality_expr n unary)"

definition parse_bitwise_xor_expr :: "nat \<Rightarrow> (TokenParser \<Rightarrow> parsed) \<Rightarrow> TokenParser \<Rightarrow> parsed" where
  "parse_bitwise_xor_expr n unary = parse_binary_level n (map_of [(JZ_TOK_OP_CARET, ''BIT_XOR'')]) (parse_bitwise_and_expr n unary)"

definition parse_bitwise_or_expr :: "nat \<Rightarrow> (TokenParser \<Rightarrow> parsed) \<Rightarrow> TokenParser \<Rightarrow> parsed" where
  "parse_bitwise_or_expr n unary = parse_binary_level n (map_of [(JZ_TOK_OP_PIPE, ''BIT_OR'')]) (parse_bitwise_xor_expr n unary)"

definition parse_logical_and_expr :: "nat \<Rightarrow> (TokenParser \<Rightarrow> parsed) \<Rightarrow> TokenParser \<Rightarrow> parsed" where
  "parse_logical_and_expr n unary = parse_binary_level n (map_of [(JZ_TOK_OP_AND_AND, ''LOG_AND'')]) (parse_bitwise_or_expr n unary)"

definition parse_logical_or_expr :: "nat \<Rightarrow> (TokenParser \<Rightarrow> parsed) \<Rightarrow> TokenParser \<Rightarrow> parsed" where
  "parse_logical_or_expr n unary = parse_binary_level n (map_of [(JZ_TOK_OP_OR_OR, ''LOG_OR'')]) (parse_logical_and_expr n unary)"

section \<open>Primaries\<close>

definition builtin_names :: "string list" where
  "builtin_names = [
     ''uadd'', ''sadd'', ''umul'', ''smul'', ''gbit'', ''sbit'', ''gslice'', ''sslice'', ''oh2b'', ''b2oh'', ''prienc'',
     ''lzc'', ''usub'', ''ssub'', ''abs'', ''umin'', ''umax'', ''smin'', ''smax'', ''popcount'', ''reverse'', ''bswap'',
     ''reduce_and'', ''reduce_or'', ''reduce_xor'', ''lit'', ''clog2'', ''widthof'', ''bwidth'']"

text \<open>\<open>p->tokens[p->pos + 1 < p->count ? p->pos + 1 : p->count - 1]\<close>\<close>

definition next_token :: "TokenParser \<Rightarrow> JZToken" where
  "next_token p = stream p ! (if tpos p + 1 < length (stream p) then tpos p + 1 else length (stream p) - 1)"

definition is_builtin_call :: "TokenParser \<Rightarrow> bool" where
  "is_builtin_call p \<longleftrightarrow>
     tk_type p = JZ_TOK_IDENTIFIER \<and> (\<exists>l \<in> set builtin_names. lexeme (tk_peek p) = Some l) \<and> tok_type (next_token p) = JZ_TOK_LPAREN"

text \<open>Expressions separated by commas, added to \<open>node\<close>: arguments and elements.\<close>

fun children_loop :: "nat \<Rightarrow> (TokenParser \<Rightarrow> parsed) \<Rightarrow> JZASTNode \<Rightarrow> TokenParser \<Rightarrow> parsed" where
  "children_loop 0 expr node p = None"
| "children_loop (Suc n) expr node p =
     then_parse (expr p) (\<lambda>c p1.
       let node1 = jz_ast_add_child node c; (comma, p2) = tk_match JZ_TOK_COMMA p1
       in if comma then children_loop n expr node1 p2 else Some (Some node1, p2))"

text \<open>The children up to the closing token.\<close>

definition parse_children :: "nat \<Rightarrow> (TokenParser \<Rightarrow> parsed) \<Rightarrow> JZTokenType \<Rightarrow> JZASTNode \<Rightarrow> TokenParser \<Rightarrow> parsed" where
  "parse_children n expr close node p =
     then_parse (if tk_type p \<noteq> close then children_loop n expr node p else Some (Some node, p)) (\<lambda>node1 p1.
       let (ok, p2) = tk_match close p1 in if ok then Some (Some node1, p2) else fail_at p2)"

definition parse_builtin_call :: "nat \<Rightarrow> (TokenParser \<Rightarrow> parsed) \<Rightarrow> TokenParser \<Rightarrow> parsed" where
  "parse_builtin_call n expr p =
     (let t = tk_peek p
      in parse_children n expr JZ_TOK_RPAREN (jz_ast_set_name (the (lexeme t)) (jz_ast_new JZ_AST_EXPR_BUILTIN_CALL (tok_loc t)))
           (tk_advance (tk_advance p)))"

definition parse_name :: "nat \<Rightarrow> TokenParser \<Rightarrow> parsed" where
  "parse_name n p =
     (case parser_parse_qualified_name n True True p of
        None \<Rightarrow> None
      | Some (None, p1) \<Rightarrow> fail_at p1
      | Some (Some (buf, loc), p1) \<Rightarrow>
          Some (Some (jz_ast_set_name buf
            (jz_ast_new (if CHR ''.'' \<in> set buf then JZ_AST_EXPR_QUALIFIED_IDENTIFIER else JZ_AST_EXPR_IDENTIFIER) loc)), p1))"

definition literal_node :: "JZToken \<Rightarrow> JZASTNode" where
  "literal_node t =
     (let lit = jz_ast_new JZ_AST_EXPR_LITERAL (tok_loc t)
      in case lexeme t of None \<Rightarrow> lit | Some l \<Rightarrow> jz_ast_set_text l lit)"

definition parse_primary_expr :: "nat \<Rightarrow> (TokenParser \<Rightarrow> parsed) \<Rightarrow> TokenParser \<Rightarrow> parsed" where
  "parse_primary_expr n expr p =
     (let t = tk_peek p
      in if tok_type t = JZ_TOK_NUMBER \<or> tok_type t = JZ_TOK_SIZED_NUMBER then Some (Some (literal_node t), tk_advance p)
         else if tok_type t = JZ_TOK_KEYWORD JZ_TOK_KW_GND \<or> tok_type t = JZ_TOK_KEYWORD JZ_TOK_KW_VCC
         then Some (Some (jz_ast_set_block_kind (if tok_type t = JZ_TOK_KEYWORD JZ_TOK_KW_GND then ''GND'' else ''VCC'')
                            (jz_ast_new JZ_AST_EXPR_SPECIAL_DRIVER (tok_loc t))), tk_advance p)
         else if is_decl_identifier_token t \<or> tok_type t = JZ_TOK_KEYWORD JZ_TOK_KW_CONFIG
         then (if is_builtin_call p then parse_builtin_call n expr p else parse_name n p)
         else if tok_type t = JZ_TOK_LPAREN
         then then_parse (expr (tk_advance p)) (\<lambda>inner p1.
                let (ok, p2) = tk_match JZ_TOK_RPAREN p1 in if ok then Some (Some inner, p2) else fail_at p2)
         else fail_at p)"

section \<open>Indices, slices and member accesses\<close>

definition index_start :: "JZTokenType set" where
  "index_start = {JZ_TOK_LBRACE, JZ_TOK_LPAREN, JZ_TOK_OP_TILDE, JZ_TOK_OP_BANG, JZ_TOK_OP_PLUS, JZ_TOK_OP_MINUS,
     JZ_TOK_NUMBER, JZ_TOK_SIZED_NUMBER, JZ_TOK_KEYWORD JZ_TOK_KW_GND, JZ_TOK_KEYWORD JZ_TOK_KW_VCC, JZ_TOK_IDENTIFIER,
     JZ_TOK_KEYWORD JZ_TOK_KW_CONFIG}"

definition parse_simple_index_expr :: "(TokenParser \<Rightarrow> parsed) \<Rightarrow> TokenParser \<Rightarrow> parsed" where
  "parse_simple_index_expr expr p = (if tk_type p \<in> index_start then expr p else fail_at p)"

definition slice_node :: "JZASTNode \<Rightarrow> JZASTNode \<Rightarrow> JZASTNode \<Rightarrow> JZASTNode" where
  "slice_node base msb lsb =
     jz_ast_add_child (jz_ast_add_child (jz_ast_add_child (jz_ast_new JZ_AST_EXPR_SLICE (node_loc base)) base) msb) lsb"

text \<open>\<open>x[i].member\<close>; \<open>idx\<close> is None for the wildcard.\<close>

definition member_node :: "JZASTNode \<Rightarrow> string \<Rightarrow> JZASTNode option \<Rightarrow> JZASTNode" where
  "member_node base member idx =
     (let node = jz_ast_set_text member (jz_ast_set_name (the (node_name base)) (jz_ast_new JZ_AST_EXPR_INDEXED_MEMBER_ACCESS (node_loc base)))
      in case idx of None \<Rightarrow> jz_ast_set_block_kind ''WILDCARD'' node | Some i \<Rightarrow> jz_ast_add_child node i)"

text \<open>
  One bracket after \<open>expr\<close>, from after the \<open>[\<close>: the index or the wildcard, then the end.
  \<open>lsb\<close> is None when there is no colon.
\<close>

definition bracket_end :: "JZASTNode \<Rightarrow> JZASTNode option \<Rightarrow> JZASTNode option \<Rightarrow> TokenParser \<Rightarrow> parsed" where
  "bracket_end e msb lsb p =
     (let (close, p1) = tk_match JZ_TOK_RBRACKET p
      in if \<not> close then fail_at p1
         else let (dot, p2) = (if lsb = None then tk_match JZ_TOK_DOT p1 else (False, p1))
              in if dot
                 then (let t = tk_peek p2
                       in if \<not> is_decl_identifier_token t then fail_at p2
                          else if node_type e \<noteq> JZ_AST_EXPR_IDENTIFIER \<or> node_name e = None then fail_at p2
                          else Some (Some (member_node e (the (lexeme t)) msb), tk_advance p2))
                 else case msb of
                        None \<Rightarrow> fail_at p2
                      | Some m \<Rightarrow>
                          Some (Some (slice_node e m (case lsb of Some l \<Rightarrow> l | None \<Rightarrow> parser_clone_ast_tree m)), p2))"

definition parse_bracket :: "(TokenParser \<Rightarrow> parsed) \<Rightarrow> JZASTNode \<Rightarrow> TokenParser \<Rightarrow> parsed" where
  "parse_bracket expr e p =
     (if tk_type p = JZ_TOK_OP_STAR then bracket_end e None None (tk_advance p)
      else then_parse (parse_simple_index_expr expr p) (\<lambda>msb p1.
             let (colon, p2) = tk_match JZ_TOK_OP_COLON p1
             in if colon then then_parse (parse_simple_index_expr expr p2) (\<lambda>lsb p3. bracket_end e (Some msb) (Some lsb) p3)
                else bracket_end e (Some msb) None p2))"

fun postfix_loop :: "nat \<Rightarrow> (TokenParser \<Rightarrow> parsed) \<Rightarrow> JZASTNode \<Rightarrow> TokenParser \<Rightarrow> parsed" where
  "postfix_loop 0 expr e p = None"
| "postfix_loop (Suc n) expr e p =
     (let (open, p1) = tk_match JZ_TOK_LBRACKET p
      in if \<not> open then Some (Some e, p1) else then_parse (parse_bracket expr e p1) (postfix_loop n expr))"

definition parse_postfix_expr :: "nat \<Rightarrow> (TokenParser \<Rightarrow> parsed) \<Rightarrow> TokenParser \<Rightarrow> parsed" where
  "parse_postfix_expr n expr p = then_parse (parse_primary_expr n expr p) (postfix_loop n expr)"

section \<open>Concatenations and replications\<close>

text \<open>From after the two opening braces; \<open>count\<close> is the literal between them.\<close>

definition parse_replication :: "(TokenParser \<Rightarrow> parsed) \<Rightarrow> JZLocation \<Rightarrow> JZToken \<Rightarrow> TokenParser \<Rightarrow> parsed" where
  "parse_replication expr loc count p =
     (let node = jz_ast_add_child (jz_ast_new JZ_AST_EXPR_CONCAT loc) (literal_node count)
      in then_parse (expr p) (\<lambda>elem p1.
           let (inner, p2) = tk_match JZ_TOK_RBRACE p1
           in if \<not> inner then fail_at p2
              else let (outer, p3) = tk_match JZ_TOK_RBRACE p2
                   in if outer then Some (Some (jz_ast_add_child node elem), p3) else fail_at p3))"

definition parse_concat_or_primary_expr :: "nat \<Rightarrow> (TokenParser \<Rightarrow> parsed) \<Rightarrow> TokenParser \<Rightarrow> parsed" where
  "parse_concat_or_primary_expr n expr p =
     (if tk_type p \<noteq> JZ_TOK_LBRACE then parse_postfix_expr n expr p
      else let loc = tok_loc (tk_peek p); p1 = tk_advance p; (inner, p2) = tk_match JZ_TOK_LBRACE (tk_advance p1)
           in if (tk_type p1 = JZ_TOK_NUMBER \<or> tk_type p1 = JZ_TOK_SIZED_NUMBER) \<and> inner
              then parse_replication expr loc (tk_peek p1) p2
              else parse_children n expr JZ_TOK_RBRACE (jz_ast_new JZ_AST_EXPR_CONCAT loc) p1)"

section \<open>Unary operators, ternaries and expressions\<close>

definition unary_ops :: "JZTokenType \<Rightarrow> string option" where
  "unary_ops = map_of [(JZ_TOK_OP_TILDE, ''BIT_NOT''), (JZ_TOK_OP_BANG, ''LOG_NOT''), (JZ_TOK_OP_PLUS, ''POS''), (JZ_TOK_OP_MINUS, ''NEG'')]"

definition unary_node :: "string \<Rightarrow> JZLocation \<Rightarrow> JZASTNode \<Rightarrow> JZASTNode" where
  "unary_node kind loc operand = jz_ast_add_child (jz_ast_set_block_kind kind (jz_ast_new JZ_AST_EXPR_UNARY loc)) operand"

definition ternary_node :: "JZASTNode \<Rightarrow> JZASTNode \<Rightarrow> JZASTNode \<Rightarrow> JZASTNode" where
  "ternary_node cond t f =
     jz_ast_add_child (jz_ast_add_child (jz_ast_add_child (jz_ast_new JZ_AST_EXPR_TERNARY (node_loc cond)) cond) t) f"

fun parse_expression :: "nat \<Rightarrow> TokenParser \<Rightarrow> parsed"
and parse_ternary_expr :: "nat \<Rightarrow> TokenParser \<Rightarrow> parsed"
and parse_unary_expr :: "nat \<Rightarrow> TokenParser \<Rightarrow> parsed" where
  "parse_expression 0 p = None"
| "parse_expression (Suc n) p =
     (case jz_depth_enter_checked (g_parser_expr_depth p) JZ_LIMIT_PARSER_EXPR_DEPTH of
        None \<Rightarrow> Some (None, parser_report_rule (tk_peek p) ''PARSER_EXPR_DEPTH_LIMIT_EXCEEDED'' p)
      | Some d \<Rightarrow>
          map_option (\<lambda>(r, q). (r, q\<lparr>g_parser_expr_depth := jz_depth_leave (g_parser_expr_depth q)\<rparr>))
            (parse_ternary_expr n (p\<lparr>g_parser_expr_depth := d\<rparr>)))"
| "parse_ternary_expr 0 p = None"
| "parse_ternary_expr (Suc n) p =
     then_parse (parse_logical_or_expr n (parse_unary_expr n) p) (\<lambda>cond p1.
       let (question, p2) = tk_match JZ_TOK_OP_QUESTION p1
       in if \<not> question then Some (Some cond, p2)
          else then_parse (parse_expression n p2) (\<lambda>t p3.
                 let (colon, p4) = tk_match JZ_TOK_OP_COLON p3
                 in if \<not> colon then fail_at p4
                    else then_parse (parse_ternary_expr n p4) (\<lambda>f p5. Some (Some (ternary_node cond t f), p5))))"
| "parse_unary_expr 0 p = None"
| "parse_unary_expr (Suc n) p =
     (case unary_ops (tk_type p) of
        Some kind \<Rightarrow>
          then_parse (parse_unary_expr n (tk_advance p)) (\<lambda>operand q.
            Some (Some (unary_node kind (tok_loc (tk_peek p)) operand), q))
      | None \<Rightarrow> parse_concat_or_primary_expr n (parse_expression n) p)"

text \<open>Three steps per token and three more are enough.\<close>

definition expression_fuel :: "TokenParser \<Rightarrow> nat" where
  "expression_fuel p = 3 * length (stream p) + 4"

end
