(* ===== verification/Parse_Expr_Steps.thy ===== *)
theory Parse_Expr_Steps
  imports Parse_Expr
begin

text \<open>
  What every parsing function does to the parser, whatever the tokens: it returns, moves forward,
  restores the depth counter, and either has a node and no new diagnostic or no node and exactly
  one. \<open>reads\<close> is the interface of a parser of operands; the functions built on one are again
  such parsers.
\<close>

section \<open>The cursor\<close>

text \<open>The stream ends with an end-of-file token, which the cursor does not pass.\<close>

definition ready :: "TokenParser \<Rightarrow> bool" where
  "ready p \<longleftrightarrow> tpos p < length (stream p) \<and> tok_type (last (stream p)) = JZ_TOK_EOF \<and> lexeme (last (stream p)) = None"

definition tokens_left :: "TokenParser \<Rightarrow> nat" where
  "tokens_left p = length (stream p) - tpos p"

lemma ready_peek: "ready p \<Longrightarrow> tk_peek p = stream p ! tpos p"
  by (simp add: ready_def tk_peek_def)

lemma tokens_left_pos: "ready p \<Longrightarrow> 0 < tokens_left p"
  by (simp add: ready_def tokens_left_def)

lemma ready_advance:
  assumes "ready p" "tk_type p \<noteq> JZ_TOK_EOF \<or> lexeme (tk_peek p) \<noteq> None"
  shows "ready (tk_advance p)" "tpos (tk_advance p) = tpos p + 1"
proof -
  have "stream p \<noteq> []" using assms(1) by (auto simp: ready_def)
  then have "tpos p \<noteq> length (stream p) - 1"
    using assms ready_peek [OF assms(1)] last_conv_nth [of "stream p"] by (auto simp: ready_def tk_type_def)
  then show "ready (tk_advance p)" "tpos (tk_advance p) = tpos p + 1"
    using assms(1) by (auto simp: ready_def tk_advance_def)
qed

lemma cursor_fields [simp]:
  "stream (tk_advance p) = stream p" "g_parser_expr_depth (tk_advance p) = g_parser_expr_depth p" "tdiags (tk_advance p) = tdiags p"
  by (simp_all add: tk_advance_def)

text \<open>From \<open>p\<close> to \<open>q\<close> at least \<open>k\<close> tokens are consumed and nothing else changes.\<close>

definition moved :: "nat \<Rightarrow> TokenParser \<Rightarrow> TokenParser \<Rightarrow> bool" where
  "moved k p q \<longleftrightarrow> ready q \<and> stream q = stream p \<and> tpos p + k \<le> tpos q \<and>
     g_parser_expr_depth q = g_parser_expr_depth p \<and> tdiags q = tdiags p"

definition failed :: "TokenParser \<Rightarrow> TokenParser \<Rightarrow> bool" where
  "failed p q \<longleftrightarrow> ready q \<and> stream q = stream p \<and> tpos p \<le> tpos q \<and> g_parser_expr_depth q = g_parser_expr_depth p \<and>
     (\<exists>d. tdiags q = map_option (\<lambda>ds. ds @ [d]) (tdiags p))"

definition outcome :: "nat \<Rightarrow> TokenParser \<Rightarrow> parsed \<Rightarrow> bool" where
  "outcome k p x \<longleftrightarrow> (case x of None \<Rightarrow> False | Some (None, q) \<Rightarrow> failed p q | Some (Some _, q) \<Rightarrow> moved k p q)"

named_theorems move_intros

lemma moved_refl [move_intros]: "ready p \<Longrightarrow> moved 0 p p"
  by (simp add: moved_def)

lemma moved_trans: "moved j p q \<Longrightarrow> moved k q r \<Longrightarrow> moved (j + k) p r"
  by (auto simp: moved_def)

lemma moved_le: "moved k p q \<Longrightarrow> j \<le> k \<Longrightarrow> moved j p q"
  by (auto simp: moved_def)

lemma moved_ready: "moved k p q \<Longrightarrow> ready q"
  by (simp add: moved_def)

lemma moved_left: "moved k p q \<Longrightarrow> tokens_left q + k \<le> tokens_left p"
  by (auto simp: moved_def tokens_left_def ready_def)

lemma moved_failed: "moved k p q \<Longrightarrow> failed q r \<Longrightarrow> failed p r"
  by (auto simp: moved_def failed_def)

lemma advance_moved: "ready p \<Longrightarrow> tk_type p \<noteq> JZ_TOK_EOF \<or> lexeme (tk_peek p) \<noteq> None \<Longrightarrow> moved 1 p (tk_advance p)"
  using ready_advance by (simp add: moved_def)

lemma match_moved:
  assumes "ready p" "ty \<noteq> JZ_TOK_EOF" "tk_match ty p = (b, q)"
  shows "moved (of_bool b) p q" "b \<longleftrightarrow> tk_type p = ty"
  using assms advance_moved [OF assms(1)] moved_refl [OF assms(1)] by (auto simp: tk_match_def split: if_splits)

lemma fail_outcome: "ready p \<Longrightarrow> outcome k p (fail_at p)"
  by (auto simp: outcome_def fail_at_def failed_def parser_error_def add_diag_def ready_def)

lemma outcome_some: "moved k p q \<Longrightarrow> outcome k p (Some (Some e, q))"
  by (simp add: outcome_def)

lemma outcome_le: "outcome k p x \<Longrightarrow> j \<le> k \<Longrightarrow> outcome j p x"
  by (auto simp: outcome_def split: option.splits prod.splits intro: moved_le)

lemma outcome_after: "moved j p q \<Longrightarrow> outcome k q x \<Longrightarrow> outcome (j + k) p x"
  by (auto simp: outcome_def split: option.splits prod.splits intro: moved_trans moved_failed)

lemma then_outcome:
  assumes "outcome j p x" "\<And>e q. moved j p q \<Longrightarrow> outcome k q (f e q)"
  shows "outcome (j + k) p (then_parse x f)"
proof -
  obtain r q where x: "x = Some (r, q)" "case r of Some _ \<Rightarrow> moved j p q | None \<Rightarrow> failed p q"
    using assms(1) by (auto simp: outcome_def split: option.splits prod.splits)
  show ?thesis
  proof (cases r)
    case None
    then show ?thesis using x by (simp add: then_parse_def outcome_def)
  next
    case (Some e)
    then have m: "moved j p q" using x(2) by simp
    then show ?thesis using outcome_after [OF m assms(2) [OF m]] x(1) Some by (simp add: then_parse_def)
  qed
qed

section \<open>Parsers of operands\<close>

locale reads =
  fixes f :: "TokenParser \<Rightarrow> parsed" and m :: nat
  assumes reads_node: "ready p \<Longrightarrow> tokens_left p \<le> m \<Longrightarrow> outcome 1 p (f p)"
begin

lemma binary_loop_outcome:
  assumes "ops JZ_TOK_EOF = None"
  shows "ready p \<Longrightarrow> tokens_left p \<le> Suc m \<Longrightarrow> tokens_left p \<le> n \<Longrightarrow> outcome 0 p (parse_binary_loop n ops f e p)"
proof (induction n arbitrary: e p)
  case 0
  then show ?case using tokens_left_pos [of p] by simp
next
  case (Suc n)
  show ?case
  proof (cases "ops (tk_type p)")
    case None
    then show ?thesis using outcome_some [OF moved_refl [OF Suc.prems(1)]] by simp
  next
    case (Some kind)
    then have a: "moved 1 p (tk_advance p)" using advance_moved [OF Suc.prems(1)] assms by (metis option.distinct(1))
    have o: "outcome 1 (tk_advance p) (f (tk_advance p))"
      using reads_node [OF moved_ready [OF a]] moved_left [OF a] Suc.prems(2) by simp
    have "outcome (1 + 0) (tk_advance p) (then_parse (f (tk_advance p))
        (\<lambda>right q. parse_binary_loop n ops f (binary_node kind (tok_loc (tk_peek p)) e right) q))"
    proof (rule then_outcome [OF o])
      fix r q assume q: "moved 1 (tk_advance p) q"
      show "outcome 0 q (parse_binary_loop n ops f (binary_node kind (tok_loc (tk_peek p)) e r) q)"
        using Suc.IH [OF moved_ready [OF q]] moved_left [OF a] moved_left [OF q] Suc.prems(2,3) by simp
    qed
    from outcome_after [OF a this] show ?thesis using Some outcome_le by fastforce
  qed
qed

lemma binary_level_reads:
  assumes "ops JZ_TOK_EOF = None" "m \<le> n"
  shows "reads (parse_binary_level n ops f) m"
proof
  fix p assume p: "ready p" "tokens_left p \<le> m"
  have "outcome (1 + 0) p (then_parse (f p) (parse_binary_loop n ops f))"
  proof (rule then_outcome [OF reads_node [OF p]])
    fix e q assume q: "moved 1 p q"
    then show "outcome 0 q (parse_binary_loop n ops f e q)"
      using binary_loop_outcome [of ops, OF assms(1) moved_ready [OF q]] moved_left [OF q] p(2) assms(2) by simp
  qed
  then show "outcome 1 p (parse_binary_level n ops f p)" by (simp add: parse_binary_level_def)
qed

lemma children_loop_outcome:
  "ready p \<Longrightarrow> tokens_left p \<le> m \<Longrightarrow> tokens_left p \<le> n \<Longrightarrow> outcome 1 p (children_loop n f e p)"
proof (induction n arbitrary: e p)
  case 0
  then show ?case using tokens_left_pos [of p] by simp
next
  case (Suc n)
  have "outcome (1 + 0) p (children_loop (Suc n) f e p)" unfolding children_loop.simps
  proof (rule then_outcome [OF reads_node [OF Suc.prems(1,2)]])
    fix c q assume q: "moved 1 p q"
    obtain b q2 where b: "tk_match JZ_TOK_COMMA q = (b, q2)" by fastforce
    note M = match_moved [OF moved_ready [OF q] _ b]
    have l: "tokens_left q2 + of_bool b \<le> tokens_left q" "tokens_left q + 1 \<le> tokens_left p"
      using moved_left [OF M(1)] moved_left [OF q] by simp_all
    show "outcome 0 q (let node1 = jz_ast_add_child e c; (comma, p2) = tk_match JZ_TOK_COMMA q
            in if comma then children_loop n f node1 p2 else Some (Some node1, p2))"
    proof (cases b)
      case True
      have "outcome 1 q2 (children_loop n f (jz_ast_add_child e c) q2)"
        using Suc.IH [of q2] moved_ready [OF M(1)] l Suc.prems(2,3) True by simp
      from outcome_after [OF M(1) this] show ?thesis using outcome_le b True by (fastforce simp: Let_def)
    next
      case False
      then show ?thesis using M(1) b by (simp add: outcome_some)
    qed
  qed
  then show ?case by simp
qed

text \<open>The end of a construct: a closing token, or a failure.\<close>

lemma close_outcome:
  assumes "ready p" "ty \<noteq> JZ_TOK_EOF"
  shows "outcome 0 p (let (b, q) = tk_match ty p in if b then Some (Some e, q) else fail_at q)"
proof -
  obtain b q where b: "tk_match ty p = (b, q)" by fastforce
  note M = match_moved [OF assms b]
  show ?thesis
    using outcome_some [OF moved_le [OF M(1), of 0]] outcome_after [OF M(1) fail_outcome [OF moved_ready [OF M(1)], of 0]] b by auto
qed

lemma parse_children_outcome:
  assumes "ready p" "tokens_left p \<le> m" "m \<le> n" "close \<noteq> JZ_TOK_EOF"
  shows "outcome 0 p (parse_children n f close e p)"
proof -
  have "outcome 0 p (if tk_type p \<noteq> close then children_loop n f e p else Some (Some e, p))"
    using outcome_le [OF children_loop_outcome [OF assms(1,2)]] outcome_some [OF moved_refl [OF assms(1)]] assms(2,3) by simp
  then have "outcome (0 + 0) p (parse_children n f close e p)"
    unfolding parse_children_def by (rule then_outcome) (rule close_outcome [OF moved_ready assms(4)])
  then show ?thesis by simp
qed

end

section \<open>Names, primaries and postfixes\<close>

lemma qualified_name_loop_outcome:
  "ready p \<Longrightarrow> tokens_left p \<le> n \<Longrightarrow> \<exists>b q. qualified_name_loop n ac ad buf p = Some (b, q) \<and>
     moved (of_bool (accepts_segment ac ad (tk_peek p))) p q \<and> (b = None \<longleftrightarrow> buf = None \<and> \<not> accepts_segment ac ad (tk_peek p))"
proof (induction n arbitrary: buf p)
  case 0
  then show ?case using tokens_left_pos [of p] by simp
next
  case (Suc n)
  show ?case
  proof (cases "accepts_segment ac ad (tk_peek p)")
    case False
    then show ?thesis using moved_refl [OF Suc.prems(1)] by (auto simp: Let_def)
  next
    case True
    then have a: "moved 1 p (tk_advance p)" using advance_moved [OF Suc.prems(1)] by (simp add: accepts_segment_def)
    obtain b q where b: "tk_match JZ_TOK_DOT (tk_advance p) = (b, q)" by fastforce
    note M = match_moved [OF moved_ready [OF a] _ b]
    have l: "tokens_left q \<le> n" using moved_left [OF a] moved_left [OF M(1)] Suc.prems(2) by simp
    have m: "moved 1 p q" using moved_le [OF moved_trans [OF a M(1)]] by simp
    show ?thesis
    proof (cases b)
      case False
      then show ?thesis using True b m by (auto simp: Let_def)
    next
      case d: True
      let ?loc = "case buf of None \<Rightarrow> tok_loc (tk_peek p) | Some (_, l) \<Rightarrow> l"
      let ?s = "(case buf of None \<Rightarrow> [] | Some (s, _) \<Rightarrow> s) @ the (lexeme (tk_peek p)) @ ''.''"
      obtain bf r where r: "qualified_name_loop n ac ad (Some (?s, ?loc)) q = Some (bf, r)" "moved 0 q r" "bf \<noteq> None"
        using Suc.IH [OF moved_ready [OF m] l, of "Some (?s, ?loc)"] by (auto intro: moved_le)
      have "qualified_name_loop (Suc n) ac ad buf p = Some (bf, r)" using True b d r(1) by (simp add: Let_def)
      then show ?thesis using True moved_trans [OF m r(2)] r(3) by auto
    qed
  qed
qed

lemma parse_name_outcome:
  assumes "ready p" "tokens_left p \<le> n"
  shows "outcome 1 p (parse_name n p)"
proof -
  obtain b q where b: "qualified_name_loop n True True None p = Some (b, q)" "moved (of_bool (accepts_segment True True (tk_peek p))) p q"
      "b = None \<longleftrightarrow> \<not> accepts_segment True True (tk_peek p)"
    using qualified_name_loop_outcome [OF assms, of True True None] by auto
  then show ?thesis using outcome_after [OF b(2) fail_outcome [OF moved_ready [OF b(2)], of 1]]
    by (cases b) (auto simp: parse_name_def parser_parse_qualified_name_def outcome_some)
qed

lemma builtin_call_ready:
  assumes "ready p" "is_builtin_call p"
  shows "moved 2 p (tk_advance (tk_advance p))"
proof -
  have a: "moved 1 p (tk_advance p)" using advance_moved [OF assms(1)] assms(2) by (simp add: is_builtin_call_def)
  then have "tk_peek (tk_advance p) = next_token p"
    using ready_advance(2) [OF assms(1)] assms(2) ready_peek [OF moved_ready [OF a]] moved_ready [OF a]
    by (simp add: next_token_def is_builtin_call_def ready_def)
  then have "tk_type (tk_advance p) = JZ_TOK_LPAREN" using assms(2) by (simp add: is_builtin_call_def tk_type_def)
  then have "moved 1 (tk_advance p) (tk_advance (tk_advance p))" using advance_moved [OF moved_ready [OF a]] by simp
  from moved_trans [OF a this] show ?thesis by (simp add: numeral_2_eq_2)
qed

context reads
begin

lemma primary_outcome:
  assumes "ready p" "tokens_left p \<le> Suc m" "Suc m \<le> n"
  shows "outcome 1 p (parse_primary_expr n f p)"
proof -
  let ?t = "tk_peek p"
  have adv: "moved 1 p (tk_advance p)" if "tok_type ?t \<noteq> JZ_TOK_EOF" using advance_moved [OF assms(1)] that by (simp add: tk_type_def)
  consider (leaf) "tok_type ?t \<in> {JZ_TOK_NUMBER, JZ_TOK_SIZED_NUMBER, JZ_TOK_KEYWORD JZ_TOK_KW_GND, JZ_TOK_KEYWORD JZ_TOK_KW_VCC}"
    | (name) "tok_type ?t \<notin> {JZ_TOK_NUMBER, JZ_TOK_SIZED_NUMBER, JZ_TOK_KEYWORD JZ_TOK_KW_GND, JZ_TOK_KEYWORD JZ_TOK_KW_VCC}"
        "is_decl_identifier_token ?t \<or> tok_type ?t = JZ_TOK_KEYWORD JZ_TOK_KW_CONFIG"
    | (paren) "tok_type ?t = JZ_TOK_LPAREN" "\<not> is_decl_identifier_token ?t"
    | (other) "tok_type ?t \<notin> {JZ_TOK_NUMBER, JZ_TOK_SIZED_NUMBER, JZ_TOK_KEYWORD JZ_TOK_KW_GND, JZ_TOK_KEYWORD JZ_TOK_KW_VCC, JZ_TOK_LPAREN}"
        "\<not> (is_decl_identifier_token ?t \<or> tok_type ?t = JZ_TOK_KEYWORD JZ_TOK_KW_CONFIG)"
    by auto
  then show ?thesis
  proof cases
    case leaf
    then have "tok_type ?t \<noteq> JZ_TOK_EOF" by auto
    then show ?thesis using leaf outcome_some [OF adv] by (auto simp: parse_primary_expr_def Let_def)
  next
    case name
    show ?thesis
    proof (cases "is_builtin_call p")
      case True
      note M = builtin_call_ready [OF assms(1) True]
      have "outcome 0 (tk_advance (tk_advance p)) (parse_children n f JZ_TOK_RPAREN e (tk_advance (tk_advance p)))" for e
        using parse_children_outcome [OF moved_ready [OF M]] moved_left [OF M] assms(2,3) by simp
      from outcome_le [OF outcome_after [OF M this], of 1] show ?thesis
        using name True by (simp add: parse_primary_expr_def parse_builtin_call_def Let_def)
    next
      case False
      then show ?thesis using name parse_name_outcome [OF assms(1), of n] assms(2,3) by (simp add: parse_primary_expr_def Let_def)
    qed
  next
    case paren
    have a: "moved 1 p (tk_advance p)" using adv paren by simp
    have o: "outcome 1 (tk_advance p) (f (tk_advance p))" using reads_node [OF moved_ready [OF a]] moved_left [OF a] assms(2) by simp
    have "outcome (1 + 0) (tk_advance p) (then_parse (f (tk_advance p)) (\<lambda>inner p1.
             let (ok, p2) = tk_match JZ_TOK_RPAREN p1 in if ok then Some (Some inner, p2) else fail_at p2))"
      by (rule then_outcome [OF o]) (rule close_outcome [OF moved_ready], simp_all)
    from outcome_le [OF outcome_after [OF a this], of 1] show ?thesis using paren by (simp add: parse_primary_expr_def Let_def)
  next
    case other
    then show ?thesis using fail_outcome [OF assms(1)] by (auto simp: parse_primary_expr_def Let_def)
  qed
qed

lemma index_outcome:
  assumes "ready p" "tokens_left p \<le> m"
  shows "outcome 1 p (parse_simple_index_expr f p)"
  using reads_node [OF assms] fail_outcome [OF assms(1)] by (simp add: parse_simple_index_expr_def)

lemma bracket_end_outcome:
  assumes "ready p"
  shows "outcome 1 p (bracket_end e msb lsb p)"
proof -
  obtain b q where b: "tk_match JZ_TOK_RBRACKET p = (b, q)" by fastforce
  note M = match_moved [OF assms _ b]
  obtain d r where d: "(if lsb = None then tk_match JZ_TOK_DOT q else (False, q)) = (d, r)" by fastforce
  have D: "moved 0 q r" using d match_moved(1) [OF moved_ready [OF M(1)] _, of JZ_TOK_DOT d r] moved_refl [OF moved_ready [OF M(1)]]
    by (auto split: if_splits intro: moved_le)
  show ?thesis
  proof (cases b)
    case False
    then show ?thesis using b outcome_after [OF M(1) fail_outcome [OF moved_ready [OF M(1)], of 1]] by (simp add: bracket_end_def)
  next
    case True
    have m: "moved 1 p r" using moved_trans [OF M(1) D] True by simp
    have f: "outcome 1 p (fail_at r)" using outcome_le [OF outcome_after [OF m fail_outcome [OF moved_ready [OF m], of 0]]] by simp
    have s: "outcome 1 p (Some (Some x, r))" for x by (rule outcome_some [OF m])
    have a: "outcome 1 p (Some (Some x, tk_advance r))" if "is_decl_identifier_token (tk_peek r)" for x
    proof -
      have "lexeme (tk_peek r) \<noteq> None" using that by (auto simp: is_decl_identifier_token_def split: option.splits)
      then have "moved 1 r (tk_advance r)" using advance_moved [OF moved_ready [OF m]] by simp
      then show ?thesis using outcome_some [OF moved_le [OF moved_trans [OF m]]] by simp
    qed
    show ?thesis using True b d f s a by (auto simp: bracket_end_def Let_def split: option.split)
  qed
qed

lemma bracket_outcome:
  assumes "ready p" "tokens_left p \<le> m"
  shows "outcome 1 p (parse_bracket f e p)"
proof (cases "tk_type p = JZ_TOK_OP_STAR")
  case True
  then have a: "moved 1 p (tk_advance p)" using advance_moved [OF assms(1)] by simp
  show ?thesis
    using outcome_le [OF outcome_after [OF a bracket_end_outcome [OF moved_ready [OF a]]], of 1] True by (simp add: parse_bracket_def)
next
  case False
  have "outcome (1 + 0) p (then_parse (parse_simple_index_expr f p) (\<lambda>msb p1.
      let (colon, p2) = tk_match JZ_TOK_OP_COLON p1
      in if colon then then_parse (parse_simple_index_expr f p2) (\<lambda>lsb p3. bracket_end e (Some msb) (Some lsb) p3)
         else bracket_end e (Some msb) None p2))"
  proof (rule then_outcome [OF index_outcome [OF assms]])
    fix msb q assume q: "moved 1 p q"
    obtain b r where b: "tk_match JZ_TOK_OP_COLON q = (b, r)" by fastforce
    have "JZ_TOK_OP_COLON \<noteq> JZ_TOK_EOF" by simp
    note M = match_moved [OF moved_ready [OF q] this b]
    have l: "tokens_left r \<le> m" using moved_left [OF q] moved_left [OF M(1)] assms(2) by simp
    have "outcome (1 + 1) r (then_parse (parse_simple_index_expr f r) (\<lambda>lsb p3. bracket_end e (Some msb) (Some lsb) p3))"
      by (rule then_outcome [OF index_outcome [OF moved_ready [OF M(1)] l] bracket_end_outcome [OF moved_ready]])
    note T = outcome_le [OF outcome_after [OF M(1) this], of 0]
    note F = outcome_le [OF outcome_after [OF M(1) bracket_end_outcome [OF moved_ready [OF M(1)]]], of 0]
    show "outcome 0 q (let (colon, p2) = tk_match JZ_TOK_OP_COLON q
        in if colon then then_parse (parse_simple_index_expr f p2) (\<lambda>lsb p3. bracket_end e (Some msb) (Some lsb) p3)
           else bracket_end e (Some msb) None p2)"
      using b T F by auto
  qed
  then show ?thesis using False by (simp add: parse_bracket_def)
qed

lemma postfix_loop_outcome:
  "ready p \<Longrightarrow> tokens_left p \<le> Suc m \<Longrightarrow> tokens_left p \<le> n \<Longrightarrow> outcome 0 p (postfix_loop n f e p)"
proof (induction n arbitrary: e p)
  case 0
  then show ?case using tokens_left_pos [of p] by simp
next
  case (Suc n)
  obtain b q where b: "tk_match JZ_TOK_LBRACKET p = (b, q)" by fastforce
  note M = match_moved [OF Suc.prems(1) _ b]
  show ?case
  proof (cases b)
    case False
    then show ?thesis using M(1) b by (simp add: outcome_some)
  next
    case True
    have l: "tokens_left q \<le> m" "tokens_left q \<le> n" using moved_left [OF M(1)] Suc.prems(2,3) True by simp_all
    have "outcome (1 + 0) q (then_parse (parse_bracket f e q) (postfix_loop n f))"
    proof (rule then_outcome [OF bracket_outcome [OF moved_ready [OF M(1)] l(1)]])
      fix e1 q1 assume q1: "moved 1 q q1"
      show "outcome 0 q1 (postfix_loop n f e1 q1)"
        using Suc.IH [OF moved_ready [OF q1]] moved_left [OF q1] l by simp
    qed simp_all
    from outcome_le [OF outcome_after [OF M(1) this], of 0] show ?thesis using b True by simp
  qed
qed

lemma postfix_outcome:
  assumes "ready p" "tokens_left p \<le> Suc m" "Suc m \<le> n"
  shows "outcome 1 p (parse_postfix_expr n f p)"
proof -
  have "outcome (1 + 0) p (then_parse (parse_primary_expr n f p) (postfix_loop n f))"
  proof (rule then_outcome [OF primary_outcome [OF assms]])
    fix e q assume q: "moved 1 p q"
    show "outcome 0 q (postfix_loop n f e q)" using postfix_loop_outcome [OF moved_ready [OF q]] moved_left [OF q] assms(2,3) by simp
  qed
  then show ?thesis by (simp add: parse_postfix_expr_def)
qed

lemma replication_outcome:
  assumes "ready p" "tokens_left p \<le> m"
  shows "outcome 1 p (parse_replication f loc c p)"
proof -
  have "outcome (1 + 0) p (parse_replication f loc c p)" unfolding parse_replication_def Let_def
  proof (rule then_outcome [OF reads_node [OF assms]])
    fix e q assume q: "moved 1 p q"
    obtain b r where b: "tk_match JZ_TOK_RBRACE q = (b, r)" by fastforce
    note M = match_moved [OF moved_ready [OF q] _ b]
    have R: "ready r" using moved_ready [OF M(1)] by simp
    have "JZ_TOK_RBRACE \<noteq> JZ_TOK_EOF" by simp
    note C = outcome_le [OF outcome_after [OF M(1) close_outcome [OF R this]], of 0]
    note F = outcome_le [OF outcome_after [OF M(1) fail_outcome [OF R, of 0]], of 0]
    show "outcome 0 q (case tk_match JZ_TOK_RBRACE q of (inner, p2) \<Rightarrow>
            if \<not> inner then fail_at p2
            else case tk_match JZ_TOK_RBRACE p2 of (outer, p3) \<Rightarrow>
              if outer then Some (Some (jz_ast_add_child (jz_ast_add_child (jz_ast_new JZ_AST_EXPR_CONCAT loc) (literal_node c)) e), p3)
              else fail_at p3)"
      using b C F by (simp add: Let_def)
  qed
  then show ?thesis by simp
qed

lemma concat_outcome:
  assumes "ready p" "tokens_left p \<le> Suc m" "Suc m \<le> n"
  shows "outcome 1 p (parse_concat_or_primary_expr n f p)"
proof (cases "tk_type p = JZ_TOK_LBRACE")
  case False
  then show ?thesis using postfix_outcome [OF assms] by (simp add: parse_concat_or_primary_expr_def)
next
  case True
  then have a: "moved 1 p (tk_advance p)" using advance_moved [OF assms(1)] by simp
  have "outcome 0 (tk_advance p) (parse_children n f JZ_TOK_RBRACE e (tk_advance p))" for e
    using parse_children_outcome [OF moved_ready [OF a]] moved_left [OF a] assms(2,3) by simp
  note C = outcome_le [OF outcome_after [OF a this], of 1]
  obtain b q where b: "tk_match JZ_TOK_LBRACE (tk_advance (tk_advance p)) = (b, q)" by fastforce
  have R: "outcome 1 p (parse_replication f loc c q)"
    if t: "tk_type (tk_advance p) = JZ_TOK_NUMBER \<or> tk_type (tk_advance p) = JZ_TOK_SIZED_NUMBER" for loc c
  proof -
    have "moved 1 (tk_advance p) (tk_advance (tk_advance p))" using advance_moved [OF moved_ready [OF a]] t by auto
    note m2 = moved_trans [OF a this]
    have "JZ_TOK_LBRACE \<noteq> JZ_TOK_EOF" by simp
    note M = match_moved(1) [OF moved_ready [OF m2] this b]
    have "tokens_left q \<le> m" using moved_left [OF m2] moved_left [OF M] assms(2) by simp
    from outcome_le [OF outcome_after [OF moved_trans [OF m2 M] replication_outcome [OF moved_ready [OF M] this]], of 1]
    show ?thesis by simp
  qed
  show ?thesis using True b C R by (auto simp: parse_concat_or_primary_expr_def Let_def)
qed

lemma levels_read:
  assumes "m \<le> n"
  shows "reads (parse_logical_or_expr n f) m"
proof -
  have r: "reads f m" by unfold_locales
  have "reads (parse_binary_level n ops g) m" if "reads g m" "ops JZ_TOK_EOF = None" for g ops
    using reads.binary_level_reads [OF that(1), of ops n] that(2) assms by simp
  then show ?thesis using r
    by (simp add: parse_logical_or_expr_def parse_logical_and_expr_def parse_bitwise_or_expr_def parse_bitwise_xor_expr_def
        parse_bitwise_and_expr_def parse_equality_expr_def parse_relational_expr_def parse_shift_expr_def parse_additive_expr_def
        parse_multiplicative_expr_def multiplicative_ops_def additive_ops_def shift_ops_def relational_ops_def equality_ops_def)
qed

end

section \<open>The parser of expressions\<close>

lemma enter_leave:
  assumes "jz_depth_enter_checked d JZ_LIMIT_PARSER_EXPR_DEPTH = Some d1"
  shows "jz_depth_leave d1 = d"
proof -
  have d: "d1 = d + 1" "ucast d < (512 :: usize)" using assms by (simp_all add: jz_depth_enter_checked_def Let_def split: if_splits)
  have "unat d < 2 ^ 32" using unsigned_less [of d] by simp
  then have "unat (ucast d :: usize) = unat d" by (simp add: unsigned_ucast_eq take_bit_nat_eq_self)
  then have "unat d < 512" using d(2) by (simp add: word_less_nat_alt)
  then have "unat (d + 1) = unat d + 1" by (simp add: unat_word_ariths)
  then have "0 < d + 1" by (simp add: word_less_nat_alt)
  then show ?thesis using d(1) by (simp add: jz_depth_leave_def)
qed

lemma depth_moved: "moved k (p\<lparr>g_parser_expr_depth := d\<rparr>) q \<Longrightarrow> moved k p (q\<lparr>g_parser_expr_depth := g_parser_expr_depth p\<rparr>)"
  by (auto simp: moved_def ready_def)

lemma depth_failed: "failed (p\<lparr>g_parser_expr_depth := d\<rparr>) q \<Longrightarrow> failed p (q\<lparr>g_parser_expr_depth := g_parser_expr_depth p\<rparr>)"
  by (auto simp: failed_def ready_def)

lemma parser_outcomes:
  "ready p \<Longrightarrow> 3 * tokens_left p + 2 \<le> n \<Longrightarrow> outcome 1 p (parse_expression n p)"
  "ready p \<Longrightarrow> 3 * tokens_left p + 1 \<le> n \<Longrightarrow> outcome 1 p (parse_ternary_expr n p)"
  "ready p \<Longrightarrow> 3 * tokens_left p \<le> n \<Longrightarrow> outcome 1 p (parse_unary_expr n p)"
proof (induction n arbitrary: p)
  case 0
  { case 1 then show ?case by simp }
  { case 2 then show ?case by simp }
  { case 3 then show ?case using tokens_left_pos [of p] by simp }
next
  case (Suc n)
  { case 1
    show ?case
    proof (cases "jz_depth_enter_checked (g_parser_expr_depth p) JZ_LIMIT_PARSER_EXPR_DEPTH")
      case None
      then show ?thesis using 1(1) by (auto simp: outcome_def failed_def parser_report_rule_def ready_def)
    next
      case (Some d)
      let ?p = "p\<lparr>g_parser_expr_depth := d\<rparr>"
      have p: "ready ?p" "tokens_left ?p = tokens_left p" using 1(1) by (simp_all add: ready_def tokens_left_def)
      have o: "outcome 1 ?p (parse_ternary_expr n ?p)" using Suc(2) [OF p(1)] p(2) 1(2) by simp
      then obtain r q where r: "parse_ternary_expr n ?p = Some (r, q)" by (auto simp: outcome_def split: option.splits)
      have "g_parser_expr_depth q = d" using o r by (auto simp: outcome_def moved_def failed_def split: option.splits)
      then have "jz_depth_leave (g_parser_expr_depth q) = g_parser_expr_depth p" using enter_leave [OF Some] by simp
      then show ?thesis using Some o r depth_moved [where k = 1 and p = p and d = d and q = q] depth_failed [where p = p and d = d and q = q]
        by (auto simp: outcome_def split: option.splits)
    qed }
  { case 2
    have u: "reads (parse_unary_expr n) (tokens_left p)"
      by unfold_locales (use Suc(3) 2(2) in simp)
    have l: "tokens_left p \<le> n" using 2(2) by simp
    have "outcome (1 + 0) p (parse_ternary_expr (Suc n) p)" unfolding parse_ternary_expr.simps
    proof (rule then_outcome [OF reads.reads_node [OF reads.levels_read [OF u l] 2(1) order_refl]])
      fix c q assume q: "moved 1 p q"
      obtain b r where b: "tk_match JZ_TOK_OP_QUESTION q = (b, r)" by fastforce
      note M = match_moved [OF moved_ready [OF q] _ b]
      show "outcome 0 q (let (question, p2) = tk_match JZ_TOK_OP_QUESTION q
          in if \<not> question then Some (Some c, p2)
             else then_parse (parse_expression n p2) (\<lambda>t p3.
                    let (colon, p4) = tk_match JZ_TOK_OP_COLON p3
                    in if \<not> colon then fail_at p4
                       else then_parse (parse_ternary_expr n p4) (\<lambda>f p5. Some (Some (ternary_node c t f), p5))))"
      proof (cases b)
        case False
        then show ?thesis using M(1) b by (simp add: outcome_some)
      next
        case True
        have R: "ready r" "3 * tokens_left r + 2 \<le> n" using moved_ready [OF M(1)] moved_left [OF q] moved_left [OF M(1)] 2(2) True by simp_all
        have "outcome (1 + 0) r (then_parse (parse_expression n r) (\<lambda>t p3.
            let (colon, p4) = tk_match JZ_TOK_OP_COLON p3
            in if \<not> colon then fail_at p4
               else then_parse (parse_ternary_expr n p4) (\<lambda>f p5. Some (Some (ternary_node c t f), p5))))"
        proof (rule then_outcome [OF Suc(1) [OF R]])
          fix t s assume s: "moved 1 r s"
          obtain d u where d: "tk_match JZ_TOK_OP_COLON s = (d, u)" by fastforce
          have "JZ_TOK_OP_COLON \<noteq> JZ_TOK_EOF" by simp
          note D = match_moved(1) [OF moved_ready [OF s] this d]
          have U: "ready u" "3 * tokens_left u + 1 \<le> n" using moved_ready [OF D] moved_left [OF s] moved_left [OF D] R(2) by simp_all
          have "outcome (1 + 0) u (then_parse (parse_ternary_expr n u) (\<lambda>f p5. Some (Some (ternary_node c t f), p5)))"
            by (rule then_outcome [OF Suc(2) [OF U]]) (rule outcome_some [OF moved_refl [OF moved_ready]])
          note T = outcome_le [OF outcome_after [OF D this], of 0]
          note F = outcome_le [OF outcome_after [OF D fail_outcome [OF U(1), of 0]], of 0]
          show "outcome 0 s (let (colon, p4) = tk_match JZ_TOK_OP_COLON s
              in if \<not> colon then fail_at p4
                 else then_parse (parse_ternary_expr n p4) (\<lambda>f p5. Some (Some (ternary_node c t f), p5)))"
            using d T F by auto
        qed
        from outcome_le [OF outcome_after [OF M(1) this], of 0] show ?thesis using b True by simp
      qed
    qed
    then show ?case by simp }
  { case 3
    show ?case
    proof (cases "unary_ops (tk_type p)")
      case (Some k)
      then have "tk_type p \<noteq> JZ_TOK_EOF" by (auto simp: unary_ops_def)
      then have a: "moved 1 p (tk_advance p)" using advance_moved [OF 3(1)] by simp
      have o: "outcome 1 (tk_advance p) (parse_unary_expr n (tk_advance p))"
        using Suc(3) [OF moved_ready [OF a]] moved_left [OF a] 3(2) by simp
      have "outcome (1 + 0) (tk_advance p) (then_parse (parse_unary_expr n (tk_advance p)) (\<lambda>operand q.
            Some (Some (unary_node k (tok_loc (tk_peek p)) operand), q)))"
        by (rule then_outcome [OF o]) (rule outcome_some [OF moved_refl [OF moved_ready]])
      from outcome_le [OF outcome_after [OF a this], of 1] show ?thesis using Some by simp
    next
      case None
      obtain m where m: "tokens_left p = Suc m" using tokens_left_pos [OF 3(1)] by (cases "tokens_left p") auto
      have e: "reads (parse_expression n) m" by unfold_locales (use Suc(1) 3(2) m in simp)
      have l: "tokens_left p \<le> Suc m" "Suc m \<le> n" using m 3(2) by simp_all
      show ?thesis using reads.concat_outcome [OF e 3(1) l] None by simp
    qed }
qed

text \<open>The parser of expressions is itself a parser of operands, for any number of tokens.\<close>

interpretation expression: reads "parse_expression (3 * m + 2)" m
  by unfold_locales (rule parser_outcomes(1), simp_all)

end
