(* ===== verification/Const_Eval.thy ===== *)
theory Const_Eval
  imports Util_Limits Ctype "HOL-Library.Signed_Division"
begin

text \<open>
  Integer constant expressions, src/sem/const_eval.c: the lexer, the recursive-descent parser
  that evaluates while it parses, and the evaluation of named constants that depend on each
  other. The C file holds two copies of the parser, one without and one with named constants;
  they differ in what an identifier means and share the definitions here through an extensible
  record. \<open>long long\<close> is a mathematical integer wrapped to 64 bits; where C leaves the result
  undefined (signed overflow) the model continues with the wrapped value and records the fact
  in the field \<open>overflowed\<close>, which no operation reads. The recursion is bounded by fuel, of
  which \<open>None\<close> reports the lack.
\<close>

section \<open>Tokens\<close>

datatype TokenKind =
    TK_EOF | TK_INT | TK_IDENT | TK_PLUS | TK_MINUS | TK_STAR | TK_SLASH | TK_PERCENT | TK_LPAREN | TK_RPAREN
  | TK_EQEQ | TK_NEQ | TK_LT | TK_LE | TK_GT | TK_GE | TK_SHL | TK_SHR | TK_ASHR | TK_AND_AND | TK_OR_OR

record Token =
  tok_kind :: TokenKind
  int_val :: int
  ident :: string

definition plain_token :: "TokenKind \<Rightarrow> Token" where
  "plain_token k = \<lparr>tok_kind = k, int_val = 0, ident = []\<rparr>"

abbreviation LLONG_MAX :: int where
  "LLONG_MAX \<equiv> 9223372036854775807"

definition is_ident_start :: "char \<Rightarrow> bool" where
  "is_ident_start c \<longleftrightarrow> isalpha c \<or> c = CHR ''_''"

definition is_ident_char :: "char \<Rightarrow> bool" where
  "is_ident_char c \<longleftrightarrow> isalnum c \<or> c = CHR ''_''"

section \<open>The lexer\<close>

text \<open>The lexer's cursor is the rest of the source, its end the terminating NUL.\<close>

definition skip_ws :: "string \<Rightarrow> string" where
  "skip_ws s = dropWhile isspace s"

fun lex_int :: "int \<Rightarrow> string \<Rightarrow> int \<times> string" where
  "lex_int v [] = (v, [])"
| "lex_int v (c # cs) =
     (if isdigit c \<or> c = CHR ''_''
      then if c = CHR ''_'' then lex_int v cs
           else let d = int (of_char c) - 48
                in lex_int (if v > (LLONG_MAX - d) div 10 then LLONG_MAX else v * 10 + d) cs
      else (v, c # cs))"

definition lex_ident :: "string \<Rightarrow> Token \<times> string" where
  "lex_ident s =
     (\<lparr>tok_kind = TK_IDENT, int_val = 0, ident = take 63 (takeWhile is_ident_char s)\<rparr>, dropWhile is_ident_char s)"

text \<open>A two-character token when the next character is \<open>c\<close>.\<close>

definition lex_pair :: "char \<Rightarrow> TokenKind \<Rightarrow> TokenKind \<Rightarrow> string \<Rightarrow> Token \<times> string" where
  "lex_pair c long short s =
     (case s of d # ds \<Rightarrow> if d = c then (plain_token long, ds) else (plain_token short, s) | [] \<Rightarrow> (plain_token short, s))"

definition lex_punct :: "char \<Rightarrow> string \<Rightarrow> Token \<times> string" where
  "lex_punct c s =
     (if c = CHR 0x22
      then (\<lparr>tok_kind = TK_IDENT, int_val = 0, ident = ''__string__''\<rparr>, drop 1 (dropWhile (\<lambda>d. d \<noteq> CHR 0x22) s))
      else if c = CHR ''+'' then (plain_token TK_PLUS, s)
      else if c = CHR ''-'' then (plain_token TK_MINUS, s)
      else if c = CHR ''*'' then (plain_token TK_STAR, s)
      else if c = CHR ''/'' then (plain_token TK_SLASH, s)
      else if c = CHR ''%'' then (plain_token TK_PERCENT, s)
      else if c = CHR ''('' then (plain_token TK_LPAREN, s)
      else if c = CHR '')'' then (plain_token TK_RPAREN, s)
      else if c = CHR ''<''
      then (case s of
              d # ds \<Rightarrow> if d = CHR ''<'' then (plain_token TK_SHL, ds)
                       else if d = CHR ''='' then (plain_token TK_LE, ds) else (plain_token TK_LT, s)
            | [] \<Rightarrow> (plain_token TK_LT, s))
      else if c = CHR ''>''
      then (case s of
              d # ds \<Rightarrow> if d = CHR ''>'' then lex_pair (CHR ''>'') TK_ASHR TK_SHR ds
                       else if d = CHR ''='' then (plain_token TK_GE, ds) else (plain_token TK_GT, s)
            | [] \<Rightarrow> (plain_token TK_GT, s))
      else if c = CHR ''='' then lex_pair (CHR ''='') TK_EQEQ TK_EOF s
      else if c = CHR ''!'' then lex_pair (CHR ''='') TK_NEQ TK_EOF s
      else if c = CHR ''&'' then lex_pair (CHR ''&'') TK_AND_AND TK_EOF s
      else if c = CHR ''|'' then lex_pair (CHR ''|'') TK_OR_OR TK_EOF s
      else (plain_token TK_EOF, s))"

definition lex_one :: "string \<Rightarrow> Token \<times> string" where
  "lex_one s =
     (case skip_ws s of
        [] \<Rightarrow> (plain_token TK_EOF, [])
      | c # cs \<Rightarrow>
          if isdigit c
          then let (v, r) = lex_int 0 (c # cs) in (\<lparr>tok_kind = TK_INT, int_val = v, ident = []\<rparr>, r)
          else if is_ident_start c then lex_ident (c # cs)
          else lex_punct c cs)"

section \<open>Parser state\<close>

text \<open>One constructor per diagnostic; the last two are the error codes 1 and 2 that a failed
  dependency leaves without a message of its own.\<close>

datatype ConstError =
    EXPECTED_LPAREN_CLOG2 | EXPECTED_RPAREN_CLOG2 | CLOG2_NOT_POSITIVE | BARE_IDENTIFIER | UNKNOWN_NAME
  | EXPECTED_RPAREN | EXPECTED_PRIMARY | DIVISION_BY_ZERO | MODULO_BY_ZERO | SHIFT_NEGATIVE | SHIFT_TOO_LARGE
  | DEPTH_LIMIT_EXCEEDED | TRAILING_TOKENS | NEGATIVE_RESULT | DEPENDENCY_FAILED | CIRCULAR_DEPENDENCY

record Parser =
  lx :: string
  cur :: Token
  perror :: "ConstError option"
  expr_depth :: u32
  overflowed :: bool

definition parser_init :: "string \<Rightarrow> Parser" where
  "parser_init src =
     (let (t, r) = lex_one src
      in \<lparr>lx = r, cur = t, perror = None, expr_depth = 0, overflowed = False\<rparr>)"

definition parser_diag :: "'a Parser_scheme \<Rightarrow> ConstError \<Rightarrow> 'a Parser_scheme" where
  "parser_diag p e = (if perror p \<noteq> None then p else p\<lparr>perror := Some e\<rparr>)"

definition advance :: "'a Parser_scheme \<Rightarrow> 'a Parser_scheme" where
  "advance p =
     (if tok_kind (cur p) \<noteq> TK_EOF then let (t, r) = lex_one (lx p) in p\<lparr>cur := t, lx := r\<rparr> else p)"

definition parser_enter_expr_depth :: "'a Parser_scheme \<Rightarrow> bool \<times> 'a Parser_scheme" where
  "parser_enter_expr_depth p =
     (case jz_depth_enter_checked (expr_depth p) JZ_LIMIT_CONST_EVAL_DEPTH of
        None \<Rightarrow> (False, parser_diag p DEPTH_LIMIT_EXCEEDED)
      | Some d \<Rightarrow> (True, p\<lparr>expr_depth := d\<rparr>))"

definition parser_leave_expr_depth :: "'a Parser_scheme \<Rightarrow> 'a Parser_scheme" where
  "parser_leave_expr_depth p = p\<lparr>expr_depth := jz_depth_leave (expr_depth p)\<rparr>"

section \<open>Arithmetic\<close>

definition ll_ok :: "int \<Rightarrow> bool" where
  "ll_ok x \<longleftrightarrow> - LLONG_MAX - 1 \<le> x \<and> x \<le> LLONG_MAX"

definition ll_result :: "int \<Rightarrow> bool \<Rightarrow> 'a Parser_scheme \<Rightarrow> int \<times> 'a Parser_scheme" where
  "ll_result x defined p = (signed_take_bit 63 x, if defined then p else p\<lparr>overflowed := True\<rparr>)"

fun clog2_loop :: "nat \<Rightarrow> nat \<Rightarrow> nat" where
  "clog2_loop v result = (if v > 1 then clog2_loop (v div 2) (result + 1) else result)"

declare clog2_loop.simps [simp del]

definition eval_clog2_positive :: "nat \<Rightarrow> int" where
  "eval_clog2_positive u = int (clog2_loop (u - 1) 1)"

text \<open>The bodies of the loops, given the operator and the value of the right operand.\<close>

definition apply_multiplicative :: "TokenKind \<Rightarrow> int \<Rightarrow> int \<Rightarrow> 'a Parser_scheme \<Rightarrow> int \<times> 'a Parser_scheme" where
  "apply_multiplicative op left right p =
     (if op = TK_STAR then ll_result (left * right) (ll_ok (left * right)) p
      else if op = TK_SLASH
      then if right = 0 then (0, parser_diag p DIVISION_BY_ZERO)
           else ll_result (left sdiv right) (ll_ok (left sdiv right)) p
      else if right = 0 then (0, parser_diag p MODULO_BY_ZERO)
      else ll_result (left smod right) (ll_ok (left sdiv right)) p)"

definition apply_additive :: "TokenKind \<Rightarrow> int \<Rightarrow> int \<Rightarrow> 'a Parser_scheme \<Rightarrow> int \<times> 'a Parser_scheme" where
  "apply_additive op left right p =
     (if op = TK_PLUS then ll_result (left + right) (ll_ok (left + right)) p
      else ll_result (left - right) (ll_ok (left - right)) p)"

text \<open>\<open>>>\<close> shifts the unsigned reading; \<open>>>>\<close> is the arithmetic shift of a signed operand.\<close>

definition apply_shift :: "TokenKind \<Rightarrow> int \<Rightarrow> int \<Rightarrow> 'a Parser_scheme \<Rightarrow> int \<times> 'a Parser_scheme" where
  "apply_shift op left right p =
     (if right < 0 then (0, parser_diag p SHIFT_NEGATIVE)
      else if right > 63 then (0, parser_diag p SHIFT_TOO_LARGE)
      else let sh = nat right
           in if op = TK_SHL then ll_result (left * 2 ^ sh) (0 \<le> left \<and> ll_ok (left * 2 ^ sh)) p
              else if op = TK_SHR then ll_result ((left mod 2 ^ 64) div 2 ^ sh) True p
              else ll_result (left div 2 ^ sh) True p)"

definition apply_relational :: "TokenKind \<Rightarrow> int \<Rightarrow> int \<Rightarrow> 'a Parser_scheme \<Rightarrow> int \<times> 'a Parser_scheme" where
  "apply_relational op left right p =
     (of_bool (if op = TK_LT then left < right else if op = TK_LE then left \<le> right
               else if op = TK_GT then left > right else left \<ge> right), p)"

definition apply_equality :: "TokenKind \<Rightarrow> int \<Rightarrow> int \<Rightarrow> 'a Parser_scheme \<Rightarrow> int \<times> 'a Parser_scheme" where
  "apply_equality op left right p = (of_bool (if op = TK_EQEQ then left = right else left \<noteq> right), p)"

definition apply_logical_and :: "TokenKind \<Rightarrow> int \<Rightarrow> int \<Rightarrow> 'a Parser_scheme \<Rightarrow> int \<times> 'a Parser_scheme" where
  "apply_logical_and op left right p = (of_bool (left \<noteq> 0 \<and> right \<noteq> 0), p)"

definition apply_logical_or :: "TokenKind \<Rightarrow> int \<Rightarrow> int \<Rightarrow> 'a Parser_scheme \<Rightarrow> int \<times> 'a Parser_scheme" where
  "apply_logical_or op left right p = (of_bool (left \<noteq> 0 \<or> right \<noteq> 0), p)"

section \<open>Binary operators\<close>

text \<open>The loop that every level of the grammar runs: while the current token is one of the
  level's operators, parse the right operand and combine.\<close>

fun binary_loop ::
  "nat \<Rightarrow> TokenKind set \<Rightarrow> ('a Parser_scheme \<Rightarrow> (int \<times> 'a Parser_scheme) option) \<Rightarrow>
   (TokenKind \<Rightarrow> int \<Rightarrow> int \<Rightarrow> 'a Parser_scheme \<Rightarrow> int \<times> 'a Parser_scheme) \<Rightarrow>
   int \<Rightarrow> 'a Parser_scheme \<Rightarrow> (int \<times> 'a Parser_scheme) option" where
  "binary_loop 0 ops operand combine left p = None"
| "binary_loop (Suc n) ops operand combine left p =
     (if perror p = None \<and> tok_kind (cur p) \<in> ops
      then case operand (advance p) of
             None \<Rightarrow> None
           | Some (right, p1) \<Rightarrow>
               if perror p1 \<noteq> None then Some (0, p1)
               else let (v, p2) = combine (tok_kind (cur p)) left right p1
                    in if perror p2 \<noteq> None then Some (0, p2) else binary_loop n ops operand combine v p2
      else Some (left, p))"

definition binary_level ::
  "nat \<Rightarrow> TokenKind set \<Rightarrow> (TokenKind \<Rightarrow> int \<Rightarrow> int \<Rightarrow> 'a Parser_scheme \<Rightarrow> int \<times> 'a Parser_scheme) \<Rightarrow>
   ('a Parser_scheme \<Rightarrow> (int \<times> 'a Parser_scheme) option) \<Rightarrow> 'a Parser_scheme \<Rightarrow> (int \<times> 'a Parser_scheme) option" where
  "binary_level n ops combine operand p =
     (case operand p of None \<Rightarrow> None | Some (left, p1) \<Rightarrow> binary_loop n ops operand combine left p1)"

definition parse_multiplicative :: "nat \<Rightarrow> ('a Parser_scheme \<Rightarrow> (int \<times> 'a Parser_scheme) option) \<Rightarrow> 'a Parser_scheme \<Rightarrow> (int \<times> 'a Parser_scheme) option" where
  "parse_multiplicative n parse_unary = binary_level n {TK_STAR, TK_SLASH, TK_PERCENT} apply_multiplicative parse_unary"

definition parse_additive :: "nat \<Rightarrow> ('a Parser_scheme \<Rightarrow> (int \<times> 'a Parser_scheme) option) \<Rightarrow> 'a Parser_scheme \<Rightarrow> (int \<times> 'a Parser_scheme) option" where
  "parse_additive n parse_unary = binary_level n {TK_PLUS, TK_MINUS} apply_additive (parse_multiplicative n parse_unary)"

definition parse_shift :: "nat \<Rightarrow> ('a Parser_scheme \<Rightarrow> (int \<times> 'a Parser_scheme) option) \<Rightarrow> 'a Parser_scheme \<Rightarrow> (int \<times> 'a Parser_scheme) option" where
  "parse_shift n parse_unary = binary_level n {TK_SHL, TK_SHR, TK_ASHR} apply_shift (parse_additive n parse_unary)"

definition parse_relational :: "nat \<Rightarrow> ('a Parser_scheme \<Rightarrow> (int \<times> 'a Parser_scheme) option) \<Rightarrow> 'a Parser_scheme \<Rightarrow> (int \<times> 'a Parser_scheme) option" where
  "parse_relational n parse_unary = binary_level n {TK_LT, TK_LE, TK_GT, TK_GE} apply_relational (parse_shift n parse_unary)"

definition parse_equality :: "nat \<Rightarrow> ('a Parser_scheme \<Rightarrow> (int \<times> 'a Parser_scheme) option) \<Rightarrow> 'a Parser_scheme \<Rightarrow> (int \<times> 'a Parser_scheme) option" where
  "parse_equality n parse_unary = binary_level n {TK_EQEQ, TK_NEQ} apply_equality (parse_relational n parse_unary)"

definition parse_logical_and :: "nat \<Rightarrow> ('a Parser_scheme \<Rightarrow> (int \<times> 'a Parser_scheme) option) \<Rightarrow> 'a Parser_scheme \<Rightarrow> (int \<times> 'a Parser_scheme) option" where
  "parse_logical_and n parse_unary = binary_level n {TK_AND_AND} apply_logical_and (parse_equality n parse_unary)"

definition parse_logical_or :: "nat \<Rightarrow> ('a Parser_scheme \<Rightarrow> (int \<times> 'a Parser_scheme) option) \<Rightarrow> 'a Parser_scheme \<Rightarrow> (int \<times> 'a Parser_scheme) option" where
  "parse_logical_or n parse_unary = binary_level n {TK_OR_OR} apply_logical_or (parse_logical_and n parse_unary)"

section \<open>Primary and unary expressions\<close>

text \<open>\<open>name\<close> is what an identifier other than \<open>clog2\<close> means, \<open>expr\<close> parses a nested expression.\<close>

definition parse_clog2 :: "('a Parser_scheme \<Rightarrow> (int \<times> 'a Parser_scheme) option) \<Rightarrow> 'a Parser_scheme \<Rightarrow> (int \<times> 'a Parser_scheme) option" where
  "parse_clog2 expr p =
     (let p1 = advance p
      in if tok_kind (cur p1) \<noteq> TK_LPAREN then Some (0, parser_diag p1 EXPECTED_LPAREN_CLOG2)
         else case expr (advance p1) of
                None \<Rightarrow> None
              | Some (arg, p2) \<Rightarrow>
                  if perror p2 \<noteq> None then Some (0, p2)
                  else if tok_kind (cur p2) \<noteq> TK_RPAREN then Some (0, parser_diag p2 EXPECTED_RPAREN_CLOG2)
                  else let p3 = advance p2
                       in if arg \<le> 0 then Some (0, parser_diag p3 CLOG2_NOT_POSITIVE)
                          else Some (eval_clog2_positive (nat arg), p3))"

definition parse_paren :: "('a Parser_scheme \<Rightarrow> (int \<times> 'a Parser_scheme) option) \<Rightarrow> 'a Parser_scheme \<Rightarrow> (int \<times> 'a Parser_scheme) option" where
  "parse_paren expr p =
     (case expr (advance p) of
        None \<Rightarrow> None
      | Some (v, p1) \<Rightarrow>
          if perror p1 \<noteq> None then Some (0, p1)
          else if tok_kind (cur p1) \<noteq> TK_RPAREN then Some (0, parser_diag p1 EXPECTED_RPAREN)
          else Some (v, advance p1))"

definition parse_primary ::
  "('a Parser_scheme \<Rightarrow> (int \<times> 'a Parser_scheme) option) \<Rightarrow> ('a Parser_scheme \<Rightarrow> (int \<times> 'a Parser_scheme) option) \<Rightarrow>
   'a Parser_scheme \<Rightarrow> (int \<times> 'a Parser_scheme) option" where
  "parse_primary name expr p =
     (if perror p \<noteq> None then Some (0, p)
      else if tok_kind (cur p) = TK_INT then Some (int_val (cur p), advance p)
      else if tok_kind (cur p) = TK_IDENT
      then if ident (cur p) = ''clog2'' then parse_clog2 expr p else name p
      else if tok_kind (cur p) = TK_LPAREN then parse_paren expr p
      else Some (0, parser_diag p EXPECTED_PRIMARY))"

fun parse_expr :: "('a Parser_scheme \<Rightarrow> (int \<times> 'a Parser_scheme) option) \<Rightarrow> nat \<Rightarrow> 'a Parser_scheme \<Rightarrow> (int \<times> 'a Parser_scheme) option"
and parse_unary :: "('a Parser_scheme \<Rightarrow> (int \<times> 'a Parser_scheme) option) \<Rightarrow> nat \<Rightarrow> 'a Parser_scheme \<Rightarrow> (int \<times> 'a Parser_scheme) option" where
  "parse_expr name 0 p = None"
| "parse_expr name (Suc n) p =
     (let (entered, p1) = parser_enter_expr_depth p
      in if \<not> entered then Some (0, p1)
         else case parse_logical_or n (parse_unary name n) p1 of
                None \<Rightarrow> None
              | Some (v, p2) \<Rightarrow> Some (v, parser_leave_expr_depth p2))"
| "parse_unary name 0 p = None"
| "parse_unary name (Suc n) p =
     (if perror p \<noteq> None then Some (0, p)
      else if tok_kind (cur p) = TK_PLUS \<or> tok_kind (cur p) = TK_MINUS
      then let (entered, p1) = parser_enter_expr_depth (advance p)
           in if \<not> entered then Some (0, p1)
              else case parse_unary name n p1 of
                     None \<Rightarrow> None
                   | Some (v, p2) \<Rightarrow>
                       let p3 = parser_leave_expr_depth p2
                       in if tok_kind (cur p) = TK_PLUS then Some (v, p3) else Some (ll_result (- v) (ll_ok (- v)) p3)
      else parse_primary name (parse_expr name n) p)"

section \<open>Anonymous expressions\<close>

text \<open>Two steps of recursion per token are enough, see \<open>parse_expr_total\<close>.\<close>

definition parse_fuel :: "string \<Rightarrow> nat" where
  "parse_fuel src = 2 * length src + 4"

definition bare_identifier :: "'a Parser_scheme \<Rightarrow> (int \<times> 'a Parser_scheme) option" where
  "bare_identifier p = Some (0, parser_diag p BARE_IDENTIFIER)"

definition finish_expr :: "int \<times> 'a Parser_scheme \<Rightarrow> ConstError + int" where
  "finish_expr r =
     (let (v, p) = r;
          p1 = (if perror p = None \<and> tok_kind (cur p) \<noteq> TK_EOF then parser_diag p TRAILING_TOKENS else p)
      in case perror p1 of
           Some e \<Rightarrow> Inl e
         | None \<Rightarrow> if v < 0 then Inl NEGATIVE_RESULT else Inr v)"

definition jz_const_eval_expr :: "string \<Rightarrow> (ConstError + int) option" where
  "jz_const_eval_expr src =
     map_option finish_expr (parse_expr bare_identifier (parse_fuel src) (parser_init src))"

section \<open>Named constants\<close>

datatype EvalState = EVAL_NOT_VISITED | EVAL_VISITING | EVAL_DONE

text \<open>A NULL name or expression is \<open>None\<close>.\<close>

record JZConstDef =
  def_name :: "string option"
  def_expr :: "string option"

record EvalEnv =
  env_defs :: "JZConstDef list"
  env_values :: "int list"
  env_state :: "EvalState list"
  env_overflowed :: bool

record EnvParser = Parser +
  penv :: EvalEnv

fun first_index :: "('a \<Rightarrow> bool) \<Rightarrow> nat \<Rightarrow> 'a list \<Rightarrow> nat option" where
  "first_index P i [] = None"
| "first_index P i (x # xs) = (if P x then Some i else first_index P (Suc i) xs)"

definition find_def_index :: "EvalEnv \<Rightarrow> string \<Rightarrow> nat option" where
  "find_def_index env name =
     (if name = [] then None else first_index (\<lambda>d. def_name d = Some name) 0 (env_defs env))"

definition env_parser_init :: "string \<Rightarrow> EvalEnv \<Rightarrow> EnvParser" where
  "env_parser_init src env =
     (let (t, r) = lex_one src
      in \<lparr>lx = r, cur = t, perror = None, expr_depth = 0, overflowed = False, penv = env\<rparr>)"

definition env_parser_diag :: "EnvParser \<Rightarrow> ConstError \<Rightarrow> EnvParser" where
  "env_parser_diag = parser_diag"

definition env_advance :: "EnvParser \<Rightarrow> EnvParser" where
  "env_advance = advance"

definition env_parser_enter_expr_depth :: "EnvParser \<Rightarrow> bool \<times> EnvParser" where
  "env_parser_enter_expr_depth = parser_enter_expr_depth"

definition env_parser_leave_expr_depth :: "EnvParser \<Rightarrow> EnvParser" where
  "env_parser_leave_expr_depth = parser_leave_expr_depth"

text \<open>The identifier branch of \<open>env_parse_primary\<close>; \<open>eval\<close> is \<open>eval_one\<close>.\<close>

definition env_name :: "(EvalEnv \<Rightarrow> nat \<Rightarrow> (int \<times> EvalEnv) option) \<Rightarrow> EnvParser \<Rightarrow> (int \<times> EnvParser) option" where
  "env_name eval p =
     (case find_def_index (penv p) (ident (cur p)) of
        None \<Rightarrow> Some (0, env_parser_diag p UNKNOWN_NAME)
      | Some idx \<Rightarrow>
          if env_state (penv p) ! idx = EVAL_VISITING then Some (0, p\<lparr>perror := Some CIRCULAR_DEPENDENCY\<rparr>)
          else if env_state (penv p) ! idx = EVAL_DONE then Some (env_values (penv p) ! idx, env_advance p)
          else (case eval (penv p) idx of
                  None \<Rightarrow> None
                | Some (rc, env) \<Rightarrow>
                    let p1 = p\<lparr>penv := env\<rparr>
                    in if rc \<noteq> 0
                       then Some (0, p1\<lparr>perror := Some (if rc = -2 then CIRCULAR_DEPENDENCY else DEPENDENCY_FAILED)\<rparr>)
                       else let p2 = env_advance p1 in Some (env_values (penv p2) ! idx, p2)))"

definition env_parse_primary ::
  "(EnvParser \<Rightarrow> (int \<times> EnvParser) option) \<Rightarrow> (EnvParser \<Rightarrow> (int \<times> EnvParser) option) \<Rightarrow> EnvParser \<Rightarrow> (int \<times> EnvParser) option" where
  "env_parse_primary = parse_primary"

definition env_parse_unary :: "(EnvParser \<Rightarrow> (int \<times> EnvParser) option) \<Rightarrow> nat \<Rightarrow> EnvParser \<Rightarrow> (int \<times> EnvParser) option" where
  "env_parse_unary = parse_unary"

definition env_parse_multiplicative :: "nat \<Rightarrow> (EnvParser \<Rightarrow> (int \<times> EnvParser) option) \<Rightarrow> EnvParser \<Rightarrow> (int \<times> EnvParser) option" where
  "env_parse_multiplicative = parse_multiplicative"

definition env_parse_additive :: "nat \<Rightarrow> (EnvParser \<Rightarrow> (int \<times> EnvParser) option) \<Rightarrow> EnvParser \<Rightarrow> (int \<times> EnvParser) option" where
  "env_parse_additive = parse_additive"

definition env_parse_shift :: "nat \<Rightarrow> (EnvParser \<Rightarrow> (int \<times> EnvParser) option) \<Rightarrow> EnvParser \<Rightarrow> (int \<times> EnvParser) option" where
  "env_parse_shift = parse_shift"

definition env_parse_relational :: "nat \<Rightarrow> (EnvParser \<Rightarrow> (int \<times> EnvParser) option) \<Rightarrow> EnvParser \<Rightarrow> (int \<times> EnvParser) option" where
  "env_parse_relational = parse_relational"

definition env_parse_equality :: "nat \<Rightarrow> (EnvParser \<Rightarrow> (int \<times> EnvParser) option) \<Rightarrow> EnvParser \<Rightarrow> (int \<times> EnvParser) option" where
  "env_parse_equality = parse_equality"

definition env_parse_logical_and :: "nat \<Rightarrow> (EnvParser \<Rightarrow> (int \<times> EnvParser) option) \<Rightarrow> EnvParser \<Rightarrow> (int \<times> EnvParser) option" where
  "env_parse_logical_and = parse_logical_and"

definition env_parse_logical_or :: "nat \<Rightarrow> (EnvParser \<Rightarrow> (int \<times> EnvParser) option) \<Rightarrow> EnvParser \<Rightarrow> (int \<times> EnvParser) option" where
  "env_parse_logical_or = parse_logical_or"

definition env_parse_expr :: "(EnvParser \<Rightarrow> (int \<times> EnvParser) option) \<Rightarrow> nat \<Rightarrow> EnvParser \<Rightarrow> (int \<times> EnvParser) option" where
  "env_parse_expr = parse_expr"

definition def_source :: "JZConstDef \<Rightarrow> string" where
  "def_source d = (case def_expr d of Some e \<Rightarrow> e | None \<Rightarrow> ''0'')"

definition set_state :: "nat \<Rightarrow> EvalState \<Rightarrow> EvalEnv \<Rightarrow> EvalEnv" where
  "set_state i st env = env\<lparr>env_state := (env_state env)[i := st]\<rparr>"

text \<open>The end of \<open>eval_one\<close>, on the value and the parser \<open>env_parse_expr\<close> left.\<close>

definition finish_one :: "nat \<Rightarrow> int \<times> EnvParser \<Rightarrow> int \<times> EvalEnv" where
  "finish_one index r =
     (let (v, p) = r;
          env = (penv p)\<lparr>env_overflowed := env_overflowed (penv p) \<or> overflowed p\<rparr>
      in case finish_expr (v, p) of
           Inl e \<Rightarrow> (if e = CIRCULAR_DEPENDENCY then -2 else -1, set_state index EVAL_NOT_VISITED env)
         | Inr w \<Rightarrow> (0, set_state index EVAL_DONE (env\<lparr>env_values := (env_values env)[index := w]\<rparr>)))"

primrec eval_one :: "nat \<Rightarrow> EvalEnv \<Rightarrow> nat \<Rightarrow> (int \<times> EvalEnv) option" where
  "eval_one 0 env index = None"
| "eval_one (Suc d) env index =
     (if index \<ge> length (env_defs env) then Some (-1, env)
      else if env_state env ! index = EVAL_DONE then Some (0, env)
      else if env_state env ! index = EVAL_VISITING then Some (-2, env)
      else let src = def_source (env_defs env ! index)
           in map_option (finish_one index)
                (env_parse_expr (env_name (eval_one d)) (parse_fuel src)
                  (env_parser_init src (set_state index EVAL_VISITING env))))"

text \<open>The loop of \<open>jz_const_eval_all\<close> over the indices, with its early exit.\<close>

fun eval_all_loop :: "nat \<Rightarrow> nat list \<Rightarrow> EvalEnv \<Rightarrow> (int \<times> EvalEnv) option" where
  "eval_all_loop d [] env = Some (0, env)"
| "eval_all_loop d (i # is) env =
     (if env_state env ! i = EVAL_NOT_VISITED
      then case eval_one d env i of
             None \<Rightarrow> None
           | Some (rc, env1) \<Rightarrow> if rc \<noteq> 0 then Some (rc, env1) else eval_all_loop d is env1
      else eval_all_loop d is env)"

definition eval_env_init :: "JZConstDef list \<Rightarrow> int list \<Rightarrow> EvalEnv" where
  "eval_env_init defs out_values =
     \<lparr>env_defs = defs, env_values = out_values, env_state = replicate (length defs) EVAL_NOT_VISITED,
      env_overflowed = False\<rparr>"

definition jz_const_eval_all :: "JZConstDef list \<Rightarrow> int list \<Rightarrow> (int \<times> EvalEnv) option" where
  "jz_const_eval_all defs out_values =
     eval_all_loop (length defs + 1) [0..<length defs] (eval_env_init defs out_values)"

end
