(* ===== verification/Lexer.thy ===== *)
theory Lexer
  imports Lexer_Tokens
begin

text \<open>
  The tokenizer of the compiler, src/lexer.c. The state is the source with a byte offset, the
  line and column of that offset, the token stream under construction and the diagnostics
  (\<open>None\<close> for a NULL list); the loops advance the offset and end because it stays below the
  length of the source. The source is a C string, so it holds no NUL. Memory allocation is
  taken to succeed, and a diagnostic is its location and rule id: severity and message text
  are left out. Lines and columns are unbounded here; the 16 MB limit on source files keeps
  them far below the range of \<open>int\<close>.
\<close>

section \<open>Diagnostics and output\<close>

abbreviation sizeof_JZToken :: usize where
  "sizeof_JZToken \<equiv> 48"

definition lexer_ensure_capacity :: "JZTokenStream \<Rightarrow> JZTokenStream option" where
  "lexer_ensure_capacity s =
     (if word_of_nat (length (tokens s)) = capacity s
      then case jz_size_grow_doubling_checked (capacity s) (word_of_nat (length (tokens s)) + 1) 128 of
             Some (Some new_cap) \<Rightarrow>
               (case jz_size_mul_checked new_cap sizeof_JZToken of
                  None \<Rightarrow> None
                | Some new_bytes \<Rightarrow> Some (s\<lparr>capacity := new_cap\<rparr>))
           | _ \<Rightarrow> None
      else Some s)"

definition add_diagnostic :: "JZLocation \<Rightarrow> string \<Rightarrow> LexerState \<Rightarrow> LexerState" where
  "add_diagnostic loc code st =
     st\<lparr>diagnostics := map_option (\<lambda>ds. ds @ [\<lparr>diag_loc = loc, diag_code = code\<rparr>]) (diagnostics st)\<rparr>"

definition lexer_report_parse_error :: "JZLocation \<Rightarrow> string \<Rightarrow> LexerState \<Rightarrow> LexerState" where
  "lexer_report_parse_error loc code st =
     (let st1 = st\<lparr>had_error := True\<rparr>
      in if diagnostics st1 = None then st1 else add_diagnostic loc code st1)"

definition lexer_report_rule :: "JZLocation \<Rightarrow> string \<Rightarrow> LexerState \<Rightarrow> LexerState" where
  "lexer_report_rule loc rule_id st =
     (if diagnostics st = None then st else add_diagnostic loc rule_id (st\<lparr>had_error := True\<rparr>))"

abbreviation JZ_MAX_SOURCE_TOKENS :: int where
  "JZ_MAX_SOURCE_TOKENS \<equiv> 1024 * 1024"

definition lexing_fails :: "LexerState \<Rightarrow> LexerState" where
  "lexing_fails st = st\<lparr>had_error := True, stop_lexing := True\<rparr>"

text \<open>\<open>text\<close> is the \<open>length\<close> bytes from \<open>start\<close>; it is empty for a NULL start.\<close>

definition emit_token :: "JZTokenType \<Rightarrow> string \<Rightarrow> JZLocation \<Rightarrow> LexerState \<Rightarrow> LexerState" where
  "emit_token ty txt loc st =
     (if int (length (tokens (out st))) \<ge> JZ_MAX_SOURCE_TOKENS
      then (lexer_report_rule loc ''SOURCE_TOKEN_LIMIT_EXCEEDED'' st)\<lparr>stop_lexing := True\<rparr>
      else case lexer_ensure_capacity (out st) of
             None \<Rightarrow> lexing_fails st
           | Some o1 \<Rightarrow>
               if word_of_nat (length (tokens o1)) \<ge> capacity o1 then lexing_fails (st\<lparr>out := o1\<rparr>)
               else let t = \<lparr>tok_type = ty, tok_loc = loc, lexeme = (if txt = [] then None else Some txt), tok_num = zero_num\<rparr>;
                        st1 = st\<lparr>out := o1\<lparr>tokens := tokens o1 @ [t]\<rparr>\<rparr>
                    in if ty \<noteq> JZ_TOK_EOF then st1\<lparr>last_token_end := pos st1, last_token_valid := True\<rparr> else st1)"

definition is_identifier_start :: "char \<Rightarrow> bool" where
  "is_identifier_start c \<longleftrightarrow> isalpha c \<or> c = CHR ''_''"

definition is_identifier_char :: "char \<Rightarrow> bool" where
  "is_identifier_char c \<longleftrightarrow> isalnum c \<or> c = CHR ''_''"

section \<open>Numeric literals\<close>

datatype JZNumericErrorCause =
    JZ_NUM_ERR_UNDERSCORE_EDGES | JZ_NUM_ERR_INVALID_DIGIT | JZ_NUM_ERR_DECIMAL_HAS_XZ | JZ_NUM_ERR_OTHER

abbreviation quote :: char where
  "quote \<equiv> CHR 0x27"

definition numeric_base :: "char \<Rightarrow> JZNumericBase option" where
  "numeric_base c =
     (if c = CHR ''b'' \<or> c = CHR ''B'' then Some JZ_NUM_BASE_BIN
      else if c = CHR ''d'' \<or> c = CHR ''D'' then Some JZ_NUM_BASE_DEC
      else if c = CHR ''h'' \<or> c = CHR ''H'' then Some JZ_NUM_BASE_HEX
      else None)"

definition is_xz :: "char \<Rightarrow> bool" where
  "is_xz c \<longleftrightarrow> c = CHR ''x'' \<or> c = CHR ''X'' \<or> c = CHR ''z'' \<or> c = CHR ''Z''"

definition is_hex_digit :: "char \<Rightarrow> bool" where
  "is_hex_digit c \<longleftrightarrow>
     isdigit c \<or> (97 \<le> (of_char c :: nat) \<and> (of_char c :: nat) \<le> 102) \<or> (65 \<le> (of_char c :: nat) \<and> (of_char c :: nat) \<le> 70)"

fun digit_error :: "JZNumericBase \<Rightarrow> char \<Rightarrow> JZNumericErrorCause option" where
  "digit_error JZ_NUM_BASE_BIN c =
     (if c = CHR ''0'' \<or> c = CHR ''1'' \<or> is_xz c then None else Some JZ_NUM_ERR_INVALID_DIGIT)"
| "digit_error JZ_NUM_BASE_DEC c =
     (if is_xz c then Some JZ_NUM_ERR_DECIMAL_HAS_XZ else if isdigit c then None else Some JZ_NUM_ERR_INVALID_DIGIT)"
| "digit_error JZ_NUM_BASE_HEX c = (if is_hex_digit c then None else Some JZ_NUM_ERR_INVALID_DIGIT)"
| "digit_error JZ_NUM_BASE_NONE c = Some JZ_NUM_ERR_OTHER"

fun validate_digits :: "JZNumericBase \<Rightarrow> string \<Rightarrow> JZNumericErrorCause option" where
  "validate_digits base [] = None"
| "validate_digits base (c # cs) =
     (if c = CHR ''_'' then validate_digits base cs
      else case digit_error base c of Some e \<Rightarrow> Some e | None \<Rightarrow> validate_digits base cs)"

text \<open>The results -1, 0 and 1 are an error cause, a plain integer and a sized literal.\<close>

definition parse_numeric_literal :: "string \<Rightarrow> JZNumericErrorCause + JZNumericInfo option" where
  "parse_numeric_literal lxm =
     (let w = takeWhile (\<lambda>c. c \<noteq> quote) lxm
      in if length w = length lxm then Inr None
         else if w = [] then Inl JZ_NUM_ERR_OTHER
         else case drop (length w + 1) lxm of
                [] \<Rightarrow> Inl JZ_NUM_ERR_OTHER
              | base_ch # digits \<Rightarrow>
                  (case numeric_base base_ch of
                     None \<Rightarrow> Inl JZ_NUM_ERR_OTHER
                   | Some base \<Rightarrow>
                       if digits = [] then Inl JZ_NUM_ERR_OTHER
                       else if hd digits = CHR ''_'' \<or> last digits = CHR ''_'' then Inl JZ_NUM_ERR_UNDERSCORE_EDGES
                       else case validate_digits base digits of
                              Some e \<Rightarrow> Inl e
                            | None \<Rightarrow> Inr (Some \<lparr>is_sized = True, num_base = base, width_chars = length w\<rparr>)))"

section \<open>Keywords\<close>

definition keyword_table :: "(string \<times> JZTokenType) list" where
  "keyword_table = [
      (''@module'', JZ_TOK_DIRECTIVE JZ_TOK_KW_MODULE), (''@endmod'', JZ_TOK_DIRECTIVE JZ_TOK_KW_ENDMOD),
      (''@project'', JZ_TOK_DIRECTIVE JZ_TOK_KW_PROJECT), (''@endproj'', JZ_TOK_DIRECTIVE JZ_TOK_KW_ENDPROJ),
      (''@blackbox'', JZ_TOK_DIRECTIVE JZ_TOK_KW_BLACKBOX), (''@new'', JZ_TOK_DIRECTIVE JZ_TOK_KW_NEW),
      (''@top'', JZ_TOK_DIRECTIVE JZ_TOK_KW_TOP), (''@import'', JZ_TOK_DIRECTIVE JZ_TOK_KW_IMPORT),
      (''@global'', JZ_TOK_DIRECTIVE JZ_TOK_KW_GLOBAL), (''@endglob'', JZ_TOK_DIRECTIVE JZ_TOK_KW_ENDGLOB),
      (''@feature'', JZ_TOK_DIRECTIVE JZ_TOK_KW_FEATURE), (''@endfeat'', JZ_TOK_DIRECTIVE JZ_TOK_KW_ENDFEAT),
      (''@else'', JZ_TOK_DIRECTIVE JZ_TOK_KW_FEATURE_ELSE), (''@check'', JZ_TOK_DIRECTIVE JZ_TOK_KW_CHECK),
      (''@template'', JZ_TOK_DIRECTIVE JZ_TOK_KW_TEMPLATE), (''@endtemplate'', JZ_TOK_DIRECTIVE JZ_TOK_KW_ENDTEMPLATE),
      (''@apply'', JZ_TOK_DIRECTIVE JZ_TOK_KW_APPLY), (''@scratch'', JZ_TOK_DIRECTIVE JZ_TOK_KW_SCRATCH),
      (''@testbench'', JZ_TOK_DIRECTIVE JZ_TOK_KW_TESTBENCH), (''@endtb'', JZ_TOK_DIRECTIVE JZ_TOK_KW_ENDTB),
      (''@setup'', JZ_TOK_DIRECTIVE JZ_TOK_KW_SETUP), (''@update'', JZ_TOK_DIRECTIVE JZ_TOK_KW_UPDATE),
      (''@clock'', JZ_TOK_DIRECTIVE JZ_TOK_KW_TB_CLOCK), (''@expect_equal'', JZ_TOK_DIRECTIVE JZ_TOK_KW_EXPECT_EQ),
      (''@expect_not_equal'', JZ_TOK_DIRECTIVE JZ_TOK_KW_EXPECT_NEQ),
      (''@expect_tristate'', JZ_TOK_DIRECTIVE JZ_TOK_KW_EXPECT_TRI),
      (''@simulation'', JZ_TOK_DIRECTIVE JZ_TOK_KW_SIMULATION), (''@endsim'', JZ_TOK_DIRECTIVE JZ_TOK_KW_ENDSIM),
      (''@run'', JZ_TOK_DIRECTIVE JZ_TOK_KW_RUN), (''@run_until'', JZ_TOK_DIRECTIVE JZ_TOK_KW_RUN_UNTIL),
      (''@run_while'', JZ_TOK_DIRECTIVE JZ_TOK_KW_RUN_WHILE), (''@print'', JZ_TOK_DIRECTIVE JZ_TOK_KW_PRINT),
      (''@print_if'', JZ_TOK_DIRECTIVE JZ_TOK_KW_PRINT_IF), (''@trace'', JZ_TOK_DIRECTIVE JZ_TOK_KW_TRACE),
      (''@select'', JZ_TOK_DIRECTIVE JZ_TOK_KW_SIM_SELECT), (''@mark'', JZ_TOK_DIRECTIVE JZ_TOK_KW_MARK),
      (''@mark_if'', JZ_TOK_DIRECTIVE JZ_TOK_KW_MARK_IF), (''@alert'', JZ_TOK_DIRECTIVE JZ_TOK_KW_ALERT),
      (''@alert_if'', JZ_TOK_DIRECTIVE JZ_TOK_KW_ALERT_IF), (''CONST'', JZ_TOK_KEYWORD JZ_TOK_KW_CONST),
      (''PORT'', JZ_TOK_KEYWORD JZ_TOK_KW_PORT), (''WIRE'', JZ_TOK_KEYWORD JZ_TOK_KW_WIRE),
      (''REGISTER'', JZ_TOK_KEYWORD JZ_TOK_KW_REGISTER), (''LATCH'', JZ_TOK_KEYWORD JZ_TOK_KW_LATCH),
      (''MEM'', JZ_TOK_KEYWORD JZ_TOK_KW_MEM), (''MUX'', JZ_TOK_KEYWORD JZ_TOK_KW_MUX),
      (''CDC'', JZ_TOK_KEYWORD JZ_TOK_KW_CDC), (''ASYNCHRONOUS'', JZ_TOK_KEYWORD JZ_TOK_KW_ASYNC),
      (''SYNCHRONOUS'', JZ_TOK_KEYWORD JZ_TOK_KW_SYNC), (''CONFIG'', JZ_TOK_KEYWORD JZ_TOK_KW_CONFIG),
      (''CLOCKS'', JZ_TOK_KEYWORD JZ_TOK_KW_CLOCKS), (''IN_PINS'', JZ_TOK_KEYWORD JZ_TOK_KW_IN_PINS),
      (''OUT_PINS'', JZ_TOK_KEYWORD JZ_TOK_KW_OUT_PINS), (''INOUT_PINS'', JZ_TOK_KEYWORD JZ_TOK_KW_INOUT_PINS),
      (''MAP'', JZ_TOK_KEYWORD JZ_TOK_KW_MAP), (''CLOCK_GEN'', JZ_TOK_KEYWORD JZ_TOK_KW_CLOCK_GEN),
      (''TAP'', JZ_TOK_KEYWORD JZ_TOK_KW_TAP), (''IF'', JZ_TOK_KEYWORD JZ_TOK_KW_IF),
      (''ELIF'', JZ_TOK_KEYWORD JZ_TOK_KW_ELIF), (''ELSE'', JZ_TOK_KEYWORD JZ_TOK_KW_ELSE),
      (''SELECT'', JZ_TOK_KEYWORD JZ_TOK_KW_SELECT), (''CASE'', JZ_TOK_KEYWORD JZ_TOK_KW_CASE),
      (''DEFAULT'', JZ_TOK_KEYWORD JZ_TOK_KW_DEFAULT), (''IN'', JZ_TOK_KEYWORD JZ_TOK_KW_IN),
      (''OUT'', JZ_TOK_KEYWORD JZ_TOK_KW_OUT), (''INOUT'', JZ_TOK_KEYWORD JZ_TOK_KW_INOUT),
      (''OVERRIDE'', JZ_TOK_KEYWORD JZ_TOK_KW_OVERRIDE), (''GND'', JZ_TOK_KEYWORD JZ_TOK_KW_GND),
      (''VCC'', JZ_TOK_KEYWORD JZ_TOK_KW_VCC)]"

definition match_keyword :: "string \<Rightarrow> JZTokenType option" where
  "match_keyword lxm = map_of keyword_table lxm"

section \<open>Moving through the source\<close>

definition at_end :: "LexerState \<Rightarrow> bool" where
  "at_end st \<longleftrightarrow> pos st \<ge> length (src st)"

definition cur_char :: "LexerState \<Rightarrow> char" where
  "cur_char st = src st ! pos st"

text \<open>The character \<open>k\<close> bytes ahead, with the bound test the C code makes before it.\<close>

definition peek :: "nat \<Rightarrow> LexerState \<Rightarrow> char option" where
  "peek k st = (if pos st + k < length (src st) then Some (src st ! (pos st + k)) else None)"

definition bump :: "nat \<Rightarrow> LexerState \<Rightarrow> LexerState" where
  "bump n st = st\<lparr>pos := pos st + n, column := column st + n\<rparr>"

definition newline_step :: "LexerState \<Rightarrow> LexerState" where
  "newline_step st = st\<lparr>pos := pos st + 1, line := line st + 1, column := 1\<rparr>"

definition step_char :: "LexerState \<Rightarrow> LexerState" where
  "step_char st = (if cur_char st = CHR 0x0A then newline_step st else bump 1 st)"

definition slice :: "nat \<Rightarrow> nat \<Rightarrow> LexerState \<Rightarrow> string" where
  "slice a b st = take (b - a) (drop a (src st))"

lemma step_measure [simp]:
  "\<not> at_end st \<Longrightarrow> length (src (step_char st)) - pos (step_char st) < length (src st) - pos st"
  "\<not> at_end st \<Longrightarrow> 0 < n \<Longrightarrow> length (src (bump n st)) - pos (bump n st) < length (src st) - pos st"
  "\<not> at_end st \<Longrightarrow> length (src (newline_step st)) - pos (newline_step st) < length (src st) - pos st"
  by (auto simp: at_end_def step_char_def newline_step_def bump_def)

function scan_while :: "(char \<Rightarrow> bool) \<Rightarrow> LexerState \<Rightarrow> LexerState" where
  "scan_while P st = (if \<not> at_end st \<and> P (cur_char st) then scan_while P (bump 1 st) else st)"
  by pat_completeness auto

termination
  by (relation "measure (\<lambda>(P, st). length (src st) - pos st)") auto

function skip_blanks :: "LexerState \<Rightarrow> LexerState" where
  "skip_blanks st =
     (if at_end st then st
      else if cur_char st \<in> {CHR '' '', CHR 0x09, CHR 0x0D} then skip_blanks (bump 1 st)
      else if cur_char st = CHR 0x0A then skip_blanks (newline_step st)
      else st)"
  by pat_completeness auto

termination
  by (relation "measure (\<lambda>st. length (src st) - pos st)") auto

function skip_line_comment :: "LexerState \<Rightarrow> LexerState" where
  "skip_line_comment st =
     (if at_end st then st
      else if cur_char st = CHR 0x0A then newline_step st
      else skip_line_comment (bump 1 st))"
  by pat_completeness auto

termination
  by (relation "measure (\<lambda>st. length (src st) - pos st)") auto

text \<open>The flag is true for the result 0.\<close>

function skip_block_comment :: "JZLocation \<Rightarrow> LexerState \<Rightarrow> bool \<times> LexerState" where
  "skip_block_comment loc st =
     (if at_end st then (False, lexer_report_parse_error loc ''COMMENT_NESTED_BLOCK'' st)
      else let c = cur_char st;
               st1 = step_char st
           in if c = CHR ''/'' \<and> peek 0 st1 = Some (CHR ''*'')
              then (False, lexer_report_parse_error loc ''COMMENT_NESTED_BLOCK'' st1)
              else if c = CHR ''*'' \<and> peek 0 st1 = Some (CHR ''/'') then (True, bump 1 st1)
              else skip_block_comment loc st1)"
  by pat_completeness auto

termination
  by (relation "measure (\<lambda>(loc, st). length (src st) - pos st)") auto

declare scan_while.simps [simp del] skip_blanks.simps [simp del] skip_line_comment.simps [simp del] skip_block_comment.simps [simp del]

section \<open>How a pass moves\<close>

text \<open>The line and column of an offset, and the relation between a state and one reached from it
  without output: the offset grows and the location stays that of the offset.\<close>

definition location :: "string \<Rightarrow> nat \<Rightarrow> nat \<times> nat" where
  "location s i =
     (1 + length (filter (\<lambda>c. c = CHR 0x0A) (take i s)), 1 + length (takeWhile (\<lambda>c. c \<noteq> CHR 0x0A) (rev (take i s))))"

definition located :: "LexerState \<Rightarrow> bool" where
  "located st \<longleftrightarrow> pos st \<le> length (src st) \<and> line st = fst (location (src st) (pos st)) \<and> column st = snd (location (src st) (pos st))"

definition onward :: "LexerState \<Rightarrow> LexerState \<Rightarrow> bool" where
  "onward st st' \<longleftrightarrow>
     src st' = src st \<and> filename st' = filename st \<and> out st' = out st \<and> stop_lexing st' = stop_lexing st \<and>
     last_token_end st' = last_token_end st \<and> last_token_valid st' = last_token_valid st \<and>
     (had_error st \<longrightarrow> had_error st') \<and> (diagnostics st' = None \<longleftrightarrow> diagnostics st = None) \<and>
     (had_error st' \<or> diagnostics st' = diagnostics st) \<and>
     pos st \<le> pos st' \<and> (located st \<longrightarrow> located st')"

named_theorems onward_intros "steps of the lexer that only move forward"

lemma location_Suc:
  assumes "i < length s"
  shows "location s (Suc i) =
    (if s ! i = CHR 0x0A then (fst (location s i) + 1, 1) else (fst (location s i), snd (location s i) + 1))"
  using assms by (simp add: location_def take_Suc_conv_app_nth)

lemma onward_refl [simp, intro]: "onward st st"
  by (simp add: onward_def)

lemma onward_trans [trans]: "onward a b \<Longrightarrow> onward b c \<Longrightarrow> onward a c"
  by (auto simp: onward_def)

lemma onward_newline: "\<not> at_end st \<Longrightarrow> cur_char st = CHR 0x0A \<Longrightarrow> onward st (newline_step st)"
  by (auto simp: onward_def newline_step_def at_end_def cur_char_def located_def location_Suc split: prod.splits)

lemma onward_bump: "\<not> at_end st \<Longrightarrow> cur_char st \<noteq> CHR 0x0A \<Longrightarrow> onward st (bump 1 st)"
  by (auto simp: onward_def bump_def at_end_def cur_char_def located_def location_Suc split: prod.splits)

lemma onward_step_char [onward_intros]: "\<not> at_end st \<Longrightarrow> onward st (step_char st)"
  using onward_newline onward_bump by (simp add: step_char_def)

lemma onward_parse_error [onward_intros]: "onward st (lexer_report_parse_error loc code st)"
  by (auto simp: onward_def lexer_report_parse_error_def add_diagnostic_def located_def Let_def)

lemma onward_rule [onward_intros]: "onward st (lexer_report_rule loc code st)"
  by (auto simp: onward_def lexer_report_rule_def add_diagnostic_def located_def)

lemma onward_scan_while: "\<not> P (CHR 0x0A) \<Longrightarrow> onward st (scan_while P st)"
proof (induction P st rule: scan_while.induct)
  case (1 P st)
  show ?case
  proof (cases "\<not> at_end st \<and> P (cur_char st)")
    case True
    then have "onward st (bump 1 st)" using "1.prems" by (intro onward_bump) auto
    also have "onward (bump 1 st) (scan_while P (bump 1 st))" using "1.IH" True "1.prems" by blast
    finally show ?thesis using True by (subst scan_while.simps) simp
  qed (subst scan_while.simps, auto)
qed

lemma onward_skip_blanks [onward_intros]: "onward st (skip_blanks st)"
proof (induction st rule: skip_blanks.induct)
  case (1 st)
  show ?case
  proof (cases "\<not> at_end st \<and> cur_char st \<in> {CHR '' '', CHR 0x09, CHR 0x0D, CHR 0x0A}")
    case True
    define st1 where "st1 = (if cur_char st = CHR 0x0A then newline_step st else bump 1 st)"
    have "onward st st1" using True onward_newline onward_bump by (simp add: st1_def)
    also have "onward st1 (skip_blanks st1)" using "1.IH" True by (auto simp: st1_def)
    finally show ?thesis using True by (subst skip_blanks.simps) (auto simp: st1_def)
  qed (subst skip_blanks.simps, auto)
qed

lemma onward_skip_line_comment [onward_intros]: "onward st (skip_line_comment st)"
proof (induction st rule: skip_line_comment.induct)
  case (1 st)
  show ?case
  proof (cases "at_end st \<or> cur_char st = CHR 0x0A")
    case True
    then show ?thesis using onward_newline by (subst skip_line_comment.simps) auto
  next
    case False
    then have "onward st (bump 1 st)" by (intro onward_bump) auto
    also have "onward (bump 1 st) (skip_line_comment (bump 1 st))" using "1.IH" False by blast
    finally show ?thesis using False by (subst skip_line_comment.simps) simp
  qed
qed

lemma peek_bump: "peek 0 st = Some c \<Longrightarrow> c \<noteq> CHR 0x0A \<Longrightarrow> onward st (bump 1 st)"
  by (intro onward_bump) (auto simp: peek_def at_end_def cur_char_def split: if_splits)

lemma onward_skip_block_comment [onward_intros]: "onward st (snd (skip_block_comment loc st))"
proof (induction loc st rule: skip_block_comment.induct)
  case (1 loc st)
  show ?case
  proof (cases "at_end st")
    case True
    then show ?thesis by (subst skip_block_comment.simps) (simp add: onward_parse_error)
  next
    case False
    note s = onward_step_char [OF False]
    have e: "onward st (lexer_report_parse_error loc ''COMMENT_NESTED_BLOCK'' (step_char st))"
      using s onward_parse_error onward_trans by blast
    have c: "peek 0 (step_char st) = Some (CHR ''/'') \<Longrightarrow> onward st (bump 1 (step_char st))"
      using onward_trans [OF s peek_bump] by simp
    have r: "onward st (snd (skip_block_comment loc (step_char st)))"
      if "\<not> (cur_char st = CHR ''/'' \<and> peek 0 (step_char st) = Some (CHR ''*''))"
         "\<not> (cur_char st = CHR ''*'' \<and> peek 0 (step_char st) = Some (CHR ''/''))"
      using onward_trans [OF s "1.IH" [OF False refl refl that]] .
    show ?thesis using False e c r by (subst skip_block_comment.simps) (auto simp: Let_def)
  qed
qed

section \<open>One token\<close>

definition in_token :: "LexerState \<Rightarrow> bool" where
  "in_token st \<longleftrightarrow> last_token_valid st \<and> last_token_end st = pos st"

definition comment_start :: "LexerState \<Rightarrow> LexerState" where
  "comment_start st = bump 2 (if in_token st then lexer_report_parse_error (here st) ''COMMENT_IN_TOKEN'' st else st)"

lemma onward_comment_start:
  assumes "peek 0 st = Some c" "peek 1 st = Some d" "c \<noteq> CHR 0x0A" "d \<noteq> CHR 0x0A"
  shows "onward st (comment_start st)" "pos st < pos (comment_start st)" "pos st < length (src st)"
proof -
  define st1 where "st1 = (if in_token st then lexer_report_parse_error (here st) ''COMMENT_IN_TOKEN'' st else st)"
  have 0: "onward st st1" by (simp add: st1_def onward_parse_error)
  have p: "pos st1 = pos st" "src st1 = src st"
    by (simp_all add: st1_def lexer_report_parse_error_def add_diagnostic_def Let_def)
  have "onward st1 (bump 1 st1)" using assms(1,3) p by (intro peek_bump [of _ c]) (auto simp: peek_def split: if_splits)
  moreover have "onward (bump 1 st1) (bump 1 (bump 1 st1))"
    using assms p by (intro peek_bump [of _ d]) (auto simp: peek_def bump_def split: if_splits)
  moreover have "bump 1 (bump 1 st1) = comment_start st" by (simp add: bump_def comment_start_def st1_def)
  ultimately show "onward st (comment_start st)" using 0 onward_trans by metis
  show "pos st < pos (comment_start st)" using p by (simp add: comment_start_def bump_def st1_def [symmetric])
  show "pos st < length (src st)" using assms(1) by (simp add: peek_def split: if_splits)
qed

lemma onward_measure: "onward a b \<Longrightarrow> src b = src a \<and> pos a \<le> pos b"
  by (simp add: onward_def)

lemma trivia_measure:
  assumes "peek 0 st = Some (CHR ''/'')" "peek 1 st = Some d" "d \<noteq> CHR 0x0A" "onward st0 st" "onward (comment_start st) st2"
  shows "length (src st2) - pos st2 < length (src st0) - pos st0"
proof -
  have c: "onward st (comment_start st)" "pos st < pos (comment_start st)" "pos st < length (src st)"
    using onward_comment_start [OF assms(1,2) _ assms(3)] by simp_all
  note m = onward_measure [OF assms(4)] onward_measure [OF c(1)] onward_measure [OF assms(5)]
  have "pos st0 < pos st2" "pos st0 < length (src st0)" using m c(2,3) by simp_all
  moreover have "src st2 = src st0" using m by simp
  ultimately show ?thesis by simp
qed

text \<open>The loop that skips blanks and comments; the flag is false where the C function returns.\<close>

function skip_trivia :: "LexerState \<Rightarrow> bool \<times> LexerState" where
  "skip_trivia st =
     (let st1 = skip_blanks st
      in if peek 0 st1 = Some (CHR ''/'') \<and> peek 1 st1 = Some (CHR ''/'')
         then let st2 = skip_line_comment (comment_start st1)
              in if stop_lexing st2 then (False, st2) else skip_trivia st2
         else if peek 0 st1 = Some (CHR ''/'') \<and> peek 1 st1 = Some (CHR ''*'')
         then let (ok, st2) = skip_block_comment (here st1) (comment_start st1)
              in if \<not> ok \<or> stop_lexing st2 then (False, st2) else skip_trivia st2
         else (True, st1))"
  by pat_completeness auto

termination
proof (relation "measure (\<lambda>st. length (src st) - pos st)", goal_cases)
  case 1
  show ?case by simp
next
  case (2 st st1 st2)
  have "onward st st1" "onward (comment_start st1) st2" unfolding 2 by (rule onward_skip_blanks, rule onward_skip_line_comment)
  then show ?case using 2(2) trivia_measure [of st1 "CHR ''/''" st st2] by simp
next
  case (3 st st1 x ok st2)
  have "snd x = st2" using 3(5) by (metis snd_conv)
  then have "onward (comment_start st1) st2" using 3(4) onward_skip_block_comment by metis
  moreover have "onward st st1" unfolding 3 by (rule onward_skip_blanks)
  ultimately show ?case using 3(3) trivia_measure [of st1 "CHR ''*''" st st2] by simp
qed

declare skip_trivia.simps [simp del]

subsection \<open>Strings\<close>

function skip_string :: "LexerState \<Rightarrow> LexerState" where
  "skip_string st = (if \<not> at_end st \<and> cur_char st \<noteq> CHR 0x22 then skip_string (step_char st) else st)"
  by pat_completeness auto

termination
  by (relation "measure (\<lambda>st. length (src st) - pos st)") auto

declare skip_string.simps [simp del]

fun decode_escapes :: "string \<Rightarrow> string" where
  "decode_escapes (c # n # cs) =
     (if c = CHR 0x5C \<and> (n = CHR 0x5C \<or> n = CHR 0x22) then n # decode_escapes cs
      else if c = CHR 0x5C \<and> n = CHR ''n'' then CHR 0x0A # decode_escapes cs
      else c # decode_escapes (n # cs))"
| "decode_escapes cs = cs"

definition lex_string :: "LexerState \<Rightarrow> LexerState" where
  "lex_string st =
     (let st1 = skip_string (bump 1 st)
      in if at_end st1 then st1
         else emit_token JZ_TOK_STRING (decode_escapes (slice (pos st + 1) (pos st1) st1)) (here st) (bump 1 st1))"

subsection \<open>Numbers\<close>

definition report_numeric_error :: "JZNumericErrorCause \<Rightarrow> JZLocation \<Rightarrow> LexerState \<Rightarrow> LexerState" where
  "report_numeric_error err loc st =
     (case err of
        JZ_NUM_ERR_UNDERSCORE_EDGES \<Rightarrow> lexer_report_rule loc ''LIT_UNDERSCORE_AT_EDGES'' st
      | JZ_NUM_ERR_DECIMAL_HAS_XZ \<Rightarrow> lexer_report_rule loc ''LIT_DECIMAL_HAS_XZ'' st
      | JZ_NUM_ERR_INVALID_DIGIT \<Rightarrow> lexer_report_rule loc ''LIT_INVALID_DIGIT_FOR_BASE'' st
      | JZ_NUM_ERR_OTHER \<Rightarrow> lexer_report_parse_error loc ''LEX_NUMERIC'' st)"

text \<open>The numeric information goes to the last token of the stream, as in C.\<close>

definition set_last_num :: "JZNumericInfo \<Rightarrow> LexerState \<Rightarrow> LexerState" where
  "set_last_num info st =
     (let ts = tokens (out st)
      in st\<lparr>out := (out st)\<lparr>tokens := ts[length ts - 1 := (last ts)\<lparr>tok_num := info\<rparr>]\<rparr>\<rparr>)"

definition finish_number :: "nat \<Rightarrow> JZLocation \<Rightarrow> LexerState \<Rightarrow> LexerState" where
  "finish_number start loc st =
     (let lxm = slice start (pos st) st
      in case parse_numeric_literal lxm of
           Inl err \<Rightarrow> report_numeric_error err loc st
         | Inr None \<Rightarrow> emit_token JZ_TOK_NUMBER lxm loc st
         | Inr (Some info) \<Rightarrow> set_last_num info (emit_token JZ_TOK_SIZED_NUMBER lxm loc st))"

definition is_literal_char :: "char \<Rightarrow> bool" where
  "is_literal_char c \<longleftrightarrow> isalnum c \<or> c = quote \<or> c = CHR ''_''"

definition peek_is :: "(char \<Rightarrow> bool) \<Rightarrow> char option \<Rightarrow> bool" where
  "peek_is P oc \<longleftrightarrow> (case oc of Some c \<Rightarrow> P c | None \<Rightarrow> False)"

definition lex_number :: "LexerState \<Rightarrow> LexerState" where
  "lex_number st =
     (let st1 = scan_while is_literal_char (bump 1 st)
      in if peek 0 st1 = Some (CHR ''.'') \<and> peek_is isdigit (peek 1 st1) \<and> quote \<notin> set (slice (pos st) (pos st1) st1)
         then let st2 = scan_while isdigit (bump 1 st1)
              in emit_token JZ_TOK_NUMBER (slice (pos st) (pos st2) st2) (here st) st2
         else finish_number (pos st) (here st) st1)"

subsection \<open>Identifiers, keywords and directives\<close>

text \<open>The speculative scan of a width \<open>CONFIG.name\<close>, taken back unless a quote follows.\<close>

definition config_width :: "nat \<Rightarrow> LexerState \<Rightarrow> LexerState" where
  "config_width start st =
     (if peek 0 st = Some (CHR ''.'') \<and> slice start (pos st) st = ''CONFIG''
      then let st1 = scan_while is_identifier_char (bump 1 st)
           in if pos st1 > pos st + 1 \<and> peek 0 st1 = Some quote then st1 else st
      else st)"

definition lex_word :: "LexerState \<Rightarrow> LexerState" where
  "lex_word st =
     (let st1 = scan_while is_identifier_char (bump 1 st);
          st2 = config_width (pos st) st1
      in if peek 0 st2 = Some quote
         then finish_number (pos st) (here st) (scan_while is_literal_char (bump 1 st2))
         else let lxm = slice (pos st) (pos st1) st1
              in emit_token (case match_keyword lxm of Some tt \<Rightarrow> tt | None \<Rightarrow> JZ_TOK_IDENTIFIER) lxm (here st) st2)"

subsection \<open>Operators and punctuation\<close>

text \<open>Token and text for a character and the three characters after it; \<open>None\<close> is the default
  case of the switch.\<close>

definition operator_token :: "char \<Rightarrow> char option \<Rightarrow> char option \<Rightarrow> char option \<Rightarrow> (JZTokenType \<times> string) option" where
  "operator_token c p1 p2 p3 =
     (if c = CHR ''{'' then Some (JZ_TOK_LBRACE, [c])
      else if c = CHR ''}'' then Some (JZ_TOK_RBRACE, [c])
      else if c = CHR ''('' then Some (JZ_TOK_LPAREN, [c])
      else if c = CHR '')'' then Some (JZ_TOK_RPAREN, [c])
      else if c = CHR ''['' then Some (JZ_TOK_LBRACKET, [c])
      else if c = CHR '']'' then Some (JZ_TOK_RBRACKET, [c])
      else if c = CHR '';'' then Some (JZ_TOK_SEMICOLON, [c])
      else if c = CHR '','' then Some (JZ_TOK_COMMA, [c])
      else if c = CHR ''.'' then Some (JZ_TOK_DOT, [c])
      else if c = CHR ''@'' then Some (JZ_TOK_AT, [c])
      else if c = CHR ''=''
      then if p1 = Some (CHR ''='') then Some (JZ_TOK_OP_EQ, ''=='')
           else if p1 = Some (CHR ''>'')
           then if (p2 = Some (CHR ''z'') \<or> p2 = Some (CHR ''s'')) \<and> \<not> peek_is is_identifier_char p3
                then if p2 = Some (CHR ''z'') then Some (JZ_TOK_OP_DRIVE_Z, ''=>z'') else Some (JZ_TOK_OP_DRIVE_S, ''=>s'')
                else Some (JZ_TOK_OP_DRIVE, ''=>'')
           else if (p1 = Some (CHR ''z'') \<or> p1 = Some (CHR ''s'')) \<and> \<not> peek_is is_identifier_char p2
           then if p1 = Some (CHR ''z'') then Some (JZ_TOK_OP_ASSIGN_Z, ''=z'') else Some (JZ_TOK_OP_ASSIGN_S, ''=s'')
           else Some (JZ_TOK_OP_ASSIGN, [c])
      else if c = CHR ''+'' then Some (JZ_TOK_OP_PLUS, [c])
      else if c = CHR ''-'' then Some (JZ_TOK_OP_MINUS, [c])
      else if c = CHR ''*'' then Some (JZ_TOK_OP_STAR, [c])
      else if c = CHR ''%'' then Some (JZ_TOK_OP_PERCENT, [c])
      else if c = CHR ''~'' then Some (JZ_TOK_OP_TILDE, [c])
      else if c = CHR ''^'' then Some (JZ_TOK_OP_CARET, [c])
      else if c = CHR ''&'' then if p1 = Some (CHR ''&'') then Some (JZ_TOK_OP_AND_AND, ''&&'') else Some (JZ_TOK_OP_AMP, [c])
      else if c = CHR ''|'' then if p1 = Some (CHR ''|'') then Some (JZ_TOK_OP_OR_OR, ''||'') else Some (JZ_TOK_OP_PIPE, [c])
      else if c = CHR ''!'' then if p1 = Some (CHR ''='') then Some (JZ_TOK_OP_NEQ, ''!='') else Some (JZ_TOK_OP_BANG, [c])
      else if c = CHR ''<''
      then if p1 = Some (CHR ''<'') then Some (JZ_TOK_OP_SHL, ''<<'')
           else if p1 = Some (CHR ''='')
           then if p2 = Some (CHR ''z'') then Some (JZ_TOK_OP_LE_Z, ''<=z'')
                else if p2 = Some (CHR ''s'') then Some (JZ_TOK_OP_LE_S, ''<=s'')
                else Some (JZ_TOK_OP_LE, ''<='')
           else Some (JZ_TOK_OP_LT, [c])
      else if c = CHR ''>''
      then if p1 = Some (CHR ''>'') \<and> p2 = Some (CHR ''>'') then Some (JZ_TOK_OP_ASHR, ''>>>'')
           else if p1 = Some (CHR ''>'') then Some (JZ_TOK_OP_SHR, ''>>'')
           else if p1 = Some (CHR ''='') then Some (JZ_TOK_OP_GE, ''>='')
           else Some (JZ_TOK_OP_GT, [c])
      else if c = CHR ''?'' then Some (JZ_TOK_OP_QUESTION, [c])
      else if c = CHR '':'' then Some (JZ_TOK_OP_COLON, [c])
      else if c = CHR ''/'' then Some (JZ_TOK_OP_SLASH, [c])
      else if c = CHR ''#'' then Some (JZ_TOK_OTHER, [c])
      else None)"

definition lex_operator :: "LexerState \<Rightarrow> LexerState" where
  "lex_operator st =
     (case operator_token (cur_char st) (peek 1 st) (peek 2 st) (peek 3 st) of
        Some (ty, txt) \<Rightarrow> emit_token ty txt (here st) (bump (length txt) st)
      | None \<Rightarrow> emit_token JZ_TOK_OTHER [cur_char st] (here st) (bump 1 (lexer_report_parse_error (here st) ''ID_SYNTAX_INVALID'' st)))"

text \<open>The dispatch on the first character of a token.\<close>

definition lex_at_char :: "LexerState \<Rightarrow> LexerState" where
  "lex_at_char st =
     (let c = cur_char st
      in if c = CHR 0x22 then lex_string st
         else if is_identifier_start c \<or> c = CHR ''@'' then lex_word st
         else if c = quote then bump 1 (lexer_report_rule (here st) ''LIT_UNSIZED'' st)
         else if isdigit c then lex_number st
         else lex_operator st)"

definition lex_one_token :: "LexerState \<Rightarrow> LexerState" where
  "lex_one_token st =
     (if stop_lexing st then st
      else let (go_on, st1) = skip_trivia st
           in if \<not> go_on then st1
              else if at_end st1 then emit_token JZ_TOK_EOF [] (here st1) st1
              else lex_at_char st1)"

section \<open>Progress and the whole source\<close>

lemma onward_skip_string: "onward st (skip_string st)"
proof (induction st rule: skip_string.induct)
  case (1 st)
  show ?case
  proof (cases "\<not> at_end st \<and> cur_char st \<noteq> CHR 0x22")
    case True
    then have "onward st (step_char st)" using onward_step_char by blast
    also have "onward (step_char st) (skip_string (step_char st))" using "1.IH" True by blast
    finally show ?thesis using True by (subst skip_string.simps) simp
  qed (subst skip_string.simps, auto)
qed

lemma onward_skip_trivia: "onward st (snd (skip_trivia st))"
proof (induction st rule: skip_trivia.induct)
  case (1 st)
  define st1 where "st1 = skip_blanks st"
  note b = onward_skip_blanks [of st, folded st1_def]
  consider (line) "peek 0 st1 = Some (CHR ''/'')" "peek 1 st1 = Some (CHR ''/'')"
    | (block) "peek 0 st1 = Some (CHR ''/'')" "peek 1 st1 = Some (CHR ''*'')"
    | (none) "\<not> (peek 0 st1 = Some (CHR ''/'') \<and> peek 1 st1 = Some (CHR ''/''))"
             "\<not> (peek 0 st1 = Some (CHR ''/'') \<and> peek 1 st1 = Some (CHR ''*''))" by blast
  then show ?case
  proof cases
    case line
    define st2 where "st2 = skip_line_comment (comment_start st1)"
    have "onward st1 st2"
      using onward_trans [OF onward_comment_start(1) [OF line] onward_skip_line_comment] by (simp add: st2_def)
    then have "onward st st2" using b onward_trans by blast
    moreover have "onward st2 (snd (skip_trivia st2))" if "\<not> stop_lexing st2"
      using "1.IH"(1) [OF st1_def _ st2_def that] line by simp
    ultimately show ?thesis
      using line by (subst skip_trivia.simps) (auto simp: Let_def st1_def [symmetric] st2_def [symmetric] intro: onward_trans)
  next
    case block
    obtain ok st2 where k: "skip_block_comment (here st1) (comment_start st1) = (ok, st2)" by fastforce
    have "onward st1 st2"
      using onward_trans [OF onward_comment_start(1) [OF block] onward_skip_block_comment, of "here st1"] k by simp
    then have "onward st st2" using b onward_trans by blast
    moreover have "onward st2 (snd (skip_trivia st2))" if "ok" "\<not> stop_lexing st2"
      using "1.IH"(2) [OF st1_def _ _ k [symmetric] refl] block that by simp
    ultimately show ?thesis
      using block k by (subst skip_trivia.simps) (auto simp: Let_def st1_def [symmetric] intro: onward_trans)
  next
    case none
    then show ?thesis using b by (subst skip_trivia.simps) (auto simp: Let_def st1_def [symmetric])
  qed
qed

lemma bump_fields [simp]: "src (bump n st) = src st" "pos (bump n st) = pos st + n" "filename (bump n st) = filename st"
  "out (bump n st) = out st" "stop_lexing (bump n st) = stop_lexing st" "had_error (bump n st) = had_error st"
  "diagnostics (bump n st) = diagnostics st" "line (bump n st) = line st" "column (bump n st) = column st + n"
  by (simp_all add: bump_def)

lemma report_fields [simp]:
  "src (lexer_report_rule loc r st) = src st" "pos (lexer_report_rule loc r st) = pos st"
  "out (lexer_report_rule loc r st) = out st" "stop_lexing (lexer_report_rule loc r st) = stop_lexing st"
  "src (lexer_report_parse_error loc r st) = src st" "pos (lexer_report_parse_error loc r st) = pos st"
  "out (lexer_report_parse_error loc r st) = out st" "stop_lexing (lexer_report_parse_error loc r st) = stop_lexing st"
  by (simp_all add: lexer_report_rule_def lexer_report_parse_error_def add_diagnostic_def Let_def)

lemma emit_token_moves [simp]: "src (emit_token ty txt loc st) = src st" "pos (emit_token ty txt loc st) = pos st"
  by (simp_all add: emit_token_def lexing_fails_def Let_def split: option.split)

lemma finish_number_moves [simp]: "src (finish_number a loc st) = src st" "pos (finish_number a loc st) = pos st"
  by (simp_all add: finish_number_def report_numeric_error_def set_last_num_def Let_def split: sum.split option.split JZNumericErrorCause.split)

lemma scan_moves:
  assumes "\<not> P (CHR 0x0A)"
  shows "src (scan_while P st) = src st" "pos st \<le> pos (scan_while P st)"
  using onward_measure [OF onward_scan_while [of P st]] assms by auto

lemma no_newline [simp]: "\<not> is_identifier_char (CHR 0x0A)" "\<not> is_literal_char (CHR 0x0A)" "\<not> isdigit (CHR 0x0A)"
  by (simp_all add: is_identifier_char_def is_literal_char_def isalnum_def isalpha_def isdigit_def)

lemmas scan_word = scan_moves [of is_identifier_char, simplified] scan_moves [of is_literal_char, simplified]
  scan_moves [of isdigit, simplified]

lemma onward_config_width: "peek 0 st = Some (CHR ''.'') \<longrightarrow> onward st (bump 1 st) \<Longrightarrow> onward st (config_width start st)"
  using onward_trans [OF _ onward_scan_while [of is_identifier_char "bump 1 st"]] by (auto simp: config_width_def Let_def)

lemma config_width_moves: "src (config_width a st) = src st" "pos st \<le> pos (config_width a st)"
  using scan_word(1,2) [of "bump 1 st"] by (simp_all add: config_width_def Let_def)

lemma lex_word_moves: "src (lex_word st) = src st \<and> pos st < pos (lex_word st)"
proof -
  define st1 where "st1 = scan_while is_identifier_char (bump 1 st)"
  define st2 where "st2 = config_width (pos st) st1"
  define st3 where "st3 = scan_while is_literal_char (bump 1 st2)"
  have 1: "src st1 = src st" "pos st < pos st1" using scan_word(1,2) [of "bump 1 st"] by (simp_all add: st1_def)
  have 2: "src st2 = src st" "pos st < pos st2" using config_width_moves(1) [of "pos st" st1] config_width_moves(2) [of st1 "pos st"] 1 by (simp_all add: st2_def)
  have 3: "src st3 = src st" "pos st < pos st3" using scan_word(3,4) [of "bump 1 st2"] 2 by (simp_all add: st3_def)
  show ?thesis unfolding lex_word_def Let_def st1_def [symmetric] st2_def [symmetric] st3_def [symmetric] using 1 2 3 by simp
qed

lemma lex_number_moves: "src (lex_number st) = src st \<and> pos st < pos (lex_number st)"
proof -
  define st1 where "st1 = scan_while is_literal_char (bump 1 st)"
  define st2 where "st2 = scan_while isdigit (bump 1 st1)"
  have 1: "src st1 = src st" "pos st < pos st1" using scan_word(3,4) [of "bump 1 st"] by (simp_all add: st1_def)
  have 2: "src st2 = src st" "pos st < pos st2" using scan_word(5,6) [of "bump 1 st1"] 1 by (simp_all add: st2_def)
  show ?thesis unfolding lex_number_def Let_def st1_def [symmetric] st2_def [symmetric] using 1 2 by simp
qed

lemma lex_string_moves: "src (lex_string st) = src st \<and> pos st < pos (lex_string st)"
  using onward_measure [OF onward_skip_string [of "bump 1 st"]] by (simp add: lex_string_def Let_def)

lemma operator_token_text: "operator_token c p1 p2 p3 = Some (ty, txt) \<Longrightarrow> txt \<noteq> []"
  by (auto simp: operator_token_def split: if_splits)

lemma lex_operator_moves: "src (lex_operator st) = src st \<and> pos st < pos (lex_operator st)"
  using operator_token_text by (auto simp: lex_operator_def split: option.split)

lemma lex_at_char_moves: "src (lex_at_char st) = src st \<and> pos st < pos (lex_at_char st)"
  using lex_string_moves lex_word_moves lex_number_moves lex_operator_moves by (simp add: lex_at_char_def Let_def)

definition ends_in_eof :: "JZTokenStream \<Rightarrow> bool" where
  "ends_in_eof s \<longleftrightarrow> tokens s \<noteq> [] \<and> tok_type (last (tokens s)) = JZ_TOK_EOF"

lemma emit_eof: "stop_lexing (emit_token JZ_TOK_EOF txt loc st) \<or> ends_in_eof (out (emit_token JZ_TOK_EOF txt loc st))"
  by (auto simp: emit_token_def lexing_fails_def ends_in_eof_def Let_def split: option.split)

lemma skip_trivia_early: "skip_trivia st = (False, st1) \<Longrightarrow> pos st < pos st1 \<and> pos st < length (src st)"
proof (induction st rule: skip_trivia.induct)
  case (1 st)
  define st0 where "st0 = skip_blanks st"
  note b = onward_measure [OF onward_skip_blanks [of st, folded st0_def]]
  note r = "1.prems" [unfolded skip_trivia.simps [of st] Let_def st0_def [symmetric]]
  obtain d where d: "peek 0 st0 = Some (CHR ''/'')" "peek 1 st0 = Some d" "d = CHR ''/'' \<or> d = CHR ''*''"
    using r by (auto split: if_splits)
  have c: "onward st0 (comment_start st0)" "pos st0 < pos (comment_start st0)" "pos st0 < length (src st0)"
    using onward_comment_start [OF d(1,2)] d(3) by auto
  have "onward st (snd (skip_trivia st))" by (rule onward_skip_trivia)
  have "pos (comment_start st0) \<le> pos st1"
  proof (cases "d = CHR ''/''")
    case True
    define st2 where "st2 = skip_line_comment (comment_start st0)"
    have "pos (comment_start st0) \<le> pos st2" using onward_measure [OF onward_skip_line_comment] by (simp add: st2_def)
    moreover have "pos st2 \<le> pos st1"
      using r d True onward_measure [OF onward_skip_trivia [of st2]] by (auto simp: st2_def [symmetric] split: if_splits)
    ultimately show ?thesis by simp
  next
    case False
    obtain ok st2 where k: "skip_block_comment (here st0) (comment_start st0) = (ok, st2)" by fastforce
    have "pos (comment_start st0) \<le> pos st2" using onward_measure [OF onward_skip_block_comment] k by (metis snd_conv)
    moreover have "pos st2 \<le> pos st1"
      using r d False k onward_measure [OF onward_skip_trivia [of st2]] by (auto split: if_splits)
    ultimately show ?thesis by simp
  qed
  then show ?case using b c by simp
qed

text \<open>Every call stops the pass, ends the stream or moves forward.\<close>

lemma lex_one_token_progress:
  assumes "\<not> stop_lexing st"
  defines "st' \<equiv> lex_one_token st"
  shows "src st' = src st" "stop_lexing st' \<or> ends_in_eof (out st') \<or> (pos st < pos st' \<and> pos st < length (src st))"
proof -
  obtain go st1 where t: "skip_trivia st = (go, st1)" by fastforce
  have o: "src st1 = src st" "pos st \<le> pos st1" using onward_measure [OF onward_skip_trivia [of st]] t by simp_all
  have moves: "src (lex_at_char st1) = src st" "pos st < pos (lex_at_char st1)"
    using lex_at_char_moves [of st1] o by auto
  show "src st' = src st"
    using assms(1) moves o by (simp add: st'_def lex_one_token_def t Let_def)
  show "stop_lexing st' \<or> ends_in_eof (out st') \<or> (pos st < pos st' \<and> pos st < length (src st))"
  proof (cases "go \<and> \<not> at_end st1")
    case True
    then have "pos st < length (src st)" using o by (simp add: at_end_def)
    moreover have "pos st < pos st'" using True assms(1) moves o by (simp add: st'_def lex_one_token_def t Let_def)
    ultimately show ?thesis by simp
  next
    case False
    show ?thesis
    proof (cases go)
      case True
      then show ?thesis using False assms(1) emit_eof [of "[]" "here st1" st1] by (auto simp: st'_def lex_one_token_def t)
    next
      case False
      then show ?thesis using skip_trivia_early [of st st1] t assms(1) by (simp add: st'_def lex_one_token_def)
    qed
  qed
qed

function lex_loop :: "LexerState \<Rightarrow> LexerState" where
  "lex_loop st =
     (let st1 = lex_one_token st
      in if stop_lexing st1 then st1
         else if ends_in_eof (out st1) then st1
         else lex_loop st1)"
  by pat_completeness auto

termination
proof (relation "measure (\<lambda>st. length (src st) - pos st)", goal_cases)
  case 1
  show ?case by simp
next
  case (2 st st1)
  have "\<not> stop_lexing st" using 2 by (auto simp: lex_one_token_def)
  from lex_one_token_progress [OF this] 2 show ?case by auto
qed

declare lex_loop.simps [simp del]

definition lexer_init :: "string \<Rightarrow> string \<Rightarrow> Diagnostic list option \<Rightarrow> LexerState" where
  "lexer_init fname source diags =
     \<lparr>filename = fname, src = source, pos = 0, line = 1, column = 1, out = \<lparr>tokens = [], capacity = 0\<rparr>,
      diagnostics = diags, had_error = False, stop_lexing = False, last_token_end = 0, last_token_valid = False\<rparr>"

definition finish_stream :: "LexerState \<Rightarrow> LexerState" where
  "finish_stream st =
     (if \<not> ends_in_eof (out st) \<and> int (length (tokens (out st))) < JZ_MAX_SOURCE_TOKENS
      then emit_token JZ_TOK_EOF [] (here st) st else st)"

text \<open>The result is 0 or -1, the stream and the diagnostics.\<close>

definition jz_lex_source :: "string \<Rightarrow> string \<Rightarrow> Diagnostic list option \<Rightarrow> int \<times> JZTokenStream \<times> Diagnostic list option" where
  "jz_lex_source fname source diags =
     (let st = finish_stream (lex_loop (lexer_init fname source diags))
      in (if had_error st then -1 else 0, out st, diagnostics st))"

end
