(* ===== verification/Sim_IR.thy ===== *)
theory Sim_IR
  imports Prelude
begin

text \<open>
  The intermediate representation the simulator runs, include/ir.h. Structs are records,
  tagged unions are datatypes with one constructor per union member (the operator kinds that
  share a member are an enumeration of their own), a NULL pointer to an expression or a
  statement is the constructor \<open>EXPR_NULL\<close> or \<open>STMT_NULL\<close>, and counted arrays are lists.
  Fields that only backends, diagnostics and debuggers read (source lines, owner ids, port
  names of memories, constant names) are left out.
\<close>

section \<open>Signals and literals\<close>

datatype IR_SignalKind = SIG_PORT | SIG_NET | SIG_REGISTER | SIG_LATCH

datatype IR_PortDirection = PORT_IN | PORT_OUT | PORT_INOUT

record IR_Literal =
  lit_words :: "u64 list"
  lit_width :: int
  lit_is_z :: bool

text \<open>\<open>sig_direction\<close> is \<open>u.port.direction\<close> and \<open>sig_reset_value\<close> is \<open>u.reg.reset_value\<close>.\<close>

record IR_Signal =
  sig_id :: int
  sig_kind :: IR_SignalKind
  sig_width :: int
  sig_direction :: IR_PortDirection
  sig_reset_value :: IR_Literal

section \<open>Expressions\<close>

text \<open>Kinds with one operand (\<open>u.unary\<close>), with two (\<open>u.binary\<close>) and with the intrinsic layout.\<close>

datatype IR_UnaryKind = EXPR_UNARY_NOT | EXPR_UNARY_NEG | EXPR_LOGICAL_NOT

datatype IR_BinaryKind =
    EXPR_BINARY_ADD | EXPR_BINARY_SUB | EXPR_BINARY_MUL | EXPR_BINARY_DIV | EXPR_BINARY_MOD
  | EXPR_BINARY_AND | EXPR_BINARY_OR | EXPR_BINARY_XOR
  | EXPR_BINARY_SHL | EXPR_BINARY_SHR | EXPR_BINARY_ASHR
  | EXPR_BINARY_EQ | EXPR_BINARY_NEQ | EXPR_BINARY_LT | EXPR_BINARY_GT | EXPR_BINARY_LTE | EXPR_BINARY_GTE
  | EXPR_LOGICAL_AND | EXPR_LOGICAL_OR
  | EXPR_INTRINSIC_USUB | EXPR_INTRINSIC_SSUB
  | EXPR_INTRINSIC_UMIN | EXPR_INTRINSIC_UMAX | EXPR_INTRINSIC_SMIN | EXPR_INTRINSIC_SMAX

datatype IR_IntrinsicKind =
    EXPR_INTRINSIC_UADD | EXPR_INTRINSIC_SADD | EXPR_INTRINSIC_UMUL | EXPR_INTRINSIC_SMUL
  | EXPR_INTRINSIC_GBIT | EXPR_INTRINSIC_SBIT | EXPR_INTRINSIC_GSLICE | EXPR_INTRINSIC_SSLICE
  | EXPR_INTRINSIC_OH2B | EXPR_INTRINSIC_B2OH | EXPR_INTRINSIC_PRIENC | EXPR_INTRINSIC_LZC
  | EXPR_INTRINSIC_ABS | EXPR_INTRINSIC_POPCOUNT | EXPR_INTRINSIC_REVERSE | EXPR_INTRINSIC_BSWAP
  | EXPR_INTRINSIC_REDUCE_AND | EXPR_INTRINSIC_REDUCE_OR | EXPR_INTRINSIC_REDUCE_XOR

text \<open>The first integer of every constructor but \<open>EXPR_NULL\<close> is the node's \<open>width\<close>.\<close>

datatype IR_Expr =
    EXPR_NULL
  | EXPR_LITERAL int IR_Literal
  | EXPR_SIGNAL_REF int int
  | EXPR_UNARY IR_UnaryKind int IR_Expr
  | EXPR_BINARY IR_BinaryKind int IR_Expr IR_Expr
  | EXPR_TERNARY int IR_Expr IR_Expr IR_Expr
  | EXPR_CONCAT int "IR_Expr list"
  | EXPR_SLICE int int IR_Expr int int
  | EXPR_INTRINSIC IR_IntrinsicKind int IR_Expr IR_Expr IR_Expr int
  | EXPR_MEM_READ int string IR_Expr

section \<open>Statements\<close>

datatype IR_AssignmentKind =
    ASSIGN_ALIAS | ASSIGN_ALIAS_ZEXT | ASSIGN_ALIAS_SEXT
  | ASSIGN_DRIVE | ASSIGN_DRIVE_ZEXT | ASSIGN_DRIVE_SEXT
  | ASSIGN_RECEIVE | ASSIGN_RECEIVE_ZEXT | ASSIGN_RECEIVE_SEXT

record IR_Assignment =
  lhs_signal_id :: int
  asgn_rhs :: IR_Expr
  asgn_kind :: IR_AssignmentKind
  is_sliced :: bool
  lhs_msb :: int
  lhs_lsb :: int

text \<open>
  \<open>STMT_IF condition then_block elif_chain else_block\<close>; \<open>STMT_SELECT selector cases\<close>, a case
  with value \<open>EXPR_NULL\<close> being DEFAULT; \<open>STMT_MEM_WRITE memory_name address data\<close>.
\<close>

datatype IR_Stmt =
    STMT_NULL
  | STMT_ASSIGNMENT IR_Assignment
  | STMT_IF IR_Expr IR_Stmt IR_Stmt IR_Stmt
  | STMT_SELECT IR_Expr "(IR_Expr \<times> IR_Stmt) list"
  | STMT_BLOCK "IR_Stmt list"
  | STMT_MEM_WRITE string IR_Expr IR_Expr

section \<open>Clock domains, memories, instances, modules\<close>

datatype IR_ClockEdge = EDGE_RISING | EDGE_FALLING | EDGE_BOTH

datatype IR_ResetPolarity = RESET_ACTIVE_HIGH | RESET_ACTIVE_LOW

datatype IR_ResetType = RESET_IMMEDIATE | RESET_CLOCKED

record IR_ClockDomain =
  clock_signal_id :: int
  clock_edge :: IR_ClockEdge
  register_ids :: "int list"
  reset_signal_id :: int
  reset_active :: IR_ResetPolarity
  reset_type :: IR_ResetType
  cd_statements :: IR_Stmt

datatype IR_MemoryInitKind = MEM_INIT_NONE | MEM_INIT_LITERAL | MEM_INIT_FILE | MEM_INIT_BLOB

record IR_Memory =
  mem_id :: int
  mem_name :: string
  mem_word_width :: int
  mem_depth :: int
  mem_init_kind :: IR_MemoryInitKind

text \<open>\<open>conn_const\<close> says whether \<open>const_expr\<close> is not NULL.\<close>

record IR_InstanceConnection =
  parent_signal_id :: int
  child_port_id :: int
  conn_parent_msb :: int
  conn_parent_lsb :: int
  conn_const :: bool

record IR_Instance =
  child_module_id :: int
  connections :: "IR_InstanceConnection list"

record IR_Module =
  module_id :: int
  module_signals :: "IR_Signal list"
  clock_domains :: "IR_ClockDomain list"
  instances :: "IR_Instance list"
  module_memories :: "IR_Memory list"
  async_block :: IR_Stmt
  eliminated :: bool

record IR_Design =
  design_modules :: "IR_Module list"

end
