(* ===== verification/Sem_Literal.thy ===== *)
theory Sem_Literal
  imports Const_Eval Lexer Sim_IR
begin

text \<open>
  Literals and the types of expressions: the type rules of the operators (sem/type.c), the
  analysis of sized literals (sem/literal.c), the parsers of plain integers (sem/driver.c), the
  checks of literals (sem/driver_literal.c) and the decoding of a literal into the four words of
  the intermediate representation (ir_decode_sized_literal of ir/ir_build_expr.c). A function
  that returns 0 or -1 and writes its result through a pointer returns an option; unsigned
  variables are words of 32 or 64 bits, so that they wrap as the code's do.
\<close>

section \<open>Types (sem/type.c)\<close>

record JZBitvecType =
  bv_width :: u32
  is_signed :: bool

datatype JZUnaryOp = JZ_UNARY_PLUS | JZ_UNARY_MINUS | JZ_UNARY_BIT_NOT | JZ_UNARY_LOGICAL_NOT

datatype JZBinaryOp =
    JZ_BIN_ADD | JZ_BIN_SUB | JZ_BIN_MUL | JZ_BIN_DIV | JZ_BIN_MOD
  | JZ_BIN_BIT_AND | JZ_BIN_BIT_OR | JZ_BIN_BIT_XOR
  | JZ_BIN_LOG_AND | JZ_BIN_LOG_OR
  | JZ_BIN_EQ | JZ_BIN_NE | JZ_BIN_LT | JZ_BIN_LE | JZ_BIN_GT | JZ_BIN_GE
  | JZ_BIN_SHL | JZ_BIN_SHR | JZ_BIN_ASHR

abbreviation UINT_MAX :: u32 where
  "UINT_MAX \<equiv> - 1"

definition type_is_valid :: "JZBitvecType \<Rightarrow> bool" where
  "type_is_valid t \<longleftrightarrow> bv_width t > 0"

definition jz_type_scalar :: "u32 \<Rightarrow> bool \<Rightarrow> JZBitvecType" where
  "jz_type_scalar w s = \<lparr>bv_width = w, is_signed = s\<rparr>"

definition jz_type_unary :: "JZUnaryOp \<Rightarrow> JZBitvecType \<Rightarrow> JZBitvecType option" where
  "jz_type_unary op operand =
     (if \<not> type_is_valid operand then None
      else case op of
        JZ_UNARY_PLUS \<Rightarrow> Some operand
      | JZ_UNARY_MINUS \<Rightarrow> Some operand
      | JZ_UNARY_BIT_NOT \<Rightarrow> Some operand
      | JZ_UNARY_LOGICAL_NOT \<Rightarrow> if bv_width operand \<noteq> 1 then None else Some (jz_type_scalar 1 False))"

definition equal_widths :: "JZBitvecType \<Rightarrow> JZBitvecType \<Rightarrow> u32 \<Rightarrow> bool \<Rightarrow> JZBitvecType option" where
  "equal_widths lhs rhs w s = (if bv_width lhs \<noteq> bv_width rhs then None else Some (jz_type_scalar w s))"

definition jz_type_binary :: "JZBinaryOp \<Rightarrow> JZBitvecType \<Rightarrow> JZBitvecType \<Rightarrow> JZBitvecType option" where
  "jz_type_binary op lhs rhs =
     (if \<not> type_is_valid lhs \<or> \<not> type_is_valid rhs then None
      else let w = bv_width lhs; s = (is_signed lhs \<or> is_signed rhs);
               same = equal_widths lhs rhs w s;
               logical = (if bv_width lhs \<noteq> 1 \<or> bv_width rhs \<noteq> 1 then None else Some (jz_type_scalar 1 False));
               comparison = equal_widths lhs rhs 1 False;
               shift = (if bv_width rhs = 0 then None else Some (jz_type_scalar w (is_signed lhs)))
           in case op of
                JZ_BIN_ADD \<Rightarrow> same
              | JZ_BIN_SUB \<Rightarrow> same
              | JZ_BIN_MUL \<Rightarrow> (if bv_width lhs \<noteq> bv_width rhs then None
                              else if w > 0 \<and> w > UINT_MAX div 2 then None
                              else Some (jz_type_scalar (w * 2) s))
              | JZ_BIN_DIV \<Rightarrow> same
              | JZ_BIN_MOD \<Rightarrow> same
              | JZ_BIN_BIT_AND \<Rightarrow> same
              | JZ_BIN_BIT_OR \<Rightarrow> same
              | JZ_BIN_BIT_XOR \<Rightarrow> same
              | JZ_BIN_LOG_AND \<Rightarrow> logical
              | JZ_BIN_LOG_OR \<Rightarrow> logical
              | JZ_BIN_EQ \<Rightarrow> comparison
              | JZ_BIN_NE \<Rightarrow> comparison
              | JZ_BIN_LT \<Rightarrow> comparison
              | JZ_BIN_LE \<Rightarrow> comparison
              | JZ_BIN_GT \<Rightarrow> comparison
              | JZ_BIN_GE \<Rightarrow> comparison
              | JZ_BIN_SHL \<Rightarrow> shift
              | JZ_BIN_SHR \<Rightarrow> shift
              | JZ_BIN_ASHR \<Rightarrow> shift)"

definition jz_type_ternary :: "JZBitvecType \<Rightarrow> JZBitvecType \<Rightarrow> JZBitvecType \<Rightarrow> JZBitvecType option" where
  "jz_type_ternary c t f =
     (if \<not> type_is_valid c \<or> \<not> type_is_valid t \<or> \<not> type_is_valid f then None
      else if bv_width c \<noteq> 1 then None
      else if bv_width t \<noteq> bv_width f then None
      else Some (jz_type_scalar (bv_width t) (is_signed t \<or> is_signed f)))"

fun concat_total :: "u32 \<Rightarrow> JZBitvecType list \<Rightarrow> u32 option" where
  "concat_total acc [] = Some acc"
| "concat_total acc (t # ts) =
     (if \<not> type_is_valid t then None
      else if bv_width t > 0 \<and> acc > UINT_MAX - bv_width t then None
      else concat_total (acc + bv_width t) ts)"

definition jz_type_concat :: "JZBitvecType list \<Rightarrow> JZBitvecType option" where
  "jz_type_concat elems =
     (if elems = [] then None
      else case concat_total 0 elems of None \<Rightarrow> None | Some w \<Rightarrow> Some (jz_type_scalar w False))"

definition jz_type_slice :: "JZBitvecType \<Rightarrow> u32 \<Rightarrow> u32 \<Rightarrow> JZBitvecType option" where
  "jz_type_slice base msb lsb =
     (if \<not> type_is_valid base then None
      else if msb < lsb then None
      else if msb \<ge> bv_width base then None
      else Some (jz_type_scalar (msb - lsb + 1) False))"

section \<open>The analysis of a sized literal (sem/literal.c)\<close>

fun count_digits_no_underscore :: "string \<Rightarrow> u32" where
  "count_digits_no_underscore [] = 0"
| "count_digits_no_underscore (c # cs) =
     (if c \<noteq> CHR ''_'' then count_digits_no_underscore cs + 1 else count_digits_no_underscore cs)"

definition digit_value :: "char \<Rightarrow> nat" where
  "digit_value c = of_char c - 48"

text \<open>The loop over the digits: a width to return at once, or the accumulated value.\<close>

fun decimal_accumulate :: "u64 \<Rightarrow> string \<Rightarrow> u32 + u64" where
  "decimal_accumulate acc [] = Inr acc"
| "decimal_accumulate acc (c # cs) =
     (if c = CHR ''_'' then decimal_accumulate acc cs
      else if \<not> isdigit c then Inl 0
      else let d = of_nat (digit_value c)
           in if acc > (UINT64_MAX - d) div 10 then Inl 64
              else decimal_accumulate (acc * 10 + d) cs)"

function count_bits :: "u64 \<Rightarrow> u32" where
  "count_bits acc = (if acc > 0 then count_bits (drop_bit 1 acc) + 1 else 0)"
  by pat_completeness auto

termination count_bits
  by (relation "measure unat") (auto simp: word_less_nat_alt unat_drop_bit_eq drop_bit_Suc unat_div_distrib)

declare count_bits.simps [simp del]

definition intrinsic_width_for_decimal :: "string \<Rightarrow> u32" where
  "intrinsic_width_for_decimal s =
     (if s = [] then 0
      else case decimal_accumulate 0 s of
             Inl w \<Rightarrow> w
           | Inr acc \<Rightarrow> if acc = 0 then 1 else let bits = count_bits acc in if bits \<noteq> 0 then bits else 1)"

text \<open>The value of a hexadecimal digit; None for every other character.\<close>

definition hex_value :: "char \<Rightarrow> nat option" where
  "hex_value c =
     (if isdigit c then Some (of_char c - 48)
      else if 97 \<le> (of_char c :: nat) \<and> (of_char c :: nat) \<le> 102 then Some (10 + (of_char c - 97))
      else if 65 \<le> (of_char c :: nat) \<and> (of_char c :: nat) \<le> 70 then Some (10 + (of_char c - 65))
      else None)"

fun hex_scan :: "u32 \<Rightarrow> u32 \<Rightarrow> string \<Rightarrow> u32" where
  "hex_scan nibbles idx [] = 1"
| "hex_scan nibbles idx (c # cs) =
     (if c = CHR ''_'' then hex_scan nibbles idx cs
      else case hex_value c of
             None \<Rightarrow> hex_scan nibbles (idx + 1) cs
           | Some v \<Rightarrow>
               if v = 0 then hex_scan nibbles (idx + 1) cs
               else let msb_pos = (if bit v 3 then 4 else if bit v 2 then 3 else if bit v 1 then 2 else 1)
                    in (nibbles - idx - 1) * 4 + msb_pos)"

definition intrinsic_width_for_hex_magnitude :: "string \<Rightarrow> u32" where
  "intrinsic_width_for_hex_magnitude s =
     (let total_nibbles = count_digits_no_underscore s
      in if s = [] \<or> total_nibbles = 0 then 0 else hex_scan total_nibbles 0 s)"

datatype JZLiteralExtKind = JZ_LITERAL_EXT_NONE | JZ_LITERAL_EXT_ZERO | JZ_LITERAL_EXT_X | JZ_LITERAL_EXT_Z

definition binary_ext :: "string \<Rightarrow> JZLiteralExtKind" where
  "binary_ext s =
     (let p = dropWhile (\<lambda>c. c = CHR ''_'') s; msb = (if p = [] then CHR ''0'' else hd p)
      in if msb = CHR ''0'' \<or> msb = CHR ''1'' then JZ_LITERAL_EXT_ZERO
         else if msb = CHR ''x'' \<or> msb = CHR ''X'' then JZ_LITERAL_EXT_X
         else if msb = CHR ''z'' \<or> msb = CHR ''Z'' then JZ_LITERAL_EXT_Z
         else JZ_LITERAL_EXT_ZERO)"

definition jz_literal_analyze :: "JZNumericBase \<Rightarrow> string \<Rightarrow> u32 \<Rightarrow> (u32 \<times> JZLiteralExtKind) option" where
  "jz_literal_analyze base s declared =
     (if declared = 0 then None
      else let finish = (\<lambda>intrinsic ext.
                 if intrinsic > declared then None
                 else Some (intrinsic, if intrinsic = declared then JZ_LITERAL_EXT_NONE else ext))
           in case base of
                JZ_NUM_BASE_BIN \<Rightarrow>
                  (let intrinsic = count_digits_no_underscore s
                   in finish intrinsic (if intrinsic < declared then binary_ext s else JZ_LITERAL_EXT_NONE))
              | JZ_NUM_BASE_HEX \<Rightarrow>
                  (let intrinsic = intrinsic_width_for_hex_magnitude s
                   in if intrinsic = 0 then None
                      else finish intrinsic (if intrinsic < declared then JZ_LITERAL_EXT_ZERO else JZ_LITERAL_EXT_NONE))
              | JZ_NUM_BASE_DEC \<Rightarrow>
                  (let intrinsic = intrinsic_width_for_decimal s
                   in if intrinsic = 0 then None
                      else finish intrinsic (if intrinsic < declared then JZ_LITERAL_EXT_ZERO else JZ_LITERAL_EXT_NONE))
              | JZ_NUM_BASE_NONE \<Rightarrow> None)"

section \<open>Plain integers (sem/driver.c)\<close>

text \<open>
  The loop the parsers of unsigned integers share: \<open>skip\<close> names the characters it steps over,
  and the result is the value and whether a digit was seen, or None.
\<close>

definition u32_digit_overflows :: "u32 \<Rightarrow> u32 \<Rightarrow> bool" where
  "u32_digit_overflows v d \<longleftrightarrow> v > UINT_MAX div 10 \<or> (v = UINT_MAX div 10 \<and> d > UINT_MAX mod 10)"

fun parse_digits :: "(char \<Rightarrow> bool) \<Rightarrow> u32 \<Rightarrow> bool \<Rightarrow> string \<Rightarrow> (u32 \<times> bool) option" where
  "parse_digits skip v saw [] = Some (v, saw)"
| "parse_digits skip v saw (c # cs) =
     (if skip c then parse_digits skip v saw cs
      else if \<not> isdigit c then None
      else let d = of_nat (digit_value c)
           in if u32_digit_overflows v d then None else parse_digits skip (v * 10 + d) True cs)"

definition parse_simple_positive_int :: "string \<Rightarrow> u32 option" where
  "parse_simple_positive_int s =
     (case parse_digits (\<lambda>c. isspace c \<or> c = CHR ''_'') 0 False s of
        None \<Rightarrow> None
      | Some (v, saw) \<Rightarrow> if \<not> saw \<or> v = 0 then None else Some v)"

definition parse_simple_nonnegative_int :: "string \<Rightarrow> u32 option" where
  "parse_simple_nonnegative_int s =
     (case parse_digits isspace 0 False s of
        None \<Rightarrow> None
      | Some (v, saw) \<Rightarrow> if \<not> saw then None else Some v)"

text \<open>The three loops of \<open>parse_literal_unsigned_value\<close>, which differ in the radix and the digits.\<close>

fun parse_radix :: "nat \<Rightarrow> (char \<Rightarrow> nat option) \<Rightarrow> u64 \<Rightarrow> bool \<Rightarrow> string \<Rightarrow> (u64 \<times> bool) option" where
  "parse_radix radix value acc saw [] = Some (acc, saw)"
| "parse_radix radix value acc saw (c # cs) =
     (if c = CHR ''_'' then parse_radix radix value acc saw cs
      else case value c of
             None \<Rightarrow> None
           | Some d \<Rightarrow> if acc > of_nat (unat (UINT_MAX - of_nat d)) div of_nat radix then None
                       else parse_radix radix value (acc * of_nat radix + of_nat d) True cs)"

definition parse_literal_unsigned_value :: "string \<Rightarrow> u32 option" where
  "parse_literal_unsigned_value s =
     (case parse_simple_nonnegative_int s of
        Some v \<Rightarrow> Some v
      | None \<Rightarrow>
          (let prefix = takeWhile (\<lambda>c. c \<noteq> quote) s; rest = drop (length prefix + 1) s
           in if length prefix = length s \<or> prefix = [] \<or> length rest < 2 then None
              else let base_ch = hd rest; digits = tl rest;
                       scan = (if base_ch = CHR ''d'' \<or> base_ch = CHR ''D''
                               then parse_radix 10 (\<lambda>c. if isdigit c then Some (digit_value c) else None) 0 False digits
                               else if base_ch = CHR ''h'' \<or> base_ch = CHR ''H'' then parse_radix 16 hex_value 0 False digits
                               else if base_ch = CHR ''b'' \<or> base_ch = CHR ''B''
                               then parse_radix 2 (\<lambda>c. if c = CHR ''0'' \<or> c = CHR ''1'' then Some (digit_value c) else None) 0 False digits
                               else None)
                   in case scan of
                        None \<Rightarrow> None
                      | Some (acc, saw) \<Rightarrow> if \<not> saw then None
                                         else if acc > of_nat (unat UINT_MAX) then None
                                         else Some (of_nat (unat acc))))"

fun signed_digits :: "int \<Rightarrow> bool \<Rightarrow> string \<Rightarrow> (int \<times> bool) option" where
  "signed_digits v saw [] = Some (v, saw)"
| "signed_digits v saw (c # cs) =
     (if isspace c then signed_digits v saw cs
      else if \<not> isdigit c then None
      else let d = int (digit_value c)
           in if v > (LLONG_MAX - d) div 10 then None else signed_digits (v * 10 + d) True cs)"

definition parse_simple_signed_int :: "string \<Rightarrow> int option" where
  "parse_simple_signed_int s =
     (let p = dropWhile isspace s;
          (sign, q) = (case p of
                         [] \<Rightarrow> (1, p)
                       | c # cs \<Rightarrow> if c = CHR ''+'' then (1, cs) else if c = CHR ''-'' then (-1, cs) else (1, p))
      in case signed_digits 0 False q of
           None \<Rightarrow> None
         | Some (v, saw) \<Rightarrow> if \<not> saw then None else Some (sign * v))"

text \<open>The results 0 and -1 of \<open>eval_simple_positive_decl_int\<close> are \<open>Inl 0\<close> and \<open>Inl (- 1)\<close>.\<close>

record DeclScan =
  saw_digit :: bool
  saw_nondigit :: bool
  saw_sign :: bool
  negative :: bool
  overflow :: bool
  decl_value :: u32

fun decl_scan :: "DeclScan \<Rightarrow> string \<Rightarrow> DeclScan" where
  "decl_scan st [] = st"
| "decl_scan st (c # cs) =
     (if isspace c \<or> c = CHR ''_'' then decl_scan st cs
      else if \<not> saw_digit st \<and> \<not> saw_sign st \<and> (c = CHR ''-'' \<or> c = CHR ''+'')
      then decl_scan (st\<lparr>saw_sign := True, negative := (c = CHR ''-'')\<rparr>) cs
      else if \<not> isdigit c then st\<lparr>saw_nondigit := True\<rparr>
      else let d = of_nat (digit_value c);
               st1 = (if u32_digit_overflows (decl_value st) d then st\<lparr>overflow := True\<rparr>
                      else st\<lparr>decl_value := decl_value st * 10 + d\<rparr>)
           in decl_scan (st1\<lparr>saw_digit := True\<rparr>) cs)"

definition eval_simple_positive_decl_int :: "string \<Rightarrow> int + u32" where
  "eval_simple_positive_decl_int s =
     (let st = decl_scan \<lparr>saw_digit = False, saw_nondigit = False, saw_sign = False, negative = False,
                          overflow = False, decl_value = 0\<rparr> s
      in if \<not> saw_digit st then Inl 0
         else if saw_nondigit st then Inl 0
         else if negative st \<or> decl_value st = 0 \<or> overflow st then Inl (- 1)
         else Inr (decl_value st))"

section \<open>Symbols (sem/driver.c)\<close>

text \<open>
  The fields of a symbol the functions here read: its name, its kind, its signal id and the width
  text of its declaration. A module scope and the project's symbols are lists of symbols, and a
  missing project table is the empty list.
\<close>

datatype JZSymbolKind =
    JZ_SYM_MODULE | JZ_SYM_BLACKBOX | JZ_SYM_CONST | JZ_SYM_PORT | JZ_SYM_WIRE | JZ_SYM_REGISTER | JZ_SYM_LATCH
  | JZ_SYM_MEM | JZ_SYM_MUX | JZ_SYM_INSTANCE | JZ_SYM_CONFIG | JZ_SYM_CLOCK | JZ_SYM_PIN | JZ_SYM_MAP_ENTRY
  | JZ_SYM_GLOBAL | JZ_SYM_BUS

record JZSymbol =
  sym_name :: string
  sym_kind :: JZSymbolKind
  sym_id :: int
  sym_width :: "string option"

definition module_scope_lookup :: "JZSymbol list \<Rightarrow> string \<Rightarrow> JZSymbol option" where
  "module_scope_lookup scope n = List.find (\<lambda>s. sym_name s = n) scope"

definition module_scope_lookup_kind :: "JZSymbol list \<Rightarrow> string \<Rightarrow> JZSymbolKind \<Rightarrow> JZSymbol option" where
  "module_scope_lookup_kind scope n k = List.find (\<lambda>s. sym_kind s = k \<and> sym_name s = n) scope"

section \<open>The checks of literals (sem/driver_literal.c)\<close>

datatype LiteralRule = LIT_UNSIZED | LIT_OVERFLOW | LIT_WIDTH_NOT_POSITIVE | LIT_UNDEFINED_CONST_WIDTH

text \<open>A type of width 0 is the unknown type; the second component is the diagnostic.\<close>

abbreviation unknown_type :: JZBitvecType where
  "unknown_type \<equiv> \<lparr>bv_width = 0, is_signed = False\<rparr>"

definition infer_literal_type :: "string \<Rightarrow> JZBitvecType \<times> LiteralRule option" where
  "infer_literal_type lxm =
     (let width_buf = takeWhile (\<lambda>c. c \<noteq> quote) lxm; rest = drop (length width_buf + 1) lxm
      in if length width_buf < length lxm
         then if width_buf = [] \<or> length width_buf \<ge> 32 then (unknown_type, None)
              else case parse_simple_positive_int width_buf of
                     None \<Rightarrow> (unknown_type, None)
                   | Some declared \<Rightarrow>
                       (case rest of
                          [] \<Rightarrow> (unknown_type, None)
                        | base_ch # value_lexeme \<Rightarrow>
                            (case numeric_base base_ch of
                               None \<Rightarrow> (unknown_type, None)
                             | Some base \<Rightarrow>
                                 if value_lexeme = [] then (unknown_type, None)
                                 else case jz_literal_analyze base value_lexeme declared of
                                        None \<Rightarrow> (unknown_type, Some LIT_OVERFLOW)
                                      | Some _ \<Rightarrow> (jz_type_scalar declared False, None)))
         else case jz_literal_analyze JZ_NUM_BASE_DEC lxm UINT_MAX of
                None \<Rightarrow> (unknown_type, None)
              | Some (intrinsic, _) \<Rightarrow> (jz_type_scalar intrinsic False, None))"

text \<open>The pair is the result and \<open>*out_known\<close>.\<close>

fun plain_zero :: "bool \<Rightarrow> string \<Rightarrow> bool \<times> bool" where
  "plain_zero saw [] = (if saw then (True, True) else (False, False))"
| "plain_zero saw (c # cs) =
     (if c = CHR ''_'' then plain_zero saw cs
      else if \<not> isdigit c then (False, False)
      else if c \<noteq> CHR ''0'' then (False, True)
      else plain_zero True cs)"

definition is_literal_blank :: "char \<Rightarrow> bool" where
  "is_literal_blank c \<longleftrightarrow> c = CHR ''_'' \<or> c = CHR '' '' \<or> c = CHR 0x09 \<or> c = CHR 0x0D \<or> c = CHR 0x0A"

fun sized_zero :: "bool \<Rightarrow> string \<Rightarrow> bool \<times> bool" where
  "sized_zero saw [] = (if saw then (True, True) else (False, False))"
| "sized_zero saw (c # cs) =
     (if is_literal_blank c then sized_zero saw cs
      else if is_xz c then (False, False)
      else if c \<noteq> CHR ''0'' then (False, True)
      else sized_zero True cs)"

definition sem_literal_is_const_zero :: "string \<Rightarrow> bool \<times> bool" where
  "sem_literal_is_const_zero lxm =
     (let prefix = takeWhile (\<lambda>c. c \<noteq> quote) lxm
      in if lxm = [] then (False, False)
         else if length prefix = length lxm then plain_zero False lxm
         else sized_zero False (drop (length prefix + 2) lxm))"

definition is_name :: "string \<Rightarrow> bool" where
  "is_name s \<longleftrightarrow> (case s of [] \<Rightarrow> False | c # _ \<Rightarrow> isalpha c \<or> c = CHR ''_'') \<and> list_all (\<lambda>c. isalnum c \<or> c = CHR ''_'') s"

definition trim :: "string \<Rightarrow> string" where
  "trim s = rev (dropWhile isspace (rev (dropWhile isspace s)))"

definition has_config :: "JZSymbol list \<Rightarrow> string \<Rightarrow> bool" where
  "has_config project n \<longleftrightarrow> (\<exists>s \<in> set project. sym_kind s = JZ_SYM_CONFIG \<and> sym_name s = n)"

definition sem_check_literal_width :: "string \<Rightarrow> JZSymbol list \<Rightarrow> JZSymbol list \<Rightarrow> LiteralRule option" where
  "sem_check_literal_width lxm scope project =
     (let buf = takeWhile (\<lambda>c. c \<noteq> quote) lxm; start = trim buf; name = drop 7 start
      in if length buf = length lxm then None
         else if buf = [] then Some LIT_UNSIZED
         else if length buf \<ge> 64 then None
         else if start = [] then None
         else case parse_simple_signed_int start of
                Some sw \<Rightarrow> if sw \<le> 0 then Some LIT_WIDTH_NOT_POSITIVE else None
              | None \<Rightarrow>
                  if take 7 start = ''CONFIG.'' \<and> name \<noteq> []
                  then if is_name name \<and> has_config project name then None else Some LIT_UNDEFINED_CONST_WIDTH
                  else if \<not> is_name start then None
                  else if module_scope_lookup_kind scope start JZ_SYM_CONST \<noteq> None then None
                  else if has_config project start then None
                  else Some LIT_UNDEFINED_CONST_WIDTH)"

section \<open>The decoding of a literal (ir/ir_build_expr.c)\<close>

record LitScan =
  ls_words :: "u64 list"
  all_z :: bool
  has_digits :: bool

definition lit_scan_init :: LitScan where
  "lit_scan_init = \<lparr>ls_words = replicate 4 0, all_z = True, has_digits = False\<rparr>"

definition count_lit_digits :: "string \<Rightarrow> nat" where
  "count_lit_digits s = length (filter (\<lambda>c. \<not> is_literal_blank c) s)"

definition or_word :: "nat \<Rightarrow> u64 \<Rightarrow> u64 list \<Rightarrow> u64 list" where
  "or_word i x ws = ws[i := ws ! i OR x]"

definition place_bit :: "int \<Rightarrow> u64 \<Rightarrow> u64 list \<Rightarrow> u64 list" where
  "place_bit bit_idx b ws =
     (if 0 \<le> bit_idx \<and> bit_idx < 256 then or_word (nat (bit_idx div 64)) (push_bit (nat (bit_idx mod 64)) b) ws else ws)"

fun decode_bin :: "int \<Rightarrow> string \<Rightarrow> LitScan \<Rightarrow> LitScan" where
  "decode_bin bit_idx [] st = st"
| "decode_bin bit_idx (c # cs) st =
     (if is_literal_blank c then decode_bin bit_idx cs st
      else if c = CHR ''0'' \<or> c = CHR ''1'' \<or> is_xz c
      then decode_bin (bit_idx - 1) cs
             \<lparr>ls_words = place_bit bit_idx (if c = CHR ''1'' then 1 else 0) (ls_words st),
              all_z = all_z st \<and> (c = CHR ''z'' \<or> c = CHR ''Z''), has_digits = True\<rparr>
      else decode_bin (bit_idx - 1) cs (st\<lparr>has_digits := True\<rparr>))"

definition place_nibble :: "int \<Rightarrow> u64 \<Rightarrow> u64 list \<Rightarrow> u64 list" where
  "place_nibble nib_idx nibble ws =
     (if 0 \<le> nib_idx
      then let wi = nat (nib_idx * 4 div 64); bi = nat (nib_idx * 4 mod 64)
           in if wi < 4
              then let ws1 = or_word wi (push_bit bi nibble) ws
                   in if bi > 60 \<and> wi + 1 < 4 then or_word (wi + 1) (drop_bit (64 - bi) nibble) ws1 else ws1
              else ws
      else ws)"

fun decode_hex :: "int \<Rightarrow> string \<Rightarrow> LitScan \<Rightarrow> LitScan" where
  "decode_hex nib_idx [] st = st"
| "decode_hex nib_idx (c # cs) st =
     (if is_literal_blank c then decode_hex nib_idx cs st
      else case (if is_xz c then Some 0 else hex_value c) of
             None \<Rightarrow> decode_hex (nib_idx - 1) cs (st\<lparr>has_digits := True\<rparr>)
           | Some v \<Rightarrow> decode_hex (nib_idx - 1) cs
                         \<lparr>ls_words = place_nibble nib_idx (of_nat v) (ls_words st),
                          all_z = all_z st \<and> (c = CHR ''z'' \<or> c = CHR ''Z''), has_digits = True\<rparr>)"

fun decode_dec :: "u64 \<Rightarrow> string \<Rightarrow> u64 option" where
  "decode_dec v [] = Some v"
| "decode_dec v (c # cs) =
     (if is_literal_blank c then decode_dec v cs
      else if \<not> isdigit c then None
      else decode_dec (v * 10 + of_nat (digit_value c)) cs)"

text \<open>
  \<open>eval_const\<close> is sem_eval_const_expr_in_module in the module of the literal: the value of a
  width that names constants.
\<close>

definition literal_width :: "(string \<Rightarrow> int option) \<Rightarrow> string \<Rightarrow> u32 option" where
  "literal_width eval_const width_buf =
     (case parse_simple_positive_int width_buf of
        Some w \<Rightarrow> Some w
      | None \<Rightarrow> (case eval_const width_buf of
                   Some w_val \<Rightarrow> if w_val > 0 then Some (word_of_int w_val) else None
                 | None \<Rightarrow> None))"

definition decode_digits :: "JZNumericBase \<Rightarrow> u32 option \<Rightarrow> string \<Rightarrow> string \<Rightarrow> LitScan option" where
  "decode_digits base w clean_value value_lexeme =
     (case base of
        JZ_NUM_BASE_BIN \<Rightarrow> Some (decode_bin (int (count_lit_digits clean_value) - 1) clean_value lit_scan_init)
      | JZ_NUM_BASE_HEX \<Rightarrow> Some (decode_hex (int (count_lit_digits value_lexeme) - 1) value_lexeme lit_scan_init)
      | JZ_NUM_BASE_DEC \<Rightarrow>
          (case decode_dec 0 value_lexeme of
             None \<Rightarrow> None
           | Some v \<Rightarrow>
               let v1 = (case w of Some dw \<Rightarrow> if dw < 64 then v AND (push_bit (unat dw) 1 - 1) else v | None \<Rightarrow> v)
               in Some \<lparr>ls_words = (replicate 4 0)[0 := v1], all_z = False, has_digits = count_lit_digits value_lexeme > 0\<rparr>)
      | JZ_NUM_BASE_NONE \<Rightarrow> None)"

definition ir_decode_sized_literal :: "(string \<Rightarrow> int option) \<Rightarrow> string \<Rightarrow> IR_Literal option" where
  "ir_decode_sized_literal eval_const lxm =
     (let width_buf = takeWhile (\<lambda>c. c \<noteq> quote) lxm
      in if length width_buf = length lxm then None
         else if width_buf = [] \<or> length width_buf \<ge> 32 then None
         else case drop (length width_buf + 1) lxm of
                [] \<Rightarrow> None
              | base_ch # value_lexeme \<Rightarrow>
                  (case numeric_base base_ch of
                     None \<Rightarrow> None
                   | Some base \<Rightarrow>
                       if value_lexeme = [] then None
                       else let w = literal_width eval_const width_buf;
                                clean_value = take 255 (rev (dropWhile isspace (rev value_lexeme)))
                            in if (case w of Some dw \<Rightarrow> jz_literal_analyze base clean_value dw = None | None \<Rightarrow> False) then None
                               else case decode_digits base w clean_value value_lexeme of
                                      None \<Rightarrow> None
                                    | Some st \<Rightarrow>
                                        Some \<lparr>lit_words = ls_words st,
                                              lit_width = (case w of Some dw \<Rightarrow> sint dw | None \<Rightarrow> 0),
                                              lit_is_z = (all_z st \<and> has_digits st)\<rparr>))"

end
