(* ===== verification/Sem_Expr.thy ===== *)
theory Sem_Expr
  imports Sem_Literal
begin

text \<open>
  Typing and lowering of expressions: infer_expr_type (sem/driver_operators.c) gives an expression
  of the syntax tree its width, and ir_build_expr (ir/ir_build_expr.c) translates it into the
  intermediate representation the simulator evaluates. Modelled are literals, the special drivers
  GND and VCC, plain identifiers, unary and binary operators, ternaries, concatenations and
  slices; bus members, instance ports, memory ports, global constants, MUX selections and builtin
  calls are not. What those two functions obtain from the evaluator of constant expressions, from
  a MUX declaration and from the source file is a field of the scope.
\<close>

section \<open>Syntax trees\<close>

text \<open>The strings are the node's \<open>text\<close>, \<open>name\<close> or \<open>block_kind\<close>; an empty kind is a missing one.\<close>

datatype JZExpr =
    AST_LITERAL string
  | AST_SPECIAL_DRIVER string
  | AST_IDENTIFIER string
  | AST_UNARY string JZExpr
  | AST_BINARY string JZExpr JZExpr
  | AST_TERNARY JZExpr JZExpr JZExpr
  | AST_CONCAT "JZExpr list"
  | AST_SLICE JZExpr JZExpr JZExpr

text \<open>
  \<open>const_value\<close> is sem_eval_const_expr_in_module, \<open>width_value\<close> is sem_eval_width_expr_at_loc,
  \<open>bound_value\<close> is ir_eval_lit_const_expr (each None on failure); \<open>mux_width\<close> and \<open>mux_select\<close>
  are the element width and the lowering of a selection from a MUX; \<open>required_parens\<close> is
  sem_unary_has_required_parens, which reads the source file again.
\<close>

record ExprScope =
  scope_symbols :: "JZSymbol list"
  const_value :: "string \<Rightarrow> int option"
  width_value :: "string \<Rightarrow> u32 option"
  bound_value :: "JZExpr \<Rightarrow> int option"
  mux_width :: "string \<Rightarrow> u32 option"
  mux_select :: "string \<Rightarrow> JZExpr \<Rightarrow> IR_Expr option"
  required_parens :: "JZExpr \<Rightarrow> bool"

datatype ExprRule =
    RULE_LITERAL LiteralRule | UNARY_ARITH_MISSING_PARENS | LOGICAL_WIDTH_NOT_1 | TYPE_BINOP_WIDTH_MISMATCH
  | DIV_CONST_ZERO | TERNARY_COND_WIDTH_NOT_1 | TERNARY_BRANCH_WIDTH_MISMATCH | CONCAT_EMPTY

section \<open>The type of an expression (sem/driver_operators.c)\<close>

definition unary_op_of :: "string \<Rightarrow> JZUnaryOp option" where
  "unary_op_of kind = map_of [
     (''POS'', JZ_UNARY_PLUS), (''NEG'', JZ_UNARY_MINUS), (''BIT_NOT'', JZ_UNARY_BIT_NOT),
     (''LOG_NOT'', JZ_UNARY_LOGICAL_NOT)] kind"

definition binary_op_of :: "string \<Rightarrow> (JZBinaryOp \<times> ExprRule option) option" where
  "binary_op_of kind = map_of [
     (''ADD'', JZ_BIN_ADD, Some TYPE_BINOP_WIDTH_MISMATCH), (''SUB'', JZ_BIN_SUB, Some TYPE_BINOP_WIDTH_MISMATCH),
     (''MUL'', JZ_BIN_MUL, Some TYPE_BINOP_WIDTH_MISMATCH), (''DIV'', JZ_BIN_DIV, Some TYPE_BINOP_WIDTH_MISMATCH),
     (''MOD'', JZ_BIN_MOD, Some TYPE_BINOP_WIDTH_MISMATCH), (''BIT_AND'', JZ_BIN_BIT_AND, Some TYPE_BINOP_WIDTH_MISMATCH),
     (''BIT_OR'', JZ_BIN_BIT_OR, Some TYPE_BINOP_WIDTH_MISMATCH), (''BIT_XOR'', JZ_BIN_BIT_XOR, Some TYPE_BINOP_WIDTH_MISMATCH),
     (''LOG_AND'', JZ_BIN_LOG_AND, Some LOGICAL_WIDTH_NOT_1), (''LOG_OR'', JZ_BIN_LOG_OR, Some LOGICAL_WIDTH_NOT_1),
     (''EQ'', JZ_BIN_EQ, Some TYPE_BINOP_WIDTH_MISMATCH), (''NEQ'', JZ_BIN_NE, Some TYPE_BINOP_WIDTH_MISMATCH),
     (''LT'', JZ_BIN_LT, Some TYPE_BINOP_WIDTH_MISMATCH), (''LE'', JZ_BIN_LE, Some TYPE_BINOP_WIDTH_MISMATCH),
     (''GT'', JZ_BIN_GT, Some TYPE_BINOP_WIDTH_MISMATCH), (''GE'', JZ_BIN_GE, Some TYPE_BINOP_WIDTH_MISMATCH),
     (''SHL'', JZ_BIN_SHL, None), (''SHR'', JZ_BIN_SHR, None), (''ASHR'', JZ_BIN_ASHR, None)] kind"

definition infer_identifier_type :: "ExprScope \<Rightarrow> string \<Rightarrow> JZBitvecType" where
  "infer_identifier_type sc n =
     (case module_scope_lookup (scope_symbols sc) n of
        None \<Rightarrow> unknown_type
      | Some sb \<Rightarrow>
          (case sym_width sb of
             None \<Rightarrow> unknown_type
           | Some width_text \<Rightarrow>
               (case width_value sc width_text of
                  None \<Rightarrow> unknown_type
                | Some w \<Rightarrow> jz_type_scalar w False)))"

definition infer_unary_type :: "ExprScope \<Rightarrow> string \<Rightarrow> JZExpr \<Rightarrow> JZBitvecType \<Rightarrow> JZBitvecType \<times> ExprRule list" where
  "infer_unary_type sc kind e operand =
     (if bv_width operand = 0 then (unknown_type, [])
      else case unary_op_of kind of
             None \<Rightarrow> (unknown_type, [])
           | Some op \<Rightarrow>
               let parens = (if (op = JZ_UNARY_PLUS \<or> op = JZ_UNARY_MINUS) \<and> \<not> required_parens sc (AST_UNARY kind e)
                             then [UNARY_ARITH_MISSING_PARENS] else [])
               in case jz_type_unary op operand of
                    Some t \<Rightarrow> (t, parens)
                  | None \<Rightarrow> (unknown_type, parens @ (if op = JZ_UNARY_LOGICAL_NOT then [LOGICAL_WIDTH_NOT_1] else [])))"

definition divisor_check :: "JZBinaryOp \<Rightarrow> JZExpr \<Rightarrow> ExprRule list" where
  "divisor_check op divisor =
     (case divisor of
        AST_LITERAL txt \<Rightarrow>
          if (op = JZ_BIN_DIV \<or> op = JZ_BIN_MOD) \<and> fst (sem_literal_is_const_zero txt) then [DIV_CONST_ZERO] else []
      | _ \<Rightarrow> [])"

definition infer_binary_type :: "string \<Rightarrow> JZExpr \<Rightarrow> JZBitvecType \<Rightarrow> JZBitvecType \<Rightarrow> JZBitvecType \<times> ExprRule list" where
  "infer_binary_type kind divisor lhs rhs =
     (if bv_width lhs = 0 \<or> bv_width rhs = 0 then (unknown_type, [])
      else case binary_op_of kind of
             None \<Rightarrow> (unknown_type, [])
           | Some (op, rule) \<Rightarrow>
               (case jz_type_binary op lhs rhs of
                  Some t \<Rightarrow> (t, divisor_check op divisor)
                | None \<Rightarrow> (unknown_type, divisor_check op divisor @ (case rule of Some r \<Rightarrow> [r] | None \<Rightarrow> []))))"

definition is_special_driver :: "JZExpr \<Rightarrow> bool" where
  "is_special_driver e = (case e of AST_SPECIAL_DRIVER _ \<Rightarrow> True | _ \<Rightarrow> False)"

definition infer_ternary_type ::
  "JZExpr \<Rightarrow> JZExpr \<Rightarrow> JZBitvecType \<Rightarrow> JZBitvecType \<Rightarrow> JZBitvecType \<Rightarrow> JZBitvecType \<times> ExprRule list" where
  "infer_ternary_type te fe cond_t t_t f_t =
     (let t_poly = (bv_width t_t = 0 \<and> is_special_driver te);
          f_poly = (bv_width f_t = 0 \<and> is_special_driver fe);
          result = (if t_poly \<and> f_poly then Some 0
                    else if t_poly \<and> bv_width f_t > 0 then Some (bv_width f_t)
                    else if f_poly \<and> bv_width t_t > 0 then Some (bv_width t_t)
                    else if bv_width t_t > 0 \<and> bv_width f_t > 0 \<and> bv_width t_t = bv_width f_t then Some (bv_width t_t)
                    else None);
          diags = (if bv_width cond_t > 0 \<and> bv_width cond_t \<noteq> 1 then [TERNARY_COND_WIDTH_NOT_1] else []) @
                  (if bv_width t_t > 0 \<and> bv_width f_t > 0 \<and> bv_width t_t \<noteq> bv_width f_t \<and> \<not> t_poly \<and> \<not> f_poly
                   then [TERNARY_BRANCH_WIDTH_MISMATCH] else [])
      in case (if bv_width cond_t = 1 then result else None) of
           None \<Rightarrow> (unknown_type, diags)
         | Some w \<Rightarrow> (\<lparr>bv_width = w, is_signed = (is_signed t_t \<or> is_signed f_t)\<rparr>, diags))"

definition literal_index :: "JZExpr \<Rightarrow> u32 option" where
  "literal_index e = (case e of AST_LITERAL txt \<Rightarrow> parse_simple_nonnegative_int txt | _ \<Rightarrow> None)"

definition sem_slice_literal_width :: "JZExpr \<Rightarrow> JZExpr \<Rightarrow> u32 option" where
  "sem_slice_literal_width msb lsb =
     (case (literal_index msb, literal_index lsb) of
        (Some m, Some l) \<Rightarrow> if m < l then None else Some (m - l + 1)
      | _ \<Rightarrow> None)"

definition is_mux :: "ExprScope \<Rightarrow> string \<Rightarrow> bool" where
  "is_mux sc n \<longleftrightarrow> module_scope_lookup_kind (scope_symbols sc) n JZ_SYM_MUX \<noteq> None"

definition identifier_name :: "JZExpr \<Rightarrow> string option" where
  "identifier_name e = (case e of AST_IDENTIFIER n \<Rightarrow> Some n | _ \<Rightarrow> None)"

definition infer_slice_type :: "ExprScope \<Rightarrow> JZExpr \<Rightarrow> JZExpr \<Rightarrow> JZExpr \<Rightarrow> JZBitvecType" where
  "infer_slice_type sc base msb lsb =
     (let range = (case sem_slice_literal_width msb lsb of None \<Rightarrow> unknown_type | Some w \<Rightarrow> jz_type_scalar w False)
      in case identifier_name base of
           Some n \<Rightarrow>
             if is_mux sc n
             then (case mux_width sc n of None \<Rightarrow> unknown_type | Some w \<Rightarrow> jz_type_scalar w False)
             else range
         | None \<Rightarrow> range)"

text \<open>The elements of a concatenation: None when one of them has no known width. Only the first 16 are read.\<close>

fun infer_expr_type :: "ExprScope \<Rightarrow> JZExpr \<Rightarrow> JZBitvecType \<times> ExprRule list"
and infer_elements :: "ExprScope \<Rightarrow> nat \<Rightarrow> JZExpr list \<Rightarrow> JZBitvecType list option \<times> ExprRule list" where
  "infer_expr_type sc (AST_LITERAL txt) =
     (let (t, d) = infer_literal_type txt in (t, case d of None \<Rightarrow> [] | Some r \<Rightarrow> [RULE_LITERAL r]))"
| "infer_expr_type sc (AST_SPECIAL_DRIVER kind) = (unknown_type, [])"
| "infer_expr_type sc (AST_IDENTIFIER n) = (infer_identifier_type sc n, [])"
| "infer_expr_type sc (AST_UNARY kind e) =
     (let (operand, d) = infer_expr_type sc e; (t, d') = infer_unary_type sc kind e operand in (t, d @ d'))"
| "infer_expr_type sc (AST_BINARY kind l r) =
     (let (lhs, d) = infer_expr_type sc l; (rhs, d') = infer_expr_type sc r;
          (t, d'') = infer_binary_type kind r lhs rhs
      in (t, d @ d' @ d''))"
| "infer_expr_type sc (AST_TERNARY c te fe) =
     (let (cond_t, d) = infer_expr_type sc c; (t_t, d') = infer_expr_type sc te; (f_t, d'') = infer_expr_type sc fe;
          (t, d''') = infer_ternary_type te fe cond_t t_t f_t
      in (t, d @ d' @ d'' @ d'''))"
| "infer_expr_type sc (AST_CONCAT es) =
     (if es = [] then (unknown_type, [CONCAT_EMPTY])
      else let (ts, d) = infer_elements sc 16 es
           in (case ts of
                 None \<Rightarrow> unknown_type
               | Some elems \<Rightarrow> (case jz_type_concat elems of None \<Rightarrow> unknown_type | Some t \<Rightarrow> t), d))"
| "infer_expr_type sc (AST_SLICE base msb lsb) = (infer_slice_type sc base msb lsb, [])"
| "infer_elements sc n [] = (Some [], [])"
| "infer_elements sc 0 (e # es) = (Some [], [])"
| "infer_elements sc (Suc n) (e # es) =
     (let (t, d) = infer_expr_type sc e
      in if bv_width t = 0 then (None, d)
         else let (ts, d') = infer_elements sc n es in (map_option (\<lambda>xs. t # xs) ts, d @ d'))"

definition type_of :: "ExprScope \<Rightarrow> JZExpr \<Rightarrow> JZBitvecType" where
  "type_of sc e = fst (infer_expr_type sc e)"

section \<open>The bounds of a slice (ir/ir_build_expr.c)\<close>

text \<open>strtoll with base 0 on a whole string: blanks, a sign, then a hexadecimal, octal or decimal number.\<close>

fun radix_digits :: "int \<Rightarrow> int \<Rightarrow> string \<Rightarrow> int option" where
  "radix_digits r v [] = Some v"
| "radix_digits r v (c # cs) =
     (case hex_value c of
        None \<Rightarrow> None
      | Some d \<Rightarrow> if int d < r then radix_digits r (v * r + int d) cs else None)"

definition strtoll_all :: "string \<Rightarrow> int option" where
  "strtoll_all s =
     (let p = dropWhile isspace s;
          (neg, q) = (case p of [] \<Rightarrow> (False, p)
                      | c # cs \<Rightarrow> if c = CHR ''-'' then (True, cs) else if c = CHR ''+'' then (False, cs) else (False, p));
          magnitude = (if q = [] then None
                       else if length q \<ge> 3 \<and> hd q = CHR ''0'' \<and> (q ! 1 = CHR ''x'' \<or> q ! 1 = CHR ''X'')
                       then radix_digits 16 0 (drop 2 q)
                       else if hd q = CHR ''0'' then radix_digits 8 0 q
                       else radix_digits 10 0 q)
      in case magnitude of
           None \<Rightarrow> None
         | Some m \<Rightarrow> Some (max (- LLONG_MAX - 1) (min LLONG_MAX (if neg then - m else m))))"

text \<open>Signed overflow, which C leaves undefined, wraps around.\<close>

fun try_fast_const_eval :: "JZExpr \<Rightarrow> int option" where
  "try_fast_const_eval (AST_LITERAL txt) = strtoll_all txt"
| "try_fast_const_eval (AST_BINARY kind l r) =
     (case try_fast_const_eval l of
        None \<Rightarrow> None
      | Some lv \<Rightarrow>
          (case try_fast_const_eval r of
             None \<Rightarrow> None
           | Some rv \<Rightarrow>
               if kind = ''ADD'' then Some (signed_take_bit 63 (lv + rv))
               else if kind = ''SUB'' then Some (signed_take_bit 63 (lv - rv))
               else if kind = ''MUL'' then Some (signed_take_bit 63 (lv * rv))
               else if kind = ''DIV'' then (if rv = 0 then None else Some (signed_take_bit 63 (lv sdiv rv)))
               else if kind = ''MOD'' then (if rv = 0 then None else Some (signed_take_bit 63 (lv smod rv)))
               else None))"
| "try_fast_const_eval _ = None"

definition u32_in_range :: "int option \<Rightarrow> u32 option" where
  "u32_in_range v = (case v of Some x \<Rightarrow> if 0 \<le> x \<and> x < 2 ^ 32 then Some (word_of_int x) else None | None \<Rightarrow> None)"

definition ir_eval_slice_bound :: "ExprScope \<Rightarrow> JZExpr \<Rightarrow> u32 option" where
  "ir_eval_slice_bound sc e =
     (case e of
        AST_LITERAL txt \<Rightarrow> parse_simple_nonnegative_int txt
      | _ \<Rightarrow> (case u32_in_range (try_fast_const_eval e) of
                Some v \<Rightarrow> Some v
              | None \<Rightarrow> u32_in_range (bound_value sc e)))"

section \<open>Lowering (ir/ir_build_expr.c)\<close>

definition ir_map_binary_kind :: "string \<Rightarrow> IR_BinaryKind option" where
  "ir_map_binary_kind kind = map_of [
     (''ADD'', EXPR_BINARY_ADD), (''SUB'', EXPR_BINARY_SUB), (''MUL'', EXPR_BINARY_MUL), (''DIV'', EXPR_BINARY_DIV),
     (''MOD'', EXPR_BINARY_MOD), (''BIT_AND'', EXPR_BINARY_AND), (''BIT_OR'', EXPR_BINARY_OR), (''BIT_XOR'', EXPR_BINARY_XOR),
     (''SHL'', EXPR_BINARY_SHL), (''SHR'', EXPR_BINARY_SHR), (''ASHR'', EXPR_BINARY_ASHR),
     (''EQ'', EXPR_BINARY_EQ), (''NEQ'', EXPR_BINARY_NEQ), (''LT'', EXPR_BINARY_LT), (''LE'', EXPR_BINARY_LTE),
     (''GT'', EXPR_BINARY_GT), (''GE'', EXPR_BINARY_GTE), (''LOG_AND'', EXPR_LOGICAL_AND), (''LOG_OR'', EXPR_LOGICAL_OR)] kind"

definition ir_map_unary_kind :: "string \<Rightarrow> IR_UnaryKind option" where
  "ir_map_unary_kind kind = map_of [
     (''BIT_NOT'', EXPR_UNARY_NOT), (''LOG_NOT'', EXPR_LOGICAL_NOT), (''NEG'', EXPR_UNARY_NEG)] kind"

text \<open>A lowered node and its \<open>const_name\<close>.\<close>

type_synonym IR_Node = "IR_Expr \<times> string option"

definition lower_literal :: "ExprScope \<Rightarrow> u32 \<Rightarrow> string \<Rightarrow> IR_Node" where
  "lower_literal sc w txt =
     (case ir_decode_sized_literal (const_value sc) txt of
        Some l \<Rightarrow> (EXPR_LITERAL (if w = 0 then lit_width l else sint w) l, None)
      | None \<Rightarrow> (EXPR_LITERAL (sint w) \<lparr>lit_words = replicate 4 0, lit_width = sint w, lit_is_z = False\<rparr>, None))"

definition lower_driver :: "string \<Rightarrow> IR_Node" where
  "lower_driver kind =
     (let vcc = (kind = ''VCC'')
      in (EXPR_LITERAL 0 \<lparr>lit_words = [if vcc then UINT64_MAX else 0, 0, 0, 0], lit_width = 0, lit_is_z = False\<rparr>,
          Some (if vcc then ''VCC'' else ''GND'')))"

definition is_signal_kind :: "JZSymbolKind \<Rightarrow> bool" where
  "is_signal_kind k \<longleftrightarrow> k \<in> {JZ_SYM_PORT, JZ_SYM_WIRE, JZ_SYM_REGISTER, JZ_SYM_LATCH}"

definition lower_constant :: "ExprScope \<Rightarrow> u32 \<Rightarrow> string \<Rightarrow> IR_Node option" where
  "lower_constant sc t n =
     (case const_value sc n of
        None \<Rightarrow> None
      | Some cval \<Rightarrow>
          let w = (if t = 0 then (if cval = 0 then 1 else count_bits (word_of_int \<bar>cval\<bar>)) else t);
              masked = (if w \<ge> 64 then word_of_int cval else word_of_int cval AND (push_bit (unat w) 1 - 1))
          in Some (EXPR_LITERAL (sint w) \<lparr>lit_words = [masked, 0, 0, 0], lit_width = sint w, lit_is_z = False\<rparr>,
                   map_option sym_name (module_scope_lookup_kind (scope_symbols sc) n JZ_SYM_CONST)))"

definition lower_identifier :: "ExprScope \<Rightarrow> u32 \<Rightarrow> string \<Rightarrow> IR_Node option" where
  "lower_identifier sc t n =
     (case module_scope_lookup (scope_symbols sc) n of
        Some sb \<Rightarrow> if is_signal_kind (sym_kind sb)
                     then (if sym_id sb < 0 then None else Some (EXPR_SIGNAL_REF (sint t) (sym_id sb), None))
                     else lower_constant sc t n
      | None \<Rightarrow> lower_constant sc t n)"

text \<open>The branches of a ternary take its width when they are a GND or VCC of width 0.\<close>

definition set_driver_width :: "u32 \<Rightarrow> IR_Node \<Rightarrow> IR_Expr" where
  "set_driver_width w node =
     (case node of
        (EXPR_LITERAL w0 l, Some n) \<Rightarrow>
          if w > 0 \<and> w0 = 0 \<and> (n = ''GND'' \<or> n = ''VCC'') then EXPR_LITERAL (sint w) (l\<lparr>lit_width := sint w\<rparr>) else EXPR_LITERAL w0 l
      | (e, _) \<Rightarrow> e)"

text \<open>\<open>depth\<close> is the counter s_ir_expr_depth, which every call enters and leaves.\<close>

fun ir_build_expr :: "ExprScope \<Rightarrow> u32 \<Rightarrow> JZExpr \<Rightarrow> IR_Node option"
and ir_build_elements :: "ExprScope \<Rightarrow> u32 \<Rightarrow> JZExpr list \<Rightarrow> IR_Expr list option" where
  "ir_build_expr sc depth e =
     (case jz_depth_enter_checked depth JZ_LIMIT_IR_EXPR_DEPTH of
        None \<Rightarrow> None
      | Some d \<Rightarrow>
          let w = bv_width (type_of sc e); t = sint w
          in case e of
               AST_LITERAL txt \<Rightarrow> Some (lower_literal sc w txt)
             | AST_SPECIAL_DRIVER kind \<Rightarrow> Some (lower_driver kind)
             | AST_IDENTIFIER n \<Rightarrow> lower_identifier sc w n
             | AST_UNARY kind opnd \<Rightarrow>
                 (case ir_build_expr sc d opnd of
                    None \<Rightarrow> None
                  | Some node \<Rightarrow>
                      (case ir_map_unary_kind kind of
                         None \<Rightarrow> Some node
                       | Some k \<Rightarrow> Some (EXPR_UNARY k t (fst node), None)))
             | AST_BINARY kind l r \<Rightarrow>
                 (case (ir_build_expr sc d l, ir_build_expr sc d r, ir_map_binary_kind kind) of
                    (Some lhs, Some rhs, Some k) \<Rightarrow> Some (EXPR_BINARY k t (fst lhs) (fst rhs), None)
                  | _ \<Rightarrow> None)
             | AST_TERNARY c te fe \<Rightarrow>
                 (case (ir_build_expr sc d c, ir_build_expr sc d te, ir_build_expr sc d fe) of
                    (Some cn, Some t1, Some t2) \<Rightarrow>
                      Some (EXPR_TERNARY t (fst cn) (set_driver_width w t1) (set_driver_width w t2), None)
                  | _ \<Rightarrow> None)
             | AST_CONCAT es \<Rightarrow>
                 if es = [] then None
                 else map_option (\<lambda>elems. (EXPR_CONCAT t elems, None)) (ir_build_elements sc d es)
             | AST_SLICE base msb lsb \<Rightarrow>
                 (case identifier_name base of
                    Some n \<Rightarrow>
                      (case module_scope_lookup (scope_symbols sc) n of
                         None \<Rightarrow> None
                       | Some sb \<Rightarrow>
                           if sym_kind sb = JZ_SYM_MUX then map_option (\<lambda>ir. (ir, None)) (mux_select sc n msb)
                           else (case (ir_eval_slice_bound sc msb, ir_eval_slice_bound sc lsb) of
                                   (Some m, Some l) \<Rightarrow> Some (EXPR_SLICE t (sym_id sb) EXPR_NULL (sint m) (sint l), None)
                                 | _ \<Rightarrow> None))
                  | None \<Rightarrow>
                      (case (ir_eval_slice_bound sc msb, ir_eval_slice_bound sc lsb) of
                         (Some m, Some l) \<Rightarrow>
                           (case ir_build_expr sc d base of
                              None \<Rightarrow> None
                            | Some b \<Rightarrow> Some (EXPR_SLICE (sint (m - l + 1)) (- 1) (fst b) (sint m) (sint l), None))
                       | _ \<Rightarrow> None)))"
| "ir_build_elements sc d [] = Some []"
| "ir_build_elements sc d (e # es) =
     (case ir_build_expr sc d e of
        None \<Rightarrow> None
      | Some node \<Rightarrow> map_option (\<lambda>ns. fst node # ns) (ir_build_elements sc d es))"

end
