(* ===== verification/Parse_Expr_Print.thy ===== *)
theory Parse_Expr_Print
  imports Parse_Expr_Steps Sem_Expr
begin

text \<open>
  The grammar of expressions as a printer: the tokens of an expression, with parentheses where
  the precedence of the operators needs them. The specification (section 3.3) ranks the shifts
  above binary plus and minus and the parser ranks them below, so a sum or difference under a
  shift is always put in parentheses: the tokens mean the expression under both readings. The
  parser reads the tokens of an expression back as a node that stands for that expression.
\<close>

declare parse_expression.simps [simp del] parse_ternary_expr.simps [simp del] parse_unary_expr.simps [simp del]

section \<open>The expression a node stands for\<close>

fun expr_of :: "JZASTNode \<Rightarrow> JZExpr option" where
  "expr_of (AST_NODE ty loc n tx bk cs) =
     (case ty of
        JZ_AST_EXPR_LITERAL \<Rightarrow> map_option AST_LITERAL tx
      | JZ_AST_EXPR_SPECIAL_DRIVER \<Rightarrow> map_option AST_SPECIAL_DRIVER bk
      | JZ_AST_EXPR_IDENTIFIER \<Rightarrow> map_option AST_IDENTIFIER n
      | JZ_AST_EXPR_UNARY \<Rightarrow> (case (bk, map expr_of cs) of (Some k, [Some e]) \<Rightarrow> Some (AST_UNARY k e) | _ \<Rightarrow> None)
      | JZ_AST_EXPR_BINARY \<Rightarrow> (case (bk, map expr_of cs) of (Some k, [Some l, Some r]) \<Rightarrow> Some (AST_BINARY k l r) | _ \<Rightarrow> None)
      | JZ_AST_EXPR_TERNARY \<Rightarrow> (case map expr_of cs of [Some c, Some t, Some f] \<Rightarrow> Some (AST_TERNARY c t f) | _ \<Rightarrow> None)
      | JZ_AST_EXPR_CONCAT \<Rightarrow> map_option AST_CONCAT (those (map expr_of cs))
      | JZ_AST_EXPR_SLICE \<Rightarrow> (case map expr_of cs of [Some b, Some m, Some l] \<Rightarrow> Some (AST_SLICE b m l) | _ \<Rightarrow> None)
      | _ \<Rightarrow> None)"

section \<open>Tokens of expressions\<close>

text \<open>Levels: 0 ternary, 1 (\<open>||\<close>) to 10 (\<open>* / %\<close>) binary, 11 unary and concatenations, 12 primaries and slices.\<close>

definition binary_token :: "string \<Rightarrow> (nat \<times> JZTokenType \<times> string) option" where
  "binary_token = map_of [
     (''LOG_OR'', 1, JZ_TOK_OP_OR_OR, ''||''), (''LOG_AND'', 2, JZ_TOK_OP_AND_AND, ''&&''), (''BIT_OR'', 3, JZ_TOK_OP_PIPE, ''|''),
     (''BIT_XOR'', 4, JZ_TOK_OP_CARET, ''^''), (''BIT_AND'', 5, JZ_TOK_OP_AMP, ''&''), (''EQ'', 6, JZ_TOK_OP_EQ, ''==''),
     (''NEQ'', 6, JZ_TOK_OP_NEQ, ''!=''), (''LT'', 7, JZ_TOK_OP_LT, ''<''), (''LE'', 7, JZ_TOK_OP_LE, ''<=''),
     (''GT'', 7, JZ_TOK_OP_GT, ''>''), (''GE'', 7, JZ_TOK_OP_GE, ''>=''), (''SHL'', 8, JZ_TOK_OP_SHL, ''<<''),
     (''SHR'', 8, JZ_TOK_OP_SHR, ''>>''), (''ASHR'', 8, JZ_TOK_OP_ASHR, ''>>>''), (''ADD'', 9, JZ_TOK_OP_PLUS, ''+''),
     (''SUB'', 9, JZ_TOK_OP_MINUS, ''-''), (''MUL'', 10, JZ_TOK_OP_STAR, ''*''), (''DIV'', 10, JZ_TOK_OP_SLASH, ''/''),
     (''MOD'', 10, JZ_TOK_OP_PERCENT, ''%'')]"

definition kind_level :: "string \<Rightarrow> nat" where
  "kind_level k = (case binary_token k of Some (l, _) \<Rightarrow> l | None \<Rightarrow> 1)"

definition kind_token :: "string \<Rightarrow> JZTokenType \<times> string" where
  "kind_token k = (case binary_token k of Some (_, t) \<Rightarrow> t | None \<Rightarrow> (JZ_TOK_OTHER, []))"

definition unary_token :: "string \<Rightarrow> JZTokenType \<times> string" where
  "unary_token k =
     (case map_of [(''BIT_NOT'', JZ_TOK_OP_TILDE, ''~''), (''LOG_NOT'', JZ_TOK_OP_BANG, ''!''), (''POS'', JZ_TOK_OP_PLUS, ''+''),
        (''NEG'', JZ_TOK_OP_MINUS, ''-'')] k of Some t \<Rightarrow> t | None \<Rightarrow> (JZ_TOK_OTHER, []))"

fun expr_level :: "JZExpr \<Rightarrow> nat" where
  "expr_level (AST_TERNARY c t f) = 0"
| "expr_level (AST_BINARY k l r) = kind_level k"
| "expr_level (AST_UNARY k e) = 11"
| "expr_level (AST_CONCAT es) = 11"
| "expr_level _ = 12"

text \<open>The level an operand is printed at: a sum or difference under a shift gets parentheses.\<close>

definition operand_level :: "string \<Rightarrow> nat \<Rightarrow> JZExpr \<Rightarrow> nat" where
  "operand_level k j e = (if kind_level k = 8 \<and> expr_level e = 9 then 11 else j)"

fun expr_body :: "JZExpr \<Rightarrow> (JZTokenType \<times> string) list"
and printed :: "nat \<Rightarrow> JZExpr \<Rightarrow> (JZTokenType \<times> string) list"
and elements :: "JZExpr list \<Rightarrow> (JZTokenType \<times> string) list" where
  "expr_body (AST_LITERAL s) = [(if quote \<in> set s then JZ_TOK_SIZED_NUMBER else JZ_TOK_NUMBER, s)]"
| "expr_body (AST_SPECIAL_DRIVER k) = [(JZ_TOK_KEYWORD (if k = ''GND'' then JZ_TOK_KW_GND else JZ_TOK_KW_VCC), k)]"
| "expr_body (AST_IDENTIFIER n) = [(JZ_TOK_IDENTIFIER, n)]"
| "expr_body (AST_UNARY k e) = unary_token k # printed 11 e"
| "expr_body (AST_BINARY k l r) = 
     printed (operand_level k (kind_level k) l) l @ kind_token k # printed (operand_level k (Suc (kind_level k)) r) r"
| "expr_body (AST_TERNARY c t f) = printed 1 c @ (JZ_TOK_OP_QUESTION, ''?'') # printed 0 t @ (JZ_TOK_OP_COLON, '':'') # printed 0 f"
| "expr_body (AST_CONCAT es) = (JZ_TOK_LBRACE, ''{'') # elements es @ [(JZ_TOK_RBRACE, ''}'')]"
| "expr_body (AST_SLICE b m l) =
     printed 12 b @ (JZ_TOK_LBRACKET, ''['') # printed 0 m @ (JZ_TOK_OP_COLON, '':'') # printed 0 l @ [(JZ_TOK_RBRACKET, '']'')]"
| "printed k e =
     (if expr_level e < k then (JZ_TOK_LPAREN, ''('') # expr_body e @ [(JZ_TOK_RPAREN, '')'')] else expr_body e)"
| "elements [] = []"
| "elements (e # es) = printed 0 e @ (if es = [] then [] else (JZ_TOK_COMMA, '','') # elements es)"

text \<open>How far the depth counter of the parser goes.\<close>

fun body_nesting :: "JZExpr \<Rightarrow> nat"
and nesting :: "nat \<Rightarrow> JZExpr \<Rightarrow> nat"
and elements_nesting :: "JZExpr list \<Rightarrow> nat" where
  "body_nesting (AST_UNARY k e) = nesting 11 e"
| "body_nesting (AST_BINARY k l r) = 
     max (nesting (operand_level k (kind_level k) l) l) (nesting (operand_level k (Suc (kind_level k)) r) r)"
| "body_nesting (AST_TERNARY c t f) = max (nesting 1 c) (max (Suc (nesting 0 t)) (nesting 0 f))"
| "body_nesting (AST_CONCAT es) = elements_nesting es"
| "body_nesting (AST_SLICE b m l) = max (nesting 12 b) (Suc (max (nesting 0 m) (nesting 0 l)))"
| "body_nesting _ = 0"
| "nesting k e = (if expr_level e < k then Suc (body_nesting e) else body_nesting e)"
| "elements_nesting [] = 0"
| "elements_nesting (e # es) = max (Suc (nesting 0 e)) (elements_nesting es)"

declare printed.simps [simp del] nesting.simps [simp del]

text \<open>Operators and drivers that exist.\<close>

fun printable :: "JZExpr \<Rightarrow> bool" where
  "printable (AST_SPECIAL_DRIVER k) = (k = ''GND'' \<or> k = ''VCC'')"
| "printable (AST_UNARY k e) = (k \<in> {''BIT_NOT'', ''LOG_NOT'', ''POS'', ''NEG''} \<and> printable e)"
| "printable (AST_BINARY k l r) = (binary_token k \<noteq> None \<and> printable l \<and> printable r)"
| "printable (AST_TERNARY c t f) = (printable c \<and> printable t \<and> printable f)"
| "printable (AST_CONCAT es) = list_all printable es"
| "printable (AST_IDENTIFIER n) = (CHR ''.'' \<notin> set n)"
| "printable (AST_SLICE b m l) = (printable b \<and> printable m \<and> printable l)"
| "printable _ = True"

section \<open>Reading tokens\<close>

definition shown :: "JZToken \<Rightarrow> JZTokenType \<times> string option" where
  "shown t = (tok_type t, lexeme t)"

definition sees :: "TokenParser \<Rightarrow> (JZTokenType \<times> string) list \<Rightarrow> (JZTokenType \<times> string option) list \<Rightarrow> bool" where
  "sees p ts rest \<longleftrightarrow> ready p \<and> map shown (drop (tpos p) (stream p)) = map (\<lambda>(ty, w). (ty, Some w)) ts @ rest"

definition adv :: "nat \<Rightarrow> TokenParser \<Rightarrow> TokenParser" where
  "adv k p = p\<lparr>tpos := tpos p + k\<rparr>"

lemma adv_simps [simp]:
  "adv 0 p = p" "adv j (adv k p) = adv (k + j) p" "stream (adv k p) = stream p" "tpos (adv k p) = tpos p + k"
  "g_parser_expr_depth (adv k p) = g_parser_expr_depth p" "tdiags (adv k p) = tdiags p"
  "(adv k p)\<lparr>g_parser_expr_depth := d\<rparr> = adv k (p\<lparr>g_parser_expr_depth := d\<rparr>)"
  by (simp_all add: adv_def add.assoc)

lemma sees_append: "sees p (ts @ us) rest \<longleftrightarrow> sees p ts (map (\<lambda>(ty, w). (ty, Some w)) us @ rest)"
  by (simp add: sees_def)

lemma sees_depth [simp]: "sees (p\<lparr>g_parser_expr_depth := d\<rparr>) ts rest = sees p ts rest"
  by (simp add: sees_def ready_def)

lemma sees_Cons:
  assumes "sees p (t # ts) rest"
  shows "tk_type p = fst t" "lexeme (tk_peek p) = Some (snd t)" "tk_advance p = adv 1 p" "sees (adv 1 p) ts rest"
proof -
  have r: "ready p" and l: "tpos p < length (stream p)" using assms by (simp_all add: sees_def ready_def)
  have d: "drop (tpos p) (stream p) = stream p ! tpos p # drop (Suc (tpos p)) (stream p)" using l by (rule Cons_nth_drop_Suc [symmetric])
  have h: "shown (stream p ! tpos p) = (fst t, Some (snd t))" "map shown (drop (Suc (tpos p)) (stream p)) = map (\<lambda>(ty, w). (ty, Some w)) ts @ rest"
    using assms unfolding sees_def d by (auto split: prod.splits)
  then show ty: "tk_type p = fst t" and lx: "lexeme (tk_peek p) = Some (snd t)"
    using ready_peek [OF r] by (simp_all add: shown_def tk_type_def)
  show a: "tk_advance p = adv 1 p" using l by (simp add: tk_advance_def adv_def)
  have "ready (tk_advance p)" using ready_advance(1) [OF r] lx by simp
  then show "sees (adv 1 p) ts rest" using h(2) a by (simp add: sees_def)
qed

lemma sees_skip: "sees p (ts @ us) rest \<Longrightarrow> sees (adv (length ts) p) us rest"
proof (induction ts arbitrary: p)
  case (Cons t ts)
  then show ?case using Cons.IH [OF sees_Cons(4), of p t] by simp
qed simp

lemma sees_next: "sees p [] (r # rest) \<Longrightarrow> tk_type p = fst r"
proof -
  assume s: "sees p [] (r # rest)"
  then have l: "tpos p < length (stream p)" and rd: "ready p" by (auto simp: sees_def ready_def)
  have "drop (tpos p) (stream p) = stream p ! tpos p # drop (Suc (tpos p)) (stream p)" using l by (rule Cons_nth_drop_Suc [symmetric])
  then show ?thesis using s ready_peek [OF rd] by (auto simp: sees_def shown_def tk_type_def)
qed

section \<open>The levels of the parser\<close>

definition type_level :: "JZTokenType \<Rightarrow> nat" where
  "type_level t =
     (case t of
        JZ_TOK_OP_OR_OR \<Rightarrow> 1 | JZ_TOK_OP_AND_AND \<Rightarrow> 2 | JZ_TOK_OP_PIPE \<Rightarrow> 3 | JZ_TOK_OP_CARET \<Rightarrow> 4 | JZ_TOK_OP_AMP \<Rightarrow> 5
      | JZ_TOK_OP_EQ \<Rightarrow> 6 | JZ_TOK_OP_NEQ \<Rightarrow> 6 | JZ_TOK_OP_LT \<Rightarrow> 7 | JZ_TOK_OP_LE \<Rightarrow> 7 | JZ_TOK_OP_GT \<Rightarrow> 7 | JZ_TOK_OP_GE \<Rightarrow> 7
      | JZ_TOK_OP_SHL \<Rightarrow> 8 | JZ_TOK_OP_SHR \<Rightarrow> 8 | JZ_TOK_OP_ASHR \<Rightarrow> 8 | JZ_TOK_OP_PLUS \<Rightarrow> 9 | JZ_TOK_OP_MINUS \<Rightarrow> 9
      | JZ_TOK_OP_STAR \<Rightarrow> 10 | JZ_TOK_OP_SLASH \<Rightarrow> 10 | JZ_TOK_OP_PERCENT \<Rightarrow> 10 | _ \<Rightarrow> 0)"

definition expr_ops :: "nat \<Rightarrow> JZTokenType \<Rightarrow> string option" where
  "expr_ops k =
     (if k = 1 then map_of [(JZ_TOK_OP_OR_OR, ''LOG_OR'')] else if k = 2 then map_of [(JZ_TOK_OP_AND_AND, ''LOG_AND'')]
      else if k = 3 then map_of [(JZ_TOK_OP_PIPE, ''BIT_OR'')] else if k = 4 then map_of [(JZ_TOK_OP_CARET, ''BIT_XOR'')]
      else if k = 5 then map_of [(JZ_TOK_OP_AMP, ''BIT_AND'')] else if k = 6 then equality_ops
      else if k = 7 then relational_ops else if k = 8 then shift_ops else if k = 9 then additive_ops else multiplicative_ops)"

definition expr_parser :: "nat \<Rightarrow> (TokenParser \<Rightarrow> parsed) \<Rightarrow> nat \<Rightarrow> TokenParser \<Rightarrow> parsed" where
  "expr_parser n u k =
     (if k = 1 then parse_logical_or_expr n u else if k = 2 then parse_logical_and_expr n u else if k = 3 then parse_bitwise_or_expr n u
      else if k = 4 then parse_bitwise_xor_expr n u else if k = 5 then parse_bitwise_and_expr n u else if k = 6 then parse_equality_expr n u
      else if k = 7 then parse_relational_expr n u else if k = 8 then parse_shift_expr n u else if k = 9 then parse_additive_expr n u
      else if k = 10 then parse_multiplicative_expr n u else u)"

lemma level_cases: "1 \<le> k \<Longrightarrow> k \<le> (10 :: nat) \<Longrightarrow> k \<in> {1, 2, 3, 4, 5, 6, 7, 8, 9, 10}"
  unfolding insert_iff empty_iff by arith

lemma expr_parser_rec:
  "1 \<le> k \<Longrightarrow> k \<le> 10 \<Longrightarrow> expr_parser n u k = parse_binary_level n (expr_ops k) (expr_parser n u (Suc k))"
  by (drule (1) level_cases, elim insertE emptyE)
     (simp_all add: expr_parser_def expr_ops_def parse_logical_or_expr_def parse_logical_and_expr_def parse_bitwise_or_expr_def
      parse_bitwise_xor_expr_def parse_bitwise_and_expr_def parse_equality_expr_def parse_relational_expr_def parse_shift_expr_def
      parse_additive_expr_def parse_multiplicative_expr_def fun_eq_iff)

lemma expr_ops_other: "1 \<le> k \<Longrightarrow> k \<le> 10 \<Longrightarrow> type_level t \<noteq> k \<Longrightarrow> expr_ops k t = None"
  by (drule (1) level_cases, elim insertE emptyE)
     (auto simp: expr_ops_def type_level_def equality_ops_def relational_ops_def shift_ops_def additive_ops_def multiplicative_ops_def
      split: if_splits)

lemma binary_token_level:
  assumes "binary_token k \<noteq> None"
  shows "expr_ops (kind_level k) (fst (kind_token k)) = Some k" "type_level (fst (kind_token k)) = kind_level k"
    "1 \<le> kind_level k" "kind_level k \<le> 10" "fst (kind_token k) \<notin> {JZ_TOK_DOT, JZ_TOK_LPAREN, JZ_TOK_LBRACKET, JZ_TOK_LBRACE, JZ_TOK_OP_QUESTION}"
proof -
  have k: "k \<in> {''LOG_OR'', ''LOG_AND'', ''BIT_OR'', ''BIT_XOR'', ''BIT_AND'', ''EQ'', ''NEQ'', ''LT'', ''LE'', ''GT'', ''GE'', ''SHL'',
      ''SHR'', ''ASHR'', ''ADD'', ''SUB'', ''MUL'', ''DIV'', ''MOD''}"
    using assms by (auto simp: binary_token_def split: if_splits)
  show "expr_ops (kind_level k) (fst (kind_token k)) = Some k" "type_level (fst (kind_token k)) = kind_level k"
    "1 \<le> kind_level k" "kind_level k \<le> 10" "fst (kind_token k) \<notin> {JZ_TOK_DOT, JZ_TOK_LPAREN, JZ_TOK_LBRACKET, JZ_TOK_LBRACE, JZ_TOK_OP_QUESTION}"
    using k by (elim insertE emptyE; simp add: expr_ops_def type_level_def kind_level_def kind_token_def binary_token_def
        equality_ops_def relational_ops_def shift_ops_def additive_ops_def multiplicative_ops_def)+
qed

text \<open>What may follow an expression of a level.\<close>

definition follows :: "nat \<Rightarrow> (JZTokenType \<times> string option) list \<Rightarrow> bool" where
  "follows k rest \<longleftrightarrow> rest \<noteq> [] \<and> type_level (fst (hd rest)) < max 1 k \<and> fst (hd rest) \<notin> {JZ_TOK_DOT, JZ_TOK_LPAREN, JZ_TOK_LBRACE} \<and>
     (k \<le> 11 \<longrightarrow> fst (hd rest) \<noteq> JZ_TOK_LBRACKET) \<and> (k = 0 \<longrightarrow> fst (hd rest) \<noteq> JZ_TOK_OP_QUESTION)"

lemma follows_mono: "follows j rest \<Longrightarrow> j \<le> k \<Longrightarrow> follows k rest"
  by (auto simp: follows_def)

section \<open>What the parts of the parser do with printed expressions\<close>

text \<open>\<open>f\<close> reads the tokens \<open>ts\<close> at \<open>p\<close> and returns a node for \<open>e\<close>.\<close>

definition yields :: "parsed \<Rightarrow> TokenParser \<Rightarrow> (JZTokenType \<times> string) list \<Rightarrow> JZExpr \<Rightarrow> bool" where
  "yields x p ts e \<longleftrightarrow> (\<exists>node. expr_of node = Some e \<and> x = Some (Some node, adv (length ts) p))"

definition at_level :: "nat \<Rightarrow> JZExpr \<Rightarrow> TokenParser \<Rightarrow> (JZTokenType \<times> string option) list \<Rightarrow> bool" where
  "at_level k e p rest \<longleftrightarrow> sees p (printed k e) rest \<and> unat (g_parser_expr_depth p) + nesting k e \<le> 512"

text \<open>The number of binary operators of the level on the left binary_spine, and of slices.\<close>

fun binary_spine :: "nat \<Rightarrow> JZExpr \<Rightarrow> nat" where
  "binary_spine k (AST_BINARY op l r) = (if kind_level op = k then Suc (binary_spine k l) else 0)"
| "binary_spine k _ = 0"

fun slice_spine :: "JZExpr \<Rightarrow> nat" where
  "slice_spine (AST_SLICE b m l) = Suc (slice_spine b)"
| "slice_spine _ = 0"

definition reads_postfix :: "JZExpr \<Rightarrow> bool" where
  "reads_postfix e \<longleftrightarrow> (\<forall>n p rest. at_level 12 e p rest \<longrightarrow> follows 12 rest \<longrightarrow> 3 * length (printed 12 e) \<le> n \<longrightarrow>
     (\<exists>node. expr_of node = Some e \<and> parse_postfix_expr n (parse_expression n) p =
        postfix_loop (n - slice_spine e) (parse_expression n) node (adv (length (printed 12 e)) p)))"

definition reads_unary :: "JZExpr \<Rightarrow> bool" where
  "reads_unary e \<longleftrightarrow> (\<forall>n p rest. at_level 11 e p rest \<longrightarrow> follows 11 rest \<longrightarrow> 3 * length (printed 11 e) < n \<longrightarrow>
     yields (parse_unary_expr n p) p (printed 11 e) e)"

text \<open>The rounds of level \<open>k\<close> for an expression printed at level \<open>j\<close>.\<close>

definition spine_at :: "nat \<Rightarrow> nat \<Rightarrow> JZExpr \<Rightarrow> nat" where
  "spine_at k j e = (if expr_level e < j then 0 else binary_spine k e)"

definition reads_at :: "nat \<Rightarrow> nat \<Rightarrow> JZExpr \<Rightarrow> bool" where
  "reads_at k j e \<longleftrightarrow> (\<forall>n p rest. at_level j e p rest \<longrightarrow> follows (Suc k) rest \<longrightarrow> 3 * length (printed j e) < n \<longrightarrow>
     (\<exists>node. expr_of node = Some e \<and> expr_parser n (parse_unary_expr n) k p =
        parse_binary_loop (n - spine_at k j e) (expr_ops k) (expr_parser n (parse_unary_expr n) (Suc k)) node (adv (length (printed j e)) p)))"

abbreviation reads_binary :: "nat \<Rightarrow> JZExpr \<Rightarrow> bool" where
  "reads_binary k e \<equiv> reads_at k k e"

definition reads_ternary :: "JZExpr \<Rightarrow> bool" where
  "reads_ternary e \<longleftrightarrow> (\<forall>n p rest. at_level 0 e p rest \<longrightarrow> follows 0 rest \<longrightarrow> 3 * length (printed 0 e) + 1 < n \<longrightarrow>
     yields (parse_ternary_expr n p) p (printed 0 e) e)"

definition reads_expr :: "JZExpr \<Rightarrow> bool" where
  "reads_expr e \<longleftrightarrow> (\<forall>n p rest. sees p (printed 0 e) rest \<longrightarrow> unat (g_parser_expr_depth p) + nesting 0 e < 512 \<longrightarrow> follows 0 rest \<longrightarrow>
     3 * length (printed 0 e) + 2 < n \<longrightarrow> yields (parse_expression n p) p (printed 0 e) e)"

lemma printed_nonempty: "0 < length (printed k e)" "0 < length (expr_body e)"
  by (cases e; simp add: printed.simps)+

lemma printed_level: "k \<le> expr_level e \<Longrightarrow> printed k e = expr_body e \<and> nesting k e = body_nesting e"
  by (simp add: printed.simps nesting.simps)

lemma printed_paren:
  "expr_level e < k \<Longrightarrow> printed k e = (JZ_TOK_LPAREN, ''('') # printed 0 e @ [(JZ_TOK_RPAREN, '')'')] \<and> nesting k e = Suc (nesting 0 e)"
  by (simp add: printed.simps nesting.simps)

lemma binary_spine_length: "binary_spine k e < length (printed j e)"
proof (induction e arbitrary: j)
  case (AST_BINARY op l r)
  have "Suc (binary_spine k l) < length (expr_body (AST_BINARY op l r))"
    using AST_BINARY.IH(1) [of "operand_level op (kind_level op) l"] printed_nonempty(1) [of _ r] by (simp add: add_less_le_mono Suc_leI)
  then show ?case by (auto simp: printed.simps)
qed (use printed_nonempty(1) in auto)

lemma spine_at_length: "spine_at k j e < length (printed j e)"
  using binary_spine_length printed_nonempty(1) by (simp add: spine_at_def)

lemma spine_at_same [simp]: "spine_at k k e = binary_spine k e"
  by (cases e) (auto simp: spine_at_def)

lemma spine_operand: "kind_level op = k \<Longrightarrow> spine_at k (operand_level op k e) e = binary_spine k e"
  by (cases e) (auto simp: spine_at_def operand_level_def)

lemma slice_spine_length: "slice_spine e < length (printed 12 e)"
proof (induction e)
  case (AST_SLICE b m l)
  then show ?case using printed_level [of 12 "AST_SLICE b m l"] by simp
qed (use printed_nonempty(1) in auto)

lemma then_some [simp]: "then_parse (Some (Some e, p)) f = f e p"
  by (simp add: then_parse_def)

end
