(* ===== verification/Parse_Expr_Sound.thy ===== *)
theory Parse_Expr_Sound
  imports Parse_Expr_Print
begin

text \<open>
  The parser reads back what the printer printed, by induction on the expression: first the
  primaries and slices, then the levels of binary operators, then ternaries and whole
  expressions.
\<close>

section \<open>From one level to the next\<close>

lemma at_levelD:
  assumes "at_level k e p rest" "k \<le> expr_level e"
  shows "sees p (expr_body e) rest" "unat (g_parser_expr_depth p) + body_nesting e \<le> 512"
  using assms printed_level [OF assms(2)] by (simp_all add: at_level_def)

text \<open>What the predicates give at a parser.\<close>

lemma reads_postfixD:
  assumes "reads_postfix e" "at_level 12 e p rest" "follows 12 rest" "3 * length (printed 12 e) \<le> n"
  obtains node where "expr_of node = Some e" "parse_postfix_expr n (parse_expression n) p =
    postfix_loop (n - slice_spine e) (parse_expression n) node (adv (length (printed 12 e)) p)"
  using assms unfolding reads_postfix_def by blast

lemma reads_unaryD:
  assumes "reads_unary e" "at_level 11 e p rest" "follows 11 rest" "3 * length (printed 11 e) < n"
  obtains node where "expr_of node = Some e" "parse_unary_expr n p = Some (Some node, adv (length (printed 11 e)) p)"
  using assms unfolding reads_unary_def yields_def by blast

lemma reads_atD:
  assumes "reads_at k j e" "at_level j e p rest" "follows (Suc k) rest" "3 * length (printed j e) < n"
  obtains node where "expr_of node = Some e" "expr_parser n (parse_unary_expr n) k p =
    parse_binary_loop (n - spine_at k j e) (expr_ops k) (expr_parser n (parse_unary_expr n) (Suc k)) node (adv (length (printed j e)) p)"
  using assms unfolding reads_at_def by blast

lemma reads_ternaryD:
  assumes "reads_ternary e" "at_level 0 e p rest" "follows 0 rest" "3 * length (printed 0 e) + 1 < n"
  obtains node where "expr_of node = Some e" "parse_ternary_expr n p = Some (Some node, adv (length (printed 0 e)) p)"
  using assms unfolding reads_ternary_def yields_def by blast

lemma reads_exprD:
  assumes "reads_expr e" "sees p (printed 0 e) rest" "unat (g_parser_expr_depth p) + nesting 0 e < 512" "follows 0 rest"
    "3 * length (printed 0 e) + 2 < n"
  obtains node where "expr_of node = Some e" "parse_expression n p = Some (Some node, adv (length (printed 0 e)) p)"
  using assms unfolding reads_expr_def yields_def by blast

text \<open>What follows the tokens that were read.\<close>

lemma sees_after:
  assumes "sees p ts rest" "follows k rest"
  shows "sees (adv (length ts) p) [] rest" "tk_type (adv (length ts) p) = fst (hd rest)"
proof -
  show s: "sees (adv (length ts) p) [] rest" using sees_skip [of p ts "[]" rest] assms(1) by simp
  obtain r rs where "rest = r # rs" using assms(2) by (cases rest) (auto simp: follows_def)
  then show "tk_type (adv (length ts) p) = fst (hd rest)" using sees_next s by auto
qed

text \<open>Where no operator of the level follows, the level returns the node.\<close>

lemma level_result:
  assumes "reads_at k j e" "at_level j e p rest" "follows k rest" "1 \<le> k" "k \<le> 10" "3 * length (printed j e) < n"
  shows "yields (expr_parser n (parse_unary_expr n) k p) p (printed j e) e"
proof -
  let ?q = "adv (length (printed j e)) p"
  obtain node where node: "expr_of node = Some e" "expr_parser n (parse_unary_expr n) k p =
      parse_binary_loop (n - spine_at k j e) (expr_ops k) (expr_parser n (parse_unary_expr n) (Suc k)) node ?q"
    using reads_atD [OF assms(1,2) follows_mono [OF assms(3)] assms(6)] by (metis le_SucI order_refl)
  have "tk_type ?q = fst (hd rest)" using sees_after(2) assms(2,3) by (auto simp: at_level_def)
  then have "type_level (tk_type ?q) \<noteq> k" using assms(3,4) by (auto simp: follows_def)
  then have "expr_ops k (tk_type ?q) = None" by (rule expr_ops_other [OF assms(4,5)])
  moreover obtain m where "n - spine_at k j e = Suc m" using assms(6) spine_at_length [of k j e] by (cases "n - spine_at k j e") auto
  ultimately show ?thesis using node by (auto simp: yields_def)
qed

lemma tight_operand_result:
  assumes "k = 11 \<Longrightarrow> j = 11 \<and> reads_unary e" "k \<le> 10 \<Longrightarrow> reads_at k j e" "at_level j e p rest" "follows k rest" "1 \<le> k" "k \<le> 11"
    "3 * length (printed j e) < n"
  shows "yields (expr_parser n (parse_unary_expr n) k p) p (printed j e) e"
proof (cases "k = 11")
  case True
  then show ?thesis using assms(1,3,4,7) by (auto simp: expr_parser_def reads_unary_def)
next
  case False
  then show ?thesis using level_result [OF assms(2)] assms(3-7) by simp
qed

text \<open>An operand of a higher level falls through the loops below it.\<close>

lemma reads_through_at:
  assumes "Suc k = 11 \<Longrightarrow> j = 11 \<and> reads_unary e" "Suc k \<le> 10 \<Longrightarrow> reads_at (Suc k) j e" "1 \<le> k" "k \<le> 10" "spine_at k j e = 0"
  shows "reads_at k j e"
  unfolding reads_at_def
proof (intro allI impI)
  fix n p rest
  assume st: "at_level j e p rest" and rest: "follows (Suc k) rest" and n: "3 * length (printed j e) < n"
  have "yields (expr_parser n (parse_unary_expr n) (Suc k) p) p (printed j e) e"
    using tight_operand_result [OF assms(1,2) st rest _ _ n] assms(3,4) by simp
  then show "\<exists>node. expr_of node = Some e \<and> expr_parser n (parse_unary_expr n) k p =
      parse_binary_loop (n - spine_at k j e) (expr_ops k) (expr_parser n (parse_unary_expr n) (Suc k)) node (adv (length (printed j e)) p)"
    using expr_parser_rec [OF assms(3,4), of n "parse_unary_expr n"] assms(5) by (auto simp: yields_def parse_binary_level_def)
qed

lemma reads_through:
  assumes "Suc k = 11 \<Longrightarrow> reads_unary e" "Suc k \<le> 10 \<Longrightarrow> reads_binary (Suc k) e" "1 \<le> k" "k \<le> 10" "expr_level e \<noteq> k"
    "printed (Suc k) e = printed k e" "nesting (Suc k) e = nesting k e"
  shows "reads_binary k e"
proof -
  have z: "binary_spine k e = 0" using assms(5) by (cases e) auto
  have "reads_at k (Suc k) e"
  proof (rule reads_through_at)
    show "Suc k = 11 \<and> reads_unary e" if "Suc k = 11" using assms(1) that by blast
    show "reads_binary (Suc k) e" if "Suc k \<le> 10" using assms(2) that by blast
  qed (use assms(3,4) z in \<open>simp_all add: spine_at_def\<close>)
  moreover have "spine_at k (Suc k) e = spine_at k k e" using z by (simp add: spine_at_def)
  ultimately show ?thesis unfolding reads_at_def at_level_def assms(6,7) by simp
qed

text \<open>An operand in parentheses is read at every level.\<close>

lemma reads_paren_at:
  assumes "reads_unary e" "expr_level e < 11" "1 \<le> k" "k \<le> 10"
  shows "reads_at k 11 e"
proof -
  have "reads_at k 11 e" if "k \<le> 10" "1 \<le> k"
    using that
  proof (induction rule: inc_induct)
    case base
    show ?case by (rule reads_through_at) (use assms(1,2) in \<open>simp_all add: spine_at_def\<close>)
  next
    case (step i)
    show ?case by (rule reads_through_at) (use step assms(1,2) in \<open>simp_all add: spine_at_def\<close>)
  qed
  then show ?thesis using assms(3,4) by blast
qed

lemma reads_down:
  assumes "i \<le> j" "1 \<le> i" "j \<le> 11" "j = 11 \<Longrightarrow> reads_unary e" "j \<le> 10 \<Longrightarrow> reads_binary j e"
    "\<And>k. i \<le> k \<Longrightarrow> k < j \<Longrightarrow> expr_level e \<noteq> k \<and> (expr_level e < Suc k \<longleftrightarrow> expr_level e < k)"
  shows "i \<le> 10 \<longrightarrow> reads_binary i e"
  using assms(1)
proof (induction rule: inc_induct)
  case base
  then show ?case using assms(5) by simp
next
  case (step k)
  have same: "printed (Suc k) e = printed k e" "nesting (Suc k) e = nesting k e"
    using assms(6) [of k] step.hyps by (auto simp: printed.simps nesting.simps)
  show ?case
  proof
    assume "k \<le> 10"
    have "Suc k = 11 \<Longrightarrow> reads_unary e" using assms(3,4) step.hyps by simp
    then show "reads_binary k e"
      using reads_through [OF _ _ _ \<open>k \<le> 10\<close> _ same] step assms(2,6) by auto
  qed
qed

text \<open>One operator: the loop that read the left operand takes one more round.\<close>

lemma expr_of_binary:
  "expr_of l = Some a \<Longrightarrow> expr_of r = Some b \<Longrightarrow> expr_of (binary_node k loc l r) = Some (AST_BINARY k a b)"
  by (simp add: binary_node_def jz_ast_new_def)

lemma reads_operator:
  assumes "reads_at k (operand_level op k a) a" "reads_unary b" "Suc k \<le> 10 \<Longrightarrow> reads_at (Suc k) (operand_level op (Suc k) b) b"
    "kind_level op = k" "binary_token op \<noteq> None"
  shows "reads_binary k (AST_BINARY op a b)"
  unfolding reads_at_def
proof (intro allI impI)
  let ?e = "AST_BINARY op a b" and ?ja = "operand_level op k a" and ?jb = "operand_level op (Suc k) b"
  note op = binary_token_level [OF assms(5), unfolded assms(4)]
  have t: "printed k ?e = printed ?ja a @ kind_token op # printed ?jb b" "nesting k ?e = max (nesting ?ja a) (nesting ?jb b)"
    using assms(4) printed_level [of k ?e] by simp_all
  fix n p rest
  assume st: "at_level k ?e p rest" and rest: "follows (Suc k) rest" and n: "3 * length (printed k ?e) < n"
  let ?U = "parse_unary_expr n" and ?La = "length (printed ?ja a)" and ?Lb = "length (printed ?jb b)"
  let ?loop = "\<lambda>m. parse_binary_loop m (expr_ops k) (expr_parser n ?U (Suc k))"
  let ?tail = "map (\<lambda>(ty, w). (ty, Some w)) (kind_token op # printed ?jb b) @ rest"
  have sa: "at_level ?ja a p ?tail" using st by (auto simp: at_level_def t sees_append)
  have "3 * ?La < n" using n by (simp add: t)
  moreover have "follows (Suc k) ?tail" using op by (auto simp: follows_def split: prod.splits)
  ultimately obtain l where l: "expr_of l = Some a" "expr_parser n ?U k p = ?loop (n - binary_spine k a) l (adv ?La p)"
    using reads_atD [OF assms(1) sa] spine_operand [OF assms(4), of a] by metis
  let ?q = "adv ?La p"
  have q: "sees ?q (kind_token op # printed ?jb b) rest"
    using st sees_skip [of p "printed ?ja a" "kind_token op # printed ?jb b" rest] by (simp add: at_level_def t)
  note C = sees_Cons [OF q]
  have sb: "at_level ?jb b (adv 1 ?q) rest" using C(4) st by (auto simp: at_level_def t)
  have "Suc k = 11 \<Longrightarrow> ?jb = 11" using assms(4) by (simp add: operand_level_def)
  then have "yields (expr_parser n ?U (Suc k) (adv 1 ?q)) (adv 1 ?q) (printed ?jb b) b"
    using tight_operand_result [OF _ assms(3) sb rest] assms(2) n op(3,4) by (simp add: t)
  then obtain r where r: "expr_of r = Some b" "expr_parser n ?U (Suc k) (adv 1 ?q) = Some (Some r, adv ?Lb (adv 1 ?q))"
    by (auto simp: yields_def)
  obtain m where m: "n - binary_spine k a = Suc m" using n binary_spine_length [of k a ?ja] by (cases "n - binary_spine k a") (auto simp: t)
  have "?loop (Suc m) l ?q = ?loop m (binary_node op (tok_loc (tk_peek ?q)) l r) (adv ?Lb (adv 1 ?q))"
    using op(1) C(1,3) r(2) by simp
  moreover have "adv ?Lb (adv 1 ?q) = adv (length (printed k ?e)) p" by (simp add: t add.assoc)
  moreover have "m = n - spine_at k k ?e" using m assms(4) by simp
  ultimately show "\<exists>node. expr_of node = Some ?e \<and> expr_parser n ?U k p =
      ?loop (n - spine_at k k ?e) node (adv (length (printed k ?e)) p)"
    using l m expr_of_binary [OF l(1) r(1)] by metis
qed

section \<open>Ternaries and whole expressions\<close>

lemma ternary_of_level:
  assumes "reads_binary 1 e" "1 \<le> expr_level e"
  shows "reads_ternary e"
  unfolding reads_ternary_def
proof (intro allI impI)
  fix n p rest
  assume st: "at_level 0 e p rest" and rest: "follows 0 rest" and n: "3 * length (printed 0 e) + 1 < n"
  have t: "printed 0 e = printed 1 e" "nesting 0 e = nesting 1 e" using assms(2) printed_level [of 0 e] printed_level [of 1 e] by simp_all
  obtain m where m: "n = Suc m" "3 * length (printed 1 e) < m" using n t by (cases n) auto
  have s1: "at_level 1 e p rest" using st t by (simp add: at_level_def)
  obtain node where node: "expr_of node = Some e" "parse_logical_or_expr m (parse_unary_expr m) p = Some (Some node, adv (length (printed 1 e)) p)"
    using level_result [OF assms(1) s1 follows_mono [OF rest] _ _ m(2)] by (auto simp: yields_def expr_parser_def)
  let ?q = "adv (length (printed 1 e)) p"
  have "tk_type ?q = fst (hd rest)" using sees_after(2) s1 rest by (auto simp: at_level_def)
  then have "tk_match JZ_TOK_OP_QUESTION ?q = (False, ?q)" using rest by (auto simp: follows_def tk_match_def)
  then show "yields (parse_ternary_expr n p) p (printed 0 e) e"
    using node by (auto simp: m(1) parse_ternary_expr.simps yields_def t)
qed

lemma expr_of_ternary:
  "reads_ternary e \<Longrightarrow> reads_expr e"
  unfolding reads_expr_def
proof (intro allI impI)
  fix n p rest
  assume T: "reads_ternary e" and s: "sees p (printed 0 e) rest" and d: "unat (g_parser_expr_depth p) + nesting 0 e < 512"
    and rest: "follows 0 rest" and n: "3 * length (printed 0 e) + 2 < n"
  obtain m where m: "n = Suc m" "3 * length (printed 0 e) + 1 < m" using n by (cases n) auto
  let ?d = "g_parser_expr_depth p"
  have "unat ?d < 2 ^ 32" using unsigned_less [of ?d] by simp
  then have c: "unat (ucast ?d :: usize) = unat ?d" by (simp add: unsigned_ucast_eq take_bit_nat_eq_self)
  have e: "jz_depth_enter_checked ?d JZ_LIMIT_PARSER_EXPR_DEPTH = Some (?d + 1)"
    using c d by (simp add: jz_depth_enter_checked_def Let_def word_le_nat_alt)
  have u: "unat (?d + 1) = unat ?d + 1" using d by (simp add: unat_word_ariths)
  let ?p = "p\<lparr>g_parser_expr_depth := ?d + 1\<rparr>"
  have "at_level 0 e ?p rest" using s d u by (simp add: at_level_def)
  then obtain node where node: "expr_of node = Some e" "parse_ternary_expr m ?p = Some (Some node, adv (length (printed 0 e)) ?p)"
    using reads_ternaryD [OF T _ rest m(2)] by blast
  then show "yields (parse_expression n p) p (printed 0 e) e"
    using enter_leave [OF e] e by (auto simp: m(1) parse_expression.simps yields_def adv_def)
qed

end
