(* ===== verification/Parse_Expr_Leaves.thy ===== *)
theory Parse_Expr_Leaves
  imports Parse_Expr_Sound
begin

text \<open>
  Reading back, continued: how printed expressions start, and the primaries, slices, unary
  operators, concatenations and ternaries.
\<close>

section \<open>The first tokens of an expression\<close>

definition literal_types :: "JZTokenType set" where
  "literal_types = {JZ_TOK_NUMBER, JZ_TOK_SIZED_NUMBER}"

definition primary_start :: "JZTokenType set" where
  "primary_start = literal_types \<union> {JZ_TOK_KEYWORD JZ_TOK_KW_GND, JZ_TOK_KEYWORD JZ_TOK_KW_VCC, JZ_TOK_IDENTIFIER, JZ_TOK_LPAREN}"

definition starts :: "JZTokenType set \<Rightarrow> (JZTokenType \<times> string) list \<Rightarrow> bool" where
  "starts S ts \<longleftrightarrow> (\<exists>t us. ts = t # us \<and> fst t \<in> S)"

lemma starts_append [simp]: "starts S ts \<Longrightarrow> starts S (ts @ us)"
  by (auto simp: starts_def)

lemma starts_mono: "starts S ts \<Longrightarrow> S \<subseteq> T \<Longrightarrow> starts T ts"
  by (auto simp: starts_def)

lemma starts_sees: "starts S ts \<Longrightarrow> sees p ts rest \<Longrightarrow> tk_type p \<in> S"
  using sees_Cons(1) by (auto simp: starts_def)

lemma kind_level_le: "kind_level k \<le> 10"
  by (simp add: kind_level_def binary_token_def)

lemma printed_starts_primary: "starts primary_start (printed 12 e)"
proof (induction e)
  case (AST_BINARY op l r)
  have "expr_level (AST_BINARY op l r) < 12" using kind_level_le [of op] by simp
  from conjunct1 [OF printed_paren [OF this]] show ?case
    by (simp add: starts_def primary_start_def del: expr_body.simps expr_level.simps)
qed (auto simp: printed.simps starts_def primary_start_def literal_types_def)

lemma printed_starts: "printable e \<Longrightarrow> starts index_start (printed k e)"
proof -
  have paren: "starts index_start (body @ rest)" if "body \<noteq> []" "fst (hd body) \<in> index_start" for body rest
    using that by (cases body) (auto simp: starts_def)
  have "printable e \<Longrightarrow> starts index_start (expr_body e)"
  proof (induction e)
    case (AST_SLICE b m l)
    have "starts index_start (printed 12 b)"
      using AST_SLICE by (auto simp: printed.simps starts_def index_start_def)
    then show ?case by simp
  next
    case (AST_UNARY op e)
    then show ?case by (auto simp: starts_def index_start_def unary_token_def)
  next
    case (AST_BINARY op l r)
    have "starts index_start (printed (operand_level op (kind_level op) l) l)"
      using AST_BINARY by (auto simp: printed.simps starts_def index_start_def)
    then show ?case by simp
  next
    case (AST_TERNARY c t f)
    have "starts index_start (printed 1 c)"
      using AST_TERNARY by (auto simp: printed.simps starts_def index_start_def)
    then show ?case by simp
  qed (auto simp: starts_def index_start_def)
  then show "printable e \<Longrightarrow> starts index_start (printed k e)"
    by (auto simp: printed.simps starts_def index_start_def)
qed

text \<open>No brace follows a literal, so that nothing printed looks like a replication.\<close>

definition no_count :: "(JZTokenType \<times> string) list \<Rightarrow> bool" where
  "no_count ts \<longleftrightarrow> (case ts of t # u # _ \<Rightarrow> fst t \<in> literal_types \<longrightarrow> fst u \<noteq> JZ_TOK_LBRACE | _ \<Rightarrow> True)"

lemma no_count_append: "no_count ts \<Longrightarrow> ts \<noteq> [] \<Longrightarrow> fst t \<noteq> JZ_TOK_LBRACE \<Longrightarrow> no_count (ts @ t # us)"
  by (cases ts; cases "tl ts") (auto simp: no_count_def)

lemma no_count_paren [simp]: "fst t \<notin> literal_types \<Longrightarrow> no_count (t # ts)"
  by (cases ts) (simp_all add: no_count_def)

lemma printed_no_count: "printable e \<Longrightarrow> no_count (printed k e)"
proof -
  have lp: "JZ_TOK_LPAREN \<notin> literal_types" by (simp add: literal_types_def)
  have "printable e \<Longrightarrow> no_count (expr_body e)"
  proof (induction e)
    case (AST_SLICE b m l)
    then show ?case using printed_nonempty(1) [of 12 b] by (auto simp: printed.simps lp intro!: no_count_append)
  next
    case (AST_UNARY op e)
    then have "fst (unary_token op) \<notin> literal_types" by (auto simp: unary_token_def literal_types_def)
    then show ?case by simp
  next
    case (AST_BINARY op l r)
    then show ?case using printed_nonempty(1) [of "operand_level op (kind_level op) l" l] binary_token_level(5) [of op]
      by (auto simp: printed.simps lp intro!: no_count_append)
  next
    case (AST_TERNARY c t f)
    then show ?case using printed_nonempty(1) [of 1 c] by (auto simp: printed.simps lp intro!: no_count_append)
  next
    case (AST_CONCAT es)
    then show ?case by (simp add: literal_types_def)
  qed (auto simp: no_count_def literal_types_def)
  then show "printable e \<Longrightarrow> no_count (printed k e)" by (simp add: printed.simps lp)
qed

section \<open>From primaries to unary expressions\<close>

lemma unary_of_postfix:
  assumes "reads_postfix e" "expr_level e \<noteq> 11"
  shows "reads_unary e"
  unfolding reads_unary_def
proof (intro allI impI)
  fix n p rest
  assume st: "at_level 11 e p rest" and rest: "follows 11 rest" and n: "3 * length (printed 11 e) < n"
  have t: "printed 12 e = printed 11 e" "nesting 12 e = nesting 11 e" using assms(2) by (auto simp: printed.simps nesting.simps)
  have s: "sees p (printed 11 e) rest" using st by (simp add: at_level_def)
  obtain m where m: "n = Suc m" "3 * length (printed 11 e) \<le> m" using n by (cases n) auto
  let ?q = "adv (length (printed 11 e)) p"
  have "at_level 12 e p rest" using st t by (simp add: at_level_def)
  then obtain node where node: "expr_of node = Some e"
      "parse_postfix_expr m (parse_expression m) p = postfix_loop (m - slice_spine e) (parse_expression m) node ?q"
    using reads_postfixD [OF assms(1) _ follows_mono [OF rest]] m(2) t by auto
  have "tk_type p \<in> primary_start" using starts_sees [OF printed_starts_primary] s t by metis
  then have ops: "unary_ops (tk_type p) = None" "tk_type p \<noteq> JZ_TOK_LBRACE"
    by (auto simp: primary_start_def literal_types_def unary_ops_def)
  have "tk_match JZ_TOK_LBRACKET ?q = (False, ?q)" using sees_after(2) [OF s rest] rest by (auto simp: follows_def tk_match_def)
  moreover obtain j where "m - slice_spine e = Suc j" using m(2) slice_spine_length [of e] t by (cases "m - slice_spine e") auto
  ultimately show "yields (parse_unary_expr n p) p (printed 11 e) e"
    using node ops by (auto simp: m(1) parse_unary_expr.simps parse_concat_or_primary_expr_def yields_def)
qed

text \<open>A unary operator.\<close>

lemma unary_token_op:
  "k \<in> {''BIT_NOT'', ''LOG_NOT'', ''POS'', ''NEG''} \<Longrightarrow> unary_ops (fst (unary_token k)) = Some k"
  by (elim insertE emptyE) (simp_all add: unary_ops_def unary_token_def)

lemma reads_unary_operator:
  assumes "reads_unary e" "k \<in> {''BIT_NOT'', ''LOG_NOT'', ''POS'', ''NEG''}"
  shows "reads_unary (AST_UNARY k e)"
  unfolding reads_unary_def
proof (intro allI impI)
  let ?e = "AST_UNARY k e"
  have t: "printed 11 ?e = unary_token k # printed 11 e" "nesting 11 ?e = nesting 11 e" using printed_level [of 11 ?e] by simp_all
  fix n p rest
  assume st: "at_level 11 ?e p rest" and rest: "follows 11 rest" and n: "3 * length (printed 11 ?e) < n"
  have s: "sees p (unary_token k # printed 11 e) rest" using st by (simp add: at_level_def t)
  note C = sees_Cons [OF s]
  obtain m where m: "n = Suc m" "3 * length (printed 11 e) < m" using n by (cases n) (auto simp: t)
  have "at_level 11 e (adv 1 p) rest" using C(4) st by (simp add: at_level_def t)
  then obtain node where node: "expr_of node = Some e"
      "parse_unary_expr m (adv 1 p) = Some (Some node, adv (length (printed 11 e)) (adv 1 p))"
    using reads_unaryD [OF assms(1) _ rest m(2)] by blast
  then show "yields (parse_unary_expr n p) p (printed 11 ?e) ?e"
    using C(1,3) unary_token_op [OF assms(2)]
    by (auto simp: m(1) parse_unary_expr.simps yields_def t unary_node_def jz_ast_new_def)
qed

section \<open>Primaries\<close>

text \<open>A primary of one token.\<close>

lemma postfix_of_token:
  assumes "expr_level e = 12" "expr_body e = [t]" "slice_spine e = 0"
    "\<And>n ex p rest. sees p [t] rest \<Longrightarrow> follows 12 rest \<Longrightarrow> 3 \<le> n \<Longrightarrow>
       \<exists>node. expr_of node = Some e \<and> parse_primary_expr n ex p = Some (Some node, adv 1 p)"
  shows "reads_postfix e"
  unfolding reads_postfix_def
proof (intro allI impI)
  have t: "printed 12 e = [t]" using assms(1,2) by (simp add: printed.simps)
  fix n p rest
  assume "at_level 12 e p rest" and rest: "follows 12 rest" and "3 * length (printed 12 e) \<le> n"
  then have "sees p [t] rest" "3 \<le> n" using t by (simp_all add: at_level_def)
  then obtain node where "expr_of node = Some e" "parse_primary_expr n (parse_expression n) p = Some (Some node, adv 1 p)"
    using assms(4) [OF _ rest] by metis
  then show "\<exists>node. expr_of node = Some e \<and> parse_postfix_expr n (parse_expression n) p =
      postfix_loop (n - slice_spine e) (parse_expression n) node (adv (length (printed 12 e)) p)"
    by (auto simp: parse_postfix_expr_def assms(3) t)
qed

lemma reads_literal: "reads_postfix (AST_LITERAL s)"
proof (rule postfix_of_token)
  fix n ex p rest
  assume "sees p [(if quote \<in> set s then JZ_TOK_SIZED_NUMBER else JZ_TOK_NUMBER, s)] rest"
  note C = sees_Cons [OF this]
  show "\<exists>node. expr_of node = Some (AST_LITERAL s) \<and> parse_primary_expr n ex p = Some (Some node, adv 1 p)"
    using C(1,2,3) by (auto simp: parse_primary_expr_def tk_type_def literal_node_def jz_ast_new_def split: if_splits)
qed simp_all

lemma reads_driver: "k = ''GND'' \<or> k = ''VCC'' \<Longrightarrow> reads_postfix (AST_SPECIAL_DRIVER k)"
proof (rule postfix_of_token)
  fix n ex p rest
  assume k: "k = ''GND'' \<or> k = ''VCC''"
    and "sees p [(JZ_TOK_KEYWORD (if k = ''GND'' then JZ_TOK_KW_GND else JZ_TOK_KW_VCC), k)] rest"
  note C = sees_Cons [OF this(2)]
  show "\<exists>node. expr_of node = Some (AST_SPECIAL_DRIVER k) \<and> parse_primary_expr n ex p = Some (Some node, adv 1 p)"
    using C(1,2,3) k by (auto simp: parse_primary_expr_def Let_def tk_type_def jz_ast_new_def)
qed simp_all

lemma reads_identifier: "CHR ''.'' \<notin> set s \<Longrightarrow> reads_postfix (AST_IDENTIFIER s)"
proof (rule postfix_of_token)
  fix n ex p rest
  assume dot: "CHR ''.'' \<notin> set s" and s: "sees p [(JZ_TOK_IDENTIFIER, s)] rest" and rest: "follows 12 rest" and n: "3 \<le> (n :: nat)"
  note C = sees_Cons [OF s]
  obtain r rs where r: "rest = r # rs" using rest by (cases rest) (auto simp: follows_def)
  have q: "tk_type (adv 1 p) = fst r" using sees_next C(4) r by blast
  have "drop (tpos (adv 1 p)) (stream p) \<noteq> []" using C(4) r by (auto simp: sees_def)
  then have l: "tpos (adv 1 p) < length (stream p)" by (metis drop_eq_Nil not_le)
  have "next_token p = tk_peek (adv 1 p)" using l by (simp add: next_token_def tk_peek_def)
  then have nb: "\<not> is_builtin_call p" using q rest r by (auto simp: is_builtin_call_def tk_type_def follows_def)
  have m: "tk_match JZ_TOK_DOT (adv 1 p) = (False, adv 1 p)" using q rest r by (auto simp: tk_match_def follows_def)
  obtain j where j: "n = Suc j" using n by (cases n) auto
  have "accepts_segment True True (tk_peek p)" "is_decl_identifier_token (tk_peek p)"
    using C(1,2) by (simp_all add: accepts_segment_def is_decl_identifier_token_def tk_type_def)
  then show "\<exists>node. expr_of node = Some (AST_IDENTIFIER s) \<and> parse_primary_expr n ex p = Some (Some node, adv 1 p)"
    using C(1,2,3) nb m dot
    by (auto simp: parse_primary_expr_def tk_type_def parse_name_def parser_parse_qualified_name_def j jz_ast_new_def)
qed simp_all

text \<open>An expression in parentheses.\<close>

lemma reads_paren:
  assumes "reads_expr e" "expr_level e < 12"
  shows "reads_postfix e"
  unfolding reads_postfix_def
proof (intro allI impI)
  note t = printed_paren [OF assms(2)]
  fix n p rest
  assume st: "at_level 12 e p rest" and rest: "follows 12 rest" and n: "3 * length (printed 12 e) \<le> n"
  have s: "sees p ((JZ_TOK_LPAREN, ''('') # printed 0 e @ [(JZ_TOK_RPAREN, '')'')]) rest" using st t by (simp add: at_level_def)
  note C = sees_Cons [OF s]
  have se: "sees (adv 1 p) (printed 0 e) ((JZ_TOK_RPAREN, Some '')'') # rest)" using C(4) by (simp add: sees_append)
  have "3 * length (printed 0 e) + 2 < n" using n t by simp
  moreover have "follows 0 ((JZ_TOK_RPAREN, Some '')'') # rest)" by (simp add: follows_def type_level_def)
  moreover have "unat (g_parser_expr_depth (adv 1 p)) + nesting 0 e < 512" using st t by (simp add: at_level_def)
  ultimately obtain node where node: "expr_of node = Some e"
      "parse_expression n (adv 1 p) = Some (Some node, adv (length (printed 0 e)) (adv 1 p))"
    using reads_exprD [OF assms(1) se] by metis
  let ?q = "adv (length (printed 0 e)) (adv 1 p)"
  have "sees ?q [(JZ_TOK_RPAREN, '')'')] rest" using sees_skip [of "adv 1 p" "printed 0 e" "[(JZ_TOK_RPAREN, '')'')]" rest] C(4) by simp
  note D = sees_Cons [OF this]
  have np: "\<not> is_decl_identifier_token (tk_peek p)"
    using C(1,2) by (simp add: is_decl_identifier_token_def tk_type_def decl_keywords_def)
  have "parse_primary_expr n (parse_expression n) p = Some (Some node, adv 1 ?q)"
    using C(1,3) D(1,3) node(2) np by (simp add: parse_primary_expr_def tk_type_def tk_match_def)
  moreover have "slice_spine e = 0" using assms(2) by (cases e) auto
  ultimately show "\<exists>node. expr_of node = Some e \<and> parse_postfix_expr n (parse_expression n) p =
      postfix_loop (n - slice_spine e) (parse_expression n) node (adv (length (printed 12 e)) p)"
    using node(1) t by (auto simp: parse_postfix_expr_def)
qed

end
