(* ===== verification/Parse_Expr_Read.thy ===== *)
theory Parse_Expr_Read
  imports Parse_Expr_Leaves
begin

text \<open>
  Reading back, concluded: slices, concatenations and ternaries, and the induction over
  expressions that gives all levels of the parser together.
\<close>

section \<open>Slices\<close>

lemma index_read:
  assumes "reads_expr e" "printable e" "sees p (printed 0 e) rest" "unat (g_parser_expr_depth p) + nesting 0 e < 512" "follows 0 rest"
    "3 * length (printed 0 e) + 2 < n"
  obtains node where "expr_of node = Some e"
    "parse_simple_index_expr (parse_expression n) p = Some (Some node, adv (length (printed 0 e)) p)"
proof -
  have "tk_type p \<in> index_start" using starts_sees printed_starts assms(2,3) by blast
  then show ?thesis using reads_exprD [OF assms(1,3-6)] that by (metis parse_simple_index_expr_def)
qed

lemma expr_of_slice:
  "expr_of b = Some x \<Longrightarrow> expr_of m = Some y \<Longrightarrow> expr_of l = Some z \<Longrightarrow> expr_of (slice_node b m l) = Some (AST_SLICE x y z)"
  by (simp add: slice_node_def jz_ast_new_def)

text \<open>The brackets after a base that has been read.\<close>

lemma bracket_read:
  assumes "reads_expr m" "reads_expr l" "printable m" "printable l"
    and s: "sees p (printed 0 m @ (JZ_TOK_OP_COLON, '':'') # printed 0 l @ [(JZ_TOK_RBRACKET, '']'')]) rest"
    and d: "unat (g_parser_expr_depth p) + max (nesting 0 m) (nesting 0 l) < 512"
    and n: "3 * length (printed 0 m) + 2 < n" "3 * length (printed 0 l) + 2 < n"
  obtains msb lsb where "expr_of msb = Some m" "expr_of lsb = Some l"
    "parse_bracket (parse_expression n) e p =
       Some (Some (slice_node e msb lsb), adv (length (printed 0 m) + length (printed 0 l) + 2) p)"
proof -
  let ?tl = "(JZ_TOK_OP_COLON, '':'') # printed 0 l @ [(JZ_TOK_RBRACKET, '']'')]"
  have "sees p (printed 0 m) (map (\<lambda>(ty, w). (ty, Some w)) ?tl @ rest)" using s by (subst (asm) sees_append) simp
  moreover have "follows 0 (map (\<lambda>(ty, w). (ty, Some w)) ?tl @ rest)" by (simp add: follows_def type_level_def)
  moreover have "unat (g_parser_expr_depth p) + nesting 0 m < 512" using d by simp
  ultimately obtain msb where msb: "expr_of msb = Some m"
      "parse_simple_index_expr (parse_expression n) p = Some (Some msb, adv (length (printed 0 m)) p)"
    using index_read [OF assms(1,3) _ _ _ n(1)] by metis
  let ?q = "adv (length (printed 0 m)) p"
  have q: "sees ?q ?tl rest" by (rule sees_skip [OF s])
  note C = sees_Cons [OF q]
  have "sees (adv 1 ?q) (printed 0 l) ((JZ_TOK_RBRACKET, Some '']'') # rest)" using C(4) by (simp add: sees_append)
  moreover have "follows 0 ((JZ_TOK_RBRACKET, Some '']'') # rest)" by (simp add: follows_def type_level_def)
  moreover have "unat (g_parser_expr_depth (adv 1 ?q)) + nesting 0 l < 512" using d by simp
  ultimately obtain lsb where lsb: "expr_of lsb = Some l"
      "parse_simple_index_expr (parse_expression n) (adv 1 ?q) = Some (Some lsb, adv (length (printed 0 l)) (adv 1 ?q))"
    using index_read [OF assms(2,4) _ _ _ n(2)] by metis
  let ?r = "adv (length (printed 0 l)) (adv 1 ?q)"
  have "sees ?r [(JZ_TOK_RBRACKET, '']'')] rest" using sees_skip [of "adv 1 ?q" "printed 0 l"] C(4) by simp
  note D = sees_Cons [OF this]
  have "tk_type p \<in> index_start" using starts_sees [OF starts_append [OF printed_starts [OF assms(3)]] s] .
  then have "tk_type p \<noteq> JZ_TOK_OP_STAR" by (auto simp: index_start_def)
  then have "parse_bracket (parse_expression n) e p = Some (Some (slice_node e msb lsb), adv 1 ?r)"
    using msb(2) lsb(2) C(1,3) D(1,3) by (simp add: parse_bracket_def tk_match_def bracket_end_def)
  then show ?thesis using that msb(1) lsb(1) by (simp add: add.commute add.left_commute)
qed

lemma reads_slice:
  assumes "reads_postfix b" "reads_expr m" "reads_expr l" "printable m" "printable l"
  shows "reads_postfix (AST_SLICE b m l)"
  unfolding reads_postfix_def
proof (intro allI impI)
  let ?e = "AST_SLICE b m l"
  let ?in = "printed 0 m @ (JZ_TOK_OP_COLON, '':'') # printed 0 l @ [(JZ_TOK_RBRACKET, '']'')]"
  have t: "printed 12 ?e = printed 12 b @ (JZ_TOK_LBRACKET, ''['') # ?in"
    "nesting 12 ?e = max (nesting 12 b) (Suc (max (nesting 0 m) (nesting 0 l)))" using printed_level [of 12 ?e] by simp_all
  fix n p rest
  assume st: "at_level 12 ?e p rest" and rest: "follows 12 rest" and n: "3 * length (printed 12 ?e) \<le> n"
  let ?tail = "map (\<lambda>(ty, w). (ty, Some w)) ((JZ_TOK_LBRACKET, ''['') # ?in) @ rest"
  have "at_level 12 b p ?tail" using st unfolding at_level_def t by (subst (asm) sees_append) auto
  moreover have "follows 12 ?tail" by (simp add: follows_def type_level_def)
  moreover have "3 * length (printed 12 b) \<le> n" using n by (simp add: t)
  ultimately obtain base where base: "expr_of base = Some b" "parse_postfix_expr n (parse_expression n) p =
      postfix_loop (n - slice_spine b) (parse_expression n) base (adv (length (printed 12 b)) p)"
    using reads_postfixD [OF assms(1)] by metis
  let ?q = "adv (length (printed 12 b)) p"
  have "sees ?q ((JZ_TOK_LBRACKET, ''['') # ?in) rest" using st sees_skip [of p "printed 12 b"] by (simp add: at_level_def t)
  note C = sees_Cons [OF this]
  have "unat (g_parser_expr_depth (adv 1 ?q)) + max (nesting 0 m) (nesting 0 l) < 512" using st by (auto simp: at_level_def t)
  moreover have "3 * length (printed 0 m) + 2 < n" "3 * length (printed 0 l) + 2 < n" using n by (simp_all add: t)
  ultimately obtain msb lsb where br: "expr_of msb = Some m" "expr_of lsb = Some l" "parse_bracket (parse_expression n) base (adv 1 ?q) =
      Some (Some (slice_node base msb lsb), adv (length (printed 0 m) + length (printed 0 l) + 2) (adv 1 ?q))"
    using bracket_read [OF assms(2-5) C(4)] by metis
  obtain j where j: "n - slice_spine b = Suc j" using n slice_spine_length [of b] by (cases "n - slice_spine b") (auto simp: t)
  have "postfix_loop (Suc j) (parse_expression n) base ?q =
      postfix_loop j (parse_expression n) (slice_node base msb lsb) (adv (length (printed 12 ?e)) p)"
    using C(1,3) br(3) by (simp add: tk_match_def t add.commute add.left_commute)
  moreover have "j = n - slice_spine ?e" using j by simp
  ultimately show "\<exists>node. expr_of node = Some ?e \<and> parse_postfix_expr n (parse_expression n) p =
      postfix_loop (n - slice_spine ?e) (parse_expression n) node (adv (length (printed 12 ?e)) p)"
    using base j expr_of_slice [OF base(1) br(1,2)] by metis
qed

section \<open>Concatenations\<close>

lemma elements_read:
  assumes "\<And>e. e \<in> set es \<Longrightarrow> reads_expr e" "es \<noteq> []" "sees p (elements es @ [(JZ_TOK_RBRACE, ''}'')]) rest"
    "unat (g_parser_expr_depth p) + elements_nesting es \<le> 512" "3 * length (elements es) + 2 < n" "length es \<le> k"
  shows "\<exists>cs'. map expr_of cs' = map Some es \<and> children_loop k (parse_expression n) (AST_NODE ty loc nm tx bk cs) p =
    Some (Some (AST_NODE ty loc nm tx bk (cs @ cs')), adv (length (elements es)) p)"
  using assms
proof (induction es arbitrary: p k cs)
  case (Cons e es)
  let ?tl = "(if es = [] then [] else (JZ_TOK_COMMA, '','') # elements es) @ [(JZ_TOK_RBRACE, ''}'')]"
  have s: "sees p (printed 0 e @ ?tl) rest" using Cons.prems(3) by simp
  have "sees p (printed 0 e) (map (\<lambda>(ty, w). (ty, Some w)) ?tl @ rest)" using s by (subst (asm) sees_append)
  moreover have "follows 0 (map (\<lambda>(ty, w). (ty, Some w)) ?tl @ rest)" by (simp add: follows_def type_level_def)
  moreover have "unat (g_parser_expr_depth p) + nesting 0 e < 512" "3 * length (printed 0 e) + 2 < n" using Cons.prems(4,5) by auto
  ultimately obtain c where c: "expr_of c = Some e" "parse_expression n p = Some (Some c, adv (length (printed 0 e)) p)"
    using reads_exprD [OF Cons.prems(1) [of e]] by (metis list.set_intros(1))
  let ?q = "adv (length (printed 0 e)) p"
  have q: "sees ?q ?tl rest" by (rule sees_skip [OF s])
  obtain j where j: "k = Suc j" "length es \<le> j" using Cons.prems(6) by (cases k) auto
  show ?case
  proof (cases "es = []")
    case True
    then have "tk_type ?q = JZ_TOK_RBRACE" using q sees_Cons(1) by fastforce
    then have "children_loop k (parse_expression n) (AST_NODE ty loc nm tx bk cs) p = Some (Some (AST_NODE ty loc nm tx bk (cs @ [c])), ?q)"
      using c(2) by (simp add: j(1) tk_match_def)
    then show ?thesis using c(1) True by (intro exI [of _ "[c]"]) simp
  next
    case False
    then have "sees ?q ((JZ_TOK_COMMA, '','') # elements es @ [(JZ_TOK_RBRACE, ''}'')]) rest" using q by simp
    note C = sees_Cons [OF this]
    have "unat (g_parser_expr_depth (adv 1 ?q)) + elements_nesting es \<le> 512" "3 * length (elements es) + 2 < n"
      using Cons.prems(4,5) False by auto
    then obtain cs' where cs': "map expr_of cs' = map Some es"
        "children_loop j (parse_expression n) (AST_NODE ty loc nm tx bk (cs @ [c])) (adv 1 ?q) =
           Some (Some (AST_NODE ty loc nm tx bk ((cs @ [c]) @ cs')), adv (length (elements es)) (adv 1 ?q))"
      using Cons.IH [OF Cons.prems(1) False C(4) _ _ j(2)] by (metis list.set_intros(2))
    have "children_loop k (parse_expression n) (AST_NODE ty loc nm tx bk cs) p =
        Some (Some (AST_NODE ty loc nm tx bk (cs @ c # cs')), adv (length (elements (e # es))) p)"
      using c(2) C(1,3) cs'(2) False by (simp add: j(1) tk_match_def add.commute add.left_commute)
    then show ?thesis using c(1) cs'(1) by (intro exI [of _ "c # cs'"]) simp
  qed
qed simp

lemma expr_of_concat: "map expr_of cs = map Some es \<Longrightarrow> expr_of (AST_NODE JZ_AST_EXPR_CONCAT loc nm tx bk cs) = Some (AST_CONCAT es)"
proof -
  have "those (map Some es) = Some es" by (induction es) simp_all
  then show "map expr_of cs = map Some es \<Longrightarrow> ?thesis" by simp
qed

lemma elements_length: "length es \<le> length (elements es)"
proof (induction es)
  case (Cons e es)
  then show ?case using printed_nonempty(1) [of 0 e] by (cases "printed 0 e") auto
qed simp

lemma elements_no_count:
  "list_all printable es \<Longrightarrow> es \<noteq> [] \<Longrightarrow> no_count (elements es @ [(JZ_TOK_RBRACE, ''}'')])"
  by (cases es) (use printed_no_count [of _ 0] printed_nonempty(1) [of 0] in \<open>auto intro!: no_count_append\<close>)

text \<open>Where the parser does not look for a replication.\<close>

lemma not_replication:
  assumes "sees p ts rest" "no_count ts" "1 < length ts"
  shows "\<not> ((tk_type p = JZ_TOK_NUMBER \<or> tk_type p = JZ_TOK_SIZED_NUMBER) \<and> fst (tk_match JZ_TOK_LBRACE (tk_advance p)))"
proof -
  obtain t u us where ts: "ts = t # u # us" using assms(3) by (cases ts; cases "tl ts") auto
  note C = sees_Cons [OF assms(1) [unfolded ts]]
  note D = sees_Cons [OF C(4)]
  show ?thesis using C(1,3) D(1) assms(2) by (auto simp: ts no_count_def literal_types_def tk_match_def)
qed

lemma reads_concat:
  assumes "\<And>e. e \<in> set es \<Longrightarrow> reads_expr e" "list_all printable es"
  shows "reads_unary (AST_CONCAT es)"
  unfolding reads_unary_def
proof (intro allI impI)
  let ?e = "AST_CONCAT es" and ?in = "elements es @ [(JZ_TOK_RBRACE, ''}'')]"
  have t: "printed 11 ?e = (JZ_TOK_LBRACE, ''{'') # ?in" "nesting 11 ?e = elements_nesting es" using printed_level [of 11 ?e] by simp_all
  fix n p rest
  assume st: "at_level 11 ?e p rest" and "follows 11 rest" and n: "3 * length (printed 11 ?e) < n"
  have "sees p ((JZ_TOK_LBRACE, ''{'') # ?in) rest" using st by (simp add: at_level_def t)
  note C = sees_Cons [OF this]
  obtain m where m: "n = Suc m" "3 * length (elements es) + 2 < m" using n by (cases n) (auto simp: t)
  let ?new = "jz_ast_new JZ_AST_EXPR_CONCAT (tok_loc (tk_peek p))" and ?q = "adv (length (elements es)) (adv 1 p)"
  have "sees ?q [(JZ_TOK_RBRACE, ''}'')] rest" by (rule sees_skip [OF C(4)])
  note D = sees_Cons [OF this]
  have "\<exists>cs. map expr_of cs = map Some es \<and> parse_children m (parse_expression m) JZ_TOK_RBRACE ?new (adv 1 p) =
      Some (Some (AST_NODE JZ_AST_EXPR_CONCAT (tok_loc (tk_peek p)) None None None cs), adv 1 ?q)"
  proof (cases "es = []")
    case True
    then show ?thesis using D(1,3) by (simp add: parse_children_def tk_match_def jz_ast_new_def)
  next
    case False
    then obtain e es' where es: "es = e # es'" by (cases es) auto
    have "starts index_start ?in" using printed_starts [of e 0] assms(2) by (simp add: es)
    then have "tk_type (adv 1 p) \<in> index_start" using starts_sees C(4) by blast
    then have "tk_type (adv 1 p) \<noteq> JZ_TOK_RBRACE" by (auto simp: index_start_def)
    moreover have "unat (g_parser_expr_depth (adv 1 p)) + elements_nesting es \<le> 512" using st by (simp add: at_level_def t)
    moreover have "length es \<le> m" using m(2) elements_length [of es] by simp
    ultimately show ?thesis
      using elements_read [OF assms(1) False C(4) _ m(2), of m JZ_AST_EXPR_CONCAT "tok_loc (tk_peek p)" None None None "[]"] D(1,3)
      by (auto simp: parse_children_def tk_match_def jz_ast_new_def)
  qed
  then obtain cs where cs: "map expr_of cs = map Some es" "parse_children m (parse_expression m) JZ_TOK_RBRACE ?new (adv 1 p) =
      Some (Some (AST_NODE JZ_AST_EXPR_CONCAT (tok_loc (tk_peek p)) None None None cs), adv 1 ?q)"
    by blast
  have "\<not> ((tk_type (adv 1 p) = JZ_TOK_NUMBER \<or> tk_type (adv 1 p) = JZ_TOK_SIZED_NUMBER) \<and>
      fst (tk_match JZ_TOK_LBRACE (tk_advance (adv 1 p))))"
  proof (cases "es = []")
    case True
    then show ?thesis using D(1) by simp
  next
    case False
    moreover have "0 < length (elements es)" using False elements_length [of es] by (cases es) auto
    ultimately show ?thesis using not_replication [OF C(4)] elements_no_count [OF assms(2)] by simp
  qed
  then have "parse_unary_expr n p = Some (Some (AST_NODE JZ_AST_EXPR_CONCAT (tok_loc (tk_peek p)) None None None cs), adv 1 ?q)"
    using C(1,3) cs(2)
    by (auto simp: m(1) parse_unary_expr.simps unary_ops_def parse_concat_or_primary_expr_def Let_def split: prod.splits)
  then show "yields (parse_unary_expr n p) p (printed 11 ?e) ?e"
    using expr_of_concat [OF cs(1)] by (auto simp: yields_def t simp del: expr_of.simps)
qed

section \<open>Ternaries\<close>

lemma expr_of_ternary_node:
  "expr_of c = Some x \<Longrightarrow> expr_of t = Some y \<Longrightarrow> expr_of f = Some z \<Longrightarrow> expr_of (ternary_node c t f) = Some (AST_TERNARY x y z)"
  by (simp add: ternary_node_def jz_ast_new_def)

lemma reads_true_ternary:
  assumes "reads_binary 1 c" "reads_expr t" "reads_ternary f"
  shows "reads_ternary (AST_TERNARY c t f)"
  unfolding reads_ternary_def
proof (intro allI impI)
  let ?e = "AST_TERNARY c t f"
  let ?tt = "(JZ_TOK_OP_QUESTION, ''?'') # printed 0 t @ (JZ_TOK_OP_COLON, '':'') # printed 0 f"
  have t: "printed 0 ?e = printed 1 c @ ?tt" "nesting 0 ?e = max (nesting 1 c) (max (Suc (nesting 0 t)) (nesting 0 f))"
    using printed_level [of 0 ?e] by simp_all
  fix n p rest
  assume st: "at_level 0 ?e p rest" and rest: "follows 0 rest" and n: "3 * length (printed 0 ?e) + 1 < n"
  have s: "sees p (printed 1 c @ ?tt) rest" using st by (simp add: at_level_def t)
  obtain m where m: "n = Suc m" "3 * length (printed 0 ?e) + 1 \<le> m" using n by (cases n) auto
  let ?tail = "map (\<lambda>(ty, w). (ty, Some w)) ?tt @ rest"
  have "at_level 1 c p ?tail" using st unfolding at_level_def t by (subst (asm) sees_append) auto
  moreover have "follows 1 ?tail" by (simp add: follows_def type_level_def)
  moreover have "3 * length (printed 1 c) < m" using m(2) by (simp add: t)
  ultimately obtain cond where cond: "expr_of cond = Some c"
      "parse_logical_or_expr m (parse_unary_expr m) p = Some (Some cond, adv (length (printed 1 c)) p)"
    using level_result [OF assms(1)] by (fastforce simp: yields_def expr_parser_def)
  let ?q = "adv (length (printed 1 c)) p"
  have q: "sees ?q ?tt rest" by (rule sees_skip [OF s])
  note C = sees_Cons [OF q]
  have "sees (adv 1 ?q) (printed 0 t) (map (\<lambda>(ty, w). (ty, Some w)) ((JZ_TOK_OP_COLON, '':'') # printed 0 f) @ rest)"
    using C(4) by (subst (asm) sees_append)
  moreover have "follows 0 (map (\<lambda>(ty, w). (ty, Some w)) ((JZ_TOK_OP_COLON, '':'') # printed 0 f) @ rest)"
    by (simp add: follows_def type_level_def)
  moreover have "unat (g_parser_expr_depth (adv 1 ?q)) + nesting 0 t < 512" using st by (auto simp: at_level_def t)
  moreover have "3 * length (printed 0 t) + 2 < m" using m(2) by (simp add: t)
  ultimately obtain th where th: "expr_of th = Some t" "parse_expression m (adv 1 ?q) = Some (Some th, adv (length (printed 0 t)) (adv 1 ?q))"
    using reads_exprD [OF assms(2)] by metis
  let ?r = "adv (length (printed 0 t)) (adv 1 ?q)"
  have "sees ?r ((JZ_TOK_OP_COLON, '':'') # printed 0 f) rest" by (rule sees_skip [OF C(4)])
  note D = sees_Cons [OF this]
  have "at_level 0 f (adv 1 ?r) rest" using D(4) st by (auto simp: at_level_def t)
  moreover have "3 * length (printed 0 f) + 1 < m" using m(2) by (simp add: t)
  ultimately obtain el where el: "expr_of el = Some f"
      "parse_ternary_expr m (adv 1 ?r) = Some (Some el, adv (length (printed 0 f)) (adv 1 ?r))"
    using reads_ternaryD [OF assms(3) _ rest] by metis
  have "parse_ternary_expr n p = Some (Some (ternary_node cond th el), adv (length (printed 0 f)) (adv 1 ?r))"
    using cond(2) C(1,3) th(2) D(1,3) el(2) by (simp add: m(1) parse_ternary_expr.simps tk_match_def)
  then show "yields (parse_ternary_expr n p) p (printed 0 ?e) ?e"
    using expr_of_ternary_node [OF cond(1) th(1) el(1)] by (auto simp: yields_def t add.commute add.left_commute)
qed

section \<open>All levels together\<close>

definition reads_all :: "JZExpr \<Rightarrow> bool" where
  "reads_all e \<longleftrightarrow> reads_postfix e \<and> reads_unary e \<and> (\<forall>k. 1 \<le> k \<and> k \<le> 10 \<longrightarrow> reads_binary k e) \<and> reads_ternary e \<and> reads_expr e"

text \<open>From the unary level down to level \<open>i\<close>.\<close>

lemma binary_of_unary:
  assumes "reads_unary e" "expr_level e < i \<or> 11 \<le> expr_level e" "1 \<le> i" "i \<le> 10"
  shows "reads_binary i e"
  using reads_down [of i 11 e] assms by auto

lemma all_of_unary:
  assumes "reads_unary e" "11 \<le> expr_level e" "expr_level e = 12 \<Longrightarrow> reads_postfix e"
  shows "reads_all e"
proof -
  have b: "\<And>k. 1 \<le> k \<and> k \<le> 10 \<Longrightarrow> reads_binary k e" using binary_of_unary assms(1,2) by blast
  then have t: "reads_ternary e" using ternary_of_level [of e] assms(2) by simp
  have x: "reads_expr e" by (rule expr_of_ternary [OF t])
  have "expr_level e = 11 \<or> expr_level e = 12" using assms(2) by (cases e) (auto simp: kind_level_def binary_token_def split: if_splits)
  then have "reads_postfix e" using reads_paren [OF x] assms(3) by auto
  then show ?thesis using assms(1) b t x by (simp add: reads_all_def)
qed

lemma all_of_postfix: "reads_postfix e \<Longrightarrow> expr_level e = 12 \<Longrightarrow> reads_all e"
  using all_of_unary unary_of_postfix by simp

lemma all_of_binary:
  assumes "reads_binary k e" "expr_level e = k" "1 \<le> k" "k \<le> 10"
  shows "reads_all e"
proof -
  have low: "reads_binary i e" if "1 \<le> i" "i \<le> k" for i using reads_down [of i k e] assms that by auto
  have t: "reads_ternary e" using ternary_of_level [OF low] assms by simp
  have x: "reads_expr e" by (rule expr_of_ternary [OF t])
  have pf: "reads_postfix e" using reads_paren [OF x] assms by simp
  have u: "reads_unary e" using unary_of_postfix [OF pf] assms by simp
  have "reads_binary i e" if "1 \<le> i" "i \<le> 10" for i
    using low binary_of_unary [OF u, of i] assms(2) that by (cases "i \<le> k") auto
  then show ?thesis using pf u t x by (simp add: reads_all_def)
qed

lemma all_of_ternary:
  assumes "reads_ternary e" "expr_level e = 0"
  shows "reads_all e"
proof -
  have x: "reads_expr e" by (rule expr_of_ternary [OF assms(1)])
  have pf: "reads_postfix e" using reads_paren [OF x] assms(2) by simp
  have u: "reads_unary e" using unary_of_postfix [OF pf] assms(2) by simp
  show ?thesis using binary_of_unary [OF u] assms pf u x by (simp add: reads_all_def)
qed

lemma printable_read: "printable e \<Longrightarrow> reads_all e"
proof (induction e)
  case (AST_LITERAL s)
  then show ?case using reads_literal by (simp add: all_of_postfix)
next
  case (AST_SPECIAL_DRIVER k)
  then show ?case using reads_driver by (simp add: all_of_postfix)
next
  case (AST_IDENTIFIER n)
  then show ?case using reads_identifier by (simp add: all_of_postfix)
next
  case (AST_UNARY k e)
  then show ?case using reads_unary_operator [of e k] by (intro all_of_unary) (auto simp: reads_all_def)
next
  case (AST_BINARY k l r)
  then have "binary_token k \<noteq> None" by simp
  note B = binary_token_level(3,4) [OF this]
  have operand: "reads_at j (operand_level k j e) e" if "reads_all e" "1 \<le> j" "j \<le> 10" for j e
    using that reads_paren_at [of e j] by (auto simp: operand_level_def reads_all_def)
  have "reads_binary (kind_level k) (AST_BINARY k l r)"
    by (rule reads_operator) (use AST_BINARY B in \<open>auto simp: reads_all_def intro!: operand\<close>)
  then show ?case using B by (intro all_of_binary [of "kind_level k"]) simp_all
next
  case (AST_TERNARY c t f)
  then show ?case using reads_true_ternary [of c t f] by (intro all_of_ternary) (auto simp: reads_all_def)
next
  case (AST_CONCAT es)
  then show ?case using reads_concat [of es] by (intro all_of_unary) (auto simp: reads_all_def list_all_iff)
next
  case (AST_SLICE b m l)
  then show ?case using reads_slice [of b m l] by (intro all_of_postfix) (auto simp: reads_all_def)
qed

end
