(* ===== verification/Lexer_Tiles.thy ===== *)
theory Lexer_Tiles
  imports Lexer "HOL-Library.Sublist"
begin

text \<open>
  What a successful pass of the lexer means for the source: it is cut without loss into tokens
  and the blanks and comments between them.
\<close>

section \<open>Text between tokens\<close>

abbreviation newline :: char where
  "newline \<equiv> CHR 0x0A"

abbreviation dquote :: char where
  "dquote \<equiv> CHR 0x22"

definition substr :: "string \<Rightarrow> nat \<Rightarrow> nat \<Rightarrow> string" where
  "substr s a b = take (b - a) (drop a s)"

text \<open>Blanks, line comments (the last one may lack its newline) and block comments.\<close>

inductive trivia :: "string \<Rightarrow> bool" where
  nothing: "trivia []"
| blank: "c \<in> {CHR '' '', CHR 0x09, CHR 0x0D, newline} \<Longrightarrow> trivia s \<Longrightarrow> trivia (c # s)"
| line_comment: "newline \<notin> set c \<Longrightarrow> trivia s \<Longrightarrow> trivia (''//'' @ c @ newline # s)"
| last_comment: "newline \<notin> set c \<Longrightarrow> trivia (''//'' @ c)"
| block_comment: "\<not> sublist ''*/'' c \<Longrightarrow> trivia s \<Longrightarrow> trivia (''/*'' @ c @ ''*/'' @ s)"

text \<open>The text at the end of the source: a string that is never closed is dropped silently.\<close>

definition final_gap :: "string \<Rightarrow> bool" where
  "final_gap g \<longleftrightarrow> trivia g \<or> (\<exists>t r. g = t @ dquote # r \<and> trivia t \<and> dquote \<notin> set r)"

section \<open>Tokens in the source\<close>

definition loc_at :: "string \<Rightarrow> string \<Rightarrow> nat \<Rightarrow> JZLocation" where
  "loc_at f s i = \<lparr>loc_filename = f, loc_line = fst (location s i), loc_column = snd (location s i)\<rparr>"

text \<open>The token is the text from offset \<open>a\<close> to \<open>b\<close>; a string token its text between the quotes.\<close>

definition token_at :: "string \<Rightarrow> string \<Rightarrow> nat \<Rightarrow> nat \<Rightarrow> JZToken \<Rightarrow> bool" where
  "token_at f s a b t \<longleftrightarrow>
     a < b \<and> b \<le> length s \<and> tok_loc t = loc_at f s a \<and> tok_type t \<noteq> JZ_TOK_EOF \<and>
     (if tok_type t = JZ_TOK_STRING
      then \<exists>r. substr s a b = dquote # r @ [dquote] \<and> dquote \<notin> set r \<and>
               lexeme t = (if decode_escapes r = [] then None else Some (decode_escapes r))
      else lexeme t = Some (substr s a b)) \<and>
     (tok_type t = JZ_TOK_SIZED_NUMBER \<longrightarrow> parse_numeric_literal (substr s a b) = Inr (Some (tok_num t)))"

inductive tiled :: "string \<Rightarrow> string \<Rightarrow> JZToken list \<Rightarrow> nat \<Rightarrow> bool" for f s where
  start: "tiled f s [] 0"
| token: "tiled f s ts m \<Longrightarrow> m \<le> a \<Longrightarrow> trivia (substr s m a) \<Longrightarrow> token_at f s a b t \<Longrightarrow> tiled f s (ts @ [t]) b"

lemma substr_append: "a \<le> b \<Longrightarrow> b \<le> c \<Longrightarrow> substr s a c = substr s a b @ substr s b c"
proof -
  assume "a \<le> b" "b \<le> c"
  then have "c - a = (b - a) + (c - b)" "drop b s = drop (b - a) (drop a s)" by simp_all
  then show ?thesis unfolding substr_def by (metis take_add)
qed

lemma substr_refl [simp]: "substr s a a = []"
  by (simp add: substr_def)

lemma substr_Cons: "a < b \<Longrightarrow> a < length s \<Longrightarrow> substr s a b = s ! a # substr s (Suc a) b"
  by (simp add: substr_def Cons_nth_drop_Suc [symmetric] Suc_diff_Suc [symmetric] del: Suc_diff_Suc)

lemma substr_Suc: "a \<le> b \<Longrightarrow> b < length s \<Longrightarrow> substr s a (Suc b) = substr s a b @ [s ! b]"
  using substr_append [of a b "Suc b" s] substr_Cons [of b "Suc b" s] by simp

lemma slice_substr [simp]: "slice a b st = substr (src st) a b"
  by (simp add: slice_def substr_def)

lemma onward_dest:
  assumes "onward a b"
  shows "src b = src a" "filename b = filename a" "out b = out a" "pos a \<le> pos b" "located a \<Longrightarrow> located b"
    "had_error a \<Longrightarrow> had_error b" "\<not> had_error b \<Longrightarrow> diagnostics b = diagnostics a" "stop_lexing b = stop_lexing a"
    "diagnostics a \<noteq> None \<Longrightarrow> diagnostics b \<noteq> None"
  using assms by (auto simp: onward_def)

section \<open>Skipping\<close>

lemma trivia_skip_blanks:
  assumes "located st" "pos (skip_blanks st) \<le> q" "trivia (substr (src st) (pos (skip_blanks st)) q)"
  shows "trivia (substr (src st) (pos st) q)"
  using assms
proof (induction st rule: skip_blanks.induct)
  case (1 st)
  show ?case
  proof (cases "\<not> at_end st \<and> cur_char st \<in> {CHR '' '', CHR 0x09, CHR 0x0D, newline}")
    case True
    define st1 where "st1 = (if cur_char st = newline then newline_step st else bump 1 st)"
    have e: "skip_blanks st = skip_blanks st1" using True by (subst skip_blanks.simps) (auto simp: st1_def)
    have o: "onward st st1" using True onward_newline onward_bump by (simp add: st1_def)
    have p: "pos st1 = Suc (pos st)" "src st1 = src st" by (simp_all add: st1_def newline_step_def)
    have "trivia (substr (src st1) (pos st1) q)"
      using "1.IH" True "1.prems" onward_dest(5) [OF o] p e by (auto simp: st1_def)
    moreover have "pos st1 \<le> q" using onward_dest(4) [OF onward_skip_blanks [of st1]] "1.prems"(2) e by simp
    ultimately show ?thesis
      using True p substr_Cons [of "pos st" q "src st"] trivia.blank by (simp add: at_end_def cur_char_def)
  next
    case False
    then have "skip_blanks st = st" by (subst skip_blanks.simps) auto
    then show ?thesis using "1.prems" by simp
  qed
qed

lemma skip_line_comment_text:
  assumes "pos st \<le> length (src st)"
  shows "\<exists>c. newline \<notin> set c \<and> (substr (src st) (pos st) (pos (skip_line_comment st)) = c @ [newline] \<or>
    (substr (src st) (pos st) (pos (skip_line_comment st)) = c \<and> pos (skip_line_comment st) = length (src st)))"
  using assms
proof (induction st rule: skip_line_comment.induct)
  case (1 st)
  consider (eof) "at_end st" | (nl) "\<not> at_end st" "cur_char st = newline" | (more) "\<not> at_end st" "cur_char st \<noteq> newline" by blast
  then show ?case
  proof cases
    case eof
    then have "skip_line_comment st = st" by (subst skip_line_comment.simps) simp
    then show ?thesis using eof "1.prems" by (intro exI [of _ "[]"]) (simp add: at_end_def)
  next
    case nl
    then have "skip_line_comment st = newline_step st" by (subst skip_line_comment.simps) simp
    then show ?thesis using nl substr_Cons [of "pos st" "Suc (pos st)" "src st"]
      by (intro exI [of _ "[]"]) (simp add: newline_step_def at_end_def cur_char_def)
  next
    case more
    have e: "skip_line_comment st = skip_line_comment (bump 1 st)" using more by (subst skip_line_comment.simps) simp
    have q: "Suc (pos st) \<le> pos (skip_line_comment st)"
      using onward_dest(4) [OF onward_skip_line_comment [of "bump 1 st"]] e by simp
    obtain c where "newline \<notin> set c" "substr (src st) (Suc (pos st)) (pos (skip_line_comment st)) = c @ [newline] \<or>
        (substr (src st) (Suc (pos st)) (pos (skip_line_comment st)) = c \<and> pos (skip_line_comment st) = length (src st))"
      using "1.IH" more "1.prems" e by (auto simp: at_end_def)
    then show ?thesis using more q substr_Cons [of "pos st" "pos (skip_line_comment st)" "src st"]
      by (intro exI [of _ "cur_char st # c"]) (auto simp: at_end_def cur_char_def)
  qed
qed

lemma skip_block_comment_text:
  assumes "skip_block_comment loc st = (True, st')" "pos st \<le> length (src st)"
  shows "\<exists>c. \<not> sublist ''*/'' c \<and> substr (src st) (pos st) (pos st') = c @ ''*/''"
  using assms
proof (induction loc st rule: skip_block_comment.induct)
  case (1 loc st)
  note r = "1.prems"(1) [unfolded skip_block_comment.simps [of loc st] Let_def]
  have ne: "\<not> at_end st" using r by (auto split: if_splits)
  define st1 where "st1 = step_char st"
  have p: "pos st1 = Suc (pos st)" "src st1 = src st" by (simp_all add: st1_def step_char_def newline_step_def)
  have len: "pos st < length (src st)" using ne by (simp add: at_end_def)
  show ?case
  proof (cases "cur_char st = CHR ''*'' \<and> peek 0 st1 = Some (CHR ''/'')")
    case True
    then have "st' = bump 1 st1" using r ne by (simp add: st1_def [symmetric])
    then show ?thesis
      using True p len substr_Cons [of "pos st" "Suc (Suc (pos st))" "src st"] substr_Cons [of "Suc (pos st)" "Suc (Suc (pos st))" "src st"]
      by (intro exI [of _ "[]"]) (auto simp: peek_def cur_char_def split: if_splits)
  next
    case False
    have n: "\<not> (cur_char st = CHR ''/'' \<and> peek 0 st1 = Some (CHR ''*''))" using r ne by (auto simp: st1_def split: if_splits)
    have rec: "skip_block_comment loc st1 = (True, st')" using r ne False n by (simp add: st1_def [symmetric])
    obtain c where c: "\<not> sublist ''*/'' c" "substr (src st) (pos st1) (pos st') = c @ ''*/''"
      using "1.IH" [OF ne refl st1_def n False rec] p len by auto
    have q: "Suc (pos st) \<le> pos st'" using onward_dest(4) [OF onward_skip_block_comment [of st1 loc]] rec p by simp
    have t: "substr (src st) (pos st) (pos st') = (cur_char st # c) @ ''*/''"
      using substr_Cons [of "pos st" "pos st'" "src st"] q len c p by (simp add: cur_char_def)
    have "\<not> (cur_char st = CHR ''*'' \<and> c \<noteq> [] \<and> hd c = CHR ''/'')"
    proof
      assume a: "cur_char st = CHR ''*'' \<and> c \<noteq> [] \<and> hd c = CHR ''/''"
      then have h: "substr (src st) (pos st1) (pos st') = CHR ''/'' # tl c @ ''*/''" using c(2) by (cases c) simp_all
      have l: "pos st1 < length (src st)" using h by (cases "pos st1 < length (src st)") (simp_all add: substr_def)
      have "pos st1 < pos st'" using h by (cases "pos st1 < pos st'") (simp_all add: substr_def)
      then have "src st ! pos st1 = CHR ''/''" using substr_Cons [of "pos st1" "pos st'" "src st"] h l by simp
      then show False using False a l p by (simp add: peek_def)
    qed
    then have "\<not> sublist ''*/'' (cur_char st # c)" using c(1) by (cases c) (auto simp: sublist_Cons_right)
    then show ?thesis using t by blast
  qed
qed

lemma comment_start_pos [simp]: "pos (comment_start st) = pos st + 2" "src (comment_start st) = src st"
  by (simp_all add: comment_start_def)

lemma substr_two:
  assumes "peek 0 st = Some c" "peek 1 st = Some d" "pos st + 2 \<le> q"
  shows "substr (src st) (pos st) q = c # d # substr (src st) (pos st + 2) q"
  using assms substr_Cons [of "pos st" q "src st"] substr_Cons [of "Suc (pos st)" q "src st"]
  by (auto simp: peek_def split: if_splits)

lemma trivia_line:
  assumes c: "peek 0 st = Some (CHR ''/'')" "peek 1 st = Some (CHR ''/'')" and "located st"
  defines "st2 \<equiv> skip_line_comment (comment_start st)"
  assumes q: "pos st2 \<le> q" "q \<le> length (src st)" "trivia (substr (src st) (pos st2) q)"
  shows "trivia (substr (src st) (pos st) q)"
proof -
  have p2: "pos st + 2 \<le> length (src st)" using c by (simp add: peek_def split: if_splits)
  have m: "pos st + 2 \<le> pos st2" using onward_dest(4) [OF onward_skip_line_comment [of "comment_start st"]] by (simp add: st2_def)
  obtain t where t: "newline \<notin> set t" "substr (src st) (pos st + 2) (pos st2) = t @ [newline] \<or>
      (substr (src st) (pos st + 2) (pos st2) = t \<and> pos st2 = length (src st))"
    using skip_line_comment_text [of "comment_start st"] p2 by (auto simp: st2_def)
  have s: "substr (src st) (pos st) q = ''//'' @ substr (src st) (pos st + 2) (pos st2) @ substr (src st) (pos st2) q"
    using substr_two [OF c, of q] substr_append [of "pos st + 2" "pos st2" q "src st"] m q(1) by simp
  from t(2) show ?thesis
  proof
    assume "substr (src st) (pos st + 2) (pos st2) = t @ [newline]"
    then show ?thesis unfolding s using trivia.line_comment [OF t(1) q(3)] by simp
  next
    assume "substr (src st) (pos st + 2) (pos st2) = t \<and> pos st2 = length (src st)"
    then show ?thesis unfolding s using trivia.last_comment [OF t(1)] q by auto
  qed
qed

lemma trivia_block:
  assumes c: "peek 0 st = Some (CHR ''/'')" "peek 1 st = Some (CHR ''*'')"
    and k: "skip_block_comment loc (comment_start st) = (True, st2)"
    and q: "pos st2 \<le> q" "trivia (substr (src st) (pos st2) q)"
  shows "trivia (substr (src st) (pos st) q)"
proof -
  have p2: "pos st + 2 \<le> length (src st)" using c by (simp add: peek_def split: if_splits)
  have m: "pos st + 2 \<le> pos st2" using onward_dest(4) [OF onward_skip_block_comment [of "comment_start st" loc]] k by simp
  obtain t where t: "\<not> sublist ''*/'' t" "substr (src st) (pos st + 2) (pos st2) = t @ ''*/''"
    using skip_block_comment_text [OF k] p2 by auto
  have "substr (src st) (pos st) q = ''/*'' @ t @ ''*/'' @ substr (src st) (pos st2) q"
    using substr_two [OF c, of q] substr_append [of "pos st + 2" "pos st2" q "src st"] m q(1) t(2) by simp
  then show ?thesis using trivia.block_comment [OF t(1) q(2)] by simp
qed

lemma skip_trivia_text:
  assumes "skip_trivia st = (True, st')" "located st"
  shows "trivia (substr (src st) (pos st) (pos st'))"
  using assms
proof (induction st rule: skip_trivia.induct)
  case (1 st)
  define st1 where "st1 = skip_blanks st"
  note r = "1.prems"(1) [unfolded skip_trivia.simps [of st] Let_def st1_def [symmetric]]
  have o: "onward st st1" by (simp add: st1_def onward_skip_blanks)
  note o' = onward_dest [OF o]
  have whole: "onward st st'" using onward_skip_trivia [of st] "1.prems"(1) by simp
  have q: "pos st' \<le> length (src st)" using onward_dest(1,5) [OF whole] "1.prems"(2) by (simp add: located_def)
  have "trivia (substr (src st) (pos st1) (pos st')) \<and> pos st1 \<le> pos st'"
  proof -
    consider (line) "peek 0 st1 = Some (CHR ''/'')" "peek 1 st1 = Some (CHR ''/'')"
      | (block) "peek 0 st1 = Some (CHR ''/'')" "peek 1 st1 = Some (CHR ''*'')"
      | (none) "\<not> (peek 0 st1 = Some (CHR ''/'') \<and> peek 1 st1 = Some (CHR ''/''))"
               "\<not> (peek 0 st1 = Some (CHR ''/'') \<and> peek 1 st1 = Some (CHR ''*''))" by blast
    then show ?thesis
    proof cases
      case line
      define st2 where "st2 = skip_line_comment (comment_start st1)"
      have o2: "onward st1 st2"
        using onward_trans [OF onward_comment_start(1) [OF line] onward_skip_line_comment] by (simp add: st2_def)
      have rec: "\<not> stop_lexing st2" "skip_trivia st2 = (True, st')" using r line by (auto simp: st2_def [symmetric] split: if_splits)
      have t: "trivia (substr (src st2) (pos st2) (pos st'))"
        using "1.IH"(1) [OF st1_def _ st2_def rec] line onward_dest(5) [OF o2] o'(5) "1.prems"(2) by simp
      have m: "pos st2 \<le> pos st'" using onward_dest(4) [OF onward_skip_trivia [of st2]] rec(2) by simp
      show ?thesis
        using trivia_line [OF line, folded st2_def, of "pos st'"] t m q o' onward_dest [OF o2] "1.prems"(2) by simp
    next
      case block
      obtain ok st2 where k: "skip_block_comment (here st1) (comment_start st1) = (ok, st2)" by fastforce
      have o2: "onward st1 st2"
        using onward_trans [OF onward_comment_start(1) [OF block] onward_skip_block_comment, of "here st1"] k by simp
      have rec: "ok" "\<not> stop_lexing st2" "skip_trivia st2 = (True, st')" using r block k by (auto split: if_splits)
      have t: "trivia (substr (src st2) (pos st2) (pos st'))"
        using "1.IH"(2) [OF st1_def _ _ k [symmetric] refl] block rec onward_dest(5) [OF o2] o'(5) "1.prems"(2) by simp
      have m: "pos st2 \<le> pos st'" using onward_dest(4) [OF onward_skip_trivia [of st2]] rec(3) by simp
      show ?thesis
        using trivia_block [OF block, of "here st1" st2 "pos st'"] k rec(1) t m o' onward_dest [OF o2] by simp
    next
      case none
      then have "st' = st1" using r by (auto split: if_splits)
      then show ?thesis by (simp add: trivia.nothing)
    qed
  qed
  then show ?case using trivia_skip_blanks [OF "1.prems"(2), of "pos st'"] by (simp add: st1_def)
qed

section \<open>Emitting\<close>

text \<open>One step from \<open>st\<close>: unless an error is reported, exactly one token is added, and it is the
  text the step moved over.\<close>

definition emits :: "LexerState \<Rightarrow> LexerState \<Rightarrow> bool" where
  "emits st st' \<longleftrightarrow>
     src st' = src st \<and> filename st' = filename st \<and> located st' \<and> diagnostics st' \<noteq> None \<and>
     (stop_lexing st' \<longrightarrow> stop_lexing st \<or> had_error st') \<and>
     (\<not> had_error st' \<longrightarrow> \<not> had_error st \<and> diagnostics st' = diagnostics st \<and>
       (\<exists>t. tokens (out st') = tokens (out st) @ [t] \<and> token_at (filename st) (src st) (pos st) (pos st') t))"

definition new_token :: "JZTokenType \<Rightarrow> string \<Rightarrow> JZLocation \<Rightarrow> JZToken" where
  "new_token ty txt loc = \<lparr>tok_type = ty, tok_loc = loc, lexeme = (if txt = [] then None else Some txt), tok_num = zero_num\<rparr>"

lemma emit_token_fields:
  "filename (emit_token ty txt loc st) = filename st" "line (emit_token ty txt loc st) = line st"
  "column (emit_token ty txt loc st) = column st" "diagnostics st \<noteq> None \<Longrightarrow> diagnostics (emit_token ty txt loc st) \<noteq> None"
  "diagnostics st \<noteq> None \<Longrightarrow> stop_lexing (emit_token ty txt loc st) \<Longrightarrow> stop_lexing st \<or> had_error (emit_token ty txt loc st)"
  by (auto simp: emit_token_def lexing_fails_def lexer_report_rule_def add_diagnostic_def Let_def split: option.split)

lemma emit_token_located [simp]: "located (emit_token ty txt loc st) = located st"
  by (simp add: located_def emit_token_fields)

lemma emit_token_result:
  assumes "\<not> had_error (emit_token ty txt loc st)" "diagnostics st \<noteq> None"
  shows "\<not> had_error st" "diagnostics (emit_token ty txt loc st) = diagnostics st"
    "tokens (out (emit_token ty txt loc st)) = tokens (out st) @ [new_token ty txt loc]"
  using assms
  by (auto simp: emit_token_def lexing_fails_def lexer_report_rule_def add_diagnostic_def new_token_def lexer_ensure_capacity_def Let_def
      split: option.splits if_splits)

lemma here_loc: "located st \<Longrightarrow> here st = loc_at (filename st) (src st) (pos st)"
  by (simp add: here_def loc_at_def located_def)

lemma emitsI:
  assumes "onward st st1" "located st" "diagnostics st \<noteq> None"
    and t: "token_at (filename st) (src st) (pos st) (pos st1) (new_token ty txt (here st))"
  shows "emits st (emit_token ty txt (here st) st1)"
proof -
  note o = onward_dest [OF assms(1)]
  have d: "diagnostics st1 \<noteq> None" using o(9) assms(3) by blast
  show ?thesis unfolding emits_def
    using o assms d t emit_token_fields(1,4) emit_token_fields(5) [of st1 ty "txt" "here st"] emit_token_result [of ty "txt" "here st" st1]
    by (auto intro!: exI [of _ "new_token ty txt (here st)"])
qed

lemma substr_nonempty: "a < b \<Longrightarrow> b \<le> length s \<Longrightarrow> substr s a b \<noteq> []"
  by (simp add: substr_def)

lemma plain_token_at:
  assumes "onward st st1" "located st" "pos st < pos st1" "ty \<notin> {JZ_TOK_EOF, JZ_TOK_STRING, JZ_TOK_SIZED_NUMBER}"
  shows "token_at (filename st) (src st) (pos st) (pos st1) (new_token ty (substr (src st) (pos st) (pos st1)) (here st))"
proof -
  have "pos st1 \<le> length (src st)" using onward_dest(1,5) [OF assms(1)] assms(2) by (simp add: located_def)
  then show ?thesis using assms here_loc substr_nonempty by (simp add: token_at_def new_token_def)
qed

lemma emit_text:
  assumes "onward st st1" "located st" "diagnostics st \<noteq> None" "pos st < pos st1"
    "ty \<notin> {JZ_TOK_EOF, JZ_TOK_STRING, JZ_TOK_SIZED_NUMBER}"
  shows "emits st (emit_token ty (substr (src st) (pos st) (pos st1)) (here st) st1)"
  using emitsI plain_token_at assms by blast

lemma report_numeric_error_emits:
  assumes "onward st st1" "located st" "diagnostics st \<noteq> None"
  shows "emits st (report_numeric_error err (here st) st1)"
proof -
  have "onward st1 (report_numeric_error err (here st) st1)"
    by (simp add: report_numeric_error_def onward_rule onward_parse_error split: JZNumericErrorCause.split)
  then have o: "onward st (report_numeric_error err (here st) st1)" using assms(1) onward_trans by blast
  have "had_error (report_numeric_error err (here st) st1)"
    using onward_dest(9) [OF assms(1) assms(3)]
    by (auto simp: report_numeric_error_def lexer_report_rule_def lexer_report_parse_error_def add_diagnostic_def Let_def
        split: JZNumericErrorCause.split)
  then show ?thesis using onward_dest [OF o] assms(2,3) by (auto simp: emits_def)
qed

lemma set_last_num_fields [simp]:
  "src (set_last_num info st) = src st" "pos (set_last_num info st) = pos st" "filename (set_last_num info st) = filename st"
  "line (set_last_num info st) = line st" "column (set_last_num info st) = column st"
  "had_error (set_last_num info st) = had_error st" "stop_lexing (set_last_num info st) = stop_lexing st" "diagnostics (set_last_num info st) = diagnostics st"
  by (simp_all add: set_last_num_def Let_def)

lemma finish_number_emits:
  assumes "onward st st1" "located st" "diagnostics st \<noteq> None" "pos st < pos st1"
  shows "emits st (finish_number (pos st) (here st) st1)"
proof (cases "parse_numeric_literal (substr (src st) (pos st) (pos st1))")
  case (Inl err)
  then show ?thesis
    using report_numeric_error_emits [OF assms(1-3)] onward_dest(1) [OF assms(1)] by (simp add: finish_number_def Let_def)
next
  case (Inr r)
  let ?txt = "substr (src st) (pos st) (pos st1)"
  note o = onward_dest [OF assms(1)]
  show ?thesis
  proof (cases r)
    case None
    then show ?thesis using emit_text [OF assms] Inr o(1) by (simp add: finish_number_def Let_def)
  next
    case (Some info)
    define st2 where "st2 = emit_token JZ_TOK_SIZED_NUMBER ?txt (here st) st1"
    have e: "finish_number (pos st) (here st) st1 = set_last_num info st2"
      using Some Inr o(1) by (simp add: finish_number_def Let_def st2_def)
    have d: "diagnostics st1 \<noteq> None" using o(9) assms(3) by blast
    define t where "t = (new_token JZ_TOK_SIZED_NUMBER ?txt (here st))\<lparr>tok_num := info\<rparr>"
    have "pos st1 \<le> length (src st)" using o(1,5) assms(2) by (simp add: located_def)
    then have "token_at (filename st) (src st) (pos st) (pos st1) t"
      using assms Inr Some here_loc substr_nonempty by (simp add: token_at_def new_token_def t_def)
    moreover have "tokens (out (set_last_num info st2)) = tokens (out st) @ [t]" if "\<not> had_error st2"
      using emit_token_result(3) [OF that [unfolded st2_def] d] o(3) by (simp add: set_last_num_def Let_def st2_def t_def)
    moreover have "\<not> had_error st \<and> diagnostics st2 = diagnostics st" if "\<not> had_error st2"
      using emit_token_result(1,2) [OF that [unfolded st2_def] d, folded st2_def] o(6,7) by auto
    moreover have "located st2" "src st2 = src st" "filename st2 = filename st" "diagnostics st2 \<noteq> None" "pos st2 = pos st1"
      using o(1,2,5) assms(2) emit_token_fields(1,4) d by (simp_all add: st2_def)
    moreover have "stop_lexing st2 \<longrightarrow> stop_lexing st \<or> had_error st2"
      using emit_token_fields(5) [OF d] o(8) by (auto simp: st2_def)
    ultimately show ?thesis unfolding e emits_def by (simp add: located_def)
  qed
qed

section \<open>The kinds of token\<close>

lemma peek0: "peek 0 st = (if at_end st then None else Some (cur_char st))"
  by (simp add: peek_def at_end_def cur_char_def)

lemma keyword_table_types:
  "list_all (\<lambda>(k, ty). case ty of JZ_TOK_DIRECTIVE _ \<Rightarrow> True | JZ_TOK_KEYWORD _ \<Rightarrow> True | _ \<Rightarrow> False) keyword_table"
  by (simp add: keyword_table_def)

lemma match_keyword_type:
  "match_keyword w = Some ty \<Longrightarrow> ty \<notin> {JZ_TOK_EOF, JZ_TOK_STRING, JZ_TOK_SIZED_NUMBER}"
  using keyword_table_types by (auto simp: match_keyword_def list_all_iff dest!: map_of_SomeD)

lemma lex_word_emits:
  assumes "located st" "diagnostics st \<noteq> None" "\<not> at_end st" "is_identifier_start (cur_char st) \<or> cur_char st = CHR ''@''"
  shows "emits st (lex_word st)"
proof -
  define st1 where "st1 = scan_while is_identifier_char (bump 1 st)"
  define st2 where "st2 = config_width (pos st) st1"
  define st3 where "st3 = scan_while is_literal_char (bump 1 st2)"
  have "cur_char st \<noteq> newline" using assms(4) by (auto simp: is_identifier_start_def isalpha_def)
  then have b: "onward st (bump 1 st)" using assms(3) onward_bump by blast
  have 1: "onward st st1" unfolding st1_def by (rule onward_trans [OF b onward_scan_while]) simp
  have p1: "pos st < pos st1" using scan_word(2) [of "bump 1 st"] by (simp add: st1_def)
  have 2: "onward st1 st2" unfolding st2_def by (rule onward_config_width) (use peek_bump [of st1 "CHR ''.''"] in simp)
  have p2: "pos st < pos st2" using onward_dest(4) [OF 2] p1 by simp
  have 3: "onward st st3" "pos st < pos st3" if "peek 0 st2 = Some quote"
  proof -
    have "onward st2 (bump 1 st2)" using that by (rule peek_bump) simp
    then have "onward st (bump 1 st2)" using onward_trans [OF onward_trans [OF 1 2]] by blast
    then show "onward st st3" unfolding st3_def by (rule onward_trans [OF _ onward_scan_while]) simp
    show "pos st < pos st3" using scan_word(4) [of "bump 1 st2"] p2 by (simp add: st3_def)
  qed
  define w where "w = substr (src st) (pos st) (pos st1)"
  define ty where "ty = (case match_keyword w of Some tt \<Rightarrow> tt | None \<Rightarrow> JZ_TOK_IDENTIFIER)"
  have ty: "ty \<notin> {JZ_TOK_EOF, JZ_TOK_STRING, JZ_TOK_SIZED_NUMBER}"
    using match_keyword_type [of w] by (simp add: ty_def split: option.split)
  have same: "peek 0 st2 \<noteq> Some quote \<Longrightarrow> st2 = st1"
    unfolding st2_def config_width_def Let_def by (auto split: if_splits)
  show ?thesis
  proof (cases "peek 0 st2 = Some quote")
    case True
    then show ?thesis
      unfolding lex_word_def Let_def st1_def [symmetric] st2_def [symmetric] st3_def [symmetric]
      using finish_number_emits [OF 3(1) assms(1,2) 3(2)] by simp
  next
    case False
    then show ?thesis
      unfolding lex_word_def Let_def st1_def [symmetric] st2_def [symmetric] st3_def [symmetric]
      using emit_text [OF 1 assms(1,2) p1 ty] same onward_dest(1) [OF 1] by (simp add: ty_def w_def)
  qed
qed

lemma lex_number_emits:
  assumes "located st" "diagnostics st \<noteq> None" "\<not> at_end st" "isdigit (cur_char st)"
  shows "emits st (lex_number st)"
proof -
  define st1 where "st1 = scan_while is_literal_char (bump 1 st)"
  define st2 where "st2 = scan_while isdigit (bump 1 st1)"
  have "cur_char st \<noteq> newline" using assms(4) by (auto simp: isdigit_def)
  then have b: "onward st (bump 1 st)" using assms(3) onward_bump by blast
  have 1: "onward st st1" unfolding st1_def by (rule onward_trans [OF b onward_scan_while]) simp
  have p1: "pos st < pos st1" using scan_word(4) [of "bump 1 st"] by (simp add: st1_def)
  have 2: "onward st st2" "pos st < pos st2" if "peek 0 st1 = Some (CHR ''.'')"
  proof -
    have "onward st (bump 1 st1)" using onward_trans [OF 1 peek_bump [OF that]] by simp
    then show "onward st st2" unfolding st2_def by (rule onward_trans [OF _ onward_scan_while]) simp
    show "pos st < pos st2" using scan_word(6) [of "bump 1 st1"] p1 by (simp add: st2_def)
  qed
  have "emits st (emit_token JZ_TOK_NUMBER (slice (pos st) (pos st2) st2) (here st) st2)" if "peek 0 st1 = Some (CHR ''.'')"
    using emit_text [OF 2(1) [OF that] assms(1,2) 2(2) [OF that]] onward_dest(1) [OF 2(1) [OF that]] by simp
  then show ?thesis
    unfolding lex_number_def Let_def st1_def [symmetric] st2_def [symmetric]
    using finish_number_emits [OF 1 assms(1,2) p1] by simp
qed

lemma onward_bump_n: "pos st + n \<le> length (src st) \<Longrightarrow> newline \<notin> set (substr (src st) (pos st) (pos st + n)) \<Longrightarrow> onward st (bump n st)"
proof (induction n)
  case 0
  have "bump 0 st = st" by (simp add: bump_def)
  then show ?case by simp
next
  case (Suc n)
  have t: "substr (src st) (pos st) (pos st + Suc n) = substr (src st) (pos st) (pos st + n) @ [src st ! (pos st + n)]"
    using substr_Suc [of "pos st" "pos st + n" "src st"] Suc.prems(1) by simp
  have "onward st (bump n st)" using Suc t by simp
  also have "onward (bump n st) (bump 1 (bump n st))"
    using Suc.prems t by (intro onward_bump) (auto simp: at_end_def cur_char_def)
  finally show ?case by (simp add: bump_def)
qed

lemma operator_token_shape:
  assumes "operator_token c p1 p2 p3 = Some (ty, w)"
  shows "ty \<notin> {JZ_TOK_EOF, JZ_TOK_STRING, JZ_TOK_SIZED_NUMBER}" "newline \<notin> set w"
    "w = [c] \<or> (\<exists>d. p1 = Some d \<and> w = [c, d]) \<or> (\<exists>d e. p1 = Some d \<and> p2 = Some e \<and> w = [c, d, e])"
  using assms by (auto simp: operator_token_def split: if_splits)

lemma lex_operator_emits:
  assumes "located st" "diagnostics st \<noteq> None" "\<not> at_end st" "cur_char st \<noteq> newline"
  shows "emits st (lex_operator st)"
proof (cases "operator_token (cur_char st) (peek 1 st) (peek 2 st) (peek 3 st)")
  case None
  define st1 where "st1 = bump 1 (lexer_report_parse_error (here st) ''ID_SYNTAX_INVALID'' st)"
  have "onward st st1" unfolding st1_def
    by (rule onward_trans [OF onward_parse_error onward_bump]) (use assms in \<open>auto simp: at_end_def cur_char_def\<close>)
  note o = onward_dest [OF this]
  have h: "had_error st1" by (simp add: st1_def lexer_report_parse_error_def add_diagnostic_def Let_def)
  have "had_error (emit_token JZ_TOK_OTHER [cur_char st] (here st) st1)"
    using emit_token_result(1) [of JZ_TOK_OTHER "[cur_char st]" "here st" st1] h o(9) assms(2) by blast
  moreover have "lex_operator st = emit_token JZ_TOK_OTHER [cur_char st] (here st) st1"
    using None by (simp add: lex_operator_def st1_def)
  moreover have "diagnostics (emit_token JZ_TOK_OTHER [cur_char st] (here st) st1) \<noteq> None"
    using emit_token_fields(4) o(9) assms(2) by blast
  ultimately show ?thesis using o(1,2,5) assms(1) emit_token_fields(1) by (simp add: emits_def)
next
  case (Some a)
  obtain ty w where a: "a = (ty, w)" by fastforce
  note s = operator_token_shape [OF Some [unfolded a]]
  have len: "pos st < length (src st)" using assms(3) by (simp add: at_end_def)
  have w: "pos st + length w \<le> length (src st) \<and> substr (src st) (pos st) (pos st + length w) = w"
    using s(3) len substr_Cons [of "pos st" _ "src st"] substr_Cons [of "Suc (pos st)" _ "src st"] substr_Cons [of "Suc (Suc (pos st))" _ "src st"]
    by (auto simp: peek_def cur_char_def split: if_splits)
  have "onward st (bump (length w) st)" using onward_bump_n w s(2) by simp
  moreover have "pos st < pos (bump (length w) st)" using s(3) by auto
  ultimately show ?thesis
    using emit_text [OF _ assms(1,2) _ s(1)] w Some a by (fastforce simp: lex_operator_def)
qed

lemma skip_string_text:
  assumes "pos st \<le> length (src st)"
  shows "dquote \<notin> set (substr (src st) (pos st) (pos (skip_string st)))"
  using assms
proof (induction st rule: skip_string.induct)
  case (1 st)
  show ?case
  proof (cases "\<not> at_end st \<and> cur_char st \<noteq> dquote")
    case True
    define st1 where "st1 = step_char st"
    have p: "pos st1 = Suc (pos st)" "src st1 = src st" by (simp_all add: st1_def step_char_def newline_step_def)
    have e: "skip_string st = skip_string st1" using True by (subst skip_string.simps) (simp add: st1_def)
    have "Suc (pos st) \<le> pos (skip_string st1)" using onward_dest(4) [OF onward_skip_string [of st1]] p by simp
    then show ?thesis
      using "1.IH" True p e substr_Cons [of "pos st" "pos (skip_string st1)" "src st"]
      by (auto simp: st1_def [symmetric] at_end_def cur_char_def)
  next
    case False
    then have "skip_string st = st" by (subst skip_string.simps) auto
    then show ?thesis by simp
  qed
qed

lemma skip_string_stops: "at_end (skip_string st) \<or> cur_char (skip_string st) = dquote"
proof (induction st rule: skip_string.induct)
  case (1 st)
  show ?case
  proof (cases "\<not> at_end st \<and> cur_char st \<noteq> dquote")
    case True
    then have "skip_string st = skip_string (step_char st)" by (subst skip_string.simps) simp
    then show ?thesis using "1.IH" True by simp
  next
    case False
    then have "skip_string st = st" by (subst skip_string.simps) auto
    then show ?thesis using False by auto
  qed
qed

text \<open>A string token, or a string that is not closed before the end of the source.\<close>

lemma lex_string_cases:
  assumes "located st" "diagnostics st \<noteq> None" "\<not> at_end st" "cur_char st = dquote"
  shows "emits st (lex_string st) \<or>
    (onward st (lex_string st) \<and> pos (lex_string st) = length (src st) \<and>
     (\<exists>r. substr (src st) (pos st) (length (src st)) = dquote # r \<and> dquote \<notin> set r))"
proof -
  define st1 where "st1 = skip_string (bump 1 st)"
  define r where "r = substr (src st) (pos st + 1) (pos st1)"
  have b: "onward st (bump 1 st)" using onward_bump assms(3,4) by simp
  have o: "onward st st1" unfolding st1_def by (rule onward_trans [OF b onward_skip_string])
  have len: "pos st < length (src st)" using assms(3) by (simp add: at_end_def)
  have p: "pos st + 1 \<le> pos st1" using onward_dest(4) [OF onward_skip_string [of "bump 1 st"]] by (simp add: st1_def)
  have q: "pos st1 \<le> length (src st)" using onward_dest(1,5) [OF o] assms(1) by (simp add: located_def)
  have r: "dquote \<notin> set r" using skip_string_text [of "bump 1 st"] len by (simp add: r_def st1_def)
  have t: "substr (src st) (pos st) (pos st1) = dquote # r"
    using substr_Cons [of "pos st" "pos st1" "src st"] p len assms(4) by (simp add: r_def cur_char_def)
  show ?thesis
  proof (cases "at_end st1")
    case True
    then have "lex_string st = st1" unfolding lex_string_def Let_def st1_def [symmetric] by simp
    moreover have "pos st1 = length (src st)" using True q onward_dest(1) [OF o] by (simp add: at_end_def)
    ultimately show ?thesis using o t r by auto
  next
    case False
    then have c: "cur_char st1 = dquote" using skip_string_stops [of "bump 1 st"] by (simp add: st1_def)
    have o2: "onward st (bump 1 st1)" using onward_trans [OF o onward_bump] False c by simp
    have "substr (src st) (pos st) (Suc (pos st1)) = dquote # r @ [dquote]"
      using substr_Suc [of "pos st" "pos st1" "src st"] t p False c onward_dest(1) [OF o] by (simp add: at_end_def cur_char_def)
    then have "token_at (filename st) (src st) (pos st) (pos (bump 1 st1)) (new_token JZ_TOK_STRING (decode_escapes r) (here st))"
      using r p False onward_dest(1) [OF o] here_loc [OF assms(1)] by (auto simp: token_at_def new_token_def at_end_def)
    from emitsI [OF o2 assms(1,2) this] show ?thesis
      unfolding lex_string_def Let_def st1_def [symmetric] using False onward_dest(1) [OF o] by (simp add: r_def)
  qed
qed

section \<open>The whole source\<close>

text \<open>What holds between two calls of \<open>lex_one_token\<close>, as long as no error was reported: the
  tokens so far tile the source up to the offset, or an unclosed string took the rest of it,
  or the stream is complete.\<close>

definition complete :: "string \<Rightarrow> string \<Rightarrow> JZToken list \<Rightarrow> bool" where
  "complete f s ts \<longleftrightarrow>
     (\<exists>us m. ts = us @ [new_token JZ_TOK_EOF [] (loc_at f s (length s))] \<and> tiled f s us m \<and> m \<le> length s \<and>
             final_gap (substr s m (length s)))"

definition between_tokens :: "string \<Rightarrow> string \<Rightarrow> JZToken list \<Rightarrow> nat \<Rightarrow> bool" where
  "between_tokens f s ts p \<longleftrightarrow>
     tiled f s ts p \<or> (\<exists>m. tiled f s ts m \<and> m \<le> p \<and> p = length s \<and> final_gap (substr s m p))"

definition pass_ok :: "string \<Rightarrow> string \<Rightarrow> Diagnostic list \<Rightarrow> LexerState \<Rightarrow> bool" where
  "pass_ok f s ds st \<longleftrightarrow>
     src st = s \<and> filename st = f \<and> located st \<and> diagnostics st \<noteq> None \<and> (stop_lexing st \<longrightarrow> had_error st) \<and>
     (\<not> had_error st \<longrightarrow> diagnostics st = Some ds \<and>
       (if ends_in_eof (out st) then complete f s (tokens (out st)) else between_tokens f s (tokens (out st)) (pos st)))"

lemma tiled_no_eof: "tiled f s ts m \<Longrightarrow> ts \<noteq> [] \<Longrightarrow> tok_type (last ts) \<noteq> JZ_TOK_EOF"
  by (induction rule: tiled.induct) (auto simp: token_at_def)

lemma emits_pass_ok:
  assumes "emits st st'" "src st = s" "filename st = f" "\<not> had_error st \<longrightarrow> diagnostics st = Some ds"
    "stop_lexing st \<longrightarrow> had_error st" "\<not> had_error st \<longrightarrow> tiled f s (tokens (out st)) m \<and> m \<le> pos st \<and> trivia (substr s m (pos st))"
  shows "pass_ok f s ds st'"
proof -
  have "tiled f s (tokens (out st')) (pos st') \<and> \<not> ends_in_eof (out st')" if ne: "\<not> had_error st'"
  proof -
    obtain t where t: "tokens (out st') = tokens (out st) @ [t]" "token_at f s (pos st) (pos st') t" "\<not> had_error st"
      using assms(1-3) ne by (auto simp: emits_def)
    then have "tiled f s (tokens (out st')) (pos st')" using tiled.token assms(6) by metis
    then show ?thesis using tiled_no_eof [of f s "tokens (out st')" "pos st'"] by (auto simp: ends_in_eof_def)
  qed
  then show ?thesis using assms(1-5) by (auto simp: pass_ok_def emits_def between_tokens_def)
qed

lemma final_gap_open: "trivia t \<Longrightarrow> dquote \<notin> set r \<Longrightarrow> final_gap (t @ dquote # r)"
  by (auto simp: final_gap_def)

text \<open>Before the next token: the offset after the trivia, still without a new token.\<close>

lemma trivia_between:
  assumes ok: "pass_ok f s ds st" "\<not> ends_in_eof (out st)" and t: "skip_trivia st = (True, st1)" and ne: "\<not> had_error st1"
  shows "(\<exists>m. tiled f s (tokens (out st1)) m \<and> m \<le> pos st1 \<and> trivia (substr s m (pos st1))) \<or>
    (pos st1 = length s \<and> (\<exists>m. tiled f s (tokens (out st1)) m \<and> m \<le> pos st1 \<and> final_gap (substr s m (length s))))"
proof -
  have on: "onward st st1" using onward_skip_trivia [of st] t by simp
  note o = onward_dest [OF on]
  have st: "src st = s" "located st" "\<not> had_error st" using ok o ne by (auto simp: pass_ok_def)
  have "trivia (substr s (pos st) (pos st1))" using skip_trivia_text [OF t st(2)] st(1) by simp
  moreover have "pos st1 \<le> length s" using o(1,5) st by (simp add: located_def)
  moreover have "between_tokens f s (tokens (out st1)) (pos st)" using ok st o(3) by (auto simp: pass_ok_def)
  ultimately show ?thesis using o(4) by (auto simp: between_tokens_def)
qed

lemma eof_pass_ok:
  assumes "src st = s" "filename st = f" "located st" "diagnostics st \<noteq> None" "\<not> had_error st \<longrightarrow> diagnostics st = Some ds"
    "stop_lexing st \<longrightarrow> had_error st" and "pos st = length s" and "\<not> had_error st \<longrightarrow> (\<exists>m \<le> length s. tiled f s (tokens (out st)) m \<and> final_gap (substr s m (length s)))"
  shows "pass_ok f s ds (emit_token JZ_TOK_EOF [] (here st) st)"
proof -
  let ?st' = "emit_token JZ_TOK_EOF [] (here st) st"
  have "complete f s (tokens (out ?st')) \<and> ends_in_eof (out ?st') \<and> diagnostics ?st' = Some ds" if ne: "\<not> had_error ?st'"
  proof -
    note e = emit_token_result [OF ne assms(4)]
    obtain m where "m \<le> length s" "tiled f s (tokens (out st)) m" "final_gap (substr s m (length s))" using assms(8) e(1) by blast
    then have "complete f s (tokens (out ?st'))" unfolding complete_def e(3)
      using here_loc [OF assms(3)] assms(1,2,7) by (intro exI [of _ "tokens (out st)"] exI [of _ m]) simp
    then show ?thesis using e assms(5) by (simp add: ends_in_eof_def new_token_def)
  qed
  then show ?thesis using assms(1-4,6) emit_token_result(1) [OF _ assms(4)] emit_token_fields(1) emit_token_fields(4,5) [OF assms(4)] by (auto simp: pass_ok_def)
qed

lemma skip_block_comment_fails: "fst (skip_block_comment loc st) \<or> had_error (snd (skip_block_comment loc st))"
proof (induction loc st rule: skip_block_comment.induct)
  case (1 loc st)
  have e: "had_error (lexer_report_parse_error loc c st')" for c st'
    by (simp add: lexer_report_parse_error_def add_diagnostic_def Let_def)
  show ?case
    using 1 e by (subst (1 2) skip_block_comment.simps) (auto simp: Let_def)
qed

lemma skip_blanks_stops: "at_end (skip_blanks st) \<or> cur_char (skip_blanks st) \<noteq> newline"
proof (induction st rule: skip_blanks.induct)
  case (1 st)
  show ?case
  proof (cases "\<not> at_end st \<and> cur_char st \<in> {CHR '' '', CHR 0x09, CHR 0x0D, newline}")
    case True
    then have "skip_blanks st = skip_blanks (if cur_char st = newline then newline_step st else bump 1 st)"
      by (subst skip_blanks.simps) auto
    then show ?thesis using "1.IH" True by auto
  next
    case False
    then have "skip_blanks st = st" by (subst skip_blanks.simps) auto
    then show ?thesis using False by auto
  qed
qed

text \<open>The early return is an error, and the regular one is not on a newline.\<close>

lemma skip_trivia_end:
  assumes "skip_trivia st = (go, st1)" "\<not> stop_lexing st"
  shows "if go then at_end st1 \<or> cur_char st1 \<noteq> newline else had_error st1"
  using assms
proof (induction st rule: skip_trivia.induct)
  case (1 st)
  define st0 where "st0 = skip_blanks st"
  have b: "stop_lexing st0 = stop_lexing st" using onward_dest(8) [OF onward_skip_blanks [of st]] by (simp add: st0_def)
  note r = "1.prems"(1) [unfolded skip_trivia.simps [of st] Let_def st0_def [symmetric]]
  consider (line) "peek 0 st0 = Some (CHR ''/'')" "peek 1 st0 = Some (CHR ''/'')"
    | (block) "peek 0 st0 = Some (CHR ''/'')" "peek 1 st0 = Some (CHR ''*'')"
    | (none) "\<not> (peek 0 st0 = Some (CHR ''/'') \<and> peek 1 st0 = Some (CHR ''/''))"
             "\<not> (peek 0 st0 = Some (CHR ''/'') \<and> peek 1 st0 = Some (CHR ''*''))" by blast
  then show ?case
  proof cases
    case line
    define st2 where "st2 = skip_line_comment (comment_start st0)"
    have "\<not> stop_lexing st2" using b "1.prems"(2) onward_dest(8) [OF onward_comment_start(1) [OF line]]
      onward_dest(8) [OF onward_skip_line_comment [of "comment_start st0"]] by (simp add: st2_def)
    then show ?thesis using "1.IH"(1) [OF st0_def _ st2_def] r line by (auto simp: st2_def [symmetric])
  next
    case block
    obtain ok st2 where k: "skip_block_comment (here st0) (comment_start st0) = (ok, st2)" by fastforce
    have "\<not> stop_lexing st2" using b "1.prems"(2) onward_dest(8) [OF onward_comment_start(1) [OF block]]
      onward_dest(8) [OF onward_skip_block_comment [of "comment_start st0" "here st0"]] k by simp
    moreover have "\<not> ok \<Longrightarrow> had_error st2" using skip_block_comment_fails [of "here st0" "comment_start st0"] k by simp
    ultimately show ?thesis using "1.IH"(2) [OF st0_def _ _ k [symmetric] refl] r block k by (auto split: if_splits)
  next
    case none
    then show ?thesis using r skip_blanks_stops [of st] by (auto simp: st0_def)
  qed
qed

lemma error_pass_ok:
  assumes "src st = s" "filename st = f" "located st" "diagnostics st \<noteq> None" "onward st st'" "had_error st'"
  shows "pass_ok f s ds st'"
  using onward_dest [OF assms(5)] assms by (auto simp: pass_ok_def)

lemma lex_at_char_pass_ok:
  assumes base: "src st = s" "filename st = f" "located st" "diagnostics st \<noteq> None" "\<not> had_error st \<longrightarrow> diagnostics st = Some ds"
    "stop_lexing st \<longrightarrow> had_error st" and m: "\<not> had_error st \<longrightarrow> tiled f s (tokens (out st)) m \<and> m \<le> pos st \<and> trivia (substr s m (pos st))"
    and c: "\<not> at_end st" "cur_char st \<noteq> newline"
  shows "pass_ok f s ds (lex_at_char st)"
proof -
  note next_ok = emits_pass_ok [OF _ base(1,2,5,6) m]
  have string: "pass_ok f s ds (lex_string st)" if q: "cur_char st = dquote"
    using lex_string_cases [OF base(3,4) c(1) q]
  proof (elim disjE conjE exE)
    assume "emits st (lex_string st)"
    then show ?thesis by (rule next_ok)
  next
    fix r assume o: "onward st (lex_string st)" and p: "pos (lex_string st) = length (src st)"
      and r: "substr (src st) (pos st) (length (src st)) = dquote # r" "dquote \<notin> set r"
    note o' = onward_dest [OF o]
    have "tiled f s (tokens (out st)) m \<and> m \<le> length s \<and> final_gap (substr s m (length s))" if "\<not> had_error st"
    proof -
      have "substr s m (length s) = substr s m (pos st) @ dquote # r"
        using substr_append [of m "pos st" "length s" s] m that base(1,3) r(1) by (simp add: located_def)
      then show ?thesis using final_gap_open m that r(2) base(1,3) by (simp add: located_def)
    qed
    moreover have "\<not> ends_in_eof (out st)" if "\<not> had_error st"
      using m that tiled_no_eof by (auto simp: ends_in_eof_def)
    ultimately show ?thesis
      using o' p base by (auto simp: pass_ok_def between_tokens_def)
  qed
  have quot: "pass_ok f s ds (bump 1 (lexer_report_rule (here st) ''LIT_UNSIZED'' st))"
  proof -
    let ?st' = "bump 1 (lexer_report_rule (here st) ''LIT_UNSIZED'' st)"
    have "onward st ?st'"
      by (rule onward_trans [OF onward_rule onward_bump]) (use c in \<open>auto simp: at_end_def cur_char_def\<close>)
    moreover have "had_error ?st'" using base(4) by (auto simp: lexer_report_rule_def add_diagnostic_def)
    ultimately show ?thesis by (rule error_pass_ok [OF base(1-4)])
  qed
  show ?thesis
    using string quot next_ok [OF lex_word_emits [OF base(3,4) c(1)]] next_ok [OF lex_number_emits [OF base(3,4) c(1)]]
      next_ok [OF lex_operator_emits [OF base(3,4) c]]
    by (simp add: lex_at_char_def Let_def)
qed

lemma lex_one_token_pass_ok:
  assumes ok: "pass_ok f s ds st" and "\<not> ends_in_eof (out st)" "\<not> stop_lexing st"
  shows "pass_ok f s ds (lex_one_token st)"
proof -
  obtain go st1 where t: "skip_trivia st = (go, st1)" by fastforce
  note o = onward_dest [OF onward_skip_trivia [of st], unfolded t snd_conv]
  note fin = skip_trivia_end [OF t assms(3)]
  have base: "src st1 = s" "filename st1 = f" "located st1" "diagnostics st1 \<noteq> None" "\<not> had_error st1 \<longrightarrow> diagnostics st1 = Some ds"
    "stop_lexing st1 \<longrightarrow> had_error st1"
    using ok o by (auto simp: pass_ok_def)
  show ?thesis
  proof (cases go)
    case False
    then show ?thesis using fin t assms(3) base by (simp add: lex_one_token_def pass_ok_def)
  next
    case True
    note tb = trivia_between [OF ok assms(2)]
    show ?thesis
    proof (cases "at_end st1")
      case over: True
      then have p: "pos st1 = length s" using base(1,3) by (simp add: at_end_def located_def)
      have "\<exists>m \<le> length s. tiled f s (tokens (out st1)) m \<and> final_gap (substr s m (length s))" if "\<not> had_error st1"
        using tb [of st1] t True that p by (auto simp: final_gap_def)
      then show ?thesis using eof_pass_ok [OF base p] over True t assms(3) by (simp add: lex_one_token_def)
    next
      case False
      then have "pos st1 < length s" using base(1) by (simp add: at_end_def)
      then obtain m where "\<not> had_error st1 \<longrightarrow> tiled f s (tokens (out st1)) m \<and> m \<le> pos st1 \<and> trivia (substr s m (pos st1))"
        using tb [of st1] t True by auto
      from lex_at_char_pass_ok [OF base this False] show ?thesis
        using fin False True t assms(3) by (simp add: lex_one_token_def)
    qed
  qed
qed

lemma lex_loop_pass_ok:
  assumes "pass_ok f s ds st" "\<not> ends_in_eof (out st)" "\<not> stop_lexing st"
  shows "pass_ok f s ds (lex_loop st) \<and> (stop_lexing (lex_loop st) \<or> ends_in_eof (out (lex_loop st)))"
  using assms
proof (induction st rule: lex_loop.induct)
  case (1 st)
  note ok = lex_one_token_pass_ok [OF "1.prems"]
  show ?case
  proof (cases "stop_lexing (lex_one_token st) \<or> ends_in_eof (out (lex_one_token st))")
    case True
    then have "lex_loop st = lex_one_token st" by (subst lex_loop.simps) (auto simp: Let_def)
    then show ?thesis using ok True by simp
  next
    case False
    then have "lex_loop st = lex_loop (lex_one_token st)" by (subst lex_loop.simps) (simp add: Let_def)
    then show ?thesis using "1.IH" [OF refl] ok False by simp
  qed
qed

lemma lexer_init_pass_ok: "pass_ok f s ds (lexer_init f s (Some ds))"
  by (auto simp: pass_ok_def lexer_init_def located_def location_def between_tokens_def ends_in_eof_def intro: tiled.start)

lemma lex_source_complete:
  assumes "jz_lex_source f s (Some ds) = (0, strm, d)"
  shows "complete f s (tokens strm)" "d = Some ds"
proof -
  define st where "st = lex_loop (lexer_init f s (Some ds))"
  have i: "\<not> ends_in_eof (out (lexer_init f s (Some ds)))" "\<not> stop_lexing (lexer_init f s (Some ds))"
    by (simp_all add: lexer_init_def ends_in_eof_def)
  note ok = lex_loop_pass_ok [OF lexer_init_pass_ok i, folded st_def]
  have ne: "\<not> had_error (finish_stream st)" and o: "strm = out (finish_stream st)" "d = diagnostics (finish_stream st)"
    using assms unfolding jz_lex_source_def Let_def st_def [symmetric] by (simp_all split: if_splits)
  have "ends_in_eof (out st)"
  proof (rule ccontr)
    assume a: "\<not> ends_in_eof (out st)"
    then have "had_error st" "diagnostics st \<noteq> None" using ok by (auto simp: pass_ok_def)
    then show False using ne emit_token_result(1) [of JZ_TOK_EOF "[]" "here st" st] by (simp add: finish_stream_def split: if_splits)
  qed
  then show "complete f s (tokens strm)" "d = Some ds" using ok ne o by (simp_all add: finish_stream_def pass_ok_def)
qed

end
