(* ===== verification/Lexer_Stream.thy ===== *)
theory Lexer_Stream
  imports Lexer_Tiles
begin

text \<open>
  The token stream as a bounded buffer: the limit on the number of tokens, the growth of the
  array, and how a pass can end, with and without a list for the diagnostics.
\<close>

definition stream_ok :: "JZTokenStream \<Rightarrow> bool" where
  "stream_ok s \<longleftrightarrow> length (tokens s) \<le> 2 ^ 20 \<and> length (tokens s) \<le> unat (capacity s) \<and> unat (capacity s) \<le> 2 ^ 21"

lemma unat_count: "n \<le> 2 ^ 20 \<Longrightarrow> unat (word_of_nat n :: usize) = n"
proof -
  assume "n \<le> 2 ^ 20"
  then have "n < 2 ^ 64" by simp
  then show ?thesis unfolding unat_of_nat by (intro mod_less) simp
qed

lemma ensure_capacity_grows:
  assumes "stream_ok s" "length (tokens s) < 2 ^ 20"
  shows "\<exists>c. lexer_ensure_capacity s = Some (s\<lparr>capacity := c\<rparr>) \<and> length (tokens s) < unat c \<and> unat c \<le> 2 ^ 21"
proof -
  let ?n = "length (tokens s)"
  have n: "unat (word_of_nat ?n :: usize) = ?n" using unat_count [of ?n] assms(2) by simp
  have n1: "unat (word_of_nat ?n + 1 :: usize) = ?n + 1" using unat_count [of "Suc ?n"] assms(2) by (subst add.commute) simp
  show ?thesis
  proof (cases "word_of_nat ?n = capacity s")
    case True
    define g where "g = (if capacity s \<noteq> 0 then capacity s else (128 :: usize))"
    have g0: "g \<noteq> 0" by (simp add: g_def)
    obtain r where r: "grow_loop (word_of_nat ?n + 1) g = Some r" "word_of_nat ?n + 1 \<le> r"
      "r = g \<or> r = word_of_nat ?n + 1 \<or> unat r < 2 * unat (word_of_nat ?n + 1 :: usize)"
      using grow_loop_result [OF g0, of "word_of_nat ?n + 1"] by blast
    have m: "word_of_nat ?n + 1 \<noteq> (0 :: usize)" using n1 by (metis Suc_eq_plus1 nat.distinct(1) unat_0)
    have g: "jz_size_grow_doubling_checked (capacity s) (word_of_nat ?n + 1) 128 = Some (Some r)"
      using r(1,2) m g0 by (simp add: jz_size_grow_doubling_checked_def Let_def g_def [symmetric])
    have b: "?n + 1 \<le> unat r" using r(2) n1 by (simp add: word_le_nat_alt)
    have u: "unat r \<le> 2 ^ 21"
      using r(3) n1 assms by (auto simp: stream_ok_def g_def split: if_splits)
    have "unat r * unat sizeof_JZToken < 2 ^ 64" using u by simp
    moreover from this have "unat (r * sizeof_JZToken) = unat r * unat sizeof_JZToken" by (intro iffD1 [OF unat_mult_lem]) simp
    ultimately have "jz_size_mul_checked r sizeof_JZToken = Some (r * sizeof_JZToken)" by (subst mul_checked_iff) blast
    then show ?thesis using True g b u by (auto simp: lexer_ensure_capacity_def)
  next
    case False
    then have "?n \<noteq> unat (capacity s)" using n by (metis word_unat_eq_iff)
    then show ?thesis using False assms by (auto simp: lexer_ensure_capacity_def stream_ok_def intro!: exI [of _ "capacity s"])
  qed
qed

text \<open>Emitting appends a token, or finds the stream full and stops.\<close>

lemma emit_token_room:
  fixes ty w loc
  assumes "stream_ok (out st)" "length (tokens (out st)) < 2 ^ 20"
  defines "st' \<equiv> emit_token ty w loc st"
  shows "stream_ok (out st')" "tokens (out st') = tokens (out st) @ [new_token ty w loc]"
    "stop_lexing st' = stop_lexing st" "had_error st' = had_error st" "diagnostics st' = diagnostics st"
proof -
  obtain c where c: "lexer_ensure_capacity (out st) = Some ((out st)\<lparr>capacity := c\<rparr>)"
    "length (tokens (out st)) < unat c" "unat c \<le> 2 ^ 21" using ensure_capacity_grows assms(1,2) by blast
  have "\<not> word_of_nat (length (tokens (out st))) \<ge> c" using c(2) assms(2) unat_count by (simp add: word_le_nat_alt)
  then show "stream_ok (out st')" "tokens (out st') = tokens (out st) @ [new_token ty w loc]"
    "stop_lexing st' = stop_lexing st" "had_error st' = had_error st" "diagnostics st' = diagnostics st"
    using assms(2) c by (simp_all add: st'_def emit_token_def new_token_def stream_ok_def Let_def)
qed

lemma emit_token_full:
  assumes "\<not> length (tokens (out st)) < 2 ^ 20"
  shows "emit_token ty w loc st = (lexer_report_rule loc ''SOURCE_TOKEN_LIMIT_EXCEEDED'' st)\<lparr>stop_lexing := True\<rparr>"
  using assms by (simp add: emit_token_def)

definition bounded :: "LexerState \<Rightarrow> bool" where
  "bounded st \<longleftrightarrow> stream_ok (out st) \<and> (stop_lexing st \<longrightarrow> length (tokens (out st)) = 2 ^ 20)"

lemma bounded_emit: "bounded st \<Longrightarrow> bounded (emit_token ty w loc st)"
  using emit_token_room [of st ty w loc] emit_token_full [of st ty w loc]
  by (cases "length (tokens (out st)) < 2 ^ 20") (auto simp: bounded_def stream_ok_def)

lemma bounded_onward: "onward st st' \<Longrightarrow> bounded st \<Longrightarrow> bounded st'"
  by (simp add: bounded_def onward_def)

lemma bounded_set_last_num [simp]: "bounded (set_last_num info st) = bounded st"
  by (simp add: bounded_def stream_ok_def set_last_num_def Let_def)

lemma bounded_bump [simp]: "bounded (bump n st) = bounded st"
  by (simp add: bounded_def)

lemma bounded_scan [simp]: "\<not> P newline \<Longrightarrow> bounded st \<Longrightarrow> bounded (scan_while P st)"
  using bounded_onward onward_scan_while by blast

lemma bounded_finish_number: "bounded st \<Longrightarrow> bounded (finish_number a loc st)"
  using bounded_emit bounded_onward [OF onward_rule] bounded_onward [OF onward_parse_error]
  by (simp add: finish_number_def report_numeric_error_def Let_def split: sum.split option.split JZNumericErrorCause.split)

lemma bounded_lex_at_char: "bounded st \<Longrightarrow> bounded (lex_at_char st)"
proof -
  assume b: "bounded st"
  have "bounded (config_width a st')" if "bounded st'" for a st'
    using that by (simp add: config_width_def Let_def)
  moreover have "bounded (skip_string (bump 1 st))" using b bounded_onward [OF onward_skip_string] by simp
  ultimately show ?thesis
    using b bounded_emit bounded_finish_number bounded_onward [OF onward_rule] bounded_onward [OF onward_parse_error]
    by (simp add: lex_at_char_def lex_string_def lex_word_def lex_number_def lex_operator_def Let_def split: option.split)
qed

lemma bounded_lex_one_token: "bounded st \<Longrightarrow> bounded (lex_one_token st)"
  using bounded_onward [OF onward_skip_trivia [of st]] bounded_emit bounded_lex_at_char
  by (auto simp: lex_one_token_def split: prod.split)

lemma bounded_lex_loop: "bounded st \<Longrightarrow> bounded (lex_loop st)"
proof (induction st rule: lex_loop.induct)
  case (1 st)
  then show ?case using bounded_lex_one_token by (subst lex_loop.simps) (auto simp: Let_def)
qed

lemma lex_loop_ends: "stop_lexing (lex_loop st) \<or> ends_in_eof (out (lex_loop st))"
proof (induction st rule: lex_loop.induct)
  case (1 st)
  show ?case
  proof (cases "stop_lexing (lex_one_token st) \<or> ends_in_eof (out (lex_one_token st))")
    case True
    then have "lex_loop st = lex_one_token st" by (subst lex_loop.simps) (auto simp: Let_def)
    then show ?thesis using True by simp
  next
    case False
    then have "lex_loop st = lex_loop (lex_one_token st)" by (subst lex_loop.simps) (simp add: Let_def)
    then show ?thesis using "1.IH" [OF refl] False by simp
  qed
qed

text \<open>The loop only ends at the end of the source or with a full stream, so the token that
  \<open>jz_lex_source\<close> appends after it is never needed.\<close>

lemma finish_stream_idle: "bounded (lex_loop st) \<Longrightarrow> bounded st \<Longrightarrow> finish_stream (lex_loop st) = lex_loop st"
  using lex_loop_ends [of st] by (auto simp: finish_stream_def bounded_def)

lemma bounded_init: "bounded (lexer_init f s d)"
  by (simp add: bounded_def stream_ok_def lexer_init_def)

lemma lex_source_loop:
  "jz_lex_source f s d = (let st = lex_loop (lexer_init f s d) in (if had_error st then -1 else 0, out st, diagnostics st))"
  using finish_stream_idle [OF bounded_lex_loop bounded_init] bounded_init by (simp add: jz_lex_source_def Let_def)

end
