(* ===== verification/Lexer_Roundtrip.thy ===== *)
theory Lexer_Roundtrip
  imports Lexer_Stream
begin

text \<open>
  Printing and lexing: a sequence of token spellings, each preceded by a blank, is read back
  as exactly that sequence.
\<close>

section \<open>Spellings\<close>

definition operator_table :: "(JZTokenType \<times> string) list" where
  "operator_table =
     [(JZ_TOK_LBRACE, ''{''), (JZ_TOK_RBRACE, ''}''), (JZ_TOK_LPAREN, ''(''), (JZ_TOK_RPAREN, '')''),
      (JZ_TOK_LBRACKET, ''[''), (JZ_TOK_RBRACKET, '']''), (JZ_TOK_SEMICOLON, '';''), (JZ_TOK_COMMA, '',''), (JZ_TOK_DOT, ''.''),
      (JZ_TOK_OP_ASSIGN, ''=''), (JZ_TOK_OP_ASSIGN_Z, ''=z''), (JZ_TOK_OP_ASSIGN_S, ''=s''), (JZ_TOK_OP_DRIVE, ''=>''),
      (JZ_TOK_OP_DRIVE_Z, ''=>z''), (JZ_TOK_OP_DRIVE_S, ''=>s''), (JZ_TOK_OP_LE_Z, ''<=z''), (JZ_TOK_OP_LE_S, ''<=s''),
      (JZ_TOK_OP_PLUS, ''+''), (JZ_TOK_OP_MINUS, ''-''), (JZ_TOK_OP_STAR, ''*''), (JZ_TOK_OP_SLASH, ''/''), (JZ_TOK_OP_PERCENT, ''%''),
      (JZ_TOK_OP_AMP, ''&''), (JZ_TOK_OP_PIPE, ''|''), (JZ_TOK_OP_CARET, ''^''), (JZ_TOK_OP_TILDE, ''~''), (JZ_TOK_OP_BANG, ''!''),
      (JZ_TOK_OP_AND_AND, ''&&''), (JZ_TOK_OP_OR_OR, ''||''), (JZ_TOK_OP_EQ, ''==''), (JZ_TOK_OP_NEQ, ''!=''), (JZ_TOK_OP_LT, ''<''),
      (JZ_TOK_OP_LE, ''<=''), (JZ_TOK_OP_GT, ''>''), (JZ_TOK_OP_GE, ''>=''), (JZ_TOK_OP_SHL, ''<<''), (JZ_TOK_OP_SHR, ''>>''),
      (JZ_TOK_OP_ASHR, ''>>>''), (JZ_TOK_OP_QUESTION, ''?''), (JZ_TOK_OP_COLON, '':''), (JZ_TOK_OTHER, ''#'')]"

definition word_spelling :: "JZTokenType \<Rightarrow> string \<Rightarrow> bool" where
  "word_spelling ty w \<longleftrightarrow>
     w \<noteq> [] \<and> (is_identifier_start (hd w) \<or> hd w = CHR ''@'') \<and> list_all is_identifier_char (tl w) \<and>
     ty = (case match_keyword w of Some k \<Rightarrow> k | None \<Rightarrow> JZ_TOK_IDENTIFIER)"

definition number_spelling :: "JZTokenType \<Rightarrow> string \<Rightarrow> bool" where
  "number_spelling ty w \<longleftrightarrow>
     w \<noteq> [] \<and> isdigit (hd w) \<and> list_all is_literal_char (tl w) \<and>
     (case parse_numeric_literal w of
        Inl e \<Rightarrow> False
      | Inr None \<Rightarrow> ty = JZ_TOK_NUMBER
      | Inr (Some info) \<Rightarrow> ty = JZ_TOK_SIZED_NUMBER)"

definition spelling :: "JZTokenType \<Rightarrow> string \<Rightarrow> bool" where
  "spelling ty w \<longleftrightarrow> word_spelling ty w \<or> number_spelling ty w \<or> (ty, w) \<in> set operator_table"

fun spaced :: "(JZTokenType \<times> string) list \<Rightarrow> string" where
  "spaced [] = []"
| "spaced ((ty, w) # ts) = CHR '' '' # w @ spaced ts"

definition blank_next :: "string \<Rightarrow> bool" where
  "blank_next r \<longleftrightarrow> r = [] \<or> hd r = CHR '' ''"

lemma blank_next_spaced [simp]: "blank_next (spaced ts)"
  by (cases ts rule: spaced.cases) (simp_all add: blank_next_def)

section \<open>Scanning as splitting the rest of the source\<close>

definition rest :: "LexerState \<Rightarrow> string" where
  "rest st = drop (pos st) (src st)"

lemma rest_bump [simp]: "rest (bump n st) = drop n (rest st)"
  by (simp add: rest_def add.commute)

lemma at_end_rest: "at_end st \<longleftrightarrow> rest st = []"
  by (simp add: at_end_def rest_def)

lemma cur_char_rest: "rest st \<noteq> [] \<Longrightarrow> cur_char st = hd (rest st)"
  by (simp add: cur_char_def rest_def hd_drop_conv_nth)

lemma peek_rest: "peek k st = (if k < length (rest st) then Some (rest st ! k) else None)"
  by (auto simp: peek_def rest_def)

lemma slice_rest: "slice (pos st) (pos st + n) st = take n (rest st)"
  by (simp add: substr_def rest_def)

lemma scan_while_rest: "scan_while P st = bump (length (takeWhile P (rest st))) st"
proof (induction P st rule: scan_while.induct)
  case (1 P st)
  show ?case
  proof (cases "\<not> at_end st \<and> P (cur_char st)")
    case True
    then obtain c cs where r: "rest st = c # cs" "P c" using cur_char_rest by (auto simp: at_end_rest neq_Nil_conv)
    have "scan_while P st = scan_while P (bump 1 st)" using True by (subst scan_while.simps) simp
    also have "\<dots> = bump (length (takeWhile P cs)) (bump 1 st)" using "1.IH" True r by simp
    finally show ?thesis using r by (simp add: bump_def)
  next
    case False
    then have "takeWhile P (rest st) = []" using cur_char_rest by (cases "rest st") (auto simp: at_end_rest)
    moreover have "scan_while P st = st" using False by (subst scan_while.simps) auto
    ultimately show ?thesis by (simp add: bump_def)
  qed
qed

lemma scan_while_word:
  assumes "rest st = w @ r" "list_all P w" "blank_next r" "\<not> P (CHR '' '')"
  shows "scan_while P st = bump (length w) st"
proof -
  have "takeWhile P r = []" using assms(3,4) by (cases r) (auto simp: blank_next_def)
  then have "takeWhile P (rest st) = w" using assms(1,2) by (simp add: list_all_iff takeWhile_append2)
  then show ?thesis by (simp add: scan_while_rest)
qed

lemma no_blank [simp]: "\<not> is_identifier_char (CHR '' '')" "\<not> is_literal_char (CHR '' '')" "\<not> isdigit (CHR '' '')"
  by (simp_all add: is_identifier_char_def is_literal_char_def isalnum_def isalpha_def isdigit_def)

lemma peek_blank:
  assumes "rest st = r" "blank_next r" "c \<noteq> CHR '' ''"
  shows "peek 0 st \<noteq> Some c"
  using assms by (cases r) (auto simp: peek_rest blank_next_def)

text \<open>A single blank before a token that is not a comment.\<close>

lemma skip_blanks_idle: "at_end st \<or> cur_char st \<notin> {CHR '' '', CHR 0x09, CHR 0x0D, newline} \<Longrightarrow> skip_blanks st = st"
  by (subst skip_blanks.simps) auto

lemma skip_one_blank:
  assumes "rest st = CHR '' '' # c # cs" "c \<notin> {CHR '' '', CHR 0x09, CHR 0x0D, newline}"
    "\<not> (c = CHR ''/'' \<and> (\<exists>d ds. cs = d # ds \<and> (d = CHR ''/'' \<or> d = CHR ''*'')))"
  shows "skip_trivia st = (True, bump 1 st)"
proof -
  have r: "rest (bump 1 st) = c # cs" using assms(1) by simp
  have "cur_char (bump 1 st) = c" using cur_char_rest [of "bump 1 st", unfolded r] by simp
  then have "skip_blanks (bump 1 st) = bump 1 st" using assms(2) by (intro skip_blanks_idle) simp
  moreover have "skip_blanks st = skip_blanks (bump 1 st)"
    using assms(1) cur_char_rest [of st] at_end_rest [of st] by (subst skip_blanks.simps) simp
  ultimately have b: "skip_blanks st = bump 1 st" by simp
  have "\<not> (peek 0 (bump 1 st) = Some (CHR ''/'') \<and> (peek 1 (bump 1 st) = Some (CHR ''/'') \<or> peek 1 (bump 1 st) = Some (CHR ''*'')))"
    using assms(3) r by (cases cs) (auto simp: peek_rest)
  then show ?thesis by (subst skip_trivia.simps) (auto simp: b Let_def)
qed

lemma skip_to_end: "rest st = [] \<Longrightarrow> skip_trivia st = (True, st)"
  using skip_blanks_idle [of st] by (subst skip_trivia.simps) (simp add: at_end_rest peek_rest Let_def)

section \<open>One token\<close>

text \<open>A step that reads the token \<open>w\<close> of type \<open>ty\<close> and reports nothing.\<close>

definition reads :: "JZTokenType \<Rightarrow> string \<Rightarrow> nat \<Rightarrow> LexerState \<Rightarrow> LexerState \<Rightarrow> bool" where
  "reads ty w n st st' \<longleftrightarrow>
     src st' = src st \<and> pos st' = pos st + n \<and> stream_ok (out st') \<and> stop_lexing st' = stop_lexing st \<and>
     had_error st' = had_error st \<and> diagnostics st' = diagnostics st \<and>
     (\<exists>t. tokens (out st') = tokens (out st) @ [t] \<and> tok_type t = ty \<and> lexeme t = (if w = [] then None else Some w))"

lemma reads_emit:
  assumes "stream_ok (out st)" "length (tokens (out st)) < 2 ^ 20"
  shows "reads ty w n st (emit_token ty w loc (bump n st))"
  using emit_token_room [of "bump n st" ty w loc] assms by (simp add: reads_def new_token_def)

lemma word_reads:
  assumes "word_spelling ty w" "rest st = w @ r" "blank_next r" "stream_ok (out st)" "length (tokens (out st)) < 2 ^ 20"
  shows "reads ty w (length w) st (lex_word st)"
proof -
  obtain c cs where w: "w = c # cs" using assms(1) by (cases w) (auto simp: word_spelling_def)
  have cs: "list_all is_identifier_char cs" using assms(1) w by (simp add: word_spelling_def)
  have r1: "rest (bump 1 st) = cs @ r" using assms(2) w by simp
  have st1: "scan_while is_identifier_char (bump 1 st) = bump (length w) st"
    using scan_while_word [OF r1 cs assms(3)] w by (simp add: bump_def)
  have r2: "rest (bump (length w) st) = r" using assms(2) by simp
  have c: "config_width a (bump (length w) st) = bump (length w) st" for a
    using peek_blank [OF r2 assms(3), of "CHR ''.''"] by (simp add: config_width_def)
  have q: "peek 0 (bump (length w) st) \<noteq> Some quote" using peek_blank [OF r2 assms(3)] by simp
  have t: "slice (pos st) (pos (bump (length w) st)) (bump (length w) st) = w"
    using slice_rest [of st "length w"] assms(2) by simp
  have "ty = (case match_keyword w of Some k \<Rightarrow> k | None \<Rightarrow> JZ_TOK_IDENTIFIER)" using assms(1) by (simp add: word_spelling_def)
  then have "lex_word st = emit_token ty w (here st) (bump (length w) st)"
    unfolding lex_word_def Let_def st1 c t using q by simp
  then show ?thesis using reads_emit assms(4,5) by simp
qed

lemma reads_set_last_num: "reads ty w n st st' \<Longrightarrow> reads ty w n st (set_last_num info st')"
  by (auto simp: reads_def set_last_num_def Let_def stream_ok_def)

lemma number_reads:
  assumes "number_spelling ty w" "rest st = w @ r" "blank_next r" "stream_ok (out st)" "length (tokens (out st)) < 2 ^ 20"
  shows "reads ty w (length w) st (lex_number st)"
proof -
  obtain c cs where w: "w = c # cs" using assms(1) by (cases w) (auto simp: number_spelling_def)
  have cs: "list_all is_literal_char cs" using assms(1) w by (simp add: number_spelling_def)
  have r1: "rest (bump 1 st) = cs @ r" using assms(2) w by simp
  have st1: "scan_while is_literal_char (bump 1 st) = bump (length w) st"
    using scan_while_word [OF r1 cs assms(3)] w by (simp add: bump_def)
  have r2: "rest (bump (length w) st) = r" using assms(2) by simp
  have q: "peek 0 (bump (length w) st) \<noteq> Some (CHR ''.'')" using peek_blank [OF r2 assms(3)] by simp
  have t: "slice (pos st) (pos (bump (length w) st)) (bump (length w) st) = w"
    using slice_rest [of st "length w"] assms(2) by simp
  have "lex_number st = finish_number (pos st) (here st) (bump (length w) st)"
    unfolding lex_number_def Let_def st1 using q by simp
  also have "reads ty w (length w) st \<dots>"
    unfolding finish_number_def t Let_def
    using assms(1) reads_emit [OF assms(4,5)] reads_set_last_num [OF reads_emit [OF assms(4,5)]]
    by (auto simp: number_spelling_def split: sum.splits option.splits)
  finally show ?thesis .
qed

lemma operator_table_tokens:
  "list_all (\<lambda>(ty, w).
     case w of
       [a] \<Rightarrow> (\<forall>p2 p3. operator_token a None p2 p3 = Some (ty, w) \<and> operator_token a (Some (CHR '' '')) p2 p3 = Some (ty, w))
     | [a, b] \<Rightarrow> (\<forall>p3. operator_token a (Some b) None p3 = Some (ty, w) \<and> operator_token a (Some b) (Some (CHR '' '')) p3 = Some (ty, w))
     | [a, b, c] \<Rightarrow> operator_token a (Some b) (Some c) None = Some (ty, w) \<and> operator_token a (Some b) (Some c) (Some (CHR '' '')) = Some (ty, w)
     | _ \<Rightarrow> False) operator_table"
  by (simp add: operator_table_def operator_token_def peek_is_def)

lemma operator_table_heads:
  "list_all (\<lambda>(ty, w). hd w \<notin> {dquote, quote, CHR ''@'', CHR '' '', CHR 0x09, CHR 0x0D, newline} \<and>
     \<not> is_identifier_start (hd w) \<and> \<not> isdigit (hd w) \<and> (hd w = CHR ''/'' \<longrightarrow> w = ''/'')) operator_table"
  by (simp add: operator_table_def is_identifier_start_def isalpha_def isdigit_def)

lemma operator_reads:
  assumes "(ty, w) \<in> set operator_table" "rest st = w @ r" "blank_next r" "stream_ok (out st)" "length (tokens (out st)) < 2 ^ 20"
  shows "reads ty w (length w) st (lex_operator st)"
proof -
  have "operator_token (cur_char st) (peek 1 st) (peek 2 st) (peek 3 st) = Some (ty, w)"
    using bspec [OF operator_table_tokens [unfolded list_all_iff] assms(1)] assms(2,3) cur_char_rest [of st]
    by (cases r) (auto simp: peek_rest blank_next_def split: list.splits)
  then show ?thesis using reads_emit assms(4,5) by (simp add: lex_operator_def)
qed

lemma spelling_head:
  assumes "spelling ty w"
  shows "w \<noteq> []" "hd w \<notin> {CHR '' '', CHR 0x09, CHR 0x0D, newline}" "hd w = CHR ''/'' \<Longrightarrow> w = ''/''"
  using assms operator_table_tokens operator_table_heads
  by (auto simp: spelling_def word_spelling_def number_spelling_def list_all_iff is_identifier_start_def isalpha_def isdigit_def
      split: list.splits)

lemma spelling_type: "spelling ty w \<Longrightarrow> ty \<noteq> JZ_TOK_EOF"
  using match_keyword_type [of w]
  by (auto simp: spelling_def word_spelling_def number_spelling_def operator_table_def split: option.splits sum.splits)

lemma lex_at_char_reads:
  assumes "spelling ty w" "rest st = w @ r" "blank_next r" "stream_ok (out st)" "length (tokens (out st)) < 2 ^ 20"
  shows "reads ty w (length w) st (lex_at_char st)"
proof -
  have c: "cur_char st = hd w" using spelling_head(1) [OF assms(1)] assms(2) cur_char_rest [of st] by simp
  consider "word_spelling ty w" | "number_spelling ty w" | "(ty, w) \<in> set operator_table" using assms(1) by (auto simp: spelling_def)
  then show ?thesis
  proof cases
    case 1
    then have "lex_at_char st = lex_word st"
      by (auto simp: lex_at_char_def c word_spelling_def is_identifier_start_def isalpha_def Let_def)
    then show ?thesis using word_reads [OF 1 assms(2-5)] by simp
  next
    case 2
    then have "lex_at_char st = lex_number st"
      by (auto simp: lex_at_char_def c number_spelling_def is_identifier_start_def isalpha_def isdigit_def Let_def)
    then show ?thesis using number_reads [OF 2 assms(2-5)] by simp
  next
    case 3
    then have "lex_at_char st = lex_operator st"
      using operator_table_heads by (auto simp: lex_at_char_def c list_all_iff Let_def)
    then show ?thesis using operator_reads [OF 3 assms(2-5)] by simp
  qed
qed

lemma reads_bump: "reads ty w n (bump 1 st) st' \<Longrightarrow> reads ty w (Suc n) st st'"
  by (simp add: reads_def)

lemma lex_one_token_reads:
  assumes "spelling ty w" "rest st = CHR '' '' # w @ r" "blank_next r" "stream_ok (out st)" "length (tokens (out st)) < 2 ^ 20"
    "\<not> stop_lexing st"
  shows "reads ty w (Suc (length w)) st (lex_one_token st)"
proof -
  obtain c cs where w: "w = c # cs" using spelling_head(1) [OF assms(1)] by (cases w) auto
  have "skip_trivia st = (True, bump 1 st)"
  proof (rule skip_one_blank)
    show "rest st = CHR '' '' # c # cs @ r" using assms(2) w by simp
    show "c \<notin> {CHR '' '', CHR 0x09, CHR 0x0D, newline}" using spelling_head(2) [OF assms(1)] w by simp
    show "\<not> (c = CHR ''/'' \<and> (\<exists>d ds. cs @ r = d # ds \<and> (d = CHR ''/'' \<or> d = CHR ''*'')))"
      using spelling_head(3) [OF assms(1)] w assms(3) by (auto simp: blank_next_def)
  qed
  moreover have "\<not> at_end (bump 1 st)" using assms(2) w by (simp add: at_end_rest)
  ultimately have "lex_one_token st = lex_at_char (bump 1 st)" using assms(6) by (simp add: lex_one_token_def)
  moreover have "reads ty w (length w) (bump 1 st) (lex_at_char (bump 1 st))"
    using assms by (intro lex_at_char_reads [of _ _ _ r]) simp_all
  ultimately show ?thesis using reads_bump by simp
qed

section \<open>The whole text\<close>

lemma lex_loop_spaced:
  assumes "rest st = spaced ts" "list_all (\<lambda>(ty, w). spelling ty w) ts" "stream_ok (out st)"
    "length (tokens (out st)) + length ts < 2 ^ 20" "\<not> stop_lexing st" "pos st \<le> length (src st)"
  shows "had_error (lex_loop st) = had_error st \<and> diagnostics (lex_loop st) = diagnostics st \<and>
    map (\<lambda>t. (tok_type t, lexeme t)) (tokens (out (lex_loop st))) =
      map (\<lambda>t. (tok_type t, lexeme t)) (tokens (out st)) @ map (\<lambda>(ty, w). (ty, Some w)) ts @ [(JZ_TOK_EOF, None)]"
  using assms
proof (induction ts arbitrary: st)
  case Nil
  let ?st' = "emit_token JZ_TOK_EOF [] (here st) st"
  have e: "lex_one_token st = ?st'" using skip_to_end [of st] Nil by (simp add: lex_one_token_def at_end_rest)
  note r = emit_token_room [of st JZ_TOK_EOF "[]" "here st", OF Nil(3)]
  have "lex_loop st = ?st'" using r Nil e by (subst lex_loop.simps) (simp add: ends_in_eof_def new_token_def)
  then show ?case using r Nil by (simp add: new_token_def)
next
  case (Cons a ts)
  obtain ty w where a: "a = (ty, w)" by fastforce
  have s: "spelling ty w" "rest st = CHR '' '' # w @ spaced ts" using Cons.prems a by simp_all
  define st1 where "st1 = lex_one_token st"
  have rd: "reads ty w (Suc (length w)) st st1"
    using lex_one_token_reads [OF s] Cons.prems by (simp add: st1_def)
  then obtain t where t: "tokens (out st1) = tokens (out st) @ [t]" "tok_type t = ty" "lexeme t = Some w"
    using spelling_head(1) [OF s(1)] by (auto simp: reads_def)
  have ty: "ty \<noteq> JZ_TOK_EOF" using spelling_type [OF s(1)] .
  have l: "lex_loop st = lex_loop st1"
    using t rd Cons.prems ty by (subst lex_loop.simps) (simp add: st1_def [symmetric] Let_def ends_in_eof_def reads_def)
  have "rest st1 = drop (Suc (length w)) (rest st)" using rd by (simp add: reads_def rest_def add.commute)
  then have "rest st1 = spaced ts" using s(2) by simp
  moreover have "pos st1 \<le> length (src st1)"
    using rd Cons.prems(6) arg_cong [OF s(2), of length] by (simp add: reads_def rest_def)
  ultimately show ?case using Cons.IH [of st1] Cons.prems rd t a l by (simp add: reads_def)
qed

lemma lex_source_spaced:
  assumes "list_all (\<lambda>(ty, w). spelling ty w) ts" "length ts < 2 ^ 20"
  shows "\<exists>strm. jz_lex_source f (spaced ts) d = (0, strm, d) \<and>
    map (\<lambda>t. (tok_type t, lexeme t)) (tokens strm) = map (\<lambda>(ty, w). (ty, Some w)) ts @ [(JZ_TOK_EOF, None)]"
proof -
  let ?st = "lexer_init f (spaced ts) d"
  have i: "rest ?st = spaced ts" "out ?st = \<lparr>tokens = [], capacity = 0\<rparr>" "\<not> stop_lexing ?st" "pos ?st \<le> length (src ?st)"
    "\<not> had_error ?st" "diagnostics ?st = d"
    by (simp_all add: lexer_init_def rest_def)
  have "stream_ok (out ?st)" using bounded_init [of f "spaced ts" d] by (simp add: bounded_def)
  from lex_loop_spaced [OF i(1) assms(1) this _ i(3,4)] i(2,5,6) assms(2) show ?thesis
    unfolding lex_source_loop Let_def by simp
qed

end
