(* ===== verification/Div_Guard.thy ===== *)
theory Div_Guard
  imports Sim_IR Util_Limits
begin

text \<open>
  The division guard pass, src/ir/ir_div_guard.c: it walks every statement of a module with a
  stack of the facts "signal \<open>i\<close> is not zero" that the enclosing IF branches prove, and reports
  each division whose divisor is neither a literal nor a signal on that stack. The file-level
  counters, the guard stack and the diagnostics form one state record; a diagnostic is the rule
  it names (locations are not part of the modelled IR).
\<close>

section \<open>State\<close>

datatype DivDiagnostic = DIV_UNGUARDED_RUNTIME_ZERO | IR_DIV_GUARD_DEPTH_LIMIT_EXCEEDED

record GuardEntry =
  ge_signal_id :: int
  ge_is_nonzero :: bool

definition MAX_GUARD_DEPTH :: nat where
  "MAX_GUARD_DEPTH = 64"

text \<open>The used part \<open>entries[0 .. count)\<close> of the stack, the innermost fact last.\<close>

type_synonym GuardStack = "GuardEntry list"

datatype NormCmpOp = CMP_EQ | CMP_NEQ | CMP_GT | CMP_GTE | CMP_LT | CMP_LTE

record DivGuardState =
  s_div_guard_depth :: u32
  s_div_guard_depth_reported :: bool
  guards :: GuardStack
  diagnostics :: "DivDiagnostic list"

definition report_div_guard_depth :: "DivGuardState \<Rightarrow> DivGuardState" where
  "report_div_guard_depth st =
     (if s_div_guard_depth_reported st then st
      else st\<lparr>s_div_guard_depth_reported := True,
              diagnostics := diagnostics st @ [IR_DIV_GUARD_DEPTH_LIMIT_EXCEEDED]\<rparr>)"

definition report_unguarded_div :: "DivGuardState \<Rightarrow> DivGuardState" where
  "report_unguarded_div st = st\<lparr>diagnostics := diagnostics st @ [DIV_UNGUARDED_RUNTIME_ZERO]\<rparr>"

definition guard_push :: "GuardStack \<Rightarrow> int \<Rightarrow> bool \<Rightarrow> GuardStack" where
  "guard_push gs sid nz =
     (if length gs < MAX_GUARD_DEPTH then gs @ [\<lparr>ge_signal_id = sid, ge_is_nonzero = nz\<rparr>] else gs)"

definition guard_pop :: "GuardStack \<Rightarrow> GuardStack" where
  "guard_pop gs = butlast gs"

definition guard_is_nonzero :: "GuardStack \<Rightarrow> int \<Rightarrow> bool" where
  "guard_is_nonzero gs sid = list_ex (\<lambda>e. ge_signal_id e = sid \<and> ge_is_nonzero e) (rev gs)"

section \<open>Expression helpers\<close>

definition IR_LIT_WORDS :: nat where
  "IR_LIT_WORDS = 4"

definition lit_words_zero :: "IR_Literal \<Rightarrow> bool" where
  "lit_words_zero l = list_all (\<lambda>i. lit_words l ! i = 0) [0..<IR_LIT_WORDS]"

fun expr_is_zero_literal :: "IR_Expr \<Rightarrow> bool" where
  "expr_is_zero_literal (EXPR_LITERAL _ l) = (\<not> lit_is_z l \<and> lit_words_zero l)"
| "expr_is_zero_literal _ = False"

fun expr_is_nonzero_literal :: "IR_Expr \<Rightarrow> bool" where
  "expr_is_nonzero_literal (EXPR_LITERAL _ l) = (\<not> lit_is_z l \<and> \<not> lit_words_zero l)"
| "expr_is_nonzero_literal _ = False"

fun expr_signal_id :: "IR_Expr \<Rightarrow> int" where
  "expr_signal_id (EXPR_SIGNAL_REF _ i) = i"
| "expr_signal_id _ = -1"

text \<open>The first word only; the casts to \<open>int64_t\<close> and back leave it as it is.\<close>

fun expr_literal_value :: "IR_Expr \<Rightarrow> u64 option" where
  "expr_literal_value (EXPR_LITERAL _ l) = (if lit_is_z l then None else Some (lit_words l ! 0))"
| "expr_literal_value _ = None"

section \<open>Guard conditions\<close>

fun flip_cmp :: "NormCmpOp \<Rightarrow> NormCmpOp" where
  "flip_cmp CMP_EQ = CMP_EQ"
| "flip_cmp CMP_NEQ = CMP_NEQ"
| "flip_cmp CMP_GT = CMP_LT"
| "flip_cmp CMP_GTE = CMP_LTE"
| "flip_cmp CMP_LT = CMP_GT"
| "flip_cmp CMP_LTE = CMP_GTE"

fun comparison_op :: "IR_BinaryKind \<Rightarrow> NormCmpOp option" where
  "comparison_op EXPR_BINARY_EQ = Some CMP_EQ"
| "comparison_op EXPR_BINARY_NEQ = Some CMP_NEQ"
| "comparison_op EXPR_BINARY_GT = Some CMP_GT"
| "comparison_op EXPR_BINARY_GTE = Some CMP_GTE"
| "comparison_op EXPR_BINARY_LT = Some CMP_LT"
| "comparison_op EXPR_BINARY_LTE = Some CMP_LTE"
| "comparison_op _ = None"

definition signal_and_literal :: "IR_Expr \<Rightarrow> IR_Expr \<Rightarrow> (int \<times> u64) option" where
  "signal_and_literal s l =
     (if expr_signal_id s \<ge> 0 then map_option (\<lambda>v. (expr_signal_id s, v)) (expr_literal_value l) else None)"

fun normalize_cmp :: "IR_Expr \<Rightarrow> (int \<times> NormCmpOp \<times> u64) option" where
  "normalize_cmp (EXPR_BINARY k _ l r) =
     (case comparison_op k of
        None \<Rightarrow> None
      | Some op \<Rightarrow>
          (case signal_and_literal l r of
             Some (sid, v) \<Rightarrow> Some (sid, op, v)
           | None \<Rightarrow> map_option (\<lambda>(sid, v). (sid, flip_cmp op, v)) (signal_and_literal r l)))"
| "normalize_cmp _ = None"

text \<open>What the THEN and the ELSE branch of \<open>signal op v\<close> prove about the signal being nonzero.\<close>

fun branch_proofs :: "NormCmpOp \<Rightarrow> u64 \<Rightarrow> bool \<times> bool" where
  "branch_proofs CMP_NEQ v = (if v = 0 then (True, False) else (False, True))"
| "branch_proofs CMP_EQ v = (if v \<noteq> 0 then (True, False) else (False, True))"
| "branch_proofs CMP_GT v = (True, False)"
| "branch_proofs CMP_GTE v = (v \<ge> 1, False)"
| "branch_proofs CMP_LT v = (False, v \<ge> 1)"
| "branch_proofs CMP_LTE v = (False, True)"

definition extract_nonzero_guard :: "IR_Expr \<Rightarrow> (int \<times> bool \<times> bool) option" where
  "extract_nonzero_guard cond =
     (case normalize_cmp cond of
        None \<Rightarrow> None
      | Some (sid, op, v) \<Rightarrow>
          let (then_nonzero, else_nonzero) = branch_proofs op v
          in if then_nonzero \<or> else_nonzero then Some (sid, then_nonzero, else_nonzero) else None)"

section \<open>The expression walker\<close>

definition check_divisor :: "IR_Expr \<Rightarrow> DivGuardState \<Rightarrow> DivGuardState" where
  "check_divisor divisor st =
     (if divisor = EXPR_NULL \<or> expr_is_nonzero_literal divisor \<or> expr_is_zero_literal divisor then st
      else let sid = expr_signal_id divisor
           in if sid < 0 \<or> \<not> guard_is_nonzero (guards st) sid then report_unguarded_div st else st)"

text \<open>Every recursive call goes through the depth counter; at the limit the subtree is skipped.\<close>

definition depth_guarded :: "(DivGuardState \<Rightarrow> DivGuardState) \<Rightarrow> DivGuardState \<Rightarrow> DivGuardState" where
  "depth_guarded walk st =
     (case jz_depth_enter_checked (s_div_guard_depth st) JZ_LIMIT_IR_STATEMENT_DEPTH of
        None \<Rightarrow> report_div_guard_depth st
      | Some d \<Rightarrow>
          let st' = walk (st\<lparr>s_div_guard_depth := d\<rparr>)
          in st'\<lparr>s_div_guard_depth := jz_depth_leave (s_div_guard_depth st')\<rparr>)"

lemma depth_guarded_cong [fundef_cong]:
  assumes "\<And>s. f s = g s" "st = st'"
  shows "depth_guarded f st = depth_guarded g st'"
proof -
  have "f = g" using assms(1) by (rule ext)
  then show ?thesis using assms(2) by simp
qed

fun check_expr_for_div :: "IR_Expr \<Rightarrow> DivGuardState \<Rightarrow> DivGuardState"
and check_exprs_for_div :: "IR_Expr list \<Rightarrow> DivGuardState \<Rightarrow> DivGuardState" where
  "check_expr_for_div EXPR_NULL st = st"
| "check_expr_for_div (EXPR_BINARY k w l r) st =
     depth_guarded (\<lambda>s. check_expr_for_div r (check_expr_for_div l
       (if k = EXPR_BINARY_DIV \<or> k = EXPR_BINARY_MOD then check_divisor r s else s))) st"
| "check_expr_for_div (EXPR_UNARY k w e) st = depth_guarded (check_expr_for_div e) st"
| "check_expr_for_div (EXPR_TERNARY w c t f) st =
     depth_guarded (\<lambda>s. check_expr_for_div f (check_expr_for_div t (check_expr_for_div c s))) st"
| "check_expr_for_div (EXPR_CONCAT w es) st = depth_guarded (check_exprs_for_div es) st"
| "check_expr_for_div (EXPR_SLICE w i base msb lsb) st = depth_guarded (check_expr_for_div base) st"
| "check_expr_for_div (EXPR_INTRINSIC k w src idx v ew) st =
     depth_guarded (\<lambda>s. check_expr_for_div v (check_expr_for_div idx (check_expr_for_div src s))) st"
| "check_expr_for_div (EXPR_MEM_READ w m addr) st = depth_guarded (check_expr_for_div addr) st"
| "check_expr_for_div (EXPR_LITERAL w l) st = depth_guarded (\<lambda>s. s) st"
| "check_expr_for_div (EXPR_SIGNAL_REF w i) st = depth_guarded (\<lambda>s. s) st"
| "check_exprs_for_div [] st = st"
| "check_exprs_for_div (e # es) st = check_exprs_for_div es (check_expr_for_div e st)"

section \<open>The statement walker\<close>

text \<open>One branch of an IF, under the fact its condition proves, if any.\<close>

definition with_guard :: "(int \<times> bool) option \<Rightarrow> (DivGuardState \<Rightarrow> DivGuardState) \<Rightarrow> DivGuardState \<Rightarrow> DivGuardState" where
  "with_guard g walk st =
     (case g of
        Some (sid, True) \<Rightarrow>
          let st' = walk (st\<lparr>guards := guard_push (guards st) sid True\<rparr>)
          in st'\<lparr>guards := guard_pop (guards st')\<rparr>
      | _ \<Rightarrow> walk st)"

lemma with_guard_cong [fundef_cong]:
  assumes "\<And>s. f s = h s" "g = g'" "st = st'"
  shows "with_guard g f st = with_guard g' h st'"
proof -
  have "f = h" using assms(1) by (rule ext)
  then show ?thesis using assms(2,3) by simp
qed

fun check_stmt_for_div :: "IR_Stmt \<Rightarrow> DivGuardState \<Rightarrow> DivGuardState"
and check_cases_for_div :: "(IR_Expr \<times> IR_Stmt) list \<Rightarrow> DivGuardState \<Rightarrow> DivGuardState"
and check_stmts_for_div :: "IR_Stmt list \<Rightarrow> DivGuardState \<Rightarrow> DivGuardState" where
  "check_stmt_for_div STMT_NULL st = st"
| "check_stmt_for_div (STMT_ASSIGNMENT a) st = depth_guarded (check_expr_for_div (asgn_rhs a)) st"
| "check_stmt_for_div (STMT_MEM_WRITE m addr dat) st =
     depth_guarded (\<lambda>s. check_expr_for_div dat (check_expr_for_div addr s)) st"
| "check_stmt_for_div (STMT_BLOCK ss) st = depth_guarded (check_stmts_for_div ss) st"
| "check_stmt_for_div (STMT_IF c t elif els) st =
     (let g = extract_nonzero_guard c
      in depth_guarded (\<lambda>s.
           with_guard (map_option (\<lambda>(sid, th, el). (sid, el)) g) (check_stmt_for_div els)
             (check_stmt_for_div elif
               (with_guard (map_option (\<lambda>(sid, th, el). (sid, th)) g) (check_stmt_for_div t)
                 (check_expr_for_div c s)))) st)"
| "check_stmt_for_div (STMT_SELECT sel cs) st =
     depth_guarded (\<lambda>s. check_cases_for_div cs (check_expr_for_div sel s)) st"
| "check_cases_for_div [] st = st"
| "check_cases_for_div ((v, body) # cs) st =
     check_cases_for_div cs (check_stmt_for_div body (check_expr_for_div v st))"
| "check_stmts_for_div [] st = st"
| "check_stmts_for_div (s # ss) st = check_stmts_for_div ss (check_stmt_for_div s st)"

section \<open>Entry point\<close>

definition div_guard_domain :: "IR_ClockDomain \<Rightarrow> DivGuardState \<Rightarrow> DivGuardState" where
  "div_guard_domain cd st = check_stmt_for_div (cd_statements cd) (st\<lparr>guards := []\<rparr>)"

definition div_guard_module :: "IR_Module \<Rightarrow> DivDiagnostic list \<Rightarrow> DivDiagnostic list" where
  "div_guard_module m ds =
     (if eliminated m then ds
      else diagnostics (fold div_guard_domain (clock_domains m)
             (check_stmt_for_div (async_block m)
               \<lparr>s_div_guard_depth = 0, s_div_guard_depth_reported = False, guards = [], diagnostics = ds\<rparr>)))"

definition jz_ir_div_guard_check :: "IR_Design \<Rightarrow> DivDiagnostic list \<Rightarrow> DivDiagnostic list" where
  "jz_ir_div_guard_check design ds = fold div_guard_module (design_modules design) ds"

end
