(* ===== verification/Sim_Value.thy ===== *)
theory Sim_Value
  imports Prelude
begin

text \<open>
  The four-state bit vectors of the simulator, src/sim/sim_value.c and sim_value.h.
  A \<open>SimValue\<close> is three arrays of \<open>SIM_VAL_WORDS\<close> 64-bit words (value, x mask, z mask) and
  a width. Arrays are lists of words read with \<open>!\<close> and written with list update; a C access
  beyond \<open>SIM_VAL_WORDS\<close> is undefined behaviour, and the invariant \<open>sim_val_wf\<close> of
  Sim_Value_Wf (width at most 256) keeps every access below it in range. C ints are \<open>int\<close>,
  \<open>uint64_t\<close> is \<open>64 word\<close>, and a truth value returned as an int is a \<open>bool\<close>.
\<close>

abbreviation SIM_VAL_WORDS :: nat where
  "SIM_VAL_WORDS \<equiv> 4"

record SimValue =
  val :: "u64 list"
  xmask :: "u64 list"
  zmask :: "u64 list"
  width :: int

section \<open>Words and masks\<close>

definition num_words :: "int \<Rightarrow> nat" where
  "num_words w = (if w \<le> 0 then 1 else nat ((w + 63) div 64))"

definition top_word_mask :: "int \<Rightarrow> u64" where
  "top_word_mask w =
     (if w \<le> 0 then 0
      else let bits_in_top = nat ((w - 1) mod 64) + 1
           in if bits_in_top = 64 then UINT64_MAX else push_bit bits_in_top 1 - 1)"

definition word_mask :: "int \<Rightarrow> int \<Rightarrow> u64" where
  "word_mask w wi =
     (let nw = int (num_words w)
      in if wi < 0 \<or> wi \<ge> nw then 0
         else if wi < nw - 1 then UINT64_MAX
         else top_word_mask w)"

section \<open>Construction\<close>

text \<open>\<open>memset(&v, 0, sizeof(v)); v.width = width;\<close> is \<open>sim_val_zero\<close> itself.\<close>

definition sim_val_zero :: "int \<Rightarrow> SimValue" where
  "sim_val_zero w =
     \<lparr>val = replicate SIM_VAL_WORDS 0, xmask = replicate SIM_VAL_WORDS 0,
      zmask = replicate SIM_VAL_WORDS 0, width = w\<rparr>"

text \<open>The loop that \<open>sim_val_ones\<close>, \<open>sim_val_all_x\<close> and \<open>sim_val_all_z\<close> run on one array.\<close>

definition fill_ones :: "int \<Rightarrow> u64 list \<Rightarrow> u64 list" where
  "fill_ones w a =
     (let nw = num_words w;
          a' = for_loop (nw - 1) (\<lambda>i a. a[i := UINT64_MAX]) a
      in if nw > 0 then a'[nw - 1 := top_word_mask w] else a')"

definition sim_val_ones :: "int \<Rightarrow> SimValue" where
  "sim_val_ones w = (let v = sim_val_zero w in v\<lparr>val := fill_ones w (val v)\<rparr>)"

definition sim_val_from_uint :: "u64 \<Rightarrow> int \<Rightarrow> SimValue" where
  "sim_val_from_uint n w =
     (let v = sim_val_zero w
      in if w > 0 \<and> w \<le> 64
         then let m = (if w = 64 then UINT64_MAX else push_bit (nat w) 1 - 1)
              in v\<lparr>val := (val v)[0 := n AND m]\<rparr>
         else v\<lparr>val := (val v)[0 := n]\<rparr>)"

definition sim_val_mask :: "SimValue \<Rightarrow> SimValue" where
  "sim_val_mask v =
     (let nw = num_words (width v);
          m = top_word_mask (width v);
          v1 = (if nw > 0
                then v\<lparr>val := (val v)[nw - 1 := val v ! (nw - 1) AND m],
                       xmask := (xmask v)[nw - 1 := xmask v ! (nw - 1) AND m],
                       zmask := (zmask v)[nw - 1 := zmask v ! (nw - 1) AND m]\<rparr>
                else v)
      in for_loop (SIM_VAL_WORDS - nw)
           (\<lambda>k v. let i = nw + k
                  in v\<lparr>val := (val v)[i := 0], xmask := (xmask v)[i := 0],
                       zmask := (zmask v)[i := 0]\<rparr>) v1)"

definition sim_val_from_words :: "u64 list \<Rightarrow> nat \<Rightarrow> int \<Rightarrow> SimValue" where
  "sim_val_from_words words nw w =
     (let v = sim_val_zero w;
          copy = (if nw < SIM_VAL_WORDS then nw else SIM_VAL_WORDS)
      in sim_val_mask (v\<lparr>val := for_loop copy (\<lambda>i a. a[i := words ! i]) (val v)\<rparr>))"

definition sim_val_all_x :: "int \<Rightarrow> SimValue" where
  "sim_val_all_x w = (let v = sim_val_zero w in v\<lparr>xmask := fill_ones w (xmask v)\<rparr>)"

definition sim_val_all_z :: "int \<Rightarrow> SimValue" where
  "sim_val_all_z w = (let v = sim_val_zero w in v\<lparr>zmask := fill_ones w (zmask v)\<rparr>)"

section \<open>Per-bit access\<close>

text \<open>\<open>(w >> i) & 1\<close> is \<open>bit w i\<close>.\<close>

definition sim_val_get_bit :: "SimValue \<Rightarrow> int \<Rightarrow> bool" where
  "sim_val_get_bit v i =
     (if i < 0 \<or> i \<ge> width v then False
      else bit (val v ! nat (i div 64)) (nat (i mod 64)))"

definition sim_val_set_bit :: "SimValue \<Rightarrow> int \<Rightarrow> bool \<Rightarrow> SimValue" where
  "sim_val_set_bit v i b =
     (if i < 0 \<or> i \<ge> width v then v
      else let wi = nat (i div 64);
               bi = nat (i mod 64);
               mask = push_bit bi (1 :: u64)
           in if b then v\<lparr>val := (val v)[wi := val v ! wi OR mask]\<rparr>
              else v\<lparr>val := (val v)[wi := val v ! wi AND NOT mask]\<rparr>)"

section \<open>Queries\<close>

text \<open>A loop that returns at the first index satisfying a test is \<open>list_ex\<close> over the indices.\<close>

definition sim_val_has_xz :: "SimValue \<Rightarrow> bool" where
  "sim_val_has_xz v =
     list_ex (\<lambda>i. (xmask v ! i OR zmask v ! i) AND word_mask (width v) (int i) \<noteq> 0)
       [0..<num_words (width v)]"

definition sim_val_is_all_z :: "SimValue \<Rightarrow> bool" where
  "sim_val_is_all_z v =
     list_all (\<lambda>i. let m = word_mask (width v) (int i)
                   in zmask v ! i AND m = m \<and> xmask v ! i AND m = 0)
       [0..<num_words (width v)]"

definition sim_val_is_true :: "SimValue \<Rightarrow> int" where
  "sim_val_is_true v =
     (let idx = [0..<num_words (width v)];
          has_xz = list_ex (\<lambda>i. (xmask v ! i OR zmask v ! i) AND word_mask (width v) (int i) \<noteq> 0) idx;
          has_val = list_ex (\<lambda>i. val v ! i AND word_mask (width v) (int i) \<noteq> 0) idx
      in if has_xz then -1 else if has_val then 1 else 0)"

definition sim_val_equal :: "SimValue \<Rightarrow> SimValue \<Rightarrow> bool" where
  "sim_val_equal a b =
     (if width a \<noteq> width b then False
      else list_all (\<lambda>i. let m = word_mask (width a) (int i)
                         in val a ! i AND m = val b ! i AND m \<and>
                            xmask a ! i AND m = xmask b ! i AND m \<and>
                            zmask a ! i AND m = zmask b ! i AND m)
             [0..<num_words (width a)])"

section \<open>Addition and subtraction\<close>

definition arith_xz_check :: "SimValue \<Rightarrow> SimValue \<Rightarrow> int \<Rightarrow> SimValue" where
  "arith_xz_check a b rw =
     (if sim_val_has_xz a \<or> sim_val_has_xz b then sim_val_all_x rw
      else (sim_val_zero 0)\<lparr>width := -1\<rparr>)"

text \<open>One iteration of the carry loop of \<open>sim_val_add\<close>, on the result array and the carry.\<close>

definition add_step :: "SimValue \<Rightarrow> SimValue \<Rightarrow> int \<Rightarrow> nat \<Rightarrow> u64 list \<times> u64 \<Rightarrow> u64 list \<times> u64" where
  "add_step a b rw i st =
     (let (r, carry) = st;
          av = val a ! i AND word_mask rw (int i);
          bv = val b ! i AND word_mask rw (int i);
          sum1 = av + bv;
          sum2 = sum1 + carry;
          carry_out = (if sum1 < av \<or> sum2 < sum1 then 1 else 0)
      in (r[i := sum2], carry_out))"

definition sim_val_add :: "SimValue \<Rightarrow> SimValue \<Rightarrow> SimValue" where
  "sim_val_add a b =
     (let rw = (if width a > width b then width a else width b);
          x = arith_xz_check a b rw
      in if width x \<noteq> -1 then x
         else let r = sim_val_zero rw
              in sim_val_mask (r\<lparr>val := fst (for_loop (num_words rw) (add_step a b rw) (val r, 0))\<rparr>))"

definition sub_step :: "SimValue \<Rightarrow> SimValue \<Rightarrow> int \<Rightarrow> nat \<Rightarrow> u64 list \<times> u64 \<Rightarrow> u64 list \<times> u64" where
  "sub_step a b rw i st =
     (let (r, borrow) = st;
          av = val a ! i AND word_mask rw (int i);
          bv = val b ! i AND word_mask rw (int i);
          subtrahend = bv + borrow;
          borrow_out = (if subtrahend < bv \<or> av < subtrahend then 1 else 0)
      in (r[i := av - subtrahend], borrow_out))"

definition sim_val_sub :: "SimValue \<Rightarrow> SimValue \<Rightarrow> SimValue" where
  "sim_val_sub a b =
     (let rw = (if width a > width b then width a else width b);
          x = arith_xz_check a b rw
      in if width x \<noteq> -1 then x
         else let r = sim_val_zero rw
              in sim_val_mask (r\<lparr>val := fst (for_loop (num_words rw) (sub_step a b rw) (val r, 0))\<rparr>))"

section \<open>Bitwise operations with four-state truth tables\<close>

definition sim_val_and :: "SimValue \<Rightarrow> SimValue \<Rightarrow> SimValue" where
  "sim_val_and a b =
     (let rw = (if width a > width b then width a else width b)
      in for_loop (num_words rw)
           (\<lambda>i r. let m = word_mask rw (int i);
                      a_xz = (xmask a ! i OR zmask a ! i) AND m;
                      b_xz = (xmask b ! i OR zmask b ! i) AND m;
                      a_known_zero = (NOT (val a ! i) AND NOT a_xz) AND m;
                      b_known_zero = (NOT (val b ! i) AND NOT b_xz) AND m;
                      force_zero = a_known_zero OR b_known_zero;
                      result_val = val a ! i AND val b ! i AND m;
                      result_x = ((a_xz OR b_xz) AND NOT force_zero) AND m
                  in r\<lparr>val := (val r)[i := result_val AND NOT result_x],
                       xmask := (xmask r)[i := result_x]\<rparr>)
           (sim_val_zero rw))"

definition sim_val_or :: "SimValue \<Rightarrow> SimValue \<Rightarrow> SimValue" where
  "sim_val_or a b =
     (let rw = (if width a > width b then width a else width b)
      in for_loop (num_words rw)
           (\<lambda>i r. let m = word_mask rw (int i);
                      a_xz = (xmask a ! i OR zmask a ! i) AND m;
                      b_xz = (xmask b ! i OR zmask b ! i) AND m;
                      a_known_one = (val a ! i AND NOT a_xz) AND m;
                      b_known_one = (val b ! i AND NOT b_xz) AND m;
                      force_one = a_known_one OR b_known_one;
                      result_val = (val a ! i OR val b ! i) AND m;
                      result_x = ((a_xz OR b_xz) AND NOT force_one) AND m
                  in r\<lparr>val := (val r)[i := (result_val OR force_one) AND NOT result_x],
                       xmask := (xmask r)[i := result_x]\<rparr>)
           (sim_val_zero rw))"

definition sim_val_xor :: "SimValue \<Rightarrow> SimValue \<Rightarrow> SimValue" where
  "sim_val_xor a b =
     (let rw = (if width a > width b then width a else width b)
      in for_loop (num_words rw)
           (\<lambda>i r. let m = word_mask rw (int i);
                      a_xz = (xmask a ! i OR zmask a ! i) AND m;
                      b_xz = (xmask b ! i OR zmask b ! i) AND m;
                      any_xz = (a_xz OR b_xz) AND m
                  in r\<lparr>val := (val r)[i := (val a ! i XOR val b ! i) AND m AND NOT any_xz],
                       xmask := (xmask r)[i := any_xz]\<rparr>)
           (sim_val_zero rw))"

definition sim_val_not :: "SimValue \<Rightarrow> SimValue" where
  "sim_val_not a =
     for_loop (num_words (width a))
       (\<lambda>i r. let m = word_mask (width a) (int i);
                  xz = (xmask a ! i OR zmask a ! i) AND m
              in r\<lparr>val := (val r)[i := (NOT (val a ! i) AND m) AND NOT xz],
                   xmask := (xmask r)[i := xz]\<rparr>)
       (sim_val_zero (width a))"

section \<open>Comparison\<close>

definition cmp_result :: "bool \<Rightarrow> SimValue" where
  "cmp_result result_bit =
     (let r = sim_val_zero 1 in r\<lparr>val := (val r)[0 := if result_bit then 1 else 0]\<rparr>)"

definition cmp_x :: SimValue where
  "cmp_x = sim_val_all_x 1"

fun ucmp_from :: "SimValue \<Rightarrow> SimValue \<Rightarrow> int \<Rightarrow> nat \<Rightarrow> int" where
  "ucmp_from a b w 0 = 0"
| "ucmp_from a b w (Suc i) =
     (let m = word_mask w (int i);
          av = val a ! i AND m;
          bv = val b ! i AND m
      in if av < bv then -1 else if av > bv then 1 else ucmp_from a b w i)"

definition sim_val_ucmp :: "SimValue \<Rightarrow> SimValue \<Rightarrow> int \<Rightarrow> int" where
  "sim_val_ucmp a b w = ucmp_from a b w (num_words w)"

definition sim_val_eq :: "SimValue \<Rightarrow> SimValue \<Rightarrow> SimValue" where
  "sim_val_eq a b =
     (if sim_val_has_xz a \<or> sim_val_has_xz b then cmp_x
      else let w = (if width a > width b then width a else width b)
           in if list_ex (\<lambda>i. val a ! i AND word_mask w (int i) \<noteq> val b ! i AND word_mask w (int i))
                   [0..<num_words w]
              then cmp_result False else cmp_result True)"

definition sim_val_neq :: "SimValue \<Rightarrow> SimValue \<Rightarrow> SimValue" where
  "sim_val_neq a b =
     (if sim_val_has_xz a \<or> sim_val_has_xz b then cmp_x
      else let w = (if width a > width b then width a else width b)
           in if list_ex (\<lambda>i. val a ! i AND word_mask w (int i) \<noteq> val b ! i AND word_mask w (int i))
                   [0..<num_words w]
              then cmp_result True else cmp_result False)"

definition sim_val_lt :: "SimValue \<Rightarrow> SimValue \<Rightarrow> SimValue" where
  "sim_val_lt a b =
     (if sim_val_has_xz a \<or> sim_val_has_xz b then cmp_x
      else let w = (if width a > width b then width a else width b)
           in cmp_result (sim_val_ucmp (a\<lparr>width := w\<rparr>) (b\<lparr>width := w\<rparr>) w < 0))"

definition sim_val_gt :: "SimValue \<Rightarrow> SimValue \<Rightarrow> SimValue" where
  "sim_val_gt a b = sim_val_lt b a"

definition sim_val_lte :: "SimValue \<Rightarrow> SimValue \<Rightarrow> SimValue" where
  "sim_val_lte a b =
     (if sim_val_has_xz a \<or> sim_val_has_xz b then cmp_x
      else let w = (if width a > width b then width a else width b)
           in cmp_result (sim_val_ucmp (a\<lparr>width := w\<rparr>) (b\<lparr>width := w\<rparr>) w \<le> 0))"

definition sim_val_gte :: "SimValue \<Rightarrow> SimValue \<Rightarrow> SimValue" where
  "sim_val_gte a b = sim_val_lte b a"

section \<open>Logical operations\<close>

definition sim_val_logical_and :: "SimValue \<Rightarrow> SimValue \<Rightarrow> SimValue" where
  "sim_val_logical_and a b =
     (let ta = sim_val_is_true a; tb = sim_val_is_true b
      in if ta = 0 \<or> tb = 0 then cmp_result False
         else if ta = -1 \<or> tb = -1 then cmp_x
         else cmp_result True)"

definition sim_val_logical_or :: "SimValue \<Rightarrow> SimValue \<Rightarrow> SimValue" where
  "sim_val_logical_or a b =
     (let ta = sim_val_is_true a; tb = sim_val_is_true b
      in if ta = 1 \<or> tb = 1 then cmp_result True
         else if ta = -1 \<or> tb = -1 then cmp_x
         else cmp_result False)"

definition sim_val_logical_not :: "SimValue \<Rightarrow> SimValue" where
  "sim_val_logical_not a =
     (let ta = sim_val_is_true a
      in if ta = -1 then cmp_x else cmp_result (ta = 0))"

section \<open>Shifts\<close>

text \<open>The C function returns -1 or 0 and writes \<open>*out\<close>; here \<open>None\<close> is the return value -1.\<close>

definition sim_val_to_small_uint :: "SimValue \<Rightarrow> u64 option" where
  "sim_val_to_small_uint v =
     (if sim_val_has_xz v then None
      else if list_ex (\<lambda>i. val v ! i \<noteq> 0) [1..<num_words (width v)] then None
      else Some (val v ! 0))"

text \<open>Word \<open>i\<close> of a left or right shift by \<open>s\<close> bits over \<open>nw\<close> words of \<open>a\<close>.\<close>

definition shl_word :: "u64 list \<Rightarrow> nat \<Rightarrow> int \<Rightarrow> nat \<Rightarrow> u64" where
  "shl_word a nw s i =
     (let word_shift = s div 64;
          bit_shift = nat (s mod 64);
          src_lo = int i - word_shift;
          src_hi = int i - word_shift - 1;
          lo_part = (if src_lo \<ge> 0 \<and> src_lo < int nw then a ! nat src_lo else 0);
          hi_part = (if src_hi \<ge> 0 \<and> src_hi < int nw then a ! nat src_hi else 0)
      in if bit_shift = 0 then lo_part
         else push_bit bit_shift lo_part OR drop_bit (64 - bit_shift) hi_part)"

definition shr_word :: "u64 list \<Rightarrow> nat \<Rightarrow> int \<Rightarrow> nat \<Rightarrow> u64" where
  "shr_word a nw s i =
     (let word_shift = s div 64;
          bit_shift = nat (s mod 64);
          src_lo = int i + word_shift;
          src_hi = int i + word_shift + 1;
          lo_part = (if src_lo \<ge> 0 \<and> src_lo < int nw then a ! nat src_lo else 0);
          hi_part = (if src_hi \<ge> 0 \<and> src_hi < int nw then a ! nat src_hi else 0)
      in if bit_shift = 0 then lo_part
         else drop_bit bit_shift lo_part OR push_bit (64 - bit_shift) hi_part)"

text \<open>The test \<open>shift >= (uint64_t)a.width\<close> compares as unsigned 64-bit values.\<close>

definition sim_val_shl :: "SimValue \<Rightarrow> SimValue \<Rightarrow> SimValue" where
  "sim_val_shl a b =
     (if sim_val_has_xz a \<or> sim_val_has_xz b then sim_val_all_x (width a)
      else case sim_val_to_small_uint b of
             None \<Rightarrow> sim_val_zero (width a)
           | Some shift \<Rightarrow>
               if shift \<ge> word_of_int (width a) then sim_val_zero (width a)
               else let s = uint shift;
                        nw = num_words (width a);
                        r = sim_val_zero (width a)
                    in sim_val_mask
                         (r\<lparr>val := for_down nw (\<lambda>i rv. rv[i := shl_word (val a) nw s i]) (val r)\<rparr>))"

definition sim_val_shr :: "SimValue \<Rightarrow> SimValue \<Rightarrow> SimValue" where
  "sim_val_shr a b =
     (if sim_val_has_xz a \<or> sim_val_has_xz b then sim_val_all_x (width a)
      else case sim_val_to_small_uint b of
             None \<Rightarrow> sim_val_zero (width a)
           | Some shift \<Rightarrow>
               if shift \<ge> word_of_int (width a) then sim_val_zero (width a)
               else let am = sim_val_mask a;
                        s = uint shift;
                        nw = num_words (width a);
                        r = sim_val_zero (width a)
                    in sim_val_mask
                         (r\<lparr>val := for_loop nw (\<lambda>i rv. rv[i := shr_word (val am) nw s i]) (val r)\<rparr>))"

text \<open>The loop \<open>for (bit = lo; bit < hi; bit++) sim_val_set_bit(&r, bit, 1)\<close>.\<close>

definition set_bits_from :: "int \<Rightarrow> int \<Rightarrow> SimValue \<Rightarrow> SimValue" where
  "set_bits_from lo hi r =
     for_loop (nat (hi - lo)) (\<lambda>k r. sim_val_set_bit r (lo + int k) True) r"

definition sim_val_ashr :: "SimValue \<Rightarrow> SimValue \<Rightarrow> SimValue" where
  "sim_val_ashr a b =
     (if sim_val_has_xz a \<or> sim_val_has_xz b then sim_val_all_x (width a)
      else let sign_bit = sim_val_get_bit a (width a - 1)
           in case sim_val_to_small_uint b of
                None \<Rightarrow> if sign_bit then sim_val_ones (width a) else sim_val_zero (width a)
              | Some shift \<Rightarrow>
                  if shift \<ge> word_of_int (width a)
                  then (if sign_bit then sim_val_ones (width a) else sim_val_zero (width a))
                  else let r = sim_val_shr a b
                       in if sign_bit \<and> shift > 0
                          then set_bits_from (width a - uint shift) (width a) r
                          else r)"

definition sim_val_shift_left_bits :: "SimValue \<Rightarrow> int \<Rightarrow> int \<Rightarrow> SimValue" where
  "sim_val_shift_left_bits v shift w =
     (let shift_amt = sim_val_from_uint (word_of_int shift) 32
      in sim_val_shl (v\<lparr>width := w\<rparr>) shift_amt)"

section \<open>Multiplication, division and negation\<close>

definition sim_val_mul :: "SimValue \<Rightarrow> SimValue \<Rightarrow> SimValue" where
  "sim_val_mul a b =
     (let rw = (if width a > width b then width a else width b);
          x = arith_xz_check a b rw
      in if width x \<noteq> -1 then x
         else let r = for_loop (nat rw)
                        (\<lambda>i r. if sim_val_get_bit b (int i)
                               then sim_val_add r (sim_val_shift_left_bits a (int i) rw)
                               else r)
                        (sim_val_zero rw)
              in sim_val_mask (r\<lparr>width := rw\<rparr>))"

text \<open>One iteration of the restoring-division loop, on quotient and remainder.\<close>

definition restoring_step :: "SimValue \<Rightarrow> SimValue \<Rightarrow> int \<Rightarrow> nat \<Rightarrow> SimValue \<times> SimValue \<Rightarrow> SimValue \<times> SimValue" where
  "restoring_step a b w i st =
     (let (quotient, remainder0) = st;
          remainder1 = sim_val_shift_left_bits remainder0 1 w;
          remainder2 = sim_val_set_bit remainder1 0 (sim_val_get_bit a (int i))
      in if sim_val_ucmp remainder2 b w \<ge> 0
         then (sim_val_set_bit quotient (int i) True,
               sim_val_mask ((sim_val_sub remainder2 b)\<lparr>width := w\<rparr>))
         else (quotient, remainder2))"

definition sim_val_unsigned_divmod :: "SimValue \<Rightarrow> SimValue \<Rightarrow> int \<Rightarrow> bool \<Rightarrow> SimValue" where
  "sim_val_unsigned_divmod a b w want_remainder =
     (let (quotient, remainder) =
            for_down (nat w) (restoring_step a b w) (sim_val_zero w, sim_val_zero w)
      in if want_remainder then sim_val_mask (remainder\<lparr>width := w\<rparr>)
         else sim_val_mask (quotient\<lparr>width := w\<rparr>))"

definition sim_val_div :: "SimValue \<Rightarrow> SimValue \<Rightarrow> SimValue" where
  "sim_val_div a b =
     (let rw = (if width a > width b then width a else width b);
          x = arith_xz_check a b rw
      in if width x \<noteq> -1 then x
         else let a' = sim_val_mask (a\<lparr>width := rw\<rparr>);
                  b' = sim_val_mask (b\<lparr>width := rw\<rparr>)
              in if sim_val_ucmp b' (sim_val_zero rw) rw = 0 then sim_val_all_x rw
                 else sim_val_unsigned_divmod a' b' rw False)"

definition sim_val_mod :: "SimValue \<Rightarrow> SimValue \<Rightarrow> SimValue" where
  "sim_val_mod a b =
     (let rw = (if width a > width b then width a else width b);
          x = arith_xz_check a b rw
      in if width x \<noteq> -1 then x
         else let a' = sim_val_mask (a\<lparr>width := rw\<rparr>);
                  b' = sim_val_mask (b\<lparr>width := rw\<rparr>)
              in if sim_val_ucmp b' (sim_val_zero rw) rw = 0 then sim_val_all_x rw
                 else sim_val_unsigned_divmod a' b' rw True)"

definition sim_val_neg :: "SimValue \<Rightarrow> SimValue" where
  "sim_val_neg a =
     (if sim_val_has_xz a then sim_val_all_x (width a)
      else let inv = sim_val_not a;
               one = sim_val_zero (width a)
           in sim_val_add inv (one\<lparr>val := (val one)[0 := 1]\<rparr>))"

section \<open>Concatenation and slices\<close>

text \<open>
  The body of the inner loop of \<open>sim_val_concat\<close>: word \<open>si\<close> of one operand is ORed into the
  result at bit offset \<open>shift + si * 64\<close>, on one of the three arrays.
\<close>

definition concat_word :: "int \<Rightarrow> nat \<Rightarrow> u64 \<Rightarrow> u64 list \<Rightarrow> u64 list" where
  "concat_word shift si b r =
     (let bit_base = shift + int si * 64;
          dst_wi = nat (bit_base div 64);
          dst_bi = nat (bit_base mod 64);
          r1 = (if dst_wi < SIM_VAL_WORDS then r[dst_wi := r ! dst_wi OR push_bit dst_bi b] else r)
      in if dst_bi > 0 \<and> dst_wi + 1 < SIM_VAL_WORDS
         then r1[dst_wi + 1 := r1 ! (dst_wi + 1) OR drop_bit (64 - dst_bi) b]
         else r1)"

definition concat_operand :: "SimValue \<Rightarrow> SimValue \<times> int \<Rightarrow> SimValue \<times> int" where
  "concat_operand v st =
     (let (r, shift) = st;
          w = width v;
          r' = for_loop (num_words w)
                 (\<lambda>si r. let m = word_mask w (int si)
                         in r\<lparr>val := concat_word shift si (val v ! si AND m) (val r),
                              xmask := concat_word shift si (xmask v ! si AND m) (xmask r),
                              zmask := concat_word shift si (zmask v ! si AND m) (zmask r)\<rparr>) r
      in (r', shift + w))"

definition sim_val_concat :: "SimValue list \<Rightarrow> SimValue" where
  "sim_val_concat vals =
     (let sum_width = for_loop (length vals) (\<lambda>i t. t + width (vals ! i)) 0;
          max_w = int SIM_VAL_WORDS * 64;
          total_width = (if sum_width > max_w then max_w else sum_width)
      in sim_val_mask
           (fst (for_down (length vals) (\<lambda>i st. concat_operand (vals ! i) st)
                   (sim_val_zero total_width, 0))))"

text \<open>Word \<open>ri\<close> of a slice whose lowest bit is \<open>lsb\<close>, on one of the three arrays.\<close>

definition slice_word :: "u64 list \<Rightarrow> int \<Rightarrow> nat \<Rightarrow> u64 \<Rightarrow> u64" where
  "slice_word a lsb ri old =
     (let src_bit = lsb + int ri * 64;
          src_wi = nat (src_bit div 64);
          src_bi = nat (src_bit mod 64);
          r1 = (if src_wi < SIM_VAL_WORDS then drop_bit src_bi (a ! src_wi) else old)
      in if src_bi > 0 \<and> src_wi + 1 < SIM_VAL_WORDS
         then r1 OR push_bit (64 - src_bi) (a ! (src_wi + 1))
         else r1)"

definition sim_val_slice :: "SimValue \<Rightarrow> int \<Rightarrow> int \<Rightarrow> SimValue" where
  "sim_val_slice v msb lsb =
     (let rw = msb - lsb + 1
      in if rw \<le> 0 then sim_val_zero 1
         else sim_val_mask
                (for_loop (num_words rw)
                  (\<lambda>ri r. r\<lparr>val := (val r)[ri := slice_word (val v) lsb ri (val r ! ri)],
                            xmask := (xmask r)[ri := slice_word (xmask v) lsb ri (xmask r ! ri)],
                            zmask := (zmask r)[ri := slice_word (zmask v) lsb ri (zmask r ! ri)]\<rparr>)
                  (sim_val_zero rw)))"

section \<open>Ternary select and extension\<close>

definition sim_val_ternary :: "SimValue \<Rightarrow> SimValue \<Rightarrow> SimValue \<Rightarrow> SimValue" where
  "sim_val_ternary cond t f =
     (let tc = sim_val_is_true cond
      in if tc = 1 then t
         else if tc = 0 then f
         else let rw = (if width t > width f then width t else width f)
              in for_loop (num_words rw)
                   (\<lambda>i r. let m = word_mask rw (int i);
                              differ = ((val t ! i XOR val f ! i) OR xmask t ! i OR xmask f ! i OR
                                        zmask t ! i OR zmask f ! i) AND m
                          in r\<lparr>val := (val r)[i := val t ! i AND NOT differ],
                               xmask := (xmask r)[i := differ]\<rparr>)
                   (sim_val_zero rw))"

definition sim_val_zext :: "SimValue \<Rightarrow> int \<Rightarrow> SimValue" where
  "sim_val_zext v new_width =
     (if new_width \<le> width v then v else v\<lparr>width := new_width\<rparr>)"

definition sim_val_sext :: "SimValue \<Rightarrow> int \<Rightarrow> SimValue" where
  "sim_val_sext v new_width =
     (if new_width \<le> width v then v
      else let sign_bit = sim_val_get_bit v (width v - 1);
               sign_x = (width v > 0 \<and>
                         bit (xmask v ! nat ((width v - 1) div 64)) (nat ((width v - 1) mod 64)));
               r = v\<lparr>width := new_width\<rparr>;
               r1 = (if sign_bit then set_bits_from (width v) new_width r else r)
           in if sign_x
              then for_loop (nat (new_width - width v))
                     (\<lambda>k r. let i = width v + int k; wi = nat (i div 64); bi = nat (i mod 64)
                            in r\<lparr>xmask := (xmask r)[wi := xmask r ! wi OR push_bit bi 1]\<rparr>) r1
              else r1)"

section \<open>Formatting\<close>

text \<open>
  A formatting function fills a caller's buffer of \<open>buflen\<close> bytes; the model returns the
  characters before the terminating NUL.
\<close>

definition nibble_at :: "u64 list \<Rightarrow> nat \<Rightarrow> nat \<Rightarrow> u64" where
  "nibble_at a wi bi =
     (let n = (if wi < SIM_VAL_WORDS then drop_bit bi (a ! wi) AND 0xF else 0)
      in if bi > 60 \<and> wi + 1 < SIM_VAL_WORDS
         then n OR (push_bit (64 - bi) (a ! (wi + 1)) AND 0xF)
         else n)"

definition hex_char :: "SimValue \<Rightarrow> nat \<Rightarrow> char" where
  "hex_char v i =
     (let bit_lo = i * 4;
          wi = bit_lo div 64;
          bi = bit_lo mod 64;
          nibble_val = nibble_at (val v) wi bi;
          nibble_x = nibble_at (xmask v) wi bi;
          nibble_z = nibble_at (zmask v) wi bi
      in if nibble_x = 0xF then CHR ''x''
         else if nibble_z = 0xF then CHR ''z''
         else if nibble_x \<noteq> 0 \<or> nibble_z \<noteq> 0 then CHR ''X''
         else ''0123456789abcdef'' ! unat nibble_val)"

definition sim_val_to_hex :: "SimValue \<Rightarrow> int \<Rightarrow> string" where
  "sim_val_to_hex v buflen =
     (if buflen < 2 then []
      else let nibs = (width v + 3) div 4;
               nib_count = (if nibs = 0 then 1 else nat nibs)
           in take (nat (buflen - 1)) (map (hex_char v) (rev [0..<nib_count])))"

definition bin_char :: "SimValue \<Rightarrow> nat \<Rightarrow> char" where
  "bin_char v i =
     (let wi = i div 64;
          bi = i mod 64;
          x_bit = (if wi < SIM_VAL_WORDS then bit (xmask v ! wi) bi else False);
          z_bit = (if wi < SIM_VAL_WORDS then bit (zmask v ! wi) bi else False);
          v_bit = (if wi < SIM_VAL_WORDS then bit (val v ! wi) bi else False)
      in if x_bit then CHR ''x''
         else if z_bit then CHR ''z''
         else if v_bit then CHR ''1'' else CHR ''0'')"

definition sim_val_to_bin :: "SimValue \<Rightarrow> int \<Rightarrow> string" where
  "sim_val_to_bin v buflen =
     (if buflen < 2 then []
      else take (nat (buflen - 1)) (map (bin_char v) (rev [0..<nat (width v)])))"

text \<open>
  Wide values: after \<open>snprintf(buf, buflen, "0x")\<close> the hexadecimal digits are written from
  \<open>buf + 2\<close> into the remaining \<open>buflen - 2\<close> bytes. With \<open>buflen = 2\<close> the prefix itself is cut
  to one character, and the string ends there.
\<close>

definition sim_val_to_dec :: "SimValue \<Rightarrow> int \<Rightarrow> string" where
  "sim_val_to_dec v buflen =
     (if buflen < 2 then []
      else if sim_val_has_xz v then take (nat (buflen - 1)) ''x''
      else if width v \<le> 64 then take (nat (buflen - 1)) (show_nat (unat (val v ! 0)))
      else if buflen = 2 then ''0''
      else ''0x'' @ sim_val_to_hex v (buflen - 2))"

definition sim_val_format_literal :: "SimValue \<Rightarrow> int \<Rightarrow> string" where
  "sim_val_format_literal v buflen =
     take (nat (buflen - 1)) (show_int (width v) @ [CHR 0x27, CHR ''h''] @ sim_val_to_hex v 80)"

end
