(* ===== verification/Sim_Value_Wf.thy ===== *)
theory Sim_Value_Wf
  imports Sim_Value
begin

text \<open>
  The representation invariant of \<open>SimValue\<close>, its reading as a sequence of four-state bits,
  and the word-level lemmas every later proof about the simulator values rests on.
\<close>

section \<open>Four-state bits and the representation invariant\<close>

text \<open>The encoding table of sim_value.h: x and z masks take precedence over the value bit.\<close>

datatype bit4 = B0 | B1 | BX | BZ

definition sim_bit :: "SimValue \<Rightarrow> nat \<Rightarrow> bit4" where
  "sim_bit v n =
     (if wbit (xmask v) n then BX
      else if wbit (zmask v) n then BZ
      else if wbit (val v) n then B1 else B0)"

abbreviation sim_width_limit :: int where
  "sim_width_limit \<equiv> 256"

text \<open>
  No bit at or above the width is stored, and a stored bit has one meaning: value and mask
  bits exclude each other.
\<close>

definition planes_disjoint :: "SimValue \<Rightarrow> bool" where
  "planes_disjoint v \<longleftrightarrow>
     (\<forall>n. \<not> (wbit (val v) n \<and> wbit (xmask v) n) \<and>
          \<not> (wbit (val v) n \<and> wbit (zmask v) n) \<and>
          \<not> (wbit (xmask v) n \<and> wbit (zmask v) n))"

definition plane_ok :: "int \<Rightarrow> u64 list \<Rightarrow> bool" where
  "plane_ok w a \<longleftrightarrow> length a = SIM_VAL_WORDS \<and> (\<forall>n. wbit a n \<longrightarrow> int n < w)"

definition sim_val_wf :: "SimValue \<Rightarrow> bool" where
  "sim_val_wf v \<longleftrightarrow>
     0 \<le> width v \<and> width v \<le> sim_width_limit \<and>
     plane_ok (width v) (val v) \<and> plane_ok (width v) (xmask v) \<and> plane_ok (width v) (zmask v) \<and>
     planes_disjoint v"

text \<open>A value with no x and no z bit, and the natural number it stands for.\<close>

definition known :: "SimValue \<Rightarrow> bool" where
  "known v \<longleftrightarrow> (\<forall>n. \<not> wbit (xmask v) n \<and> \<not> wbit (zmask v) n)"

definition uval :: "SimValue \<Rightarrow> nat" where
  "uval v = wval (val v)"

section \<open>Word masks\<close>

lemma num_words_int: "0 < w \<Longrightarrow> int (num_words w) = (w - 1) div 64 + 1"
proof -
  assume "0 < w"
  moreover have "(w + 63) div 64 = (w - 1) div 64 + 1" by simp
  ultimately show ?thesis by (simp add: num_words_def)
qed

lemma num_words_pos [simp]: "0 < num_words w"
proof (cases "0 < w")
  case True
  then have "0 \<le> (w - 1) div 64" by simp
  with num_words_int [OF True] show ?thesis by linarith
qed (simp add: num_words_def)

lemma num_words_neq_0 [simp]: "num_words w \<noteq> 0"
  using num_words_pos [of w] by linarith

lemma num_words_pred [simp]: "\<not> num_words w \<le> num_words w - Suc 0"
  using num_words_pos [of w] by linarith

lemma num_words_ge_1 [simp]: "Suc 0 \<le> num_words w"
  using num_words_pos [of w] by linarith

lemma num_words_le_4: "w \<le> 256 \<Longrightarrow> num_words w \<le> 4"
  by (auto simp: num_words_def)

lemma less_num_words: "int n < w \<Longrightarrow> n div 64 < num_words w"
  using num_words_int [of w] by linarith

lemma bit_push_1_minus_1: "bit (push_bit k (1 :: u64) - 1) j \<longleftrightarrow> j < k \<and> j < 64"
  by (simp add: push_bit_of_1 mask_eq_exp_minus_1 [symmetric] bit_mask_iff conj_commute)

lemma bit_top_word_mask:
  "bit (top_word_mask w) j \<longleftrightarrow> j < 64 \<and> 0 < w \<and> int j \<le> (w - 1) mod 64"
proof (cases "w \<le> 0")
  case True
  then show ?thesis by (simp add: top_word_mask_def)
next
  case False
  have bound: "0 \<le> (w - 1) mod 64" "(w - 1) mod 64 < 64" by simp_all
  show ?thesis
  proof (cases "(w - 1) mod 64 = 63")
    case True
    with False show ?thesis by (auto simp: top_word_mask_def)
  next
    case neq: False
    with bound have "nat ((w - 1) mod 64) + 1 \<noteq> 64" by linarith
    with False have "top_word_mask w = push_bit (nat ((w - 1) mod 64) + 1) 1 - 1"
      by (simp only: top_word_mask_def Let_def if_False)
    then show ?thesis
      using bound False by (auto simp only: bit_push_1_minus_1)
  qed
qed

lemma bit_word_mask: "bit (word_mask w (int i)) j \<longleftrightarrow> j < 64 \<and> int (64 * i + j) < w"
proof (cases "w \<le> 0")
  case True
  then show ?thesis by (simp add: word_mask_def num_words_def bit_top_word_mask Let_def)
next
  case False
  define q where "q = (w - 1) div 64"
  define r where "r = (w - 1) mod 64"
  have w: "w = 64 * q + r + 1" by (simp add: q_def r_def)
  have r: "0 \<le> r" "r < 64" by (simp_all add: r_def)
  have q: "0 \<le> q" using False by (simp add: q_def)
  have nw: "int (num_words w) = q + 1"
    using False by (simp add: num_words_int q_def)
  consider "int i < q" | "int i = q" | "int i > q" by linarith
  then show ?thesis
  proof cases
    case 1
    then show ?thesis using w r nw by (auto simp: word_mask_def Let_def)
  next
    case 2
    then show ?thesis
      using w r nw False by (auto simp: word_mask_def Let_def bit_top_word_mask r_def [symmetric])
  next
    case 3
    then show ?thesis using w r nw by (auto simp: word_mask_def Let_def)
  qed
qed

lemma bit_word_mask_at [word_array_simps]:
  "bit (word_mask w (int (n div 64))) (n mod 64) \<longleftrightarrow> int n < w"
proof -
  have "64 * (n div 64) + n mod 64 = n" by simp
  then show ?thesis by (simp only: bit_word_mask) simp
qed

lemma word_mask_full: "int (64 * i + 64) \<le> w \<Longrightarrow> word_mask w (int i) = UINT64_MAX"
  by (rule bit_word_eqI) (simp add: bit_word_mask)

section \<open>Arrays bit by bit\<close>

lemma wbit_index: "j < 64 \<Longrightarrow> wbit a (64 * i + j) \<longleftrightarrow> i < length a \<and> bit (a ! i) j"
  by (simp add: wbit_def)

lemma wbit_for_loop [word_array_simps]:
  assumes "nw \<le> length a"
  shows "wbit (for_loop nw (\<lambda>i a. a[i := f i]) a) n \<longleftrightarrow>
         (if n div 64 < nw then bit (f (n div 64)) (n mod 64) else wbit a n)"
  using assms by (auto simp: wbit_def nth_for_loop_update)

lemma wbit_for_down [word_array_simps]:
  assumes "nw \<le> length a"
  shows "wbit (for_down nw (\<lambda>i a. a[i := f i]) a) n \<longleftrightarrow>
         (if n div 64 < nw then bit (f (n div 64)) (n mod 64) else wbit a n)"
  using assms by (auto simp: wbit_def nth_for_down_update)

lemma wbit_update [word_array_simps]:
  "i < length a \<Longrightarrow> wbit (a[i := x]) n \<longleftrightarrow> (if n div 64 = i then bit x (n mod 64) else wbit a n)"
  by (auto simp: wbit_def nth_list_update)

lemma word_zero_iff_wbit:
  assumes "i < length a"
  shows "a ! i AND word_mask w (int i) = 0 \<longleftrightarrow>
         (\<forall>n. n div 64 = i \<longrightarrow> int n < w \<longrightarrow> \<not> wbit a n)"
proof
  assume z: "a ! i AND word_mask w (int i) = 0"
  show "\<forall>n. n div 64 = i \<longrightarrow> int n < w \<longrightarrow> \<not> wbit a n"
  proof (intro allI impI)
    fix n assume n: "n div 64 = i" "int n < w"
    have "\<not> bit (a ! i AND word_mask w (int i)) (n mod 64)" using z by simp
    with n assms show "\<not> wbit a n"
      using bit_word_mask_at [of w n] by (auto simp: wbit_def bit_and_iff)
  qed
next
  assume z: "\<forall>n. n div 64 = i \<longrightarrow> int n < w \<longrightarrow> \<not> wbit a n"
  show "a ! i AND word_mask w (int i) = 0"
  proof (rule bit_word_eqI)
    fix j assume "j < LENGTH(64)"
    then have "(64 * i + j) div 64 = i" "(64 * i + j) mod 64 = j" by simp_all
    with z [rule_format, of "64 * i + j"] assms
    show "bit (a ! i AND word_mask w (int i)) j \<longleftrightarrow> bit (0 :: u64) j"
      by (auto simp: bit_and_iff bit_word_mask wbit_def)
  qed
qed

text \<open>Testing words one after the other is testing all bits below the width.\<close>

lemma list_ex_words:
  assumes "num_words w \<le> length a"
  shows "list_ex (\<lambda>i. a ! i AND word_mask w (int i) \<noteq> 0) [0..<num_words w] \<longleftrightarrow>
         (\<exists>n. int n < w \<and> wbit a n)"
proof
  assume "list_ex (\<lambda>i. a ! i AND word_mask w (int i) \<noteq> 0) [0..<num_words w]"
  then obtain i where "i < num_words w" "a ! i AND word_mask w (int i) \<noteq> 0"
    by (auto simp: list_ex_iff)
  with assms word_zero_iff_wbit [of i a w] show "\<exists>n. int n < w \<and> wbit a n" by auto
next
  assume "\<exists>n. int n < w \<and> wbit a n"
  then obtain n where n: "int n < w" "wbit a n" by blast
  have i: "n div 64 < num_words w" using n(1) by (rule less_num_words)
  with n assms word_zero_iff_wbit [of "n div 64" a w]
  have "a ! (n div 64) AND word_mask w (int (n div 64)) \<noteq> 0" by auto
  with i show "list_ex (\<lambda>i. a ! i AND word_mask w (int i) \<noteq> 0) [0..<num_words w]"
    by (auto simp: list_ex_iff)
qed

lemma list_ex_words2:
  assumes "num_words w \<le> length a" and "num_words w \<le> length b"
  shows "list_ex (\<lambda>i. (a ! i OR b ! i) AND word_mask w (int i) \<noteq> 0) [0..<num_words w] \<longleftrightarrow>
         (\<exists>n. int n < w \<and> (wbit a n \<or> wbit b n))"
proof -
  have "(a ! i OR b ! i) AND m \<noteq> 0 \<longleftrightarrow> a ! i AND m \<noteq> 0 \<or> b ! i AND m \<noteq> 0" for i m
    by (simp add: bit.conj_disj_distrib2 or_eq_0_iff)
  then have "list_ex (\<lambda>i. (a ! i OR b ! i) AND word_mask w (int i) \<noteq> 0) [0..<num_words w] \<longleftrightarrow>
      list_ex (\<lambda>i. a ! i AND word_mask w (int i) \<noteq> 0) [0..<num_words w] \<or>
      list_ex (\<lambda>i. b ! i AND word_mask w (int i) \<noteq> 0) [0..<num_words w]"
    by (auto simp: list_ex_iff)
  then show ?thesis using list_ex_words assms by auto
qed

lemma list_all_words_eq:
  assumes "num_words w \<le> length a" and "num_words w \<le> length b"
  shows "list_all (\<lambda>i. a ! i AND word_mask w (int i) = b ! i AND word_mask w (int i))
           [0..<num_words w] \<longleftrightarrow>
         (\<forall>n. int n < w \<longrightarrow> wbit a n = wbit b n)"
proof
  assume eq: "list_all (\<lambda>i. a ! i AND word_mask w (int i) = b ! i AND word_mask w (int i))
           [0..<num_words w]"
  show "\<forall>n. int n < w \<longrightarrow> wbit a n = wbit b n"
  proof (intro allI impI)
    fix n assume n: "int n < w"
    then have i: "n div 64 < num_words w" by (rule less_num_words)
    with eq have "a ! (n div 64) AND word_mask w (int (n div 64)) =
                  b ! (n div 64) AND word_mask w (int (n div 64))"
      by (auto simp: list_all_iff)
    then have "bit (a ! (n div 64) AND word_mask w (int (n div 64))) (n mod 64) =
               bit (b ! (n div 64) AND word_mask w (int (n div 64))) (n mod 64)" by simp
    with n i assms show "wbit a n = wbit b n"
      by (simp add: bit_and_iff bit_word_mask_at wbit_def)
  qed
next
  assume eq: "\<forall>n. int n < w \<longrightarrow> wbit a n = wbit b n"
  have "a ! i AND word_mask w (int i) = b ! i AND word_mask w (int i)" if "i < num_words w" for i
  proof (rule bit_word_eqI)
    fix j assume "j < LENGTH(64)"
    then have "(64 * i + j) div 64 = i" "(64 * i + j) mod 64 = j" by simp_all
    with eq [rule_format, of "64 * i + j"] that assms
    show "bit (a ! i AND word_mask w (int i)) j = bit (b ! i AND word_mask w (int i)) j"
      by (auto simp: bit_and_iff bit_word_mask wbit_def)
  qed
  then show "list_all (\<lambda>i. a ! i AND word_mask w (int i) = b ! i AND word_mask w (int i))
           [0..<num_words w]"
    by (simp add: list_all_iff)
qed

section \<open>Consequences of the invariant\<close>

lemma sim_val_wfD:
  assumes "sim_val_wf v"
  shows "0 \<le> width v" and "width v \<le> 256"
    and "length (val v) = 4" and "length (xmask v) = 4" and "length (zmask v) = 4"
    and "wbit (val v) n \<Longrightarrow> int n < width v"
    and "wbit (xmask v) n \<Longrightarrow> int n < width v"
    and "wbit (zmask v) n \<Longrightarrow> int n < width v"
    and "num_words (width v) \<le> 4"
  using assms by (auto simp: sim_val_wf_def plane_ok_def num_words_le_4)

lemma sim_val_wf_disjoint:
  assumes "sim_val_wf v"
  shows "wbit (val v) n \<Longrightarrow> \<not> wbit (xmask v) n"
    and "wbit (val v) n \<Longrightarrow> \<not> wbit (zmask v) n"
    and "wbit (xmask v) n \<Longrightarrow> \<not> wbit (zmask v) n"
  using assms by (auto simp: sim_val_wf_def planes_disjoint_def)

lemma has_xz_iff_known: "sim_val_wf v \<Longrightarrow> sim_val_has_xz v \<longleftrightarrow> \<not> known v"
  unfolding sim_val_has_xz_def known_def
  by (subst list_ex_words2) (auto simp: sim_val_wfD dest: sim_val_wfD(7,8))

lemma uval_less: "sim_val_wf v \<Longrightarrow> uval v < 2 ^ nat (width v)"
  unfolding uval_def wval_lt_exp_iff by (auto dest: sim_val_wfD(1,6))

lemma plane_ok_iff_less:
  "0 \<le> w \<Longrightarrow> plane_ok w a \<longleftrightarrow> length a = 4 \<and> wval a < 2 ^ nat w"
  unfolding plane_ok_def wval_lt_exp_iff by (auto simp: not_le [symmetric] le_nat_iff)

lemma plane_ok_zero [simp]: "plane_ok w (replicate 4 0)"
  by (simp add: plane_ok_def)

lemma sim_val_zero_simps [simp]:
  "val (sim_val_zero w) = replicate 4 0" "xmask (sim_val_zero w) = replicate 4 0"
  "zmask (sim_val_zero w) = replicate 4 0" "width (sim_val_zero w) = w"
  by (simp_all add: sim_val_zero_def)

lemma sim_val_wf_zero [simp]: "0 \<le> w \<Longrightarrow> w \<le> 256 \<Longrightarrow> sim_val_wf (sim_val_zero w)"
  by (simp add: sim_val_wf_def planes_disjoint_def)

lemma known_zero [simp]: "known (sim_val_zero w)"
  by (simp add: known_def)

lemma uval_zero [simp]: "uval (sim_val_zero w) = 0"
  by (simp add: uval_def)

text \<open>Well-formed values of equal width with equal bits are equal.\<close>

lemma wbit_ext:
  assumes "length a = length b" and "\<And>n. wbit a n = wbit b n"
  shows "a = b"
proof -
  have "wval a = wval b" by (rule bit_eqI) (simp add: bit_wval assms(2))
  with assms(1) show ?thesis by (simp add: wval_eq_iff)
qed

lemma sim_bit_planes:
  assumes "sim_val_wf v"
  shows "wbit (val v) n \<longleftrightarrow> sim_bit v n = B1"
    and "wbit (xmask v) n \<longleftrightarrow> sim_bit v n = BX"
    and "wbit (zmask v) n \<longleftrightarrow> sim_bit v n = BZ"
  using sim_val_wf_disjoint [OF assms, of n] by (auto simp: sim_bit_def)

lemma sim_bit_beyond: "sim_val_wf v \<Longrightarrow> width v \<le> int n \<Longrightarrow> sim_bit v n = B0"
  by (auto simp: sim_bit_def dest: sim_val_wfD)

lemma sim_val_eqI:
  assumes "sim_val_wf a" "sim_val_wf b" "width a = width b"
    and "\<And>n. int n < width a \<Longrightarrow> sim_bit a n = sim_bit b n"
  shows "a = b"
proof -
  have bits: "sim_bit a n = sim_bit b n" for n
    using assms sim_bit_beyond [of a n] sim_bit_beyond [of b n] by (cases "int n < width a") auto
  have "val a = val b" "xmask a = xmask b" "zmask a = zmask b"
    by (rule wbit_ext; use assms(1,2) bits in \<open>simp add: sim_val_wfD sim_bit_planes\<close>)+
  with assms(3) show ?thesis by simp
qed

end
