(* ===== verification/Sim_Value_Bits.thy ===== *)
theory Sim_Value_Bits
  imports Sim_Value_Wf
begin

text \<open>
  Every operation of sim_value.c that is not arithmetic, read bit by bit: what each of the
  three arrays holds at bit \<open>n\<close> of the result, that the result is well-formed again, and
  the four-state truth tables the bitwise operators implement.
\<close>

section \<open>Masking\<close>

definition mask_plane :: "int \<Rightarrow> u64 list \<Rightarrow> u64 list" where
  "mask_plane w a =
     for_loop (4 - num_words w) (\<lambda>k a. a[num_words w + k := 0])
       (a[num_words w - 1 := a ! (num_words w - 1) AND top_word_mask w])"

lemma for_loop_planes:
  "for_loop n (\<lambda>k v. v\<lparr>val := (val v)[p k := f k], xmask := (xmask v)[p k := g k],
                       zmask := (zmask v)[p k := h k]\<rparr>) v =
   v\<lparr>val := for_loop n (\<lambda>k a. a[p k := f k]) (val v),
     xmask := for_loop n (\<lambda>k a. a[p k := g k]) (xmask v),
     zmask := for_loop n (\<lambda>k a. a[p k := h k]) (zmask v)\<rparr>"
  by (induction n) simp_all

lemma sim_val_mask_planes:
  "sim_val_mask v = v\<lparr>val := mask_plane (width v) (val v), xmask := mask_plane (width v) (xmask v),
                      zmask := mask_plane (width v) (zmask v)\<rparr>"
  by (simp add: sim_val_mask_def mask_plane_def Let_def for_loop_planes)

lemma length_for_loop_offset [simp]:
  "length (for_loop m (\<lambda>k a. a[q + k := f k]) a) = length a"
  by (induction m) auto

lemma nth_for_loop_offset:
  "j < length a \<Longrightarrow>
   for_loop m (\<lambda>k a. a[q + k := 0]) a ! j = (if q \<le> j \<and> j < q + m then 0 else a ! j)"
proof (induction m)
  case 0
  then show ?case by auto
next
  case (Suc m)
  then show ?case by (auto simp: nth_update_or)
qed

lemma length_mask_plane [simp]: "length (mask_plane w a) = length a"
  by (simp add: mask_plane_def)

lemma wbit_mask_plane:
  assumes "length a = 4" and "w \<le> 256"
  shows "wbit (mask_plane w a) n \<longleftrightarrow> wbit a n \<and> int n < w"
proof -
  let ?nw = "num_words w"
  have nw: "0 < ?nw" "?nw \<le> 4" using assms(2) by (simp_all add: num_words_le_4)
  have top: "word_mask w (int (?nw - 1)) = top_word_mask w"
    using nw by (simp add: word_mask_def Let_def)
  show ?thesis
  proof (cases "n div 64 < 4")
    case False
    then show ?thesis using assms(1) by (simp add: wbit_def)
  next
    case True
    consider "n div 64 < ?nw - 1" | "n div 64 = ?nw - 1" | "?nw \<le> n div 64" using nw by linarith
    then show ?thesis
    proof cases
      case 1
      then have "int (n div 64) < int ?nw - 1" by linarith
      then have "word_mask w (int (n div 64)) = UINT64_MAX"
        by (simp add: word_mask_def Let_def)
      then have "int n < w" using bit_word_mask_at [of w n] by simp
      with 1 True assms(1) show ?thesis
        by (auto simp: mask_plane_def wbit_def nth_for_loop_offset)
    next
      case 2
      then have "mask_plane w a ! (n div 64) = a ! (n div 64) AND word_mask w (int (n div 64))"
        using nw True assms(1) top by (auto simp: mask_plane_def nth_for_loop_offset nth_update_or)
      with True assms(1) show ?thesis
        by (simp add: wbit_def bit_and_iff bit_word_mask_at)
    next
      case 3
      then have "\<not> int n < w" using less_num_words [of n w] by linarith
      with 3 nw True assms(1) show ?thesis
        by (simp add: mask_plane_def wbit_def nth_for_loop_offset)
    qed
  qed
qed

text \<open>The shape every operation starts from: three arrays of four words, any content.\<close>

definition shaped :: "SimValue \<Rightarrow> bool" where
  "shaped v \<longleftrightarrow> length (val v) = 4 \<and> length (xmask v) = 4 \<and> length (zmask v) = 4 \<and> width v \<le> 256"

lemma wf_shaped: "sim_val_wf v \<Longrightarrow> shaped v"
  by (simp add: shaped_def sim_val_wfD)

lemma width_sim_val_mask [simp]: "width (sim_val_mask v) = width v"
  by (simp add: sim_val_mask_planes)

lemma wbit_sim_val_mask:
  assumes "shaped v"
  shows "wbit (val (sim_val_mask v)) n \<longleftrightarrow> wbit (val v) n \<and> int n < width v"
    and "wbit (xmask (sim_val_mask v)) n \<longleftrightarrow> wbit (xmask v) n \<and> int n < width v"
    and "wbit (zmask (sim_val_mask v)) n \<longleftrightarrow> wbit (zmask v) n \<and> int n < width v"
  using assms by (simp_all add: sim_val_mask_planes shaped_def wbit_mask_plane)

lemma sim_val_wfI:
  assumes "0 \<le> width v" "width v \<le> 256"
    and "length (val v) = 4" "length (xmask v) = 4" "length (zmask v) = 4"
    and "\<And>n. wbit (val v) n \<Longrightarrow> int n < width v"
    and "\<And>n. wbit (xmask v) n \<Longrightarrow> int n < width v"
    and "\<And>n. wbit (zmask v) n \<Longrightarrow> int n < width v"
    and "planes_disjoint v"
  shows "sim_val_wf v"
  using assms by (auto simp: sim_val_wf_def plane_ok_def)

lemma sim_val_wf_mask:
  assumes "shaped v" "0 \<le> width v" "planes_disjoint v"
  shows "sim_val_wf (sim_val_mask v)"
proof (rule sim_val_wfI)
  show "planes_disjoint (sim_val_mask v)"
    using assms(3) by (auto simp: planes_disjoint_def wbit_sim_val_mask [OF assms(1)])
qed (use assms in \<open>auto simp: sim_val_mask_planes shaped_def wbit_mask_plane\<close>)

lemma sim_bit_mask:
  assumes "shaped v" "int n < width v"
  shows "sim_bit (sim_val_mask v) n = sim_bit v n"
  using assms by (simp add: sim_bit_def wbit_sim_val_mask)

lemma sim_val_wf_planes_disjoint: "sim_val_wf v \<Longrightarrow> planes_disjoint v"
  by (simp add: sim_val_wf_def)

lemma sim_val_mask_idem:
  assumes "sim_val_wf v"
  shows "sim_val_mask v = v"
proof (rule sim_val_eqI)
  show "sim_val_wf (sim_val_mask v)"
    using assms by (intro sim_val_wf_mask wf_shaped sim_val_wf_planes_disjoint sim_val_wfD)
qed (use assms wf_shaped [OF assms] in \<open>simp_all add: sim_bit_mask\<close>)

text \<open>Changing the width of a well-formed value and masking: truncation or zero extension.\<close>

lemma resize_shaped: "sim_val_wf v \<Longrightarrow> w \<le> 256 \<Longrightarrow> shaped (v\<lparr>width := w\<rparr>)"
  by (simp add: shaped_def sim_val_wfD)

lemma planes_disjoint_width [simp]: "planes_disjoint (v\<lparr>width := w\<rparr>) = planes_disjoint v"
  by (simp add: planes_disjoint_def)

lemma sim_val_wf_resize:
  "sim_val_wf v \<Longrightarrow> 0 \<le> w \<Longrightarrow> w \<le> 256 \<Longrightarrow> sim_val_wf (sim_val_mask (v\<lparr>width := w\<rparr>))"
  by (rule sim_val_wf_mask) (simp_all add: resize_shaped sim_val_wf_def)

lemma sim_val_wf_widen:
  "sim_val_wf v \<Longrightarrow> width v \<le> w \<Longrightarrow> w \<le> 256 \<Longrightarrow> sim_val_wf (v\<lparr>width := w\<rparr>)"
  by (rule sim_val_wfI) (auto simp: sim_val_wf_def plane_ok_def)

lemma known_mask: "shaped v \<Longrightarrow> known v \<Longrightarrow> known (sim_val_mask v)"
  by (simp add: known_def wbit_sim_val_mask)

lemma known_width [simp]: "known (v\<lparr>width := w\<rparr>) = known v"
  by (simp add: known_def)

lemma uval_width [simp]: "uval (v\<lparr>width := w\<rparr>) = uval v"
  by (simp add: uval_def)

lemma uval_mask: "shaped v \<Longrightarrow> 0 \<le> width v \<Longrightarrow> uval (sim_val_mask v) = uval v mod 2 ^ nat (width v)"
proof -
  assume v: "shaped v" "0 \<le> width v"
  have "uval (sim_val_mask v) = take_bit (nat (width v)) (uval v)"
    by (rule bit_eqI)
       (use v in \<open>auto simp: uval_def bit_wval bit_take_bit_iff wbit_sim_val_mask zless_nat_conj\<close>)
  then show ?thesis by (simp add: take_bit_eq_mod)
qed

section \<open>Constructors\<close>

lemma length_fill_ones [simp]: "length (fill_ones w a) = length a"
  by (simp add: fill_ones_def Let_def)

lemma fill_ones_masks:
  assumes "length a = 4" "w \<le> 256" "k < 4"
  shows "fill_ones w a ! k = (if k < num_words w then word_mask w (int k) else a ! k)"
proof -
  let ?nw = "num_words w"
  have nw: "0 < ?nw" "?nw \<le> 4" using assms(2) by (simp_all add: num_words_le_4)
  consider "k < ?nw - 1" | "k = ?nw - 1" | "?nw \<le> k" using nw by linarith
  then show ?thesis
  proof cases
    case 1
    then have "int k < int ?nw - 1" by linarith
    with 1 nw assms show ?thesis
      by (simp add: fill_ones_def Let_def nth_for_loop_update word_mask_def)
  next
    case 2
    with nw assms show ?thesis by (simp add: fill_ones_def Let_def word_mask_def)
  next
    case 3
    with nw assms show ?thesis
      by (auto simp: fill_ones_def Let_def nth_for_loop_update nth_update_or)
  qed
qed

lemma wbit_fill_ones:
  assumes "w \<le> 256"
  shows "wbit (fill_ones w (replicate 4 0)) n \<longleftrightarrow> int n < w"
proof (cases "n div 64 < 4")
  case True
  then show ?thesis
    using assms less_num_words [of n w]
    by (auto simp: wbit_def fill_ones_masks bit_word_mask_at)
next
  case False
  then show ?thesis using assms by (simp add: wbit_def)
qed

lemma sim_val_all_x_simps [simp]:
  "val (sim_val_all_x w) = replicate 4 0" "xmask (sim_val_all_x w) = fill_ones w (replicate 4 0)"
  "zmask (sim_val_all_x w) = replicate 4 0" "width (sim_val_all_x w) = w"
  by (simp_all add: sim_val_all_x_def Let_def)

lemma sim_val_all_z_simps [simp]:
  "val (sim_val_all_z w) = replicate 4 0" "zmask (sim_val_all_z w) = fill_ones w (replicate 4 0)"
  "xmask (sim_val_all_z w) = replicate 4 0" "width (sim_val_all_z w) = w"
  by (simp_all add: sim_val_all_z_def Let_def)

lemma sim_val_ones_simps [simp]:
  "val (sim_val_ones w) = fill_ones w (replicate 4 0)" "xmask (sim_val_ones w) = replicate 4 0"
  "zmask (sim_val_ones w) = replicate 4 0" "width (sim_val_ones w) = w"
  by (simp_all add: sim_val_ones_def Let_def)

lemma sim_val_wf_all_x [simp]: "0 \<le> w \<Longrightarrow> w \<le> 256 \<Longrightarrow> sim_val_wf (sim_val_all_x w)"
  by (rule sim_val_wfI) (auto simp: wbit_fill_ones planes_disjoint_def)

lemma sim_val_wf_all_z [simp]: "0 \<le> w \<Longrightarrow> w \<le> 256 \<Longrightarrow> sim_val_wf (sim_val_all_z w)"
  by (rule sim_val_wfI) (auto simp: wbit_fill_ones planes_disjoint_def)

lemma sim_val_wf_ones [simp]: "0 \<le> w \<Longrightarrow> w \<le> 256 \<Longrightarrow> sim_val_wf (sim_val_ones w)"
  by (rule sim_val_wfI) (auto simp: wbit_fill_ones planes_disjoint_def)

lemma known_ones [simp]: "known (sim_val_ones w)"
  by (simp add: known_def)

lemma sim_bit_all_x: "w \<le> 256 \<Longrightarrow> int n < w \<Longrightarrow> sim_bit (sim_val_all_x w) n = BX"
  by (simp add: sim_bit_def wbit_fill_ones)

lemma sim_bit_all_z: "w \<le> 256 \<Longrightarrow> int n < w \<Longrightarrow> sim_bit (sim_val_all_z w) n = BZ"
  by (simp add: sim_bit_def wbit_fill_ones)

lemma sim_bit_ones: "w \<le> 256 \<Longrightarrow> int n < w \<Longrightarrow> sim_bit (sim_val_ones w) n = B1"
  by (simp add: sim_bit_def wbit_fill_ones)

lemma sim_bit_zero [simp]: "sim_bit (sim_val_zero w) n = B0"
  by (simp add: sim_bit_def)

lemma uval_ones: "0 \<le> w \<Longrightarrow> w \<le> 256 \<Longrightarrow> uval (sim_val_ones w) = 2 ^ nat w - 1"
proof -
  assume w: "0 \<le> w" "w \<le> 256"
  have "uval (sim_val_ones w) = mask (nat w)"
    by (rule bit_eqI) (use w in \<open>auto simp: uval_def bit_wval wbit_fill_ones bit_mask_iff\<close>)
  then show ?thesis by (simp add: mask_eq_exp_minus_1)
qed

lemma planes_disjoint_known: "known v \<Longrightarrow> planes_disjoint v"
  by (auto simp: known_def planes_disjoint_def)

lemma sim_val_from_words_simps [simp]:
  "width (sim_val_from_words ws nw w) = w"
  by (simp add: sim_val_from_words_def Let_def)

lemma from_words_shaped:
  "w \<le> 256 \<Longrightarrow>
   shaped ((sim_val_zero w)\<lparr>val := for_loop n (\<lambda>i a. a[i := ws ! i]) (replicate 4 0)\<rparr>)"
  by (simp add: shaped_def)

lemma sim_val_wf_from_words [simp]:
  assumes "0 \<le> w" "w \<le> 256"
  shows "sim_val_wf (sim_val_from_words ws nw w)"
  unfolding sim_val_from_words_def Let_def
  by (rule sim_val_wf_mask)
     (use assms in \<open>auto simp: shaped_def intro!: planes_disjoint_known simp: known_def\<close>)

lemma known_from_words: "w \<le> 256 \<Longrightarrow> known (sim_val_from_words ws nw w)"
  unfolding sim_val_from_words_def Let_def
  by (rule known_mask) (auto simp: shaped_def known_def)

lemma uval_from_words:
  assumes "0 \<le> w" "w \<le> 256" "length ws = 4"
  shows "uval (sim_val_from_words ws 4 w) = wval ws mod 2 ^ nat w"
proof -
  have "for_loop 4 (\<lambda>i a. a[i := ws ! i]) (replicate 4 0) = ws"
    by (rule nth_equalityI) (use assms(3) in \<open>auto simp: nth_for_loop_update\<close>)
  then show ?thesis
    using assms by (simp add: sim_val_from_words_def Let_def uval_mask shaped_def)
       (simp add: uval_def)
qed

lemma width_from_uint [simp]: "width (sim_val_from_uint n w) = w"
  by (simp add: sim_val_from_uint_def Let_def)

lemma known_from_uint [simp]: "known (sim_val_from_uint n w)"
  by (simp add: sim_val_from_uint_def Let_def known_def)

lemma length_val_from_uint [simp]: "length (val (sim_val_from_uint n w)) = 4"
  by (simp add: sim_val_from_uint_def Let_def)

lemma val_from_uint:
  "0 < w \<Longrightarrow> val (sim_val_from_uint n w) = (replicate 4 0)[0 := take_bit (nat w) n]"
proof -
  assume w: "0 < w"
  have m: "(if w = 64 then UINT64_MAX else push_bit (nat w) 1 - 1) = (mask (nat w) :: u64)"
    if "w \<le> 64"
    by (rule bit_word_eqI)
       (use that w in \<open>auto simp: bit_push_1_minus_1 bit_mask_iff simp del: push_bit_of_1\<close>)
  show ?thesis
  proof (cases "w \<le> 64")
    case True
    then show ?thesis using w m by (simp add: sim_val_from_uint_def Let_def take_bit_eq_mask)
  next
    case False
    then have "take_bit (nat w) n = n" by (intro bit_word_eqI) (auto simp: bit_take_bit_iff)
    with False show ?thesis by (simp add: sim_val_from_uint_def Let_def)
  qed
qed

lemma wval_low_word: "wval ((replicate 4 0)[0 := x]) = unat x"
  by (simp add: replicate_4)

lemma uval_from_uint: "0 < w \<Longrightarrow> uval (sim_val_from_uint n w) = unat n mod 2 ^ nat w"
  by (simp add: uval_def val_from_uint wval_low_word unsigned_take_bit_eq take_bit_eq_mod [of _ "unat n"])

lemma sim_val_wf_from_uint [simp]:
  assumes "0 < w" "w \<le> 256"
  shows "sim_val_wf (sim_val_from_uint n w)"
proof -
  have "uval (sim_val_from_uint n w) < 2 ^ nat w"
    using assms(1) by (simp add: uval_from_uint)
  then have "plane_ok w (val (sim_val_from_uint n w))"
    using assms(1) by (subst plane_ok_iff_less) (simp_all add: uval_def)
  moreover have "xmask (sim_val_from_uint n w) = replicate 4 0"
    and "zmask (sim_val_from_uint n w) = replicate 4 0"
    by (simp_all add: sim_val_from_uint_def Let_def)
  ultimately show ?thesis
    using assms by (simp add: sim_val_wf_def planes_disjoint_known)
qed

end
