(* ===== verification/Sim_Value_Logic.thy ===== *)
theory Sim_Value_Logic
  imports Sim_Value_Bits
begin

text \<open>
  The bitwise, logical and comparison operators against four-state truth tables and the
  order of natural numbers.
\<close>

section \<open>Truth tables\<close>

fun and4 :: "bit4 \<Rightarrow> bit4 \<Rightarrow> bit4" where
  "and4 B0 _ = B0"
| "and4 _ B0 = B0"
| "and4 B1 B1 = B1"
| "and4 _ _ = BX"

fun or4 :: "bit4 \<Rightarrow> bit4 \<Rightarrow> bit4" where
  "or4 B1 _ = B1"
| "or4 _ B1 = B1"
| "or4 B0 B0 = B0"
| "or4 _ _ = BX"

fun xor4 :: "bit4 \<Rightarrow> bit4 \<Rightarrow> bit4" where
  "xor4 B0 B0 = B0"
| "xor4 B1 B1 = B0"
| "xor4 B0 B1 = B1"
| "xor4 B1 B0 = B1"
| "xor4 _ _ = BX"

fun not4 :: "bit4 \<Rightarrow> bit4" where
  "not4 B0 = B1"
| "not4 B1 = B0"
| "not4 _ = BX"

text \<open>The merge of the two branches of a ternary whose condition is unknown.\<close>

definition merge4 :: "bit4 \<Rightarrow> bit4 \<Rightarrow> bit4" where
  "merge4 s t = (if s = t \<and> (s = B0 \<or> s = B1) then s else BX)"

section \<open>Loops that write a value word and an x-mask word\<close>

lemma for_loop_val_x:
  "for_loop n (\<lambda>i r. r\<lparr>val := (val r)[i := f i], xmask := (xmask r)[i := g i]\<rparr>) r =
   r\<lparr>val := for_loop n (\<lambda>i a. a[i := f i]) (val r),
     xmask := for_loop n (\<lambda>i a. a[i := g i]) (xmask r)\<rparr>"
  by (induction n) simp_all

definition pointwise :: "int \<Rightarrow> (nat \<Rightarrow> u64) \<Rightarrow> (nat \<Rightarrow> u64) \<Rightarrow> SimValue" where
  "pointwise rw f g =
     for_loop (num_words rw) (\<lambda>i r. r\<lparr>val := (val r)[i := f i], xmask := (xmask r)[i := g i]\<rparr>)
       (sim_val_zero rw)"

lemma pointwise_simps:
  assumes "rw \<le> 256"
  shows "width (pointwise rw f g) = rw"
    and "length (val (pointwise rw f g)) = 4"
    and "length (xmask (pointwise rw f g)) = 4"
    and "zmask (pointwise rw f g) = replicate 4 0"
    and "wbit (val (pointwise rw f g)) n \<longleftrightarrow>
         n div 64 < num_words rw \<and> bit (f (n div 64)) (n mod 64)"
    and "wbit (xmask (pointwise rw f g)) n \<longleftrightarrow>
         n div 64 < num_words rw \<and> bit (g (n div 64)) (n mod 64)"
  using num_words_le_4 [OF assms] by (simp_all add: pointwise_def for_loop_val_x wbit_for_loop)

text \<open>
  A pointwise result is well-formed and has the bits of a table \<open>t\<close> when the words written
  agree with the table below the width and are zero above it.
\<close>

lemma pointwise_table:
  assumes rw: "0 \<le> rw" "rw \<le> 256"
    and f: "\<And>n. n div 64 < 4 \<Longrightarrow> bit (f (n div 64)) (n mod 64) \<longleftrightarrow> int n < rw \<and> t n = B1"
    and g: "\<And>n. n div 64 < 4 \<Longrightarrow> bit (g (n div 64)) (n mod 64) \<longleftrightarrow> int n < rw \<and> t n = BX"
    and z: "\<And>n. t n \<noteq> BZ"
  shows "sim_val_wf (pointwise rw f g)"
    and "\<And>n. int n < rw \<Longrightarrow> sim_bit (pointwise rw f g) n = t n"
proof -
  have v: "wbit (val (pointwise rw f g)) n \<longleftrightarrow> int n < rw \<and> t n = B1" for n
    using num_words_le_4 [OF rw(2)] less_num_words [of n rw] f [of n]
    by (auto simp: pointwise_simps [OF rw(2)])
  have x: "wbit (xmask (pointwise rw f g)) n \<longleftrightarrow> int n < rw \<and> t n = BX" for n
    using num_words_le_4 [OF rw(2)] less_num_words [of n rw] g [of n]
    by (auto simp: pointwise_simps [OF rw(2)])
  show "sim_val_wf (pointwise rw f g)"
    by (rule sim_val_wfI) (use rw v x in \<open>auto simp: pointwise_simps(1-4) planes_disjoint_def\<close>)
  show "sim_bit (pointwise rw f g) n = t n" if "int n < rw" for n
    using that v [of n] x [of n] z [of n] rw
    by (cases "t n") (auto simp: sim_bit_def pointwise_simps(4))
qed

lemma bit_nth_wbit:
  "length a = 4 \<Longrightarrow> n div 64 < 4 \<Longrightarrow> bit (a ! (n div 64)) (n mod 64) = wbit a n"
  by (simp add: wbit_def)

lemma bit_word_u64 [simp]: "n mod 64 < LENGTH(64)" for n :: nat
  by simp

lemmas plane_bit_simps =
  bit_and_iff bit_or_iff bit_xor_iff bit_not_iff bit_word_mask_at bit_nth_wbit sim_val_wfD sim_bit_planes

section \<open>Bitwise operators\<close>

definition max_width :: "SimValue \<Rightarrow> SimValue \<Rightarrow> int" where
  "max_width a b = (if width a > width b then width a else width b)"

lemma max_width_bounds:
  assumes "sim_val_wf a" "sim_val_wf b"
  shows "0 \<le> max_width a b" "max_width a b \<le> 256"
    "width a \<le> max_width a b" "width b \<le> max_width a b"
  using assms by (auto simp: max_width_def sim_val_wfD)

lemma sim_val_and_bits:
  assumes "sim_val_wf a" "sim_val_wf b"
  shows "sim_val_wf (sim_val_and a b)"
    and "width (sim_val_and a b) = max_width a b"
    and "\<And>n. int n < max_width a b \<Longrightarrow> sim_bit (sim_val_and a b) n = and4 (sim_bit a n) (sim_bit b n)"
proof -
  note B = max_width_bounds [OF assms]
  let ?m = "\<lambda>i. word_mask (max_width a b) (int i)"
  let ?ax = "\<lambda>i. (xmask a ! i OR zmask a ! i) AND ?m i"
  let ?bx = "\<lambda>i. (xmask b ! i OR zmask b ! i) AND ?m i"
  let ?fz = "\<lambda>i. ((NOT (val a ! i) AND NOT (?ax i)) AND ?m i) OR ((NOT (val b ! i) AND NOT (?bx i)) AND ?m i)"
  let ?g = "\<lambda>i. ((?ax i OR ?bx i) AND NOT (?fz i)) AND ?m i"
  let ?f = "\<lambda>i. (val a ! i AND val b ! i AND ?m i) AND NOT (?g i)"
  have eq: "sim_val_and a b = pointwise (max_width a b) ?f ?g"
    by (simp add: sim_val_and_def pointwise_def max_width_def Let_def)
  have f: "bit (?f (n div 64)) (n mod 64) \<longleftrightarrow> int n < max_width a b \<and> and4 (sim_bit a n) (sim_bit b n) = B1"
    and g: "bit (?g (n div 64)) (n mod 64) \<longleftrightarrow> int n < max_width a b \<and> and4 (sim_bit a n) (sim_bit b n) = BX"
    if "n div 64 < 4" for n
    using that assms
    by (cases "sim_bit a n"; cases "sim_bit b n"; simp add: plane_bit_simps)+
  have z: "and4 s t \<noteq> BZ" for s t by (cases s; cases t) simp_all
  show "sim_val_wf (sim_val_and a b)"
    unfolding eq by (rule pointwise_table(1) [OF B(1,2) f g z])
  show "width (sim_val_and a b) = max_width a b"
    unfolding eq by (rule pointwise_simps(1) [OF B(2)])
  show "sim_bit (sim_val_and a b) n = and4 (sim_bit a n) (sim_bit b n)" if "int n < max_width a b" for n
    unfolding eq by (rule pointwise_table(2) [OF B(1,2) f g z that])
qed

lemma sim_val_or_bits:
  assumes "sim_val_wf a" "sim_val_wf b"
  shows "sim_val_wf (sim_val_or a b)"
    and "width (sim_val_or a b) = max_width a b"
    and "\<And>n. int n < max_width a b \<Longrightarrow> sim_bit (sim_val_or a b) n = or4 (sim_bit a n) (sim_bit b n)"
proof -
  note B = max_width_bounds [OF assms]
  let ?m = "\<lambda>i. word_mask (max_width a b) (int i)"
  let ?ax = "\<lambda>i. (xmask a ! i OR zmask a ! i) AND ?m i"
  let ?bx = "\<lambda>i. (xmask b ! i OR zmask b ! i) AND ?m i"
  let ?fo = "\<lambda>i. ((val a ! i AND NOT (?ax i)) AND ?m i) OR ((val b ! i AND NOT (?bx i)) AND ?m i)"
  let ?g = "\<lambda>i. ((?ax i OR ?bx i) AND NOT (?fo i)) AND ?m i"
  let ?f = "\<lambda>i. (((val a ! i OR val b ! i) AND ?m i) OR ?fo i) AND NOT (?g i)"
  have eq: "sim_val_or a b = pointwise (max_width a b) ?f ?g"
    by (simp add: sim_val_or_def pointwise_def max_width_def Let_def)
  have f: "bit (?f (n div 64)) (n mod 64) \<longleftrightarrow> int n < max_width a b \<and> or4 (sim_bit a n) (sim_bit b n) = B1"
    and g: "bit (?g (n div 64)) (n mod 64) \<longleftrightarrow> int n < max_width a b \<and> or4 (sim_bit a n) (sim_bit b n) = BX"
    if "n div 64 < 4" for n
    using that assms
    by (cases "sim_bit a n"; cases "sim_bit b n"; simp add: plane_bit_simps)+
  have z: "or4 s t \<noteq> BZ" for s t by (cases s; cases t) simp_all
  show "sim_val_wf (sim_val_or a b)"
    unfolding eq by (rule pointwise_table(1) [OF B(1,2) f g z])
  show "width (sim_val_or a b) = max_width a b"
    unfolding eq by (rule pointwise_simps(1) [OF B(2)])
  show "sim_bit (sim_val_or a b) n = or4 (sim_bit a n) (sim_bit b n)" if "int n < max_width a b" for n
    unfolding eq by (rule pointwise_table(2) [OF B(1,2) f g z that])
qed

lemma sim_val_xor_bits:
  assumes "sim_val_wf a" "sim_val_wf b"
  shows "sim_val_wf (sim_val_xor a b)"
    and "width (sim_val_xor a b) = max_width a b"
    and "\<And>n. int n < max_width a b \<Longrightarrow> sim_bit (sim_val_xor a b) n = xor4 (sim_bit a n) (sim_bit b n)"
proof -
  note B = max_width_bounds [OF assms]
  let ?m = "\<lambda>i. word_mask (max_width a b) (int i)"
  let ?ax = "\<lambda>i. (xmask a ! i OR zmask a ! i) AND ?m i"
  let ?bx = "\<lambda>i. (xmask b ! i OR zmask b ! i) AND ?m i"
  let ?g = "\<lambda>i. (?ax i OR ?bx i) AND ?m i"
  let ?f = "\<lambda>i. (val a ! i XOR val b ! i) AND ?m i AND NOT (?g i)"
  have eq: "sim_val_xor a b = pointwise (max_width a b) ?f ?g"
    by (simp add: sim_val_xor_def pointwise_def max_width_def Let_def)
  have f: "bit (?f (n div 64)) (n mod 64) \<longleftrightarrow> int n < max_width a b \<and> xor4 (sim_bit a n) (sim_bit b n) = B1"
    and g: "bit (?g (n div 64)) (n mod 64) \<longleftrightarrow> int n < max_width a b \<and> xor4 (sim_bit a n) (sim_bit b n) = BX"
    if "n div 64 < 4" for n
    using that assms
    by (cases "sim_bit a n"; cases "sim_bit b n"; simp add: plane_bit_simps)+
  have z: "xor4 s t \<noteq> BZ" for s t by (cases s; cases t) simp_all
  show "sim_val_wf (sim_val_xor a b)"
    unfolding eq by (rule pointwise_table(1) [OF B(1,2) f g z])
  show "width (sim_val_xor a b) = max_width a b"
    unfolding eq by (rule pointwise_simps(1) [OF B(2)])
  show "sim_bit (sim_val_xor a b) n = xor4 (sim_bit a n) (sim_bit b n)" if "int n < max_width a b" for n
    unfolding eq by (rule pointwise_table(2) [OF B(1,2) f g z that])
qed

lemma sim_val_not_bits:
  assumes "sim_val_wf a"
  shows "sim_val_wf (sim_val_not a)"
    and "width (sim_val_not a) = width a"
    and "\<And>n. int n < width a \<Longrightarrow> sim_bit (sim_val_not a) n = not4 (sim_bit a n)"
proof -
  note B = sim_val_wfD(1,2) [OF assms]
  let ?m = "\<lambda>i. word_mask (width a) (int i)"
  let ?g = "\<lambda>i. (xmask a ! i OR zmask a ! i) AND ?m i"
  let ?f = "\<lambda>i. (NOT (val a ! i) AND ?m i) AND NOT (?g i)"
  have eq: "sim_val_not a = pointwise (width a) ?f ?g"
    by (simp add: sim_val_not_def pointwise_def Let_def)
  have f: "bit (?f (n div 64)) (n mod 64) \<longleftrightarrow> int n < width a \<and> not4 (sim_bit a n) = B1"
    and g: "bit (?g (n div 64)) (n mod 64) \<longleftrightarrow> int n < width a \<and> not4 (sim_bit a n) = BX"
    if "n div 64 < 4" for n
    using that assms by (cases "sim_bit a n"; simp add: plane_bit_simps)+
  have z: "not4 s \<noteq> BZ" for s by (cases s) simp_all
  show "sim_val_wf (sim_val_not a)"
    unfolding eq by (rule pointwise_table(1) [OF B f g z])
  show "width (sim_val_not a) = width a"
    unfolding eq by (rule pointwise_simps(1) [OF B(2)])
  show "sim_bit (sim_val_not a) n = not4 (sim_bit a n)" if "int n < width a" for n
    unfolding eq by (rule pointwise_table(2) [OF B f g z that])
qed

section \<open>Truth value, ternary select\<close>

lemma sim_val_is_true_eq:
  assumes "sim_val_wf v"
  shows "sim_val_is_true v = (if \<not> known v then -1 else if uval v \<noteq> 0 then 1 else 0)"
proof -
  have "list_ex (\<lambda>i. val v ! i AND word_mask (width v) (int i) \<noteq> 0) [0..<num_words (width v)] \<longleftrightarrow>
        uval v \<noteq> 0"
  proof -
    have "uval v = 0 \<longleftrightarrow> (\<forall>n. \<not> wbit (val v) n)"
      by (simp add: uval_def bit_eq_iff bit_wval)
    then show ?thesis
      using assms by (subst list_ex_words) (auto simp: sim_val_wfD dest: sim_val_wfD(6))
  qed
  moreover have "sim_val_has_xz v \<longleftrightarrow> \<not> known v" using assms by (rule has_xz_iff_known)
  ultimately show ?thesis by (simp add: sim_val_is_true_def sim_val_has_xz_def Let_def)
qed

lemma sim_val_ternary_bits:
  assumes "sim_val_wf c" "sim_val_wf t" "sim_val_wf f" "\<not> known c"
  shows "sim_val_wf (sim_val_ternary c t f)"
    and "width (sim_val_ternary c t f) = max_width t f"
    and "\<And>n. int n < max_width t f \<Longrightarrow>
           sim_bit (sim_val_ternary c t f) n = merge4 (sim_bit t n) (sim_bit f n)"
proof -
  note B = max_width_bounds [OF assms(2,3)]
  let ?m = "\<lambda>i. word_mask (max_width t f) (int i)"
  let ?g = "\<lambda>i. ((val t ! i XOR val f ! i) OR xmask t ! i OR xmask f ! i OR zmask t ! i OR zmask f ! i) AND ?m i"
  let ?f = "\<lambda>i. val t ! i AND NOT (?g i)"
  have eq: "sim_val_ternary c t f = pointwise (max_width t f) ?f ?g"
    using assms(4) sim_val_is_true_eq [OF assms(1)]
    by (simp add: sim_val_ternary_def pointwise_def max_width_def Let_def)
  have lim: "sim_bit t n = B0 \<and> sim_bit f n = B0" if "\<not> int n < max_width t f" for n
    using that B sim_bit_beyond [OF assms(2), of n] sim_bit_beyond [OF assms(3), of n] by simp
  have f: "bit (?f (n div 64)) (n mod 64) \<longleftrightarrow> int n < max_width t f \<and> merge4 (sim_bit t n) (sim_bit f n) = B1"
    and g: "bit (?g (n div 64)) (n mod 64) \<longleftrightarrow> int n < max_width t f \<and> merge4 (sim_bit t n) (sim_bit f n) = BX"
    if "n div 64 < 4" for n
    using that assms(2,3) lim [of n]
    by (cases "sim_bit t n"; cases "sim_bit f n"; auto simp: plane_bit_simps merge4_def)+
  have z: "merge4 s u \<noteq> BZ" for s u by (auto simp: merge4_def)
  show "sim_val_wf (sim_val_ternary c t f)"
    unfolding eq by (rule pointwise_table(1) [OF B(1,2) f g z])
  show "width (sim_val_ternary c t f) = max_width t f"
    unfolding eq by (rule pointwise_simps(1) [OF B(2)])
  show "sim_bit (sim_val_ternary c t f) n = merge4 (sim_bit t n) (sim_bit f n)"
    if "int n < max_width t f" for n
    unfolding eq by (rule pointwise_table(2) [OF B(1,2) f g z that])
qed

end
