(* ===== verification/Sim_Value_Arith.thy ===== *)
theory Sim_Value_Arith
  imports Sim_Value_Logic
begin

text \<open>
  The arithmetic of sim_value.c against arithmetic on natural numbers: the carry and borrow
  loops, the comparison loop, shifts, shift-and-add multiplication and restoring division.
\<close>

section \<open>Arrays as sums of masked words\<close>

definition masked :: "u64 list \<Rightarrow> int \<Rightarrow> nat \<Rightarrow> u64" where
  "masked a w i = a ! i AND word_mask w (int i)"

lemma wval_map_Suc:
  "wval (map f [0..<Suc k]) = wval (map f [0..<k]) + 2 ^ (64 * k) * unat (f k)"
  by (simp add: wval_append)

lemma wbit_map_upt: "wbit (map f [0..<k]) n \<longleftrightarrow> n div 64 < k \<and> bit (f (n div 64)) (n mod 64)"
  by (auto simp: wbit_def)

lemma wval_masked:
  assumes "plane_ok w a" "w \<le> 256"
  shows "wval (map (masked a w) [0..<num_words w]) = wval a"
proof (rule bit_eqI)
  fix n
  show "bit (wval (map (masked a w) [0..<num_words w])) n = bit (wval a) n"
    using assms num_words_le_4 [OF assms(2)] less_num_words [of n w]
    by (auto simp: bit_wval wbit_map_upt masked_def bit_and_iff bit_word_mask_at plane_ok_def bit_nth_wbit)
qed

lemma plane_ok_mono: "plane_ok w a \<Longrightarrow> w \<le> w' \<Longrightarrow> plane_ok w' a"
  by (force simp: plane_ok_def)

lemma wf_plane_ok: "sim_val_wf v \<Longrightarrow> width v \<le> w \<Longrightarrow> plane_ok w (val v)"
  by (rule plane_ok_mono [of "width v"]) (auto simp: sim_val_wf_def)

lemma width_le_64_num_words: "nat w \<le> 64 * num_words w"
proof (cases "0 < w")
  case True
  with num_words_int [OF True] show ?thesis by linarith
qed simp

section \<open>Addition\<close>

lemma unat_u64_add: "unat (a + b :: u64) = (unat a + unat b) mod 2 ^ 64"
  by (simp add: unat_word_ariths)

lemma carry_word:
  fixes av bv c :: u64
  assumes "c = 0 \<or> c = 1"
  shows "unat (av + bv + c) +
         2 ^ 64 * unat (if av + bv < av \<or> av + bv + c < av + bv then 1 else 0 :: u64) =
         unat av + unat bv + unat c"
proof -
  let ?M = "2 ^ 64 :: nat"
  have A: "unat av < ?M" and B: "unat bv < ?M" by (rule unat_u64_less)+
  have C: "unat c \<le> 1" using assms by auto
  have s1: "unat (av + bv) = (if unat av + unat bv < ?M then unat av + unat bv else unat av + unat bv - ?M)"
    using A B by (simp add: unat_u64_add mod_if)
  have s2: "unat (av + bv + c) =
      (if unat (av + bv) + unat c < ?M then unat (av + bv) + unat c else unat (av + bv) + unat c - ?M)"
    using C unat_u64_less [of "av + bv"] by (simp only: unat_u64_add [of "av + bv" c]) (simp add: mod_if)
  have c1: "av + bv < av \<longleftrightarrow> ?M \<le> unat av + unat bv"
    using A B s1 by (auto simp: word_less_nat_alt)
  have c2: "av + bv + c < av + bv \<longleftrightarrow> ?M \<le> unat (av + bv) + unat c"
    using C unat_u64_less [of "av + bv"] s2 by (auto simp: word_less_nat_alt)
  show ?thesis using s1 s2 A B C by (auto simp: c1 c2)
qed

lemma take_update_Suc: "k < length xs \<Longrightarrow> take (Suc k) (xs[k := x]) = take k xs @ [x]"
  by (simp add: take_Suc_conv_app_nth)

lemma add_loop:
  assumes "k \<le> 4" "length r0 = 4"
  shows "\<exists>r c. for_loop k (add_step a b rw) (r0, 0) = (r, c) \<and> length r = 4 \<and> (c = 0 \<or> c = 1) \<and>
           wval (take k r) + 2 ^ (64 * k) * unat c =
           wval (map (masked (val a) rw) [0..<k]) + wval (map (masked (val b) rw) [0..<k])"
  using assms(1)
proof (induction k)
  case 0
  then show ?case using assms(2) by simp
next
  case (Suc k)
  then obtain r c where st: "for_loop k (add_step a b rw) (r0, 0) = (r, c)"
    and len: "length r = 4" and c: "c = 0 \<or> c = 1"
    and inv: "wval (take k r) + 2 ^ (64 * k) * unat c =
      wval (map (masked (val a) rw) [0..<k]) + wval (map (masked (val b) rw) [0..<k])" by auto
  let ?av = "masked (val a) rw k" and ?bv = "masked (val b) rw k"
  let ?s = "?av + ?bv + c"
  let ?co = "if ?av + ?bv < ?av \<or> ?s < ?av + ?bv then 1 else 0 :: u64"
  have step: "for_loop (Suc k) (add_step a b rw) (r0, 0) = (r[k := ?s], ?co)"
    by (simp add: st add_step_def masked_def Let_def)
  have "wval (take (Suc k) (r[k := ?s])) + 2 ^ (64 * Suc k) * unat ?co =
        wval (take k r) + 2 ^ (64 * k) * (unat ?s + 2 ^ 64 * unat ?co)"
    using len Suc.prems by (simp add: take_update_Suc wval_append power_add algebra_simps)
  also have "\<dots> = wval (take k r) + 2 ^ (64 * k) * (unat ?av + unat ?bv + unat c)"
    using carry_word [OF c, of ?av ?bv] by simp
  also have "\<dots> = wval (map (masked (val a) rw) [0..<Suc k]) + wval (map (masked (val b) rw) [0..<Suc k])"
    using inv by (simp only: wval_map_Suc) (simp add: algebra_simps)
  finally show ?case using step len by auto
qed

lemma arith_xz_check_known:
  assumes "sim_val_wf a" "sim_val_wf b"
  shows "known a \<and> known b \<Longrightarrow> width (arith_xz_check a b rw) = -1"
    and "\<not> (known a \<and> known b) \<Longrightarrow> arith_xz_check a b rw = sim_val_all_x rw"
  using assms by (auto simp: arith_xz_check_def has_xz_iff_known)

lemma sim_val_add_xz:
  assumes "sim_val_wf a" "sim_val_wf b" "\<not> (known a \<and> known b)"
  shows "sim_val_add a b = sim_val_all_x (max_width a b)"
  using max_width_bounds(1) [OF assms(1,2)] arith_xz_check_known(2) [OF assms, of "max_width a b"]
  by (simp add: sim_val_add_def Let_def max_width_def [symmetric])

text \<open>A known result array, masked to the result width.\<close>

lemma known_result:
  assumes "0 \<le> w" "w \<le> 256" "length r = 4"
  defines "v \<equiv> sim_val_mask ((sim_val_zero w)\<lparr>val := r\<rparr>)"
  shows "sim_val_wf v" "known v" "width v = w" "uval v = wval r mod 2 ^ nat w"
proof -
  have sh: "shaped ((sim_val_zero w)\<lparr>val := r\<rparr>)" using assms by (simp add: shaped_def)
  have kn: "known ((sim_val_zero w)\<lparr>val := r\<rparr>)" by (simp add: known_def)
  show "sim_val_wf v"
    unfolding v_def by (rule sim_val_wf_mask [OF sh]) (simp_all add: assms(1) planes_disjoint_known [OF kn])
  show "known v" unfolding v_def by (rule known_mask [OF sh kn])
  show "width v = w" by (simp add: v_def)
  show "uval v = wval r mod 2 ^ nat w"
    unfolding v_def using assms(1) by (subst uval_mask [OF sh]) (simp_all add: uval_def)
qed

lemma wval_take_mod:
  assumes "length r = 4" "k \<le> 4" "m \<le> 64 * k"
  shows "wval r mod 2 ^ m = wval (take k r) mod 2 ^ m"
proof -
  have "wval r = wval (take k r @ drop k r)" by simp
  also have "\<dots> = wval (take k r) + 2 ^ (64 * k) * wval (drop k r)"
    using assms by (simp only: wval_append) simp
  also have "2 ^ (64 * k) = (2 ^ m * 2 ^ (64 * k - m) :: nat)"
    using assms(3) by (simp add: power_add [symmetric])
  finally show ?thesis by (simp add: mult.assoc)
qed

lemma sim_val_add_known:
  assumes "sim_val_wf a" "sim_val_wf b" "known a" "known b"
  shows "sim_val_wf (sim_val_add a b)" "known (sim_val_add a b)"
    "width (sim_val_add a b) = max_width a b"
    "uval (sim_val_add a b) = (uval a + uval b) mod 2 ^ nat (max_width a b)"
proof -
  let ?w = "max_width a b"
  note B = max_width_bounds [OF assms(1,2)]
  have nw: "num_words ?w \<le> 4" by (rule num_words_le_4 [OF B(2)])
  obtain r c where st: "for_loop (num_words ?w) (add_step a b ?w) (replicate 4 0, 0) = (r, c)"
    and len: "length r = 4"
    and inv: "wval (take (num_words ?w) r) + 2 ^ (64 * num_words ?w) * unat c =
      wval (map (masked (val a) ?w) [0..<num_words ?w]) + wval (map (masked (val b) ?w) [0..<num_words ?w])"
    using add_loop [OF nw, of "replicate 4 0" a b ?w] by auto
  have sum: "wval (take (num_words ?w) r) + 2 ^ (64 * num_words ?w) * unat c = uval a + uval b"
    using inv wval_masked [OF wf_plane_ok [OF assms(1) B(3)] B(2)]
      wval_masked [OF wf_plane_ok [OF assms(2) B(4)] B(2)] by (simp add: uval_def)
  have eq: "sim_val_add a b = sim_val_mask ((sim_val_zero ?w)\<lparr>val := r\<rparr>)"
    using arith_xz_check_known(1) [OF assms(1,2), of ?w] assms(3,4) st
    by (simp add: sim_val_add_def Let_def max_width_def [symmetric])
  note K = known_result [OF B(1,2) len]
  show "sim_val_wf (sim_val_add a b)" "known (sim_val_add a b)" "width (sim_val_add a b) = ?w"
    unfolding eq by (rule K)+
  have le: "nat ?w \<le> 64 * num_words ?w" by (rule width_le_64_num_words)
  have "uval (sim_val_add a b) = wval (take (num_words ?w) r) mod 2 ^ nat ?w"
    unfolding eq K(4) by (rule wval_take_mod [OF len nw le])
  also have "\<dots> = (wval (take (num_words ?w) r) + 2 ^ (64 * num_words ?w) * unat c) mod 2 ^ nat ?w"
    by (simp add: mod_add_right_eq le_imp_power_dvd [OF le, of "2::nat"] dvd_imp_mod_0 mod_eq_0_iff_dvd flip: mod_add_eq)
  finally show "uval (sim_val_add a b) = (uval a + uval b) mod 2 ^ nat ?w" by (simp only: sum)
qed

section \<open>Subtraction\<close>

lemma borrow_word:
  fixes av bv c :: u64
  assumes "c = 0 \<or> c = 1"
  shows "unat (av - (bv + c)) + unat bv + unat c =
         unat av + 2 ^ 64 * unat (if bv + c < bv \<or> av < bv + c then 1 else 0 :: u64)"
proof -
  let ?M = "2 ^ 64 :: nat"
  have A: "unat av < ?M" and B: "unat bv < ?M" by (rule unat_u64_less)+
  have C: "unat c \<le> 1" using assms by auto
  have s: "unat (bv + c) = (if unat bv + unat c < ?M then unat bv + unat c else unat bv + unat c - ?M)"
    using B C by (simp add: unat_u64_add mod_if)
  have c1: "bv + c < bv \<longleftrightarrow> ?M \<le> unat bv + unat c"
    using B C s by (auto simp: word_less_nat_alt)
  have d: "unat (av - (bv + c)) =
      (if unat (bv + c) \<le> unat av then unat av - unat (bv + c) else unat av + ?M - unat (bv + c))"
    by (simp add: unat_sub_if')
  show ?thesis using s d A B C by (auto simp: c1 word_less_nat_alt)
qed

lemma sub_loop:
  assumes "k \<le> 4" "length r0 = 4"
  shows "\<exists>r c. for_loop k (sub_step a b rw) (r0, 0) = (r, c) \<and> length r = 4 \<and> (c = 0 \<or> c = 1) \<and>
           wval (take k r) + wval (map (masked (val b) rw) [0..<k]) =
           wval (map (masked (val a) rw) [0..<k]) + 2 ^ (64 * k) * unat c"
  using assms(1)
proof (induction k)
  case 0
  then show ?case using assms(2) by simp
next
  case (Suc k)
  then obtain r c where st: "for_loop k (sub_step a b rw) (r0, 0) = (r, c)"
    and len: "length r = 4" and c: "c = 0 \<or> c = 1"
    and inv: "wval (take k r) + wval (map (masked (val b) rw) [0..<k]) =
      wval (map (masked (val a) rw) [0..<k]) + 2 ^ (64 * k) * unat c" by auto
  let ?av = "masked (val a) rw k" and ?bv = "masked (val b) rw k"
  let ?d = "?av - (?bv + c)"
  let ?co = "if ?bv + c < ?bv \<or> ?av < ?bv + c then 1 else 0 :: u64"
  have step: "for_loop (Suc k) (sub_step a b rw) (r0, 0) = (r[k := ?d], ?co)"
    by (simp add: st sub_step_def masked_def Let_def)
  have "wval (take (Suc k) (r[k := ?d])) + wval (map (masked (val b) rw) [0..<Suc k]) + 2 ^ (64 * k) * unat c =
        wval (take k r) + wval (map (masked (val b) rw) [0..<k]) + 2 ^ (64 * k) * (unat ?d + unat ?bv + unat c)"
    using len Suc.prems
    by (simp only: wval_map_Suc) (simp add: take_update_Suc wval_append algebra_simps)
  also have "\<dots> = wval (map (masked (val a) rw) [0..<k]) + 2 ^ (64 * k) * unat c +
      2 ^ (64 * k) * (unat ?av + 2 ^ 64 * unat ?co)"
    using borrow_word [OF c, of ?av ?bv] inv by simp
  also have "\<dots> = wval (map (masked (val a) rw) [0..<Suc k]) + 2 ^ (64 * Suc k) * unat ?co + 2 ^ (64 * k) * unat c"
    by (simp only: wval_map_Suc) (simp add: power_add algebra_simps)
  finally have "wval (take (Suc k) (r[k := ?d])) + wval (map (masked (val b) rw) [0..<Suc k]) =
      wval (map (masked (val a) rw) [0..<Suc k]) + 2 ^ (64 * Suc k) * unat ?co"
    by linarith
  with step len show ?case by auto
qed

lemma sim_val_sub_xz:
  assumes "sim_val_wf a" "sim_val_wf b" "\<not> (known a \<and> known b)"
  shows "sim_val_sub a b = sim_val_all_x (max_width a b)"
  using max_width_bounds(1) [OF assms(1,2)] arith_xz_check_known(2) [OF assms, of "max_width a b"]
  by (simp add: sim_val_sub_def Let_def max_width_def [symmetric])

lemma sim_val_sub_known:
  assumes "sim_val_wf a" "sim_val_wf b" "known a" "known b"
  shows "sim_val_wf (sim_val_sub a b)" "known (sim_val_sub a b)"
    "width (sim_val_sub a b) = max_width a b"
    "int (uval (sim_val_sub a b)) = (int (uval a) - int (uval b)) mod 2 ^ nat (max_width a b)"
proof -
  let ?w = "max_width a b"
  note B = max_width_bounds [OF assms(1,2)]
  have nw: "num_words ?w \<le> 4" by (rule num_words_le_4 [OF B(2)])
  obtain r c where st: "for_loop (num_words ?w) (sub_step a b ?w) (replicate 4 0, 0) = (r, c)"
    and len: "length r = 4"
    and inv: "wval (take (num_words ?w) r) + wval (map (masked (val b) ?w) [0..<num_words ?w]) =
      wval (map (masked (val a) ?w) [0..<num_words ?w]) + 2 ^ (64 * num_words ?w) * unat c"
    using sub_loop [OF nw, of "replicate 4 0" a b ?w] by auto
  have diff: "wval (take (num_words ?w) r) + uval b = uval a + 2 ^ (64 * num_words ?w) * unat c"
    using inv wval_masked [OF wf_plane_ok [OF assms(1) B(3)] B(2)]
      wval_masked [OF wf_plane_ok [OF assms(2) B(4)] B(2)] by (simp add: uval_def)
  have eq: "sim_val_sub a b = sim_val_mask ((sim_val_zero ?w)\<lparr>val := r\<rparr>)"
    using arith_xz_check_known(1) [OF assms(1,2), of ?w] assms(3,4) st
    by (simp add: sim_val_sub_def Let_def max_width_def [symmetric])
  note K = known_result [OF B(1,2) len]
  show "sim_val_wf (sim_val_sub a b)" "known (sim_val_sub a b)" "width (sim_val_sub a b) = ?w"
    unfolding eq by (rule K)+
  have le: "nat ?w \<le> 64 * num_words ?w" by (rule width_le_64_num_words)
  have "uval (sim_val_sub a b) = wval (take (num_words ?w) r) mod 2 ^ nat ?w"
    unfolding eq K(4) by (rule wval_take_mod [OF len nw le])
  then have "int (uval (sim_val_sub a b)) = int (wval (take (num_words ?w) r)) mod 2 ^ nat ?w"
    by (simp add: zmod_int)
  also have "int (wval (take (num_words ?w) r)) =
      int (uval a) - int (uval b) + 2 ^ (64 * num_words ?w) * int (unat c)"
  proof -
    have "int (wval (take (num_words ?w) r) + uval b) = int (uval a + 2 ^ (64 * num_words ?w) * unat c)"
      by (simp only: diff)
    then show ?thesis by (simp add: algebra_simps)
  qed
  also have "\<dots> mod 2 ^ nat ?w = (int (uval a) - int (uval b)) mod 2 ^ nat ?w"
  proof -
    have "(2 :: int) ^ nat ?w dvd 2 ^ (64 * num_words ?w) * int (unat c)"
      using le by (intro dvd_mult2 le_imp_power_dvd)
    then show ?thesis by (metis mod_add_right_eq dvd_imp_mod_0 add.right_neutral)
  qed
  finally show "int (uval (sim_val_sub a b)) = (int (uval a) - int (uval b)) mod 2 ^ nat ?w" .
qed

end
