(* ===== verification/Sim_Value_Shift.thy ===== *)
theory Sim_Value_Shift
  imports Sim_Value_Arith
begin

text \<open>
  Comparison, single-bit access and shifts of sim_value.c, against the order, the bits and
  the multiplication and division by powers of two of natural numbers.
\<close>

section \<open>Comparison\<close>

definition ncmp :: "nat \<Rightarrow> nat \<Rightarrow> int" where
  "ncmp m n = (if m < n then -1 else if m > n then 1 else 0)"

lemma ncmp_high:
  fixes l m H K :: nat
  assumes "l < M" "m < M"
  shows "ncmp (l + M * H) (m + M * K) = (if H < K then -1 else if H > K then 1 else ncmp l m)"
proof -
  have less: "x + M * P < y + M * Q" if "x < M" "P < Q" for x y P Q :: nat
  proof -
    have "x + M * P < M * Suc P" using that(1) by simp
    also have "\<dots> \<le> M * Q" using that(2) by (intro mult_le_mono2) simp
    finally show ?thesis by simp
  qed
  consider "H < K" | "H > K" | "H = K" by linarith
  then show ?thesis
  proof cases
    case 1
    with less [OF assms(1), of H K m] show ?thesis by (simp add: ncmp_def)
  next
    case 2
    with less [OF assms(2), of K H l] show ?thesis by (simp add: ncmp_def)
  next
    case 3
    then show ?thesis by (simp add: ncmp_def)
  qed
qed

lemma ucmp_from_eq:
  "ucmp_from a b w k =
   ncmp (wval (map (masked (val a) w) [0..<k])) (wval (map (masked (val b) w) [0..<k]))"
proof (induction k)
  case 0
  then show ?case by (simp add: ncmp_def)
next
  case (Suc k)
  have bound: "wval (map f [0..<k]) < 2 ^ (64 * k)" for f
    using wval_bound [of "map f [0..<k]"] by simp
  show ?case
    by (simp only: wval_map_Suc ncmp_high [OF bound bound])
       (auto simp: masked_def [symmetric] Let_def word_less_nat_alt Suc.IH)
qed

lemma sim_val_ucmp_eq:
  assumes "plane_ok w (val a)" "plane_ok w (val b)" "w \<le> 256"
  shows "sim_val_ucmp a b w = ncmp (uval a) (uval b)"
  using assms by (simp add: sim_val_ucmp_def ucmp_from_eq wval_masked uval_def)

lemma known_equal_words:
  assumes "sim_val_wf a" "sim_val_wf b"
  shows "list_ex (\<lambda>i. val a ! i AND word_mask (max_width a b) (int i) \<noteq>
                      val b ! i AND word_mask (max_width a b) (int i))
           [0..<num_words (max_width a b)] \<longleftrightarrow> uval a \<noteq> uval b"
proof -
  note B = max_width_bounds [OF assms]
  have nw: "num_words (max_width a b) \<le> 4" by (rule num_words_le_4 [OF B(2)])
  have "list_all (\<lambda>i. val a ! i AND word_mask (max_width a b) (int i) =
                      val b ! i AND word_mask (max_width a b) (int i))
           [0..<num_words (max_width a b)] \<longleftrightarrow> (\<forall>n. wbit (val a) n = wbit (val b) n)"
    using nw assms B
    by (subst list_all_words_eq) (auto simp: sim_val_wfD dest: sim_val_wfD(6))
  also have "\<dots> \<longleftrightarrow> uval a = uval b"
    by (auto simp: uval_def bit_eq_iff bit_wval)
  finally show ?thesis by (auto simp: list_all_iff list_ex_iff)
qed

lemma cmp_result_simps:
  shows "sim_val_wf (cmp_result t)" "known (cmp_result t)" "width (cmp_result t) = 1"
    "uval (cmp_result t) = of_bool t"
proof -
  have eq: "cmp_result t = sim_val_from_uint (of_bool t) 1"
    by (cases t) (simp_all add: cmp_result_def sim_val_from_uint_def Let_def)
  show "sim_val_wf (cmp_result t)" "known (cmp_result t)" "width (cmp_result t) = 1"
    unfolding eq by simp_all
  show "uval (cmp_result t) = of_bool t"
    unfolding eq by (cases t) (simp_all add: uval_from_uint)
qed

lemma cmp_x_simps:
  shows "sim_val_wf cmp_x" "\<not> known cmp_x" "width cmp_x = 1"
  by (simp_all add: cmp_x_def known_def wbit_fill_ones)

text \<open>
  Each comparison: all unknown operands give x, known operands the comparison of the numbers
  they stand for, whatever their widths.
\<close>

lemma sim_val_compare:
  assumes "sim_val_wf a" "sim_val_wf b"
  shows "sim_val_eq a b = (if known a \<and> known b then cmp_result (uval a = uval b) else cmp_x)"
    and "sim_val_neq a b = (if known a \<and> known b then cmp_result (uval a \<noteq> uval b) else cmp_x)"
    and "sim_val_lt a b = (if known a \<and> known b then cmp_result (uval a < uval b) else cmp_x)"
    and "sim_val_lte a b = (if known a \<and> known b then cmp_result (uval a \<le> uval b) else cmp_x)"
    and "sim_val_gt a b = (if known a \<and> known b then cmp_result (uval a > uval b) else cmp_x)"
    and "sim_val_gte a b = (if known a \<and> known b then cmp_result (uval a \<ge> uval b) else cmp_x)"
proof -
  have xz: "sim_val_has_xz v \<longleftrightarrow> \<not> known v" if "sim_val_wf v" for v
    using that by (rule has_xz_iff_known)
  have cmp: "sim_val_ucmp (u\<lparr>width := w\<rparr>) (v\<lparr>width := w\<rparr>) w = ncmp (uval u) (uval v)"
    if "sim_val_wf u" "sim_val_wf v" "w = max_width u v" for u v w
    using sim_val_ucmp_eq [of w "u\<lparr>width := w\<rparr>" "v\<lparr>width := w\<rparr>"] that max_width_bounds [OF that(1,2)]
    by (simp add: wf_plane_ok)
  have lt: "sim_val_lt u v = (if known u \<and> known v then cmp_result (uval u < uval v) else cmp_x)"
    and lte: "sim_val_lte u v = (if known u \<and> known v then cmp_result (uval u \<le> uval v) else cmp_x)"
    if "sim_val_wf u" "sim_val_wf v" for u v
    using that cmp [OF that refl]
    by (auto simp: sim_val_lt_def sim_val_lte_def xz Let_def max_width_def [symmetric] ncmp_def)
  show "sim_val_lt a b = (if known a \<and> known b then cmp_result (uval a < uval b) else cmp_x)"
    and "sim_val_lte a b = (if known a \<and> known b then cmp_result (uval a \<le> uval b) else cmp_x)"
    using assms by (simp_all add: lt lte)
  show "sim_val_gt a b = (if known a \<and> known b then cmp_result (uval a > uval b) else cmp_x)"
    and "sim_val_gte a b = (if known a \<and> known b then cmp_result (uval a \<ge> uval b) else cmp_x)"
    using assms by (auto simp: sim_val_gt_def sim_val_gte_def lt lte)
  show "sim_val_eq a b = (if known a \<and> known b then cmp_result (uval a = uval b) else cmp_x)"
    and "sim_val_neq a b = (if known a \<and> known b then cmp_result (uval a \<noteq> uval b) else cmp_x)"
    using assms known_equal_words [OF assms]
    by (auto simp: sim_val_eq_def sim_val_neq_def xz Let_def max_width_def [symmetric])
qed

section \<open>Single bits\<close>

lemma nat_int_div_64 [simp]: "nat (int n div 64) = n div 64" "nat (int n mod 64) = n mod 64"
  by (simp_all add: nat_div_distrib nat_mod_distrib)

lemma sim_val_get_bit_eq:
  assumes "sim_val_wf v"
  shows "sim_val_get_bit v (int n) \<longleftrightarrow> bit (uval v) n"
proof (cases "int n < width v")
  case True
  with assms have "n div 64 < 4" using sim_val_wfD(2) [OF assms] by simp
  with True assms show ?thesis
    by (simp add: sim_val_get_bit_def uval_def bit_wval bit_nth_wbit sim_val_wfD)
next
  case False
  with assms show ?thesis
    by (auto simp: sim_val_get_bit_def uval_def bit_wval dest: sim_val_wfD(6))
qed

lemma sim_val_set_bit_simps [simp]:
  "xmask (sim_val_set_bit v i b) = xmask v" "zmask (sim_val_set_bit v i b) = zmask v"
  "width (sim_val_set_bit v i b) = width v" "length (val (sim_val_set_bit v i b)) = length (val v)"
  by (simp_all add: sim_val_set_bit_def Let_def)

lemma wbit_set_bit:
  assumes "length (val v) = 4" "int i < width v" "width v \<le> 256"
  shows "wbit (val (sim_val_set_bit v (int i) b)) n \<longleftrightarrow> (if n = i then b else wbit (val v) n)"
proof -
  have i: "i div 64 < 4" using assms(2,3) by simp
  have same: "n = i \<longleftrightarrow> n div 64 = i div 64 \<and> i mod 64 = n mod 64"
    by (metis div_mult_mod_eq)
  have i': "0 \<le> int i" "\<not> width v \<le> int i" using assms(2) by simp_all
  have set: "val (sim_val_set_bit v (int i) b) =
      (val v)[i div 64 := if b then val v ! (i div 64) OR push_bit (i mod 64) 1
                          else val v ! (i div 64) AND NOT (push_bit (i mod 64) 1)]"
    using i' by (simp add: sim_val_set_bit_def Let_def del: push_bit_of_1)
  have mask: "bit (push_bit (i mod 64) (1 :: u64)) (n mod 64) \<longleftrightarrow> i mod 64 = n mod 64" for i n :: nat
    by (auto simp: bit_push_bit_iff bit_1_iff simp del: push_bit_of_1)
  show ?thesis
  proof (cases "n div 64 = i div 64")
    case True
    have "wbit (val v) n \<longleftrightarrow> bit (val v ! (i div 64)) (n mod 64)"
      using True i assms(1) by (simp add: wbit_def)
    with True i assms(1) same show ?thesis
      by (simp add: set wbit_update bit_or_iff bit_and_iff bit_not_iff mask del: push_bit_of_1)
  next
    case False
    with i assms(1) same show ?thesis by (simp add: set wbit_update del: push_bit_of_1)
  qed
qed

lemma known_set_bit [simp]: "known (sim_val_set_bit v i b) = known v"
  by (simp add: known_def)

lemma sim_val_set_bit_known:
  assumes "sim_val_wf v" "known v" "int i < width v"
  shows "sim_val_wf (sim_val_set_bit v (int i) b)"
    and "bit (uval (sim_val_set_bit v (int i) b)) n \<longleftrightarrow> (if n = i then b else bit (uval v) n)"
proof -
  have W: "wbit (val (sim_val_set_bit v (int i) b)) n \<longleftrightarrow> (if n = i then b else wbit (val v) n)" for n
    using assms by (intro wbit_set_bit) (simp_all add: sim_val_wfD)
  show "sim_val_wf (sim_val_set_bit v (int i) b)"
    by (rule sim_val_wfI)
       (use assms W in \<open>auto simp: sim_val_wfD planes_disjoint_known dest: sim_val_wfD split: if_splits\<close>)
  show "bit (uval (sim_val_set_bit v (int i) b)) n \<longleftrightarrow> (if n = i then b else bit (uval v) n)"
    by (simp add: uval_def bit_wval W)
qed

section \<open>Shift amounts\<close>

lemma unat_low_word: "length a = 4 \<Longrightarrow> unat (a ! 0) = wval a mod 2 ^ 64"
  by (cases a) (simp_all add: unat_u64_less_numeral)

lemma high_words_zero:
  assumes "length a = 4" "\<forall>i. 1 \<le> i \<longrightarrow> i < 4 \<longrightarrow> a ! i = 0"
  shows "wval a = unat (a ! 0)"
proof -
  obtain p q r s where a: "a = [p, q, r, s]" using assms(1)
    by (auto simp: length_Suc_conv numeral_eq_Suc)
  with assms(2) [rule_format, of 1] assms(2) [rule_format, of 2] assms(2) [rule_format, of 3]
  show ?thesis by simp
qed

lemma sim_val_to_small_uint_eq:
  assumes "sim_val_wf v" "known v"
  shows "sim_val_to_small_uint v =
         (if uval v < 2 ^ 64 then Some (word_of_nat (uval v)) else None)"
proof -
  have nw: "num_words (width v) \<le> 4" using assms(1) by (rule sim_val_wfD)
  have len: "length (val v) = 4" using assms(1) by (rule sim_val_wfD)
  have beyond: "val v ! i = 0" if "num_words (width v) \<le> i" "i < 4" for i
  proof (rule bit_word_eqI)
    fix j assume j: "j < LENGTH(64)"
    have "\<not> wbit (val v) (64 * i + j)"
      using sim_val_wfD(6) [OF assms(1), of "64 * i + j"] less_num_words [of "64 * i + j" "width v"] that j
      by auto
    with j that len show "bit (val v ! i) j = bit (0 :: u64) j" by (simp add: wbit_index)
  qed
  have "list_ex (\<lambda>i. val v ! i \<noteq> 0) [1..<num_words (width v)] \<longleftrightarrow> \<not> uval v < 2 ^ 64"
  proof
    assume "list_ex (\<lambda>i. val v ! i \<noteq> 0) [1..<num_words (width v)]"
    then obtain i where i: "1 \<le> i" "i < num_words (width v)" "val v ! i \<noteq> 0"
      by (auto simp: list_ex_iff)
    then obtain j where "j < 64" "bit (val v ! i) j"
      using bit_word_eqI [of "val v ! i" 0] by auto
    with i nw len have "wbit (val v) (64 * i + j)" by (simp add: wbit_index)
    with i(1) show "\<not> uval v < 2 ^ 64"
      unfolding uval_def wval_lt_exp_iff by (auto intro!: exI [of _ "64 * i + j"])
  next
    assume big: "\<not> uval v < 2 ^ 64"
    show "list_ex (\<lambda>i. val v ! i \<noteq> 0) [1..<num_words (width v)]"
    proof (rule ccontr)
      assume "\<not> ?thesis"
      then have "val v ! i = 0" if "1 \<le> i" "i < 4" for i
        using that beyond [of i] by (cases "i < num_words (width v)") (auto simp: list_ex_iff)
      then have "uval v = unat (val v ! 0)"
        unfolding uval_def by (intro high_words_zero [OF len]) auto
      with big unat_u64_less [of "val v ! 0"] show False by simp
    qed
  qed
  moreover have "word_of_nat (uval v) = val v ! 0" if "uval v < 2 ^ 64"
    using that unat_low_word [OF len] by (simp add: uval_def word_unat_eq_iff unat_of_nat)
  ultimately show ?thesis
    using assms by (auto simp: sim_val_to_small_uint_def has_xz_iff_known)
qed

section \<open>Left shift\<close>

lemma bit_shl_word:
  assumes "length a = 4" "nw \<le> 4" "i < nw" "j < 64"
  shows "bit (shl_word a nw (int s) i) j \<longleftrightarrow> s \<le> 64 * i + j \<and> wbit a (64 * i + j - s)"
proof -
  define p where "p = s div 64"
  define q where "q = s mod 64"
  have s: "s = 64 * p + q" and q: "q < 64" by (simp_all add: p_def q_def)
  have ip: "int s div 64 = int p" "int s mod 64 = int q"
    by (simp_all add: p_def q_def zdiv_int zmod_int)
  have word: "shl_word a nw (int s) i =
      (if q = 0 then (if p \<le> i then a ! (i - p) else 0)
       else push_bit q (if p \<le> i then a ! (i - p) else 0) OR
            drop_bit (64 - q) (if p + 1 \<le> i then a ! (i - p - 1) else 0))"
  proof -
    have lo: "0 \<le> int i - int p \<and> int i - int p < int nw \<longleftrightarrow> p \<le> i" "nat (int i - int p) = i - p"
      and hi: "0 \<le> int i - int p - 1 \<and> int i - int p - 1 < int nw \<longleftrightarrow> p + 1 \<le> i"
        "nat (int i - int p - 1) = i - p - 1"
      using assms(3) by linarith+
    show ?thesis by (simp only: shl_word_def Let_def ip lo hi nat_int)
  qed
  show ?thesis
  proof (cases "q \<le> j")
    case True
    have idx: "i - p < 4" "j - q < 64" using assms by linarith+
    have "64 * i + j - s = 64 * (i - p) + (j - q)" if "p \<le> i" using s that True by simp
    moreover have "s \<le> 64 * i + j \<longleftrightarrow> p \<le> i" using s q True assms(4) by linarith
    ultimately have "s \<le> 64 * i + j \<and> wbit a (64 * i + j - s) \<longleftrightarrow> p \<le> i \<and> bit (a ! (i - p)) (j - q)"
      using wbit_index [of "j - q" a "i - p"] assms idx by (cases "p \<le> i") simp_all
    moreover have "bit (shl_word a nw (int s) i) j \<longleftrightarrow> p \<le> i \<and> bit (a ! (i - p)) (j - q)"
      using True assms(4) q
      by (auto simp: word bit_or_iff bit_push_bit_iff bit_drop_bit_eq bit_u64_beyond)
    ultimately show ?thesis by simp
  next
    case False
    have idx: "i - p - 1 < 4" "64 + j - q < 64" using assms False by linarith+
    have "64 * i + j - s = 64 * (i - p - 1) + (64 + j - q)" if "p + 1 \<le> i" using s q that False by simp
    moreover have "s \<le> 64 * i + j \<longleftrightarrow> p + 1 \<le> i" using s q False assms(4) by linarith
    ultimately have "s \<le> 64 * i + j \<and> wbit a (64 * i + j - s) \<longleftrightarrow>
        p + 1 \<le> i \<and> bit (a ! (i - p - 1)) (64 + j - q)"
      using wbit_index [of "64 + j - q" a "i - p - 1"] assms False idx by (cases "p + 1 \<le> i") simp_all
    moreover have "bit (shl_word a nw (int s) i) j \<longleftrightarrow> p + 1 \<le> i \<and> bit (a ! (i - p - 1)) (64 + j - q)"
      using False assms(4) q
      by (auto simp: word bit_or_iff bit_push_bit_iff bit_drop_bit_eq)
    ultimately show ?thesis by simp
  qed
qed

lemma bit_shr_word:
  assumes "length a = 4" "nw \<le> 4" "i < nw" "j < 64" "\<And>n. wbit a n \<Longrightarrow> n div 64 < nw"
  shows "bit (shr_word a nw (int s) i) j \<longleftrightarrow> wbit a (64 * i + j + s)"
proof -
  define p where "p = s div 64"
  define q where "q = s mod 64"
  have s: "s = 64 * p + q" and q: "q < 64" by (simp_all add: p_def q_def)
  have ip: "int s div 64 = int p" "int s mod 64 = int q"
    by (simp_all add: p_def q_def zdiv_int zmod_int)
  have word: "shr_word a nw (int s) i =
      (if q = 0 then (if i + p < nw then a ! (i + p) else 0)
       else drop_bit q (if i + p < nw then a ! (i + p) else 0) OR
            push_bit (64 - q) (if i + p + 1 < nw then a ! (i + p + 1) else 0))"
  proof -
    have lo: "0 \<le> int i + int p \<and> int i + int p < int nw \<longleftrightarrow> i + p < nw" "nat (int i + int p) = i + p"
      and hi: "0 \<le> int i + int p + 1 \<and> int i + int p + 1 < int nw \<longleftrightarrow> i + p + 1 < nw"
        "nat (int i + int p + 1) = i + p + 1"
      by linarith+
    show ?thesis by (simp only: shr_word_def Let_def ip lo hi nat_int)
  qed
  have low: "wbit a (64 * k + l) \<longleftrightarrow> k < nw \<and> bit (a ! k) l" if "l < 64" for k l
    using assms(5) [of "64 * k + l"] that assms(1,2) by (auto simp: wbit_index)
  show ?thesis
  proof (cases "j + q < 64")
    case True
    have eq: "64 * i + j + s = 64 * (i + p) + (j + q)" using s by simp
    have "bit (shr_word a nw (int s) i) j \<longleftrightarrow> i + p < nw \<and> bit (a ! (i + p)) (j + q)"
      using True by (auto simp: word bit_or_iff bit_push_bit_iff bit_drop_bit_eq add.commute)
    then show ?thesis by (simp only: eq low [OF True])
  next
    case False
    have eq: "64 * i + j + s = 64 * (i + p + 1) + (j + q - 64)" using s False by simp
    have lt: "j + q - 64 < 64" using q assms(4) by linarith
    have "bit (shr_word a nw (int s) i) j \<longleftrightarrow> i + p + 1 < nw \<and> bit (a ! (i + p + 1)) (j + q - 64)"
      using False q assms(4)
      by (auto simp: word bit_or_iff bit_push_bit_iff bit_drop_bit_eq bit_u64_beyond)
    then show ?thesis by (simp only: eq low [OF lt])
  qed
qed


text \<open>The comparison of a shift amount with the width, as unsigned 64-bit words.\<close>

lemma shift_ge_width:
  assumes "m < 2 ^ 64" "0 \<le> w" "w \<le> 256"
  shows "(word_of_int w :: u64) \<le> word_of_nat m \<longleftrightarrow> nat w \<le> m"
proof -
  have "unat (word_of_int w :: u64) = nat w"
    using assms(3) zero_le_imp_eq_int [OF assms(2)] by (auto simp: unat_of_nat take_bit_nat_eq_self)
  moreover have "unat (word_of_nat m :: u64) = m"
    using assms by (simp add: unat_of_nat take_bit_nat_eq_self)
  ultimately show ?thesis by (simp add: word_le_nat_alt)
qed

lemma shift_ge_width_nat:
  "m < 2 ^ 64 \<Longrightarrow> k \<le> 256 \<Longrightarrow> (word_of_nat k :: u64) \<le> word_of_nat m \<longleftrightarrow> k \<le> m"
  using shift_ge_width [of m "int k"] by simp

lemma uint_word_of_nat_u64: "m < 2 ^ 64 \<Longrightarrow> uint (word_of_nat m :: u64) = int m"
  by (simp add: uint_nat unat_of_nat)

lemma wval_shl_words:
  assumes "length a = 4" "nw \<le> 4" "w \<le> 64 * nw"
  shows "wval (for_down nw (\<lambda>i rv. rv[i := shl_word a nw (int s) i]) (replicate 4 0)) mod 2 ^ w =
         wval a * 2 ^ s mod 2 ^ w"
proof -
  let ?r = "for_down nw (\<lambda>i rv. rv[i := shl_word a nw (int s) i]) (replicate 4 0)"
  have "take_bit w (wval ?r) = take_bit w (push_bit s (wval a))"
  proof (rule bit_eqI)
    fix n
    show "bit (take_bit w (wval ?r)) n = bit (take_bit w (push_bit s (wval a))) n"
    proof (cases "n < w")
      case True
      with assms(3) have i: "n div 64 < nw" by simp
      have "bit (wval ?r) n \<longleftrightarrow> s \<le> n \<and> wbit a (n - s)"
        using bit_shl_word [OF assms(1,2) i, of "n mod 64" s] i assms(2)
        by (simp add: bit_wval wbit_for_down)
      then show ?thesis by (simp add: bit_take_bit_iff bit_push_bit_iff bit_wval)
    qed (simp add: bit_take_bit_iff)
  qed
  then show ?thesis by (simp add: take_bit_eq_mod push_bit_eq_mult)
qed

lemma wval_shr_words:
  assumes "length a = 4" "nw \<le> 4" "\<And>n. wbit a n \<Longrightarrow> n div 64 < nw"
  shows "wval (for_loop nw (\<lambda>i rv. rv[i := shr_word a nw (int s) i]) (replicate 4 0)) = wval a div 2 ^ s"
proof -
  let ?r = "for_loop nw (\<lambda>i rv. rv[i := shr_word a nw (int s) i]) (replicate 4 0)"
  have "wval ?r = drop_bit s (wval a)"
  proof (rule bit_eqI)
    fix n
    show "bit (wval ?r) n = bit (drop_bit s (wval a)) n"
    proof (cases "n div 64 < nw")
      case True
      with bit_shr_word [OF assms(1,2) True, of "n mod 64" s] assms show ?thesis
        by (simp add: bit_wval wbit_for_loop bit_drop_bit_eq add.commute)
    next
      case False
      then have "\<not> (s + n) div 64 < nw" by (meson div_le_mono le_add2 le_less_trans)
      with False assms(2,3) show ?thesis
        by (auto simp: bit_wval wbit_for_loop bit_drop_bit_eq)
    qed
  qed
  then show ?thesis by (simp add: drop_bit_eq_div)
qed

lemma sim_val_shl_xz:
  "sim_val_wf a \<Longrightarrow> sim_val_wf b \<Longrightarrow> \<not> (known a \<and> known b) \<Longrightarrow>
   sim_val_shl a b = sim_val_all_x (width a)"
  by (auto simp: sim_val_shl_def has_xz_iff_known)

lemma sim_val_shl_known:
  assumes "sim_val_wf a" "sim_val_wf b" "known a" "known b"
  shows "sim_val_wf (sim_val_shl a b)" "known (sim_val_shl a b)"
    "width (sim_val_shl a b) = width a"
    "uval (sim_val_shl a b) = uval a * 2 ^ uval b mod 2 ^ nat (width a)"
proof -
  let ?w = "nat (width a)"
  have w: "0 \<le> width a" "width a \<le> 256" and len: "length (val a) = 4"
    and nw: "num_words (width a) \<le> 4"
    using assms(1) by (simp_all add: sim_val_wfD)
  have "sim_val_wf (sim_val_shl a b) \<and> known (sim_val_shl a b) \<and> width (sim_val_shl a b) = width a \<and>
        uval (sim_val_shl a b) = uval a * 2 ^ uval b mod 2 ^ ?w"
  proof (cases "?w \<le> uval b")
    case True
    then have "(2 :: nat) ^ ?w dvd uval a * 2 ^ uval b" by (simp add: le_imp_power_dvd)
    then have "uval a * 2 ^ uval b mod 2 ^ ?w = 0" by (simp add: mod_eq_0_iff_dvd)
    moreover have "sim_val_shl a b = sim_val_zero (width a)"
      using True assms w
      by (auto simp: sim_val_shl_def has_xz_iff_known sim_val_to_small_uint_eq shift_ge_width)
    ultimately show ?thesis using w by simp
  next
    case False
    with w have lt: "uval b < 2 ^ 64" by simp
    have eq: "sim_val_shl a b = sim_val_mask ((sim_val_zero (width a))\<lparr>val :=
        for_down (num_words (width a))
          (\<lambda>i rv. rv[i := shl_word (val a) (num_words (width a)) (int (uval b)) i]) (replicate 4 0)\<rparr>)"
      using False assms w lt
      by (simp add: sim_val_shl_def has_xz_iff_known sim_val_to_small_uint_eq shift_ge_width
          uint_word_of_nat_u64 Let_def)
    show ?thesis
      unfolding eq
      using known_result [OF w, of "for_down (num_words (width a))
          (\<lambda>i rv. rv[i := shl_word (val a) (num_words (width a)) (int (uval b)) i]) (replicate 4 0)"]
        wval_shl_words [OF len nw width_le_64_num_words, of "uval b"]
      by (simp add: uval_def)
  qed
  then show "sim_val_wf (sim_val_shl a b)" "known (sim_val_shl a b)"
    "width (sim_val_shl a b) = width a"
    "uval (sim_val_shl a b) = uval a * 2 ^ uval b mod 2 ^ ?w" by simp_all
qed

section \<open>Right shift\<close>

lemma sim_val_shr_xz:
  "sim_val_wf a \<Longrightarrow> sim_val_wf b \<Longrightarrow> \<not> (known a \<and> known b) \<Longrightarrow>
   sim_val_shr a b = sim_val_all_x (width a)"
  by (auto simp: sim_val_shr_def has_xz_iff_known)

lemma sim_val_shr_known:
  assumes "sim_val_wf a" "sim_val_wf b" "known a" "known b"
  shows "sim_val_wf (sim_val_shr a b)" "known (sim_val_shr a b)"
    "width (sim_val_shr a b) = width a"
    "uval (sim_val_shr a b) = uval a div 2 ^ uval b"
proof -
  let ?w = "nat (width a)"
  have w: "0 \<le> width a" "width a \<le> 256" and len: "length (val a) = 4"
    and nw: "num_words (width a) \<le> 4" and low: "uval a < 2 ^ ?w"
    using assms(1) by (simp_all add: sim_val_wfD uval_less)
  have hi: "n div 64 < num_words (width a)" if "wbit (val a) n" for n
    using sim_val_wfD(6) [OF assms(1) that] by (rule less_num_words)
  have "sim_val_wf (sim_val_shr a b) \<and> known (sim_val_shr a b) \<and> width (sim_val_shr a b) = width a \<and>
        uval (sim_val_shr a b) = uval a div 2 ^ uval b"
  proof (cases "?w \<le> uval b")
    case True
    have "(2 :: nat) ^ ?w \<le> 2 ^ uval b" using True by simp
    with low have "uval a div 2 ^ uval b = 0" by (intro div_less) linarith
    moreover have "sim_val_shr a b = sim_val_zero (width a)"
      using True assms w
      by (auto simp: sim_val_shr_def has_xz_iff_known sim_val_to_small_uint_eq shift_ge_width)
    ultimately show ?thesis using w by simp
  next
    case False
    with w have lt: "uval b < 2 ^ 64" by simp
    let ?r = "for_loop (num_words (width a))
          (\<lambda>i rv. rv[i := shr_word (val a) (num_words (width a)) (int (uval b)) i]) (replicate 4 0)"
    have eq: "sim_val_shr a b = sim_val_mask ((sim_val_zero (width a))\<lparr>val := ?r\<rparr>)"
      using False assms w lt
      by (simp add: sim_val_shr_def has_xz_iff_known sim_val_to_small_uint_eq shift_ge_width
          uint_word_of_nat_u64 Let_def sim_val_mask_idem)
    have "wval ?r = uval a div 2 ^ uval b"
      unfolding uval_def by (rule wval_shr_words [OF len nw hi])
    moreover have "uval a div 2 ^ uval b < 2 ^ ?w"
      using low by (meson div_le_dividend le_less_trans)
    ultimately show ?thesis
      unfolding eq using known_result [OF w, of ?r] by simp
  qed
  then show "sim_val_wf (sim_val_shr a b)" "known (sim_val_shr a b)"
    "width (sim_val_shr a b) = width a"
    "uval (sim_val_shr a b) = uval a div 2 ^ uval b" by simp_all
qed

end
