(* ===== verification/Sim_Value_MulDiv.thy ===== *)
theory Sim_Value_MulDiv
  imports Sim_Value_Shift
begin

text \<open>
  The shift-and-add multiplication, the restoring division, the negation and the arithmetic
  right shift of sim_value.c, against multiplication, Euclidean division and the signed
  reading of natural numbers.
\<close>

section \<open>Shifting by a constant number of bits\<close>

lemma shift_left_bits_known:
  assumes "sim_val_wf v" "known v" "width v \<le> w" "w \<le> 256" "k < 2 ^ 32"
  shows "sim_val_wf (sim_val_shift_left_bits v (int k) w)"
    "known (sim_val_shift_left_bits v (int k) w)"
    "width (sim_val_shift_left_bits v (int k) w) = w"
    "uval (sim_val_shift_left_bits v (int k) w) = uval v * 2 ^ k mod 2 ^ nat w"
proof -
  let ?amt = "sim_val_from_uint (word_of_int (int k)) 32"
  have amt: "uval ?amt = k"
    using assms(5) by (simp add: uval_from_uint unat_of_nat take_bit_nat_eq_self)
  have v: "sim_val_wf (v\<lparr>width := w\<rparr>)" using assms by (intro sim_val_wf_widen)
  note K = sim_val_shl_known [OF v, of ?amt]
  show "sim_val_wf (sim_val_shift_left_bits v (int k) w)"
    "known (sim_val_shift_left_bits v (int k) w)"
    "width (sim_val_shift_left_bits v (int k) w) = w"
    "uval (sim_val_shift_left_bits v (int k) w) = uval v * 2 ^ k mod 2 ^ nat w"
    using K assms amt by (simp_all add: sim_val_shift_left_bits_def Let_def)
qed

section \<open>Multiplication\<close>

lemma sim_val_mask_same_width:
  "sim_val_wf v \<Longrightarrow> width v = w \<Longrightarrow> sim_val_mask (v\<lparr>width := w\<rparr>) = v"
  using sim_val_mask_idem [of v] by auto

lemma mod_add_partial:
  fixes a b :: nat
  shows "bit b i \<Longrightarrow> (a * (b mod 2 ^ i) mod m + a * 2 ^ i mod m) mod m = a * (b mod 2 ^ Suc i) mod m"
    and "\<not> bit b i \<Longrightarrow> a * (b mod 2 ^ i) mod m = a * (b mod 2 ^ Suc i) mod m"
proof -
  have "b mod 2 ^ Suc i = 2 ^ i * of_bool (bit b i) + b mod 2 ^ i"
    using take_bit_Suc_from_most [of i b] by (simp only: take_bit_eq_mod)
  then show "bit b i \<Longrightarrow> (a * (b mod 2 ^ i) mod m + a * 2 ^ i mod m) mod m = a * (b mod 2 ^ Suc i) mod m"
    and "\<not> bit b i \<Longrightarrow> a * (b mod 2 ^ i) mod m = a * (b mod 2 ^ Suc i) mod m"
    by (simp_all add: mod_simps algebra_simps)
qed

lemma mul_loop:
  assumes "sim_val_wf a" "sim_val_wf b" "known a" "known b" "rw = max_width a b" "k \<le> nat rw"
  defines "r \<equiv> for_loop k (\<lambda>i r. if sim_val_get_bit b (int i)
                               then sim_val_add r (sim_val_shift_left_bits a (int i) rw) else r)
                 (sim_val_zero rw)"
  shows "sim_val_wf r \<and> known r \<and> width r = rw \<and> uval r = uval a * (uval b mod 2 ^ k) mod 2 ^ nat rw"
proof -
  note B = max_width_bounds [OF assms(1,2)]
  show ?thesis
    unfolding r_def
  proof (rule for_loop_invariant [where P = "\<lambda>i r. sim_val_wf r \<and> known r \<and> width r = rw \<and>
        uval r = uval a * (uval b mod 2 ^ i) mod 2 ^ nat rw"])
    show "sim_val_wf (sim_val_zero rw) \<and> known (sim_val_zero rw) \<and> width (sim_val_zero rw) = rw \<and>
        uval (sim_val_zero rw) = uval a * (uval b mod 2 ^ 0) mod 2 ^ nat rw"
      using B assms(5) by simp
  next
    fix i r
    assume i: "i < k" and r: "sim_val_wf r \<and> known r \<and> width r = rw \<and>
        uval r = uval a * (uval b mod 2 ^ i) mod 2 ^ nat rw"
    have "i < 256" using i assms(5,6) B(2) by linarith
    then have "i < 2 ^ 32" by simp
    note S = shift_left_bits_known [OF assms(1,3) B(3) B(2) this, folded assms(5)]
    note A = sim_val_add_known [of r "sim_val_shift_left_bits a (int i) rw"]
    have mw: "max_width r (sim_val_shift_left_bits a (int i) rw) = rw"
      using r S by (simp add: max_width_def)
    show "sim_val_wf (if sim_val_get_bit b (int i)
              then sim_val_add r (sim_val_shift_left_bits a (int i) rw) else r) \<and>
          known (if sim_val_get_bit b (int i)
              then sim_val_add r (sim_val_shift_left_bits a (int i) rw) else r) \<and>
          width (if sim_val_get_bit b (int i)
              then sim_val_add r (sim_val_shift_left_bits a (int i) rw) else r) = rw \<and>
          uval (if sim_val_get_bit b (int i)
              then sim_val_add r (sim_val_shift_left_bits a (int i) rw) else r) =
          uval a * (uval b mod 2 ^ Suc i) mod 2 ^ nat rw"
      using r S A mw mod_add_partial [of "uval b" i "uval a" "2 ^ nat rw"]
      by (cases "bit (uval b) i") (simp_all add: sim_val_get_bit_eq [OF assms(2)])
  qed
qed

lemma sim_val_mul_xz:
  assumes "sim_val_wf a" "sim_val_wf b" "\<not> (known a \<and> known b)"
  shows "sim_val_mul a b = sim_val_all_x (max_width a b)"
  using assms arith_xz_check_known(2) [OF assms] max_width_bounds [OF assms(1,2)]
  by (simp add: sim_val_mul_def Let_def max_width_def)

lemma sim_val_mul_known:
  assumes "sim_val_wf a" "sim_val_wf b" "known a" "known b"
  shows "sim_val_wf (sim_val_mul a b)" "known (sim_val_mul a b)"
    "width (sim_val_mul a b) = max_width a b"
    "uval (sim_val_mul a b) = uval a * uval b mod 2 ^ nat (max_width a b)"
proof -
  note B = max_width_bounds [OF assms(1,2)]
  let ?r = "for_loop (nat (max_width a b)) (\<lambda>i r. if sim_val_get_bit b (int i)
      then sim_val_add r (sim_val_shift_left_bits a (int i) (max_width a b)) else r)
      (sim_val_zero (max_width a b))"
  note L = mul_loop [OF assms refl order_refl]
  have "uval b < 2 ^ nat (max_width a b)"
    using wf_plane_ok [OF assms(2) B(4)] B(1) by (simp add: plane_ok_iff_less uval_def)
  with L have "sim_val_wf ?r \<and> known ?r \<and> width ?r = max_width a b \<and>
      uval ?r = uval a * uval b mod 2 ^ nat (max_width a b)" by simp
  moreover from this have "sim_val_mask (?r\<lparr>width := max_width a b\<rparr>) = ?r"
    by (blast intro: sim_val_mask_same_width)
  moreover have "sim_val_mul a b = sim_val_mask (?r\<lparr>width := max_width a b\<rparr>)"
    using arith_xz_check_known(1) [OF assms(1,2), of "max_width a b"] assms(3,4)
    by (simp add: sim_val_mul_def Let_def max_width_def [symmetric])
  ultimately show "sim_val_wf (sim_val_mul a b)" "known (sim_val_mul a b)"
    "width (sim_val_mul a b) = max_width a b"
    "uval (sim_val_mul a b) = uval a * uval b mod 2 ^ nat (max_width a b)" by simp_all
qed

section \<open>Restoring division\<close>

text \<open>The arithmetic of one step: bringing down one more bit of the dividend.\<close>

lemma bring_down:
  fixes A :: nat
  shows "A div 2 ^ i = 2 * (A div 2 ^ Suc i) + of_bool (bit A i)"
proof -
  have "A div 2 ^ Suc i = A div 2 ^ i div 2" by (simp only: power_Suc2 div_mult2_eq)
  moreover have "of_bool (bit A i) = A div 2 ^ i mod 2"
    by (simp add: bit_iff_odd odd_iff_mod_2_eq_one of_bool_def)
  ultimately show ?thesis by simp
qed

lemma divide_step:
  fixes x c B :: nat
  assumes "0 < B" "c \<le> 1"
  defines "y \<equiv> 2 * (x mod B) + c"
  shows "(2 * x + c) div B = 2 * (x div B) + (if B \<le> y then 1 else 0)"
    and "(2 * x + c) mod B = (if B \<le> y then y - B else y)"
proof -
  have split: "2 * x + c = y + B * (2 * (x div B))"
    using mult_div_mod_eq [of B x] unfolding y_def by (metis add.assoc add.commute distrib_left mult.left_commute)
  have "x mod B < B" using assms(1) by simp
  then have y: "y < 2 * B" using assms(2) unfolding y_def by linarith
  have dy: "y div B = (if B \<le> y then 1 else 0)" "y mod B = (if B \<le> y then y - B else y)"
    using y assms(1) by (auto simp: le_div_geq le_mod_geq)
  show "(2 * x + c) div B = 2 * (x div B) + (if B \<le> y then 1 else 0)"
    unfolding split using assms(1) dy by simp
  show "(2 * x + c) mod B = (if B \<le> y then y - B else y)"
    unfolding split using dy by simp
qed

lemma uval_set_bit_new:
  assumes "sim_val_wf v" "known v" "int i < width v" "\<not> bit (uval v) i"
  shows "uval (sim_val_set_bit v (int i) b) = uval v + of_bool b * 2 ^ i"
proof -
  have "uval (sim_val_set_bit v (int i) b) = (if b then set_bit i (uval v) else uval v)"
    by (rule bit_eqI) (use assms in \<open>auto simp: sim_val_set_bit_known bit_set_bit_iff\<close>)
  then show ?thesis using assms(4) by (simp add: set_bit_eq)
qed

definition divmod_inv :: "nat \<Rightarrow> nat \<Rightarrow> int \<Rightarrow> nat \<Rightarrow> SimValue \<times> SimValue \<Rightarrow> bool" where
  "divmod_inv A B w i st \<longleftrightarrow>
     (let (q, r) = st
      in sim_val_wf q \<and> known q \<and> width q = w \<and> uval q = A div 2 ^ i div B * 2 ^ i \<and>
         sim_val_wf r \<and> known r \<and> width r = w \<and> uval r = A div 2 ^ i mod B)"

lemma restoring_step_inv:
  assumes "sim_val_wf a" "sim_val_wf b" "known a" "known b" "width a = w" "width b = w"
    and "0 < uval b" "i < nat w" "divmod_inv (uval a) (uval b) w (Suc i) st"
  shows "divmod_inv (uval a) (uval b) w i (restoring_step a b w i st)"
proof -
  obtain q r where st: "st = (q, r)" by force
  let ?A = "uval a" and ?B = "uval b"
  define x where "x = ?A div 2 ^ Suc i"
  define y where "y = 2 * (x mod ?B) + of_bool (bit ?A i)"
  have w: "0 < w" "w \<le> 256" using assms(1,5,8) sim_val_wfD(2) [OF assms(1)] by auto
  from assms(9) have q: "sim_val_wf q" "known q" "width q = w" "uval q = x div ?B * 2 ^ Suc i"
    and r: "sim_val_wf r" "known r" "width r = w" "uval r = x mod ?B"
    by (simp_all add: st divmod_inv_def x_def)
  have down: "?A div 2 ^ i = 2 * x + of_bool (bit ?A i)" unfolding x_def by (rule bring_down)
  have A: "?A < 2 ^ nat w" using uval_less [OF assms(1)] assms(5) by simp
  have "y \<le> ?A div 2 ^ i" unfolding y_def down by simp
  with A have ylt: "y < 2 ^ nat w" by (meson div_le_dividend le_less_trans order_trans)
  define r1 where "r1 = sim_val_shift_left_bits r 1 w"
  have r1: "sim_val_wf r1" "known r1" "width r1 = w" "uval r1 = 2 * (x mod ?B)"
    using shift_left_bits_known [OF r(1,2), of w 1] r w ylt
    unfolding r1_def y_def by (auto simp: mult.commute)
  define r2 where "r2 = sim_val_set_bit r1 0 (sim_val_get_bit a (int i))"
  have r2: "sim_val_wf r2" "known r2" "width r2 = w" "uval r2 = y"
    using sim_val_set_bit_known(1) [OF r1(1,2), of 0] uval_set_bit_new [OF r1(1,2), of 0] r1 w
    unfolding r2_def y_def by (simp_all add: sim_val_get_bit_eq [OF assms(1)] bit_0)
  have cmp: "sim_val_ucmp r2 b w = ncmp y ?B"
    using r2 assms w by (simp add: sim_val_ucmp_eq wf_plane_ok)
  have mw: "max_width r2 b = w" using r2 assms by (simp add: max_width_def)
  have sub: "sim_val_mask ((sim_val_sub r2 b)\<lparr>width := w\<rparr>) = sim_val_sub r2 b"
    using sim_val_sub_known(1,3) [OF r2(1) assms(2) r2(2) assms(4)] mw
    by (simp add: sim_val_mask_same_width)
  have subv: "uval (sim_val_sub r2 b) = y - ?B" if "?B \<le> y"
  proof -
    have "int (uval (sim_val_sub r2 b)) = (int y - int ?B) mod 2 ^ nat w"
      using sim_val_sub_known(4) [OF r2(1) assms(2) r2(2) assms(4)] r2 mw by simp
    also have "\<dots> = int (y - ?B)" using that ylt by (simp add: of_nat_diff [symmetric] zmod_int [symmetric] del: of_nat_diff)
    finally show ?thesis by simp
  qed
  have step: "restoring_step a b w i st =
      (if ?B \<le> y then (sim_val_set_bit q (int i) True, sim_val_sub r2 b) else (q, r2))"
    using cmp sub by (auto simp: restoring_step_def st Let_def r1_def [symmetric] r2_def [symmetric] ncmp_def)
  note D = divide_step [OF assms(7), of "of_bool (bit ?A i)" x, folded y_def]
  have qi: "\<not> bit (uval q) i" by (simp add: q(4) bit_iff_odd)
  have "int i < width q" using q(3) assms(8) by simp
  note Q = sim_val_set_bit_known(1) [OF q(1,2) this, of True] uval_set_bit_new [OF q(1,2) this qi, of True]
  show ?thesis
    using step D Q q r2 subv sim_val_sub_known [OF r2(1) assms(2) r2(2) assms(4)] mw
    by (auto simp: divmod_inv_def down algebra_simps)
qed

lemma unsigned_divmod_known:
  assumes "sim_val_wf a" "sim_val_wf b" "known a" "known b" "width a = w" "width b = w" "0 < uval b"
  defines "res \<equiv> sim_val_unsigned_divmod a b w"
  shows "sim_val_wf (res m)" "known (res m)" "width (res m) = w"
    "uval (res m) = (if m then uval a mod uval b else uval a div uval b)"
proof -
  have w: "0 \<le> w" "w \<le> 256" using assms(1,5) sim_val_wfD(1,2) [OF assms(1)] by auto
  let ?st = "for_down (nat w) (restoring_step a b w) (sim_val_zero w, sim_val_zero w)"
  have "uval a < 2 ^ nat w" using uval_less [OF assms(1)] assms(5) by simp
  then have "divmod_inv (uval a) (uval b) w (nat w) (sim_val_zero w, sim_val_zero w)"
    using w assms(7) by (simp add: divmod_inv_def)
  then have inv: "divmod_inv (uval a) (uval b) w 0 ?st"
    by (rule for_down_invariant) (rule restoring_step_inv [OF assms(1-7)])
  show "sim_val_wf (res m)" "known (res m)" "width (res m) = w"
    "uval (res m) = (if m then uval a mod uval b else uval a div uval b)"
    using inv
    by (cases ?st; simp add: res_def sim_val_unsigned_divmod_def divmod_inv_def sim_val_mask_same_width)+
qed


lemma sim_val_divmod_xz:
  assumes "sim_val_wf a" "sim_val_wf b" "\<not> (known a \<and> known b)"
  shows "sim_val_div a b = sim_val_all_x (max_width a b)" "sim_val_mod a b = sim_val_all_x (max_width a b)"
  using assms arith_xz_check_known(2) [OF assms] max_width_bounds [OF assms(1,2)]
  by (simp_all add: sim_val_div_def sim_val_mod_def Let_def max_width_def)

lemma sim_val_divmod_widened:
  assumes "sim_val_wf a" "sim_val_wf b" "known a" "known b"
  defines "rw \<equiv> max_width a b"
  shows "sim_val_div a b = (if uval b = 0 then sim_val_all_x rw
           else sim_val_unsigned_divmod (a\<lparr>width := rw\<rparr>) (b\<lparr>width := rw\<rparr>) rw False)"
    and "sim_val_mod a b = (if uval b = 0 then sim_val_all_x rw
           else sim_val_unsigned_divmod (a\<lparr>width := rw\<rparr>) (b\<lparr>width := rw\<rparr>) rw True)"
proof -
  note B = max_width_bounds [OF assms(1,2), folded rw_def]
  have W: "sim_val_wf (a\<lparr>width := rw\<rparr>)" "sim_val_wf (b\<lparr>width := rw\<rparr>)"
    using assms B by (simp_all add: sim_val_wf_widen)
  have "sim_val_ucmp (b\<lparr>width := rw\<rparr>) (sim_val_zero rw) rw = ncmp (uval b) 0"
    using wf_plane_ok [OF W(2), of rw] B by (simp add: sim_val_ucmp_eq)
  then show "sim_val_div a b = (if uval b = 0 then sim_val_all_x rw
           else sim_val_unsigned_divmod (a\<lparr>width := rw\<rparr>) (b\<lparr>width := rw\<rparr>) rw False)"
    and "sim_val_mod a b = (if uval b = 0 then sim_val_all_x rw
           else sim_val_unsigned_divmod (a\<lparr>width := rw\<rparr>) (b\<lparr>width := rw\<rparr>) rw True)"
    using arith_xz_check_known(1) [OF assms(1,2), of rw] assms(3,4) sim_val_mask_idem [OF W(1)]
      sim_val_mask_idem [OF W(2)]
    by (simp_all add: sim_val_div_def sim_val_mod_def Let_def max_width_def [symmetric]
        rw_def [symmetric] ncmp_def)
qed

lemma sim_val_divmod_by_zero:
  assumes "sim_val_wf a" "sim_val_wf b" "known a" "known b" "uval b = 0"
  shows "sim_val_div a b = sim_val_all_x (max_width a b)" "sim_val_mod a b = sim_val_all_x (max_width a b)"
  using sim_val_divmod_widened [OF assms(1-4)] assms(5) by simp_all

lemma sim_val_divmod_known:
  assumes "sim_val_wf a" "sim_val_wf b" "known a" "known b" "uval b \<noteq> 0"
  shows "sim_val_wf (sim_val_div a b)" "known (sim_val_div a b)"
    "width (sim_val_div a b) = max_width a b" "uval (sim_val_div a b) = uval a div uval b"
    "sim_val_wf (sim_val_mod a b)" "known (sim_val_mod a b)"
    "width (sim_val_mod a b) = max_width a b" "uval (sim_val_mod a b) = uval a mod uval b"
proof -
  let ?rw = "max_width a b"
  note B = max_width_bounds [OF assms(1,2)]
  have W: "sim_val_wf (a\<lparr>width := ?rw\<rparr>)" "sim_val_wf (b\<lparr>width := ?rw\<rparr>)"
    using assms B by (simp_all add: sim_val_wf_widen)
  note D = unsigned_divmod_known [OF W, of ?rw]
  show "sim_val_wf (sim_val_div a b)" "known (sim_val_div a b)"
    "width (sim_val_div a b) = ?rw" "uval (sim_val_div a b) = uval a div uval b"
    "sim_val_wf (sim_val_mod a b)" "known (sim_val_mod a b)"
    "width (sim_val_mod a b) = ?rw" "uval (sim_val_mod a b) = uval a mod uval b"
    using D assms by (simp_all add: sim_val_divmod_widened)
qed

section \<open>Complement and negation\<close>

lemma not_known:
  assumes "sim_val_wf a" "known a"
  shows "known (sim_val_not a)" "uval (sim_val_not a) = 2 ^ nat (width a) - 1 - uval a"
proof -
  note N = sim_val_not_bits [OF assms(1)]
  have kb: "sim_bit a n = (if bit (uval a) n then B1 else B0)" for n
    using assms(2) by (simp add: sim_bit_def known_def uval_def bit_wval)
  have nb: "sim_bit (sim_val_not a) n = (if int n < width a \<and> \<not> bit (uval a) n then B1 else B0)" for n
    using N(3) [of n] kb [of n] sim_bit_beyond [OF N(1), of n] N(2) by (cases "int n < width a") auto
  show "known (sim_val_not a)"
    by (auto simp: known_def sim_bit_planes [OF N(1)] nb)
  have bits: "bit (uval (sim_val_not a)) n \<longleftrightarrow> int n < width a \<and> \<not> bit (uval a) n" for n
    by (auto simp: uval_def bit_wval sim_bit_planes [OF N(1)] nb [unfolded uval_def bit_wval])
  have low: "bit (uval a) n \<Longrightarrow> int n < width a" for n
    using sim_val_wfD(6) [OF assms(1)] by (simp add: uval_def bit_wval)
  have "uval a + uval (sim_val_not a) = uval a OR uval (sim_val_not a)"
    by (rule disjunctive_add_eq_or) (auto simp: bit_eq_iff bit_and_iff bits)
  also have "\<dots> = mask (nat (width a))"
    by (rule bit_eqI) (use low sim_val_wfD(1) [OF assms(1)] in \<open>auto simp: bit_or_iff bits bit_mask_iff zless_nat_eq_int_zless\<close>)
  finally show "uval (sim_val_not a) = 2 ^ nat (width a) - 1 - uval a"
    by (simp add: mask_eq_exp_minus_1)
qed

lemma sim_val_neg_known:
  assumes "sim_val_wf a" "known a" "0 < width a"
  shows "sim_val_wf (sim_val_neg a)" "known (sim_val_neg a)" "width (sim_val_neg a) = width a"
    "uval (sim_val_neg a) = (2 ^ nat (width a) - uval a) mod 2 ^ nat (width a)"
proof -
  let ?one = "sim_val_from_uint 1 (width a)"
  have one: "(sim_val_zero (width a))\<lparr>val := (replicate 4 0)[0 := 1]\<rparr> = ?one"
  proof -
    have "take_bit (nat (width a)) (1 :: u64) = 1" using assms(3) by simp
    then show ?thesis using assms(3) by (simp add: sim_val_zero_def sim_val_from_uint_def Let_def
          mask_eq_exp_minus_1 [symmetric] take_bit_eq_mask [symmetric] and.commute)
  qed
  have w: "width a \<le> 256" using assms(1) by (simp add: sim_val_wfD)
  have ov: "uval ?one = 1" using assms(3) by (simp add: uval_from_uint)
  have neg: "sim_val_neg a = sim_val_add (sim_val_not a) ?one"
    using assms one by (simp add: sim_val_neg_def has_xz_iff_known Let_def)
  have mw: "max_width (sim_val_not a) ?one = width a"
    by (simp add: max_width_def sim_val_not_bits(2) [OF assms(1)])
  have lt: "uval a < 2 ^ nat (width a)" by (rule uval_less [OF assms(1)])
  note A = sim_val_add_known [OF sim_val_not_bits(1) [OF assms(1)] sim_val_wf_from_uint [OF assms(3) w]
      not_known(1) [OF assms(1,2)] known_from_uint, of 1, unfolded mw, folded neg]
  show "sim_val_wf (sim_val_neg a)" "known (sim_val_neg a)" "width (sim_val_neg a) = width a"
    by (rule A(1) A(2) A(3))+
  show "uval (sim_val_neg a) = (2 ^ nat (width a) - uval a) mod 2 ^ nat (width a)"
    using A(4) lt not_known(2) [OF assms(1,2)] ov by (simp add: Suc_diff_Suc)
qed

section \<open>Signed reading and arithmetic right shift\<close>

definition sval :: "SimValue \<Rightarrow> int" where
  "sval v = (if 0 < width v \<and> bit (uval v) (nat (width v - 1))
             then int (uval v) - 2 ^ nat (width v) else int (uval v))"

lemma set_bits_from_known:
  assumes "sim_val_wf v" "known v" "0 \<le> lo" "hi \<le> width v"
  shows "sim_val_wf (set_bits_from lo hi v) \<and> known (set_bits_from lo hi v) \<and>
         width (set_bits_from lo hi v) = width v \<and>
         (\<forall>n. bit (uval (set_bits_from lo hi v)) n \<longleftrightarrow> (lo \<le> int n \<and> int n < hi) \<or> bit (uval v) n)"
proof -
  let ?P = "\<lambda>k r. sim_val_wf r \<and> known r \<and> width r = width v \<and>
      (\<forall>n. bit (uval r) n \<longleftrightarrow> (lo \<le> int n \<and> int n < lo + int k) \<or> bit (uval v) n)"
  have "?P (nat (hi - lo)) (set_bits_from lo hi v)"
    unfolding set_bits_from_def
  proof (rule for_loop_invariant [where P = ?P])
    show "?P 0 v" using assms by auto
  next
    fix k r
    assume k: "k < nat (hi - lo)" and r: "?P k r"
    have i: "lo + int k = int (nat (lo + int k))" "int (nat (lo + int k)) < width r"
      using assms(3,4) k r by auto
    have "sim_val_wf r" "known r" using r by simp_all
    note S = sim_val_set_bit_known [OF this i(2), of True, folded i(1)]
    have n: "n = nat (lo + int k) \<longleftrightarrow> int n = lo + int k" for n using assms(3) by linarith
    show "?P (Suc k) (sim_val_set_bit r (lo + int k) True)"
      using S r assms(3) by (auto simp: n)
  qed
  then show ?thesis using assms(3) by auto
qed

lemma uval_sign_fill:
  fixes u v :: nat
  assumes "\<And>n. bit u n \<longleftrightarrow> (w - s \<le> n \<and> n < w) \<or> bit v n" "v < 2 ^ (w - s)" "s \<le> w"
  shows "u = v + (2 ^ w - 2 ^ (w - s))"
proof -
  let ?f = "push_bit (w - s) (mask s :: nat)"
  have f: "bit ?f n \<longleftrightarrow> w - s \<le> n \<and> n < w" for n
    using assms(3) by (auto simp: bit_push_bit_iff bit_mask_iff)
  have low: "bit v n \<Longrightarrow> n < w - s" for n
    using assms(2) by (metis bit_take_bit_iff take_bit_nat_eq_self)
  have "v + ?f = v OR ?f"
    by (rule disjunctive_add_eq_or) (auto simp: bit_eq_iff bit_and_iff f dest: low)
  also have "\<dots> = u" by (rule bit_eqI) (auto simp: bit_or_iff f assms(1))
  finally have "u = v + ?f" ..
  moreover have "?f = 2 ^ w - 2 ^ (w - s)"
    using assms(3)
    by (simp add: push_bit_eq_mult mask_eq_exp_minus_1 algebra_simps diff_mult_distrib2 power_add [symmetric])
  ultimately show ?thesis by simp
qed

lemma ashr_sign_arith:
  fixes A :: nat
  assumes "s \<le> w"
  shows "int (A div 2 ^ s) + (2 ^ w - 2 ^ (w - s)) - 2 ^ w = (int A - 2 ^ w) div (2 ^ s :: int)"
proof -
  have "(2 :: int) ^ w = 2 ^ (w - s) * 2 ^ s" using assms by (simp add: power_add [symmetric])
  then have "(int A - 2 ^ w) div 2 ^ s = int A div 2 ^ s - 2 ^ (w - s)"
    using div_mult_self1 [of "2 ^ s" "int A" "- (2 ^ (w - s))"] by simp
  then show ?thesis by (simp add: zdiv_int)
qed

lemma sim_val_ashr_xz:
  "sim_val_wf a \<Longrightarrow> sim_val_wf b \<Longrightarrow> \<not> (known a \<and> known b) \<Longrightarrow>
   sim_val_ashr a b = sim_val_all_x (width a)"
  by (auto simp: sim_val_ashr_def has_xz_iff_known)

lemma sim_val_ashr_known:
  assumes "sim_val_wf a" "sim_val_wf b" "known a" "known b" "0 < width a"
  shows "sim_val_wf (sim_val_ashr a b)" "known (sim_val_ashr a b)"
    "width (sim_val_ashr a b) = width a"
    "sval (sim_val_ashr a b) = sval a div 2 ^ uval b"
proof -
  define w where "w = nat (width a)"
  have wa: "width a = int w" "0 < w" "width a \<le> 256"
    using assms(5) sim_val_wfD(2) [OF assms(1)] by (simp_all add: w_def)
  define sgn where "sgn = bit (uval a) (w - 1)"
  have lt: "uval a < 2 ^ w" using uval_less [OF assms(1)] by (simp add: w_def)
  have sb: "sim_val_get_bit a (width a - 1) = sgn"
    using sim_val_get_bit_eq [OF assms(1), of "w - 1"] wa by (simp add: sgn_def of_nat_diff)
  have sa: "sval a = (if sgn then int (uval a) - 2 ^ w else int (uval a))"
    using wa by (simp add: sval_def sgn_def nat_diff_distrib)
  let ?r = "sim_val_ashr a b"
  have goal: "sim_val_wf ?r \<and> known ?r \<and> width ?r = width a \<and> sval ?r = sval a div 2 ^ uval b"
  proof (cases "w \<le> uval b")
    case True
    then have big: "(2 :: int) ^ w \<le> 2 ^ uval b" by simp
    have r: "?r = (if sgn then sim_val_ones (width a) else sim_val_zero (width a))"
      using True assms sb wa
      by (auto simp: sim_val_ashr_def has_xz_iff_known sim_val_to_small_uint_eq shift_ge_width_nat Let_def)
    have low: "int (uval a) < 2 ^ w" using lt by (metis of_nat_less_iff of_nat_numeral of_nat_power)
    have "(int (uval a) - 2 ^ w) div 2 ^ uval b = - 1"
      by (rule int_div_pos_eq [of _ _ _ "int (uval a) - 2 ^ w + 2 ^ uval b"]) (use big low in linarith)+
    moreover have "int (uval a) div 2 ^ uval b = 0"
      by (rule div_pos_pos_trivial) (use big low in linarith)+
    ultimately
    have "sval a div 2 ^ uval b = (if sgn then - 1 else 0)" by (simp add: sa)
    moreover have "sval (sim_val_ones (width a)) = - 1"
    proof -
      have "bit (2 ^ w - 1 :: nat) (w - 1)"
        using wa(2) unfolding mask_eq_exp_minus_1 [symmetric] by (simp add: bit_mask_iff)
      then show ?thesis using wa by (simp add: sval_def uval_ones nat_diff_distrib of_nat_diff)
    qed
    moreover have "sval (sim_val_zero (width a)) = 0" by (simp add: sval_def)
    ultimately show ?thesis using wa r by simp
  next
    case False
    then have s: "uval b \<le> w" and lt64: "uval b < 2 ^ 64" using wa by auto
    note R = sim_val_shr_known [OF assms(1-4)]
    let ?f = "set_bits_from (width a - int (uval b)) (width a) (sim_val_shr a b)"
    have r: "?r = (if sgn \<and> uval b > 0 then ?f else sim_val_shr a b)"
      using False assms sb wa lt64
      by (auto simp: sim_val_ashr_def has_xz_iff_known sim_val_to_small_uint_eq shift_ge_width_nat Let_def
          uint_word_of_nat_u64 word_less_nat_alt unat_of_nat take_bit_nat_eq_self)
    have low: "uval a div 2 ^ uval b < 2 ^ (w - uval b)"
      using lt s by (simp add: less_mult_imp_div_less power_add [symmetric])
    have "0 \<le> width a - int (uval b)" "width a \<le> width (sim_val_shr a b)" using R(3) s wa by simp_all
    note S = set_bits_from_known [OF R(1,2) this]
    have n: "width a - int (uval b) \<le> int n \<longleftrightarrow> w - uval b \<le> n" "int n < width a \<longleftrightarrow> n < w" for n
      using s wa by linarith+
    have F: "sim_val_wf ?f" "known ?f" "width ?f = width a"
      "bit (uval ?f) n \<longleftrightarrow> (w - uval b \<le> n \<and> n < w) \<or> bit (uval a div 2 ^ uval b) n" for n
      using S R(3,4) by (simp_all only: n)
    have fv: "uval ?f = uval a div 2 ^ uval b + (2 ^ w - 2 ^ (w - uval b))"
      by (rule uval_sign_fill [OF F(4) low s])
    consider "sgn \<and> uval b > 0" | "\<not> sgn \<or> uval b = 0" by blast
    then show ?thesis
    proof cases
      case 1
      have "bit (uval ?f) (nat (width a - 1))" using F(4) [of "w - 1"] 1 wa by (auto simp: nat_diff_distrib)
      then have "sval ?r = int (uval ?f) - 2 ^ w" using r 1 F(3) wa by (simp add: sval_def)
      also have "\<dots> = int (uval a div 2 ^ uval b) + (2 ^ w - 2 ^ (w - uval b)) - 2 ^ w"
      proof -
        have "(2 :: nat) ^ (w - uval b) \<le> 2 ^ w" by simp
        then show ?thesis unfolding fv by (simp only: of_nat_add of_nat_diff of_nat_power of_nat_numeral)
      qed
      finally show ?thesis using ashr_sign_arith [OF s, of "uval a"] sa 1 r F by simp
    next
      case 2
      have "sval (sim_val_shr a b) = sval a div 2 ^ uval b"
      proof (cases "uval b = 0")
        case True
        then show ?thesis using R by (simp add: sval_def)
      next
        case pos: False
        with 2 have ns: "\<not> sgn" by simp
        have "\<not> bit (uval a div 2 ^ uval b) (w - 1)"
          using low pos by (metis bit_take_bit_iff take_bit_nat_eq_self diff_le_mono2 leD less_eq_Suc_le One_nat_def neq0_conv)
        then show ?thesis using R ns sa wa by (simp add: sval_def nat_diff_distrib zdiv_int)
      qed
      with 2 r R show ?thesis by auto
    qed
  qed
  then show "sim_val_wf ?r" "known ?r" "width ?r = width a" "sval ?r = sval a div 2 ^ uval b" by simp_all
qed

end
