(* ===== verification/Sim_Value_Concat.thy ===== *)
theory Sim_Value_Concat
  imports Sim_Value_MulDiv
begin

text \<open>
  Slices, concatenation, extension and the textual formats of sim_value.c, against lists of
  four-state bits.
\<close>

section \<open>A value as the list of its bits\<close>

definition sim_bits :: "SimValue \<Rightarrow> bit4 list" where
  "sim_bits v = map (sim_bit v) [0..<nat (width v)]"

lemma length_sim_bits [simp]: "length (sim_bits v) = nat (width v)"
  by (simp add: sim_bits_def)

lemma nth_sim_bits [simp]: "n < nat (width v) \<Longrightarrow> sim_bits v ! n = sim_bit v n"
  by (simp add: sim_bits_def)

lemma sim_bits_inject:
  assumes "sim_val_wf a" "sim_val_wf b"
  shows "sim_bits a = sim_bits b \<longleftrightarrow> a = b"
proof
  assume eq: "sim_bits a = sim_bits b"
  then have "nat (width a) = nat (width b)" by (metis length_sim_bits)
  then have w: "width a = width b" using sim_val_wfD(1) [OF assms(1)] sim_val_wfD(1) [OF assms(2)] by simp
  show "a = b"
  proof (rule sim_val_eqI [OF assms w])
    fix n assume "int n < width a"
    with eq w show "sim_bit a n = sim_bit b n" by (metis nth_sim_bits zless_nat_eq_int_zless)
  qed
qed simp

section \<open>Slices\<close>

lemma bit_slice_word:
  assumes "length a = 4" "j < 64"
  shows "bit (slice_word a (int lsb) ri 0) j \<longleftrightarrow> wbit a (lsb + 64 * ri + j)"
proof -
  define p where "p = (lsb + 64 * ri) div 64"
  define q where "q = (lsb + 64 * ri) mod 64"
  have s: "lsb + 64 * ri = 64 * p + q" and q: "q < 64" by (simp_all add: p_def q_def)
  have base: "int lsb + int ri * 64 = int (lsb + 64 * ri)" by simp
  have ip: "nat ((int lsb + int ri * 64) div 64) = p" "nat ((int lsb + int ri * 64) mod 64) = q"
    unfolding base p_def q_def by (simp_all only: nat_int_div_64)
  have word: "slice_word a (int lsb) ri 0 =
      (if q > 0 \<and> p + 1 < 4
       then (if p < 4 then drop_bit q (a ! p) else 0) OR push_bit (64 - q) (a ! (p + 1))
       else (if p < 4 then drop_bit q (a ! p) else 0))"
    by (simp only: slice_word_def Let_def ip)
  show ?thesis
  proof (cases "q + j < 64")
    case True
    have eq: "lsb + 64 * ri + j = 64 * p + (q + j)" using s by simp
    show ?thesis
      unfolding eq wbit_index [OF True] word using True assms
      by (auto simp: bit_or_iff bit_drop_bit_eq bit_push_bit_iff)
  next
    case False
    have eq: "lsb + 64 * ri + j = 64 * (p + 1) + (q + j - 64)" using s False by simp
    have lt: "q + j - 64 < 64" using q assms(2) by linarith
    have "64 - q \<le> j" "j - (64 - q) = q + j - 64" "q > 0" using False q assms(2) by linarith+
    then show ?thesis
      unfolding eq wbit_index [OF lt] word using False assms
      by (auto simp: bit_or_iff bit_drop_bit_eq bit_push_bit_iff bit_u64_beyond)
  qed
qed

lemma for_loop_slice:
  assumes "k \<le> 4" "length (val r) = 4" "length (xmask r) = 4" "length (zmask r) = 4"
    and "val r = replicate 4 0" "xmask r = replicate 4 0" "zmask r = replicate 4 0"
  shows "for_loop k (\<lambda>ri r. r\<lparr>val := (val r)[ri := F (val v) ri (val r ! ri)],
                            xmask := (xmask r)[ri := F (xmask v) ri (xmask r ! ri)],
                            zmask := (zmask r)[ri := F (zmask v) ri (zmask r ! ri)]\<rparr>) r =
         r\<lparr>val := for_loop k (\<lambda>i a. a[i := F (val v) i 0]) (replicate 4 0),
           xmask := for_loop k (\<lambda>i a. a[i := F (xmask v) i 0]) (replicate 4 0),
           zmask := for_loop k (\<lambda>i a. a[i := F (zmask v) i 0]) (replicate 4 0)\<rparr>"
  using assms(1)
proof (induction k)
  case 0
  then show ?case using assms by simp
next
  case (Suc k)
  have "for_loop k (\<lambda>i a. a[i := F p i 0]) (replicate 4 0) ! k = 0" for p
    using Suc.prems by (simp add: nth_for_loop_update)
  with Suc show ?case by simp
qed

lemma sim_val_slice_bits:
  assumes "sim_val_wf v" "0 \<le> lsb" "lsb \<le> msb" "msb - lsb < 256"
  shows "sim_val_wf (sim_val_slice v msb lsb)"
    and "width (sim_val_slice v msb lsb) = msb - lsb + 1"
    and "\<And>n. int n \<le> msb - lsb \<Longrightarrow> sim_bit (sim_val_slice v msb lsb) n = sim_bit v (nat lsb + n)"
proof -
  define rw where "rw = msb - lsb + 1"
  have rw: "0 < rw" "rw \<le> 256" using assms by (simp_all add: rw_def)
  have nw: "num_words rw \<le> 4" using rw by (simp add: num_words_le_4)
  obtain l where l: "lsb = int l" using assms(2) nonneg_int_cases by blast
  define P where "P = (\<lambda>a. for_loop (num_words rw) (\<lambda>i r. r[i := slice_word a lsb i 0]) (replicate 4 (0 :: u64)))"
  define r where "r = (sim_val_zero rw)\<lparr>val := P (val v), xmask := P (xmask v), zmask := P (zmask v)\<rparr>"
  have eq: "sim_val_slice v msb lsb = sim_val_mask r"
    using rw unfolding sim_val_slice_def rw_def [symmetric] r_def P_def
    by (simp add: Let_def for_loop_slice [OF nw, where F = "\<lambda>a. slice_word a lsb"])
  have len: "length (P a) = 4" for a by (simp add: P_def)
  have bits: "wbit (P a) n \<longleftrightarrow> wbit a (l + n)" if "length a = 4" "int n < rw" for a n
  proof -
    have "n div 64 < num_words rw" using that(2) by (rule less_num_words)
    moreover have "l + 64 * (n div 64) + n mod 64 = l + n" by simp
    ultimately show ?thesis
      using nw that bit_slice_word [OF that(1), of "n mod 64" l "n div 64"]
      by (simp add: P_def l wbit_for_loop add.commute)
  qed
  note B = bits [of "val v"] bits [of "xmask v"] bits [of "zmask v"]
  have sh: "shaped r" using rw by (simp add: shaped_def r_def len)
  have w: "width r = rw" and rp: "val r = P (val v)" "xmask r = P (xmask v)" "zmask r = P (zmask v)"
    by (simp_all add: r_def)
  have M: "wbit (val (sim_val_mask r)) n \<longleftrightarrow> int n < rw \<and> wbit (val v) (l + n)"
    "wbit (xmask (sim_val_mask r)) n \<longleftrightarrow> int n < rw \<and> wbit (xmask v) (l + n)"
    "wbit (zmask (sim_val_mask r)) n \<longleftrightarrow> int n < rw \<and> wbit (zmask v) (l + n)" for n
    using B [of n] assms(1) by (auto simp: wbit_sim_val_mask [OF sh] w rp sim_val_wfD)
  have len': "length (val (sim_val_mask r)) = 4" "length (xmask (sim_val_mask r)) = 4"
    "length (zmask (sim_val_mask r)) = 4"
    by (simp_all add: sim_val_mask_planes r_def len)
  show "width (sim_val_slice v msb lsb) = msb - lsb + 1" by (simp add: eq w rw_def)
  show "sim_val_wf (sim_val_slice v msb lsb)"
    unfolding eq
    by (rule sim_val_wfI)
       (use rw w len' M sim_val_wf_disjoint [OF assms(1)] in \<open>auto simp: planes_disjoint_def\<close>)
  show "sim_bit (sim_val_slice v msb lsb) n = sim_bit v (nat lsb + n)" if "int n \<le> msb - lsb" for n
    unfolding eq sim_bit_def M using that by (simp add: rw_def l)
qed

section \<open>Concatenation\<close>

lemma wbit_concat_word:
  assumes "length r = 4"
  shows "length (concat_word (int shift) si b r) = 4"
    and "wbit (concat_word (int shift) si b r) n \<longleftrightarrow>
         wbit r n \<or> (shift + 64 * si \<le> n \<and> n < 256 \<and> bit b (n - (shift + 64 * si)))"
proof -
  define p where "p = (shift + 64 * si) div 64"
  define q where "q = (shift + 64 * si) mod 64"
  have s: "shift + 64 * si = 64 * p + q" and q: "q < 64" by (simp_all add: p_def q_def)
  have base: "int shift + int si * 64 = int (shift + 64 * si)" by simp
  have ip: "nat ((int shift + int si * 64) div 64) = p" "nat ((int shift + int si * 64) mod 64) = q"
    unfolding base p_def q_def by (simp_all only: nat_int_div_64)
  define r1 where "r1 = (if p < 4 then r[p := r ! p OR push_bit q b] else r)"
  have cw: "concat_word (int shift) si b r =
      (if q > 0 \<and> p + 1 < 4 then r1[p + 1 := r1 ! (p + 1) OR drop_bit (64 - q) b] else r1)"
    by (simp only: concat_word_def Let_def ip r1_def)
  have len1: "length r1 = 4" using assms by (simp add: r1_def)
  show "length (concat_word (int shift) si b r) = 4" using len1 by (simp add: cw)
  define i where "i = n div 64"
  define j where "j = n mod 64"
  have n: "n = 64 * i + j" and j: "j < 64" by (simp_all add: i_def j_def)
  have W1: "wbit r1 n \<longleftrightarrow> wbit r n \<or> (i = p \<and> p < 4 \<and> q \<le> j \<and> bit b (j - q))"
    unfolding n r1_def using assms j
    by (auto simp: wbit_index nth_list_update bit_or_iff bit_push_bit_iff)
  have W: "wbit (concat_word (int shift) si b r) n \<longleftrightarrow>
      wbit r1 n \<or> (i = p + 1 \<and> p + 1 < 4 \<and> q > 0 \<and> bit b (64 - q + j))"
    unfolding n cw using len1 j
    by (auto simp: wbit_index nth_list_update bit_or_iff bit_drop_bit_eq)
  have hi: "\<not> bit b m" if "64 \<le> m" for m using that by (rule bit_u64_beyond)
  consider "i = p" | "i = p + 1" | "i < p" | "i > p + 1" by linarith
  then have "(i = p \<and> p < 4 \<and> q \<le> j \<and> bit b (j - q)) \<or>
             (i = p + 1 \<and> p + 1 < 4 \<and> q > 0 \<and> bit b (64 - q + j)) \<longleftrightarrow>
             shift + 64 * si \<le> n \<and> n < 256 \<and> bit b (n - (shift + 64 * si))"
  proof cases
    case 1
    then show ?thesis unfolding s n using j by auto
  next
    case 2
    then have "n - (64 * p + q) = 64 - q + j" unfolding n using q by simp
    with 2 hi [of "64 - q + j"] show ?thesis unfolding s n using j q by (cases "q = 0") auto
  next
    case 3
    then show ?thesis unfolding s n using j q by auto
  next
    case 4
    then have "64 \<le> n - (64 * p + q)" unfolding n using q by simp
    with 4 hi [of "n - (64 * p + q)"] show ?thesis unfolding s by auto
  qed
  with W W1 show "wbit (concat_word (int shift) si b r) n \<longleftrightarrow>
      wbit r n \<or> (shift + 64 * si \<le> n \<and> n < 256 \<and> bit b (n - (shift + 64 * si)))" by blast
qed

lemma wbit_concat_plane:
  fixes shift :: nat
  assumes "length r = 4" "length a = 4" "w \<le> 256" "k \<le> num_words w"
  defines "loop \<equiv> \<lambda>k. for_loop k (\<lambda>si r. concat_word (int shift) si (a ! si AND word_mask w (int si)) r) r"
  shows "length (loop k) = 4 \<and>
         (\<forall>n. wbit (loop k) n \<longleftrightarrow> wbit r n \<or>
            (shift \<le> n \<and> n < 256 \<and> (n - shift) div 64 < k \<and> wbit a (n - shift) \<and> int (n - shift) < w))"
  using assms(4)
proof (induction k)
  case 0
  then show ?case using assms(1) by (simp add: loop_def)
next
  case (Suc k)
  then have IH: "length (loop k) = 4"
    "\<And>n. wbit (loop k) n \<longleftrightarrow> wbit r n \<or>
       (shift \<le> n \<and> n < 256 \<and> (n - shift) div 64 < k \<and> wbit a (n - shift) \<and> int (n - shift) < w)"
    by simp_all
  have step: "loop (Suc k) = concat_word (int shift) k (a ! k AND word_mask w (int k)) (loop k)"
    by (simp add: loop_def)
  have k: "k < 4" using Suc.prems assms(3) num_words_le_4 [of w] by simp
  have new: "shift + 64 * k \<le> n \<and> n < 256 \<and> bit (a ! k AND word_mask w (int k)) (n - (shift + 64 * k)) \<longleftrightarrow>
      shift \<le> n \<and> n < 256 \<and> (n - shift) div 64 = k \<and> wbit a (n - shift) \<and> int (n - shift) < w" for n
  proof (cases "shift \<le> n \<and> (n - shift) div 64 = k")
    case True
    define m where "m = n - shift"
    have m: "n = shift + 64 * k + m mod 64" "m = 64 * k + m mod 64"
      using True unfolding m_def by (metis add.assoc le_add_diff_inverse mult_div_mod_eq)+
    have "n - (shift + 64 * k) = m mod 64" using m(1) by simp
    moreover have "shift + 64 * k \<le> n" using m(1) by simp
    moreover have "bit (word_mask w (int k)) (m mod 64) \<longleftrightarrow> int m < w"
      using bit_word_mask_at [of w m] True by (simp add: m_def)
    moreover have "bit (a ! k) (m mod 64) \<longleftrightarrow> wbit a m"
      using True k assms(2) by (simp add: wbit_def m_def)
    ultimately show ?thesis using True by (auto simp: bit_and_iff m_def)
  next
    case False
    have "64 \<le> n - (shift + 64 * k)" if "shift + 64 * k \<le> n"
    proof (rule ccontr)
      assume "\<not> ?thesis"
      with that have "shift \<le> n \<and> (n - shift) div 64 = k" by (auto simp: div_nat_eqI)
      with False show False by blast
    qed
    then show ?thesis using False bit_u64_beyond by blast
  qed
  have lt: "(n - shift) div 64 < Suc k \<longleftrightarrow> (n - shift) div 64 < k \<or> (n - shift) div 64 = k" for n
    by (simp add: less_Suc_eq)
  show ?case
    unfolding step using wbit_concat_word [OF IH(1)] by (auto simp: IH(2) new lt)
qed

lemma for_loop_concat_planes:
  "for_loop k (\<lambda>si r. r\<lparr>val := F si (val r), xmask := G si (xmask r), zmask := H si (zmask r)\<rparr>) r =
   r\<lparr>val := for_loop k F (val r), xmask := for_loop k G (xmask r), zmask := for_loop k H (zmask r)\<rparr>"
  by (induction k) simp_all

lemma concat_operand_planes:
  assumes "shaped r" "sim_val_wf v" "concat_operand v (r, int shift) = (r', s')"
  shows "s' = int shift + width v" "shaped r'" "width r' = width r"
    and "wbit (val r') n \<longleftrightarrow> wbit (val r) n \<or> (shift \<le> n \<and> n < 256 \<and> wbit (val v) (n - shift))"
    and "wbit (xmask r') n \<longleftrightarrow> wbit (xmask r) n \<or> (shift \<le> n \<and> n < 256 \<and> wbit (xmask v) (n - shift))"
    and "wbit (zmask r') n \<longleftrightarrow> wbit (zmask r) n \<or> (shift \<le> n \<and> n < 256 \<and> wbit (zmask v) (n - shift))"
proof -
  let ?L = "\<lambda>a r. for_loop (num_words (width v))
      (\<lambda>si r. concat_word (int shift) si (a ! si AND word_mask (width v) (int si)) r) r"
  have r': "r' = r\<lparr>val := ?L (val v) (val r), xmask := ?L (xmask v) (xmask r), zmask := ?L (zmask v) (zmask r)\<rparr>"
    and s': "s' = int shift + width v"
    using assms(3) by (simp_all add: concat_operand_def Let_def for_loop_concat_planes
        [where F = "\<lambda>si. concat_word (int shift) si (val v ! si AND word_mask (width v) (int si))"
           and G = "\<lambda>si. concat_word (int shift) si (xmask v ! si AND word_mask (width v) (int si))"
           and H = "\<lambda>si. concat_word (int shift) si (zmask v ! si AND word_mask (width v) (int si))"])
  have P: "length (?L a p) = 4" "wbit (?L a p) n \<longleftrightarrow> wbit p n \<or> (shift \<le> n \<and> n < 256 \<and> wbit a (n - shift))"
    if "length p = 4" "length a = 4" "\<And>m. wbit a m \<Longrightarrow> int m < width v" for a p n
    using wbit_concat_plane [OF that(1,2) _ order_refl, of "width v" shift] that(3) sim_val_wfD(2) [OF assms(2)]
    by (auto dest: less_num_words)
  show "s' = int shift + width v" by (rule s')
  show "shaped r'" "width r' = width r"
    using assms(1) P sim_val_wfD [OF assms(2)] by (simp_all add: shaped_def r')
  show "wbit (val r') n \<longleftrightarrow> wbit (val r) n \<or> (shift \<le> n \<and> n < 256 \<and> wbit (val v) (n - shift))"
    "wbit (xmask r') n \<longleftrightarrow> wbit (xmask r) n \<or> (shift \<le> n \<and> n < 256 \<and> wbit (xmask v) (n - shift))"
    "wbit (zmask r') n \<longleftrightarrow> wbit (zmask r) n \<or> (shift \<le> n \<and> n < 256 \<and> wbit (zmask v) (n - shift))"
    using assms(1) P sim_val_wfD [OF assms(2)] by (simp_all add: shaped_def r')
qed

text \<open>The invariant of the loop over the operands: the bits collected so far.\<close>

definition holds_bits :: "SimValue \<Rightarrow> bit4 list \<Rightarrow> bool" where
  "holds_bits r bs \<longleftrightarrow>
     (\<forall>n. (wbit (val r) n \<longleftrightarrow> n < 256 \<and> n < length bs \<and> bs ! n = B1) \<and>
          (wbit (xmask r) n \<longleftrightarrow> n < 256 \<and> n < length bs \<and> bs ! n = BX) \<and>
          (wbit (zmask r) n \<longleftrightarrow> n < 256 \<and> n < length bs \<and> bs ! n = BZ))"

lemma holds_bits_append:
  assumes "shaped r" "sim_val_wf v" "holds_bits r bs" "concat_operand v (r, int (length bs)) = (r', s')"
  shows "holds_bits r' (bs @ sim_bits v)"
proof -
  note C = concat_operand_planes [OF assms(1,2,4)]
  have in_width: "sim_bit v m \<noteq> B0 \<Longrightarrow> m < nat (width v)" for m
    using sim_bit_beyond [OF assms(2), of m] by linarith
  have app: "n < length (bs @ sim_bits v) \<and> (bs @ sim_bits v) ! n = b \<longleftrightarrow>
      (n < length bs \<and> bs ! n = b) \<or> (length bs \<le> n \<and> sim_bit v (n - length bs) = b)"
    if "b \<noteq> B0" for n b
  proof (cases "n < length bs")
    case True
    then show ?thesis by (simp add: nth_append)
  next
    case False
    then have lt: "n < length bs + nat (width v) \<longleftrightarrow> n - length bs < nat (width v)" by linarith
    show ?thesis
      using False that in_width [of "n - length bs"] by (auto simp: nth_append lt)
  qed
  have H: "wbit (val r) n \<longleftrightarrow> n < 256 \<and> n < length bs \<and> bs ! n = B1"
    "wbit (xmask r) n \<longleftrightarrow> n < 256 \<and> n < length bs \<and> bs ! n = BX"
    "wbit (zmask r) n \<longleftrightarrow> n < 256 \<and> n < length bs \<and> bs ! n = BZ" for n
    using assms(3) by (simp_all add: holds_bits_def)
  have "B1 \<noteq> B0" "BX \<noteq> B0" "BZ \<noteq> B0" by simp_all
  then show ?thesis
    unfolding holds_bits_def C(4-6) H sim_bit_planes [OF assms(2)] using app by blast
qed

lemma concat_loop:
  assumes "\<And>v. v \<in> set vals \<Longrightarrow> sim_val_wf v" "w \<le> 256"
  defines "st \<equiv> for_down (length vals) (\<lambda>i st. concat_operand (vals ! i) st) (sim_val_zero w, 0)"
  shows "shaped (fst st) \<and> width (fst st) = w \<and>
         holds_bits (fst st) (concat (map sim_bits (rev vals)))"
proof -
  let ?bs = "\<lambda>i. concat (map sim_bits (rev (drop i vals)))"
  let ?P = "\<lambda>i st. shaped (fst st) \<and> width (fst st) = w \<and> snd st = int (length (?bs i)) \<and>
      holds_bits (fst st) (?bs i)"
  have "?P 0 st"
    unfolding st_def
  proof (rule for_down_invariant [where P = ?P])
    show "?P (length vals) (sim_val_zero w, 0)"
      using assms(2) by (simp add: shaped_def holds_bits_def)
  next
    fix i st
    assume i: "i < length vals" and P: "?P (Suc i) st"
    obtain r s where st: "st = (r, s)" by force
    obtain r' s' where step: "concat_operand (vals ! i) (r, s) = (r', s')" by force
    have v: "sim_val_wf (vals ! i)" using i by (intro assms(1)) simp
    have next_bits: "?bs i = ?bs (Suc i) @ sim_bits (vals ! i)"
      using i by (simp add: Cons_nth_drop_Suc [symmetric])
    have s: "s = int (length (?bs (Suc i)))" using P st by simp
    have r: "shaped r" "holds_bits r (?bs (Suc i))" "width r = w" using P st by simp_all
    note C = concat_operand_planes [OF r(1) v step [unfolded s]]
      holds_bits_append [OF r(1) v r(2) step [unfolded s]]
    show "?P i (concat_operand (vals ! i) st)"
      unfolding st step next_bits using C r(3) sim_val_wfD(1) [OF v] by simp
  qed
  then show ?thesis by simp
qed

lemma sum_width_loop:
  "for_loop (length vals) (\<lambda>i t. t + width (vals ! i)) 0 = sum_list (map width vals)"
proof -
  have "for_loop k (\<lambda>i t. t + width (vals ! i)) 0 = sum_list (map width (take k vals))"
    if "k \<le> length vals" for k
    using that by (induction k) (simp_all add: take_Suc_conv_app_nth)
  from this [of "length vals"] show ?thesis by simp
qed

lemma length_concat_bits:
  assumes "\<And>v. v \<in> set vals \<Longrightarrow> sim_val_wf v"
  shows "int (length (concat (map sim_bits (rev vals)))) = sum_list (map width vals)"
  using assms
proof (induction vals)
  case Nil
  then show ?case by simp
next
  case (Cons v vs)
  then show ?case using sim_val_wfD(1) [of v] by simp
qed

lemma sim_val_concat_bits:
  assumes "\<And>v. v \<in> set vals \<Longrightarrow> sim_val_wf v"
  shows "sim_val_wf (sim_val_concat vals)"
    and "sim_bits (sim_val_concat vals) = take 256 (concat (map sim_bits (rev vals)))"
proof -
  let ?bs = "concat (map sim_bits (rev vals))"
  define w where "w = (if sum_list (map width vals) > 256 then 256 else sum_list (map width vals))"
  have len: "int (length ?bs) = sum_list (map width vals)"
    by (rule length_concat_bits) (rule assms)
  have w: "w = int (min 256 (length ?bs))"
    using len unfolding w_def by (simp add: min_def)
  define r where "r = fst (for_down (length vals) (\<lambda>i st. concat_operand (vals ! i) st) (sim_val_zero w, 0))"
  have cat: "sim_val_concat vals = sim_val_mask r"
    by (simp add: sim_val_concat_def Let_def sum_width_loop r_def w_def)
  have r: "shaped r" "width r = w" "holds_bits r ?bs"
    using concat_loop [OF assms, of vals w] w by (simp_all add: r_def)
  have disj: "planes_disjoint r" using r(3) by (auto simp: planes_disjoint_def holds_bits_def)
  show wf: "sim_val_wf (sim_val_concat vals)"
    unfolding cat by (rule sim_val_wf_mask) (use r w disj in simp_all)
  show "sim_bits (sim_val_concat vals) = take 256 ?bs"
  proof (rule nth_equalityI)
    show "length (sim_bits (sim_val_concat vals)) = length (take 256 ?bs)"
      using w r by (simp add: cat)
  next
    fix n assume "n < length (sim_bits (sim_val_concat vals))"
    then have n: "n < 256" "n < length ?bs" "int n < width r" using w r by (simp_all add: cat)
    have "sim_bit r n = ?bs ! n"
      using r(3) n by (cases "?bs ! n") (auto simp: sim_bit_def holds_bits_def)
    then show "sim_bits (sim_val_concat vals) ! n = take 256 ?bs ! n"
      using n r by (simp add: cat sim_bit_mask)
  qed
qed

section \<open>Extension\<close>

lemma sim_val_zext_bits:
  assumes "sim_val_wf v" "w \<le> 256"
  shows "sim_val_wf (sim_val_zext v w)" "width (sim_val_zext v w) = max (width v) w"
    "sim_bit (sim_val_zext v w) n = sim_bit v n" "uval (sim_val_zext v w) = uval v"
    "known (sim_val_zext v w) = known v"
  using assms by (auto simp: sim_val_zext_def sim_val_wf_widen sim_bit_def)

lemma set_bits_from_planes:
  assumes "length (val v) = 4" "0 \<le> lo" "hi \<le> width v" "width v \<le> 256"
  shows "xmask (set_bits_from lo hi v) = xmask v \<and> zmask (set_bits_from lo hi v) = zmask v \<and>
         width (set_bits_from lo hi v) = width v \<and> length (val (set_bits_from lo hi v)) = 4 \<and>
         (\<forall>n. wbit (val (set_bits_from lo hi v)) n \<longleftrightarrow> (lo \<le> int n \<and> int n < hi) \<or> wbit (val v) n)"
proof -
  let ?P = "\<lambda>k (r :: SimValue). xmask r = xmask v \<and> zmask r = zmask v \<and> width r = width v \<and> length (val r) = 4 \<and>
      (\<forall>n. wbit (val r) n \<longleftrightarrow> (lo \<le> int n \<and> int n < lo + int k) \<or> wbit (val v) n)"
  have "?P (nat (hi - lo)) (set_bits_from lo hi v)"
    unfolding set_bits_from_def
  proof (rule for_loop_invariant [where P = ?P])
    show "?P 0 v" using assms by auto
  next
    fix k r
    assume k: "k < nat (hi - lo)" and r: "?P k r"
    have i: "lo + int k = int (nat (lo + int k))" "int (nat (lo + int k)) < width r" "width r \<le> 256"
      using assms k r by auto
    have "length (val r) = 4" using r by simp
    note S = wbit_set_bit [OF this i(2,3), of True, folded i(1)]
    have n: "n = nat (lo + int k) \<longleftrightarrow> int n = lo + int k" for n using assms(2) by linarith
    show "?P (Suc k) (sim_val_set_bit r (lo + int k) True)"
      using S r assms(2) by (auto simp: n)
  qed
  then show ?thesis using assms(2) by auto
qed

text \<open>The loop that sets x bits is the same loop on the other array.\<close>

lemma set_x_from_planes:
  fixes v :: SimValue
  assumes "length (xmask v) = 4" "0 \<le> lo" "lo + int k \<le> 256"
  defines "r \<equiv> for_loop k (\<lambda>k r. let i = lo + int k; wi = nat (i div 64); bi = nat (i mod 64)
                            in r\<lparr>xmask := (xmask r)[wi := xmask r ! wi OR push_bit bi 1]\<rparr>) v"
  shows "val r = val v \<and> zmask r = zmask v \<and> width r = width v \<and> length (xmask r) = 4 \<and>
         (\<forall>n. wbit (xmask r) n \<longleftrightarrow> (lo \<le> int n \<and> int n < lo + int k) \<or> wbit (xmask v) n)"
proof -
  let ?P = "\<lambda>k (r :: SimValue). val r = val v \<and> zmask r = zmask v \<and> width r = width v \<and> length (xmask r) = 4 \<and>
      (\<forall>n. wbit (xmask r) n \<longleftrightarrow> (lo \<le> int n \<and> int n < lo + int k) \<or> wbit (xmask v) n)"
  have step: "wbit (a[i div 64 := a ! (i div 64) OR push_bit (i mod 64) 1]) n \<longleftrightarrow> n = i \<or> wbit a n"
    if "length a = 4" "i < 256" for a i n
  proof -
    have same: "n = i \<longleftrightarrow> n div 64 = i div 64 \<and> i mod 64 = n mod 64" by (metis div_mult_mod_eq)
    have i: "i div 64 < length a" using that by simp
    have mask: "bit (push_bit (i mod 64) (1 :: u64)) (n mod 64) \<longleftrightarrow> i mod 64 = n mod 64" for i n :: nat
      by (auto simp: bit_push_bit_iff bit_1_iff simp del: push_bit_of_1)
    have at: "bit (a ! (i div 64)) (n mod 64) \<longleftrightarrow> wbit a n" if "n div 64 = i div 64"
      using that i by (simp add: wbit_def)
    show ?thesis
      using i at by (auto simp: wbit_update same bit_or_iff mask simp del: push_bit_of_1)
  qed
  have "?P k r"
    unfolding r_def
  proof (rule for_loop_invariant [where P = ?P])
    show "?P 0 v" using assms by auto
  next
    fix j r
    assume j: "j < k" and r: "?P j r"
    define i where "i = nat (lo + int j)"
    have i: "lo + int j = int i" "i < 256" using assms(2,3) j by (auto simp: i_def)
    have len: "length (xmask r) = 4" using r by simp
    show "?P (Suc j) (let i = lo + int j; wi = nat (i div 64); bi = nat (i mod 64)
                      in r\<lparr>xmask := (xmask r)[wi := xmask r ! wi OR push_bit bi 1]\<rparr>)"
    proof -
      have new: "(let i = lo + int j; wi = nat (i div 64); bi = nat (i mod 64)
                  in r\<lparr>xmask := (xmask r)[wi := xmask r ! wi OR push_bit bi 1]\<rparr>) =
          r\<lparr>xmask := (xmask r)[i div 64 := xmask r ! (i div 64) OR push_bit (i mod 64) 1]\<rparr>"
        by (simp only: Let_def i(1) nat_int_div_64)
      have lt: "(lo \<le> int n \<and> int n < lo + int (Suc j)) \<longleftrightarrow> n = i \<or> (lo \<le> int n \<and> int n < lo + int j)" for n
        using i(1) assms(2) by linarith
      have "wbit ((xmask r)[i div 64 := xmask r ! (i div 64) OR push_bit (i mod 64) 1]) n \<longleftrightarrow>
            (lo \<le> int n \<and> int n < lo + int (Suc j)) \<or> wbit (xmask v) n" for n
        using r unfolding lt step [OF len i(2)] by blast
      with r show ?thesis unfolding new by simp
    qed
  qed
  then show ?thesis .
qed

text \<open>The bit that sign extension repeats: the sign bit, except that z is dropped.\<close>

definition sign_fill :: "bit4 \<Rightarrow> bit4" where
  "sign_fill b = (if b = BZ then B0 else b)"

lemma sim_val_sext_bits:
  assumes "sim_val_wf v" "0 < width v" "w \<le> 256"
  shows "sim_val_wf (sim_val_sext v w)" "width (sim_val_sext v w) = max (width v) w"
    and "sim_bit (sim_val_sext v w) n =
         (if width v \<le> int n \<and> int n < w then sign_fill (sim_bit v (nat (width v - 1))) else sim_bit v n)"
proof -
  define s where "s = nat (width v - 1)"
  have s: "width v - 1 = int s" "s div 64 < 4" using assms(2) sim_val_wfD(2) [OF assms(1)]
    by (auto simp: s_def)
  have W: "width v \<le> 256" "length (val v) = 4" "length (xmask v) = 4" "length (zmask v) = 4"
    using assms(1) by (simp_all add: sim_val_wfD)
  have sgn: "sim_val_get_bit v (width v - 1) \<longleftrightarrow> sim_bit v s = B1"
    using sim_val_get_bit_eq [OF assms(1), of s] by (simp add: s uval_def bit_wval sim_bit_planes [OF assms(1)])
  have sx: "bit (xmask v ! nat ((width v - 1) div 64)) (nat ((width v - 1) mod 64)) \<longleftrightarrow> sim_bit v s = BX"
    using W s by (simp add: bit_nth_wbit sim_bit_planes [OF assms(1)])
  have "sim_val_wf (sim_val_sext v w) \<and> width (sim_val_sext v w) = max (width v) w \<and>
        (\<forall>n. sim_bit (sim_val_sext v w) n =
         (if width v \<le> int n \<and> int n < w then sign_fill (sim_bit v s) else sim_bit v n))"
  proof (cases "w \<le> width v")
    case True
    then show ?thesis using assms(1) by (auto simp: sim_val_sext_def)
  next
    case False
    define v1 where "v1 = v\<lparr>width := w\<rparr>"
    define v2 where "v2 = set_bits_from (width v) w v1"
    have v1: "sim_val_wf v1" using assms False by (simp add: v1_def sim_val_wf_widen)
    have P2: "xmask v2 = xmask v" "zmask v2 = zmask v" "width v2 = w" "length (val v2) = 4"
      "\<And>n. wbit (val v2) n \<longleftrightarrow> (width v \<le> int n \<and> int n < w) \<or> wbit (val v) n"
      using set_bits_from_planes [of v1 "width v" w] W assms by (simp_all add: v1_def v2_def)
    define v3 where "v3 = for_loop (nat (w - width v))
        (\<lambda>k r. let i = width v + int k; wi = nat (i div 64); bi = nat (i mod 64)
               in r\<lparr>xmask := (xmask r)[wi := xmask r ! wi OR push_bit bi 1]\<rparr>) v1"
    have P3: "val v3 = val v" "zmask v3 = zmask v" "width v3 = w" "length (xmask v3) = 4"
      "\<And>n. wbit (xmask v3) n \<longleftrightarrow> (width v \<le> int n \<and> int n < w) \<or> wbit (xmask v) n"
      using set_x_from_planes [of v1 "width v" "nat (w - width v)"] W assms False
      by (simp_all add: v1_def v3_def)
    have eq: "sim_val_sext v w = (if sim_bit v s = B1 then v2 else if sim_bit v s = BX then v3 else v1)"
      using False assms(2) sgn sx by (simp add: sim_val_sext_def Let_def v1_def v2_def v3_def)
    have beyond: "\<not> wbit (val v) n" "\<not> wbit (xmask v) n" "\<not> wbit (zmask v) n" if "width v \<le> int n" for n
      using that sim_val_wfD(6-8) [OF assms(1), of n] by auto
    have low: "wbit (val v) n \<or> wbit (xmask v) n \<or> wbit (zmask v) n \<Longrightarrow> int n < width v" for n
      using sim_val_wfD(6-8) [OF assms(1), of n] by auto
    have "sim_val_wf v2"
      by (rule sim_val_wfI)
         (use P2 W assms False low beyond sim_val_wf_disjoint [OF assms(1)] in
           \<open>fastforce simp: planes_disjoint_def\<close>)+
    moreover have "sim_val_wf v3"
      by (rule sim_val_wfI)
         (use P3 W assms False low beyond sim_val_wf_disjoint [OF assms(1)] in
           \<open>fastforce simp: planes_disjoint_def\<close>)+
    moreover have "sim_bit v2 n = (if width v \<le> int n \<and> int n < w then B1 else sim_bit v n)"
      "sim_bit v3 n = (if width v \<le> int n \<and> int n < w then BX else sim_bit v n)"
      "sim_bit v1 n = (if width v \<le> int n \<and> int n < w then B0 else sim_bit v n)" for n
      using P2 P3 beyond [of n] by (auto simp: sim_bit_def v1_def)
    ultimately show ?thesis
      using v1 P2 P3 False unfolding eq by (cases "sim_bit v s") (auto simp: sign_fill_def v1_def)
  qed
  then show "sim_val_wf (sim_val_sext v w)" "width (sim_val_sext v w) = max (width v) w"
    "sim_bit (sim_val_sext v w) n =
     (if width v \<le> int n \<and> int n < w then sign_fill (sim_bit v (nat (width v - 1))) else sim_bit v n)"
    by (simp_all add: s_def)
qed

lemma sext_known_bits:
  assumes "sim_val_wf v" "known v" "0 < width v" "w \<le> 256"
  shows "bit (uval (sim_val_sext v w)) n \<longleftrightarrow>
         (width v \<le> int n \<and> int n < w \<and> bit (uval v) (nat (width v - 1))) \<or> bit (uval v) n"
proof -
  note S = sim_val_sext_bits [OF assms(1,3,4)]
  have kb: "sim_bit v m = (if bit (uval v) m then B1 else B0)" for m
    using assms(2) by (simp add: sim_bit_def known_def uval_def bit_wval)
  have low: "bit (uval v) n \<Longrightarrow> int n < width v"
    using sim_val_wfD(6) [OF assms(1)] by (simp add: uval_def bit_wval)
  have "bit (uval (sim_val_sext v w)) n \<longleftrightarrow> sim_bit (sim_val_sext v w) n = B1"
    by (simp add: uval_def bit_wval sim_bit_planes [OF S(1)])
  then show ?thesis using low by (auto simp: S(3) kb sign_fill_def)
qed

lemma sval_sext:
  assumes "sim_val_wf v" "known v" "0 < width v" "width v \<le> w" "w \<le> 256"
  shows "sval (sim_val_sext v w) = sval v"
proof -
  note bits = sext_known_bits [OF assms(1,2,3,5)]
  define k where "k = nat (width v)"
  define m where "m = nat w"
  have km: "0 < k" "k \<le> m" "width v = int k" "w = int m" using assms(3,4) by (simp_all add: k_def m_def)
  have w: "width (sim_val_sext v w) = int m"
    using sim_val_sext_bits(2) [OF assms(1,3,5)] km by simp
  have lt: "uval v < 2 ^ k" using uval_less [OF assms(1)] by (simp add: k_def)
  have top: "nat (int k - 1) = k - 1" "nat (int m - 1) = m - 1" by linarith+
  have bits: "bit (uval (sim_val_sext v w)) n \<longleftrightarrow> (k \<le> n \<and> n < m \<and> bit (uval v) (k - 1)) \<or> bit (uval v) n" for n
    using bits [of n] by (simp add: km top)
  show ?thesis
  proof (cases "bit (uval v) (k - 1)")
    case True
    have mk: "m - (m - k) = k" using km(2) by simp
    have "uval (sim_val_sext v w) = uval v + (2 ^ m - 2 ^ (m - (m - k)))"
      by (rule uval_sign_fill) (use True in \<open>simp_all add: mk bits lt\<close>)
    moreover have "(2 :: nat) ^ k \<le> 2 ^ m" using km(2) by simp
    ultimately have "int (uval (sim_val_sext v w)) = int (uval v) + (2 ^ m - 2 ^ k)"
      unfolding mk by (simp only: of_nat_add of_nat_diff of_nat_power of_nat_numeral)
    moreover have "bit (uval (sim_val_sext v w)) (m - 1)"
      using bits [of "m - 1"] True km by (cases "m = k") auto
    ultimately show ?thesis using True w km by (simp add: sval_def top)
  next
    case False
    then have eq: "uval (sim_val_sext v w) = uval v" by (intro bit_eqI) (simp add: bits)
    moreover have "\<not> bit (uval v) (m - 1)"
    proof (cases "m = k")
      case True
      then show ?thesis using False by simp
    next
      case neq: False
      then show ?thesis
        using bit_less_exp [OF lt, of "m - 1"] km by auto
    qed
    ultimately show ?thesis using False w km by (simp add: sval_def top)
  qed
qed

end
