(* ===== verification/Sim_Value_Format.thy ===== *)
theory Sim_Value_Format
  imports Sim_Value_Concat
begin

text \<open>
  The binary and hexadecimal formats of sim_value.c read back: a reader for each format
  recovers the bits, or the number, that was printed.
\<close>

section \<open>Readers\<close>

fun char_of_bit4 :: "bit4 \<Rightarrow> char" where
  "char_of_bit4 B0 = CHR ''0''"
| "char_of_bit4 B1 = CHR ''1''"
| "char_of_bit4 BX = CHR ''x''"
| "char_of_bit4 BZ = CHR ''z''"

definition bit4_of_char :: "char \<Rightarrow> bit4" where
  "bit4_of_char c =
     (if c = CHR ''1'' then B1 else if c = CHR ''x'' then BX else if c = CHR ''z'' then BZ else B0)"

definition read_bin :: "string \<Rightarrow> bit4 list" where
  "read_bin s = map bit4_of_char (rev s)"

definition hex_digit_value :: "char \<Rightarrow> nat" where
  "hex_digit_value c = (if of_char c < (58 :: nat) then of_char c - 48 else of_char c - 87)"

definition read_hex :: "string \<Rightarrow> nat" where
  "read_hex s = foldl (\<lambda>acc c. acc * 16 + hex_digit_value c) 0 s"

section \<open>Binary\<close>

lemma bit4_of_char_inverse [simp]: "bit4_of_char (char_of_bit4 b) = b"
  by (cases b) (simp_all add: bit4_of_char_def)

lemma bin_char_eq:
  assumes "sim_val_wf v" "n < 256"
  shows "bin_char v n = char_of_bit4 (sim_bit v n)"
proof -
  have "n div 64 < 4" using assms(2) by simp
  then show ?thesis
    using assms(1) by (simp add: bin_char_def Let_def bit_nth_wbit sim_val_wfD sim_bit_def)
qed

lemma sim_val_to_bin_eq:
  assumes "sim_val_wf v" "2 \<le> buflen" "width v < buflen"
  shows "sim_val_to_bin v buflen = map char_of_bit4 (rev (sim_bits v))"
proof -
  have "map (bin_char v) (rev [0..<nat (width v)]) = map (\<lambda>n. char_of_bit4 (sim_bit v n)) (rev [0..<nat (width v)])"
    using sim_val_wfD(2) [OF assms(1)] by (intro map_cong) (auto simp: bin_char_eq [OF assms(1)])
  moreover have "nat (width v) \<le> nat (buflen - 1)" using assms(3) by simp
  ultimately show ?thesis
    using assms(2) by (simp add: sim_val_to_bin_def sim_bits_def rev_map o_def)
qed

section \<open>Hexadecimal\<close>

lemma hex_digit_value_nth: "d < 16 \<Longrightarrow> hex_digit_value (''0123456789abcdef'' ! d) = d"
proof -
  assume d: "d < 16"
  have "list_all (\<lambda>d. hex_digit_value (''0123456789abcdef'' ! d) = d) [0..<16]" by code_simp
  with d show ?thesis by (simp only: list_all_iff set_upt) simp
qed

lemma nibble_at_eq:
  assumes "length a = 4" "i < 64"
  shows "unat (nibble_at a (i * 4 div 64) (i * 4 mod 64)) = wval a div 16 ^ i mod 16"
proof -
  have wi: "i * 4 div 64 < 4" using assms(2) by simp
  have bi: "\<not> i * 4 mod 64 > 60" by presburger
  have eq: "nibble_at a (i * 4 div 64) (i * 4 mod 64) = take_bit 4 (drop_bit (i * 4 mod 64) (a ! (i * 4 div 64)))"
    using wi bi by (simp add: nibble_at_def Let_def take_bit_eq_mask mask_eq_exp_minus_1)
  have "unat (nibble_at a (i * 4 div 64) (i * 4 mod 64)) = take_bit 4 (drop_bit (4 * i) (wval a))"
  proof (rule bit_eqI)
    fix j
    show "bit (unat (nibble_at a (i * 4 div 64) (i * 4 mod 64))) j \<longleftrightarrow>
          bit (take_bit 4 (drop_bit (4 * i) (wval a))) j"
    proof (cases "j < 4")
      case True
      have "(4 * i + j) div 64 = i * 4 div 64" "(4 * i + j) mod 64 = i * 4 mod 64 + j"
      proof -
        have "i * 4 = 64 * (i div 16) + 4 * (i mod 16)" using mult_div_mod_eq [of 16 i] by linarith
        moreover have "4 * (i mod 16) + j < 64" "4 * (i mod 16) < 64" using True by simp_all
        ultimately have "i * 4 div 64 = i div 16 \<and> i * 4 mod 64 = 4 * (i mod 16) \<and>
            (4 * i + j) div 64 = i div 16 \<and> (4 * i + j) mod 64 = 4 * (i mod 16) + j"
          by (simp add: mult.commute add.assoc)
        then show "(4 * i + j) div 64 = i * 4 div 64" "(4 * i + j) mod 64 = i * 4 mod 64 + j" by simp_all
      qed
      with True wi assms(1) show ?thesis
        unfolding eq by (simp add: bit_unat_u64 bit_take_bit_iff bit_drop_bit_eq bit_wval wbit_def)
    next
      case False
      then show ?thesis unfolding eq by (simp add: bit_unat_u64 bit_take_bit_iff)
    qed
  qed
  then show ?thesis by (simp add: take_bit_eq_mod drop_bit_eq_div power_mult)
qed

lemma hex_char_known:
  assumes "sim_val_wf v" "known v" "i < 64"
  shows "hex_char v i = ''0123456789abcdef'' ! (uval v div 16 ^ i mod 16)"
proof -
  have "xmask v = replicate 4 0" "zmask v = replicate 4 0"
    using assms(1,2) by (auto intro!: wbit_ext simp: sim_val_wfD known_def)
  then have "nibble_at (xmask v) (i * 4 div 64) (i * 4 mod 64) = 0"
    "nibble_at (zmask v) (i * 4 div 64) (i * 4 mod 64) = 0"
    using nibble_at_eq [of "xmask v" i] nibble_at_eq [of "zmask v" i] assms(3) by (simp_all add: unat_eq_0)
  then show ?thesis
    using nibble_at_eq [of "val v" i] assms(1,3) by (simp add: hex_char_def Let_def sim_val_wfD uval_def)
qed

lemma read_hex_digits:
  assumes "\<And>i. i < k \<Longrightarrow> hex_digit_value (d i) = u div 16 ^ i mod 16"
  shows "foldl (\<lambda>acc c. acc * 16 + hex_digit_value c) acc (map d (rev [0..<k])) = acc * 16 ^ k + u mod 16 ^ k"
  using assms
proof (induction k arbitrary: acc)
  case 0
  then show ?case by simp
next
  case (Suc k)
  have "u mod 16 ^ Suc k = 16 ^ k * (u div 16 ^ k mod 16) + u mod 16 ^ k"
    by (simp only: power_Suc2 mod_mult2_eq)
  with Suc show ?case by (simp add: algebra_simps)
qed

lemma sim_val_to_hex_known:
  assumes "sim_val_wf v" "known v" "2 \<le> buflen" "(width v + 3) div 4 < buflen"
  shows "read_hex (sim_val_to_hex v buflen) = uval v"
proof -
  define k where "k = (if (width v + 3) div 4 = 0 then 1 else nat ((width v + 3) div 4))"
  have k: "k \<le> 64" "nat (width v) \<le> 4 * k" "k \<le> nat (buflen - 1)"
    using sim_val_wfD(1,2) [OF assms(1)] assms(3,4) by (auto simp: k_def)
  have hex: "sim_val_to_hex v buflen = map (hex_char v) (rev [0..<k])"
    using assms(3) k(3) by (simp add: sim_val_to_hex_def Let_def k_def)
  have dig: "hex_digit_value (hex_char v i) = uval v div 16 ^ i mod 16" if "i < k" for i
    using that k(1) assms(1,2) by (simp add: hex_char_known hex_digit_value_nth)
  have "read_hex (sim_val_to_hex v buflen) = uval v mod 16 ^ k"
    unfolding read_hex_def hex using read_hex_digits [OF dig, of k 0] by simp
  moreover have "uval v < 16 ^ k"
  proof -
    have "uval v < 2 ^ nat (width v)" by (rule uval_less [OF assms(1)])
    also have "\<dots> \<le> 2 ^ (4 * k)" using k(2) by (intro power_increasing) simp_all
    also have "\<dots> = 16 ^ k" by (simp add: power_mult)
    finally show ?thesis .
  qed
  ultimately show ?thesis by simp
qed

end
