(* ===== verification/Sim_Value_Spec.thy ===== *)
theory Sim_Value_Spec
  imports Sim_Value_Format
begin

text \<open>
  The contracts of the simulator's value operations. \<open>x_sound\<close> is what the rest of the
  simulator relies on: an operation keeps values well-formed and is monotone in the
  information order, so that a bit it reports as 0 or 1 stays that bit however the unknown
  bits of its operands are resolved. Two contracts give it: \<open>strict_op\<close>, for the operations
  that answer all-x as soon as an operand is not fully known, and \<open>table_op\<close>, for the
  bitwise operations with a truth table. Both are interpreted on every operation of
  sim_value.c they describe, and the properties of the component follow.
\<close>

section \<open>The information order on bits and values\<close>

instantiation bit4 :: order
begin

definition less_eq_bit4 :: "bit4 \<Rightarrow> bit4 \<Rightarrow> bool" where
  "less_eq_bit4 s t \<longleftrightarrow> s = t \<or> t = BX \<or> (t = BZ \<and> s \<noteq> BX)"

definition less_bit4 :: "bit4 \<Rightarrow> bit4 \<Rightarrow> bool" where
  "less_bit4 s t \<longleftrightarrow> s \<noteq> t \<and> (t = BX \<or> (t = BZ \<and> s \<noteq> BX))"

instance
  by standard (auto simp: less_eq_bit4_def less_bit4_def)

end

lemma bit4_le_BX [simp]: "s \<le> BX"
  by (simp add: less_eq_bit4_def)

lemma bit4_le_known [simp]: "s \<le> B0 \<longleftrightarrow> s = B0" "s \<le> B1 \<longleftrightarrow> s = B1"
  by (auto simp: less_eq_bit4_def)

text \<open>\<open>a\<close> resolves some of the unknown bits of \<open>b\<close>.\<close>

definition resolves :: "SimValue \<Rightarrow> SimValue \<Rightarrow> bool" where
  "resolves a b \<longleftrightarrow> width a = width b \<and> (\<forall>n. sim_bit a n \<le> sim_bit b n)"

lemma resolves_refl [simp]: "resolves a a"
  by (simp add: resolves_def)

lemma resolves_width: "resolves a b \<Longrightarrow> width a = width b"
  by (simp add: resolves_def)

lemma resolves_bit: "resolves a b \<Longrightarrow> sim_bit a n \<le> sim_bit b n"
  by (simp add: resolves_def)

lemma sim_bit_known: "known v \<Longrightarrow> sim_bit v n = (if bit (uval v) n then B1 else B0)"
  by (simp add: sim_bit_def known_def uval_def bit_wval)

lemma resolves_known:
  assumes "sim_val_wf a" "sim_val_wf b" "resolves a b" "known b"
  shows "a = b"
  using assms(1,2) resolves_width [OF assms(3)]
proof (rule sim_val_eqI)
  fix n
  show "sim_bit a n = sim_bit b n"
    using resolves_bit [OF assms(3), of n] sim_bit_known [OF assms(4), of n] by (auto split: if_splits)
qed

lemma resolves_all_x:
  assumes "sim_val_wf a" "width a = w" "w \<le> 256"
  shows "resolves a (sim_val_all_x w)"
proof -
  have "sim_bit a n \<le> sim_bit (sim_val_all_x w) n" for n
    using assms sim_bit_beyond [OF assms(1), of n] sim_bit_all_x [OF assms(3), of n]
      sim_bit_beyond [OF sim_val_wf_all_x, of w n] sim_val_wfD(1) [OF assms(1)]
    by (cases "int n < w") auto
  then show ?thesis using assms(2) by (simp add: resolves_def)
qed

lemma resolvesI:
  assumes "sim_val_wf a" "sim_val_wf b" "width a = width b"
    and "\<And>n. int n < width b \<Longrightarrow> sim_bit a n \<le> sim_bit b n"
  shows "resolves a b"
proof -
  have "sim_bit a n \<le> sim_bit b n" for n
    using assms sim_bit_beyond [OF assms(1), of n] sim_bit_beyond [OF assms(2), of n]
    by (cases "int n < width b") auto
  then show ?thesis using assms(3) by (simp add: resolves_def)
qed

section \<open>Contracts\<close>

locale x_sound =
  fixes f :: "SimValue \<Rightarrow> SimValue \<Rightarrow> SimValue"
  assumes f_wf: "sim_val_wf a \<Longrightarrow> sim_val_wf b \<Longrightarrow> sim_val_wf (f a b)"
    and f_mono: "sim_val_wf a \<Longrightarrow> sim_val_wf b \<Longrightarrow> sim_val_wf a' \<Longrightarrow> sim_val_wf b' \<Longrightarrow>
      resolves a' a \<Longrightarrow> resolves b' b \<Longrightarrow> resolves (f a' b') (f a b)"
begin

text \<open>A result that is fully known does not depend on the unknown operand bits.\<close>

lemma known_result_stable:
  assumes "sim_val_wf a" "sim_val_wf b" "sim_val_wf a'" "sim_val_wf b'"
    and "resolves a' a" "resolves b' b" "known (f a b)"
  shows "f a' b' = f a b"
  using assms by (intro resolves_known f_wf f_mono)

end

locale strict_op =
  fixes f :: "SimValue \<Rightarrow> SimValue \<Rightarrow> SimValue" and rw :: "int \<Rightarrow> int \<Rightarrow> int" and dfd :: "nat \<Rightarrow> bool"
  assumes rw_range: "0 \<le> i \<Longrightarrow> i \<le> 256 \<Longrightarrow> 0 \<le> j \<Longrightarrow> j \<le> 256 \<Longrightarrow> 0 \<le> rw i j \<and> rw i j \<le> 256"
    and f_undefined: "sim_val_wf a \<Longrightarrow> sim_val_wf b \<Longrightarrow> \<not> (known a \<and> known b \<and> dfd (uval b)) \<Longrightarrow>
      f a b = sim_val_all_x (rw (width a) (width b))"
    and f_defined: "sim_val_wf a \<Longrightarrow> sim_val_wf b \<Longrightarrow> known a \<Longrightarrow> known b \<Longrightarrow> dfd (uval b) \<Longrightarrow>
      sim_val_wf (f a b) \<and> known (f a b) \<and> width (f a b) = rw (width a) (width b)"
begin

lemma width_f:
  "sim_val_wf a \<Longrightarrow> sim_val_wf b \<Longrightarrow> width (f a b) = rw (width a) (width b)"
  using f_defined f_undefined by (cases "known a \<and> known b \<and> dfd (uval b)") auto

lemma wf_f: "sim_val_wf a \<Longrightarrow> sim_val_wf b \<Longrightarrow> sim_val_wf (f a b)"
  using f_defined f_undefined rw_range [of "width a" "width b"]
  by (cases "known a \<and> known b \<and> dfd (uval b)") (auto simp: sim_val_wfD)

lemma known_f_iff:
  assumes "sim_val_wf a" "sim_val_wf b" "0 < rw (width a) (width b)"
  shows "known (f a b) \<longleftrightarrow> known a \<and> known b \<and> dfd (uval b)"
proof (cases "known a \<and> known b \<and> dfd (uval b)")
  case True
  then show ?thesis using assms f_defined by auto
next
  case False
  have le: "rw (width a) (width b) \<le> 256"
    using rw_range [of "width a" "width b"] assms by (simp add: sim_val_wfD)
  have "sim_bit (f a b) 0 = BX"
    using f_undefined [OF assms(1,2) False] sim_bit_all_x [OF le, of 0] assms(3) by simp
  then have "\<not> known (f a b)" by (auto simp: sim_bit_known split: if_splits)
  with False show ?thesis by simp
qed

lemma mono_f:
  assumes "sim_val_wf a" "sim_val_wf b" "sim_val_wf a'" "sim_val_wf b'" "resolves a' a" "resolves b' b"
  shows "resolves (f a' b') (f a b)"
proof (cases "known a \<and> known b \<and> dfd (uval b)")
  case True
  then show ?thesis using resolves_known [of a' a] resolves_known [of b' b] assms by simp
next
  case False
  have "rw (width a) (width b) \<le> 256"
    using rw_range [of "width a" "width b"] assms by (simp add: sim_val_wfD)
  then show ?thesis
    using f_undefined [OF assms(1,2) False] wf_f [OF assms(3,4)] width_f [OF assms(3,4)]
      assms(5,6) [THEN resolves_width]
    by (simp add: resolves_all_x)
qed

end

sublocale strict_op \<subseteq> strict: x_sound f
  by unfold_locales (rule wf_f mono_f; assumption)+

locale table_op =
  fixes f :: "SimValue \<Rightarrow> SimValue \<Rightarrow> SimValue" and tab :: "bit4 \<Rightarrow> bit4 \<Rightarrow> bit4"
  assumes tab_mono: "s' \<le> s \<Longrightarrow> t' \<le> t \<Longrightarrow> tab s' t' \<le> tab s t"
    and tab_commute: "tab s t = tab t s"
    and wf_f: "sim_val_wf a \<Longrightarrow> sim_val_wf b \<Longrightarrow> sim_val_wf (f a b)"
    and width_f: "sim_val_wf a \<Longrightarrow> sim_val_wf b \<Longrightarrow> width (f a b) = max_width a b"
    and bit_f: "sim_val_wf a \<Longrightarrow> sim_val_wf b \<Longrightarrow> int n < max_width a b \<Longrightarrow>
      sim_bit (f a b) n = tab (sim_bit a n) (sim_bit b n)"
begin

lemma mono_f:
  assumes "sim_val_wf a" "sim_val_wf b" "sim_val_wf a'" "sim_val_wf b'" "resolves a' a" "resolves b' b"
  shows "resolves (f a' b') (f a b)"
proof (rule resolvesI)
  have mw: "max_width a' b' = max_width a b"
    using assms(5,6) [THEN resolves_width] by (simp add: max_width_def)
  show "sim_val_wf (f a' b')" "sim_val_wf (f a b)" "width (f a' b') = width (f a b)"
    using assms by (simp_all add: wf_f width_f mw)
  fix n assume "int n < width (f a b)"
  then show "sim_bit (f a' b') n \<le> sim_bit (f a b) n"
    using assms mw by (simp add: bit_f width_f tab_mono resolves_bit)
qed

lemma f_commute:
  assumes "sim_val_wf a" "sim_val_wf b"
  shows "f a b = f b a"
proof (rule sim_val_eqI)
  have mw: "max_width b a = max_width a b" by (auto simp: max_width_def)
  show "sim_val_wf (f a b)" "sim_val_wf (f b a)" "width (f a b) = width (f b a)"
    using assms by (simp_all add: wf_f width_f mw)
  fix n assume "int n < width (f a b)"
  then show "sim_bit (f a b) n = sim_bit (f b a) n"
    using assms mw by (simp add: bit_f width_f tab_commute)
qed

end

sublocale table_op \<subseteq> table: x_sound f
  by unfold_locales (rule wf_f mono_f; assumption)+

section \<open>Interpretations\<close>

lemma max_width_max: "max_width a b = max (width a) (width b)"
  by (simp add: max_width_def)

interpretation add_op: strict_op sim_val_add max "\<lambda>_. True"
  by unfold_locales (auto simp: sim_val_add_xz sim_val_add_known max_width_max)

interpretation sub_op: strict_op sim_val_sub max "\<lambda>_. True"
  by unfold_locales (auto simp: sim_val_sub_xz sim_val_sub_known max_width_max)

interpretation mul_op: strict_op sim_val_mul max "\<lambda>_. True"
  by unfold_locales (auto simp: sim_val_mul_xz sim_val_mul_known max_width_max)

lemma divmod_strict:
  assumes "sim_val_wf a" "sim_val_wf b" "\<not> (known a \<and> known b \<and> uval b \<noteq> 0)"
  shows "sim_val_div a b = sim_val_all_x (max_width a b)" "sim_val_mod a b = sim_val_all_x (max_width a b)"
  using assms sim_val_divmod_xz [OF assms(1,2)] sim_val_divmod_by_zero [OF assms(1,2)] by blast+

interpretation div_op: strict_op sim_val_div max "\<lambda>d. d \<noteq> 0"
  by unfold_locales (auto simp: divmod_strict sim_val_divmod_known max_width_max)

interpretation mod_op: strict_op sim_val_mod max "\<lambda>d. d \<noteq> 0"
  by unfold_locales (auto simp: divmod_strict sim_val_divmod_known max_width_max)

interpretation shl_op: strict_op sim_val_shl "\<lambda>i _. i" "\<lambda>_. True"
  by unfold_locales (auto simp: sim_val_shl_xz sim_val_shl_known)

interpretation shr_op: strict_op sim_val_shr "\<lambda>i _. i" "\<lambda>_. True"
  by unfold_locales (auto simp: sim_val_shr_xz sim_val_shr_known)

lemma cmp_x_all_x: "cmp_x = sim_val_all_x 1"
  by (simp add: cmp_x_def)

interpretation eq_op: strict_op sim_val_eq "\<lambda>_ _. 1" "\<lambda>_. True"
  by unfold_locales (auto simp: sim_val_compare cmp_result_simps cmp_x_all_x)

interpretation neq_op: strict_op sim_val_neq "\<lambda>_ _. 1" "\<lambda>_. True"
  by unfold_locales (auto simp: sim_val_compare cmp_result_simps cmp_x_all_x)

interpretation lt_op: strict_op sim_val_lt "\<lambda>_ _. 1" "\<lambda>_. True"
  by unfold_locales (auto simp: sim_val_compare cmp_result_simps cmp_x_all_x)

interpretation gt_op: strict_op sim_val_gt "\<lambda>_ _. 1" "\<lambda>_. True"
  by unfold_locales (auto simp: sim_val_compare cmp_result_simps cmp_x_all_x)

interpretation lte_op: strict_op sim_val_lte "\<lambda>_ _. 1" "\<lambda>_. True"
  by unfold_locales (auto simp: sim_val_compare cmp_result_simps cmp_x_all_x)

interpretation gte_op: strict_op sim_val_gte "\<lambda>_ _. 1" "\<lambda>_. True"
  by unfold_locales (auto simp: sim_val_compare cmp_result_simps cmp_x_all_x)

lemma and4_mono: "s' \<le> s \<Longrightarrow> t' \<le> t \<Longrightarrow> and4 s' t' \<le> and4 s t"
  by (cases s; cases t; cases s'; cases t') (simp_all add: less_eq_bit4_def)

lemma or4_mono: "s' \<le> s \<Longrightarrow> t' \<le> t \<Longrightarrow> or4 s' t' \<le> or4 s t"
  by (cases s; cases t; cases s'; cases t') (simp_all add: less_eq_bit4_def)

lemma xor4_mono: "s' \<le> s \<Longrightarrow> t' \<le> t \<Longrightarrow> xor4 s' t' \<le> xor4 s t"
  by (cases s; cases t; cases s'; cases t') (simp_all add: less_eq_bit4_def)

lemma and4_commute: "and4 s t = and4 t s"
  by (cases s; cases t) simp_all

lemma or4_commute: "or4 s t = or4 t s"
  by (cases s; cases t) simp_all

lemma xor4_commute: "xor4 s t = xor4 t s"
  by (cases s; cases t) simp_all

interpretation and_op: table_op sim_val_and and4
  by unfold_locales (auto simp: sim_val_and_bits and4_mono and4_commute)

interpretation or_op: table_op sim_val_or or4
  by unfold_locales (auto simp: sim_val_or_bits or4_mono or4_commute)

interpretation xor_op: table_op sim_val_xor xor4
  by unfold_locales (auto simp: sim_val_xor_bits xor4_mono xor4_commute)

section \<open>The remaining operations\<close>

lemma not_mono:
  assumes "sim_val_wf a" "sim_val_wf a'" "resolves a' a"
  shows "resolves (sim_val_not a') (sim_val_not a)"
proof (rule resolvesI)
  show "sim_val_wf (sim_val_not a')" "sim_val_wf (sim_val_not a)" "width (sim_val_not a') = width (sim_val_not a)"
    using assms by (simp_all add: sim_val_not_bits resolves_width)
  fix n assume "int n < width (sim_val_not a)"
  moreover have "not4 s \<le> not4 t" if "s \<le> t" for s t
    using that by (cases s; cases t) (simp_all add: less_eq_bit4_def)
  ultimately show "sim_bit (sim_val_not a') n \<le> sim_bit (sim_val_not a) n"
    using assms by (simp add: sim_val_not_bits resolves_width resolves_bit)
qed

lemma ternary_known:
  "sim_val_wf c \<Longrightarrow> known c \<Longrightarrow> sim_val_ternary c t f = (if uval c \<noteq> 0 then t else f)"
  by (simp add: sim_val_ternary_def Let_def sim_val_is_true_eq)

lemma wf_ternary:
  "sim_val_wf c \<Longrightarrow> sim_val_wf t \<Longrightarrow> sim_val_wf f \<Longrightarrow> sim_val_wf (sim_val_ternary c t f)"
  using sim_val_ternary_bits(1) [of c t f]
  by (cases "known c") (auto simp: sim_val_ternary_def Let_def sim_val_is_true_eq)

lemma wf_neg:
  assumes "sim_val_wf a"
  shows "sim_val_wf (sim_val_neg a)" "width (sim_val_neg a) = width a"
proof -
  let ?one = "(sim_val_zero (width a))\<lparr>val := (replicate 4 0)[0 := 1]\<rparr>"
  have "sim_val_wf (sim_val_neg a) \<and> width (sim_val_neg a) = width a"
  proof (cases "known a")
    case unknown: False
    then show ?thesis using assms by (simp add: sim_val_neg_def has_xz_iff_known sim_val_wfD)
  next
    case True
    show ?thesis
    proof (cases "0 < width a")
      case True
      with \<open>known a\<close> assms show ?thesis by (simp add: sim_val_neg_known)
    next
      case False
      then have w: "width a = 0" using sim_val_wfD(1) [OF assms] by simp
      have nz: "num_words 0 = 1" by (simp add: num_words_def)
      have n: "sim_val_wf (sim_val_not a)" "width (sim_val_not a) = 0"
        using assms w by (simp_all add: sim_val_not_bits)
      have "\<not> sim_val_has_xz ?one" by (simp add: sim_val_has_xz_def w nz)
      then have "width (arith_xz_check (sim_val_not a) ?one 0) = - 1"
        using has_xz_iff_known [OF n(1)] not_known(1) [OF assms \<open>known a\<close>]
        by (simp add: arith_xz_check_def)
      then have "sim_val_add (sim_val_not a) ?one =
          sim_val_mask ((sim_val_zero 0)\<lparr>val := fst (for_loop (num_words 0) (add_step (sim_val_not a) ?one 0) (replicate 4 0, 0))\<rparr>)"
        using w n by (simp add: sim_val_add_def Let_def)
      moreover have "length (fst (for_loop (num_words 0) (add_step (sim_val_not a) ?one 0) (replicate 4 0, 0))) = 4"
        by (simp add: nz add_step_def Let_def)
      ultimately show ?thesis
        using \<open>known a\<close> assms w by (simp add: sim_val_neg_def has_xz_iff_known Let_def known_result)
    qed
  qed
  then show "sim_val_wf (sim_val_neg a)" "width (sim_val_neg a) = width a" by simp_all
qed

lemma wf_ashr:
  assumes "sim_val_wf a" "sim_val_wf b"
  shows "sim_val_wf (sim_val_ashr a b)" "width (sim_val_ashr a b) = width a"
proof -
  have "sim_val_wf (sim_val_ashr a b) \<and> width (sim_val_ashr a b) = width a"
  proof (cases "known a \<and> known b")
    case True
    show ?thesis
    proof (cases "0 < width a")
      case True
      with assms \<open>known a \<and> known b\<close> show ?thesis by (simp add: sim_val_ashr_known)
    next
      case False
      then have w: "width a = 0" using sim_val_wfD(1) [OF assms(1)] by simp
      then show ?thesis
        using assms \<open>known a \<and> known b\<close>
        by (auto simp: sim_val_ashr_def has_xz_iff_known Let_def split: option.splits)
    qed
  next
    case False
    with assms show ?thesis by (simp add: sim_val_ashr_xz sim_val_wfD)
  qed
  then show "sim_val_wf (sim_val_ashr a b)" "width (sim_val_ashr a b) = width a" by simp_all
qed

lemma wf_logical:
  shows "sim_val_wf (sim_val_logical_and a b)" "sim_val_wf (sim_val_logical_or a b)"
    "sim_val_wf (sim_val_logical_not a)"
  by (simp_all add: sim_val_logical_and_def sim_val_logical_or_def sim_val_logical_not_def Let_def
      cmp_result_simps cmp_x_simps)

lemma wf_sext: "sim_val_wf v \<Longrightarrow> 0 < width v \<Longrightarrow> w \<le> 256 \<Longrightarrow> sim_val_wf (sim_val_sext v w)"
  by (rule sim_val_sext_bits)

lemma resolves_slice:
  assumes "sim_val_wf v" "sim_val_wf v'" "resolves v' v" "0 \<le> lsb" "lsb \<le> msb" "msb - lsb < 256"
  shows "resolves (sim_val_slice v' msb lsb) (sim_val_slice v msb lsb)"
  using assms by (intro resolvesI) (simp_all add: sim_val_slice_bits resolves_bit)

lemma ternary_mono:
  assumes "sim_val_wf c" "sim_val_wf t" "sim_val_wf f" "sim_val_wf c'" "sim_val_wf t'" "sim_val_wf f'"
    and "resolves c' c" "resolves t' t" "resolves f' f" "width t = width f"
  shows "resolves (sim_val_ternary c' t' f') (sim_val_ternary c t f)"
proof (cases "known c")
  case True
  then have "c' = c" using assms by (intro resolves_known)
  with True assms show ?thesis by (simp add: sim_val_ternary_def Let_def sim_val_is_true_eq)
next
  case unknown: False
  note U = sim_val_ternary_bits [OF assms(1-3) unknown]
  have w: "width t' = width t" "width f' = width t" "max_width t f = width t" "max_width t' f' = width t"
    using assms(8,9) [THEN resolves_width] assms(10) by (simp_all add: max_width_def)
  have m: "merge4 s' r' \<le> merge4 s r" "s' \<le> merge4 s r" "r' \<le> merge4 s r" if "s' \<le> s" "r' \<le> r" for s s' r r'
    using that by (auto simp: merge4_def)
  show ?thesis
  proof (rule resolvesI)
    show "sim_val_wf (sim_val_ternary c' t' f')" "sim_val_wf (sim_val_ternary c t f)"
      using assms by (simp_all add: wf_ternary)
    show "width (sim_val_ternary c' t' f') = width (sim_val_ternary c t f)"
      using U(2) w sim_val_ternary_bits(2) [OF assms(4-6)] assms(4)
      by (cases "known c'") (auto simp: ternary_known)
    fix n assume n: "int n < width (sim_val_ternary c t f)"
    have "sim_bit (sim_val_ternary c' t' f') n \<le> merge4 (sim_bit t n) (sim_bit f n)"
      using sim_val_ternary_bits(3) [OF assms(4-6), of n] n U(2) w
        m [OF resolves_bit [OF assms(8)] resolves_bit [OF assms(9)], of n n]
      by (cases "known c'") (simp_all add: ternary_known [OF assms(4)])
    then show "sim_bit (sim_val_ternary c' t' f') n \<le> sim_bit (sim_val_ternary c t f) n"
      using U n by simp
  qed
qed

end
