(* ===== verification/Sim_State.thy ===== *)
theory Sim_State
  imports Sim_Value_Spec Sim_IR Util_Limits
begin

text \<open>
  The simulator's state and its construction, src/sim/sim_state.c and sim_state.h. A context
  is a frame (the state of one module instance) and its child instances. The precomputed port
  mappings hold indices into the parent's and the child's signal tables where the C structs
  hold pointers into them. Allocations are assumed to succeed; every other failure of
  \<open>sim_ctx_create\<close> (an oversized signal or memory) is the result NULL, here \<open>None\<close>.
\<close>

section \<open>State\<close>

record SimSignalEntry =
  signal_id :: int
  current :: SimValue
  nxt :: SimValue
  has_pending :: bool

record SimMemEntry =
  me_mem_id :: int
  cells :: "SimValue list"
  word_width :: int
  depth :: int

record SimPortMapping =
  parent_entry :: nat
  child_entry :: nat
  parent_msb :: int
  parent_lsb :: int
  child_width :: int
  is_inout :: bool

record SimAsyncChunk =
  chunk_stmt :: IR_Stmt
  read_indices :: "nat list"
  write_indices :: "nat list"

record SimFrame =
  ctx_module :: IR_Module
  signals :: "SimSignalEntry list"
  sig_id_map :: "int list"
  max_sig_id :: int
  memories :: "SimMemEntry list"
  rng_state :: u32
  runtime_error :: bool
  settle_dirty :: bool
  async_chunks :: "SimAsyncChunk list"
  sig_dirty :: "bool list"

datatype SimContext = SimContext (frame: SimFrame) (children: "SimChildInstance list")
and SimChildInstance =
  SimChildInstance (child_ctx: "SimContext option") (child_inst: IR_Instance)
    (child_module: "IR_Module option") (input_maps: "SimPortMapping list") (output_maps: "SimPortMapping list")

section \<open>Pseudo-random numbers\<close>

text \<open>The returned number is the new state.\<close>

definition sim_rng_next :: "u32 \<Rightarrow> u32" where
  "sim_rng_next state =
     (let x0 = (if state = 0 then 1 else state);
          x1 = x0 XOR push_bit 13 x0;
          x2 = x1 XOR drop_bit 17 x1
      in x2 XOR push_bit 5 x2)"

section \<open>Dependency analysis\<close>

definition sigset_add :: "int list \<Rightarrow> int \<Rightarrow> int list" where
  "sigset_add s i = (if i \<in> set s then s else s @ [i])"

fun collect_expr_reads :: "IR_Expr \<Rightarrow> int list \<Rightarrow> int list"
and collect_exprs_reads :: "IR_Expr list \<Rightarrow> int list \<Rightarrow> int list" where
  "collect_expr_reads EXPR_NULL reads = reads"
| "collect_expr_reads (EXPR_LITERAL w l) reads = reads"
| "collect_expr_reads (EXPR_SIGNAL_REF w i) reads = sigset_add reads i"
| "collect_expr_reads (EXPR_UNARY k w e) reads = collect_expr_reads e reads"
| "collect_expr_reads (EXPR_BINARY k w l r) reads = collect_expr_reads r (collect_expr_reads l reads)"
| "collect_expr_reads (EXPR_TERNARY w c t f) reads =
     collect_expr_reads f (collect_expr_reads t (collect_expr_reads c reads))"
| "collect_expr_reads (EXPR_CONCAT w es) reads = collect_exprs_reads es reads"
| "collect_expr_reads (EXPR_SLICE w i base msb lsb) reads =
     (if base \<noteq> EXPR_NULL then collect_expr_reads base reads else sigset_add reads i)"
| "collect_expr_reads (EXPR_INTRINSIC k w src idx v ew) reads =
     collect_expr_reads v (collect_expr_reads idx (collect_expr_reads src reads))"
| "collect_expr_reads (EXPR_MEM_READ w m addr) reads = collect_expr_reads addr reads"
| "collect_exprs_reads [] reads = reads"
| "collect_exprs_reads (e # es) reads = collect_exprs_reads es (collect_expr_reads e reads)"

fun collect_stmt_deps :: "IR_Stmt \<Rightarrow> int list \<times> int list \<Rightarrow> int list \<times> int list"
and collect_case_deps :: "(IR_Expr \<times> IR_Stmt) list \<Rightarrow> int list \<times> int list \<Rightarrow> int list \<times> int list"
and collect_block_deps :: "IR_Stmt list \<Rightarrow> int list \<times> int list \<Rightarrow> int list \<times> int list" where
  "collect_stmt_deps STMT_NULL d = d"
| "collect_stmt_deps (STMT_ASSIGNMENT a) (reads, writes) =
     (collect_expr_reads (asgn_rhs a) reads, sigset_add writes (lhs_signal_id a))"
| "collect_stmt_deps (STMT_IF c t elif els) (reads, writes) =
     collect_stmt_deps els (collect_stmt_deps elif (collect_stmt_deps t (collect_expr_reads c reads, writes)))"
| "collect_stmt_deps (STMT_SELECT s cs) (reads, writes) =
     collect_case_deps cs (collect_expr_reads s reads, writes)"
| "collect_stmt_deps (STMT_BLOCK ss) d = collect_block_deps ss d"
| "collect_stmt_deps (STMT_MEM_WRITE m addr dat) (reads, writes) =
     (collect_expr_reads dat (collect_expr_reads addr reads), writes)"
| "collect_case_deps [] d = d"
| "collect_case_deps ((v, body) # cs) (reads, writes) =
     collect_case_deps cs (collect_stmt_deps body (collect_expr_reads v reads, writes))"
| "collect_block_deps [] d = d"
| "collect_block_deps (s # ss) d = collect_block_deps ss (collect_stmt_deps s d)"

section \<open>Lookup\<close>

text \<open>A pointer to a signal entry is its index in \<open>signals\<close>; NULL is \<open>None\<close>.\<close>

definition sim_ctx_lookup :: "SimFrame \<Rightarrow> int \<Rightarrow> nat option" where
  "sim_ctx_lookup ctx i =
     (if i \<ge> 0 \<and> i \<le> max_sig_id ctx
      then let idx = sig_id_map ctx ! nat i in if idx \<ge> 0 then Some (nat idx) else None
      else None)"

fun find_index :: "('a \<Rightarrow> bool) \<Rightarrow> 'a list \<Rightarrow> nat option" where
  "find_index P [] = None"
| "find_index P (x # xs) = (if P x then Some 0 else map_option Suc (find_index P xs))"

definition sim_ctx_lookup_mem :: "SimFrame \<Rightarrow> string \<Rightarrow> nat option" where
  "sim_ctx_lookup_mem ctx name =
     find_index (\<lambda>m. mem_name m = name) (take (length (memories ctx)) (module_memories (ctx_module ctx)))"

definition find_signal_in_ctx :: "SimFrame \<Rightarrow> int \<Rightarrow> IR_Signal option" where
  "find_signal_in_ctx ctx i =
     (if i \<ge> 0 \<and> i \<le> max_sig_id ctx
      then let idx = sig_id_map ctx ! nat i
           in if idx \<ge> 0 then Some (module_signals (ctx_module ctx) ! nat idx) else None
      else None)"

section \<open>Asynchronous chunks\<close>

definition sigids_to_indices :: "SimFrame \<Rightarrow> int list \<Rightarrow> nat list" where
  "sigids_to_indices ctx ids =
     fold (\<lambda>i indices.
       case sim_ctx_lookup ctx i of
         None \<Rightarrow> indices
       | Some idx \<Rightarrow> if idx \<in> set indices then indices else indices @ [idx]) ids []"

definition async_stmts :: "IR_Stmt \<Rightarrow> IR_Stmt list" where
  "async_stmts async = (case async of STMT_NULL \<Rightarrow> [] | STMT_BLOCK ss \<Rightarrow> ss | _ \<Rightarrow> [async])"

definition make_chunk :: "SimFrame \<Rightarrow> IR_Stmt \<Rightarrow> SimAsyncChunk" where
  "make_chunk ctx stmt =
     (let (reads, writes) = collect_stmt_deps stmt ([], [])
      in \<lparr>chunk_stmt = stmt, read_indices = sigids_to_indices ctx reads,
          write_indices = sigids_to_indices ctx writes\<rparr>)"

definition build_async_chunks :: "SimFrame \<Rightarrow> SimFrame" where
  "build_async_chunks ctx =
     ctx\<lparr>async_chunks := map (make_chunk ctx) (async_stmts (async_block (ctx_module ctx)))\<rparr>"

section \<open>Creation\<close>

definition max_sim_width :: int where
  "max_sim_width = int SIM_VAL_WORDS * 64"

abbreviation sizeof_SimValue :: usize where
  "sizeof_SimValue \<equiv> 104"

definition signals_fit :: "IR_Module \<Rightarrow> bool" where
  "signals_fit m = list_all (\<lambda>s. \<not> sig_width s > max_sim_width) (module_signals m)"

text \<open>\<open>(unsigned)mem->depth\<close> is the depth as a 32-bit word, \<open>(size_t)mem->depth\<close> as a 64-bit one.\<close>

definition memory_fits :: "IR_Memory \<Rightarrow> bool" where
  "memory_fits mem =
     (if mem_word_width mem > max_sim_width then False
      else if ucast (word_of_int (mem_depth mem) :: u32) > jz_input_limit_value JZ_LIMIT_SIM_MEMORY_DEPTH
      then False
      else case jz_size_mul_checked (word_of_int (mem_depth mem)) sizeof_SimValue of
             None \<Rightarrow> False
           | Some mem_bytes \<Rightarrow> \<not> mem_bytes > jz_input_limit_value JZ_LIMIT_SIM_MEMORY_OBJECT_BYTES)"

definition max_signal_id :: "IR_Module \<Rightarrow> int" where
  "max_signal_id m = fold (\<lambda>s mx. if sig_id s > mx then sig_id s else mx) (module_signals m) (-1)"

text \<open>One random storage word: a second 32-bit draw only for widths above 32.\<close>

definition random_value :: "int \<Rightarrow> u32 \<Rightarrow> SimValue \<times> u32" where
  "random_value w rng =
     (let r1 = sim_rng_next rng;
          rv1 = (ucast r1 :: u64)
      in if w > 32
         then let r2 = sim_rng_next r1
              in (sim_val_from_uint (rv1 OR push_bit 32 (ucast r2)) w, r2)
         else (sim_val_from_uint rv1 w, r1))"

definition init_signal :: "IR_Signal \<Rightarrow> u32 \<Rightarrow> SimSignalEntry \<times> u32" where
  "init_signal sig rng =
     (let (v, rng') = (if sig_kind sig = SIG_REGISTER \<or> sig_kind sig = SIG_LATCH
                       then random_value (sig_width sig) rng
                       else (sim_val_zero (sig_width sig), rng))
      in (\<lparr>signal_id = sig_id sig, current = v, nxt = sim_val_zero (sig_width sig), has_pending = False\<rparr>, rng'))"

fun init_signals :: "IR_Signal list \<Rightarrow> u32 \<Rightarrow> SimSignalEntry list \<times> u32" where
  "init_signals [] rng = ([], rng)"
| "init_signals (s # ss) rng =
     (let (e, rng1) = init_signal s rng; (es, rng2) = init_signals ss rng1 in (e # es, rng2))"

text \<open>The id map: -1 everywhere, then entry \<open>i\<close> for the \<open>i\<close>-th signal's id.\<close>

definition init_sig_id_map :: "IR_Module \<Rightarrow> int list" where
  "init_sig_id_map m =
     (let mx = max_signal_id m;
          empty_map = (if mx \<ge> 0 then replicate (nat (mx + 1)) (-1) else [])
      in for_loop (length (module_signals m))
           (\<lambda>i mp. let d = sig_id (module_signals m ! i)
                   in if d \<ge> 0 \<and> d \<le> mx then mp[nat d := int i] else mp) empty_map)"

fun init_cells :: "nat \<Rightarrow> int \<Rightarrow> u32 \<Rightarrow> SimValue list \<times> u32" where
  "init_cells 0 w rng = ([], rng)"
| "init_cells (Suc n) w rng =
     (let (v, rng1) = random_value w rng; (vs, rng2) = init_cells n w rng1 in (v # vs, rng2))"

definition init_memory :: "IR_Memory \<Rightarrow> u32 \<Rightarrow> SimMemEntry \<times> u32" where
  "init_memory mem rng =
     (let n = nat (mem_depth mem);
          (cs, rng') = (if mem_init_kind mem = MEM_INIT_FILE \<or> mem_init_kind mem = MEM_INIT_BLOB
                        then (replicate n (sim_val_zero (mem_word_width mem)), rng)
                        else init_cells n (mem_word_width mem) rng)
      in (\<lparr>me_mem_id = mem_id mem, cells = cs, word_width = mem_word_width mem, depth = mem_depth mem\<rparr>, rng'))"

fun init_memories :: "IR_Memory list \<Rightarrow> u32 \<Rightarrow> SimMemEntry list \<times> u32" where
  "init_memories [] rng = ([], rng)"
| "init_memories (m # ms) rng =
     (let (e, rng1) = init_memory m rng; (es, rng2) = init_memories ms rng1 in (e # es, rng2))"

definition create_frame :: "IR_Module \<Rightarrow> u32 \<Rightarrow> SimFrame" where
  "create_frame m rng_seed =
     (let (sigs, rng1) = init_signals (module_signals m) rng_seed;
          (mems, rng2) = init_memories (module_memories m) rng1
      in \<lparr>ctx_module = m, signals = sigs, sig_id_map = init_sig_id_map m, max_sig_id = max_signal_id m,
          memories = mems, rng_state = rng2, runtime_error = False, settle_dirty = False,
          async_chunks = [], sig_dirty = replicate (length (module_signals m)) True\<rparr>)"

text \<open>
  The port mappings of one child: for every connection that is not a constant, whose child
  end is a port and whose both ends resolve; \<open>want\<close> says which directions go into the list.
\<close>

definition connection_map :: "SimFrame \<Rightarrow> SimFrame \<Rightarrow> IR_InstanceConnection \<Rightarrow> (IR_PortDirection \<times> SimPortMapping) option" where
  "connection_map parent child conn =
     (if conn_const conn then None
      else case find_signal_in_ctx child (child_port_id conn) of
             None \<Rightarrow> None
           | Some sig \<Rightarrow>
               if sig_kind sig \<noteq> SIG_PORT then None
               else (case (sim_ctx_lookup parent (parent_signal_id conn), sim_ctx_lookup child (child_port_id conn)) of
                       (Some pe, Some ce) \<Rightarrow>
                         Some (sig_direction sig,
                               \<lparr>parent_entry = pe, child_entry = ce, parent_msb = conn_parent_msb conn,
                                parent_lsb = conn_parent_lsb conn, child_width = sig_width sig,
                                is_inout = (sig_direction sig = PORT_INOUT)\<rparr>)
                     | _ \<Rightarrow> None))"

definition build_maps :: "SimFrame \<Rightarrow> SimFrame \<Rightarrow> IR_Instance \<Rightarrow> (IR_PortDirection \<Rightarrow> bool) \<Rightarrow> SimPortMapping list" where
  "build_maps parent child inst want =
     map snd (filter (\<lambda>(d, _). want d) (List.map_filter (connection_map parent child) (connections inst)))"

definition find_module :: "IR_Design \<Rightarrow> int \<Rightarrow> IR_Module option" where
  "find_module design i = List.find (\<lambda>m. module_id m = i) (design_modules design)"

text \<open>
  \<open>sim_ctx_create\<close> recurses through the instance hierarchy without a bound, so it takes fuel:
  the outer \<open>None\<close> is "out of fuel", the inner one the result NULL. A child whose creation
  returns NULL stays in the parent as an instance without context.
\<close>

fun sim_ctx_create :: "nat \<Rightarrow> IR_Module \<Rightarrow> IR_Design \<Rightarrow> u32 \<Rightarrow> SimContext option option"
and create_children :: "nat \<Rightarrow> SimFrame \<Rightarrow> IR_Design \<Rightarrow> u32 \<Rightarrow> nat \<Rightarrow> IR_Instance list \<Rightarrow> SimChildInstance list option" where
  "sim_ctx_create 0 m design rng_seed = None"
| "sim_ctx_create (Suc fuel) m design rng_seed =
     (if \<not> signals_fit m then Some None
      else if \<not> list_all memory_fits (module_memories m) then Some None
      else let f = create_frame m rng_seed
           in case create_children fuel f design rng_seed 0 (instances m) of
                None \<Rightarrow> None
              | Some cs \<Rightarrow> Some (Some (SimContext (build_async_chunks f) cs)))"
| "create_children fuel f design rng_seed i [] = Some []"
| "create_children fuel f design rng_seed i (inst # insts) =
     (case (case find_module design (child_module_id inst) of
              None \<Rightarrow> Some (SimChildInstance None inst None [] [])
            | Some cm \<Rightarrow>
                (case sim_ctx_create fuel cm design (rng_seed + of_nat i + 1) of
                   None \<Rightarrow> None
                 | Some None \<Rightarrow> Some (SimChildInstance None inst (Some cm) [] [])
                 | Some (Some c) \<Rightarrow>
                     Some (SimChildInstance (Some c) inst (Some cm)
                       (build_maps f (frame c) inst (\<lambda>d. d = PORT_IN \<or> d = PORT_INOUT))
                       (build_maps f (frame c) inst (\<lambda>d. d = PORT_OUT \<or> d = PORT_INOUT))))) of
        None \<Rightarrow> None
      | Some ci \<Rightarrow> (case create_children fuel f design rng_seed (Suc i) insts of
                        None \<Rightarrow> None
                      | Some cs \<Rightarrow> Some (ci # cs)))"

section \<open>Dirty flags and non-blocking updates\<close>

fun sim_ctx_clear_dirty :: "SimContext \<Rightarrow> SimContext"
and clear_dirty_child :: "SimChildInstance \<Rightarrow> SimChildInstance" where
  "sim_ctx_clear_dirty (SimContext f cs) =
     SimContext (f\<lparr>settle_dirty := False\<rparr>) (map clear_dirty_child cs)"
| "clear_dirty_child (SimChildInstance c inst m im om) =
     SimChildInstance (map_option sim_ctx_clear_dirty c) inst m im om"

definition apply_nba_signal :: "nat \<Rightarrow> SimFrame \<Rightarrow> SimFrame" where
  "apply_nba_signal i f =
     (let e = signals f ! i
      in if has_pending e
         then f\<lparr>signals := (signals f)[i := e\<lparr>current := nxt e, has_pending := False\<rparr>],
                settle_dirty := True, sig_dirty := (sig_dirty f)[i := True]\<rparr>
         else f)"

definition apply_nba_frame :: "SimFrame \<Rightarrow> SimFrame" where
  "apply_nba_frame f = for_loop (length (signals f)) apply_nba_signal f"

fun sim_ctx_apply_nba :: "SimContext \<Rightarrow> SimContext"
and apply_nba_child :: "SimChildInstance \<Rightarrow> SimChildInstance" where
  "sim_ctx_apply_nba (SimContext f cs) = SimContext (apply_nba_frame f) (map apply_nba_child cs)"
| "apply_nba_child (SimChildInstance c inst m im om) =
     SimChildInstance (map_option sim_ctx_apply_nba c) inst m im om"

end
