(* ===== verification/Sim_Eval.thy ===== *)
theory Sim_Eval
  imports Sim_State
begin

text \<open>
  The expression evaluator, src/sim/sim_eval.c. \<open>sim_eval_expr\<close> returns the value and the
  frame, because a ternary with an unknown condition raises the frame's runtime error. The
  cases of the C switch are the definitions \<open>eval_...\<close>, in the order of the source. Index
  arithmetic of \<open>gslice\<close> and \<open>sslice\<close> is over the integers: where it leaves the range of a
  C int the source has no defined behaviour.
\<close>

section \<open>Helpers\<close>

text \<open>\<open>expr->width > 0 ? expr->width : d\<close>\<close>

definition width_or :: "int \<Rightarrow> int \<Rightarrow> int" where
  "width_or w d = (if w > 0 then w else d)"

definition words_of_width :: "int \<Rightarrow> nat" where
  "words_of_width w = (let nw = (w + 63) div 64 in if nw \<le> 0 then 1 else nat nw)"

abbreviation INT32_MAX :: u64 where
  "INT32_MAX \<equiv> 0x7FFFFFFF"

definition sim_value_to_index :: "SimValue \<Rightarrow> int option" where
  "sim_value_to_index v =
     (if sim_val_has_xz v then None
      else if list_ex (\<lambda>i. val v ! i \<noteq> 0) [1..<words_of_width (width v)] then None
      else if val v ! 0 > INT32_MAX then None
      else Some (uint (val v ! 0)))"

function from_index_loop :: "u32 \<Rightarrow> int \<Rightarrow> SimValue \<Rightarrow> SimValue" where
  "from_index_loop raw b r =
     (if raw \<noteq> 0
      then from_index_loop (drop_bit 1 raw) (b + 1) (if raw AND 1 \<noteq> 0 then sim_val_set_bit r b True else r)
      else r)"
  by pat_completeness auto

termination
proof (relation "measure (\<lambda>(raw, _, _). unat raw)")
  fix raw :: u32 and b :: int and r :: SimValue
  assume nz: "raw \<noteq> 0"
  then have "unat raw > 0" by (simp add: unat_gt_0)
  moreover have "unat (drop_bit 1 raw) = unat raw div 2" by (simp add: drop_bit_eq_div unat_div)
  ultimately show "((drop_bit 1 raw, b + 1, if raw AND 1 \<noteq> 0 then sim_val_set_bit r b True else r), raw, b, r)
      \<in> measure (\<lambda>(raw, _, _). unat raw)" by simp
qed simp

definition sim_value_from_index :: "int \<Rightarrow> int \<Rightarrow> SimValue" where
  "sim_value_from_index v w = sim_val_mask (from_index_loop (word_of_int v) 0 (sim_val_zero w))"

definition sim_value_abs :: "SimValue \<Rightarrow> int \<Rightarrow> SimValue" where
  "sim_value_abs src result_w =
     (let src_w = (if width src > 0 then width src else 1);
          neg = sim_val_get_bit src (src_w - 1);
          magnitude0 = (if neg then sim_val_neg src else src);
          magnitude1 = sim_val_zext magnitude0 (if result_w > src_w then result_w else src_w);
          magnitude2 = sim_val_mask (magnitude1\<lparr>width := result_w\<rparr>);
          magnitude3 =
            (if neg
             then let most_neg = sim_val_set_bit (sim_val_zero src_w) (src_w - 1) True
                  in if sim_val_equal (sim_val_mask src) most_neg \<and> result_w > 0
                     then sim_val_set_bit magnitude2 (result_w - 1) True else magnitude2
             else magnitude2)
      in sim_val_mask magnitude3)"

definition sim_value_signed_choice :: "SimValue \<Rightarrow> SimValue \<Rightarrow> bool \<Rightarrow> int \<Rightarrow> SimValue" where
  "sim_value_signed_choice a b pick_min result_w =
     (let w = (if width a > width b then width a else width b);
          sign_a = sim_val_get_bit a (width a - 1);
          sign_b = sim_val_get_bit b (width b - 1);
          a' = sim_val_sext a w;
          b' = sim_val_sext b w;
          pick_a = (if sign_a \<noteq> sign_b then (if pick_min then sign_a else \<not> sign_a)
                    else let a_lt_b = (sim_val_is_true (sim_val_lt a' b') = 1)
                         in if pick_min then a_lt_b else \<not> a_lt_b)
      in if pick_a then sim_val_mask (a'\<lparr>width := result_w\<rparr>)
         else sim_val_mask (b'\<lparr>width := result_w\<rparr>))"

declare from_index_loop.simps [simp del]

section \<open>The cases of the switch\<close>

definition eval_literal :: "int \<Rightarrow> IR_Literal \<Rightarrow> SimValue" where
  "eval_literal w l =
     (let v0 = sim_val_from_words (lit_words l) 4 (lit_width l);
          v = (if lit_is_z l then sim_val_all_z (lit_width l) else v0)
      in if width v = 0 then v\<lparr>width := width_or w 1\<rparr> else v)"

definition eval_signal_ref :: "SimFrame \<Rightarrow> int \<Rightarrow> int \<Rightarrow> SimValue" where
  "eval_signal_ref ctx w i =
     (case sim_ctx_lookup ctx i of
        None \<Rightarrow> sim_val_all_x (width_or w 1)
      | Some idx \<Rightarrow> current (signals ctx ! idx))"

text \<open>\<open>r.width = expr->width > 0 ? expr->width : r.width\<close>, without and with masking.\<close>

definition set_width :: "int \<Rightarrow> SimValue \<Rightarrow> SimValue" where
  "set_width w r = r\<lparr>width := width_or w (width r)\<rparr>"

definition eval_unary :: "IR_UnaryKind \<Rightarrow> int \<Rightarrow> SimValue \<Rightarrow> SimValue" where
  "eval_unary k w v =
     (case k of
        EXPR_UNARY_NOT \<Rightarrow> set_width w (sim_val_not v)
      | EXPR_UNARY_NEG \<Rightarrow> set_width w (sim_val_neg v)
      | EXPR_LOGICAL_NOT \<Rightarrow> sim_val_logical_not v)"

definition eval_arith :: "IR_BinaryKind \<Rightarrow> int \<Rightarrow> SimValue \<Rightarrow> SimValue \<Rightarrow> SimValue" where
  "eval_arith k w l r =
     sim_val_mask (set_width w
       (case k of
          EXPR_BINARY_ADD \<Rightarrow> sim_val_add l r
        | EXPR_BINARY_SUB \<Rightarrow> sim_val_sub l r
        | EXPR_BINARY_MUL \<Rightarrow> sim_val_mul l r
        | EXPR_BINARY_DIV \<Rightarrow> sim_val_div l r
        | _ \<Rightarrow> sim_val_mod l r))"

definition eval_bitwise :: "IR_BinaryKind \<Rightarrow> int \<Rightarrow> SimValue \<Rightarrow> SimValue \<Rightarrow> SimValue" where
  "eval_bitwise k w l r =
     set_width w
       (case k of
          EXPR_BINARY_AND \<Rightarrow> sim_val_and l r
        | EXPR_BINARY_OR \<Rightarrow> sim_val_or l r
        | _ \<Rightarrow> sim_val_xor l r)"

definition eval_shift :: "IR_BinaryKind \<Rightarrow> int \<Rightarrow> SimValue \<Rightarrow> SimValue \<Rightarrow> SimValue" where
  "eval_shift k w l r =
     sim_val_mask (set_width w
       (case k of
          EXPR_BINARY_SHL \<Rightarrow> sim_val_shl l r
        | EXPR_BINARY_SHR \<Rightarrow> sim_val_shr l r
        | _ \<Rightarrow> sim_val_ashr l r))"

definition eval_compare :: "IR_BinaryKind \<Rightarrow> SimValue \<Rightarrow> SimValue \<Rightarrow> SimValue" where
  "eval_compare k l r =
     (case k of
        EXPR_BINARY_EQ \<Rightarrow> sim_val_eq l r
      | EXPR_BINARY_NEQ \<Rightarrow> sim_val_neq l r
      | EXPR_BINARY_LT \<Rightarrow> sim_val_lt l r
      | EXPR_BINARY_GT \<Rightarrow> sim_val_gt l r
      | EXPR_BINARY_LTE \<Rightarrow> sim_val_lte l r
      | _ \<Rightarrow> sim_val_gte l r)"

definition eval_sub_intrinsic :: "int \<Rightarrow> SimValue \<Rightarrow> SimValue \<Rightarrow> SimValue" where
  "eval_sub_intrinsic w a b = sim_val_mask (set_width w (sim_val_sub a b))"

definition eval_unsigned_choice :: "bool \<Rightarrow> int \<Rightarrow> SimValue \<Rightarrow> SimValue \<Rightarrow> SimValue" where
  "eval_unsigned_choice pick_min w a b =
     (if sim_val_has_xz a \<or> sim_val_has_xz b then sim_val_all_x (width_or w 1)
      else let result_w = width_or w 1;
               a_lt_b = (sim_val_is_true (sim_val_lt a b) = 1);
               chosen = (if (if pick_min then a_lt_b else \<not> a_lt_b) then a else b)
           in sim_val_mask (chosen\<lparr>width := result_w\<rparr>))"

definition eval_signed_choice :: "bool \<Rightarrow> int \<Rightarrow> SimValue \<Rightarrow> SimValue \<Rightarrow> SimValue" where
  "eval_signed_choice pick_min w a b =
     (if sim_val_has_xz a \<or> sim_val_has_xz b then sim_val_all_x (width_or w 1)
      else sim_value_signed_choice a b pick_min (width_or w 1))"

definition eval_binary :: "IR_BinaryKind \<Rightarrow> int \<Rightarrow> SimValue \<Rightarrow> SimValue \<Rightarrow> SimValue" where
  "eval_binary k w l r =
     (case k of
        EXPR_BINARY_ADD \<Rightarrow> eval_arith k w l r
      | EXPR_BINARY_SUB \<Rightarrow> eval_arith k w l r
      | EXPR_BINARY_MUL \<Rightarrow> eval_arith k w l r
      | EXPR_BINARY_DIV \<Rightarrow> eval_arith k w l r
      | EXPR_BINARY_MOD \<Rightarrow> eval_arith k w l r
      | EXPR_BINARY_AND \<Rightarrow> eval_bitwise k w l r
      | EXPR_BINARY_OR \<Rightarrow> eval_bitwise k w l r
      | EXPR_BINARY_XOR \<Rightarrow> eval_bitwise k w l r
      | EXPR_BINARY_SHL \<Rightarrow> eval_shift k w l r
      | EXPR_BINARY_SHR \<Rightarrow> eval_shift k w l r
      | EXPR_BINARY_ASHR \<Rightarrow> eval_shift k w l r
      | EXPR_BINARY_EQ \<Rightarrow> eval_compare k l r
      | EXPR_BINARY_NEQ \<Rightarrow> eval_compare k l r
      | EXPR_BINARY_LT \<Rightarrow> eval_compare k l r
      | EXPR_BINARY_GT \<Rightarrow> eval_compare k l r
      | EXPR_BINARY_LTE \<Rightarrow> eval_compare k l r
      | EXPR_BINARY_GTE \<Rightarrow> eval_compare k l r
      | EXPR_LOGICAL_AND \<Rightarrow> sim_val_logical_and l r
      | EXPR_LOGICAL_OR \<Rightarrow> sim_val_logical_or l r
      | EXPR_INTRINSIC_USUB \<Rightarrow> eval_sub_intrinsic w l r
      | EXPR_INTRINSIC_SSUB \<Rightarrow> eval_sub_intrinsic w l r
      | EXPR_INTRINSIC_UMIN \<Rightarrow> eval_unsigned_choice True w l r
      | EXPR_INTRINSIC_UMAX \<Rightarrow> eval_unsigned_choice False w l r
      | EXPR_INTRINSIC_SMIN \<Rightarrow> eval_signed_choice True w l r
      | EXPR_INTRINSIC_SMAX \<Rightarrow> eval_signed_choice False w l r)"

text \<open>A ternary whose condition is not fully known raises the runtime error SE-008.\<close>

definition eval_ternary :: "SimFrame \<Rightarrow> SimValue \<Rightarrow> SimValue \<Rightarrow> SimValue \<Rightarrow> SimValue \<times> SimFrame" where
  "eval_ternary ctx cond tv fv =
     (let ctx' = (if sim_val_has_xz cond \<and> \<not> runtime_error ctx then ctx\<lparr>runtime_error := True\<rparr> else ctx)
      in (sim_val_ternary cond tv fv, ctx'))"

definition eval_slice_signal :: "SimFrame \<Rightarrow> int \<Rightarrow> int \<Rightarrow> int \<Rightarrow> int \<Rightarrow> SimValue" where
  "eval_slice_signal ctx w i msb lsb =
     (case sim_ctx_lookup ctx i of
        None \<Rightarrow> sim_val_all_x (width_or w 1)
      | Some idx \<Rightarrow> sim_val_slice (current (signals ctx ! idx)) msb lsb)"

definition read_cell :: "SimMemEntry \<Rightarrow> SimValue \<Rightarrow> SimValue" where
  "read_cell me addr =
     (if sim_val_has_xz addr then sim_val_all_x (word_width me)
      else case sim_value_to_index addr of
             None \<Rightarrow> sim_val_all_x (word_width me)
           | Some idx \<Rightarrow> if idx < 0 \<or> idx \<ge> depth me then sim_val_all_x (word_width me)
                          else cells me ! nat idx)"

section \<open>Intrinsics\<close>

definition eval_add_mul :: "IR_IntrinsicKind \<Rightarrow> int \<Rightarrow> SimValue \<Rightarrow> SimValue \<Rightarrow> SimValue" where
  "eval_add_mul k w src idx =
     sim_val_mask (set_width w
       (case k of
          EXPR_INTRINSIC_UADD \<Rightarrow> sim_val_add src idx
        | EXPR_INTRINSIC_SADD \<Rightarrow> sim_val_add src idx
        | EXPR_INTRINSIC_UMUL \<Rightarrow> sim_val_mul src idx
        | _ \<Rightarrow> sim_val_mul src idx))"

definition eval_gbit :: "SimValue \<Rightarrow> SimValue \<Rightarrow> SimValue" where
  "eval_gbit src idx =
     (if sim_val_has_xz idx then sim_val_all_x 1
      else case sim_value_to_index idx of
             None \<Rightarrow> sim_val_zero 1
           | Some b \<Rightarrow> if b < 0 \<or> b \<ge> width src then sim_val_zero 1 else sim_val_slice src b b)"

definition eval_sbit :: "SimValue \<Rightarrow> SimValue \<Rightarrow> SimValue \<Rightarrow> SimValue" where
  "eval_sbit src idx v =
     (if sim_val_has_xz idx then sim_val_all_x (width src)
      else case sim_value_to_index idx of
             None \<Rightarrow> src
           | Some b \<Rightarrow>
               if b < 0 \<or> b \<ge> width src then src
               else let wi = nat (b div 64);
                        bi = nat (b mod 64);
                        m = push_bit bi (1 :: u64);
                        one_bit = sim_val_slice v 0 0;
                        put = (\<lambda>old (t :: bool). (old AND NOT m) OR push_bit bi (if t then 1 else 0))
                    in src\<lparr>val := (val src)[wi := put (val src ! wi) (sim_val_get_bit one_bit 0)],
                          xmask := (xmask src)[wi := put (xmask src ! wi) (bit (xmask one_bit ! 0) 0)],
                          zmask := (zmask src)[wi := put (zmask src ! wi) (bit (zmask one_bit ! 0) 0)]\<rparr>)"

definition eval_gslice :: "int \<Rightarrow> SimValue \<Rightarrow> SimValue \<Rightarrow> int \<Rightarrow> SimValue" where
  "eval_gslice w src idx ew0 =
     (let ew = (if ew0 \<le> 0 then width_or w 1 else ew0)
      in if sim_val_has_xz idx then sim_val_all_x ew
         else case sim_value_to_index idx of
                None \<Rightarrow> sim_val_all_x ew
              | Some elem_idx \<Rightarrow>
                  let lo = elem_idx * ew; hi = lo + ew - 1
                  in if lo < 0 \<or> hi \<ge> width src then sim_val_all_x ew else sim_val_slice src hi lo)"

definition eval_sslice :: "SimValue \<Rightarrow> SimValue \<Rightarrow> SimValue \<Rightarrow> int \<Rightarrow> SimValue" where
  "eval_sslice src idx v ew =
     (if sim_val_has_xz idx then sim_val_all_x (width src)
      else case sim_value_to_index idx of
             None \<Rightarrow> src
           | Some lo \<Rightarrow>
               let hi = lo + ew - 1
               in if lo < 0 \<or> hi \<ge> width src then src
                  else let slice_val = sim_val_slice v (ew - 1) 0;
                           shift_amt = sim_val_from_uint (word_of_int lo) 32;
                           shifted_val = sim_val_shl (sim_val_zext slice_val (width src)) shift_amt;
                           shifted_mask = sim_val_shl (sim_val_zext (sim_val_ones ew) (width src)) shift_amt;
                           cleared = sim_val_and src (sim_val_not shifted_mask)
                       in sim_val_or cleared shifted_val)"

definition eval_oh2b :: "int \<Rightarrow> SimValue \<Rightarrow> SimValue" where
  "eval_oh2b w src =
     (if sim_val_has_xz src then sim_val_all_x (width_or w 1)
      else sim_value_from_index
             (for_loop (nat (width src)) (\<lambda>i result. if sim_val_get_bit src (int i) then int i else result) 0)
             (width_or w 1))"

definition eval_b2oh :: "int \<Rightarrow> SimValue \<Rightarrow> SimValue" where
  "eval_b2oh w idx =
     (if sim_val_has_xz idx then sim_val_all_x (width_or w 1)
      else let result_w = width_or w 1
           in case sim_value_to_index idx of
                Some b \<Rightarrow> if b \<ge> 0 \<and> b < result_w then sim_val_set_bit (sim_val_zero result_w) b True
                           else sim_val_zero result_w
              | None \<Rightarrow> sim_val_zero result_w)"

text \<open>The loop from the top bit down to the first set bit.\<close>

fun top_set_bit :: "SimValue \<Rightarrow> nat \<Rightarrow> nat option" where
  "top_set_bit src 0 = None"
| "top_set_bit src (Suc i) = (if sim_val_get_bit src (int i) then Some i else top_set_bit src i)"

definition eval_prienc :: "int \<Rightarrow> SimValue \<Rightarrow> SimValue" where
  "eval_prienc w src =
     (if sim_val_has_xz src then sim_val_all_x (width_or w 1)
      else sim_value_from_index
             (case top_set_bit src (nat (width src)) of None \<Rightarrow> 0 | Some i \<Rightarrow> int i) (width_or w 1))"

definition eval_lzc :: "int \<Rightarrow> SimValue \<Rightarrow> SimValue" where
  "eval_lzc w src =
     (if sim_val_has_xz src then sim_val_all_x (width_or w 1)
      else sim_value_from_index
             (case top_set_bit src (nat (width src)) of None \<Rightarrow> width src | Some i \<Rightarrow> width src - 1 - int i)
             (width_or w 1))"

definition eval_abs :: "int \<Rightarrow> SimValue \<Rightarrow> SimValue" where
  "eval_abs w src =
     (if sim_val_has_xz src then sim_val_all_x (width_or w 1) else sim_value_abs src (width_or w 1))"

definition eval_popcount :: "int \<Rightarrow> SimValue \<Rightarrow> SimValue" where
  "eval_popcount w src =
     (if sim_val_has_xz src then sim_val_all_x (width_or w 1)
      else sim_value_from_index
             (for_loop (nat (width src)) (\<lambda>i count. if sim_val_get_bit src (int i) then count + 1 else count) 0)
             (width_or w 1))"

definition eval_reverse :: "int \<Rightarrow> SimValue \<Rightarrow> SimValue" where
  "eval_reverse ew src =
     (if sim_val_has_xz src then sim_val_all_x (width_or ew 1)
      else let w = (if width src > 0 then width src else 1)
           in for_loop (nat w)
                (\<lambda>i result. if sim_val_get_bit src (int i) then sim_val_set_bit result (w - 1 - int i) True else result)
                (sim_val_zero w))"

definition eval_bswap :: "int \<Rightarrow> SimValue \<Rightarrow> SimValue" where
  "eval_bswap ew src =
     (if sim_val_has_xz src then sim_val_all_x (width_or ew 1)
      else let w = (if width src > 0 then width src else 8);
               num_bytes = w div 8
           in for_loop (nat num_bytes)
                (\<lambda>i. for_loop 8
                  (\<lambda>b result. if sim_val_get_bit src (int i * 8 + int b)
                              then sim_val_set_bit result ((num_bytes - 1 - int i) * 8 + int b) True else result))
                (sim_val_zero w))"

definition eval_reduce :: "IR_IntrinsicKind \<Rightarrow> SimValue \<Rightarrow> SimValue" where
  "eval_reduce k src =
     (if sim_val_has_xz src then sim_val_all_x 1
      else case k of
             EXPR_INTRINSIC_REDUCE_AND \<Rightarrow> sim_val_eq src (sim_val_ones (width src))
           | EXPR_INTRINSIC_REDUCE_OR \<Rightarrow> sim_val_neq src (sim_val_zero (width src))
           | _ \<Rightarrow> let w = (if width src > 0 then width src else 1)
                  in sim_val_from_uint
                       (for_loop (nat w) (\<lambda>i result. result XOR (if sim_val_get_bit src (int i) then 1 else 0)) 0) 1)"

text \<open>Which of the operands of an intrinsic the evaluator reads.\<close>

definition reads_index :: "IR_IntrinsicKind \<Rightarrow> bool" where
  "reads_index k \<longleftrightarrow> k \<in> {EXPR_INTRINSIC_UADD, EXPR_INTRINSIC_SADD, EXPR_INTRINSIC_UMUL, EXPR_INTRINSIC_SMUL,
     EXPR_INTRINSIC_GBIT, EXPR_INTRINSIC_SBIT, EXPR_INTRINSIC_GSLICE, EXPR_INTRINSIC_SSLICE}"

definition reads_value :: "IR_IntrinsicKind \<Rightarrow> bool" where
  "reads_value k \<longleftrightarrow> k \<in> {EXPR_INTRINSIC_SBIT, EXPR_INTRINSIC_SSLICE}"

definition eval_intrinsic :: "IR_IntrinsicKind \<Rightarrow> int \<Rightarrow> SimValue \<Rightarrow> SimValue \<Rightarrow> SimValue \<Rightarrow> int \<Rightarrow> SimValue" where
  "eval_intrinsic k w src idx v ew =
     (case k of
        EXPR_INTRINSIC_UADD \<Rightarrow> eval_add_mul k w src idx
      | EXPR_INTRINSIC_SADD \<Rightarrow> eval_add_mul k w src idx
      | EXPR_INTRINSIC_UMUL \<Rightarrow> eval_add_mul k w src idx
      | EXPR_INTRINSIC_SMUL \<Rightarrow> eval_add_mul k w src idx
      | EXPR_INTRINSIC_GBIT \<Rightarrow> eval_gbit src idx
      | EXPR_INTRINSIC_SBIT \<Rightarrow> eval_sbit src idx v
      | EXPR_INTRINSIC_GSLICE \<Rightarrow> eval_gslice w src idx ew
      | EXPR_INTRINSIC_SSLICE \<Rightarrow> eval_sslice src idx v ew
      | EXPR_INTRINSIC_OH2B \<Rightarrow> eval_oh2b w src
      | EXPR_INTRINSIC_B2OH \<Rightarrow> eval_b2oh w src
      | EXPR_INTRINSIC_PRIENC \<Rightarrow> eval_prienc w src
      | EXPR_INTRINSIC_LZC \<Rightarrow> eval_lzc w src
      | EXPR_INTRINSIC_ABS \<Rightarrow> eval_abs w src
      | EXPR_INTRINSIC_POPCOUNT \<Rightarrow> eval_popcount w src
      | EXPR_INTRINSIC_REVERSE \<Rightarrow> eval_reverse w src
      | EXPR_INTRINSIC_BSWAP \<Rightarrow> eval_bswap w src
      | EXPR_INTRINSIC_REDUCE_AND \<Rightarrow> eval_reduce k src
      | EXPR_INTRINSIC_REDUCE_OR \<Rightarrow> eval_reduce k src
      | EXPR_INTRINSIC_REDUCE_XOR \<Rightarrow> eval_reduce k src)"

section \<open>The evaluator\<close>

fun sim_eval_expr :: "SimFrame \<Rightarrow> IR_Expr \<Rightarrow> SimValue \<times> SimFrame"
and sim_eval_exprs :: "SimFrame \<Rightarrow> nat \<Rightarrow> IR_Expr list \<Rightarrow> SimValue list \<times> SimFrame" where
  "sim_eval_expr ctx EXPR_NULL = (sim_val_all_x 1, ctx)"
| "sim_eval_expr ctx (EXPR_LITERAL w l) = (eval_literal w l, ctx)"
| "sim_eval_expr ctx (EXPR_SIGNAL_REF w i) = (eval_signal_ref ctx w i, ctx)"
| "sim_eval_expr ctx (EXPR_UNARY k w e) =
     (let (v, ctx1) = sim_eval_expr ctx e in (eval_unary k w v, ctx1))"
| "sim_eval_expr ctx (EXPR_BINARY k w l r) =
     (let (a, ctx1) = sim_eval_expr ctx l; (b, ctx2) = sim_eval_expr ctx1 r in (eval_binary k w a b, ctx2))"
| "sim_eval_expr ctx (EXPR_TERNARY w c t f) =
     (let (cond, ctx1) = sim_eval_expr ctx c; (tv, ctx2) = sim_eval_expr ctx1 t; (fv, ctx3) = sim_eval_expr ctx2 f
      in eval_ternary ctx3 cond tv fv)"
| "sim_eval_expr ctx (EXPR_CONCAT w es) =
     (let (vs, ctx1) = sim_eval_exprs ctx 64 es in (sim_val_concat vs, ctx1))"
| "sim_eval_expr ctx (EXPR_SLICE w i base msb lsb) =
     (if base \<noteq> EXPR_NULL
      then let (b, ctx1) = sim_eval_expr ctx base in (sim_val_slice b msb lsb, ctx1)
      else (eval_slice_signal ctx w i msb lsb, ctx))"
| "sim_eval_expr ctx (EXPR_MEM_READ w m addr) =
     (case sim_ctx_lookup_mem ctx m of
        None \<Rightarrow> (sim_val_all_x (width_or w 1), ctx)
      | Some mi \<Rightarrow> let (a, ctx1) = sim_eval_expr ctx addr in (read_cell (memories ctx1 ! mi) a, ctx1))"
| "sim_eval_expr ctx (EXPR_INTRINSIC k w src idx v ew) =
     (let (a, ctx1) = sim_eval_expr ctx src;
          (b, ctx2) = (if reads_index k then sim_eval_expr ctx1 idx else (sim_val_zero 1, ctx1));
          (c, ctx3) = (if reads_value k then sim_eval_expr ctx2 v else (sim_val_zero 1, ctx2))
      in (eval_intrinsic k w a b c ew, ctx3))"
| "sim_eval_exprs ctx n [] = ([], ctx)"
| "sim_eval_exprs ctx 0 (e # es) = ([], ctx)"
| "sim_eval_exprs ctx (Suc n) (e # es) =
     (let (v, ctx1) = sim_eval_expr ctx e; (vs, ctx2) = sim_eval_exprs ctx1 n es in (v # vs, ctx2))"

end
