(* ===== verification/Sim_Exec.thy ===== *)
theory Sim_Exec
  imports Sim_Eval
begin

text \<open>
  Statement execution, combinational settling and synchronous execution,
  src/sim/sim_exec.c. Statements act on one frame; propagation between a parent and a child
  acts on their two frames and a list of port mappings; settling and clocked execution walk
  the instance tree.
\<close>

section \<open>Assignments\<close>

text \<open>\<open>(w + 63) / 64\<close> of C: zero words for a width of zero.\<close>

definition span_words :: "int \<Rightarrow> nat" where
  "span_words w = nat ((w + 63) div 64)"

text \<open>Equality of the three arrays on the words \<open>lo\<close>, ..., \<open>hi - 1\<close>.\<close>

definition same_words :: "SimValue \<Rightarrow> SimValue \<Rightarrow> nat \<Rightarrow> nat \<Rightarrow> bool" where
  "same_words a b lo hi =
     list_all (\<lambda>i. val a ! i = val b ! i \<and> xmask a ! i = xmask b ! i \<and> zmask a ! i = zmask b ! i) [lo..<hi]"

definition sim_val_same :: "SimValue \<Rightarrow> SimValue \<Rightarrow> nat \<Rightarrow> bool" where
  "sim_val_same a b nw = same_words a b 0 nw"

definition extend_rhs :: "IR_AssignmentKind \<Rightarrow> int \<Rightarrow> SimValue \<Rightarrow> SimValue" where
  "extend_rhs k target_width v =
     (if k \<in> {ASSIGN_ALIAS_ZEXT, ASSIGN_DRIVE_ZEXT, ASSIGN_RECEIVE_ZEXT} then sim_val_zext v target_width
      else if k \<in> {ASSIGN_ALIAS_SEXT, ASSIGN_DRIVE_SEXT, ASSIGN_RECEIVE_SEXT} then sim_val_sext v target_width
      else if width v \<noteq> target_width then sim_val_mask (v\<lparr>width := target_width\<rparr>)
      else v)"

text \<open>Bit \<open>b\<close> of \<open>src\<close> into bit \<open>lsb + b\<close> of \<open>dst\<close>, on one array and on the three.\<close>

definition copy_plane_bit :: "int \<Rightarrow> u64 list \<Rightarrow> nat \<Rightarrow> u64 list \<Rightarrow> u64 list" where
  "copy_plane_bit lsb src b dst =
     (let dst_bit = lsb + int b;
          dst_wi = nat (dst_bit div 64);
          dst_bi = nat (dst_bit mod 64);
          src_wi = b div 64;
          src_bi = b mod 64;
          bmask = push_bit dst_bi (1 :: u64)
      in dst[dst_wi := (dst ! dst_wi AND NOT bmask) OR push_bit dst_bi (drop_bit src_bi (src ! src_wi) AND 1)])"

definition write_slice :: "SimValue \<Rightarrow> int \<Rightarrow> int \<Rightarrow> SimValue \<Rightarrow> SimValue" where
  "write_slice rhs msb lsb target =
     for_loop (nat (msb - lsb + 1))
       (\<lambda>b t. t\<lparr>val := copy_plane_bit lsb (val rhs) b (val t),
               xmask := copy_plane_bit lsb (xmask rhs) b (xmask t),
               zmask := copy_plane_bit lsb (zmask rhs) b (zmask t)\<rparr>) target"

definition mark_dirty :: "nat \<Rightarrow> SimFrame \<Rightarrow> SimFrame" where
  "mark_dirty i f = f\<lparr>settle_dirty := True, sig_dirty := (sig_dirty f)[i := True]\<rparr>"

definition set_current :: "nat \<Rightarrow> SimValue \<Rightarrow> SimFrame \<Rightarrow> SimFrame" where
  "set_current i v f = f\<lparr>signals := (signals f)[i := (signals f ! i)\<lparr>current := v\<rparr>]\<rparr>"

definition set_pending :: "nat \<Rightarrow> SimValue \<Rightarrow> SimFrame \<Rightarrow> SimFrame" where
  "set_pending i v f = f\<lparr>signals := (signals f)[i := (signals f ! i)\<lparr>nxt := v, has_pending := True\<rparr>]\<rparr>"

text \<open>The part-select write and the full-width write, to the entry \<open>i\<close>.\<close>

definition assign_slice :: "nat \<Rightarrow> SimValue \<Rightarrow> int \<Rightarrow> int \<Rightarrow> bool \<Rightarrow> SimFrame \<Rightarrow> SimFrame" where
  "assign_slice i rhs msb lsb is_nba f =
     (let e = signals f ! i
      in if is_nba
         then set_pending i (write_slice rhs msb lsb (if has_pending e then nxt e else current e)) f
         else let t = write_slice rhs msb lsb (current e);
                  lo_wi = nat (lsb div 64);
                  hi_wi = nat (msb div 64);
                  f1 = set_current i t f
              in if same_words t (current e) lo_wi (hi_wi + 1) then f1 else mark_dirty i f1)"

definition assign_full :: "nat \<Rightarrow> SimValue \<Rightarrow> bool \<Rightarrow> SimFrame \<Rightarrow> SimFrame" where
  "assign_full i rhs is_nba f =
     (if is_nba then set_pending i rhs f
      else let e = signals f ! i
           in if sim_val_same (current e) rhs (span_words (width (current e))) then f
              else mark_dirty i (set_current i rhs f))"

definition apply_assign :: "SimFrame \<Rightarrow> IR_Assignment \<Rightarrow> bool \<Rightarrow> SimFrame" where
  "apply_assign ctx asgn is_nba =
     (case sim_ctx_lookup ctx (lhs_signal_id asgn) of
        None \<Rightarrow> ctx
      | Some i \<Rightarrow>
          let (v, ctx1) = sim_eval_expr ctx (asgn_rhs asgn);
              target_width = width (current (signals ctx1 ! i));
              rhs_val = extend_rhs (asgn_kind asgn) target_width v
          in if is_sliced asgn then assign_slice i rhs_val (lhs_msb asgn) (lhs_lsb asgn) is_nba ctx1
             else assign_full i rhs_val is_nba ctx1)"

section \<open>Statements\<close>

definition raise_error :: "SimFrame \<Rightarrow> SimFrame" where
  "raise_error f = (if \<not> runtime_error f then f\<lparr>runtime_error := True\<rparr> else f)"

definition sim_value_to_mem_index :: "SimValue \<Rightarrow> int \<Rightarrow> int option" where
  "sim_value_to_mem_index v dep =
     (if sim_val_has_xz v then None
      else if list_ex (\<lambda>i. val v ! i \<noteq> 0) [1..<words_of_width (width v)] then None
      else if val v ! 0 \<ge> word_of_int dep \<or> val v ! 0 > INT32_MAX then None
      else Some (uint (val v ! 0)))"

definition exec_mem_write :: "SimFrame \<Rightarrow> string \<Rightarrow> IR_Expr \<Rightarrow> IR_Expr \<Rightarrow> SimFrame" where
  "exec_mem_write ctx name address dat =
     (case sim_ctx_lookup_mem ctx name of
        None \<Rightarrow> ctx
      | Some mi \<Rightarrow>
          let (addr, ctx1) = sim_eval_expr ctx address;
              (d, ctx2) = sim_eval_expr ctx1 dat;
              me = memories ctx2 ! mi
          in case sim_value_to_mem_index addr (depth me) of
               None \<Rightarrow> ctx2
             | Some idx \<Rightarrow> ctx2\<lparr>memories := (memories ctx2)[mi := me\<lparr>cells := (cells me)[nat idx := d]\<rparr>]\<rparr>)"

function (sequential) sim_exec_stmt :: "SimFrame \<Rightarrow> IR_Stmt \<Rightarrow> bool \<Rightarrow> SimFrame"
and exec_elif :: "SimFrame \<Rightarrow> IR_Stmt \<Rightarrow> IR_Stmt \<Rightarrow> bool \<Rightarrow> SimFrame"
and exec_cases :: "SimFrame \<Rightarrow> SimValue \<Rightarrow> (IR_Expr \<times> IR_Stmt) list \<Rightarrow> bool \<Rightarrow> SimFrame"
and exec_block :: "SimFrame \<Rightarrow> IR_Stmt list \<Rightarrow> bool \<Rightarrow> SimFrame" where
  "sim_exec_stmt ctx STMT_NULL is_nba = ctx"
| "sim_exec_stmt ctx (STMT_ASSIGNMENT a) is_nba = apply_assign ctx a is_nba"
| "sim_exec_stmt ctx (STMT_IF c t elif els) is_nba =
     (let (cond, ctx1) = sim_eval_expr ctx c;
          tc = sim_val_is_true cond
      in if tc = -1 then raise_error ctx1
         else if tc = 1 then sim_exec_stmt ctx1 t is_nba
         else exec_elif ctx1 elif els is_nba)"
| "sim_exec_stmt ctx (STMT_SELECT s cs) is_nba =
     (let (selector, ctx1) = sim_eval_expr ctx s
      in if sim_val_has_xz selector then raise_error ctx1
         else exec_cases ctx1 selector cs is_nba)"
| "sim_exec_stmt ctx (STMT_BLOCK ss) is_nba = exec_block ctx ss is_nba"
| "sim_exec_stmt ctx (STMT_MEM_WRITE m addr dat) is_nba = exec_mem_write ctx m addr dat"
| "exec_elif ctx (STMT_IF c t elif _) els is_nba =
     (let (ec, ctx1) = sim_eval_expr ctx c;
          etc = sim_val_is_true ec
      in if etc = -1 then raise_error ctx1
         else if etc = 1 then sim_exec_stmt ctx1 t is_nba
         else exec_elif ctx1 elif els is_nba)"
| "exec_elif ctx _ els is_nba = sim_exec_stmt ctx els is_nba"
| "exec_cases ctx selector [] is_nba = ctx"
| "exec_cases ctx selector ((v, body) # cs) is_nba =
     (if v = EXPR_NULL then sim_exec_stmt ctx body is_nba
      else let (cv, ctx1) = sim_eval_expr ctx v;
               eq = sim_val_eq selector cv
           in if sim_val_is_true eq = 1 then sim_exec_stmt ctx1 body is_nba
              else exec_cases ctx1 selector cs is_nba)"
| "exec_block ctx [] is_nba = ctx"
| "exec_block ctx (s # ss) is_nba = exec_block (sim_exec_stmt ctx s is_nba) ss is_nba"
  by pat_completeness auto

termination
  by (relation "measure (\<lambda>x. case x of
        Inl (Inl (_, s, _)) \<Rightarrow> 2 * size s
      | Inl (Inr (_, elif, els, _)) \<Rightarrow> 2 * (size elif + size els) + 1
      | Inr (Inl (_, _, cs, _)) \<Rightarrow> 2 * size_list (size_prod (\<lambda>_. 0) size) cs + 1
      | Inr (Inr (_, ss, _)) \<Rightarrow> 2 * size_list size ss + 1)") auto

section \<open>Propagation between parent and child\<close>

text \<open>One input mapping; the flag says whether a child value changed so far.\<close>

definition propagate_in :: "SimFrame \<Rightarrow> SimPortMapping \<Rightarrow> bool \<times> SimFrame \<Rightarrow> bool \<times> SimFrame" where
  "propagate_in parent m st =
     (let (changed, child) = st;
          old = current (signals child ! child_entry m);
          pv = current (signals parent ! parent_entry m);
          new = (if parent_msb m \<ge> 0 then sim_val_slice pv (parent_msb m) (parent_lsb m)
                 else if width pv \<noteq> child_width m then sim_val_mask (pv\<lparr>width := child_width m\<rparr>)
                 else pv);
          child1 = set_current (child_entry m) new child
      in if sim_val_same old new (span_words (child_width m)) then (changed, child1)
         else (True, child1\<lparr>sig_dirty := (sig_dirty child1)[child_entry m := True]\<rparr>))"

definition propagate_to_child :: "SimFrame \<Rightarrow> SimPortMapping list \<Rightarrow> SimFrame \<Rightarrow> bool \<times> SimFrame" where
  "propagate_to_child parent maps child = fold (propagate_in parent) maps (False, child)"

definition propagate_out :: "SimFrame \<Rightarrow> SimPortMapping \<Rightarrow> SimFrame \<Rightarrow> SimFrame" where
  "propagate_out child m parent =
     (let cv = current (signals child ! child_entry m);
          pv = current (signals parent ! parent_entry m)
      in if is_inout m \<and> sim_val_is_all_z cv then parent
         else if parent_msb m \<ge> 0
         then let new = write_slice cv (parent_msb m) (parent_lsb m) pv;
                  parent1 = set_current (parent_entry m) new parent
              in if sim_val_same pv new (span_words (width new)) then parent1
                 else mark_dirty (parent_entry m) parent1
         else if sim_val_same pv cv (span_words (width cv)) then parent
         else mark_dirty (parent_entry m) (set_current (parent_entry m) cv parent))"

definition propagate_from_child :: "SimFrame \<Rightarrow> SimPortMapping list \<Rightarrow> SimFrame \<Rightarrow> SimFrame" where
  "propagate_from_child child maps parent = fold (propagate_out child) maps parent"

fun propagate_to_all_children :: "SimContext \<Rightarrow> SimContext"
and propagate_children :: "SimFrame \<Rightarrow> SimChildInstance list \<Rightarrow> SimChildInstance list" where
  "propagate_to_all_children (SimContext f cs) = SimContext f (propagate_children f cs)"
| "propagate_children f [] = []"
| "propagate_children f (SimChildInstance None inst m im om # cs) =
     SimChildInstance None inst m im om # propagate_children f cs"
| "propagate_children f (SimChildInstance (Some (SimContext cf ccs)) inst m im om # cs) =
     SimChildInstance
       (Some (propagate_to_all_children (SimContext (snd (propagate_to_child f im cf)) ccs))) inst m im om
     # propagate_children f cs"

section \<open>Combinational settling\<close>

definition needs_exec :: "SimFrame \<Rightarrow> SimAsyncChunk \<Rightarrow> bool" where
  "needs_exec f chunk \<longleftrightarrow>
     read_indices chunk = [] \<or> list_ex (\<lambda>r. sig_dirty f ! r) (read_indices chunk)"

definition run_chunk :: "SimAsyncChunk \<Rightarrow> SimFrame \<Rightarrow> SimFrame" where
  "run_chunk chunk f = (if needs_exec f chunk then sim_exec_stmt f (chunk_stmt chunk) False else f)"

text \<open>The part of \<open>settle_hierarchy_once\<close> that executes the context's own asynchronous block.\<close>

definition settle_frame_once :: "SimFrame \<Rightarrow> SimFrame" where
  "settle_frame_once f =
     (if async_chunks f \<noteq> [] then fold run_chunk (async_chunks f) f
      else if async_block (ctx_module f) \<noteq> STMT_NULL then sim_exec_stmt f (async_block (ctx_module f)) False
      else f)"

definition inherit_error :: "SimFrame \<Rightarrow> SimFrame \<Rightarrow> SimFrame" where
  "inherit_error child parent = (if runtime_error child then parent\<lparr>runtime_error := True\<rparr> else parent)"

fun settle_hierarchy_once :: "SimContext \<Rightarrow> SimContext"
and settle_children :: "SimFrame \<Rightarrow> SimChildInstance list \<Rightarrow> SimFrame \<times> SimChildInstance list" where
  "settle_hierarchy_once (SimContext f cs) =
     (let (f1, cs1) = settle_children (settle_frame_once f) cs in SimContext f1 cs1)"
| "settle_children f [] = (f, [])"
| "settle_children f (SimChildInstance None inst m im om # cs) =
     (let (f1, cs1) = settle_children f cs in (f1, SimChildInstance None inst m im om # cs1))"
| "settle_children f (SimChildInstance (Some (SimContext cf ccs)) inst m im om # cs) =
     (let (inputs_changed, cf1) = propagate_to_child f im cf;
          (f1, c1) = (if \<not> inputs_changed \<and> \<not> settle_dirty cf1
                      then (inherit_error cf1 f, SimContext cf1 ccs)
                      else let c2 = settle_hierarchy_once (SimContext (cf1\<lparr>settle_dirty := False\<rparr>) ccs)
                           in (propagate_from_child (frame c2) om (inherit_error (frame c2) f), c2));
          (f2, cs1) = settle_children f1 cs
      in (f2, SimChildInstance (Some c1) inst m im om # cs1))"

fun clear_sig_dirty :: "SimContext \<Rightarrow> SimContext"
and clear_sig_dirty_child :: "SimChildInstance \<Rightarrow> SimChildInstance" where
  "clear_sig_dirty (SimContext f cs) =
     SimContext (f\<lparr>sig_dirty := replicate (length (signals f)) False\<rparr>) (map clear_sig_dirty_child cs)"
| "clear_sig_dirty_child (SimChildInstance c inst m im om) =
     SimChildInstance (map_option clear_sig_dirty c) inst m im om"

definition has_any_async :: "SimContext \<Rightarrow> bool" where
  "has_any_async ctx \<longleftrightarrow>
     async_block (ctx_module (frame ctx)) \<noteq> STMT_NULL \<or>
     list_ex (\<lambda>ci. child_ctx ci \<noteq> None \<and>
                   (case child_module ci of None \<Rightarrow> False | Some m \<Rightarrow> async_block m \<noteq> STMT_NULL))
       (children ctx)"

definition set_frame :: "SimFrame \<Rightarrow> SimContext \<Rightarrow> SimContext" where
  "set_frame f ctx = SimContext f (children ctx)"

text \<open>The settling loop: the flag is true for the return value 0, false for -1 (oscillation).\<close>

fun settle_loop :: "nat \<Rightarrow> SimContext \<Rightarrow> SimContext \<times> bool" where
  "settle_loop 0 ctx = (ctx, False)"
| "settle_loop (Suc n) ctx =
     (let ctx1 = settle_hierarchy_once (set_frame ((frame ctx)\<lparr>settle_dirty := False\<rparr>) ctx)
      in if settle_dirty (frame ctx1) then settle_loop n ctx1 else (clear_sig_dirty ctx1, True))"

definition sim_settle_combinational :: "SimContext \<Rightarrow> int \<Rightarrow> SimContext \<times> bool" where
  "sim_settle_combinational ctx max_iters =
     (if \<not> has_any_async ctx then (ctx, True) else settle_loop (nat max_iters) ctx)"

section \<open>Synchronous execution\<close>

definition sim_exec_sync_domain :: "SimFrame \<Rightarrow> int \<Rightarrow> SimFrame" where
  "sim_exec_sync_domain ctx domain_idx =
     (if domain_idx < 0 \<or> domain_idx \<ge> int (length (clock_domains (ctx_module ctx))) then ctx
      else let cd = clock_domains (ctx_module ctx) ! nat domain_idx
           in if cd_statements cd = STMT_NULL then ctx else sim_exec_stmt ctx (cd_statements cd) True)"

text \<open>The last connection to the parent's clock signal decides; -1 when there is none.\<close>

definition child_clock_port :: "IR_Instance \<Rightarrow> int \<Rightarrow> int" where
  "child_clock_port inst parent_clock_sig_id =
     fold (\<lambda>conn p. if parent_signal_id conn = parent_clock_sig_id then child_port_id conn else p)
       (connections inst) (-1)"

definition reset_asserted :: "SimFrame \<Rightarrow> IR_ClockDomain \<Rightarrow> bool" where
  "reset_asserted ctx cd \<longleftrightarrow>
     (if reset_signal_id cd \<ge> 0
      then (case sim_ctx_lookup ctx (reset_signal_id cd) of
              None \<Rightarrow> False
            | Some i \<Rightarrow> let rv = val (current (signals ctx ! i)) ! 0 AND 1
                        in (reset_active cd = RESET_ACTIVE_HIGH \<and> rv = 1) \<or>
                           (reset_active cd = RESET_ACTIVE_LOW \<and> rv = 0))
      else False)"

definition reset_register :: "int \<Rightarrow> SimFrame \<Rightarrow> SimFrame" where
  "reset_register reg_id ctx =
     (case sim_ctx_lookup ctx reg_id of
        None \<Rightarrow> ctx
      | Some i \<Rightarrow>
          (case find_signal_in_ctx ctx reg_id of
             None \<Rightarrow> ctx
           | Some sig \<Rightarrow>
               if sig_kind sig = SIG_REGISTER
               then let rv0 = sim_val_from_words (lit_words (sig_reset_value sig)) 4 (lit_width (sig_reset_value sig));
                        rv = (if width rv0 \<noteq> sig_width sig then sim_val_zext rv0 (sig_width sig) else rv0)
                    in mark_dirty i (set_current i rv ctx)
               else ctx))"

definition reset_domain :: "IR_ClockDomain \<Rightarrow> SimFrame \<Rightarrow> SimFrame" where
  "reset_domain cd ctx = fold reset_register (register_ids cd) ctx"

text \<open>
  \<open>exec_children_sync_for_clock\<close> visits, for every child on the clock, each of its matching
  domains and then the grandchildren, on the state the previous domain left. The recursion
  follows the instance tree, whose height bounds it: \<open>depth_left\<close> is that bound, and
  \<open>ctx_height\<close> computes it.
\<close>

fun ctx_height :: "SimContext \<Rightarrow> nat"
and child_height :: "SimChildInstance \<Rightarrow> nat" where
  "ctx_height (SimContext f cs) = Suc (fold max (map child_height cs) 0)"
| "child_height (SimChildInstance None inst m im om) = 0"
| "child_height (SimChildInstance (Some c) inst m im om) = ctx_height c"

fun exec_children_sync :: "nat \<Rightarrow> SimFrame \<Rightarrow> int \<Rightarrow> SimChildInstance list \<Rightarrow> SimFrame \<times> SimChildInstance list"
and exec_child_domains :: "nat \<Rightarrow> SimFrame \<Rightarrow> int \<Rightarrow> IR_ClockDomain list \<Rightarrow> nat \<Rightarrow> SimContext \<Rightarrow> SimFrame \<times> SimContext" where
  "exec_children_sync depth_left parent clk [] = (parent, [])"
| "exec_children_sync depth_left parent clk (ci # cs) =
     (let (p1, ci1) =
            (case (child_ctx ci, child_module ci, depth_left) of
               (Some c, Some cm, Suc d) \<Rightarrow>
                 let port = child_clock_port (child_inst ci) clk
                 in if port < 0 then (parent, ci)
                    else let (p1, c1) = exec_child_domains d parent port (clock_domains cm) 0 c
                         in (p1, SimChildInstance (Some c1) (child_inst ci) (child_module ci) (input_maps ci) (output_maps ci))
             | _ \<Rightarrow> (parent, ci));
          (p2, cs1) = exec_children_sync depth_left p1 clk cs
      in (p2, ci1 # cs1))"
| "exec_child_domains d parent port [] i c = (parent, c)"
| "exec_child_domains d parent port (cd # cds) i c =
     (if clock_signal_id cd \<noteq> port then exec_child_domains d parent port cds (Suc i) c
      else let cf = frame c;
               cf1 = (if reset_asserted cf cd then reset_domain cd cf else sim_exec_sync_domain cf (int i));
               (cf2, ccs) = exec_children_sync d cf1 port (children c)
           in exec_child_domains d (inherit_error cf2 parent) port cds (Suc i) (SimContext cf2 ccs))"

definition exec_children_sync_for_clock :: "SimContext \<Rightarrow> int \<Rightarrow> SimContext" where
  "exec_children_sync_for_clock ctx clk =
     (let (f, cs) = exec_children_sync (ctx_height ctx) (frame ctx) clk (children ctx) in SimContext f cs)"

definition sim_exec_sync_domain_with_children :: "SimContext \<Rightarrow> int \<Rightarrow> bool \<Rightarrow> SimContext" where
  "sim_exec_sync_domain_with_children ctx domain_idx reset_on =
     (if domain_idx < 0 \<or> domain_idx \<ge> int (length (clock_domains (ctx_module (frame ctx)))) then ctx
      else let cd = clock_domains (ctx_module (frame ctx)) ! nat domain_idx;
               ctx1 = propagate_to_all_children ctx;
               f1 = (if \<not> reset_on \<and> cd_statements cd \<noteq> STMT_NULL
                     then sim_exec_stmt (frame ctx1) (cd_statements cd) True else frame ctx1)
           in exec_children_sync_for_clock (set_frame f1 ctx1) (clock_signal_id cd))"

end
