(* ===== verification/Sim_Eval_Ops.thy ===== *)
theory Sim_Eval_Ops
  imports Sim_Eval
begin

text \<open>
  What the operators of the expression evaluator compute: the index conversions, the
  intrinsics, and that every operator keeps values well-formed.
\<close>

section \<open>Index conversions\<close>

lemma set_bit_true_bits:
  assumes "sim_val_wf r" "known r" "0 \<le> b"
  shows "sim_val_wf (sim_val_set_bit r b True)" "known (sim_val_set_bit r b True)"
    "bit (uval (sim_val_set_bit r b True)) n \<longleftrightarrow> (int n = b \<and> int n < width r) \<or> bit (uval r) n"
proof -
  obtain i where i: "b = int i" using assms(3) nonneg_int_cases by blast
  show "known (sim_val_set_bit r b True)" using assms(2) by simp
  show "sim_val_wf (sim_val_set_bit r b True)"
  proof (cases "int i < width r")
    case True
    then show ?thesis using sim_val_set_bit_known(1) [OF assms(1,2) True] i by simp
  next
    case False
    then show ?thesis using assms(1) i by (simp add: sim_val_set_bit_def)
  qed
  show "bit (uval (sim_val_set_bit r b True)) n \<longleftrightarrow> (int n = b \<and> int n < width r) \<or> bit (uval r) n"
  proof (cases "int i < width r")
    case True
    then show ?thesis using sim_val_set_bit_known(2) [OF assms(1,2) True, of True n] i by auto
  next
    case False
    then show ?thesis using i by (auto simp: sim_val_set_bit_def)
  qed
qed

lemma bit_and_1_u32: "(raw :: u32) AND 1 \<noteq> 0 \<longleftrightarrow> bit raw 0"
  by (simp add: and_one_eq bit_0 odd_iff_mod_2_eq_one)

lemma from_index_loop_bits:
  assumes "sim_val_wf r" "known r" "0 \<le> b"
  shows "sim_val_wf (from_index_loop raw b r) \<and> known (from_index_loop raw b r) \<and>
         width (from_index_loop raw b r) = width r \<and>
         (\<forall>n. bit (uval (from_index_loop raw b r)) n \<longleftrightarrow>
            bit (uval r) n \<or> (b \<le> int n \<and> int n < width r \<and> bit raw (nat (int n - b))))"
  using assms
proof (induction raw b r rule: from_index_loop.induct)
  case (1 raw b r)
  show ?case
  proof (cases "raw = 0")
    case True
    then show ?thesis using "1.prems" by (subst (1 2 3 4) from_index_loop.simps) simp
  next
    case False
    define r1 where "r1 = (if bit raw 0 then sim_val_set_bit r b True else r)"
    have r1: "sim_val_wf r1" "known r1" "width r1 = width r"
      "\<And>n. bit (uval r1) n \<longleftrightarrow> bit (uval r) n \<or> (bit raw 0 \<and> int n = b \<and> int n < width r)"
      using set_bit_true_bits [OF "1.prems"] "1.prems" by (auto simp: r1_def)
    have loop: "from_index_loop raw b r = from_index_loop (drop_bit 1 raw) (b + 1) r1"
      using False by (subst from_index_loop.simps) (simp add: r1_def bit_and_1_u32)
    have IH: "sim_val_wf (from_index_loop (drop_bit 1 raw) (b + 1) r1) \<and>
        known (from_index_loop (drop_bit 1 raw) (b + 1) r1) \<and>
        width (from_index_loop (drop_bit 1 raw) (b + 1) r1) = width r1 \<and>
        (\<forall>n. bit (uval (from_index_loop (drop_bit 1 raw) (b + 1) r1)) n \<longleftrightarrow>
          bit (uval r1) n \<or> (b + 1 \<le> int n \<and> int n < width r1 \<and> bit (drop_bit 1 raw) (nat (int n - (b + 1)))))"
      using "1.IH" [OF False] r1 "1.prems"(3) by (simp add: r1_def bit_and_1_u32)
    have split: "(b \<le> int n \<and> int n < width r \<and> bit raw (nat (int n - b))) \<longleftrightarrow>
        (bit raw 0 \<and> int n = b \<and> int n < width r) \<or>
        (b + 1 \<le> int n \<and> int n < width r \<and> bit (drop_bit 1 raw) (nat (int n - (b + 1))))" for n
    proof (cases "b + 1 \<le> int n")
      case True
      then have "Suc (nat (int n - (b + 1))) = nat (int n - b)" by linarith
      with True show ?thesis by (auto simp: bit_drop_bit_eq)
    next
      case F: False
      then show ?thesis by (cases "int n = b") auto
    qed
    show ?thesis unfolding loop using IH r1(3,4) split by auto
  qed
qed

lemma from_index_known:
  assumes "0 \<le> w" "w \<le> 256" "0 \<le> v" "v < 2 ^ 32"
  shows "sim_val_wf (sim_value_from_index v w)" "known (sim_value_from_index v w)"
    "width (sim_value_from_index v w) = w" "uval (sim_value_from_index v w) = nat v mod 2 ^ nat w"
proof -
  let ?r = "from_index_loop (word_of_int v) 0 (sim_val_zero w)"
  have L: "sim_val_wf ?r" "known ?r" "width ?r = w"
    "\<And>n. bit (uval ?r) n \<longleftrightarrow> int n < w \<and> bit (word_of_int v :: u32) n"
    using from_index_loop_bits [of "sim_val_zero w" 0 "word_of_int v"] assms by auto
  have m: "sim_value_from_index v w = ?r"
    by (simp add: sim_value_from_index_def sim_val_mask_idem [OF L(1)])
  obtain k where k: "v = int k" using assms(3) nonneg_int_cases by blast
  have bk: "bit (word_of_int v :: u32) n \<longleftrightarrow> bit k n" for n
  proof -
    have "bit k n \<Longrightarrow> n < 32" using bit_less_exp [of k 32 n] assms(4) k by simp
    then show ?thesis unfolding bit_word_of_int_iff k by (auto simp: bit_of_nat_iff_bit)
  qed
  show "sim_val_wf (sim_value_from_index v w)" "known (sim_value_from_index v w)"
    "width (sim_value_from_index v w) = w"
    using L m by simp_all
  have "uval ?r = take_bit (nat w) k"
    by (rule bit_eqI) (use assms(1) in \<open>auto simp: L(4) bk bit_take_bit_iff\<close>)
  then show "uval (sim_value_from_index v w) = nat v mod 2 ^ nat w"
    unfolding m by (simp add: k take_bit_eq_mod)
qed

lemma words_of_width_eq: "0 \<le> w \<Longrightarrow> words_of_width w = num_words w"
  by (auto simp: words_of_width_def num_words_def Let_def)

lemma to_index_eq:
  assumes "sim_val_wf v" "known v"
  shows "sim_value_to_index v = (if uval v < 2 ^ 31 then Some (int (uval v)) else None)"
proof -
  have S: "sim_val_to_small_uint v = (if uval v < 2 ^ 64 then Some (word_of_nat (uval v)) else None)"
    by (rule sim_val_to_small_uint_eq [OF assms])
  have eq: "sim_value_to_index v = (case sim_val_to_small_uint v of None \<Rightarrow> None
      | Some r \<Rightarrow> if r > INT32_MAX then None else Some (uint r))"
    by (simp add: sim_value_to_index_def sim_val_to_small_uint_def words_of_width_eq
        sim_val_wfD(1) [OF assms(1)])
  show ?thesis
  proof (cases "uval v < 2 ^ 64")
    case True
    then have u: "unat (word_of_nat (uval v) :: u64) = uval v" by (simp add: unat_of_nat take_bit_nat_eq_self)
    then have "uint (word_of_nat (uval v) :: u64) = int (uval v)" by (simp add: uint_nat)
    moreover have "(word_of_nat (uval v) :: u64) > INT32_MAX \<longleftrightarrow> \<not> uval v < 2 ^ 31"
      by (simp add: word_less_nat_alt u) linarith
    ultimately show ?thesis using S True by (simp add: eq)
  next
    case False
    then show ?thesis using S by (simp add: eq)
  qed
qed

section \<open>Widths\<close>

lemma width_or_range: "0 \<le> d \<Longrightarrow> d \<le> 256 \<Longrightarrow> w \<le> 256 \<Longrightarrow> 0 \<le> width_or w d \<and> width_or w d \<le> 256"
  by (simp add: width_or_def)

lemma width_or_1_range: "w \<le> 256 \<Longrightarrow> 0 < width_or w 1 \<and> width_or w 1 \<le> 256"
  by (simp add: width_or_def)

lemma wf_mask_set_width:
  assumes "sim_val_wf v" "w \<le> 256"
  shows "sim_val_wf (sim_val_mask (set_width w v))"
    "width (sim_val_mask (set_width w v)) = width_or w (width v)"
  using assms width_or_range [of "width v" w]
  by (simp_all add: set_width_def sim_val_wf_resize sim_val_wfD)

lemma wf_set_width:
  assumes "sim_val_wf v" "w \<le> 256" "w \<le> 0 \<or> width v \<le> w"
  shows "sim_val_wf (set_width w v)" "width (set_width w v) = width_or w (width v)"
  using assms by (auto simp: set_width_def width_or_def sim_val_wf_widen)

lemma wf_mask_width:
  "sim_val_wf v \<Longrightarrow> 0 \<le> w \<Longrightarrow> w \<le> 256 \<Longrightarrow> sim_val_wf (sim_val_mask (v\<lparr>width := w\<rparr>))"
  by (rule sim_val_wf_resize)

section \<open>Writing one bit\<close>

text \<open>A value whose arrays hold the bits of a four-state sequence.\<close>

lemma planes_wfI:
  assumes "0 \<le> width v" "width v \<le> 256" "length (val v) = 4" "length (xmask v) = 4" "length (zmask v) = 4"
    and "\<And>n. wbit (val v) n \<longleftrightarrow> t n = B1" "\<And>n. wbit (xmask v) n \<longleftrightarrow> t n = BX"
    and "\<And>n. wbit (zmask v) n \<longleftrightarrow> t n = BZ" "\<And>n. t n \<noteq> B0 \<Longrightarrow> int n < width v"
  shows "sim_val_wf v" "sim_bit v n = t n"
proof -
  have "planes_disjoint v" by (simp add: planes_disjoint_def assms(6-8))
  then show "sim_val_wf v" using assms(1-5,9) by (intro sim_val_wfI) (auto simp: assms(6-8))
  show "sim_bit v n = t n" by (cases "t n") (simp_all add: sim_bit_def assms(6-8))
qed

lemma wbit_put:
  assumes "length a = 4" "b < 256"
  shows "wbit (a[b div 64 := (a ! (b div 64) AND NOT (push_bit (b mod 64) 1)) OR
                            push_bit (b mod 64) (if t then 1 else 0)]) n \<longleftrightarrow>
         (if n = b then t else wbit a n)"
proof -
  have same: "n = b \<longleftrightarrow> n div 64 = b div 64 \<and> b mod 64 = n mod 64" by (metis div_mult_mod_eq)
  have i: "b div 64 < length a" using assms by simp
  have m: "bit (push_bit (b mod 64) (1 :: u64)) (n mod 64) \<longleftrightarrow> b mod 64 = n mod 64" for b n :: nat
    by (auto simp: bit_push_bit_iff bit_1_iff simp del: push_bit_of_1)
  have at: "bit (a ! (b div 64)) (n mod 64) \<longleftrightarrow> wbit a n" if "n div 64 = b div 64"
    using that i by (simp add: wbit_def)
  show ?thesis
    using i at
    by (cases t) (auto simp: wbit_update same bit_or_iff bit_and_iff bit_not_iff m simp del: push_bit_of_1)
qed

lemma eval_sbit_bits:
  assumes "sim_val_wf src" "sim_val_wf idx" "sim_val_wf v"
  shows "sim_val_wf (eval_sbit src idx v)" "width (eval_sbit src idx v) = width src"
    and "known idx \<Longrightarrow> int (uval idx) < width src \<Longrightarrow>
         sim_bit (eval_sbit src idx v) n = (if n = uval idx then sim_bit v 0 else sim_bit src n)"
proof -
  have sw: "width src \<le> 256" using assms(1) by (simp add: sim_val_wfD)
  have in_range: "sim_val_wf (eval_sbit src idx v) \<and> width (eval_sbit src idx v) = width src \<and>
      (\<forall>n. sim_bit (eval_sbit src idx v) n = (if n = uval idx then sim_bit v 0 else sim_bit src n))"
    if k: "known idx" "int (uval idx) < width src"
  proof -
    define b where "b = uval idx"
    have b: "int b < width src" "b < 256" "b div 64 < 4" using k sw by (auto simp: b_def)
    define o1 where "o1 = sim_val_slice v 0 0"
    have o1: "sim_val_wf o1" "width o1 = 1" "sim_bit o1 0 = sim_bit v 0"
      using sim_val_slice_bits [OF assms(3), of 0 0] by (simp_all add: o1_def)
    define P where "P = (\<lambda>(a :: u64 list) t. a[b div 64 := (a ! (b div 64) AND NOT (push_bit (b mod 64) 1)) OR
                            push_bit (b mod 64) (if t then 1 else 0)])"
    have idx: "sim_value_to_index idx = Some (int b)"
      using to_index_eq [OF assms(2) k(1)] b by (simp add: b_def)
    have r: "eval_sbit src idx v = src\<lparr>val := P (val src) (sim_val_get_bit o1 0),
        xmask := P (xmask src) (bit (xmask o1 ! 0) 0), zmask := P (zmask src) (bit (zmask o1 ! 0) 0)\<rparr>"
      using k(1) assms(2) b(1)
      by (simp add: eval_sbit_def has_xz_iff_known idx Let_def o1_def P_def del: push_bit_of_1)
    have o2: "sim_val_get_bit o1 0 \<longleftrightarrow> wbit (val o1) 0" "bit (xmask o1 ! 0) 0 \<longleftrightarrow> wbit (xmask o1) 0"
      "bit (zmask o1 ! 0) 0 \<longleftrightarrow> wbit (zmask o1) 0"
      using sim_val_get_bit_eq [OF o1(1), of 0] o1(1)
      by (simp_all add: uval_def bit_wval wbit_def sim_val_wfD)
    have W: "wbit (P (val src) t) n \<longleftrightarrow> (if n = b then t else wbit (val src) n)"
      "wbit (P (xmask src) t) n \<longleftrightarrow> (if n = b then t else wbit (xmask src) n)"
      "wbit (P (zmask src) t) n \<longleftrightarrow> (if n = b then t else wbit (zmask src) n)" for t n
      unfolding P_def by (rule wbit_put; use assms(1) b(2) in \<open>simp add: sim_val_wfD\<close>)+
    have len: "length (P a t) = length a" for a t by (simp add: P_def)
    let ?t = "\<lambda>n. if n = b then sim_bit o1 0 else sim_bit src n"
    have T: "?t n \<noteq> B0 \<Longrightarrow> int n < width src" for n
      using b(1) sim_bit_beyond [OF assms(1), of n] by (cases "int n < width src") auto
    have "sim_val_wf (eval_sbit src idx v)" "sim_bit (eval_sbit src idx v) n = ?t n" for n
      unfolding r
      by (rule planes_wfI [where t = ?t];
          use assms(1) T in \<open>simp add: sim_val_wfD len W o2 sim_bit_planes [OF assms(1)] sim_bit_planes [OF o1(1)]\<close>)+
    then have "sim_val_wf (eval_sbit src idx v)"
      "\<And>n. sim_bit (eval_sbit src idx v) n = (if n = b then sim_bit v 0 else sim_bit src n)"
      by (simp_all add: o1(3))
    then show ?thesis by (simp add: r b_def)
  qed
  have rest: "eval_sbit src idx v = (if known idx then src else sim_val_all_x (width src))"
    if "\<not> (known idx \<and> int (uval idx) < width src)"
  proof (cases "known idx")
    case True
    then show ?thesis
      using that assms(2) to_index_eq [OF assms(2) True] by (simp add: eval_sbit_def has_xz_iff_known)
  next
    case False
    then show ?thesis using assms(2) by (simp add: eval_sbit_def has_xz_iff_known)
  qed
  have "sim_val_wf (eval_sbit src idx v) \<and> width (eval_sbit src idx v) = width src"
  proof (cases "known idx \<and> int (uval idx) < width src")
    case True
    then show ?thesis using in_range by blast
  next
    case False
    then show ?thesis using rest [OF False] assms(1) sw by (simp add: sim_val_wfD)
  qed
  then show "sim_val_wf (eval_sbit src idx v)" "width (eval_sbit src idx v) = width src" by simp_all
  show "known idx \<Longrightarrow> int (uval idx) < width src \<Longrightarrow>
        sim_bit (eval_sbit src idx v) n = (if n = uval idx then sim_bit v 0 else sim_bit src n)"
    using in_range by blast
qed

lemma eval_gbit_bits:
  assumes "sim_val_wf src" "sim_val_wf idx"
  shows "sim_val_wf (eval_gbit src idx)" "width (eval_gbit src idx) = 1"
    and "known idx \<Longrightarrow> int (uval idx) < width src \<Longrightarrow> sim_bit (eval_gbit src idx) 0 = sim_bit src (uval idx)"
proof -
  have sw: "width src \<le> 256" using assms(1) by (simp add: sim_val_wfD)
  have S: "sim_val_wf (sim_val_slice src b b)" "width (sim_val_slice src b b) = 1" if "0 \<le> b" for b
    using sim_val_slice_bits [OF assms(1) that, of b] by simp_all
  show "sim_val_wf (eval_gbit src idx)" "width (eval_gbit src idx) = 1"
    using S by (auto simp: eval_gbit_def split: option.splits)
  assume k: "known idx" "int (uval idx) < width src"
  then have "eval_gbit src idx = sim_val_slice src (int (uval idx)) (int (uval idx))"
    using to_index_eq [OF assms(2)] assms(2) sw by (auto simp: eval_gbit_def has_xz_iff_known)
  then show "sim_bit (eval_gbit src idx) 0 = sim_bit src (uval idx)"
    using sim_val_slice_bits(3) [OF assms(1), of "int (uval idx)" "int (uval idx)" 0] by simp
qed

end
