(* ===== verification/Sim_Eval_Intrinsics.thy ===== *)
theory Sim_Eval_Intrinsics
  imports Sim_Eval_Ops
begin

text \<open>
  The bit-manipulation intrinsics: counting, encoding, reversal, byte swap, reduction,
  minimum and maximum, absolute value and part-select writes, each related to what it means on
  the number or the bits of its operand.
\<close>

section \<open>Loops over the bits of a value\<close>

lemma count_loop:
  "for_loop n (\<lambda>i c. if P i then c + 1 else c) (0 :: int) = int (card {i. i < n \<and> P i})"
proof (induction n)
  case 0
  then show ?case by simp
next
  case (Suc n)
  have "{i. i < Suc n \<and> P i} = (if P n then insert n {i. i < n \<and> P i} else {i. i < n \<and> P i})"
    by (auto simp: less_Suc_eq)
  with Suc show ?case by simp
qed

lemma parity_loop:
  "for_loop n (\<lambda>i r. r XOR (if P i then 1 else 0)) (0 :: u64) = of_bool (odd (card {i. i < n \<and> P i}))"
proof (induction n)
  case 0
  then show ?case by simp
next
  case (Suc n)
  have "{i. i < Suc n \<and> P i} = (if P n then insert n {i. i < n \<and> P i} else {i. i < n \<and> P i})"
    by (auto simp: less_Suc_eq)
  with Suc show ?case by simp
qed

lemma last_index_loop:
  "for_loop n (\<lambda>i r. if P i then int i else r) (0 :: int) =
   (if \<exists>i<n. P i then int (Max {i. i < n \<and> P i}) else 0)"
proof (induction n)
  case 0
  then show ?case by simp
next
  case (Suc n)
  show ?case
  proof (cases "P n")
    case True
    have "Max {i. i < Suc n \<and> P i} = n"
      by (rule Max_eqI) (use True in auto)
    with True show ?thesis by auto
  next
    case False
    then have "{i. i < Suc n \<and> P i} = {i. i < n \<and> P i}" "(\<exists>i<Suc n. P i) = (\<exists>i<n. P i)"
      by (auto simp: less_Suc_eq)
    with False Suc show ?thesis by auto
  qed
qed

lemma set_bits_loop:
  fixes P :: "nat \<Rightarrow> bool"
  assumes "sim_val_wf r" "known r" "\<And>i. i < n \<Longrightarrow> 0 \<le> q i \<and> q i < width r"
  defines "L \<equiv> for_loop n (\<lambda>i r. if P i then sim_val_set_bit r (q i) True else r) r"
  shows "sim_val_wf L \<and> known L \<and> width L = width r \<and>
         (\<forall>m. bit (uval L) m \<longleftrightarrow> bit (uval r) m \<or> (\<exists>i<n. P i \<and> int m = q i))"
proof -
  let ?Inv = "\<lambda>k t. sim_val_wf t \<and> known t \<and> width t = width r \<and>
         (\<forall>m. bit (uval t) m \<longleftrightarrow> bit (uval r) m \<or> (\<exists>i<k. P i \<and> int m = q i))"
  show ?thesis unfolding L_def
  proof (rule for_loop_invariant [where P = ?Inv])
    show "?Inv 0 r" using assms by simp
    fix i t
    assume i: "i < n" and inv: "?Inv i t"
    have q: "0 \<le> q i" "q i < width t" using assms(3) [OF i] inv by auto
    show "?Inv (Suc i) (if P i then sim_val_set_bit t (q i) True else t)"
    proof (cases "P i")
      case True
      have "\<exists>m. int m = q i" using q(1) by (metis nonneg_int_cases)
      then show ?thesis
        using set_bit_true_bits [OF _ _ q(1)] inv q True by (auto simp: less_Suc_eq)
    next
      case False
      then show ?thesis using inv by (auto simp: less_Suc_eq)
    qed
  qed
qed

lemma bit_uval_less: "sim_val_wf v \<Longrightarrow> bit (uval v) n \<Longrightarrow> n < nat (width v)"
  using sim_val_wfD(6) [of v n] by (auto simp: uval_def bit_wval)

lemma get_bit_below:
  assumes "sim_val_wf v"
  shows "{i. i < nat (width v) \<and> sim_val_get_bit v (int i)} = {i. bit (uval v) i}"
  using bit_uval_less [OF assms] by (auto simp: sim_val_get_bit_eq [OF assms])

lemma max_bit_range:
  assumes "sim_val_wf v" "uval v \<noteq> 0"
  shows "Max {i. bit (uval v) i} < nat (width v)" "bit (uval v) (Max {i. bit (uval v) i})"
proof -
  have fin: "finite {i. bit (uval v) i}" using bit_uval_less [OF assms(1)] finite_nat_set_iff_bounded by blast
  moreover have "{i. bit (uval v) i} \<noteq> {}" using assms(2) by (auto simp: bit_eq_iff)
  ultimately show "bit (uval v) (Max {i. bit (uval v) i})" using Max_in by blast
  then show "Max {i. bit (uval v) i} < nat (width v)" using bit_uval_less [OF assms(1)] by blast
qed

lemma card_bits_le: "sim_val_wf v \<Longrightarrow> card {i. bit (uval v) i} \<le> nat (width v)"
proof -
  assume v: "sim_val_wf v"
  then have "{i. bit (uval v) i} \<subseteq> {..<nat (width v)}" using bit_uval_less by auto
  then show ?thesis using card_mono [of "{..<nat (width v)}"] by fastforce
qed

section \<open>Counting and encoding\<close>

lemma from_index_small:
  assumes "w \<le> 256" "0 \<le> v" "v \<le> 256"
  shows "sim_val_wf (sim_value_from_index v (width_or w 1))" "known (sim_value_from_index v (width_or w 1))"
    "width (sim_value_from_index v (width_or w 1)) = width_or w 1"
    "uval (sim_value_from_index v (width_or w 1)) = nat v mod 2 ^ nat (width_or w 1)"
  using from_index_known [of "width_or w 1" v] width_or_1_range [OF assms(1)] assms by auto

lemma eval_popcount_known:
  assumes "sim_val_wf v" "known v" "w \<le> 256"
  shows "sim_val_wf (eval_popcount w v)" "known (eval_popcount w v)" "width (eval_popcount w v) = width_or w 1"
    "uval (eval_popcount w v) = card {i. bit (uval v) i} mod 2 ^ nat (width_or w 1)"
proof -
  have "eval_popcount w v = sim_value_from_index (int (card {i. bit (uval v) i})) (width_or w 1)"
    using assms by (simp add: eval_popcount_def has_xz_iff_known count_loop get_bit_below)
  moreover have "card {i. bit (uval v) i} \<le> 256"
    using card_bits_le [OF assms(1)] sim_val_wfD(2) [OF assms(1)] by linarith
  ultimately show "sim_val_wf (eval_popcount w v)" "known (eval_popcount w v)"
    "width (eval_popcount w v) = width_or w 1"
    "uval (eval_popcount w v) = card {i. bit (uval v) i} mod 2 ^ nat (width_or w 1)"
    using from_index_small [OF assms(3), of "int (card {i. bit (uval v) i})"] by simp_all
qed

lemma eval_oh2b_known:
  assumes "sim_val_wf v" "known v" "w \<le> 256"
  shows "sim_val_wf (eval_oh2b w v)" "known (eval_oh2b w v)" "width (eval_oh2b w v) = width_or w 1"
    "uval (eval_oh2b w v) = (if uval v = 0 then 0 else Max {i. bit (uval v) i}) mod 2 ^ nat (width_or w 1)"
proof -
  let ?B = "{i. bit (uval v) i}"
  have ex: "(\<exists>i<nat (width v). sim_val_get_bit v (int i)) \<longleftrightarrow> uval v \<noteq> 0"
  proof -
    have "?B = {} \<longleftrightarrow> uval v = 0" by (auto simp: bit_eq_iff)
    moreover have "(\<exists>i<nat (width v). sim_val_get_bit v (int i)) \<longleftrightarrow>
        {i. i < nat (width v) \<and> sim_val_get_bit v (int i)} \<noteq> {}" by simp
    ultimately show ?thesis by (simp only: get_bit_below [OF assms(1)])
  qed
  define k where "k = (if uval v = 0 then 0 else Max ?B)"
  have "k \<le> 256" using max_bit_range [OF assms(1)] sim_val_wfD(2) [OF assms(1)] by (auto simp: k_def)
  moreover have "eval_oh2b w v = sim_value_from_index (int k) (width_or w 1)"
    using assms by (simp add: eval_oh2b_def has_xz_iff_known last_index_loop get_bit_below ex k_def)
  ultimately show "sim_val_wf (eval_oh2b w v)" "known (eval_oh2b w v)" "width (eval_oh2b w v) = width_or w 1"
    "uval (eval_oh2b w v) = (if uval v = 0 then 0 else Max ?B) mod 2 ^ nat (width_or w 1)"
    using from_index_small [OF assms(3), of "int k"] by (simp_all add: k_def)
qed

lemma top_set_bit_eq:
  assumes "sim_val_wf v"
  shows "top_set_bit v n = (if \<exists>i<n. bit (uval v) i then Some (Max {i. i < n \<and> bit (uval v) i}) else None)"
proof (induction n)
  case 0
  then show ?case by simp
next
  case (Suc n)
  show ?case
  proof (cases "bit (uval v) n")
    case True
    have "Max {i. i < Suc n \<and> bit (uval v) i} = n"
      by (rule Max_eqI) (use True in auto)
    with True show ?thesis using assms by (auto simp: sim_val_get_bit_eq)
  next
    case False
    then have "{i. i < Suc n \<and> bit (uval v) i} = {i. i < n \<and> bit (uval v) i}"
      "(\<exists>i<Suc n. bit (uval v) i) = (\<exists>i<n. bit (uval v) i)"
      by (auto simp: less_Suc_eq)
    with False Suc show ?thesis using assms by (simp add: sim_val_get_bit_eq)
  qed
qed

lemma top_set_bit_width:
  assumes "sim_val_wf v"
  shows "top_set_bit v (nat (width v)) = (if uval v = 0 then None else Some (Max {i. bit (uval v) i}))"
proof -
  have "{i. i < nat (width v) \<and> bit (uval v) i} = {i. bit (uval v) i}"
    using bit_uval_less [OF assms] by auto
  moreover have "(\<exists>i<nat (width v). bit (uval v) i) \<longleftrightarrow> uval v \<noteq> 0"
    using bit_uval_less [OF assms] by (auto simp: bit_eq_iff)
  ultimately show ?thesis using top_set_bit_eq [OF assms] by simp
qed

lemma eval_prienc_known:
  assumes "sim_val_wf v" "known v" "w \<le> 256"
  shows "sim_val_wf (eval_prienc w v)" "known (eval_prienc w v)" "width (eval_prienc w v) = width_or w 1"
    "uval (eval_prienc w v) = (if uval v = 0 then 0 else Max {i. bit (uval v) i}) mod 2 ^ nat (width_or w 1)"
proof -
  define k where "k = (if uval v = 0 then 0 else Max {i. bit (uval v) i})"
  have "k \<le> 256" using max_bit_range [OF assms(1)] sim_val_wfD(2) [OF assms(1)] by (auto simp: k_def)
  moreover have "eval_prienc w v = sim_value_from_index (int k) (width_or w 1)"
    using assms by (simp add: eval_prienc_def has_xz_iff_known top_set_bit_width k_def)
  ultimately show "sim_val_wf (eval_prienc w v)" "known (eval_prienc w v)"
    "width (eval_prienc w v) = width_or w 1"
    "uval (eval_prienc w v) = (if uval v = 0 then 0 else Max {i. bit (uval v) i}) mod 2 ^ nat (width_or w 1)"
    using from_index_small [OF assms(3), of "int k"] by (simp_all add: k_def)
qed

lemma eval_lzc_known:
  assumes "sim_val_wf v" "known v" "w \<le> 256"
  shows "sim_val_wf (eval_lzc w v)" "known (eval_lzc w v)" "width (eval_lzc w v) = width_or w 1"
    "uval (eval_lzc w v) =
     (if uval v = 0 then nat (width v) else nat (width v) - 1 - Max {i. bit (uval v) i}) mod 2 ^ nat (width_or w 1)"
proof -
  define k where "k = (if uval v = 0 then nat (width v) else nat (width v) - 1 - Max {i. bit (uval v) i})"
  have w: "0 \<le> width v" "width v \<le> 256" using sim_val_wfD(1,2) [OF assms(1)] by auto
  have "k \<le> 256" using w by (auto simp: k_def)
  moreover have "eval_lzc w v = sim_value_from_index (int k) (width_or w 1)"
    using assms max_bit_range [OF assms(1)] w
    by (auto simp: eval_lzc_def has_xz_iff_known top_set_bit_width k_def of_nat_diff diff_diff_eq)
  ultimately show "sim_val_wf (eval_lzc w v)" "known (eval_lzc w v)"
    "width (eval_lzc w v) = width_or w 1"
    "uval (eval_lzc w v) =
     (if uval v = 0 then nat (width v) else nat (width v) - 1 - Max {i. bit (uval v) i}) mod 2 ^ nat (width_or w 1)"
    using from_index_small [OF assms(3), of "int k"] by (simp_all add: k_def)
qed

lemma eval_b2oh_known:
  assumes "sim_val_wf v" "known v" "w \<le> 256"
  shows "sim_val_wf (eval_b2oh w v)" "known (eval_b2oh w v)" "width (eval_b2oh w v) = width_or w 1"
    "uval (eval_b2oh w v) = (if int (uval v) < width_or w 1 then 2 ^ uval v else 0)"
proof -
  define W where "W = width_or w 1"
  have W: "0 < W" "W \<le> 256" using width_or_1_range [OF assms(3)] by (auto simp: W_def)
  have eq: "eval_b2oh w v =
      (if int (uval v) < W then sim_val_set_bit (sim_val_zero W) (int (uval v)) True else sim_val_zero W)"
    using assms to_index_eq [OF assms(1,2)] W(2) by (auto simp: eval_b2oh_def has_xz_iff_known W_def Let_def)
  have S: "sim_val_wf (sim_val_set_bit (sim_val_zero W) (int (uval v)) True)"
    "known (sim_val_set_bit (sim_val_zero W) (int (uval v)) True)"
    "bit (uval (sim_val_set_bit (sim_val_zero W) (int (uval v)) True)) n \<longleftrightarrow> n = uval v \<and> int n < W" for n
    using set_bit_true_bits [of "sim_val_zero W" "int (uval v)"] W by auto
  show "sim_val_wf (eval_b2oh w v)" "known (eval_b2oh w v)" "width (eval_b2oh w v) = width_or w 1"
    using W S by (auto simp: eq W_def [symmetric])
  have "int (uval v) < W \<Longrightarrow> uval (sim_val_set_bit (sim_val_zero W) (int (uval v)) True) = 2 ^ uval v"
    by (rule bit_eqI) (auto simp: S(3) bit_exp_iff)
  then show "uval (eval_b2oh w v) = (if int (uval v) < width_or w 1 then 2 ^ uval v else 0)"
    by (simp add: eq W_def)
qed

section \<open>Reversal, byte swap and reduction\<close>

lemma eval_reverse_known:
  assumes "sim_val_wf v" "known v" "0 < width v"
  shows "sim_val_wf (eval_reverse w v)" "known (eval_reverse w v)" "width (eval_reverse w v) = width v"
    "n < nat (width v) \<Longrightarrow> bit (uval (eval_reverse w v)) n \<longleftrightarrow> bit (uval v) (nat (width v) - 1 - n)"
proof -
  let ?z = "sim_val_zero (width v)"
  let ?r = "for_loop (nat (width v))
    (\<lambda>i r. if sim_val_get_bit v (int i) then sim_val_set_bit r (width v - 1 - int i) True else r) ?z"
  have z: "sim_val_wf ?z" using sim_val_wfD(1,2) [OF assms(1)] by simp
  have eq: "eval_reverse w v = ?r"
    using assms by (simp add: eval_reverse_def has_xz_iff_known Let_def)
  have "sim_val_wf ?r \<and> known ?r \<and> width ?r = width ?z \<and>
      (\<forall>m. bit (uval ?r) m \<longleftrightarrow> bit (uval ?z) m \<or>
        (\<exists>i<nat (width v). sim_val_get_bit v (int i) \<and> int m = width v - 1 - int i))"
    by (rule set_bits_loop) (use z in auto)
  then have L: "sim_val_wf ?r" "known ?r" "width ?r = width v"
    "\<And>m. bit (uval ?r) m \<longleftrightarrow> (\<exists>i<nat (width v). bit (uval v) i \<and> int m = width v - 1 - int i)"
    by (simp_all add: sim_val_get_bit_eq [OF assms(1)])
  then show "sim_val_wf (eval_reverse w v)" "known (eval_reverse w v)" "width (eval_reverse w v) = width v"
    by (simp_all add: eq)
  assume n: "n < nat (width v)"
  have i: "i = nat (width v) - 1 - n" if "int n = width v - 1 - int i" for i
    using that n by linarith
  have "int n = width v - 1 - int (nat (width v) - 1 - n)" "nat (width v) - 1 - n < nat (width v)"
    using n by linarith+
  then show "bit (uval (eval_reverse w v)) n \<longleftrightarrow> bit (uval v) (nat (width v) - 1 - n)"
    unfolding eq L(4) using i by blast
qed

lemma for_loop_nested:
  "for_loop n (\<lambda>i. for_loop m (f i)) s = for_loop (n * m) (\<lambda>k. f (k div m) (k mod m)) s"
proof (cases "m = 0")
  case True
  then show ?thesis by (induction n) auto
next
  case False
  have inner: "for_loop (n * m + k) (\<lambda>k. f (k div m) (k mod m)) s =
      for_loop k (f n) (for_loop (n * m) (\<lambda>k. f (k div m) (k mod m)) s)" if "k \<le> m" for n k
    using that False by (induction k) auto
  show ?thesis
  proof (induction n)
    case 0
    then show ?case by simp
  next
    case (Suc n)
    then show ?case using inner [of m n] by (simp add: add.commute)
  qed
qed

lemma eval_bswap_known:
  assumes "sim_val_wf v" "known v" "width v = 8 * int b" "0 < b"
  shows "sim_val_wf (eval_bswap w v)" "known (eval_bswap w v)" "width (eval_bswap w v) = width v"
    "i < b \<Longrightarrow> j < 8 \<Longrightarrow> bit (uval (eval_bswap w v)) (8 * i + j) \<longleftrightarrow> bit (uval v) (8 * (b - 1 - i) + j)"
proof -
  let ?z = "sim_val_zero (width v)"
  let ?q = "\<lambda>k. (int b - 1 - int (k div 8)) * 8 + int (k mod 8)"
  let ?r = "for_loop (b * 8) (\<lambda>k r. if sim_val_get_bit v (int k) then sim_val_set_bit r (?q k) True else r) ?z"
  have z: "sim_val_wf ?z" using sim_val_wfD(1,2) [OF assms(1)] by simp
  have k8: "int (k div 8) * 8 + int (k mod 8) = int k" for k by presburger
  have "eval_bswap w v = for_loop b (\<lambda>i. for_loop 8
      (\<lambda>j r. if sim_val_get_bit v (int i * 8 + int j)
            then sim_val_set_bit r ((int b - 1 - int i) * 8 + int j) True else r)) ?z"
    using assms by (simp add: eval_bswap_def has_xz_iff_known Let_def cong: if_cong)
  then have eq: "eval_bswap w v = ?r" by (simp only: for_loop_nested k8)
  have range: "0 \<le> ?q k \<and> ?q k < width ?z" if "k < b * 8" for k
  proof -
    have "k div 8 < b" using that by (simp add: less_mult_imp_div_less)
    then show ?thesis using assms(3) by auto
  qed
  have "sim_val_wf ?r \<and> known ?r \<and> width ?r = width ?z \<and>
      (\<forall>m. bit (uval ?r) m \<longleftrightarrow> bit (uval ?z) m \<or> (\<exists>k<b * 8. sim_val_get_bit v (int k) \<and> int m = ?q k))"
    by (rule set_bits_loop) (use z range in auto)
  then have L: "sim_val_wf ?r" "known ?r" "width ?r = width v"
    "\<And>m. bit (uval ?r) m \<longleftrightarrow> (\<exists>k<b * 8. bit (uval v) k \<and> int m = ?q k)"
    by (simp_all add: sim_val_get_bit_eq [OF assms(1)])
  then show "sim_val_wf (eval_bswap w v)" "known (eval_bswap w v)" "width (eval_bswap w v) = width v"
    by (simp_all only: eq)
  assume ij: "i < b" "j < 8"
  have to: "k = 8 * (b - 1 - i) + j" if "int (8 * i + j) = ?q k" for k
  proof -
    define p r where "p = int (k div 8)" and "r = int (k mod 8)"
    have r: "0 \<le> r" "r < 8" and e: "8 * int i + int j = (int b - 1 - p) * 8 + r"
      using that by (simp_all add: p_def r_def)
    define d where "d = int i - (int b - 1 - p)"
    have "8 * d = r - int j" using e by (simp add: d_def algebra_simps)
    moreover have "int j < 8" using ij(2) by simp
    ultimately have "8 * d < 8" "- 8 < 8 * d" using r by linarith+
    then have "d = 0" by linarith
    then have i: "int i = int b - 1 - p" by (simp add: d_def)
    then have jk: "j = k mod 8" "int i = int b - 1 - int (k div 8)"
      using e by (simp_all add: p_def r_def)
    then have "k div 8 = b - 1 - i" by linarith
    then show ?thesis using jk(1) mult_div_mod_eq [of 8 k] by simp
  qed
  have "int (8 * i + j) = ?q (8 * (b - 1 - i) + j)" "8 * (b - 1 - i) + j < b * 8"
    using ij by (auto simp: of_nat_diff)
  then show "bit (uval (eval_bswap w v)) (8 * i + j) \<longleftrightarrow> bit (uval v) (8 * (b - 1 - i) + j)"
    unfolding eq L(4) using to by blast
qed

lemma eval_reduce_known:
  assumes "sim_val_wf v" "known v" "0 < width v"
  shows "eval_reduce EXPR_INTRINSIC_REDUCE_AND v = cmp_result (uval v = 2 ^ nat (width v) - 1)"
    "eval_reduce EXPR_INTRINSIC_REDUCE_OR v = cmp_result (uval v \<noteq> 0)"
    "eval_reduce EXPR_INTRINSIC_REDUCE_XOR v = cmp_result (odd (card {i. bit (uval v) i}))"
proof -
  have w: "0 \<le> width v" "width v \<le> 256" using assms(1) by (simp_all add: sim_val_wfD)
  have o: "sim_val_wf (sim_val_ones (width v))" "sim_val_wf (sim_val_zero (width v))" using w by simp_all
  show "eval_reduce EXPR_INTRINSIC_REDUCE_AND v = cmp_result (uval v = 2 ^ nat (width v) - 1)"
    "eval_reduce EXPR_INTRINSIC_REDUCE_OR v = cmp_result (uval v \<noteq> 0)"
    using assms o w by (simp_all add: eval_reduce_def has_xz_iff_known sim_val_compare uval_ones)
  have "cmp_result t = sim_val_from_uint (of_bool t) 1" for t
    by (rule sim_val_eqI) (simp_all add: cmp_result_simps sim_bit_known uval_from_uint)
  then show "eval_reduce EXPR_INTRINSIC_REDUCE_XOR v = cmp_result (odd (card {i. bit (uval v) i}))"
    using assms by (simp add: eval_reduce_def has_xz_iff_known parity_loop get_bit_below)
qed

section \<open>Minimum, maximum and absolute value\<close>

lemma eval_unsigned_choice_known:
  assumes "sim_val_wf a" "sim_val_wf b" "known a" "known b" "max_width a b \<le> w" "w \<le> 256" "0 < w"
  shows "sim_val_wf (eval_unsigned_choice m w a b)" "known (eval_unsigned_choice m w a b)"
    "width (eval_unsigned_choice m w a b) = w"
    "uval (eval_unsigned_choice m w a b) = (if m then min (uval a) (uval b) else max (uval a) (uval b))"
proof -
  define c where "c = (if (if m then uval a < uval b else \<not> uval a < uval b) then a else b)"
  have c: "sim_val_wf c" "known c" "width c \<le> w" using assms by (auto simp: c_def max_width_def split: if_splits)
  have lt: "sim_val_is_true (sim_val_lt a b) = 1 \<longleftrightarrow> uval a < uval b"
    using assms(1-4) by (simp add: sim_val_compare sim_val_is_true_eq cmp_result_simps)
  have eq: "eval_unsigned_choice m w a b = sim_val_mask (c\<lparr>width := w\<rparr>)"
    using assms(1-4,7) by (simp add: eval_unsigned_choice_def has_xz_iff_known lt width_or_def c_def Let_def)
  have "sim_val_wf (c\<lparr>width := w\<rparr>)" using c assms(6) by (simp add: sim_val_wf_widen)
  then show "sim_val_wf (eval_unsigned_choice m w a b)" "known (eval_unsigned_choice m w a b)"
    "width (eval_unsigned_choice m w a b) = w"
    "uval (eval_unsigned_choice m w a b) = (if m then min (uval a) (uval b) else max (uval a) (uval b))"
    using c(2) by (auto simp: eq sim_val_mask_idem c_def min_def max_def)
qed

lemma sval_sign: "sim_val_wf v \<Longrightarrow> 0 < width v \<Longrightarrow> sval v < 0 \<longleftrightarrow> bit (uval v) (nat (width v - 1))"
  using uval_less [of v] by (auto simp: sval_def zless_nat_eq_int_zless of_nat_less_iff [symmetric])

lemma sign_get_bit:
  "sim_val_wf v \<Longrightarrow> 0 < width v \<Longrightarrow> sim_val_get_bit v (width v - 1) \<longleftrightarrow> sval v < 0"
  using sim_val_get_bit_eq [of v "nat (width v - 1)"] by (simp add: sval_sign)

lemma sval_resize:
  assumes "sim_val_wf v" "width v = w"
  shows "sim_val_mask (v\<lparr>width := w\<rparr>) = v"
proof -
  have "v\<lparr>width := w\<rparr> = v" using assms(2) by (cases v) simp
  then show ?thesis using sim_val_mask_idem [OF assms(1)] by simp
qed

lemma sval_split:
  "sim_val_wf v \<Longrightarrow> 0 < width v \<Longrightarrow> sval v = int (uval v) - (if sval v < 0 then 2 ^ nat (width v) else 0)"
  by (simp add: sval_sign) (simp add: sval_def)

lemma eval_signed_choice_known:
  assumes "sim_val_wf a" "sim_val_wf b" "known a" "known b" "0 < width a" "0 < width b"
  defines "w \<equiv> max_width a b"
  shows "sim_val_wf (eval_signed_choice m w a b)" "width (eval_signed_choice m w a b) = w"
    "sval (eval_signed_choice m w a b) = (if m then min (sval a) (sval b) else max (sval a) (sval b))"
proof -
  define a' b' where "a' = sim_val_sext a w" and "b' = sim_val_sext b w"
  have w: "0 < w" "w \<le> 256" "width a \<le> w" "width b \<le> w"
    using max_width_bounds [OF assms(1,2)] assms(5) by (auto simp: w_def)
  have wf: "sim_val_wf a'" "sim_val_wf b'" "width a' = w" "width b' = w"
    using sim_val_sext_bits(1,2) [OF assms(1,5) w(2)] sim_val_sext_bits(1,2) [OF assms(2,6) w(2)] w
    by (auto simp: a'_def b'_def)
  have kb: "sim_bit v n = B0 \<or> sim_bit v n = B1" if "known v" for v n
    using that by (simp add: sim_bit_known)
  have kn: "known (sim_val_sext v w)" if "sim_val_wf v" "known v" "0 < width v" for v
  proof -
    note S = sim_val_sext_bits [OF that(1,3) w(2)]
    have "sim_bit (sim_val_sext v w) n = B0 \<or> sim_bit (sim_val_sext v w) n = B1" for n
      using kb [OF that(2)] by (auto simp: S(3) sign_fill_def)
    then show ?thesis using sim_bit_planes(2,3) [OF S(1)] unfolding known_def by (metis bit4.distinct)
  qed
  have k: "known a'" "known b'" using kn assms by (auto simp: a'_def b'_def)
  have s: "sval a' = sval a" "sval b' = sval b"
    using sval_sext assms w by (auto simp: a'_def b'_def)
  have cmp: "uval a' < uval b' \<longleftrightarrow> sval a < sval b" if "(sval a < 0) = (sval b < 0)"
  proof -
    have "sval a = int (uval a') - (if sval a < 0 then 2 ^ nat w else 0)"
      "sval b = int (uval b') - (if sval b < 0 then 2 ^ nat w else 0)"
      using sval_split [OF wf(1)] sval_split [OF wf(2)] w(1) by (simp_all only: s wf)
    then show ?thesis using that by (cases "sval a < 0") auto
  qed
  have lt: "sim_val_is_true (sim_val_lt a' b') = 1 \<longleftrightarrow> uval a' < uval b'"
    using wf k by (simp add: sim_val_compare sim_val_is_true_eq cmp_result_simps)
  define pick where "pick = (if (sval a < 0) \<noteq> (sval b < 0) then (if m then sval a < 0 else \<not> sval a < 0)
       else (if m then sval a < sval b else \<not> sval a < sval b))"
  have pick: "pick \<longleftrightarrow> (if m then sval a < sval b else \<not> sval a < sval b)"
    by (auto simp: pick_def)
  have eq: "eval_signed_choice m w a b = (if pick then a' else b')"
    unfolding eval_signed_choice_def sim_value_signed_choice_def Let_def pick_def
    using assms(1-6) w(1) cmp
    by (simp add: has_xz_iff_known width_or_def sign_get_bit lt max_width_def [symmetric]
        w_def [symmetric] a'_def [symmetric] b'_def [symmetric] sval_resize wf)
  show "sim_val_wf (eval_signed_choice m w a b)" "width (eval_signed_choice m w a b) = w"
    using wf by (auto simp: eq)
  show "sval (eval_signed_choice m w a b) = (if m then min (sval a) (sval b) else max (sval a) (sval b))"
    using pick by (auto simp: eq s)
qed

lemma sim_val_equal_iff:
  assumes "sim_val_wf a" "sim_val_wf b"
  shows "sim_val_equal a b \<longleftrightarrow> a = b"
proof (cases "width a = width b")
  case True
  have "sim_val_equal a b \<longleftrightarrow>
      (\<forall>n. int n < width a \<longrightarrow> wbit (val a) n = wbit (val b) n) \<and>
      (\<forall>n. int n < width a \<longrightarrow> wbit (xmask a) n = wbit (xmask b) n) \<and>
      (\<forall>n. int n < width a \<longrightarrow> wbit (zmask a) n = wbit (zmask b) n)"
    using assms True
    by (simp add: sim_val_equal_def Let_def list_all_words_eq [symmetric] sim_val_wfD list_all_iff ball_conj_distrib)
  also have "\<dots> \<longleftrightarrow> a = b"
  proof (intro iffI; (elim conjE)?)
    assume E: "\<forall>n. int n < width a \<longrightarrow> wbit (val a) n = wbit (val b) n"
      "\<forall>n. int n < width a \<longrightarrow> wbit (xmask a) n = wbit (xmask b) n"
      "\<forall>n. int n < width a \<longrightarrow> wbit (zmask a) n = wbit (zmask b) n"
    show "a = b" by (rule sim_val_eqI [OF assms True]) (simp add: sim_bit_def E)
  qed simp
  finally show ?thesis .
next
  case False
  then show ?thesis by (auto simp: sim_val_equal_def)
qed

lemma known_eqI:
  assumes "sim_val_wf a" "sim_val_wf b" "known a" "known b" "width a = width b" "uval a = uval b"
  shows "a = b"
  by (rule sim_val_eqI [OF assms(1,2,5)]) (simp add: sim_bit_known assms)

lemma eval_abs_known:
  assumes "sim_val_wf v" "known v" "0 < width v" "width v < 256"
  defines "w \<equiv> nat (width v)"
  shows "sim_val_wf (eval_abs (width v + 1) v)" "known (eval_abs (width v + 1) v)"
    "width (eval_abs (width v + 1) v) = width v + 1"
    "uval (eval_abs (width v + 1) v) = nat \<bar>sval v\<bar> + (if sval v = - (2 ^ (w - 1)) then 2 ^ w else 0)"
proof -
  define W where "W = width v + 1"
  define mag where "mag = (if sval v < 0 then sim_val_neg v else v)"
  have N: "sim_val_wf (sim_val_neg v)" "known (sim_val_neg v)" "width (sim_val_neg v) = width v"
    "uval (sim_val_neg v) = (2 ^ w - uval v) mod 2 ^ w"
    using sim_val_neg_known [OF assms(1-3)] by (simp_all add: w_def)
  have u: "uval v < 2 ^ w" using uval_less [OF assms(1)] by (simp add: w_def)
  have sv: "sval v = int (uval v) - (if sval v < 0 then 2 ^ w else 0)"
    unfolding w_def by (rule sval_split [OF assms(1,3)])
  have mag: "sim_val_wf mag" "known mag" "width mag = width v" "uval mag = nat \<bar>sval v\<bar>"
  proof -
    show "sim_val_wf mag" "known mag" "width mag = width v" using assms(1,2) N by (simp_all add: mag_def)
    show "uval mag = nat \<bar>sval v\<bar>"
    proof (cases "sval v < 0")
      case True
      then have nz: "uval v \<noteq> 0" by (intro notI) (simp add: sval_def)
      have "int (uval mag) = 2 ^ w - int (uval v)"
        using True nz u by (simp add: mag_def N of_nat_diff)
      then show ?thesis using True sv by simp
    next
      case False
      then show ?thesis using sv by (simp add: mag_def)
    qed
  qed
  define m1 where "m1 = sim_val_zext mag W"
  have Wb: "W \<le> 256" using assms(4) by (simp add: W_def)
  have m1: "sim_val_wf m1" "known m1" "width m1 = W" "uval m1 = nat \<bar>sval v\<bar>"
    using sim_val_zext_bits [OF mag(1) Wb] mag by (simp_all add: m1_def W_def)
  define mn where "mn = sim_val_set_bit (sim_val_zero (width v)) (width v - 1) True"
  have mn: "sim_val_wf mn" "known mn" "width mn = width v" "uval mn = 2 ^ (w - 1)"
  proof -
    have S: "sim_val_wf mn" "known mn" "bit (uval mn) n \<longleftrightarrow> int n = width v - 1 \<and> int n < width v" for n
      using set_bit_true_bits [of "sim_val_zero (width v)" "width v - 1"] assms by (auto simp: mn_def)
    show "sim_val_wf mn" "known mn" "width mn = width v" using S by (simp_all add: mn_def)
    show "uval mn = 2 ^ (w - 1)"
      by (rule bit_eqI) (use assms(3) in \<open>auto simp: S(3) bit_exp_iff w_def\<close>)
  qed
  have half: "(2 :: int) ^ w = 2 * 2 ^ (w - 1)" using assms(3) by (cases w) (auto simp: w_def)
  have most: "sval v < 0 \<and> sim_val_equal v mn \<longleftrightarrow> sval v = - (2 ^ (w - 1))"
  proof -
    have "sim_val_equal v mn \<longleftrightarrow> uval v = 2 ^ (w - 1)"
      unfolding sim_val_equal_iff [OF assms(1) mn(1)]
      using known_eqI [OF assms(1) mn(1) assms(2) mn(2)] mn by auto
    moreover have "uval v = 2 ^ (w - 1) \<longleftrightarrow> int (uval v) = 2 ^ (w - 1)" by auto
    ultimately show ?thesis using sv half by auto
  qed
  have eq: "eval_abs W v = (if sval v = - (2 ^ (w - 1)) then sim_val_set_bit m1 (int w) True else m1)"
  proof -
    have 1: "sim_val_mask ((sim_val_zext (if sval v < 0 then sim_val_neg v else v) W)\<lparr>width := W\<rparr>) = m1"
      using sval_resize [OF m1(1,3)] by (simp only: m1_def mag_def)
    have 2: "sim_val_wf (sim_val_set_bit m1 (int w) True)"
      using set_bit_true_bits(1) [OF m1(1,2), of "int w"] by simp
    have 3: "width v < W" "0 < W" "W - 1 = int w" using assms(3) by (simp_all add: W_def w_def)
    have "sim_value_abs v W =
        sim_val_mask (if sval v < 0 \<and> sim_val_equal v mn then sim_val_set_bit m1 (int w) True else m1)"
      unfolding sim_value_abs_def Let_def
      using assms(1,3) 1 3
      by (simp add: sign_get_bit mn_def [symmetric] sim_val_mask_idem cong del: if_weak_cong)
    also have "\<dots> = (if sval v = - (2 ^ (w - 1)) then sim_val_set_bit m1 (int w) True else m1)"
      unfolding most using 2 m1(1) by (simp add: sim_val_mask_idem)
    finally show ?thesis using assms(1,2) 3 by (simp add: eval_abs_def has_xz_iff_known width_or_def)
  qed
  have S: "sim_val_wf (sim_val_set_bit m1 (int w) True)" "known (sim_val_set_bit m1 (int w) True)"
    using set_bit_true_bits(1,2) [OF m1(1,2), of "int w"] by simp_all
  show "sim_val_wf (eval_abs (width v + 1) v)" "known (eval_abs (width v + 1) v)"
    "width (eval_abs (width v + 1) v) = width v + 1"
    using S m1 by (auto simp: eq W_def [symmetric])
  have le: "nat \<bar>sval v\<bar> < 2 ^ w" using uval_less [OF mag(1)] mag by (simp add: w_def)
  show "uval (eval_abs (width v + 1) v) = nat \<bar>sval v\<bar> + (if sval v = - (2 ^ (w - 1)) then 2 ^ w else 0)"
  proof (cases "sval v = - (2 ^ (w - 1))")
    case True
    have "int w < width m1" using m1(3) assms(3) by (simp add: W_def w_def)
    moreover have "\<not> bit (uval m1) w" using bit_less_exp [of "uval m1" w w] le m1(4) by auto
    ultimately show ?thesis
      using uval_set_bit_new [OF m1(1,2), of w True] True m1(4) by (simp add: eq W_def [symmetric])
  next
    case False
    then show ?thesis using m1(4) by (simp add: eq W_def [symmetric])
  qed
qed

section \<open>Part selects with a computed position\<close>

lemma eval_gslice_bits:
  assumes "sim_val_wf src" "sim_val_wf idx" "0 < ew" "ew \<le> 256"
  shows "sim_val_wf (eval_gslice w src idx ew)" "width (eval_gslice w src idx ew) = ew"
    and "known idx \<Longrightarrow> int (uval idx) * ew + ew \<le> width src \<Longrightarrow> int n < ew \<Longrightarrow>
         sim_bit (eval_gslice w src idx ew) n = sim_bit src (uval idx * nat ew + n)"
proof -
  have S: "sim_val_wf (sim_val_slice src (lo + ew - 1) lo)" "width (sim_val_slice src (lo + ew - 1) lo) = ew"
    "int n < ew \<Longrightarrow> sim_bit (sim_val_slice src (lo + ew - 1) lo) n = sim_bit src (nat lo + n)" if "0 \<le> lo" for lo n
    using sim_val_slice_bits [OF assms(1) that, of "lo + ew - 1"] assms(3,4) by simp_all
  show "sim_val_wf (eval_gslice w src idx ew)" "width (eval_gslice w src idx ew) = ew"
    using S assms(3,4) by (auto simp: eval_gslice_def Let_def split: option.splits)
  assume k: "known idx" "int (uval idx) * ew + ew \<le> width src" and n: "int n < ew"
  have "int (uval idx) * 1 \<le> int (uval idx) * ew" using assms(3) by (intro mult_left_mono) auto
  then have "int (uval idx) < 256" using k(2) assms(3) sim_val_wfD(2) [OF assms(1)] by linarith
  then have small: "uval idx < 2 ^ 31" "\<not> int (uval idx) * ew < 0" using assms(3) by (simp_all add: not_less)
  have "eval_gslice w src idx ew =
      sim_val_slice src (int (uval idx) * ew + ew - 1) (int (uval idx) * ew)"
    using k assms to_index_eq [OF assms(2) k(1)] small
    by (simp add: eval_gslice_def has_xz_iff_known Let_def)
  moreover have "nat (int (uval idx) * ew) = uval idx * nat ew" using assms(3) by (simp add: nat_mult_distrib)
  ultimately show "sim_bit (eval_gslice w src idx ew) n = sim_bit src (uval idx * nat ew + n)"
    using S(3) [OF _ n, of "int (uval idx) * ew"] assms(3) by simp
qed

text \<open>The mask and the value that \<open>sslice\<close> shifts into place.\<close>

lemma shl_at_bits:
  assumes "sim_val_wf v" "known v" "width v = w" "0 \<le> lo" "lo < 256"
  defines "r \<equiv> sim_val_shl v (sim_val_from_uint (word_of_int lo) 32)"
  shows "sim_val_wf r" "known r" "width r = w"
    "bit (uval r) n \<longleftrightarrow> int n < w \<and> lo \<le> int n \<and> bit (uval v) (nat (int n - lo))"
proof -
  let ?s = "sim_val_from_uint (word_of_int lo) 32"
  obtain k where k: "lo = int k" "k < 256" using assms(4,5) by (metis nonneg_int_cases of_nat_less_iff of_nat_numeral)
  have "unat (word_of_int lo :: u64) = k"
    using k by (simp add: unat_of_nat take_bit_nat_eq_self)
  then have s: "sim_val_wf ?s" "known ?s" "uval ?s = k" using k(2) by (simp_all add: uval_from_uint)
  note R = sim_val_shl_known [OF assms(1) s(1) assms(2) s(2)]
  show "sim_val_wf r" "known r" "width r = w" using R assms(3) by (simp_all add: r_def)
  have "0 \<le> w" using sim_val_wfD(1) [OF assms(1)] assms(3) by simp
  have "uval r = take_bit (nat w) (push_bit k (uval v))"
    using R(4) s(3) assms(3) by (simp add: r_def take_bit_eq_mod push_bit_eq_mult)
  then show "bit (uval r) n \<longleftrightarrow> int n < w \<and> lo \<le> int n \<and> bit (uval v) (nat (int n - lo))"
    using \<open>0 \<le> w\<close> by (auto simp: bit_take_bit_iff bit_push_bit_iff k nat_diff_distrib)
qed

lemma eval_sslice_wf:
  assumes "sim_val_wf src" "sim_val_wf idx" "sim_val_wf v" "0 < ew"
  shows "sim_val_wf (eval_sslice src idx v ew) \<and> width (eval_sslice src idx v ew) = width src"
proof -
  have w: "0 \<le> width src" "width src \<le> 256" using assms(1) by (simp_all add: sim_val_wfD)
  have in_range: "sim_val_wf (sim_val_or (sim_val_and src (sim_val_not (sim_val_shl (sim_val_zext (sim_val_ones ew) (width src)) s)))
        (sim_val_shl (sim_val_zext (sim_val_slice v (ew - 1) 0) (width src)) s)) \<and>
      width (sim_val_or (sim_val_and src (sim_val_not (sim_val_shl (sim_val_zext (sim_val_ones ew) (width src)) s)))
        (sim_val_shl (sim_val_zext (sim_val_slice v (ew - 1) 0) (width src)) s)) = width src"
    if "ew \<le> width src" "sim_val_wf s" for s
  proof -
    have e: "ew \<le> 256" using that w by simp
    have a: "sim_val_wf (sim_val_zext (sim_val_slice v (ew - 1) 0) (width src))"
      "width (sim_val_zext (sim_val_slice v (ew - 1) 0) (width src)) = width src"
      "sim_val_wf (sim_val_zext (sim_val_ones ew) (width src))"
      "width (sim_val_zext (sim_val_ones ew) (width src)) = width src"
      using sim_val_slice_bits [OF assms(3), of 0 "ew - 1"] assms(4) e that w sim_val_zext_bits by simp_all
    have b: "sim_val_wf (sim_val_shl x s)" "width (sim_val_shl x s) = width x" if "sim_val_wf x" for x
      using shl_op.wf_f shl_op.width_f that \<open>sim_val_wf s\<close> by simp_all
    show ?thesis
      using a b assms(1) by (simp add: sim_val_or_bits sim_val_and_bits sim_val_not_bits max_width_def)
  qed
  show ?thesis
    using in_range assms w by (auto simp: eval_sslice_def Let_def split: option.splits)
qed

lemma eval_sslice_bits:
  assumes "sim_val_wf src" "sim_val_wf idx" "sim_val_wf v" "known src" "known idx" "known v"
    and "0 < ew" "int (uval idx) + ew \<le> width src" "int n < width src"
  shows "sim_bit (eval_sslice src idx v ew) n =
         (if uval idx \<le> n \<and> int n < int (uval idx) + ew then sim_bit v (n - uval idx) else sim_bit src n)"
proof -
  define lo where "lo = int (uval idx)"
  have w: "0 \<le> width src" "width src \<le> 256" using assms(1) by (simp_all add: sim_val_wfD)
  have ew: "ew \<le> width src" "ew \<le> 256" "0 \<le> lo" "lo < 256" using assms(7,8) w by (simp_all add: lo_def)
  define sl where "sl = sim_val_slice v (ew - 1) 0"
  have sl: "sim_val_wf sl" "width sl = ew" "int m < ew \<Longrightarrow> sim_bit sl m = sim_bit v m" for m
    using sim_val_slice_bits [OF assms(3), of 0 "ew - 1"] assms(7) ew by (simp_all add: sl_def)
  have ksl: "known sl"
  proof -
    have "sim_bit sl m = B0 \<or> sim_bit sl m = B1" for m
      using sl(3) [of m] sim_bit_beyond [OF sl(1), of m] sl(2) assms(6) by (cases "int m < ew") (auto simp: sim_bit_known)
    then show ?thesis using sim_bit_planes(2,3) [OF sl(1)] unfolding known_def by (metis bit4.distinct)
  qed
  define a where "a = sim_val_zext sl (width src)"
  have a: "sim_val_wf a" "known a" "width a = width src" "uval a = uval sl"
    using sim_val_zext_bits [OF sl(1) w(2)] ksl sl(2) ew(1) by (simp_all add: a_def)
  define b where "b = sim_val_zext (sim_val_ones ew) (width src)"
  have b: "sim_val_wf b" "known b" "width b = width src" "uval b = 2 ^ nat ew - 1"
    using sim_val_zext_bits [of "sim_val_ones ew", OF _ w(2)] ew assms(7) by (simp_all add: b_def uval_ones)
  define s where "s = sim_val_from_uint (word_of_int lo) 32"
  note A = shl_at_bits [OF a(1-3) ew(3,4), folded s_def]
  note B = shl_at_bits [OF b(1-3) ew(3,4), folded s_def]
  have small: "uval idx < 2 ^ 31" using ew(4) by (simp add: lo_def)
  have eq: "eval_sslice src idx v ew =
      sim_val_or (sim_val_and src (sim_val_not (sim_val_shl b s))) (sim_val_shl a s)"
    using assms(5,8) to_index_eq [OF assms(2,5)] assms(2) small
    by (simp add: eval_sslice_def has_xz_iff_known Let_def a_def b_def s_def sl_def lo_def)
  have bb: "bit (uval b) m \<longleftrightarrow> int m < ew" for m
    using assms(7) unfolding b(4) mask_eq_exp_minus_1 [symmetric] by (auto simp: bit_mask_iff)
  have sv: "bit (uval sl) m \<longleftrightarrow> int m < ew \<and> bit (uval v) m" for m
    using sl(3) [of m] sim_bit_beyond [OF sl(1), of m] sl(2) assms(6) ksl
    by (cases "int m < ew") (auto simp: sim_bit_known split: if_splits)
  have N: "sim_val_wf (sim_val_not (sim_val_shl b s))" "width (sim_val_not (sim_val_shl b s)) = width src"
    "sim_bit (sim_val_not (sim_val_shl b s)) n = not4 (sim_bit (sim_val_shl b s) n)"
    using sim_val_not_bits [OF B(1)] B(3) assms(9) by simp_all
  have M: "max_width src (sim_val_not (sim_val_shl b s)) = width src"
    by (simp add: max_width_def N)
  note D = sim_val_and_bits [OF assms(1) N(1), unfolded M]
  have "max_width (sim_val_and src (sim_val_not (sim_val_shl b s))) (sim_val_shl a s) = width src"
    by (simp add: max_width_def D(2) A(3))
  then have "sim_bit (eval_sslice src idx v ew) n =
      or4 (and4 (sim_bit src n) (not4 (sim_bit (sim_val_shl b s) n))) (sim_bit (sim_val_shl a s) n)"
    using sim_val_or_bits(3) [OF D(1) A(1), of n] D(3) [OF assms(9)] assms(9) N(3) by (simp add: eq)
  moreover have "nat (int n - lo) = n - uval idx" by (simp add: lo_def)
  ultimately show ?thesis
    using assms(4,6,9) A(2) B(2)
    by (auto simp: sim_bit_known A(4) B(4) a(4) bb sv lo_def)
qed

end
