(* ===== verification/Sim_Eval_Type.thy ===== *)
theory Sim_Eval_Type
  imports Sim_Eval_Intrinsics
begin

text \<open>
  The width discipline of expressions. \<open>static_width\<close> computes, from the declared widths of
  signals and memories alone, the width of the value an expression evaluates to, and rejects
  the expressions on which the evaluator would build a malformed value: a bitwise operator
  annotated with a width below its operands' (its result is not masked), a part select out of
  order, a width above 256 bits. The contract of an operator, \<open>typed_op\<close>, is that it
  follows this discipline and is monotone in the information order.
\<close>

section \<open>Static widths\<close>

text \<open>Widths of results that are masked, and of results that are not.\<close>

definition masked_width :: "int \<Rightarrow> int \<Rightarrow> int option" where
  "masked_width w d = (if w \<le> 256 then Some (width_or w d) else None)"

definition unmasked_width :: "int \<Rightarrow> int \<Rightarrow> int option" where
  "unmasked_width w d = (if w \<le> 256 \<and> (w \<le> 0 \<or> d \<le> w) then Some (width_or w d) else None)"

definition slice_width :: "int \<Rightarrow> int \<Rightarrow> int option" where
  "slice_width msb lsb = (if 0 \<le> lsb \<and> lsb \<le> msb \<and> msb - lsb < 256 then Some (msb - lsb + 1) else None)"

definition unary_width :: "IR_UnaryKind \<Rightarrow> int \<Rightarrow> int \<Rightarrow> int option" where
  "unary_width k w a = (case k of EXPR_LOGICAL_NOT \<Rightarrow> Some 1 | _ \<Rightarrow> unmasked_width w a)"

definition binary_width :: "IR_BinaryKind \<Rightarrow> int \<Rightarrow> int \<Rightarrow> int \<Rightarrow> int option" where
  "binary_width k w a b =
     (if k \<in> {EXPR_BINARY_ADD, EXPR_BINARY_SUB, EXPR_BINARY_MUL, EXPR_BINARY_DIV, EXPR_BINARY_MOD,
              EXPR_INTRINSIC_USUB, EXPR_INTRINSIC_SSUB} then masked_width w (max a b)
      else if k \<in> {EXPR_BINARY_AND, EXPR_BINARY_OR, EXPR_BINARY_XOR} then unmasked_width w (max a b)
      else if k \<in> {EXPR_BINARY_SHL, EXPR_BINARY_SHR, EXPR_BINARY_ASHR} then masked_width w a
      else if k \<in> {EXPR_INTRINSIC_UMIN, EXPR_INTRINSIC_UMAX} then masked_width w 1
      else if k \<in> {EXPR_INTRINSIC_SMIN, EXPR_INTRINSIC_SMAX}
      then (if 0 < a \<and> 0 < b then masked_width w 1 else None)
      else Some 1)"

definition intrinsic_width :: "IR_IntrinsicKind \<Rightarrow> int \<Rightarrow> int \<Rightarrow> int \<Rightarrow> int \<Rightarrow> int option" where
  "intrinsic_width k w a b ew =
     (if k \<in> {EXPR_INTRINSIC_UADD, EXPR_INTRINSIC_SADD, EXPR_INTRINSIC_UMUL, EXPR_INTRINSIC_SMUL}
      then masked_width w (max a b)
      else if k = EXPR_INTRINSIC_SBIT then Some a
      else if k = EXPR_INTRINSIC_GSLICE
      then (let e = (if ew \<le> 0 then width_or w 1 else ew) in if e \<le> 256 then Some e else None)
      else if k = EXPR_INTRINSIC_SSLICE then (if 0 < ew then Some a else None)
      else if k \<in> {EXPR_INTRINSIC_OH2B, EXPR_INTRINSIC_B2OH, EXPR_INTRINSIC_PRIENC, EXPR_INTRINSIC_LZC,
                   EXPR_INTRINSIC_POPCOUNT} then masked_width w 1
      else if k = EXPR_INTRINSIC_ABS then (if 0 < a then masked_width w 1 else None)
      else if k = EXPR_INTRINSIC_REVERSE then (if 0 < a \<and> w = a then Some a else None)
      else if k = EXPR_INTRINSIC_BSWAP then (if 0 < a \<and> w = a \<and> 8 dvd a then Some a else None)
      else if k = EXPR_INTRINSIC_GBIT then Some 1
      else (if 0 < a then Some 1 else None))"

text \<open>The declared width of a signal and of a memory's words, as the context stores them.\<close>

definition signal_width_of :: "SimFrame \<Rightarrow> int \<Rightarrow> int option" where
  "signal_width_of ctx i = map_option (\<lambda>k. width (current (signals ctx ! k))) (sim_ctx_lookup ctx i)"

definition memory_width_of :: "SimFrame \<Rightarrow> string \<Rightarrow> int option" where
  "memory_width_of ctx m = map_option (\<lambda>k. word_width (memories ctx ! k)) (sim_ctx_lookup_mem ctx m)"

fun static_width :: "SimFrame \<Rightarrow> IR_Expr \<Rightarrow> int option"
and static_widths :: "SimFrame \<Rightarrow> nat \<Rightarrow> IR_Expr list \<Rightarrow> int list option" where
  "static_width ctx EXPR_NULL = Some 1"
| "static_width ctx (EXPR_LITERAL w l) =
     (if 0 \<le> lit_width l \<and> lit_width l \<le> 256 \<and> w \<le> 256
      then Some (if lit_width l = 0 then width_or w 1 else lit_width l) else None)"
| "static_width ctx (EXPR_SIGNAL_REF w i) =
     (case signal_width_of ctx i of None \<Rightarrow> masked_width w 1 | Some n \<Rightarrow> Some n)"
| "static_width ctx (EXPR_UNARY k w e) = Option.bind (static_width ctx e) (unary_width k w)"
| "static_width ctx (EXPR_BINARY k w l r) =
     Option.bind (static_width ctx l) (\<lambda>a. Option.bind (static_width ctx r) (binary_width k w a))"
| "static_width ctx (EXPR_TERNARY w c t f) =
     (case (static_width ctx c, static_width ctx t, static_width ctx f) of
        (Some _, Some a, Some b) \<Rightarrow> if a = b then Some a else None
      | _ \<Rightarrow> None)"
| "static_width ctx (EXPR_CONCAT w es) =
     map_option (\<lambda>ws. min 256 (sum_list ws)) (static_widths ctx 64 es)"
| "static_width ctx (EXPR_SLICE w i base msb lsb) =
     (if base \<noteq> EXPR_NULL then Option.bind (static_width ctx base) (\<lambda>_. slice_width msb lsb)
      else case signal_width_of ctx i of None \<Rightarrow> masked_width w 1 | Some _ \<Rightarrow> slice_width msb lsb)"
| "static_width ctx (EXPR_MEM_READ w m addr) =
     (case memory_width_of ctx m of None \<Rightarrow> masked_width w 1
      | Some n \<Rightarrow> map_option (\<lambda>_. n) (static_width ctx addr))"
| "static_width ctx (EXPR_INTRINSIC k w src idx v ew) =
     Option.bind (static_width ctx src) (\<lambda>a.
       Option.bind (if reads_index k then static_width ctx idx else Some 1) (\<lambda>b.
         Option.bind (if reads_value k then static_width ctx v else Some 1) (\<lambda>_.
           intrinsic_width k w a b ew)))"
| "static_widths ctx n [] = Some []"
| "static_widths ctx 0 (e # es) = Some []"
| "static_widths ctx (Suc n) (e # es) =
     Option.bind (static_width ctx e) (\<lambda>a. map_option (\<lambda>ws. a # ws) (static_widths ctx n es))"

section \<open>Contracts of operators\<close>

text \<open>\<open>typed v w\<close>: a well-formed value of width \<open>w\<close>.\<close>

definition typed :: "SimValue \<Rightarrow> int \<Rightarrow> bool" where
  "typed v w \<longleftrightarrow> sim_val_wf v \<and> width v = w"

definition refines :: "SimValue \<Rightarrow> SimValue \<Rightarrow> bool" where
  "refines v' v \<longleftrightarrow> sim_val_wf v' \<and> sim_val_wf v \<and> resolves v' v"

locale typed_op1 =
  fixes f :: "SimValue \<Rightarrow> SimValue" and ty :: "int \<Rightarrow> int option"
  assumes f_typed: "sim_val_wf a \<Longrightarrow> ty (width a) = Some r \<Longrightarrow> typed (f a) r"
    and f_refines: "refines a' a \<Longrightarrow> ty (width a) = Some r \<Longrightarrow> refines (f a') (f a)"

locale typed_op2 =
  fixes f :: "SimValue \<Rightarrow> SimValue \<Rightarrow> SimValue" and ty :: "int \<Rightarrow> int \<Rightarrow> int option"
  assumes f_typed: "sim_val_wf a \<Longrightarrow> sim_val_wf b \<Longrightarrow> ty (width a) (width b) = Some r \<Longrightarrow> typed (f a b) r"
    and f_refines: "refines a' a \<Longrightarrow> refines b' b \<Longrightarrow> ty (width a) (width b) = Some r \<Longrightarrow>
      refines (f a' b') (f a b)"

locale typed_op3 =
  fixes f :: "SimValue \<Rightarrow> SimValue \<Rightarrow> SimValue \<Rightarrow> SimValue" and ty :: "int \<Rightarrow> int \<Rightarrow> int option"
  assumes f_typed: "sim_val_wf a \<Longrightarrow> sim_val_wf b \<Longrightarrow> sim_val_wf c \<Longrightarrow> ty (width a) (width b) = Some r \<Longrightarrow>
      typed (f a b c) r"
    and f_refines: "refines a' a \<Longrightarrow> refines b' b \<Longrightarrow> refines c' c \<Longrightarrow> ty (width a) (width b) = Some r \<Longrightarrow>
      refines (f a' b' c') (f a b c)"

section \<open>Refinement of values\<close>

lemma refinesD:
  assumes "refines a' a"
  shows "sim_val_wf a'" "sim_val_wf a" "resolves a' a" "width a' = width a" "sim_bit a' n \<le> sim_bit a n"
  using assms by (simp_all add: refines_def resolves_def)

lemma refines_refl: "sim_val_wf a \<Longrightarrow> refines a a"
  by (simp add: refines_def)

lemma refinesI:
  assumes "sim_val_wf a'" "sim_val_wf a" "width a' = width a"
    and "\<And>n. int n < width a \<Longrightarrow> sim_bit a' n \<le> sim_bit a n"
  shows "refines a' a"
  using assms resolvesI [OF assms] by (simp add: refines_def)

lemma refines_known: "refines a' a \<Longrightarrow> known a \<Longrightarrow> a' = a"
  using resolves_known by (simp add: refines_def)

text \<open>An operation that answers all-x on unknown operands is monotone.\<close>

lemma strict_refines:
  assumes "refines a' a" "\<not> known a \<Longrightarrow> f a = sim_val_all_x w" "typed (f a') w" "typed (f a) w"
  shows "refines (f a') (f a)"
proof (cases "known a")
  case True
  then show ?thesis using refines_known [OF assms(1)] assms(3) by (simp add: refines_refl typed_def)
next
  case False
  have "w \<le> 256" using assms(4) by (auto simp: typed_def dest: sim_val_wfD(2))
  then show ?thesis
    using assms False resolves_all_x [of "f a'" w] by (simp add: refines_def typed_def)
qed

lemma strict_refines2:
  assumes "refines a' a" "refines b' b" "\<not> (known a \<and> known b) \<Longrightarrow> f a b = sim_val_all_x w"
    and "typed (f a' b') w" "typed (f a b) w"
  shows "refines (f a' b') (f a b)"
proof (cases "known a \<and> known b")
  case True
  then show ?thesis
    using refines_known [OF assms(1)] refines_known [OF assms(2)] assms(4) by (simp add: refines_refl typed_def)
next
  case False
  have "w \<le> 256" using assms(5) by (auto simp: typed_def dest: sim_val_wfD(2))
  then show ?thesis
    using assms False resolves_all_x [of "f a' b'" w] by (simp add: refines_def typed_def)
qed

lemma sim_bit_mask_resize:
  assumes "sim_val_wf v" "w \<le> 256"
  shows "sim_bit (sim_val_mask (v\<lparr>width := w\<rparr>)) n = (if int n < w then sim_bit v n else B0)"
proof -
  have s: "shaped (v\<lparr>width := w\<rparr>)" using assms by (rule resize_shaped)
  show ?thesis using wbit_sim_val_mask [OF s, of n] by (simp add: sim_bit_def)
qed

lemma refines_mask_width:
  assumes "refines a' a" "0 \<le> w" "w \<le> 256"
  shows "refines (sim_val_mask (a'\<lparr>width := w\<rparr>)) (sim_val_mask (a\<lparr>width := w\<rparr>))"
  using refinesD [OF assms(1)] assms(2,3)
  by (intro refinesI) (simp_all add: sim_val_wf_resize sim_bit_mask_resize)

lemma refines_set_width_masked:
  assumes "refines a' a" "w \<le> 256"
  shows "refines (sim_val_mask (set_width w a')) (sim_val_mask (set_width w a))"
  using refines_mask_width [OF assms(1), of "width_or w (width a)"] refinesD(4) [OF assms(1)]
    width_or_range [of "width a" w] assms(2) sim_val_wfD(1,2) [OF refinesD(2) [OF assms(1)]]
  by (simp add: set_width_def)

lemma sim_bit_width [simp]: "sim_bit (v\<lparr>width := w\<rparr>) n = sim_bit v n"
  by (simp add: sim_bit_def)

lemma refines_set_width:
  assumes "refines a' a" "w \<le> 256" "w \<le> 0 \<or> width a \<le> w"
  shows "refines (set_width w a') (set_width w a)"
  using refinesD [OF assms(1)] assms(2,3) wf_set_width
  by (simp add: refines_def resolves_def) (simp add: set_width_def)

lemma x_sound_refines:
  assumes "x_sound f" "refines a' a" "refines b' b"
  shows "refines (f a' b') (f a b)"
  using assms(2,3) x_sound.f_wf [OF assms(1)] x_sound.f_mono [OF assms(1)] by (simp add: refines_def)

section \<open>Operators follow their contracts\<close>

lemma typed_masked:
  assumes "sim_val_wf v" "masked_width w (width v) = Some r"
  shows "typed (sim_val_mask (set_width w v)) r"
  using assms wf_mask_set_width [OF assms(1)] by (auto simp: typed_def masked_width_def split: if_splits)

lemma typed_unmasked:
  assumes "sim_val_wf v" "unmasked_width w (width v) = Some r"
  shows "typed (set_width w v) r"
  using assms wf_set_width [OF assms(1)] by (auto simp: typed_def unmasked_width_def split: if_splits)

lemma typed_1: "typed (cmp_result t) 1" "typed cmp_x 1"
  by (simp_all add: typed_def cmp_result_simps cmp_x_simps)

lemma logical_known:
  "sim_val_wf a \<Longrightarrow> sim_val_logical_not a = (if known a then cmp_result (uval a = 0) else cmp_x)"
  by (simp add: sim_val_logical_not_def sim_val_is_true_eq Let_def)

lemma unary_refines_ops:
  assumes "refines a' a"
  shows "refines (sim_val_not a') (sim_val_not a)" "refines (sim_val_neg a') (sim_val_neg a)"
    "refines (sim_val_logical_not a') (sim_val_logical_not a)"
proof -
  note D = refinesD [OF assms]
  show "refines (sim_val_not a') (sim_val_not a)"
    using D sim_val_not_bits not_mono by (simp add: refines_def)
  show "refines (sim_val_neg a') (sim_val_neg a)"
    by (rule strict_refines [where w = "width a", OF assms])
      (use D wf_neg in \<open>auto simp: typed_def sim_val_neg_def has_xz_iff_known\<close>)
  show "refines (sim_val_logical_not a') (sim_val_logical_not a)"
    by (rule strict_refines [where w = 1, OF assms])
      (use D in \<open>auto simp: logical_known typed_1 cmp_x_all_x intro: typed_1(2) [unfolded cmp_x_all_x]\<close>)
qed

interpretation unary: typed_op1 "eval_unary k w" "unary_width k w" for k w
proof
  fix a r assume a: "sim_val_wf a" "unary_width k w (width a) = Some r"
  show "typed (eval_unary k w a) r"
    using a wf_neg sim_val_not_bits
    by (cases k) (auto simp: eval_unary_def unary_width_def logical_known intro!: typed_unmasked typed_1)
next
  fix a' a r assume a: "refines a' a" "unary_width k w (width a) = Some r"
  note D = refinesD [OF a(1)]
  have u: "k \<noteq> EXPR_LOGICAL_NOT \<Longrightarrow> w \<le> 256 \<and> (w \<le> 0 \<or> width a \<le> w)"
    using a(2) by (cases k) (auto simp: unary_width_def unmasked_width_def split: if_splits)
  note n = unary_refines_ops(1) [OF a(1)] and m = unary_refines_ops(2) [OF a(1)] and l = unary_refines_ops(3) [OF a(1)]
  show "refines (eval_unary k w a') (eval_unary k w a)"
    using refines_set_width [OF n] refines_set_width [OF m] l u
    by (cases k) (auto simp: eval_unary_def sim_val_not_bits D wf_neg)
qed

lemma logical_op_refines:
  assumes "refines a' a" "refines b' b"
  shows "refines (sim_val_logical_and a' b') (sim_val_logical_and a b)"
    "refines (sim_val_logical_or a' b') (sim_val_logical_or a b)"
proof -
  note A = refinesD [OF assms(1)] and B = refinesD [OF assms(2)]
  have ta: "sim_val_is_true a = -1 \<or> sim_val_is_true a' = sim_val_is_true a"
    using refines_known [OF assms(1)] A by (auto simp: sim_val_is_true_eq)
  have tb: "sim_val_is_true b = -1 \<or> sim_val_is_true b' = sim_val_is_true b"
    using refines_known [OF assms(2)] B by (auto simp: sim_val_is_true_eq)
  have x: "refines v cmp_x" if "typed v 1" for v
    using that resolves_all_x [of v 1] typed_1(2) by (simp add: refines_def typed_def cmp_x_all_x)
  have r: "refines (cmp_result t) (cmp_result t)" for t
    by (simp add: refines_refl cmp_result_simps)
  show "refines (sim_val_logical_and a' b') (sim_val_logical_and a b)"
    "refines (sim_val_logical_or a' b') (sim_val_logical_or a b)"
    using ta tb
    by (auto simp: sim_val_logical_and_def sim_val_logical_or_def Let_def x r typed_1)
qed

lemmas strict_refines_ops =
  x_sound_refines [OF add_op.strict.x_sound_axioms] x_sound_refines [OF sub_op.strict.x_sound_axioms]
  x_sound_refines [OF mul_op.strict.x_sound_axioms] x_sound_refines [OF div_op.strict.x_sound_axioms]
  x_sound_refines [OF mod_op.strict.x_sound_axioms] x_sound_refines [OF shl_op.strict.x_sound_axioms]
  x_sound_refines [OF shr_op.strict.x_sound_axioms]

lemmas table_refines_ops =
  x_sound_refines [OF and_op.table.x_sound_axioms] x_sound_refines [OF or_op.table.x_sound_axioms]
  x_sound_refines [OF xor_op.table.x_sound_axioms]

lemmas compare_refines_ops =
  x_sound_refines [OF eq_op.strict.x_sound_axioms] x_sound_refines [OF neq_op.strict.x_sound_axioms]
  x_sound_refines [OF lt_op.strict.x_sound_axioms] x_sound_refines [OF gt_op.strict.x_sound_axioms]
  x_sound_refines [OF lte_op.strict.x_sound_axioms] x_sound_refines [OF gte_op.strict.x_sound_axioms]

lemmas op_wf =
  add_op.wf_f sub_op.wf_f mul_op.wf_f div_op.wf_f mod_op.wf_f shl_op.wf_f shr_op.wf_f wf_ashr(1)
  and_op.wf_f or_op.wf_f xor_op.wf_f eq_op.wf_f neq_op.wf_f lt_op.wf_f gt_op.wf_f lte_op.wf_f gte_op.wf_f

lemmas op_width =
  add_op.width_f sub_op.width_f mul_op.width_f div_op.width_f mod_op.width_f shl_op.width_f shr_op.width_f
  wf_ashr(2) and_op.width_f or_op.width_f xor_op.width_f eq_op.width_f neq_op.width_f lt_op.width_f
  gt_op.width_f lte_op.width_f gte_op.width_f max_width_max

lemma ashr_refines:
  assumes "refines a' a" "refines b' b"
  shows "refines (sim_val_ashr a' b') (sim_val_ashr a b)"
  by (rule strict_refines2 [where w = "width a", OF assms])
    (use refinesD [OF assms(1)] refinesD [OF assms(2)] in \<open>auto simp: sim_val_ashr_xz typed_def wf_ashr\<close>)

lemma typed_logical: "typed (sim_val_logical_and a b) 1" "typed (sim_val_logical_or a b) 1"
  by (simp_all add: sim_val_logical_and_def sim_val_logical_or_def Let_def typed_1)

section \<open>Binary operators\<close>

text \<open>The operation of sim_value.c that an arithmetic, bitwise, shift or comparison kind names.\<close>

lemma arith_typed:
  assumes "sim_val_wf a" "sim_val_wf b" "masked_width w (max (width a) (width b)) = Some r"
  shows "typed (eval_arith k w a b) r" "typed (eval_sub_intrinsic w a b) r"
proof -
  have M: "typed (sim_val_mask (set_width w v)) r" if "sim_val_wf v" "width v = max (width a) (width b)" for v
    using typed_masked [OF that(1)] assms(3) that(2) by simp
  show "typed (eval_arith k w a b) r"
    using assms(1,2) M by (cases k; simp add: eval_arith_def op_wf op_width)
  show "typed (eval_sub_intrinsic w a b) r"
    using assms(1,2) M by (simp add: eval_sub_intrinsic_def op_wf op_width)
qed

lemma arith_refines:
  assumes "refines a' a" "refines b' b" "w \<le> 256"
  shows "refines (eval_arith k w a' b') (eval_arith k w a b)"
    "refines (eval_sub_intrinsic w a' b') (eval_sub_intrinsic w a b)"
  by (cases k; simp add: eval_arith_def strict_refines_ops assms refines_set_width_masked)
    (simp add: eval_sub_intrinsic_def strict_refines_ops assms refines_set_width_masked)

lemma bitwise_typed:
  assumes "sim_val_wf a" "sim_val_wf b" "unmasked_width w (max (width a) (width b)) = Some r"
  shows "typed (eval_bitwise k w a b) r"
proof -
  have "typed (set_width w v) r" if "sim_val_wf v" "width v = max (width a) (width b)" for v
    using typed_unmasked [OF that(1)] assms(3) that(2) by simp
  then show ?thesis
    using assms(1,2) by (cases k; simp add: eval_bitwise_def op_wf op_width)
qed

lemma bitwise_refines:
  assumes "refines a' a" "refines b' b" "unmasked_width w (max (width a) (width b)) = Some r"
  shows "refines (eval_bitwise k w a' b') (eval_bitwise k w a b)"
proof -
  have "refines (set_width w v') (set_width w v)"
    if "refines v' v" "width v = max (width a) (width b)" for v' v
    using refines_set_width [OF that(1)] assms(3) that(2) by (simp add: unmasked_width_def split: if_splits)
  then show ?thesis
    using refinesD [OF assms(1)] refinesD [OF assms(2)]
    by (cases k; simp add: eval_bitwise_def op_width table_refines_ops assms(1,2))
qed

lemma shift_typed:
  assumes "sim_val_wf a" "sim_val_wf b" "masked_width w (width a) = Some r"
  shows "typed (eval_shift k w a b) r"
proof -
  have "typed (sim_val_mask (set_width w v)) r" if "sim_val_wf v" "width v = width a" for v
    using typed_masked [OF that(1)] assms(3) that(2) by simp
  then show ?thesis using assms(1,2) by (cases k; simp add: eval_shift_def op_wf op_width)
qed

lemma shift_refines:
  assumes "refines a' a" "refines b' b" "w \<le> 256"
  shows "refines (eval_shift k w a' b') (eval_shift k w a b)"
  by (cases k; simp add: eval_shift_def strict_refines_ops ashr_refines assms refines_set_width_masked)

lemma compare_typed: "sim_val_wf a \<Longrightarrow> sim_val_wf b \<Longrightarrow> typed (eval_compare k a b) 1"
  by (cases k; simp add: eval_compare_def typed_def op_wf op_width)

lemma compare_refines:
  "refines a' a \<Longrightarrow> refines b' b \<Longrightarrow> refines (eval_compare k a' b') (eval_compare k a b)"
  by (cases k; simp add: eval_compare_def compare_refines_ops)

lemma masked_width_1: "masked_width w 1 = Some r \<Longrightarrow> w \<le> 256 \<and> r = width_or w 1 \<and> 0 < r \<and> r \<le> 256"
  using width_or_1_range [of w] by (auto simp: masked_width_def split: if_splits)

lemma choice_typed:
  assumes "sim_val_wf a" "sim_val_wf b" "masked_width w 1 = Some r"
  shows "typed (eval_unsigned_choice m w a b) r"
    "0 < width a \<Longrightarrow> 0 < width b \<Longrightarrow> typed (eval_signed_choice m w a b) r"
proof -
  note r = masked_width_1 [OF assms(3)]
  have M: "typed (sim_val_mask (v\<lparr>width := r\<rparr>)) r" if "sim_val_wf v" for v
    using that r by (simp add: typed_def sim_val_wf_resize)
  have X: "typed (sim_val_all_x r) r" using r by (simp add: typed_def)
  show "typed (eval_unsigned_choice m w a b) r"
    using M assms(1,2) r X by (simp add: eval_unsigned_choice_def Let_def)
  assume w: "0 < width a" "0 < width b"
  have "sim_val_wf (sim_val_sext a (max_width a b))" "sim_val_wf (sim_val_sext b (max_width a b))"
    using w assms(1,2) max_width_bounds(2) [OF assms(1,2)] by (simp_all add: wf_sext)
  then show "typed (eval_signed_choice m w a b) r"
    using M r X
    by (simp add: eval_signed_choice_def sim_value_signed_choice_def Let_def max_width_def [symmetric])
qed

lemma choice_refines:
  assumes "refines a' a" "refines b' b" "masked_width w 1 = Some r"
  shows "refines (eval_unsigned_choice m w a' b') (eval_unsigned_choice m w a b)"
    "0 < width a \<Longrightarrow> 0 < width b \<Longrightarrow> refines (eval_signed_choice m w a' b') (eval_signed_choice m w a b)"
proof -
  note A = refinesD [OF assms(1)] and B = refinesD [OF assms(2)]
  note r = masked_width_1 [OF assms(3)]
  have X: "eval_unsigned_choice m w a b = sim_val_all_x r" "eval_signed_choice m w a b = sim_val_all_x r"
    if "\<not> (known a \<and> known b)"
    using that A(2) B(2) r by (auto simp: eval_unsigned_choice_def eval_signed_choice_def has_xz_iff_known)
  note T = choice_typed [OF A(1) B(1) assms(3)] choice_typed [OF A(2) B(2) assms(3)]
  show "refines (eval_unsigned_choice m w a' b') (eval_unsigned_choice m w a b)"
    by (rule strict_refines2 [where w = r and f = "eval_unsigned_choice m w", OF assms(1,2) X(1) T(1,3)])
  assume "0 < width a" "0 < width b"
  then show "refines (eval_signed_choice m w a' b') (eval_signed_choice m w a b)"
    using A(4) B(4) by (intro strict_refines2 [where w = r and f = "eval_signed_choice m w", OF assms(1,2) X(2)] T) simp_all
qed

lemma masked_width_le: "masked_width w d = Some r \<Longrightarrow> w \<le> 256"
  by (simp add: masked_width_def split: if_splits)

interpretation binary: typed_op2 "eval_binary k w" "binary_width k w" for k w
proof
  fix a b r assume w: "sim_val_wf a" "sim_val_wf b" "binary_width k w (width a) (width b) = Some r"
  show "typed (eval_binary k w a b) r"
    by (cases k; use w in \<open>auto simp: eval_binary_def binary_width_def typed_logical compare_typed
          arith_typed bitwise_typed shift_typed choice_typed split: if_splits\<close>)
next
  fix a' a b' b r
  assume w: "refines a' a" "refines b' b" "binary_width k w (width a) (width b) = Some r"
  show "refines (eval_binary k w a' b') (eval_binary k w a b)"
    by (cases k; use w in \<open>auto simp: eval_binary_def binary_width_def logical_op_refines compare_refines
          dest: masked_width_le intro: arith_refines bitwise_refines shift_refines choice_refines
          split: if_splits\<close>)
qed

section \<open>Intrinsics\<close>

lemma sim_value_abs_wf:
  assumes "sim_val_wf v" "known v" "0 < width v" "0 < w" "w \<le> 256"
  shows "typed (sim_value_abs v w) w"
proof -
  define m0 where "m0 = (if sim_val_get_bit v (width v - 1) then sim_val_neg v else v)"
  define m1 where "m1 = sim_val_zext m0 (if w > width v then w else width v)"
  define m2 where "m2 = sim_val_mask (m1\<lparr>width := w\<rparr>)"
  have m0: "sim_val_wf m0" "known m0" "width m0 = width v"
    using sim_val_neg_known [OF assms(1-3)] assms(1,2) by (simp_all add: m0_def)
  have le: "(if w > width v then w else width v) \<le> 256" using sim_val_wfD(2) [OF assms(1)] assms(5) by simp
  have m1: "sim_val_wf m1" "known m1" using sim_val_zext_bits [OF m0(1) le] m0(2) by (simp_all add: m1_def)
  have m2: "sim_val_wf m2" "known m2" "width m2 = w"
    using m1 assms(4,5) by (simp_all add: m2_def sim_val_wf_resize known_mask resize_shaped)
  have "typed (sim_val_mask (if c then sim_val_set_bit m2 (w - 1) True else m2)) w" for c
    using set_bit_true_bits(1) [OF m2(1,2), of "w - 1"] m2 assms(4) by (simp add: typed_def sim_val_mask_idem)
  moreover have "sim_value_abs v w =
      sim_val_mask (if sim_val_get_bit v (width v - 1) \<and> w > 0 \<and> sim_val_equal (sim_val_mask v)
          (sim_val_set_bit (sim_val_zero (width v)) (width v - 1) True)
        then sim_val_set_bit m2 (w - 1) True else m2)"
    using assms(3) by (simp add: sim_value_abs_def Let_def m0_def m1_def m2_def)
  ultimately show ?thesis by simp
qed

definition strict_kinds :: "IR_IntrinsicKind set" where
  "strict_kinds = {EXPR_INTRINSIC_OH2B, EXPR_INTRINSIC_B2OH, EXPR_INTRINSIC_PRIENC, EXPR_INTRINSIC_LZC,
     EXPR_INTRINSIC_ABS, EXPR_INTRINSIC_POPCOUNT, EXPR_INTRINSIC_REVERSE, EXPR_INTRINSIC_BSWAP,
     EXPR_INTRINSIC_REDUCE_AND, EXPR_INTRINSIC_REDUCE_OR, EXPR_INTRINSIC_REDUCE_XOR}"

lemma strict_intrinsic_xz:
  assumes "k \<in> strict_kinds" "sim_val_wf a" "\<not> known a" "intrinsic_width k w (width a) bw ew = Some r"
  shows "eval_intrinsic k w a b c ew = sim_val_all_x r"
  using assms width_or_1_range [of w]
  by (auto simp: strict_kinds_def eval_intrinsic_def intrinsic_width_def has_xz_iff_known masked_width_def
      eval_oh2b_def eval_b2oh_def eval_prienc_def eval_lzc_def eval_abs_def eval_popcount_def eval_reverse_def
      eval_bswap_def eval_reduce_def width_or_def split: if_splits)

lemma strict_intrinsic_known:
  assumes "k \<in> strict_kinds" "sim_val_wf a" "known a" "intrinsic_width k w (width a) bw ew = Some r"
  shows "typed (eval_intrinsic k w a b c ew) r"
proof -
  have count: "typed (eval_oh2b w a) r" "typed (eval_b2oh w a) r" "typed (eval_prienc w a) r"
    "typed (eval_lzc w a) r" "typed (eval_popcount w a) r" if "masked_width w 1 = Some r"
    using masked_width_1 [OF that] assms(2,3)
    by (simp_all add: typed_def eval_oh2b_known eval_b2oh_known eval_prienc_known eval_lzc_known eval_popcount_known)
  have abs: "typed (eval_abs w a) r" if "masked_width w 1 = Some r" "0 < width a"
    using masked_width_1 [OF that(1)] sim_value_abs_wf [OF assms(2,3) that(2), of r] assms(2,3)
    by (simp add: eval_abs_def has_xz_iff_known)
  have perm: "typed (eval_reverse w a) (width a)" "8 dvd width a \<Longrightarrow> typed (eval_bswap w a) (width a)" if "0 < width a"
  proof -
    show "typed (eval_reverse w a) (width a)"
      using eval_reverse_known [OF assms(2,3) that] by (simp add: typed_def)
    assume "8 dvd width a"
    then have "width a = 8 * int (nat (width a div 8))" "0 < nat (width a div 8)" using that by auto
    from eval_bswap_known [OF assms(2,3) this] show "typed (eval_bswap w a) (width a)" by (simp add: typed_def)
  qed
  have red: "typed (eval_reduce k a) 1" if "0 < width a"
    "k \<in> {EXPR_INTRINSIC_REDUCE_AND, EXPR_INTRINSIC_REDUCE_OR, EXPR_INTRINSIC_REDUCE_XOR}"
    using eval_reduce_known [OF assms(2,3) that(1)] that(2) by (auto simp: typed_1)
  show ?thesis
    using assms(1,4) count abs perm red
    by (auto simp: strict_kinds_def eval_intrinsic_def intrinsic_width_def split: if_splits)
qed

lemma all_x_typed: "0 \<le> w \<Longrightarrow> w \<le> 256 \<Longrightarrow> typed (sim_val_all_x w) w"
  by (simp add: typed_def)

lemma strict_intrinsic_range:
  assumes "k \<in> strict_kinds" "sim_val_wf a" "intrinsic_width k w (width a) bw ew = Some r"
  shows "0 \<le> r" "r \<le> 256"
  using assms sim_val_wfD(2) [OF assms(2)] width_or_1_range [of w]
  by (auto simp: strict_kinds_def intrinsic_width_def masked_width_def split: if_splits)

lemma strict_intrinsic_typed:
  assumes "k \<in> strict_kinds" "sim_val_wf a" "intrinsic_width k w (width a) bw ew = Some r"
  shows "typed (eval_intrinsic k w a b c ew) r"
  using strict_intrinsic_known [OF assms(1,2) _ assms(3)] strict_intrinsic_xz [OF assms(1,2) _ assms(3)]
    strict_intrinsic_range [OF assms] all_x_typed [of r]
  by (cases "known a") simp_all

lemma strict_intrinsic_refines:
  assumes "k \<in> strict_kinds" "refines a' a" "intrinsic_width k w (width a) bw ew = Some r"
  shows "refines (eval_intrinsic k w a' b' c' ew) (eval_intrinsic k w a b c ew)"
proof -
  note D = refinesD [OF assms(2)]
  have same: "eval_intrinsic k w a b' c' ew = eval_intrinsic k w a b c ew"
    using assms(1) by (auto simp: strict_kinds_def eval_intrinsic_def)
  have "refines (eval_intrinsic k w a' b' c' ew) (eval_intrinsic k w a b' c' ew)"
    by (rule strict_refines [where w = r and f = "\<lambda>a. eval_intrinsic k w a b' c' ew", OF assms(2)])
      (use assms D strict_intrinsic_xz strict_intrinsic_typed in auto)
  then show ?thesis by (simp add: same)
qed

text \<open>Operators that take a position: an unknown position gives all-x.\<close>

lemma slice_refines:
  assumes "refines v' v" "0 \<le> lsb" "lsb \<le> msb" "msb - lsb < 256"
  shows "refines (sim_val_slice v' msb lsb) (sim_val_slice v msb lsb)"
  using refinesD [OF assms(1)] sim_val_slice_bits(1) [OF _ assms(2-4)] resolves_slice [OF _ _ _ assms(2-4)]
  by (simp add: refines_def)

lemma zext_refines:
  assumes "refines v' v" "w \<le> 256"
  shows "refines (sim_val_zext v' w) (sim_val_zext v w)"
  using refinesD [OF assms(1)] sim_val_zext_bits [OF _ assms(2)] by (intro refinesI) simp_all

lemma not_refines: "refines a' a \<Longrightarrow> refines (sim_val_not a') (sim_val_not a)"
  using sim_val_not_bits(1) not_mono by (simp add: refines_def)

lemma position_refines:
  assumes "refines i' i" "typed (f a' i') w" "\<not> known i \<Longrightarrow> f a i = sim_val_all_x w"
    and "known i \<Longrightarrow> refines (f a' i) (f a i)"
  shows "refines (f a' i') (f a i)"
proof (cases "known i")
  case True
  then show ?thesis using refines_known [OF assms(1)] assms(4) by simp
next
  case False
  have "0 \<le> w" "w \<le> 256" using assms(2) by (auto simp: typed_def dest: sim_val_wfD(1,2))
  then show ?thesis
    using assms(2,3) False resolves_all_x [of "f a' i'" w] by (simp add: refines_def typed_def)
qed

lemma gbit_refines:
  assumes "refines a' a" "refines i' i"
  shows "refines (eval_gbit a' i') (eval_gbit a i)"
proof (rule position_refines [where w = 1 and f = eval_gbit, OF assms(2)])
  note A = refinesD [OF assms(1)] and I = refinesD [OF assms(2)]
  show "typed (eval_gbit a' i') 1" using eval_gbit_bits A I by (simp add: typed_def)
  show "\<not> known i \<Longrightarrow> eval_gbit a i = sim_val_all_x 1" using I by (simp add: eval_gbit_def has_xz_iff_known)
  assume "known i"
  then show "refines (eval_gbit a' i) (eval_gbit a i)"
    using I(2) A(4) slice_refines [OF assms(1)] refines_refl [of "sim_val_zero 1"]
    by (auto simp: eval_gbit_def has_xz_iff_known split: option.split)
qed

lemma sbit_refines:
  assumes "refines a' a" "refines i' i" "refines c' c"
  shows "refines (eval_sbit a' i' c') (eval_sbit a i c)"
proof -
  note A = refinesD [OF assms(1)] and I = refinesD [OF assms(2)] and C = refinesD [OF assms(3)]
  note T = eval_sbit_bits [OF A(1) I(2) C(1)] eval_sbit_bits [OF A(2) I(2) C(2)]
  let ?f = "\<lambda>(a, c) i. eval_sbit a i c"
  have "refines (?f (a', c') i') (?f (a, c) i)"
  proof (rule position_refines [where w = "width a" and f = ?f, OF assms(2)])
    show "typed (?f (a', c') i') (width a)" using eval_sbit_bits [OF A(1) I(1) C(1)] A(4) by (simp add: typed_def)
    show "\<not> known i \<Longrightarrow> ?f (a, c) i = sim_val_all_x (width a)" using I by (simp add: eval_sbit_def has_xz_iff_known)
    assume k: "known i"
    show "refines (?f (a', c') i) (?f (a, c) i)"
    proof (cases "int (uval i) < width a")
      case True
      then show ?thesis
        using T A(4,5) C(5) k by (auto intro!: refinesI)
    next
      case False
      then have "eval_sbit a' i c' = a'" "eval_sbit a i c = a"
        using k I(2) A(4) to_index_eq [OF I(2) k] by (simp_all add: eval_sbit_def has_xz_iff_known)
      then show ?thesis using assms(1) by simp
    qed
  qed
  then show ?thesis by simp
qed

lemma gslice_refines:
  assumes "refines a' a" "refines i' i" "0 < ew" "ew \<le> 256"
  shows "refines (eval_gslice w a' i' ew) (eval_gslice w a i ew)"
proof (rule position_refines [where w = ew and f = "\<lambda>a i. eval_gslice w a i ew", OF assms(2)])
  note A = refinesD [OF assms(1)] and I = refinesD [OF assms(2)]
  show "typed (eval_gslice w a' i' ew) ew" using eval_gslice_bits [OF A(1) I(1) assms(3,4)] by (simp add: typed_def)
  show "\<not> known i \<Longrightarrow> eval_gslice w a i ew = sim_val_all_x ew"
    using I assms(3) by (simp add: eval_gslice_def has_xz_iff_known)
  assume "known i"
  then show "refines (eval_gslice w a' i ew) (eval_gslice w a i ew)"
    using I(2) A(4) slice_refines [OF assms(1)] refines_refl [of "sim_val_all_x ew"] assms(3,4)
    by (auto simp: eval_gslice_def has_xz_iff_known Let_def split: option.split)
qed

lemma sslice_refines:
  assumes "refines a' a" "refines i' i" "refines c' c" "0 < ew"
  shows "refines (eval_sslice a' i' c' ew) (eval_sslice a i c ew)"
proof -
  note A = refinesD [OF assms(1)] and I = refinesD [OF assms(2)] and C = refinesD [OF assms(3)]
  have w: "width a \<le> 256" using A(2) by (simp add: sim_val_wfD)
  let ?f = "\<lambda>(a, c) i. eval_sslice a i c ew"
  have put: "refines
      (sim_val_or (sim_val_and a' (sim_val_not (sim_val_shl (sim_val_zext (sim_val_ones ew) (width a)) s)))
        (sim_val_shl (sim_val_zext (sim_val_slice c' (ew - 1) 0) (width a)) s))
      (sim_val_or (sim_val_and a (sim_val_not (sim_val_shl (sim_val_zext (sim_val_ones ew) (width a)) s)))
        (sim_val_shl (sim_val_zext (sim_val_slice c (ew - 1) 0) (width a)) s))"
    if "ew \<le> 256" "sim_val_wf s" for s
    using that assms(4) w
    by (intro table_refines_ops strict_refines_ops not_refines zext_refines slice_refines assms(1,3) refines_refl) auto
  have "refines (?f (a', c') i') (?f (a, c) i)"
  proof (rule position_refines [where w = "width a" and f = ?f, OF assms(2)])
    show "typed (?f (a', c') i') (width a)"
      using eval_sslice_wf [OF A(1) I(1) C(1) assms(4)] A(4) by (simp add: typed_def)
    show "\<not> known i \<Longrightarrow> ?f (a, c) i = sim_val_all_x (width a)" using I by (simp add: eval_sslice_def has_xz_iff_known)
    assume k: "known i"
    show "refines (?f (a', c') i) (?f (a, c) i)"
      using k I(2) A(4) assms(1) put w
      by (auto simp: eval_sslice_def has_xz_iff_known Let_def split: option.split)
  qed
  then show ?thesis by simp
qed

lemma add_mul_typed:
  assumes "sim_val_wf a" "sim_val_wf b" "masked_width w (max (width a) (width b)) = Some r"
  shows "typed (eval_add_mul k w a b) r"
proof -
  have M: "typed (sim_val_mask (set_width w v)) r" if "sim_val_wf v" "width v = max (width a) (width b)" for v
    using typed_masked [OF that(1)] assms(3) that(2) by simp
  show ?thesis using assms(1,2) M by (cases k; simp add: eval_add_mul_def op_wf op_width)
qed

lemma add_mul_refines:
  "refines a' a \<Longrightarrow> refines b' b \<Longrightarrow> w \<le> 256 \<Longrightarrow> refines (eval_add_mul k w a' b') (eval_add_mul k w a b)"
  by (cases k; simp add: eval_add_mul_def strict_refines_ops refines_set_width_masked)

lemma gslice_default:
  "ew \<le> 0 \<Longrightarrow> eval_gslice w a i ew = eval_gslice w a i (width_or w 1)"
  by (simp add: eval_gslice_def width_or_def)

interpretation intrinsic: typed_op3 "\<lambda>a b c. eval_intrinsic k w a b c ew" "\<lambda>a b. intrinsic_width k w a b ew" for k w ew
proof
  fix a b c r
  assume w: "sim_val_wf a" "sim_val_wf b" "sim_val_wf c" "intrinsic_width k w (width a) (width b) ew = Some r"
  show "typed (eval_intrinsic k w a b c ew) r"
  proof (cases "k \<in> strict_kinds")
    case True
    then show ?thesis using w strict_intrinsic_typed by blast
  next
    case False
    have g: "typed (eval_gslice w a b ew) r" if "(if ew \<le> 0 then width_or w 1 else ew) = r" "r \<le> 256"
      using that eval_gslice_bits [OF w(1,2), of r] gslice_default [of ew w a b]
      by (auto simp: typed_def width_or_def split: if_splits)
    show ?thesis
      using False w(4) g eval_gbit_bits [OF w(1,2)] eval_sbit_bits [OF w(1-3)] eval_sslice_wf [OF w(1-3)]
        add_mul_typed [OF w(1,2)]
      by (cases k) (auto simp: strict_kinds_def eval_intrinsic_def intrinsic_width_def typed_def Let_def split: if_splits)
  qed
next
  fix a' a b' b c' c r
  assume w: "refines a' a" "refines b' b" "refines c' c" "intrinsic_width k w (width a) (width b) ew = Some r"
  show "refines (eval_intrinsic k w a' b' c' ew) (eval_intrinsic k w a b c ew)"
  proof (cases "k \<in> strict_kinds")
    case True
    then show ?thesis using w strict_intrinsic_refines by blast
  next
    case False
    have g: "refines (eval_gslice w a' b' ew) (eval_gslice w a b ew)"
      if "(if ew \<le> 0 then width_or w 1 else ew) \<le> 256"
      using that gslice_refines [OF w(1,2), of "if ew \<le> 0 then width_or w 1 else ew" w]
        gslice_default [of ew w a' b'] gslice_default [of ew w a b]
      by (auto simp: width_or_def split: if_splits)
    show ?thesis
      using False w(4) g gbit_refines [OF w(1,2)] sbit_refines [OF w(1-3)] sslice_refines [OF w(1-3)]
        add_mul_refines [OF w(1,2)]
      by (cases k) (auto simp: strict_kinds_def eval_intrinsic_def intrinsic_width_def Let_def
          dest: masked_width_le split: if_splits)
  qed
qed

end
