(* ===== verification/Sim_Eval_Sem.thy ===== *)
theory Sim_Eval_Sem
  imports Sim_Eval_Type
begin

text \<open>
  A reference semantics of expressions and the proof that the evaluator of sim_eval.c
  implements it. \<open>expr_value\<close> is the value an expression denotes in a frame and
  \<open>expr_raises\<close> whether evaluating it meets a ternary whose condition is not known; the
  evaluator, which threads the frame through its operands, returns that value and changes
  nothing in the frame but the error flag. On top of it: values have their static width,
  unknown bits are treated soundly, and a value depends only on the signals that the
  dependency analysis of sim_state.c collects.
\<close>

section \<open>Reference semantics\<close>

definition memory_value :: "SimFrame \<Rightarrow> string \<Rightarrow> int \<Rightarrow> SimValue \<Rightarrow> SimValue" where
  "memory_value ctx m w addr =
     (case sim_ctx_lookup_mem ctx m of
        None \<Rightarrow> sim_val_all_x (width_or w 1)
      | Some mi \<Rightarrow> read_cell (memories ctx ! mi) addr)"

fun expr_value :: "SimFrame \<Rightarrow> IR_Expr \<Rightarrow> SimValue"
and expr_values :: "SimFrame \<Rightarrow> nat \<Rightarrow> IR_Expr list \<Rightarrow> SimValue list" where
  "expr_value ctx EXPR_NULL = sim_val_all_x 1"
| "expr_value ctx (EXPR_LITERAL w l) = eval_literal w l"
| "expr_value ctx (EXPR_SIGNAL_REF w i) = eval_signal_ref ctx w i"
| "expr_value ctx (EXPR_UNARY k w e) = eval_unary k w (expr_value ctx e)"
| "expr_value ctx (EXPR_BINARY k w l r) = eval_binary k w (expr_value ctx l) (expr_value ctx r)"
| "expr_value ctx (EXPR_TERNARY w c t f) =
     sim_val_ternary (expr_value ctx c) (expr_value ctx t) (expr_value ctx f)"
| "expr_value ctx (EXPR_CONCAT w es) = sim_val_concat (expr_values ctx 64 es)"
| "expr_value ctx (EXPR_SLICE w i base msb lsb) =
     (if base \<noteq> EXPR_NULL then sim_val_slice (expr_value ctx base) msb lsb
      else eval_slice_signal ctx w i msb lsb)"
| "expr_value ctx (EXPR_MEM_READ w m addr) = memory_value ctx m w (expr_value ctx addr)"
| "expr_value ctx (EXPR_INTRINSIC k w src idx v ew) =
     eval_intrinsic k w (expr_value ctx src)
       (if reads_index k then expr_value ctx idx else sim_val_zero 1)
       (if reads_value k then expr_value ctx v else sim_val_zero 1) ew"
| "expr_values ctx n [] = []"
| "expr_values ctx 0 (e # es) = []"
| "expr_values ctx (Suc n) (e # es) = expr_value ctx e # expr_values ctx n es"

fun expr_raises :: "SimFrame \<Rightarrow> IR_Expr \<Rightarrow> bool"
and exprs_raise :: "SimFrame \<Rightarrow> nat \<Rightarrow> IR_Expr list \<Rightarrow> bool" where
  "expr_raises ctx EXPR_NULL = False"
| "expr_raises ctx (EXPR_LITERAL w l) = False"
| "expr_raises ctx (EXPR_SIGNAL_REF w i) = False"
| "expr_raises ctx (EXPR_UNARY k w e) = expr_raises ctx e"
| "expr_raises ctx (EXPR_BINARY k w l r) = (expr_raises ctx l \<or> expr_raises ctx r)"
| "expr_raises ctx (EXPR_TERNARY w c t f) =
     (expr_raises ctx c \<or> expr_raises ctx t \<or> expr_raises ctx f \<or> sim_val_has_xz (expr_value ctx c))"
| "expr_raises ctx (EXPR_CONCAT w es) = exprs_raise ctx 64 es"
| "expr_raises ctx (EXPR_SLICE w i base msb lsb) = (base \<noteq> EXPR_NULL \<and> expr_raises ctx base)"
| "expr_raises ctx (EXPR_MEM_READ w m addr) = (sim_ctx_lookup_mem ctx m \<noteq> None \<and> expr_raises ctx addr)"
| "expr_raises ctx (EXPR_INTRINSIC k w src idx v ew) =
     (expr_raises ctx src \<or> (reads_index k \<and> expr_raises ctx idx) \<or> (reads_value k \<and> expr_raises ctx v))"
| "exprs_raise ctx n [] = False"
| "exprs_raise ctx 0 (e # es) = False"
| "exprs_raise ctx (Suc n) (e # es) = (expr_raises ctx e \<or> exprs_raise ctx n es)"

text \<open>The invariant of a frame: lookups stay in range and every stored value is well-formed.\<close>

definition entry_ok :: "SimSignalEntry \<Rightarrow> bool" where
  "entry_ok e \<longleftrightarrow> sim_val_wf (current e) \<and> sim_val_wf (nxt e) \<and> width (nxt e) = width (current e)"

definition memory_ok :: "SimMemEntry \<Rightarrow> bool" where
  "memory_ok m \<longleftrightarrow>
     0 \<le> word_width m \<and> word_width m \<le> 256 \<and> length (cells m) = nat (depth m) \<and>
     (\<forall>c \<in> set (cells m). sim_val_wf c \<and> width c = word_width m)"

definition frame_ok :: "SimFrame \<Rightarrow> bool" where
  "frame_ok f \<longleftrightarrow>
     max_sig_id f < int (length (sig_id_map f)) \<and>
     list_all (\<lambda>x. x < int (length (signals f))) (sig_id_map f) \<and>
     length (sig_dirty f) = length (signals f) \<and>
     list_all entry_ok (signals f) \<and> list_all memory_ok (memories f)"

text \<open>Two frames with the same tables; the values of the first resolve those of the second.\<close>

definition frame_refines :: "SimFrame \<Rightarrow> SimFrame \<Rightarrow> bool" where
  "frame_refines f' f \<longleftrightarrow>
     sig_id_map f' = sig_id_map f \<and> max_sig_id f' = max_sig_id f \<and> ctx_module f' = ctx_module f \<and>
     list_all2 (\<lambda>e' e. refines (current e') (current e)) (signals f') (signals f) \<and>
     list_all2 (\<lambda>m' m. word_width m' = word_width m \<and> depth m' = depth m \<and> list_all2 refines (cells m') (cells m))
       (memories f') (memories f)"

text \<open>Two frames that agree on the current values of the signals with the given ids, and on memories.\<close>

definition agree_on :: "int set \<Rightarrow> SimFrame \<Rightarrow> SimFrame \<Rightarrow> bool" where
  "agree_on ids f' f \<longleftrightarrow>
     sig_id_map f' = sig_id_map f \<and> max_sig_id f' = max_sig_id f \<and> ctx_module f' = ctx_module f \<and>
     memories f' = memories f \<and>
     (\<forall>i \<in> ids. \<forall>k. sim_ctx_lookup f i = Some k \<longrightarrow> current (signals f' ! k) = current (signals f ! k))"

section \<open>The evaluator implements the reference semantics\<close>

lemma lookup_error [simp]:
  "sim_ctx_lookup (f\<lparr>runtime_error := b\<rparr>) = sim_ctx_lookup f"
  "sim_ctx_lookup_mem (f\<lparr>runtime_error := b\<rparr>) = sim_ctx_lookup_mem f"
  by (auto simp: sim_ctx_lookup_def sim_ctx_lookup_mem_def fun_eq_iff)

lemma leaf_error [simp]:
  "eval_signal_ref (f\<lparr>runtime_error := b\<rparr>) = eval_signal_ref f"
  "eval_slice_signal (f\<lparr>runtime_error := b\<rparr>) = eval_slice_signal f"
  "memory_value (f\<lparr>runtime_error := b\<rparr>) = memory_value f"
  by (auto simp: eval_signal_ref_def eval_slice_signal_def memory_value_def fun_eq_iff split: option.splits)

lemma expr_value_error [simp]:
  "expr_value (f\<lparr>runtime_error := b\<rparr>) e = expr_value f e"
  "expr_values (f\<lparr>runtime_error := b\<rparr>) n es = expr_values f n es"
  by (induction f e and f n es rule: expr_value_expr_values.induct) auto

lemma expr_raises_error [simp]:
  "expr_raises (f\<lparr>runtime_error := b\<rparr>) e = expr_raises f e"
  "exprs_raise (f\<lparr>runtime_error := b\<rparr>) n es = exprs_raise f n es"
  by (induction f e and f n es rule: expr_raises_exprs_raise.induct) auto

lemma error_or_same [simp]: "f\<lparr>runtime_error := runtime_error f \<or> False\<rparr> = f" "f\<lparr>runtime_error := runtime_error f\<rparr> = f"
  by simp_all

lemma eval_ternary_eq:
  "eval_ternary f c t e = (sim_val_ternary c t e, f\<lparr>runtime_error := runtime_error f \<or> sim_val_has_xz c\<rparr>)"
  by (cases f) (auto simp: eval_ternary_def Let_def)

lemma sim_eval_expr_eq:
  "sim_eval_expr f e = (expr_value f e, f\<lparr>runtime_error := runtime_error f \<or> expr_raises f e\<rparr>)"
  "sim_eval_exprs f n es = (expr_values f n es, f\<lparr>runtime_error := runtime_error f \<or> exprs_raise f n es\<rparr>)"
proof (induction f e and f n es rule: sim_eval_expr_sim_eval_exprs.induct)
  case (9 ctx w m addr)
  then show ?case by (auto simp: memory_value_def split: option.splits)
qed (auto simp: eval_ternary_eq Let_def disj_ac)

section \<open>Values have their static width\<close>

lemma find_index_SomeD:
  "find_index P xs = Some i \<Longrightarrow> i < length xs \<and> P (xs ! i) \<and> (\<forall>j<i. \<not> P (xs ! j))"
proof (induction xs arbitrary: i)
  case Nil
  then show ?case by simp
next
  case (Cons x xs)
  then show ?case by (auto simp: nth_Cons' less_Suc_eq_0_disj split: if_splits)
qed

lemma lookup_range: "frame_ok f \<Longrightarrow> sim_ctx_lookup f i = Some k \<Longrightarrow> k < length (signals f)"
  by (auto simp: sim_ctx_lookup_def frame_ok_def list_all_length Let_def nat_less_iff split: if_splits)

lemma lookup_mem_range: "sim_ctx_lookup_mem f m = Some k \<Longrightarrow> k < length (memories f)"
  using find_index_SomeD by (fastforce simp: sim_ctx_lookup_mem_def)

lemma frame_ok_entry: "frame_ok f \<Longrightarrow> k < length (signals f) \<Longrightarrow> entry_ok (signals f ! k)"
  by (simp add: frame_ok_def list_all_length)

lemma frame_ok_memory: "frame_ok f \<Longrightarrow> k < length (memories f) \<Longrightarrow> memory_ok (memories f ! k)"
  by (simp add: frame_ok_def list_all_length)

lemma frame_ok_current: "frame_ok f \<Longrightarrow> sim_ctx_lookup f i = Some k \<Longrightarrow> sim_val_wf (current (signals f ! k))"
  using frame_ok_entry lookup_range by (fastforce simp: entry_ok_def)

lemma masked_all_x: "masked_width w 1 = Some r \<Longrightarrow> typed (sim_val_all_x (width_or w 1)) r"
  using masked_width_1 [of w r] by (auto simp: typed_def)

lemma slice_typed: "sim_val_wf v \<Longrightarrow> slice_width msb lsb = Some r \<Longrightarrow> typed (sim_val_slice v msb lsb) r"
  using sim_val_slice_bits(1,2) [of v lsb msb] by (auto simp: slice_width_def typed_def split: if_splits)

lemma literal_typed:
  assumes "0 \<le> lit_width l" "lit_width l \<le> 256" "w \<le> 256"
  shows "typed (eval_literal w l) (if lit_width l = 0 then width_or w 1 else lit_width l)"
proof -
  define v where "v = (if lit_is_z l then sim_val_all_z (lit_width l) else sim_val_from_words (lit_words l) 4 (lit_width l))"
  have v: "sim_val_wf v" "width v = lit_width l" using assms by (simp_all add: v_def)
  moreover have "eval_literal w l = (if lit_width l = 0 then v\<lparr>width := width_or w 1\<rparr> else v)"
    using v(2) by (simp add: eval_literal_def v_def Let_def)
  ultimately show ?thesis
    using sim_val_wf_widen [OF v(1), of "width_or w 1"] width_or_1_range [OF assms(3)] by (simp add: typed_def)
qed

lemma read_cell_typed:
  assumes "memory_ok m"
  shows "typed (read_cell m a) (word_width m)"
  using assms by (auto simp: read_cell_def memory_ok_def typed_def split: option.splits)

lemma concat_typed:
  assumes "list_all2 typed vs ws"
  shows "typed (sim_val_concat vs) (min 256 (sum_list ws))"
proof -
  have wf: "v \<in> set vs \<Longrightarrow> sim_val_wf v" for v using assms by (auto simp: list_all2_conv_all_nth in_set_conv_nth typed_def)
  have "map width vs = ws" using assms by (induction rule: list_all2_induct) (auto simp: typed_def)
  moreover have "length (take 256 (concat (map sim_bits (rev vs)))) = nat (min 256 (sum_list (map width vs)))"
    using length_concat_bits [of vs] wf by auto
  moreover have "0 \<le> width (sim_val_concat vs)" using sim_val_concat_bits(1) [OF wf] by (simp add: sim_val_wfD)
  moreover have "0 \<le> sum_list (map width vs)" using wf by (auto intro!: sum_list_nonneg simp: sim_val_wfD)
  ultimately show ?thesis
    using sim_val_concat_bits [OF wf] length_sim_bits [of "sim_val_concat vs"]
    by (simp add: typed_def eq_nat_nat_iff)
qed

lemma ternary_typed:
  assumes "sim_val_wf c" "typed t w" "typed f w"
  shows "typed (sim_val_ternary c t f) w"
proof (cases "known c")
  case True
  then show ?thesis using assms by (simp add: ternary_known)
next
  case False
  then show ?thesis
    using assms sim_val_ternary_bits(1,2) [of c t f] by (simp add: typed_def max_width_def)
qed

lemma typed_wf: "typed v w \<Longrightarrow> sim_val_wf v" "typed v w \<Longrightarrow> width v = w"
  by (simp_all add: typed_def)

lemma expr_value_typed:
  "frame_ok f \<Longrightarrow> static_width f e = Some q \<Longrightarrow> typed (expr_value f e) q"
  "frame_ok f \<Longrightarrow> static_widths f n es = Some ws \<Longrightarrow> list_all2 typed (expr_values f n es) ws"
proof (induction f e and f n es arbitrary: q and ws rule: expr_value_expr_values.induct)
  case (1 ctx)
  then show ?case by (simp add: typed_def)
next
  case (2 ctx w l)
  then show ?case using literal_typed [of l w] by (auto split: if_splits)
next
  case (3 ctx w i)
  then show ?case
    using masked_all_x frame_ok_current
    by (auto simp: eval_signal_ref_def signal_width_of_def typed_def split: option.splits)
next
  case (4 ctx k w e)
  then show ?case by (auto simp: bind_eq_Some_conv intro!: unary.f_typed dest: typed_wf)
next
  case (5 ctx k w l r)
  then show ?case by (fastforce simp: bind_eq_Some_conv intro!: binary.f_typed dest: typed_wf)
next
  case (6 ctx w c t f)
  then show ?case
    by (auto intro!: ternary_typed dest: typed_wf split: option.splits if_splits)
next
  case (7 ctx w es)
  then show ?case using concat_typed by auto
next
  case (8 ctx w i base msb lsb)
  then show ?case
    using masked_all_x frame_ok_current
    by (auto simp: eval_slice_signal_def signal_width_of_def bind_eq_Some_conv intro: slice_typed slice_typed [OF typed_wf(1)]
        split: option.splits if_splits)
next
  case (9 ctx w m addr)
  then show ?case
    using masked_all_x read_cell_typed frame_ok_memory lookup_mem_range
    by (auto simp: memory_value_def memory_width_of_def split: option.splits)
next
  case (10 ctx k w src idx v ew)
  let ?i = "if reads_index k then expr_value ctx idx else sim_val_zero 1"
  let ?v = "if reads_value k then expr_value ctx v else sim_val_zero 1"
  obtain a b c where s: "static_width ctx src = Some a" "(if reads_index k then static_width ctx idx else Some 1) = Some b"
    "(if reads_value k then static_width ctx v else Some 1) = Some c" "intrinsic_width k w a b ew = Some q"
    using "10.prems"(2) by (auto simp: bind_eq_Some_conv)
  have "typed (expr_value ctx src) a" "typed ?i b" "sim_val_wf ?v"
    using "10.IH" "10.prems"(1) s by (auto simp: typed_def split: if_splits)
  then show ?case using intrinsic.f_typed [of "expr_value ctx src" ?i ?v k w ew q] s(4) by (simp add: typed_def)
qed (auto simp: bind_eq_Some_conv)

section \<open>Unknown bits are treated soundly\<close>

lemma frame_refines_lookup:
  assumes "frame_refines f' f"
  shows "sim_ctx_lookup f' = sim_ctx_lookup f" "sim_ctx_lookup_mem f' = sim_ctx_lookup_mem f"
  using assms
  by (auto simp: frame_refines_def sim_ctx_lookup_def sim_ctx_lookup_mem_def fun_eq_iff dest: list_all2_lengthD)

lemma frame_refines_signal:
  assumes "frame_refines f' f" "k < length (signals f)"
  shows "refines (current (signals f' ! k)) (current (signals f ! k))"
  using assms by (auto simp: frame_refines_def list_all2_conv_all_nth)

lemma read_cell_refines:
  assumes "memory_ok m" "word_width m' = word_width m" "depth m' = depth m" "list_all2 refines (cells m') (cells m)"
    and "refines a' a"
  shows "refines (read_cell m' a') (read_cell m a)"
proof -
  have r: "refines (cells m' ! j) (cells m ! j)" if "j < nat (depth m)" for j
    using assms(1,4) that by (simp add: memory_ok_def list_all2_conv_all_nth)
  have "sim_val_wf (cells m' ! j) \<and> width (cells m' ! j) = word_width m" if "j < nat (depth m)" for j
    using refinesD(1,4) [OF r [OF that]] assms(1) that by (simp add: memory_ok_def)
  then have m': "memory_ok m'"
    using assms(1-4) by (auto simp: memory_ok_def list_all2_conv_all_nth in_set_conv_nth)
  have x: "refines (sim_val_all_x (word_width m)) (sim_val_all_x (word_width m))"
    using assms(1) by (simp add: memory_ok_def refines_refl)
  note A = refinesD [OF assms(5)]
  show ?thesis
  proof (rule position_refines [where w = "word_width m" and f = read_cell, OF assms(5)])
    show "typed (read_cell m' a') (word_width m)" using read_cell_typed [OF m', of a'] assms(2) by simp
    show "\<not> known a \<Longrightarrow> read_cell m a = sim_val_all_x (word_width m)"
      using A(2) by (simp add: read_cell_def has_xz_iff_known)
    show "known a \<Longrightarrow> refines (read_cell m' a) (read_cell m a)"
      using A(2) x r assms(2,3) by (auto simp: read_cell_def has_xz_iff_known split: option.split)
  qed
qed

lemma sim_bits_refines:
  "refines v' v \<Longrightarrow> list_all2 (\<le>) (sim_bits v') (sim_bits v)"
  using refinesD(4,5) [of v' v] by (auto simp: list_all2_conv_all_nth)

lemma concat_refines:
  assumes "list_all2 refines vs' vs"
  shows "refines (sim_val_concat vs') (sim_val_concat vs)"
proof -
  have wf: "v \<in> set vs \<Longrightarrow> sim_val_wf v" "v \<in> set vs' \<Longrightarrow> sim_val_wf v" for v
    using assms by (auto simp: list_all2_conv_all_nth in_set_conv_nth dest: refinesD)
  have "list_all2 (list_all2 (\<le>)) (map sim_bits (rev vs')) (map sim_bits (rev vs))"
    using assms sim_bits_refines by (auto simp: list_all2_map1 list_all2_map2 list_all2_rev elim!: list_all2_mono)
  then have "list_all2 (\<le>) (concat (map sim_bits (rev vs'))) (concat (map sim_bits (rev vs)))"
    by (induction rule: list_all2_induct) (auto intro: list_all2_appendI)
  then have B: "list_all2 (\<le>) (sim_bits (sim_val_concat vs')) (sim_bits (sim_val_concat vs))"
    using sim_val_concat_bits(2) [OF wf(1)] sim_val_concat_bits(2) [OF wf(2)] by (simp add: list_all2_takeI)
  have W: "sim_val_wf (sim_val_concat vs')" "sim_val_wf (sim_val_concat vs)"
    using sim_val_concat_bits(1) wf by blast+
  have w: "width (sim_val_concat vs') = width (sim_val_concat vs)"
    using list_all2_lengthD [OF B] sim_val_wfD(1) [OF W(1)] sim_val_wfD(1) [OF W(2)] by simp
  show ?thesis
  proof (rule refinesI [OF W w])
    fix n assume "int n < width (sim_val_concat vs)"
    then show "sim_bit (sim_val_concat vs') n \<le> sim_bit (sim_val_concat vs) n"
      using list_all2_nthD2 [OF B, of n] w by simp
  qed
qed

lemma masked_all_x_refl:
  "masked_width w 1 = Some r \<Longrightarrow> refines (sim_val_all_x (width_or w 1)) (sim_val_all_x (width_or w 1))"
  using masked_all_x by (blast intro: refines_refl typed_wf)

lemma expr_value_refines:
  "frame_ok f \<Longrightarrow> frame_refines f' f \<Longrightarrow> static_width f e = Some q \<Longrightarrow>
     refines (expr_value f' e) (expr_value f e)"
  "frame_ok f \<Longrightarrow> frame_refines f' f \<Longrightarrow> static_widths f n es = Some ws \<Longrightarrow>
     list_all2 refines (expr_values f' n es) (expr_values f n es)"
proof (induction f e and f n es arbitrary: q and ws rule: expr_value_expr_values.induct)
  case (1 ctx)
  then show ?case by (simp add: refines_refl)
next
  case (2 ctx w l)
  then show ?case using literal_typed [of l w] by (auto simp: refines_refl typed_def split: if_splits)
next
  case (3 ctx w i)
  then show ?case
    using frame_refines_signal lookup_range masked_all_x_refl
    by (auto simp: eval_signal_ref_def signal_width_of_def frame_refines_lookup
        split: option.splits)
next
  case (4 ctx k w e)
  then obtain a where a: "static_width ctx e = Some a" "unary_width k w a = Some q"
    by (auto simp: bind_eq_Some_conv)
  then show ?case
    using unary.f_refines [of "expr_value f' e" "expr_value ctx e" k w q] 4 typed_wf(2) [OF expr_value_typed(1) [OF 4(2) a(1)]]
    by simp
next
  case (5 ctx k w l r)
  then obtain a b where a: "static_width ctx l = Some a" "static_width ctx r = Some b" "binary_width k w a b = Some q"
    by (auto simp: bind_eq_Some_conv)
  have "width (expr_value ctx l) = a" "width (expr_value ctx r) = b"
    using expr_value_typed(1) [OF "5.prems"(1)] a typed_wf(2) by blast+
  then show ?case
    using binary.f_refines [of "expr_value f' l" "expr_value ctx l" "expr_value f' r" "expr_value ctx r" k w q] 5 a
    by simp
next
  case (6 ctx w c t f)
  then obtain a b where a: "static_width ctx c = Some a" "static_width ctx t = Some q" "static_width ctx f = Some q"
    by (auto split: option.splits if_splits)
  have w: "width (expr_value ctx t) = width (expr_value ctx f)"
    using expr_value_typed(1) [OF "6.prems"(1)] a typed_wf(2) by metis
  have IH: "refines (expr_value f' c) (expr_value ctx c)" "refines (expr_value f' t) (expr_value ctx t)"
    "refines (expr_value f' f) (expr_value ctx f)"
    using 6 a by simp_all
  then show ?case
    using ternary_mono [OF _ _ _ _ _ _ _ _ _ w] wf_ternary by (simp add: refines_def)
next
  case (7 ctx w es)
  then show ?case using concat_refines by auto
next
  case (8 ctx w i base msb lsb)
  have s: "refines (sim_val_slice v' msb lsb) (sim_val_slice v msb lsb)"
    if "refines v' v" "slice_width msb lsb = Some q" for v' v
    using slice_refines [OF that(1)] that(2) by (simp add: slice_width_def split: if_splits)
  show ?case
    using 8 s frame_refines_signal lookup_range masked_all_x_refl
    by (auto simp: eval_slice_signal_def signal_width_of_def frame_refines_lookup bind_eq_Some_conv
        split: option.splits if_splits)
next
  case (9 ctx w m addr)
  show ?case
  proof (cases "sim_ctx_lookup_mem ctx m")
    case None
    then show ?thesis
      using 9 masked_all_x_refl
      by (auto simp: memory_value_def memory_width_of_def frame_refines_lookup)
  next
    case (Some mi)
    have "mi < length (memories ctx)" using lookup_mem_range [OF Some] .
    then have "word_width (memories f' ! mi) = word_width (memories ctx ! mi)"
      "depth (memories f' ! mi) = depth (memories ctx ! mi)"
      "list_all2 refines (cells (memories f' ! mi)) (cells (memories ctx ! mi))" "memory_ok (memories ctx ! mi)"
      using "9.prems"(1,2) by (auto simp: frame_refines_def list_all2_conv_all_nth frame_ok_memory)
    then show ?thesis
      using 9 Some read_cell_refines
      by (auto simp: memory_value_def memory_width_of_def frame_refines_lookup)
  qed
next
  case (10 ctx k w src idx v ew)
  let ?i = "\<lambda>f. if reads_index k then expr_value f idx else sim_val_zero 1"
  let ?v = "\<lambda>f. if reads_value k then expr_value f v else sim_val_zero 1"
  obtain a b c where s: "static_width ctx src = Some a" "(if reads_index k then static_width ctx idx else Some 1) = Some b"
    "(if reads_value k then static_width ctx v else Some 1) = Some c" "intrinsic_width k w a b ew = Some q"
    using "10.prems"(3) by (auto simp: bind_eq_Some_conv)
  have "width (expr_value ctx src) = a" "width (?i ctx) = b"
    using expr_value_typed(1) [OF "10.prems"(1)] s typed_wf(2) by (auto split: if_splits)
  moreover have "refines (expr_value f' src) (expr_value ctx src)" "refines (?i f') (?i ctx)" "refines (?v f') (?v ctx)"
    using "10.IH" "10.prems"(1,2) s by (auto simp: refines_refl split: if_splits)
  ultimately show ?case
    using intrinsic.f_refines [of "expr_value f' src" "expr_value ctx src" "?i f'" "?i ctx" "?v f'" "?v ctx" k w ew q] s(4)
    by simp
qed (auto simp: bind_eq_Some_conv)

section \<open>Values depend only on the collected reads\<close>

fun expr_read_set :: "IR_Expr \<Rightarrow> int set"
and exprs_read_set :: "IR_Expr list \<Rightarrow> int set" where
  "expr_read_set EXPR_NULL = {}"
| "expr_read_set (EXPR_LITERAL w l) = {}"
| "expr_read_set (EXPR_SIGNAL_REF w i) = {i}"
| "expr_read_set (EXPR_UNARY k w e) = expr_read_set e"
| "expr_read_set (EXPR_BINARY k w l r) = expr_read_set l \<union> expr_read_set r"
| "expr_read_set (EXPR_TERNARY w c t f) = expr_read_set c \<union> expr_read_set t \<union> expr_read_set f"
| "expr_read_set (EXPR_CONCAT w es) = exprs_read_set es"
| "expr_read_set (EXPR_SLICE w i base msb lsb) = (if base \<noteq> EXPR_NULL then expr_read_set base else {i})"
| "expr_read_set (EXPR_INTRINSIC k w src idx v ew) = expr_read_set src \<union> expr_read_set idx \<union> expr_read_set v"
| "expr_read_set (EXPR_MEM_READ w m addr) = expr_read_set addr"
| "exprs_read_set [] = {}"
| "exprs_read_set (e # es) = expr_read_set e \<union> exprs_read_set es"

lemma set_sigset_add [simp]: "set (sigset_add s i) = insert i (set s)"
  by (auto simp: sigset_add_def)

lemma distinct_sigset_add: "distinct s \<Longrightarrow> distinct (sigset_add s i)"
  by (auto simp: sigset_add_def)

lemma set_collect_reads:
  "set (collect_expr_reads e rs) = set rs \<union> expr_read_set e"
  "set (collect_exprs_reads es rs) = set rs \<union> exprs_read_set es"
  by (induction e rs and es rs rule: collect_expr_reads_collect_exprs_reads.induct) auto

lemma distinct_collect_reads:
  "distinct rs \<Longrightarrow> distinct (collect_expr_reads e rs)"
  "distinct rs \<Longrightarrow> distinct (collect_exprs_reads es rs)"
  by (induction e rs and es rs rule: collect_expr_reads_collect_exprs_reads.induct)
    (auto simp: distinct_sigset_add)

lemma agree_on_mono: "agree_on A f' f \<Longrightarrow> B \<subseteq> A \<Longrightarrow> agree_on B f' f"
  by (auto simp: agree_on_def)

lemma agree_on_lookup:
  assumes "agree_on A f' f"
  shows "sim_ctx_lookup f' = sim_ctx_lookup f" "sim_ctx_lookup_mem f' = sim_ctx_lookup_mem f"
    "memories f' = memories f"
  using assms by (auto simp: agree_on_def sim_ctx_lookup_def sim_ctx_lookup_mem_def fun_eq_iff)

lemma agree_on_union:
  "agree_on (A \<union> B) f' f \<longleftrightarrow> agree_on A f' f \<and> agree_on B f' f"
  by (auto simp: agree_on_def)

lemma agree_on_leaf:
  assumes "agree_on {i} f' f"
  shows "eval_signal_ref f' w i = eval_signal_ref f w i"
    "eval_slice_signal f' w i msb lsb = eval_slice_signal f w i msb lsb"
  using assms agree_on_lookup(1) [OF assms]
  by (auto simp: eval_signal_ref_def eval_slice_signal_def agree_on_def split: option.split)

lemma expr_value_agree:
  "agree_on (expr_read_set e) f' f \<Longrightarrow> expr_value f' e = expr_value f e"
  "agree_on (exprs_read_set es) f' f \<Longrightarrow> expr_values f' n es = expr_values f n es"
proof (induction f' e and f' n es rule: expr_value_expr_values.induct)
  case (9 ctx w m addr)
  then show ?case using agree_on_lookup [OF "9.prems"] by (simp add: memory_value_def split: option.split)
qed (auto simp: agree_on_union agree_on_leaf [where f = f] split: if_splits)

lemma expr_raises_agree:
  "agree_on (expr_read_set e) f' f \<Longrightarrow> expr_raises f' e = expr_raises f e"
  "agree_on (exprs_read_set es) f' f \<Longrightarrow> exprs_raise f' n es = exprs_raise f n es"
proof (induction f' e and f' n es rule: expr_raises_exprs_raise.induct)
  case (9 ctx w m addr)
  then show ?case using agree_on_lookup [OF "9.prems"] by simp
qed (auto simp: agree_on_union expr_value_agree [where f = f] split: if_splits)

end
