(* ===== verification/Sim_Exec_Frame.thy ===== *)
theory Sim_Exec_Frame
  imports Sim_Exec Sim_Eval_Sem
begin

text \<open>
  What statements may change. The signal table is used through the interface \<open>indexed_store\<close>
  (a value written to an entry is read back from it and from no other), interpreted on the
  current values, on the pending values and on the cells of a memory. On top of it:
  statements have a width discipline (\<open>stmt_ok\<close>), a combinational execution is a
  \<open>comb_step\<close> (tables and widths stay, every changed signal is marked dirty), and it
  writes only the signals the dependency analysis collects and reads only those.
\<close>

section \<open>Definitions\<close>

text \<open>The width discipline of assignments and statements.\<close>

definition extend_ok :: "IR_AssignmentKind \<Rightarrow> int \<Rightarrow> int \<Rightarrow> bool" where
  "extend_ok k target w \<longleftrightarrow>
     (if k \<in> {ASSIGN_ALIAS_ZEXT, ASSIGN_DRIVE_ZEXT, ASSIGN_RECEIVE_ZEXT} then w \<le> target
      else if k \<in> {ASSIGN_ALIAS_SEXT, ASSIGN_DRIVE_SEXT, ASSIGN_RECEIVE_SEXT} then 0 < w \<and> w \<le> target
      else True)"

definition assign_ok :: "SimFrame \<Rightarrow> IR_Assignment \<Rightarrow> bool" where
  "assign_ok f a \<longleftrightarrow>
     (case signal_width_of f (lhs_signal_id a) of
        None \<Rightarrow> True
      | Some t \<Rightarrow>
          (case static_width f (asgn_rhs a) of None \<Rightarrow> False | Some w \<Rightarrow> extend_ok (asgn_kind a) t w) \<and>
          (is_sliced a \<longrightarrow> 0 \<le> lhs_lsb a \<and> lhs_lsb a \<le> lhs_msb a \<and> lhs_msb a < t))"

fun stmt_ok :: "SimFrame \<Rightarrow> IR_Stmt \<Rightarrow> bool"
and cases_ok :: "SimFrame \<Rightarrow> (IR_Expr \<times> IR_Stmt) list \<Rightarrow> bool"
and stmts_ok :: "SimFrame \<Rightarrow> IR_Stmt list \<Rightarrow> bool" where
  "stmt_ok f STMT_NULL = True"
| "stmt_ok f (STMT_ASSIGNMENT a) = assign_ok f a"
| "stmt_ok f (STMT_IF c t elif els) = (static_width f c \<noteq> None \<and> stmt_ok f t \<and> stmt_ok f elif \<and> stmt_ok f els)"
| "stmt_ok f (STMT_SELECT s cs) = (static_width f s \<noteq> None \<and> cases_ok f cs)"
| "stmt_ok f (STMT_BLOCK ss) = stmts_ok f ss"
| "stmt_ok f (STMT_MEM_WRITE m addr dat) =
     (case memory_width_of f m of None \<Rightarrow> True
      | Some n \<Rightarrow> static_width f addr \<noteq> None \<and> static_width f dat = Some n)"
| "cases_ok f [] = True"
| "cases_ok f ((v, body) # cs) = (static_width f v \<noteq> None \<and> stmt_ok f body \<and> cases_ok f cs)"
| "stmts_ok f [] = True"
| "stmts_ok f (s # ss) = (stmt_ok f s \<and> stmts_ok f ss)"

text \<open>The signals a statement may read and write, and whether it may write a memory.\<close>

fun stmt_read_set :: "IR_Stmt \<Rightarrow> int set"
and cases_read_set :: "(IR_Expr \<times> IR_Stmt) list \<Rightarrow> int set"
and block_read_set :: "IR_Stmt list \<Rightarrow> int set" where
  "stmt_read_set STMT_NULL = {}"
| "stmt_read_set (STMT_ASSIGNMENT a) = expr_read_set (asgn_rhs a)"
| "stmt_read_set (STMT_IF c t elif els) =
     expr_read_set c \<union> stmt_read_set t \<union> stmt_read_set elif \<union> stmt_read_set els"
| "stmt_read_set (STMT_SELECT s cs) = expr_read_set s \<union> cases_read_set cs"
| "stmt_read_set (STMT_BLOCK ss) = block_read_set ss"
| "stmt_read_set (STMT_MEM_WRITE m addr dat) = expr_read_set addr \<union> expr_read_set dat"
| "cases_read_set [] = {}"
| "cases_read_set ((v, body) # cs) = expr_read_set v \<union> stmt_read_set body \<union> cases_read_set cs"
| "block_read_set [] = {}"
| "block_read_set (s # ss) = stmt_read_set s \<union> block_read_set ss"

fun stmt_write_set :: "IR_Stmt \<Rightarrow> int set"
and cases_write_set :: "(IR_Expr \<times> IR_Stmt) list \<Rightarrow> int set"
and block_write_set :: "IR_Stmt list \<Rightarrow> int set" where
  "stmt_write_set STMT_NULL = {}"
| "stmt_write_set (STMT_ASSIGNMENT a) = {lhs_signal_id a}"
| "stmt_write_set (STMT_IF c t elif els) = stmt_write_set t \<union> stmt_write_set elif \<union> stmt_write_set els"
| "stmt_write_set (STMT_SELECT s cs) = cases_write_set cs"
| "stmt_write_set (STMT_BLOCK ss) = block_write_set ss"
| "stmt_write_set (STMT_MEM_WRITE m addr dat) = {}"
| "cases_write_set [] = {}"
| "cases_write_set ((v, body) # cs) = stmt_write_set body \<union> cases_write_set cs"
| "block_write_set [] = {}"
| "block_write_set (s # ss) = stmt_write_set s \<union> block_write_set ss"

fun writes_memory :: "IR_Stmt \<Rightarrow> bool"
and cases_write_memory :: "(IR_Expr \<times> IR_Stmt) list \<Rightarrow> bool"
and block_writes_memory :: "IR_Stmt list \<Rightarrow> bool" where
  "writes_memory STMT_NULL = False"
| "writes_memory (STMT_ASSIGNMENT a) = False"
| "writes_memory (STMT_IF c t elif els) = (writes_memory t \<or> writes_memory elif \<or> writes_memory els)"
| "writes_memory (STMT_SELECT s cs) = cases_write_memory cs"
| "writes_memory (STMT_BLOCK ss) = block_writes_memory ss"
| "writes_memory (STMT_MEM_WRITE m addr dat) = True"
| "cases_write_memory [] = False"
| "cases_write_memory ((v, body) # cs) = (writes_memory body \<or> cases_write_memory cs)"
| "block_writes_memory [] = False"
| "block_writes_memory (s # ss) = (writes_memory s \<or> block_writes_memory ss)"

text \<open>
  Frames with the same tables, the same widths and the same pending values; \<open>comb_step\<close>
  adds that dirty flags only grow and that a signal whose value differs is marked.
\<close>

definition same_tables :: "SimFrame \<Rightarrow> SimFrame \<Rightarrow> bool" where
  "same_tables f f' \<longleftrightarrow>
     ctx_module f' = ctx_module f \<and> sig_id_map f' = sig_id_map f \<and> max_sig_id f' = max_sig_id f \<and>
     async_chunks f' = async_chunks f \<and> rng_state f' = rng_state f \<and>
     map (\<lambda>e. width (current e)) (signals f') = map (\<lambda>e. width (current e)) (signals f) \<and>
     map word_width (memories f') = map word_width (memories f) \<and>
     map depth (memories f') = map depth (memories f)"

definition comb_step :: "SimFrame \<Rightarrow> SimFrame \<Rightarrow> bool" where
  "comb_step f f' \<longleftrightarrow>
     same_tables f f' \<and> frame_ok f' \<and>
     map (\<lambda>e. (signal_id e, nxt e, has_pending e)) (signals f') = map (\<lambda>e. (signal_id e, nxt e, has_pending e)) (signals f) \<and>
     (settle_dirty f \<longrightarrow> settle_dirty f') \<and> (runtime_error f \<longrightarrow> runtime_error f') \<and>
     (\<forall>k < length (signals f). sig_dirty f ! k \<longrightarrow> sig_dirty f' ! k) \<and>
     (\<forall>k < length (signals f). current (signals f' ! k) \<noteq> current (signals f ! k) \<longrightarrow> sig_dirty f' ! k \<and> settle_dirty f')"

section \<open>Entries of a table\<close>

locale indexed_store =
  fixes get :: "'s \<Rightarrow> 'i \<Rightarrow> 'v" and put :: "'i \<Rightarrow> 'v \<Rightarrow> 's \<Rightarrow> 's" and valid :: "'s \<Rightarrow> 'i \<Rightarrow> bool"
  assumes get_put_same: "valid s i \<Longrightarrow> get (put i v s) i = v"
    and get_put_other: "i \<noteq> j \<Longrightarrow> get (put i v s) j = get s j"
    and valid_put: "valid (put i v s) j \<longleftrightarrow> valid s j"
begin

lemma get_put: "valid s i \<Longrightarrow> get (put i v s) j = (if i = j then v else get s j)"
  using get_put_same get_put_other by auto

text \<open>After a sequence of writes an entry holds the last value written to it.\<close>

definition put_all :: "('i \<times> 'v) list \<Rightarrow> 's \<Rightarrow> 's" where
  "put_all ws s = fold (\<lambda>(i, v). put i v) ws s"

lemma put_all_simps [simp]: "put_all [] s = s" "put_all (w # ws) s = put_all ws (put (fst w) (snd w) s)"
  by (simp_all add: put_all_def case_prod_beta)

lemma valid_put_all: "valid (put_all ws s) j \<longleftrightarrow> valid s j"
  by (induction ws arbitrary: s) (simp_all add: valid_put)

lemma get_put_all_other: "j \<notin> fst ` set ws \<Longrightarrow> get (put_all ws s) j = get s j"
  by (induction ws arbitrary: s) (auto simp: get_put_other)

lemma get_put_all:
  assumes "valid s j"
  shows "get (put_all ws s) j = (case map_of (rev ws) j of None \<Rightarrow> get s j | Some v \<Rightarrow> v)"
  using assms
proof (induction ws rule: rev_induct)
  case Nil
  then show ?case by simp
next
  case (snoc w ws)
  then show ?case
    using get_put [of "put_all ws s" "fst w" "snd w" j] get_put_other [of "fst w" j "snd w" "put_all ws s"]
    by (cases "fst w = j") (auto simp: put_all_def valid_put_all [unfolded put_all_def] case_prod_beta get_put_same)
qed

end

interpretation current_store: indexed_store "\<lambda>f i. current (signals f ! i)" set_current "\<lambda>f i. i < length (signals f)"
  by unfold_locales (simp_all add: set_current_def nth_update_or)

text \<open>The pending value of an entry: none, or the value that the next update will make current.\<close>

definition pending :: "SimFrame \<Rightarrow> nat \<Rightarrow> SimValue option" where
  "pending f i = (if has_pending (signals f ! i) then Some (nxt (signals f ! i)) else None)"

definition put_pending :: "nat \<Rightarrow> SimValue option \<Rightarrow> SimFrame \<Rightarrow> SimFrame" where
  "put_pending i v f = (case v of Some x \<Rightarrow> set_pending i x f
     | None \<Rightarrow> f\<lparr>signals := (signals f)[i := (signals f ! i)\<lparr>has_pending := False\<rparr>]\<rparr>)"

interpretation pending_store: indexed_store pending put_pending "\<lambda>f i. i < length (signals f)"
  by unfold_locales
    (auto simp: pending_def put_pending_def set_pending_def nth_update_or split: option.splits)

interpretation cell_store: indexed_store "\<lambda>m i. cells m ! i" "\<lambda>i v m. m\<lparr>cells := (cells m)[i := v]\<rparr>" "\<lambda>m i. i < length (cells m)"
  by unfold_locales (simp_all add: nth_update_or)

lemma frame_simps [simp]:
  "signals (mark_dirty i f) = signals f" "memories (mark_dirty i f) = memories f"
  "sig_dirty (set_current i v f) = sig_dirty f" "sig_dirty (set_pending i v f) = sig_dirty f"
  "sig_dirty (mark_dirty i f) = (sig_dirty f)[i := True]" "settle_dirty (mark_dirty i f)"
  "settle_dirty (set_current i v f) = settle_dirty f" "settle_dirty (set_pending i v f) = settle_dirty f"
  "memories (set_current i v f) = memories f" "memories (set_pending i v f) = memories f"
  "length (signals (set_current i v f)) = length (signals f)" "length (signals (set_pending i v f)) = length (signals f)"
  by (simp_all add: mark_dirty_def set_current_def set_pending_def)

section \<open>Writing a part select\<close>

lemma copy_plane_bit_wbit:
  assumes "length dst = 4" "length src = 4" "lsb + b < 256"
  shows "length (copy_plane_bit (int lsb) src b dst) = 4"
    "wbit (copy_plane_bit (int lsb) src b dst) n \<longleftrightarrow> (if n = lsb + b then wbit src b else wbit dst n)"
proof -
  have idx: "nat ((int lsb + int b) div 64) = (lsb + b) div 64" "nat ((int lsb + int b) mod 64) = (lsb + b) mod 64"
    using nat_int_div_64 [of "lsb + b"] by simp_all
  have t: "drop_bit (b mod 64) (src ! (b div 64)) AND 1 = (if wbit src b then 1 else 0)"
    using assms(2,3) by (simp add: wbit_def and_one_eq bit_iff_odd_drop_bit odd_iff_mod_2_eq_one)
  have eq: "copy_plane_bit (int lsb) src b dst = dst[(lsb + b) div 64 :=
      (dst ! ((lsb + b) div 64) AND NOT (push_bit ((lsb + b) mod 64) 1)) OR
      push_bit ((lsb + b) mod 64) (if wbit src b then 1 else 0)]"
    by (simp only: copy_plane_bit_def Let_def idx t)
  show "length (copy_plane_bit (int lsb) src b dst) = 4" using assms(1) by (simp add: eq)
  show "wbit (copy_plane_bit (int lsb) src b dst) n \<longleftrightarrow> (if n = lsb + b then wbit src b else wbit dst n)"
    unfolding eq by (rule wbit_put [OF assms(1,3)])
qed

lemma copy_loop_wbit:
  assumes "length dst = 4" "length src = 4" "lsb + k \<le> 256"
  shows "length (for_loop k (copy_plane_bit (int lsb) src) dst) = 4 \<and>
         (\<forall>n. wbit (for_loop k (copy_plane_bit (int lsb) src) dst) n \<longleftrightarrow>
            (if lsb \<le> n \<and> n < lsb + k then wbit src (n - lsb) else wbit dst n))"
  using assms(3)
proof (induction k)
  case 0
  then show ?case using assms(1) by auto
next
  case (Suc k)
  then have IH: "length (for_loop k (copy_plane_bit (int lsb) src) dst) = 4"
    "\<And>n. wbit (for_loop k (copy_plane_bit (int lsb) src) dst) n \<longleftrightarrow>
            (if lsb \<le> n \<and> n < lsb + k then wbit src (n - lsb) else wbit dst n)"
    by simp_all
  show ?case
    using copy_plane_bit_wbit [OF IH(1) assms(2), of lsb k] Suc.prems IH(2) by auto
qed

lemma write_slice_planes:
  "write_slice rhs msb lsb t =
   t\<lparr>val := for_loop (nat (msb - lsb + 1)) (copy_plane_bit lsb (val rhs)) (val t),
     xmask := for_loop (nat (msb - lsb + 1)) (copy_plane_bit lsb (xmask rhs)) (xmask t),
     zmask := for_loop (nat (msb - lsb + 1)) (copy_plane_bit lsb (zmask rhs)) (zmask t)\<rparr>"
  unfolding write_slice_def by (rule for_loop_concat_planes)

lemma write_slice_bits:
  assumes "sim_val_wf rhs" "sim_val_wf t" "0 \<le> lsb" "lsb \<le> msb" "msb < width t"
  shows "sim_val_wf (write_slice rhs msb lsb t)" "width (write_slice rhs msb lsb t) = width t"
    "sim_bit (write_slice rhs msb lsb t) n =
     (if lsb \<le> int n \<and> int n \<le> msb then sim_bit rhs (n - nat lsb) else sim_bit t n)"
proof -
  define l where "l = nat lsb"
  define k where "k = nat (msb - lsb + 1)"
  have l: "lsb = int l" using assms(3) by (simp add: l_def)
  have le: "l + k \<le> 256" and in_slice: "\<And>n. (lsb \<le> int n \<and> int n \<le> msb) \<longleftrightarrow> (l \<le> n \<and> n < l + k)"
    using assms(3-5) sim_val_wfD(2) [OF assms(2)] by (auto simp: l_def k_def)
  have W: "length (for_loop k (copy_plane_bit (int l) a) b) = 4"
    "wbit (for_loop k (copy_plane_bit (int l) a) b) n \<longleftrightarrow> (if l \<le> n \<and> n < l + k then wbit a (n - l) else wbit b n)"
    if "length a = 4" "length b = 4" for a b n
    using copy_loop_wbit [OF that(2,1) le] by blast+
  let ?r = "write_slice rhs msb lsb t"
  let ?b = "\<lambda>n. if l \<le> n \<and> n < l + k then sim_bit rhs (n - l) else sim_bit t n"
  have eq: "?r = t\<lparr>val := for_loop k (copy_plane_bit (int l) (val rhs)) (val t),
     xmask := for_loop k (copy_plane_bit (int l) (xmask rhs)) (xmask t),
     zmask := for_loop k (copy_plane_bit (int l) (zmask rhs)) (zmask t)\<rparr>"
    by (simp add: write_slice_planes k_def l)
  have beyond: "?b n \<noteq> B0 \<Longrightarrow> int n < width t" for n
    using sim_bit_beyond [OF assms(2), of n] assms(5) in_slice [of n] by (cases "int n < width t") auto
  have "sim_val_wf ?r" "sim_bit ?r n = ?b n" for n
    unfolding eq
    by (rule planes_wfI [where t = ?b];
        use assms(1,2) beyond in \<open>simp add: sim_val_wfD W sim_bit_planes [OF assms(1)] sim_bit_planes [OF assms(2)]\<close>)+
  then show "sim_val_wf ?r" "sim_bit ?r n = (if lsb \<le> int n \<and> int n \<le> msb then sim_bit rhs (n - nat lsb) else sim_bit t n)"
    by (auto simp: in_slice l_def [symmetric])
  show "width ?r = width t" by (simp add: eq)
qed

lemma extend_rhs_typed:
  assumes "sim_val_wf v" "extend_ok k t (width v)" "0 \<le> t" "t \<le> 256"
  shows "typed (extend_rhs k t v) t"
  using assms sim_val_zext_bits [OF assms(1,4)] sim_val_sext_bits(1,2) [OF assms(1) _ assms(4)]
  by (auto simp: extend_rhs_def extend_ok_def typed_def sim_val_wf_resize split: if_splits)

section \<open>Equality of stored words\<close>

lemma span_words_cover: "0 \<le> w \<Longrightarrow> int n < w \<Longrightarrow> n div 64 < span_words w"
proof -
  assume "0 \<le> w" "int n < w"
  then have "int (n div 64) < (w + 63) div 64" by (simp add: zdiv_int)
  then show ?thesis by (simp add: span_words_def nat_less_iff zless_nat_eq_int_zless)
qed

lemma same_words_bits:
  assumes "same_words a b lo hi" "length (val a) = 4" "length (xmask a) = 4" "length (zmask a) = 4"
    "length (val b) = 4" "length (xmask b) = 4" "length (zmask b) = 4" "lo \<le> n div 64" "n div 64 < hi"
  shows "sim_bit a n = sim_bit b n"
  using assms by (auto simp: same_words_def list_all_iff sim_bit_def wbit_def)

lemma sim_val_same_eq:
  assumes "sim_val_wf a" "sim_val_wf b" "width a = width b" "sim_val_same a b (span_words (width a))"
  shows "a = b"
proof (rule sim_val_eqI [OF assms(1-3)])
  fix n assume "int n < width a"
  then show "sim_bit a n = sim_bit b n"
    using same_words_bits [OF assms(4) [unfolded sim_val_same_def]] span_words_cover [of "width a" n]
      sim_val_wfD(1,3-5) [OF assms(1)] sim_val_wfD(3-5) [OF assms(2)] by simp
qed

lemma write_slice_same:
  assumes "sim_val_wf rhs" "sim_val_wf t" "0 \<le> lsb" "lsb \<le> msb" "msb < width t"
    and "same_words (write_slice rhs msb lsb t) t (nat (lsb div 64)) (nat (msb div 64) + 1)"
  shows "write_slice rhs msb lsb t = t"
proof -
  note W = write_slice_bits [OF assms(1-5)]
  show ?thesis
  proof (rule sim_val_eqI [OF W(1) assms(2) W(2)])
    fix n
    show "sim_bit (write_slice rhs msb lsb t) n = sim_bit t n"
    proof (cases "lsb \<le> int n \<and> int n \<le> msb")
      case True
      then obtain l m where lm: "lsb = int l" "msb = int m" "l \<le> n" "n \<le> m"
        using assms(3) by (metis int_ops(1) nonneg_int_cases of_nat_le_iff order_trans)
      have "nat (lsb div 64) \<le> n div 64" "n div 64 < nat (msb div 64) + 1"
        using div_le_mono [OF lm(3), of 64] div_le_mono [OF lm(4), of 64] by (simp_all add: lm(1,2))
      then show ?thesis
        using same_words_bits [OF assms(6)] sim_val_wfD(3-5) [OF W(1)] sim_val_wfD(3-5) [OF assms(2)] by simp
    next
      case False
      then show ?thesis using W(3) by auto
    qed
  qed
qed

section \<open>Frames with the same tables\<close>

lemma same_tables_refl [simp]: "same_tables f f"
  by (simp add: same_tables_def)

lemma same_tables_trans: "same_tables f g \<Longrightarrow> same_tables g h \<Longrightarrow> same_tables f h"
  by (simp add: same_tables_def)

lemma same_tables_length:
  assumes "same_tables f f'"
  shows "length (signals f') = length (signals f)" "length (memories f') = length (memories f)"
  using assms by (auto simp: same_tables_def dest: map_eq_imp_length_eq)

lemma same_tables_lookup:
  assumes "same_tables f f'"
  shows "sim_ctx_lookup f' = sim_ctx_lookup f" "sim_ctx_lookup_mem f' = sim_ctx_lookup_mem f"
  using assms same_tables_length [OF assms]
  by (auto simp: same_tables_def sim_ctx_lookup_def sim_ctx_lookup_mem_def fun_eq_iff)

lemma same_tables_width:
  assumes "same_tables f f'" "k < length (signals f)"
  shows "width (current (signals f' ! k)) = width (current (signals f ! k))"
  using assms same_tables_length(1) [OF assms(1)] by (simp add: same_tables_def list_eq_iff_nth_eq)

lemma same_tables_memory:
  assumes "same_tables f f'" "k < length (memories f)"
  shows "word_width (memories f' ! k) = word_width (memories f ! k)" "depth (memories f' ! k) = depth (memories f ! k)"
  using assms same_tables_length(2) [OF assms(1)] by (simp_all add: same_tables_def list_eq_iff_nth_eq)

lemma width_of_cong:
  assumes "same_tables f f'" "frame_ok f"
  shows "signal_width_of f' = signal_width_of f" "memory_width_of f' = memory_width_of f"
proof -
  show "signal_width_of f' = signal_width_of f"
    using same_tables_width [OF assms(1)] same_tables_lookup(1) [OF assms(1)] lookup_range [OF assms(2)]
    by (auto simp: signal_width_of_def fun_eq_iff intro!: map_option_cong)
  show "memory_width_of f' = memory_width_of f"
    using same_tables_memory [OF assms(1)] same_tables_lookup(2) [OF assms(1)] lookup_mem_range
    by (auto simp: memory_width_of_def fun_eq_iff intro!: map_option_cong)
qed

lemma static_width_cong:
  assumes "signal_width_of f' = signal_width_of f" "memory_width_of f' = memory_width_of f"
  shows "static_width f' e = static_width f e" "static_widths f' n es = static_widths f n es"
proof (induction e and es arbitrary: and n rule: expr_read_set_exprs_read_set.induct)
  case (12 e es)
  then show ?case by (cases n) simp_all
qed (simp_all add: assms cong: option.case_cong)

lemma stmt_ok_cong_widths:
  assumes "signal_width_of f' = signal_width_of f" "memory_width_of f' = memory_width_of f"
  shows "stmt_ok f' s = stmt_ok f s" "cases_ok f' cs = cases_ok f cs" "stmts_ok f' ss = stmts_ok f ss"
  by (induction s and cs and ss rule: stmt_read_set_cases_read_set_block_read_set.induct)
    (simp_all add: assign_ok_def assms static_width_cong [OF assms] cong: option.case_cong)

lemma stmt_ok_cong:
  assumes "same_tables f f'" "frame_ok f"
  shows "stmt_ok f' s = stmt_ok f s" "cases_ok f' cs = cases_ok f cs" "stmts_ok f' ss = stmts_ok f ss"
    "static_width f' e = static_width f e"
  using stmt_ok_cong_widths [OF width_of_cong [OF assms]] static_width_cong [OF width_of_cong [OF assms]] by simp_all

section \<open>Combinational steps\<close>

lemma comb_step_refl: "frame_ok f \<Longrightarrow> comb_step f f"
  by (simp add: comb_step_def)

lemma comb_stepD:
  assumes "comb_step f f'"
  shows "same_tables f f'" "frame_ok f'" "settle_dirty f \<Longrightarrow> settle_dirty f'"
    "length (signals f') = length (signals f)"
    "k < length (signals f) \<Longrightarrow> sig_dirty f ! k \<Longrightarrow> sig_dirty f' ! k"
    "k < length (signals f) \<Longrightarrow> current (signals f' ! k) \<noteq> current (signals f ! k) \<Longrightarrow> sig_dirty f' ! k \<and> settle_dirty f'"
  using assms same_tables_length(1) by (auto simp: comb_step_def)

lemma comb_step_trans:
  assumes "comb_step f g" "comb_step g h"
  shows "comb_step f h"
proof -
  note F = comb_stepD [OF assms(1)] and G = comb_stepD [OF assms(2)]
  have "sig_dirty h ! k \<and> settle_dirty h"
    if "k < length (signals f)" "current (signals h ! k) \<noteq> current (signals f ! k)" for k
  proof (cases "current (signals g ! k) = current (signals f ! k)")
    case True
    then show ?thesis using G(6) [of k] that F(4) by simp
  next
    case False
    then show ?thesis using F(6) [of k] G(3) G(5) [of k] that F(4) by simp
  qed
  then show ?thesis
    using assms same_tables_trans [OF F(1) G(1)] F(4) by (simp add: comb_step_def)
qed

lemma comb_step_error: "frame_ok f \<Longrightarrow> comb_step f (f\<lparr>runtime_error := runtime_error f \<or> b\<rparr>)"
  by (simp add: comb_step_def same_tables_def frame_ok_def)

lemma comb_step_raise: "frame_ok f \<Longrightarrow> comb_step f (raise_error f)"
  using comb_step_error [of f True] by (auto simp: raise_error_def comb_step_refl)

lemma list_all_update: "list_all P xs \<Longrightarrow> P y \<Longrightarrow> list_all P (xs[k := y])"
  by (auto simp: list_all_iff dest!: set_update_subset_insert [THEN subsetD])

lemma frame_ok_set_current:
  assumes "frame_ok f" "k < length (signals f)" "typed v (width (current (signals f ! k)))"
  shows "frame_ok (set_current k v f)"
proof -
  have e: "entry_ok ((signals f ! k)\<lparr>current := v\<rparr>)"
    using frame_ok_entry [OF assms(1,2)] assms(3) by (simp add: entry_ok_def typed_def)
  have "list_all entry_ok ((signals f)[k := (signals f ! k)\<lparr>current := v\<rparr>])"
    using assms(1) e by (simp add: frame_ok_def list_all_update)
  then show ?thesis using assms(1) by (simp add: frame_ok_def set_current_def)
qed

lemma frame_ok_mark_dirty: "frame_ok f \<Longrightarrow> frame_ok (mark_dirty k f)"
  by (simp add: frame_ok_def mark_dirty_def)

lemma map_update_same: "k < length xs \<Longrightarrow> g y = g (xs ! k) \<Longrightarrow> map g (xs[k := y]) = map g xs"
  by (simp add: map_update list_update_same_conv)

lemma comb_step_write:
  assumes "frame_ok f" "k < length (signals f)" "typed v (width (current (signals f ! k)))"
  shows "comb_step f (mark_dirty k (set_current k v f))"
proof -
  have len: "length (sig_dirty f) = length (signals f)" using assms(1) by (simp add: frame_ok_def)
  have "same_tables f (mark_dirty k (set_current k v f))"
    using assms(2,3) by (simp add: same_tables_def mark_dirty_def set_current_def map_update_same typed_def)
  moreover have "frame_ok (mark_dirty k (set_current k v f))"
    by (rule frame_ok_mark_dirty frame_ok_set_current assms)+
  moreover have "map (\<lambda>e. (signal_id e, nxt e, has_pending e)) (signals (set_current k v f)) =
      map (\<lambda>e. (signal_id e, nxt e, has_pending e)) (signals f)"
    using assms(2) by (simp add: set_current_def map_update_same)
  ultimately show ?thesis
    using assms(2) len current_store.get_put_other [of k _ v f]
    by (auto simp: comb_step_def nth_list_update) (simp add: mark_dirty_def set_current_def)
qed

lemma set_current_same: "k < length (signals f) \<Longrightarrow> set_current k (current (signals f ! k)) f = f"
  by (simp add: set_current_def)

lemma assign_slice_step:
  assumes "frame_ok f" "k < length (signals f)" "sim_val_wf rhs" "0 \<le> lsb" "lsb \<le> msb"
    and "msb < width (current (signals f ! k))"
  shows "comb_step f (assign_slice k rhs msb lsb False f)"
proof -
  define c where "c = current (signals f ! k)"
  have c: "sim_val_wf c" using frame_ok_entry [OF assms(1,2)] by (simp add: c_def entry_ok_def)
  define t where "t = write_slice rhs msb lsb c"
  have t: "typed t (width c)" using write_slice_bits(1,2) [OF assms(3) c assms(4,5)] assms(6) by (simp add: t_def c_def typed_def)
  show ?thesis
  proof (cases "same_words t c (nat (lsb div 64)) (nat (msb div 64) + 1)")
    case True
    then have "t = c" using write_slice_same [OF assms(3) c assms(4,5)] assms(6) by (simp add: t_def c_def)
    then have "assign_slice k rhs msb lsb False f = f"
      using True set_current_same [OF assms(2)]
      by (simp add: assign_slice_def Let_def c_def [symmetric] t_def [symmetric])
    then show ?thesis using comb_step_refl [OF assms(1)] by simp
  next
    case False
    then have "assign_slice k rhs msb lsb False f = mark_dirty k (set_current k t f)"
      by (simp add: assign_slice_def Let_def c_def [symmetric] t_def [symmetric])
    then show ?thesis using comb_step_write [OF assms(1,2), of t] t by (simp add: c_def)
  qed
qed

lemma assign_full_step:
  assumes "frame_ok f" "k < length (signals f)" "typed rhs (width (current (signals f ! k)))"
  shows "comb_step f (assign_full k rhs False f)"
  using comb_step_refl [OF assms(1)] comb_step_write [OF assms] by (simp add: assign_full_def Let_def)

lemma apply_assign_step:
  assumes "frame_ok f" "assign_ok f a"
  shows "comb_step f (apply_assign f a False)"
proof (cases "sim_ctx_lookup f (lhs_signal_id a)")
  case None
  then show ?thesis using comb_step_refl [OF assms(1)] by (simp add: apply_assign_def)
next
  case (Some k)
  define f1 where "f1 = f\<lparr>runtime_error := runtime_error f \<or> expr_raises f (asgn_rhs a)\<rparr>"
  define t where "t = width (current (signals f ! k))"
  have f1: "comb_step f f1" "frame_ok f1" "signals f1 = signals f"
    using comb_step_error [OF assms(1)] comb_stepD(2) by (auto simp: f1_def)
  have k: "k < length (signals f1)" using lookup_range [OF assms(1) Some] f1(3) by simp
  have cwf: "sim_val_wf (current (signals f ! k))" using frame_ok_current [OF assms(1) Some] .
  obtain w where w: "static_width f (asgn_rhs a) = Some w" "extend_ok (asgn_kind a) t w"
    "is_sliced a \<longrightarrow> 0 \<le> lhs_lsb a \<and> lhs_lsb a \<le> lhs_msb a \<and> lhs_msb a < t"
    using assms(2) Some by (auto simp: assign_ok_def signal_width_of_def t_def split: option.splits)
  define rhs where "rhs = extend_rhs (asgn_kind a) t (expr_value f (asgn_rhs a))"
  have rhs: "typed rhs t"
    using expr_value_typed(1) [OF assms(1) w(1)] w(2) extend_rhs_typed [of "expr_value f (asgn_rhs a)" "asgn_kind a" t]
      sim_val_wfD(1,2) [OF cwf] by (simp add: rhs_def typed_def t_def)
  have eq: "apply_assign f a False =
      (if is_sliced a then assign_slice k rhs (lhs_msb a) (lhs_lsb a) False f1 else assign_full k rhs False f1)"
    using Some by (simp add: apply_assign_def sim_eval_expr_eq f1_def [symmetric] f1(3) t_def [symmetric] rhs_def)
  have "comb_step f1 (apply_assign f a False)"
    using assign_slice_step [OF f1(2) k typed_wf(1) [OF rhs]] assign_full_step [OF f1(2) k, of rhs] rhs w(3)
    by (simp add: eq f1(3) t_def)
  then show ?thesis using comb_step_trans [OF f1(1)] by blast
qed

lemma eval_step:
  assumes "frame_ok f" "sim_eval_expr f e = (v, f')"
  shows "comb_step f f'" "frame_ok f'" "v = expr_value f e" "same_tables f f'"
    "f' = f\<lparr>runtime_error := runtime_error f \<or> expr_raises f e\<rparr>"
  using assms comb_step_error [OF assms(1), of "expr_raises f e"] comb_stepD(1,2) by (auto simp: sim_eval_expr_eq)

lemma exec_mem_write_step:
  assumes "frame_ok f" "stmt_ok f (STMT_MEM_WRITE m addr dat)"
  shows "comb_step f (exec_mem_write f m addr dat)"
proof (cases "sim_ctx_lookup_mem f m")
  case None
  then show ?thesis using comb_step_refl [OF assms(1)] by (simp add: exec_mem_write_def)
next
  case (Some mi)
  have mi: "mi < length (memories f)" using lookup_mem_range [OF Some] .
  obtain av f1 where e1: "sim_eval_expr f addr = (av, f1)" by fastforce
  obtain dv f2 where e2: "sim_eval_expr f1 dat = (dv, f2)" by fastforce
  note E1 = eval_step [OF assms(1) e1]
  note E2 = eval_step [OF E1(2) e2]
  let ?me = "memories f ! mi"
  have mem: "memories f2 = memories f" using E1(5) E2(5) by simp
  have "typed dv (word_width ?me)"
    using expr_value_typed(1) [OF E1(2), of dat "word_width ?me"] stmt_ok_cong(4) [OF E1(4) assms(1), of dat]
      assms(2) Some E2(3) by (simp add: memory_width_of_def)
  then have "memory_ok (?me\<lparr>cells := (cells ?me)[nat i := dv]\<rparr>)" for i
    using frame_ok_memory [OF assms(1) mi]
    by (auto simp: memory_ok_def typed_def dest!: set_update_subset_insert [THEN subsetD])
  then have "comb_step f2 (f2\<lparr>memories := (memories f2)[mi := ?me\<lparr>cells := (cells ?me)[nat i := dv]\<rparr>]\<rparr>)" for i
    using E2(2) mi mem by (simp add: comb_step_def same_tables_def frame_ok_def map_update_same list_all_update)
  then have "comb_step f2 (exec_mem_write f m addr dat)"
    using Some e1 e2 mem comb_step_refl [OF E2(2)] by (simp add: exec_mem_write_def Let_def split: option.split)
  then show ?thesis using comb_step_trans [OF comb_step_trans [OF E1(1) E2(1)]] by blast
qed

lemma step_ok:
  assumes "comb_step f f'" "frame_ok f"
  shows "frame_ok f'" "stmt_ok f s \<Longrightarrow> stmt_ok f' s" "cases_ok f cs \<Longrightarrow> cases_ok f' cs" "stmts_ok f ss \<Longrightarrow> stmts_ok f' ss"
  using comb_stepD(1,2) [OF assms(1)] stmt_ok_cong [OF comb_stepD(1) [OF assms(1)] assms(2)] by simp_all

lemma elif_not_if:
  "\<not> (\<exists>c t e l. s = STMT_IF c t e l) \<Longrightarrow> exec_elif f s els n = sim_exec_stmt f els n"
  by (cases s) auto

lemma sim_exec_stmt_step:
  "frame_ok f \<Longrightarrow> stmt_ok f s \<Longrightarrow> \<not> n \<Longrightarrow> comb_step f (sim_exec_stmt f s n)"
  "frame_ok f \<Longrightarrow> stmt_ok f elif \<Longrightarrow> stmt_ok f els \<Longrightarrow> \<not> n \<Longrightarrow> comb_step f (exec_elif f elif els n)"
  "frame_ok f \<Longrightarrow> cases_ok f cs \<Longrightarrow> \<not> n \<Longrightarrow> comb_step f (exec_cases f sel cs n)"
  "frame_ok f \<Longrightarrow> stmts_ok f ss \<Longrightarrow> \<not> n \<Longrightarrow> comb_step f (exec_block f ss n)"
proof (induction f s n and f elif els n and f sel cs n and f ss n
    rule: sim_exec_stmt_exec_elif_exec_cases_exec_block.induct)
  case (1 ctx is_nba)
  then show ?case by (simp add: comb_step_refl)
next
  case (2 ctx a is_nba)
  then show ?case using apply_assign_step by simp
next
  case (3 ctx c t elif els is_nba)
  obtain v f1 where e: "sim_eval_expr ctx c = (v, f1)" by fastforce
  note E = eval_step [OF "3.prems"(1) e]
  have "comb_step f1 (sim_exec_stmt ctx (STMT_IF c t elif els) is_nba)"
    using 3 e E step_ok [OF E(1) "3.prems"(1)] comb_step_raise [OF E(2)] by (simp add: Let_def)
  then show ?case using comb_step_trans [OF E(1)] by blast
next
  case (4 ctx s cs is_nba)
  obtain v f1 where e: "sim_eval_expr ctx s = (v, f1)" by fastforce
  note E = eval_step [OF "4.prems"(1) e]
  have "comb_step f1 (sim_exec_stmt ctx (STMT_SELECT s cs) is_nba)"
    using 4 e E step_ok [OF E(1) "4.prems"(1)] comb_step_raise [OF E(2)] by (simp add: Let_def)
  then show ?case using comb_step_trans [OF E(1)] by blast
next
  case (5 ctx ss is_nba)
  then show ?case by simp
next
  case (6 ctx m addr dat is_nba)
  then show ?case using exec_mem_write_step by simp
next
  case (7 ctx c t elif u els is_nba)
  obtain v f1 where e: "sim_eval_expr ctx c = (v, f1)" by fastforce
  note E = eval_step [OF "7.prems"(1) e]
  have "comb_step f1 (exec_elif ctx (STMT_IF c t elif u) els is_nba)"
    using 7 e E step_ok [OF E(1) "7.prems"(1)] comb_step_raise [OF E(2)] by (simp add: Let_def)
  then show ?case using comb_step_trans [OF E(1)] by blast
next
  case (10 ctx selector v body cs is_nba)
  obtain w f1 where e: "sim_eval_expr ctx v = (w, f1)" by fastforce
  note E = eval_step [OF "10.prems"(1) e]
  have "v \<noteq> EXPR_NULL \<Longrightarrow> comb_step f1 (exec_cases ctx selector ((v, body) # cs) is_nba)"
    using 10 e E step_ok [OF E(1) "10.prems"(1)] by (simp add: Let_def)
  then show ?case using comb_step_trans [OF E(1)] 10 by (cases "v = EXPR_NULL") auto
next
  case (12 ctx s ss is_nba)
  then have "comb_step ctx (sim_exec_stmt ctx s is_nba)" by simp
  then show ?case
    using 12 step_ok [of ctx "sim_exec_stmt ctx s is_nba"] comb_step_trans by auto
qed (simp_all add: comb_step_refl)

end
