(* ===== verification/Sim_Exec_Deps.thy ===== *)
theory Sim_Exec_Deps
  imports Sim_Exec_Frame
begin

text \<open>
  The dependency analysis of sim_state.c against the execution of sim_exec.c: a combinational
  execution changes only the signals collected as writes, and what it computes depends only on
  the signals collected as reads and on the old values of the written ones.
\<close>

section \<open>Collected sets\<close>

lemma set_collect_deps:
  "set (fst (collect_stmt_deps s d)) = set (fst d) \<union> stmt_read_set s \<and>
   set (snd (collect_stmt_deps s d)) = set (snd d) \<union> stmt_write_set s"
  "set (fst (collect_case_deps cs d)) = set (fst d) \<union> cases_read_set cs \<and>
   set (snd (collect_case_deps cs d)) = set (snd d) \<union> cases_write_set cs"
  "set (fst (collect_block_deps ss d)) = set (fst d) \<union> block_read_set ss \<and>
   set (snd (collect_block_deps ss d)) = set (snd d) \<union> block_write_set ss"
  by (induction s d and cs d and ss d rule: collect_stmt_deps_collect_case_deps_collect_block_deps.induct)
    (auto simp: set_collect_reads)

lemma set_sigids_to_indices:
  "set (sigids_to_indices f ids) = {k. \<exists>i \<in> set ids. sim_ctx_lookup f i = Some k}"
proof -
  have "set (fold (\<lambda>i indices. case sim_ctx_lookup f i of None \<Rightarrow> indices
        | Some idx \<Rightarrow> if idx \<in> set indices then indices else indices @ [idx]) ids acc) =
      set acc \<union> {k. \<exists>i \<in> set ids. sim_ctx_lookup f i = Some k}" for acc
    by (induction ids arbitrary: acc) (auto split: option.splits)
  then show ?thesis by (simp add: sigids_to_indices_def)
qed

lemma make_chunk_sets:
  "chunk_stmt (make_chunk f s) = s"
  "set (read_indices (make_chunk f s)) = {k. \<exists>i \<in> stmt_read_set s. sim_ctx_lookup f i = Some k}"
  "set (write_indices (make_chunk f s)) = {k. \<exists>i \<in> stmt_write_set s. sim_ctx_lookup f i = Some k}"
  using set_collect_deps(1) [of s "([], [])"]
  by (auto simp: make_chunk_def case_prod_beta set_sigids_to_indices)

section \<open>Only collected writes change\<close>

text \<open>Everything but the entries with the given ids, the flags and the memories is as before.\<close>

definition unchanged_but :: "int set \<Rightarrow> SimFrame \<Rightarrow> SimFrame \<Rightarrow> bool" where
  "unchanged_but ids f f' \<longleftrightarrow>
     ctx_module f' = ctx_module f \<and> sig_id_map f' = sig_id_map f \<and> max_sig_id f' = max_sig_id f \<and>
     length (signals f') = length (signals f) \<and> length (memories f') = length (memories f) \<and>
     (\<forall>k. (\<forall>i \<in> ids. sim_ctx_lookup f i \<noteq> Some k) \<longrightarrow> signals f' ! k = signals f ! k \<and> sig_dirty f' ! k = sig_dirty f ! k)"

lemma unchanged_but_refl [simp]: "unchanged_but A f f"
  by (simp add: unchanged_but_def)

lemma unchanged_but_lookup:
  assumes "unchanged_but A f f'"
  shows "sim_ctx_lookup f' = sim_ctx_lookup f" "sim_ctx_lookup_mem f' = sim_ctx_lookup_mem f"
  using assms by (auto simp: unchanged_but_def sim_ctx_lookup_def sim_ctx_lookup_mem_def fun_eq_iff)

lemma unchanged_but_trans:
  assumes "unchanged_but A f g" "unchanged_but B g h"
  shows "unchanged_but (A \<union> B) f h"
  using assms unchanged_but_lookup(1) [OF assms(1)] by (auto simp: unchanged_but_def)

lemma unchanged_but_mono: "unchanged_but A f g \<Longrightarrow> A \<subseteq> B \<Longrightarrow> unchanged_but B f g"
  by (auto simp: unchanged_but_def)

lemma unchanged_but_trans': "unchanged_but A f g \<Longrightarrow> unchanged_but A g h \<Longrightarrow> unchanged_but A f h"
  using unchanged_but_trans [of A f g A h] by simp

lemma unchanged_but_error [simp]: "unchanged_but A f (f\<lparr>runtime_error := b\<rparr>)"
  by (simp add: unchanged_but_def)

lemma unchanged_but_raise [simp]: "unchanged_but A f (raise_error f)"
  by (simp add: raise_error_def)

lemma assign_unchanged:
  assumes "sim_ctx_lookup f i = Some k"
  shows "unchanged_but {i} f (set_current k v f)" "unchanged_but {i} f (mark_dirty k (set_current k v f))"
    "unchanged_but {i} f (set_pending k v f)"
  using assms
  by (auto simp: unchanged_but_def set_current_def set_pending_def mark_dirty_def nth_update_or)

lemma apply_assign_unchanged: "unchanged_but {lhs_signal_id a} f (apply_assign f a n)"
proof (cases "sim_ctx_lookup f (lhs_signal_id a)")
  case None
  then show ?thesis by (simp add: apply_assign_def)
next
  case (Some k)
  define f1 where "f1 = f\<lparr>runtime_error := runtime_error f \<or> expr_raises f (asgn_rhs a)\<rparr>"
  have l: "sim_ctx_lookup f1 (lhs_signal_id a) = Some k" using Some by (simp add: f1_def)
  have "unchanged_but {lhs_signal_id a} f1 (apply_assign f a n)"
    using Some assign_unchanged [OF l]
    by (simp add: apply_assign_def sim_eval_expr_eq f1_def [symmetric] Let_def assign_slice_def assign_full_def)
  then show ?thesis using unchanged_but_trans' [of "{lhs_signal_id a}" f f1] by (simp add: f1_def)
qed

lemma exec_mem_write_unchanged: "unchanged_but {} f (exec_mem_write f m addr dat)"
proof -
  have "unchanged_but {} f (f\<lparr>runtime_error := b, memories := (memories f)[k := x]\<rparr>)" for b k x
    by (simp add: unchanged_but_def)
  then show ?thesis
    by (auto simp: exec_mem_write_def sim_eval_expr_eq Let_def split: option.splits)
qed

lemma eval_unchanged: "sim_eval_expr f e = (v, f1) \<Longrightarrow> unchanged_but A f1 g \<Longrightarrow> unchanged_but A f g"
  using unchanged_but_trans' [of A f f1 g] by (auto simp: sim_eval_expr_eq)

lemma exec_unchanged:
  "unchanged_but (stmt_write_set s) f (sim_exec_stmt f s n)"
  "unchanged_but (stmt_write_set elif \<union> stmt_write_set els) f (exec_elif f elif els n)"
  "unchanged_but (cases_write_set cs) f (exec_cases f sel cs n)"
  "unchanged_but (block_write_set ss) f (exec_block f ss n)"
proof (induction f s n and f elif els n and f sel cs n and f ss n
    rule: sim_exec_stmt_exec_elif_exec_cases_exec_block.induct)
  case (2 ctx a is_nba)
  then show ?case using apply_assign_unchanged by simp
next
  case (3 ctx c t elif els is_nba)
  obtain v f1 where e: "sim_eval_expr ctx c = (v, f1)" by fastforce
  have "sim_val_is_true v = 1 \<Longrightarrow> unchanged_but (stmt_write_set t) f1 (sim_exec_stmt f1 t is_nba)"
    "sim_val_is_true v \<noteq> 1 \<Longrightarrow> sim_val_is_true v \<noteq> -1 \<Longrightarrow>
      unchanged_but (stmt_write_set elif \<union> stmt_write_set els) f1 (exec_elif f1 elif els is_nba)"
    using 3 e by simp_all
  then show ?case
    by (intro eval_unchanged [OF e]) (auto simp: e Let_def intro: unchanged_but_mono)
next
  case (4 ctx s cs is_nba)
  obtain v f1 where e: "sim_eval_expr ctx s = (v, f1)" by fastforce
  show ?case using 4 by (intro eval_unchanged [OF e]) (auto simp: e Let_def)
next
  case (6 ctx m addr dat is_nba)
  then show ?case using exec_mem_write_unchanged by simp
next
  case (7 ctx c t elif u els is_nba)
  obtain v f1 where e: "sim_eval_expr ctx c = (v, f1)" by fastforce
  have "sim_val_is_true v = 1 \<Longrightarrow> unchanged_but (stmt_write_set t) f1 (sim_exec_stmt f1 t is_nba)"
    "sim_val_is_true v \<noteq> 1 \<Longrightarrow> sim_val_is_true v \<noteq> -1 \<Longrightarrow>
      unchanged_but (stmt_write_set elif \<union> stmt_write_set els) f1 (exec_elif f1 elif els is_nba)"
    using 7 e by simp_all
  then show ?case
    by (intro eval_unchanged [OF e]) (auto simp: e Let_def intro: unchanged_but_mono)
next
  case (10 ctx selector v body cs is_nba)
  obtain w f1 where e: "sim_eval_expr ctx v = (w, f1)" by fastforce
  show ?case
  proof (cases "v = EXPR_NULL")
    case True
    then show ?thesis using 10 by (auto intro: unchanged_but_mono)
  next
    case False
    then have "sim_val_is_true (sim_val_eq selector w) = 1 \<Longrightarrow>
        unchanged_but (stmt_write_set body) f1 (sim_exec_stmt f1 body is_nba)"
      "sim_val_is_true (sim_val_eq selector w) \<noteq> 1 \<Longrightarrow>
        unchanged_but (cases_write_set cs) f1 (exec_cases f1 selector cs is_nba)"
      using 10 e by simp_all
    with False show ?thesis
      by (intro eval_unchanged [OF e]) (auto simp: e Let_def intro: unchanged_but_mono)
  qed
next
  case (12 ctx s ss is_nba)
  then show ?case using unchanged_but_trans by simp
qed (auto intro: unchanged_but_mono)

section \<open>Results depend only on collected reads\<close>

definition agree :: "int set \<Rightarrow> SimFrame \<Rightarrow> SimFrame \<Rightarrow> bool" where
  "agree A f g \<longleftrightarrow> agree_on A f g \<and> length (signals f) = length (signals g)"

lemma agree_error [simp]:
  "agree A (f\<lparr>runtime_error := b\<rparr>) g = agree A f g" "agree A f (g\<lparr>runtime_error := b\<rparr>) = agree A f g"
  by (simp_all add: agree_def agree_on_def)

lemma agree_raise: "agree A f g \<Longrightarrow> agree A (raise_error f) (raise_error g)"
  by (auto simp: raise_error_def)

lemma agree_mark_dirty: "agree A f g \<Longrightarrow> agree A (mark_dirty k f) g" "agree A f g \<Longrightarrow> agree A f (mark_dirty k g)"
  by (auto simp: agree_def agree_on_def mark_dirty_def sim_ctx_lookup_def)

lemma agree_set_current: "agree A f g \<Longrightarrow> agree A (set_current k v f) (set_current k v g)"
  by (auto simp: agree_def agree_on_def set_current_def nth_update_or sim_ctx_lookup_def)

lemma agree_current:
  "agree A f g \<Longrightarrow> i \<in> A \<Longrightarrow> sim_ctx_lookup g i = Some k \<Longrightarrow> current (signals f ! k) = current (signals g ! k)"
  by (auto simp: agree_def agree_on_def)

lemma agree_eval:
  assumes "agree A f g" "expr_read_set e \<subseteq> A"
  shows "expr_value f e = expr_value g e" "expr_raises f e = expr_raises g e"
  using assms expr_value_agree(1) expr_raises_agree(1) agree_on_mono by (metis agree_def)+

lemma agree_lookup: "agree A f g \<Longrightarrow> sim_ctx_lookup f = sim_ctx_lookup g"
  using agree_on_lookup(1) by (auto simp: agree_def)

lemma apply_assign_agree:
  assumes "agree A f g" "expr_read_set (asgn_rhs a) \<subseteq> A" "lhs_signal_id a \<in> A"
  shows "agree A (apply_assign f a False) (apply_assign g a False)"
proof (cases "sim_ctx_lookup g (lhs_signal_id a)")
  case None
  then show ?thesis using assms(1) agree_lookup [OF assms(1)] by (simp add: apply_assign_def)
next
  case (Some k)
  define f1 g1 where "f1 = f\<lparr>runtime_error := runtime_error f \<or> expr_raises g (asgn_rhs a)\<rparr>"
    and "g1 = g\<lparr>runtime_error := runtime_error g \<or> expr_raises g (asgn_rhs a)\<rparr>"
  have fg: "agree A f1 g1" using assms(1) by (simp add: f1_def g1_def)
  have c: "current (signals f1 ! k) = current (signals g1 ! k)"
    using agree_current [OF assms(1,3) Some] by (simp add: f1_def g1_def)
  have E: "sim_eval_expr f (asgn_rhs a) = (expr_value g (asgn_rhs a), f1)"
    "sim_eval_expr g (asgn_rhs a) = (expr_value g (asgn_rhs a), g1)"
    using agree_eval [OF assms(1,2)] by (simp_all add: sim_eval_expr_eq f1_def g1_def)
  show ?thesis
    using Some agree_lookup [OF assms(1)] fg agree_set_current [OF fg]
    by (simp add: apply_assign_def E c Let_def assign_slice_def assign_full_def agree_mark_dirty)
qed

lemma agree_eval_step:
  assumes "agree A f g" "expr_read_set e \<subseteq> A" "sim_eval_expr f e = (v, f1)" "sim_eval_expr g e = (w, g1)"
  shows "v = w" "agree A f1 g1"
  using assms agree_eval [OF assms(1,2)] by (auto simp: sim_eval_expr_eq)

lemma exec_agree:
  "agree A f g \<Longrightarrow> stmt_read_set s \<union> stmt_write_set s \<subseteq> A \<Longrightarrow> \<not> writes_memory s \<Longrightarrow> \<not> n \<Longrightarrow>
     agree A (sim_exec_stmt f s n) (sim_exec_stmt g s n)"
  "agree A f g \<Longrightarrow> stmt_read_set elif \<union> stmt_write_set elif \<union> stmt_read_set els \<union> stmt_write_set els \<subseteq> A \<Longrightarrow>
     \<not> writes_memory elif \<Longrightarrow> \<not> writes_memory els \<Longrightarrow> \<not> n \<Longrightarrow>
     agree A (exec_elif f elif els n) (exec_elif g elif els n)"
  "agree A f g \<Longrightarrow> cases_read_set cs \<union> cases_write_set cs \<subseteq> A \<Longrightarrow> \<not> cases_write_memory cs \<Longrightarrow> \<not> n \<Longrightarrow>
     agree A (exec_cases f sel cs n) (exec_cases g sel cs n)"
  "agree A f g \<Longrightarrow> block_read_set ss \<union> block_write_set ss \<subseteq> A \<Longrightarrow> \<not> block_writes_memory ss \<Longrightarrow> \<not> n \<Longrightarrow>
     agree A (exec_block f ss n) (exec_block g ss n)"
proof (induction f s n and f elif els n and f sel cs n and f ss n arbitrary: g and g and g and g
    rule: sim_exec_stmt_exec_elif_exec_cases_exec_block.induct)
  case (2 ctx a is_nba)
  then show ?case using apply_assign_agree by simp
next
  case (3 ctx c t elif els is_nba)
  obtain v f1 w g1 where e: "sim_eval_expr ctx c = (v, f1)" "sim_eval_expr g c = (w, g1)" by fastforce
  have E: "v = w" "agree A f1 g1" using agree_eval_step [OF "3.prems"(1) _ e] "3.prems"(2) by simp_all
  show ?case using 3 e E by (simp add: Let_def agree_raise)
next
  case (4 ctx s cs is_nba)
  obtain v f1 w g1 where e: "sim_eval_expr ctx s = (v, f1)" "sim_eval_expr g s = (w, g1)" by fastforce
  have E: "v = w" "agree A f1 g1" using agree_eval_step [OF "4.prems"(1) _ e] "4.prems"(2) by simp_all
  show ?case using 4 e E by (simp add: Let_def agree_raise)
next
  case (7 ctx c t elif u els is_nba)
  obtain v f1 w g1 where e: "sim_eval_expr ctx c = (v, f1)" "sim_eval_expr g c = (w, g1)" by fastforce
  have E: "v = w" "agree A f1 g1" using agree_eval_step [OF "7.prems"(1) _ e] "7.prems"(2) by simp_all
  show ?case using 7 e E by (simp add: Let_def agree_raise)
next
  case (10 ctx selector x body cs is_nba)
  obtain v f1 w g1 where e: "sim_eval_expr ctx x = (v, f1)" "sim_eval_expr g x = (w, g1)" by fastforce
  have E: "v = w" "agree A f1 g1" using agree_eval_step [OF "10.prems"(1) _ e] "10.prems"(2) by simp_all
  show ?case using 10 e E by (cases "x = EXPR_NULL") (simp_all add: Let_def)
qed simp_all

end
