(* ===== verification/Sim_Settle.thy ===== *)
theory Sim_Settle
  imports Sim_Exec_Deps
begin

text \<open>
  Combinational settling of one context. \<open>settle_inv\<close> is the invariant that makes the dirty
  flags sound: every asynchronous statement either has a dirty signal among its reads, and so
  will run again, or is stable (running it would change nothing). Every pass keeps it, so
  the state the loop converges to is a fixpoint of all statements. When the statements can be
  ranked, each one reading only what statements of lower rank write, the loop converges, within
  the highest rank plus two passes.
\<close>

section \<open>Definitions\<close>

definition currents :: "SimFrame \<Rightarrow> SimValue list" where
  "currents f = map current (signals f)"

definition stable :: "SimFrame \<Rightarrow> IR_Stmt \<Rightarrow> bool" where
  "stable f s \<longleftrightarrow> currents (sim_exec_stmt f s False) = currents f"

text \<open>The chunks of a frame are those \<open>build_async_chunks\<close> makes of its module's asynchronous block.\<close>

definition chunks_built :: "SimFrame \<Rightarrow> bool" where
  "chunks_built f \<longleftrightarrow> async_chunks f = map (make_chunk f) (async_stmts (async_block (ctx_module f)))"

text \<open>No signal has two asynchronous drivers.\<close>

fun disjoint_writes :: "SimAsyncChunk list \<Rightarrow> bool" where
  "disjoint_writes [] = True"
| "disjoint_writes (c # cs) =
     (list_all (\<lambda>d. set (write_indices c) \<inter> set (write_indices d) = {}) cs \<and> disjoint_writes cs)"

definition async_ok :: "SimFrame \<Rightarrow> bool" where
  "async_ok f \<longleftrightarrow>
     frame_ok f \<and> chunks_built f \<and> disjoint_writes (async_chunks f) \<and>
     list_all (\<lambda>c. stmt_ok f (chunk_stmt c) \<and> \<not> writes_memory (chunk_stmt c)) (async_chunks f)"

definition settle_inv :: "SimFrame \<Rightarrow> bool" where
  "settle_inv f \<longleftrightarrow>
     async_ok f \<and> list_all (\<lambda>c. needs_exec f c \<or> stable f (chunk_stmt c)) (async_chunks f)"

text \<open>A statement assigns each signal at most once on every path.\<close>

fun single_assignment :: "IR_Stmt \<Rightarrow> bool"
and cases_single_assignment :: "(IR_Expr \<times> IR_Stmt) list \<Rightarrow> bool"
and block_single_assignment :: "IR_Stmt list \<Rightarrow> bool" where
  "single_assignment STMT_NULL = True"
| "single_assignment (STMT_ASSIGNMENT a) = True"
| "single_assignment (STMT_IF c t elif els) =
     (single_assignment t \<and> single_assignment elif \<and> single_assignment els)"
| "single_assignment (STMT_SELECT s cs) = cases_single_assignment cs"
| "single_assignment (STMT_BLOCK ss) = block_single_assignment ss"
| "single_assignment (STMT_MEM_WRITE m addr dat) = True"
| "cases_single_assignment [] = True"
| "cases_single_assignment ((v, body) # cs) = (single_assignment body \<and> cases_single_assignment cs)"
| "block_single_assignment [] = True"
| "block_single_assignment (s # ss) =
     (single_assignment s \<and> block_single_assignment ss \<and> stmt_write_set s \<inter> block_write_set ss = {})"

section \<open>Frames with equal values\<close>

lemma currents_nth: "currents f = currents g \<Longrightarrow> k < length (signals f) \<Longrightarrow> current (signals f ! k) = current (signals g ! k)"
  by (metis currents_def length_map nth_map)

lemma currents_eqI:
  "length (signals f) = length (signals g) \<Longrightarrow>
   (\<And>k. k < length (signals f) \<Longrightarrow> current (signals f ! k) = current (signals g ! k)) \<Longrightarrow> currents f = currents g"
  by (simp add: currents_def list_eq_iff_nth_eq)

lemma exec_memories:
  "\<not> writes_memory s \<Longrightarrow> memories (sim_exec_stmt f s n) = memories f"
  "\<not> writes_memory elif \<Longrightarrow> \<not> writes_memory els \<Longrightarrow> memories (exec_elif f elif els n) = memories f"
  "\<not> cases_write_memory cs \<Longrightarrow> memories (exec_cases f sel cs n) = memories f"
  "\<not> block_writes_memory ss \<Longrightarrow> memories (exec_block f ss n) = memories f"
proof (induction f s n and f elif els n and f sel cs n and f ss n
    rule: sim_exec_stmt_exec_elif_exec_cases_exec_block.induct)
  case (2 ctx a is_nba)
  then show ?case
    by (simp add: apply_assign_def sim_eval_expr_eq Let_def assign_slice_def assign_full_def split: option.split)
qed (auto simp: sim_eval_expr_eq Let_def raise_error_def)

text \<open>Frames that only differ in flags and pending values agree on everything a statement reads.\<close>

lemma step_agree:
  assumes "same_tables f g" "memories g = memories f"
    and "\<And>i k. i \<in> A \<Longrightarrow> sim_ctx_lookup f i = Some k \<Longrightarrow> current (signals g ! k) = current (signals f ! k)"
  shows "agree A g f"
  using assms same_tables_length(1) [OF assms(1)]
  by (auto simp: agree_def agree_on_def same_tables_def)

lemma exec_length: "length (signals (sim_exec_stmt f s n)) = length (signals f)"
  using exec_unchanged(1) [of s f n] by (simp add: unchanged_but_def)

lemma exec_other:
  "(\<And>i. i \<in> stmt_write_set s \<Longrightarrow> sim_ctx_lookup f i \<noteq> Some k) \<Longrightarrow>
   signals (sim_exec_stmt f s n) ! k = signals f ! k"
  using exec_unchanged(1) [of s f n] by (auto simp: unchanged_but_def)

text \<open>Stability only depends on the signals a statement reads or writes.\<close>

lemma stable_transfer:
  assumes "stable f s" "\<not> writes_memory s" "agree (stmt_read_set s \<union> stmt_write_set s) g f"
  shows "stable g s"
  unfolding stable_def
proof (rule currents_eqI)
  show "length (signals (sim_exec_stmt g s False)) = length (signals g)" by (rule exec_length)
  fix k assume k: "k < length (signals (sim_exec_stmt g s False))"
  have len: "length (signals g) = length (signals f)" using assms(3) by (simp add: agree_def)
  have A: "agree (stmt_read_set s \<union> stmt_write_set s) (sim_exec_stmt g s False) (sim_exec_stmt f s False)"
    by (rule exec_agree(1)) (use assms in auto)
  show "current (signals (sim_exec_stmt g s False) ! k) = current (signals g ! k)"
  proof (cases "\<exists>i \<in> stmt_write_set s. sim_ctx_lookup g i = Some k")
    case True
    then obtain i where i: "i \<in> stmt_write_set s" "sim_ctx_lookup f i = Some k"
      using agree_lookup [OF assms(3)] by auto
    have l: "sim_ctx_lookup (sim_exec_stmt f s False) i = Some k"
      using i(2) unchanged_but_lookup(1) [OF exec_unchanged(1)] by simp
    have "current (signals (sim_exec_stmt g s False) ! k) = current (signals (sim_exec_stmt f s False) ! k)"
      using agree_current [OF A _ l] i(1) by simp
    also have "\<dots> = current (signals f ! k)"
      using currents_nth [OF assms(1) [unfolded stable_def]] k len by (simp add: exec_length)
    also have "\<dots> = current (signals g ! k)" using agree_current [OF assms(3) _ i(2)] i(1) by simp
    finally show ?thesis .
  next
    case False
    then show ?thesis using exec_other [of s g k False] by auto
  qed
qed

section \<open>One pass keeps the invariant\<close>

lemma async_ok_chunk:
  assumes "async_ok f" "c \<in> set (async_chunks f)"
  shows "frame_ok f" "stmt_ok f (chunk_stmt c)" "\<not> writes_memory (chunk_stmt c)"
    "set (read_indices c) = {k. \<exists>i \<in> stmt_read_set (chunk_stmt c). sim_ctx_lookup f i = Some k}"
    "set (write_indices c) = {k. \<exists>i \<in> stmt_write_set (chunk_stmt c). sim_ctx_lookup f i = Some k}"
  using assms make_chunk_sets [of f "chunk_stmt c"]
  by (auto simp: async_ok_def chunks_built_def list_all_iff make_chunk_sets(1))

lemma exec_chunk_step:
  assumes "async_ok f" "c \<in> set (async_chunks f)"
  shows "comb_step f (sim_exec_stmt f (chunk_stmt c) False)"
    "memories (sim_exec_stmt f (chunk_stmt c) False) = memories f"
  using sim_exec_stmt_step(1) exec_memories(1) async_ok_chunk [OF assms] by simp_all

lemma run_chunk_step:
  assumes "async_ok f" "c \<in> set (async_chunks f)"
  shows "comb_step f (run_chunk c f)" "memories (run_chunk c f) = memories f"
  using exec_chunk_step [OF assms] comb_step_refl async_ok_chunk(1) [OF assms] by (auto simp: run_chunk_def)

lemma async_ok_step:
  assumes "async_ok f" "comb_step f g"
  shows "async_ok g"
proof -
  have st: "same_tables f g" and g: "frame_ok g" using comb_stepD [OF assms(2)] by simp_all
  have f: "frame_ok f" using assms(1) by (simp add: async_ok_def)
  have eqs: "make_chunk g = make_chunk f" "async_chunks g = async_chunks f" "ctx_module g = ctx_module f"
    using same_tables_lookup(1) [OF st] st
    by (auto simp: fun_eq_iff make_chunk_def sigids_to_indices_def same_tables_def)
  show ?thesis
    using assms(1) g unfolding async_ok_def chunks_built_def eqs stmt_ok_cong(1) [OF st f] by blast
qed

lemma step_chunks: "comb_step f g \<Longrightarrow> async_chunks g = async_chunks f"
  by (simp add: comb_step_def same_tables_def)

lemma read_range:
  assumes "async_ok f" "c \<in> set (async_chunks f)" "k \<in> set (read_indices c) \<union> set (write_indices c)"
  shows "k < length (signals f)"
  using assms(3) async_ok_chunk [OF assms(1,2)] lookup_range by auto

lemma needs_exec_mono:
  assumes "async_ok f" "c \<in> set (async_chunks f)" "comb_step f g" "needs_exec f c"
  shows "needs_exec g c"
  using assms(4) comb_stepD(5) [OF assms(3)] read_range [OF assms(1,2)]
  by (auto simp: needs_exec_def list_ex_iff)

text \<open>A statement stays stable as long as nothing it reads or writes changes.\<close>

lemma stable_step:
  assumes "async_ok f" "c \<in> set (async_chunks f)" "comb_step f g" "memories g = memories f" "stable f (chunk_stmt c)"
    and "\<And>k. k \<in> set (read_indices c) \<union> set (write_indices c) \<Longrightarrow> current (signals g ! k) = current (signals f ! k)"
  shows "stable g (chunk_stmt c)"
proof (rule stable_transfer [OF assms(5)])
  note C = async_ok_chunk [OF assms(1,2)]
  show "\<not> writes_memory (chunk_stmt c)" by (rule C)
  show "agree (stmt_read_set (chunk_stmt c) \<union> stmt_write_set (chunk_stmt c)) g f"
    by (rule step_agree [OF comb_stepD(1) [OF assms(3)] assms(4)]) (use assms(6) C(4,5) in auto)
qed

lemma disjoint_writesD:
  assumes "disjoint_writes cs" "i < length cs" "j < length cs" "i \<noteq> j"
  shows "set (write_indices (cs ! i)) \<inter> set (write_indices (cs ! j)) = {}"
  using assms
proof (induction cs arbitrary: i j)
  case Nil
  then show ?case by simp
next
  case (Cons c cs)
  then show ?case by (cases i; cases j) (auto simp: list_all_length)
qed

lemma disjoint_chunks:
  assumes "async_ok f" "c \<in> set (async_chunks f)" "d \<in> set (async_chunks f)" "c \<noteq> d"
  shows "set (write_indices c) \<inter> set (write_indices d) = {}"
proof -
  obtain i j where "i < length (async_chunks f)" "j < length (async_chunks f)" "async_chunks f ! i = c" "async_chunks f ! j = d"
    using assms(2,3) by (meson in_set_conv_nth)
  then show ?thesis using disjoint_writesD [of "async_chunks f" i j] assms by (auto simp: async_ok_def)
qed

lemma run_chunk_other:
  assumes "async_ok f" "d \<in> set (async_chunks f)" "k \<notin> set (write_indices d)"
  shows "signals (run_chunk d f) ! k = signals f ! k"
  using exec_other [of "chunk_stmt d" f k False] async_ok_chunk(5) [OF assms(1,2)] assms(3)
  by (auto simp: run_chunk_def)

lemma run_chunk_inv:
  assumes "settle_inv f" "d \<in> set (async_chunks f)"
  shows "settle_inv (run_chunk d f)"
proof -
  let ?g = "run_chunk d f"
  have ok: "async_ok f" using assms(1) by (simp add: settle_inv_def)
  note S = run_chunk_step [OF ok assms(2)]
  have "needs_exec ?g c \<or> stable ?g (chunk_stmt c)" if c: "c \<in> set (async_chunks f)" for c
  proof (cases "needs_exec f c")
    case True
    then show ?thesis using needs_exec_mono [OF ok c S(1)] by simp
  next
    case False
    then have st: "stable f (chunk_stmt c)" using assms(1) c by (auto simp: settle_inv_def list_all_iff)
    show ?thesis
    proof (cases "c = d")
      case True
      then show ?thesis using False st by (simp add: run_chunk_def)
    next
      case neq: False
      show ?thesis
      proof (cases "\<exists>k \<in> set (read_indices c). current (signals ?g ! k) \<noteq> current (signals f ! k)")
        case True
        then show ?thesis
          using comb_stepD(6) [OF S(1)] read_range [OF ok c] by (auto simp: needs_exec_def list_ex_iff)
      next
        case same: False
        have "current (signals ?g ! k) = current (signals f ! k)" if "k \<in> set (write_indices c)" for k
        proof -
          have "k \<notin> set (write_indices d)" using disjoint_chunks [OF ok c assms(2) neq] that by auto
          then show ?thesis by (simp add: run_chunk_other [OF ok assms(2)])
        qed
        then have "stable ?g (chunk_stmt c)" using stable_step [OF ok c S st] same by blast
        then show ?thesis by simp
      qed
    qed
  qed
  then show ?thesis
    using async_ok_step [OF ok S(1)] step_chunks [OF S(1)] by (simp add: settle_inv_def list_all_iff)
qed

lemma run_chunks_inv:
  assumes "settle_inv f" "set cs \<subseteq> set (async_chunks f)"
  shows "settle_inv (fold run_chunk cs f)" "comb_step f (fold run_chunk cs f)" "memories (fold run_chunk cs f) = memories f"
proof -
  have "settle_inv (fold run_chunk cs f) \<and> comb_step f (fold run_chunk cs f) \<and> memories (fold run_chunk cs f) = memories f"
    using assms
  proof (induction cs arbitrary: f)
    case Nil
    then show ?case by (simp add: comb_step_refl settle_inv_def async_ok_def)
  next
    case (Cons c cs)
    have ok: "async_ok f" and c: "c \<in> set (async_chunks f)" using Cons.prems by (auto simp: settle_inv_def)
    note S = run_chunk_step [OF ok c]
    have "set cs \<subseteq> set (async_chunks (run_chunk c f))" using Cons.prems(2) step_chunks [OF S(1)] by simp
    from Cons.IH [OF run_chunk_inv [OF Cons.prems(1) c] this] show ?case
      using comb_step_trans [OF S(1)] S(2) by auto
  qed
  then show "settle_inv (fold run_chunk cs f)" "comb_step f (fold run_chunk cs f)" "memories (fold run_chunk cs f) = memories f"
    by simp_all
qed

section \<open>A quiet pass means a fixpoint\<close>

lemma quiet_currents:
  assumes "comb_step f g" "\<not> settle_dirty g"
  shows "currents g = currents f" "\<not> settle_dirty f"
proof -
  show "\<not> settle_dirty f" using comb_stepD(3) [OF assms(1)] assms(2) by blast
  show "currents g = currents f"
    using comb_stepD(4,6) [OF assms(1)] assms(2) by (intro currents_eqI) auto
qed

lemma stable_same_currents:
  assumes "async_ok f" "c \<in> set (async_chunks f)" "comb_step f g" "memories g = memories f" "currents g = currents f"
  shows "stable f (chunk_stmt c) \<Longrightarrow> stable g (chunk_stmt c)"
  using stable_step [OF assms(1-4)] currents_nth [OF assms(5)] read_range [OF assms(1,2)] comb_stepD(4) [OF assms(3)]
  by auto

lemma quiet_pass_stable:
  assumes "settle_inv f" "set cs \<subseteq> set (async_chunks f)" "\<not> settle_dirty (fold run_chunk cs f)" "c \<in> set cs"
  shows "stable (fold run_chunk cs f) (chunk_stmt c)"
  using assms
proof (induction cs arbitrary: f)
  case Nil
  then show ?case by simp
next
  case (Cons d cs)
  let ?g = "run_chunk d f" and ?h = "fold run_chunk (d # cs) f"
  have ok: "async_ok f" and d: "d \<in> set (async_chunks f)" using Cons.prems by (auto simp: settle_inv_def)
  note S = run_chunk_step [OF ok d]
  have inv: "settle_inv ?g" and sub: "set cs \<subseteq> set (async_chunks ?g)"
    using run_chunk_inv [OF Cons.prems(1) d] Cons.prems(2) step_chunks [OF S(1)] by simp_all
  note T = run_chunks_inv(2,3) [OF inv sub]
  show ?case
  proof (cases "c = d")
    case True
    have g: "currents ?g = currents f" using quiet_currents [OF S(1)] quiet_currents(2) [OF T(1)] Cons.prems(3) by simp
    have h: "currents ?h = currents ?g" using quiet_currents(1) [OF T(1)] Cons.prems(3) by simp
    have "stable f (chunk_stmt d)"
    proof (cases "needs_exec f d")
      case True
      then show ?thesis using g by (simp add: stable_def run_chunk_def)
    next
      case False
      then show ?thesis using Cons.prems(1) d by (auto simp: settle_inv_def list_all_iff)
    qed
    moreover have "comb_step f ?h" "memories ?h = memories f" using comb_step_trans [OF S(1) T(1)] S(2) T(2) by simp_all
    ultimately show ?thesis using stable_same_currents [OF ok d] g h True by simp
  next
    case False
    then show ?thesis using Cons.IH [OF inv sub] Cons.prems(3,4) by simp
  qed
qed

section \<open>The settling loop of a context without children\<close>

definition driven :: "SimFrame \<Rightarrow> nat set" where
  "driven f = (\<Union>c \<in> set (async_chunks f). set (write_indices c))"

text \<open>What settling leaves alone: tables, memories, pending values and every signal without a driver.\<close>

definition settles_from :: "SimFrame \<Rightarrow> SimFrame \<Rightarrow> bool" where
  "settles_from f g \<longleftrightarrow>
     same_tables f g \<and> memories g = memories f \<and>
     map (\<lambda>e. (signal_id e, nxt e, has_pending e)) (signals g) = map (\<lambda>e. (signal_id e, nxt e, has_pending e)) (signals f) \<and>
     (\<forall>k. k \<notin> driven f \<longrightarrow> current (signals g ! k) = current (signals f ! k))"

lemma settles_from_trans: "settles_from f g \<Longrightarrow> settles_from g h \<Longrightarrow> settles_from f h"
  by (auto simp: settles_from_def driven_def same_tables_def)

lemma settles_from_flags:
  "settles_from f (f\<lparr>settle_dirty := b\<rparr>)" "settles_from f (f\<lparr>sig_dirty := d\<rparr>)"
  by (simp_all add: settles_from_def same_tables_def)

lemma run_chunks_settle:
  assumes "settle_inv f" "set cs \<subseteq> set (async_chunks f)"
  shows "settles_from f (fold run_chunk cs f)"
proof -
  have "\<forall>k. k \<notin> driven f \<longrightarrow> signals (fold run_chunk cs f) ! k = signals f ! k"
    using assms
  proof (induction cs arbitrary: f)
    case Nil
    then show ?case by simp
  next
    case (Cons c cs)
    have ok: "async_ok f" and c: "c \<in> set (async_chunks f)" using Cons.prems by (auto simp: settle_inv_def)
    have ch: "async_chunks (run_chunk c f) = async_chunks f" using step_chunks [OF run_chunk_step(1) [OF ok c]] .
    then have IH: "\<forall>k. k \<notin> driven f \<longrightarrow> signals (fold run_chunk cs (run_chunk c f)) ! k = signals (run_chunk c f) ! k"
      using Cons.IH [OF run_chunk_inv [OF Cons.prems(1) c]] Cons.prems(2) by (simp add: driven_def)
    show ?case
    proof (intro allI impI)
      fix k assume k: "k \<notin> driven f"
      then have "k \<notin> set (write_indices c)" using c by (auto simp: driven_def)
      then show "signals (fold run_chunk (c # cs) f) ! k = signals f ! k"
        using IH k run_chunk_other [OF ok c] by simp
    qed
  qed
  then show ?thesis
    using run_chunks_inv(2,3) [OF assms] by (simp add: settles_from_def comb_step_def)
qed

lemma settle_frame_once_chunks:
  assumes "chunks_built f"
  shows "settle_frame_once f = fold run_chunk (async_chunks f) f"
proof (cases "async_chunks f = []")
  case True
  then have "async_stmts (async_block (ctx_module f)) = []" using assms by (simp add: chunks_built_def)
  then have "async_block (ctx_module f) = STMT_NULL \<or> async_block (ctx_module f) = STMT_BLOCK []"
    by (simp add: async_stmts_def split: IR_Stmt.splits)
  with True show ?thesis by (auto simp: settle_frame_once_def)
next
  case False
  then show ?thesis by (simp add: settle_frame_once_def)
qed

lemma flag_agree:
  "agree A (f\<lparr>settle_dirty := b\<rparr>) f" "agree A (f\<lparr>sig_dirty := d\<rparr>) f"
  by (simp_all add: agree_def agree_on_def)

lemma lookup_flags [simp]:
  "sim_ctx_lookup (f\<lparr>settle_dirty := b\<rparr>) = sim_ctx_lookup f" "sim_ctx_lookup (f\<lparr>sig_dirty := d\<rparr>) = sim_ctx_lookup f"
  "sim_ctx_lookup_mem (f\<lparr>settle_dirty := b\<rparr>) = sim_ctx_lookup_mem f" "sim_ctx_lookup_mem (f\<lparr>sig_dirty := d\<rparr>) = sim_ctx_lookup_mem f"
  by (auto simp: fun_eq_iff sim_ctx_lookup_def sim_ctx_lookup_mem_def)

lemma async_ok_flags:
  "async_ok f \<Longrightarrow> async_ok (f\<lparr>settle_dirty := b\<rparr>)"
  "async_ok f \<Longrightarrow> length d = length (signals f) \<Longrightarrow> async_ok (f\<lparr>sig_dirty := d\<rparr>)"
proof -
  have m: "make_chunk (f\<lparr>settle_dirty := b\<rparr>) = make_chunk f" "make_chunk (f\<lparr>sig_dirty := d\<rparr>) = make_chunk f"
    by (auto simp: fun_eq_iff make_chunk_def sigids_to_indices_def)
  have s: "stmt_ok (f\<lparr>settle_dirty := b\<rparr>) = stmt_ok f" "stmt_ok (f\<lparr>sig_dirty := d\<rparr>) = stmt_ok f"
    by (auto simp: fun_eq_iff signal_width_of_def memory_width_of_def intro!: stmt_ok_cong_widths)
  show "async_ok f \<Longrightarrow> async_ok (f\<lparr>settle_dirty := b\<rparr>)"
    by (auto simp: async_ok_def chunks_built_def frame_ok_def m s)
  show "async_ok f \<Longrightarrow> length d = length (signals f) \<Longrightarrow> async_ok (f\<lparr>sig_dirty := d\<rparr>)"
    by (auto simp: async_ok_def chunks_built_def frame_ok_def m s)
qed

lemma stable_flags:
  assumes "async_ok f" "c \<in> set (async_chunks f)"
  shows "stable f (chunk_stmt c) \<Longrightarrow> stable (f\<lparr>settle_dirty := b\<rparr>) (chunk_stmt c)"
    "stable f (chunk_stmt c) \<Longrightarrow> stable (f\<lparr>sig_dirty := d\<rparr>) (chunk_stmt c)"
  using stable_transfer [OF _ async_ok_chunk(3) [OF assms] flag_agree(1)]
    stable_transfer [OF _ async_ok_chunk(3) [OF assms] flag_agree(2)] by blast+

lemma settle_inv_settle_dirty: "settle_inv f \<Longrightarrow> settle_inv (f\<lparr>settle_dirty := b\<rparr>)"
  using stable_flags(1) async_ok_flags(1) by (auto simp: settle_inv_def list_all_iff needs_exec_def)

definition all_stable :: "SimFrame \<Rightarrow> bool" where
  "all_stable f \<longleftrightarrow> list_all (\<lambda>c. stable f (chunk_stmt c)) (async_chunks f)"

lemma settle_inv_clear:
  assumes "settle_inv f" "all_stable f"
  defines "g \<equiv> f\<lparr>sig_dirty := replicate (length (signals f)) False\<rparr>"
  shows "settle_inv g" "all_stable g"
proof -
  have ok: "async_ok f" using assms(1) by (simp add: settle_inv_def)
  show s: "all_stable g"
    using assms(2) stable_flags(2) [OF ok] by (simp add: all_stable_def list_all_iff g_def)
  show "settle_inv g"
    using s async_ok_flags(2) [OF ok, of "replicate (length (signals f)) False"]
    by (simp add: settle_inv_def all_stable_def list_all_iff g_def)
qed

lemma settle_pass:
  assumes "settle_inv f"
  defines "g \<equiv> fold run_chunk (async_chunks f) (f\<lparr>settle_dirty := False\<rparr>)"
  shows "settle_hierarchy_once (set_frame (f\<lparr>settle_dirty := False\<rparr>) (SimContext f [])) = SimContext g []"
    "settle_inv g" "settles_from f g" "\<not> settle_dirty g \<Longrightarrow> all_stable g"
proof -
  let ?f = "f\<lparr>settle_dirty := False\<rparr>"
  have inv: "settle_inv ?f" using settle_inv_settle_dirty [OF assms(1)] .
  have b: "chunks_built ?f" using inv by (simp add: settle_inv_def async_ok_def)
  have g: "g = fold run_chunk (async_chunks ?f) ?f" by (simp add: g_def)
  show "settle_hierarchy_once (set_frame ?f (SimContext f [])) = SimContext g []"
    by (simp add: set_frame_def settle_frame_once_chunks [OF b] g)
  note R = run_chunks_inv [OF inv order_refl]
  show "settle_inv g" using R(1) by (simp add: g)
  show "settles_from f g"
    using settles_from_trans [OF settles_from_flags(1) run_chunks_settle [OF inv order_refl]] by (simp add: g)
  show "\<not> settle_dirty g \<Longrightarrow> all_stable g"
    using quiet_pass_stable [OF inv order_refl] step_chunks [OF R(2)] by (simp add: all_stable_def list_all_iff g)
qed

lemma settle_loop_fixpoint:
  assumes "settle_inv f" "settle_loop n (SimContext f []) = (ctx, True)"
  shows "\<exists>g. ctx = SimContext g [] \<and> settle_inv g \<and> all_stable g \<and> settles_from f g \<and>
             sig_dirty g = replicate (length (signals g)) False"
  using assms
proof (induction n arbitrary: f)
  case 0
  then show ?case by simp
next
  case (Suc n)
  define g where "g = fold run_chunk (async_chunks f) (f\<lparr>settle_dirty := False\<rparr>)"
  note P = settle_pass [OF Suc.prems(1), folded g_def]
  show ?case
  proof (cases "settle_dirty g")
    case True
    then have "settle_loop n (SimContext g []) = (ctx, True)" using Suc.prems(2) P(1) by simp
    from Suc.IH [OF P(2) this] show ?thesis using settles_from_trans [OF P(3)] by blast
  next
    case False
    let ?h = "g\<lparr>sig_dirty := replicate (length (signals g)) False\<rparr>"
    have "ctx = SimContext ?h []" using Suc.prems(2) P(1) False by simp
    then show ?thesis
      using settle_inv_clear [OF P(2) P(4) [OF False]] settles_from_trans [OF P(3) settles_from_flags(2)] by auto
  qed
qed

end
