(* ===== verification/Sim_Settle_Live.thy ===== *)
theory Sim_Settle_Live
  imports Sim_Settle
begin

text \<open>
  Convergence of combinational settling for designs without combinational loops: running a
  statement that assigns every signal at most once and reads none of its own results a second
  time changes nothing, a stable statement raises no flag, and so every pass stabilises the
  statements of one more rank.
\<close>

section \<open>Definitions\<close>

text \<open>No two signal ids share an entry.\<close>

definition lookup_inj :: "SimFrame \<Rightarrow> bool" where
  "lookup_inj f \<longleftrightarrow> distinct (filter (\<lambda>x. 0 \<le> x) (sig_id_map f))"

definition independent :: "SimFrame \<Rightarrow> int set \<Rightarrow> int set \<Rightarrow> bool" where
  "independent f R W \<longleftrightarrow> (\<forall>i \<in> R. \<forall>j \<in> W. \<forall>k. sim_ctx_lookup f i = Some k \<longrightarrow> sim_ctx_lookup f j \<noteq> Some k)"

text \<open>A ranking: a statement reads only what statements of lower rank write.\<close>

definition ranked :: "(SimAsyncChunk \<Rightarrow> nat) \<Rightarrow> SimAsyncChunk list \<Rightarrow> bool" where
  "ranked r cs \<longleftrightarrow>
     list_all (\<lambda>c. list_all (\<lambda>d. set (read_indices c) \<inter> set (write_indices d) \<noteq> {} \<longrightarrow> r d < r c) cs) cs"

definition loop_free :: "(SimAsyncChunk \<Rightarrow> nat) \<Rightarrow> SimFrame \<Rightarrow> bool" where
  "loop_free r f \<longleftrightarrow>
     lookup_inj f \<and> ranked r (async_chunks f) \<and> list_all (\<lambda>c. single_assignment (chunk_stmt c)) (async_chunks f)"

definition stable_below :: "(SimAsyncChunk \<Rightarrow> nat) \<Rightarrow> nat \<Rightarrow> SimFrame \<Rightarrow> bool" where
  "stable_below r p f \<longleftrightarrow> (\<forall>c \<in> set (async_chunks f). r c < p \<longrightarrow> stable f (chunk_stmt c))"

section \<open>Distinct entries\<close>

lemma distinct_filter_nth:
  assumes "distinct (filter P xs)" "i < length xs" "j < length xs" "P (xs ! i)" "xs ! i = xs ! j"
  shows "i = j"
  using assms
proof (induction xs arbitrary: i j)
  case Nil
  then show ?case by simp
next
  case (Cons x xs)
  have mem: "xs ! m \<in> set (filter P xs)" if "m < length xs" "P (xs ! m)" for m using that by auto
  show ?case
    using Cons mem by (cases i; cases j) (auto split: if_splits)
qed

lemma lookup_injD:
  assumes "lookup_inj f" "frame_ok f" "sim_ctx_lookup f i = Some k" "sim_ctx_lookup f j = Some k"
  shows "i = j"
proof -
  have I: "0 \<le> i" "nat i < length (sig_id_map f)" "sig_id_map f ! nat i = int k"
    and J: "0 \<le> j" "nat j < length (sig_id_map f)" "sig_id_map f ! nat j = int k"
    using assms(2-4) by (auto simp: sim_ctx_lookup_def frame_ok_def Let_def split: if_splits)
  have "nat i = nat j"
    using distinct_filter_nth [OF assms(1) [unfolded lookup_inj_def] I(2) J(2)] I(3) J(3) by simp
  then show ?thesis using I(1) J(1) by simp
qed

lemma lookup_inj_step: "same_tables f g \<Longrightarrow> lookup_inj g = lookup_inj f"
  by (simp add: lookup_inj_def same_tables_def)

lemma independent_step: "same_tables f g \<Longrightarrow> independent g R W = independent f R W"
  by (simp add: independent_def same_tables_lookup)

lemma independent_mono: "independent f R W \<Longrightarrow> R' \<subseteq> R \<Longrightarrow> W' \<subseteq> W \<Longrightarrow> independent f R' W'"
  by (auto simp: independent_def)

section \<open>What one assignment computes\<close>

definition assigned_value :: "SimFrame \<Rightarrow> IR_Assignment \<Rightarrow> SimValue \<Rightarrow> SimValue" where
  "assigned_value f a c =
     (let rhs = extend_rhs (asgn_kind a) (width c) (expr_value f (asgn_rhs a))
      in if is_sliced a then write_slice rhs (lhs_msb a) (lhs_lsb a) c else rhs)"

lemma assign_rhs_typed:
  assumes "frame_ok f" "assign_ok f a" "sim_ctx_lookup f (lhs_signal_id a) = Some k"
  defines "c \<equiv> current (signals f ! k)"
  defines "rhs \<equiv> extend_rhs (asgn_kind a) (width c) (expr_value f (asgn_rhs a))"
  shows "sim_val_wf c" "typed rhs (width c)"
    "is_sliced a \<Longrightarrow> 0 \<le> lhs_lsb a \<and> lhs_lsb a \<le> lhs_msb a \<and> lhs_msb a < width c"
proof -
  show c: "sim_val_wf c" using frame_ok_current [OF assms(1,3)] by (simp add: c_def)
  obtain w where w: "static_width f (asgn_rhs a) = Some w" "extend_ok (asgn_kind a) (width c) w"
    "is_sliced a \<longrightarrow> 0 \<le> lhs_lsb a \<and> lhs_lsb a \<le> lhs_msb a \<and> lhs_msb a < width c"
    using assms(2,3) by (auto simp: assign_ok_def signal_width_of_def c_def split: option.splits)
  then show "is_sliced a \<Longrightarrow> 0 \<le> lhs_lsb a \<and> lhs_lsb a \<le> lhs_msb a \<and> lhs_msb a < width c" by simp
  show "typed rhs (width c)"
    using expr_value_typed(1) [OF assms(1) w(1)] w(2) sim_val_wfD(1,2) [OF c]
      extend_rhs_typed [of "expr_value f (asgn_rhs a)" "asgn_kind a" "width c"]
    by (simp add: rhs_def typed_def)
qed

lemma assigned_typed:
  assumes "frame_ok f" "assign_ok f a" "sim_ctx_lookup f (lhs_signal_id a) = Some k"
  shows "typed (assigned_value f a (current (signals f ! k))) (width (current (signals f ! k)))"
  using assign_rhs_typed [OF assms] write_slice_bits(1,2)
  by (auto simp: assigned_value_def Let_def typed_def)

lemma assigned_idem:
  assumes "frame_ok f" "assign_ok f a" "sim_ctx_lookup f (lhs_signal_id a) = Some k"
  defines "t \<equiv> assigned_value f a (current (signals f ! k))"
  shows "assigned_value f a t = t"
proof -
  let ?c = "current (signals f ! k)"
  define rhs where "rhs = extend_rhs (asgn_kind a) (width ?c) (expr_value f (asgn_rhs a))"
  note R = assign_rhs_typed [OF assms(1-3), folded rhs_def]
  have t: "typed t (width ?c)" using assigned_typed [OF assms(1-3)] by (simp add: t_def)
  show ?thesis
  proof (cases "is_sliced a")
    case True
    note S = R(3) [OF True]
    have tt: "t = write_slice rhs (lhs_msb a) (lhs_lsb a) ?c" using True by (simp add: t_def assigned_value_def rhs_def Let_def)
    have s: "0 \<le> lhs_lsb a" "lhs_lsb a \<le> lhs_msb a" "lhs_msb a < width ?c" "lhs_msb a < width t"
      using S t by (simp_all add: typed_def)
    note B = write_slice_bits [OF typed_wf(1) [OF R(2)] R(1) s(1,2,3)]
    note B' = write_slice_bits [OF typed_wf(1) [OF R(2)] typed_wf(1) [OF t] s(1,2,4)]
    have "write_slice rhs (lhs_msb a) (lhs_lsb a) t = t"
      by (rule sim_val_eqI [OF B'(1) typed_wf(1) [OF t] B'(2)]) (simp add: B'(3), simp add: tt B(3))
    then show ?thesis using True t by (simp add: assigned_value_def rhs_def [symmetric] Let_def typed_def)
  next
    case False
    then show ?thesis using t by (simp add: t_def assigned_value_def Let_def typed_def)
  qed
qed

lemma same_words_refl: "same_words a a lo hi"
  by (simp add: same_words_def list_all_iff)

lemma apply_assign_result:
  assumes "frame_ok f" "assign_ok f a" "sim_ctx_lookup f (lhs_signal_id a) = Some k"
  defines "c \<equiv> current (signals f ! k)"
  shows "current (signals (apply_assign f a False) ! k) = assigned_value f a c"
    "assigned_value f a c = c \<Longrightarrow> settle_dirty (apply_assign f a False) = settle_dirty f"
proof -
  define f1 where "f1 = f\<lparr>runtime_error := runtime_error f \<or> expr_raises f (asgn_rhs a)\<rparr>"
  define rhs where "rhs = extend_rhs (asgn_kind a) (width c) (expr_value f (asgn_rhs a))"
  have f1: "signals f1 = signals f" "settle_dirty f1 = settle_dirty f" by (simp_all add: f1_def)
  have k: "k < length (signals f)" using lookup_range [OF assms(1,3)] .
  note R = assign_rhs_typed [OF assms(1-3), folded c_def, folded rhs_def]
  have eq: "apply_assign f a False =
      (if is_sliced a then assign_slice k rhs (lhs_msb a) (lhs_lsb a) False f1 else assign_full k rhs False f1)"
    using assms(3) by (simp add: apply_assign_def sim_eval_expr_eq f1_def [symmetric] f1 c_def [symmetric] rhs_def)
  have v: "assigned_value f a c = (if is_sliced a then write_slice rhs (lhs_msb a) (lhs_lsb a) c else rhs)"
    by (simp add: assigned_value_def rhs_def Let_def)
  have same: "sim_val_same c rhs (span_words (width c)) \<Longrightarrow> c = rhs"
    using sim_val_same_eq [OF R(1) typed_wf(1) [OF R(2)]] R(2) by (simp add: typed_def)
  show "current (signals (apply_assign f a False) ! k) = assigned_value f a c"
    using k same
    by (auto simp: eq v assign_slice_def assign_full_def Let_def f1 c_def [symmetric] current_store.get_put_same)
  show "assigned_value f a c = c \<Longrightarrow> settle_dirty (apply_assign f a False) = settle_dirty f"
    by (auto simp: eq v assign_slice_def assign_full_def Let_def f1 c_def [symmetric] same_words_refl
        sim_val_same_def split: if_splits)
qed

section \<open>Running a statement again\<close>

text \<open>
  A frame \<open>g\<close> in which a statement that ran in \<open>f\<close>, leaving \<open>f'\<close>, may run again: what the
  statement reads is as in \<open>f\<close>, what it writes is as in \<open>f'\<close>.
\<close>

definition replays :: "int set \<Rightarrow> int set \<Rightarrow> SimFrame \<Rightarrow> SimFrame \<Rightarrow> SimFrame \<Rightarrow> bool" where
  "replays R W f f' g \<longleftrightarrow>
     frame_ok f \<and> frame_ok g \<and> same_tables f g \<and> lookup_inj f \<and> independent f R W \<and> agree R g f \<and>
     (\<forall>i \<in> W. \<forall>k. sim_ctx_lookup f i = Some k \<longrightarrow> current (signals g ! k) = current (signals f' ! k))"

definition quiet :: "SimFrame \<Rightarrow> SimFrame \<Rightarrow> bool" where
  "quiet g h \<longleftrightarrow> currents h = currents g \<and> settle_dirty h = settle_dirty g"

lemma quiet_simps [simp]:
  "quiet g g" "quiet g (raise_error g)"
  "quiet g (h\<lparr>runtime_error := b\<rparr>) = quiet g h" "quiet (g\<lparr>runtime_error := b\<rparr>) h = quiet g h"
  by (simp_all add: quiet_def currents_def raise_error_def)

lemma replays_mono:
  "replays R W f f' g \<Longrightarrow> R' \<subseteq> R \<Longrightarrow> W' \<subseteq> W \<Longrightarrow> replays R' W' f f' g"
  using independent_mono by (auto simp: replays_def agree_def agree_on_def)

lemma error_simps:
  "frame_ok (f\<lparr>runtime_error := b\<rparr>) = frame_ok f" "lookup_inj (f\<lparr>runtime_error := b\<rparr>) = lookup_inj f"
  "same_tables (f\<lparr>runtime_error := b\<rparr>) g = same_tables f g" "same_tables f (g\<lparr>runtime_error := b\<rparr>) = same_tables f g"
  "independent (f\<lparr>runtime_error := b\<rparr>) R W = independent f R W"
  by (simp_all add: frame_ok_def lookup_inj_def same_tables_def independent_def)

lemma replays_lookup: "replays R W f f' g \<Longrightarrow> sim_ctx_lookup g = sim_ctx_lookup f"
  using agree_lookup by (auto simp: replays_def)

lemma replays_error:
  "replays R W f f' g \<Longrightarrow> replays R W (f\<lparr>runtime_error := b\<rparr>) f' (g\<lparr>runtime_error := c\<rparr>)"
  by (simp add: replays_def error_simps)

lemma replays_eval:
  assumes "replays R W f f' g" "expr_read_set e \<subseteq> R" "sim_eval_expr f e = (v, f1)" "sim_eval_expr g e = (w, g1)"
  shows "w = v" "replays R W f1 f' g1" "quiet g1 h \<Longrightarrow> quiet g h"
  using assms agree_eval [of R g f e] replays_error [OF assms(1)]
  by (auto simp: sim_eval_expr_eq replays_def)

lemma replays_ok:
  assumes "replays R W f f' g"
  shows "stmt_ok g s = stmt_ok f s" "stmts_ok g ss = stmts_ok f ss" "assign_ok g a = assign_ok f a"
  using assms stmt_ok_cong [of f g] stmt_ok_cong(1) [of f g "STMT_ASSIGNMENT a"] by (simp_all add: replays_def)

lemma assigned_value_cong:
  "expr_value g (asgn_rhs a) = expr_value f (asgn_rhs a) \<Longrightarrow> assigned_value g a c = assigned_value f a c"
  by (simp add: assigned_value_def)

lemma replay_assign:
  assumes "replays (expr_read_set (asgn_rhs a)) {lhs_signal_id a} f (apply_assign f a False) g" "assign_ok f a"
  shows "quiet g (apply_assign g a False)"
proof (cases "sim_ctx_lookup f (lhs_signal_id a)")
  case None
  then have "sim_ctx_lookup g (lhs_signal_id a) = None" using replays_lookup [OF assms(1)] by simp
  then show ?thesis by (simp add: apply_assign_def)
next
  case (Some k)
  let ?t = "assigned_value f a (current (signals f ! k))"
  have f: "frame_ok f" and g: "frame_ok g" "sim_ctx_lookup g (lhs_signal_id a) = Some k" "assign_ok g a"
    and v: "expr_value g (asgn_rhs a) = expr_value f (asgn_rhs a)"
    using assms Some replays_lookup [OF assms(1)] agree_eval(1) [of _ g f] replays_ok(3) [OF assms(1)]
    by (auto simp: replays_def)
  have t: "current (signals g ! k) = ?t"
    using assms(1) Some apply_assign_result(1) [OF f assms(2) Some] by (simp add: replays_def)
  have "assigned_value g a ?t = ?t"
    using assigned_idem [OF f assms(2) Some] assigned_value_cong [OF v] by simp
  note R = apply_assign_result [OF g(1,3,2), unfolded t this]
  have "current (signals (apply_assign g a False) ! j) = current (signals g ! j)" for j
    using R(1) t exec_other [of "STMT_ASSIGNMENT a" g j False] g(2) by (cases "j = k") auto
  then show ?thesis
    using R(2) exec_length [of g "STMT_ASSIGNMENT a" False] by (auto simp: quiet_def intro!: currents_eqI)
qed

text \<open>A block runs again: first its head, whose results the tail leaves alone, then the tail.\<close>

lemma replays_head:
  assumes "replays (stmt_read_set s \<union> R) (stmt_write_set s \<union> block_write_set ss) f (exec_block (sim_exec_stmt f s False) ss False) g"
    and "stmt_write_set s \<inter> block_write_set ss = {}"
  shows "replays (stmt_read_set s) (stmt_write_set s) f (sim_exec_stmt f s False) g"
proof -
  let ?f1 = "sim_exec_stmt f s False"
  have lk: "sim_ctx_lookup ?f1 = sim_ctx_lookup f" by (rule unchanged_but_lookup(1) [OF exec_unchanged(1)])
  have tail: "signals (exec_block ?f1 ss False) ! k = signals ?f1 ! k"
    if "i \<in> stmt_write_set s" "sim_ctx_lookup f i = Some k" for i k
  proof -
    have "sim_ctx_lookup f j \<noteq> Some k" if "j \<in> block_write_set ss" for j
      using lookup_injD [of f i k j] assms that \<open>i \<in> _\<close> \<open>sim_ctx_lookup f i = Some k\<close>
      by (auto simp: replays_def)
    then show ?thesis using exec_unchanged(4) [of ss ?f1 False] lk by (auto simp: unchanged_but_def)
  qed
  have "replays (stmt_read_set s) (stmt_write_set s) f (exec_block ?f1 ss False) g"
    by (rule replays_mono [OF assms(1)]) auto
  then show ?thesis using tail by (simp add: replays_def)
qed

lemma replays_tail:
  assumes "replays (stmt_read_set s \<union> block_read_set ss) (stmt_write_set s \<union> block_write_set ss) f f2 g"
    and "quiet g (sim_exec_stmt g s False)" "stmt_ok f s" "\<not> writes_memory s"
  shows "replays (block_read_set ss) (block_write_set ss) (sim_exec_stmt f s False) f2 (sim_exec_stmt g s False)"
proof -
  let ?f1 = "sim_exec_stmt f s False" and ?g1 = "sim_exec_stmt g s False"
  have f: "frame_ok f" and g: "frame_ok g" and st: "same_tables f g" and ag: "agree (stmt_read_set s \<union> block_read_set ss) g f"
    and ind: "independent f (stmt_read_set s \<union> block_read_set ss) (stmt_write_set s \<union> block_write_set ss)"
    using assms(1) by (simp_all add: replays_def)
  have F: "comb_step f ?f1" and G: "comb_step g ?g1"
    using sim_exec_stmt_step(1) [where n = False] f g assms(3) replays_ok(1) [OF assms(1)] by simp_all
  have tabs: "same_tables f ?f1" "same_tables ?f1 ?g1" "frame_ok ?f1" "frame_ok ?g1"
    using comb_stepD(1,2) [OF F] comb_stepD(1,2) [OF G] st by (simp_all add: same_tables_def)
  have cur: "current (signals ?g1 ! k) = current (signals g ! k)" if "sim_ctx_lookup f i = Some k" for i k
    using currents_nth [of ?g1 g k] assms(2) lookup_range [OF f that] exec_length [of g s False] same_tables_length(1) [OF st]
    by (simp add: quiet_def)
  have same: "signals ?f1 ! k = signals f ! k" if "i \<in> block_read_set ss" "sim_ctx_lookup f i = Some k" for i k
    using exec_other [of s f k False] ind that by (auto simp: independent_def)
  have lk: "sim_ctx_lookup ?f1 = sim_ctx_lookup f" using same_tables_lookup(1) [OF tabs(1)] .
  have "agree (block_read_set ss) ?g1 ?f1"
    using ag cur same lk exec_memories(1) [OF assms(4)] exec_length tabs(2)
    by (auto simp: agree_def agree_on_def same_tables_def)
  moreover have "independent ?f1 (block_read_set ss) (block_write_set ss)"
    using independent_step [OF tabs(1)] independent_mono [OF ind] by auto
  ultimately show ?thesis
    using assms(1) tabs lk cur lookup_inj_step [OF tabs(1)] by (auto simp: replays_def)
qed

lemma replays_branch:
  assumes "replays R W f f' g" "sim_eval_expr f e = (v, f1)" "sim_eval_expr g e = (w, g1)"
  shows "expr_read_set e \<subseteq> R \<Longrightarrow> w = v"
    "expr_read_set e \<subseteq> R \<Longrightarrow> R' \<subseteq> R \<Longrightarrow> W' \<subseteq> W \<Longrightarrow> f'' = f' \<Longrightarrow> replays R' W' f1 f'' g1"
    "quiet g1 h \<Longrightarrow> quiet g h"
proof -
  show "expr_read_set e \<subseteq> R \<Longrightarrow> w = v" using replays_eval(1) [OF assms(1) _ assms(2,3)] .
  show "expr_read_set e \<subseteq> R \<Longrightarrow> R' \<subseteq> R \<Longrightarrow> W' \<subseteq> W \<Longrightarrow> f'' = f' \<Longrightarrow> replays R' W' f1 f'' g1"
    using replays_mono [OF replays_eval(2) [OF assms(1) _ assms(2,3)]] by simp
  show "quiet g1 h \<Longrightarrow> quiet g h" using assms(3) by (auto simp: sim_eval_expr_eq)
qed

lemma replays_eval_ok:
  assumes "replays R W f f' g" "sim_eval_expr f e = (v, f1)"
  shows "stmt_ok f1 s = stmt_ok f s" "cases_ok f1 cs = cases_ok f cs"
  using assms stmt_ok_cong [of f f1] eval_step(4) [OF _ assms(2)] by (simp_all add: replays_def)

lemma replays_stmts_ok:
  "replays R W f f' g \<Longrightarrow> stmt_ok f s \<Longrightarrow> stmts_ok f ss \<Longrightarrow> stmts_ok (sim_exec_stmt f s False) ss"
  using step_ok(4) [OF sim_exec_stmt_step(1) [where n = False]] by (simp add: replays_def)

lemma exec_replay:
  "replays (stmt_read_set s) (stmt_write_set s) f (sim_exec_stmt f s n) g \<Longrightarrow> stmt_ok f s \<Longrightarrow> \<not> writes_memory s \<Longrightarrow>
     single_assignment s \<Longrightarrow> \<not> n \<Longrightarrow> quiet g (sim_exec_stmt g s n)"
  "replays (stmt_read_set elif \<union> stmt_read_set els) (stmt_write_set elif \<union> stmt_write_set els) f (exec_elif f elif els n) g \<Longrightarrow>
     stmt_ok f elif \<Longrightarrow> stmt_ok f els \<Longrightarrow> \<not> writes_memory elif \<Longrightarrow> \<not> writes_memory els \<Longrightarrow>
     single_assignment elif \<Longrightarrow> single_assignment els \<Longrightarrow> \<not> n \<Longrightarrow> quiet g (exec_elif g elif els n)"
  "replays (cases_read_set cs) (cases_write_set cs) f (exec_cases f sel cs n) g \<Longrightarrow> cases_ok f cs \<Longrightarrow>
     \<not> cases_write_memory cs \<Longrightarrow> cases_single_assignment cs \<Longrightarrow> \<not> n \<Longrightarrow> quiet g (exec_cases g sel cs n)"
  "replays (block_read_set ss) (block_write_set ss) f (exec_block f ss n) g \<Longrightarrow> stmts_ok f ss \<Longrightarrow>
     \<not> block_writes_memory ss \<Longrightarrow> block_single_assignment ss \<Longrightarrow> \<not> n \<Longrightarrow> quiet g (exec_block g ss n)"
proof (induction f s n and f elif els n and f sel cs n and f ss n arbitrary: g and g and g and g
    rule: sim_exec_stmt_exec_elif_exec_cases_exec_block.induct)
  case (2 ctx a is_nba)
  then show ?case using replay_assign by simp
next
  case (3 ctx c t elif els is_nba)
  obtain v f1 w g1 where e: "sim_eval_expr ctx c = (v, f1)" "sim_eval_expr g c = (w, g1)" by fastforce
  note B = replays_branch [OF "3.prems"(1) e] and ok = replays_eval_ok [OF "3.prems"(1) e(1)]
  have w: "w = v" by (rule B) auto
  have "quiet g1 (sim_exec_stmt g1 t is_nba)" if "sim_val_is_true v = 1"
    by (rule "3.IH"(1) [OF e(1) [symmetric] refl refl]) (use 3 that e(1) ok in \<open>auto intro!: B(2) simp: Let_def\<close>)
  moreover have "quiet g1 (exec_elif g1 elif els is_nba)" if "sim_val_is_true v \<noteq> 1" "sim_val_is_true v \<noteq> -1"
    by (rule "3.IH"(2) [OF e(1) [symmetric] refl refl]) (use 3 that e(1) ok in \<open>auto intro!: B(2) simp: Let_def\<close>)
  ultimately show ?case by (intro B(3)) (auto simp: e w Let_def)
next
  case (4 ctx s cs is_nba)
  obtain v f1 w g1 where e: "sim_eval_expr ctx s = (v, f1)" "sim_eval_expr g s = (w, g1)" by fastforce
  note B = replays_branch [OF "4.prems"(1) e] and ok = replays_eval_ok [OF "4.prems"(1) e(1)]
  have w: "w = v" by (rule B) auto
  have "quiet g1 (exec_cases g1 v cs is_nba)" if "\<not> sim_val_has_xz v"
    by (rule "4.IH" [OF e(1) [symmetric] refl]) (use 4 that e(1) ok in \<open>auto intro!: B(2) simp: Let_def\<close>)
  then show ?case by (intro B(3)) (auto simp: e w Let_def)
next
  case (7 ctx c t elif u els is_nba)
  obtain v f1 w g1 where e: "sim_eval_expr ctx c = (v, f1)" "sim_eval_expr g c = (w, g1)" by fastforce
  note B = replays_branch [OF "7.prems"(1) e] and ok = replays_eval_ok [OF "7.prems"(1) e(1)]
  have w: "w = v" by (rule B) auto
  have "quiet g1 (sim_exec_stmt g1 t is_nba)" if "sim_val_is_true v = 1"
    by (rule "7.IH"(1) [OF e(1) [symmetric] refl refl]) (use 7 that e(1) ok in \<open>auto intro!: B(2) simp: Let_def\<close>)
  moreover have "quiet g1 (exec_elif g1 elif els is_nba)" if "sim_val_is_true v \<noteq> 1" "sim_val_is_true v \<noteq> -1"
    by (rule "7.IH"(2) [OF e(1) [symmetric] refl refl]) (use 7 that e(1) ok in \<open>auto intro!: B(2) simp: Let_def\<close>)
  ultimately show ?case by (intro B(3)) (auto simp: e w Let_def)
next
  case (10 ctx selector x body cs is_nba)
  show ?case
  proof (cases "x = EXPR_NULL")
    case True
    have "replays (stmt_read_set body) (stmt_write_set body) ctx (sim_exec_stmt ctx body is_nba) g"
      using replays_mono [OF "10.prems"(1)] True by auto
    then show ?thesis using 10 True by simp
  next
    case False
    obtain v f1 w g1 where e: "sim_eval_expr ctx x = (v, f1)" "sim_eval_expr g x = (w, g1)" by fastforce
    note B = replays_branch [OF "10.prems"(1) e] and ok = replays_eval_ok [OF "10.prems"(1) e(1)]
    have w: "w = v" by (rule B) auto
    let ?m = "sim_val_is_true (sim_val_eq selector v) = 1"
    have "quiet g1 (sim_exec_stmt g1 body is_nba)" if "?m"
      by (rule "10.IH"(2) [OF False e(1) [symmetric] refl refl]) (use 10 that e(1) ok False in \<open>auto intro!: B(2) simp: Let_def\<close>)
    moreover have "quiet g1 (exec_cases g1 selector cs is_nba)" if "\<not> ?m"
      by (rule "10.IH"(3) [OF False e(1) [symmetric] refl refl]) (use 10 that e(1) ok False in \<open>auto intro!: B(2) simp: Let_def\<close>)
    ultimately show ?thesis using False by (intro B(3)) (auto simp: e w Let_def)
  qed
next
  case (12 ctx s ss is_nba)
  have H: "quiet g (sim_exec_stmt g s False)"
    using "12.IH"(1) replays_head [of s "block_read_set ss" ss ctx g] "12.prems" by auto
  have "quiet (sim_exec_stmt g s False) (exec_block (sim_exec_stmt g s False) ss False)"
    using "12.IH"(2) replays_tail [OF _ H] "12.prems" replays_stmts_ok by auto
  with H show ?case using "12.prems" by (simp add: quiet_def)
qed (auto intro: replays_mono)

section \<open>Stable statements stay stable\<close>

lemma loop_free_step: "same_tables f g \<Longrightarrow> loop_free r g = loop_free r f"
  using lookup_inj_step [of f g] by (simp add: loop_free_def same_tables_def)

lemma loop_free_chunk:
  assumes "async_ok f" "loop_free r f" "c \<in> set (async_chunks f)"
  shows "lookup_inj f" "single_assignment (chunk_stmt c)"
    "independent f (stmt_read_set (chunk_stmt c)) (stmt_write_set (chunk_stmt c))"
proof -
  show "lookup_inj f" "single_assignment (chunk_stmt c)" using assms(2,3) by (auto simp: loop_free_def list_all_iff)
  have "set (read_indices c) \<inter> set (write_indices c) = {}"
    using assms(2,3) by (auto simp: loop_free_def ranked_def list_all_iff)
  then show "independent f (stmt_read_set (chunk_stmt c)) (stmt_write_set (chunk_stmt c))"
    using async_ok_chunk(4,5) [OF assms(1,3)] by (auto simp: independent_def)
qed

lemma ranked_reads:
  assumes "loop_free r f" "c \<in> set (async_chunks f)" "d \<in> set (async_chunks f)" "r c \<le> r d"
  shows "set (read_indices c) \<inter> set (write_indices d) = {}"
  using assms by (fastforce simp: loop_free_def ranked_def list_all_iff)

lemma stable_quiet:
  assumes "async_ok f" "loop_free r f" "c \<in> set (async_chunks f)" "stable f (chunk_stmt c)"
  shows "quiet f (sim_exec_stmt f (chunk_stmt c) False)"
proof -
  let ?s = "chunk_stmt c"
  note C = async_ok_chunk(1,2,3) [OF assms(1,3)] and L = loop_free_chunk [OF assms(1-3)]
  have "current (signals f ! k) = current (signals (sim_exec_stmt f ?s False) ! k)" if "sim_ctx_lookup f i = Some k" for i k
    using currents_nth [OF assms(4) [unfolded stable_def]] lookup_range [OF C(1) that] exec_length [of f ?s False] by simp
  then have "replays (stmt_read_set ?s) (stmt_write_set ?s) f (sim_exec_stmt f ?s False) f"
    using C L by (simp add: replays_def agree_def agree_on_def same_tables_def)
  then show ?thesis using exec_replay(1) C L(2) by blast
qed

lemma executed_stable:
  assumes "async_ok f" "loop_free r f" "c \<in> set (async_chunks f)"
  shows "stable (sim_exec_stmt f (chunk_stmt c) False) (chunk_stmt c)"
proof -
  let ?s = "chunk_stmt c" and ?g = "sim_exec_stmt f (chunk_stmt c) False"
  note C = async_ok_chunk(1,2,3) [OF assms(1,3)] and L = loop_free_chunk [OF assms]
  note S = exec_chunk_step [OF assms(1,3)]
  have "agree (stmt_read_set ?s) ?g f"
    using step_agree [OF comb_stepD(1) [OF S(1)] S(2)] exec_other [of ?s f] L(3) by (auto simp: independent_def)
  then have "replays (stmt_read_set ?s) (stmt_write_set ?s) f ?g ?g"
    using C L comb_stepD(1,2) [OF S(1)] by (simp add: replays_def)
  then show ?thesis using exec_replay(1) [of ?s f False ?g] C L(2) by (simp add: quiet_def stable_def)
qed

lemma run_chunk_stable:
  assumes "settle_inv f" "loop_free r f" "c \<in> set (async_chunks f)"
  shows "stable (run_chunk c f) (chunk_stmt c)"
  using assms executed_stable [OF _ assms(2,3)] by (auto simp: run_chunk_def settle_inv_def list_all_iff)

lemma stable_run_chunk:
  assumes "async_ok f" "loop_free r f" "d \<in> set (async_chunks f)" "stable f (chunk_stmt d)"
  shows "quiet f (run_chunk d f)"
  using stable_quiet [OF assms] by (simp add: run_chunk_def)

lemma run_chunk_keeps_stable:
  assumes "settle_inv f" "loop_free r f" "c \<in> set (async_chunks f)" "d \<in> set (async_chunks f)"
    and "stable f (chunk_stmt c)" "stable f (chunk_stmt d) \<or> r c \<le> r d"
  shows "stable (run_chunk d f) (chunk_stmt c)"
proof (cases "c = d")
  case True
  then show ?thesis using run_chunk_stable [OF assms(1-3)] by simp
next
  case False
  have ok: "async_ok f" using assms(1) by (simp add: settle_inv_def)
  note S = run_chunk_step [OF ok assms(4)]
  show ?thesis
  proof (cases "stable f (chunk_stmt d)")
    case True
    then show ?thesis
      using stable_same_currents [OF ok assms(3) S] stable_run_chunk [OF ok assms(2,4)] assms(5) by (simp add: quiet_def)
  next
    case False
    then have "k \<notin> set (write_indices d)" if "k \<in> set (read_indices c) \<union> set (write_indices c)" for k
      using ranked_reads [OF assms(2-4)] disjoint_chunks [OF ok assms(3,4) \<open>c \<noteq> d\<close>] assms(6) that by auto
    then show ?thesis using stable_step [OF ok assms(3) S assms(5)] run_chunk_other [OF ok assms(4)] by simp
  qed
qed

section \<open>Every pass stabilises one more rank\<close>

lemma pass_stabilises:
  assumes "settle_inv f" "loop_free r f" "stable_below r p f" "set cs \<subseteq> set (async_chunks f)"
    and "\<And>c. c \<in> set (async_chunks f) \<Longrightarrow> r c = p \<Longrightarrow> c \<in> set cs \<or> stable f (chunk_stmt c)"
  shows "stable_below r (Suc p) (fold run_chunk cs f)"
  using assms
proof (induction cs arbitrary: f)
  case Nil
  then show ?case by (auto simp: stable_below_def less_Suc_eq)
next
  case (Cons d cs)
  let ?g = "run_chunk d f"
  have ok: "async_ok f" and d: "d \<in> set (async_chunks f)" using Cons.prems by (auto simp: settle_inv_def)
  note S = run_chunk_step [OF ok d]
  have ch: "async_chunks ?g = async_chunks f" using step_chunks [OF S(1)] .
  have keep: "stable ?g (chunk_stmt c)" if "c \<in> set (async_chunks f)" "stable f (chunk_stmt c)" "r c \<le> p" for c
    using run_chunk_keeps_stable [OF Cons.prems(1,2) that(1) d that(2)] Cons.prems(3) d that(3)
    by (cases "r d < p") (auto simp: stable_below_def)
  show ?case
  proof (simp only: fold_simps, rule Cons.IH)
    show "settle_inv ?g" by (rule run_chunk_inv [OF Cons.prems(1) d])
    show "loop_free r ?g" using loop_free_step [OF comb_stepD(1) [OF S(1)]] Cons.prems(2) by simp
    show "stable_below r p ?g" using keep Cons.prems(3) by (auto simp: stable_below_def ch)
    show "set cs \<subseteq> set (async_chunks ?g)" using Cons.prems(4) by (simp add: ch)
    show "c \<in> set cs \<or> stable ?g (chunk_stmt c)" if "c \<in> set (async_chunks ?g)" "r c = p" for c
      using Cons.prems(5) [of c] run_chunk_stable [OF Cons.prems(1,2)] keep that by (auto simp: ch)
  qed
qed

lemma stable_pass_quiet:
  assumes "settle_inv f" "loop_free r f" "all_stable f" "set cs \<subseteq> set (async_chunks f)"
  shows "quiet f (fold run_chunk cs f)"
  using assms
proof (induction cs arbitrary: f)
  case Nil
  then show ?case by simp
next
  case (Cons d cs)
  let ?g = "run_chunk d f"
  have ok: "async_ok f" and d: "d \<in> set (async_chunks f)" "stable f (chunk_stmt d)"
    using Cons.prems by (auto simp: settle_inv_def all_stable_def list_all_iff)
  note S = run_chunk_step [OF ok d(1)]
  have q: "quiet f ?g" using stable_run_chunk [OF ok Cons.prems(2) d] .
  have "all_stable ?g"
    using run_chunk_keeps_stable [OF Cons.prems(1,2) _ d(1)] d(2) Cons.prems(3) step_chunks [OF S(1)]
    by (simp add: all_stable_def list_all_iff)
  then have "quiet ?g (fold run_chunk cs ?g)"
    using Cons.IH [OF run_chunk_inv [OF Cons.prems(1) d(1)]] Cons.prems(2,4)
      loop_free_step [OF comb_stepD(1) [OF S(1)]] step_chunks [OF S(1)] by simp
  with q show ?case by (simp add: quiet_def)
qed

lemma settle_loop_converges:
  assumes "settle_inv f" "loop_free r f" "stable_below r p f"
    and "list_all (\<lambda>c. r c \<le> N) (async_chunks f)" "N + 2 \<le> n + p" "0 < n"
  shows "\<exists>g. settle_loop n (SimContext f []) = (SimContext g [], True)"
  using assms
proof (induction n arbitrary: f p)
  case 0
  then show ?case by simp
next
  case (Suc n)
  let ?f = "f\<lparr>settle_dirty := False\<rparr>"
  define g where "g = fold run_chunk (async_chunks f) ?f"
  note P = settle_pass [OF Suc.prems(1), folded g_def]
  have ok: "async_ok f" using Suc.prems(1) by (simp add: settle_inv_def)
  have F: "settle_inv ?f" "loop_free r ?f" "stable_below r p ?f"
    using settle_inv_settle_dirty [OF Suc.prems(1)] Suc.prems(2,3) stable_flags(1) [OF ok]
    by (auto simp: loop_free_def lookup_inj_def stable_below_def)
  show ?case
  proof (cases "settle_dirty g")
    case False
    then show ?thesis using P(1) by simp
  next
    case True
    have st: "same_tables f g" using P(3) by (simp add: settles_from_def)
    have below: "stable_below r (Suc p) g"
      using pass_stabilises [OF F, of "async_chunks ?f"] by (simp add: g_def)
    have "\<not> all_stable ?f"
      using stable_pass_quiet [OF F(1,2), of "async_chunks ?f"] True by (auto simp: g_def quiet_def)
    then have "p \<le> N"
      using F(3) Suc.prems(4) by (force simp: all_stable_def stable_below_def list_all_iff)
    then have "\<exists>h. settle_loop n (SimContext g []) = (SimContext h [], True)"
      using Suc.IH [OF P(2) _ below] Suc.prems(2,4,5) loop_free_step [OF st] st by (simp add: same_tables_def)
    then show ?thesis using True P(1) by simp
  qed
qed

end
