(* ===== verification/Sim_Nba.thy ===== *)
theory Sim_Nba
  imports Sim_Settle_Live
begin

text \<open>
  Non-blocking assignments: synchronous statements record pending values and leave what can be
  read alone, so the order of statements that write different signals does not matter;
  \<open>sim_ctx_apply_nba\<close> then commits all pending values together.
\<close>

section \<open>Definitions\<close>

text \<open>The committed form of an entry.\<close>

definition committed :: "SimSignalEntry \<Rightarrow> SimSignalEntry" where
  "committed e = (if has_pending e then e\<lparr>current := nxt e, has_pending := False\<rparr> else e)"

text \<open>The frame after the first \<open>n\<close> entries have been committed.\<close>

definition commit_prefix :: "nat \<Rightarrow> SimFrame \<Rightarrow> SimFrame" where
  "commit_prefix n f =
     f\<lparr>signals := map (\<lambda>k. if k < n then committed (signals f ! k) else signals f ! k) [0..<length (signals f)],
       settle_dirty := (settle_dirty f \<or> (\<exists>k < n. has_pending (signals f ! k))),
       sig_dirty := map (\<lambda>k. sig_dirty f ! k \<or> (k < n \<and> has_pending (signals f ! k))) [0..<length (signals f)]\<rparr>"

text \<open>Nothing a statement can read, and no flag of the settling loop, has changed.\<close>

definition nba_step :: "SimFrame \<Rightarrow> SimFrame \<Rightarrow> bool" where
  "nba_step f g \<longleftrightarrow>
     same_tables f g \<and> frame_ok g \<and> currents g = currents f \<and> sig_dirty g = sig_dirty f \<and>
     settle_dirty g = settle_dirty f"

text \<open>Two frames that cannot be told apart by reading and hold the same entry at \<open>k\<close>.\<close>

definition same_view :: "nat \<Rightarrow> SimFrame \<Rightarrow> SimFrame \<Rightarrow> bool" where
  "same_view k f g \<longleftrightarrow> agree UNIV f g \<and> signals f ! k = signals g ! k \<and> currents f = currents g"

section \<open>Committing\<close>

lemma commit_prefix_step:
  assumes "i < length (signals f)" "length (sig_dirty f) = length (signals f)"
  shows "apply_nba_signal i (commit_prefix i f) = commit_prefix (Suc i) f"
proof -
  have e: "signals (commit_prefix i f) ! i = signals f ! i" using assms(1) by (simp add: commit_prefix_def)
  show ?thesis
  proof (cases "has_pending (signals f ! i)")
    case True
    have "(signals (commit_prefix i f))[i := committed (signals f ! i)] = signals (commit_prefix (Suc i) f)"
      "(sig_dirty (commit_prefix i f))[i := True] = sig_dirty (commit_prefix (Suc i) f)"
      using assms True by (auto intro!: nth_equalityI simp: commit_prefix_def nth_list_update less_Suc_eq split: if_splits)
    moreover have "settle_dirty (commit_prefix (Suc i) f)" using True by (auto simp: commit_prefix_def)
    ultimately show ?thesis
      using True e by (simp add: apply_nba_signal_def Let_def committed_def) (simp add: commit_prefix_def)
  next
    case False
    then have "signals (commit_prefix (Suc i) f) = signals (commit_prefix i f)"
      "sig_dirty (commit_prefix (Suc i) f) = sig_dirty (commit_prefix i f)"
      "settle_dirty (commit_prefix (Suc i) f) = settle_dirty (commit_prefix i f)"
      using assms by (auto simp: commit_prefix_def less_Suc_eq committed_def)
    then show ?thesis using False e by (simp add: apply_nba_signal_def Let_def) (simp add: commit_prefix_def)
  qed
qed

lemma apply_nba_frame_eq:
  assumes "length (sig_dirty f) = length (signals f)"
  shows "apply_nba_frame f = commit_prefix (length (signals f)) f"
  unfolding apply_nba_frame_def
proof (rule for_loop_invariant [where P = "\<lambda>i t. t = commit_prefix i f"])
  show "f = commit_prefix 0 f" using map_nth [of "sig_dirty f"] assms by (simp add: commit_prefix_def map_nth)
  show "apply_nba_signal i t = commit_prefix (Suc i) f" if "i < length (signals f)" "t = commit_prefix i f" for i t
    using commit_prefix_step [OF that(1) assms] that(2) by simp
qed

lemma apply_nba_commits:
  assumes "frame_ok f"
  shows "signals (apply_nba_frame f) = map committed (signals f)"
    "k < length (signals f) \<Longrightarrow> sig_dirty (apply_nba_frame f) ! k = (sig_dirty f ! k \<or> has_pending (signals f ! k))"
    "settle_dirty (apply_nba_frame f) = (settle_dirty f \<or> list_ex has_pending (signals f))"
    "memories (apply_nba_frame f) = memories f" "async_chunks (apply_nba_frame f) = async_chunks f"
    "sim_ctx_lookup (apply_nba_frame f) = sim_ctx_lookup f" "ctx_module (apply_nba_frame f) = ctx_module f"
    "frame_ok (apply_nba_frame f)" "same_tables f (apply_nba_frame f)"
proof -
  have len: "length (sig_dirty f) = length (signals f)" using assms by (simp add: frame_ok_def)
  note eq = apply_nba_frame_eq [OF len]
  show sig: "signals (apply_nba_frame f) = map committed (signals f)"
    by (rule nth_equalityI) (simp_all add: eq commit_prefix_def)
  show "k < length (signals f) \<Longrightarrow> sig_dirty (apply_nba_frame f) ! k = (sig_dirty f ! k \<or> has_pending (signals f ! k))"
    "settle_dirty (apply_nba_frame f) = (settle_dirty f \<or> list_ex has_pending (signals f))"
    using len by (auto simp: eq commit_prefix_def list_ex_length)
  show "memories (apply_nba_frame f) = memories f" "async_chunks (apply_nba_frame f) = async_chunks f"
    "sim_ctx_lookup (apply_nba_frame f) = sim_ctx_lookup f" "ctx_module (apply_nba_frame f) = ctx_module f"
    by (simp_all add: eq commit_prefix_def sim_ctx_lookup_def fun_eq_iff)
  have ok: "entry_ok (committed e) \<and> width (current (committed e)) = width (current e)" if "e \<in> set (signals f)" for e
    using assms that by (auto simp: frame_ok_def list_all_iff entry_ok_def committed_def)
  then show "frame_ok (apply_nba_frame f)"
    using assms by (simp add: frame_ok_def sig list_all_iff) (simp add: eq commit_prefix_def)
  show "same_tables f (apply_nba_frame f)"
    using ok by (simp add: same_tables_def sig) (simp add: eq commit_prefix_def)
qed

section \<open>Recording pending values\<close>

lemma nba_step_refl: "frame_ok f \<Longrightarrow> nba_step f f"
  by (simp add: nba_step_def same_tables_def)

lemma nba_step_trans: "nba_step f g \<Longrightarrow> nba_step g h \<Longrightarrow> nba_step f h"
  using same_tables_trans by (auto simp: nba_step_def)

lemma nba_step_error: "frame_ok f \<Longrightarrow> nba_step f (f\<lparr>runtime_error := b\<rparr>)"
  by (simp add: nba_step_def same_tables_def frame_ok_def currents_def)

lemma nba_step_raise: "frame_ok f \<Longrightarrow> nba_step f (raise_error f)"
  by (simp add: raise_error_def nba_step_refl nba_step_error)

lemma nba_step_pending:
  assumes "frame_ok f" "k < length (signals f)" "typed v (width (current (signals f ! k)))"
  shows "nba_step f (set_pending k v f)"
proof -
  have "entry_ok ((signals f ! k)\<lparr>nxt := v, has_pending := True\<rparr>)"
    using frame_ok_entry [OF assms(1,2)] assms(3) by (simp add: entry_ok_def typed_def)
  then show ?thesis
    using assms(1,2)
    by (simp add: nba_step_def set_pending_def frame_ok_def same_tables_def currents_def map_update_same list_all_update)
qed

lemma apply_assign_nba:
  assumes "frame_ok f" "assign_ok f a"
  shows "nba_step f (apply_assign f a True)"
proof (cases "sim_ctx_lookup f (lhs_signal_id a)")
  case None
  then show ?thesis using nba_step_refl [OF assms(1)] by (simp add: apply_assign_def)
next
  case (Some k)
  define f1 where "f1 = f\<lparr>runtime_error := runtime_error f \<or> expr_raises f (asgn_rhs a)\<rparr>"
  define e rhs where "e = signals f ! k" and "rhs = extend_rhs (asgn_kind a) (width (current e)) (expr_value f (asgn_rhs a))"
  have k: "k < length (signals f1)" "signals f1 = signals f" using lookup_range [OF assms(1) Some] by (simp_all add: f1_def)
  have f1: "nba_step f f1" "frame_ok f1" using nba_step_error [OF assms(1)] by (auto simp: f1_def nba_step_def)
  note R = assign_rhs_typed [OF assms Some, folded e_def, folded rhs_def]
  have b: "sim_val_wf (if has_pending e then nxt e else current e)"
    "width (if has_pending e then nxt e else current e) = width (current e)"
    using frame_ok_entry [OF assms(1)] k by (auto simp: e_def entry_ok_def)
  have "typed (write_slice rhs (lhs_msb a) (lhs_lsb a) (if has_pending e then nxt e else current e)) (width (current e))"
    if "is_sliced a"
    using write_slice_bits(1,2) [OF typed_wf(1) [OF R(2)] b(1), of "lhs_lsb a" "lhs_msb a"] R(3) [OF that] b(2)
    by (simp add: typed_def)
  then have "nba_step f1 (apply_assign f a True)"
    using Some R(2) nba_step_pending [OF f1(2) k(1)] k(2)
    by (simp add: apply_assign_def sim_eval_expr_eq f1_def [symmetric] e_def [symmetric] rhs_def [symmetric]
        assign_slice_def assign_full_def Let_def)
  then show ?thesis by (rule nba_step_trans [OF f1(1)])
qed

lemma eval_nba:
  assumes "frame_ok f" "sim_eval_expr f e = (v, f')"
  shows "nba_step f f'" "stmt_ok f' s = stmt_ok f s" "cases_ok f' cs = cases_ok f cs" "frame_ok f'"
  using assms nba_step_error [OF assms(1)] stmt_ok_cong [OF eval_step(4) [OF assms] assms(1)] eval_step(2) [OF assms]
  by (auto simp: sim_eval_expr_eq)

lemma sim_exec_stmt_nba:
  "frame_ok f \<Longrightarrow> stmt_ok f s \<Longrightarrow> \<not> writes_memory s \<Longrightarrow> n \<Longrightarrow> nba_step f (sim_exec_stmt f s n)"
  "frame_ok f \<Longrightarrow> stmt_ok f elif \<Longrightarrow> stmt_ok f els \<Longrightarrow> \<not> writes_memory elif \<Longrightarrow> \<not> writes_memory els \<Longrightarrow> n \<Longrightarrow>
     nba_step f (exec_elif f elif els n)"
  "frame_ok f \<Longrightarrow> cases_ok f cs \<Longrightarrow> \<not> cases_write_memory cs \<Longrightarrow> n \<Longrightarrow> nba_step f (exec_cases f sel cs n)"
  "frame_ok f \<Longrightarrow> stmts_ok f ss \<Longrightarrow> \<not> block_writes_memory ss \<Longrightarrow> n \<Longrightarrow> nba_step f (exec_block f ss n)"
proof (induction f s n and f elif els n and f sel cs n and f ss n
    rule: sim_exec_stmt_exec_elif_exec_cases_exec_block.induct)
  case (2 ctx a is_nba)
  then show ?case using apply_assign_nba by simp
next
  case (3 ctx c t elif els is_nba)
  obtain v f1 where e: "sim_eval_expr ctx c = (v, f1)" by fastforce
  note E = eval_nba [OF "3.prems"(1) e]
  have "nba_step f1 (sim_exec_stmt ctx (STMT_IF c t elif els) is_nba)"
    using 3 e E nba_step_raise [OF E(4)] by (simp add: Let_def)
  then show ?case by (rule nba_step_trans [OF E(1)])
next
  case (4 ctx s cs is_nba)
  obtain v f1 where e: "sim_eval_expr ctx s = (v, f1)" by fastforce
  note E = eval_nba [OF "4.prems"(1) e]
  have "nba_step f1 (sim_exec_stmt ctx (STMT_SELECT s cs) is_nba)"
    using 4 e E nba_step_raise [OF E(4)] by (simp add: Let_def)
  then show ?case by (rule nba_step_trans [OF E(1)])
next
  case (7 ctx c t elif u els is_nba)
  obtain v f1 where e: "sim_eval_expr ctx c = (v, f1)" by fastforce
  note E = eval_nba [OF "7.prems"(1) e]
  have "nba_step f1 (exec_elif ctx (STMT_IF c t elif u) els is_nba)"
    using 7 e E nba_step_raise [OF E(4)] by (simp add: Let_def)
  then show ?case by (rule nba_step_trans [OF E(1)])
next
  case (10 ctx selector v body cs is_nba)
  obtain w f1 where e: "sim_eval_expr ctx v = (w, f1)" by fastforce
  note E = eval_nba [OF "10.prems"(1) e]
  have "v \<noteq> EXPR_NULL \<Longrightarrow> nba_step f1 (exec_cases ctx selector ((v, body) # cs) is_nba)"
    using 10 e E by (simp add: Let_def)
  then show ?case using nba_step_trans [OF E(1)] 10 by (cases "v = EXPR_NULL") auto
next
  case (12 ctx s ss is_nba)
  then have N: "nba_step ctx (sim_exec_stmt ctx s is_nba)" by simp
  then have "stmts_ok (sim_exec_stmt ctx s is_nba) ss" "frame_ok (sim_exec_stmt ctx s is_nba)"
    using 12 stmt_ok_cong(3) [of ctx "sim_exec_stmt ctx s is_nba" ss] by (simp_all add: nba_step_def)
  then show ?case using 12 nba_step_trans [OF N] by simp
qed (simp_all add: nba_step_refl)

section \<open>Order of statements\<close>

lemma same_view_error [simp]:
  "same_view k (f\<lparr>runtime_error := b\<rparr>) g = same_view k f g" "same_view k f (g\<lparr>runtime_error := b\<rparr>) = same_view k f g"
  by (simp_all add: same_view_def currents_def)

lemma same_view_raise: "same_view k f g \<Longrightarrow> same_view k (raise_error f) (raise_error g)"
  by (auto simp: raise_error_def)

lemma currents_set_pending: "currents (set_pending j v f) = currents f"
  by (cases "j < length (signals f)") (simp_all add: currents_def set_pending_def map_update_same list_update_beyond)

lemma lookup_set_pending [simp]: "sim_ctx_lookup (set_pending j v f) = sim_ctx_lookup f"
  by (simp add: fun_eq_iff sim_ctx_lookup_def set_pending_def)

lemma current_set_pending: "current (signals (set_pending j v f) ! i) = current (signals f ! i)"
  by (simp add: set_pending_def nth_update_or)

lemma same_view_pending:
  assumes "same_view k f g" "j = k \<Longrightarrow> v = w"
  shows "same_view k (set_pending j v f) (set_pending j w g)"
proof -
  have len: "length (signals f) = length (signals g)" using assms(1) by (simp add: same_view_def agree_def)
  have "agree UNIV (set_pending j v f) (set_pending j w g)"
    using assms(1) unfolding same_view_def agree_def agree_on_def lookup_set_pending current_set_pending
    by (simp add: set_pending_def)
  moreover have "signals (set_pending j v f) ! k = signals (set_pending j w g) ! k"
    using assms len by (auto simp: same_view_def set_pending_def nth_update_or)
  ultimately show ?thesis using assms(1) by (simp add: same_view_def currents_set_pending)
qed

lemma same_view_eval:
  assumes "same_view k f g" "sim_eval_expr f e = (v, f1)" "sim_eval_expr g e = (w, g1)"
  shows "v = w" "same_view k f1 g1"
  using assms agree_eval [of UNIV f g e] by (auto simp: sim_eval_expr_eq same_view_def currents_def)

lemma apply_assign_same_view:
  assumes "same_view k f g"
  shows "same_view k (apply_assign f a True) (apply_assign g a True)"
proof (cases "sim_ctx_lookup g (lhs_signal_id a)")
  case None
  then show ?thesis using assms agree_lookup [of UNIV f g] by (simp add: apply_assign_def same_view_def)
next
  case (Some j)
  obtain v f1 w g1 where e: "sim_eval_expr f (asgn_rhs a) = (v, f1)" "sim_eval_expr g (asgn_rhs a) = (w, g1)" by fastforce
  note E = same_view_eval [OF assms e]
  have s: "signals f1 = signals f" "signals g1 = signals g" using e by (auto simp: sim_eval_expr_eq)
  have l: "sim_ctx_lookup f (lhs_signal_id a) = Some j"
    and c: "current (signals f ! j) = current (signals g ! j)" and k: "j = k \<Longrightarrow> signals f ! j = signals g ! j"
    using assms Some agree_lookup [of UNIV f g] agree_current [of UNIV f g "lhs_signal_id a" j] by (auto simp: same_view_def)
  show ?thesis
    using E Some l c k same_view_pending [OF E(2)]
    by (simp add: apply_assign_def e s Let_def assign_slice_def assign_full_def)
qed

lemma exec_same_view:
  "same_view k f g \<Longrightarrow> \<not> writes_memory s \<Longrightarrow> n \<Longrightarrow> same_view k (sim_exec_stmt f s n) (sim_exec_stmt g s n)"
  "same_view k f g \<Longrightarrow> \<not> writes_memory elif \<Longrightarrow> \<not> writes_memory els \<Longrightarrow> n \<Longrightarrow>
     same_view k (exec_elif f elif els n) (exec_elif g elif els n)"
  "same_view k f g \<Longrightarrow> \<not> cases_write_memory cs \<Longrightarrow> n \<Longrightarrow> same_view k (exec_cases f sel cs n) (exec_cases g sel cs n)"
  "same_view k f g \<Longrightarrow> \<not> block_writes_memory ss \<Longrightarrow> n \<Longrightarrow> same_view k (exec_block f ss n) (exec_block g ss n)"
proof (induction f s n and f elif els n and f sel cs n and f ss n arbitrary: g and g and g and g
    rule: sim_exec_stmt_exec_elif_exec_cases_exec_block.induct)
  case (2 ctx a is_nba)
  then show ?case using apply_assign_same_view by simp
next
  case (3 ctx c t elif els is_nba)
  obtain v f1 w g1 where e: "sim_eval_expr ctx c = (v, f1)" "sim_eval_expr g c = (w, g1)" by fastforce
  note E = same_view_eval [OF "3.prems"(1) e]
  show ?case using 3 e E by (simp add: Let_def same_view_raise)
next
  case (4 ctx s cs is_nba)
  obtain v f1 w g1 where e: "sim_eval_expr ctx s = (v, f1)" "sim_eval_expr g s = (w, g1)" by fastforce
  note E = same_view_eval [OF "4.prems"(1) e]
  show ?case using 4 e E by (simp add: Let_def same_view_raise)
next
  case (7 ctx c t elif u els is_nba)
  obtain v f1 w g1 where e: "sim_eval_expr ctx c = (v, f1)" "sim_eval_expr g c = (w, g1)" by fastforce
  note E = same_view_eval [OF "7.prems"(1) e]
  show ?case using 7 e E by (simp add: Let_def same_view_raise)
next
  case (10 ctx selector x body cs is_nba)
  obtain v f1 w g1 where e: "sim_eval_expr ctx x = (v, f1)" "sim_eval_expr g x = (w, g1)" by fastforce
  note E = same_view_eval [OF "10.prems"(1) e]
  show ?case using 10 e E by (cases "x = EXPR_NULL") (simp_all add: Let_def)
qed simp_all

text \<open>A statement that does not write entry \<open>k\<close> leaves a view with the same entry \<open>k\<close>.\<close>

lemma nba_view:
  assumes "frame_ok f" "stmt_ok f s" "\<not> writes_memory s" "\<And>i. i \<in> stmt_write_set s \<Longrightarrow> sim_ctx_lookup f i \<noteq> Some k"
  shows "same_view k (sim_exec_stmt f s True) f"
proof -
  have N: "nba_step f (sim_exec_stmt f s True)" using sim_exec_stmt_nba(1) [of f s True] assms(1-3) by simp
  then have cur: "currents (sim_exec_stmt f s True) = currents f" and st: "same_tables f (sim_exec_stmt f s True)"
    by (simp_all add: nba_step_def)
  have "agree UNIV (sim_exec_stmt f s True) f"
    using step_agree [OF st exec_memories(1) [OF assms(3)]] currents_nth [OF cur] exec_length [of f s True] lookup_range [OF assms(1)]
    by simp
  then show ?thesis using cur exec_other [of s f k True] assms(4) by (auto simp: same_view_def)
qed

lemma nba_commute:
  assumes "frame_ok f" "lookup_inj f" "stmt_ok f s" "stmt_ok f t" "\<not> writes_memory s" "\<not> writes_memory t"
    and "stmt_write_set s \<inter> stmt_write_set t = {}"
  shows "signals (sim_exec_stmt (sim_exec_stmt f s True) t True) = signals (sim_exec_stmt (sim_exec_stmt f t True) s True)"
proof (rule nth_equalityI)
  let ?st = "sim_exec_stmt (sim_exec_stmt f s True) t True" and ?ts = "sim_exec_stmt (sim_exec_stmt f t True) s True"
  show "length (signals ?st) = length (signals ?ts)" by (simp add: exec_length)
  have lk: "sim_ctx_lookup (sim_exec_stmt f u True) = sim_ctx_lookup f" for u
    by (rule unchanged_but_lookup(1) [OF exec_unchanged(1)])
  fix k
  show "signals ?st ! k = signals ?ts ! k"
  proof (cases "\<exists>i \<in> stmt_write_set s. sim_ctx_lookup f i = Some k")
    case True
    then have t: "\<And>i. i \<in> stmt_write_set t \<Longrightarrow> sim_ctx_lookup f i \<noteq> Some k"
      using lookup_injD [OF assms(2,1), of _ k] assms(7) by (metis disjoint_iff)
    have "same_view k ?ts (sim_exec_stmt f s True)"
      using exec_same_view(1) [OF nba_view [OF assms(1,4,6) t] assms(5)] by simp
    then show ?thesis using exec_other [of t "sim_exec_stmt f s True" k True] t by (simp add: same_view_def lk)
  next
    case False
    then have s: "\<And>i. i \<in> stmt_write_set s \<Longrightarrow> sim_ctx_lookup f i \<noteq> Some k" by blast
    have "same_view k ?st (sim_exec_stmt f t True)"
      using exec_same_view(1) [OF nba_view [OF assms(1,3,5) s] assms(6)] by simp
    then show ?thesis using exec_other [of s "sim_exec_stmt f t True" k True] s by (simp add: same_view_def lk)
  qed
qed

end
