(* ===== verification/Div_Guard_Sound.thy ===== *)
theory Div_Guard_Sound
  imports Div_Guard Sim_Nba "HOL-Library.Sublist"
begin

text \<open>
  The division guard pass against the simulator: when the pass reports nothing, no division
  that execution evaluates has a divisor that is known to be zero, literal zeros (which the
  semantic analysis rejects) excepted. \<open>evaluated\<close> lists the expressions an execution
  evaluates, each with the frame it is evaluated in.
\<close>

section \<open>What execution evaluates\<close>

fun divisors :: "IR_Expr \<Rightarrow> IR_Expr list"
and divisors_of :: "IR_Expr list \<Rightarrow> IR_Expr list" where
  "divisors EXPR_NULL = []"
| "divisors (EXPR_LITERAL w l) = []"
| "divisors (EXPR_SIGNAL_REF w i) = []"
| "divisors (EXPR_UNARY k w e) = divisors e"
| "divisors (EXPR_BINARY k w l r) =
     (if k = EXPR_BINARY_DIV \<or> k = EXPR_BINARY_MOD then [r] else []) @ divisors l @ divisors r"
| "divisors (EXPR_TERNARY w c t f) = divisors c @ divisors t @ divisors f"
| "divisors (EXPR_CONCAT w es) = divisors_of es"
| "divisors (EXPR_SLICE w i base msb lsb) = divisors base"
| "divisors (EXPR_INTRINSIC k w src idx v ew) = divisors src @ divisors idx @ divisors v"
| "divisors (EXPR_MEM_READ w m addr) = divisors addr"
| "divisors_of [] = []"
| "divisors_of (e # es) = divisors e @ divisors_of es"

function (sequential) evaluated :: "SimFrame \<Rightarrow> IR_Stmt \<Rightarrow> bool \<Rightarrow> (SimFrame \<times> IR_Expr) list"
and evaluated_elif :: "SimFrame \<Rightarrow> IR_Stmt \<Rightarrow> IR_Stmt \<Rightarrow> bool \<Rightarrow> (SimFrame \<times> IR_Expr) list"
and evaluated_cases :: "SimFrame \<Rightarrow> SimValue \<Rightarrow> (IR_Expr \<times> IR_Stmt) list \<Rightarrow> bool \<Rightarrow> (SimFrame \<times> IR_Expr) list"
and evaluated_block :: "SimFrame \<Rightarrow> IR_Stmt list \<Rightarrow> bool \<Rightarrow> (SimFrame \<times> IR_Expr) list" where
  "evaluated ctx STMT_NULL is_nba = []"
| "evaluated ctx (STMT_ASSIGNMENT a) is_nba = [(ctx, asgn_rhs a)]"
| "evaluated ctx (STMT_IF c t elif els) is_nba =
     (let (cond, ctx1) = sim_eval_expr ctx c; tc = sim_val_is_true cond
      in (ctx, c) # (if tc = -1 then []
                     else if tc = 1 then evaluated ctx1 t is_nba
                     else evaluated_elif ctx1 elif els is_nba))"
| "evaluated ctx (STMT_SELECT s cs) is_nba =
     (let (selector, ctx1) = sim_eval_expr ctx s
      in (ctx, s) # (if sim_val_has_xz selector then [] else evaluated_cases ctx1 selector cs is_nba))"
| "evaluated ctx (STMT_BLOCK ss) is_nba = evaluated_block ctx ss is_nba"
| "evaluated ctx (STMT_MEM_WRITE m addr dat) is_nba = [(ctx, addr), (snd (sim_eval_expr ctx addr), dat)]"
| "evaluated_elif ctx (STMT_IF c t elif _) els is_nba =
     (let (ec, ctx1) = sim_eval_expr ctx c; etc = sim_val_is_true ec
      in (ctx, c) # (if etc = -1 then []
                     else if etc = 1 then evaluated ctx1 t is_nba
                     else evaluated_elif ctx1 elif els is_nba))"
| "evaluated_elif ctx _ els is_nba = evaluated ctx els is_nba"
| "evaluated_cases ctx selector [] is_nba = []"
| "evaluated_cases ctx selector ((v, body) # cs) is_nba =
     (if v = EXPR_NULL then evaluated ctx body is_nba
      else let (cv, ctx1) = sim_eval_expr ctx v; eq = sim_val_eq selector cv
           in (ctx, v) # (if sim_val_is_true eq = 1 then evaluated ctx1 body is_nba
                          else evaluated_cases ctx1 selector cs is_nba))"
| "evaluated_block ctx [] is_nba = []"
| "evaluated_block ctx (s # ss) is_nba =
     evaluated ctx s is_nba @ evaluated_block (sim_exec_stmt ctx s is_nba) ss is_nba"
  by pat_completeness auto

termination
  by (relation "measure (\<lambda>x. case x of
        Inl (Inl (_, s, _)) \<Rightarrow> 2 * size s
      | Inl (Inr (_, elif, els, _)) \<Rightarrow> 2 * (size elif + size els) + 1
      | Inr (Inl (_, _, cs, _)) \<Rightarrow> 2 * size_list (size_prod (\<lambda>_. 0) size) cs + 1
      | Inr (Inr (_, ss, _)) \<Rightarrow> 2 * size_list size ss + 1)") auto

text \<open>Every expression of a statement, and the conditions of its branches.\<close>

fun stmt_exprs :: "IR_Stmt \<Rightarrow> IR_Expr list"
and cases_exprs :: "(IR_Expr \<times> IR_Stmt) list \<Rightarrow> IR_Expr list"
and block_exprs :: "IR_Stmt list \<Rightarrow> IR_Expr list" where
  "stmt_exprs STMT_NULL = []"
| "stmt_exprs (STMT_ASSIGNMENT a) = [asgn_rhs a]"
| "stmt_exprs (STMT_IF c t elif els) = c # stmt_exprs t @ stmt_exprs elif @ stmt_exprs els"
| "stmt_exprs (STMT_SELECT s cs) = s # cases_exprs cs"
| "stmt_exprs (STMT_BLOCK ss) = block_exprs ss"
| "stmt_exprs (STMT_MEM_WRITE m addr dat) = [addr, dat]"
| "cases_exprs [] = []"
| "cases_exprs ((v, body) # cs) = v # stmt_exprs body @ cases_exprs cs"
| "block_exprs [] = []"
| "block_exprs (s # ss) = stmt_exprs s @ block_exprs ss"

fun stmt_conditions :: "IR_Stmt \<Rightarrow> IR_Expr list"
and cases_conditions :: "(IR_Expr \<times> IR_Stmt) list \<Rightarrow> IR_Expr list"
and block_conditions :: "IR_Stmt list \<Rightarrow> IR_Expr list" where
  "stmt_conditions STMT_NULL = []"
| "stmt_conditions (STMT_ASSIGNMENT a) = []"
| "stmt_conditions (STMT_IF c t elif els) = c # stmt_conditions t @ stmt_conditions elif @ stmt_conditions els"
| "stmt_conditions (STMT_SELECT s cs) = cases_conditions cs"
| "stmt_conditions (STMT_BLOCK ss) = block_conditions ss"
| "stmt_conditions (STMT_MEM_WRITE m addr dat) = []"
| "cases_conditions [] = []"
| "cases_conditions ((v, body) # cs) = stmt_conditions body @ cases_conditions cs"
| "block_conditions [] = []"
| "block_conditions (s # ss) = stmt_conditions s @ block_conditions ss"

definition divisor_ids :: "IR_Expr list \<Rightarrow> int set" where
  "divisor_ids es = set (map expr_signal_id (divisors_of es))"

section \<open>Literals the pass can judge\<close>

text \<open>A literal fits its width; a literal a condition compares with is zero if its low word is.\<close>

definition literal_fits :: "IR_Literal \<Rightarrow> bool" where
  "literal_fits l \<longleftrightarrow> length (lit_words l) = 4 \<and> 0 \<le> lit_width l \<and> lit_width l \<le> 256 \<and>
     wval (lit_words l) < 2 ^ nat (lit_width l)"

fun divisor_fits :: "IR_Expr \<Rightarrow> bool" where
  "divisor_fits (EXPR_LITERAL w l) = (w \<le> 256 \<and> (lit_is_z l \<or> literal_fits l))"
| "divisor_fits (EXPR_SIGNAL_REF w i) = (w \<le> 256)"
| "divisor_fits _ = True"

fun comparand_ok :: "IR_Expr \<Rightarrow> bool" where
  "comparand_ok (EXPR_LITERAL w l) =
     (w \<le> 256 \<and> (lit_is_z l \<or> literal_fits l \<and> (lit_words l ! 0 = 0 \<longrightarrow> lit_words_zero l)))"
| "comparand_ok _ = True"

fun comparands_ok :: "IR_Expr \<Rightarrow> bool" where
  "comparands_ok (EXPR_BINARY k w l r) = (comparand_ok l \<and> comparand_ok r)"
| "comparands_ok _ = True"

definition literals_ok :: "IR_Expr list \<Rightarrow> IR_Expr list \<Rightarrow> bool" where
  "literals_ok es conds = (list_all divisor_fits (divisors_of es) \<and> list_all comparands_ok conds)"

section \<open>Values that are known to be zero\<close>

definition known_zero :: "SimValue \<Rightarrow> bool" where
  "known_zero v \<longleftrightarrow> known v \<and> uval v = 0"

definition signal_nonzero :: "SimFrame \<Rightarrow> int \<Rightarrow> bool" where
  "signal_nonzero f i \<longleftrightarrow> (\<forall>k. sim_ctx_lookup f i = Some k \<longrightarrow> \<not> known_zero (current (signals f ! k)))"

text \<open>The claim about one divisor, and about everything on the guard stack.\<close>

definition divisor_safe :: "SimFrame \<Rightarrow> IR_Expr \<Rightarrow> bool" where
  "divisor_safe f d \<longleftrightarrow> d = EXPR_NULL \<or> expr_is_zero_literal d \<or> \<not> known_zero (expr_value f d)"

definition facts :: "int set \<Rightarrow> SimFrame \<Rightarrow> GuardStack \<Rightarrow> bool" where
  "facts D f gs \<longleftrightarrow> (\<forall>e \<in> set gs. ge_is_nonzero e \<longrightarrow> ge_signal_id e \<in> D \<longrightarrow> signal_nonzero f (ge_signal_id e))"

lemma wval_words_zero:
  assumes "length (lit_words l) = 4"
  shows "wval (lit_words l) = 0 \<longleftrightarrow> lit_words_zero l"
proof -
  obtain a b c d where "lit_words l = [a, b, c, d]"
    using assms by (auto simp: numeral_eq_Suc length_Suc_conv)
  moreover have "[0..<4] = [0, 1, 2, 3 :: nat]" by (simp add: upt_rec)
  ultimately show ?thesis by (auto simp: lit_words_zero_def IR_LIT_WORDS_def unat_eq_0)
qed

lemma uval_literal:
  assumes "literal_fits l" "\<not> lit_is_z l" "w \<le> 256"
  shows "sim_val_wf (eval_literal w l)" "known (eval_literal w l)" "uval (eval_literal w l) = wval (lit_words l)"
proof -
  note w = assms(1) [unfolded literal_fits_def]
  show "sim_val_wf (eval_literal w l)" using literal_typed [of l w] w assms(3) by (simp add: typed_def)
  have "known (sim_val_from_words (lit_words l) 4 (lit_width l))" using w by (simp add: known_from_words)
  then show "known (eval_literal w l)"
    using assms(2) by (cases "lit_width l = 0") (simp_all add: eval_literal_def Let_def known_def)
  have "uval (sim_val_from_words (lit_words l) 4 (lit_width l)) = wval (lit_words l)"
    using w by (simp add: uval_from_words)
  then show "uval (eval_literal w l) = wval (lit_words l)"
    using assms(2) by (cases "lit_width l = 0") (simp_all add: eval_literal_def Let_def uval_def)
qed

lemma all_x_unknown: "0 < w \<Longrightarrow> w \<le> 256 \<Longrightarrow> \<not> known (sim_val_all_x w)"
  by (auto simp: known_def sim_val_all_x_def wbit_fill_ones intro!: exI [where x = 0])

lemma signal_ref_nonzero:
  "signal_nonzero f i \<Longrightarrow> w \<le> 256 \<Longrightarrow> \<not> known_zero (eval_signal_ref f w i)"
  using all_x_unknown [of "width_or w 1"]
  by (auto simp: signal_nonzero_def eval_signal_ref_def known_zero_def width_or_def split: option.splits if_splits)

section \<open>The facts a condition proves\<close>

fun cmp_holds :: "NormCmpOp \<Rightarrow> nat \<Rightarrow> nat \<Rightarrow> bool" where
  "cmp_holds CMP_EQ a b = (a = b)"
| "cmp_holds CMP_NEQ a b = (a \<noteq> b)"
| "cmp_holds CMP_GT a b = (a > b)"
| "cmp_holds CMP_GTE a b = (a \<ge> b)"
| "cmp_holds CMP_LT a b = (a < b)"
| "cmp_holds CMP_LTE a b = (a \<le> b)"

lemma cmp_holds_flip: "cmp_holds (flip_cmp op) a b = cmp_holds op b a"
  by (cases op) auto

text \<open>The proofs are exact for 64-bit literals: a branch proves the signal nonzero just when 0 does not reach it.\<close>

lemma branch_proofs_then:
  assumes "fst (branch_proofs op v)" "cmp_holds op a b" "v = 0 \<longrightarrow> b = 0" "b = 0 \<longrightarrow> v = 0"
  shows "a \<noteq> 0"
  using assms by (cases op) (auto split: if_splits)

lemma branch_proofs_else:
  assumes "snd (branch_proofs op v)" "\<not> cmp_holds op a b" "v = 0 \<longrightarrow> b = 0" "b = 0 \<longrightarrow> v = 0"
  shows "a \<noteq> 0"
  using assms by (cases op) (auto split: if_splits)

lemma word_ge_1: "1 \<le> (v :: u64) \<longleftrightarrow> v \<noteq> 0"
  by (simp add: word_le_nat_alt Suc_le_eq unat_gt_0)

lemma branch_proofs_exact:
  "fst (branch_proofs op v) \<longleftrightarrow> \<not> cmp_holds op 0 (unat v) \<and> (op = CMP_LT \<longrightarrow> v \<noteq> 0)"
  "snd (branch_proofs op v) \<longleftrightarrow> cmp_holds op 0 (unat v) \<and> (op = CMP_GTE \<longrightarrow> v \<noteq> 0)"
  by (cases op; auto simp: word_ge_1 unat_eq_0 unat_gt_0)+


lemma comparand_zero:
  assumes "comparand_ok (EXPR_LITERAL wl lit)" "\<not> lit_is_z lit"
  shows "literal_fits lit" "wl \<le> 256" "lit_words lit ! 0 = 0 \<longleftrightarrow> wval (lit_words lit) = 0"
  using assms wval_words_zero [of lit]
  by (auto simp: literal_fits_def lit_words_zero_def IR_LIT_WORDS_def list_all_iff)

lemma signal_and_literal_SomeD:
  assumes "signal_and_literal s l = Some (i, v)"
  shows "\<exists>ws wl lit. s = EXPR_SIGNAL_REF ws i \<and> l = EXPR_LITERAL wl lit \<and> \<not> lit_is_z lit \<and> v = lit_words lit ! 0"
  using assms by (cases s; cases l) (auto simp: signal_and_literal_def split: if_splits)

lemma condition_proves:
  assumes g: "extract_nonzero_guard c = Some (i, th, el)" and c: "comparands_ok c"
    and wf: "\<And>k. sim_ctx_lookup f i = Some k \<Longrightarrow> sim_val_wf (current (signals f ! k))"
  shows "th \<Longrightarrow> sim_val_is_true (expr_value f c) = 1 \<Longrightarrow> signal_nonzero f i"
    "el \<Longrightarrow> sim_val_is_true (expr_value f c) = 0 \<Longrightarrow> signal_nonzero f i"
proof -
  obtain op v where n: "normalize_cmp c = Some (i, op, v)" and b: "branch_proofs op v = (th, el)"
    using g by (auto simp: extract_nonzero_guard_def split: option.splits prod.splits if_splits)
  have *: "(th \<longrightarrow> sim_val_is_true (expr_value f c) = 1 \<longrightarrow> signal_nonzero f i) \<and>
    (el \<longrightarrow> sim_val_is_true (expr_value f c) = 0 \<longrightarrow> signal_nonzero f i)"
  proof (cases "sim_ctx_lookup f i")
    case None
    then show ?thesis by (simp add: signal_nonzero_def)
  next
    case (Some k)
    define a where "a = current (signals f ! k)"
    have a: "sim_val_wf a" "eval_signal_ref f w i = a" for w using wf [OF Some] Some by (simp_all add: a_def eval_signal_ref_def)
    have nz: "signal_nonzero f i \<longleftrightarrow> \<not> (known a \<and> uval a = 0)" using Some by (simp add: signal_nonzero_def known_zero_def a_def)
    obtain kd w l r op' where ck: "c = EXPR_BINARY kd w l r" "comparison_op kd = Some op'" and
      lr: "(\<exists>ws wl lit. l = EXPR_SIGNAL_REF ws i \<and> r = EXPR_LITERAL wl lit \<and> \<not> lit_is_z lit \<and> v = lit_words lit ! 0 \<and> op = op') \<or>
           (\<exists>ws wl lit. r = EXPR_SIGNAL_REF ws i \<and> l = EXPR_LITERAL wl lit \<and> \<not> lit_is_z lit \<and> v = lit_words lit ! 0 \<and> op = flip_cmp op')"
      using n by (cases c rule: normalize_cmp.cases)
        (auto split: option.splits dest!: signal_and_literal_SomeD)
    have val: "sim_val_is_true (eval_binary kd w x y) =
        (if known x \<and> known y then of_bool (cmp_holds op' (uval x) (uval y)) else -1)"
      if "sim_val_wf x" "sim_val_wf y" for x y
      using ck(2) sim_val_compare [OF that]
      by (cases kd) (auto simp: eval_binary_def eval_compare_def sim_val_is_true_eq cmp_result_simps cmp_x_simps)
    have fin: ?thesis
      if t: "sim_val_is_true (expr_value f c) = (if known a then of_bool (cmp_holds op (uval a) m) else -1)"
        and z: "v = 0 \<longleftrightarrow> m = 0" for m
    proof -
      have "uval a \<noteq> 0" if th "cmp_holds op (uval a) m"
        by (rule branch_proofs_then [of op v _ m]) (use that z b in auto)
      moreover have "uval a \<noteq> 0" if el "\<not> cmp_holds op (uval a) m"
        by (rule branch_proofs_else [of op v _ m]) (use that z b in auto)
      ultimately show ?thesis unfolding t nz by (cases "known a"; cases "cmp_holds op (uval a) m") simp_all
    qed
    from lr show ?thesis
    proof (elim disjE exE conjE)
      fix ws wl lit
      assume h: "l = EXPR_SIGNAL_REF ws i" "r = EXPR_LITERAL wl lit" "\<not> lit_is_z lit" "v = lit_words lit ! 0" "op = op'"
      then have "comparand_ok (EXPR_LITERAL wl lit)" using c ck(1) by simp
      note Z = comparand_zero [OF this h(3)]
      note L = uval_literal [OF Z(1) h(3) Z(2)]
      have "expr_value f c = eval_binary kd w a (eval_literal wl lit)" by (simp add: ck(1) h(1,2) a(2))
      then show ?thesis using val [OF a(1) L(1)] L(2,3) h(5) by (intro fin [OF _ Z(3) [folded h(4)]]) simp
    next
      fix ws wl lit
      assume h: "r = EXPR_SIGNAL_REF ws i" "l = EXPR_LITERAL wl lit" "\<not> lit_is_z lit" "v = lit_words lit ! 0" "op = flip_cmp op'"
      then have "comparand_ok (EXPR_LITERAL wl lit)" using c ck(1) by simp
      note Z = comparand_zero [OF this h(3)]
      note L = uval_literal [OF Z(1) h(3) Z(2)]
      have "expr_value f c = eval_binary kd w (eval_literal wl lit) a" by (simp add: ck(1) h(1,2) a(2))
      then show ?thesis
        using val [OF L(1) a(1)] L(2,3) h(5) by (intro fin [OF _ Z(3) [folded h(4)]]) (simp add: cmp_holds_flip)
    qed
  qed
  then show "th \<Longrightarrow> sim_val_is_true (expr_value f c) = 1 \<Longrightarrow> signal_nonzero f i"
    "el \<Longrightarrow> sim_val_is_true (expr_value f c) = 0 \<Longrightarrow> signal_nonzero f i" by blast+
qed

section \<open>A clean run of the pass\<close>

text \<open>
  No diagnostic so far, and the depth limit has not been met. A walker is \<open>watched\<close> when a
  clean end implies a clean start and the depth limit is never met silently.
\<close>

definition clean :: "DivGuardState \<Rightarrow> bool" where
  "clean st \<longleftrightarrow> diagnostics st = [] \<and> \<not> s_div_guard_depth_reported st"

definition loud :: "DivGuardState \<Rightarrow> bool" where
  "loud st \<longleftrightarrow> (s_div_guard_depth_reported st \<longrightarrow> diagnostics st \<noteq> [])"

definition watched :: "(DivGuardState \<Rightarrow> DivGuardState) \<Rightarrow> bool" where
  "watched walk \<longleftrightarrow> (\<forall>st. (clean (walk st) \<longrightarrow> clean st) \<and> (loud st \<longrightarrow> loud (walk st)) \<and>
     prefix (diagnostics st) (diagnostics (walk st)))"

lemma watched_back: "watched walk \<Longrightarrow> clean (walk st) \<Longrightarrow> clean st"
  by (simp add: watched_def)

lemma watched_id [simp]: "watched (\<lambda>s. s)"
  by (simp add: watched_def)

lemma watched_comp: "watched f \<Longrightarrow> watched g \<Longrightarrow> watched (f \<circ> g)"
  unfolding watched_def comp_def by (blast intro: prefix_order.trans)

lemma watched_update:
  "clean (st\<lparr>guards := gs\<rparr>) = clean st" "clean (st\<lparr>s_div_guard_depth := d\<rparr>) = clean st"
  "loud (st\<lparr>guards := gs\<rparr>) = loud st" "loud (st\<lparr>s_div_guard_depth := d\<rparr>) = loud st"
  by (simp_all add: clean_def loud_def)

lemma watched_report: "watched report_div_guard_depth"
  by (auto simp: watched_def report_div_guard_depth_def clean_def loud_def)

lemma watched_depth:
  assumes "watched f"
  shows "watched (depth_guarded f)"
  unfolding watched_def
proof
  fix st
  show "(clean (depth_guarded f st) \<longrightarrow> clean st) \<and> (loud st \<longrightarrow> loud (depth_guarded f st)) \<and>
      prefix (diagnostics st) (diagnostics (depth_guarded f st))"
  proof (cases "jz_depth_enter_checked (s_div_guard_depth st) JZ_LIMIT_IR_STATEMENT_DEPTH")
    case None
    then show ?thesis using watched_report by (simp add: depth_guarded_def watched_def)
  next
    case (Some d)
    define t :: DivGuardState where "t = st\<lparr>s_div_guard_depth := d\<rparr>"
    have "clean t = clean st" "loud t = loud st" "diagnostics t = diagnostics st"
      by (simp_all add: t_def watched_update)
    then show ?thesis
      using assms [unfolded watched_def, rule_format, of t] Some
      by (simp add: depth_guarded_def Let_def t_def [symmetric] watched_update)
  qed
qed

lemma watched_guard:
  assumes "watched f"
  shows "watched (with_guard g f)"
proof (cases "\<exists>i. g = Some (i, True)")
  case True
  then obtain i where g: "g = Some (i, True)" by blast
  show ?thesis
    unfolding watched_def
  proof
    fix st
    define t :: DivGuardState where "t = st\<lparr>guards := guard_push (guards st) i True\<rparr>"
    have "clean t = clean st" "loud t = loud st" "diagnostics t = diagnostics st"
      by (simp_all add: t_def watched_update)
    then show "(clean (with_guard g f st) \<longrightarrow> clean st) \<and> (loud st \<longrightarrow> loud (with_guard g f st)) \<and>
        prefix (diagnostics st) (diagnostics (with_guard g f st))"
      using assms [unfolded watched_def, rule_format, of t]
      by (simp add: with_guard_def g Let_def t_def [symmetric] watched_update)
  qed
next
  case False
  then have "with_guard g f = f" by (auto simp: with_guard_def fun_eq_iff split: option.splits bool.splits)
  then show ?thesis using assms by simp
qed

lemma watched_divisor: "watched (check_divisor d)"
  by (auto simp: watched_def check_divisor_def report_unguarded_div_def Let_def clean_def loud_def)


text \<open>The walkers as compositions.\<close>

lemma check_expr_walk:
  "check_expr_for_div EXPR_NULL = (\<lambda>s. s)"
  "check_expr_for_div (EXPR_BINARY k w l r) =
     depth_guarded (check_expr_for_div r \<circ> check_expr_for_div l \<circ>
       (if k = EXPR_BINARY_DIV \<or> k = EXPR_BINARY_MOD then check_divisor r else (\<lambda>s. s)))"
  "check_expr_for_div (EXPR_UNARY u w e) = depth_guarded (check_expr_for_div e)"
  "check_expr_for_div (EXPR_TERNARY w c t f) =
     depth_guarded (check_expr_for_div f \<circ> check_expr_for_div t \<circ> check_expr_for_div c)"
  "check_expr_for_div (EXPR_CONCAT w es) = depth_guarded (check_exprs_for_div es)"
  "check_expr_for_div (EXPR_SLICE w i e msb lsb) = depth_guarded (check_expr_for_div e)"
  "check_expr_for_div (EXPR_INTRINSIC n w src idx v ew) =
     depth_guarded (check_expr_for_div v \<circ> check_expr_for_div idx \<circ> check_expr_for_div src)"
  "check_expr_for_div (EXPR_MEM_READ w m e) = depth_guarded (check_expr_for_div e)"
  "check_expr_for_div (EXPR_LITERAL w x) = depth_guarded (\<lambda>s. s)"
  "check_expr_for_div (EXPR_SIGNAL_REF w i) = depth_guarded (\<lambda>s. s)"
  "check_exprs_for_div [] = (\<lambda>s. s)"
  "check_exprs_for_div (e # es) = check_exprs_for_div es \<circ> check_expr_for_div e"
  by (simp_all add: fun_eq_iff comp_def)

lemma check_stmt_walk:
  "check_stmt_for_div STMT_NULL = (\<lambda>s. s)"
  "check_stmt_for_div (STMT_ASSIGNMENT a) = depth_guarded (check_expr_for_div (asgn_rhs a))"
  "check_stmt_for_div (STMT_MEM_WRITE m addr dat) = depth_guarded (check_expr_for_div dat \<circ> check_expr_for_div addr)"
  "check_stmt_for_div (STMT_BLOCK ss) = depth_guarded (check_stmts_for_div ss)"
  "check_stmt_for_div (STMT_IF c t elif els) =
     depth_guarded
       (with_guard (map_option (\<lambda>(sid, th, el). (sid, el)) (extract_nonzero_guard c)) (check_stmt_for_div els) \<circ>
        check_stmt_for_div elif \<circ>
        with_guard (map_option (\<lambda>(sid, th, el). (sid, th)) (extract_nonzero_guard c)) (check_stmt_for_div t) \<circ>
        check_expr_for_div c)"
  "check_stmt_for_div (STMT_SELECT sel cs) = depth_guarded (check_cases_for_div cs \<circ> check_expr_for_div sel)"
  "check_cases_for_div [] = (\<lambda>s. s)"
  "check_cases_for_div ((v, body) # cs) = check_cases_for_div cs \<circ> check_stmt_for_div body \<circ> check_expr_for_div v"
  "check_stmts_for_div [] = (\<lambda>s. s)"
  "check_stmts_for_div (s # ss) = check_stmts_for_div ss \<circ> check_stmt_for_div s"
  by (simp_all add: fun_eq_iff comp_def Let_def)

lemmas watched_intros = watched_depth watched_guard watched_comp watched_divisor watched_id

lemma watched_expr: "watched (check_expr_for_div e)" "watched (check_exprs_for_div es)"
  by (induction e and es rule: divisors_divisors_of.induct)
    (auto simp only: check_expr_walk if_split intro!: watched_intros)

lemma watched_stmt:
  "watched (check_stmt_for_div s)" "watched (check_cases_for_div cs)" "watched (check_stmts_for_div ss)"
  by (induction s and cs and ss rule: stmt_exprs_cases_exprs_block_exprs.induct)
    (auto simp only: check_stmt_walk intro!: watched_intros watched_expr)

section \<open>The guard stack\<close>

text \<open>A walker that leaves the stack as it is, and one that may lose its innermost facts.\<close>

definition keeps_guards :: "(DivGuardState \<Rightarrow> DivGuardState) \<Rightarrow> bool" where
  "keeps_guards walk \<longleftrightarrow> (\<forall>st. guards (walk st) = guards st)"

definition shrinks_guards :: "(DivGuardState \<Rightarrow> DivGuardState) \<Rightarrow> bool" where
  "shrinks_guards walk \<longleftrightarrow> (\<forall>st. prefix (guards (walk st)) (guards st))"

lemma keeps_guards_comp: "keeps_guards f \<Longrightarrow> keeps_guards g \<Longrightarrow> keeps_guards (f \<circ> g)"
  by (simp add: keeps_guards_def)

lemma keeps_guards_depth: "keeps_guards f \<Longrightarrow> keeps_guards (depth_guarded f)"
  by (simp add: keeps_guards_def depth_guarded_def report_div_guard_depth_def Let_def split: option.splits)

lemma keeps_guards_leaf: "keeps_guards (\<lambda>s. s)" "keeps_guards (check_divisor d)"
  by (simp_all add: keeps_guards_def check_divisor_def report_unguarded_div_def Let_def)

lemma keeps_guards_expr: "keeps_guards (check_expr_for_div e)" "keeps_guards (check_exprs_for_div es)"
  by (induction e and es rule: divisors_divisors_of.induct)
    (auto simp only: check_expr_walk if_split intro!: keeps_guards_comp keeps_guards_depth keeps_guards_leaf)

lemma shrinks_guards_comp: "shrinks_guards f \<Longrightarrow> shrinks_guards g \<Longrightarrow> shrinks_guards (f \<circ> g)"
  unfolding shrinks_guards_def comp_def by (blast intro: prefix_order.trans)

lemma shrinks_guards_depth: "shrinks_guards f \<Longrightarrow> shrinks_guards (depth_guarded f)"
  unfolding shrinks_guards_def
proof
  fix st
  assume f: "\<forall>st. prefix (guards (f st)) (guards st)"
  show "prefix (guards (depth_guarded f st)) (guards st)"
    using f [rule_format, of "st\<lparr>s_div_guard_depth := d\<rparr>" for d]
    by (simp add: depth_guarded_def report_div_guard_depth_def Let_def split: option.splits)
qed

lemma prefix_pop: "prefix xs (guard_push ys i b) \<Longrightarrow> prefix (guard_pop xs) ys"
  by (auto simp: guard_push_def guard_pop_def prefix_snoc split: if_splits intro: prefix_order.trans [OF prefixeq_butlast])

lemma shrinks_guards_with:
  assumes "shrinks_guards f"
  shows "shrinks_guards (with_guard g f)"
proof (cases "\<exists>i. g = Some (i, True)")
  case True
  then obtain i where g: "g = Some (i, True)" by blast
  have "prefix (guard_pop (guards (f (st\<lparr>guards := guard_push (guards st) i True\<rparr>)))) (guards st)" for st
    using assms [unfolded shrinks_guards_def, rule_format, of "st\<lparr>guards := guard_push (guards st) i True\<rparr>"]
    by (intro prefix_pop) simp
  then show ?thesis by (simp add: shrinks_guards_def with_guard_def g Let_def)
next
  case False
  then have "with_guard g f = f" by (auto simp: with_guard_def fun_eq_iff split: option.splits bool.splits)
  then show ?thesis using assms by simp
qed

lemma shrinks_guards_expr: "shrinks_guards (check_expr_for_div e)"
  using keeps_guards_expr(1) [of e] by (simp add: keeps_guards_def shrinks_guards_def)

lemma shrinks_guards_stmt:
  "shrinks_guards (check_stmt_for_div s)" "shrinks_guards (check_cases_for_div cs)" "shrinks_guards (check_stmts_for_div ss)"
proof (induction s and cs and ss rule: stmt_exprs_cases_exprs_block_exprs.induct)
qed (auto simp only: check_stmt_walk shrinks_guards_def [of "\<lambda>s. s"] prefix_order.refl
    intro!: shrinks_guards_comp shrinks_guards_depth shrinks_guards_with shrinks_guards_expr)


section \<open>Expressions\<close>

lemma clean_depth:
  assumes "clean (depth_guarded walk st)"
  obtains t where "clean (walk t)" "guards t = guards st"
proof (cases "jz_depth_enter_checked (s_div_guard_depth st) JZ_LIMIT_IR_STATEMENT_DEPTH")
  case None
  then show ?thesis using assms by (auto simp: depth_guarded_def report_div_guard_depth_def clean_def split: if_splits)
next
  case (Some d)
  then have "clean (walk (st\<lparr>s_div_guard_depth := d\<rparr>))"
    using assms by (simp add: depth_guarded_def Let_def watched_update)
  then show ?thesis by (rule that) simp
qed

lemma guard_is_nonzero_fact:
  assumes "guard_is_nonzero gs i" "facts D f gs" "i \<in> D"
  shows "signal_nonzero f i"
  using assms by (auto simp: guard_is_nonzero_def facts_def list_ex_iff)

lemma nonzero_literal_safe:
  assumes "expr_is_nonzero_literal d" "divisor_fits d"
  shows "divisor_safe f d"
proof (cases d)
  case (EXPR_LITERAL w l)
  then show ?thesis
    using assms uval_literal(3) [of l w] wval_words_zero [of l]
    by (auto simp: divisor_safe_def known_zero_def literal_fits_def)
qed (use assms in simp_all)

lemma check_divisor_safe:
  assumes "clean (check_divisor d st)" "facts D f (guards st)" "expr_signal_id d \<in> D" "divisor_fits d"
  shows "divisor_safe f d"
proof (cases "d = EXPR_NULL \<or> expr_is_nonzero_literal d \<or> expr_is_zero_literal d")
  case True
  then show ?thesis using nonzero_literal_safe [OF _ assms(4)] by (auto simp: divisor_safe_def)
next
  case False
  then have i: "0 \<le> expr_signal_id d" "guard_is_nonzero (guards st) (expr_signal_id d)"
    using assms(1) by (auto simp: check_divisor_def Let_def report_unguarded_div_def clean_def split: if_splits)
  then obtain w where d: "d = EXPR_SIGNAL_REF w (expr_signal_id d)" by (cases d) auto
  have "signal_nonzero f (expr_signal_id d)" by (rule guard_is_nonzero_fact [OF i(2) assms(2,3)])
  moreover have "w \<le> 256" using assms(4) d by (metis divisor_fits.simps(2))
  ultimately show ?thesis using signal_ref_nonzero d by (metis divisor_safe_def expr_value.simps(3))
qed

lemma check_expr_sound:
  "clean (check_expr_for_div e st) \<Longrightarrow> facts D f (guards st) \<Longrightarrow> expr_signal_id ` set (divisors e) \<subseteq> D \<Longrightarrow>
     list_all divisor_fits (divisors e) \<Longrightarrow> list_all (divisor_safe f) (divisors e)"
  "clean (check_exprs_for_div es st) \<Longrightarrow> facts D f (guards st) \<Longrightarrow> expr_signal_id ` set (divisors_of es) \<subseteq> D \<Longrightarrow>
     list_all divisor_fits (divisors_of es) \<Longrightarrow> list_all (divisor_safe f) (divisors_of es)"
proof (induction e and es arbitrary: st and st rule: divisors_divisors_of.induct)
  case (5 k w l r)
  define chk where "chk = (if k = EXPR_BINARY_DIV \<or> k = EXPR_BINARY_MOD then check_divisor r else (\<lambda>s. s))"
  obtain t where t: "clean (check_expr_for_div r (check_expr_for_div l (chk t)))" "guards t = guards st"
    using "5.prems"(1) unfolding check_expr_walk chk_def [symmetric] by (auto elim!: clean_depth)
  have g: "guards (chk t) = guards st" "guards (check_expr_for_div l (chk t)) = guards st"
    using keeps_guards_leaf(2) [of r] keeps_guards_expr(1) [of l] t(2) by (auto simp: keeps_guards_def chk_def)
  have l: "clean (check_expr_for_div l (chk t))" by (rule watched_back [OF watched_expr(1) t(1)])
  have c: "clean (chk t)" by (rule watched_back [OF watched_expr(1) l])
  have "list_all (divisor_safe f) (divisors r)" by (rule "5.IH"(2) [OF t(1)]) (use "5.prems" g in auto)
  moreover have "list_all (divisor_safe f) (divisors l)" by (rule "5.IH"(1) [OF l]) (use "5.prems" g in auto)
  moreover have "divisor_safe f r" if "k = EXPR_BINARY_DIV \<or> k = EXPR_BINARY_MOD"
    by (rule check_divisor_safe [of r t D]) (use that c t(2) "5.prems" in \<open>auto simp: chk_def\<close>)
  ultimately show ?case by simp
next
  case (6 w c t e)
  obtain s where s: "clean (check_expr_for_div e (check_expr_for_div t (check_expr_for_div c s)))" "guards s = guards st"
    using "6.prems"(1) unfolding check_expr_walk by (auto elim!: clean_depth)
  note k = keeps_guards_expr(1) [unfolded keeps_guards_def, rule_format]
  note t = watched_back [OF watched_expr(1) s(1)]
  note c = watched_back [OF watched_expr(1) t]
  show ?case
    using "6.IH"(1) [OF c] "6.IH"(2) [OF t] "6.IH"(3) [OF s(1)] "6.prems" s(2) by (simp add: k image_Un)
next
  case (9 k w src idx v ew)
  obtain s where s: "clean (check_expr_for_div v (check_expr_for_div idx (check_expr_for_div src s)))" "guards s = guards st"
    using "9.prems"(1) unfolding check_expr_walk by (auto elim!: clean_depth)
  note k = keeps_guards_expr(1) [unfolded keeps_guards_def, rule_format]
  note t = watched_back [OF watched_expr(1) s(1)]
  note c = watched_back [OF watched_expr(1) t]
  show ?case
    using "9.IH"(1) [OF c] "9.IH"(2) [OF t] "9.IH"(3) [OF s(1)] "9.prems" s(2) by (simp add: k image_Un)
next
  case (12 e es)
  note k = keeps_guards_expr(1) [unfolded keeps_guards_def, rule_format]
  have c: "clean (check_exprs_for_div es (check_expr_for_div e st))" using "12.prems"(1) by simp
  show ?case
    using "12.IH"(1) [OF watched_back [OF watched_expr(2) c]] "12.IH"(2) [OF c] "12.prems" by (simp add: k image_Un)
qed (auto simp: check_expr_walk simp del: check_expr_for_div.simps check_exprs_for_div.simps elim!: clean_depth)


section \<open>Frames that execution reaches\<close>

text \<open>
  Blocking execution must not write a signal that is divided by; non-blocking execution
  changes no current value at all.
\<close>

definition undisturbed :: "int set \<Rightarrow> SimFrame \<Rightarrow> int set \<Rightarrow> bool \<Rightarrow> bool" where
  "undisturbed D f W n \<longleftrightarrow>
     n \<or> (\<forall>i \<in> D. \<forall>j \<in> W. sim_ctx_lookup f i \<noteq> None \<longrightarrow> sim_ctx_lookup f i \<noteq> sim_ctx_lookup f j)"

definition same_on :: "int set \<Rightarrow> SimFrame \<Rightarrow> SimFrame \<Rightarrow> bool" where
  "same_on D f g \<longleftrightarrow> sim_ctx_lookup g = sim_ctx_lookup f \<and>
     (\<forall>i \<in> D. \<forall>k. sim_ctx_lookup f i = Some k \<longrightarrow> current (signals g ! k) = current (signals f ! k))"

definition wf_on :: "int set \<Rightarrow> SimFrame \<Rightarrow> bool" where
  "wf_on D f \<longleftrightarrow> (\<forall>i \<in> D. \<forall>k. sim_ctx_lookup f i = Some k \<longrightarrow> sim_val_wf (current (signals f ! k)))"

definition pre :: "int set \<Rightarrow> SimFrame \<Rightarrow> int set \<Rightarrow> IR_Expr list \<Rightarrow> IR_Expr list \<Rightarrow> bool \<Rightarrow> bool" where
  "pre D f W es conds n \<longleftrightarrow>
     wf_on D f \<and> undisturbed D f W n \<and> divisor_ids es \<subseteq> D \<and> literals_ok es conds"

lemma same_on_transfer:
  assumes "same_on D f g"
  shows "facts D g gs = facts D f gs" "wf_on D g = wf_on D f" "undisturbed D g W n = undisturbed D f W n"
    "pre D g W es conds n = pre D f W es conds n"
  using assms by (auto simp: same_on_def facts_def signal_nonzero_def wf_on_def undisturbed_def pre_def)

lemma same_on_error: "same_on D f (f\<lparr>runtime_error := b\<rparr>)"
  by (simp add: same_on_def)

lemma divisors_of_set: "set (divisors_of es) = (\<Union>e \<in> set es. set (divisors e))"
  by (induction es) auto

lemma pre_mono:
  assumes "pre D f W es conds n" "W' \<subseteq> W" "set es' \<subseteq> set es" "set conds' \<subseteq> set conds"
  shows "pre D f W' es' conds' n"
proof -
  have "set (divisors_of es') \<subseteq> set (divisors_of es)" using assms(3) by (auto simp: divisors_of_set)
  then show ?thesis
    using assms unfolding pre_def undisturbed_def divisor_ids_def literals_ok_def list_all_iff by (simp add: subset_iff image_iff) blast
qed

lemma nba_current:
  "n \<Longrightarrow> current (signals (sim_exec_stmt f s n) ! k) = current (signals f ! k)"
  "n \<Longrightarrow> current (signals (exec_elif f elif els n) ! k) = current (signals f ! k)"
  "n \<Longrightarrow> current (signals (exec_cases f sel cs n) ! k) = current (signals f ! k)"
  "n \<Longrightarrow> current (signals (exec_block f ss n) ! k) = current (signals f ! k)"
proof (induction f s n and f elif els n and f sel cs n and f ss n
    rule: sim_exec_stmt_exec_elif_exec_cases_exec_block.induct)
  case (2 ctx a is_nba)
  then show ?case
    by (simp add: apply_assign_def sim_eval_expr_eq Let_def assign_slice_def assign_full_def current_set_pending split: option.splits)
next
  case (6 ctx m addr dat is_nba)
  then show ?case by (simp add: exec_mem_write_def sim_eval_expr_eq Let_def split: option.splits)
qed (simp_all add: sim_eval_expr_eq raise_error_def Let_def)

lemma exec_same_on:
  assumes "undisturbed D f (stmt_write_set s) n"
  shows "same_on D f (sim_exec_stmt f s n)"
proof -
  have "current (signals (sim_exec_stmt f s n) ! k) = current (signals f ! k)"
    if "i \<in> D" "sim_ctx_lookup f i = Some k" for i k
  proof (cases n)
    case True
    then show ?thesis by (rule nba_current(1))
  next
    case False
    then have "\<And>j. j \<in> stmt_write_set s \<Longrightarrow> sim_ctx_lookup f j \<noteq> Some k"
      using assms that by (metis undisturbed_def option.distinct(1))
    then show ?thesis using exec_other [of s f k n] by simp
  qed
  then show ?thesis using unchanged_but_lookup(1) [OF exec_unchanged(1)] by (simp add: same_on_def)
qed

section \<open>Statements\<close>

lemma facts_prefix: "facts D f gs \<Longrightarrow> prefix gs' gs \<Longrightarrow> facts D f gs'"
  using set_mono_prefix by (fastforce simp: facts_def)

lemma facts_shrink: "shrinks_guards walk \<Longrightarrow> facts D f (guards st) \<Longrightarrow> facts D f (guards (walk st))"
  by (erule facts_prefix) (simp add: shrinks_guards_def)

lemma clean_guard:
  assumes "clean (with_guard g walk st)" "facts D f (guards st)" "\<And>i. g = Some (i, True) \<Longrightarrow> i \<in> D \<Longrightarrow> signal_nonzero f i"
  shows "\<exists>t. clean (walk t) \<and> facts D f (guards t)"
proof (cases "\<exists>i. g = Some (i, True)")
  case True
  then obtain i where g: "g = Some (i, True)" by blast
  have "clean (walk (st\<lparr>guards := guard_push (guards st) i True\<rparr>))"
    using assms(1) by (simp add: with_guard_def g Let_def watched_update)
  moreover have "facts D f (guard_push (guards st) i True)"
    using assms(2) assms(3) [OF g] by (auto simp: facts_def guard_push_def)
  ultimately show ?thesis by (intro exI [of _ "st\<lparr>guards := guard_push (guards st) i True\<rparr>"]) simp
next
  case False
  then have "with_guard g walk st = walk st" by (auto simp: with_guard_def split: option.splits bool.splits)
  then show ?thesis using assms(1,2) by auto
qed

lemma clean_if:
  assumes "clean (check_stmt_for_div (STMT_IF c t elif els) st)" "facts D f (guards st)"
  shows "\<exists>s. clean (check_expr_for_div c s) \<and> facts D f (guards s)"
    "(\<And>i el. extract_nonzero_guard c = Some (i, True, el) \<Longrightarrow> i \<in> D \<Longrightarrow> signal_nonzero f i) \<Longrightarrow>
       \<exists>s. clean (check_stmt_for_div t s) \<and> facts D f (guards s)"
    "\<exists>s. clean (check_stmt_for_div elif s) \<and> facts D f (guards s)"
    "(\<And>i th. extract_nonzero_guard c = Some (i, th, True) \<Longrightarrow> i \<in> D \<Longrightarrow> signal_nonzero f i) \<Longrightarrow>
       \<exists>s. clean (check_stmt_for_div els s) \<and> facts D f (guards s)"
proof -
  define gT gE where "gT = map_option (\<lambda>(sid, th, el). (sid, th)) (extract_nonzero_guard c)"
    and "gE = map_option (\<lambda>(sid, th, el). (sid, el)) (extract_nonzero_guard c)"
  obtain s0 where g0: "guards s0 = guards st" and
    w: "clean ((with_guard gE (check_stmt_for_div els) \<circ> check_stmt_for_div elif \<circ>
          with_guard gT (check_stmt_for_div t) \<circ> check_expr_for_div c) s0)"
    using assms(1) unfolding check_stmt_walk gT_def [symmetric] gE_def [symmetric] by (rule clean_depth)
  define s1 where "s1 = check_expr_for_div c s0"
  define s2 where "s2 = with_guard gT (check_stmt_for_div t) s1"
  define s3 where "s3 = check_stmt_for_div elif s2"
  have c4: "clean (with_guard gE (check_stmt_for_div els) s3)" using w by (simp add: s3_def s2_def s1_def)
  have c3: "clean s3" using c4 by (rule watched_back [OF watched_guard [OF watched_stmt(1)]])
  have c2: "clean s2" using c3 unfolding s3_def by (rule watched_back [OF watched_stmt(1)])
  have c1: "clean s1" using c2 unfolding s2_def by (rule watched_back [OF watched_guard [OF watched_stmt(1)]])
  have f1: "facts D f (guards s1)" unfolding s1_def by (rule facts_shrink [OF shrinks_guards_expr]) (simp add: assms(2) g0)
  have f2: "facts D f (guards s2)" unfolding s2_def by (rule facts_shrink [OF shrinks_guards_with [OF shrinks_guards_stmt(1)] f1])
  have f3: "facts D f (guards s3)" unfolding s3_def by (rule facts_shrink [OF shrinks_guards_stmt(1) f2])
  show "\<exists>s. clean (check_expr_for_div c s) \<and> facts D f (guards s)"
    using c1 assms(2) g0 by (auto simp: s1_def intro!: exI [of _ s0])
  show "\<exists>s. clean (check_stmt_for_div t s) \<and> facts D f (guards s)"
    if "\<And>i el. extract_nonzero_guard c = Some (i, True, el) \<Longrightarrow> i \<in> D \<Longrightarrow> signal_nonzero f i"
    by (rule clean_guard [OF c2 [unfolded s2_def] f1]) (use that in \<open>auto simp: gT_def\<close>)
  show "\<exists>s. clean (check_stmt_for_div elif s) \<and> facts D f (guards s)"
    using c3 f2 by (auto simp: s3_def intro!: exI [of _ s2])
  show "\<exists>s. clean (check_stmt_for_div els s) \<and> facts D f (guards s)"
    if "\<And>i th. extract_nonzero_guard c = Some (i, th, True) \<Longrightarrow> i \<in> D \<Longrightarrow> signal_nonzero f i"
    by (rule clean_guard [OF c4 f3]) (use that in \<open>auto simp: gE_def\<close>)
qed


definition all_safe :: "(SimFrame \<times> IR_Expr) list \<Rightarrow> bool" where
  "all_safe xs = list_all (\<lambda>(g, e). list_all (divisor_safe g) (divisors e)) xs"

lemma all_safe_simps [simp]:
  "all_safe []" "all_safe (x # xs) \<longleftrightarrow> list_all (divisor_safe (fst x)) (divisors (snd x)) \<and> all_safe xs"
  "all_safe (xs @ ys) \<longleftrightarrow> all_safe xs \<and> all_safe ys"
  by (auto simp: all_safe_def case_prod_beta)

lemma expr_safe:
  assumes "clean (check_expr_for_div e st)" "facts D f (guards st)" "pre D f W es conds n" "e \<in> set es"
  shows "list_all (divisor_safe f) (divisors e)"
  by (rule check_expr_sound(1) [OF assms(1,2)])
    (use assms(3,4) in \<open>auto simp: pre_def divisor_ids_def literals_ok_def divisors_of_set list_all_iff\<close>)

lemma condition_facts:
  assumes "pre D f W es conds n" "c \<in> set conds" "i \<in> D"
  shows "extract_nonzero_guard c = Some (i, True, el) \<Longrightarrow> sim_val_is_true (expr_value f c) = 1 \<Longrightarrow> signal_nonzero f i"
    "extract_nonzero_guard c = Some (i, th, True) \<Longrightarrow> sim_val_is_true (expr_value f c) = 0 \<Longrightarrow> signal_nonzero f i"
  using condition_proves [of c i _ _ f] assms
  by (auto simp: pre_def wf_on_def literals_ok_def list_all_iff)

lemma is_true_cases: "sim_val_is_true v = -1 \<or> sim_val_is_true v = 0 \<or> sim_val_is_true v = 1"
  by (simp add: sim_val_is_true_def Let_def)

lemma check_stmt_sound:
  "clean (check_stmt_for_div s st) \<Longrightarrow> facts D f (guards st) \<Longrightarrow>
     pre D f (stmt_write_set s) (stmt_exprs s) (stmt_conditions s) n \<Longrightarrow> all_safe (evaluated f s n)"
  "clean (check_stmt_for_div elif st1) \<Longrightarrow> facts D f (guards st1) \<Longrightarrow>
   clean (check_stmt_for_div els st2) \<Longrightarrow> facts D f (guards st2) \<Longrightarrow>
     pre D f (stmt_write_set elif \<union> stmt_write_set els) (stmt_exprs elif @ stmt_exprs els)
       (stmt_conditions elif @ stmt_conditions els) n \<Longrightarrow> all_safe (evaluated_elif f elif els n)"
  "clean (check_cases_for_div cs st) \<Longrightarrow> facts D f (guards st) \<Longrightarrow>
     pre D f (cases_write_set cs) (cases_exprs cs) (cases_conditions cs) n \<Longrightarrow> all_safe (evaluated_cases f sel cs n)"
  "clean (check_stmts_for_div ss st) \<Longrightarrow> facts D f (guards st) \<Longrightarrow>
     pre D f (block_write_set ss) (block_exprs ss) (block_conditions ss) n \<Longrightarrow> all_safe (evaluated_block f ss n)"
proof (induction f s n and f elif els n and f sel cs n and f ss n
    arbitrary: st and st1 st2 and st and st rule: evaluated_evaluated_elif_evaluated_cases_evaluated_block.induct)
  case (2 f a n)
  obtain t where t: "clean (check_expr_for_div (asgn_rhs a) t)" "guards t = guards st"
    using "2.prems"(1) unfolding check_stmt_walk by (rule clean_depth)
  show ?case using expr_safe [OF t(1) _ "2.prems"(3)] "2.prems"(2) t(2) by simp
next
  case (3 f c t elif els n)
  obtain v f1 where e: "sim_eval_expr f c = (v, f1)" by fastforce
  then have v: "v = expr_value f c" and S: "same_on D f f1" by (auto simp: sim_eval_expr_eq intro: same_on_error)
  note T = same_on_transfer [OF S]
  note W = clean_if [OF "3.prems"(1,2)]
  note P = pre_mono [OF "3.prems"(3)]
  have c: "list_all (divisor_safe f) (divisors c)" using W(1) expr_safe [OF _ _ "3.prems"(3), of c] by auto
  have th: "all_safe (evaluated f1 t n)" if "sim_val_is_true v = 1"
  proof -
    have "\<exists>s. clean (check_stmt_for_div t s) \<and> facts D f (guards s)"
      by (rule W(2), rule condition_facts(1) [OF "3.prems"(3), of c]) (use that v in auto)
    then show ?thesis using "3.IH"(1) [OF refl e [symmetric] refl] that P by (auto simp: T)
  qed
  have el: "all_safe (evaluated_elif f1 elif els n)" if "sim_val_is_true v \<noteq> 1" "sim_val_is_true v \<noteq> -1"
  proof -
    have "sim_val_is_true v = 0" using that is_true_cases [of v] by auto
    then have "\<exists>s. clean (check_stmt_for_div els s) \<and> facts D f (guards s)"
      by (intro W(4), intro condition_facts(2) [OF "3.prems"(3), of c]) (use v in auto)
    then obtain s where s: "clean (check_stmt_for_div els s)" "facts D f (guards s)" by blast
    obtain r where r: "clean (check_stmt_for_div elif r)" "facts D f (guards r)" using W(3) by auto
    have "pre D f (stmt_write_set elif \<union> stmt_write_set els) (stmt_exprs elif @ stmt_exprs els)
        (stmt_conditions elif @ stmt_conditions els) n" by (rule P) auto
    then show ?thesis using "3.IH"(2) [OF refl e [symmetric] refl that(2,1) r(1) _ s(1)] r(2) s(2) by (simp add: T)
  qed
  show ?case using c th el by (simp add: e Let_def)
next
  case (4 f e cs n)
  obtain v f1 where ev: "sim_eval_expr f e = (v, f1)" by fastforce
  then have S: "same_on D f f1" by (auto simp: sim_eval_expr_eq intro: same_on_error)
  note T = same_on_transfer [OF S]
  obtain t where t: "clean (check_cases_for_div cs (check_expr_for_div e t))" "guards t = guards st"
    using "4.prems"(1) unfolding check_stmt_walk by (auto elim!: clean_depth)
  have "list_all (divisor_safe f) (divisors e)"
    using expr_safe [OF watched_back [OF watched_stmt(2) t(1)] _ "4.prems"(3)] "4.prems"(2) t(2) by simp
  moreover have "all_safe (evaluated_cases f1 v cs n)" if "\<not> sim_val_has_xz v"
    using "4.IH" [OF refl ev [symmetric] that t(1)] "4.prems"(2) t(2) pre_mono [OF "4.prems"(3)]
      keeps_guards_expr(1) [of e] by (auto simp: T keeps_guards_def)
  ultimately show ?case by (simp add: ev)
next
  case (5 f ss n)
  obtain t where t: "clean (check_stmts_for_div ss t)" "guards t = guards st"
    using "5.prems"(1) unfolding check_stmt_walk by (rule clean_depth)
  then show ?case using "5.IH" [OF t(1)] "5.prems" by simp
next
  case (6 f m addr dat n)
  obtain t where t: "clean (check_expr_for_div dat (check_expr_for_div addr t))" "guards t = guards st"
    using "6.prems"(1) unfolding check_stmt_walk by (auto elim!: clean_depth)
  have S: "same_on D f (snd (sim_eval_expr f addr))" by (simp add: sim_eval_expr_eq same_on_error)
  note T = same_on_transfer [OF S]
  have "list_all (divisor_safe f) (divisors addr)"
    using expr_safe [OF watched_back [OF watched_expr(1) t(1)] _ "6.prems"(3)] "6.prems"(2) t(2) by simp
  moreover have "list_all (divisor_safe (snd (sim_eval_expr f addr))) (divisors dat)"
    using expr_safe [OF t(1), of D "snd (sim_eval_expr f addr)"] "6.prems"(2,3) t(2) keeps_guards_expr(1) [of addr]
    by (auto simp: T keeps_guards_def)
  ultimately show ?case by simp
next
  case (7 f c t elif u els n)
  obtain v f1 where e: "sim_eval_expr f c = (v, f1)" by fastforce
  then have v: "v = expr_value f c" and S: "same_on D f f1" by (auto simp: sim_eval_expr_eq intro: same_on_error)
  note T = same_on_transfer [OF S]
  note W = clean_if [OF "7.prems"(1,2)]
  note P = pre_mono [OF "7.prems"(5)]
  have c: "list_all (divisor_safe f) (divisors c)" using W(1) expr_safe [OF _ _ "7.prems"(5), of c] by auto
  have th: "all_safe (evaluated f1 t n)" if "sim_val_is_true v = 1"
  proof -
    have "\<exists>s. clean (check_stmt_for_div t s) \<and> facts D f (guards s)"
      by (rule W(2), rule condition_facts(1) [OF "7.prems"(5), of c]) (use that v in auto)
    then show ?thesis using "7.IH"(1) [OF refl e [symmetric] refl] that P by (auto simp: T)
  qed
  have el: "all_safe (evaluated_elif f1 elif els n)" if "sim_val_is_true v \<noteq> 1" "sim_val_is_true v \<noteq> -1"
  proof -
    obtain r where r: "clean (check_stmt_for_div elif r)" "facts D f (guards r)" using W(3) by auto
    have "pre D f (stmt_write_set elif \<union> stmt_write_set els) (stmt_exprs elif @ stmt_exprs els)
        (stmt_conditions elif @ stmt_conditions els) n" by (rule P) auto
    then show ?thesis
      using "7.IH"(2) [OF refl e [symmetric] refl that(2,1) r(1) _ "7.prems"(3)] r(2) "7.prems"(4) by (simp add: T)
  qed
  show ?case using c th el by (simp add: e Let_def)
next
  case "8_2"
  show ?case
    by (simp, rule "8_2.IH" [OF "8_2.prems"(3,4) pre_mono [OF "8_2.prems"(5)]]) auto
next
  case "8_3"
  show ?case
    by (simp, rule "8_3.IH" [OF "8_3.prems"(3,4) pre_mono [OF "8_3.prems"(5)]]) auto
next
  case "8_4"
  show ?case
    by (simp, rule "8_4.IH" [OF "8_4.prems"(3,4) pre_mono [OF "8_4.prems"(5)]]) auto
next
  case "8_5"
  show ?case
    by (simp, rule "8_5.IH" [OF "8_5.prems"(3,4) pre_mono [OF "8_5.prems"(5)]]) auto
next
  case (10 f sel x body cs n)
  define s1 where "s1 = check_expr_for_div x st"
  have w: "clean (check_cases_for_div cs (check_stmt_for_div body s1))" using "10.prems"(1) by (simp add: s1_def)
  note wb = watched_back [OF watched_stmt(2) w]
  have g1: "guards s1 = guards st" using keeps_guards_expr(1) [of x] by (simp add: keeps_guards_def s1_def)
  have g2: "facts D f (guards (check_stmt_for_div body s1))"
    using facts_shrink [OF shrinks_guards_stmt(1)] "10.prems"(2) g1 by simp
  have pb: "pre D f (stmt_write_set body) (stmt_exprs body) (stmt_conditions body) n"
    and pc: "pre D f (cases_write_set cs) (cases_exprs cs) (cases_conditions cs) n"
    by (rule pre_mono [OF "10.prems"(3)]; auto)+
  show ?case
  proof (cases "x = EXPR_NULL")
    case True
    then show ?thesis using "10.IH"(1) [OF True wb] "10.prems"(2) g1 pb by simp
  next
    case False
    obtain v f1 where e: "sim_eval_expr f x = (v, f1)" by fastforce
    then have S: "same_on D f f1" by (auto simp: sim_eval_expr_eq intro: same_on_error)
    note T = same_on_transfer [OF S]
    have "clean (check_expr_for_div x st)" using watched_back [OF watched_stmt(1) wb] by (simp add: s1_def)
    then have "list_all (divisor_safe f) (divisors x)" using expr_safe [OF _ "10.prems"(2,3)] by simp
    moreover have "all_safe (evaluated f1 body n)" if "sim_val_is_true (sim_val_eq sel v) = 1"
      using "10.IH"(2) [OF False refl e [symmetric] refl that wb] "10.prems"(2) g1 pb by (simp add: T)
    moreover have "all_safe (evaluated_cases f1 sel cs n)" if "sim_val_is_true (sim_val_eq sel v) \<noteq> 1"
      using "10.IH"(3) [OF False refl e [symmetric] refl that w] g2 pc by (simp add: T)
    ultimately show ?thesis using False by (simp add: e Let_def)
  qed
next
  case (12 f s ss n)
  have w: "clean (check_stmts_for_div ss (check_stmt_for_div s st))" using "12.prems"(1) by simp
  have ps: "pre D f (stmt_write_set s) (stmt_exprs s) (stmt_conditions s) n"
    and pr: "pre D f (block_write_set ss) (block_exprs ss) (block_conditions ss) n"
    by (rule pre_mono [OF "12.prems"(3)]; auto)+
  have "all_safe (evaluated f s n)" by (rule "12.IH"(1) [OF watched_back [OF watched_stmt(3) w] "12.prems"(2) ps])
  moreover have S: "same_on D f (sim_exec_stmt f s n)" by (rule exec_same_on) (use ps in \<open>simp add: pre_def\<close>)
  moreover have "facts D f (guards (check_stmt_for_div s st))" using facts_shrink [OF shrinks_guards_stmt(1) "12.prems"(2)] .
  ultimately show ?case using "12.IH"(2) [OF w] pr by (simp add: same_on_transfer [OF S])
qed simp_all

end
