(* ===== verification/Sem_Literal_Sound.thy ===== *)
theory Sem_Literal_Sound
  imports Sem_Literal Div_Guard_Sound
begin

text \<open>
  What a string of digits denotes, and that the analysis and the decoding of literals compute
  it: the width of a decimal or hexadecimal literal is the least that holds its value, and the
  decoded words hold the value the literal denotes.
\<close>

section \<open>The value of a string of digits\<close>

definition radix :: "JZNumericBase \<Rightarrow> nat" where
  "radix base = (case base of JZ_NUM_BASE_BIN \<Rightarrow> 2 | JZ_NUM_BASE_DEC \<Rightarrow> 10 | JZ_NUM_BASE_HEX \<Rightarrow> 16 | JZ_NUM_BASE_NONE \<Rightarrow> 1)"

text \<open>Digits of a binary literal may be x or z, which count as 0.\<close>

definition digit_of :: "JZNumericBase \<Rightarrow> char \<Rightarrow> nat" where
  "digit_of base c =
     (case base of
        JZ_NUM_BASE_BIN \<Rightarrow> if c = CHR ''1'' then 1 else 0
      | JZ_NUM_BASE_DEC \<Rightarrow> digit_value c
      | JZ_NUM_BASE_HEX \<Rightarrow> (case hex_value c of Some v \<Rightarrow> v | None \<Rightarrow> 0)
      | JZ_NUM_BASE_NONE \<Rightarrow> 0)"

fun digit_count :: "string \<Rightarrow> nat" where
  "digit_count [] = 0"
| "digit_count (c # cs) = (if c = CHR ''_'' then digit_count cs else Suc (digit_count cs))"

fun literal_value :: "JZNumericBase \<Rightarrow> string \<Rightarrow> nat" where
  "literal_value base [] = 0"
| "literal_value base (c # cs) =
     (if c = CHR ''_'' then literal_value base cs
      else digit_of base c * radix base ^ digit_count cs + literal_value base cs)"

lemma validate_Cons:
  "validate_digits base (c # cs) = None \<longleftrightarrow>
     (c = CHR ''_'' \<or> digit_error base c = None) \<and> validate_digits base cs = None"
  by (auto split: option.splits)

lemma digit_count_le: "digit_count s \<le> length s"
  by (induction s) auto

lemma hex_value_of_digit: "is_hex_digit c \<Longrightarrow> \<exists>v. hex_value c = Some v \<and> v < 16"
  by (auto simp: hex_value_def is_hex_digit_def isdigit_def)

lemma digit_of_less:
  "digit_error base c = None \<Longrightarrow> digit_of base c < radix base"
  using hex_value_of_digit [of c]
  by (cases base) (auto simp: digit_of_def radix_def digit_value_def isdigit_def split: if_splits)

lemma radix_pos: "0 < radix base"
  by (cases base) (simp_all add: radix_def)

lemma literal_value_less:
  "validate_digits base s = None \<Longrightarrow> literal_value base s < radix base ^ digit_count s"
proof (induction s)
  case Nil
  show ?case by simp
next
  case (Cons c cs)
  show ?case
  proof (cases "c = CHR ''_''")
    case True
    then show ?thesis using Cons by simp
  next
    case False
    let ?R = "radix base ^ digit_count cs"
    have v: "digit_of base c < radix base" "literal_value base cs < ?R"
      using Cons False digit_of_less by (auto simp: validate_Cons simp del: validate_digits.simps)
    have "digit_of base c * ?R + literal_value base cs < (digit_of base c + 1) * ?R" using v(2) by simp
    also have "\<dots> \<le> radix base * ?R" using v(1) by (intro mult_le_mono1) simp
    finally show ?thesis using False by simp
  qed
qed

lemma unat_count_digits:
  "length s < 2 ^ 32 \<Longrightarrow> unat (count_digits_no_underscore s) = digit_count s"
proof (induction s)
  case Nil
  show ?case by simp
next
  case (Cons c cs)
  have "digit_count cs < 2 ^ 32 - 1" using digit_count_le [of cs] Cons.prems by simp
  then show ?case using Cons by (simp add: unat_plus_if')
qed

section \<open>Decimal literals\<close>

text \<open>The check before a digit is appended is exact: it stops if and only if the value does not fit.\<close>

lemma append_digit:
  fixes acc :: u64
  assumes "d < 10"
  shows "acc > (UINT64_MAX - of_nat d) div 10 \<longleftrightarrow> unat acc * 10 + d \<ge> 2 ^ 64"
    "unat acc * 10 + d < 2 ^ 64 \<Longrightarrow> unat (acc * 10 + of_nat d) = unat acc * 10 + d"
proof -
  have d: "unat (of_nat d :: u64) = d" using assms by (simp add: unat_of_nat)
  have m: "unat (UINT64_MAX - of_nat d) = 2 ^ 64 - 1 - d"
    using d assms by (simp add: unat_sub_if' unsigned_minus_1_eq_mask mask_eq_exp_minus_1)
  show "acc > (UINT64_MAX - of_nat d) div 10 \<longleftrightarrow> unat acc * 10 + d \<ge> 2 ^ 64"
    unfolding word_less_nat_alt unat_div_distrib m using assms by auto
  show "unat acc * 10 + d < 2 ^ 64 \<Longrightarrow> unat (acc * 10 + of_nat d) = unat acc * 10 + d"
    using d by (simp add: unat_word_ariths)
qed

lemma decimal_digit: "isdigit c \<Longrightarrow> digit_value c < 10"
  by (auto simp: isdigit_def digit_value_def)

lemma decimal_accumulate_value:
  assumes "validate_digits JZ_NUM_BASE_DEC s = None"
  shows "decimal_accumulate acc s =
     (if unat acc * 10 ^ digit_count s + literal_value JZ_NUM_BASE_DEC s < 2 ^ 64
      then Inr (of_nat (unat acc * 10 ^ digit_count s + literal_value JZ_NUM_BASE_DEC s)) else Inl 64)"
  using assms
proof (induction s arbitrary: acc)
  case Nil
  show ?case using unat_u64_less [of acc] by simp
next
  case (Cons c cs)
  show ?case
  proof (cases "c = CHR ''_''")
    case True
    then show ?thesis using Cons by simp
  next
    case False
    let ?d = "digit_value c" and ?P = "10 ^ digit_count cs :: nat" and ?v = "literal_value JZ_NUM_BASE_DEC cs"
    have c: "isdigit c" "validate_digits JZ_NUM_BASE_DEC cs = None"
      using Cons.prems False by (auto split: if_splits)
    have e: "unat acc * 10 ^ digit_count (c # cs) + literal_value JZ_NUM_BASE_DEC (c # cs) =
        (unat acc * 10 + ?d) * ?P + ?v"
      using False by (simp add: digit_of_def radix_def algebra_simps)
    show ?thesis
    proof (cases "unat acc * 10 + ?d < 2 ^ 64")
      case True
      have "decimal_accumulate acc (c # cs) = decimal_accumulate (acc * 10 + of_nat ?d) cs"
        using c False True append_digit(1) [OF decimal_digit [OF c(1)], of acc] by simp
      then show ?thesis
        using Cons.IH [OF c(2)] append_digit(2) [OF decimal_digit [OF c(1)] True] by (simp only: e)
    next
      case f: False
      have "2 ^ 64 \<le> (unat acc * 10 + ?d) * ?P" using f by (metis le_trans linorder_not_less mult_le_mono2 nat_mult_1_right one_le_power one_le_numeral)
      then have "\<not> (unat acc * 10 + ?d) * ?P + ?v < 2 ^ 64" by simp
      moreover have "decimal_accumulate acc (c # cs) = Inl 64"
        using c False f append_digit(1) [OF decimal_digit [OF c(1)], of acc] by simp
      ultimately show ?thesis by (simp only: e if_False)
    qed
  qed
qed

text \<open>\<open>bit_length k v\<close>: \<open>k\<close> is the least positive number of bits that holds \<open>v\<close>.\<close>

definition bit_length :: "nat \<Rightarrow> nat \<Rightarrow> bool" where
  "bit_length k v \<longleftrightarrow> 0 < k \<and> v < 2 ^ k \<and> (k = 1 \<or> 2 ^ (k - 1) \<le> v)"

lemma bit_length_fits: "bit_length k v \<Longrightarrow> 0 < w \<Longrightarrow> k \<le> w \<longleftrightarrow> v < 2 ^ w"
proof
  assume h: "bit_length k v" "0 < w" and "k \<le> w"
  then show "v < 2 ^ w" by (meson bit_length_def less_le_trans one_le_numeral power_increasing)
next
  assume h: "bit_length k v" "0 < w" and "v < 2 ^ w"
  show "k \<le> w"
  proof (rule ccontr)
    assume "\<not> k \<le> w"
    then have "w \<le> k - 1" "2 ^ (k - 1) \<le> v" using h by (auto simp: bit_length_def)
    moreover have "(2 :: nat) ^ w \<le> 2 ^ (k - 1)" using calculation(1) by (rule power_increasing) simp
    ultimately show False using \<open>v < 2 ^ w\<close> by linarith
  qed
qed

lemma count_bits_length: "0 < acc \<Longrightarrow> unat (count_bits acc) \<le> 64 \<and> bit_length (unat (count_bits acc)) (unat acc)"
proof -
  have "0 < acc \<Longrightarrow> \<exists>k. count_bits acc = of_nat k \<and> k \<le> 64 \<and> bit_length k (unat acc)"
  proof (induction acc rule: count_bits.induct)
    case (1 acc)
    let ?h = "drop_bit 1 acc"
    have h: "unat ?h = unat acc div 2" by (simp add: unat_drop_bit_eq drop_bit_Suc unat_div_distrib)
    show ?case
    proof (cases "0 < ?h")
      case True
      then obtain k where k: "count_bits ?h = of_nat k" "bit_length k (unat acc div 2)"
        using 1 h by auto
      have "2 ^ (Suc k - 1) \<le> unat acc"
      proof (cases k)
        case (Suc j)
        then show ?thesis using k(2) True h by (cases "k = 1") (auto simp: bit_length_def word_less_nat_alt)
      qed (use k(2) in \<open>simp add: bit_length_def\<close>)
      then have b: "bit_length (Suc k) (unat acc)" using k(2) by (auto simp: bit_length_def)
      have "Suc k \<le> 64" using bit_length_fits [OF b, of 64] unat_u64_less [of acc] by simp
      moreover have "count_bits acc = of_nat (Suc k)" using 1(2) k(1) by (subst count_bits.simps) simp
      ultimately show ?thesis using b by blast
    next
      case False
      then have "unat acc div 2 = 0" using h by (simp add: word_less_nat_alt)
      then have "unat acc = 1" using 1(2) by (simp add: word_less_nat_alt)
      then have "bit_length 1 (unat acc)" by (simp add: bit_length_def)
      moreover have "count_bits acc = of_nat 1" using 1(2) False by (subst count_bits.simps) (simp add: count_bits.simps)
      ultimately show ?thesis by (intro exI [of _ 1]) simp
    qed
  qed
  then show "0 < acc \<Longrightarrow> ?thesis" by (auto simp: unat_of_nat)
qed

lemma intrinsic_decimal:
  assumes "validate_digits JZ_NUM_BASE_DEC s = None" "s \<noteq> []" "literal_value JZ_NUM_BASE_DEC s < 2 ^ 64"
  shows "bit_length (unat (intrinsic_width_for_decimal s)) (literal_value JZ_NUM_BASE_DEC s)"
proof -
  let ?v = "literal_value JZ_NUM_BASE_DEC s"
  have a: "decimal_accumulate 0 s = Inr (of_nat ?v)" using decimal_accumulate_value [OF assms(1), of 0] assms(3) by simp
  have u: "unat (of_nat ?v :: u64) = ?v" using assms(3) by (simp add: unat_of_nat)
  show ?thesis
  proof (cases "?v = 0")
    case True
    then show ?thesis using a assms(2) by (simp add: intrinsic_width_for_decimal_def bit_length_def)
  next
    case False
    then have p: "0 < (of_nat ?v :: u64)" using u by (simp add: word_less_nat_alt)
    then have n: "(of_nat ?v :: u64) \<noteq> 0" by auto
    have b: "bit_length (unat (count_bits (of_nat ?v))) ?v" using count_bits_length [OF p] u by simp
    then have "count_bits (of_nat ?v) \<noteq> 0" by (auto simp: bit_length_def)
    then show ?thesis using a assms(2) b n by (simp add: intrinsic_width_for_decimal_def Let_def)
  qed
qed

section \<open>Hexadecimal literals\<close>

lemma nibble_msb:
  assumes "0 < v" "v < 16"
  shows "bit_length (if bit v 3 then 4 else if bit v 2 then 3 else if bit v 1 then 2 else 1) (v :: nat)"
proof -
  have "v \<in> {1, 2, 3, 4, 5, 6, 7, 8, 9, 10, 11, 12, 13, 14, 15}" using assms by (simp, presburger)
  then show ?thesis by (auto simp: bit_length_def bit_iff_odd)
qed

lemma bit_length_digit:
  assumes "bit_length k d" "0 < d" "v < 16 ^ n"
  shows "bit_length (n * 4 + k) (d * 16 ^ n + v)"
proof -
  have "(16 :: nat) ^ n = (2 ^ 4) ^ n" by simp
  also have "\<dots> = 2 ^ (n * 4)" by (simp only: mult.commute flip: power_mult)
  finally have p: "(16 :: nat) ^ n = 2 ^ (n * 4)" .
  have k: "0 < k" "d < 2 ^ k" "2 ^ (k - 1) \<le> d" using assms(1,2) by (auto simp: bit_length_def)
  have "d * 16 ^ n + v < (d + 1) * 16 ^ n" using assms(3) by simp
  also have "\<dots> \<le> 2 ^ k * 16 ^ n" using k(2) by (intro mult_le_mono1) simp
  also have "\<dots> = 2 ^ (n * 4 + k)" by (simp add: p power_add)
  finally have "d * 16 ^ n + v < 2 ^ (n * 4 + k)" .
  moreover have "2 ^ (n * 4 + k - 1) = 2 ^ (k - 1) * (16 :: nat) ^ n" using k(1) by (simp add: p flip: power_add)
  moreover have "2 ^ (k - 1) * 16 ^ n \<le> d * 16 ^ n + v" using k(3) by (simp add: trans_le_add1)
  ultimately show ?thesis using k(1) by (simp add: bit_length_def)
qed

lemma hex_scan_length:
  assumes "validate_digits JZ_NUM_BASE_HEX s = None" "nibbles = of_nat (m + digit_count s)" "idx = of_nat m"
    "4 * (m + digit_count s) < 2 ^ 32" "0 < m + digit_count s"
  shows "bit_length (unat (hex_scan nibbles idx s)) (literal_value JZ_NUM_BASE_HEX s)"
  using assms
proof (induction s arbitrary: m idx)
  case Nil
  show ?case by (simp add: bit_length_def)
next
  case (Cons c cs)
  show ?case
  proof (cases "c = CHR ''_''")
    case True
    then show ?thesis using Cons by simp
  next
    case False
    have c: "is_hex_digit c" "validate_digits JZ_NUM_BASE_HEX cs = None"
      using Cons.prems(1) False by (auto split: if_splits)
    obtain v where v: "hex_value c = Some v" "v < 16" using hex_value_of_digit [OF c(1)] by blast
    have l: "literal_value JZ_NUM_BASE_HEX (c # cs) = v * 16 ^ digit_count cs + literal_value JZ_NUM_BASE_HEX cs"
      using False v by (simp add: digit_of_def radix_def)
    show ?thesis
    proof (cases "v = 0")
      case True
      have "bit_length (unat (hex_scan nibbles (idx + 1) cs)) (literal_value JZ_NUM_BASE_HEX cs)"
        using Cons.prems False by (intro Cons.IH [OF c(2), of "Suc m"]) simp_all
      then show ?thesis unfolding l using True v False by simp
    next
      case n: False
      define k where "k = (if bit v 3 then 4 else if bit v 2 then 3 else if bit v 1 then 2 else 1 :: nat)"
      have k: "bit_length k v" "k \<le> 4" using nibble_msb [of v] n v(2) by (auto simp: k_def)
      have r: "nibbles - idx - 1 = of_nat (digit_count cs)" using Cons.prems(2,3) False by simp
      have s: "hex_scan nibbles idx (c # cs) = of_nat (digit_count cs) * 4 + of_nat k"
        using False v n by (simp add: r k_def Let_def)
      have "digit_count cs * 4 + k < 2 ^ 32" using Cons.prems(4) False k(2) by simp
      moreover have "hex_scan nibbles idx (c # cs) = of_nat (digit_count cs * 4 + k)" unfolding s by simp
      ultimately have "unat (hex_scan nibbles idx (c # cs)) = digit_count cs * 4 + k"
        by (simp only: unat_of_nat) simp
      moreover have "literal_value JZ_NUM_BASE_HEX cs < 16 ^ digit_count cs"
        using literal_value_less [OF c(2)] by (simp add: radix_def)
      ultimately show ?thesis unfolding l using bit_length_digit [OF k(1)] n by simp
    qed
  qed
qed

lemma intrinsic_hex:
  assumes "validate_digits JZ_NUM_BASE_HEX s = None" "0 < digit_count s" "4 * length s < 2 ^ 32"
  shows "bit_length (unat (intrinsic_width_for_hex_magnitude s)) (literal_value JZ_NUM_BASE_HEX s)"
proof -
  have u: "unat (count_digits_no_underscore s) = digit_count s" using assms(3) by (intro unat_count_digits) simp
  have "count_digits_no_underscore s = of_nat (digit_count s)" by (simp flip: u)
  moreover have "count_digits_no_underscore s \<noteq> 0" "s \<noteq> []" using u assms(2) by auto
  ultimately show ?thesis
    using hex_scan_length [OF assms(1), of _ 0 0] assms(2,3) digit_count_le [of s]
    by (simp add: intrinsic_width_for_hex_magnitude_def Let_def)
qed

section \<open>The analysis\<close>

text \<open>A binary literal fits when its digits do, every other literal when its value does.\<close>

definition fits :: "JZNumericBase \<Rightarrow> string \<Rightarrow> nat \<Rightarrow> bool" where
  "fits base s w = (if base = JZ_NUM_BASE_BIN then digit_count s \<le> w else literal_value base s < 2 ^ w)"

definition intrinsic_width :: "JZNumericBase \<Rightarrow> string \<Rightarrow> nat \<Rightarrow> bool" where
  "intrinsic_width base s k = (if base = JZ_NUM_BASE_BIN then k = digit_count s else bit_length k (literal_value base s))"

lemma analyze_correct:
  assumes "validate_digits base s = None" "0 < digit_count s" "4 * length s < 2 ^ 32" "0 < w"
    "base = JZ_NUM_BASE_DEC \<Longrightarrow> literal_value base s < 2 ^ 64"
  shows "jz_literal_analyze base s w = None \<longleftrightarrow> \<not> fits base s (unat w)"
    "jz_literal_analyze base s w = Some (i, ext) \<Longrightarrow> intrinsic_width base s (unat i) \<and>
       (ext = JZ_LITERAL_EXT_NONE \<longleftrightarrow> i = w) \<and> (base \<noteq> JZ_NUM_BASE_BIN \<longrightarrow> ext \<in> {JZ_LITERAL_EXT_NONE, JZ_LITERAL_EXT_ZERO})"
proof -
  have s: "s \<noteq> []" using assms(2) by auto
  have w: "0 < unat w" "w \<noteq> 0" using assms(4) by (auto simp: word_less_nat_alt)
  have d: "bit_length (unat (intrinsic_width_for_decimal s)) (literal_value base s)" if "base = JZ_NUM_BASE_DEC"
    using intrinsic_decimal [of s] s assms(1,5) that by simp
  have h: "bit_length (unat (intrinsic_width_for_hex_magnitude s)) (literal_value base s)" if "base = JZ_NUM_BASE_HEX"
    using intrinsic_hex [of s] assms(1,2,3) that by simp
  have b: "unat (count_digits_no_underscore s) = digit_count s" using assms(3) by (intro unat_count_digits) simp
  have nz: "intrinsic_width_for_decimal s \<noteq> 0" if "base = JZ_NUM_BASE_DEC" using d [OF that] by (auto simp: bit_length_def)
  have nz': "intrinsic_width_for_hex_magnitude s \<noteq> 0" if "base = JZ_NUM_BASE_HEX" using h [OF that] by (auto simp: bit_length_def)
  have n: "base \<noteq> JZ_NUM_BASE_NONE" using assms(1,2) by (induction s) (auto split: if_splits)
  show "jz_literal_analyze base s w = None \<longleftrightarrow> \<not> fits base s (unat w)"
    using n w nz nz' b bit_length_fits [OF d w(1)] bit_length_fits [OF h w(1)]
    by (cases base) (auto simp: jz_literal_analyze_def Let_def fits_def word_less_nat_alt)
  have x: "binary_ext s \<noteq> JZ_LITERAL_EXT_NONE" by (simp add: binary_ext_def Let_def)
  assume "jz_literal_analyze base s w = Some (i, ext)"
  then show "intrinsic_width base s (unat i) \<and>
       (ext = JZ_LITERAL_EXT_NONE \<longleftrightarrow> i = w) \<and> (base \<noteq> JZ_NUM_BASE_BIN \<longrightarrow> ext \<in> {JZ_LITERAL_EXT_NONE, JZ_LITERAL_EXT_ZERO})"
    using n w nz nz' b d h x
    by (cases base) (auto simp: jz_literal_analyze_def Let_def intrinsic_width_def split: if_splits)
qed

end
