(* ===== verification/Sem_Literal_Decode.thy ===== *)
theory Sem_Literal_Decode
  imports Sem_Literal_Sound
begin

text \<open>
  The decoding of a literal: the digits placed word by word are the value of the literal.
\<close>

section \<open>Placing digits\<close>

lemma or_word_bit:
  assumes "i < length ws"
  shows "wbit (or_word i x ws) n \<longleftrightarrow> wbit ws n \<or> (n div 64 = i \<and> bit x (n mod 64))"
  using assms by (auto simp: wbit_def or_word_def nth_list_update bit_or_iff)

lemma length_or_word [simp]: "length (or_word i x ws) = length ws"
  by (simp add: or_word_def)

text \<open>A digit of at most \<open>m\<close> bits that stays inside a word, put where the array is still zero, adds its value.\<close>

lemma or_word_value:
  assumes "length ws = 4" "p < 256" "p mod 64 + m \<le> 64" "d < 2 ^ m" "2 ^ (p + m) dvd wval ws"
  shows "wval (or_word (p div 64) (push_bit (p mod 64) (of_nat d)) ws) = wval ws + d * 2 ^ p"
proof -
  have i: "p div 64 < length ws" using assms(1,2) by simp
  have "(2 :: nat) ^ m \<le> 2 ^ 64" using assms(3) by (intro power_increasing) simp_all
  then have "unat (of_nat d :: u64) = d" using assms(4) by (simp add: unat_of_nat)
  then have d: "bit (of_nat d :: u64) j \<longleftrightarrow> bit d j" for j by (metis bit_unat_u64)
  have lt: "bit d j \<Longrightarrow> j < m" for j using bit_less_exp [OF assms(4)] .
  have eq: "(n div 64 = p div 64 \<and> bit (push_bit (p mod 64) (of_nat d :: u64)) (n mod 64)) \<longleftrightarrow> (p \<le> n \<and> bit d (n - p))" for n
  proof
    assume h: "n div 64 = p div 64 \<and> bit (push_bit (p mod 64) (of_nat d :: u64)) (n mod 64)"
    then have le: "p mod 64 \<le> n mod 64" and b: "bit (of_nat d :: u64) (n mod 64 - p mod 64)"
      by (auto simp: bit_push_bit_iff)
    have "n - p = n mod 64 - p mod 64" using h by (metis div_mult_mod_eq add_diff_cancel_left)
    moreover have "p \<le> n" using h le by (metis div_mult_mod_eq nat_add_left_cancel_le)
    ultimately show "p \<le> n \<and> bit d (n - p)" using b d [of "n mod 64 - p mod 64"] by simp
  next
    assume h: "p \<le> n \<and> bit d (n - p)"
    have m: "n - p < m" using lt h by blast
    have split: "(64 * q + r) div 64 = q \<and> (64 * q + r) mod 64 = r" if "r < 64" for q r :: nat using that by simp
    have "n = 64 * (p div 64) + (p mod 64 + (n - p))" using h by (metis add.assoc le_add_diff_inverse mult_div_mod_eq)
    moreover have "p mod 64 + (n - p) < 64" using m assms(3) by simp
    ultimately have "n div 64 = p div 64" "n mod 64 = p mod 64 + (n - p)" using split by metis+
    then show "n div 64 = p div 64 \<and> bit (push_bit (p mod 64) (of_nat d :: u64)) (n mod 64)"
      using conjunct1 [OF h] conjunct2 [OF h] m assms(3) d [of "n - p"] by (simp add: bit_push_bit_iff) linarith
  qed
  have o: "wval (or_word (p div 64) (push_bit (p mod 64) (of_nat d)) ws) = wval ws OR push_bit p d"
    by (rule bit_eqI) (simp only: bit_wval or_word_bit [OF i] eq bit_or_iff, simp add: bit_push_bit_iff)
  have "\<not> bit (wval ws) n \<or> \<not> bit (push_bit p d) n" for n
  proof (cases "n < p + m")
    case True
    have "take_bit (p + m) (wval ws) = 0" using assms(5) by (simp add: take_bit_eq_0_iff)
    then show ?thesis using True by (metis bit_0_eq bit_take_bit_iff bot_apply bot_bool_def)
  next
    case False
    then have "\<not> bit (push_bit p d) n" using lt [of "n - p"] by (auto simp: bit_push_bit_iff)
    then show ?thesis by simp
  qed
  then have "wval ws AND push_bit p d = 0" by (intro bit_eqI) (simp only: bit_and_iff bit_0_eq bot_apply bot_bool_def, blast)
  then have "wval (or_word (p div 64) (push_bit (p mod 64) (of_nat d)) ws) = wval ws + push_bit p d"
    by (simp only: o disjunctive_add_eq_or)
  then show ?thesis by (simp only: push_bit_eq_mult)
qed

lemma place_bit_value:
  assumes "length ws = 4" "k < 256" "b < 2" "2 ^ Suc k dvd wval ws"
  shows "wval (place_bit (int k) (of_nat b) ws) = wval ws + b * 2 ^ k" "length (place_bit j x ws) = length ws"
proof -
  have "nat (int k div 64) = k div 64" "nat (int k mod 64) = k mod 64" by (simp_all add: nat_div_distrib nat_mod_distrib)
  then show "wval (place_bit (int k) (of_nat b) ws) = wval ws + b * 2 ^ k"
    using or_word_value [of ws k 1 b] assms by (simp add: place_bit_def)
  show "length (place_bit j x ws) = length ws" by (simp add: place_bit_def)
qed

lemma place_nibble_value:
  assumes "length ws = 4" "k < 64" "d < 16" "2 ^ (4 * k + 4) dvd wval ws"
  shows "wval (place_nibble (int k) (of_nat d) ws) = wval ws + d * 16 ^ k"
proof -
  have n: "nat (int k div 16) = k div 16" "nat (int k * 4 mod 64) = (4 * k) mod 64"
    by (simp_all add: nat_div_distrib nat_mod_distrib nat_mult_distrib mult.commute)
  have m: "(4 * k) mod 64 + 4 \<le> 64" by presburger
  have "(16 :: nat) ^ k = (2 ^ 4) ^ k" by simp
  then have p: "(16 :: nat) ^ k = 2 ^ (4 * k)" by (simp only: flip: power_mult)
  have "(4 * k) div 64 < 4" using assms(2) by simp
  then have "place_nibble (int k) (of_nat d) ws = or_word ((4 * k) div 64) (push_bit ((4 * k) mod 64) (of_nat d)) ws"
    using m by (simp add: place_nibble_def Let_def n)
  then show ?thesis using or_word_value [of ws "4 * k" 4 d] assms m by (simp add: p)
qed

lemma place_nibble_high: "64 \<le> k \<Longrightarrow> place_nibble (int k) x ws = ws"
proof -
  assume "64 \<le> k"
  then have "\<not> k div 16 < 4" by simp
  then show ?thesis by (simp add: place_nibble_def Let_def nat_div_distrib)
qed

lemma length_place_nibble [simp]: "length (place_nibble k x ws) = length ws"
  by (simp add: place_nibble_def Let_def)

section \<open>The loops over the digits\<close>

definition all_z_digits :: "string \<Rightarrow> bool" where
  "all_z_digits s \<longleftrightarrow> (\<forall>c \<in> set s. c = CHR ''_'' \<or> c = CHR ''z'' \<or> c = CHR ''Z'')"

lemma binary_digit_blank: "digit_error JZ_NUM_BASE_BIN c = None \<Longrightarrow> \<not> is_literal_blank c \<and> (c = CHR ''0'' \<or> c = CHR ''1'' \<or> is_xz c)"
  by (auto simp: is_literal_blank_def is_xz_def split: if_splits)

text \<open>What a loop over the digits leaves behind when it started in \<open>st\<close>.\<close>

definition decoded :: "JZNumericBase \<Rightarrow> string \<Rightarrow> LitScan \<Rightarrow> LitScan \<Rightarrow> bool" where
  "decoded base s st st' \<longleftrightarrow> length (ls_words st') = 4 \<and> wval (ls_words st') = wval (ls_words st) + literal_value base s \<and>
     (all_z st' \<longleftrightarrow> all_z st \<and> all_z_digits s) \<and> (has_digits st' \<longleftrightarrow> has_digits st \<or> 0 < digit_count s)"

lemma decoded_skip: "decoded base cs st st' \<Longrightarrow> decoded base (CHR ''_'' # cs) st st'"
  by (simp add: decoded_def all_z_digits_def)

lemma decoded_digit:
  assumes "decoded base cs st1 st'" "c \<noteq> CHR ''_''" "has_digits st1"
    "all_z st1 \<longleftrightarrow> all_z st \<and> (c = CHR ''z'' \<or> c = CHR ''Z'')"
    "wval (ls_words st1) = wval (ls_words st) + digit_of base c * radix base ^ digit_count cs"
  shows "decoded base (c # cs) st st'"
  using assms by (auto simp: decoded_def all_z_digits_def)

lemma decode_bin_value:
  assumes "validate_digits JZ_NUM_BASE_BIN s = None" "length (ls_words st) = 4" "digit_count s \<le> 256"
    "2 ^ digit_count s dvd wval (ls_words st)"
  shows "decoded JZ_NUM_BASE_BIN s st (decode_bin (int (digit_count s) - 1) s st)"
  using assms
proof (induction s arbitrary: st)
  case Nil
  then show ?case by (simp add: decoded_def all_z_digits_def)
next
  case (Cons c cs)
  show ?case
  proof (cases "c = CHR ''_''")
    case True
    then show ?thesis using Cons by (simp add: decoded_skip is_literal_blank_def)
  next
    case False
    let ?b = "digit_of JZ_NUM_BASE_BIN c" and ?n = "digit_count cs"
    have c: "digit_error JZ_NUM_BASE_BIN c = None" "validate_digits JZ_NUM_BASE_BIN cs = None"
      using Cons.prems(1) False by (simp_all only: validate_Cons) simp
    define st1 where "st1 = \<lparr>ls_words = place_bit (int ?n) (of_nat ?b) (ls_words st),
        all_z = all_z st \<and> (c = CHR ''z'' \<or> c = CHR ''Z''), has_digits = True\<rparr>"
    have b: "?b < 2" "(if c = CHR ''1'' then 1 else 0) = (of_nat ?b :: u64)" by (simp_all add: digit_of_def)
    have "\<not> is_literal_blank c" "c = CHR ''0'' \<or> c = CHR ''1'' \<or> is_xz c" using binary_digit_blank [OF c(1)] by blast+
    then have e: "decode_bin (int (digit_count (c # cs)) - 1) (c # cs) st = decode_bin (int ?n - 1) cs st1"
      using False by (simp add: st1_def b(2) del: One_nat_def)
    have k: "?n < 256" "2 ^ Suc ?n dvd wval (ls_words st)" using Cons.prems(3,4) False by simp_all
    note p = place_bit_value [OF Cons.prems(2) k(1) b(1) k(2)]
    have w: "wval (ls_words st1) = wval (ls_words st) + ?b * 2 ^ ?n" using p(1) by (simp add: st1_def)
    have "2 ^ ?n dvd wval (ls_words st)" using k(2) by (rule dvd_trans [rotated]) simp
    then have "decoded JZ_NUM_BASE_BIN cs st1 (decode_bin (int ?n - 1) cs st1)"
      using w p(2) Cons.prems(2) k(1) by (intro Cons.IH [OF c(2)]) (simp_all add: st1_def dvd_add)
    then show ?thesis unfolding e by (rule decoded_digit [OF _ False]) (use w in \<open>simp_all add: st1_def radix_def\<close>)
  qed
qed

text \<open>Leading zeros of a hexadecimal literal may lie beyond the four words; they are not stored.\<close>

lemma decode_hex_value:
  assumes "validate_digits JZ_NUM_BASE_HEX s = None" "length (ls_words st) = 4" "literal_value JZ_NUM_BASE_HEX s < 2 ^ 256"
    "16 ^ digit_count s dvd wval (ls_words st)"
  shows "decoded JZ_NUM_BASE_HEX s st (decode_hex (int (digit_count s) - 1) s st)"
  using assms
proof (induction s arbitrary: st)
  case Nil
  then show ?case by (simp add: decoded_def all_z_digits_def)
next
  case (Cons c cs)
  show ?case
  proof (cases "c = CHR ''_''")
    case True
    then show ?thesis using Cons by (simp add: decoded_skip is_literal_blank_def)
  next
    case False
    let ?n = "digit_count cs"
    have c: "is_hex_digit c" "validate_digits JZ_NUM_BASE_HEX cs = None"
      using Cons.prems(1) False by (simp_all only: validate_Cons) (simp split: if_splits)
    obtain v where v: "hex_value c = Some v" "v < 16" using hex_value_of_digit [OF c(1)] by blast
    have d: "digit_of JZ_NUM_BASE_HEX c = v" using v by (simp add: digit_of_def)
    define st1 where "st1 = \<lparr>ls_words = place_nibble (int ?n) (of_nat v) (ls_words st),
        all_z = all_z st \<and> (c = CHR ''z'' \<or> c = CHR ''Z''), has_digits = True\<rparr>"
    have x: "\<not> is_literal_blank c" "\<not> is_xz c"
      using c(1) False by (auto simp: is_hex_digit_def isdigit_def is_literal_blank_def is_xz_def)
    then have e: "decode_hex (int (digit_count (c # cs)) - 1) (c # cs) st = decode_hex (int ?n - 1) cs st1"
      using False v by (simp add: st1_def)
    have lv: "v * 16 ^ ?n + literal_value JZ_NUM_BASE_HEX cs < 2 ^ 256" using Cons.prems(3) False d by (simp add: radix_def)
    have dv: "16 ^ Suc ?n dvd wval (ls_words st)" using Cons.prems(4) False by simp
    then have dv': "16 ^ ?n dvd wval (ls_words st)" by (rule dvd_trans [rotated]) simp
    have w: "wval (ls_words st1) = wval (ls_words st) + v * 16 ^ ?n"
    proof (cases "?n < 64")
      case True
      have "(16 :: nat) ^ Suc ?n = (2 ^ 4) ^ Suc ?n" by simp
      then have "(16 :: nat) ^ Suc ?n = 2 ^ (4 * ?n + 4)" by (simp only: flip: power_mult) (simp add: algebra_simps)
      then show ?thesis using place_nibble_value [OF Cons.prems(2) True v(2)] dv by (simp add: st1_def)
    next
      case f: False
      have "v = 0"
      proof (rule ccontr)
        assume "v \<noteq> 0"
        have "(2 :: nat) ^ 256 = 16 ^ 64" by simp
        also have "\<dots> \<le> 16 ^ ?n" using f by (intro power_increasing) simp_all
        also have "\<dots> \<le> v * 16 ^ ?n" using \<open>v \<noteq> 0\<close> by simp
        finally show False using lv by linarith
      qed
      then show ?thesis using f by (simp add: st1_def place_nibble_high)
    qed
    have "decoded JZ_NUM_BASE_HEX cs st1 (decode_hex (int ?n - 1) cs st1)"
      using w dv' lv Cons.prems(2) by (intro Cons.IH [OF c(2)]) (simp_all add: st1_def dvd_add)
    then show ?thesis unfolding e
      by (rule decoded_digit [OF _ False]) (use w in \<open>simp_all add: st1_def d radix_def\<close>)
  qed
qed

lemma decode_dec_value:
  assumes "validate_digits JZ_NUM_BASE_DEC s = None"
  shows "decode_dec acc s = Some (acc * 10 ^ digit_count s + of_nat (literal_value JZ_NUM_BASE_DEC s))"
  using assms
proof (induction s arbitrary: acc)
  case Nil
  show ?case by simp
next
  case (Cons c cs)
  show ?case
  proof (cases "c = CHR ''_''")
    case True
    then show ?thesis using Cons by (simp add: is_literal_blank_def)
  next
    case False
    have c: "isdigit c" "validate_digits JZ_NUM_BASE_DEC cs = None"
      using Cons.prems False by (simp_all only: validate_Cons) (simp split: if_splits)
    have x: "\<not> is_literal_blank c" using c(1) False by (auto simp: isdigit_def is_literal_blank_def)
    show ?thesis using Cons.IH [OF c(2)] c(1) x False by (simp add: digit_of_def radix_def algebra_simps)
  qed
qed

section \<open>From the text to the value\<close>

lemma valid_digit_not_space:
  assumes "digit_error base c = None"
  shows "\<not> isspace c"
proof (cases base)
  case JZ_NUM_BASE_BIN
  then show ?thesis using assms by (auto simp: isspace_def is_xz_def split: if_splits)
next
  case JZ_NUM_BASE_DEC
  then show ?thesis using assms by (auto simp: isspace_def isdigit_def split: if_splits)
next
  case JZ_NUM_BASE_HEX
  then show ?thesis using assms by (auto simp: isspace_def is_hex_digit_def isdigit_def split: if_splits)
qed (use assms in simp)

lemma validate_all:
  "validate_digits base s = None \<Longrightarrow> c \<in> set s \<Longrightarrow> c = CHR ''_'' \<or> digit_error base c = None"
  by (induction s) (auto simp: validate_Cons simp del: validate_digits.simps(2))

lemma valid_digits_trim:
  assumes "validate_digits base s = None" "s \<noteq> []" "last s \<noteq> CHR ''_''"
  shows "rev (dropWhile isspace (rev s)) = s"
proof -
  have "\<not> isspace (last s)" using validate_all [OF assms(1), of "last s"] assms(2,3) valid_digit_not_space by auto
  then show ?thesis using assms(2) by (cases s rule: rev_cases) auto
qed

lemma no_blanks:
  "validate_digits base s = None \<Longrightarrow> base \<noteq> JZ_NUM_BASE_NONE \<Longrightarrow> count_lit_digits s = digit_count s"
proof (induction s)
  case Nil
  show ?case by (simp add: count_lit_digits_def)
next
  case (Cons c cs)
  have "c \<noteq> CHR ''_'' \<Longrightarrow> \<not> is_literal_blank c"
    using Cons.prems(1) valid_digit_not_space [of base c] by (auto simp: validate_Cons is_literal_blank_def isspace_def simp del: validate_digits.simps)
  moreover have "is_literal_blank (CHR ''_'')" by (simp add: is_literal_blank_def)
  ultimately show ?case using Cons by (auto simp: validate_Cons count_lit_digits_def simp del: validate_digits.simps(2))
qed

text \<open>The parts of a literal the lexer accepted.\<close>

lemma accepted_literal:
  assumes "parse_numeric_literal (ws @ quote # b # ds) = Inr (Some info)" "quote \<notin> set ws"
  shows "numeric_base b = Some (num_base info)" "ws \<noteq> []" "ds \<noteq> []" "hd ds \<noteq> CHR ''_''" "last ds \<noteq> CHR ''_''"
    "validate_digits (num_base info) ds = None" "num_base info \<noteq> JZ_NUM_BASE_NONE"
proof -
  have t: "takeWhile (\<lambda>c. c \<noteq> quote) (ws @ quote # b # ds) = ws"
    using assms(2) by (subst takeWhile_append2) auto
  note p = assms(1) [unfolded parse_numeric_literal_def Let_def t]
  show "numeric_base b = Some (num_base info)" "ws \<noteq> []" "ds \<noteq> []" "hd ds \<noteq> CHR ''_''" "last ds \<noteq> CHR ''_''"
    "validate_digits (num_base info) ds = None"
    using p by (auto split: if_splits option.splits)
  then show "num_base info \<noteq> JZ_NUM_BASE_NONE" by (auto simp: numeric_base_def split: if_splits)
qed

lemma digit_count_ex: "0 < digit_count s \<Longrightarrow> \<exists>c \<in> set s. c \<noteq> CHR ''_''"
  by (induction s) (auto split: if_splits)

lemma decode_digits_correct:
  assumes v: "validate_digits base ds = None" "base \<noteq> JZ_NUM_BASE_NONE" "0 < digit_count ds" "length ds < 256"
    and w: "unat w \<le> 256" "fits base ds (unat w)" and d: "base = JZ_NUM_BASE_DEC \<longrightarrow> literal_value base ds < 2 ^ 64"
  shows "\<exists>st. decode_digits base (Some w) ds ds = Some st \<and> length (ls_words st) = 4 \<and>
           wval (ls_words st) = literal_value base ds \<and> (all_z st \<and> has_digits st \<longleftrightarrow> all_z_digits ds)"
proof (cases base)
  case JZ_NUM_BASE_BIN
  have "digit_count ds \<le> 256" using digit_count_le [of ds] v(4) by simp
  then have "decoded base ds lit_scan_init (decode_bin (int (digit_count ds) - 1) ds lit_scan_init)"
    using decode_bin_value [of ds lit_scan_init] v(1) JZ_NUM_BASE_BIN by (simp add: lit_scan_init_def)
  then show ?thesis using no_blanks [OF v(1,2)] v(3) JZ_NUM_BASE_BIN
    by (simp add: decode_digits_def decoded_def lit_scan_init_def)
next
  case JZ_NUM_BASE_HEX
  have "(2 :: nat) ^ unat w \<le> 2 ^ 256" using w(1) by (intro power_increasing) simp_all
  then have "literal_value base ds < 2 ^ 256" using w(2) JZ_NUM_BASE_HEX by (simp add: fits_def)
  then have "decoded base ds lit_scan_init (decode_hex (int (digit_count ds) - 1) ds lit_scan_init)"
    using decode_hex_value [of ds lit_scan_init] v(1) JZ_NUM_BASE_HEX by (simp add: lit_scan_init_def)
  then show ?thesis using no_blanks [OF v(1,2)] v(3) JZ_NUM_BASE_HEX
    by (simp add: decode_digits_def decoded_def lit_scan_init_def)
next
  case JZ_NUM_BASE_DEC
  let ?v = "literal_value base ds"
  have u: "unat (of_nat ?v :: u64) = ?v" using d JZ_NUM_BASE_DEC by (simp add: unat_of_nat)
  have m: "of_nat ?v AND (push_bit (unat w) 1 - 1) = (of_nat ?v :: u64)" if "w < 64"
  proof -
    have "?v < 2 ^ unat w" using w(2) JZ_NUM_BASE_DEC by (simp add: fits_def)
    then have "take_bit (unat w) (unat (of_nat ?v :: u64)) = ?v" using u by (simp add: take_bit_nat_eq_self)
    then have "unat (take_bit (unat w) (of_nat ?v :: u64)) = ?v" by (simp add: unsigned_take_bit_eq)
    then have "take_bit (unat w) (of_nat ?v :: u64) = of_nat ?v" using u by (metis word_unat_eq_iff)
    then show ?thesis by (simp add: take_bit_eq_mask mask_eq_exp_minus_1 push_bit_eq_mult)
  qed
  have z: "\<not> all_z_digits ds"
  proof
    assume z: "all_z_digits ds"
    obtain c where c: "c \<in> set ds" "c \<noteq> CHR ''_''" using digit_count_ex [OF v(3)] by blast
    have "is_xz c" using bspec [OF z [unfolded all_z_digits_def] c(1)] c(2) by (simp add: is_xz_def)
    then show False using validate_all [OF v(1) c(1)] c(2) JZ_NUM_BASE_DEC by simp
  qed
  have "decode_dec 0 ds = Some (of_nat ?v)" using decode_dec_value [of ds 0] v(1) JZ_NUM_BASE_DEC by simp
  then show ?thesis using JZ_NUM_BASE_DEC m z u by (simp add: decode_digits_def Let_def replicate_4)
qed (use v in simp)

lemma digit_count_pos: "ds \<noteq> [] \<Longrightarrow> hd ds \<noteq> CHR ''_'' \<Longrightarrow> 0 < digit_count ds"
  by (cases ds) auto

lemma sint_small:
  assumes "unat (w :: u32) \<le> 256"
  shows "uint w \<le> 256" "sint w = int (unat w)"
proof -
  have "int (unat w) \<le> int 256" using assms by (simp only: of_nat_le_iff)
  then show "uint w \<le> 256" by simp
  then have "signed_take_bit 31 (uint w) = uint w" by (intro signed_take_bit_int_eq_self) (simp_all add: order_trans [of _ 0])
  then show "sint w = int (unat w)" by (simp add: sint_uint)
qed

lemma literal_correct:
  assumes "parse_numeric_literal (ws @ quote # b # ds) = Inr (Some info)" "quote \<notin> set ws"
    "parse_simple_positive_int ws = Some w" "length ws < 32" "length ds < 256" "unat w \<le> 256"
    "num_base info = JZ_NUM_BASE_DEC \<longrightarrow> literal_value (num_base info) ds < 2 ^ 64"
  shows "if fits (num_base info) ds (unat w)
         then infer_literal_type (ws @ quote # b # ds) = (jz_type_scalar w False, None) \<and>
           (\<exists>l. ir_decode_sized_literal ec (ws @ quote # b # ds) = Some l \<and> lit_width l = int (unat w) \<and>
              wval (lit_words l) = literal_value (num_base info) ds \<and> (lit_is_z l \<longleftrightarrow> all_z_digits ds) \<and>
              (\<not> lit_is_z l \<longrightarrow> known (eval_literal (int (unat w)) l) \<and> width (eval_literal (int (unat w)) l) = int (unat w) \<and>
                 uval (eval_literal (int (unat w)) l) = literal_value (num_base info) ds))
         else infer_literal_type (ws @ quote # b # ds) = (unknown_type, Some LIT_OVERFLOW) \<and>
           ir_decode_sized_literal ec (ws @ quote # b # ds) = None"
proof -
  let ?b = "num_base info" and ?l = "ws @ quote # b # ds"
  note a = accepted_literal [OF assms(1,2)]
  have t: "takeWhile (\<lambda>c. c \<noteq> quote) ?l = ws" using assms(2) by (subst takeWhile_append2) auto
  have n: "0 < digit_count ds" using a(3,4) by (rule digit_count_pos)
  have w: "0 < w" using assms(3) by (auto simp: parse_simple_positive_int_def word_neq_0_conv split: option.splits if_splits)
  have tr: "rev (dropWhile isspace (rev ds)) = ds" by (rule valid_digits_trim [OF a(6,3,5)])
  have an: "jz_literal_analyze ?b ds w = None \<longleftrightarrow> \<not> fits ?b ds (unat w)"
    using analyze_correct(1) [OF a(6) n _ w] assms(5,7) by simp
  have inf: "infer_literal_type ?l = (if fits ?b ds (unat w) then (jz_type_scalar w False, None) else (unknown_type, Some LIT_OVERFLOW))"
    using an a(1,2,3) assms(3,4) by (cases "jz_literal_analyze ?b ds w") (auto simp: infer_literal_type_def t Let_def)
  have tk: "take 255 ds = ds" using assms(5) by simp
  have dec: "ir_decode_sized_literal ec ?l =
     (if \<not> fits ?b ds (unat w) then None
      else case decode_digits ?b (Some w) ds ds of
             None \<Rightarrow> None
           | Some st \<Rightarrow> Some \<lparr>lit_words = ls_words st, lit_width = sint w, lit_is_z = (all_z st \<and> has_digits st)\<rparr>)"
    using a(1,2,3) assms(3,4) by (simp add: ir_decode_sized_literal_def t Let_def literal_width_def tr tk an split: option.split)
  show ?thesis
  proof (cases "fits ?b ds (unat w)")
    case False
    then show ?thesis using inf dec by simp
  next
    case True
    obtain st where st: "decode_digits ?b (Some w) ds ds = Some st" "length (ls_words st) = 4"
        "wval (ls_words st) = literal_value ?b ds" "(all_z st \<and> has_digits st) = all_z_digits ds"
      using decode_digits_correct [OF a(6,7) n assms(5,6) True assms(7)] by blast
    define l where "l = \<lparr>lit_words = ls_words st, lit_width = sint w, lit_is_z = (all_z st \<and> has_digits st)\<rparr>"
    have s: "sint w = int (unat w)" by (rule sint_small(2) [OF assms(6)])
    have "literal_value ?b ds < 2 ^ unat w"
    proof (cases "?b = JZ_NUM_BASE_BIN")
      case b: True
      have "literal_value ?b ds < 2 ^ digit_count ds" using literal_value_less [OF a(6)] b by (simp add: radix_def)
      also have "(2 :: nat) ^ digit_count ds \<le> 2 ^ unat w" using True b by (intro power_increasing) (simp_all add: fits_def)
      finally show ?thesis .
    qed (use True in \<open>simp add: fits_def\<close>)
    then have f: "literal_fits l" using st sint_small(1) [OF assms(6)] by (simp add: literal_fits_def l_def s)
    have "ir_decode_sized_literal ec ?l = Some l" using dec True st(1) by (simp add: l_def)
    moreover have "width (eval_literal (int (unat w)) l) = int (unat w)"
      using literal_typed [of l "int (unat w)"] sint_small(1) [OF assms(6)] w by (auto simp: l_def s typed_def word_less_def)
    moreover note uval_literal [OF f, of "int (unat w)"] sint_small(1) [OF assms(6)]
    ultimately show ?thesis using inf True st(3,4) assms(6) by (auto simp: l_def s)
  qed
qed


end
