(* ===== verification/Sem_Expr_Sound.thy ===== *)
theory Sem_Expr_Sound
  imports Sem_Expr Sem_Literal_Decode
begin

text \<open>
  The lowering keeps the widths the type checker inferred: the node of a checked expression has,
  in every frame that holds the declared signals, the inferred width as its static width, which is
  the width of the value the evaluator returns.
\<close>

declare ir_build_expr.simps [simp del]

section \<open>The lowering by kind of node\<close>

definition width_of :: "ExprScope \<Rightarrow> JZExpr \<Rightarrow> u32" where
  "width_of sc e = bv_width (type_of sc e)"

definition enter_depth :: "u32 \<Rightarrow> u32 option" where
  "enter_depth d = jz_depth_enter_checked d JZ_LIMIT_IR_EXPR_DEPTH"

lemma build_literal:
  "ir_build_expr sc d (AST_LITERAL txt) = map_option (\<lambda>_. lower_literal sc (width_of sc (AST_LITERAL txt)) txt) (enter_depth d)"
  by (subst ir_build_expr.simps) (simp add: enter_depth_def width_of_def Let_def split: option.split)

lemma build_driver:
  "ir_build_expr sc d (AST_SPECIAL_DRIVER k) = map_option (\<lambda>_. lower_driver k) (enter_depth d)"
  by (subst ir_build_expr.simps) (simp add: enter_depth_def Let_def split: option.split)

lemma build_identifier:
  "ir_build_expr sc d (AST_IDENTIFIER n) = Option.bind (enter_depth d) (\<lambda>_. lower_identifier sc (width_of sc (AST_IDENTIFIER n)) n)"
  by (subst ir_build_expr.simps) (simp add: enter_depth_def width_of_def Let_def split: option.split)

lemma build_unary:
  "ir_build_expr sc d (AST_UNARY k e) = Option.bind (enter_depth d) (\<lambda>d1. Option.bind (ir_build_expr sc d1 e) (\<lambda>node.
     Some (case ir_map_unary_kind k of None \<Rightarrow> node | Some op \<Rightarrow> (EXPR_UNARY op (sint (width_of sc (AST_UNARY k e))) (fst node), None))))"
  by (subst ir_build_expr.simps) (simp add: enter_depth_def width_of_def Let_def split: option.split)

lemma build_binary:
  "ir_build_expr sc d (AST_BINARY k l r) = Option.bind (enter_depth d) (\<lambda>d1. Option.bind (ir_build_expr sc d1 l) (\<lambda>a.
     Option.bind (ir_build_expr sc d1 r) (\<lambda>b. Option.bind (ir_map_binary_kind k) (\<lambda>op.
       Some (EXPR_BINARY op (sint (width_of sc (AST_BINARY k l r))) (fst a) (fst b), None)))))"
  by (subst ir_build_expr.simps) (simp add: enter_depth_def width_of_def Let_def split: option.split)

lemma build_ternary:
  "ir_build_expr sc d (AST_TERNARY c t f) = Option.bind (enter_depth d) (\<lambda>d1. Option.bind (ir_build_expr sc d1 c) (\<lambda>x.
     Option.bind (ir_build_expr sc d1 t) (\<lambda>a. Option.bind (ir_build_expr sc d1 f) (\<lambda>b.
       Some (EXPR_TERNARY (sint (width_of sc (AST_TERNARY c t f))) (fst x)
               (set_driver_width (width_of sc (AST_TERNARY c t f)) a) (set_driver_width (width_of sc (AST_TERNARY c t f)) b), None)))))"
  by (subst ir_build_expr.simps) (simp add: enter_depth_def width_of_def Let_def split: option.split)

lemma build_concat:
  "ir_build_expr sc d (AST_CONCAT es) = Option.bind (enter_depth d) (\<lambda>d1. if es = [] then None else
     map_option (\<lambda>ns. (EXPR_CONCAT (sint (width_of sc (AST_CONCAT es))) ns, None)) (ir_build_elements sc d1 es))"
  by (subst ir_build_expr.simps) (simp add: enter_depth_def width_of_def Let_def split: option.split)

definition no_mux :: "ExprScope \<Rightarrow> bool" where
  "no_mux sc \<longleftrightarrow> (\<forall>sb \<in> set (scope_symbols sc). sym_kind sb \<noteq> JZ_SYM_MUX)"

lemma lookup_mem: "module_scope_lookup syms n = Some sb \<Longrightarrow> sb \<in> set syms \<and> sym_name sb = n"
  by (auto simp: module_scope_lookup_def find_Some_iff)

lemma no_mux_lookup: "no_mux sc \<Longrightarrow> module_scope_lookup (scope_symbols sc) n = Some sb \<Longrightarrow> sym_kind sb \<noteq> JZ_SYM_MUX"
  using lookup_mem by (auto simp: no_mux_def)

lemma no_mux_name: "no_mux sc \<Longrightarrow> \<not> is_mux sc n"
  by (auto simp: no_mux_def is_mux_def module_scope_lookup_kind_def find_Some_iff)

lemma build_slice:
  assumes "no_mux sc"
  shows "ir_build_expr sc d (AST_SLICE base msb lsb) = Option.bind (enter_depth d) (\<lambda>d1.
     case identifier_name base of
       Some n \<Rightarrow> Option.bind (module_scope_lookup (scope_symbols sc) n) (\<lambda>sb.
          Option.bind (ir_eval_slice_bound sc msb) (\<lambda>m. Option.bind (ir_eval_slice_bound sc lsb) (\<lambda>l.
            Some (EXPR_SLICE (sint (width_of sc (AST_SLICE base msb lsb))) (sym_id sb) EXPR_NULL (sint m) (sint l), None))))
     | None \<Rightarrow> Option.bind (ir_eval_slice_bound sc msb) (\<lambda>m. Option.bind (ir_eval_slice_bound sc lsb) (\<lambda>l.
          Option.bind (ir_build_expr sc d1 base) (\<lambda>b.
            Some (EXPR_SLICE (sint (m - l + 1)) (- 1) (fst b) (sint m) (sint l), None)))))"
  by (subst ir_build_expr.simps)
     (auto simp: enter_depth_def width_of_def Let_def dest: no_mux_lookup [OF assms] split: option.split)

lemmas build_simps = build_literal build_driver build_identifier build_unary build_binary build_ternary build_concat

section \<open>Widths of operators\<close>

lemma small_sint: "(w :: u32) \<le> 256 \<Longrightarrow> sint w = uint w \<and> uint w \<le> 256"
proof -
  assume "w \<le> 256"
  then have "uint w \<le> 256" by (simp add: word_le_def)
  moreover from this have "signed_take_bit 31 (uint w) = uint w" by (intro signed_take_bit_int_eq_self) (simp_all add: order_trans [of _ 0])
  ultimately show ?thesis by (simp add: sint_uint)
qed

lemma unary_type_width:
  assumes "unary_op_of k = Some op" "jz_type_unary op a = Some t" "bv_width t \<le> 256"
  shows "case ir_map_unary_kind k of
           None \<Rightarrow> t = a
         | Some op' \<Rightarrow> unary_width op' (uint (bv_width t)) (uint (bv_width a)) = Some (uint (bv_width t))"
  using assms small_sint [OF assms(3)]
  by (auto simp: unary_op_of_def ir_map_unary_kind_def jz_type_unary_def type_is_valid_def jz_type_scalar_def unary_width_def
      unmasked_width_def width_or_def word_less_def split: if_splits)

lemma binary_type_width:
  assumes "binary_op_of k = Some (op, r)" "ir_map_binary_kind k = Some op'" "jz_type_binary op a b = Some t" "bv_width t \<le> 256" "0 < bv_width t"
  shows "binary_width op' (uint (bv_width t)) (uint (bv_width a)) (uint (bv_width b)) = Some (uint (bv_width t))"
proof -
  note w = small_sint [OF assms(4)]
  have p: "0 < uint (bv_width a)" "0 < uint (bv_width b)" using assms(3)
    by (auto simp: jz_type_binary_def type_is_valid_def word_less_def split: if_splits)
  have k: "k \<in> {''ADD'', ''SUB'', ''MUL'', ''DIV'', ''MOD'', ''BIT_AND'', ''BIT_OR'', ''BIT_XOR'', ''LOG_AND'', ''LOG_OR'',
      ''EQ'', ''NEQ'', ''LT'', ''LE'', ''GT'', ''GE'', ''SHL'', ''SHR'', ''ASHR''}"
    using assms(1) by (auto simp: binary_op_of_def split: if_splits)
  have r: "0 < uint (bv_width t)" using assms(5) by (simp add: word_less_def)
  show ?thesis
    using k assms(1,2,3) w r
    by (elim insertE emptyE;
        clarsimp simp: binary_op_of_def ir_map_binary_kind_def jz_type_binary_def equal_widths_def jz_type_scalar_def
          binary_width_def masked_width_def unmasked_width_def width_or_def split: if_splits)
qed

section \<open>Checked expressions\<close>

lemma type_of_unary: "type_of sc (AST_UNARY k e) = fst (infer_unary_type sc k e (type_of sc e))"
  by (simp add: type_of_def split: prod.split)

lemma type_of_binary: "type_of sc (AST_BINARY k l r) = fst (infer_binary_type k r (type_of sc l) (type_of sc r))"
  by (simp add: type_of_def split: prod.split)

lemma type_of_ternary:
  "type_of sc (AST_TERNARY c t f) = fst (infer_ternary_type t f (type_of sc c) (type_of sc t) (type_of sc f))"
  by (simp add: type_of_def split: prod.split)

lemma type_of_slice: "type_of sc (AST_SLICE b m l) = infer_slice_type sc b m l"
  by (simp add: type_of_def)

lemma type_of_identifier: "type_of sc (AST_IDENTIFIER n) = infer_identifier_type sc n"
  by (simp add: type_of_def)

lemma type_of_literal: "type_of sc (AST_LITERAL txt) = fst (infer_literal_type txt)"
  by (simp add: type_of_def split: prod.split)

text \<open>
  An expression is checked when every node that stands for a value has a known width of at most
  256 bits, concatenations have at most the 16 elements the type checker reads, and a slice lies
  inside its base, which is a signal or a compound expression.
\<close>

definition sized :: "ExprScope \<Rightarrow> JZExpr \<Rightarrow> bool" where
  "sized sc e \<longleftrightarrow> 0 < width_of sc e \<and> width_of sc e \<le> 256"

definition names_signal :: "ExprScope \<Rightarrow> string \<Rightarrow> bool" where
  "names_signal sc n = (case module_scope_lookup (scope_symbols sc) n of Some sb \<Rightarrow> is_signal_kind (sym_kind sb) \<and> 0 \<le> sym_id sb | None \<Rightarrow> False)"

definition index_inside :: "ExprScope \<Rightarrow> JZExpr \<Rightarrow> JZExpr \<Rightarrow> bool" where
  "index_inside sc base msb = (case literal_index msb of Some m \<Rightarrow> m < width_of sc base | None \<Rightarrow> False)"

fun checked :: "ExprScope \<Rightarrow> JZExpr \<Rightarrow> bool" where
  "checked sc (AST_LITERAL txt) = sized sc (AST_LITERAL txt)"
| "checked sc (AST_SPECIAL_DRIVER k) = False"
| "checked sc (AST_IDENTIFIER n) = sized sc (AST_IDENTIFIER n)"
| "checked sc (AST_UNARY k e) = (sized sc (AST_UNARY k e) \<and> checked sc e)"
| "checked sc (AST_BINARY k l r) = (sized sc (AST_BINARY k l r) \<and> checked sc l \<and> checked sc r)"
| "checked sc (AST_TERNARY c t f) =
     (sized sc (AST_TERNARY c t f) \<and> checked sc c \<and> (is_special_driver t \<or> checked sc t) \<and> (is_special_driver f \<or> checked sc f))"
| "checked sc (AST_CONCAT es) = (sized sc (AST_CONCAT es) \<and> length es \<le> 16 \<and> list_all (checked sc) es)"
| "checked sc (AST_SLICE base msb lsb) =
     (sized sc (AST_SLICE base msb lsb) \<and> checked sc base \<and> index_inside sc base msb \<and>
      (case identifier_name base of Some n \<Rightarrow> names_signal sc n | None \<Rightarrow> True))"

lemma checked_sized: "checked sc e \<Longrightarrow> sized sc e"
  by (cases e) simp_all

text \<open>The frame holds the signals of the scope at their declared widths.\<close>

definition frame_declares :: "ExprScope \<Rightarrow> SimFrame \<Rightarrow> bool" where
  "frame_declares sc f \<longleftrightarrow> (\<forall>n sb. module_scope_lookup (scope_symbols sc) n = Some sb \<longrightarrow> is_signal_kind (sym_kind sb) \<longrightarrow>
     0 < width_of sc (AST_IDENTIFIER n) \<longrightarrow> signal_width_of f (sym_id sb) = Some (uint (width_of sc (AST_IDENTIFIER n))))"

section \<open>Leaves\<close>

lemma infer_literal_known:
  assumes "0 < bv_width (fst (infer_literal_type txt))"
  shows "(quote \<notin> set txt \<and> (\<forall>ec. ir_decode_sized_literal ec txt = None)) \<or>
     (\<exists>ws b ds w. txt = ws @ quote # b # ds \<and> quote \<notin> set ws \<and> parse_simple_positive_int ws = Some w \<and> fst (infer_literal_type txt) = jz_type_scalar w False \<and>
        (\<forall>ec l. ir_decode_sized_literal ec txt = Some l \<longrightarrow> lit_width l = sint w))"
proof (cases "quote \<in> set txt")
  case False
  then have "length (takeWhile (\<lambda>c. c \<noteq> quote) txt) = length txt" by (intro arg_cong [where f = length]) (auto simp: takeWhile_eq_all_conv)
  then have "ir_decode_sized_literal ec txt = None" for ec unfolding ir_decode_sized_literal_def Let_def by (rule if_P)
  then show ?thesis using False by blast
next
  case True
  then obtain ws rest where t: "txt = ws @ quote # rest" "quote \<notin> set ws" by (metis split_list_first)
  have tw: "takeWhile (\<lambda>c. c \<noteq> quote) txt = ws" unfolding t(1) using t(2) by (subst takeWhile_append2) auto
  have dr: "drop (length ws + 1) txt = rest" "length ws < length txt" by (simp_all add: t(1))
  note inf = assms [unfolded infer_literal_type_def Let_def tw dr]
  have ws: "\<not> (ws = [] \<or> 32 \<le> length ws)" using inf dr(2) by (cases "ws = [] \<or> 32 \<le> length ws") simp_all
  obtain w where w: "parse_simple_positive_int ws = Some w" using inf dr(2) ws by (cases "parse_simple_positive_int ws") simp_all
  obtain b ds where b: "rest = b # ds" using inf dr(2) ws w by (cases rest) simp_all
  obtain base where n: "numeric_base b = Some base" using inf dr(2) ws w b by (cases "numeric_base b") simp_all
  have v: "ds \<noteq> []" using inf dr(2) ws w b n by (cases "ds = []") simp_all
  have ty: "fst (infer_literal_type txt) = jz_type_scalar w False"
    using inf ws w b n v dr by (cases "jz_literal_analyze base ds w") (simp_all add: infer_literal_type_def Let_def tw)
  have "lit_width l = sint w" if "ir_decode_sized_literal ec txt = Some l" for ec l
    using that [unfolded ir_decode_sized_literal_def Let_def tw dr(1)] dr(2) ws w b n v
    by (simp add: literal_width_def split: option.splits if_splits) auto
  then show ?thesis using t b w ty by blast
qed

lemma static_literal:
  assumes "lit_width l = uint w" "0 < w" "w \<le> 256" "k \<le> 256"
  shows "static_width f (EXPR_LITERAL k l) = Some (uint (w :: u32))"
  using small_sint [OF assms(3)] assms by (auto simp: word_less_def)

lemma lower_literal_width:
  assumes "sized sc (AST_LITERAL txt)"
  shows "static_width f (fst (lower_literal sc (width_of sc (AST_LITERAL txt)) txt)) = Some (uint (width_of sc (AST_LITERAL txt)))"
proof -
  let ?w = "width_of sc (AST_LITERAL txt)"
  have w: "0 < ?w" "?w \<le> 256" using assms by (simp_all add: sized_def)
  note s = small_sint [OF w(2)]
  have k: "0 < bv_width (fst (infer_literal_type txt))" using w(1) by (simp add: width_of_def type_of_literal)
  have l: "lit_width l = uint ?w" if "ir_decode_sized_literal (const_value sc) txt = Some l" for l
    using infer_literal_known [OF k] that s by (auto simp: width_of_def type_of_literal jz_type_scalar_def)
  have "?w \<noteq> 0" using w(1) by auto
  then show ?thesis
    using l s w static_literal [of _ ?w "sint ?w" f]
    by (cases "ir_decode_sized_literal (const_value sc) txt") (simp_all add: lower_literal_def del: static_width.simps)
qed

lemma lower_identifier_width:
  assumes "sized sc (AST_IDENTIFIER n)" "frame_declares sc f"
    "lower_identifier sc (width_of sc (AST_IDENTIFIER n)) n = Some node"
  shows "static_width f (fst node) = Some (uint (width_of sc (AST_IDENTIFIER n)))"
proof -
  let ?w = "width_of sc (AST_IDENTIFIER n)"
  have w: "0 < ?w" "?w \<le> 256" using assms(1) by (simp_all add: sized_def)
  have c: "static_width f (fst node) = Some (uint ?w)" if "lower_constant sc ?w n = Some node"
    using that w small_sint [OF w(2)] by (auto simp: lower_constant_def Let_def word_less_def split: option.splits)
  show ?thesis
  proof (cases "module_scope_lookup (scope_symbols sc) n")
    case None
    then show ?thesis using assms(3) c by (simp add: lower_identifier_def)
  next
    case (Some sb)
    then show ?thesis using assms(2,3) c w
      by (auto simp: lower_identifier_def frame_declares_def split: if_splits)
  qed
qed

section \<open>Compound nodes\<close>

lemma concat_total_sum: "concat_total acc ts = Some w \<Longrightarrow> uint w = uint acc + sum_list (map (\<lambda>t. uint (bv_width t)) ts)"
proof (induction ts arbitrary: acc)
  case Nil
  then show ?case by simp
next
  case (Cons t ts)
  have g: "concat_total (acc + bv_width t) ts = Some w" "\<not> (bv_width t > 0 \<and> acc > UINT_MAX - bv_width t)"
    using Cons.prems by (simp_all split: if_splits)
  have le: "uint (bv_width t) \<le> 2 ^ 32 - 1" using uint_lt2p [of "bv_width t"] by simp
  then have m: "uint (UINT_MAX - bv_width t) = 2 ^ 32 - 1 - uint (bv_width t)"
    by (simp add: uint_sub_lem [THEN iffD1] word_le_def unsigned_minus_1_eq_mask mask_eq_exp_minus_1)
  have "uint (acc + bv_width t) = uint acc + uint (bv_width t)"
  proof (cases "bv_width t = 0")
    case False
    then have "uint (bv_width t) \<noteq> 0" by (simp add: unsigned_eq_0_iff)
    then have "uint acc \<le> 2 ^ 32 - 1 - uint (bv_width t)"
      using g(2) m by (simp add: word_less_def not_less word_neq_0_conv [symmetric])
    then show ?thesis by (intro uint_add_lem [THEN iffD1]) simp
  qed simp
  then show ?case using Cons.IH [OF g(1)] by simp
qed

lemma infer_elements_all:
  "length es \<le> n \<Longrightarrow> list_all (checked sc) es \<Longrightarrow> fst (infer_elements sc n es) = Some (map (type_of sc) es)"
proof (induction es arbitrary: n)
  case Nil
  then show ?case by (cases n) simp_all
next
  case (Cons e es)
  then obtain m where n: "n = Suc m" by (cases n) auto
  have "bv_width (type_of sc e) \<noteq> 0" using checked_sized [of sc e] Cons.prems(2) by (auto simp: sized_def width_of_def)
  then show ?case using Cons n by (simp add: type_of_def case_prod_beta)
qed

lemma concat_width:
  assumes "sized sc (AST_CONCAT es)" "length es \<le> 16" "list_all (checked sc) es"
  shows "sum_list (map (\<lambda>e. uint (width_of sc e)) es) = uint (width_of sc (AST_CONCAT es))"
proof -
  have w: "0 < width_of sc (AST_CONCAT es)" using assms(1) by (simp add: sized_def)
  have ne: "es \<noteq> []" using w by (auto simp: width_of_def type_of_def)
  have t: "type_of sc (AST_CONCAT es) = (case jz_type_concat (map (type_of sc) es) of None \<Rightarrow> unknown_type | Some t \<Rightarrow> t)"
    using infer_elements_all [OF assms(2,3)] ne by (simp add: type_of_def [of sc "AST_CONCAT es"] case_prod_beta)
  obtain v where v: "concat_total 0 (map (type_of sc) es) = Some v"
    using w by (auto simp: width_of_def t jz_type_concat_def split: option.splits if_splits)
  show ?thesis using concat_total_sum [OF v] v ne
    by (simp add: width_of_def t jz_type_concat_def jz_type_scalar_def comp_def)
qed

lemma static_driver:
  assumes "is_special_driver e" "ir_build_expr sc d e = Some node" "0 < w" "w \<le> 256"
  shows "static_width f (set_driver_width w node) = Some (uint w)"
proof -
  obtain k where "e = AST_SPECIAL_DRIVER k" using assms(1) by (cases e) (simp_all add: is_special_driver_def)
  then show ?thesis using assms small_sint [OF assms(4)]
    by (auto simp: build_driver lower_driver_def Let_def set_driver_width_def word_less_def)
qed

text \<open>A node of known width is not touched, or already has the width it would be given.\<close>

lemma static_set_driver:
  assumes "static_width f (fst node) = Some q" "q = uint w" "0 < w" "w \<le> 256"
  shows "static_width f (set_driver_width w node) = Some q"
  using assms small_sint [OF assms(4)]
  by (auto simp: set_driver_width_def word_less_def split: prod.splits IR_Expr.splits option.splits if_splits)

lemma ternary_width:
  assumes "sized sc (AST_TERNARY c t f)"
  shows "(is_special_driver t \<or> 0 < width_of sc t \<longrightarrow> \<not> is_special_driver t \<longrightarrow> width_of sc t = width_of sc (AST_TERNARY c t f))"
    "(is_special_driver f \<or> 0 < width_of sc f \<longrightarrow> \<not> is_special_driver f \<longrightarrow> width_of sc f = width_of sc (AST_TERNARY c t f))"
  using assms
  by (auto simp: sized_def width_of_def type_of_ternary infer_ternary_type_def Let_def split: if_splits)

lemma slice_bounds:
  assumes "sized sc (AST_SLICE base msb lsb)" "no_mux sc"
  obtains m l where "literal_index msb = Some m" "literal_index lsb = Some l" "l \<le> m"
    "width_of sc (AST_SLICE base msb lsb) = m - l + 1" "ir_eval_slice_bound sc msb = Some m" "ir_eval_slice_bound sc lsb = Some l"
proof -
  have r: "type_of sc (AST_SLICE base msb lsb) = (case sem_slice_literal_width msb lsb of None \<Rightarrow> unknown_type | Some w \<Rightarrow> jz_type_scalar w False)"
    using no_mux_name [OF assms(2)] by (simp add: type_of_slice infer_slice_type_def Let_def split: option.split)
  obtain w where w: "sem_slice_literal_width msb lsb = Some w" "width_of sc (AST_SLICE base msb lsb) = w"
    using assms(1) by (auto simp: sized_def width_of_def r jz_type_scalar_def split: option.splits)
  then obtain m l where ml: "literal_index msb = Some m" "literal_index lsb = Some l" "l \<le> m" "w = m - l + 1"
    by (auto simp: sem_slice_literal_width_def split: option.splits if_splits)
  have b: "ir_eval_slice_bound sc e = Some v" if "literal_index e = Some v" for e v
    using that by (auto simp: literal_index_def ir_eval_slice_bound_def split: JZExpr.splits)
  show thesis using that [OF ml(1-3) _ b [OF ml(1)] b [OF ml(2)]] w(2) ml(4) by simp
qed

lemma slice_width_bounds:
  assumes "l \<le> (m :: u32)" "m < 256"
  shows "slice_width (sint m) (sint l) = Some (uint (m - l + 1))" "sint (m - l + 1) = uint (m - l + 1)"
proof -
  have m: "uint m < 256" "uint l \<le> uint m" using assms by (simp_all add: word_less_def word_le_def)
  have le: "m \<le> 256" "l \<le> 256" using assms by (auto simp: word_le_def word_less_def)
  have ml: "uint (m - l) = uint m - uint l" using assms(1) by (simp add: uint_sub_lem [THEN iffD1] word_le_def)
  have s: "uint (m - l + 1) = uint m - uint l + 1"
  proof -
    have "uint m - uint l < 4294967295" using m uint_ge_0 [of l] by linarith
    then show ?thesis using ml uint_add_lem [of "m - l" 1] by simp
  qed
  then have "uint (m - l + 1) \<le> 256" using m uint_ge_0 [of l] by linarith
  then have "m - l + 1 \<le> 256" by (simp add: word_le_def)
  then show "sint (m - l + 1) = uint (m - l + 1)" using small_sint by blast
  show "slice_width (sint m) (sint l) = Some (uint (m - l + 1))"
  proof -
    have "uint m - uint l < 256" using m uint_ge_0 [of l] by linarith
    then show ?thesis using small_sint [OF le(1)] small_sint [OF le(2)] m s by (simp add: slice_width_def)
  qed
qed

section \<open>The widths agree\<close>

theorem lowered_width:
  assumes "no_mux sc" "frame_declares sc f"
  shows "checked sc e \<Longrightarrow> ir_build_expr sc d e = Some node \<Longrightarrow> static_width f (fst node) = Some (uint (width_of sc e))"
proof (induction e arbitrary: d node)
  case (AST_LITERAL s)
  then show ?case using lower_literal_width by (auto simp: build_literal)
next
  case (AST_SPECIAL_DRIVER k)
  then show ?case by simp
next
  case (AST_IDENTIFIER n)
  then show ?case using lower_identifier_width [OF _ assms(2)] by (auto simp: build_identifier bind_eq_Some_conv)
next
  case (AST_UNARY k e)
  have z: "sized sc (AST_UNARY k e)" "checked sc e" using AST_UNARY.prems(1) by simp_all
  obtain d1 m where m: "ir_build_expr sc d1 e = Some m"
      "node = (case ir_map_unary_kind k of None \<Rightarrow> m | Some op \<Rightarrow> (EXPR_UNARY op (sint (width_of sc (AST_UNARY k e))) (fst m), None))"
    using AST_UNARY.prems(2) by (auto simp: build_unary bind_eq_Some_conv)
  have s: "static_width f (fst m) = Some (uint (width_of sc e))" using AST_UNARY.IH [OF z(2) m(1)] .
  have w: "0 < bv_width (type_of sc (AST_UNARY k e))" "bv_width (type_of sc (AST_UNARY k e)) \<le> 256"
    using z(1) by (simp_all add: sized_def width_of_def)
  obtain op where op: "unary_op_of k = Some op" "jz_type_unary op (type_of sc e) = Some (type_of sc (AST_UNARY k e))"
    using w(1) by (auto simp: type_of_unary infer_unary_type_def Let_def split: option.splits if_splits)
  show ?case using unary_type_width [OF op w(2)] small_sint [OF w(2)] s m(2)
    by (auto simp: width_of_def split: option.splits)
next
  case (AST_BINARY k l r)
  have z: "sized sc (AST_BINARY k l r)" "checked sc l" "checked sc r" using AST_BINARY.prems(1) by simp_all
  obtain d1 a b op' where m: "ir_build_expr sc d1 l = Some a" "ir_build_expr sc d1 r = Some b" "ir_map_binary_kind k = Some op'"
      "node = (EXPR_BINARY op' (sint (width_of sc (AST_BINARY k l r))) (fst a) (fst b), None)"
    using AST_BINARY.prems(2) by (auto simp: build_binary bind_eq_Some_conv)
  have w: "0 < bv_width (type_of sc (AST_BINARY k l r))" "bv_width (type_of sc (AST_BINARY k l r)) \<le> 256"
    using z(1) by (simp_all add: sized_def width_of_def)
  obtain op rule where op: "binary_op_of k = Some (op, rule)"
      "jz_type_binary op (type_of sc l) (type_of sc r) = Some (type_of sc (AST_BINARY k l r))"
    using w(1) by (auto simp: type_of_binary infer_binary_type_def split: option.splits if_splits)
  show ?case
    using binary_type_width [OF op(1) m(3) op(2) w(2,1)] small_sint [OF w(2)] AST_BINARY.IH(1) [OF z(2) m(1)]
      AST_BINARY.IH(2) [OF z(3) m(2)]
    by (simp add: m(4) width_of_def)
next
  case (AST_TERNARY c t g)
  let ?e = "AST_TERNARY c t g"
  have z: "sized sc ?e" "checked sc c" "is_special_driver t \<or> checked sc t" "is_special_driver g \<or> checked sc g"
    using AST_TERNARY.prems(1) by simp_all
  obtain d1 x a b where m: "ir_build_expr sc d1 c = Some x" "ir_build_expr sc d1 t = Some a" "ir_build_expr sc d1 g = Some b"
      "node = (EXPR_TERNARY (sint (width_of sc ?e)) (fst x) (set_driver_width (width_of sc ?e) a) (set_driver_width (width_of sc ?e) b), None)"
    using AST_TERNARY.prems(2) by (auto simp: build_ternary bind_eq_Some_conv)
  have w: "0 < width_of sc ?e" "width_of sc ?e \<le> 256" using z(1) by (simp_all add: sized_def)
  have "static_width f (set_driver_width (width_of sc ?e) a) = Some (uint (width_of sc ?e))"
  proof (cases "is_special_driver t")
    case True
    then show ?thesis using static_driver [OF _ m(2) w] by simp
  next
    case False
    then have ck: "checked sc t" and wt: "width_of sc t = width_of sc ?e"
      using z(3) ternary_width(1) [OF z(1)] checked_sized [of sc t] by (auto simp: sized_def)
    show ?thesis using static_set_driver [OF AST_TERNARY.IH(2) [OF ck m(2)] _ w] wt by simp
  qed
  moreover have "static_width f (set_driver_width (width_of sc ?e) b) = Some (uint (width_of sc ?e))"
  proof (cases "is_special_driver g")
    case True
    then show ?thesis using static_driver [OF _ m(3) w] by simp
  next
    case False
    then have ck: "checked sc g" and wt: "width_of sc g = width_of sc ?e"
      using z(4) ternary_width(2) [OF z(1)] checked_sized [of sc g] by (auto simp: sized_def)
    show ?thesis using static_set_driver [OF AST_TERNARY.IH(3) [OF ck m(3)] _ w] wt by simp
  qed
  ultimately show ?case using AST_TERNARY.IH(1) [OF z(2) m(1)] by (simp add: m(4))
next
  case (AST_CONCAT es)
  have z: "sized sc (AST_CONCAT es)" "length es \<le> 16" "list_all (checked sc) es" using AST_CONCAT.prems(1) by simp_all
  obtain d1 ns where m: "ir_build_elements sc d1 es = Some ns" "node = (EXPR_CONCAT (sint (width_of sc (AST_CONCAT es))) ns, None)"
    using AST_CONCAT.prems(2) by (auto simp: build_concat bind_eq_Some_conv split: if_splits)
  have "static_widths f n ns = Some (map (\<lambda>e. uint (width_of sc e)) xs)"
    if "ir_build_elements sc d1 xs = Some ns" "list_all (checked sc) xs" "set xs \<subseteq> set es" "length xs \<le> n" for xs ns n
    using that
  proof (induction xs arbitrary: ns n)
    case Nil
    then show ?case by (cases n) simp_all
  next
    case (Cons y ys)
    obtain a bs where b: "ir_build_expr sc d1 y = Some a" "ir_build_elements sc d1 ys = Some bs" "ns = fst a # bs"
      using Cons.prems(1) by (auto split: option.splits)
    obtain k where k: "n = Suc k" using Cons.prems(4) by (cases n) auto
    have "static_width f (fst a) = Some (uint (width_of sc y))"
      using AST_CONCAT.IH [of y d1 a] Cons.prems(2,3) b(1) by simp
    moreover have "static_widths f k bs = Some (map (\<lambda>e. uint (width_of sc e)) ys)"
      using Cons.IH [OF b(2), of k] Cons.prems(2,3,4) k by simp
    ultimately show ?case using k b(3) by simp
  qed
  then have "static_widths f 64 ns = Some (map (\<lambda>e. uint (width_of sc e)) es)" using m(1) z(2,3) by simp
  moreover have "uint (width_of sc (AST_CONCAT es)) \<le> 256" using z(1) by (simp add: sized_def word_le_def)
  ultimately show ?case using concat_width [OF z] by (simp add: m(2) comp_def)
next
  case (AST_SLICE base msb lsb)
  have z: "sized sc (AST_SLICE base msb lsb)" "checked sc base" "index_inside sc base msb"
      "case identifier_name base of Some n \<Rightarrow> names_signal sc n | None \<Rightarrow> True"
    using AST_SLICE.prems(1) by simp_all
  obtain m l where b: "literal_index msb = Some m" "literal_index lsb = Some l" "l \<le> m"
      "width_of sc (AST_SLICE base msb lsb) = m - l + 1" "ir_eval_slice_bound sc msb = Some m" "ir_eval_slice_bound sc lsb = Some l"
    using slice_bounds [OF z(1) assms(1)] by blast
  have i: "m < width_of sc base" "width_of sc base \<le> 256" "0 < width_of sc base"
    using z(3) b(1) checked_sized [OF z(2)] by (simp_all add: index_inside_def sized_def)
  then have "m < 256" by simp
  note sw = slice_width_bounds [OF b(3) this]
  show ?case
  proof (cases "identifier_name base")
    case None
    then obtain d1 x where x: "ir_build_expr sc d1 base = Some x"
        "node = (EXPR_SLICE (sint (m - l + 1)) (- 1) (fst x) (sint m) (sint l), None)"
      using AST_SLICE.prems(2) b(5,6) by (auto simp: build_slice [OF assms(1)] bind_eq_Some_conv)
    have s: "static_width f (fst x) = Some (uint (width_of sc base))" by (rule AST_SLICE.IH(1) [OF z(2) x(1)])
    have u: "0 < uint (m - l + 1)" "uint (m - l + 1) \<le> 256" using z(1) b(4) by (simp_all add: sized_def word_less_def word_le_def)
    show ?thesis using s sw b(4) u
      by (cases "fst x = EXPR_NULL") (auto simp: x(2) masked_width_def width_or_def split: option.split)
  next
    case (Some n)
    have base: "base = AST_IDENTIFIER n" using Some by (cases base) (simp_all add: identifier_name_def)
    obtain sb where sb: "module_scope_lookup (scope_symbols sc) n = Some sb"
        "node = (EXPR_SLICE (sint (width_of sc (AST_SLICE base msb lsb))) (sym_id sb) EXPR_NULL (sint m) (sint l), None)"
      using AST_SLICE.prems(2) b(5,6) Some by (auto simp: build_slice [OF assms(1)] bind_eq_Some_conv)
    have "signal_width_of f (sym_id sb) = Some (uint (width_of sc base))"
      using assms(2) z(4) Some sb(1) i(3) by (auto simp: frame_declares_def names_signal_def base)
    then show ?thesis using sw b(4) by (simp add: sb(2))
  qed
qed

end
