(* ===== verification/Sem_Expr_Value.thy ===== *)
theory Sem_Expr_Value
  imports Sem_Expr_Sound
begin

text \<open>
  What a checked expression means, as arithmetic on natural numbers, and that the evaluator
  computes it from the lowered expression.
\<close>

section \<open>Values that are numbers\<close>

definition is_number :: "SimValue \<Rightarrow> nat \<Rightarrow> nat \<Rightarrow> bool" where
  "is_number x w v \<longleftrightarrow> sim_val_wf x \<and> known x \<and> width x = int w \<and> uval x = v"

lemma is_numberD:
  assumes "is_number x w v"
  shows "sim_val_wf x" "known x" "width x = int w" "uval x = v" "v < 2 ^ w" "w \<le> 256"
  using assms uval_less [of x] sim_val_wfD(1,2) [of x] by (auto simp: is_number_def)

text \<open>A number is what its bits say.\<close>

lemma number_bit: "is_number x w v \<Longrightarrow> sim_bit x n = (if bit v n then B1 else B0)"
  by (auto simp: is_number_def sim_bit_known)

lemma number_from_bits:
  assumes "sim_val_wf x" "width x = int w" "\<And>n. n < w \<Longrightarrow> sim_bit x n = (if bit v n then B1 else B0)" "v < 2 ^ w"
  shows "is_number x w v"
proof -
  have b: "sim_bit x n = (if bit v n then B1 else B0)" for n
    using assms(2,3) sim_bit_beyond [OF assms(1), of n] bit_less_exp [OF assms(4), of n] by (cases "n < w") auto
  have "known x" by (auto simp: known_def sim_bit_planes [OF assms(1)] b)
  moreover from this have "bit (uval x) n \<longleftrightarrow> bit v n" for n using b [of n] by (simp add: sim_bit_known split: if_splits)
  ultimately show ?thesis using assms(1,2) by (simp add: is_number_def bit_eq_iff)
qed

lemma number_cmp: "is_number (cmp_result t) 1 (of_bool t)"
  by (simp add: is_number_def cmp_result_simps)

section \<open>The meaning of operators\<close>

definition signed_of :: "nat \<Rightarrow> nat \<Rightarrow> int" where
  "signed_of w a = (if 0 < w \<and> bit a (w - 1) then int a - 2 ^ w else int a)"

text \<open>The full product is what the type rule and the language ask for.\<close>

definition binary_meaning :: "JZBinaryOp \<Rightarrow> nat \<Rightarrow> nat \<Rightarrow> nat \<Rightarrow> nat option" where
  "binary_meaning op w a b =
     (case op of
        JZ_BIN_ADD \<Rightarrow> Some ((a + b) mod 2 ^ w)
      | JZ_BIN_SUB \<Rightarrow> Some (nat ((int a - int b) mod 2 ^ w))
      | JZ_BIN_MUL \<Rightarrow> Some (a * b)
      | JZ_BIN_DIV \<Rightarrow> (if b = 0 then None else Some (a div b))
      | JZ_BIN_MOD \<Rightarrow> (if b = 0 then None else Some (a mod b))
      | JZ_BIN_BIT_AND \<Rightarrow> Some (a AND b)
      | JZ_BIN_BIT_OR \<Rightarrow> Some (a OR b)
      | JZ_BIN_BIT_XOR \<Rightarrow> Some (a XOR b)
      | JZ_BIN_LOG_AND \<Rightarrow> Some (of_bool (a \<noteq> 0 \<and> b \<noteq> 0))
      | JZ_BIN_LOG_OR \<Rightarrow> Some (of_bool (a \<noteq> 0 \<or> b \<noteq> 0))
      | JZ_BIN_EQ \<Rightarrow> Some (of_bool (a = b))
      | JZ_BIN_NE \<Rightarrow> Some (of_bool (a \<noteq> b))
      | JZ_BIN_LT \<Rightarrow> Some (of_bool (a < b))
      | JZ_BIN_LE \<Rightarrow> Some (of_bool (a \<le> b))
      | JZ_BIN_GT \<Rightarrow> Some (of_bool (a > b))
      | JZ_BIN_GE \<Rightarrow> Some (of_bool (a \<ge> b))
      | JZ_BIN_SHL \<Rightarrow> Some (a * 2 ^ b mod 2 ^ w)
      | JZ_BIN_SHR \<Rightarrow> Some (a div 2 ^ b)
      | JZ_BIN_ASHR \<Rightarrow> Some (nat (signed_of w a div 2 ^ b mod 2 ^ w)))"

definition unary_meaning :: "JZUnaryOp \<Rightarrow> nat \<Rightarrow> nat \<Rightarrow> nat" where
  "unary_meaning op w a =
     (case op of
        JZ_UNARY_PLUS \<Rightarrow> a
      | JZ_UNARY_MINUS \<Rightarrow> (2 ^ w - a) mod 2 ^ w
      | JZ_UNARY_BIT_NOT \<Rightarrow> 2 ^ w - 1 - a
      | JZ_UNARY_LOGICAL_NOT \<Rightarrow> of_bool (a = 0))"

section \<open>The operators of the evaluator\<close>

lemma number_resize:
  assumes "is_number x w v" "0 < w"
  shows "set_width (int w) x = x" "sim_val_mask (set_width (int w) x) = x"
proof -
  show e: "set_width (int w) x = x" using assms is_numberD(1,3) [OF assms(1)] by (simp add: set_width_def width_or_def)
  show "sim_val_mask (set_width (int w) x) = x" unfolding e using is_numberD(1) [OF assms(1)] by (rule sim_val_mask_idem)
qed

lemma arith_numbers:
  assumes A: "is_number x w a" and B: "is_number y w b"
  shows "is_number (sim_val_add x y) w ((a + b) mod 2 ^ w)"
    "is_number (sim_val_sub x y) w (nat ((int a - int b) mod 2 ^ w))"
    "b \<noteq> 0 \<Longrightarrow> is_number (sim_val_div x y) w (a div b)" "b \<noteq> 0 \<Longrightarrow> is_number (sim_val_mod x y) w (a mod b)"
proof -
  note a = is_numberD [OF A] and b = is_numberD [OF B]
  have m: "max_width x y = int w" using a b by (simp add: max_width_def)
  show "is_number (sim_val_add x y) w ((a + b) mod 2 ^ w)"
    using sim_val_add_known [OF a(1) b(1) a(2) b(2)] a b m by (simp add: is_number_def)
  show "is_number (sim_val_sub x y) w (nat ((int a - int b) mod 2 ^ w))"
    using sim_val_sub_known [OF a(1) b(1) a(2) b(2)] a b m by (simp add: is_number_def)
  show "b \<noteq> 0 \<Longrightarrow> is_number (sim_val_div x y) w (a div b)" "b \<noteq> 0 \<Longrightarrow> is_number (sim_val_mod x y) w (a mod b)"
    using sim_val_divmod_known [OF a(1) b(1) a(2) b(2)] a b m by (simp_all add: is_number_def)
qed

lemma bitwise_numbers:
  assumes A: "is_number x w a" and B: "is_number y w b"
  shows "is_number (sim_val_and x y) w (a AND b)" "is_number (sim_val_or x y) w (a OR b)" "is_number (sim_val_xor x y) w (a XOR b)"
proof -
  note a = is_numberD [OF A] and b = is_numberD [OF B]
  have m: "max_width x y = int w" using a b by (simp add: max_width_def)
  have lt: "f a b < 2 ^ w" if "\<And>n. bit (f a b) n \<Longrightarrow> bit a n \<or> bit b n" for f :: "nat \<Rightarrow> nat \<Rightarrow> nat"
  proof -
    have "take_bit w (f a b) = f a b"
      by (rule bit_eqI) (use that bit_less_exp [OF a(5)] bit_less_exp [OF b(5)] in \<open>auto simp: bit_take_bit_iff\<close>)
    then show ?thesis by (metis take_bit_nat_less_exp)
  qed
  show "is_number (sim_val_and x y) w (a AND b)"
    using sim_val_and_bits [OF a(1) b(1)] m number_bit [OF A] number_bit [OF B] lt [of "(AND)"]
    by (intro number_from_bits) (auto simp: bit_and_iff)
  show "is_number (sim_val_or x y) w (a OR b)"
    using sim_val_or_bits [OF a(1) b(1)] m number_bit [OF A] number_bit [OF B] lt [of "(OR)"]
    by (intro number_from_bits) (auto simp: bit_or_iff)
  show "is_number (sim_val_xor x y) w (a XOR b)"
    using sim_val_xor_bits [OF a(1) b(1)] m number_bit [OF A] number_bit [OF B] lt [of "(XOR)"]
    by (intro number_from_bits) (auto simp: bit_xor_iff)
qed

lemma sval_number: "is_number x w a \<Longrightarrow> sval x = signed_of w a"
  by (auto simp: is_number_def sval_def signed_of_def nat_diff_distrib)

lemma number_of_sval:
  assumes "sim_val_wf x" "known x" "width x = int w"
  shows "is_number x w (nat (sval x mod 2 ^ w))"
proof -
  have "uval x < 2 ^ w" using uval_less [OF assms(1)] assms(3) by simp
  then have "int (uval x) mod 2 ^ w = int (uval x)" by (simp add: zmod_trivial_iff)
  then have "sval x mod 2 ^ w = int (uval x)" using assms(3) by (auto simp: sval_def minus_mod_self2)
  then show ?thesis using assms by (simp add: is_number_def)
qed

lemma shift_numbers:
  assumes A: "is_number x w a" and B: "is_number y w' b" and w: "0 < w"
  shows "is_number (sim_val_shl x y) w (a * 2 ^ b mod 2 ^ w)" "is_number (sim_val_shr x y) w (a div 2 ^ b)"
    "is_number (sim_val_ashr x y) w (nat (signed_of w a div 2 ^ b mod 2 ^ w))"
proof -
  note a = is_numberD [OF A] and b = is_numberD [OF B]
  show "is_number (sim_val_shl x y) w (a * 2 ^ b mod 2 ^ w)"
    using sim_val_shl_known [OF a(1) b(1) a(2) b(2)] a b by (simp add: is_number_def)
  show "is_number (sim_val_shr x y) w (a div 2 ^ b)"
    using sim_val_shr_known [OF a(1) b(1) a(2) b(2)] a b by (simp add: is_number_def)
  have "0 < width x" using a(3) w by simp
  note s = sim_val_ashr_known [OF a(1) b(1) a(2) b(2) this]
  show "is_number (sim_val_ashr x y) w (nat (signed_of w a div 2 ^ b mod 2 ^ w))"
    using number_of_sval [OF s(1,2), of w] s(3,4) a(3) b(4) sval_number [OF A] by simp
qed

lemma logical_numbers:
  assumes A: "is_number x w a" and B: "is_number y w' b"
  shows "is_number (sim_val_logical_and x y) 1 (of_bool (a \<noteq> 0 \<and> b \<noteq> 0))"
    "is_number (sim_val_logical_or x y) 1 (of_bool (a \<noteq> 0 \<or> b \<noteq> 0))"
    "is_number (sim_val_logical_not x) 1 (of_bool (a = 0))"
proof -
  note a = is_numberD [OF A] and b = is_numberD [OF B]
  have ab: "sim_val_is_true x = (if a \<noteq> 0 then 1 else 0)" "sim_val_is_true y = (if b \<noteq> 0 then 1 else 0)"
    using a b by (simp_all add: sim_val_is_true_eq)
  show "is_number (sim_val_logical_and x y) 1 (of_bool (a \<noteq> 0 \<and> b \<noteq> 0))"
    "is_number (sim_val_logical_or x y) 1 (of_bool (a \<noteq> 0 \<or> b \<noteq> 0))"
    "is_number (sim_val_logical_not x) 1 (of_bool (a = 0))"
    using number_cmp [of "a \<noteq> 0 \<and> b \<noteq> 0"] number_cmp [of "a \<noteq> 0 \<or> b \<noteq> 0"] number_cmp [of "a = 0"]
    by (auto simp: sim_val_logical_and_def sim_val_logical_or_def sim_val_logical_not_def Let_def ab cmp_result_def split: if_splits)
qed

text \<open>The kind of node an operator becomes.\<close>

definition ir_kind :: "JZBinaryOp \<Rightarrow> IR_BinaryKind" where
  "ir_kind op =
     (case op of
        JZ_BIN_ADD \<Rightarrow> EXPR_BINARY_ADD | JZ_BIN_SUB \<Rightarrow> EXPR_BINARY_SUB | JZ_BIN_MUL \<Rightarrow> EXPR_BINARY_MUL
      | JZ_BIN_DIV \<Rightarrow> EXPR_BINARY_DIV | JZ_BIN_MOD \<Rightarrow> EXPR_BINARY_MOD | JZ_BIN_BIT_AND \<Rightarrow> EXPR_BINARY_AND
      | JZ_BIN_BIT_OR \<Rightarrow> EXPR_BINARY_OR | JZ_BIN_BIT_XOR \<Rightarrow> EXPR_BINARY_XOR | JZ_BIN_LOG_AND \<Rightarrow> EXPR_LOGICAL_AND
      | JZ_BIN_LOG_OR \<Rightarrow> EXPR_LOGICAL_OR | JZ_BIN_EQ \<Rightarrow> EXPR_BINARY_EQ | JZ_BIN_NE \<Rightarrow> EXPR_BINARY_NEQ
      | JZ_BIN_LT \<Rightarrow> EXPR_BINARY_LT | JZ_BIN_LE \<Rightarrow> EXPR_BINARY_LTE | JZ_BIN_GT \<Rightarrow> EXPR_BINARY_GT
      | JZ_BIN_GE \<Rightarrow> EXPR_BINARY_GTE | JZ_BIN_SHL \<Rightarrow> EXPR_BINARY_SHL | JZ_BIN_SHR \<Rightarrow> EXPR_BINARY_SHR
      | JZ_BIN_ASHR \<Rightarrow> EXPR_BINARY_ASHR)"

lemma kinds_agree: "binary_op_of k = Some (op, r) \<Longrightarrow> ir_map_binary_kind k = Some (ir_kind op)"
  by (auto simp: binary_op_of_def ir_map_binary_kind_def ir_kind_def split: if_splits)

lemma number_sized:
  assumes "is_number z w v" "0 < w"
  shows "is_number (sim_val_mask (set_width (int w) z)) w v" "is_number (set_width (int w) z) w v"
  using number_resize [OF assms] assms(1) by simp_all

lemma same_width_number:
  assumes "op \<in> {JZ_BIN_ADD, JZ_BIN_SUB, JZ_BIN_DIV, JZ_BIN_MOD, JZ_BIN_BIT_AND, JZ_BIN_BIT_OR, JZ_BIN_BIT_XOR}"
    "is_number x w a" "is_number y w b" "0 < w" "binary_meaning op w a b = Some v"
  shows "is_number (eval_binary (ir_kind op) (int w) x y) w v"
  using assms(1,4,5) arith_numbers [OF assms(2,3)] bitwise_numbers [OF assms(2,3)]
  by (auto simp: binary_meaning_def ir_kind_def eval_binary_def eval_arith_def eval_bitwise_def intro!: number_sized split: if_splits)

lemma logical_number:
  assumes "op \<in> {JZ_BIN_LOG_AND, JZ_BIN_LOG_OR}" "is_number x w a" "is_number y w' b" "binary_meaning op n a b = Some v"
  shows "is_number (eval_binary (ir_kind op) m x y) 1 v"
  using assms(1,4) logical_numbers [OF assms(2,3)] by (auto simp: binary_meaning_def ir_kind_def eval_binary_def)

lemma comparison_number:
  assumes "op \<in> {JZ_BIN_EQ, JZ_BIN_NE, JZ_BIN_LT, JZ_BIN_LE, JZ_BIN_GT, JZ_BIN_GE}"
    "is_number x w a" "is_number y w' b" "binary_meaning op n a b = Some v"
  shows "is_number (eval_binary (ir_kind op) m x y) 1 v"
  using assms(1,4) sim_val_compare [OF is_numberD(1) [OF assms(2)] is_numberD(1) [OF assms(3)]]
    is_numberD(2,4) [OF assms(2)] is_numberD(2,4) [OF assms(3)] number_cmp
  by (auto simp: binary_meaning_def ir_kind_def eval_binary_def eval_compare_def)

lemma shift_number:
  assumes "op \<in> {JZ_BIN_SHL, JZ_BIN_SHR, JZ_BIN_ASHR}" "is_number x w a" "is_number y w' b" "0 < w" "binary_meaning op w a b = Some v"
  shows "is_number (eval_binary (ir_kind op) (int w) x y) w v"
  using assms(1,4,5) shift_numbers [OF assms(2,3,4)]
  by (auto simp: binary_meaning_def ir_kind_def eval_binary_def eval_shift_def intro!: number_sized)

text \<open>Every binary operator but the multiplication computes its meaning at the width the type rule gives.\<close>

lemma binary_number:
  assumes op: "op \<noteq> JZ_BIN_MUL" and t: "jz_type_binary op ta tb = Some t"
    and a: "is_number x (unat (bv_width ta)) a" and b: "is_number y (unat (bv_width tb)) b"
    and v: "binary_meaning op (unat (bv_width ta)) a b = Some v"
  shows "is_number (eval_binary (ir_kind op) (int (unat (bv_width t))) x y) (unat (bv_width t)) v"
proof -
  have p: "0 < unat (bv_width ta)" using t
    by (auto simp: jz_type_binary_def type_is_valid_def word_less_nat_alt split: if_splits)
  consider (same) "op \<in> {JZ_BIN_ADD, JZ_BIN_SUB, JZ_BIN_DIV, JZ_BIN_MOD, JZ_BIN_BIT_AND, JZ_BIN_BIT_OR, JZ_BIN_BIT_XOR}"
    | (logical) "op \<in> {JZ_BIN_LOG_AND, JZ_BIN_LOG_OR}"
    | (comparison) "op \<in> {JZ_BIN_EQ, JZ_BIN_NE, JZ_BIN_LT, JZ_BIN_LE, JZ_BIN_GT, JZ_BIN_GE}"
    | (shift) "op \<in> {JZ_BIN_SHL, JZ_BIN_SHR, JZ_BIN_ASHR}"
    using op by (cases op) auto
  then show ?thesis
  proof cases
    case same
    then have "bv_width tb = bv_width ta" "bv_width t = bv_width ta"
      using t by (auto simp: jz_type_binary_def equal_widths_def jz_type_scalar_def Let_def split: if_splits)
    then show ?thesis using same_width_number [OF same a _ p v] b by simp
  next
    case logical
    then have "bv_width t = 1" using t by (auto simp: jz_type_binary_def jz_type_scalar_def Let_def split: if_splits)
    then show ?thesis using logical_number [OF logical a b v] by simp
  next
    case comparison
    then have "bv_width t = 1" using t by (auto simp: jz_type_binary_def equal_widths_def jz_type_scalar_def Let_def split: if_splits)
    then show ?thesis using comparison_number [OF comparison a b v] by simp
  next
    case shift
    then have "bv_width t = bv_width ta" using t by (auto simp: jz_type_binary_def jz_type_scalar_def Let_def split: if_splits)
    then show ?thesis using shift_number [OF shift a b p v] by simp
  qed
qed

lemma unary_number:
  assumes "unary_op_of k = Some op" "jz_type_unary op ta = Some t" "is_number x (unat (bv_width ta)) a"
  shows "case ir_map_unary_kind k of
           None \<Rightarrow> is_number x (unat (bv_width t)) (unary_meaning op (unat (bv_width ta)) a)
         | Some op' \<Rightarrow> is_number (eval_unary op' (int (unat (bv_width t))) x) (unat (bv_width t)) (unary_meaning op (unat (bv_width ta)) a)"
proof -
  let ?w = "unat (bv_width ta)"
  note A = is_numberD [OF assms(3)]
  have p: "0 < ?w" using assms(2) by (auto simp: jz_type_unary_def type_is_valid_def word_less_nat_alt split: if_splits)
  have pw: "0 < width x" unfolding A(3) using p by (simp only: of_nat_0_less_iff)
  have n: "is_number (sim_val_not x) ?w (2 ^ ?w - 1 - a)" "is_number (sim_val_neg x) ?w ((2 ^ ?w - a) mod 2 ^ ?w)"
    "is_number (sim_val_logical_not x) 1 (of_bool (a = 0))"
    using not_known [OF A(1,2)] sim_val_not_bits [OF A(1)] sim_val_neg_known [OF A(1,2) pw] A(3,4) p logical_numbers(3) [OF assms(3,3)]
    by (simp_all add: is_number_def)
  consider "k = ''POS''" "op = JZ_UNARY_PLUS" | "k = ''NEG''" "op = JZ_UNARY_MINUS" | "k = ''BIT_NOT''" "op = JZ_UNARY_BIT_NOT"
    | "k = ''LOG_NOT''" "op = JZ_UNARY_LOGICAL_NOT"
    using assms(1) by (auto simp: unary_op_of_def split: if_splits)
  then show ?thesis
    using assms(2,3) n number_sized(2) [OF n(1) p] number_sized(2) [OF n(2) p]
    by cases (auto simp: ir_map_unary_kind_def jz_type_unary_def jz_type_scalar_def unary_meaning_def eval_unary_def split: if_splits)
qed

section \<open>Concatenations, slices and ternaries\<close>

definition bits_of :: "nat \<Rightarrow> nat \<Rightarrow> bit4 list" where
  "bits_of w v = map (\<lambda>n. if bit v n then B1 else B0) [0..<w]"

lemma sim_bits_number: "is_number x w v \<Longrightarrow> sim_bits x = bits_of w v"
  by (rule nth_equalityI) (simp_all add: bits_of_def is_numberD number_bit)

lemma number_from_sim_bits:
  assumes "sim_val_wf x" "sim_bits x = bits_of w v" "v < 2 ^ w"
  shows "is_number x w v"
proof (rule number_from_bits [OF assms(1) _ _ assms(3)])
  have "length (sim_bits x) = w" by (simp only: assms(2)) (simp add: bits_of_def)
  then show w: "width x = int w" using sim_val_wfD(1) [OF assms(1)] by simp
  show "sim_bit x n = (if bit v n then B1 else B0)" if "n < w" for n
    using nth_sim_bits [of n x] that w by (simp add: assms(2) bits_of_def)
qed

lemma bits_of_append:
  assumes "a < 2 ^ k"
  shows "bits_of k a @ bits_of w b = bits_of (k + w) (b * 2 ^ k + a)"
proof (rule nth_equalityI)
  show "length (bits_of k a @ bits_of w b) = length (bits_of (k + w) (b * 2 ^ k + a))" by (simp add: bits_of_def)
next
  fix i assume i: "i < length (bits_of k a @ bits_of w b)"
  have lo: "bit (b * 2 ^ k + a) i = bit a i" if "i < k"
  proof -
    have "take_bit k (b * 2 ^ k + a) = take_bit k a" by (simp add: take_bit_eq_mod)
    then show ?thesis using that by (metis bit_take_bit_iff)
  qed
  have hi: "bit (b * 2 ^ k + a) i = bit b (i - k)" if "\<not> i < k"
  proof -
    have "drop_bit k (b * 2 ^ k + a) = b" using assms by (simp add: drop_bit_eq_div)
    then have "bit b (i - k) = bit (drop_bit k (b * 2 ^ k + a)) (i - k)" by simp
    then show ?thesis using that by (simp add: bit_drop_bit_eq)
  qed
  show "(bits_of k a @ bits_of w b) ! i = bits_of (k + w) (b * 2 ^ k + a) ! i"
    using i lo hi by (auto simp: bits_of_def nth_append)
qed

text \<open>The operands of a concatenation, the first one highest.\<close>

fun concat_meaning :: "(nat \<times> nat) list \<Rightarrow> nat" where
  "concat_meaning [] = 0"
| "concat_meaning ((w, v) # ps) = v * 2 ^ sum_list (map fst ps) + concat_meaning ps"

lemma concat_meaning_less:
  "list_all (\<lambda>(w, v). v < 2 ^ w) ps \<Longrightarrow> concat_meaning ps < 2 ^ sum_list (map fst ps)"
proof (induction ps rule: concat_meaning.induct)
  case 1
  show ?case by simp
next
  case (2 w v ps)
  have "v * 2 ^ sum_list (map fst ps) + concat_meaning ps < (v + 1) * 2 ^ sum_list (map fst ps)" using 2 by simp
  also have "\<dots> \<le> 2 ^ w * 2 ^ sum_list (map fst ps)" using 2(2) by (intro mult_le_mono1) simp
  finally show ?case by (simp add: power_add)
qed

lemma concat_numbers:
  assumes "list_all2 (\<lambda>x (w, v). is_number x w v) xs ps" "sum_list (map fst ps) \<le> 256"
  shows "is_number (sim_val_concat xs) (sum_list (map fst ps)) (concat_meaning ps)"
proof -
  have wf: "sim_val_wf v" if "v \<in> set xs" for v using assms(1) that
    by (induction rule: list_all2_induct) (auto simp: is_number_def)
  have b: "concat (map sim_bits (rev xs)) = bits_of (sum_list (map fst ps)) (concat_meaning ps) \<and> list_all (\<lambda>(w, v). v < 2 ^ w) ps"
    using assms(1)
  proof (induction rule: list_all2_induct)
    case Nil
    show ?case by (simp add: bits_of_def)
  next
    case (Cons x xs p ps)
    then show ?case using bits_of_append [OF concat_meaning_less, of ps] sim_bits_number is_numberD(5)
      by (cases p) (auto simp: add.commute)
  qed
  have "take 256 (bits_of (sum_list (map fst ps)) (concat_meaning ps)) = bits_of (sum_list (map fst ps)) (concat_meaning ps)"
    using assms(2) by (simp add: bits_of_def)
  then show ?thesis
    using sim_val_concat_bits [of xs, OF wf] b concat_meaning_less [of ps] by (intro number_from_sim_bits) simp_all
qed

lemma slice_number:
  assumes "is_number x w v" "l \<le> m" "m < w"
  shows "is_number (sim_val_slice x (int m) (int l)) (m - l + 1) (v div 2 ^ l mod 2 ^ (m - l + 1))"
proof (rule number_from_bits)
  note a = is_numberD [OF assms(1)]
  note S = sim_val_slice_bits [OF a(1), of "int l" "int m"]
  show "sim_val_wf (sim_val_slice x (int m) (int l))" using S(1) assms(2,3) a(6) by simp
  show "width (sim_val_slice x (int m) (int l)) = int (m - l + 1)" using S(2) assms(2,3) a(6) by simp
  show "v div 2 ^ l mod 2 ^ (m - l + 1) < 2 ^ (m - l + 1)" by simp
  fix n assume n: "n < m - l + 1"
  have "sim_bit (sim_val_slice x (int m) (int l)) n = sim_bit x (l + n)" using S(3) [of n] assms(2,3) a(6) n by simp
  moreover have "bit (v div 2 ^ l mod 2 ^ (m - l + 1)) n = bit v (l + n)"
  proof -
    have "v div 2 ^ l mod 2 ^ (m - l + 1) = take_bit (m - l + 1) (drop_bit l v)" by (simp only: take_bit_eq_mod drop_bit_eq_div)
    then show ?thesis using n by (simp only:) (simp add: bit_take_bit_iff bit_drop_bit_eq)
  qed
  ultimately show "sim_bit (sim_val_slice x (int m) (int l)) n = (if bit (v div 2 ^ l mod 2 ^ (m - l + 1)) n then B1 else B0)"
    by (simp add: number_bit [OF assms(1)])
qed

lemma ternary_number:
  assumes "is_number c k cv" "is_number x w a" "is_number y w b"
  shows "is_number (sim_val_ternary c x y) w (if cv \<noteq> 0 then a else b)"
  using assms is_numberD [OF assms(1)] by (simp add: sim_val_ternary_def sim_val_is_true_eq Let_def)

end
