(* ===== verification/Sem_Expr_Meaning.thy ===== *)
theory Sem_Expr_Meaning
  imports Sem_Expr_Value
begin

text \<open>
  The meaning of a checked expression and the correctness of its lowering: the evaluator computes,
  from the lowered node, the number the expression means.
\<close>

section \<open>The meaning of an expression\<close>

definition literal_number :: "string \<Rightarrow> nat option" where
  "literal_number s =
     (case drop (length (takeWhile (\<lambda>c. c \<noteq> quote) s) + 1) s of
        [] \<Rightarrow> None
      | b # ds \<Rightarrow> map_option (\<lambda>base. literal_value base ds) (numeric_base b))"

definition driver_of :: "JZExpr \<Rightarrow> string option" where
  "driver_of e = (case e of AST_SPECIAL_DRIVER k \<Rightarrow> Some k | _ \<Rightarrow> None)"

definition driver_meaning :: "nat \<Rightarrow> string \<Rightarrow> nat" where
  "driver_meaning w k = (if k = ''VCC'' then 2 ^ w - 1 else 0)"

fun expr_meaning :: "ExprScope \<Rightarrow> (string \<Rightarrow> nat) \<Rightarrow> JZExpr \<Rightarrow> nat option"
and concat_parts :: "ExprScope \<Rightarrow> (string \<Rightarrow> nat) \<Rightarrow> JZExpr list \<Rightarrow> (nat \<times> nat) list option" where
  "expr_meaning sc env (AST_LITERAL s) = literal_number s"
| "expr_meaning sc env (AST_SPECIAL_DRIVER k) = None"
| "expr_meaning sc env (AST_IDENTIFIER n) = Some (env n)"
| "expr_meaning sc env (AST_UNARY k e) =
     Option.bind (unary_op_of k) (\<lambda>op. map_option (unary_meaning op (unat (width_of sc e))) (expr_meaning sc env e))"
| "expr_meaning sc env (AST_BINARY k l r) =
     Option.bind (binary_op_of k) (\<lambda>(op, _). Option.bind (expr_meaning sc env l) (\<lambda>a. Option.bind (expr_meaning sc env r) (\<lambda>b.
       binary_meaning op (unat (width_of sc l)) a b)))"
| "expr_meaning sc env (AST_TERNARY c t f) =
     (let w = unat (width_of sc (AST_TERNARY c t f))
      in Option.bind (expr_meaning sc env c) (\<lambda>cv.
           Option.bind (case driver_of t of Some k \<Rightarrow> Some (driver_meaning w k) | None \<Rightarrow> expr_meaning sc env t) (\<lambda>a.
             Option.bind (case driver_of f of Some k \<Rightarrow> Some (driver_meaning w k) | None \<Rightarrow> expr_meaning sc env f) (\<lambda>b.
               Some (if cv \<noteq> 0 then a else b)))))"
| "expr_meaning sc env (AST_CONCAT es) = map_option concat_meaning (concat_parts sc env es)"
| "expr_meaning sc env (AST_SLICE base msb lsb) =
     Option.bind (literal_index msb) (\<lambda>m. Option.bind (literal_index lsb) (\<lambda>l.
       map_option (\<lambda>v. v div 2 ^ unat l mod 2 ^ (unat m - unat l + 1)) (expr_meaning sc env base)))"
| "concat_parts sc env [] = Some []"
| "concat_parts sc env (e # es) =
     Option.bind (expr_meaning sc env e) (\<lambda>v. map_option (\<lambda>ps. (unat (width_of sc e), v) # ps) (concat_parts sc env es))"

section \<open>The expressions the lowering keeps\<close>

text \<open>
  Literals as the lexer accepts them, with fewer than 256 digits, not all z, and below 2^64 if
  decimal; identifiers that name signals; no multiplication, whose upper half the simulator loses;
  and VCC as the branch of a ternary of at most 64 bits.
\<close>

definition plain_literal :: "string \<Rightarrow> bool" where
  "plain_literal s =
     (let ws = takeWhile (\<lambda>c. c \<noteq> quote) s; ds = drop (length ws + 2) s
      in case parse_numeric_literal s of
           Inr (Some info) \<Rightarrow> length ws < 32 \<and> length ds < 256 \<and> \<not> all_z_digits ds \<and>
             (num_base info = JZ_NUM_BASE_DEC \<longrightarrow> literal_value (num_base info) ds < 2 ^ 64)
         | _ \<Rightarrow> False)"

fun plain :: "ExprScope \<Rightarrow> JZExpr \<Rightarrow> bool" where
  "plain sc (AST_LITERAL s) = plain_literal s"
| "plain sc (AST_SPECIAL_DRIVER k) = True"
| "plain sc (AST_IDENTIFIER n) = names_signal sc n"
| "plain sc (AST_UNARY k e) = plain sc e"
| "plain sc (AST_BINARY k l r) = (k \<noteq> ''MUL'' \<and> plain sc l \<and> plain sc r)"
| "plain sc (AST_TERNARY c t f) =
     (plain sc c \<and> plain sc t \<and> plain sc f \<and>
      (width_of sc (AST_TERNARY c t f) \<le> 64 \<or> (driver_of t \<noteq> Some ''VCC'' \<and> driver_of f \<noteq> Some ''VCC'')))"
| "plain sc (AST_CONCAT es) = list_all (plain sc) es"
| "plain sc (AST_SLICE base msb lsb) = plain sc base"

text \<open>The frame holds a known number for every signal, as wide as the signal is declared.\<close>

definition frame_holds :: "ExprScope \<Rightarrow> (string \<Rightarrow> nat) \<Rightarrow> SimFrame \<Rightarrow> bool" where
  "frame_holds sc env f \<longleftrightarrow> (\<forall>n sb. module_scope_lookup (scope_symbols sc) n = Some sb \<longrightarrow> is_signal_kind (sym_kind sb) \<longrightarrow>
     0 < width_of sc (AST_IDENTIFIER n) \<longrightarrow>
     (\<exists>k. sim_ctx_lookup f (sym_id sb) = Some k \<and>
          is_number (current (signals f ! k)) (unat (width_of sc (AST_IDENTIFIER n))) (env n)))"

section \<open>Leaves\<close>

lemma literal_number_correct:
  assumes "sized sc (AST_LITERAL s)" "plain_literal s"
  shows "\<exists>v. literal_number s = Some v \<and>
    is_number (expr_value f (fst (lower_literal sc (width_of sc (AST_LITERAL s)) s))) (unat (width_of sc (AST_LITERAL s))) v"
proof -
  let ?w = "width_of sc (AST_LITERAL s)"
  have w: "0 < ?w" "?w \<le> 256" using assms(1) by (simp_all add: sized_def)
  have k: "0 < bv_width (fst (infer_literal_type s))" using w(1) by (simp add: width_of_def type_of_literal)
  obtain info where info: "parse_numeric_literal s = Inr (Some info)"
    using assms(2) by (auto simp: plain_literal_def Let_def split: sum.splits option.splits)
  have "quote \<in> set s"
  proof (rule ccontr)
    assume "quote \<notin> set s"
    then have t: "takeWhile (\<lambda>c. c \<noteq> quote) s = s" by (auto simp only: takeWhile_eq_all_conv)
    show False using info [unfolded parse_numeric_literal_def Let_def t] by simp
  qed
  then obtain ws b ds wd where l: "s = ws @ quote # b # ds" "quote \<notin> set ws" "parse_simple_positive_int ws = Some wd"
      "fst (infer_literal_type s) = jz_type_scalar wd False"
    using infer_literal_known [OF k] by blast
  have wd: "wd = ?w" using l(4) by (simp add: width_of_def type_of_literal jz_type_scalar_def)
  have tw: "takeWhile (\<lambda>c. c \<noteq> quote) s = ws" unfolding l(1) using l(2) by (subst takeWhile_append2) auto
  have dr: "drop (length ws + 2) s = ds" "drop (length ws + 1) s = b # ds" by (simp_all add: l(1))
  have p: "length ws < 32" "length ds < 256" "\<not> all_z_digits ds"
      "num_base info = JZ_NUM_BASE_DEC \<longrightarrow> literal_value (num_base info) ds < 2 ^ 64"
    using assms(2) [unfolded plain_literal_def Let_def tw dr(1)] info by simp_all
  note info' = info [unfolded l(1)]
  have nb: "numeric_base b = Some (num_base info)" by (rule accepted_literal(1) [OF info' l(2)])
  have u: "unat wd \<le> 256" using w(2) by (simp add: wd word_le_nat_alt)
  note L = literal_correct [OF info' l(2,3) p(1,2) u p(4), of "const_value sc", folded l(1)]
  have "fits (num_base info) ds (unat wd)"
    using L k by (auto split: if_splits)
  then obtain lit where lit: "ir_decode_sized_literal (const_value sc) s = Some lit" "lit_width lit = int (unat wd)"
      "\<not> lit_is_z lit" "known (eval_literal (int (unat wd)) lit)" "width (eval_literal (int (unat wd)) lit) = int (unat wd)"
      "uval (eval_literal (int (unat wd)) lit) = literal_value (num_base info) ds"
    using L p(3) by auto
  have "literal_number s = Some (literal_value (num_base info) ds)"
    using dr(2) by (simp add: literal_number_def tw nb)
  moreover have "sim_val_wf (eval_literal (int (unat wd)) lit)"
    using literal_typed [of lit "int (unat wd)"] lit(2) u by (simp add: typed_def del: of_nat_unat)
  moreover have "?w \<noteq> 0" "sint ?w = int (unat wd)" using w sint_small(2) [OF u] by (auto simp: wd)
  ultimately show ?thesis using lit wd by (simp add: lower_literal_def is_number_def)
qed

lemma driver_number:
  assumes "0 < w" "w \<le> 256" "k = ''VCC'' \<longrightarrow> w \<le> 64"
  shows "is_number (expr_value f (set_driver_width w (lower_driver k))) (unat w) (driver_meaning (unat w) k)"
    "\<not> expr_raises f (set_driver_width w (lower_driver k))"
proof -
  let ?ws = "[if k = ''VCC'' then UINT64_MAX else 0, 0, 0, 0]"
  have s: "sint w = int (unat w)" "unat w \<le> 256" using small_sint [OF assms(2)] assms(2) by (simp_all add: word_le_nat_alt)
  have n: "0 < unat w" "int (unat w) \<noteq> 0" using assms(1) by (simp_all add: word_less_nat_alt unsigned_eq_0_iff word_neq_0_conv del: of_nat_unat)
  have e: "set_driver_width w (lower_driver k) = EXPR_LITERAL (sint w) \<lparr>lit_words = ?ws, lit_width = sint w, lit_is_z = False\<rparr>"
    using assms(1) by (simp add: set_driver_width_def lower_driver_def Let_def)
  have v: "expr_value f (set_driver_width w (lower_driver k)) = sim_val_from_words ?ws 4 (int (unat w))"
    unfolding e using n by (simp add: eval_literal_def Let_def s del: of_nat_unat)
  have "uval (sim_val_from_words ?ws 4 (int (unat w))) = wval ?ws mod 2 ^ unat w"
    using uval_from_words [where ws = ?ws and w = "int (unat w)"] s(2) by (simp del: of_nat_unat wval.simps)
  also have "\<dots> = driver_meaning (unat w) k"
  proof (cases "k = ''VCC''")
    case True
    then have "unat w \<le> 64" using assms(3) by (simp add: word_le_nat_alt)
    then have "take_bit (unat w) (mask 64 :: nat) = mask (unat w)" by (intro bit_eqI) (auto simp: bit_take_bit_iff bit_mask_iff)
    then have "(2 ^ 64 - 1 :: nat) mod 2 ^ unat w = 2 ^ unat w - 1" by (simp only: take_bit_eq_mod mask_eq_exp_minus_1)
    moreover have "wval ?ws = 2 ^ 64 - 1" using True by (simp add: unsigned_minus_1_eq_mask mask_eq_exp_minus_1)
    ultimately show ?thesis using True by (simp only: driver_meaning_def simp_thms if_True)
  qed (simp add: driver_meaning_def)
  finally show "is_number (expr_value f (set_driver_width w (lower_driver k))) (unat w) (driver_meaning (unat w) k)"
    unfolding v is_number_def using s(2) by (simp add: known_from_words del: of_nat_unat)
  show "\<not> expr_raises f (set_driver_width w (lower_driver k))" by (simp add: e)
qed

lemma unnamed_node: "plain sc e \<Longrightarrow> checked sc e \<Longrightarrow> ir_build_expr sc d e = Some node \<Longrightarrow> snd node = None"
proof (induction e arbitrary: d node)
  case (AST_LITERAL s)
  then show ?case by (auto simp: build_literal lower_literal_def split: option.splits)
next
  case (AST_IDENTIFIER n)
  then show ?case by (auto simp: build_identifier bind_eq_Some_conv lower_identifier_def names_signal_def split: option.splits if_splits)
next
  case (AST_UNARY k e)
  then show ?case by (auto simp: build_unary bind_eq_Some_conv split: option.splits)
next
  case (AST_SLICE base msb lsb)
  have e: "ir_build_expr sc d (AST_SLICE base msb lsb) = Some node" by fact
  show ?case using e by (subst (asm) ir_build_expr.simps) (auto simp: Let_def split: option.splits if_splits)
qed (auto simp: build_simps bind_eq_Some_conv split: if_splits)

lemma signal_number:
  assumes "frame_holds sc env f" "names_signal sc n" "sized sc (AST_IDENTIFIER n)" "module_scope_lookup (scope_symbols sc) n = Some sb"
  obtains k where "sim_ctx_lookup f (sym_id sb) = Some k"
    "is_number (current (signals f ! k)) (unat (width_of sc (AST_IDENTIFIER n))) (env n)"
  using assms by (auto simp: frame_holds_def names_signal_def sized_def)

section \<open>The evaluator computes the meaning\<close>

definition computes :: "SimFrame \<Rightarrow> IR_Expr \<Rightarrow> u32 \<Rightarrow> nat \<Rightarrow> bool" where
  "computes f x w v \<longleftrightarrow> is_number (expr_value f x) (unat w) v \<and> \<not> expr_raises f x"

lemma computes_not_null: "computes f x w v \<Longrightarrow> x \<noteq> EXPR_NULL"
  by (auto simp: computes_def is_number_def all_x_unknown)

lemma unary_computes:
  assumes "sized sc (AST_UNARY k e)" "computes f (fst m) (width_of sc e) a" "unary_op_of k = Some op"
  shows "computes f (fst (case ir_map_unary_kind k of None \<Rightarrow> m | Some op' \<Rightarrow> (EXPR_UNARY op' (sint (width_of sc (AST_UNARY k e))) (fst m), None)))
    (width_of sc (AST_UNARY k e)) (unary_meaning op (unat (width_of sc e)) a)"
proof -
  let ?w = "width_of sc (AST_UNARY k e)"
  have w: "0 < ?w" "?w \<le> 256" using assms(1) by (simp_all add: sized_def)
  have "jz_type_unary op (type_of sc e) = Some (type_of sc (AST_UNARY k e))"
    using w(1) assms(3) by (auto simp: width_of_def type_of_unary infer_unary_type_def Let_def split: option.splits if_splits)
  moreover have "sint ?w = int (unat ?w)" using small_sint [OF w(2)] by simp
  ultimately show ?thesis
    using unary_number [OF assms(3)] assms(2) by (fastforce simp: computes_def width_of_def split: option.split)
qed

lemma binary_computes:
  assumes "sized sc (AST_BINARY k l r)" "computes f x (width_of sc l) a" "computes f y (width_of sc r) b"
    "binary_op_of k = Some (op, rule)" "k \<noteq> ''MUL''" "ir_map_binary_kind k = Some op'"
    "binary_meaning op (unat (width_of sc l)) a b = Some v"
  shows "computes f (EXPR_BINARY op' (sint (width_of sc (AST_BINARY k l r))) x y) (width_of sc (AST_BINARY k l r)) v"
proof -
  let ?w = "width_of sc (AST_BINARY k l r)"
  have w: "0 < ?w" "?w \<le> 256" using assms(1) by (simp_all add: sized_def)
  have t: "jz_type_binary op (type_of sc l) (type_of sc r) = Some (type_of sc (AST_BINARY k l r))"
    using w(1) assms(4) by (auto simp: width_of_def type_of_binary infer_binary_type_def split: option.splits if_splits)
  have "op \<noteq> JZ_BIN_MUL" using assms(4,5) by (auto simp: binary_op_of_def split: if_splits)
  moreover have "op' = ir_kind op" using kinds_agree [OF assms(4)] assms(6) by simp
  moreover have "sint ?w = int (unat ?w)" using small_sint [OF w(2)] by simp
  ultimately show ?thesis
    using binary_number [OF _ t, of "expr_value f x" a "expr_value f y" b v] assms(2,3,7) by (simp add: computes_def width_of_def)
qed

lemma branch_computes:
  assumes "sized sc e" "is_special_driver t \<or> checked sc t" "plain sc t" "driver_of t = Some ''VCC'' \<longrightarrow> width_of sc e \<le> 64"
    "ir_build_expr sc d t = Some node" "\<not> is_special_driver t \<longrightarrow> width_of sc t = width_of sc e"
    "(case driver_of t of Some k \<Rightarrow> Some (driver_meaning (unat (width_of sc e)) k) | None \<Rightarrow> expr_meaning sc env t) = Some v"
    "\<not> is_special_driver t \<Longrightarrow> expr_meaning sc env t = Some v \<Longrightarrow> computes f (fst node) (width_of sc t) v"
  shows "computes f (set_driver_width (width_of sc e) node) (width_of sc e) v"
proof (cases "is_special_driver t")
  case True
  then obtain k where t: "t = AST_SPECIAL_DRIVER k" by (cases t) (simp_all add: is_special_driver_def)
  have n: "node = lower_driver k" using assms(5) by (auto simp: t build_driver)
  show ?thesis using driver_number [of "width_of sc e" k f] assms(1,4,7) by (auto simp: n t computes_def driver_of_def sized_def)
next
  case False
  then have m: "driver_of t = None" by (cases t) (simp_all add: driver_of_def is_special_driver_def)
  have "snd node = None" using unnamed_node [OF assms(3) _ assms(5)] assms(2) False by simp
  then have "set_driver_width (width_of sc e) node = fst node"
    by (auto simp: set_driver_width_def split: prod.split IR_Expr.split)
  then show ?thesis using assms(6,7,8) False m by simp
qed

lemma ternary_computes:
  assumes "computes f c w' cv" "computes f x w a" "computes f y w b"
  shows "computes f (EXPR_TERNARY k c x y) w (if cv \<noteq> 0 then a else b)"
proof -
  have "\<not> sim_val_has_xz (expr_value f c)"
    using assms(1) is_numberD [of "expr_value f c"] by (auto simp: computes_def has_xz_iff_known)
  then show ?thesis using assms ternary_number [of "expr_value f c" "unat w'" cv "expr_value f x" "unat w" a "expr_value f y" b] by (simp add: computes_def)
qed

lemma concat_computes:
  assumes "sized sc (AST_CONCAT es)" "length es \<le> 16" "list_all (checked sc) es"
    "concat_parts sc env es = Some ps" "list_all2 (\<lambda>x (w, v). is_number x w v) (expr_values f 64 ns) ps" "\<not> exprs_raise f 64 ns"
  shows "computes f (EXPR_CONCAT k ns) (width_of sc (AST_CONCAT es)) (concat_meaning ps)"
proof -
  let ?w = "width_of sc (AST_CONCAT es)"
  have "map fst ps = map (\<lambda>e. unat (width_of sc e)) es" using assms(4)
    by (induction es arbitrary: ps) (auto simp: bind_eq_Some_conv)
  moreover have "int (sum_list (map (\<lambda>e. unat (width_of sc e)) es)) = sum_list (map (\<lambda>e. uint (width_of sc e)) es)"
    by (induction es) simp_all
  ultimately have "int (sum_list (map fst ps)) = sum_list (map (\<lambda>e. uint (width_of sc e)) es)" by simp
  then have s: "sum_list (map fst ps) = unat ?w" using concat_width [OF assms(1-3)] by (metis nat_int unat_eq_nat_uint)
  moreover have "unat ?w \<le> 256" using assms(1) by (simp add: sized_def word_le_nat_alt)
  ultimately show ?thesis using concat_numbers [OF assms(5)] assms(6) by (simp add: computes_def)
qed

lemma slice_numbers:
  assumes "is_number x (unat w) v" "l \<le> m" "m < w"
  shows "is_number (sim_val_slice x (sint (m :: u32)) (sint l)) (unat (m - l + 1)) (v div 2 ^ unat l mod 2 ^ (unat m - unat l + 1))"
proof -
  have "w \<le> 256" using is_numberD(6) [OF assms(1)] by (simp add: word_le_nat_alt)
  then have "m \<le> 256" "l \<le> 256" using assms(2,3) by simp_all
  then have s: "sint m = int (unat m)" "sint l = int (unat l)" using small_sint by simp_all
  have n: "unat l \<le> unat m" "unat m < unat w" using assms(2,3) by (simp_all add: word_le_nat_alt word_less_nat_alt)
  have "unat (m - l) = unat m - unat l" using assms(2) by (rule unat_sub)
  moreover have "unat m < 256" using n(2) is_numberD(6) [OF assms(1)] by simp
  ultimately have "unat (m - l + 1) = unat m - unat l + 1" by (simp add: unat_word_ariths)
  then show ?thesis using slice_number [OF assms(1) n] s by simp
qed

theorem lowered_meaning:
  assumes "no_mux sc" "frame_holds sc env f"
  shows "checked sc e \<Longrightarrow> plain sc e \<Longrightarrow> ir_build_expr sc d e = Some node \<Longrightarrow> expr_meaning sc env e = Some v \<Longrightarrow>
    computes f (fst node) (width_of sc e) v"
proof (induction e arbitrary: d node v)
  case (AST_LITERAL s)
  have "node = lower_literal sc (width_of sc (AST_LITERAL s)) s" using AST_LITERAL.prems(3) by (auto simp: build_literal)
  then show ?case using literal_number_correct [of sc s f] AST_LITERAL.prems
    by (auto simp: computes_def lower_literal_def split: option.splits)
next
  case (AST_SPECIAL_DRIVER k)
  then show ?case by simp
next
  case (AST_IDENTIFIER n)
  have z: "names_signal sc n" "sized sc (AST_IDENTIFIER n)" "v = env n" using AST_IDENTIFIER.prems by simp_all
  obtain sb where sb: "module_scope_lookup (scope_symbols sc) n = Some sb" "is_signal_kind (sym_kind sb)"
    using z(1) by (auto simp: names_signal_def split: option.splits)
  obtain k where k: "sim_ctx_lookup f (sym_id sb) = Some k" "is_number (current (signals f ! k)) (unat (width_of sc (AST_IDENTIFIER n))) (env n)"
    using signal_number [OF assms(2) z(1,2) sb(1)] by blast
  have "fst node = EXPR_SIGNAL_REF (sint (width_of sc (AST_IDENTIFIER n))) (sym_id sb)"
    using AST_IDENTIFIER.prems(3) sb by (auto simp: build_identifier bind_eq_Some_conv lower_identifier_def split: if_splits)
  then show ?case using k z(3) by (simp add: computes_def eval_signal_ref_def)
next
  case (AST_UNARY k e)
  have z: "sized sc (AST_UNARY k e)" "checked sc e" "plain sc e" using AST_UNARY.prems(1,2) by simp_all
  obtain d1 m where m: "ir_build_expr sc d1 e = Some m"
      "node = (case ir_map_unary_kind k of None \<Rightarrow> m | Some op \<Rightarrow> (EXPR_UNARY op (sint (width_of sc (AST_UNARY k e))) (fst m), None))"
    using AST_UNARY.prems(3) by (auto simp: build_unary bind_eq_Some_conv)
  obtain op a where a: "unary_op_of k = Some op" "expr_meaning sc env e = Some a" "v = unary_meaning op (unat (width_of sc e)) a"
    using AST_UNARY.prems(4) by (auto simp: bind_eq_Some_conv)
  show ?case using unary_computes [OF z(1) AST_UNARY.IH [OF z(2,3) m(1) a(2)] a(1)] a(3) m(2) by simp
next
  case (AST_BINARY k l r)
  have z: "sized sc (AST_BINARY k l r)" "checked sc l" "checked sc r" "k \<noteq> ''MUL''" "plain sc l" "plain sc r"
    using AST_BINARY.prems(1,2) by simp_all
  obtain d1 a b op' where m: "ir_build_expr sc d1 l = Some a" "ir_build_expr sc d1 r = Some b" "ir_map_binary_kind k = Some op'"
      "node = (EXPR_BINARY op' (sint (width_of sc (AST_BINARY k l r))) (fst a) (fst b), None)"
    using AST_BINARY.prems(3) by (auto simp: build_binary bind_eq_Some_conv)
  obtain op rl x y where o: "binary_op_of k = Some (op, rl)" "expr_meaning sc env l = Some x" "expr_meaning sc env r = Some y"
      "binary_meaning op (unat (width_of sc l)) x y = Some v"
    using AST_BINARY.prems(4) by (auto simp: bind_eq_Some_conv)
  show ?case
    using binary_computes [OF z(1) AST_BINARY.IH(1) [OF z(2,5) m(1) o(2)] AST_BINARY.IH(2) [OF z(3,6) m(2) o(3)] o(1) z(4) m(3) o(4)]
    by (simp add: m(4))
next
  case (AST_TERNARY c t g)
  let ?e = "AST_TERNARY c t g"
  have z: "sized sc ?e" "checked sc c" "is_special_driver t \<or> checked sc t" "is_special_driver g \<or> checked sc g"
      "plain sc c" "plain sc t" "plain sc g" "width_of sc ?e \<le> 64 \<or> (driver_of t \<noteq> Some ''VCC'' \<and> driver_of g \<noteq> Some ''VCC'')"
    using AST_TERNARY.prems(1,2) by simp_all
  obtain d1 x a b where m: "ir_build_expr sc d1 c = Some x" "ir_build_expr sc d1 t = Some a" "ir_build_expr sc d1 g = Some b"
      "node = (EXPR_TERNARY (sint (width_of sc ?e)) (fst x) (set_driver_width (width_of sc ?e) a) (set_driver_width (width_of sc ?e) b), None)"
    using AST_TERNARY.prems(3) by (auto simp: build_ternary bind_eq_Some_conv)
  obtain cv tv gv where v: "expr_meaning sc env c = Some cv"
      "(case driver_of t of Some k \<Rightarrow> Some (driver_meaning (unat (width_of sc ?e)) k) | None \<Rightarrow> expr_meaning sc env t) = Some tv"
      "(case driver_of g of Some k \<Rightarrow> Some (driver_meaning (unat (width_of sc ?e)) k) | None \<Rightarrow> expr_meaning sc env g) = Some gv"
      "v = (if cv \<noteq> 0 then tv else gv)"
    using AST_TERNARY.prems(4) by (auto simp: bind_eq_Some_conv Let_def)
  have wt: "\<not> is_special_driver t \<longrightarrow> width_of sc t = width_of sc ?e" "\<not> is_special_driver g \<longrightarrow> width_of sc g = width_of sc ?e"
    using ternary_width [OF z(1)] z(3,4) checked_sized [of sc t] checked_sized [of sc g] by (auto simp: sized_def)
  have d: "driver_of t = Some ''VCC'' \<longrightarrow> width_of sc ?e \<le> 64" "driver_of g = Some ''VCC'' \<longrightarrow> width_of sc ?e \<le> 64"
    using z(8) by blast+
  have "computes f (set_driver_width (width_of sc ?e) a) (width_of sc ?e) tv"
    by (rule branch_computes [OF z(1,3,6) d(1) m(2) wt(1) v(2)]) (use AST_TERNARY.IH(2) z(3,6) m(2) in blast)
  moreover have "computes f (set_driver_width (width_of sc ?e) b) (width_of sc ?e) gv"
    by (rule branch_computes [OF z(1,4,7) d(2) m(3) wt(2) v(3)]) (use AST_TERNARY.IH(3) z(4,7) m(3) in blast)
  ultimately show ?case using ternary_computes [OF AST_TERNARY.IH(1) [OF z(2,5) m(1) v(1)]] v(4) by (simp add: m(4))
next
  case (AST_CONCAT es)
  have z: "sized sc (AST_CONCAT es)" "length es \<le> 16" "list_all (checked sc) es" "list_all (plain sc) es"
    using AST_CONCAT.prems(1,2) by simp_all
  obtain d1 ns where m: "ir_build_elements sc d1 es = Some ns" "node = (EXPR_CONCAT (sint (width_of sc (AST_CONCAT es))) ns, None)"
    using AST_CONCAT.prems(3) by (auto simp: build_concat bind_eq_Some_conv split: if_splits)
  obtain ps where ps: "concat_parts sc env es = Some ps" "v = concat_meaning ps" using AST_CONCAT.prems(4) by auto
  have "list_all2 (\<lambda>x (w, v). is_number x w v) (expr_values f n ns) ps \<and> \<not> exprs_raise f n ns"
    if "ir_build_elements sc d1 xs = Some ns" "list_all (checked sc) xs" "list_all (plain sc) xs" "set xs \<subseteq> set es" "length xs \<le> n"
      "concat_parts sc env xs = Some ps" for xs ns n ps
    using that
  proof (induction xs arbitrary: ns n ps)
    case Nil
    then show ?case by (cases n) simp_all
  next
    case (Cons y ys)
    obtain a bs where b: "ir_build_expr sc d1 y = Some a" "ir_build_elements sc d1 ys = Some bs" "ns = fst a # bs"
      using Cons.prems(1) by (auto split: option.splits)
    obtain v qs where q: "expr_meaning sc env y = Some v" "concat_parts sc env ys = Some qs" "ps = (unat (width_of sc y), v) # qs"
      using Cons.prems(6) by (auto simp: bind_eq_Some_conv)
    obtain k where k: "n = Suc k" using Cons.prems(5) by (cases n) auto
    have "computes f (fst a) (width_of sc y) v"
      using AST_CONCAT.IH [of y d1 a v] Cons.prems(2,3,4) b(1) q(1) by simp
    then show ?case using Cons.IH [OF b(2), of k qs] Cons.prems(2-5) k b(3) q by (simp add: computes_def)
  qed
  from this [OF m(1) z(3,4) subset_refl _ ps(1), of 64] show ?case
    using concat_computes [OF z(1-3) ps(1)] z(2) by (simp add: m(2) ps(2))
next
  case (AST_SLICE base msb lsb)
  have z: "sized sc (AST_SLICE base msb lsb)" "checked sc base" "index_inside sc base msb" "plain sc base"
      "case identifier_name base of Some n \<Rightarrow> names_signal sc n | None \<Rightarrow> True"
    using AST_SLICE.prems(1,2) by simp_all
  obtain m l where b: "literal_index msb = Some m" "literal_index lsb = Some l" "l \<le> m"
      "width_of sc (AST_SLICE base msb lsb) = m - l + 1" "ir_eval_slice_bound sc msb = Some m" "ir_eval_slice_bound sc lsb = Some l"
    using slice_bounds [OF z(1) assms(1)] by blast
  obtain a where a: "expr_meaning sc env base = Some a" "v = a div 2 ^ unat l mod 2 ^ (unat m - unat l + 1)"
    using AST_SLICE.prems(4) b(1,2) by auto
  have i: "m < width_of sc base" using z(3) b(1) by (simp add: index_inside_def)
  show ?case
  proof (cases "identifier_name base")
    case None
    then obtain d1 x where x: "ir_build_expr sc d1 base = Some x"
        "node = (EXPR_SLICE (sint (m - l + 1)) (- 1) (fst x) (sint m) (sint l), None)"
      using AST_SLICE.prems(3) b(5,6) by (auto simp: build_slice [OF assms(1)] bind_eq_Some_conv)
    have c: "computes f (fst x) (width_of sc base) a" by (rule AST_SLICE.IH(1) [OF z(2,4) x(1) a(1)])
    then show ?thesis using slice_numbers [OF _ b(3) i] computes_not_null [OF c] b(4) a(2) by (simp add: computes_def x(2))
  next
    case (Some n)
    have base: "base = AST_IDENTIFIER n" using Some by (cases base) (simp_all add: identifier_name_def)
    obtain sb where sb: "module_scope_lookup (scope_symbols sc) n = Some sb"
        "node = (EXPR_SLICE (sint (width_of sc (AST_SLICE base msb lsb))) (sym_id sb) EXPR_NULL (sint m) (sint l), None)"
      using AST_SLICE.prems(3) b(5,6) Some by (auto simp: build_slice [OF assms(1)] bind_eq_Some_conv)
    have "names_signal sc n" "sized sc (AST_IDENTIFIER n)" using z(2,5) Some base by simp_all
    then obtain k where "sim_ctx_lookup f (sym_id sb) = Some k" "is_number (current (signals f ! k)) (unat (width_of sc base)) (env n)"
      using signal_number [OF assms(2) _ _ sb(1)] base by blast
    then show ?thesis using slice_numbers [OF _ b(3) i] a b(4) by (simp add: computes_def sb(2) base eval_slice_signal_def)
  qed
qed

end
