(* ===== verification/Sem_Expr_Total.thy ===== *)
theory Sem_Expr_Total
  imports Sem_Expr_Meaning
begin

text \<open>
  When the lowering returns a node: a checked expression is refused only for its height, by the
  depth guard of the lowering.
\<close>

section \<open>The height of an expression\<close>

text \<open>The number of nested calls of ir_build_expr; the base of a slice of a named signal is not visited.\<close>

fun expr_height :: "JZExpr \<Rightarrow> nat"
and elements_height :: "JZExpr list \<Rightarrow> nat" where
  "expr_height (AST_UNARY k e) = Suc (expr_height e)"
| "expr_height (AST_BINARY k l r) = Suc (max (expr_height l) (expr_height r))"
| "expr_height (AST_TERNARY c t f) = Suc (max (expr_height c) (max (expr_height t) (expr_height f)))"
| "expr_height (AST_CONCAT es) = Suc (elements_height es)"
| "expr_height (AST_SLICE base msb lsb) = Suc (case identifier_name base of Some _ \<Rightarrow> 0 | None \<Rightarrow> expr_height base)"
| "expr_height e = 1"
| "elements_height [] = 0"
| "elements_height (e # es) = max (expr_height e) (elements_height es)"

text \<open>An operand is checked, or is GND or VCC as the branch of a ternary.\<close>

definition operand_ok :: "ExprScope \<Rightarrow> JZExpr \<Rightarrow> bool" where
  "operand_ok sc e \<longleftrightarrow> (checked sc e \<or> is_special_driver e) \<and> plain sc e"

lemma enter_depth_eq: "enter_depth d = (if unat d < 512 then Some (d + 1) else None)"
proof -
  have "unat d < 2 ^ 32" using unsigned_less [of d] by simp
  then have "unat (ucast d :: u64) = unat d" by (simp add: unsigned_ucast_eq take_bit_nat_eq_self)
  then show ?thesis by (simp add: enter_depth_def jz_depth_enter_checked_def Let_def word_le_nat_alt not_le)
qed

lemma enter_depth_step: "enter_depth d = Some d1 \<Longrightarrow> unat d1 = Suc (unat d)"
  by (auto simp: enter_depth_eq unat_word_ariths split: if_splits)

lemma expr_height_pos: "0 < expr_height e"
  by (cases e) simp_all

lemma elements_height_pos: "es \<noteq> [] \<Longrightarrow> 0 < elements_height es"
  by (cases es) (simp_all add: expr_height_pos less_max_iff_disj)

lemma sized_unary_kind: "sized sc (AST_UNARY k e) \<Longrightarrow> \<exists>op. unary_op_of k = Some op"
  by (auto simp: sized_def width_of_def type_of_unary infer_unary_type_def split: option.splits if_splits)

lemma sized_binary_kind: "sized sc (AST_BINARY k l r) \<Longrightarrow> \<exists>op'. ir_map_binary_kind k = Some op'"
  using kinds_agree by (fastforce simp: sized_def width_of_def type_of_binary infer_binary_type_def split: option.splits if_splits)

text \<open>A node is built when its operands are.\<close>

lemma bind_built:
  "Option.bind a f \<noteq> None \<longleftrightarrow> (\<exists>x. a = Some x \<and> f x \<noteq> None)"
  by (cases a) simp_all

lemma entered: "(\<exists>d1. enter_depth d = Some d1 \<and> P d1) \<longleftrightarrow> unat d < 512 \<and> P (d + 1)"
  by (simp add: enter_depth_eq)

lemma all_built:
  "Option.bind a (\<lambda>x. Option.bind b (\<lambda>y. Some (g x y))) \<noteq> None \<longleftrightarrow> a \<noteq> None \<and> b \<noteq> None"
  "Option.bind a (\<lambda>x. Option.bind b (\<lambda>y. Option.bind c (\<lambda>z. Some (h x y z)))) \<noteq> None \<longleftrightarrow> a \<noteq> None \<and> b \<noteq> None \<and> c \<noteq> None"
  by (cases a; cases b; cases c; simp)+

lemma next_depth: "unat d < 512 \<Longrightarrow> unat (d + 1 :: u32) = Suc (unat d)"
  by (simp add: unat_word_ariths)

lemma add_max_le: "(n :: nat) + max a b \<le> m \<longleftrightarrow> n + a \<le> m \<and> n + b \<le> m"
  by (simp add: nat_add_max_right)

lemma deeper: "0 < h \<Longrightarrow> (unat (d :: u32) < 512 \<and> unat (d + 1) + h \<le> 512) = (unat d + Suc h \<le> 512)"
  by (auto simp: next_depth)

theorem lowered_total:
  assumes "no_mux sc"
  shows "operand_ok sc e \<Longrightarrow> ir_build_expr sc d e \<noteq> None \<longleftrightarrow> unat d + expr_height e \<le> 512"
proof (induction e arbitrary: d)
  case (AST_LITERAL s)
  show ?case by (auto simp: build_literal enter_depth_eq)
next
  case (AST_SPECIAL_DRIVER k)
  show ?case by (auto simp: build_driver enter_depth_eq)
next
  case (AST_IDENTIFIER n)
  then have "lower_identifier sc w n \<noteq> None" for w
    by (auto simp: operand_ok_def is_special_driver_def names_signal_def lower_identifier_def split: option.splits)
  then show ?case by (auto simp: build_identifier enter_depth_eq)
next
  case (AST_UNARY k e)
  have z: "operand_ok sc e" using AST_UNARY.prems by (auto simp: operand_ok_def is_special_driver_def)
  have "ir_build_expr sc d (AST_UNARY k e) \<noteq> None \<longleftrightarrow> unat d < 512 \<and> unat (d + 1) + expr_height e \<le> 512"
    unfolding build_unary bind_built entered AST_UNARY.IH [OF z, symmetric] by simp
  then show ?case using deeper [OF expr_height_pos, of d e] by simp
next
  case (AST_BINARY k l r)
  have z: "operand_ok sc l" "operand_ok sc r" "sized sc (AST_BINARY k l r)"
    using AST_BINARY.prems by (auto simp: operand_ok_def is_special_driver_def)
  obtain op' where o: "ir_map_binary_kind k = Some op'" using sized_binary_kind [OF z(3)] by blast
  have "ir_build_expr sc d (AST_BINARY k l r) \<noteq> None \<longleftrightarrow> unat d < 512 \<and> unat (d + 1) + max (expr_height l) (expr_height r) \<le> 512"
    unfolding build_binary bind_built [of "enter_depth d"] entered o bind.bind_lunit all_built(1)
    using AST_BINARY.IH(1) [OF z(1), of "d + 1"] AST_BINARY.IH(2) [OF z(2), of "d + 1"] by (simp only: add_max_le)
  then show ?case using deeper [of "max (expr_height l) (expr_height r)" d] expr_height_pos [of l] by (simp add: less_max_iff_disj)
next
  case (AST_TERNARY c t f)
  have z: "operand_ok sc c" "operand_ok sc t" "operand_ok sc f"
    using AST_TERNARY.prems by (auto simp: operand_ok_def is_special_driver_def)
  have "ir_build_expr sc d (AST_TERNARY c t f) \<noteq> None \<longleftrightarrow>
      unat d < 512 \<and> unat (d + 1) + max (expr_height c) (max (expr_height t) (expr_height f)) \<le> 512"
    unfolding build_ternary bind_built [of "enter_depth d"] entered all_built(2)
    using AST_TERNARY.IH(1) [OF z(1), of "d + 1"] AST_TERNARY.IH(2) [OF z(2), of "d + 1"] AST_TERNARY.IH(3) [OF z(3), of "d + 1"]
    by (simp only: add_max_le)
  then show ?case using deeper [of "max (expr_height c) (max (expr_height t) (expr_height f))" d] expr_height_pos [of c]
    by (simp add: less_max_iff_disj)
next
  case (AST_CONCAT es)
  have z: "list_all (operand_ok sc) es" using AST_CONCAT.prems by (auto simp: operand_ok_def is_special_driver_def list_all_iff)
  have "sized sc (AST_CONCAT es)" using AST_CONCAT.prems by (auto simp: operand_ok_def is_special_driver_def)
  then have ne: "es \<noteq> []" by (auto simp: sized_def width_of_def type_of_def)
  have "ir_build_elements sc d1 xs \<noteq> None \<longleftrightarrow> unat d1 + elements_height xs \<le> 512"
    if "unat d1 \<le> 512" "list_all (operand_ok sc) xs" "set xs \<subseteq> set es" for xs d1
    using that
  proof (induction xs)
    case (Cons y ys)
    then show ?case using AST_CONCAT.IH [of y d1] by (auto split: option.split)
  qed simp
  note elements = this [OF _ z subset_refl]
  have "ir_build_expr sc d (AST_CONCAT es) \<noteq> None \<longleftrightarrow> unat d < 512 \<and> unat (d + 1) + elements_height es \<le> 512"
    unfolding build_concat bind_built entered using ne elements [of "d + 1"] next_depth [of d] by auto
  then show ?case using deeper [OF elements_height_pos [OF ne], of d] by simp
next
  case (AST_SLICE base msb lsb)
  have z: "operand_ok sc base" "sized sc (AST_SLICE base msb lsb)" "case identifier_name base of Some n \<Rightarrow> names_signal sc n | None \<Rightarrow> True"
    using AST_SLICE.prems by (auto simp: operand_ok_def is_special_driver_def)
  obtain m l where b: "ir_eval_slice_bound sc msb = Some m" "ir_eval_slice_bound sc lsb = Some l"
    using slice_bounds [OF z(2) assms] by blast
  show ?case
  proof (cases "identifier_name base")
    case None
    have "ir_build_expr sc d (AST_SLICE base msb lsb) \<noteq> None \<longleftrightarrow> unat d < 512 \<and> unat (d + 1) + expr_height base \<le> 512"
      unfolding build_slice [OF assms] bind_built [of "enter_depth d"] entered AST_SLICE.IH(1) [OF z(1), symmetric]
      using None b by (auto simp: bind_eq_Some_conv)
    then show ?thesis using deeper [OF expr_height_pos, of d base] None by simp
  next
    case (Some n)
    then obtain sb where "module_scope_lookup (scope_symbols sc) n = Some sb" using z(3) by (auto simp: names_signal_def split: option.splits)
    then show ?thesis using Some b by (auto simp: build_slice [OF assms] enter_depth_eq)
  qed
qed

end
