(* ===== verification/Sim_Value_Props.thy ===== *)
theory Sim_Value_Props
  imports Sim_Value_Spec
begin

text \<open>
  The properties of the simulator's value library: what each operation of sim_value.c
  computes, on every branch, for every width up to 256 bits.
\<close>

section \<open>Concrete operands for the witnesses\<close>

abbreviation u8 :: "u64 \<Rightarrow> SimValue" where
  "u8 n \<equiv> sim_val_from_uint n 8"

lemma u8_simps:
  "sim_val_wf (u8 n)" "known (u8 n)" "width (u8 n) = 8" "uval (u8 n) = unat n mod 256"
  by (simp_all add: uval_from_uint)

lemma max_width_u8: "max_width (u8 m) (u8 n) = 8"
  by (simp add: max_width_def)

lemma sval_u8: "sval (u8 200) = - 56"
  by (simp add: sval_def u8_simps bit_iff_odd)

section \<open>Arithmetic\<close>

text \<open>Note: addition and subtraction of fully known operands are exact modulo two to the
  wider width, carries and borrows crossing all four words; one unknown bit in either operand
  makes the whole result unknown.\<close>

theorem sim_val_add_sub_correct:
  assumes "sim_val_wf a" "sim_val_wf b"
  shows "if known a \<and> known b
         then known (sim_val_add a b) \<and> known (sim_val_sub a b) \<and>
              width (sim_val_add a b) = max_width a b \<and> width (sim_val_sub a b) = max_width a b \<and>
              uval (sim_val_add a b) = (uval a + uval b) mod 2 ^ nat (max_width a b) \<and>
              int (uval (sim_val_sub a b)) = (int (uval a) - int (uval b)) mod 2 ^ nat (max_width a b)
         else sim_val_add a b = sim_val_all_x (max_width a b) \<and>
              sim_val_sub a b = sim_val_all_x (max_width a b)"
  using sim_val_add_known [OF assms] sim_val_sub_known [OF assms] sim_val_add_xz [OF assms]
    sim_val_sub_xz [OF assms]
  by auto

theorem sim_val_add_sub_witness:
  "uval (sim_val_add (u8 200) (u8 100)) = 44 \<and> uval (sim_val_sub (u8 100) (u8 200)) = 156"
  using sim_val_add_sub_correct [OF u8_simps(1) u8_simps(1), of 200 100]
    sim_val_add_sub_correct [OF u8_simps(1) u8_simps(1), of 100 200]
  by (simp add: u8_simps max_width_u8)

text \<open>Note: the shift-and-add loop multiplies modulo two to the wider width.\<close>

theorem sim_val_mul_correct:
  assumes "sim_val_wf a" "sim_val_wf b"
  shows "if known a \<and> known b
         then known (sim_val_mul a b) \<and> width (sim_val_mul a b) = max_width a b \<and>
              uval (sim_val_mul a b) = uval a * uval b mod 2 ^ nat (max_width a b)
         else sim_val_mul a b = sim_val_all_x (max_width a b)"
  using sim_val_mul_known [OF assms] sim_val_mul_xz [OF assms] by auto

theorem sim_val_mul_witness: "uval (sim_val_mul (u8 23) (u8 17)) = 135"
  using sim_val_mul_correct [OF u8_simps(1) u8_simps(1), of 23 17] by (simp add: u8_simps max_width_u8)

text \<open>C30: for well-formed operands of any widths the restoring-division loop computes the Euclidean quotient and remainder; a zero
  divisor or an unknown bit gives an unknown result.\<close>

theorem sim_val_divmod_correct:
  assumes "sim_val_wf a" "sim_val_wf b"
  shows "if known a \<and> known b \<and> uval b \<noteq> 0
         then known (sim_val_div a b) \<and> known (sim_val_mod a b) \<and>
              uval a = uval (sim_val_div a b) * uval b + uval (sim_val_mod a b) \<and>
              uval (sim_val_mod a b) < uval b
         else sim_val_div a b = sim_val_all_x (max_width a b) \<and>
              sim_val_mod a b = sim_val_all_x (max_width a b)"
  using sim_val_divmod_known [OF assms] divmod_strict [OF assms] by auto

theorem sim_val_divmod_witness:
  "231 = uval (sim_val_div (u8 231) (u8 200)) * 200 + uval (sim_val_mod (u8 231) (u8 200)) \<and>
   uval (sim_val_mod (u8 231) (u8 200)) < 200"
  using sim_val_divmod_correct [OF u8_simps(1) u8_simps(1), of 231 200] by (simp add: u8_simps)

text \<open>Note: negation is two's complement, and the arithmetic right shift divides the signed
  reading by a power of two, rounding down.\<close>

theorem sim_val_signed_correct:
  assumes "sim_val_wf a" "sim_val_wf b" "known a" "known b" "0 < width a"
  shows "uval (sim_val_neg a) = (2 ^ nat (width a) - uval a) mod 2 ^ nat (width a) \<and>
         width (sim_val_neg a) = width a \<and>
         sval (sim_val_ashr a b) = sval a div 2 ^ uval b \<and> width (sim_val_ashr a b) = width a"
  using sim_val_neg_known [OF assms(1,3,5)] sim_val_ashr_known [OF assms] by simp

theorem sim_val_signed_witness:
  "uval (sim_val_neg (u8 200)) = 56 \<and> sval (sim_val_ashr (u8 200) (u8 3)) = - 7"
  using sim_val_signed_correct [OF u8_simps(1) u8_simps(1) u8_simps(2) u8_simps(2), of 200 3]
  by (simp add: u8_simps sval_u8)

section \<open>Comparison and shifts\<close>

text \<open>Note: the six comparisons order the numbers the operands stand for, whatever their
  widths, and answer x when an operand bit is unknown.\<close>

theorem sim_val_comparison_correct:
  assumes "sim_val_wf a" "sim_val_wf b"
  shows "sim_val_eq a b = (if known a \<and> known b then cmp_result (uval a = uval b) else cmp_x) \<and>
         sim_val_neq a b = (if known a \<and> known b then cmp_result (uval a \<noteq> uval b) else cmp_x) \<and>
         sim_val_lt a b = (if known a \<and> known b then cmp_result (uval a < uval b) else cmp_x) \<and>
         sim_val_lte a b = (if known a \<and> known b then cmp_result (uval a \<le> uval b) else cmp_x) \<and>
         sim_val_gt a b = (if known a \<and> known b then cmp_result (uval a > uval b) else cmp_x) \<and>
         sim_val_gte a b = (if known a \<and> known b then cmp_result (uval a \<ge> uval b) else cmp_x)"
  using sim_val_compare [OF assms] by simp

theorem sim_val_comparison_witness:
  "sim_val_lt (u8 5) (u8 9) = cmp_result True \<and> sim_val_eq (u8 5) (u8 9) = cmp_result False"
  using sim_val_comparison_correct [OF u8_simps(1) u8_simps(1), of 5 9] by (simp add: u8_simps)

text \<open>Note: logical shifts multiply and divide by the power of two the amount names, also for
  amounts at or beyond the width and for amounts of more than 64 bits.\<close>

theorem sim_val_shift_correct:
  assumes "sim_val_wf a" "sim_val_wf b"
  shows "if known a \<and> known b
         then uval (sim_val_shl a b) = uval a * 2 ^ uval b mod 2 ^ nat (width a) \<and>
              uval (sim_val_shr a b) = uval a div 2 ^ uval b \<and>
              width (sim_val_shl a b) = width a \<and> width (sim_val_shr a b) = width a
         else sim_val_shl a b = sim_val_all_x (width a) \<and> sim_val_shr a b = sim_val_all_x (width a)"
  using sim_val_shl_known [OF assms] sim_val_shr_known [OF assms] sim_val_shl_xz [OF assms]
    sim_val_shr_xz [OF assms]
  by auto

theorem sim_val_shift_witness:
  "uval (sim_val_shl (u8 77) (u8 3)) = 104 \<and> uval (sim_val_shr (u8 77) (u8 3)) = 9"
  using sim_val_shift_correct [OF u8_simps(1) u8_simps(1), of 77 3] by (simp add: u8_simps)

section \<open>Bits\<close>

text \<open>C33: the bitwise operators compute the four-state truth tables of the language at every
  bit below the wider width: a known 0 (or 1) decides a conjunction (or disjunction) even
  against x and z.\<close>

theorem sim_val_bitwise_tables:
  assumes "sim_val_wf a" "sim_val_wf b" "int n < max_width a b" "int m < width a"
  shows "sim_bit (sim_val_and a b) n = and4 (sim_bit a n) (sim_bit b n) \<and>
         sim_bit (sim_val_or a b) n = or4 (sim_bit a n) (sim_bit b n) \<and>
         sim_bit (sim_val_xor a b) n = xor4 (sim_bit a n) (sim_bit b n) \<and>
         sim_bit (sim_val_not a) m = not4 (sim_bit a m)"
  using assms and_op.bit_f or_op.bit_f xor_op.bit_f sim_val_not_bits(3) by simp

theorem sim_val_bitwise_witness:
  "sim_bit (sim_val_and (sim_val_all_x 8) (u8 1)) 0 = BX \<and>
   sim_bit (sim_val_and (sim_val_all_x 8) (u8 1)) 1 = B0"
  using sim_val_bitwise_tables [of "sim_val_all_x 8" "u8 1" 0 0]
    sim_val_bitwise_tables [of "sim_val_all_x 8" "u8 1" 1 0]
  by (simp add: max_width_def sim_bit_all_x sim_bit_known uval_from_uint bit_iff_odd)

text \<open>C34: for two well-formed operands of positive widths that are together at most 256, the
  concatenation lists the bits of its operands, the last operand lowest, and a slice of it reads
  back the operand it covers, for every bit state and across word boundaries.\<close>

theorem sim_val_concat_slice_roundtrip:
  assumes "sim_val_wf hi" "sim_val_wf lo" "width hi + width lo \<le> 256" "0 < width hi" "0 < width lo"
  shows "sim_bits (sim_val_concat [hi, lo]) = sim_bits lo @ sim_bits hi \<and>
         sim_val_slice (sim_val_concat [hi, lo]) (width lo - 1) 0 = lo \<and>
         sim_val_slice (sim_val_concat [hi, lo]) (width hi + width lo - 1) (width lo) = hi"
proof -
  let ?c = "sim_val_concat [hi, lo]"
  have wf: "sim_val_wf ?c" by (rule sim_val_concat_bits) (use assms in auto)
  have "sim_bits ?c = take 256 (sim_bits lo @ sim_bits hi)"
    using sim_val_concat_bits(2) [of "[hi, lo]"] assms(1,2) by auto
  then have bits: "sim_bits ?c = sim_bits lo @ sim_bits hi" using assms by simp
  then have "nat (width ?c) = nat (width lo) + nat (width hi)" by (metis length_append length_sim_bits)
  then have w: "width ?c = width lo + width hi" using assms wf by (simp add: sim_val_wfD)
  have lo_bit: "sim_bit ?c n = sim_bit lo n" if "int n < width lo" for n
    using that w assms arg_cong [OF bits, of "\<lambda>l. l ! n"]
    by (simp add: nth_append zless_nat_eq_int_zless [symmetric])
  have hi_bit: "sim_bit ?c (nat (width lo) + n) = sim_bit hi n" if "int n < width hi" for n
    using that w assms arg_cong [OF bits, of "\<lambda>l. l ! (nat (width lo) + n)"] by (simp add: nth_append)
  have "sim_val_slice ?c (width lo - 1) 0 = lo"
    using assms wf by (intro sim_val_eqI) (simp_all add: sim_val_slice_bits sim_val_wfD lo_bit)
  moreover have "sim_val_slice ?c (width hi + width lo - 1) (width lo) = hi"
    using assms wf by (intro sim_val_eqI) (simp_all add: sim_val_slice_bits sim_val_wfD hi_bit)
  ultimately show ?thesis using bits by simp
qed

theorem sim_val_concat_slice_witness:
  "sim_val_slice (sim_val_concat [sim_val_all_z 100, u8 90]) 7 0 = u8 90 \<and>
   sim_val_slice (sim_val_concat [sim_val_all_z 100, u8 90]) 107 8 = sim_val_all_z 100"
  using sim_val_concat_slice_roundtrip [of "sim_val_all_z 100" "u8 90"] by simp

text \<open>Note: extension keeps the number: zero extension the unsigned, sign extension the signed
  reading; an x sign bit is repeated.\<close>

theorem sim_val_extension_correct:
  assumes "sim_val_wf v" "0 < width v" "width v \<le> w" "w \<le> 256"
  shows "uval (sim_val_zext v w) = uval v \<and> width (sim_val_zext v w) = w \<and>
         (known v \<longrightarrow> sval (sim_val_sext v w) = sval v) \<and> width (sim_val_sext v w) = w \<and>
         (sim_bit v (nat (width v - 1)) = BX \<longrightarrow>
            (\<forall>n. width v \<le> int n \<and> int n < w \<longrightarrow> sim_bit (sim_val_sext v w) n = BX))"
  using sim_val_sext_bits [OF assms(1,2,4)] sval_sext [OF assms(1) _ assms(2-4)] assms
  by (auto simp: sim_val_zext_bits sign_fill_def)

theorem sim_val_extension_witness:
  "uval (sim_val_zext (u8 200) 20) = 200 \<and> sval (sim_val_sext (u8 200) 20) = - 56"
  using sim_val_extension_correct [of "u8 200" 20] by (simp add: u8_simps sval_u8)

section \<open>Invariant, unknown bits and formats\<close>

text \<open>Setting one bit keeps the invariant unless it sets a bit that is x or z.\<close>

lemma wf_set_bit:
  assumes v: "sim_val_wf v" and b: "0 \<le> i" "\<not> b \<or> sim_bit v (nat i) \<in> {B0, B1}"
  shows "sim_val_wf (sim_val_set_bit v i b)"
proof (cases "i < width v")
  case False
  then show ?thesis using v by (simp add: sim_val_set_bit_def)
next
  case True
  obtain k where i: "i = int k" using b(1) nonneg_int_cases by blast
  have bits: "wbit (val (sim_val_set_bit v i b)) n = (if n = k then b else wbit (val v) n)" for n
    using wbit_set_bit [of v k] True i v by (simp add: sim_val_wfD)
  show ?thesis
    using v b True i bits sim_val_wf_disjoint [OF v]
    by (intro sim_val_wfI) (auto simp: sim_val_wfD planes_disjoint_def sim_bit_def dest: sim_val_wfD split: if_splits)
qed

text \<open>There the one bit is both 1 and x.\<close>

lemma set_bit_of_x: "\<not> sim_val_wf (sim_val_set_bit (sim_val_all_x 1) 0 True)"
proof
  assume "sim_val_wf (sim_val_set_bit (sim_val_all_x 1) 0 True)"
  note d = sim_val_wf_disjoint [OF this]
  have "wbit (val (sim_val_set_bit (sim_val_all_x 1) 0 True)) 0"
    using wbit_set_bit [of "sim_val_all_x 1" 0 True 0] by simp
  then show False using d [of 0] by (auto simp: wbit_fill_ones)
qed



text \<open>Note: sign extension is the exception: a z sign bit is extended with zeros, so resolving
  it to 1 changes extended bits that had been reported as 0.\<close>

theorem sim_val_sext_z_unsound:
  "resolves (sim_val_from_uint 1 1) (sim_val_all_z 1) \<and>
   sim_bit (sim_val_sext (sim_val_all_z 1) 2) 1 = B0 \<and>
   sim_bit (sim_val_sext (sim_val_from_uint 1 1) 2) 1 = B1"
proof -
  have "resolves (sim_val_from_uint 1 1) (sim_val_all_z 1)"
    by (rule resolvesI) (simp_all add: sim_bit_all_z sim_bit_known less_eq_bit4_def)
  moreover have "sim_bit (sim_val_sext (sim_val_all_z 1) 2) 1 = B0"
    using sim_val_sext_bits(3) [of "sim_val_all_z 1" 2 1] by (simp add: sim_bit_all_z sign_fill_def)
  moreover have "sim_bit (sim_val_sext (sim_val_from_uint 1 1) 2) 1 = B1"
    using sim_val_sext_bits(3) [of "sim_val_from_uint 1 1" 2 1]
    by (simp add: sim_bit_known uval_from_uint sign_fill_def bit_0)
  ultimately show ?thesis by simp
qed

text \<open>Note: the printed forms read back: binary every bit state, hexadecimal the number of a
  fully known value, whenever the buffer holds the digits and the terminator.\<close>

theorem sim_val_format_roundtrip:
  assumes "sim_val_wf v" "2 \<le> buflen" "width v < buflen"
  shows "read_bin (sim_val_to_bin v buflen) = sim_bits v \<and>
         (known v \<longrightarrow> read_hex (sim_val_to_hex v buflen) = uval v)"
proof -
  have "(width v + 3) div 4 < buflen" using assms sim_val_wfD(1) [OF assms(1)] by linarith
  then show ?thesis
    using assms by (simp add: sim_val_to_bin_eq read_bin_def rev_map o_def sim_val_to_hex_known)
qed

theorem sim_val_format_witness:
  "read_bin (sim_val_to_bin (sim_val_all_z 70) 80) = sim_bits (sim_val_all_z 70) \<and>
   read_hex (sim_val_to_hex (u8 171) 9) = 171"
  using sim_val_format_roundtrip [of "sim_val_all_z 70" 80] sim_val_format_roundtrip [of "u8 171" 9]
  by (simp add: u8_simps)

end
