(* ===== verification/Sim_Eval_Props.thy ===== *)
theory Sim_Eval_Props
  imports Sim_Eval_Sem Sim_Value_Props
begin

text \<open>
  The properties of the expression evaluator, and concrete frames on which the ones with
  hypotheses are applied.
\<close>

section \<open>A small module\<close>

text \<open>Two 8-bit nets with ids 0 and 1 and one memory of four 8-bit words.\<close>

definition demo_literal :: "nat \<Rightarrow> IR_Literal" where
  "demo_literal n = \<lparr>lit_words = [word_of_nat n, 0, 0, 0], lit_width = 8, lit_is_z = False\<rparr>"

definition demo_signal :: "int \<Rightarrow> IR_SignalKind \<Rightarrow> IR_Signal" where
  "demo_signal i k = \<lparr>sig_id = i, sig_kind = k, sig_width = 8, sig_direction = PORT_IN,
     sig_reset_value = demo_literal 0\<rparr>"

definition demo_module :: "IR_Stmt \<Rightarrow> IR_Module" where
  "demo_module async = \<lparr>module_id = 0, module_signals = [demo_signal 0 SIG_NET, demo_signal 1 SIG_NET],
     clock_domains = [], instances = [],
     module_memories = [\<lparr>mem_id = 0, mem_name = ''m'', mem_word_width = 8, mem_depth = 4, mem_init_kind = MEM_INIT_FILE\<rparr>],
     async_block = async, eliminated = False\<rparr>"

definition demo_entry :: "int \<Rightarrow> SimValue \<Rightarrow> SimSignalEntry" where
  "demo_entry i v = \<lparr>signal_id = i, current = v, nxt = sim_val_zero 8, has_pending = False\<rparr>"

definition demo_frame :: "SimValue \<Rightarrow> SimValue \<Rightarrow> SimFrame" where
  "demo_frame a b = \<lparr>ctx_module = demo_module STMT_NULL, signals = [demo_entry 0 a, demo_entry 1 b],
     sig_id_map = [0, 1], max_sig_id = 1,
     memories = [\<lparr>me_mem_id = 0, cells = replicate 4 (sim_val_zero 8), word_width = 8, depth = 4\<rparr>],
     rng_state = 1, runtime_error = False, settle_dirty = False, async_chunks = [], sig_dirty = [True, True]\<rparr>"

text \<open>\<open>signal0 & 8'h0F\<close>\<close>

definition demo_and :: IR_Expr where
  "demo_and = EXPR_BINARY EXPR_BINARY_AND 8 (EXPR_SIGNAL_REF 8 0) (EXPR_LITERAL 8 (demo_literal 15))"

lemma demo_frame_ok:
  "sim_val_wf a \<Longrightarrow> width a = 8 \<Longrightarrow> sim_val_wf b \<Longrightarrow> width b = 8 \<Longrightarrow> frame_ok (demo_frame a b)"
  by (simp add: frame_ok_def demo_frame_def entry_ok_def demo_entry_def memory_ok_def numeral_eq_Suc)

lemma demo_lookup:
  "sim_ctx_lookup (demo_frame a b) 0 = Some 0" "sim_ctx_lookup (demo_frame a b) 1 = Some 1"
  by (simp_all add: sim_ctx_lookup_def demo_frame_def Let_def)

lemma demo_current:
  "current (signals (demo_frame a b) ! 0) = a" "current (signals (demo_frame a b) ! Suc 0) = b"
  by (simp_all add: demo_frame_def demo_entry_def)

lemma demo_and_width: "width a = 8 \<Longrightarrow> static_width (demo_frame a b) demo_and = Some 8"
  by (simp add: demo_and_def signal_width_of_def demo_lookup demo_current demo_literal_def binary_width_def
      unmasked_width_def width_or_def)

lemma demo_refines:
  assumes "refines a' a" "refines b' b"
  shows "frame_refines (demo_frame a' b') (demo_frame a b)"
  using assms by (simp add: frame_refines_def demo_frame_def demo_entry_def numeral_eq_Suc refines_refl)

section \<open>The evaluator\<close>

text \<open>C31. Unknown bits are sound in the value library: when well-formed operands are replaced by
  ones that resolve some of their x and z bits (same widths, every known bit kept), the result
  keeps its width and every bit of it that was reported as 0 or 1. This holds of add, sub, mul,
  div, mod, and, or, xor, the six comparisons, shl, shr, ashr and the two logical connectives on
  operands of any two widths; of not, neg and the logical not; of the concatenation of a list; of
  the conditional when both branches have one width; of a slice of at most 256 bits that starts
  at or above 0; and of zero extension to at most 256 bits. It does not hold of sign extension
  (lemma \<open>sim_val_sext_z_unsound\<close>), which is not in the list.\<close>

theorem sim_val_x_soundness:
  assumes "refines a' a" "refines b' b" "refines c' c" "list_all2 refines vals' vals"
    and "0 \<le> lsb" "lsb \<le> msb" "msb - lsb < 256" "w \<le> 256"
  shows "list_all (\<lambda>f. refines (f a' b') (f a b))
      [sim_val_add, sim_val_sub, sim_val_mul, sim_val_div, sim_val_mod, sim_val_and, sim_val_or, sim_val_xor,
       sim_val_eq, sim_val_neq, sim_val_lt, sim_val_gt, sim_val_lte, sim_val_gte,
       sim_val_shl, sim_val_shr, sim_val_ashr, sim_val_logical_and, sim_val_logical_or] \<and>
    list_all (\<lambda>f. refines (f a') (f a)) [sim_val_not, sim_val_neg, sim_val_logical_not] \<and>
    refines (sim_val_concat vals') (sim_val_concat vals) \<and>
    (width a = width b \<longrightarrow> refines (sim_val_ternary c' a' b') (sim_val_ternary c a b)) \<and>
    refines (sim_val_slice a' msb lsb) (sim_val_slice a msb lsb) \<and>
    refines (sim_val_zext a' w) (sim_val_zext a w)"
proof -
  note D = refinesD [OF assms(1)] and E = refinesD [OF assms(2)] and F = refinesD [OF assms(3)]
  have "refines (sim_val_ternary c' a' b') (sim_val_ternary c a b)" if "width a = width b"
    using assms(1-3) that ternary_mono [OF _ _ _ _ _ _ _ _ _ that] wf_ternary by (simp add: refines_def)
  moreover have "refines (sim_val_slice a' msb lsb) (sim_val_slice a msb lsb)"
    using assms(1,5-7) by (simp add: refines_def resolves_slice sim_val_slice_bits)
  moreover have "refines (sim_val_zext a' w) (sim_val_zext a w)"
    using assms(1,8) by (simp add: refines_def resolves_def sim_val_zext_bits)
  ultimately show ?thesis
    using assms(1-4)
    by (simp add: strict_refines_ops table_refines_ops compare_refines_ops ashr_refines logical_op_refines
        unary_refines_ops concat_refines)
qed

theorem sim_val_x_soundness_witness:
  "refines (sim_val_and (u8 5) (u8 3)) (sim_val_and (sim_val_all_x 8) (u8 3)) \<and>
   refines (sim_val_ternary (u8 1) (u8 5) (u8 3)) (sim_val_ternary (sim_val_all_z 8) (sim_val_all_x 8) (u8 3)) \<and>
   refines (sim_val_concat [u8 5, u8 1]) (sim_val_concat [sim_val_all_x 8, sim_val_all_z 8])"
proof -
  have x: "refines (u8 5) (sim_val_all_x 8)" by (simp add: refines_def resolves_all_x)
  have z: "refines (u8 1) (sim_val_all_z 8)"
    unfolding refines_def by (intro conjI resolvesI) (simp_all add: sim_bit_all_z sim_bit_known less_eq_bit4_def)
  show ?thesis
    using sim_val_x_soundness [OF x refines_refl [OF u8_simps(1)] z, of "[u8 5, u8 1]" "[sim_val_all_x 8, sim_val_all_z 8]" 0 0 0 3] x z
    by simp
qed

text \<open>C35. Type soundness: in a well-formed frame an expression with a static width evaluates
  to a well-formed value of that width (no stray bits above the width, no bit with two
  meanings), and the frame stays well-formed.\<close>

theorem sim_eval_type_sound:
  assumes "frame_ok f" "static_width f e = Some w"
  shows "sim_val_wf (fst (sim_eval_expr f e)) \<and> width (fst (sim_eval_expr f e)) = w \<and>
         frame_ok (snd (sim_eval_expr f e))"
  using expr_value_typed(1) [OF assms] assms(1)
  by (simp add: sim_eval_expr_eq typed_def frame_ok_def)

theorem sim_eval_type_sound_witness:
  "frame_ok (demo_frame (sim_val_all_x 8) (sim_val_zero 8)) \<and>
   static_width (demo_frame (sim_val_all_x 8) (sim_val_zero 8)) demo_and = Some 8 \<and>
   sim_val_wf (fst (sim_eval_expr (demo_frame (sim_val_all_x 8) (sim_val_zero 8)) demo_and))"
  using sim_eval_type_sound [of "demo_frame (sim_val_all_x 8) (sim_val_zero 8)" demo_and 8]
  by (simp add: demo_frame_ok demo_and_width)

text \<open>C36. Soundness of unknown bits through whole expressions: when the values of one frame
  resolve unknown bits of another, every bit of an expression that the less informed frame
  reports as 0 or 1 is that bit in the more informed one.\<close>

theorem sim_eval_x_sound:
  assumes "frame_ok f" "frame_refines f' f" "static_width f e = Some w"
  shows "width (fst (sim_eval_expr f' e)) = width (fst (sim_eval_expr f e)) \<and>
         (\<forall>n. sim_bit (fst (sim_eval_expr f e)) n \<in> {B0, B1} \<longrightarrow>
              sim_bit (fst (sim_eval_expr f' e)) n = sim_bit (fst (sim_eval_expr f e)) n)"
proof -
  have "sim_bit (expr_value f' e) n \<le> sim_bit (expr_value f e) n" for n
    by (rule refinesD(5) [OF expr_value_refines(1) [OF assms]])
  then have "sim_bit (expr_value f' e) n = sim_bit (expr_value f e) n"
    if "sim_bit (expr_value f e) n \<in> {B0, B1}" for n
    using that by (metis bit4_le_known empty_iff insert_iff)
  then show ?thesis
    using refinesD(4) [OF expr_value_refines(1) [OF assms]] by (simp add: sim_eval_expr_eq)
qed

lemma demo_and_bit7:
  "sim_val_wf a \<Longrightarrow> width a = 8 \<Longrightarrow> sim_bit (fst (sim_eval_expr (demo_frame a b) demo_and)) 7 = B0"
proof -
  assume a: "sim_val_wf a" "width a = 8"
  have l: "eval_literal 8 (demo_literal 15) = sim_val_from_words [15, 0, 0, 0] 4 8"
    by (simp add: eval_literal_def demo_literal_def)
  have w: "sim_val_wf (sim_val_from_words [15, 0, 0, 0] 4 8)" "known (sim_val_from_words [15, 0, 0, 0] 4 8)"
    "uval (sim_val_from_words [15, 0, 0, 0] 4 8) = 15"
    by (simp_all add: known_from_words uval_from_words)
  have "sim_bit (sim_val_from_words [15, 0, 0, 0] 4 8) 7 = B0" by (simp add: sim_bit_known w bit_iff_odd)
  then show ?thesis
    using sim_val_and_bits(3) [OF a(1) w(1), of 7] a(2)
    by (simp add: sim_eval_expr_eq demo_and_def eval_signal_ref_def demo_lookup demo_current l eval_binary_def
        eval_bitwise_def set_width_def width_or_def max_width_def and_op.tab_commute)
qed

theorem sim_eval_x_sound_witness:
  "frame_ok (demo_frame (sim_val_all_x 8) (sim_val_zero 8)) \<and>
   frame_refines (demo_frame (sim_val_ones 8) (sim_val_zero 8)) (demo_frame (sim_val_all_x 8) (sim_val_zero 8)) \<and>
   sim_bit (fst (sim_eval_expr (demo_frame (sim_val_all_x 8) (sim_val_zero 8)) demo_and)) 7 = B0 \<and>
   sim_bit (fst (sim_eval_expr (demo_frame (sim_val_ones 8) (sim_val_zero 8)) demo_and)) 7 = B0"
proof -
  have r: "refines (sim_val_ones 8) (sim_val_all_x 8)" "refines (sim_val_zero 8) (sim_val_zero 8)"
    by (simp_all add: refines_def resolves_all_x)
  show ?thesis
    using sim_eval_x_sound [OF demo_frame_ok demo_refines [OF r] demo_and_width] demo_refines [OF r]
      demo_and_bit7 [of "sim_val_all_x 8" "sim_val_zero 8"]
    by (simp add: demo_frame_ok)
qed

text \<open>Note. The read sets that the simulator collects to decide which asynchronous statements to
  run again are sufficient for signals: two frames that agree on the collected signals (and on
  the memories) give an expression the same value and the same error.\<close>

theorem sim_eval_depends_on_reads:
  assumes "agree_on (set (collect_expr_reads e [])) f' f" "runtime_error f' = runtime_error f"
  shows "fst (sim_eval_expr f' e) = fst (sim_eval_expr f e) \<and>
         runtime_error (snd (sim_eval_expr f' e)) = runtime_error (snd (sim_eval_expr f e))"
  using assms expr_value_agree(1) [of e f' f] expr_raises_agree(1) [of e f' f]
  by (simp add: sim_eval_expr_eq set_collect_reads)

theorem sim_eval_depends_on_reads_witness:
  "agree_on (set (collect_expr_reads demo_and [])) (demo_frame (sim_val_all_x 8) (sim_val_ones 8))
     (demo_frame (sim_val_all_x 8) (sim_val_zero 8)) \<and>
   fst (sim_eval_expr (demo_frame (sim_val_all_x 8) (sim_val_ones 8)) demo_and) =
   fst (sim_eval_expr (demo_frame (sim_val_all_x 8) (sim_val_zero 8)) demo_and)"
proof -
  have a: "agree_on (set (collect_expr_reads demo_and [])) (demo_frame (sim_val_all_x 8) (sim_val_ones 8))
     (demo_frame (sim_val_all_x 8) (sim_val_zero 8))"
    by (simp add: set_collect_reads demo_and_def agree_on_def demo_lookup demo_current)
      (simp add: demo_frame_def)
  show ?thesis using sim_eval_depends_on_reads [OF a] a by (simp add: demo_frame_def)
qed

section \<open>Intrinsics\<close>

lemma max_bit_bounds:
  assumes "u \<noteq> (0 :: nat)"
  shows "2 ^ Max {i. bit u i} \<le> u" "u < 2 ^ Suc (Max {i. bit u i})"
proof -
  let ?B = "{i. bit u i}"
  obtain m where m: "u < 2 ^ m" using less_exp [of u] by blast
  have fin: "finite ?B" using bit_less_exp [OF m] finite_nat_set_iff_bounded by blast
  have ne: "?B \<noteq> {}" using assms by (auto simp: bit_eq_iff)
  have "bit u (Max ?B)" using Max_in [OF fin ne] by simp
  then have "u div 2 ^ Max ?B \<noteq> 0" by (metis bit_iff_odd dvd_0_right)
  then show "2 ^ Max ?B \<le> u" using div_less not_less by blast
  have "\<not> bit u i" if "Suc (Max ?B) \<le> i" for i using Max_ge [OF fin, of i] that by auto
  then have "take_bit (Suc (Max ?B)) u = u" by (intro bit_eqI) (auto simp: bit_take_bit_iff not_le [symmetric])
  then show "u < 2 ^ Suc (Max ?B)" by (metis take_bit_nat_less_exp)
qed

text \<open>Note. The counting intrinsics, on a known non-zero operand and a result wide enough for the
  operand's width: \<open>popcount\<close> is the number of set bits, \<open>prienc\<close> the index of the highest one
  (the integer logarithm), and \<open>lzc\<close> the number of zeros above it.\<close>

theorem eval_encoders_correct:
  assumes "sim_val_wf v" "known v" "uval v \<noteq> 0" "0 < w" "w \<le> 256" "nat (width v) < 2 ^ nat w"
  shows "uval (eval_popcount w v) = card {i. bit (uval v) i} \<and>
         2 ^ uval (eval_prienc w v) \<le> uval v \<and> uval v < 2 ^ Suc (uval (eval_prienc w v)) \<and>
         uval (eval_lzc w v) + Suc (uval (eval_prienc w v)) = nat (width v)"
proof -
  let ?m = "Max {i. bit (uval v) i}"
  have w: "width_or w 1 = w" using assms(4) by (simp add: width_or_def)
  have m: "?m < nat (width v)" using max_bit_range(1) [OF assms(1,3)] .
  have c: "card {i. bit (uval v) i} \<le> nat (width v)" using card_bits_le [OF assms(1)] .
  have "uval (eval_popcount w v) = card {i. bit (uval v) i}" "uval (eval_prienc w v) = ?m"
    "uval (eval_lzc w v) = nat (width v) - 1 - ?m"
    using eval_popcount_known(4) [OF assms(1,2,5)] eval_prienc_known(4) [OF assms(1,2,5)]
      eval_lzc_known(4) [OF assms(1,2,5)] w m c assms(3,6) by simp_all
  then show ?thesis using max_bit_bounds [OF assms(3)] m by simp
qed

theorem eval_encoders_witness:
  "uval (u8 44) \<noteq> 0 \<and> 2 ^ uval (eval_prienc 4 (u8 44)) \<le> (44 :: nat) \<and> 44 < (2 :: nat) ^ Suc (uval (eval_prienc 4 (u8 44))) \<and>
   uval (eval_lzc 4 (u8 44)) + Suc (uval (eval_prienc 4 (u8 44))) = 8"
  using eval_encoders_correct [OF u8_simps(1,2), of 44 4] by (simp add: u8_simps(3,4))

text \<open>Note. Binary to one-hot and back: \<open>b2oh\<close> gives the power of two, and \<open>oh2b\<close> of it the index again,
  for every known index below the one-hot width.\<close>

theorem eval_onehot_roundtrip:
  assumes "sim_val_wf i" "known i" "int (uval i) < n" "n \<le> 256" "0 < w" "w \<le> 256" "uval i < 2 ^ nat w"
  shows "uval (eval_b2oh n i) = 2 ^ uval i \<and> uval (eval_oh2b w (eval_b2oh n i)) = uval i"
proof -
  have n: "width_or n 1 = n" and w: "width_or w 1 = w" using assms(3,5) by (simp_all add: width_or_def)
  note B = eval_b2oh_known [OF assms(1,2,4)]
  have u: "uval (eval_b2oh n i) = 2 ^ uval i" using B(4) n assms(3) by simp
  have "{j. bit (2 ^ uval i :: nat) j} = {uval i}" by (auto simp: bit_exp_iff)
  then have "uval (eval_oh2b w (eval_b2oh n i)) = uval i"
    using eval_oh2b_known(4) [OF B(1,2) assms(6)] u w assms(7) by simp
  with u show ?thesis by simp
qed

theorem eval_onehot_roundtrip_witness:
  "uval (eval_b2oh 16 (u8 11)) = 2048 \<and> uval (eval_oh2b 4 (eval_b2oh 16 (u8 11))) = 11"
  using eval_onehot_roundtrip [OF u8_simps(1,2), of 11 16 4] by (simp add: u8_simps(3,4))

lemma known_bits_eqI:
  assumes "sim_val_wf a" "sim_val_wf b" "known a" "known b" "width a = width b"
    and "\<And>n. n < nat (width b) \<Longrightarrow> bit (uval a) n = bit (uval b) n"
  shows "a = b"
proof (rule known_eqI [OF assms(1-5)])
  show "uval a = uval b"
  proof (rule bit_eqI)
    fix n
    show "bit (uval a) n = bit (uval b) n"
      using assms(5,6) bit_uval_less [OF assms(1), of n] bit_uval_less [OF assms(2), of n]
      by (cases "n < nat (width b)") auto
  qed
qed

lemma eval_reverse_involution:
  assumes "sim_val_wf v" "known v" "0 < width v"
  shows "eval_reverse w (eval_reverse w v) = v"
proof -
  note R = eval_reverse_known [OF assms, where w = w]
  have rw: "0 < width (eval_reverse w v)" using assms(3) R(3) by simp
  note R2 = eval_reverse_known [OF R(1,2) rw, where w = w]
  show ?thesis
    by (rule known_bits_eqI [OF R2(1) assms(1) R2(2) assms(2)]) (use R(3,4) R2(3,4) in simp_all)
qed

lemma eval_bswap_involution:
  assumes "sim_val_wf v" "known v" "width v = 8 * int b" "0 < b"
  shows "eval_bswap w (eval_bswap w v) = v"
proof -
  note B = eval_bswap_known [OF assms, where w = w]
  have bw: "width (eval_bswap w v) = 8 * int b" using B(3) assms(3) by simp
  note B2 = eval_bswap_known [OF B(1,2) bw assms(4), where w = w]
  show ?thesis
  proof (rule known_bits_eqI [OF B2(1) assms(1) B2(2) assms(2)])
    show "width (eval_bswap w (eval_bswap w v)) = width v" using B(3) B2(3) by simp
    fix n assume "n < nat (width v)"
    then have d: "n div 8 < b" using assms(3) by simp
    have n: "8 * (n div 8) + n mod 8 = n" by simp
    show "bit (uval (eval_bswap w (eval_bswap w v))) n = bit (uval v) n"
      using B2(4) [OF d, of "n mod 8"] B(4) [of "b - 1 - n div 8" "n mod 8"] d n by simp
  qed
qed

text \<open>Note. \<open>reverse\<close> reverses the list of bits and \<open>bswap\<close> swaps whole bytes end for end; both undo
  themselves.\<close>

theorem eval_reverse_bswap_correct:
  assumes "sim_val_wf v" "known v" "width v = 8 * int b" "0 < b"
  shows "sim_bits (eval_reverse w v) = rev (sim_bits v) \<and> eval_reverse w (eval_reverse w v) = v \<and>
         (\<forall>i<b. \<forall>j<8. sim_bit (eval_bswap w v) (8 * i + j) = sim_bit v (8 * (b - 1 - i) + j)) \<and>
         eval_bswap w (eval_bswap w v) = v"
proof -
  have pos: "0 < width v" using assms(3,4) by simp
  note R = eval_reverse_known [OF assms(1,2) pos, where w = w]
  note B = eval_bswap_known [OF assms, where w = w]
  have rb: "sim_bit (eval_reverse w v) n = sim_bit v (nat (width v) - 1 - n)" if "n < nat (width v)" for n
    using R(4) [OF that] by (simp add: sim_bit_known R(2) assms(2))
  have bb: "sim_bit (eval_bswap w v) (8 * i + j) = sim_bit v (8 * (b - 1 - i) + j)" if "i < b" "j < 8" for i j
    using B(4) [OF that] by (simp add: sim_bit_known B(2) assms(2))
  have l: "sim_bits (eval_reverse w v) = rev (sim_bits v)"
    by (rule nth_equalityI) (simp_all add: R(3) rb rev_nth)
  show ?thesis using l bb eval_reverse_involution [OF assms(1,2) pos] eval_bswap_involution [OF assms] by blast
qed

theorem eval_reverse_bswap_witness:
  "sim_bits (eval_reverse 8 (u8 44)) = rev (sim_bits (u8 44)) \<and> eval_bswap 8 (eval_bswap 8 (u8 44)) = u8 44"
  using eval_reverse_bswap_correct [OF u8_simps(1,2), of 44 1 8] by (simp add: u8_simps(3))

text \<open>Note. Minimum, maximum and absolute value: \<open>umin\<close> and \<open>umax\<close> compare the unsigned readings, \<open>smin\<close> and
  \<open>smax\<close> the signed ones of operands of any widths; \<open>abs\<close> with its extra bit is the magnitude of
  the signed reading, and its top bit is set exactly for the most negative value.\<close>

theorem eval_minmax_abs_correct:
  assumes "sim_val_wf a" "sim_val_wf b" "known a" "known b" "0 < width a" "0 < width b" "width a < 256"
  defines "n \<equiv> nat (width a)"
  shows "uval (eval_unsigned_choice True (max_width a b) a b) = min (uval a) (uval b) \<and>
         uval (eval_unsigned_choice False (max_width a b) a b) = max (uval a) (uval b) \<and>
         sval (eval_signed_choice True (max_width a b) a b) = min (sval a) (sval b) \<and>
         sval (eval_signed_choice False (max_width a b) a b) = max (sval a) (sval b) \<and>
         uval (eval_abs (width a + 1) a) = nat \<bar>sval a\<bar> + (if sval a = - (2 ^ (n - 1)) then 2 ^ n else 0)"
proof -
  have w: "max_width a b \<le> 256" "0 < max_width a b"
    using max_width_bounds [OF assms(1,2)] assms(5) by linarith+
  show ?thesis
    using eval_unsigned_choice_known(4) [OF assms(1-4) order_refl w] eval_signed_choice_known(3) [OF assms(1-6)]
      eval_abs_known(4) [OF assms(1,3,5,7)]
    by (simp add: n_def)
qed

theorem eval_minmax_abs_witness:
  "sval (eval_signed_choice True 8 (u8 200) (u8 3)) = - 56 \<and> uval (eval_abs 9 (u8 200)) = 56"
  using eval_minmax_abs_correct [OF u8_simps(1,1,2,2), of 200 3]
  by (simp add: u8_simps max_width_u8 sval_u8) (simp add: sval_def u8_simps bit_iff_odd)

text \<open>Note. The widening additions and multiplications do not widen: \<open>uadd\<close> and \<open>umul\<close> of two
  \<open>n\<close>-bit operands, at the result widths \<open>n + 1\<close> and \<open>2 * n\<close> the language gives them, return the
  sum and the product modulo \<open>2 ^ n\<close>; the carry and the high half of the product are lost,
  where the language reference has \<open>uadd(8'hFF, 8'h01) = 9'h100\<close>.\<close>

theorem eval_widening_truncates:
  assumes "sim_val_wf a" "sim_val_wf b" "known a" "known b" "width a = n" "width b = n" "0 < n" "2 * n \<le> 256"
  shows "width (eval_intrinsic EXPR_INTRINSIC_UADD (n + 1) a b c ew) = n + 1 \<and>
         uval (eval_intrinsic EXPR_INTRINSIC_UADD (n + 1) a b c ew) = (uval a + uval b) mod 2 ^ nat n \<and>
         width (eval_intrinsic EXPR_INTRINSIC_UMUL (2 * n) a b c ew) = 2 * n \<and>
         uval (eval_intrinsic EXPR_INTRINSIC_UMUL (2 * n) a b c ew) = uval a * uval b mod 2 ^ nat n"
proof -
  have m: "max_width a b = n" using assms(5,6) by (simp add: max_width_def)
  note S = sim_val_add_known [OF assms(1-4), unfolded m]
  note P = sim_val_mul_known [OF assms(1-4), unfolded m]
  have w: "sim_val_mask (v\<lparr>width := k\<rparr>) = v\<lparr>width := k\<rparr>" if "sim_val_wf v" "width v = n" "n \<le> k" "k \<le> 256" for v k
    by (rule sim_val_mask_idem) (use that in \<open>simp add: sim_val_wf_widen\<close>)
  have "sim_val_mask ((sim_val_add a b)\<lparr>width := n + 1\<rparr>) = (sim_val_add a b)\<lparr>width := n + 1\<rparr>"
    "sim_val_mask ((sim_val_mul a b)\<lparr>width := 2 * n\<rparr>) = (sim_val_mul a b)\<lparr>width := 2 * n\<rparr>"
    by (rule w; use S P assms(7,8) in simp)+
  then show ?thesis
    using S P assms(7) by (simp add: eval_intrinsic_def eval_add_mul_def set_width_def width_or_def)
qed

theorem eval_widening_truncates_witness:
  "uval (eval_intrinsic EXPR_INTRINSIC_UADD 9 (u8 255) (u8 1) (sim_val_zero 1) 0) = 0 \<and>
   uval (eval_intrinsic EXPR_INTRINSIC_UMUL 16 (u8 16) (u8 16) (sim_val_zero 1) 0) = 0"
  using eval_widening_truncates [of "u8 255" "u8 1" 8 "sim_val_zero 1" 0]
    eval_widening_truncates [of "u8 16" "u8 16" 8 "sim_val_zero 1" 0]
  by (simp add: u8_simps)

end
