(* ===== verification/Sem_Expr_Props.thy ===== *)
theory Sem_Expr_Props
  imports Sem_Expr_Total Sim_Eval_Props
begin

text \<open>
  The properties of typing and lowering, with a concrete scope and frame, and what they exclude:
  products, wide VCC branches, long concatenations and slice bounds with a leading zero.
\<close>

section \<open>A scope and a frame\<close>

definition demo_symbol :: "string \<Rightarrow> int \<Rightarrow> JZSymbol" where
  "demo_symbol n i = \<lparr>sym_name = n, sym_kind = JZ_SYM_WIRE, sym_id = i, sym_width = Some ''8''\<rparr>"

text \<open>Two wires \<open>a\<close> and \<open>b\<close> of 8 bits.\<close>

definition demo_scope :: ExprScope where
  "demo_scope = \<lparr>scope_symbols = [demo_symbol ''a'' 0, demo_symbol ''b'' 1], const_value = (\<lambda>_. None),
     width_value = parse_simple_positive_int, bound_value = (\<lambda>_. None), mux_width = (\<lambda>_. None),
     mux_select = (\<lambda>_ _. None), required_parens = (\<lambda>_. True)\<rparr>"

text \<open>\<open>{a + b, a[7:4]}\<close> and \<open>(a < b) ? VCC : a - b\<close>\<close>

definition demo_concat :: JZExpr where
  "demo_concat = AST_CONCAT [AST_BINARY ''ADD'' (AST_IDENTIFIER ''a'') (AST_IDENTIFIER ''b''),
     AST_SLICE (AST_IDENTIFIER ''a'') (AST_LITERAL ''7'') (AST_LITERAL ''4'')]"

definition demo_ternary :: JZExpr where
  "demo_ternary = AST_TERNARY (AST_BINARY ''LT'' (AST_IDENTIFIER ''a'') (AST_IDENTIFIER ''b'')) (AST_SPECIAL_DRIVER ''VCC'')
     (AST_BINARY ''SUB'' (AST_IDENTIFIER ''a'') (AST_IDENTIFIER ''b''))"

definition demo_env :: "string \<Rightarrow> nat" where
  "demo_env n = (if n = ''a'' then 250 else 7)"

definition demo_node :: "JZExpr \<Rightarrow> IR_Expr" where
  "demo_node e = (case ir_build_expr demo_scope 0 e of Some node \<Rightarrow> fst node | None \<Rightarrow> EXPR_NULL)"

lemma demo_scope_holds:
  assumes "is_number a 8 (env ''a'')" "is_number b 8 (env ''b'')"
  shows "no_mux demo_scope" "frame_ok (demo_frame a b)" "frame_declares demo_scope (demo_frame a b)"
    "frame_holds demo_scope env (demo_frame a b)"
proof -
  show "no_mux demo_scope" by code_simp
  have w: "width_of demo_scope (AST_IDENTIFIER ''a'') = 8" "width_of demo_scope (AST_IDENTIFIER ''b'') = 8" by code_simp+
  show "frame_ok (demo_frame a b)" using assms by (intro demo_frame_ok) (simp_all add: is_number_def)
  have s: "(n = ''a'' \<and> sym_id sb = 0) \<or> (n = ''b'' \<and> sym_id sb = 1)"
    if "module_scope_lookup (scope_symbols demo_scope) n = Some sb" for n sb
    using that by (auto simp: module_scope_lookup_def demo_scope_def demo_symbol_def split: if_splits)
  show "frame_declares demo_scope (demo_frame a b)"
    using assms w s by (fastforce simp: frame_declares_def signal_width_of_def demo_lookup demo_current is_number_def)
  show "frame_holds demo_scope env (demo_frame a b)"
    using assms w s by (fastforce simp: frame_holds_def demo_lookup demo_current)
qed

section \<open>Widths and values\<close>

text \<open>C19. Typing is sound for the simulator: the node an expression is lowered to, if the type
  checker gave every part of it a width between 1 and 256, evaluates in every well-formed frame
  that holds the declared signals to a well-formed value of the inferred width, whatever bits of
  the signals are unknown.\<close>

theorem lowering_preserves_widths:
  assumes "no_mux sc" "frame_ok f" "frame_declares sc f" "checked sc e" "ir_build_expr sc d e = Some node"
  shows "sim_val_wf (fst (sim_eval_expr f (fst node))) \<and>
         width (fst (sim_eval_expr f (fst node))) = uint (width_of sc e) \<and> frame_ok (snd (sim_eval_expr f (fst node)))"
  using expr_value_typed(1) [OF assms(2) lowered_width [OF assms(1,3,4,5)]] assms(2)
  by (simp add: sim_eval_expr_eq typed_def frame_ok_def)

theorem lowering_preserves_widths_witness:
  "width (fst (sim_eval_expr (demo_frame (sim_val_ones 8) (sim_val_zero 8)) (demo_node demo_concat))) = 12"
proof -
  have n: "is_number (sim_val_ones 8) 8 ((\<lambda>n. if n = ''a'' then uval (sim_val_ones 8) else 0) ''a'')"
    "is_number (sim_val_zero 8) 8 ((\<lambda>n. if n = ''a'' then uval (sim_val_ones 8) else 0) ''b'')"
    by (simp_all add: is_number_def known_def)
  have c: "checked demo_scope demo_concat" "width_of demo_scope demo_concat = 12"
    "ir_build_expr demo_scope 0 demo_concat = Some (demo_node demo_concat, None)" by code_simp+
  show ?thesis using lowering_preserves_widths [OF demo_scope_holds(1-3) [OF n] c(1,3)] c(2) by simp
qed



text \<open>C20. The only error the lowering of such an expression can meet is its depth.
  Assumed: the type checker gave every part of the expression a width from 1 to 256 (\<open>checked\<close>);
  the expression is \<open>plain\<close>: no multiplication, every identifier names a signal, literals have
  fewer than 256 digits, are not all z and are below 2^64 if decimal, and VCC is the branch of a
  ternary only up to 64 bits; and the scope has no MUX. Then the
  lowering returns a node if and only if the calls already open and the height of the expression
  together stay within the limit of 512, and refuses every deeper expression. (Without these
  conditions there are other refusals: an identifier that names a memory is never lowered.)\<close>

theorem lowering_refuses_depth:
  assumes "no_mux sc" "checked sc e" "plain sc e"
  shows "if unat d + expr_height e \<le> 512 then \<exists>node. ir_build_expr sc d e = Some node else ir_build_expr sc d e = None"
  using lowered_total [OF assms(1), of e d] assms(2,3) by (cases "ir_build_expr sc d e") (simp_all add: operand_ok_def)

theorem lowering_refuses_depth_witness:
  "ir_build_expr demo_scope 511 demo_concat = None \<and> ir_build_expr demo_scope 509 demo_concat \<noteq> None"
proof -
  have c: "no_mux demo_scope" "checked demo_scope demo_concat" "plain demo_scope demo_concat" by code_simp+
  have h: "expr_height demo_concat = 3" by (simp add: demo_concat_def identifier_name_def)
  show ?thesis using lowering_refuses_depth [OF c, of 511] lowering_refuses_depth [OF c, of 509] h by auto
qed

section \<open>What falls outside\<close>

text \<open>The type rule and the language give a product twice the width of its operands; the
  evaluator multiplies at the width of the operands and widens the result, so the upper half of
  the product is lost: 255 * 255 of two 8-bit values is 1 instead of 65025.\<close>

lemma product_upper_half_lost:
  "jz_type_binary JZ_BIN_MUL (jz_type_scalar 8 False) (jz_type_scalar 8 False) = Some (jz_type_scalar 16 False)"
  "binary_meaning JZ_BIN_MUL 8 255 255 = Some 65025"
  "uval (eval_binary EXPR_BINARY_MUL 16 (sim_val_from_uint 255 8) (sim_val_from_uint 255 8)) = 1"
proof -
  show "jz_type_binary JZ_BIN_MUL (jz_type_scalar 8 False) (jz_type_scalar 8 False) = Some (jz_type_scalar 16 False)" by code_simp
  let ?x = "sim_val_from_uint 255 8"
  have x: "sim_val_wf ?x" "known ?x" "uval ?x = 255" by (simp_all add: uval_from_uint)
  note m = sim_val_mul_known [OF x(1,1,2,2)]
  have "sim_val_wf ((sim_val_mul ?x ?x)\<lparr>width := 16\<rparr>)" using m by (intro sim_val_wf_widen) (simp_all add: max_width_def)
  then show "uval (eval_binary EXPR_BINARY_MUL 16 ?x ?x) = 1"
    using m x by (simp add: eval_binary_def eval_arith_def set_width_def width_or_def sim_val_mask_idem max_width_def)
  show "binary_meaning JZ_BIN_MUL 8 255 255 = Some 65025" by (simp add: binary_meaning_def)
qed

text \<open>VCC carries one word of ones, so as the branch of a ternary wider than 64 bits it is not all
  ones.\<close>

lemma wide_vcc_not_all_ones:
  "uval (expr_value f (set_driver_width 128 (lower_driver ''VCC''))) = 2 ^ 64 - 1"
  "driver_meaning 128 ''VCC'' = 2 ^ 128 - 1"
proof -
  have "set_driver_width 128 (lower_driver ''VCC'') =
    EXPR_LITERAL 128 \<lparr>lit_words = [UINT64_MAX, 0, 0, 0], lit_width = 128, lit_is_z = False\<rparr>" by code_simp
  then show "uval (expr_value f (set_driver_width 128 (lower_driver ''VCC''))) = 2 ^ 64 - 1"
    by (simp add: eval_literal_def Let_def uval_from_words unsigned_minus_1_eq_mask mask_eq_exp_minus_1)
  show "driver_meaning 128 ''VCC'' = 2 ^ 128 - 1" by (simp add: driver_meaning_def)
qed

text \<open>The type of a concatenation is the sum of the widths of its first sixteen elements, the
  node has them all.\<close>

lemma long_concat_typed_short:
  "width_of demo_scope (AST_CONCAT (replicate 17 (AST_IDENTIFIER ''a''))) = 128"
  "map_option (\<lambda>node. static_width (demo_frame (sim_val_zero 8) (sim_val_zero 8)) (fst node))
     (ir_build_expr demo_scope 0 (AST_CONCAT (replicate 17 (AST_IDENTIFIER ''a'')))) = Some (Some 136)"
  by code_simp+

text \<open>The same digits mean two things in a slice bound: alone they are decimal, in an arithmetic
  expression a leading zero makes them octal.\<close>

lemma bound_with_leading_zero:
  "ir_eval_slice_bound sc (AST_LITERAL ''010'') = Some 10"
  "ir_eval_slice_bound sc (AST_BINARY ''ADD'' (AST_LITERAL ''010'') (AST_LITERAL ''0'')) = Some 8"
proof -
  show "ir_eval_slice_bound sc (AST_LITERAL ''010'') = Some 10" unfolding ir_eval_slice_bound_def by code_simp
  have "u32_in_range (try_fast_const_eval (AST_BINARY ''ADD'' (AST_LITERAL ''010'') (AST_LITERAL ''0''))) = Some 8" by code_simp
  then show "ir_eval_slice_bound sc (AST_BINARY ''ADD'' (AST_LITERAL ''010'') (AST_LITERAL ''0'')) = Some 8"
    by (simp add: ir_eval_slice_bound_def)
qed

end
