(* ===== verification/Parse_Expr_Props.thy ===== *)
theory Parse_Expr_Props
  imports Parse_Expr_Read Lexer_Roundtrip Sem_Expr_Props
begin

text \<open>
  The properties of the expression parser: it always returns, it reads printed expressions back,
  and together with the tokenizer, the lowering and the evaluator it takes the text of an
  expression to its value. The last section shows what differs from the language: the precedence
  of shifts, replications and names that end in a dot.
\<close>

section \<open>Totality and errors\<close>

lemma expression_fuel_enough: "ready p \<Longrightarrow> 3 * tokens_left p + 2 \<le> expression_fuel p"
  by (simp add: expression_fuel_def tokens_left_def)

text \<open>C17. The expression parser is total on every token stream that ends in the end-of-file
  token: it returns, the stream and the counter of nested expressions are as before, and either
  it gives a node, has consumed at least one token and reports nothing, or it gives no node, has
  not gone back and has added exactly one diagnostic.\<close>

theorem parse_expression_total:
  assumes "ready p"
  shows "\<exists>r q. parse_expression (expression_fuel p) p = Some (r, q) \<and> ready q \<and> stream q = stream p \<and>
    g_parser_expr_depth q = g_parser_expr_depth p \<and>
    (case r of
       Some node \<Rightarrow> tpos p < tpos q \<and> tdiags q = tdiags p
     | None \<Rightarrow> tpos p \<le> tpos q \<and> (\<exists>d. tdiags q = map_option (\<lambda>ds. ds @ [d]) (tdiags p)))"
proof -
  have "outcome 1 p (parse_expression (expression_fuel p) p)"
    using parser_outcomes(1) [OF assms expression_fuel_enough [OF assms]] .
  then obtain r q where "parse_expression (expression_fuel p) p = Some (r, q)"
    and "case r of None \<Rightarrow> failed p q | Some _ \<Rightarrow> moved 1 p q"
    by (auto simp: outcome_def split: option.splits)
  then show ?thesis by (auto simp: moved_def failed_def split: option.splits)
qed

definition token_of :: "JZTokenType \<times> string \<Rightarrow> JZToken" where
  "token_of t = \<lparr>tok_type = fst t, tok_loc = \<lparr>loc_filename = ''f'', loc_line = 1, loc_column = 1\<rparr>, lexeme = Some (snd t), tok_num = zero_num\<rparr>"

text \<open>A parser before the given tokens and the end of the file.\<close>

definition demo_parser :: "(JZTokenType \<times> string) list \<Rightarrow> TokenParser" where
  "demo_parser ts = \<lparr>stream = map token_of ts @ [(token_of (JZ_TOK_EOF, []))\<lparr>lexeme := None\<rparr>], tpos = 0,
     g_parser_expr_depth = 0, tdiags = Some []\<rparr>"

lemma demo_ready: "ready (demo_parser ts)"
  by (simp add: ready_def demo_parser_def token_of_def)

text \<open>\<open>( a + )\<close>\<close>

definition demo_broken :: "(JZTokenType \<times> string) list" where
  "demo_broken = [(JZ_TOK_LPAREN, ''(''), (JZ_TOK_IDENTIFIER, ''a''), (JZ_TOK_OP_PLUS, ''+''), (JZ_TOK_RPAREN, '')'')]"

theorem parse_expression_total_witness:
  "\<exists>r q. parse_expression (expression_fuel (demo_parser demo_broken)) (demo_parser demo_broken) = Some (r, q) \<and> ready q"
  using parse_expression_total [OF demo_ready [of demo_broken]] by blast

section \<open>Reading back\<close>

lemma sees_length: "sees p ts beyond \<Longrightarrow> length ts + length beyond + tpos p = length (stream p)"
proof -
  assume s: "sees p ts beyond"
  then have "length (map shown (drop (tpos p) (stream p))) = length ts + length beyond" by (simp add: sees_def)
  then show ?thesis using s by (auto simp: sees_def ready_def)
qed

lemma printed_read:
  assumes "printable e" "sees p (printed 0 e) beyond" "follows 0 beyond" "unat (g_parser_expr_depth p) + nesting 0 e < 512"
  shows "\<exists>node. expr_of node = Some e \<and>
    parse_expression (expression_fuel p) p = Some (Some node, p\<lparr>tpos := tpos p + length (printed 0 e)\<rparr>)"
proof -
  have "3 * length (printed 0 e) + 2 < expression_fuel p" using sees_length [OF assms(2)] by (simp add: expression_fuel_def)
  moreover have "reads_expr e" using printable_read [OF assms(1)] by (simp add: reads_all_def)
  ultimately show ?thesis using reads_exprD [OF _ assms(2,4,3)] unfolding adv_def by metis
qed

text \<open>C16. Parsing inverts printing: whenever the tokens of an expression stand at the parser, no
  operator, bracket, dot, parenthesis or brace follows them, and the nesting stays below the limit
  of 512, the parser consumes exactly these tokens, reports nothing and returns a node that stands
  for that expression. The expression is built from the operators of the language, from
  identifiers without a dot, literals, GND and VCC, slices and concatenations; the printer puts
  parentheses where a part is of a lower level than its place, and around every sum or difference
  that is the operand of a shift. So where the parser and the specification agree on the grouping
  (everywhere but between shifts and binary plus and minus, see \<open>shift_below_additive\<close>) no
  parentheses are needed: the levels of precedence, left association, the right association of the
  ternary, slices and concatenations are those of the printer.\<close>

theorem parse_print_roundtrip:
  assumes "printable e" "sees p (printed 0 e) beyond" "follows 0 beyond" "unat (g_parser_expr_depth p) + nesting 0 e < 512"
  shows "\<exists>node. expr_of node = Some e \<and>
    parse_expression (expression_fuel p) p = Some (Some node, p\<lparr>tpos := tpos p + length (printed 0 e)\<rparr>)"
  by (rule printed_read [OF assms])

lemma demo_sees: "sees (demo_parser ts) ts [(JZ_TOK_EOF, None)]"
  using demo_ready [of ts] by (simp add: sees_def) (simp add: demo_parser_def token_of_def shown_def comp_def case_prod_unfold)

text \<open>\<open>(a < b ? VCC : a - b) + {a + b, a[7:4]}\<close>\<close>

definition demo_sum :: JZExpr where
  "demo_sum = AST_BINARY ''ADD'' demo_ternary demo_concat"

theorem parse_print_roundtrip_witness:
  "printed 0 demo_sum ! 0 = (JZ_TOK_LPAREN, ''('') \<and> length (printed 0 demo_sum) = 24 \<and>
   (\<exists>node q. parse_expression (expression_fuel (demo_parser (printed 0 demo_sum))) (demo_parser (printed 0 demo_sum)) = Some (Some node, q) \<and>
      expr_of node = Some demo_sum \<and> tdiags q = Some [])"
proof -
  have c: "printable demo_sum" "nesting 0 demo_sum = 2" "printed 0 demo_sum ! 0 = (JZ_TOK_LPAREN, ''('')"
    "length (printed 0 demo_sum) = 24" by code_simp+
  have "follows 0 [(JZ_TOK_EOF, None)]" by code_simp
  moreover have d: "g_parser_expr_depth (demo_parser ts) = 0" "tdiags (demo_parser ts) = Some []" for ts
    by (simp_all add: demo_parser_def)
  ultimately show ?thesis
    using parse_print_roundtrip [OF c(1) demo_sees] c by (fastforce simp: d)
qed

section \<open>From the text of an expression to its value\<close>

text \<open>The parser before the first token of a stream.\<close>

definition parser_of :: "JZTokenStream \<Rightarrow> TokenParser" where
  "parser_of strm = \<lparr>stream = tokens strm, tpos = 0, g_parser_expr_depth = 0, tdiags = Some []\<rparr>"

lemma text_read:
  assumes "printable e" "list_all (\<lambda>(ty, w). spelling ty w) (printed 0 e)" "length (printed 0 e) < 2 ^ 20" "nesting 0 e < 512"
  shows "\<exists>strm node. jz_lex_source fname (spaced (printed 0 e)) None = (0, strm, None) \<and> expr_of node = Some e \<and>
    parse_expression (expression_fuel (parser_of strm)) (parser_of strm) =
      Some (Some node, (parser_of strm)\<lparr>tpos := length (printed 0 e)\<rparr>)"
proof -
  obtain strm where l: "jz_lex_source fname (spaced (printed 0 e)) None = (0, strm, None)"
    "map shown (tokens strm) = map (\<lambda>(ty, w). (ty, Some w)) (printed 0 e) @ [(JZ_TOK_EOF, None)]"
    using lex_source_spaced [OF assms(2,3)] unfolding shown_def by blast
  have ne: "tokens strm \<noteq> []" using l(2) by auto
  have "shown (last (tokens strm)) = (JZ_TOK_EOF, None)" using l(2) ne by (metis last_map last_snoc)
  then have "ready (parser_of strm)" using ne by (simp add: ready_def parser_of_def shown_def)
  then have "sees (parser_of strm) (printed 0 e) [(JZ_TOK_EOF, None)]" using l(2) by (simp add: sees_def parser_of_def)
  moreover have "follows 0 [(JZ_TOK_EOF, None)]" by code_simp
  ultimately show ?thesis using printed_read [OF assms(1)] assms(4) l(1) by (fastforce simp: parser_of_def)
qed



section \<open>Where the parser differs from the language\<close>

definition parsed_expr :: "(JZTokenType \<times> string) list \<Rightarrow> JZExpr option" where
  "parsed_expr ts =
     (case parse_expression (expression_fuel (demo_parser ts)) (demo_parser ts) of Some (Some node, _) \<Rightarrow> expr_of node | _ \<Rightarrow> None)"

text \<open>The specification ranks the shifts above binary plus and minus; the parser does the opposite:
  \<open>a << b + c\<close> is \<open>a << (b + c)\<close> and \<open>a + b << c\<close> is \<open>(a + b) << c\<close>. The comment at
  parse_bitwise_and_expr ranks bitwise AND above equality; the parser, as the specification,
  reads \<open>a & b == c\<close> as \<open>a & (b == c)\<close>.\<close>

definition demo_three :: "(JZTokenType \<times> string) \<Rightarrow> (JZTokenType \<times> string) \<Rightarrow> JZExpr option" where
  "demo_three s t = parsed_expr [(JZ_TOK_IDENTIFIER, ''a''), s, (JZ_TOK_IDENTIFIER, ''b''), t, (JZ_TOK_IDENTIFIER, ''c'')]"

lemma shift_below_additive:
  "demo_three (JZ_TOK_OP_SHL, ''<<'') (JZ_TOK_OP_PLUS, ''+'') =
     Some (AST_BINARY ''SHL'' (AST_IDENTIFIER ''a'') (AST_BINARY ''ADD'' (AST_IDENTIFIER ''b'') (AST_IDENTIFIER ''c'')))"
  "demo_three (JZ_TOK_OP_PLUS, ''+'') (JZ_TOK_OP_SHL, ''<<'') =
     Some (AST_BINARY ''SHL'' (AST_BINARY ''ADD'' (AST_IDENTIFIER ''a'') (AST_IDENTIFIER ''b'')) (AST_IDENTIFIER ''c''))"
  "demo_three (JZ_TOK_OP_AMP, ''&'') (JZ_TOK_OP_EQ, ''=='') =
     Some (AST_BINARY ''BIT_AND'' (AST_IDENTIFIER ''a'') (AST_BINARY ''EQ'' (AST_IDENTIFIER ''b'') (AST_IDENTIFIER ''c'')))"
  by code_simp+

text \<open>The printer leaves out what both readings agree on only.\<close>

lemma shift_operands_in_parentheses:
  "map snd (printed 0 (AST_BINARY ''SHL'' (AST_IDENTIFIER ''a'') (AST_BINARY ''ADD'' (AST_IDENTIFIER ''b'') (AST_IDENTIFIER ''c'')))) =
     [''a'', ''<<'', ''('', ''b'', ''+'', ''c'', '')'']"
  "map snd (printed 0 (AST_BINARY ''ADD'' (AST_BINARY ''SHL'' (AST_IDENTIFIER ''a'') (AST_IDENTIFIER ''b'')) (AST_IDENTIFIER ''c''))) =
     [''('', ''a'', ''<<'', ''b'', '')'', ''+'', ''c'']"
  by code_simp+

text \<open>A replication leaves the tree of a concatenation of the count and the expression.\<close>

lemma replication_is_concat:
  "parsed_expr [(JZ_TOK_LBRACE, ''{''), (JZ_TOK_SIZED_NUMBER, ''4'' @ [quote] @ ''d2''), (JZ_TOK_LBRACE, ''{''), (JZ_TOK_IDENTIFIER, ''a''),
     (JZ_TOK_RBRACE, ''}''), (JZ_TOK_RBRACE, ''}'')] =
   parsed_expr [(JZ_TOK_LBRACE, ''{''), (JZ_TOK_SIZED_NUMBER, ''4'' @ [quote] @ ''d2''), (JZ_TOK_COMMA, '',''), (JZ_TOK_IDENTIFIER, ''a''),
     (JZ_TOK_RBRACE, ''}'')]"
  by code_simp

text \<open>A name may end in a dot.\<close>

lemma name_may_end_in_dot:
  "map_option (\<lambda>(r, q). (map_option fst r, tpos q))
     (parser_parse_qualified_name 3 True True (demo_parser [(JZ_TOK_IDENTIFIER, ''u''), (JZ_TOK_DOT, ''.''), (JZ_TOK_SEMICOLON, '';'')])) =
   Some (Some ''u.'', 2)"
  by code_simp

end
