(* ===== verification/Sim_Create.thy ===== *)
theory Sim_Create
  imports Sim_Settle_Live
begin

text \<open>
  Construction of contexts: the random number generator, the signal table and its id map, the
  initial frame, and the recursion through the instance hierarchy. The frames made by
  \<open>sim_ctx_create\<close> satisfy the invariants that evaluation, execution and settling rely on.
\<close>

section \<open>Definitions\<close>

text \<open>What the earlier compiler phases promise of a module; the upper bounds on widths are
  not part of it, \<open>sim_ctx_create\<close> checks them.\<close>

definition module_ok :: "IR_Module \<Rightarrow> bool" where
  "module_ok m \<longleftrightarrow>
     distinct (map sig_id (module_signals m)) \<and>
     list_all (\<lambda>s. 0 \<le> sig_id s \<and> 0 < sig_width s) (module_signals m) \<and>
     list_all (\<lambda>x. 0 < mem_word_width x) (module_memories m)"

text \<open>Every context of an instance tree, the root first.\<close>

fun tree_frames :: "SimContext \<Rightarrow> SimFrame list"
and child_frames :: "SimChildInstance \<Rightarrow> SimFrame list" where
  "tree_frames (SimContext f cs) = f # concat (map child_frames cs)"
| "child_frames (SimChildInstance None inst m im om) = []"
| "child_frames (SimChildInstance (Some c) inst m im om) = tree_frames c"

text \<open>A height of the instance hierarchy: every instantiated module is lower than its parent.\<close>

definition hierarchical :: "(int \<Rightarrow> nat) \<Rightarrow> IR_Design \<Rightarrow> bool" where
  "hierarchical h d \<longleftrightarrow>
     (\<forall>m \<in> set (design_modules d). \<forall>i \<in> set (instances m). \<forall>c.
        find_module d (child_module_id i) = Some c \<longrightarrow> h (module_id c) < h (module_id m))"

text \<open>With distinct ids the map sends an id to the position of its signal and every other index to -1.\<close>

definition id_position :: "IR_Module \<Rightarrow> int \<Rightarrow> nat option" where
  "id_position m i = find_index (\<lambda>s. sig_id s = i) (module_signals m)"

text \<open>One round of the loop over the instances.\<close>

definition create_child :: "nat \<Rightarrow> SimFrame \<Rightarrow> IR_Design \<Rightarrow> u32 \<Rightarrow> nat \<Rightarrow> IR_Instance \<Rightarrow> SimChildInstance option" where
  "create_child fuel f design rng_seed i inst =
     (case find_module design (child_module_id inst) of
        None \<Rightarrow> Some (SimChildInstance None inst None [] [])
      | Some cm \<Rightarrow>
          (case sim_ctx_create fuel cm design (rng_seed + of_nat i + 1) of
             None \<Rightarrow> None
           | Some None \<Rightarrow> Some (SimChildInstance None inst (Some cm) [] [])
           | Some (Some c) \<Rightarrow>
               Some (SimChildInstance (Some c) inst (Some cm)
                 (build_maps f (frame c) inst (\<lambda>d. d = PORT_IN \<or> d = PORT_INOUT))
                 (build_maps f (frame c) inst (\<lambda>d. d = PORT_OUT \<or> d = PORT_INOUT)))))"

section \<open>The random number generator\<close>

lemma xor_push_eq_0:
  assumes "x XOR push_bit n x = (0 :: u32)" "0 < n"
  shows "x = 0"
proof (rule bit_word_eqI)
  fix i assume "i < LENGTH(32)"
  then show "bit x i = bit (0 :: u32) i"
  proof (induction i rule: less_induct)
    case (less i)
    have "bit x i = (n \<le> i \<and> bit x (i - n))"
      using arg_cong [OF assms(1), of "\<lambda>w. bit w i"] less.prems by (simp add: bit_xor_iff bit_push_bit_iff)
    then show ?case using less.IH [of "i - n"] less.prems assms(2) by auto
  qed
qed

lemma xor_drop_eq_0:
  assumes "x XOR drop_bit n x = (0 :: u32)" "0 < n"
  shows "x = 0"
proof -
  have "k < 32 \<longrightarrow> \<not> bit x (31 - k)" for k
  proof (induction k rule: less_induct)
    case (less k)
    show ?case
    proof
      assume k: "k < 32"
      have eq: "bit x (31 - k) = bit x (n + (31 - k))"
        using arg_cong [OF assms(1), of "\<lambda>w. bit w (31 - k)"] by (simp add: bit_xor_iff bit_drop_bit_eq)
      show "\<not> bit x (31 - k)"
      proof (cases "n + (31 - k) < 32")
        case True
        then have "n + (31 - k) = 31 - (k - n)" "k - n < k" using assms(2) k by auto
        then show ?thesis using less.IH [of "k - n"] eq k by simp
      next
        case False
        then show ?thesis using bit_imp_le_length [of x "n + (31 - k)"] eq by auto
      qed
    qed
  qed
  note top = this
  have "\<not> bit x (31 - (31 - i))" if "i < 32" for i using top [of "31 - i"] by simp
  moreover have "31 - (31 - i) = i" if "i < 32" for i :: nat using that by simp
  ultimately have "\<not> bit x i" if "i < 32" for i using that by metis
  then show ?thesis by (intro bit_word_eqI) simp
qed

text \<open>The three linear steps of the generator are injective, so it permutes the non-zero states.\<close>

lemma xor_eq_0D: "x XOR y = (0 :: u32) \<Longrightarrow> x = y"
proof (rule bit_word_eqI)
  fix i assume "x XOR y = 0"
  from arg_cong [OF this, of "\<lambda>w. bit w i"] show "bit x i = bit y i" by (simp add: bit_xor_iff)
qed

lemma linear_inj:
  assumes "\<And>x y. g (x XOR y) = g x XOR g (y :: u32)" "\<And>x. g x = 0 \<Longrightarrow> x = 0" "g x = g y"
  shows "x = y"
  using assms(1) [of x y] assms(2) [of "x XOR y"] assms(3) xor_eq_0D by simp

lemma shift_steps_linear:
  "(x XOR y) XOR push_bit n (x XOR y) = (x XOR push_bit n x) XOR (y XOR push_bit n (y :: u32))"
  "(x XOR y) XOR drop_bit n (x XOR y) = (x XOR drop_bit n x) XOR (y XOR drop_bit n (y :: u32))"
  by (rule bit_word_eqI; auto simp: bit_xor_iff bit_push_bit_iff bit_drop_bit_eq)+

lemma shift_steps_inj:
  "x XOR push_bit n x = y XOR push_bit n y \<Longrightarrow> 0 < n \<Longrightarrow> x = (y :: u32)"
  "x XOR drop_bit n x = y XOR drop_bit n y \<Longrightarrow> 0 < n \<Longrightarrow> x = (y :: u32)"
  using linear_inj [of "\<lambda>x. x XOR push_bit n x"] linear_inj [of "\<lambda>x. x XOR drop_bit n x"]
    shift_steps_linear xor_push_eq_0 xor_drop_eq_0 by blast+

lemma sim_rng_next_nonzero: "sim_rng_next s \<noteq> 0"
proof
  define x0 x1 x2 where "x0 = (if s = 0 then 1 else s)" and "x1 = x0 XOR push_bit 13 x0" and "x2 = x1 XOR drop_bit 17 x1"
  assume "sim_rng_next s = 0"
  then have "x2 XOR push_bit 5 x2 = 0" by (simp only: sim_rng_next_def Let_def x0_def x1_def x2_def)
  then have "x2 = 0" by (rule xor_push_eq_0) simp
  then have "x1 = 0" unfolding x2_def by (rule xor_drop_eq_0) simp
  then have "x0 = 0" unfolding x1_def by (rule xor_push_eq_0) simp
  then show False by (simp add: x0_def split: if_splits)
qed

lemma sim_rng_next_inj:
  assumes "s \<noteq> 0" "t \<noteq> 0" "sim_rng_next s = sim_rng_next t"
  shows "s = t"
proof -
  define a b where "a x = x XOR push_bit 13 x" and "b x = x XOR drop_bit 17 x" for x :: u32
  have "b (a s) XOR push_bit 5 (b (a s)) = b (a t) XOR push_bit 5 (b (a t))"
    using assms by (simp only: sim_rng_next_def Let_def a_def b_def if_False)
  then have "b (a s) = b (a t)" by (rule shift_steps_inj(1)) simp
  then have "a s = a t" unfolding b_def by (rule shift_steps_inj(2)) simp
  then show "s = t" unfolding a_def by (rule shift_steps_inj(1)) simp
qed

section \<open>The signal table and the id map\<close>

lemma max_signal_id_bounds:
  "s \<in> set (module_signals m) \<Longrightarrow> sig_id s \<le> max_signal_id m" "-1 \<le> max_signal_id m"
proof -
  have "x \<le> fold (\<lambda>s mx. if sig_id s > mx then sig_id s else mx) ss x \<and>
        (\<forall>s \<in> set ss. sig_id s \<le> fold (\<lambda>s mx. if sig_id s > mx then sig_id s else mx) ss x)" for ss :: "IR_Signal list" and x
  proof (induction ss arbitrary: x)
    case (Cons a ss)
    show ?case using Cons.IH [of "sig_id a"] Cons.IH [of x] by (simp; linarith)
  qed simp
  then show "s \<in> set (module_signals m) \<Longrightarrow> sig_id s \<le> max_signal_id m" "-1 \<le> max_signal_id m"
    by (auto simp: max_signal_id_def)
qed

lemma find_index_Some: "find_index P xs = Some i \<longleftrightarrow> i < length xs \<and> P (xs ! i) \<and> (\<forall>j < i. \<not> P (xs ! j))"
proof (induction xs arbitrary: i)
  case (Cons x xs)
  then show ?case by (cases i) (auto simp: less_Suc_eq_0_disj)
qed simp

lemma find_index_None: "find_index P xs = None \<longleftrightarrow> (\<forall>x \<in> set xs. \<not> P x)"
  by (induction xs) auto

lemma find_index_append:
  "find_index P (xs @ [x]) =
     (case find_index P xs of Some k \<Rightarrow> Some k | None \<Rightarrow> if P x then Some (length xs) else None)"
  by (induction xs) (auto split: option.splits)

lemma id_position_nth:
  assumes "module_ok m" "k < length (module_signals m)"
  shows "id_position m (sig_id (module_signals m ! k)) = Some k"
  using assms nth_eq_iff_index_eq [of "map sig_id (module_signals m)"]
  by (auto simp: id_position_def find_index_Some module_ok_def)

lemma init_sig_id_map_props:
  assumes "module_ok m"
  shows "length (init_sig_id_map m) = nat (max_signal_id m + 1)"
    "0 \<le> i \<Longrightarrow> i \<le> max_signal_id m \<Longrightarrow> init_sig_id_map m ! nat i = (case id_position m i of None \<Rightarrow> -1 | Some k \<Rightarrow> int k)"
proof -
  define ss mx where "ss = module_signals m" and "mx = max_signal_id m"
  define P where "P n mp \<longleftrightarrow> length mp = nat (mx + 1) \<and>
      (\<forall>i. 0 \<le> i \<and> i \<le> mx \<longrightarrow> mp ! nat i = (case find_index (\<lambda>s. sig_id s = i) (take n ss) of None \<Rightarrow> -1 | Some k \<Rightarrow> int k))"
    for n :: nat and mp :: "int list"
  have mem: "sig_id (ss ! n) \<le> mx \<and> 0 \<le> sig_id (ss ! n)" if "n < length ss" for n
    using that max_signal_id_bounds(1) assms by (auto simp: ss_def mx_def module_ok_def list_all_iff)
  have dist: "distinct (map sig_id ss)" using assms by (simp add: module_ok_def ss_def)
  have P: "P (length ss) (init_sig_id_map m)"
    unfolding init_sig_id_map_def Let_def ss_def [symmetric] mx_def [symmetric]
  proof (rule for_loop_invariant, goal_cases)
    case 1
    then show ?case by (auto simp: P_def)
  next
    case (2 n mp)
    note n = "2"(1) and IH = "2"(2)
    have new: "find_index (\<lambda>s. sig_id s = i) (take (Suc n) ss) =
        (if i = sig_id (ss ! n) then Some n else find_index (\<lambda>s. sig_id s = i) (take n ss))" for i
    proof -
      have "find_index (\<lambda>s. sig_id s = sig_id (ss ! n)) (take n ss) = None"
        using dist n by (auto simp: find_index_None in_set_conv_nth distinct_conv_nth)
      then show ?thesis using n by (auto simp: take_Suc_conv_app_nth find_index_append split: option.split)
    qed
    show ?case
      using IH mem [OF n] unfolding P_def new by (auto simp: Let_def nth_list_update)
  qed
  then show "length (init_sig_id_map m) = nat (max_signal_id m + 1)" by (simp add: P_def mx_def)
  show "0 \<le> i \<Longrightarrow> i \<le> max_signal_id m \<Longrightarrow> init_sig_id_map m ! nat i = (case id_position m i of None \<Rightarrow> -1 | Some k \<Rightarrow> int k)"
    using P by (simp add: P_def mx_def ss_def id_position_def)
qed

lemma init_signals_props:
  "length (fst (init_signals ss rng)) = length ss"
  "list_all (\<lambda>s. 0 < sig_width s \<and> sig_width s \<le> 256) ss \<Longrightarrow>
     list_all2 (\<lambda>s e. entry_ok e \<and> width (current e) = sig_width s \<and> signal_id e = sig_id s \<and> \<not> has_pending e)
       ss (fst (init_signals ss rng))"
proof (induction ss arbitrary: rng)
  case (Cons s ss)
  { case 1 then show ?case using Cons by (simp add: case_prod_beta Let_def) }
  { case 2
    then have "entry_ok (fst (init_signal s rng)) \<and> width (current (fst (init_signal s rng))) = sig_width s \<and>
        signal_id (fst (init_signal s rng)) = sig_id s \<and> \<not> has_pending (fst (init_signal s rng))"
      by (simp add: init_signal_def random_value_def entry_ok_def case_prod_beta Let_def)
    then show ?case using 2 Cons by (simp add: case_prod_beta Let_def) }
qed simp_all

lemma init_cells_props:
  "length (fst (init_cells n w rng)) = n"
  "0 < w \<Longrightarrow> w \<le> 256 \<Longrightarrow> \<forall>c \<in> set (fst (init_cells n w rng)). sim_val_wf c \<and> width c = w"
proof (induction n arbitrary: rng)
  case (Suc n)
  { case 1 then show ?case using Suc by (simp add: case_prod_beta Let_def) }
  { case 2 then show ?case using Suc by (simp add: random_value_def case_prod_beta Let_def) }
qed simp_all

lemma init_memory_ok:
  "0 < mem_word_width x \<Longrightarrow> mem_word_width x \<le> 256 \<Longrightarrow> memory_ok (fst (init_memory x rng))"
  using init_cells_props(1) [of "nat (mem_depth x)" "mem_word_width x" rng]
    init_cells_props(2) [of "mem_word_width x" "nat (mem_depth x)" rng]
  by (simp add: init_memory_def memory_ok_def case_prod_beta Let_def)

lemma init_memories_ok:
  "list_all (\<lambda>x. 0 < mem_word_width x \<and> mem_word_width x \<le> 256) xs \<Longrightarrow>
     list_all memory_ok (fst (init_memories xs rng))"
  by (induction xs arbitrary: rng) (simp_all add: case_prod_beta Let_def init_memory_ok)

section \<open>The initial frame\<close>

lemma create_frame_tables:
  "ctx_module (create_frame m s) = m" "sig_id_map (create_frame m s) = init_sig_id_map m"
  "max_sig_id (create_frame m s) = max_signal_id m" "signals (create_frame m s) = fst (init_signals (module_signals m) s)"
  "sig_dirty (create_frame m s) = replicate (length (module_signals m)) True"
  "\<exists>r. memories (create_frame m s) = fst (init_memories (module_memories m) r)"
  "length (signals (create_frame m s)) = length (module_signals m)"
  by (auto simp: create_frame_def case_prod_beta Let_def init_signals_props(1))

lemma create_frame_lookup:
  assumes "module_ok m"
  shows "sim_ctx_lookup (create_frame m s) i = id_position m i"
proof (cases "0 \<le> i \<and> i \<le> max_signal_id m")
  case True
  then show ?thesis
    using init_sig_id_map_props(2) [OF assms, of i]
    by (simp add: sim_ctx_lookup_def create_frame_tables Let_def split: option.split)
next
  case False
  then have "id_position m i = None"
    using assms max_signal_id_bounds(1) [of _ m] by (auto simp: id_position_def find_index_None module_ok_def list_all_iff)
  then show ?thesis using False by (auto simp: sim_ctx_lookup_def create_frame_tables)
qed

lemma id_position_range: "id_position m i = Some k \<Longrightarrow> k < length (module_signals m) \<and> sig_id (module_signals m ! k) = i"
  by (simp add: id_position_def find_index_Some)

lemma map_entry:
  assumes "module_ok m" "j < length (init_sig_id_map m)" "0 \<le> init_sig_id_map m ! j"
  shows "\<exists>k. init_sig_id_map m ! j = int k \<and> id_position m (int j) = Some k"
proof -
  have "j < nat (max_signal_id m + 1)" using assms(2) init_sig_id_map_props(1) [OF assms(1)] by simp
  then show ?thesis
    using init_sig_id_map_props(2) [OF assms(1), of "int j"] assms(3) by (auto split: option.splits)
qed

lemma distinct_filterI:
  "(\<And>i j. i < length xs \<Longrightarrow> j < length xs \<Longrightarrow> P (xs ! i) \<Longrightarrow> xs ! i = xs ! j \<Longrightarrow> i = j) \<Longrightarrow> distinct (filter P xs)"
proof (induction xs)
  case (Cons x xs)
  have "x \<notin> set xs" if "P x"
  proof
    assume "x \<in> set xs"
    then obtain j where "j < length xs" "xs ! j = x" by (auto simp: in_set_conv_nth)
    then show False using Cons.prems [of 0 "Suc j"] that by simp
  qed
  moreover have "distinct (filter P xs)" using Cons.IH Cons.prems [of "Suc _" "Suc _"] by simp
  ultimately show ?case by simp
qed simp

lemma create_frame_ok:
  assumes "module_ok m" "signals_fit m" "list_all memory_fits (module_memories m)"
  shows "frame_ok (create_frame m s)" "lookup_inj (create_frame m s)"
proof -
  have w: "list_all (\<lambda>s. 0 < sig_width s \<and> sig_width s \<le> 256) (module_signals m)"
    "list_all (\<lambda>x. 0 < mem_word_width x \<and> mem_word_width x \<le> 256) (module_memories m)"
    using assms by (auto simp: module_ok_def signals_fit_def memory_fits_def max_sim_width_def list_all_iff split: if_splits)
  have ent: "list_all entry_ok (signals (create_frame m s))"
    using init_signals_props(2) [OF w(1), of s] by (simp add: create_frame_tables list_all2_conv_all_nth list_all_length)
  have mem: "list_all memory_ok (memories (create_frame m s))"
    using create_frame_tables(6) [of m s] init_memories_ok [OF w(2)] by auto
  have rng: "list_all (\<lambda>x. x < int (length (module_signals m))) (init_sig_id_map m)"
    using map_entry [OF assms(1)] id_position_range by (fastforce simp: list_all_length not_less)
  show "frame_ok (create_frame m s)"
    using ent mem rng init_sig_id_map_props(1) [OF assms(1)] max_signal_id_bounds(2) [of m]
    by (simp add: frame_ok_def create_frame_tables init_signals_props(1))
  show "lookup_inj (create_frame m s)"
    unfolding lookup_inj_def create_frame_tables
  proof (rule distinct_filterI)
    fix i j assume ij: "i < length (init_sig_id_map m)" "j < length (init_sig_id_map m)"
      "0 \<le> init_sig_id_map m ! i" "init_sig_id_map m ! i = init_sig_id_map m ! j"
    then obtain k where "id_position m (int i) = Some k" "id_position m (int j) = Some k"
      using map_entry [OF assms(1), of i] map_entry [OF assms(1), of j] by auto
    then show "i = j" using id_position_range by (metis of_nat_eq_iff)
  qed
qed

section \<open>The asynchronous chunks of a new frame\<close>

lemma build_async_chunks_tables:
  "ctx_module (build_async_chunks f) = ctx_module f" "signals (build_async_chunks f) = signals f"
  "sig_id_map (build_async_chunks f) = sig_id_map f" "max_sig_id (build_async_chunks f) = max_sig_id f"
  "memories (build_async_chunks f) = memories f" "sig_dirty (build_async_chunks f) = sig_dirty f"
  "sim_ctx_lookup (build_async_chunks f) = sim_ctx_lookup f" "frame_ok (build_async_chunks f) = frame_ok f"
  "lookup_inj (build_async_chunks f) = lookup_inj f" "chunks_built (build_async_chunks f)"
proof -
  show l: "sim_ctx_lookup (build_async_chunks f) = sim_ctx_lookup f"
    by (simp add: build_async_chunks_def sim_ctx_lookup_def fun_eq_iff)
  have "make_chunk (build_async_chunks f) = make_chunk f"
    by (simp add: fun_eq_iff make_chunk_def sigids_to_indices_def l)
  then show "chunks_built (build_async_chunks f)" by (simp add: chunks_built_def) (simp add: build_async_chunks_def)
qed (simp_all add: build_async_chunks_def frame_ok_def lookup_inj_def)

text \<open>Every signal of a new frame is dirty, so every chunk runs in the first pass.\<close>

lemma all_dirty_needs_exec:
  assumes "frame_ok f" "sig_dirty f = replicate (length (signals f)) True"
  shows "needs_exec f (make_chunk f s)"
proof (cases "read_indices (make_chunk f s)")
  case (Cons r rs)
  then have "r \<in> set (read_indices (make_chunk f s))" by simp
  then have "r < length (signals f)" using make_chunk_sets(2) [of f s] lookup_range [OF assms(1)] by auto
  then show ?thesis using Cons assms(2) by (simp add: needs_exec_def)
qed (simp add: needs_exec_def)

lemma created_settle_inv:
  fixes seed :: u32
  assumes "module_ok m" "signals_fit m" "list_all memory_fits (module_memories m)"
  defines "f \<equiv> build_async_chunks (create_frame m seed)"
  assumes "disjoint_writes (async_chunks f)"
    and "list_all (\<lambda>s. stmt_ok f s \<and> \<not> writes_memory s) (async_stmts (async_block m))"
  shows "settle_inv f"
proof -
  have f: "frame_ok f" "chunks_built f" "ctx_module f = m"
    using create_frame_ok(1) [OF assms(1-3)] by (simp_all add: f_def build_async_chunks_tables create_frame_tables)
  have d: "sig_dirty f = replicate (length (signals f)) True"
    by (simp add: f_def build_async_chunks_tables create_frame_tables init_signals_props(1))
  have ch: "async_chunks f = map (make_chunk f) (async_stmts (async_block m))" using f(2,3) by (simp add: chunks_built_def)
  show ?thesis
    using assms(5,6) f all_dirty_needs_exec [OF f(1) d] ch
    by (auto simp: settle_inv_def async_ok_def list_all_iff make_chunk_sets(1))
qed

section \<open>The instance hierarchy\<close>

lemma find_module_in: "find_module d i = Some c \<Longrightarrow> c \<in> set (design_modules d)"
  by (auto simp: find_module_def find_Some_iff)

lemma create_children_Cons:
  "create_children fuel f d s i (inst # insts) =
     (case create_child fuel f d s i inst of None \<Rightarrow> None
      | Some ci \<Rightarrow> map_option ((#) ci) (create_children fuel f d s (Suc i) insts))"
  by (simp add: create_child_def map_option_case cong: option.case_cong)

declare create_children.simps(2) [simp del]

lemma create_child_None:
  "create_child fuel f d s i inst = None \<longleftrightarrow>
     (\<exists>cm. find_module d (child_module_id inst) = Some cm \<and> sim_ctx_create fuel cm d (s + of_nat i + 1) = None)"
  by (auto simp: create_child_def split: option.splits)

text \<open>With more fuel than the height of the module, creation returns.\<close>

lemma sim_ctx_create_returns:
  "hierarchical h d \<Longrightarrow> m \<in> set (design_modules d) \<Longrightarrow> h (module_id m) < fuel \<Longrightarrow> sim_ctx_create fuel m d s \<noteq> None"
  "hierarchical h d \<Longrightarrow> (\<forall>i \<in> set insts. \<forall>c. find_module d (child_module_id i) = Some c \<longrightarrow> h (module_id c) < fuel) \<Longrightarrow>
     create_children fuel f d s k insts \<noteq> None"
proof (induction fuel m d s and fuel f d s k insts rule: sim_ctx_create_create_children.induct)
  case (2 fuel m design rng_seed)
  have "h (module_id c) < fuel" if "i \<in> set (instances m)" "find_module design (child_module_id i) = Some c" for i c
    using "2.prems" that by (fastforce simp: hierarchical_def)
  then show ?case using "2.IH" [OF _ _ refl] "2.prems"(1) by (auto simp: Let_def split: option.split)
next
  case (4 fuel f design rng_seed i inst insts)
  have "create_child fuel f design rng_seed i inst \<noteq> None"
    using "4.IH"(1) "4.prems" find_module_in by (auto simp: create_child_None)
  then show ?case using "4.IH"(2) [folded create_child_def] "4.prems" by (auto simp: create_children_Cons)
qed simp_all

text \<open>More fuel does not change the result.\<close>

lemma sim_ctx_create_mono:
  "sim_ctx_create fuel m d s = Some r \<Longrightarrow> fuel \<le> fuel' \<Longrightarrow> sim_ctx_create fuel' m d s = Some r"
  "create_children fuel f d s k insts = Some cs \<Longrightarrow> fuel \<le> fuel' \<Longrightarrow> create_children fuel' f d s k insts = Some cs"
proof (induction fuel m d s and fuel f d s k insts arbitrary: fuel' r and fuel' cs rule: sim_ctx_create_create_children.induct)
  case (2 fuel m design rng_seed)
  obtain n where n: "fuel' = Suc n" "fuel \<le> n" using "2.prems"(2) by (cases fuel') auto
  show ?case using "2.prems"(1) "2.IH" [OF _ _ refl _ n(2)] by (auto simp: n(1) Let_def split: if_splits option.splits)
next
  case (4 fuel f design rng_seed i inst insts)
  obtain ci cs' where c: "create_child fuel f design rng_seed i inst = Some ci"
    "create_children fuel f design rng_seed (Suc i) insts = Some cs'" "cs = ci # cs'"
    using "4.prems"(1) by (auto simp: create_children_Cons split: option.splits)
  have "create_child fuel' f design rng_seed i inst = Some ci"
    using c(1) "4.IH"(1) [OF _ _ "4.prems"(2)] by (auto simp: create_child_def split: option.splits)
  moreover have "create_children fuel' f design rng_seed (Suc i) insts = Some cs'"
    by (rule "4.IH"(2) [folded create_child_def, OF c(1,2) "4.prems"(2)])
  ultimately show ?case by (simp add: create_children_Cons c(3))
qed simp_all

text \<open>Every frame of a created tree satisfies the frame invariant.\<close>

lemma sim_ctx_create_frames:
  "sim_ctx_create fuel m d s = Some (Some c) \<Longrightarrow> list_all module_ok (design_modules d) \<Longrightarrow> module_ok m \<Longrightarrow>
     list_all (\<lambda>g. frame_ok g \<and> lookup_inj g \<and> chunks_built g) (tree_frames c)"
  "create_children fuel f d s k insts = Some cs \<Longrightarrow> list_all module_ok (design_modules d) \<Longrightarrow>
     list_all (\<lambda>ci. list_all (\<lambda>g. frame_ok g \<and> lookup_inj g \<and> chunks_built g) (child_frames ci)) cs"
proof (induction fuel m d s and fuel f d s k insts arbitrary: c and cs rule: sim_ctx_create_create_children.induct)
  case (2 fuel m design rng_seed)
  then show ?case
    using create_frame_ok by (auto simp: Let_def list_all_iff build_async_chunks_tables split: if_splits option.splits)
next
  case (4 fuel f design rng_seed i inst insts)
  obtain ci cs' where c: "create_child fuel f design rng_seed i inst = Some ci"
    "create_children fuel f design rng_seed (Suc i) insts = Some cs'" "cs = ci # cs'"
    using "4.prems"(1) by (auto simp: create_children_Cons split: option.splits)
  have "list_all (\<lambda>g. frame_ok g \<and> lookup_inj g \<and> chunks_built g) (child_frames ci)"
    using c(1) "4.IH"(1) "4.prems"(2) find_module_in
    by (fastforce simp: create_child_def list_all_iff split: option.splits)
  then show ?case using "4.IH"(2) [folded create_child_def, OF c(1,2) "4.prems"(2)] by (simp add: c(3))
qed simp_all

text \<open>Recursion through a module that instantiates itself is not cut off by any depth check.\<close>

lemma self_instance_never_returns:
  assumes "find_module d (child_module_id i) = Some m" "instances m = [i]" "signals_fit m" "list_all memory_fits (module_memories m)"
  shows "sim_ctx_create fuel m d s = None"
  using assms by (induction fuel arbitrary: s) (simp_all add: Let_def create_children_Cons create_child_def)

end
