(* ===== verification/Sim_Exec_Props.thy ===== *)
theory Sim_Exec_Props
  imports Sim_Create Sim_Nba Sim_Eval_Props
begin

text \<open>
  The properties of statement execution, settling, non-blocking updates and context creation,
  with a small design on which the ones with hypotheses are applied.
\<close>

section \<open>A small design\<close>

definition demo_assign :: "int \<Rightarrow> IR_Expr \<Rightarrow> IR_Assignment" where
  "demo_assign i e = \<lparr>lhs_signal_id = i, asgn_rhs = e, asgn_kind = ASSIGN_ALIAS, is_sliced = False, lhs_msb = 0, lhs_lsb = 0\<rparr>"

text \<open>Net 2 follows net 1, which is net 0 masked; the statements stand in the wrong order.\<close>

definition demo_copy :: IR_Stmt where
  "demo_copy = STMT_ASSIGNMENT (demo_assign 2 (EXPR_SIGNAL_REF 8 1))"

definition demo_mask :: IR_Stmt where
  "demo_mask = STMT_ASSIGNMENT (demo_assign 1 demo_and)"

definition demo_chain :: IR_Module where
  "demo_chain = \<lparr>module_id = 0, module_signals = map (\<lambda>i. demo_signal i SIG_NET) [0, 1, 2],
     clock_domains = [], instances = [], module_memories = [],
     async_block = STMT_BLOCK [demo_copy, demo_mask], eliminated = False\<rparr>"

definition demo_created :: SimFrame where
  "demo_created = build_async_chunks (create_frame demo_chain 1)"

definition demo_rank :: "SimAsyncChunk \<Rightarrow> nat" where
  "demo_rank c = (if 2 \<in> set (write_indices c) then 1 else 0)"

lemma demo_chain_ok: "module_ok demo_chain" "signals_fit demo_chain" "list_all memory_fits (module_memories demo_chain)"
  by (simp_all add: module_ok_def signals_fit_def demo_chain_def demo_signal_def max_sim_width_def)

lemma demo_created_tables:
  "ctx_module demo_created = demo_chain" "max_sig_id demo_created = 2" "sig_id_map demo_created = [0, 1, 2]"
  "memories demo_created = []" "length (signals demo_created) = 3"
  "k < 3 \<Longrightarrow> current (signals demo_created ! k) = sim_val_zero 8"
proof -
  show "ctx_module demo_created = demo_chain" "max_sig_id demo_created = 2" "sig_id_map demo_created = [0, 1, 2]"
    "memories demo_created = []" "length (signals demo_created) = 3"
    by (simp_all add: demo_created_def build_async_chunks_tables create_frame_tables demo_chain_def demo_signal_def
        max_signal_id_def init_sig_id_map_def Let_def numeral_eq_Suc create_frame_def init_signal_def)
  show "k < 3 \<Longrightarrow> current (signals demo_created ! k) = sim_val_zero 8"
    by (auto simp: demo_created_def build_async_chunks_tables create_frame_tables demo_chain_def demo_signal_def
        init_signal_def Let_def less_Suc_eq numeral_eq_Suc)
qed

lemma demo_created_lookup:
  "sim_ctx_lookup demo_created 0 = Some 0" "sim_ctx_lookup demo_created 1 = Some 1" "sim_ctx_lookup demo_created 2 = Some 2"
  by (simp_all add: sim_ctx_lookup_def demo_created_tables Let_def)

lemma demo_created_stmts:
  "stmt_ok demo_created demo_copy" "stmt_ok demo_created demo_mask" "\<not> writes_memory demo_copy" "\<not> writes_memory demo_mask"
  "single_assignment demo_copy" "single_assignment demo_mask"
  by (simp_all add: demo_copy_def demo_mask_def demo_assign_def assign_ok_def signal_width_of_def demo_created_lookup
      demo_created_tables extend_ok_def demo_and_def demo_literal_def binary_width_def unmasked_width_def width_or_def)

lemma demo_created_chunks:
  "async_chunks demo_created = [make_chunk demo_created demo_copy, make_chunk demo_created demo_mask]"
  "set (read_indices (make_chunk demo_created demo_copy)) = {1}" "set (write_indices (make_chunk demo_created demo_copy)) = {2}"
  "set (read_indices (make_chunk demo_created demo_mask)) = {0}" "set (write_indices (make_chunk demo_created demo_mask)) = {1}"
proof -
  have "chunks_built demo_created" by (simp add: demo_created_def build_async_chunks_tables)
  then show "async_chunks demo_created = [make_chunk demo_created demo_copy, make_chunk demo_created demo_mask]"
    by (simp add: chunks_built_def demo_created_tables demo_chain_def async_stmts_def)
  show "set (read_indices (make_chunk demo_created demo_copy)) = {1}" "set (write_indices (make_chunk demo_created demo_copy)) = {2}"
    "set (read_indices (make_chunk demo_created demo_mask)) = {0}" "set (write_indices (make_chunk demo_created demo_mask)) = {1}"
    by (simp_all add: make_chunk_sets demo_copy_def demo_mask_def demo_assign_def demo_and_def demo_created_lookup)
qed

lemma demo_settle_inv: "settle_inv demo_created"
proof -
  have "disjoint_writes (async_chunks demo_created)" by (simp add: demo_created_chunks)
  moreover have "list_all (\<lambda>s. stmt_ok demo_created s \<and> \<not> writes_memory s) (async_stmts (async_block demo_chain))"
    by (simp add: demo_chain_def async_stmts_def demo_created_stmts)
  ultimately show ?thesis
    unfolding demo_created_def by (rule created_settle_inv [OF demo_chain_ok])
qed

lemma demo_loop_free: "loop_free demo_rank demo_created" "list_all (\<lambda>c. demo_rank c \<le> 1) (async_chunks demo_created)"
  using create_frame_ok(2) [OF demo_chain_ok, of 1]
  by (simp_all add: loop_free_def demo_created_chunks ranked_def demo_rank_def make_chunk_sets(1) demo_created_stmts)
    (simp add: demo_created_def build_async_chunks_tables)

section \<open>Combinational settling\<close>

text \<open>C1. What convergence means, for a context without child instances that satisfies
  \<open>settle_inv\<close>: its frame is well-formed and its asynchronous statements respect the width
  discipline, no two of them drive the same signal, none of them writes a memory (with memory
  writes the claim is false, see \<open>Sim_Limits.memory_write_not_settled\<close>), and each of them reads a
  dirty signal or is stable. When settling such a context reports success, executing any statement
  of the asynchronous block once more would change no signal (the state is a fixpoint of the whole
  block), \<open>settle_inv\<close> holds again, and only driven signals have changed: tables, memories, pending
  values and undriven signals are as before.\<close>

theorem settle_reaches_fixpoint:
  assumes "settle_inv f" "sim_settle_combinational (SimContext f []) max_iters = (ctx, True)"
  shows "\<exists>g. ctx = SimContext g [] \<and> settle_inv g \<and> settles_from f g \<and>
             (\<forall>s \<in> set (async_stmts (async_block (ctx_module g))). currents (sim_exec_stmt g s False) = currents g)"
proof -
  have cb: "set (async_stmts (async_block (ctx_module g))) = chunk_stmt ` set (async_chunks g)" if "settle_inv g" for g
    using that by (auto simp: settle_inv_def async_ok_def chunks_built_def make_chunk_sets(1) image_image)
  show ?thesis
  proof (cases "has_any_async (SimContext f [])")
    case True
    then have "settle_loop (nat max_iters) (SimContext f []) = (ctx, True)"
      using assms(2) by (simp add: sim_settle_combinational_def)
    from settle_loop_fixpoint [OF assms(1) this] show ?thesis
      using cb by (auto simp: all_stable_def stable_def list_all_iff)
  next
    case False
    then have "ctx = SimContext f []" "async_block (ctx_module f) = STMT_NULL"
      using assms(2) by (simp_all add: sim_settle_combinational_def has_any_async_def)
    then show ?thesis
      using assms(1) settles_from_flags(1) [of f "settle_dirty f"] by (simp add: async_stmts_def)
  qed
qed

theorem settle_reaches_fixpoint_witness:
  "\<exists>g. settle_inv g \<and> settles_from demo_created g \<and>
       (\<forall>s \<in> set (async_stmts (async_block (ctx_module g))). currents (sim_exec_stmt g s False) = currents g)"
proof -
  obtain g where "settle_loop 3 (SimContext demo_created []) = (SimContext g [], True)"
    using settle_loop_converges [OF demo_settle_inv demo_loop_free(1) _ demo_loop_free(2), of 0 3]
    by (auto simp: stable_below_def)
  then have "sim_settle_combinational (SimContext demo_created []) 3 = (SimContext g [], True)"
    by (simp add: sim_settle_combinational_def has_any_async_def demo_created_tables demo_chain_def)
  from settle_reaches_fixpoint [OF demo_settle_inv this] show ?thesis by blast
qed

text \<open>C2. Settling terminates with success without combinational loops, for a context without
  child instances that satisfies \<open>settle_inv\<close> (well-formed frame and statements, one driver for
  each signal, no asynchronous memory writes, dirty or stable statements), in which no two signals
  share an entry and every statement assigns a signal at most once on a path. When the
  asynchronous statements can be ranked so that each one reads only what statements of lower rank
  write, the loop reports convergence within the highest rank plus two passes, in whatever order
  the statements stand.\<close>

theorem settle_converges:
  assumes "settle_inv f" "loop_free r f" "list_all (\<lambda>c. r c \<le> N) (async_chunks f)" "int N + 2 \<le> max_iters"
  shows "\<exists>g. sim_settle_combinational (SimContext f []) max_iters = (SimContext g [], True)"
proof -
  have "stable_below r 0 f" by (simp add: stable_below_def)
  from settle_loop_converges [OF assms(1,2) this assms(3), of "nat max_iters"] show ?thesis
    using assms(4) by (auto simp: sim_settle_combinational_def)
qed

theorem settle_converges_witness:
  "settle_inv demo_created \<and> loop_free demo_rank demo_created \<and>
   (\<exists>g. sim_settle_combinational (SimContext demo_created []) 3 = (SimContext g [], True))"
  using settle_converges [OF demo_settle_inv demo_loop_free] demo_settle_inv demo_loop_free by simp

section \<open>Statements\<close>

text \<open>C3. A combinational execution of a statement that respects the width discipline
  keeps the frame well-formed (widths, stray bits, table sizes), marks every signal whose value
  changes as dirty, clears no dirty flag, and leaves pending values alone.\<close>

theorem sim_exec_keeps_frame:
  assumes "frame_ok f" "stmt_ok f s"
  shows "frame_ok (sim_exec_stmt f s False) \<and>
         (\<forall>k < length (signals f).
            (current (signals (sim_exec_stmt f s False) ! k) \<noteq> current (signals f ! k) \<longrightarrow>
               sig_dirty (sim_exec_stmt f s False) ! k \<and> settle_dirty (sim_exec_stmt f s False)) \<and>
            (sig_dirty f ! k \<longrightarrow> sig_dirty (sim_exec_stmt f s False) ! k) \<and>
            nxt (signals (sim_exec_stmt f s False) ! k) = nxt (signals f ! k) \<and>
            has_pending (signals (sim_exec_stmt f s False) ! k) = has_pending (signals f ! k))"
proof -
  have C: "comb_step f (sim_exec_stmt f s False)" using sim_exec_stmt_step(1) [OF assms, of False] by simp
  note D = comb_stepD [OF C]
  have "nxt (signals (sim_exec_stmt f s False) ! k) = nxt (signals f ! k) \<and>
      has_pending (signals (sim_exec_stmt f s False) ! k) = has_pending (signals f ! k)" if "k < length (signals f)" for k
    using C that D(4) by (auto simp: comb_step_def list_eq_iff_nth_eq)
  then show ?thesis using D(2,5,6) by blast
qed

theorem sim_exec_keeps_frame_witness:
  "frame_ok (sim_exec_stmt demo_created (STMT_BLOCK [demo_mask, demo_copy]) False)"
  using sim_exec_keeps_frame [of demo_created "STMT_BLOCK [demo_mask, demo_copy]"] demo_created_stmts demo_settle_inv
  by (simp add: settle_inv_def async_ok_def)

text \<open>C4. Soundness of the dependency analysis: with the reads and writes that
  \<open>collect_stmt_deps\<close> computes, executing any statement changes no entry but those of the writes;
  and executing, with blocking assignments, a statement that writes no memory from two frames of
  the same module that agree on the reads, on the old values of the writes and on all memories
  (whose cells the analysis does not collect as reads) leaves equal values in every written
  signal.\<close>

theorem collect_stmt_deps_sound:
  assumes "collect_stmt_deps s ([], []) = (reads, writes)"
  shows "((\<forall>i \<in> set writes. sim_ctx_lookup f i \<noteq> Some k) \<longrightarrow> signals (sim_exec_stmt f s is_nba) ! k = signals f ! k) \<and>
         (agree (set reads \<union> set writes) g f \<and> \<not> writes_memory s \<longrightarrow>
            (\<forall>i \<in> set writes. \<forall>k. sim_ctx_lookup f i = Some k \<longrightarrow>
               current (signals (sim_exec_stmt g s False) ! k) = current (signals (sim_exec_stmt f s False) ! k)))"
proof -
  have sets: "set reads = stmt_read_set s" "set writes = stmt_write_set s"
    using set_collect_deps(1) [of s "([], [])"] assms by simp_all
  have lk: "sim_ctx_lookup (sim_exec_stmt f s False) = sim_ctx_lookup f"
    by (rule unchanged_but_lookup(1) [OF exec_unchanged(1)])
  have "current (signals (sim_exec_stmt g s False) ! k) = current (signals (sim_exec_stmt f s False) ! k)"
    if "agree (set reads \<union> set writes) g f" "\<not> writes_memory s" "i \<in> set writes" "sim_ctx_lookup f i = Some k" for i k
    using agree_current [OF exec_agree(1) [OF that(1)], of s False i k] that lk sets by simp
  then show ?thesis using exec_other [of s f k is_nba] sets by blast
qed

theorem collect_stmt_deps_sound_witness:
  "collect_stmt_deps demo_mask ([], []) = ([0], [1]) \<and>
   signals (sim_exec_stmt demo_created demo_mask True) ! 2 = signals demo_created ! 2"
proof -
  have d: "collect_stmt_deps demo_mask ([], []) = ([0], [1])"
    by (simp add: demo_mask_def demo_assign_def demo_and_def sigset_add_def)
  show ?thesis using collect_stmt_deps_sound [OF d, of demo_created 2 True] d by (simp add: demo_created_lookup)
qed

text \<open>C9. A part-select assignment writes exactly the selected bits: inside the range the
  target takes the low bits of the right-hand side, 0, 1, x and z alike; every other bit, the
  width and the well-formedness of the target stay.\<close>

theorem write_slice_exact:
  assumes "sim_val_wf rhs" "sim_val_wf t" "0 \<le> lsb" "lsb \<le> msb" "msb < width t"
  shows "sim_val_wf (write_slice rhs msb lsb t) \<and> width (write_slice rhs msb lsb t) = width t \<and>
         (\<forall>n. sim_bit (write_slice rhs msb lsb t) n =
              (if lsb \<le> int n \<and> int n \<le> msb then sim_bit rhs (n - nat lsb) else sim_bit t n))"
  using write_slice_bits [OF assms] by simp

theorem write_slice_exact_witness:
  "sim_bit (write_slice (sim_val_all_x 4) 5 2 (sim_val_zero 8)) 3 = BX \<and>
   sim_bit (write_slice (sim_val_all_x 4) 5 2 (sim_val_zero 8)) 6 = B0"
proof -
  have x: "sim_val_wf (sim_val_all_x 4)" by simp
  have "sim_bit (write_slice (sim_val_all_x 4) 5 2 (sim_val_zero 8)) n =
      (if 2 \<le> int n \<and> int n \<le> 5 then sim_bit (sim_val_all_x 4) (n - 2) else sim_bit (sim_val_zero 8) n)" for n
    using write_slice_exact [OF x, of "sim_val_zero 8" 2 5] by simp
  then show ?thesis by (simp add: sim_bit_all_x sim_bit_zero)
qed

section \<open>Non-blocking updates\<close>

text \<open>C5. Clocked updates of signals happen in two phases, for statements that respect the width
  discipline and write no memory (a memory write takes effect at once, also in a clocked block)
  and a well-formed frame: executing such a statement in it with non-blocking assignments changes the visible value of no signal
  and marks nothing dirty; committing then moves every pending value into its signal at once,
  marks exactly those signals dirty in addition, leaves no pending value, and keeps the frame
  well-formed.\<close>

theorem nba_two_phases:
  assumes "frame_ok f" "stmt_ok f s" "\<not> writes_memory s"
  defines "g \<equiv> sim_exec_stmt f s True"
  shows "currents g = currents f \<and> sig_dirty g = sig_dirty f \<and> settle_dirty g = settle_dirty f \<and>
         (\<forall>k < length (signals g).
            current (signals (apply_nba_frame g) ! k) =
              (if has_pending (signals g ! k) then nxt (signals g ! k) else current (signals f ! k)) \<and>
            \<not> has_pending (signals (apply_nba_frame g) ! k) \<and>
            (sig_dirty (apply_nba_frame g) ! k \<longleftrightarrow> sig_dirty f ! k \<or> has_pending (signals g ! k))) \<and>
         frame_ok (apply_nba_frame g)"
proof -
  have N: "nba_step f g" using sim_exec_stmt_nba(1) [OF assms(1-3), of True] by (simp add: g_def)
  then have g: "frame_ok g" "currents g = currents f" "sig_dirty g = sig_dirty f" "settle_dirty g = settle_dirty f"
    by (simp_all add: nba_step_def)
  note A = apply_nba_commits [OF g(1)]
  have "current (signals g ! k) = current (signals f ! k)" if "k < length (signals g)" for k
    using currents_nth [OF g(2) that] .
  then show ?thesis using g A(1,2,8) by (simp add: committed_def)
qed

text \<open>Two registers exchanged by non-blocking assignments.\<close>

definition demo_swap :: "IR_Stmt list" where
  "demo_swap = [STMT_ASSIGNMENT (demo_assign 0 (EXPR_SIGNAL_REF 8 1)), STMT_ASSIGNMENT (demo_assign 1 (EXPR_SIGNAL_REF 8 0))]"

lemma demo_swap_ok:
  "width a = 8 \<Longrightarrow> width b = 8 \<Longrightarrow> stmts_ok (demo_frame a b) demo_swap" "\<not> block_writes_memory demo_swap"
  by (simp_all add: demo_swap_def demo_assign_def assign_ok_def signal_width_of_def demo_lookup demo_current extend_ok_def)

lemma demo_swap_pending:
  assumes "width a = 8" "width b = 8"
  shows "signals (sim_exec_stmt (demo_frame a b) (STMT_BLOCK demo_swap) True) =
     [(demo_entry 0 a)\<lparr>nxt := b, has_pending := True\<rparr>, (demo_entry 1 b)\<lparr>nxt := a, has_pending := True\<rparr>]"
  using assms
  by (simp add: demo_swap_def demo_assign_def apply_assign_def eval_signal_ref_def demo_frame_def sim_ctx_lookup_def Let_def
      demo_entry_def extend_rhs_def assign_full_def set_pending_def sim_eval_expr_eq)

theorem nba_two_phases_witness:
  "map current (signals (apply_nba_frame (sim_exec_stmt (demo_frame (sim_val_ones 8) (sim_val_zero 8)) (STMT_BLOCK demo_swap) True))) =
     [sim_val_zero 8, sim_val_ones 8]"
proof -
  let ?f = "demo_frame (sim_val_ones 8) (sim_val_zero 8)"
  let ?g = "sim_exec_stmt ?f (STMT_BLOCK demo_swap) True"
  have s: "signals ?g = [(demo_entry 0 (sim_val_ones 8))\<lparr>nxt := sim_val_zero 8, has_pending := True\<rparr>,
      (demo_entry 1 (sim_val_zero 8))\<lparr>nxt := sim_val_ones 8, has_pending := True\<rparr>]"
    by (rule demo_swap_pending) simp_all
  have "frame_ok ?f" "stmt_ok ?f (STMT_BLOCK demo_swap)" "\<not> writes_memory (STMT_BLOCK demo_swap)"
    by (simp_all add: demo_frame_ok demo_swap_ok)
  note T = nba_two_phases [OF this, unfolded s]
  have "length (signals (apply_nba_frame ?g)) = 2"
    using apply_nba_commits(1) [of ?g] T s sim_exec_stmt_nba(1) [of ?f "STMT_BLOCK demo_swap" True]
    by (simp add: demo_frame_ok demo_swap_ok nba_step_def)
  then show ?thesis using T by (intro nth_equalityI) (auto simp: less_Suc_eq numeral_eq_Suc)
qed

text \<open>C6. The order of two clocked statements does not matter if they respect the width
  discipline, write no memory and write different signals, in a well-formed frame in which no two
  signals share an entry: both orders lead to the same committed signals.\<close>

theorem nba_order_independent:
  assumes "frame_ok f" "lookup_inj f" "stmt_ok f s" "stmt_ok f t" "\<not> writes_memory s" "\<not> writes_memory t"
    and "stmt_write_set s \<inter> stmt_write_set t = {}"
  shows "signals (apply_nba_frame (sim_exec_stmt f (STMT_BLOCK [s, t]) True)) =
         signals (apply_nba_frame (sim_exec_stmt f (STMT_BLOCK [t, s]) True))"
proof -
  have ok: "frame_ok (sim_exec_stmt f (STMT_BLOCK us) True)" if "stmts_ok f us" "\<not> block_writes_memory us" for us
    using sim_exec_stmt_nba(1) [of f "STMT_BLOCK us" True] assms(1) that by (simp add: nba_step_def)
  show ?thesis
    using apply_nba_commits(1) [OF ok, of "[s, t]"] apply_nba_commits(1) [OF ok, of "[t, s]"] nba_commute [OF assms] assms(3-6)
    by simp
qed

theorem nba_order_independent_witness:
  "signals (apply_nba_frame (sim_exec_stmt demo_created (STMT_BLOCK [demo_copy, demo_mask]) True)) =
   signals (apply_nba_frame (sim_exec_stmt demo_created (STMT_BLOCK [demo_mask, demo_copy]) True))"
  by (rule nba_order_independent)
    (use demo_settle_inv demo_loop_free(1) demo_created_stmts in
      \<open>simp_all add: settle_inv_def async_ok_def loop_free_def demo_copy_def demo_mask_def demo_assign_def\<close>)

section \<open>Creation\<close>

text \<open>C7. Every context that \<open>sim_ctx_create\<close> returns, down the instance tree, starts in a
  well-formed state: every signal and memory value is well-formed at its declared width, no two
  ids share an entry, the asynchronous chunks are those of the module; in the root, looking up
  a signal's id finds its entry.\<close>

theorem sim_ctx_create_well_formed:
  assumes "sim_ctx_create fuel m d seed = Some (Some c)" "list_all module_ok (design_modules d)" "module_ok m"
  shows "list_all (\<lambda>g. frame_ok g \<and> lookup_inj g \<and> chunks_built g) (tree_frames c) \<and>
         (\<forall>k < length (module_signals m).
            sim_ctx_lookup (frame c) (sig_id (module_signals m ! k)) = Some k \<and>
            width (current (signals (frame c) ! k)) = sig_width (module_signals m ! k))"
proof -
  obtain n where n: "fuel = Suc n" using assms(1) by (cases fuel) auto
  obtain f where f: "frame c = build_async_chunks f" "f = create_frame m seed" "signals_fit m"
    using assms(1) by (auto simp: n Let_def split: if_splits option.splits)
  have w: "list_all (\<lambda>s. 0 < sig_width s \<and> sig_width s \<le> 256) (module_signals m)"
    using assms(3) f(3) by (auto simp: module_ok_def signals_fit_def max_sim_width_def list_all_iff)
  have "sim_ctx_lookup (frame c) (sig_id (module_signals m ! k)) = Some k"
    "width (current (signals (frame c) ! k)) = sig_width (module_signals m ! k)" if "k < length (module_signals m)" for k
    using create_frame_lookup [OF assms(3)] id_position_nth [OF assms(3) that] init_signals_props(2) [OF w, of seed] that
    by (simp_all add: f build_async_chunks_tables create_frame_tables list_all2_conv_all_nth)
  then show ?thesis using sim_ctx_create_frames(1) [OF assms] by simp
qed

definition demo_design :: IR_Design where
  "demo_design = \<lparr>design_modules = [demo_chain]\<rparr>"

lemma demo_create: "sim_ctx_create (Suc n) demo_chain demo_design 1 = Some (Some (SimContext demo_created []))"
  using demo_chain_ok by (simp add: demo_created_def Let_def) (simp add: demo_chain_def)

theorem sim_ctx_create_well_formed_witness:
  "sim_ctx_create 1 demo_chain demo_design 1 = Some (Some (SimContext demo_created [])) \<and> frame_ok demo_created \<and>
   sim_ctx_lookup demo_created (sig_id (module_signals demo_chain ! 2)) = Some 2"
proof -
  have c: "sim_ctx_create 1 demo_chain demo_design 1 = Some (Some (SimContext demo_created []))"
    using demo_create [of 0] by (simp only: One_nat_def)
  have m: "list_all module_ok (design_modules demo_design)" "2 < length (module_signals demo_chain)"
    using demo_chain_ok(1) by (simp add: demo_design_def) (simp add: demo_chain_def)
  note T = sim_ctx_create_well_formed [OF c m(1) demo_chain_ok(1)]
  have "frame_ok demo_created" using T by simp
  moreover have "sim_ctx_lookup demo_created (sig_id (module_signals demo_chain ! 2)) = Some 2" using T m(2) by auto
  ultimately show ?thesis using c by blast
qed

text \<open>C8. Creation ends for every design whose instance hierarchy has a height: fuel beyond
  the height of the module is enough, and any larger amount gives the same result.\<close>

theorem sim_ctx_create_terminates:
  assumes "hierarchical h d" "m \<in> set (design_modules d)"
  shows "\<exists>r. \<forall>fuel > h (module_id m). sim_ctx_create fuel m d seed = Some r"
proof -
  obtain r where "sim_ctx_create (Suc (h (module_id m))) m d seed = Some r"
    using sim_ctx_create_returns(1) [OF assms, of "Suc (h (module_id m))" seed] by auto
  then have "sim_ctx_create fuel m d seed = Some r" if "h (module_id m) < fuel" for fuel
    using sim_ctx_create_mono(1) that by (metis Suc_leI)
  then show ?thesis by blast
qed

theorem sim_ctx_create_terminates_witness:
  "\<exists>r. \<forall>fuel > 0. sim_ctx_create fuel demo_chain demo_design 7 = Some r"
proof -
  have "hierarchical (\<lambda>_. 0) demo_design" by (simp add: hierarchical_def demo_design_def demo_chain_def)
  from sim_ctx_create_terminates [OF this, of demo_chain 7] show ?thesis by (simp add: demo_design_def)
qed

text \<open>Note. The generator that initialises registers and memories never reaches the absorbing
  state 0, and on the other states it is injective, so no two streams merge.\<close>

theorem sim_rng_next_permutes:
  "sim_rng_next s \<noteq> 0 \<and> (s \<noteq> 0 \<and> t \<noteq> 0 \<and> sim_rng_next s = sim_rng_next t \<longrightarrow> s = t)"
  using sim_rng_next_nonzero sim_rng_next_inj by blast

theorem sim_rng_next_permutes_witness: "sim_rng_next 1 \<noteq> 0 \<and> sim_rng_next 1 \<noteq> sim_rng_next 2"
  using sim_rng_next_permutes [of 1 2] by auto

end
