(* ===== verification/Sim_Limits.thy ===== *)
theory Sim_Limits
  imports Sim_Exec_Props
begin

text \<open>
  Behaviours of settling and creation that differ from what the rest of the program relies on:
  a memory write is not a change the dirty flags know, a design whose asynchronous blocks all
  stand below the root's direct children is never settled, a change inside a child that does
  not reach its outputs does not keep the loop running, and creation has no depth limit.
\<close>

section \<open>A combinational read of a memory\<close>

definition demo_read :: IR_Stmt where
  "demo_read = STMT_ASSIGNMENT (demo_assign 1 (EXPR_MEM_READ 8 ''m'' (EXPR_SIGNAL_REF 8 0)))"

text \<open>A settled frame: net 1 shows cell 0 of the memory, both are zero, no signal is dirty.\<close>

definition demo_settled :: SimFrame where
  "demo_settled = build_async_chunks
     ((demo_frame (sim_val_zero 8) (sim_val_zero 8))\<lparr>ctx_module := demo_module demo_read, sig_dirty := [False, False]\<rparr>)"

definition demo_write :: IR_Stmt where
  "demo_write = STMT_MEM_WRITE ''m'' (EXPR_LITERAL 8 (demo_literal 0)) (EXPR_LITERAL 8 (demo_literal 5))"

definition demo_after_write :: SimFrame where
  "demo_after_write = sim_exec_stmt demo_settled demo_write True"

text \<open>A parent that feeds a child with the two statements of \<open>demo_chain\<close> and shows its net 2.\<close>

definition demo_port :: "nat \<Rightarrow> nat \<Rightarrow> SimPortMapping" where
  "demo_port p c = \<lparr>parent_entry = p, child_entry = c, parent_msb = -1, parent_lsb = -1, child_width = 8, is_inout = False\<rparr>"

definition demo_parent :: SimContext where
  "demo_parent = SimContext (demo_frame (sim_val_ones 8) (sim_val_zero 8))
     [SimChildInstance (Some (SimContext demo_created [])) \<lparr>child_module_id = 0, connections = []\<rparr> (Some demo_chain)
        [demo_port 0 0] [demo_port 1 2]]"

section \<open>Memory writes and the dirty flags\<close>

text \<open>Writing a memory marks nothing dirty, so a statement that reads it at an unchanged
  address does not run again: settling reports success with a stale value.\<close>

lemma memory_write_not_settled:
  "case sim_settle_combinational (SimContext demo_after_write []) 10 of
     (ctx, converged) \<Rightarrow>
       converged \<and> currents (frame ctx) = currents demo_settled \<and>
       currents (sim_exec_stmt (frame ctx) demo_read False) \<noteq> currents (frame ctx)"
  by code_simp

section \<open>Convergence below the root\<close>

text \<open>The loop only looks at the root's flag: the child's net 1 has changed in the first pass,
  its net 2 has not followed, and the result is nevertheless reported as settled.\<close>

lemma child_not_settled:
  "case sim_settle_combinational demo_parent 10 of
     (ctx, converged) \<Rightarrow>
       converged \<and>
       list_all (\<lambda>f. sig_dirty f = replicate (length (signals f)) False) (tree_frames ctx) \<and>
       (case tree_frames ctx of [root, child] \<Rightarrow> currents (sim_exec_stmt child demo_copy False) \<noteq> currents child | _ \<Rightarrow> False)"
  by code_simp

text \<open>Without asynchronous blocks in the root and in its direct children nothing is settled,
  whatever the grandchildren hold.\<close>

lemma grandchildren_not_settled:
  assumes "async_block (ctx_module f) = STMT_NULL"
    and "\<And>ci m. ci \<in> set cs \<Longrightarrow> child_module ci = Some m \<Longrightarrow> async_block m = STMT_NULL"
  shows "sim_settle_combinational (SimContext f cs) max_iters = (SimContext f cs, True)"
proof -
  have "\<not> has_any_async (SimContext f cs)"
    using assms by (auto simp: has_any_async_def list_ex_iff split: option.splits)
  then show ?thesis by (simp add: sim_settle_combinational_def)
qed

end
