(* ===== verification/Arena.thy ===== *)
theory Arena
  imports Util_Limits
begin

text \<open>
  The arena allocator, src/arena.c. A block is a region \<open>malloc\<close> returned: regions are told
  apart by a number, fresh for each successful \<open>malloc\<close>, and a pointer into an arena is a
  region and an offset into its data. Whether \<open>malloc\<close> succeeds for a size is the parameter
  \<open>malloc_ok\<close>. On the 64-bit targets of the compiler a pointer has 8 bytes and a block header
  24 (\<open>next\<close>, \<open>used\<close>, \<open>capacity\<close>).
\<close>

section \<open>The allocator\<close>

abbreviation sizeof_ptr :: usize where "sizeof_ptr \<equiv> 8"
abbreviation sizeof_JZArenaBlock :: usize where "sizeof_JZArenaBlock \<equiv> 24"
abbreviation JZ_ARENA_DEFAULT_BLOCK_SIZE :: usize where "JZ_ARENA_DEFAULT_BLOCK_SIZE \<equiv> 4096"

record JZArenaBlock =
  blk_region :: nat
  blk_used :: usize
  blk_capacity :: usize

text \<open>The linked list from \<open>head\<close>, the block size, and the number of the next region.\<close>

record JZArena =
  arena_blocks :: "JZArenaBlock list"
  arena_block_size :: usize
  arena_fresh :: nat

type_synonym arena_ptr = "nat \<times> usize"

definition jz_arena_init :: "usize \<Rightarrow> JZArena" where
  "jz_arena_init block_size =
     \<lparr>arena_blocks = [], arena_block_size = (if block_size \<noteq> 0 then block_size else JZ_ARENA_DEFAULT_BLOCK_SIZE),
      arena_fresh = 0\<rparr>"

text \<open>The block the request fits in, if the head block has room.\<close>

definition arena_head_fits :: "JZArena \<Rightarrow> usize \<Rightarrow> bool" where
  "arena_head_fits arena sz =
     (case arena_blocks arena of
        [] \<Rightarrow> False
      | b # _ \<Rightarrow> (case jz_size_add_checked (blk_used b) sz of
                      None \<Rightarrow> False
                    | Some used_plus_size \<Rightarrow> \<not> used_plus_size > blk_capacity b))"

text \<open>A new head block of at least \<open>sz\<close> bytes; \<open>None\<close> when sizes overflow or \<open>malloc\<close> fails.\<close>

definition arena_grow :: "(usize \<Rightarrow> bool) \<Rightarrow> JZArena \<Rightarrow> usize \<Rightarrow> JZArena option" where
  "arena_grow malloc_ok arena sz =
     (case jz_size_add_checked sz sizeof_JZArenaBlock of
        None \<Rightarrow> None
      | Some min_bytes \<Rightarrow>
          let req = (if arena_block_size arena > min_bytes then arena_block_size arena else min_bytes)
          in if \<not> malloc_ok req then None
             else Some (arena\<lparr>arena_blocks :=
                     \<lparr>blk_region = arena_fresh arena, blk_used = 0, blk_capacity = req - sizeof_JZArenaBlock\<rparr>
                       # arena_blocks arena,
                     arena_fresh := Suc (arena_fresh arena)\<rparr>))"

text \<open>Taking \<open>sz\<close> bytes at the head block's \<open>used\<close> offset.\<close>

definition arena_bump :: "JZArena \<Rightarrow> usize \<Rightarrow> JZArena \<times> arena_ptr option" where
  "arena_bump arena sz =
     (case arena_blocks arena of
        [] \<Rightarrow> (arena, None)
      | b # bs \<Rightarrow> (case jz_size_add_checked (blk_used b) sz of
                       None \<Rightarrow> (arena, None)
                     | Some used' \<Rightarrow> (arena\<lparr>arena_blocks := b\<lparr>blk_used := used'\<rparr> # bs\<rparr>,
                                      Some (blk_region b, blk_used b))))"

definition jz_arena_alloc :: "(usize \<Rightarrow> bool) \<Rightarrow> JZArena \<Rightarrow> usize \<Rightarrow> JZArena \<times> arena_ptr option" where
  "jz_arena_alloc malloc_ok arena size0 =
     (if size0 = 0 then (arena, None)
      else case jz_size_align_up_checked size0 sizeof_ptr of
             None \<Rightarrow> (arena, None)
           | Some sz \<Rightarrow>
               if arena_head_fits arena sz then arena_bump arena sz
               else (case arena_grow malloc_ok arena sz of
                       None \<Rightarrow> (arena, None)
                     | Some arena' \<Rightarrow> arena_bump arena' sz))"

definition jz_arena_reset :: "JZArena \<Rightarrow> JZArena" where
  "jz_arena_reset arena =
     (case arena_blocks arena of
        [] \<Rightarrow> arena
      | b # _ \<Rightarrow> arena\<lparr>arena_blocks := [b\<lparr>blk_used := 0\<rparr>]\<rparr>)"

definition jz_arena_free :: "JZArena \<Rightarrow> JZArena" where
  "jz_arena_free arena = arena\<lparr>arena_blocks := []\<rparr>"

section \<open>Reachable arenas\<close>

text \<open>An arena and the allocations made since the last reset or free, with the sizes requested.\<close>

inductive arena_reach :: "(usize \<Rightarrow> bool) \<Rightarrow> JZArena \<Rightarrow> (arena_ptr \<times> usize) list \<Rightarrow> bool"
  for malloc_ok :: "usize \<Rightarrow> bool" where
  init: "arena_reach malloc_ok (jz_arena_init bs) []"
| alloc: "arena_reach malloc_ok a live \<Longrightarrow> jz_arena_alloc malloc_ok a sz = (a', Some p) \<Longrightarrow>
          arena_reach malloc_ok a' ((p, sz) # live)"
| fail: "arena_reach malloc_ok a live \<Longrightarrow> jz_arena_alloc malloc_ok a sz = (a', None) \<Longrightarrow>
         arena_reach malloc_ok a' live"
| reset: "arena_reach malloc_ok a live \<Longrightarrow> arena_reach malloc_ok (jz_arena_reset a) []"
| free: "arena_reach malloc_ok a live \<Longrightarrow> arena_reach malloc_ok (jz_arena_free a) []"

inductive_cases arena_reach_allocE: "arena_reach malloc_ok a ((p, sz) # live)"

text \<open>The bytes of an allocation.\<close>

definition alloc_bytes :: "arena_ptr \<times> usize \<Rightarrow> (nat \<times> nat) set" where
  "alloc_bytes x = (case x of ((r, off), sz) \<Rightarrow> {r} \<times> {unat off ..< unat off + unat sz})"

definition block_ok :: "JZArenaBlock \<Rightarrow> bool" where
  "block_ok b \<longleftrightarrow> blk_used b \<le> blk_capacity b \<and> 8 dvd unat (blk_used b)"

definition live_ok :: "JZArenaBlock list \<Rightarrow> arena_ptr \<times> usize \<Rightarrow> bool" where
  "live_ok bs x \<longleftrightarrow> (case x of ((r, off), sz) \<Rightarrow> 8 dvd unat off \<and>
     (\<exists>b \<in> set bs. blk_region b = r \<and> unat off + unat sz \<le> unat (blk_used b)))"

definition arena_inv :: "JZArena \<Rightarrow> (arena_ptr \<times> usize) list \<Rightarrow> bool" where
  "arena_inv a live \<longleftrightarrow>
     list_all block_ok (arena_blocks a) \<and>
     distinct (map blk_region (arena_blocks a)) \<and>
     (\<forall>b \<in> set (arena_blocks a). blk_region b < arena_fresh a) \<and>
     list_all (live_ok (arena_blocks a)) live \<and>
     pairwise (\<lambda>i j. alloc_bytes (live ! i) \<inter> alloc_bytes (live ! j) = {}) {..<length live}"

lemma alloc_bytes_disjoint_Cons:
  assumes "pairwise (\<lambda>i j. alloc_bytes (live ! i) \<inter> alloc_bytes (live ! j) = {}) {..<length live}"
    and "\<And>y. y \<in> set live \<Longrightarrow> alloc_bytes x \<inter> alloc_bytes y = {}"
  shows "pairwise (\<lambda>i j. alloc_bytes ((x # live) ! i) \<inter> alloc_bytes ((x # live) ! j) = {}) {..<length (x # live)}"
proof (rule pairwiseI)
  fix i j assume ij: "i \<in> {..<length (x # live)}" "j \<in> {..<length (x # live)}" "i \<noteq> j"
  show "alloc_bytes ((x # live) ! i) \<inter> alloc_bytes ((x # live) ! j) = {}"
  proof (cases i; cases j)
    fix j' assume "i = 0" "j = Suc j'"
    then show ?thesis using ij assms(2) [of "live ! j'"] by simp
  next
    fix i' assume "i = Suc i'" "j = 0"
    then show ?thesis using ij assms(2) [of "live ! i'"] by (simp add: Int_commute)
  next
    fix i' j' assume "i = Suc i'" "j = Suc j'"
    then show ?thesis using ij pairwiseD [OF assms(1), of i' j'] by simp
  qed (use ij in simp)
qed

lemma align_8:
  assumes "jz_size_align_up_checked s 8 = Some sz"
  shows "8 dvd unat sz" "unat s \<le> unat sz"
proof -
  have "jz_size_align_up_checked s (2 ^ 3) = Some sz" using assms by simp
  then have r: "unat sz = (unat s + 7) div 8 * 8" by (subst (asm) align_up_pow2) simp_all
  then show "8 dvd unat sz" by simp
  show "unat s \<le> unat sz" unfolding r by linarith
qed

lemma bump_inv:
  assumes inv: "arena_inv a live" and fits: "arena_head_fits a sz"
    and al: "8 dvd unat sz" and le: "unat s \<le> unat sz" and bump: "arena_bump a sz = (a', res)"
  shows "\<exists>p. res = Some p \<and> arena_inv a' ((p, s) # live)"
proof -
  obtain b bs where bs: "arena_blocks a = b # bs"
    using fits by (cases "arena_blocks a") (auto simp: arena_head_fits_def)
  obtain u where u: "jz_size_add_checked (blk_used b) sz = Some u" "u \<le> blk_capacity b"
    using fits by (auto simp: arena_head_fits_def bs split: option.splits)
  have un: "unat u = unat (blk_used b) + unat sz" using u(1) by (simp add: add_checked_iff)
  have a': "a' = a\<lparr>arena_blocks := b\<lparr>blk_used := u\<rparr> # bs\<rparr>" "res = Some (blk_region b, blk_used b)"
    using bump u(1) by (simp_all add: arena_bump_def bs)
  have I: "block_ok b" "list_all block_ok bs" "distinct (map blk_region (b # bs))"
    "\<forall>b \<in> set (b # bs). blk_region b < arena_fresh a" "list_all (live_ok (b # bs)) live"
    "pairwise (\<lambda>i j. alloc_bytes (live ! i) \<inter> alloc_bytes (live ! j) = {}) {..<length live}"
    using inv by (simp_all add: arena_inv_def bs)
  let ?x = "((blk_region b, blk_used b), s)"
  have keep: "live_ok (b\<lparr>blk_used := u\<rparr> # bs) y" if "live_ok (b # bs) y" for y
    using that un by (fastforce simp: live_ok_def split: prod.splits)
  have "alloc_bytes ?x \<inter> alloc_bytes y = {}" if live: "live_ok (b # bs) y" for y
  proof -
    obtain r off z where y: "y = ((r, off), z)" by (metis surj_pair)
    then obtain b' where b': "b' \<in> set (b # bs)" "blk_region b' = r" "unat off + unat z \<le> unat (blk_used b')"
      using live by (auto simp: live_ok_def)
    show ?thesis
    proof (cases "r = blk_region b")
      case True
      then have "b' = b" using b' I(3) by (auto simp: rev_image_eqI)
      with b'(3) show ?thesis by (auto simp: alloc_bytes_def y)
    qed (auto simp: alloc_bytes_def y)
  qed
  then have disj: "alloc_bytes ?x \<inter> alloc_bytes y = {}" if "y \<in> set live" for y
    using that I(5) by (simp add: list_all_iff)
  have "arena_inv a' (?x # live)"
    unfolding arena_inv_def a'(1)
    using I u(2) un al le keep alloc_bytes_disjoint_Cons [OF I(6) disj]
    by (auto simp: block_ok_def live_ok_def list_all_iff)
  with a'(2) show ?thesis by blast
qed

lemma grow_inv:
  assumes "arena_inv a live" "arena_grow malloc_ok a sz = Some a'"
  shows "arena_inv a' live" "arena_head_fits a' sz"
proof -
  obtain m where m: "jz_size_add_checked sz 24 = Some m"
    using assms(2) by (auto simp: arena_grow_def split: option.splits)
  define req where "req = (if arena_block_size a > m then arena_block_size a else m)"
  define b where "b = \<lparr>blk_region = arena_fresh a, blk_used = 0, blk_capacity = req - 24\<rparr>"
  have a': "a' = a\<lparr>arena_blocks := b # arena_blocks a, arena_fresh := Suc (arena_fresh a)\<rparr>"
    using assms(2) m by (auto simp: arena_grow_def Let_def req_def b_def split: if_splits)
  have um: "unat m = unat sz + 24" using m by (simp add: add_checked_iff)
  have "m \<le> req" by (auto simp: req_def)
  then have ur: "unat sz + 24 \<le> unat req" using um by (simp add: word_le_nat_alt)
  then have "unat (req - 24) = unat req - 24" by (simp add: unat_sub word_le_nat_alt)
  then have cap: "unat sz \<le> unat (blk_capacity b)" using ur by (simp add: b_def)
  have fresh: "arena_fresh a \<notin> blk_region ` set (arena_blocks a)"
    using assms(1) by (auto simp: arena_inv_def)
  have keep: "live_ok (b # arena_blocks a) y" if "live_ok (arena_blocks a) y" for y
    using that by (auto simp: live_ok_def split: prod.splits)
  show "arena_inv a' live"
    using assms(1) fresh keep unfolding a' arena_inv_def
    by (auto simp: b_def block_ok_def list_all_iff)
  have "jz_size_add_checked 0 sz = Some sz"
    by (simp add: add_checked_iff unat_u64_less_numeral)
  then show "arena_head_fits a' sz"
    using cap by (simp add: arena_head_fits_def a' b_def word_le_nat_alt not_less)
qed

lemma alloc_inv:
  assumes "arena_inv a live" "jz_arena_alloc malloc_ok a s = (a', res)"
  shows "case res of None \<Rightarrow> arena_inv a' live | Some p \<Rightarrow> arena_inv a' ((p, s) # live)"
proof (cases "s = 0")
  case True
  then show ?thesis using assms by (auto simp: jz_arena_alloc_def)
next
  case False
  show ?thesis
  proof (cases "jz_size_align_up_checked s 8")
    case None
    then show ?thesis using assms False by (auto simp: jz_arena_alloc_def)
  next
    case (Some sz)
    note al = align_8 [OF Some]
    show ?thesis
    proof (cases "arena_head_fits a sz")
      case True
      then have "arena_bump a sz = (a', res)" using assms(2) False Some by (simp add: jz_arena_alloc_def)
      from bump_inv [OF assms(1) True al this] show ?thesis by auto
    next
      case nofit: False
      show ?thesis
      proof (cases "arena_grow malloc_ok a sz")
        case None
        then show ?thesis using assms False Some nofit by (auto simp: jz_arena_alloc_def)
      next
        case (Some a1)
        then have "arena_bump a1 sz = (a', res)"
          using assms(2) False \<open>jz_size_align_up_checked s 8 = Some sz\<close> nofit by (simp add: jz_arena_alloc_def)
        from bump_inv [OF grow_inv [OF assms(1) Some] al this] show ?thesis by auto
      qed
    qed
  qed
qed

lemma arena_reach_inv: "arena_reach malloc_ok a live \<Longrightarrow> arena_inv a live"
proof (induction rule: arena_reach.induct)
  case (init bs)
  then show ?case by (simp add: arena_inv_def jz_arena_init_def)
next
  case (alloc a live sz a' p)
  then show ?case using alloc_inv by fastforce
next
  case (fail a live sz a')
  then show ?case using alloc_inv by fastforce
next
  case (reset a live)
  then show ?case
    by (auto simp: arena_inv_def jz_arena_reset_def block_ok_def split: list.splits)
next
  case (free a live)
  then show ?case by (simp add: arena_inv_def jz_arena_free_def)
qed

section \<open>Properties\<close>

text \<open>C37: whatever sequence of allocations, failures, resets and frees led to an arena, the
  allocations made since the last reset or free do not share a byte, start at a multiple of the
  pointer size, and lie inside the capacity of a block.\<close>

theorem arena_allocations_disjoint:
  assumes "arena_reach malloc_ok a live"
  shows "(\<forall>i j. i < length live \<and> j < length live \<and> i \<noteq> j \<longrightarrow>
            alloc_bytes (live ! i) \<inter> alloc_bytes (live ! j) = {}) \<and>
         (\<forall>r off sz. ((r, off), sz) \<in> set live \<longrightarrow> 8 dvd unat off \<and>
            (\<exists>b \<in> set (arena_blocks a). blk_region b = r \<and> unat off + unat sz \<le> unat (blk_capacity b)))"
proof -
  have inv: "arena_inv a live" using assms by (rule arena_reach_inv)
  have "8 dvd unat off \<and> (\<exists>b \<in> set (arena_blocks a). blk_region b = r \<and> unat off + unat sz \<le> unat (blk_capacity b))"
    if "((r, off), sz) \<in> set live" for r off sz
  proof -
    have "live_ok (arena_blocks a) ((r, off), sz)" using inv that by (simp add: arena_inv_def list_all_iff)
    then obtain b where b: "8 dvd unat off" "b \<in> set (arena_blocks a)" "blk_region b = r"
      "unat off + unat sz \<le> unat (blk_used b)" by (auto simp: live_ok_def)
    have "unat (blk_used b) \<le> unat (blk_capacity b)"
      using inv b(2) by (simp add: arena_inv_def list_all_iff block_ok_def word_le_nat_alt)
    with b show ?thesis by fastforce
  qed
  moreover have "alloc_bytes (live ! i) \<inter> alloc_bytes (live ! j) = {}"
    if "i < length live" "j < length live" "i \<noteq> j" for i j
    using inv that unfolding arena_inv_def pairwise_def by blast
  ultimately show ?thesis by blast
qed

theorem arena_allocations_disjoint_witness:
  "\<exists>a p q. arena_reach (\<lambda>_. True) a [(q, 5), (p, 12)] \<and> alloc_bytes (q, 5) \<inter> alloc_bytes (p, 12) = {}"
proof -
  let ?a0 = "jz_arena_init 0"
  let ?s1 = "jz_arena_alloc (\<lambda>_. True) ?a0 12"
  let ?s2 = "jz_arena_alloc (\<lambda>_. True) (fst ?s1) 5"
  have 1: "?s1 = (fst ?s1, Some (0, 0))" by code_simp
  have 2: "?s2 = (fst ?s2, Some (0, 16))" by code_simp
  have R: "arena_reach (\<lambda>_. True) (fst ?s2) [((0, 16), 5), ((0, 0), 12)]"
    using arena_reach.alloc [OF arena_reach.alloc [OF arena_reach.init 1] 2] .
  have "alloc_bytes ((0, 16), 5) \<inter> alloc_bytes ((0, 0), 12) = {}"
    using conjunct1 [OF arena_allocations_disjoint [OF R], rule_format, of 0 1] by simp
  with R show ?thesis by blast
qed

end
