(* ===== verification/Const_Eval_Steps.thy ===== *)
theory Const_Eval_Steps
  imports Const_Eval
begin

text \<open>
  Generic facts about the constant-expression parser. \<open>parser_steps\<close> is the interface of a
  relation between parser states that every primitive operation respects; the parser then
  respects it as a whole, whatever identifiers mean. It is interpreted on "errors are sticky"
  and "the remaining input does not grow", for the parser without and with named constants.
  From the second follows that the fuel of the model is enough.
\<close>

section \<open>The remaining tokens\<close>

lemma dropWhile_shorter: "length (dropWhile P s) \<le> length s"
  by (induction s) auto

lemma lex_int_shorter: "length (snd (lex_int v s)) \<le> length s"
proof (induction v s rule: lex_int.induct)
  case (2 v c cs)
  then show ?case by (cases "c = CHR ''_''"; cases "isdigit c") (simp_all add: Let_def le_SucI)
qed simp

lemma lex_pair_shorter: "length (snd (lex_pair c k1 k2 s)) \<le> length s"
  by (simp add: lex_pair_def split: list.split)

lemma lex_punct_shorter: "length (snd (lex_punct c s)) \<le> length s"
proof -
  have q: "length (dropWhile P s) - Suc 0 \<le> length s" for P using dropWhile_shorter [of P s] by linarith
  have p: "length (snd (lex_pair c k1 k2 ds)) \<le> Suc (length ds)" for c k1 k2 ds using lex_pair_shorter [of c k1 k2 ds] by simp
  show ?thesis
    unfolding lex_punct_def by (auto simp: q p lex_pair_shorter split: list.split)
qed

lemma skip_ws_cases: "skip_ws s = c # cs \<Longrightarrow> length cs < length s"
  using dropWhile_shorter [of isspace s] by (simp add: skip_ws_def)

lemma lex_one_shorter:
  assumes "tok_kind (fst (lex_one s)) \<noteq> TK_EOF"
  shows "length (snd (lex_one s)) < length s"
proof (cases "skip_ws s")
  case Nil
  then show ?thesis using assms by (simp add: lex_one_def plain_token_def)
next
  case (Cons c cs)
  have l: "length cs < length s" by (rule skip_ws_cases [OF Cons])
  consider "isdigit c" | "\<not> isdigit c" "is_ident_start c" | "\<not> isdigit c" "\<not> is_ident_start c" by blast
  then show ?thesis
  proof cases
    case 1
    have "length (snd (lex_int 0 (c # cs))) \<le> length cs"
      using 1 lex_int_shorter [of _ cs] by (simp add: Let_def)
    then show ?thesis using 1 l Cons by (simp add: lex_one_def case_prod_beta)
  next
    case 2
    then have "is_ident_char c" by (auto simp: is_ident_start_def is_ident_char_def isalnum_def)
    then have "length (snd (lex_ident (c # cs))) \<le> length cs"
      using dropWhile_shorter [of is_ident_char cs] by (simp add: lex_ident_def)
    then show ?thesis using 2 l Cons by (simp add: lex_one_def)
  next
    case 3
    then show ?thesis using l Cons lex_punct_shorter [of c cs] by (simp add: lex_one_def)
  qed
qed

function lex_all :: "string \<Rightarrow> Token list" where
  "lex_all s = (if tok_kind (fst (lex_one s)) = TK_EOF then [] else fst (lex_one s) # lex_all (snd (lex_one s)))"
  by auto
termination
  by (relation "measure length") (auto intro: lex_one_shorter)

declare lex_all.simps [simp del]

definition toks :: "'a Parser_scheme \<Rightarrow> Token list" where
  "toks p = (if tok_kind (cur p) = TK_EOF then [] else cur p # lex_all (lx p))"

lemma length_lex_all: "length (lex_all s) \<le> length s"
proof (induction s rule: lex_all.induct)
  case (1 s)
  then show ?case using lex_one_shorter [of s] by (subst lex_all.simps) auto
qed

lemma toks_init: "toks (parser_init src) = lex_all src"
  by (subst lex_all.simps) (simp add: toks_def parser_init_def case_prod_beta Let_def)

lemma toks_advance: "toks (advance p) = tl (toks p)"
  using lex_all.simps [of "lx p"] by (simp add: toks_def advance_def case_prod_beta Let_def)

lemma toks_simps [simp]:
  "toks (p\<lparr>perror := e\<rparr>) = toks p" "toks (p\<lparr>expr_depth := d\<rparr>) = toks p" "toks (p\<lparr>overflowed := b\<rparr>) = toks p"
  "toks (parser_diag p err) = toks p" "toks (parser_leave_expr_depth p) = toks p"
  by (simp_all add: toks_def parser_diag_def parser_leave_expr_depth_def)

lemma advance_shorter: "tok_kind (cur p) \<noteq> TK_EOF \<Longrightarrow> length (toks (advance p)) < length (toks p)"
  by (simp add: toks_advance) (simp add: toks_def)

lemma advance_fields [simp]:
  "perror (advance p) = perror p" "expr_depth (advance p) = expr_depth p" "overflowed (advance p) = overflowed p"
  "Parser.more (advance p) = Parser.more p"
  by (simp_all add: advance_def case_prod_beta Let_def)

section \<open>Relations the parser keeps\<close>

locale parser_steps =
  fixes Q :: "'a Parser_scheme \<Rightarrow> 'a Parser_scheme \<Rightarrow> bool"
    and name :: "'a Parser_scheme \<Rightarrow> (int \<times> 'a Parser_scheme) option"
  assumes Q_refl: "Q p p"
    and Q_trans: "Q p q \<Longrightarrow> Q q r \<Longrightarrow> Q p r"
    and Q_advance: "perror p = None \<Longrightarrow> Q p (advance p)"
    and Q_diag: "Q p (parser_diag p e)"
    and Q_depth: "Q p (p\<lparr>expr_depth := d\<rparr>)"
    and Q_overflow: "Q p (p\<lparr>overflowed := True\<rparr>)"
    and Q_name: "perror p = None \<Longrightarrow> tok_kind (cur p) = TK_IDENT \<Longrightarrow> name p = Some (v, q) \<Longrightarrow> Q p q"
begin

definition keeps :: "('a Parser_scheme \<Rightarrow> (int \<times> 'a Parser_scheme) option) \<Rightarrow> bool" where
  "keeps f \<longleftrightarrow> (\<forall>p v q. f p = Some (v, q) \<longrightarrow> Q p q)"

lemma keepsD: "keeps f \<Longrightarrow> f p = Some (v, q) \<Longrightarrow> Q p q"
  by (simp add: keeps_def)

definition combines :: "(TokenKind \<Rightarrow> int \<Rightarrow> int \<Rightarrow> 'a Parser_scheme \<Rightarrow> int \<times> 'a Parser_scheme) \<Rightarrow> bool" where
  "combines c \<longleftrightarrow> (\<forall>op l r p. Q p (snd (c op l r p)))"

lemma Q_result: "Q p (snd (ll_result x b p))"
  by (simp add: ll_result_def Q_refl Q_overflow)

lemma combines_ops:
  "combines apply_multiplicative" "combines apply_additive" "combines apply_shift" "combines apply_relational"
  "combines apply_equality" "combines apply_logical_and" "combines apply_logical_or"
  by (simp_all add: combines_def apply_multiplicative_def apply_additive_def apply_shift_def apply_relational_def
      apply_equality_def apply_logical_and_def apply_logical_or_def Q_result Q_diag Q_refl Let_def)

lemma Q_binary_loop:
  assumes "keeps operand" "combines c"
  shows "binary_loop n ops operand c l p = Some (v, q) \<Longrightarrow> Q p q"
proof (induction n arbitrary: l p)
  case 0
  then show ?case by simp
next
  case (Suc n)
  show ?case
  proof (cases "perror p = None \<and> tok_kind (cur p) \<in> ops")
    case True
    then obtain r p1 where o: "operand (advance p) = Some (r, p1)" using Suc.prems by (auto split: option.splits)
    then have p1: "Q p p1" using Q_trans [OF Q_advance keepsD [OF assms(1) o]] True by simp
    obtain w p2 where c: "c (tok_kind (cur p)) l r p1 = (w, p2)" by fastforce
    then have p2: "Q p p2" using Q_trans [OF p1] assms(2) by (metis combines_def snd_conv)
    show ?thesis
      using Suc True o c p1 p2 Q_trans [OF p2] by (auto split: if_splits)
  next
    case False
    then show ?thesis using Suc.prems Q_refl by auto
  qed
qed

lemma keeps_level: "keeps operand \<Longrightarrow> combines c \<Longrightarrow> keeps (binary_level n ops c operand)"
  unfolding keeps_def [of "binary_level n ops c operand"] binary_level_def
  using Q_binary_loop Q_trans keepsD by (fastforce split: option.splits)

lemma keeps_levels: "keeps unary \<Longrightarrow> keeps (parse_logical_or n unary)"
  by (simp add: parse_logical_or_def parse_logical_and_def parse_equality_def parse_relational_def parse_shift_def
      parse_additive_def parse_multiplicative_def keeps_level combines_ops)

lemma keeps_clog2:
  assumes "keeps expr" "perror p = None" "parse_clog2 expr p = Some (v, q)"
  shows "Q p q"
proof -
  let ?p1 = "advance p"
  have p1: "Q p ?p1" by (rule Q_advance [OF assms(2)])
  show ?thesis
  proof (cases "tok_kind (cur ?p1) = TK_LPAREN")
    case True
    then obtain arg p2 where e: "expr (advance ?p1) = Some (arg, p2)"
      using assms(3) by (auto simp: parse_clog2_def Let_def split: option.splits)
    have p2: "Q p p2" using Q_trans [OF Q_trans [OF p1 Q_advance] keepsD [OF assms(1) e]] assms(2) by simp
    consider "q = p2" | err where "q = parser_diag p2 err" | "q = advance p2" "perror p2 = None"
      | err where "q = parser_diag (advance p2) err" "perror p2 = None"
      using assms(3) True e by (auto simp: parse_clog2_def Let_def split: if_splits)
    then show ?thesis by cases (use p2 Q_trans [OF p2] Q_diag Q_advance [of p2] Q_trans [OF p2 Q_trans] in blast)+
  next
    case False
    then show ?thesis using assms(3) Q_trans [OF p1 Q_diag] by (auto simp: parse_clog2_def Let_def)
  qed
qed

lemma keeps_paren:
  assumes "keeps expr" "perror p = None" "parse_paren expr p = Some (v, q)"
  shows "Q p q"
proof -
  obtain w p1 where e: "expr (advance p) = Some (w, p1)"
    using assms(3) by (auto simp: parse_paren_def split: option.splits)
  have "Q p p1" using Q_trans [OF Q_advance keepsD [OF assms(1) e]] assms(2) by simp
  then show ?thesis
    using assms(3) e Q_diag Q_advance [of p1] Q_trans by (auto simp: parse_paren_def split: if_splits)
qed

lemma keeps_primary: "keeps expr \<Longrightarrow> keeps (parse_primary name expr)"
  unfolding keeps_def [of "parse_primary name expr"] parse_primary_def
  using keeps_clog2 keeps_paren Q_name Q_refl Q_diag Q_advance by (auto split: if_splits)

lemma Q_enter: "Q p (snd (parser_enter_expr_depth p))"
  by (simp add: parser_enter_expr_depth_def Q_diag Q_depth split: option.split)

lemma Q_leave: "Q p (parser_leave_expr_depth p)"
  by (simp add: parser_leave_expr_depth_def Q_depth)

lemma keeps_parser: "keeps (parse_expr name n)" "keeps (parse_unary name n)"
proof (induction n)
  case 0
  { case 1 show ?case by (simp add: keeps_def) }
  { case 2 show ?case by (simp add: keeps_def) }
next
  case (Suc n)
  { case 1
    show ?case unfolding keeps_def
    proof (intro allI impI)
      fix p v q assume *: "parse_expr name (Suc n) p = Some (v, q)"
      obtain b p1 where e: "parser_enter_expr_depth p = (b, p1)" by fastforce
      have p1: "Q p p1" using Q_enter [of p] e by simp
      show "Q p q"
        using * e p1 Q_trans [OF p1] keepsD [OF keeps_levels [OF Suc(2)], of n p1] Q_leave Q_trans
        by (auto split: if_splits option.splits)
    qed }
  { case 2
    show ?case unfolding keeps_def
    proof (intro allI impI)
      fix p v q assume *: "parse_unary name (Suc n) p = Some (v, q)"
      obtain b p1 where e: "parser_enter_expr_depth (advance p) = (b, p1)" by fastforce
      show "Q p q"
      proof (cases "perror p = None \<and> (tok_kind (cur p) = TK_PLUS \<or> tok_kind (cur p) = TK_MINUS)")
        case True
        have p1: "Q p p1" using Q_trans [OF Q_advance, of p "snd (b, p1)"] Q_enter [of "advance p"] e True by simp
        show ?thesis
        proof (cases "parse_unary name n p1")
          case None
          then show ?thesis using * e True p1 by (auto split: if_splits)
        next
          case (Some r)
          then obtain w p2 where r: "parse_unary name n p1 = Some (w, p2)" by (cases r) auto
          have "Q p (parser_leave_expr_depth p2)" using Q_trans [OF p1 Q_trans [OF keepsD [OF Suc(2) r] Q_leave]] .
          then show ?thesis
            using * e True p1 r Q_trans [OF _ Q_result [of "parser_leave_expr_depth p2" "- w" "ll_ok (- w)"], of p]
            by (auto simp: Let_def split: if_splits)
        qed
      next
        case False
        then show ?thesis using * keepsD [OF keeps_primary [OF Suc(1)]] Q_refl by (auto split: if_splits)
      qed
    qed }
qed

lemmas Q_parse_expr = keepsD [OF keeps_parser(1)]
  and Q_parse_unary = keepsD [OF keeps_parser(2)]

end

section \<open>Errors are sticky, input is only consumed\<close>

definition error_kept :: "'a Parser_scheme \<Rightarrow> 'a Parser_scheme \<Rightarrow> bool" where
  "error_kept p q \<longleftrightarrow> (perror p \<noteq> None \<longrightarrow> perror q = perror p)"

definition input_consumed :: "'a Parser_scheme \<Rightarrow> 'a Parser_scheme \<Rightarrow> bool" where
  "input_consumed p q \<longleftrightarrow> length (toks q) \<le> length (toks p)"

lemma bare_identifier_fields:
  "bare_identifier p = Some (v, q) \<Longrightarrow> perror p = None \<Longrightarrow> perror q \<noteq> None \<and> toks q = toks p"
  by (auto simp: bare_identifier_def parser_diag_def)

lemma env_advance_fields [simp]:
  "perror (env_advance p) = perror p" "penv (env_advance p) = penv p" "toks (env_advance p) = tl (toks p)"
  by (simp_all add: env_advance_def toks_advance) (simp add: advance_def case_prod_beta Let_def)

lemma toks_penv [simp]: "toks (p\<lparr>penv := e\<rparr>) = toks p"
  by (simp add: toks_def)

lemma env_name_cases:
  assumes "env_name eval p = Some (v, q)"
  shows "toks q = toks p \<and> perror q \<noteq> None \<or> toks q = tl (toks p) \<and> perror q = perror p"
  using assms by (auto simp: env_name_def env_parser_diag_def parser_diag_def Let_def split: option.splits if_splits)

interpretation sticky: parser_steps error_kept bare_identifier
  by unfold_locales (auto simp: error_kept_def parser_diag_def)

interpretation consumed: parser_steps input_consumed bare_identifier
  by unfold_locales (auto simp: input_consumed_def toks_advance bare_identifier_def)

interpretation env_sticky: parser_steps error_kept "env_name eval"
  by unfold_locales (auto simp: error_kept_def parser_diag_def)

interpretation env_consumed: parser_steps input_consumed "env_name eval"
  by unfold_locales (auto simp: input_consumed_def toks_advance dest!: env_name_cases)

section \<open>The fuel is enough\<close>

text \<open>
  A parser whose states satisfy an invariant \<open>I\<close>, kept by the steps \<open>Q\<close>, under which every
  name is resolved one way or the other.
\<close>

locale total_parser = consume: parser_steps Q name
  for Q :: "'a Parser_scheme \<Rightarrow> 'a Parser_scheme \<Rightarrow> bool"
    and name :: "'a Parser_scheme \<Rightarrow> (int \<times> 'a Parser_scheme) option" +
  fixes I :: "'a Parser_scheme \<Rightarrow> bool"
  assumes consumes: "Q p q \<Longrightarrow> input_consumed p q"
    and invariant: "Q p q \<Longrightarrow> I p \<Longrightarrow> I q"
    and name_total: "I p \<Longrightarrow> perror p = None \<Longrightarrow> tok_kind (cur p) = TK_IDENT \<Longrightarrow> name p \<noteq> None"
begin

definition total_upto :: "nat \<Rightarrow> ('a Parser_scheme \<Rightarrow> (int \<times> 'a Parser_scheme) option) \<Rightarrow> bool" where
  "total_upto m f \<longleftrightarrow> consume.keeps f \<and> (\<forall>p. I p \<and> length (toks p) \<le> m \<longrightarrow> f p \<noteq> None)"

lemma total_result:
  assumes "total_upto m f" "I p" "length (toks p) \<le> m"
  obtains v q where "f p = Some (v, q)" "I q" "length (toks q) \<le> length (toks p)"
proof -
  have "f p \<noteq> None" using assms by (simp add: total_upto_def)
  then obtain v q where f: "f p = Some (v, q)" by auto
  then have "Q p q" using consume.keepsD [of f p v q] assms(1) by (simp add: total_upto_def)
  with f show ?thesis using that consumes invariant assms(2) by (simp add: input_consumed_def)
qed

lemma advance_I: "perror p = None \<Longrightarrow> I p \<Longrightarrow> I (advance p)"
  using invariant consume.Q_advance by blast

lemma binary_loop_total:
  assumes "total_upto m operand" "consume.combines c" "TK_EOF \<notin> ops"
  shows "I p \<Longrightarrow> length (toks p) < n \<Longrightarrow> length (toks p) \<le> m \<Longrightarrow> binary_loop n ops operand c l p \<noteq> None"
proof (induction n arbitrary: l p)
  case 0
  then show ?case by simp
next
  case (Suc n)
  show ?case
  proof (cases "perror p = None \<and> tok_kind (cur p) \<in> ops")
    case True
    then have adv: "length (toks (advance p)) < length (toks p)" using assms(3) by (intro advance_shorter) auto
    then obtain r p1 where o: "operand (advance p) = Some (r, p1)" "I p1" "length (toks p1) \<le> length (toks (advance p))"
      using total_result [OF assms(1), of "advance p"] advance_I Suc.prems True by auto
    obtain w p2 where c: "c (tok_kind (cur p)) l r p1 = (w, p2)" by fastforce
    have "Q p1 p2" using assms(2) c by (metis consume.combines_def snd_conv)
    then have "I p2" "length (toks p2) \<le> length (toks p1)" using invariant o(2) consumes by (auto simp: input_consumed_def)
    then show ?thesis using Suc True o c adv by simp
  next
    case False
    then show ?thesis by auto
  qed
qed

lemma level_total:
  assumes "total_upto m operand" "consume.combines c" "TK_EOF \<notin> ops" "m < n"
  shows "total_upto m (binary_level n ops c operand)"
proof -
  have "binary_level n ops c operand p \<noteq> None" if p: "I p" "length (toks p) \<le> m" for p
  proof -
    obtain l p1 where "operand p = Some (l, p1)" "I p1" "length (toks p1) \<le> length (toks p)"
      using total_result [OF assms(1) p] by blast
    then show ?thesis using binary_loop_total [OF assms(1-3), of p1 n l] assms(4) p by (simp add: binary_level_def)
  qed
  then show ?thesis using assms(1,2) consume.keeps_level by (simp add: total_upto_def)
qed

lemma levels_total: "total_upto m unary \<Longrightarrow> m < n \<Longrightarrow> total_upto m (parse_logical_or n unary)"
  by (simp add: parse_logical_or_def parse_logical_and_def parse_equality_def parse_relational_def parse_shift_def
      parse_additive_def parse_multiplicative_def level_total consume.combines_ops)

lemma primary_total:
  assumes "total_upto m expr" "I p" "length (toks p) \<le> Suc m"
  shows "parse_primary name expr p \<noteq> None"
proof (cases "perror p = None")
  case True
  have adv: "expr (advance q) \<noteq> None" if "I q" "perror q = None" "length (toks q) \<le> Suc m" for q
    using assms(1) advance_I that by (simp add: total_upto_def toks_advance)
  have "expr (advance (advance p)) \<noteq> None"
    using adv [of "advance p"] advance_I assms(2,3) True by (simp add: toks_advance)
  then show ?thesis
    using adv [OF assms(2) True assms(3)] name_total [OF assms(2)]
    by (auto simp: parse_primary_def parse_clog2_def parse_paren_def Let_def split: option.split)
next
  case False
  then show ?thesis by (simp add: parse_primary_def)
qed

lemma enter_keeps:
  assumes "parser_enter_expr_depth p = (b, p1)" "I p"
  shows "I p1" "toks p1 = toks p"
proof -
  show "I p1" using invariant [OF consume.Q_enter assms(2)] assms(1) by simp
  show "toks p1 = toks p" using assms(1) by (auto simp: parser_enter_expr_depth_def split: option.splits)
qed

lemma parser_total:
  "2 * m + 2 \<le> n \<Longrightarrow> total_upto m (parse_expr name n)"
  "2 * m + 1 \<le> n \<Longrightarrow> total_upto m (parse_unary name n)"
proof (induction n arbitrary: m)
  case 0
  { case 1 then show ?case by simp }
  { case 2 then show ?case by simp }
next
  case (Suc n)
  { case 1
    have u: "total_upto m (parse_logical_or n (parse_unary name n))"
      using levels_total [OF Suc(2), of m n] 1 by simp
    have "parse_expr name (Suc n) p \<noteq> None" if p: "I p" "length (toks p) \<le> m" for p
    proof -
      obtain b p1 where e: "parser_enter_expr_depth p = (b, p1)" by fastforce
      have "parse_logical_or n (parse_unary name n) p1 \<noteq> None"
        using u enter_keeps [OF e p(1)] p(2) by (simp add: total_upto_def)
      then show ?thesis using e by (auto split: option.split)
    qed
    then show ?case using consume.keeps_parser(1) [of "Suc n"] unfolding total_upto_def by blast }
  { case 2
    have "parse_unary name (Suc n) p \<noteq> None" if p: "I p" "length (toks p) \<le> m" for p
    proof (cases "perror p = None \<and> tok_kind (cur p) \<noteq> TK_EOF")
      case True
      then have pos: "0 < length (toks p)" by (simp add: toks_def)
      obtain b p1 where e: "parser_enter_expr_depth (advance p) = (b, p1)" by fastforce
      have "2 * (m - 1) + 2 \<le> n" using 2 pos p(2) by linarith
      then have t: "total_upto (m - 1) (parse_unary name n)" "total_upto (m - 1) (parse_expr name n)"
        using Suc [of "m - 1"] by simp_all
      have "parse_unary name n p1 \<noteq> None"
        using t(1) enter_keeps [OF e advance_I] True p by (simp add: total_upto_def toks_advance)
      then show ?thesis
        using primary_total [OF t(2) p(1)] e p(2) pos True by (auto simp: Let_def split: option.split)
    next
      case False
      then show ?thesis by (auto simp: parse_primary_def)
    qed
    then show ?case using consume.keeps_parser(2) [of "Suc n"] unfolding total_upto_def by blast }
qed

lemma parse_expr_total:
  assumes "I p" "length (toks p) \<le> length src"
  shows "parse_expr name (parse_fuel src) p \<noteq> None"
  using parser_total(1) [of "length src" "parse_fuel src"] assms by (simp add: total_upto_def parse_fuel_def)

end

interpretation plain: total_parser input_consumed bare_identifier "\<lambda>_. True"
  by unfold_locales (simp_all add: bare_identifier_def)

section \<open>One parser simulates another\<close>

text \<open>
  Two parsers that differ in the meaning of names: a successful run of the first, ending in a
  state that satisfies \<open>C\<close>, is a run of the second on the plain parser state.
\<close>

lemma diag_error: "(perror (parser_diag p e) = None) = False"
  by (simp add: parser_diag_def)

abbreviation core :: "'a Parser_scheme \<Rightarrow> Parser" where
  "core \<equiv> Parser.truncate"

lemma core_fields [simp]:
  "perror (core p) = perror p" "cur (core p) = cur p" "lx (core p) = lx p" "expr_depth (core p) = expr_depth p"
  "overflowed (core p) = overflowed p"
  by (simp_all add: Parser.truncate_def)

lemma core_steps:
  "core (advance p) = advance (core p)" "core (parser_diag p e) = parser_diag (core p) e"
  "core (parser_leave_expr_depth p) = parser_leave_expr_depth (core p)"
  "parser_enter_expr_depth (core p) = map_prod id core (parser_enter_expr_depth p)"
  "ll_result x b (core p) = map_prod id core (ll_result x b p)"
  by (auto simp: advance_def parser_diag_def parser_leave_expr_depth_def parser_enter_expr_depth_def ll_result_def
      Parser.truncate_def case_prod_beta Let_def split: option.split)

locale parser_sim = parser_steps Q name
  for Q :: "'a Parser_scheme \<Rightarrow> 'a Parser_scheme \<Rightarrow> bool"
    and name :: "'a Parser_scheme \<Rightarrow> (int \<times> 'a Parser_scheme) option" +
  fixes name2 :: "Parser \<Rightarrow> (int \<times> Parser) option" and C :: "'a Parser_scheme \<Rightarrow> bool"
  assumes Q_error: "Q p q \<Longrightarrow> error_kept p q"
    and C_down: "Q p q \<Longrightarrow> C q \<Longrightarrow> C p"
    and name_sim: "perror p = None \<Longrightarrow> tok_kind (cur p) = TK_IDENT \<Longrightarrow> name p = Some (v, q) \<Longrightarrow>
      perror q = None \<Longrightarrow> C q \<Longrightarrow> name2 (core p) = Some (v, core q)"
begin

definition good :: "'a Parser_scheme \<Rightarrow> bool" where
  "good p \<longleftrightarrow> perror p = None \<and> C p"

lemma good_down: "Q p q \<Longrightarrow> good q \<Longrightarrow> good p"
  using Q_error [of p q] C_down [of p q] by (auto simp: good_def error_kept_def)

definition sim :: "('a Parser_scheme \<Rightarrow> (int \<times> 'a Parser_scheme) option) \<Rightarrow> (Parser \<Rightarrow> (int \<times> Parser) option) \<Rightarrow> bool" where
  "sim f g \<longleftrightarrow> keeps f \<and> (\<forall>p v q. f p = Some (v, q) \<and> good q \<longrightarrow> g (core p) = Some (v, core q))"

lemma simD: "sim f g \<Longrightarrow> f p = Some (v, q) \<Longrightarrow> good q \<Longrightarrow> g (core p) = Some (v, core q)"
  by (simp add: sim_def)

lemma sim_keeps: "sim f g \<Longrightarrow> keeps f"
  by (simp add: sim_def)

definition same_combine ::
  "(TokenKind \<Rightarrow> int \<Rightarrow> int \<Rightarrow> 'a Parser_scheme \<Rightarrow> int \<times> 'a Parser_scheme) \<Rightarrow>
   (TokenKind \<Rightarrow> int \<Rightarrow> int \<Rightarrow> Parser \<Rightarrow> int \<times> Parser) \<Rightarrow> bool" where
  "same_combine c c2 \<longleftrightarrow> combines c \<and> (\<forall>op l r p. c2 op l r (core p) = map_prod id core (c op l r p))"

lemma same_combines:
  "same_combine apply_multiplicative apply_multiplicative" "same_combine apply_additive apply_additive"
  "same_combine apply_shift apply_shift" "same_combine apply_relational apply_relational"
  "same_combine apply_equality apply_equality" "same_combine apply_logical_and apply_logical_and"
  "same_combine apply_logical_or apply_logical_or"
  by (simp_all add: same_combine_def combines_ops)
    (simp_all add: apply_multiplicative_def apply_additive_def apply_shift_def apply_relational_def
      apply_equality_def apply_logical_and_def apply_logical_or_def core_steps Let_def)

lemma sim_loop:
  assumes "sim f g" "same_combine c c2"
  shows "binary_loop n ops f c l p = Some (v, q) \<Longrightarrow> good q \<Longrightarrow> binary_loop n ops g c2 l (core p) = Some (v, core q)"
proof (induction n arbitrary: l p)
  case 0
  then show ?case by simp
next
  case (Suc n)
  show ?case
  proof (cases "perror p = None \<and> tok_kind (cur p) \<in> ops")
    case True
    obtain r p1 where o: "f (advance p) = Some (r, p1)" using Suc.prems(1) True by (auto split: option.splits)
    obtain w p2 where c: "c (tok_kind (cur p)) l r p1 = (w, p2)" by fastforce
    have p12: "Q p1 p2" using assms(2) c by (metis same_combine_def combines_def snd_conv)
    have end2: "perror p1 = None \<and> perror p2 = None \<and> binary_loop n ops f c w p2 = Some (v, q)"
      using Suc.prems True o c by (auto simp: good_def split: if_splits)
    then have g2: "good p2"
      using good_down [OF Q_binary_loop [OF sim_keeps [OF assms(1)], of c]] Suc.prems(2) assms(2) by (auto simp: same_combine_def)
    have "g (advance (core p)) = Some (r, core p1)"
      using simD [OF assms(1) o good_down [OF p12 g2]] by (simp add: core_steps)
    moreover have "c2 (tok_kind (cur p)) l r (core p1) = (w, core p2)" using assms(2) c by (simp add: same_combine_def)
    ultimately show ?thesis using Suc.IH end2 Suc.prems(2) True by simp
  next
    case False
    then show ?thesis using Suc.prems by auto
  qed
qed

lemma sim_level: "sim f g \<Longrightarrow> same_combine c c2 \<Longrightarrow> sim (binary_level n ops c f) (binary_level n ops c2 g)"
proof -
  assume s: "sim f g" and c: "same_combine c c2"
  have k: "keeps (binary_level n ops c f)" using keeps_level sim_keeps [OF s] c by (simp add: same_combine_def)
  have "binary_level n ops c2 g (core p) = Some (v, core q)" if r: "binary_level n ops c f p = Some (v, q)" "good q" for p v q
  proof -
    obtain l p1 where f: "f p = Some (l, p1)" "binary_loop n ops f c l p1 = Some (v, q)"
      using r(1) by (auto simp: binary_level_def split: option.splits)
    have "good p1" using good_down [OF Q_binary_loop [OF sim_keeps [OF s] _ f(2)] r(2)] c by (simp add: same_combine_def)
    then show ?thesis using simD [OF s f(1)] sim_loop [OF s c f(2) r(2)] by (simp add: binary_level_def)
  qed
  with k show ?thesis by (simp add: sim_def)
qed

lemma sim_levels: "sim f g \<Longrightarrow> sim (parse_logical_or n f) (parse_logical_or n g)"
  by (simp add: parse_logical_or_def parse_logical_and_def parse_equality_def parse_relational_def parse_shift_def
      parse_additive_def parse_multiplicative_def sim_level same_combines)

lemma good_advance: "perror p = None \<Longrightarrow> good (advance p) \<Longrightarrow> good p"
  using good_down Q_advance by blast

lemma not_good_diag: "\<not> good (parser_diag p e)"
  by (simp add: good_def diag_error)

lemma sim_paren:
  assumes "sim f g" "parse_paren f p = Some (v, q)" "good q"
  shows "parse_paren g (core p) = Some (v, core q)"
proof -
  obtain w p1 where f: "f (advance p) = Some (w, p1)" using assms(2) by (auto simp: parse_paren_def split: option.splits)
  have q: "w = v" "q = advance p1" "perror p1 = None" "tok_kind (cur p1) = TK_RPAREN"
    using assms(2,3) f by (auto simp: parse_paren_def good_def diag_error split: if_splits)
  then have "good p1" using good_advance assms(3) by simp
  then show ?thesis using simD [OF assms(1) f] q by (simp add: parse_paren_def core_steps)
qed

lemma sim_clog2:
  assumes "sim f g" "parse_clog2 f p = Some (v, q)" "good q"
  shows "parse_clog2 g (core p) = Some (v, core q)"
proof -
  let ?p1 = "advance p"
  have lp: "tok_kind (cur ?p1) = TK_LPAREN"
    using assms(2,3) not_good_diag by (auto simp: parse_clog2_def Let_def split: if_splits)
  obtain w p2 where f: "f (advance ?p1) = Some (w, p2)"
    using assms(2) lp by (auto simp: parse_clog2_def Let_def split: option.splits)
  have q: "0 < w" "v = eval_clog2_positive (nat w)" "q = advance p2" "perror p2 = None" "tok_kind (cur p2) = TK_RPAREN"
    using assms(2,3) f lp by (auto simp: parse_clog2_def good_def Let_def diag_error split: if_splits)
  then have "good p2" using good_advance assms(3) by simp
  moreover have "tok_kind (cur (advance (core p))) = TK_LPAREN" using lp core_fields(2) [of ?p1] by (simp add: core_steps)
  ultimately show ?thesis using simD [OF assms(1) f] q by (simp add: parse_clog2_def core_steps Let_def)
qed

lemma sim_primary:
  assumes "sim f g"
  shows "sim (parse_primary name f) (parse_primary name2 g)"
proof -
  have "parse_primary name2 g (core p) = Some (v, core q)" if r: "parse_primary name f p = Some (v, q)" "good q" for p v q
  proof -
    have p: "perror p = None" using good_down [OF keepsD [OF keeps_primary [OF sim_keeps [OF assms]] r(1)] r(2)] by (simp add: good_def)
    show ?thesis
      using r p sim_paren [OF assms, of p v q] sim_clog2 [OF assms, of p v q] name_sim [of p v q]
      by (auto simp: parse_primary_def core_steps good_def diag_error split: if_splits)
  qed
  then show ?thesis using keeps_primary [OF sim_keeps [OF assms]] by (simp add: sim_def)
qed

lemma sim_parser: "sim (parse_expr name n) (parse_expr name2 n)" "sim (parse_unary name n) (parse_unary name2 n)"
proof (induction n)
  case 0
  { case 1 show ?case by (simp add: sim_def keeps_def) }
  { case 2 show ?case by (simp add: sim_def keeps_def) }
next
  case (Suc n)
  { case 1
    have "parse_expr name2 (Suc n) (core p) = Some (v, core q)" if r: "parse_expr name (Suc n) p = Some (v, q)" "good q" for p v q
    proof -
      obtain b p1 where e: "parser_enter_expr_depth p = (b, p1)" by fastforce
      then have b: "b" using r not_good_diag by (auto simp: parser_enter_expr_depth_def split: option.splits)
      obtain p2 where f: "parse_logical_or n (parse_unary name n) p1 = Some (v, p2)" "q = parser_leave_expr_depth p2"
        using r(1) e b by (auto split: option.splits)
      have "good p2" using good_down [OF Q_leave] r(2) f(2) by simp
      then show ?thesis using simD [OF sim_levels [OF Suc(2)] f(1)] e b f(2) by (simp add: core_steps)
    qed
    then show ?case using keeps_parser(1) [of "Suc n"] unfolding sim_def by blast }
  { case 2
    have "parse_unary name2 (Suc n) (core p) = Some (v, core q)" if r: "parse_unary name (Suc n) p = Some (v, q)" "good q" for p v q
    proof (cases "perror p = None \<and> (tok_kind (cur p) = TK_PLUS \<or> tok_kind (cur p) = TK_MINUS)")
      case True
      obtain b p1 where e: "parser_enter_expr_depth (advance p) = (b, p1)" by fastforce
      then have b: "b" using r True not_good_diag by (auto simp: parser_enter_expr_depth_def split: option.splits if_splits)
      obtain w p2 where f: "parse_unary name n p1 = Some (w, p2)"
        "(v, q) = (if tok_kind (cur p) = TK_PLUS then (w, parser_leave_expr_depth p2)
                   else ll_result (- w) (ll_ok (- w)) (parser_leave_expr_depth p2))"
        using r(1) True e b by (auto simp: Let_def split: option.splits)
      have "Q p2 q"
        using f(2) Q_trans [OF Q_leave Q_result, of p2 "- w" "ll_ok (- w)"] Q_leave [of p2] by (auto split: if_splits dest: sym)
      then have "good p2" using good_down r(2) by blast
      then show ?thesis
        using simD [OF Suc(2) f(1)] e b True f(2) core_steps(4) [of "advance p"]
          core_steps(5) [of "- w" "ll_ok (- w)" "parser_leave_expr_depth p2"]
        by (auto simp: core_steps Let_def split: if_splits dest!: sym [of "(v, q)"])
    next
      case False
      have p: "perror p = None" using good_down [OF Q_parse_unary [OF r(1)] r(2)] by (simp add: good_def)
      then show ?thesis using False r simD [OF sim_primary [OF Suc(1)], of p v q] by auto
    qed
    then show ?case using keeps_parser(2) [of "Suc n"] unfolding sim_def by blast }
qed

lemmas sim_parse_expr = simD [OF sim_parser(1)]

end

end
