(* ===== verification/Const_Eval_Ref.thy ===== *)
theory Const_Eval_Ref
  imports Const_Eval_Steps
begin

text \<open>
  A reference semantics for constant expressions: syntax trees, their value as mathematical
  integers (undefined where the program reports an error or C leaves the result undefined), and
  their tokens, with parentheses only where precedence needs them. The specification (section
  3.3) ranks the shifts above binary plus and minus and the parser ranks them below, so a sum or
  difference under a shift is always put in parentheses: the tokens mean the tree under both
  readings. The parser evaluates the tokens of a tree to the tree's value.
\<close>

section \<open>Expressions, their values and their tokens\<close>

datatype cexp = CNum int | CName string | CPlus cexp | CMinus cexp | CClog2 cexp | CBin TokenKind cexp cexp

definition checked :: "int \<Rightarrow> int option" where
  "checked x = (if ll_ok x then Some x else None)"

definition binary_value :: "TokenKind \<Rightarrow> int \<Rightarrow> int \<Rightarrow> int option" where
  "binary_value op l r =
     (case op of
        TK_STAR \<Rightarrow> checked (l * r)
      | TK_SLASH \<Rightarrow> if r = 0 then None else checked (l sdiv r)
      | TK_PERCENT \<Rightarrow> if r = 0 \<or> \<not> ll_ok (l sdiv r) then None else checked (l smod r)
      | TK_PLUS \<Rightarrow> checked (l + r)
      | TK_MINUS \<Rightarrow> checked (l - r)
      | TK_SHL \<Rightarrow> if 0 \<le> r \<and> r \<le> 63 \<and> 0 \<le> l then checked (l * 2 ^ nat r) else None
      | TK_SHR \<Rightarrow> if 0 \<le> r \<and> r \<le> 63 then checked (signed_take_bit 63 (l mod 2 ^ 64 div 2 ^ nat r)) else None
      | TK_ASHR \<Rightarrow> if 0 \<le> r \<and> r \<le> 63 then checked (l div 2 ^ nat r) else None
      | TK_LT \<Rightarrow> Some (of_bool (l < r)) | TK_LE \<Rightarrow> Some (of_bool (l \<le> r))
      | TK_GT \<Rightarrow> Some (of_bool (l > r)) | TK_GE \<Rightarrow> Some (of_bool (l \<ge> r))
      | TK_EQEQ \<Rightarrow> Some (of_bool (l = r)) | TK_NEQ \<Rightarrow> Some (of_bool (l \<noteq> r))
      | TK_AND_AND \<Rightarrow> Some (of_bool (l \<noteq> 0 \<and> r \<noteq> 0))
      | TK_OR_OR \<Rightarrow> Some (of_bool (l \<noteq> 0 \<or> r \<noteq> 0))
      | _ \<Rightarrow> None)"

fun cexp_value :: "(string \<Rightarrow> int option) \<Rightarrow> cexp \<Rightarrow> int option" where
  "cexp_value s (CNum n) = Some n"
| "cexp_value s (CName x) = s x"
| "cexp_value s (CPlus e) = cexp_value s e"
| "cexp_value s (CMinus e) = (case cexp_value s e of None \<Rightarrow> None | Some v \<Rightarrow> checked (- v))"
| "cexp_value s (CClog2 e) =
     (case cexp_value s e of None \<Rightarrow> None | Some v \<Rightarrow> if v \<le> 0 then None else Some (eval_clog2_positive (nat v)))"
| "cexp_value s (CBin op a b) =
     (case (cexp_value s a, cexp_value s b) of (Some l, Some r) \<Rightarrow> binary_value op l r | _ \<Rightarrow> None)"

text \<open>Precedence levels, from \<open>||\<close> (1) to \<open>*\<close> (7); 8 is the unary level.\<close>

definition level_ops :: "nat \<Rightarrow> TokenKind set" where
  "level_ops k =
     (if k = 1 then {TK_OR_OR} else if k = 2 then {TK_AND_AND} else if k = 3 then {TK_EQEQ, TK_NEQ}
      else if k = 4 then {TK_LT, TK_LE, TK_GT, TK_GE} else if k = 5 then {TK_SHL, TK_SHR, TK_ASHR}
      else if k = 6 then {TK_PLUS, TK_MINUS} else if k = 7 then {TK_STAR, TK_SLASH, TK_PERCENT} else {})"

definition op_level :: "TokenKind \<Rightarrow> nat" where
  "op_level op =
     (case op of TK_OR_OR \<Rightarrow> 1 | TK_AND_AND \<Rightarrow> 2 | TK_EQEQ \<Rightarrow> 3 | TK_NEQ \<Rightarrow> 3
      | TK_LT \<Rightarrow> 4 | TK_LE \<Rightarrow> 4 | TK_GT \<Rightarrow> 4 | TK_GE \<Rightarrow> 4
      | TK_SHL \<Rightarrow> 5 | TK_SHR \<Rightarrow> 5 | TK_ASHR \<Rightarrow> 5 | TK_PLUS \<Rightarrow> 6 | TK_MINUS \<Rightarrow> 6
      | TK_STAR \<Rightarrow> 7 | TK_SLASH \<Rightarrow> 7 | TK_PERCENT \<Rightarrow> 7 | _ \<Rightarrow> 0)"

fun cexp_level :: "cexp \<Rightarrow> nat" where
  "cexp_level (CBin op a b) = op_level op"
| "cexp_level _ = 8"

definition name_token :: "string \<Rightarrow> Token" where
  "name_token x = \<lparr>tok_kind = TK_IDENT, int_val = 0, ident = x\<rparr>"

definition num_token :: "int \<Rightarrow> Token" where
  "num_token n = \<lparr>tok_kind = TK_INT, int_val = n, ident = []\<rparr>"

text \<open>The level an operand is printed at: a sum or difference under a shift gets parentheses.\<close>

definition cexp_operand_level :: "TokenKind \<Rightarrow> nat \<Rightarrow> cexp \<Rightarrow> nat" where
  "cexp_operand_level op k e = (if op_level op = 5 \<and> cexp_level e = 6 then 8 else k)"

fun cexp_body :: "cexp \<Rightarrow> Token list"
and cexp_tokens :: "nat \<Rightarrow> cexp \<Rightarrow> Token list" where
  "cexp_body (CNum n) = [num_token n]"
| "cexp_body (CName x) = [name_token x]"
| "cexp_body (CPlus e) = plain_token TK_PLUS # cexp_tokens 8 e"
| "cexp_body (CMinus e) = plain_token TK_MINUS # cexp_tokens 8 e"
| "cexp_body (CClog2 e) = name_token ''clog2'' # plain_token TK_LPAREN # cexp_tokens 1 e @ [plain_token TK_RPAREN]"
| "cexp_body (CBin op a b) = 
     cexp_tokens (cexp_operand_level op (op_level op) a) a @ plain_token op # cexp_tokens (cexp_operand_level op (Suc (op_level op)) b) b"
| "cexp_tokens k e =
     (if cexp_level e < k then plain_token TK_LPAREN # cexp_body e @ [plain_token TK_RPAREN] else cexp_body e)"

text \<open>How deep the recursion counter goes for an expression at a level.\<close>

fun body_depth :: "cexp \<Rightarrow> nat"
and cexp_depth :: "nat \<Rightarrow> cexp \<Rightarrow> nat" where
  "body_depth (CNum n) = 0"
| "body_depth (CName x) = 0"
| "body_depth (CPlus e) = Suc (cexp_depth 8 e)"
| "body_depth (CMinus e) = Suc (cexp_depth 8 e)"
| "body_depth (CClog2 e) = Suc (cexp_depth 1 e)"
| "body_depth (CBin op a b) = 
     max (cexp_depth (cexp_operand_level op (op_level op) a) a) (cexp_depth (cexp_operand_level op (Suc (op_level op)) b) b)"
| "cexp_depth k e = (if cexp_level e < k then Suc (body_depth e) else body_depth e)"

declare cexp_tokens.simps [simp del] cexp_depth.simps [simp del]

text \<open>Trees whose inner nodes are operators and whose numerals and names the lexer can produce.\<close>

definition valid_name :: "string \<Rightarrow> bool" where
  "valid_name x \<longleftrightarrow> x \<noteq> [] \<and> length x \<le> 63 \<and> is_ident_start (hd x) \<and> list_all is_ident_char x"

fun cexp_ok :: "cexp \<Rightarrow> bool" where
  "cexp_ok (CNum n) = (0 \<le> n \<and> n \<le> LLONG_MAX)"
| "cexp_ok (CName x) = (valid_name x \<and> x \<noteq> ''clog2'')"
| "cexp_ok (CPlus e) = cexp_ok e"
| "cexp_ok (CMinus e) = cexp_ok e"
| "cexp_ok (CClog2 e) = cexp_ok e"
| "cexp_ok (CBin op a b) = (0 < op_level op \<and> cexp_ok a \<and> cexp_ok b)"

section \<open>The levels of the parser\<close>

definition level_combine :: "nat \<Rightarrow> TokenKind \<Rightarrow> int \<Rightarrow> int \<Rightarrow> 'a Parser_scheme \<Rightarrow> int \<times> 'a Parser_scheme" where
  "level_combine k =
     (if k = 1 then apply_logical_or else if k = 2 then apply_logical_and else if k = 3 then apply_equality
      else if k = 4 then apply_relational else if k = 5 then apply_shift else if k = 6 then apply_additive
      else apply_multiplicative)"

definition level_parser ::
  "nat \<Rightarrow> ('a Parser_scheme \<Rightarrow> (int \<times> 'a Parser_scheme) option) \<Rightarrow> nat \<Rightarrow> 'a Parser_scheme \<Rightarrow> (int \<times> 'a Parser_scheme) option" where
  "level_parser n u k =
     (if k = 1 then parse_logical_or n u else if k = 2 then parse_logical_and n u else if k = 3 then parse_equality n u
      else if k = 4 then parse_relational n u else if k = 5 then parse_shift n u else if k = 6 then parse_additive n u
      else if k = 7 then parse_multiplicative n u else u)"

text \<open>The number of operators of level \<open>k\<close> on the left spine, the rounds of that level's loop.\<close>

fun spine :: "nat \<Rightarrow> cexp \<Rightarrow> nat" where
  "spine k (CBin op a b) = (if op_level op = k then Suc (spine k a) else 0)"
| "spine k _ = 0"

lemma level_parser_rec:
  assumes "1 \<le> k" "k \<le> 7"
  shows "level_parser n u k = binary_level n (level_ops k) (level_combine k) (level_parser n u (Suc k))"
proof -
  consider "k = 1" | "k = 2" | "k = 3" | "k = 4" | "k = 5" | "k = 6" | "k = 7" using assms by linarith
  then show ?thesis
    by cases (simp_all add: level_parser_def level_ops_def level_combine_def parse_logical_or_def [of n u]
        parse_logical_and_def [of n u] parse_equality_def [of n u] parse_relational_def [of n u] parse_shift_def [of n u]
        parse_additive_def [of n u] parse_multiplicative_def [of n u])
qed

lemma op_level_ops: "op \<in> level_ops k \<longleftrightarrow> 0 < k \<and> op_level op = k"
  by (cases op) (auto simp: level_ops_def op_level_def)

lemma op_level_le: "op_level op \<le> 7"
  by (cases op) (simp_all add: op_level_def)

lemma signed_take_bit_ok: "ll_ok x \<Longrightarrow> signed_take_bit 63 x = x"
  by (simp add: ll_ok_def signed_take_bit_int_eq_self_iff)

lemma level_combine_value:
  assumes "0 < op_level op" "binary_value op l r = Some v"
  shows "level_combine (op_level op) op l r p = (v, p)"
  using assms
  by (cases op)
    (auto simp: op_level_def level_combine_def binary_value_def checked_def ll_result_def signed_take_bit_ok Let_def
      apply_logical_or_def apply_logical_and_def apply_equality_def apply_relational_def apply_shift_def
      apply_additive_def apply_multiplicative_def split: if_splits)

section \<open>Moving through the tokens\<close>

definition skip :: "nat \<Rightarrow> 'a Parser_scheme \<Rightarrow> 'a Parser_scheme" where
  "skip m = advance ^^ m"

lemma skip_simps [simp]: "skip 0 p = p" "skip (Suc m) p = skip m (advance p)"
  by (simp_all add: skip_def funpow_swap1)

lemma skip_add: "skip (m + n) p = skip n (skip m p)"
  by (simp add: skip_def funpow_add add.commute [of m n])

lemma skip_fields [simp]:
  "perror (skip m p) = perror p" "expr_depth (skip m p) = expr_depth p"
  by (induction m arbitrary: p) (simp_all del: advance_fields(4))

lemma toks_skip: "toks (skip m p) = drop m (toks p)"
  by (induction m arbitrary: p) (simp_all add: toks_advance drop_Suc)

lemma advance_depth: "advance (p\<lparr>expr_depth := d\<rparr>) = (advance p)\<lparr>expr_depth := d\<rparr>"
  by (simp add: advance_def case_prod_beta Let_def)

lemma skip_depth: "skip m (p\<lparr>expr_depth := d\<rparr>) = (skip m p)\<lparr>expr_depth := d\<rparr>"
  by (induction m arbitrary: p) (simp_all add: advance_depth)

lemma toks_Cons: "toks p = t # ts \<Longrightarrow> cur p = t \<and> tok_kind t \<noteq> TK_EOF \<and> toks (advance p) = ts"
  by (auto simp: toks_advance) (auto simp: toks_def split: if_splits)

lemma enter_ok:
  assumes "unat (expr_depth p) < 512"
  shows "parser_enter_expr_depth p = (True, p\<lparr>expr_depth := expr_depth p + 1\<rparr>)" "unat (expr_depth p + 1) = Suc (unat (expr_depth p))"
proof -
  have "\<not> 512 \<le> (ucast (expr_depth p) :: u64)"
    using assms by (simp add: word_le_nat_alt unsigned_ucast_eq take_bit_nat_eq_self)
  then show "parser_enter_expr_depth p = (True, p\<lparr>expr_depth := expr_depth p + 1\<rparr>)"
    by (simp add: parser_enter_expr_depth_def jz_depth_enter_checked_def Let_def)
  show "unat (expr_depth p + 1) = Suc (unat (expr_depth p))"
    using assms by (simp add: unat_word_ariths)
qed

lemma leave_enter:
  assumes "unat (expr_depth p) < 512"
  shows "parser_leave_expr_depth (skip m (p\<lparr>expr_depth := expr_depth p + 1\<rparr>)) = skip m p"
proof -
  have "0 < expr_depth p + 1" using enter_ok(2) [OF assms] by (metis unat_0 word_neq_0_conv zero_less_Suc less_irrefl)
  then have "jz_depth_leave (expr_depth p + 1) = expr_depth p" by (simp add: jz_depth_leave_def)
  moreover have "(skip m p)\<lparr>expr_depth := expr_depth p\<rparr> = skip m p" by (metis Parser.surjective Parser.update_convs(4) skip_fields(2))
  ultimately show ?thesis by (simp add: parser_leave_expr_depth_def skip_depth)
qed

section \<open>The parser evaluates the tokens of a tree\<close>

text \<open>What identifiers must mean for the values \<open>s\<close> of the names.\<close>

definition name_means :: "('a Parser_scheme \<Rightarrow> (int \<times> 'a Parser_scheme) option) \<Rightarrow> (string \<Rightarrow> int option) \<Rightarrow> bool" where
  "name_means name s \<longleftrightarrow>
     (\<forall>p x v. perror p = None \<and> cur p = name_token x \<and> s x = Some v \<longrightarrow> name p = Some (v, advance p))"

text \<open>Evaluation at the unary level and at a binary level, from a state at the tokens of \<open>e\<close>.\<close>

definition starts :: "nat \<Rightarrow> cexp \<Rightarrow> Token list \<Rightarrow> 'a Parser_scheme \<Rightarrow> bool" where
  "starts k e rest p \<longleftrightarrow> perror p = None \<and> toks p = cexp_tokens k e @ rest \<and> unat (expr_depth p) + cexp_depth k e \<le> 512"

definition ends_at :: "nat \<Rightarrow> Token list \<Rightarrow> bool" where
  "ends_at k rest \<longleftrightarrow> (\<forall>t ts. rest = t # ts \<longrightarrow> op_level (tok_kind t) < k)"

definition unary_ok :: "('a Parser_scheme \<Rightarrow> (int \<times> 'a Parser_scheme) option) \<Rightarrow> (string \<Rightarrow> int option) \<Rightarrow> cexp \<Rightarrow> bool" where
  "unary_ok name s e \<longleftrightarrow>
     (\<forall>n p rest v. cexp_value s e = Some v \<and> starts 8 e rest p \<and> 2 * length (cexp_tokens 8 e) < n \<longrightarrow>
        parse_unary name n p = Some (v, skip (length (cexp_tokens 8 e)) p))"

text \<open>The rounds of level \<open>k\<close> for an expression printed at level \<open>j\<close>.\<close>

definition cspine_at :: "nat \<Rightarrow> nat \<Rightarrow> cexp \<Rightarrow> nat" where
  "cspine_at k j e = (if cexp_level e < j then 0 else spine k e)"

definition binary_at ::
  "('a Parser_scheme \<Rightarrow> (int \<times> 'a Parser_scheme) option) \<Rightarrow> (string \<Rightarrow> int option) \<Rightarrow> nat \<Rightarrow> nat \<Rightarrow> cexp \<Rightarrow> bool" where
  "binary_at name s k j e \<longleftrightarrow>
     (\<forall>n p rest v. cexp_value s e = Some v \<and> starts j e rest p \<and> ends_at (Suc k) rest \<and> 2 * length (cexp_tokens j e) < n \<longrightarrow>
        level_parser n (parse_unary name n) k p =
        binary_loop (n - cspine_at k j e) (level_ops k) (level_parser n (parse_unary name n) (Suc k)) (level_combine k) v
          (skip (length (cexp_tokens j e)) p))"

abbreviation binary_ok :: "('a Parser_scheme \<Rightarrow> (int \<times> 'a Parser_scheme) option) \<Rightarrow> (string \<Rightarrow> int option) \<Rightarrow> nat \<Rightarrow> cexp \<Rightarrow> bool" where
  "binary_ok name s k e \<equiv> binary_at name s k k e"

definition expr_ok :: "('a Parser_scheme \<Rightarrow> (int \<times> 'a Parser_scheme) option) \<Rightarrow> (string \<Rightarrow> int option) \<Rightarrow> cexp \<Rightarrow> bool" where
  "expr_ok name s e \<longleftrightarrow>
     (\<forall>n p rest v. cexp_value s e = Some v \<and> perror p = None \<and> toks p = cexp_tokens 1 e @ rest \<and>
        unat (expr_depth p) + cexp_depth 1 e < 512 \<and> ends_at 1 rest \<and> 2 * length (cexp_tokens 1 e) + 1 < n \<longrightarrow>
        parse_expr name n p = Some (v, skip (length (cexp_tokens 1 e)) p))"

lemma tokens_nonempty: "0 < length (cexp_tokens k e)"
  by (cases e) (simp_all add: cexp_tokens.simps)

lemma spine_length: "spine k e < length (cexp_tokens j e)"
proof (induction e arbitrary: j)
  case (CBin op a b)
  have "Suc (spine k a) < length (cexp_body (CBin op a b))"
    using CBin.IH(1) [of "cexp_operand_level op (op_level op) a"] tokens_nonempty [of _ b] by (auto simp: less_Suc_eq_0_disj)
  then show ?case by (auto simp: cexp_tokens.simps)
qed (use tokens_nonempty in auto)

lemma cspine_at_length: "cspine_at k j e < length (cexp_tokens j e)"
  using spine_length tokens_nonempty by (simp add: cspine_at_def)

lemma cspine_at_same [simp]: "cspine_at k k e = spine k e"
  by (cases e) (auto simp: cspine_at_def)

lemma cspine_operand: "op_level op = k \<Longrightarrow> cspine_at k (cexp_operand_level op k e) e = spine k e"
  by (cases e) (auto simp: cspine_at_def cexp_operand_level_def)

lemma binary_atD:
  "binary_at name s k j e \<Longrightarrow> cexp_value s e = Some v \<Longrightarrow> starts j e rest p \<Longrightarrow> ends_at (Suc k) rest \<Longrightarrow>
   2 * length (cexp_tokens j e) < n \<Longrightarrow>
   level_parser n (parse_unary name n) k p =
   binary_loop (n - cspine_at k j e) (level_ops k) (level_parser n (parse_unary name n) (Suc k)) (level_combine k) v
     (skip (length (cexp_tokens j e)) p)"
  unfolding binary_at_def by blast

text \<open>Where no operator of the level follows, the level returns the value.\<close>

lemma binary_result:
  assumes "binary_at name s k j e" "cexp_value s e = Some v" "starts j e rest p" "ends_at k rest" "0 < k"
    and "2 * length (cexp_tokens j e) < n"
  shows "level_parser n (parse_unary name n) k p = Some (v, skip (length (cexp_tokens j e)) p)"
proof -
  let ?q = "skip (length (cexp_tokens j e)) p"
  have e: "ends_at (Suc k) rest" using assms(4) by (auto simp: ends_at_def less_Suc_eq)
  have rest: "toks ?q = rest" using assms(3) by (simp add: starts_def toks_skip)
  have "tok_kind (cur ?q) \<notin> level_ops k"
  proof (cases rest)
    case Nil
    then have "tok_kind (cur ?q) = TK_EOF" using rest by (simp add: toks_def split: if_splits)
    then show ?thesis by (auto simp: op_level_ops op_level_def)
  next
    case (Cons t ts)
    then show ?thesis using toks_Cons [of ?q t ts] rest assms(4) by (auto simp: op_level_ops ends_at_def)
  qed
  moreover obtain m where "n - cspine_at k j e = Suc m" using assms(6) cspine_at_length [of k j e] by (cases "n - cspine_at k j e") auto
  moreover have "level_parser n (parse_unary name n) k p =
      binary_loop (n - cspine_at k j e) (level_ops k) (level_parser n (parse_unary name n) (Suc k)) (level_combine k) v ?q"
    by (rule binary_atD [OF assms(1-3) e assms(6)])
  ultimately show ?thesis by simp
qed

lemma operand_result:
  assumes "k = 8 \<Longrightarrow> j = 8 \<and> unary_ok name s e" "k \<le> 7 \<Longrightarrow> binary_at name s k j e" "cexp_value s e = Some v" "starts j e rest p"
    and "ends_at k rest" "0 < k" "k \<le> 8" "2 * length (cexp_tokens j e) < n"
  shows "level_parser n (parse_unary name n) k p = Some (v, skip (length (cexp_tokens j e)) p)"
proof (cases "k = 8")
  case True
  then show ?thesis using assms(1,3,4,8) by (auto simp: unary_ok_def level_parser_def)
next
  case False
  then show ?thesis using binary_result [OF assms(2)] assms(3-8) by simp
qed

text \<open>The nested expression between parentheses.\<close>

lemma expr_okD:
  fixes name :: "'a Parser_scheme \<Rightarrow> (int \<times> 'a Parser_scheme) option"
  assumes "binary_ok name s 1 e"
  shows "expr_ok name s e"
  unfolding expr_ok_def
proof (intro allI impI, elim conjE)
  fix n rest v and p :: "'a Parser_scheme"
  assume v: "cexp_value s e = Some v" and p: "perror p = None" "toks p = cexp_tokens 1 e @ rest"
    and d: "unat (expr_depth p) + cexp_depth 1 e < 512" and rest: "ends_at 1 rest" and n: "2 * length (cexp_tokens 1 e) + 1 < n"
  let ?p1 = "p\<lparr>expr_depth := expr_depth p + 1\<rparr>" and ?L = "length (cexp_tokens 1 e)"
  have d1: "unat (expr_depth p) < 512" using d by simp
  note E = enter_ok [OF d1]
  obtain m where m: "n = Suc m" "2 * ?L < m" using n by (cases n) auto
  have "starts 1 e rest ?p1" using p d E(2) by (simp add: starts_def)
  from binary_result [OF assms v this rest _ m(2)]
  have "level_parser m (parse_unary name m) 1 ?p1 = Some (v, skip ?L ?p1)" by simp
  then show "parse_expr name n p = Some (v, skip ?L p)"
    using E(1) leave_enter [OF d1] by (simp add: m(1) level_parser_def)
qed

lemma paren_unary:
  fixes name :: "'a Parser_scheme \<Rightarrow> (int \<times> 'a Parser_scheme) option"
  assumes "expr_ok name s e" "cexp_level e < 8" "1 \<le> cexp_level e"
  shows "unary_ok name s e"
  unfolding unary_ok_def
proof (intro allI impI, elim conjE)
  fix n rest v and p :: "'a Parser_scheme"
  assume v: "cexp_value s e = Some v" and st: "starts 8 e rest p" and n: "2 * length (cexp_tokens 8 e) < n"
  have t8: "cexp_tokens 8 e = plain_token TK_LPAREN # cexp_body e @ [plain_token TK_RPAREN]" "cexp_depth 8 e = Suc (body_depth e)"
    using assms(2) by (simp_all add: cexp_tokens.simps cexp_depth.simps)
  have t1: "cexp_tokens 1 e = cexp_body e" "cexp_depth 1 e = body_depth e"
    using assms(3) by (simp_all add: cexp_tokens.simps cexp_depth.simps)
  let ?L = "length (cexp_body e)"
  have p: "perror p = None" "toks p = plain_token TK_LPAREN # cexp_tokens 1 e @ plain_token TK_RPAREN # rest"
    "unat (expr_depth p) + cexp_depth 1 e < 512"
    using st by (simp_all add: starts_def t8 t1 del: One_nat_def)
  note C = toks_Cons [OF p(2)]
  obtain m where m: "n = Suc m" "2 * length (cexp_tokens 1 e) + 1 < m" using n by (cases n) (auto simp: t8 t1 simp del: One_nat_def)
  have "ends_at 1 (plain_token TK_RPAREN # rest)" by (simp add: ends_at_def plain_token_def op_level_def)
  then have e: "parse_expr name m (advance p) = Some (v, skip ?L (advance p))"
    using assms(1) v p C m(2) unfolding expr_ok_def t1 by simp
  have q: "toks (skip ?L (advance p)) = plain_token TK_RPAREN # rest" using C by (simp add: toks_skip t1 del: One_nat_def)
  note D = toks_Cons [OF q]
  have "parse_unary name n p = parse_paren (parse_expr name m) p"
    using p(1) C by (simp add: m(1) parse_primary_def plain_token_def)
  also have "\<dots> = Some (v, advance (skip ?L (advance p)))"
    using e D p(1) by (simp add: parse_paren_def plain_token_def)
  also have "advance (skip ?L (advance p)) = skip (length (cexp_tokens 8 e)) p"
    using skip_add [of "Suc ?L" 1 p] by (simp add: t8)
  finally show "parse_unary name n p = Some (v, skip (length (cexp_tokens 8 e)) p)" .
qed

text \<open>An operand of a higher level falls through the loops below it.\<close>

lemma fall_at:
  fixes name :: "'a Parser_scheme \<Rightarrow> (int \<times> 'a Parser_scheme) option"
  assumes "Suc k = 8 \<Longrightarrow> j = 8 \<and> unary_ok name s e" "Suc k \<le> 7 \<Longrightarrow> binary_at name s (Suc k) j e" "1 \<le> k" "k \<le> 7" "cspine_at k j e = 0"
  shows "binary_at name s k j e"
  unfolding binary_at_def
proof (intro allI impI, elim conjE)
  fix n rest v and p :: "'a Parser_scheme"
  assume v: "cexp_value s e = Some v" and st: "starts j e rest p" and rest: "ends_at (Suc k) rest"
    and n: "2 * length (cexp_tokens j e) < n"
  have "level_parser n (parse_unary name n) (Suc k) p = Some (v, skip (length (cexp_tokens j e)) p)"
    using operand_result [OF assms(1,2) v st rest _ _ n] assms(3,4) by simp
  then show "level_parser n (parse_unary name n) k p =
      binary_loop (n - cspine_at k j e) (level_ops k) (level_parser n (parse_unary name n) (Suc k)) (level_combine k) v
        (skip (length (cexp_tokens j e)) p)"
    using level_parser_rec [OF assms(3,4), of n "parse_unary name n"] assms(5) by (simp add: binary_level_def)
qed

lemma fall_through:
  fixes name :: "'a Parser_scheme \<Rightarrow> (int \<times> 'a Parser_scheme) option"
  assumes "Suc k = 8 \<Longrightarrow> unary_ok name s e" "Suc k \<le> 7 \<Longrightarrow> binary_ok name s (Suc k) e" "1 \<le> k" "k \<le> 7" "cexp_level e \<noteq> k"
    and "cexp_tokens (Suc k) e = cexp_tokens k e" "cexp_depth (Suc k) e = cexp_depth k e"
  shows "binary_ok name s k e"
proof -
  have z: "spine k e = 0" using assms(5) by (cases e) auto
  have "binary_at name s k (Suc k) e"
  proof (rule fall_at)
    show "Suc k = 8 \<and> unary_ok name s e" if "Suc k = 8" using assms(1) that by blast
    show "binary_ok name s (Suc k) e" if "Suc k \<le> 7" using assms(2) that by blast
  qed (use assms(3,4) z in \<open>simp_all add: cspine_at_def\<close>)
  moreover have "cspine_at k (Suc k) e = cspine_at k k e" using z by (simp add: cspine_at_def)
  ultimately show ?thesis unfolding binary_at_def starts_def assms(6,7) by simp
qed

text \<open>An operand in parentheses is read at every level.\<close>

lemma paren_at:
  assumes "unary_ok name s e" "cexp_level e < 8" "1 \<le> k" "k \<le> 7"
  shows "binary_at name s k 8 e"
proof -
  have "binary_at name s k 8 e" if "k \<le> 7" "1 \<le> k"
    using that
  proof (induction rule: inc_induct)
    case base
    show ?case by (rule fall_at) (use assms(1,2) in \<open>simp_all add: cspine_at_def\<close>)
  next
    case (step i)
    show ?case by (rule fall_at) (use step assms(1,2) in \<open>simp_all add: cspine_at_def\<close>)
  qed
  then show ?thesis using assms(3,4) by blast
qed

text \<open>One operator: the loop that evaluated the left operand takes one more round.\<close>

lemma one_round:
  fixes name :: "'a Parser_scheme \<Rightarrow> (int \<times> 'a Parser_scheme) option"
  assumes "binary_at name s k (cexp_operand_level op k a) a" "unary_ok name s b" "Suc k \<le> 7 \<Longrightarrow> binary_at name s (Suc k) (cexp_operand_level op (Suc k) b) b"
    and "op_level op = k" "1 \<le> k"
  shows "binary_ok name s k (CBin op a b)"
  unfolding binary_at_def
proof (intro allI impI, elim conjE)
  let ?e = "CBin op a b" and ?ja = "cexp_operand_level op k a" and ?jb = "cexp_operand_level op (Suc k) b"
  have k7: "k \<le> 7" using assms(4) op_level_le [of op] by simp
  have t: "cexp_tokens k ?e = cexp_tokens ?ja a @ plain_token op # cexp_tokens ?jb b"
    "cexp_depth k ?e = max (cexp_depth ?ja a) (cexp_depth ?jb b)"
    using assms(4) by (simp_all add: cexp_tokens.simps [of k ?e] cexp_depth.simps [of k ?e])
  fix n rest v and p :: "'a Parser_scheme"
  assume v: "cexp_value s ?e = Some v" and st: "starts k ?e rest p" and rest: "ends_at (Suc k) rest"
    and n: "2 * length (cexp_tokens k ?e) < n"
  let ?U = "parse_unary name n" and ?La = "length (cexp_tokens ?ja a)" and ?Lb = "length (cexp_tokens ?jb b)"
  let ?loop = "\<lambda>m. binary_loop m (level_ops k) (level_parser n ?U (Suc k)) (level_combine k)"
  obtain l r where lr: "cexp_value s a = Some l" "cexp_value s b = Some r" "binary_value op l r = Some v"
    using v by (auto split: option.splits)
  have sa: "starts ?ja a (plain_token op # cexp_tokens ?jb b @ rest) p" using st by (auto simp: starts_def t)
  have "ends_at (Suc k) (plain_token op # cexp_tokens ?jb b @ rest)"
    using assms(4) by (simp add: ends_at_def plain_token_def)
  then have A: "level_parser n ?U k p = ?loop (n - spine k a) l (skip ?La p)"
    using binary_atD [OF assms(1) lr(1) sa] n cspine_operand [OF assms(4), of a] by (simp add: t)
  let ?q = "skip ?La p"
  have q: "toks ?q = plain_token op # cexp_tokens ?jb b @ rest" "perror ?q = None"
    using sa by (simp_all add: starts_def toks_skip)
  note C = toks_Cons [OF q(1)]
  have sb: "starts ?jb b rest (advance ?q)" using q C st by (auto simp: starts_def t)
  have "Suc k = 8 \<Longrightarrow> ?jb = 8" using assms(4) by (simp add: cexp_operand_level_def)
  then have B: "level_parser n ?U (Suc k) (advance ?q) = Some (r, skip ?Lb (advance ?q))"
    using operand_result [OF _ assms(3) lr(2) sb rest] assms(2) n k7 by (simp add: t)
  have op: "tok_kind (cur ?q) = op" "op \<in> level_ops k" using C assms(4,5) by (simp_all add: plain_token_def op_level_ops)
  obtain m where m: "n - spine k a = Suc m" using n spine_length [of k a ?ja] by (cases "n - spine k a") (auto simp: t)
  have "?loop (Suc m) l ?q = ?loop m v (skip ?Lb (advance ?q))"
    using B op q(2) level_combine_value [of op l r v "skip ?Lb (advance ?q)"] lr(3) assms(4,5) by simp
  moreover have "skip ?Lb (advance ?q) = skip (length (cexp_tokens k ?e)) p"
    using skip_add [of ?La "Suc ?Lb" p] by (simp add: t)
  moreover have "m = n - cspine_at k k ?e" using m assms(4) by simp
  ultimately show "level_parser n ?U k p = ?loop (n - cspine_at k k ?e) v (skip (length (cexp_tokens k ?e)) p)"
    using A m by simp
qed

text \<open>Down from a level at which the tree is evaluated, through levels that print it the same way.\<close>

lemma levels_down:
  fixes name :: "'a Parser_scheme \<Rightarrow> (int \<times> 'a Parser_scheme) option"
  assumes "i \<le> j" "1 \<le> i" "j \<le> 8" "j = 8 \<Longrightarrow> unary_ok name s e" "j \<le> 7 \<Longrightarrow> binary_ok name s j e"
    and "\<And>k. i \<le> k \<Longrightarrow> k < j \<Longrightarrow> cexp_level e \<noteq> k \<and> (cexp_level e < Suc k \<longleftrightarrow> cexp_level e < k)"
  shows "i \<le> 7 \<longrightarrow> binary_ok name s i e"
  using assms(1)
proof (induction rule: inc_induct)
  case base
  then show ?case using assms(5) by simp
next
  case (step k)
  have same: "cexp_tokens (Suc k) e = cexp_tokens k e" "cexp_depth (Suc k) e = cexp_depth k e"
    using assms(6) [of k] step.hyps by (auto simp: cexp_tokens.simps cexp_depth.simps)
  show ?case
  proof
    assume "k \<le> 7"
    have "Suc k = 8 \<Longrightarrow> unary_ok name s e" using assms(3,4) step.hyps by simp
    then show "binary_ok name s k e"
      using fall_through [OF _ _ _ \<open>k \<le> 7\<close> _ same] step assms(2,6) by auto
  qed
qed

lemma unary_levels:
  assumes "unary_ok name s e" "cexp_level e = 8" "1 \<le> k" "k \<le> 7"
  shows "binary_ok name s k e"
  using levels_down [of k 8 name s e] assms by auto

lemma binary_levels:
  assumes "binary_ok name s (op_level op) (CBin op a b)" "0 < op_level op"
  shows "unary_ok name s (CBin op a b)" "1 \<le> k \<Longrightarrow> k \<le> 7 \<Longrightarrow> binary_ok name s k (CBin op a b)"
proof -
  let ?e = "CBin op a b"
  have le: "op_level op \<le> 7" by (rule op_level_le)
  have low: "binary_ok name s k ?e" if "1 \<le> k" "k \<le> op_level op" for k
    using levels_down [of k "op_level op" name s ?e] assms(1) that le by auto
  then have "expr_ok name s ?e" using expr_okD assms(2) by force
  then show u: "unary_ok name s ?e" using paren_unary [of name s ?e] assms(2) le by simp
  show "binary_ok name s k ?e" if "1 \<le> k" "k \<le> 7"
  proof (cases "k \<le> op_level op")
    case True
    then show ?thesis using low that by simp
  next
    case False
    then show ?thesis using levels_down [of k 8 name s ?e] u that by auto
  qed
qed

lemma unary_okI:
  fixes name :: "'a Parser_scheme \<Rightarrow> (int \<times> 'a Parser_scheme) option"
  assumes "cexp_level e = 8"
    and "\<And>m p rest v. cexp_value s e = Some v \<Longrightarrow> perror p = None \<Longrightarrow> toks p = cexp_body e @ rest \<Longrightarrow>
      unat (expr_depth p) + body_depth e \<le> 512 \<Longrightarrow> 2 * length (cexp_body e) \<le> m \<Longrightarrow>
      parse_unary name (Suc m) p = Some (v, skip (length (cexp_body e)) p)"
  shows "unary_ok name s e"
  unfolding unary_ok_def
proof (intro allI impI, elim conjE)
  fix n rest v and p :: "'a Parser_scheme"
  have t: "cexp_tokens 8 e = cexp_body e" "cexp_depth 8 e = body_depth e"
    using assms(1) by (simp_all add: cexp_tokens.simps cexp_depth.simps)
  assume v: "cexp_value s e = Some v" and st: "starts 8 e rest p" and "2 * length (cexp_tokens 8 e) < n"
  then obtain m where "n = Suc m" "2 * length (cexp_body e) \<le> m" using t by (cases n) auto
  then show "parse_unary name n p = Some (v, skip (length (cexp_tokens 8 e)) p)"
    using assms(2) [OF v] st by (simp add: t starts_def)
qed

lemma sign_step:
  assumes "unary_ok name s e" "cexp_value s e = Some w" "perror p = None" "toks p = plain_token k # cexp_tokens 8 e @ rest"
    and "unat (expr_depth p) + Suc (cexp_depth 8 e) \<le> 512" "2 * length (cexp_tokens 8 e) < m" "k = TK_PLUS \<or> k = TK_MINUS"
  shows "parse_unary name (Suc m) p =
      (if k = TK_PLUS then Some (w, skip (Suc (length (cexp_tokens 8 e))) p)
       else Some (ll_result (- w) (ll_ok (- w)) (skip (Suc (length (cexp_tokens 8 e))) p)))"
proof -
  let ?q = "advance p" and ?L = "length (cexp_tokens 8 e)"
  note C = toks_Cons [OF assms(4)]
  have d: "unat (expr_depth ?q) < 512" using assms(5) by simp
  note E = enter_ok [OF d]
  have "starts 8 e rest (?q\<lparr>expr_depth := expr_depth ?q + 1\<rparr>)" using C assms(3,5) E(2) by (simp add: starts_def)
  then have "parse_unary name m (?q\<lparr>expr_depth := expr_depth ?q + 1\<rparr>) = Some (w, skip ?L (?q\<lparr>expr_depth := expr_depth ?q + 1\<rparr>))"
    using assms(1,2,6) unfolding unary_ok_def by blast
  then show ?thesis
    using assms(3,7) C E(1) leave_enter [OF d] by (auto simp: plain_token_def Let_def)
qed

lemma unary_ok_sign:
  assumes "unary_ok name s e"
  shows "unary_ok name s (CPlus e)" "unary_ok name s (CMinus e)"
proof -
  show "unary_ok name s (CPlus e)"
  proof (rule unary_okI, simp, goal_cases)
    case (1 m p rest v)
    then show ?case using sign_step [OF assms, of v p TK_PLUS rest m] by (simp del: parse_unary.simps)
  qed
  show "unary_ok name s (CMinus e)"
  proof (rule unary_okI, simp, goal_cases)
    case (1 m p rest v)
    then obtain w where "cexp_value s e = Some w" "v = - w" "ll_ok (- w)"
      by (auto simp: checked_def split: option.splits if_splits)
    then show ?case
      using 1 sign_step [OF assms, of w p TK_MINUS rest m] signed_take_bit_ok [of "- w"]
      by (simp add: ll_result_def del: parse_unary.simps)
  qed
qed

lemma unary_ok_clog2:
  fixes name :: "'a Parser_scheme \<Rightarrow> (int \<times> 'a Parser_scheme) option"
  assumes "expr_ok name s e"
  shows "unary_ok name s (CClog2 e)"
proof (rule unary_okI)
  fix m rest v and p :: "'a Parser_scheme"
  let ?L = "length (cexp_tokens 1 e)"
  assume v: "cexp_value s (CClog2 e) = Some v" and p: "perror p = None" "toks p = cexp_body (CClog2 e) @ rest"
    and d: "unat (expr_depth p) + body_depth (CClog2 e) \<le> 512" and m: "2 * length (cexp_body (CClog2 e)) \<le> m"
  obtain w where w: "cexp_value s e = Some w" "0 < w" "v = eval_clog2_positive (nat w)"
    using v by (auto split: option.splits if_splits)
  have c: "toks p = name_token ''clog2'' # plain_token TK_LPAREN # cexp_tokens 1 e @ plain_token TK_RPAREN # rest"
    using p(2) by simp
  note C = toks_Cons [OF c]
  note D = toks_Cons [OF conjunct2 [OF conjunct2 [OF C]]]
  have "ends_at 1 (plain_token TK_RPAREN # rest)" by (simp add: ends_at_def plain_token_def op_level_def)
  then have e: "parse_expr name m (advance (advance p)) = Some (w, skip ?L (advance (advance p)))"
    using assms w(1) p(1) d D m unfolding expr_ok_def by (simp del: One_nat_def)
  have q: "toks (skip ?L (advance (advance p))) = plain_token TK_RPAREN # rest" using D by (simp add: toks_skip)
  note F = toks_Cons [OF q]
  have "parse_unary name (Suc m) p = parse_clog2 (parse_expr name m) p"
    using p(1) C by (simp add: parse_primary_def name_token_def)
  also have "\<dots> = Some (v, advance (skip ?L (advance (advance p))))"
    using e D F p(1) w by (simp add: parse_clog2_def plain_token_def Let_def)
  also have "advance (skip ?L (advance (advance p))) = skip (length (cexp_body (CClog2 e))) p"
    using skip_add [of "Suc (Suc ?L)" 1 p] by simp
  finally show "parse_unary name (Suc m) p = Some (v, skip (length (cexp_body (CClog2 e))) p)" .
qed simp

lemma cexp_parses:
  assumes "name_means name s"
  shows "cexp_ok e \<Longrightarrow> unary_ok name s e \<and> (\<forall>k. 1 \<le> k \<and> k \<le> 7 \<longrightarrow> binary_ok name s k e)"
proof (induction e)
  case (CNum n)
  have "unary_ok name s (CNum n)"
    by (rule unary_okI) (auto dest!: toks_Cons simp: num_token_def parse_primary_def)
  then show ?case by (auto intro: unary_levels)
next
  case (CName x)
  have "unary_ok name s (CName x)"
    using CName assms
    by (intro unary_okI) (auto dest!: toks_Cons simp: name_token_def parse_primary_def name_means_def)
  then show ?case by (auto intro: unary_levels)
next
  case (CPlus e)
  then have "unary_ok name s (CPlus e)" by (intro unary_ok_sign(1)) simp
  then show ?case by (auto intro: unary_levels)
next
  case (CMinus e)
  then have "unary_ok name s (CMinus e)" by (intro unary_ok_sign(2)) simp
  then show ?case by (auto intro: unary_levels)
next
  case (CClog2 e)
  then have "binary_ok name s 1 e" by simp
  then have "unary_ok name s (CClog2 e)" by (intro unary_ok_clog2 expr_okD)
  then show ?case by (auto intro: unary_levels)
next
  case (CBin op a b)
  then have op: "1 \<le> op_level op" by simp
  have operand: "binary_at name s k (cexp_operand_level op k e) e" if "unary_ok name s e \<and> (\<forall>k. 1 \<le> k \<and> k \<le> 7 \<longrightarrow> binary_ok name s k e)" "1 \<le> k" "k \<le> 7" for k e
    using that paren_at [of name s e k] by (auto simp: cexp_operand_level_def)
  have "binary_ok name s (op_level op) (CBin op a b)"
    by (rule one_round) (use CBin op op_level_le [of op] in \<open>auto intro!: operand\<close>)
  from binary_levels [OF this] show ?case using CBin.prems by simp
qed

text \<open>The value of a whole expression, up to a token that is no operator.\<close>

lemma parse_expr_value:
  assumes "name_means name s" "cexp_ok e" "cexp_value s e = Some v" "perror p = None" "toks p = cexp_tokens 1 e"
    and "unat (expr_depth p) + cexp_depth 1 e < 512" "2 * length (cexp_tokens 1 e) + 1 < n"
  shows "parse_expr name n p = Some (v, skip (length (cexp_tokens 1 e)) p)"
proof -
  have "binary_ok name s 1 e" using cexp_parses [OF assms(1,2)] by simp
  then have "expr_ok name s e" by (rule expr_okD)
  moreover have "ends_at 1 []" by (simp add: ends_at_def)
  ultimately show ?thesis using assms(3-7) unfolding expr_ok_def by (metis append_Nil2)
qed

end
