(* ===== verification/Const_Eval_Lex.thy ===== *)
theory Const_Eval_Lex
  imports Const_Eval_Ref
begin

text \<open>
  The text of an expression: tokens separated by blanks. The lexer reads the tokens back, so
  the evaluator maps the text of a tree to the tree's value.
\<close>

section \<open>Definitions\<close>

definition op_text :: "TokenKind \<Rightarrow> string" where
  "op_text k =
     (case k of TK_PLUS \<Rightarrow> ''+'' | TK_MINUS \<Rightarrow> ''-'' | TK_STAR \<Rightarrow> ''*'' | TK_SLASH \<Rightarrow> ''/'' | TK_PERCENT \<Rightarrow> ''%''
      | TK_LPAREN \<Rightarrow> ''('' | TK_RPAREN \<Rightarrow> '')'' | TK_EQEQ \<Rightarrow> ''=='' | TK_NEQ \<Rightarrow> ''!='' | TK_LT \<Rightarrow> ''<'' | TK_LE \<Rightarrow> ''<=''
      | TK_GT \<Rightarrow> ''>'' | TK_GE \<Rightarrow> ''>='' | TK_SHL \<Rightarrow> ''<<'' | TK_SHR \<Rightarrow> ''>>'' | TK_ASHR \<Rightarrow> ''>>>''
      | TK_AND_AND \<Rightarrow> ''&&'' | TK_OR_OR \<Rightarrow> ''||'' | _ \<Rightarrow> [])"

definition token_text :: "Token \<Rightarrow> string" where
  "token_text t =
     (if tok_kind t = TK_INT then show_nat (nat (int_val t)) else if tok_kind t = TK_IDENT then ident t
      else op_text (tok_kind t))"

definition render :: "Token list \<Rightarrow> string" where
  "render ts = concat (map (\<lambda>t. token_text t @ '' '') ts)"

definition valid_token :: "Token \<Rightarrow> bool" where
  "valid_token t \<longleftrightarrow>
     (\<exists>n. t = num_token n \<and> 0 \<le> n \<and> n \<le> LLONG_MAX) \<or> (\<exists>x. t = name_token x \<and> valid_name x) \<or>
     (\<exists>k. t = plain_token k \<and> k \<notin> {TK_EOF, TK_INT, TK_IDENT})"

section \<open>Reading one token\<close>

lemma blank_classes [simp]:
  "isspace CHR '' ''" "\<not> isdigit CHR '' ''" "\<not> is_ident_char CHR '' ''"
  by (simp_all add: isspace_def isdigit_def is_ident_char_def isalpha_def isalnum_def)

lemma lex_blank: "lex_one (CHR '' '' # s) = lex_one s"
  by (simp add: lex_one_def skip_ws_def)

lemma digit_classes: "d < 10 \<Longrightarrow> isdigit (digit_char d) \<and> \<not> isspace (digit_char d) \<and> digit_char d \<noteq> CHR ''_''"
  using of_char_digit [of d] by (auto simp: isdigit_def isspace_def)

lemma lex_digits: "int n \<le> LLONG_MAX \<Longrightarrow> lex_int 0 (show_nat n @ r) = lex_int (int n) r"
proof (induction n arbitrary: r rule: show_nat.induct)
  case (1 n)
  show ?case
  proof (cases "n < 10")
    case True
    then have "\<not> 0 > (LLONG_MAX - int n) div 10" by simp
    with True show ?thesis using digit_classes [of n] of_char_digit [of n] by (simp add: show_nat.simps Let_def)
  next
    case False
    let ?d = "n mod 10"
    have split: "int n = int (n div 10) * 10 + int ?d" by presburger
    have "\<not> int (n div 10) > (LLONG_MAX - int ?d) div 10" using 1(2) split by linarith
    moreover have "lex_int 0 (show_nat n @ r) = lex_int (int (n div 10)) (digit_char ?d # r)"
      using 1(1) [OF False, of "digit_char ?d # r"] 1(2) False by (subst show_nat.simps) simp
    ultimately show ?thesis using digit_classes [of ?d] of_char_digit [of ?d] split by (simp add: Let_def)
  qed
qed

lemma show_nat_hd: "\<exists>d ds. d < 10 \<and> show_nat n = digit_char d # ds"
proof (induction n rule: show_nat.induct)
  case (1 n)
  then show ?case by (cases "n < 10") (force simp: show_nat.simps [of n])+
qed

lemma lex_number:
  assumes "0 \<le> n" "n \<le> LLONG_MAX"
  shows "lex_one (show_nat (nat n) @ CHR '' '' # s) = (num_token n, CHR '' '' # s)"
proof -
  obtain d ds where d: "d < 10" "show_nat (nat n) = digit_char d # ds" using show_nat_hd by blast
  have "lex_int 0 (show_nat (nat n) @ CHR '' '' # s) = (n, CHR '' '' # s)"
    using lex_digits [of "nat n" "CHR '' '' # s"] assms by simp
  then show ?thesis
    using d digit_classes [OF d(1)] by (simp add: lex_one_def skip_ws_def num_token_def del: lex_int.simps)
qed

lemma lex_name:
  assumes "valid_name x"
  shows "lex_one (x @ CHR '' '' # s) = (name_token x, CHR '' '' # s)"
proof -
  obtain c cs where x: "x = c # cs" using assms by (cases x) (auto simp: valid_name_def)
  have c: "is_ident_start c" "\<not> isdigit c" "\<not> isspace c"
    using assms x by (auto simp: valid_name_def is_ident_start_def isalpha_def isdigit_def isspace_def)
  have "takeWhile is_ident_char (x @ CHR '' '' # s) = x" "dropWhile is_ident_char (x @ CHR '' '' # s) = CHR '' '' # s"
    using assms by (simp_all add: valid_name_def list_all_iff takeWhile_append2 dropWhile_append2)
  then show ?thesis
    using c assms x by (simp add: lex_one_def skip_ws_def lex_ident_def name_token_def valid_name_def)
qed

lemma lex_operator:
  assumes "k \<notin> {TK_EOF, TK_INT, TK_IDENT}"
  shows "lex_one (op_text k @ CHR '' '' # s) = (plain_token k, CHR '' '' # s)"
  using assms
  by (cases k)
    (simp_all add: op_text_def lex_one_def skip_ws_def isspace_def isdigit_def is_ident_start_def isalpha_def lex_punct_def
      lex_pair_def)

lemma lex_token: "valid_token t \<Longrightarrow> lex_one (token_text t @ CHR '' '' # s) = (t, CHR '' '' # s)"
proof -
  assume "valid_token t"
  then consider n where "t = num_token n" "0 \<le> n" "n \<le> LLONG_MAX" | x where "t = name_token x" "valid_name x"
    | k where "t = plain_token k" "k \<notin> {TK_EOF, TK_INT, TK_IDENT}"
    by (auto simp: valid_token_def)
  then show ?thesis
  proof cases
    case 1
    then show ?thesis using lex_number [of n s] by (simp add: token_text_def num_token_def)
  next
    case 2
    then show ?thesis using lex_name [of x s] by (simp add: token_text_def name_token_def)
  next
    case 3
    then show ?thesis using lex_operator [of k s] by (simp add: token_text_def plain_token_def)
  qed
qed

section \<open>Reading all tokens\<close>

lemma lex_all_render:
  assumes "list_all valid_token ts"
  shows "lex_all (render ts) = ts" "lex_all (CHR '' '' # render ts) = ts"
proof -
  have "lex_all (render ts) = ts \<and> lex_all (CHR '' '' # render ts) = ts"
    using assms
  proof (induction ts)
    case Nil
    then show ?case by (simp add: render_def lex_all.simps lex_one_def skip_ws_def plain_token_def)
  next
    case (Cons t ts)
    have t: "lex_one (render (t # ts)) = (t, CHR '' '' # render ts)" "tok_kind t \<noteq> TK_EOF"
      using Cons.prems lex_token [of t "render ts"]
      by (auto simp: render_def valid_token_def num_token_def name_token_def plain_token_def)
    show ?case using Cons t by (simp add: lex_all.simps [of "render (t # ts)"] lex_all.simps [of "CHR '' '' # render (t # ts)"] lex_blank)
  qed
  then show "lex_all (render ts) = ts" "lex_all (CHR '' '' # render ts) = ts" by simp_all
qed

lemma tokens_valid:
  "cexp_ok e \<Longrightarrow> list_all valid_token (cexp_body e)"
  "cexp_ok e \<Longrightarrow> list_all valid_token (cexp_tokens k e)"
proof (induction e and k e rule: cexp_body_cexp_tokens.induct)
  case (5 e)
  have "valid_name ''clog2''" by (simp add: valid_name_def is_ident_start_def is_ident_char_def isalpha_def isalnum_def isdigit_def)
  then show ?case using 5 by (auto simp: valid_token_def)
next
  case (6 op a b)
  then show ?case by (cases op) (auto simp: valid_token_def op_level_def)
qed (auto simp: valid_token_def cexp_tokens.simps)

lemma const_eval_tokens:
  assumes "name_means name s" "cexp_ok e" "cexp_value s e = Some v" "cexp_depth 1 e < 512"
    and "perror p = None" "expr_depth p = 0" "toks p = lex_all (render (cexp_tokens 1 e))"
  shows "\<exists>q. parse_expr name (parse_fuel (render (cexp_tokens 1 e))) p = Some (v, q) \<and> perror q = None \<and> tok_kind (cur q) = TK_EOF"
proof -
  let ?ts = "cexp_tokens 1 e"
  have ts: "toks p = ?ts" using assms(7) lex_all_render(1) [OF tokens_valid(2) [OF assms(2)]] by simp
  have "length ?ts \<le> length (render ?ts)" using length_lex_all [of "render ?ts"] assms(7) ts by simp
  then have "2 * length ?ts + 1 < parse_fuel (render ?ts)" by (simp add: parse_fuel_def)
  then have "parse_expr name (parse_fuel (render ?ts)) p = Some (v, skip (length ?ts) p)"
    using parse_expr_value [OF assms(1-3,5) ts] assms(4,6) by simp
  moreover have "toks (skip (length ?ts) p) = []" by (simp add: toks_skip ts)
  ultimately show ?thesis using assms(5) by (auto simp: toks_def split: if_splits)
qed

end
