(* ===== verification/Const_Eval_Env.thy ===== *)
theory Const_Eval_Env
  imports Const_Eval_Lex
begin

text \<open>
  Evaluation of named constants that depend on each other. Entries only ever change from "not
  visited" to "done", so the depth of the recursion is bounded by their number; and what a
  finished entry holds is the value of its expression under the final values of all names.
\<close>

section \<open>Definitions\<close>

definition env_ok :: "EvalEnv \<Rightarrow> bool" where
  "env_ok e \<longleftrightarrow> length (env_state e) = length (env_defs e) \<and> length (env_values e) = length (env_defs e)"

definition unvisited :: "EvalEnv \<Rightarrow> nat set" where
  "unvisited e = {j. j < length (env_state e) \<and> env_state e ! j = EVAL_NOT_VISITED}"

text \<open>Finished entries stay as they are; \<open>env_le\<close> adds that nothing is left in progress.\<close>

definition done_le :: "EvalEnv \<Rightarrow> EvalEnv \<Rightarrow> bool" where
  "done_le e f \<longleftrightarrow>
     env_defs f = env_defs e \<and> length (env_state f) = length (env_state e) \<and> length (env_values f) = length (env_values e) \<and>
     (\<forall>j < length (env_state e). env_state e ! j = EVAL_DONE \<longrightarrow> env_state f ! j = EVAL_DONE \<and> env_values f ! j = env_values e ! j)"

definition env_le :: "EvalEnv \<Rightarrow> EvalEnv \<Rightarrow> bool" where
  "env_le e f \<longleftrightarrow> done_le e f \<and> (\<forall>j < length (env_state e). env_state e ! j = EVAL_VISITING \<longleftrightarrow> env_state f ! j = EVAL_VISITING)"

text \<open>What the names mean once entries are finished, and the parser for fixed meanings.\<close>

definition env_lookup :: "EvalEnv \<Rightarrow> string \<Rightarrow> int option" where
  "env_lookup e x =
     (case find_def_index e x of
        None \<Rightarrow> None
      | Some i \<Rightarrow> if env_state e ! i = EVAL_DONE then Some (env_values e ! i) else None)"

definition bound_name :: "(string \<Rightarrow> int option) \<Rightarrow> Parser \<Rightarrow> (int \<times> Parser) option" where
  "bound_name s p =
     (case s (ident (cur p)) of Some v \<Rightarrow> Some (v, advance p) | None \<Rightarrow> Some (0, parser_diag p UNKNOWN_NAME))"

definition value_under :: "(string \<Rightarrow> int option) \<Rightarrow> string \<Rightarrow> (ConstError + int) option" where
  "value_under s src = map_option finish_expr (parse_expr (bound_name s) (parse_fuel src) (parser_init src))"

text \<open>Every finished entry holds the value of its expression.\<close>

definition values_hold :: "EvalEnv \<Rightarrow> bool" where
  "values_hold e \<longleftrightarrow>
     (\<forall>j < length (env_defs e). env_state e ! j = EVAL_DONE \<longrightarrow>
        value_under (env_lookup e) (def_source (env_defs e ! j)) = Some (Inr (env_values e ! j)))"

section \<open>Entries only make progress\<close>

lemma env_le_refl [simp]: "env_le e e" "done_le e e"
  by (simp_all add: env_le_def done_le_def)

lemma done_le_trans: "done_le e f \<Longrightarrow> done_le f g \<Longrightarrow> done_le e g"
  by (auto simp: done_le_def)

lemma env_le_trans: "env_le e f \<Longrightarrow> env_le f g \<Longrightarrow> env_le e g"
  using done_le_trans by (auto simp: env_le_def) (auto simp: done_le_def)

lemma env_le_done: "env_le e f \<Longrightarrow> done_le e f"
  by (simp add: env_le_def)

lemma env_ok_le: "done_le e f \<Longrightarrow> env_ok f = env_ok e"
  by (simp add: done_le_def env_ok_def)

lemma unvisited_le: "env_le e f \<Longrightarrow> unvisited f \<subseteq> unvisited e"
proof
  fix j assume le: "env_le e f" and "j \<in> unvisited f"
  then have "j < length (env_state e)" "env_state f ! j = EVAL_NOT_VISITED" by (auto simp: unvisited_def env_le_def done_le_def)
  then show "j \<in> unvisited e" using le by (cases "env_state e ! j") (auto simp: unvisited_def env_le_def done_le_def)
qed

definition env_step :: "EnvParser \<Rightarrow> EnvParser \<Rightarrow> bool" where
  "env_step p q \<longleftrightarrow> error_kept p q \<and> input_consumed p q \<and> env_le (penv p) (penv q)"

definition eval_progress :: "(EvalEnv \<Rightarrow> nat \<Rightarrow> (int \<times> EvalEnv) option) \<Rightarrow> bool" where
  "eval_progress eval \<longleftrightarrow> (\<forall>e i r f. eval e i = Some (r, f) \<longrightarrow> env_le e f)"

lemma parser_penv [simp]:
  "penv (p\<lparr>perror := x\<rparr>) = penv p" "penv (parser_diag p e) = penv p" "penv (advance p) = penv p"
  "penv (p\<lparr>expr_depth := d\<rparr>) = penv p" "penv (p\<lparr>overflowed := b\<rparr>) = penv p"
  by (simp_all add: parser_diag_def advance_def case_prod_beta Let_def)

lemma env_name_steps:
  assumes "eval_progress eval"
  shows "parser_steps env_step (env_name eval)"
proof
  fix p q v
  assume "env_name eval p = Some (v, q)" and p: "perror p = None"
  then have "env_le (penv p) (penv q)"
    using assms by (auto simp: env_name_def env_parser_diag_def eval_progress_def Let_def split: option.splits if_splits)
  moreover have "input_consumed p q"
    using env_name_cases [of eval p v q] \<open>env_name eval p = Some (v, q)\<close> by (auto simp: input_consumed_def)
  ultimately show "env_step p q" using p by (simp add: env_step_def error_kept_def)
qed (auto simp: env_step_def error_kept_def input_consumed_def toks_advance parser_diag_def intro: env_le_trans)

lemma set_state_simps [simp]:
  "env_defs (set_state i st e) = env_defs e" "env_values (set_state i st e) = env_values e"
  "env_state (set_state i st e) = (env_state e)[i := st]"
  by (simp_all add: set_state_def)

lemma penv_init [simp]: "penv (env_parser_init src e) = e"
  by (simp add: env_parser_init_def case_prod_beta Let_def)

lemma toks_env_init: "toks (env_parser_init src e) = lex_all src"
  by (subst lex_all.simps) (simp add: toks_def env_parser_init_def case_prod_beta Let_def)

lemma finish_one_cases:
  assumes "finish_one i (v, q) = (r, f)"
  shows "env_defs f = env_defs (penv q)"
    "r \<noteq> 0 \<and> env_values f = env_values (penv q) \<and> env_state f = (env_state (penv q))[i := EVAL_NOT_VISITED] \<or>
     r = 0 \<and> finish_expr (v, q) = Inr v \<and> env_values f = (env_values (penv q))[i := v] \<and> env_state f = (env_state (penv q))[i := EVAL_DONE]"
  using assms
  by (auto simp: finish_one_def finish_expr_def Let_def split: sum.splits option.splits if_splits)

lemma env_le_finish:
  assumes "env_le (set_state i EVAL_VISITING e) g" "env_state e ! i = EVAL_NOT_VISITED" "env_defs f = env_defs g"
    and "env_state f = (env_state g)[i := st]" "st \<noteq> EVAL_VISITING" "env_values f = env_values g \<or> env_values f = (env_values g)[i := v]"
  shows "env_le e f"
proof -
  have L: "env_defs g = env_defs e" "length (env_state g) = length (env_state e)" "length (env_values g) = length (env_values e)"
    using assms(1) by (simp_all add: env_le_def done_le_def)
  have D: "env_state g ! j = EVAL_DONE" "env_values g ! j = env_values e ! j"
    if "j < length (env_state e)" "env_state e ! j = EVAL_DONE" "j \<noteq> i" for j
    using assms(1) that by (simp_all add: env_le_def done_le_def)
  have V: "env_state e ! j = EVAL_VISITING \<longleftrightarrow> env_state g ! j = EVAL_VISITING" if "j < length (env_state e)" "j \<noteq> i" for j
    using assms(1) that unfolding env_le_def by (metis nth_list_update_neq set_state_simps(3) length_list_update)
  have "done_le e f"
    using L D assms(2-6) by (auto simp: done_le_def nth_update_or)
  moreover have "env_state e ! j = EVAL_VISITING \<longleftrightarrow> env_state f ! j = EVAL_VISITING" if "j < length (env_state e)" for j
    using V [OF that] assms(2,4,5) L that by (cases "j = i") (simp_all add: nth_update_or)
  ultimately show ?thesis by (simp add: env_le_def)
qed

lemma eval_one_run:
  assumes "eval_one (Suc d) e i = Some (r, f)" "i < length (env_defs e)" "env_state e ! i = EVAL_NOT_VISITED"
  obtains v q where "env_parse_expr (env_name (eval_one d)) (parse_fuel (def_source (env_defs e ! i)))
      (env_parser_init (def_source (env_defs e ! i)) (set_state i EVAL_VISITING e)) = Some (v, q)" "finish_one i (v, q) = (r, f)"
  using assms by (auto simp: Let_def)

lemma eval_one_progress: "eval_progress (eval_one d)"
proof (induction d)
  case 0
  then show ?case by (simp add: eval_progress_def)
next
  case (Suc d)
  show ?case unfolding eval_progress_def
  proof (intro allI impI)
    fix e i r f assume ev: "eval_one (Suc d) e i = Some (r, f)"
    show "env_le e f"
    proof (cases "i < length (env_defs e) \<and> env_state e ! i = EVAL_NOT_VISITED")
      case True
      then obtain v q where q: "env_parse_expr (env_name (eval_one d)) (parse_fuel (def_source (env_defs e ! i)))
          (env_parser_init (def_source (env_defs e ! i)) (set_state i EVAL_VISITING e)) = Some (v, q)" "finish_one i (v, q) = (r, f)"
        using eval_one_run [OF ev] by blast
      have "env_le (set_state i EVAL_VISITING e) (penv q)"
        using parser_steps.Q_parse_expr [OF env_name_steps [OF Suc] q(1) [unfolded env_parse_expr_def]] by (simp add: env_step_def)
      then show ?thesis
        using finish_one_cases [OF q(2)] True env_le_finish [of i e "penv q" f _ v] by auto
    next
      case False
      then show ?thesis using ev by (cases "env_state e ! i") (auto split: if_splits)
    qed
  qed
qed

interpretation env_parser: parser_steps env_step "env_name (eval_one d)"
  by (rule env_name_steps [OF eval_one_progress])

section \<open>Evaluation returns\<close>

definition eval_total :: "nat \<Rightarrow> (EvalEnv \<Rightarrow> nat \<Rightarrow> (int \<times> EvalEnv) option) \<Rightarrow> bool" where
  "eval_total d eval \<longleftrightarrow> (\<forall>e i. env_ok e \<and> card (unvisited e) < d \<longrightarrow> eval e i \<noteq> None)"

lemma finite_unvisited [simp]: "finite (unvisited e)"
  by (simp add: unvisited_def)

lemma unvisited_card_le: "env_le e f \<Longrightarrow> card (unvisited f) \<le> card (unvisited e)"
  using unvisited_le by (simp add: card_mono)

lemma find_def_index_range: "find_def_index e x = Some i \<Longrightarrow> i < length (env_defs e)"
proof -
  have "first_index P k xs = Some i \<Longrightarrow> k \<le> i \<and> i < k + length xs" for P k and xs :: "JZConstDef list"
    by (induction xs arbitrary: k) (force split: if_splits)+
  then show "find_def_index e x = Some i \<Longrightarrow> i < length (env_defs e)"
    by (fastforce simp: find_def_index_def split: if_splits)
qed

lemma env_name_total:
  assumes "eval_progress eval" "eval_total d eval"
  shows "total_parser env_step (env_name eval) (\<lambda>p. env_ok (penv p) \<and> card (unvisited (penv p)) < d)"
proof (intro total_parser.intro total_parser_axioms.intro env_name_steps [OF assms(1)])
  fix p q :: EnvParser
  assume s: "env_step p q"
  then show "input_consumed p q" by (simp add: env_step_def)
  assume "env_ok (penv p) \<and> card (unvisited (penv p)) < d"
  then show "env_ok (penv q) \<and> card (unvisited (penv q)) < d"
    using s env_ok_le [OF env_le_done] unvisited_card_le by (force simp: env_step_def)
next
  fix p :: EnvParser
  assume "env_ok (penv p) \<and> card (unvisited (penv p)) < d"
  then have "eval (penv p) i \<noteq> None" for i using assms(2) by (simp add: eval_total_def)
  then show "env_name eval p \<noteq> None" by (auto simp: env_name_def Let_def split: option.split) (metis option.distinct(1))
qed

lemma eval_one_total: "eval_total d (eval_one d)"
proof (induction d)
  case 0
  then show ?case by (simp add: eval_total_def)
next
  case (Suc d)
  show ?case unfolding eval_total_def
  proof (intro allI impI, elim conjE)
    fix e i assume e: "env_ok e" "card (unvisited e) < Suc d"
    show "eval_one (Suc d) e i \<noteq> None"
    proof (cases "i < length (env_defs e) \<and> env_state e ! i = EVAL_NOT_VISITED")
      case True
      let ?src = "def_source (env_defs e ! i)" and ?e1 = "set_state i EVAL_VISITING e"
      have "unvisited ?e1 \<subset> unvisited e"
        using True e(1) by (auto simp: unvisited_def env_ok_def nth_list_update split: if_splits)
      then have "card (unvisited ?e1) < d" using e(2) psubset_card_mono [of "unvisited e" "unvisited ?e1"] by simp
      moreover have "env_ok ?e1" using e(1) by (simp add: env_ok_def)
      moreover have "length (toks (env_parser_init ?src ?e1)) \<le> length ?src"
        by (simp add: toks_env_init length_lex_all)
      ultimately have "parse_expr (env_name (eval_one d)) (parse_fuel ?src) (env_parser_init ?src ?e1) \<noteq> None"
        using total_parser.parse_expr_total [OF env_name_total [OF eval_one_progress Suc]] by simp
      then show ?thesis using True by (simp add: Let_def env_parse_expr_def)
    next
      case False
      then show ?thesis by (cases "env_state e ! i") auto
    qed
  qed
qed

interpretation env_parser_total: total_parser env_step "env_name (eval_one d)" "\<lambda>p. env_ok (penv p) \<and> card (unvisited (penv p)) < d"
  by (rule env_name_total [OF eval_one_progress eval_one_total])

lemma eval_all_loop_total:
  "env_ok e \<Longrightarrow> card (unvisited e) < d \<Longrightarrow> eval_all_loop d is e \<noteq> None"
proof (induction "is" arbitrary: e)
  case (Cons i "is")
  show ?case
  proof (cases "env_state e ! i = EVAL_NOT_VISITED")
    case True
    have "eval_one d e i \<noteq> None" using eval_one_total [of d] Cons.prems by (simp add: eval_total_def)
    then obtain r f where f: "eval_one d e i = Some (r, f)" by auto
    then have le: "env_le e f" using eval_one_progress [of d] by (auto simp: eval_progress_def)
    then have "env_ok f" "card (unvisited f) < d"
      using Cons.prems env_ok_le [OF env_le_done [OF le]] unvisited_card_le [OF le] by simp_all
    then show ?thesis using Cons.IH f True by simp
  next
    case False
    then show ?thesis using Cons by simp
  qed
qed simp

section \<open>Finished entries hold the value of their expression\<close>

lemma env_lookup_mono:
  assumes "done_le e f" "env_ok e" "env_lookup e x = Some v"
  shows "env_lookup f x = Some v"
proof -
  have "find_def_index f x = find_def_index e x" using assms(1) by (simp add: find_def_index_def done_le_def)
  moreover have "i < length (env_state e)" if "find_def_index e x = Some i" for i
    using find_def_index_range [OF that] assms(2) by (simp add: env_ok_def)
  ultimately show ?thesis using assms(1,3) by (auto simp: env_lookup_def done_le_def split: option.splits if_splits)
qed

text \<open>Binding more names does not change a successful evaluation.\<close>

definition extends :: "(string \<Rightarrow> int option) \<Rightarrow> (string \<Rightarrow> int option) \<Rightarrow> bool" where
  "extends s t \<longleftrightarrow> (\<forall>x v. s x = Some v \<longrightarrow> t x = Some v)"

lemma bound_name_steps: "parser_steps error_kept (bound_name s)"
  by unfold_locales (auto simp: error_kept_def parser_diag_def)

lemma bound_name_sim:
  assumes "extends s t"
  shows "parser_sim error_kept (bound_name s) (bound_name t) (\<lambda>_. True)"
proof (intro parser_sim.intro parser_sim_axioms.intro bound_name_steps)
  fix p q :: Parser and v
  assume "bound_name s p = Some (v, q)" "perror q = None"
  then show "bound_name t (core p) = Some (v, core q)"
    using assms by (auto simp: bound_name_def extends_def diag_error core_steps split: option.splits)
qed simp_all

lemma core_init: "core (parser_init src) = parser_init src" "core (env_parser_init src e) = parser_init src"
  by (simp_all add: Parser.truncate_def parser_init_def env_parser_init_def case_prod_beta Let_def)

lemma finish_core: "finish_expr (v, core p) = finish_expr (v, p)"
  by (simp add: finish_expr_def parser_diag_def split: option.split)

lemma finish_good: "finish_expr (v, p) = Inr w \<Longrightarrow> perror p = None \<and> w = v"
  by (auto simp: finish_expr_def parser_diag_def split: option.splits if_splits)

lemma value_under_mono:
  assumes "extends s t" "value_under s src = Some (Inr v)"
  shows "value_under t src = Some (Inr v)"
proof -
  obtain w q where q: "parse_expr (bound_name s) (parse_fuel src) (parser_init src) = Some (w, q)" "finish_expr (w, q) = Inr v"
    using assms(2) by (auto simp: value_under_def)
  have "parse_expr (bound_name t) (parse_fuel src) (core (parser_init src)) = Some (w, core q)"
    using parser_sim.sim_parse_expr [OF bound_name_sim [OF assms(1)] q(1)] finish_good [OF q(2)]
    by (simp add: parser_sim.good_def [OF bound_name_sim [OF assms(1)]])
  then show ?thesis using q(2) by (simp add: value_under_def core_init finish_core)
qed

text \<open>A successful evaluation with dependencies is one under the final values.\<close>

definition eval_finishes :: "(EvalEnv \<Rightarrow> nat \<Rightarrow> (int \<times> EvalEnv) option) \<Rightarrow> bool" where
  "eval_finishes eval \<longleftrightarrow> (\<forall>e i f. eval e i = Some (0, f) \<and> env_ok e \<longrightarrow> env_state f ! i = EVAL_DONE)"

lemma core_penv: "core (p\<lparr>penv := e\<rparr>) = core p"
  by (simp add: Parser.truncate_def)

lemma env_name_sim:
  assumes "eval_progress eval" "eval_finishes eval"
  shows "parser_sim env_step (env_name eval) (bound_name (env_lookup g)) (\<lambda>p. env_ok (penv p) \<and> done_le (penv p) g)"
proof (intro parser_sim.intro parser_sim_axioms.intro env_name_steps [OF assms(1)])
  fix p q :: EnvParser
  assume s: "env_step p q"
  then show "error_kept p q" by (simp add: env_step_def)
  assume "env_ok (penv q) \<and> done_le (penv q) g"
  then show "env_ok (penv p) \<and> done_le (penv p) g"
    using s env_ok_le [OF env_le_done] done_le_trans [OF env_le_done] by (auto simp: env_step_def)
next
  fix p q :: EnvParser and v
  assume p: "perror p = None" "tok_kind (cur p) = TK_IDENT" and n: "env_name eval p = Some (v, q)"
    and q: "perror q = None" "env_ok (penv q) \<and> done_le (penv q) g"
  let ?x = "ident (cur p)"
  obtain i where i: "find_def_index (penv p) ?x = Some i"
    using n q(1) by (auto simp: env_name_def env_parser_diag_def diag_error split: option.splits)
  have le: "env_le (penv p) (penv q)"
    using parser_steps.Q_name [OF env_name_steps [OF assms(1)] p n] by (simp add: env_step_def)
  have ok: "env_ok (penv p)" using env_ok_le [OF env_le_done [OF le]] q(2) by simp
  have "env_state (penv q) ! i = EVAL_DONE \<and> v = env_values (penv q) ! i \<and> core q = advance (core p)"
    using n i q(1) assms(2) ok
    by (auto simp: env_name_def eval_finishes_def env_advance_def Let_def core_steps core_penv split: option.splits if_splits)
  moreover have "find_def_index (penv q) ?x = Some i" using i le by (auto simp: find_def_index_def env_le_def done_le_def split: if_splits)
  ultimately have "env_lookup (penv q) ?x = Some v" and c: "core q = advance (core p)" by (simp_all add: env_lookup_def)
  then have "env_lookup g ?x = Some v" using env_lookup_mono q(2) by blast
  then show "bound_name (env_lookup g) (core p) = Some (v, core q)" using c by (simp add: bound_name_def)
qed

lemma eval_one_finishes: "eval_finishes (eval_one d)"
proof (cases d)
  case 0
  then show ?thesis by (simp add: eval_finishes_def)
next
  case (Suc d')
  have "env_state f ! i = EVAL_DONE" if ev: "eval_one (Suc d') e i = Some (0, f)" and ok: "env_ok e" for e i f
  proof (cases "i < length (env_defs e) \<and> env_state e ! i = EVAL_NOT_VISITED")
    case True
    then obtain v q where q: "env_parse_expr (env_name (eval_one d')) (parse_fuel (def_source (env_defs e ! i)))
        (env_parser_init (def_source (env_defs e ! i)) (set_state i EVAL_VISITING e)) = Some (v, q)" "finish_one i (v, q) = (0, f)"
      using eval_one_run [OF ev] by blast
    have "env_le (set_state i EVAL_VISITING e) (penv q)"
      using env_parser.Q_parse_expr [OF q(1) [unfolded env_parse_expr_def]] by (simp add: env_step_def)
    then show ?thesis using finish_one_cases(2) [OF q(2)] True ok by (auto simp: env_ok_def env_le_def done_le_def)
  next
    case False
    then show ?thesis using ev by (cases "env_state e ! i") (auto split: if_splits)
  qed
  then show ?thesis unfolding Suc eval_finishes_def by blast
qed

interpretation env_bound: parser_sim env_step "env_name (eval_one d)" "bound_name (env_lookup g)"
    "\<lambda>p. env_ok (penv p) \<and> done_le (penv p) g"
  by (rule env_name_sim [OF eval_one_progress eval_one_finishes])

lemma values_hold_le:
  assumes "values_hold e" "done_le e f" "env_ok e" "j < length (env_defs e)" "env_state e ! j = EVAL_DONE"
  shows "value_under (env_lookup f) (def_source (env_defs f ! j)) = Some (Inr (env_values f ! j))"
proof -
  have "extends (env_lookup e) (env_lookup f)" using env_lookup_mono [OF assms(2,3)] by (simp add: extends_def)
  moreover have "env_defs f = env_defs e" "env_values f ! j = env_values e ! j" using assms(2-5) by (auto simp: done_le_def env_ok_def)
  ultimately show ?thesis using value_under_mono assms(1,4,5) by (simp add: values_hold_def)
qed

text \<open>The steps of the parser keep the values of finished entries right, if evaluating a dependency does.\<close>

definition eval_sound :: "(EvalEnv \<Rightarrow> nat \<Rightarrow> (int \<times> EvalEnv) option) \<Rightarrow> bool" where
  "eval_sound eval \<longleftrightarrow> (\<forall>e i r f. eval e i = Some (r, f) \<and> env_ok e \<and> values_hold e \<longrightarrow> values_hold f)"

definition sound_step :: "EnvParser \<Rightarrow> EnvParser \<Rightarrow> bool" where
  "sound_step p q \<longleftrightarrow> env_step p q \<and> (env_ok (penv p) \<and> values_hold (penv p) \<longrightarrow> values_hold (penv q))"

lemma sound_steps:
  assumes "eval_progress eval" "eval_sound eval"
  shows "parser_steps sound_step (env_name eval)"
proof -
  note S = env_name_steps [OF assms(1)]
  show ?thesis
  proof
    fix p q :: EnvParser and v
    assume p: "perror p = None" "tok_kind (cur p) = TK_IDENT" and n: "env_name eval p = Some (v, q)"
    have "values_hold (penv q)" if "env_ok (penv p)" "values_hold (penv p)"
      using n that assms(2)
      by (auto simp: env_name_def env_parser_diag_def eval_sound_def Let_def split: option.splits if_splits)
    then show "sound_step p q" using parser_steps.Q_name [OF S p n] by (simp add: sound_step_def)
  next
    fix p q r :: EnvParser
    assume pq: "sound_step p q" and qr: "sound_step q r"
    have st: "env_step p q" "env_step q r" using pq qr by (simp_all add: sound_step_def)
    have "env_step p r" by (rule parser_steps.Q_trans [OF S st])
    moreover have "env_ok (penv q) = env_ok (penv p)" using st(1) env_ok_le [OF env_le_done] by (simp add: env_step_def)
    ultimately show "sound_step p r" using pq qr by (simp add: sound_step_def)
  qed (use parser_steps.Q_refl [OF S] parser_steps.Q_advance [OF S] parser_steps.Q_diag [OF S] parser_steps.Q_depth [OF S]
      parser_steps.Q_overflow [OF S] in \<open>simp_all add: sound_step_def\<close>)
qed

lemma values_hold_visiting:
  assumes "values_hold e" "env_state e ! i = EVAL_NOT_VISITED" "env_ok e" "i < length (env_defs e)"
  shows "values_hold (set_state i EVAL_VISITING e)"
proof -
  have "env_lookup (set_state i EVAL_VISITING e) x = env_lookup e x" for x
    using assms(2-4) find_def_index_range
    by (auto simp: env_lookup_def find_def_index_def env_ok_def nth_list_update split: option.splits)
  then have "env_lookup (set_state i EVAL_VISITING e) = env_lookup e" by (simp add: fun_eq_iff)
  then show ?thesis using assms by (auto simp: values_hold_def env_ok_def nth_list_update)
qed

text \<open>Leaving an entry that was in progress unfinished keeps the finished ones.\<close>

lemma values_hold_reset:
  assumes "values_hold e" "env_ok e" "env_state e ! i = EVAL_VISITING" "i < length (env_defs e)"
    and "env_defs f = env_defs e" "env_values f = env_values e" "env_state f = (env_state e)[i := EVAL_NOT_VISITED]"
  shows "values_hold f"
proof -
  have "env_lookup f x = env_lookup e x" for x
    using assms(2-7) find_def_index_range [of e x]
    by (auto simp: env_lookup_def find_def_index_def env_ok_def nth_list_update split: option.splits)
  then have "env_lookup f = env_lookup e" by (simp add: fun_eq_iff)
  then show ?thesis using assms by (auto simp: values_hold_def env_ok_def nth_list_update)
qed

lemma values_hold_finish:
  assumes "values_hold e" "env_ok e" "env_state e ! i = EVAL_VISITING" "i < length (env_defs e)"
    and "env_defs f = env_defs e" "env_values f = (env_values e)[i := v]" "env_state f = (env_state e)[i := EVAL_DONE]"
    and "value_under (env_lookup f) (def_source (env_defs e ! i)) = Some (Inr v)"
  shows "values_hold f"
proof -
  have le: "done_le e f" using assms(2-7) by (auto simp: done_le_def env_ok_def nth_list_update)
  have "value_under (env_lookup f) (def_source (env_defs f ! j)) = Some (Inr (env_values f ! j))"
    if "j < length (env_defs f)" "env_state f ! j = EVAL_DONE" for j
  proof (cases "j = i")
    case True
    then show ?thesis using assms(2,4-6,8) by (simp add: env_ok_def)
  next
    case False
    then show ?thesis using values_hold_le [OF assms(1) le assms(2)] that assms(5,7) by simp
  qed
  then show ?thesis by (simp add: values_hold_def)
qed

lemma eval_one_sound: "eval_sound (eval_one d)"
proof (induction d)
  case 0
  then show ?case by (simp add: eval_sound_def)
next
  case (Suc d)
  show ?case unfolding eval_sound_def
  proof (intro allI impI, elim conjE)
    fix e i r f assume ev: "eval_one (Suc d) e i = Some (r, f)" and ok: "env_ok e" and vh: "values_hold e"
    show "values_hold f"
    proof (cases "i < length (env_defs e) \<and> env_state e ! i = EVAL_NOT_VISITED")
      case True
      let ?src = "def_source (env_defs e ! i)" and ?e1 = "set_state i EVAL_VISITING e"
      obtain v q where q: "parse_expr (env_name (eval_one d)) (parse_fuel ?src) (env_parser_init ?src ?e1) = Some (v, q)"
        and fin: "finish_one i (v, q) = (r, f)"
        using eval_one_run [OF ev] True by (auto simp: env_parse_expr_def)
      have e1: "values_hold ?e1" "env_ok ?e1" using values_hold_visiting vh ok True by (auto simp: env_ok_def)
      have "sound_step (env_parser_init ?src ?e1) q"
        by (rule parser_steps.Q_parse_expr [OF sound_steps [OF eval_one_progress Suc] q])
      then have g: "values_hold (penv q)" and le: "env_le ?e1 (penv q)" using e1 by (simp_all add: sound_step_def env_step_def)
      have gok: "env_ok (penv q)" and defs: "env_defs (penv q) = env_defs e" and vis: "env_state (penv q) ! i = EVAL_VISITING"
        using env_ok_le [OF env_le_done [OF le]] le e1(2) True ok
        by (simp, simp add: env_le_def done_le_def, simp add: env_le_def env_ok_def) (metis nth_list_update_eq)
      have i: "i < length (env_defs (penv q))" using True defs by simp
      note F = finish_one_cases [OF fin]
      show ?thesis
      proof (cases "r = 0")
        case False
        then show ?thesis using values_hold_reset [OF g gok vis i F(1)] F(2) by blast
      next
        case r: True
        then have fe: "finish_expr (v, q) = Inr v" "env_values f = (env_values (penv q))[i := v]"
          "env_state f = (env_state (penv q))[i := EVAL_DONE]" using F(2) by blast+
        have "done_le (penv q) f" using F(1) fe gok vis i by (auto simp: done_le_def env_ok_def nth_list_update)
        then have "parse_expr (bound_name (env_lookup f)) (parse_fuel ?src) (core (env_parser_init ?src ?e1)) = Some (v, core q)"
          using env_bound.sim_parse_expr [OF q, of f] finish_good [OF fe(1)] gok by (simp add: env_bound.good_def)
        then have "value_under (env_lookup f) ?src = Some (Inr v)" using fe(1) by (simp add: value_under_def core_init finish_core)
        then show ?thesis using values_hold_finish [OF g gok vis i F(1) fe(2,3)] defs by simp
      qed
    next
      case False
      then show ?thesis using ev vh by (cases "env_state e ! i") (auto split: if_splits)
    qed
  qed
qed

section \<open>All definitions\<close>

lemma eval_all_loop_sound:
  assumes "eval_all_loop d is e = Some (0, f)" "env_ok e" "values_hold e"
    and "\<And>j. j < length (env_defs e) \<Longrightarrow> env_state e ! j \<noteq> EVAL_VISITING" "set is \<subseteq> {..<length (env_defs e)}"
  shows "values_hold f \<and> done_le e f \<and> (\<forall>i \<in> set is. env_state f ! i = EVAL_DONE)"
  using assms
proof (induction "is" arbitrary: e)
  case Nil
  then show ?case by simp
next
  case (Cons i "is")
  have i: "i < length (env_defs e)" using Cons.prems(5) by simp
  obtain g where g: "eval_all_loop d is g = Some (0, f)" "env_le e g" "values_hold g" "env_state g ! i = EVAL_DONE"
  proof (cases "env_state e ! i = EVAL_NOT_VISITED")
    case True
    then obtain g where g: "eval_one d e i = Some (0, g)" "eval_all_loop d is g = Some (0, f)"
      using Cons.prems(1) by (auto split: option.splits if_splits)
    then show ?thesis
      using that eval_one_progress [of d] eval_one_sound [of d] eval_one_finishes [of d] Cons.prems(2,3)
      by (auto simp: eval_progress_def eval_sound_def eval_finishes_def)
  next
    case False
    then have "env_state e ! i = EVAL_DONE" using Cons.prems(4) [OF i] by (cases "env_state e ! i") auto
    then show ?thesis using that [of e] Cons.prems(1,3) False by simp
  qed
  have L: "env_defs g = env_defs e" "length (env_state e) = length (env_defs e)" "env_ok g"
    using g(2) Cons.prems(2) env_ok_le [OF env_le_done [OF g(2)]] by (simp_all add: env_le_def done_le_def env_ok_def)
  have "env_state g ! j \<noteq> EVAL_VISITING" if "j < length (env_defs g)" for j
    using g(2) Cons.prems(4) that L by (auto simp: env_le_def)
  then have IH: "values_hold f \<and> done_le g f \<and> (\<forall>i \<in> set is. env_state f ! i = EVAL_DONE)"
    using Cons.IH [OF g(1) L(3) g(3)] Cons.prems(5) L(1) by simp
  moreover have "env_state f ! i = EVAL_DONE" using IH g(4) i L by (auto simp: done_le_def env_ok_def)
  ultimately show ?case using done_le_trans [OF env_le_done [OF g(2)]] by simp
qed

lemma eval_env_init_ok:
  assumes "length out = length defs"
  shows "env_ok (eval_env_init defs out)" "values_hold (eval_env_init defs out)" "env_defs (eval_env_init defs out) = defs"
    "j < length defs \<Longrightarrow> env_state (eval_env_init defs out) ! j = EVAL_NOT_VISITED"
    "card (unvisited (eval_env_init defs out)) < length defs + 1"
proof -
  show "env_ok (eval_env_init defs out)" "values_hold (eval_env_init defs out)" "env_defs (eval_env_init defs out) = defs"
    "j < length defs \<Longrightarrow> env_state (eval_env_init defs out) ! j = EVAL_NOT_VISITED"
    using assms by (simp_all add: eval_env_init_def env_ok_def values_hold_def)
  have "unvisited (eval_env_init defs out) \<subseteq> {..<length defs}" by (auto simp: unvisited_def eval_env_init_def)
  then show "card (unvisited (eval_env_init defs out)) < length defs + 1"
    using card_mono [of "{..<length defs}"] by (simp add: less_Suc_eq_le)
qed

text \<open>The meaning of a name in a list of definitions with values: its first definition's value.\<close>

definition named_values :: "JZConstDef list \<Rightarrow> int list \<Rightarrow> string \<Rightarrow> int option" where
  "named_values defs vs x =
     (if x = [] then None else map_option (\<lambda>i. vs ! i) (first_index (\<lambda>d. def_name d = Some x) 0 defs))"

lemma jz_const_eval_all_values:
  assumes "jz_const_eval_all defs out = Some (0, f)" "length out = length defs"
  shows "length (env_values f) = length defs"
    "i < length defs \<Longrightarrow> value_under (named_values defs (env_values f)) (def_source (defs ! i)) = Some (Inr (env_values f ! i))"
proof -
  let ?e = "eval_env_init defs out"
  note I = eval_env_init_ok [OF assms(2)]
  have "values_hold f \<and> done_le ?e f \<and> (\<forall>i \<in> set [0..<length defs]. env_state f ! i = EVAL_DONE)"
    using eval_all_loop_sound [of "length defs + 1" "[0..<length defs]" ?e f] assms(1) I by (simp add: jz_const_eval_all_def atLeast0LessThan)
  then have V: "values_hold f" "done_le ?e f" "\<And>i. i < length defs \<Longrightarrow> env_state f ! i = EVAL_DONE" by auto
  have defs: "env_defs f = defs" using V(2) I(3) by (simp add: done_le_def)
  show "length (env_values f) = length defs" using V(2) assms(2) by (simp add: done_le_def eval_env_init_def)
  have "env_lookup f x = named_values defs (env_values f) x" for x
    using V(3) find_def_index_range [of f x] defs
    by (auto simp: env_lookup_def named_values_def find_def_index_def split: option.splits)
  then have "env_lookup f = named_values defs (env_values f)" by (simp add: fun_eq_iff)
  then show "i < length defs \<Longrightarrow> value_under (named_values defs (env_values f)) (def_source (defs ! i)) = Some (Inr (env_values f ! i))"
    using V(1,3) defs by (simp add: values_hold_def)
qed

end
