(* ===== verification/Const_Eval_Props.thy ===== *)
theory Const_Eval_Props
  imports Const_Eval_Env
begin

text \<open>
  The properties of the constant-expression evaluator.
\<close>

section \<open>The logarithm\<close>

lemma clog2_loop_bounds:
  "0 < v \<Longrightarrow> r \<le> clog2_loop v r \<and> 2 ^ (clog2_loop v r - r) \<le> v \<and> v < 2 ^ (clog2_loop v r - r + 1)"
proof (induction v r rule: clog2_loop.induct)
  case (1 v r)
  show ?case
  proof (cases "v > 1")
    case True
    define k where "k = clog2_loop (v div 2) (r + 1)"
    have "0 < v div 2" using True by simp
    then have IH: "r + 1 \<le> k" "2 ^ (k - (r + 1)) \<le> v div 2" "v div 2 < 2 ^ (k - (r + 1) + 1)"
      using "1.IH" [OF True] by (simp_all add: k_def)
    have e: "k - r = Suc (k - (r + 1))" using IH(1) by simp
    have "clog2_loop v r = k" using True by (subst clog2_loop.simps) (simp add: k_def)
    moreover have "2 ^ (k - r) \<le> v" "v < 2 ^ (k - r + 1)"
      using IH(2,3) unfolding e by simp_all
    ultimately show ?thesis using IH(1) by simp
  next
    case False
    then have "v = 1" using 1 by simp
    then show ?thesis by (simp add: clog2_loop.simps [of "Suc 0"])
  qed
qed

text \<open>Note. The builtin \<open>clog2\<close> computes the ceiling of the binary logarithm, at least 1: the
  result is the least positive number of bits that can index as many values as its argument.\<close>

theorem eval_clog2_correct:
  assumes "0 < u"
  shows "\<exists>k. eval_clog2_positive u = int k \<and> 0 < k \<and> u \<le> 2 ^ k \<and> (\<forall>j. 0 < j \<and> u \<le> 2 ^ j \<longrightarrow> k \<le> j)"
proof (cases "u = 1")
  case True
  then show ?thesis by (intro exI [of _ 1]) (simp add: eval_clog2_positive_def clog2_loop.simps [of 0])
next
  case False
  define k where "k = clog2_loop (u - 1) 1"
  have "0 < u - 1" using False assms by simp
  then have B: "1 \<le> k" "2 ^ (k - 1) \<le> u - 1" "u - 1 < 2 ^ (k - 1 + 1)"
    using clog2_loop_bounds [of "u - 1" 1, folded k_def] False assms by blast+
  then have "u \<le> 2 ^ k" using assms by (cases k) simp_all
  moreover have "k \<le> j" if "u \<le> 2 ^ j" for j
  proof -
    have "(2 :: nat) ^ (k - 1) < 2 ^ j" using B(2) that assms by linarith
    then show ?thesis using B(1) by (simp add: power_less_imp_less_exp)
  qed
  moreover have "eval_clog2_positive u = int k" by (simp add: eval_clog2_positive_def k_def)
  ultimately show ?thesis using B(1) by (intro exI [of _ k]) simp
qed

theorem eval_clog2_correct_witness: "eval_clog2_positive 17 = 5 \<and> (17 :: nat) \<le> 2 ^ 5"
proof -
  have "eval_clog2_positive 17 = 5" by code_simp
  then show ?thesis using eval_clog2_correct [of 17] by simp
qed

section \<open>Anonymous expressions\<close>

lemma bare_identifier_means: "name_means bare_identifier (\<lambda>_. None)"
  by (simp add: name_means_def)

text \<open>C38. The evaluator implements the reference semantics. Assumed of the expression: its numerals
  are at most \<open>2^63 - 1\<close>, it names no constants, its value is defined (no division by zero, no
  shift out of range or of a negative number to the left, no intermediate result outside 64 bits)
  and not negative, and it is nested less than 512 deep. Then the evaluator returns that value on
  its text, in which parentheses stand where the precedence of the operators or their left
  association needs them and around every sum or difference that is the operand of a shift, for
  which the parser and the language disagree (\<open>const_shift_below_additive\<close>).\<close>

theorem jz_const_eval_expr_correct:
  assumes "cexp_ok e" "cexp_value (\<lambda>_. None) e = Some v" "0 \<le> v" "cexp_depth 1 e < 512"
  shows "jz_const_eval_expr (render (cexp_tokens 1 e)) = Some (Inr v)"
proof -
  let ?src = "render (cexp_tokens 1 e)"
  have p: "perror (parser_init ?src) = None" "expr_depth (parser_init ?src) = 0" "toks (parser_init ?src) = lex_all ?src"
    by (simp_all add: parser_init_def case_prod_beta Let_def) (simp add: toks_init [unfolded parser_init_def case_prod_beta Let_def])
  obtain q where "parse_expr bare_identifier (parse_fuel ?src) (parser_init ?src) = Some (v, q)" "perror q = None" "tok_kind (cur q) = TK_EOF"
    using const_eval_tokens [OF bare_identifier_means assms(1,2,4) p] by blast
  then show ?thesis using assms(3) by (simp add: jz_const_eval_expr_def finish_expr_def)
qed

definition demo_sum :: cexp where
  "demo_sum = CBin TK_MINUS (CBin TK_PLUS (CNum 1) (CBin TK_SHL (CNum 2) (CBin TK_MINUS (CNum 7) (CNum 2)))) (CClog2 (CNum 17))"

theorem jz_const_eval_expr_correct_witness:
  "jz_const_eval_expr ''1 + ( 2 << ( 7 - 2 ) ) - clog2 ( 17 ) '' = Some (Inr 60)"
proof -
  have t: "render (cexp_tokens 1 demo_sum) = ''1 + ( 2 << ( 7 - 2 ) ) - clog2 ( 17 ) ''" by code_simp
  have "cexp_value (\<lambda>_. None) demo_sum = Some 60" by code_simp
  moreover have "cexp_ok demo_sum" "cexp_depth 1 demo_sum < 512" by (code_simp, code_simp)
  ultimately show ?thesis using jz_const_eval_expr_correct [of demo_sum 60] unfolding t by simp
qed

section \<open>Totality\<close>

text \<open>C40. Evaluation ends on every input: the recursion of the parser is bounded by the length
  of the text, and the recursion through named constants by their number, circular definitions
  included.\<close>

theorem const_eval_returns:
  "(\<exists>r. jz_const_eval_expr src = Some r) \<and>
   (length out = length defs \<longrightarrow> (\<exists>rc env. jz_const_eval_all defs out = Some (rc, env)))"
proof
  have "parse_expr bare_identifier (parse_fuel src) (parser_init src) \<noteq> None"
    by (rule plain.parse_expr_total) (simp_all add: toks_init length_lex_all)
  then show "\<exists>r. jz_const_eval_expr src = Some r" by (auto simp: jz_const_eval_expr_def)
  have "jz_const_eval_all defs out \<noteq> None" if "length out = length defs"
    unfolding jz_const_eval_all_def by (rule eval_all_loop_total) (use eval_env_init_ok [OF that] in auto)
  then show "length out = length defs \<longrightarrow> (\<exists>rc env. jz_const_eval_all defs out = Some (rc, env))" by auto
qed

definition demo_def :: "string \<Rightarrow> string \<Rightarrow> JZConstDef" where
  "demo_def x e = \<lparr>def_name = Some x, def_expr = Some e\<rparr>"

theorem const_eval_returns_witness:
  "\<exists>rc env. jz_const_eval_all [demo_def ''A'' ''B + 1'', demo_def ''B'' ''A''] [0, 0] = Some (rc, env)"
  using const_eval_returns [of "''1''" "[0, 0]" "[demo_def ''A'' ''B + 1'', demo_def ''B'' ''A'']"] by simp

section \<open>Named constants\<close>

text \<open>C39. When the evaluation of all definitions succeeds, the values solve the definitions:
  evaluating the text of each definition with every name meaning the value of its (first)
  definition gives exactly the value stored for it, whatever the order of the definitions.\<close>

theorem jz_const_eval_all_consistent:
  assumes "jz_const_eval_all defs out = Some (0, env)" "length out = length defs"
  shows "length (env_values env) = length defs \<and>
         (\<forall>i < length defs.
            value_under (named_values defs (env_values env)) (def_source (defs ! i)) = Some (Inr (env_values env ! i)))"
  using jz_const_eval_all_values [OF assms] by simp

definition demo_defs :: "JZConstDef list" where
  "demo_defs = [demo_def ''A'' ''B + 1'', demo_def ''B'' ''C * 2'', demo_def ''C'' ''5'']"

lemma demo_defs_run: "map_option (\<lambda>(rc, env). (rc, env_values env)) (jz_const_eval_all demo_defs [0, 0, 0]) = Some (0, [11, 10, 5])"
  by code_simp

theorem jz_const_eval_all_consistent_witness:
  "value_under (named_values demo_defs [11, 10, 5]) ''B + 1'' = Some (Inr 11)"
proof -
  obtain env where r: "jz_const_eval_all demo_defs [0, 0, 0] = Some (0, env)" and v: "env_values env = [11, 10, 5]"
    using demo_defs_run by (auto split: prod.splits)
  have l: "length [0, 0, 0 :: int] = length demo_defs" by (simp add: demo_defs_def)
  have "value_under (named_values demo_defs (env_values env)) (def_source (demo_defs ! 0)) = Some (Inr (env_values env ! 0))"
    using conjunct2 [OF jz_const_eval_all_consistent [OF r l], rule_format, of 0] by (simp add: demo_defs_def)
  then show ?thesis by (simp add: v) (simp add: demo_defs_def demo_def_def def_source_def)
qed

section \<open>Where the evaluator differs from the language\<close>

text \<open>The specification ranks the shifts above binary plus and minus, so \<open>1 << 2 + 3\<close> is 7 and
  \<open>1 + 2 << 3\<close> is 17; the evaluator computes 1 << 5 and 3 << 3.\<close>

lemma const_shift_below_additive:
  "jz_const_eval_expr ''1 << 2 + 3'' = Some (Inr 32)" "jz_const_eval_expr ''1 + 2 << 3'' = Some (Inr 24)"
  by (code_simp, code_simp)

section \<open>Inputs that are not rejected\<close>

text \<open>A character the lexer does not know ends the input, so the rest is silently ignored; a
  literal too large for 64 bits is read as the largest value; and an overflowing product is
  not noticed.\<close>

lemma garbage_ends_input: "jz_const_eval_expr ''5 & 3'' = Some (Inr 5)" "jz_const_eval_expr ''8 @ junk'' = Some (Inr 8)"
  by (code_simp, code_simp)

lemma large_literal_clamped: "jz_const_eval_expr ''99999999999999999999'' = Some (Inr LLONG_MAX)"
  by code_simp

lemma overflow_not_reported:
  "jz_const_eval_expr ''4611686018427387904 * 4'' = Some (Inr 0)"
  "map_option (\<lambda>(v, p). overflowed p)
     (parse_expr bare_identifier (parse_fuel ''4611686018427387904 * 4'') (parser_init ''4611686018427387904 * 4'')) = Some True"
  by (code_simp, code_simp)

end
