(* ===== verification/Lexer_Props.thy ===== *)
theory Lexer_Props
  imports Lexer_Roundtrip
begin

text \<open>
  The properties of the tokenizer.
\<close>

definition demo_text :: string where
  "demo_text = ''q <= a + 8'' @ [quote] @ ''hFF; // sum''"

definition demo_spellings :: "(JZTokenType \<times> string) list" where
  "demo_spellings =
     [(JZ_TOK_KEYWORD JZ_TOK_KW_IF, ''IF''), (JZ_TOK_LPAREN, ''(''), (JZ_TOK_IDENTIFIER, ''en''), (JZ_TOK_OP_EQ, ''==''),
      (JZ_TOK_SIZED_NUMBER, ''1'' @ [quote] @ ''b1''), (JZ_TOK_RPAREN, '')'')]"


lemma demo_text_run:
  "(case jz_lex_source ''f'' demo_text (Some []) of (rc, strm, d) \<Rightarrow> (rc, map tok_type (tokens strm))) =
   (0, [JZ_TOK_IDENTIFIER, JZ_TOK_OP_LE, JZ_TOK_IDENTIFIER, JZ_TOK_OP_PLUS, JZ_TOK_SIZED_NUMBER, JZ_TOK_SEMICOLON, JZ_TOK_EOF])"
  by code_simp


text \<open>C28. Printing and lexing are inverse: any sequence of fewer than \<open>2 ^ 20\<close> identifiers,
  keywords, directives, numeric literals and operators, printed with a blank before each, is read
  back as that sequence of types and texts, without an error and with or without a list for
  diagnostics.\<close>

theorem lex_source_roundtrip:
  assumes "list_all (\<lambda>(ty, w). spelling ty w) ts" "length ts < 2 ^ 20"
  shows "\<exists>strm. jz_lex_source f (spaced ts) d = (0, strm, d) \<and>
    map (\<lambda>t. (tok_type t, lexeme t)) (tokens strm) = map (\<lambda>(ty, w). (ty, Some w)) ts @ [(JZ_TOK_EOF, None)]"
  using lex_source_spaced [OF assms] .

theorem lex_source_roundtrip_witness:
  "\<exists>strm. jz_lex_source ''f'' ('' IF ( en == 1'' @ [quote] @ ''b1 )'') None = (0, strm, None) \<and>
    map tok_type (tokens strm) =
      [JZ_TOK_KEYWORD JZ_TOK_KW_IF, JZ_TOK_LPAREN, JZ_TOK_IDENTIFIER, JZ_TOK_OP_EQ, JZ_TOK_SIZED_NUMBER, JZ_TOK_RPAREN, JZ_TOK_EOF]"
proof -
  have s: "list_all (\<lambda>(ty, w). spelling ty w) demo_spellings" by code_simp
  have e: "spaced demo_spellings = '' IF ( en == 1'' @ [quote] @ ''b1 )''" by (simp add: demo_spellings_def)
  obtain strm where r: "jz_lex_source ''f'' (spaced demo_spellings) None = (0, strm, None)"
    and t: "map (\<lambda>t. (tok_type t, lexeme t)) (tokens strm) = map (\<lambda>(ty, w). (ty, Some w)) demo_spellings @ [(JZ_TOK_EOF, None)]"
    using lex_source_roundtrip [OF s, of "''f''" None] by (auto simp: demo_spellings_def)
  have "map tok_type (tokens strm) = map fst (map (\<lambda>t. (tok_type t, lexeme t)) (tokens strm))" by simp
  then show ?thesis using r t e by (auto simp: demo_spellings_def)
qed

text \<open>C29. Every pass ends, and within its bounds: whatever the source, the stream has at most
  \<open>2 ^ 20\<close> tokens, never more than the array allocated for it, and it ends with an end-of-file
  token unless it is full.\<close>

theorem lex_source_bounded:
  "case jz_lex_source f s d of (rc, strm, d') \<Rightarrow>
     length (tokens strm) \<le> 2 ^ 20 \<and> length (tokens strm) \<le> unat (capacity strm) \<and>
     (ends_in_eof strm \<or> length (tokens strm) = 2 ^ 20)"
  using lex_loop_ends [of "lexer_init f s d"] bounded_lex_loop [OF bounded_init, of f s d]
  by (auto simp: lex_source_loop Let_def bounded_def stream_ok_def)

section \<open>Inputs that are not rejected\<close>

definition lexed :: "string \<Rightarrow> Diagnostic list option \<Rightarrow> int \<times> (JZTokenType \<times> string option) list" where
  "lexed s d = (case jz_lex_source ''f'' s d of (rc, strm, d') \<Rightarrow> (rc, map (\<lambda>t. (tok_type t, lexeme t)) (tokens strm)))"

text \<open>The receive operators with extension, unlike the other two pairs, are taken even when an
  identifier follows: \<open>q <=sum\<close> is \<open>q\<close>, \<open><=s\<close>, \<open>um\<close>.\<close>

lemma receive_splits_identifier:
  "lexed ''q <=sum;'' (Some []) =
     (0, [(JZ_TOK_IDENTIFIER, Some ''q''), (JZ_TOK_OP_LE_S, Some ''<=s''), (JZ_TOK_IDENTIFIER, Some ''um''),
          (JZ_TOK_SEMICOLON, Some '';''), (JZ_TOK_EOF, None)])"
  by code_simp

lemma drive_keeps_identifier:
  "lexed ''q =>sum;'' (Some []) =
     (0, [(JZ_TOK_IDENTIFIER, Some ''q''), (JZ_TOK_OP_DRIVE, Some ''=>''), (JZ_TOK_IDENTIFIER, Some ''sum''),
          (JZ_TOK_SEMICOLON, Some '';''), (JZ_TOK_EOF, None)])"
  by code_simp

text \<open>Without a list for diagnostics, as for imported files, a malformed literal disappears and
  the pass still succeeds.\<close>

lemma bad_literal_dropped:
  "lexed (''a + 8'' @ [quote] @ ''b12;'') None =
     (0, [(JZ_TOK_IDENTIFIER, Some ''a''), (JZ_TOK_OP_PLUS, Some ''+''), (JZ_TOK_SEMICOLON, Some '';''), (JZ_TOK_EOF, None)])"
  "fst (lexed (''a + 8'' @ [quote] @ ''b12;'') (Some [])) = -1"
  by (code_simp, code_simp)

text \<open>An escaped quote ends the string, and a string that is not closed is dropped silently.\<close>

lemma escaped_quote_ends_string:
  "lexed ([dquote, CHR ''a'', CHR 0x5C, dquote, CHR ''b'', dquote]) (Some []) =
     (0, [(JZ_TOK_STRING, Some [CHR ''a'', CHR 0x5C]), (JZ_TOK_IDENTIFIER, Some ''b''), (JZ_TOK_EOF, None)])"
  by code_simp

lemma open_string_dropped: "lexed (dquote # ''abc; def'') (Some []) = (0, [(JZ_TOK_EOF, None)])"
  by code_simp

end
