(* ===== verification/Div_Guard_Props.thy ===== *)
theory Div_Guard_Props
  imports Div_Guard_Sound Sim_Exec_Props
begin

text \<open>
  The properties of the division guard pass.
\<close>

section \<open>The statements of a module\<close>

text \<open>The asynchronous block runs with blocking, the clocked statements with non-blocking assignments.\<close>

definition module_statements :: "IR_Module \<Rightarrow> (IR_Stmt \<times> bool) list" where
  "module_statements m = (async_block m, False) # map (\<lambda>cd. (cd_statements cd, True)) (clock_domains m)"

lemma watched_domain: "watched (div_guard_domain cd)"
proof -
  have "clean (div_guard_domain cd st) \<longrightarrow> clean st" "loud st \<longrightarrow> loud (div_guard_domain cd st)"
    "prefix (diagnostics st) (diagnostics (div_guard_domain cd st))" for st
    using watched_stmt(1) [of "cd_statements cd", unfolded watched_def, rule_format, of "st\<lparr>guards := []\<rparr>"]
    by (simp_all add: div_guard_domain_def watched_update)
  then show ?thesis by (simp add: watched_def)
qed

lemma watched_fold: "(\<And>x. watched (f x)) \<Longrightarrow> watched (fold f xs)"
proof (induction xs)
  case Nil
  show ?case by (simp add: id_def)
next
  case (Cons x xs)
  then show ?case using watched_comp [OF Cons.IH [OF Cons.prems] Cons.prems] by (simp add: comp_def)
qed

lemma watched_module: "watched (fold div_guard_domain cds \<circ> check_stmt_for_div s)"
  by (rule watched_comp [OF watched_fold [OF watched_domain] watched_stmt(1)])

lemma fold_domain_clean:
  assumes "clean (fold div_guard_domain cds st)" "cd \<in> set cds"
  shows "\<exists>t. clean (check_stmt_for_div (cd_statements cd) t) \<and> guards t = []"
proof -
  obtain xs ys where "cds = xs @ cd # ys" using assms(2) by (metis split_list)
  then have "clean (div_guard_domain cd (fold div_guard_domain xs st))"
    using assms(1) watched_back [OF watched_fold [OF watched_domain]] by simp
  then show ?thesis by (auto simp: div_guard_domain_def intro!: exI [of _ "fold div_guard_domain xs st\<lparr>guards := []\<rparr>"])
qed

lemma module_diagnostics_grow: "prefix ds (div_guard_module m ds)"
proof -
  have "prefix (diagnostics st) (diagnostics (fold div_guard_domain (clock_domains m) (check_stmt_for_div s st)))" for s st
    using watched_module [of "clock_domains m" s] by (simp add: watched_def)
  from this [of "\<lparr>s_div_guard_depth = 0, s_div_guard_depth_reported = False, guards = [], diagnostics = ds\<rparr>"]
  show ?thesis by (simp add: div_guard_module_def)
qed

lemma module_clean:
  assumes "div_guard_module m [] = []" "\<not> eliminated m" "(s, n) \<in> set (module_statements m)"
  shows "\<exists>t. clean (check_stmt_for_div s t) \<and> guards t = []"
proof -
  define s0 :: DivGuardState
    where "s0 = \<lparr>s_div_guard_depth = 0, s_div_guard_depth_reported = False, guards = [], diagnostics = []\<rparr>"
  define s1 where "s1 = fold div_guard_domain (clock_domains m) (check_stmt_for_div (async_block m) s0)"
  have d: "diagnostics s1 = []" using assms(1,2) by (simp add: div_guard_module_def s0_def s1_def)
  have "loud s0" by (simp add: loud_def s0_def)
  then have "loud s1" using watched_module [of "clock_domains m" "async_block m"] by (simp add: watched_def s1_def)
  with d have c: "clean s1" by (simp add: loud_def clean_def)
  then have a: "clean (check_stmt_for_div (async_block m) s0)"
    unfolding s1_def by (rule watched_back [OF watched_fold [OF watched_domain]])
  consider "s = async_block m" | cd where "cd \<in> set (clock_domains m)" "s = cd_statements cd"
    using assms(3) by (auto simp: module_statements_def)
  then show ?thesis
  proof cases
    case 1
    then show ?thesis using a by (auto simp: s0_def intro!: exI [of _ s0])
  next
    case 2
    then show ?thesis using fold_domain_clean [OF c [unfolded s1_def] 2(1)] by simp
  qed
qed

lemma design_clean:
  assumes "jz_ir_div_guard_check d [] = []" "m \<in> set (design_modules d)"
  shows "div_guard_module m [] = []"
proof -
  have grow: "prefix ds (fold div_guard_module ms ds)" for ms ds
  proof (induction ms arbitrary: ds)
    case (Cons x xs)
    show ?case using module_diagnostics_grow [of ds x] Cons [of "div_guard_module x ds"] prefix_order.trans by fastforce
  qed simp
  obtain xs ys where "design_modules d = xs @ m # ys" using assms(2) by (metis split_list)
  then have f: "fold div_guard_module ys (div_guard_module m (fold div_guard_module xs [])) = []"
    using assms(1) by (simp add: jz_ir_div_guard_check_def)
  then have m: "div_guard_module m (fold div_guard_module xs []) = []"
    using grow [of "div_guard_module m (fold div_guard_module xs [])" ys] by simp
  then have "fold div_guard_module xs [] = []"
    using module_diagnostics_grow [of "fold div_guard_module xs []" m] by simp
  then show ?thesis using m by simp
qed

section \<open>Properties\<close>

text \<open>
  C23: the pass is sound for the simulator, under two conditions. Assumed of the statements: the
  literals fit their widths and a literal that a guard compares with is zero exactly when its low
  64 bits are (otherwise the guard is misread, see \<open>wide_guard_misread\<close>); and a statement that is
  executed with blocking assignments does not assign the signals it divides by, while clocked
  statements are free to. Then, when \<open>jz_ir_div_guard_check\<close> reports nothing about a design, in
  every module that is not eliminated, from every well-formed frame, no division or modulus that
  is evaluated has a divisor known to be zero, unless the divisor is written as the literal 0 (an
  error of its own, reported by the semantic analysis).
\<close>

theorem div_guard_sound:
  assumes "jz_ir_div_guard_check d [] = []" "m \<in> set (design_modules d)" "\<not> eliminated m"
    and "(s, n) \<in> set (module_statements m)" "frame_ok f"
    and "literals_ok (stmt_exprs s) (stmt_conditions s)"
    and "undisturbed (divisor_ids (stmt_exprs s)) f (stmt_write_set s) n"
    and "(g, e) \<in> set (evaluated f s n)" "x \<in> set (divisors e)"
  shows "x = EXPR_NULL \<or> expr_is_zero_literal x \<or> \<not> known_zero (expr_value g x)"
proof -
  obtain t where t: "clean (check_stmt_for_div s t)" "guards t = []"
    using module_clean [OF design_clean [OF assms(1,2)] assms(3,4)] by blast
  have "wf_on (divisor_ids (stmt_exprs s)) f" using frame_ok_current [OF assms(5)] by (auto simp: wf_on_def)
  then have "pre (divisor_ids (stmt_exprs s)) f (stmt_write_set s) (stmt_exprs s) (stmt_conditions s) n"
    using assms(6,7) by (simp add: pre_def)
  then have "all_safe (evaluated f s n)" using check_stmt_sound(1) [OF t(1)] t(2) by (simp add: facts_def)
  then show ?thesis using assms(8,9) by (auto simp: all_safe_def list_all_iff divisor_safe_def)
qed

text \<open>\<open>if (net1 != 0) net0 <= net0 / net1;\<close> in a clock domain.\<close>

definition demo_quotient :: IR_Expr where
  "demo_quotient = EXPR_BINARY EXPR_BINARY_DIV 8 (EXPR_SIGNAL_REF 8 0) (EXPR_SIGNAL_REF 8 1)"

definition demo_guarded :: "IR_BinaryKind \<Rightarrow> IR_Literal \<Rightarrow> IR_Stmt" where
  "demo_guarded k l = STMT_IF (EXPR_BINARY k 1 (EXPR_SIGNAL_REF 8 1) (EXPR_LITERAL (lit_width l) l))
     (STMT_ASSIGNMENT (demo_assign 0 demo_quotient)) STMT_NULL STMT_NULL"

definition demo_clocked :: "IR_Stmt \<Rightarrow> IR_Module" where
  "demo_clocked s = (demo_module STMT_NULL)\<lparr>clock_domains := [\<lparr>clock_signal_id = 0, clock_edge = EDGE_RISING,
     register_ids = [0], reset_signal_id = -1, reset_active = RESET_ACTIVE_HIGH, reset_type = RESET_CLOCKED,
     cd_statements = s\<rparr>]\<rparr>"

text \<open>The pass is silent about the guarded division; with divisor 7 it is evaluated, with divisor 0 it is not.\<close>

lemma demo_guarded_run:
  fixes b :: SimValue
  defines "f \<equiv> demo_frame (sim_val_from_uint 100 8) b" and "s \<equiv> demo_guarded EXPR_BINARY_NEQ (demo_literal 0)"
  assumes "sim_val_is_true (eval_binary EXPR_BINARY_NEQ 1 (eval_signal_ref f 8 1) (eval_literal 8 (demo_literal 0))) = 1"
  shows "(f, demo_quotient) \<in> set (evaluated f s True)"
proof -
  define c where "c = EXPR_BINARY EXPR_BINARY_NEQ 1 (EXPR_SIGNAL_REF 8 1) (EXPR_LITERAL 8 (demo_literal 0))"
  have "sim_val_is_true (expr_value f c) = 1" using assms(3) by (simp add: c_def)
  moreover have "sim_eval_expr f c = (expr_value f c, f)" by (simp add: sim_eval_expr_eq) (simp add: c_def)
  ultimately show ?thesis by (simp add: s_def demo_guarded_def demo_literal_def [of 0] c_def demo_assign_def)
qed

theorem div_guard_sound_witness:
  "jz_ir_div_guard_check \<lparr>design_modules = [demo_clocked (demo_guarded EXPR_BINARY_NEQ (demo_literal 0))]\<rparr> [] = [] \<and>
   (demo_frame (sim_val_from_uint 100 8) (sim_val_from_uint 7 8), demo_quotient) \<in>
     set (evaluated (demo_frame (sim_val_from_uint 100 8) (sim_val_from_uint 7 8)) (demo_guarded EXPR_BINARY_NEQ (demo_literal 0)) True) \<and>
   (demo_frame (sim_val_from_uint 100 8) (sim_val_zero 8), demo_quotient) \<notin>
     set (evaluated (demo_frame (sim_val_from_uint 100 8) (sim_val_zero 8)) (demo_guarded EXPR_BINARY_NEQ (demo_literal 0)) True)"
proof -
  define f where "f = demo_frame (sim_val_from_uint 100 8) (sim_val_zero 8)"
  define s where "s = demo_guarded EXPR_BINARY_NEQ (demo_literal 0)"
  have q: "jz_ir_div_guard_check \<lparr>design_modules = [demo_clocked s]\<rparr> [] = []" unfolding s_def by code_simp
  moreover have m: "(s, True) \<in> set (module_statements (demo_clocked s))" "\<not> eliminated (demo_clocked s)"
    by (simp_all add: module_statements_def demo_clocked_def demo_module_def)
  moreover have "frame_ok f" unfolding f_def by (rule demo_frame_ok) simp_all
  moreover have "literals_ok (stmt_exprs s) (stmt_conditions s)"
    by (simp add: s_def demo_guarded_def demo_quotient_def demo_assign_def demo_literal_def literals_ok_def
        literal_fits_def lit_words_zero_def IR_LIT_WORDS_def list_all_iff nth_Cons')
  moreover have "undisturbed (divisor_ids (stmt_exprs s)) f (stmt_write_set s) True" by (simp add: undisturbed_def)
  moreover have x: "EXPR_SIGNAL_REF 8 1 \<in> set (divisors demo_quotient)" by (simp add: demo_quotient_def)
  ultimately have "(f, demo_quotient) \<in> set (evaluated f s True) \<Longrightarrow> \<not> known_zero (expr_value f (EXPR_SIGNAL_REF 8 1))"
    using div_guard_sound [of "\<lparr>design_modules = [demo_clocked s]\<rparr>" "demo_clocked s" s True f f demo_quotient "EXPR_SIGNAL_REF 8 1"]
    by simp
  moreover have "known_zero (expr_value f (EXPR_SIGNAL_REF 8 1))"
  proof -
    have "eval_signal_ref f 8 1 = sim_val_zero 8" unfolding f_def by code_simp
    then show ?thesis by (simp add: known_zero_def known_def)
  qed
  ultimately have "(f, demo_quotient) \<notin> set (evaluated f s True)" by blast
  moreover have "(demo_frame (sim_val_from_uint 100 8) (sim_val_from_uint 7 8), demo_quotient) \<in>
     set (evaluated (demo_frame (sim_val_from_uint 100 8) (sim_val_from_uint 7 8)) s True)"
    unfolding s_def by (rule demo_guarded_run) code_simp
  ultimately show ?thesis using q unfolding f_def s_def by blast
qed

text \<open>Without the guard, or with the wrong one, the pass reports the division.\<close>

lemma unguarded_division_reported:
  "jz_ir_div_guard_check \<lparr>design_modules = [demo_clocked (STMT_ASSIGNMENT (demo_assign 0 demo_quotient))]\<rparr> [] =
     [DIV_UNGUARDED_RUNTIME_ZERO]"
  "jz_ir_div_guard_check \<lparr>design_modules = [demo_clocked (demo_guarded EXPR_BINARY_GTE (demo_literal 0))]\<rparr> [] =
     [DIV_UNGUARDED_RUNTIME_ZERO]"
  by code_simp+

text \<open>
  A guard that compares with a literal whose low 64 bits are zero is misread, because
  \<open>expr_literal_value\<close> returns the first word only: under \<open>net1 != 2^64\<close> the pass accepts the
  division, and the divisor 0 passes the guard.
\<close>

definition wide_literal :: IR_Literal where
  "wide_literal = \<lparr>lit_words = [0, 1, 0, 0], lit_width = 65, lit_is_z = False\<rparr>"

lemma wide_guard_misread:
  "jz_ir_div_guard_check \<lparr>design_modules = [demo_clocked (demo_guarded EXPR_BINARY_NEQ wide_literal)]\<rparr> [] = []"
  "map snd (evaluated (demo_frame (sim_val_zero 65) (sim_val_zero 65)) (demo_guarded EXPR_BINARY_NEQ wide_literal) True) =
     [EXPR_BINARY EXPR_BINARY_NEQ 1 (EXPR_SIGNAL_REF 8 1) (EXPR_LITERAL 65 wide_literal), demo_quotient]"
  "eval_signal_ref (demo_frame (sim_val_zero 65) (sim_val_zero 65)) 8 1 = sim_val_zero 65"
  by code_simp+

text \<open>A push on the full stack is dropped, but its pop still removes an enclosing fact.\<close>

lemma guard_overflow_pops:
  assumes "length gs = MAX_GUARD_DEPTH"
  shows "guard_pop (guard_push gs i b) = butlast gs" "guard_pop (guard_push gs i b) \<noteq> gs"
  using assms by (auto simp: guard_push_def guard_pop_def MAX_GUARD_DEPTH_def butlast_conv_take dest: arg_cong [of _ _ length])

end
