(* ===== verification/Path_Security.thy ===== *)
theory Path_Security
  imports Prelude
begin

text \<open>
  Validation of file paths against sandbox roots, src/path_security.c (the POSIX variant). The
  file-level globals are the record \<open>PathSecurity\<close>; what the operating system answers
  (\<open>realpath\<close>, \<open>getcwd\<close>, \<open>lstat\<close>, \<open>stat\<close>, \<open>fopen\<close>, \<open>fstat\<close>) is a record of functions. A path is
  a list of characters without the terminating NUL, a NULL pointer is \<open>None\<close>, allocations
  succeed, and a diagnostic is the rule it names.
\<close>

section \<open>State and environment\<close>

definition MAX_SANDBOX_ROOTS :: nat where
  "MAX_SANDBOX_ROOTS = 32"

record PathSecurity =
  g_sandbox_roots :: "string list"
  g_default_sandbox_root :: "string option"
  g_allow_absolute :: bool
  g_allow_traversal :: bool

text \<open>\<open>st_id\<close> is the pair of \<open>st_dev\<close> and \<open>st_ino\<close>.\<close>

record file_stat =
  st_isreg :: bool
  st_id :: "int \<times> int"

record file_system =
  fs_realpath :: "string \<Rightarrow> string option"
  fs_getcwd :: "string option"
  fs_is_symlink :: "string \<Rightarrow> bool"
  fs_stat :: "string \<Rightarrow> file_stat option"
  fs_fopen :: "string \<Rightarrow> int option"
  fs_fstat :: "int \<Rightarrow> file_stat option"

datatype PathRule =
    PATH_ABSOLUTE_FORBIDDEN | PATH_TRAVERSAL_FORBIDDEN | PATH_SYMLINK_ESCAPE | PATH_OUTSIDE_SANDBOX

section \<open>Text\<close>

abbreviation slash :: char where
  "slash \<equiv> CHR ''/''"

text \<open>The part before the last slash; the root directory keeps its slash.\<close>

definition path_dirname :: "string \<Rightarrow> string" where
  "path_dirname filepath =
     (if slash \<notin> set filepath then ''.''
      else let dir = rev (tl (dropWhile (\<lambda>c. c \<noteq> slash) (rev filepath)))
           in if dir = [] then take 1 filepath else dir)"

text \<open>One component of the textual normalization, on at most 256 collected components.\<close>

definition add_component :: "bool \<Rightarrow> string list \<Rightarrow> string \<Rightarrow> string list" where
  "add_component is_absolute comps start =
     (if start = ''.'' then comps
      else if start = ''..''
      then if comps \<noteq> [] \<and> last comps \<noteq> ''..'' then butlast comps
           else if \<not> is_absolute \<and> length comps < 256 then comps @ [start] else comps
      else if length comps < 256 then comps @ [start] else comps)"

function normalize_loop :: "bool \<Rightarrow> string \<Rightarrow> string list \<Rightarrow> string list" where
  "normalize_loop is_absolute p comps =
     (let q = dropWhile (\<lambda>c. c = slash) p
      in if q = [] then comps
         else normalize_loop is_absolute (tl (dropWhile (\<lambda>c. c \<noteq> slash) q))
                (add_component is_absolute comps (takeWhile (\<lambda>c. c \<noteq> slash) q)))"
  by pat_completeness auto

termination
proof (relation "measure (\<lambda>(a, p, c). length p)")
  fix p q :: string
  assume q: "q = dropWhile (\<lambda>c. c = slash) p" "q \<noteq> []"
  have "length (tl (dropWhile (\<lambda>c. c \<noteq> slash) q)) < length q"
    using q(2) length_dropWhile_le [of "\<lambda>c. c \<noteq> slash" q] by (cases q) (simp_all add: less_Suc_eq_le)
  also have "length q \<le> length p" by (simp add: q(1) length_dropWhile_le)
  finally show "((is_absolute, tl (dropWhile (\<lambda>c. c \<noteq> slash) q), add_component is_absolute comps (takeWhile (\<lambda>c. c \<noteq> slash) q)),
      (is_absolute, p, comps)) \<in> measure (\<lambda>(a, p, c). length p)" for is_absolute comps by simp
qed simp

fun join_components :: "string list \<Rightarrow> string" where
  "join_components [] = []"
| "join_components [c] = c"
| "join_components (c # cs) = c @ [slash] @ join_components cs"

definition normalize_path_textual :: "string \<Rightarrow> string option" where
  "normalize_path_textual path =
     (if path = [] then None
      else let is_absolute = (hd path = slash);
               comps = normalize_loop is_absolute (if is_absolute then tl path else path) [];
               result = (if is_absolute then [slash] else []) @ join_components comps
           in Some (if result = [] then ''.'' else result))"

text \<open>\<open>dir\<close>, a separator unless \<open>dir\<close> ends in one, \<open>path\<close>.\<close>

definition join_path :: "string \<Rightarrow> string \<Rightarrow> string" where
  "join_path dir path = dir @ (if dir \<noteq> [] \<and> last dir \<noteq> slash then [slash] else []) @ path"

definition make_textual_path_absolute :: "file_system \<Rightarrow> string option \<Rightarrow> string option" where
  "make_textual_path_absolute fs path =
     (case path of
        None \<Rightarrow> None
      | Some p \<Rightarrow>
          if p = [] then None
          else if hd p = slash then Some p
          else case fs_getcwd fs of
                 None \<Rightarrow> None
               | Some cwd \<Rightarrow> normalize_path_textual (join_path cwd p))"

text \<open>The root without its trailing slashes, but at least one character.\<close>

function strip_root :: "string \<Rightarrow> string" where
  "strip_root root = (if length root > 1 \<and> last root = slash then strip_root (butlast root) else root)"
  by pat_completeness auto

termination
  by (relation "measure length") auto

definition path_is_under_root :: "string \<Rightarrow> string \<Rightarrow> bool" where
  "path_is_under_root path root =
     (let r = strip_root root
      in take (length r) path = r \<and> (length path = length r \<or> path ! length r = slash))"

text \<open>The scan over all positions; \<open>at_start\<close> says whether a component starts here.\<close>

fun traversal_scan :: "bool \<Rightarrow> string \<Rightarrow> bool" where
  "traversal_scan at_start [] = False"
| "traversal_scan at_start (c # p) =
     (if at_start \<and> c = CHR ''.'' \<and> p \<noteq> [] \<and> hd p = CHR ''.'' \<and>
         (tl p = [] \<or> hd (tl p) = slash \<or> hd (tl p) = CHR 0x5C)
      then True else traversal_scan (c = slash) p)"

definition path_has_traversal :: "string \<Rightarrow> bool" where
  "path_has_traversal path = traversal_scan True path"

section \<open>Configuration\<close>

definition resolve_or_normalize :: "file_system \<Rightarrow> string \<Rightarrow> string option" where
  "resolve_or_normalize fs dir = (case fs_realpath fs dir of Some r \<Rightarrow> Some r | None \<Rightarrow> normalize_path_textual dir)"

definition jz_path_security_init :: "file_system \<Rightarrow> string \<Rightarrow> PathSecurity \<Rightarrow> PathSecurity" where
  "jz_path_security_init fs project_filename g =
     g\<lparr>g_default_sandbox_root := resolve_or_normalize fs (path_dirname project_filename)\<rparr>"

definition jz_path_security_add_root :: "file_system \<Rightarrow> string \<Rightarrow> PathSecurity \<Rightarrow> PathSecurity" where
  "jz_path_security_add_root fs dir g =
     (if length (g_sandbox_roots g) \<ge> MAX_SANDBOX_ROOTS then g
      else case resolve_or_normalize fs dir of
             None \<Rightarrow> g
           | Some r \<Rightarrow> g\<lparr>g_sandbox_roots := g_sandbox_roots g @ [r]\<rparr>)"

definition jz_path_security_set_allow_absolute :: "bool \<Rightarrow> PathSecurity \<Rightarrow> PathSecurity" where
  "jz_path_security_set_allow_absolute allow g = g\<lparr>g_allow_absolute := allow\<rparr>"

definition jz_path_security_set_allow_traversal :: "bool \<Rightarrow> PathSecurity \<Rightarrow> PathSecurity" where
  "jz_path_security_set_allow_traversal allow g = g\<lparr>g_allow_traversal := allow\<rparr>"

definition jz_path_security_cleanup :: "PathSecurity \<Rightarrow> PathSecurity" where
  "jz_path_security_cleanup g =
     g\<lparr>g_sandbox_roots := [], g_default_sandbox_root := None, g_allow_absolute := False, g_allow_traversal := False\<rparr>"

section \<open>Validation\<close>

definition build_full_path :: "string \<Rightarrow> string option \<Rightarrow> string" where
  "build_full_path raw_path base_dir =
     (if hd raw_path = slash then raw_path
      else case base_dir of
             Some d \<Rightarrow> if d \<noteq> [] then join_path d raw_path else raw_path
           | None \<Rightarrow> raw_path)"

definition canonicalize :: "file_system \<Rightarrow> string \<Rightarrow> string option" where
  "canonicalize fs full_path =
     (case fs_realpath fs full_path of
        Some c \<Rightarrow> Some c
      | None \<Rightarrow> make_textual_path_absolute fs (normalize_path_textual full_path))"

definition in_sandbox :: "PathSecurity \<Rightarrow> string \<Rightarrow> bool" where
  "in_sandbox g canonical =
     ((case g_default_sandbox_root g of None \<Rightarrow> False | Some r \<Rightarrow> path_is_under_root canonical r) \<or>
      list_ex (path_is_under_root canonical) (g_sandbox_roots g))"

text \<open>Which rule a path outside the sandbox breaks: the unresolved path is a symbolic link, or not.\<close>

definition escape_rule :: "file_system \<Rightarrow> string \<Rightarrow> string option \<Rightarrow> PathRule" where
  "escape_rule fs raw_path base_dir =
     (case base_dir of
        Some d \<Rightarrow> if d \<noteq> [] \<and> hd raw_path \<noteq> slash \<and> fs_is_symlink fs (join_path d raw_path)
                  then PATH_SYMLINK_ESCAPE else PATH_OUTSIDE_SANDBOX
      | None \<Rightarrow> PATH_OUTSIDE_SANDBOX)"

text \<open>The canonical path or NULL, with the diagnostics extended.\<close>

definition jz_path_validate ::
  "PathSecurity \<Rightarrow> file_system \<Rightarrow> string \<Rightarrow> string option \<Rightarrow> PathRule list \<Rightarrow> string option \<times> PathRule list" where
  "jz_path_validate g fs raw_path base_dir diag =
     (if raw_path = [] then (None, diag)
      else if hd raw_path = slash \<and> \<not> g_allow_absolute g then (None, diag @ [PATH_ABSOLUTE_FORBIDDEN])
      else if path_has_traversal raw_path \<and> \<not> g_allow_traversal g then (None, diag @ [PATH_TRAVERSAL_FORBIDDEN])
      else case canonicalize fs (build_full_path raw_path base_dir) of
             None \<Rightarrow> (None, diag)
           | Some canonical \<Rightarrow>
               if in_sandbox g canonical then (Some canonical, diag)
               else (None, diag @ [escape_rule fs raw_path base_dir]))"

text \<open>The opened stream, the path left in \<open>*out_canonical\<close>, and the diagnostics.\<close>

definition jz_path_open_validated_read ::
  "PathSecurity \<Rightarrow> file_system \<Rightarrow> string \<Rightarrow> string option \<Rightarrow> PathRule list \<Rightarrow> int option \<times> string option \<times> PathRule list" where
  "jz_path_open_validated_read g fs raw_path base_dir diag =
     (case jz_path_validate g fs raw_path base_dir diag of
        (None, diag') \<Rightarrow> (None, None, diag')
      | (Some canonical, diag') \<Rightarrow>
          (case fs_stat fs canonical of
             None \<Rightarrow> (None, Some canonical, diag')
           | Some before \<Rightarrow>
               if \<not> st_isreg before then (None, Some canonical, diag')
               else case fs_fopen fs canonical of
                      None \<Rightarrow> (None, Some canonical, diag')
                    | Some fp \<Rightarrow>
                        (case fs_fstat fs fp of
                           Some after \<Rightarrow>
                             if st_isreg after \<and> st_id before = st_id after
                             then (Some fp, Some canonical, diag')
                             else (None, None, diag' @ [PATH_OUTSIDE_SANDBOX])
                         | None \<Rightarrow> (None, None, diag' @ [PATH_OUTSIDE_SANDBOX]))))"

declare normalize_loop.simps [simp del] strip_root.simps [simp del]

end
