(* ===== verification/Path_Security_Text.thy ===== *)
theory Path_Security_Text
  imports Path_Security "HOL-Library.Sublist"
begin

text \<open>
  Paths as sequences of components: what the textual normalization computes, and what the
  prefix test and the traversal test of path_security.c say about components.
\<close>

section \<open>Components\<close>

fun split_slash :: "string \<Rightarrow> string list" where
  "split_slash [] = [[]]"
| "split_slash (c # p) = (if c = slash then [] # split_slash p else (c # hd (split_slash p)) # tl (split_slash p))"

definition components :: "string \<Rightarrow> string list" where
  "components p = filter (\<lambda>c. c \<noteq> []) (split_slash p)"

definition name_ok :: "string \<Rightarrow> bool" where
  "name_ok c \<longleftrightarrow> c \<noteq> [] \<and> slash \<notin> set c"

text \<open>An absolute path without empty, \<open>.\<close> and \<open>..\<close> components and without a trailing slash.\<close>

definition is_canonical :: "string \<Rightarrow> bool" where
  "is_canonical c \<longleftrightarrow> c = slash # join_components (components c) \<and>
     ''.'' \<notin> set (components c) \<and> ''..'' \<notin> set (components c)"

lemma split_slash_not_Nil [simp]: "split_slash p \<noteq> []"
  by (cases p) auto

lemma split_slash_append: "split_slash (p @ slash # q) = split_slash p @ split_slash q"
  by (induction p) auto

lemma split_slash_name: "slash \<notin> set c \<Longrightarrow> split_slash c = [c]"
  by (induction c) auto

lemma split_slash_parts: "list_all (\<lambda>c. slash \<notin> set c) (split_slash p)"
proof (induction p)
  case (Cons c p)
  then show ?case by (cases "split_slash p") auto
qed simp

lemma components_append: "components (p @ slash # q) = components p @ components q"
  by (simp add: components_def split_slash_append)

lemma components_slash: "components (slash # q) = components q"
  using components_append [of "[]" q] by (simp add: components_def)

lemma components_name: "name_ok c \<Longrightarrow> components c = [c]"
  by (simp add: components_def name_ok_def split_slash_name)

lemma components_Nil [simp]: "components [] = []"
  by (simp add: components_def)

lemma components_ok: "list_all name_ok (components p)"
  using split_slash_parts [of p] by (auto simp: components_def name_ok_def list_all_iff)

lemma components_join: "list_all name_ok cs \<Longrightarrow> components (join_components cs) = cs"
  by (induction cs rule: join_components.induct) (simp_all add: components_name components_append)

lemma components_skip: "components (dropWhile (\<lambda>c. c = slash) p) = components p"
  by (induction p) (simp_all add: components_slash)

lemma components_step:
  assumes "q \<noteq> []" "hd q \<noteq> slash"
  shows "components q = takeWhile (\<lambda>c. c \<noteq> slash) q # components (tl (dropWhile (\<lambda>c. c \<noteq> slash) q))"
proof -
  let ?a = "takeWhile (\<lambda>c. c \<noteq> slash) q" and ?r = "dropWhile (\<lambda>c. c \<noteq> slash) q"
  have a: "name_ok ?a" using assms by (cases q) (auto simp: name_ok_def dest: set_takeWhileD)
  show ?thesis
  proof (cases ?r)
    case Nil
    then have "q = ?a" by (metis append_Nil2 takeWhile_dropWhile_id)
    then show ?thesis by (metis Nil a components_name components_Nil list.sel(2))
  next
    case (Cons x xs)
    then have "x = slash" using hd_dropWhile [of "\<lambda>c. c \<noteq> slash" q] by simp
    then have "q = ?a @ slash # xs" using Cons by (metis takeWhile_dropWhile_id)
    then have "components q = components ?a @ components xs" using components_append by metis
    then show ?thesis using components_name [OF a] Cons by simp
  qed
qed

section \<open>Normalization\<close>

lemma normalize_loop_eq: "normalize_loop a p comps = foldl (add_component a) comps (components p)"
proof (induction a p comps rule: normalize_loop.induct)
  case (1 a p comps)
  define q where "q = dropWhile (\<lambda>c. c = slash) p"
  have c: "components p = components q" by (simp add: q_def components_skip)
  show ?case
  proof (cases "q = []")
    case True
    then show ?thesis using c by (subst normalize_loop.simps) (simp add: q_def [symmetric])
  next
    case False
    then have "hd q \<noteq> slash" using hd_dropWhile [of "\<lambda>c. c = slash" p] by (simp add: q_def)
    then show ?thesis
      using "1" [OF q_def False] False c components_step [OF False]
      by (subst normalize_loop.simps) (simp add: q_def [symmetric])
  qed
qed

text \<open>Every component is one that was pushed: none of them vanishes or removes its predecessor.\<close>

definition settled :: "bool \<Rightarrow> string list \<Rightarrow> bool" where
  "settled a cs \<longleftrightarrow> (\<forall>xs c ys. cs = xs @ c # ys \<longrightarrow> add_component a xs c = xs @ [c])"

lemma settledD: "settled a (xs @ c # ys) \<Longrightarrow> add_component a xs c = xs @ [c]"
  by (simp add: settled_def)

lemma settled_foldl: "settled a cs \<Longrightarrow> foldl (add_component a) [] cs = cs"
proof (induction cs rule: rev_induct)
  case (snoc c cs)
  have "settled a cs" using snoc.prems by (auto simp: settled_def)
  moreover have "add_component a cs c = cs @ [c]" using snoc.prems by (auto simp: settled_def)
  ultimately show ?case using snoc.IH by simp
qed simp

lemma settled_prefix: "settled a (cs @ ds) \<Longrightarrow> settled a cs"
  by (auto simp: settled_def)

lemma settled_add:
  assumes "settled a cs"
  shows "settled a (add_component a cs c)"
proof -
  have "add_component a cs c = cs \<or> (add_component a cs c = butlast cs \<and> cs \<noteq> []) \<or> add_component a cs c = cs @ [c]"
    by (simp add: add_component_def)
  then consider "add_component a cs c = cs" | "add_component a cs c = butlast cs" "cs \<noteq> []" | "add_component a cs c = cs @ [c]"
    by blast
  then show ?thesis
  proof cases
    case 2
    then show ?thesis using assms settled_prefix [of a "butlast cs" "[last cs]"] by simp
  next
    case 3
    have "settled a (cs @ [c])"
      unfolding settled_def
    proof (intro allI impI)
      fix xs d ys
      assume "cs @ [c] = xs @ d # ys"
      then show "add_component a xs d = xs @ [d]"
        using assms 3 by (cases ys rule: rev_cases) (auto simp: settled_def)
    qed
    then show ?thesis using 3 by simp
  qed (use assms in simp)
qed

lemma settled_fold: "settled a cs \<Longrightarrow> settled a (foldl (add_component a) cs ds)"
  by (induction ds arbitrary: cs) (simp_all add: settled_add)

lemma settled_no_dots:
  assumes "settled a cs"
  shows "''.'' \<notin> set cs" "a \<Longrightarrow> ''..'' \<notin> set cs" "length cs \<le> 256"
proof -
  show "''.'' \<notin> set cs"
  proof
    assume "''.'' \<in> set cs"
    then obtain xs ys where "cs = xs @ ''.'' # ys" by (metis split_list)
    then show False using settledD [of a xs "''.''" ys] assms by (simp add: add_component_def)
  qed
  show "''..'' \<notin> set cs" if a
  proof
    assume "''..'' \<in> set cs"
    then obtain xs ys where "cs = xs @ ''..'' # ys" by (metis split_list)
    then have "add_component a xs ''..'' = xs @ [''..'']" using settledD assms by blast
    moreover have "length (add_component a xs ''..'') \<le> length xs" using that by (simp add: add_component_def)
    ultimately show False by simp
  qed
  show "length cs \<le> 256"
  proof (cases cs rule: rev_cases)
    case (snoc xs c)
    then have "add_component a xs c = xs @ [c]" using assms by (auto simp: settled_def)
    then have "length (add_component a xs c) = Suc (length xs)" by simp
    then have "length xs < 256" by (simp add: add_component_def split: if_splits)
    then show ?thesis using snoc by simp
  qed simp
qed

lemma add_component_set: "set (add_component a cs c) \<subseteq> insert c (set cs)"
  by (auto simp: add_component_def dest: in_set_butlastD)

lemma foldl_add_set: "set (foldl (add_component a) cs ds) \<subseteq> set ds \<union> set cs"
  using add_component_set by (induction ds arbitrary: cs) fastforce+

definition normal_components :: "string \<Rightarrow> string list" where
  "normal_components p = foldl (add_component (p \<noteq> [] \<and> hd p = slash)) [] (components p)"

lemma normal_components_ok: "list_all name_ok (normal_components p)"
  using foldl_add_set [of "p \<noteq> [] \<and> hd p = slash" "[]" "components p"] components_ok [of p]
  by (auto simp: normal_components_def list_all_iff)

lemma settled_Nil: "settled a []"
  by (simp add: settled_def)

lemma normalize_eq:
  assumes "p \<noteq> []"
  shows "normalize_path_textual p = Some
    (if hd p = slash then slash # join_components (normal_components p)
     else if normal_components p = [] then ''.'' else join_components (normal_components p))"
proof -
  have c: "components (if hd p = slash then tl p else p) = components p"
    using assms by (cases p) (simp_all add: components_slash)
  have L: "normalize_loop (hd p = slash) (if hd p = slash then tl p else p) [] = normal_components p"
    using assms c by (simp only: normalize_loop_eq) (simp add: normal_components_def)
  have "join_components cs = [] \<longleftrightarrow> cs = []" if "list_all name_ok cs" for cs
    using that by (cases cs rule: join_components.cases) (auto simp: name_ok_def)
  then show ?thesis
    using assms normal_components_ok [of p]
    by (simp only: normalize_path_textual_def Let_def L if_False) simp
qed

lemma normalize_absolute:
  assumes "p \<noteq> []" "hd p = slash" "normalize_path_textual p = Some c"
  shows "is_canonical c" "components c = normal_components p"
proof -
  have c: "c = slash # join_components (normal_components p)" using assms by (simp add: normalize_eq)
  show comps: "components c = normal_components p"
    using components_join [OF normal_components_ok] by (simp add: c components_slash)
  have "settled True (normal_components p)"
    using assms(1,2) settled_fold [OF settled_Nil] by (simp add: normal_components_def)
  then show "is_canonical c"
    using settled_no_dots(1,2) [of True "normal_components p"] unfolding is_canonical_def comps by (simp add: c)
qed

lemma normalize_not_Nil: "normalize_path_textual p = Some c \<Longrightarrow> c \<noteq> []"
  by (auto simp: normalize_path_textual_def Let_def split: if_splits)

end
