(* ===== verification/Path_Security_Props.thy ===== *)
theory Path_Security_Props
  imports Path_Security_Text
begin

text \<open>
  The properties of path validation: what the textual normalization means, and that a validated
  path lies inside the sandbox whatever was configured and asked for.
\<close>

section \<open>Walking through directories\<close>

text \<open>A directory without symbolic links as the list of names from the root, and one step from it.\<close>

definition walk :: "string list \<Rightarrow> string \<Rightarrow> string list" where
  "walk d c = (if c = ''.'' then d else if c = ''..'' then butlast d else d @ [c])"

lemma walk_pushed:
  assumes "settled a acc" "acc \<noteq> []" "last acc \<noteq> ''..''"
  shows "butlast (foldl walk d acc) = foldl walk d (butlast acc)"
proof -
  have "last acc \<noteq> ''.''" using settled_no_dots(1) [OF assms(1)] assms(2) last_in_set by metis
  then have "walk e (last acc) = e @ [last acc]" for e using assms(3) by (simp add: walk_def)
  moreover have "foldl walk d acc = walk (foldl walk d (butlast acc)) (last acc)"
    using assms(2) by (metis append_butlast_last_id foldl_Cons foldl_Nil foldl_append)
  ultimately show ?thesis by simp
qed

lemma walk_add:
  assumes "settled a acc" "length acc < 256" "a \<Longrightarrow> d = []"
  shows "foldl walk d (add_component a acc c) = walk (foldl walk d acc) c"
proof (cases "c = ''..'' \<and> acc \<noteq> [] \<and> last acc \<noteq> ''..''")
  case True
  then show ?thesis using walk_pushed [OF assms(1)] by (simp add: add_component_def walk_def)
next
  case False
  have "acc = []" if "a" "c = ''..''"
    using False that settled_no_dots(2) [OF assms(1)] by (metis last_in_set)
  then show ?thesis using False assms(2,3) by (auto simp: add_component_def walk_def)
qed

lemma length_add_component: "length (add_component a acc c) \<le> Suc (length acc)"
  by (auto simp: add_component_def)

lemma walk_fold:
  assumes "settled a acc" "length acc + length cs \<le> 256" "a \<Longrightarrow> d = []"
  shows "foldl walk d (foldl (add_component a) acc cs) = foldl walk (foldl walk d acc) cs"
  using assms(1,2)
proof (induction cs arbitrary: acc)
  case (Cons c cs)
  have "foldl walk d (foldl (add_component a) (add_component a acc c) cs) = foldl walk (foldl walk d (add_component a acc c)) cs"
    using Cons.prems length_add_component [of a acc c] by (intro Cons.IH settled_add) auto
  then show ?case using walk_add [OF Cons.prems(1) _ assms(3), where c = c] Cons.prems(2) by simp
qed simp

lemma walk_names: "''.'' \<notin> set cs \<Longrightarrow> ''..'' \<notin> set cs \<Longrightarrow> foldl walk d cs = d @ cs"
  by (induction cs arbitrary: d) (auto simp: walk_def)

lemma normalize_settled:
  assumes "p \<noteq> []" "list_all name_ok cs" "settled (hd p = slash) cs"
    and "p = (if hd p = slash then slash # join_components cs else join_components cs)"
  shows "normalize_path_textual p = Some p"
proof -
  have "components p = cs" using components_join [OF assms(2)] assms(4) by (metis components_slash)
  then have "normal_components p = cs" using assms(1) settled_foldl [OF assms(3)] by (simp add: normal_components_def)
  moreover have "cs \<noteq> []" if "hd p \<noteq> slash" using assms(1,4) that by auto
  ultimately show ?thesis using assms(1,4) by (auto simp: normalize_eq)
qed

lemma hd_join_components: "list_all name_ok cs \<Longrightarrow> cs \<noteq> [] \<Longrightarrow> hd (join_components cs) \<noteq> slash \<and> join_components cs \<noteq> []"
  by (cases cs rule: join_components.cases) (auto simp: name_ok_def hd_append dest: hd_in_set)

text \<open>
  Note: the textual normalization of a path leads where the path leads. Starting at the root
  for an absolute path, and in any directory for a relative one, the normalized path reaches the
  same place (for paths of at most 256 components, in a tree without symbolic links); an
  absolute result has no empty, \<open>.\<close> and \<open>..\<close> components left and lists the directories on the
  way; and normalizing again changes nothing.
\<close>

theorem normalize_path_correct:
  assumes "p \<noteq> []"
  shows "\<exists>r. normalize_path_textual p = Some r \<and> normalize_path_textual r = Some r \<and>
    (hd p = slash \<longrightarrow> is_canonical r) \<and>
    (length (components p) \<le> 256 \<longrightarrow>
      (if hd p = slash then components r = foldl walk [] (components p)
       else \<forall>d. foldl walk d (components r) = foldl walk d (components p)))"
proof -
  define a where "a = (hd p = slash)"
  define cs where "cs = normal_components p"
  have S: "settled a cs" and N: "list_all name_ok cs" and cs: "cs = foldl (add_component a) [] (components p)"
    using assms settled_fold [OF settled_Nil] normal_components_ok [of p] by (simp_all add: cs_def normal_components_def a_def)
  have W: "foldl walk d cs = foldl walk d (components p)" if "length (components p) \<le> 256" "a \<Longrightarrow> d = []" for d
    using walk_fold [OF settled_Nil, of "components p" a d] that by (simp add: cs)
  show ?thesis
  proof (cases a)
    case True
    define r where "r = slash # join_components cs"
    have r: "normalize_path_textual p = Some r" using assms True by (simp add: normalize_eq r_def cs_def a_def)
    have "normalize_path_textual r = Some r" by (rule normalize_settled [OF _ N]) (use S True in \<open>simp_all add: r_def\<close>)
    moreover have "is_canonical r" "components r = cs"
      using normalize_absolute [OF assms _ r] True by (simp_all add: a_def cs_def)
    moreover have "foldl walk [] cs = cs" using walk_names settled_no_dots [OF S] True by simp
    ultimately show ?thesis using r True W [of "[]"] by (auto simp: a_def)
  next
    case False
    show ?thesis
    proof (cases "cs = []")
      case True
      then have "normalize_path_textual p = Some ''.''" using assms False by (simp add: normalize_eq cs_def a_def)
      moreover have "normalize_path_textual ''.'' = Some ''.''" "components ''.'' = [''.'']" by code_simp+
      moreover have "foldl walk d [''.''] = d" for d by (simp add: walk_def)
      ultimately show ?thesis using False True W by (auto simp: a_def)
    next
      case ne: False
      define r where "r = join_components cs"
      have r: "normalize_path_textual p = Some r" using assms False ne by (simp add: normalize_eq r_def cs_def a_def)
      have h: "hd r \<noteq> slash" "r \<noteq> []" using hd_join_components [OF N ne] by (simp_all add: r_def)
      have "normalize_path_textual r = Some r"
        by (rule normalize_settled [OF h(2) N]) (use S False h in \<open>simp_all add: r_def\<close>)
      moreover have "components r = cs" using components_join [OF N] by (simp add: r_def)
      ultimately show ?thesis using r False W by (auto simp: a_def)
    qed
  qed
qed

theorem normalize_path_witness:
  "normalize_path_textual ''/a/./b//../c/'' = Some ''/a/c'' \<and>
   (\<exists>r. normalize_path_textual ''/a/./b//../c/'' = Some r \<and> is_canonical r)"
proof -
  have "normalize_path_textual ''/a/./b//../c/'' = Some ''/a/c''" by code_simp
  then show ?thesis using normalize_path_correct [of "''/a/./b//../c/''"] by auto
qed


section \<open>The sandbox\<close>

lemma traversal_components:
  "(b \<and> hd (split_slash p) = ''..'') \<or> ''..'' \<in> set (tl (split_slash p)) \<Longrightarrow> traversal_scan b p"
proof (induction b p rule: traversal_scan.induct)
  case (2 b c p)
  show ?case
  proof (cases "b \<and> c = CHR ''.'' \<and> hd (split_slash (c # p)) = ''..''")
    case True
    then have "hd (split_slash p) = ''.''" by (simp split: if_splits)
    then obtain q where q: "p = CHR ''.'' # q" "hd (split_slash q) = []"
      by (cases p) (auto split: if_splits)
    then have "q = [] \<or> hd q = slash" by (cases q) (auto split: if_splits)
    then show ?thesis using True q by auto
  next
    case False
    then have "(c = slash \<and> hd (split_slash p) = ''..'') \<or> ''..'' \<in> set (tl (split_slash p))"
      using "2.prems" by (cases "split_slash p") (auto split: if_splits)
    then show ?thesis using "2.IH" by auto
  qed
qed simp

lemma no_traversal: "\<not> path_has_traversal p \<Longrightarrow> ''..'' \<notin> set (components p)"
  using traversal_components [of True p] by (cases "split_slash p") (auto simp: path_has_traversal_def components_def)

lemma canonical_strip:
  assumes "is_canonical r" "r \<noteq> [slash]"
  shows "strip_root r = r"
proof -
  have ne: "components r \<noteq> []" using assms by (auto simp: is_canonical_def)
  have "last (join_components cs) \<noteq> slash" "join_components cs \<noteq> []" if "list_all name_ok cs" "cs \<noteq> []" for cs
    using that by (induction cs rule: join_components.induct) (auto simp: name_ok_def dest: last_in_set)
  then have "last r \<noteq> slash" using components_ok [of r] ne assms(1) by (metis is_canonical_def last_ConsR)
  then show ?thesis by (subst strip_root.simps) simp
qed

lemma strip_root_slash: "strip_root [slash] = [slash]"
  by (subst strip_root.simps) simp

lemma under_root_prefix:
  assumes "path_is_under_root c r" "is_canonical r"
  shows "prefix (components r) (components c)"
proof (cases "r = [slash]")
  case True
  then show ?thesis by (simp add: components_slash)
next
  case False
  then have t: "take (length r) c = r" and n: "length c = length r \<or> c ! length r = slash"
    using assms by (auto simp: path_is_under_root_def canonical_strip Let_def)
  have "c = r \<or> (\<exists>x. c = r @ slash # x)"
  proof (cases "length c = length r")
    case True
    then show ?thesis using t by simp
  next
    case False
    then have "length r < length c" using arg_cong [OF t, of length] by simp
    then have "drop (length r) c = slash # drop (Suc (length r)) c" using n False by (metis Cons_nth_drop_Suc)
    then show ?thesis using append_take_drop_id [of "length r" c] t by metis
  qed
  then show ?thesis by (auto simp: components_append)
qed

text \<open>The states the configuration functions can produce.\<close>

inductive configured :: "file_system \<Rightarrow> PathSecurity \<Rightarrow> bool" for fs where
  start: "configured fs \<lparr>g_sandbox_roots = [], g_default_sandbox_root = None, g_allow_absolute = False, g_allow_traversal = False\<rparr>"
| init: "configured fs g \<Longrightarrow> configured fs (jz_path_security_init fs project g)"
| add_root: "configured fs g \<Longrightarrow> configured fs (jz_path_security_add_root fs dir g)"
| set_absolute: "configured fs g \<Longrightarrow> configured fs (jz_path_security_set_allow_absolute b g)"
| set_traversal: "configured fs g \<Longrightarrow> configured fs (jz_path_security_set_allow_traversal b g)"
| cleanup: "configured fs g \<Longrightarrow> configured fs (jz_path_security_cleanup g)"

definition sandbox_roots :: "PathSecurity \<Rightarrow> string set" where
  "sandbox_roots g = set_option (g_default_sandbox_root g) \<union> set (g_sandbox_roots g)"

text \<open>POSIX: \<open>realpath\<close> returns an absolute path without \<open>.\<close>, \<open>..\<close> and repeated slashes, \<open>getcwd\<close> an absolute path.\<close>

definition posix_paths :: "file_system \<Rightarrow> bool" where
  "posix_paths fs \<longleftrightarrow> (\<forall>p r. fs_realpath fs p = Some r \<longrightarrow> is_canonical r) \<and>
     (\<forall>d. fs_getcwd fs = Some d \<longrightarrow> d \<noteq> [] \<and> hd d = slash)"

definition root_ok :: "string \<Rightarrow> bool" where
  "root_ok r \<longleftrightarrow> r \<noteq> [] \<and> (hd r = slash \<longrightarrow> is_canonical r)"

lemma resolve_root_ok:
  assumes "posix_paths fs" "resolve_or_normalize fs dir = Some r"
  shows "root_ok r"
proof (cases "fs_realpath fs dir")
  case None
  then have n: "normalize_path_textual dir = Some r" using assms(2) by (simp add: resolve_or_normalize_def)
  then have d: "dir \<noteq> []" by (auto simp: normalize_path_textual_def)
  have "is_canonical r" if "hd dir = slash" using normalize_absolute(1) [OF d that n] .
  moreover have "hd r \<noteq> slash" if "hd dir \<noteq> slash"
    using n that d hd_join_components [OF normal_components_ok, of dir] by (auto simp: normalize_eq split: if_splits)
  ultimately show ?thesis using normalize_not_Nil [OF n] by (auto simp: root_ok_def)
next
  case (Some c)
  then show ?thesis using assms by (auto simp: resolve_or_normalize_def posix_paths_def root_ok_def is_canonical_def)
qed

lemma configured_roots:
  assumes "configured fs g" "posix_paths fs"
  shows "(\<forall>r \<in> sandbox_roots g. root_ok r) \<and> length (g_sandbox_roots g) \<le> MAX_SANDBOX_ROOTS"
  using assms(1)
proof (induction rule: configured.induct)
  case (init g project)
  then show ?case
    using resolve_root_ok [OF assms(2), of "path_dirname project"]
    by (auto simp: jz_path_security_init_def sandbox_roots_def)
next
  case (add_root g dir)
  then show ?case
    using resolve_root_ok [OF assms(2), of dir]
    by (auto simp: jz_path_security_add_root_def sandbox_roots_def split: option.splits)
qed (auto simp: sandbox_roots_def jz_path_security_set_allow_absolute_def jz_path_security_set_allow_traversal_def
    jz_path_security_cleanup_def)

lemma strip_root_hd: "r \<noteq> [] \<Longrightarrow> strip_root r \<noteq> [] \<and> hd (strip_root r) = hd r"
proof (induction r rule: strip_root.induct)
  case (1 r)
  show ?case
  proof (cases "1 < length r \<and> last r = slash")
    case True
    then have "butlast r \<noteq> []" "hd (butlast r) = hd r" by (cases r; simp)+
    then show ?thesis using "1.IH" [OF True] True by (subst (1 2) strip_root.simps) simp
  next
    case False
    then show ?thesis using "1.prems" by (subst (1 2) strip_root.simps) auto
  qed
qed

lemma under_root_absolute:
  assumes "path_is_under_root c r" "hd c = slash" "r \<noteq> []"
  shows "hd r = slash"
proof -
  define s where "s = strip_root r"
  have s: "s \<noteq> []" "hd s = hd r" using strip_root_hd [OF assms(3)] by (simp_all add: s_def)
  have "take (length s) c = s" using assms(1) by (simp add: path_is_under_root_def s_def Let_def)
  then have "hd s = hd c" using s(1) by (metis hd_take length_greater_0_conv)
  then show ?thesis using s(2) assms(2) by simp
qed

lemma canonicalize_canonical:
  assumes "posix_paths fs" "canonicalize fs p = Some c"
  shows "is_canonical c"
proof (cases "fs_realpath fs p")
  case None
  then obtain q where q: "normalize_path_textual p = Some q" and m: "make_textual_path_absolute fs (Some q) = Some c"
    using assms(2) by (auto simp: canonicalize_def make_textual_path_absolute_def split: option.splits)
  have p: "p \<noteq> []" using q by (auto simp: normalize_path_textual_def)
  show ?thesis
  proof (cases "hd q = slash")
    case True
    then have "hd p = slash"
      using q p hd_join_components [OF normal_components_ok, of p] by (auto simp: normalize_eq split: if_splits)
    then show ?thesis using normalize_absolute(1) [OF p _ q] m True normalize_not_Nil [OF q] by (simp add: make_textual_path_absolute_def)
  next
    case False
    then obtain cwd where c: "fs_getcwd fs = Some cwd" "normalize_path_textual (join_path cwd q) = Some c"
      using m normalize_not_Nil [OF q] by (auto simp: make_textual_path_absolute_def split: option.splits)
    then have "cwd \<noteq> []" "hd cwd = slash" using assms(1) by (simp_all add: posix_paths_def)
    then have "join_path cwd q \<noteq> []" "hd (join_path cwd q) = slash" by (simp_all add: join_path_def)
    then show ?thesis using normalize_absolute(1) c(2) by blast
  qed
next
  case (Some r)
  then show ?thesis using assms by (simp add: canonicalize_def posix_paths_def)
qed

text \<open>
  C24: whatever sequence of configuration calls came before and whatever path is asked for, a
  path that validation returns is canonical and lies inside a sandbox root: the components of a
  configured root (itself canonical) are its first components. No diagnostic is added; without
  the permission for absolute paths the requested path was relative, and without the permission
  for traversal it had no \<open>..\<close> component. At most 32 additional roots are ever configured. The
  operating system is a parameter: \<open>realpath\<close> is assumed to return canonical paths and
  \<open>getcwd\<close> an absolute one.
\<close>

theorem path_validate_confined:
  assumes "configured fs g" "posix_paths fs" "jz_path_validate g fs raw_path base_dir diag = (Some c, diag')"
  shows "is_canonical c \<and> diag' = diag \<and>
    (\<exists>root \<in> sandbox_roots g. is_canonical root \<and> prefix (components root) (components c)) \<and>
    (\<not> g_allow_absolute g \<longrightarrow> hd raw_path \<noteq> slash) \<and>
    (\<not> g_allow_traversal g \<longrightarrow> ''..'' \<notin> set (components raw_path)) \<and>
    length (g_sandbox_roots g) \<le> MAX_SANDBOX_ROOTS"
proof -
  have c: "canonicalize fs (build_full_path raw_path base_dir) = Some c" "in_sandbox g c" "diag' = diag"
    and r: "\<not> g_allow_absolute g \<longrightarrow> hd raw_path \<noteq> slash" "\<not> g_allow_traversal g \<longrightarrow> \<not> path_has_traversal raw_path"
    using assms(3) by (auto simp: jz_path_validate_def split: if_splits option.splits)
  have can: "is_canonical c" by (rule canonicalize_canonical [OF assms(2) c(1)])
  then have h: "hd c = slash" by (metis is_canonical_def list.sel(1))
  obtain root where root: "root \<in> sandbox_roots g" "path_is_under_root c root"
    using c(2) by (auto simp: in_sandbox_def sandbox_roots_def list_ex_iff split: option.splits)
  have "root_ok root" using configured_roots [OF assms(1,2)] root(1) by blast
  then have "is_canonical root" using under_root_absolute [OF root(2) h] by (simp add: root_ok_def)
  then show ?thesis
    using can c(3) root r under_root_prefix [OF root(2)] no_traversal configured_roots [OF assms(1,2)] by blast
qed


text \<open>A file system in which every absolute path exists and nothing is a symbolic link.\<close>

definition demo_fs :: file_system where
  "demo_fs = \<lparr>fs_realpath = (\<lambda>p. if p \<noteq> [] \<and> hd p = slash then normalize_path_textual p else None),
     fs_getcwd = Some ''/work'', fs_is_symlink = (\<lambda>_. False),
     fs_stat = (\<lambda>_. None), fs_fopen = (\<lambda>_. None), fs_fstat = (\<lambda>_. None)\<rparr>"

definition demo_sandbox :: PathSecurity where
  "demo_sandbox = jz_path_security_init demo_fs ''/work/main.jz''
     \<lparr>g_sandbox_roots = [], g_default_sandbox_root = None, g_allow_absolute = False, g_allow_traversal = False\<rparr>"

lemma demo_fs_posix: "posix_paths demo_fs"
  using normalize_absolute(1) by (auto simp: posix_paths_def demo_fs_def)

theorem path_validate_confined_witness:
  "jz_path_validate demo_sandbox demo_fs ''sub//./x.jz'' (Some ''/work'') [] = (Some ''/work/sub/x.jz'', []) \<and>
   (\<exists>root \<in> sandbox_roots demo_sandbox. prefix (components root) (components ''/work/sub/x.jz''))"
proof -
  have "configured demo_fs demo_sandbox" unfolding demo_sandbox_def by (intro configured.init configured.start)
  moreover have "jz_path_validate demo_sandbox demo_fs ''sub//./x.jz'' (Some ''/work'') [] = (Some ''/work/sub/x.jz'', [])"
    by code_simp
  ultimately show ?thesis using path_validate_confined [OF _ demo_fs_posix] by blast
qed

section \<open>Further behaviour\<close>

text \<open>Without roots, at the start and after \<open>jz_path_security_cleanup\<close>, nothing is accepted.\<close>

lemma no_roots_no_paths: "sandbox_roots g = {} \<Longrightarrow> fst (jz_path_validate g fs raw_path base_dir diag) = None"
  by (auto simp: jz_path_validate_def in_sandbox_def sandbox_roots_def split: option.splits)

lemma cleanup_no_roots: "sandbox_roots (jz_path_security_cleanup g) = {}"
  by (simp add: jz_path_security_cleanup_def sandbox_roots_def)

text \<open>A stream is returned only for a validated regular file that is still the same after opening it.\<close>

lemma open_validated_same_file:
  assumes "jz_path_open_validated_read g fs raw_path base_dir diag = (Some fp, out, diag')"
  shows "\<exists>c before after. jz_path_validate g fs raw_path base_dir diag = (Some c, diag') \<and> out = Some c \<and>
    fs_stat fs c = Some before \<and> fs_fopen fs c = Some fp \<and> fs_fstat fs fp = Some after \<and>
    st_isreg before \<and> st_isreg after \<and> st_id before = st_id after"
  using assms by (auto simp: jz_path_open_validated_read_def split: prod.splits option.splits if_splits)

text \<open>A sandbox at the root directory contains nothing but the root directory itself.\<close>

lemma root_directory_sandbox:
  assumes "is_canonical c" "path_is_under_root c [slash]"
  shows "c = [slash]"
proof (rule ccontr)
  assume ne: "c \<noteq> [slash]"
  have c: "c = slash # join_components (components c)" using assms(1) by (simp add: is_canonical_def)
  then have "components c \<noteq> []" using ne by auto
  then have h: "hd (join_components (components c)) \<noteq> slash" "join_components (components c) \<noteq> []"
    using hd_join_components [OF components_ok] by auto
  then have "c ! 1 \<noteq> slash" "length c \<noteq> 1" by (subst c, simp add: hd_conv_nth)+
  then show False using assms(2) by (simp add: path_is_under_root_def strip_root_slash Let_def)
qed

lemma root_directory_project:
  "g_default_sandbox_root (jz_path_security_init demo_fs ''/main.jz'' g) = Some [slash]"
  "\<not> path_is_under_root ''/main.jz'' [slash]"
  by (simp_all add: jz_path_security_init_def resolve_or_normalize_def) code_simp+

text \<open>Components beyond the 256th are dropped without notice.\<close>

lemma normalize_truncates:
  assumes "p \<noteq> []" "hd p = slash" "normalize_path_textual p = Some r"
  shows "length (components r) \<le> 256"
  using normalize_absolute(2) [OF assms] settled_no_dots(3) [OF settled_fold [OF settled_Nil]]
  by (simp add: normal_components_def)

end
