(* ===== verification/Realloc.thy ===== *)
theory Realloc
  imports Prelude
begin

text \<open>
  What \<open>realloc\<close> may answer. The C library decides; a component whose pointers depend on the
  answer takes it as a parameter, a function of the requested capacity.
\<close>

datatype ReallocAnswer = REALLOC_FAILS | REALLOC_IN_PLACE | REALLOC_MOVES

end
