(* ===== verification/Repeat_Expand.thy ===== *)
theory Repeat_Expand
  imports Ctype Util_Limits Realloc
begin

text \<open>
  The expansion of \<open>@repeat N ... @end\<close> before lexing, src/repeat_expand.c. Pointers into the
  source are offsets and a region is a pair of offsets; sizes are natural numbers with the checks
  against \<open>SIZE_MAX\<close> written out. A buffer of text is the text it holds (its capacity, which grows
  by the checked doubling of util.c, has no counterpart) and its allocation succeeds.

  The stack of frames is an array that grows by \<open>realloc\<close>, and a frame writes through its pointer
  \<open>out\<close>, which leads to the caller's buffer or to the member \<open>nested_out\<close> of the frame as it lay in
  the array when it was pushed. Pushing a frame that does not fit may move the array; only the
  pointer of the pushed frame is set anew. So a nested frame records the number of the array its
  pointer leads into, and an access through a pointer into an array that has been freed is the
  outcome \<open>Undefined\<close>. What \<open>realloc\<close> answers to a request for a capacity is a parameter (the
  overflow checks of the request have the outcome of a failed one). A diagnostic is the rule it
  names and its line.
\<close>

section \<open>Data\<close>

datatype RepeatRule =
    RPT_COUNT_INVALID | RPT_COUNT_LIMIT_EXCEEDED | RPT_NO_MATCHING_END
  | RPT_EXPANDED_SIZE_LIMIT_EXCEEDED | RPT_INTERNAL

type_synonym RepeatError = "RepeatRule \<times> nat"

record JZExpansionLimits =
  repeat_max_count :: int
  repeat_max_bytes :: int

definition JZ_EXPANSION_LIMITS_DEFAULT :: JZExpansionLimits where
  "JZ_EXPANSION_LIMITS_DEFAULT = \<lparr>repeat_max_count = 1024, repeat_max_bytes = 1024 * 1024\<rparr>"

record RepeatExpandContext =
  full_src :: string
  limits :: JZExpansionLimits

text \<open>
  \<open>out_text\<close> is the text of the buffer of the frame: of \<open>nested_out\<close> when the frame owns it, else
  of the caller. \<open>out_array\<close> is the number of the array that \<open>out\<close> leads into. \<open>pending\<close> is the
  pending repeat: its count, the offsets of \<open>@repeat\<close> and of the matching \<open>@end\<close>.
\<close>

record RepeatFrame =
  region_end :: nat
  scan_pos :: nat
  out_text :: string
  owns_out :: bool
  out_array :: nat
  pending :: "(nat \<times> nat \<times> nat) option"

text \<open>The frames, top first, the capacity in frames and the number of the array.\<close>

record RepeatFrameStack =
  frames :: "RepeatFrame list"
  stack_cap :: nat
  stack_array :: nat

abbreviation size_max :: int where
  "size_max \<equiv> 2 ^ 64 - 1"

section \<open>Helpers\<close>

text \<open>The offset where a scan that advances while \<open>P\<close> holds stops, at \<open>e\<close> at the latest.\<close>

function scan_to :: "(char \<Rightarrow> bool) \<Rightarrow> string \<Rightarrow> nat \<Rightarrow> nat \<Rightarrow> nat" where
  "scan_to P src p e = (if p < e \<and> P (src ! p) then scan_to P src (Suc p) e else p)"
  by pat_completeness auto

termination
  by (relation "measure (\<lambda>(P, src, p, e). e - p)") auto

definition slice_text :: "string \<Rightarrow> nat \<Rightarrow> nat \<Rightarrow> string" where
  "slice_text src p q = take (q - p) (drop p src)"

definition count_line :: "string \<Rightarrow> nat \<Rightarrow> nat" where
  "count_line src p = 1 + length (filter (\<lambda>c. c = CHR 0x0A) (take p src))"

definition report_repeat_rule :: "RepeatExpandContext \<Rightarrow> nat \<Rightarrow> RepeatRule \<Rightarrow> RepeatError" where
  "report_repeat_rule ctx pos rule = (rule, count_line (full_src ctx) pos)"

definition sb_append_limited :: "string \<Rightarrow> string \<Rightarrow> RepeatExpandContext \<Rightarrow> nat \<Rightarrow> RepeatError + string" where
  "sb_append_limited sb s ctx limit_at =
     (if s = [] then Inr sb
      else if int (length sb) > repeat_max_bytes (limits ctx) \<or> int (length s) > repeat_max_bytes (limits ctx) - int (length sb)
      then Inl (report_repeat_rule ctx limit_at RPT_EXPANDED_SIZE_LIMIT_EXCEEDED)
      else if int (length sb) + int (length s) + 1 > size_max then Inl (report_repeat_rule ctx limit_at RPT_INTERNAL)
      else Inr (sb @ s))"

definition is_word_char :: "char \<Rightarrow> bool" where
  "is_word_char c \<longleftrightarrow> isalnum c \<or> c = CHR ''_''"

definition matches_directive :: "string \<Rightarrow> nat \<Rightarrow> nat \<Rightarrow> string \<Rightarrow> bool" where
  "matches_directive src p e directive \<longleftrightarrow>
     p + length directive \<le> e \<and> take (length directive) (drop p src) = directive"

definition directive_boundary_ok :: "string \<Rightarrow> nat \<Rightarrow> nat \<Rightarrow> nat \<Rightarrow> bool" where
  "directive_boundary_ok src p e directive_len \<longleftrightarrow>
     \<not> p + directive_len + 1 \<le> e \<or> \<not> is_word_char (src ! (p + directive_len))"

definition at_directive :: "string \<Rightarrow> nat \<Rightarrow> nat \<Rightarrow> string \<Rightarrow> bool" where
  "at_directive src p e directive \<longleftrightarrow>
     matches_directive src p e directive \<and> directive_boundary_ok src p e (length directive)"

definition skip_hspace :: "string \<Rightarrow> nat \<Rightarrow> nat \<Rightarrow> nat" where
  "skip_hspace src p e = scan_to (\<lambda>c. c = CHR '' '' \<or> c = CHR 0x09) src p e"

definition skip_newline :: "string \<Rightarrow> nat \<Rightarrow> nat \<Rightarrow> nat" where
  "skip_newline src p e = (if p < e \<and> src ! p = CHR 0x0A then Suc p else p)"

definition line_comment_at :: "string \<Rightarrow> nat \<Rightarrow> nat \<Rightarrow> bool" where
  "line_comment_at src p e \<longleftrightarrow> src ! p = CHR ''/'' \<and> p + 2 \<le> e \<and> src ! Suc p = CHR ''/''"

definition end_of_line :: "string \<Rightarrow> nat \<Rightarrow> nat \<Rightarrow> nat" where
  "end_of_line src p e = scan_to (\<lambda>c. c \<noteq> CHR 0x0A) src p e"

text \<open>The inside of a string literal; a backslash takes the next character with it.\<close>

function string_body :: "string \<Rightarrow> nat \<Rightarrow> nat \<Rightarrow> nat" where
  "string_body src p e =
     (if p < e \<and> src ! p \<noteq> CHR 0x22 \<and> src ! p \<noteq> CHR 0x0A
      then string_body src (if src ! p = CHR 0x5C \<and> p + 2 \<le> e then p + 2 else p + 1) e
      else p)"
  by pat_completeness auto

termination
  by (relation "measure (\<lambda>(src, p, e). e - p)") auto

declare scan_to.simps [simp del] string_body.simps [simp del]

lemma scan_to_bounds: "p \<le> scan_to P src p e" "p \<le> e \<Longrightarrow> scan_to P src p e \<le> e"
proof (induction P src p e rule: scan_to.induct)
  case (1 P src p e)
  case 1 then show ?case using "1.IH" by (subst scan_to.simps) auto
  case 2 then show ?case using "1.IH" by (subst scan_to.simps) auto
qed

lemma string_body_bounds: "p \<le> string_body src p e" "p \<le> e \<Longrightarrow> string_body src p e \<le> e"
proof (induction src p e rule: string_body.induct)
  case (1 src p e)
  case 1 then show ?case using "1.IH"(1) by (subst string_body.simps) (auto intro: order_trans [rotated])
  case 2 then show ?case using "1.IH"(2) by (subst string_body.simps) auto
qed

lemma comment_advances:
  assumes "line_comment_at src p e"
  shows "p < end_of_line src p e" "end_of_line src p e \<le> e"
proof -
  have p: "p < e" "src ! p \<noteq> CHR 0x0A" using assms by (auto simp: line_comment_at_def)
  then have "end_of_line src p e = scan_to (\<lambda>c. c \<noteq> CHR 0x0A) src (Suc p) e"
    unfolding end_of_line_def by (subst scan_to.simps) simp
  then show "p < end_of_line src p e" "end_of_line src p e \<le> e"
    using scan_to_bounds(1) [of "Suc p"] scan_to_bounds(2) [of "Suc p"] p by (simp_all add: Suc_le_eq)
qed

text \<open>The matching \<open>@end\<close> of a repeat body that starts at \<open>p\<close>, at nesting \<open>depth\<close>.\<close>

function (sequential) matching_end_from :: "string \<Rightarrow> nat \<Rightarrow> nat \<Rightarrow> nat \<Rightarrow> nat option" where
  "matching_end_from src depth p e =
     (if \<not> (p < e \<and> depth > 0) then None
      else if line_comment_at src p e then matching_end_from src depth (end_of_line src p e) e
      else if src ! p = CHR 0x22
      then matching_end_from src depth
             (let q = string_body src (Suc p) e in if q < e then Suc q else q) e
      else if at_directive src p e ''@repeat'' then matching_end_from src (Suc depth) (p + 7) e
      else if at_directive src p e ''@end''
      then if depth = 1 then Some p else matching_end_from src (depth - 1) (p + 4) e
      else matching_end_from src depth (Suc p) e)"
  by pat_completeness auto

termination
proof (relation "measure (\<lambda>(src, d, p, e). e - p)", goal_cases)
  case (2 src d p e)
  then show ?case using comment_advances [of src p e] by (auto intro: diff_less_mono2)
next
  case (3 src d p e)
  then show ?case using string_body_bounds(1) [of "Suc p" src e] by (auto simp: Let_def)
qed (auto simp: at_directive_def matches_directive_def)

definition find_matching_end :: "string \<Rightarrow> nat \<Rightarrow> nat \<Rightarrow> nat option" where
  "find_matching_end src body_start e = matching_end_from src 1 body_start e"

declare matching_end_from.simps [simp del]


lemma find_matching_end_bounds:
  assumes "find_matching_end src p e = Some q"
  shows "p \<le> q" "q + 4 \<le> e"
proof -
  have "p \<le> q \<and> q + 4 \<le> e" if "matching_end_from src d p e = Some q" for d
    using that
  proof (induction src d p e rule: matching_end_from.induct)
    case (1 src d p e)
    define s where "s = string_body src (Suc p) e"
    have s: "Suc p \<le> s" by (simp add: s_def string_body_bounds)
    note u = "1.prems" [unfolded matching_end_from.simps [of src d p e]]
    show ?case
      using u "1.IH" comment_advances [of src p e] s
      by (simp add: Let_def s_def [symmetric] at_directive_def matches_directive_def split: if_splits)
  qed
  then show "p \<le> q" "q + 4 \<le> e" using assms by (auto simp: find_matching_end_def)
qed


section \<open>Results\<close>

text \<open>Go on with a result, or return the error.\<close>

definition and_then :: "'e + 'a \<Rightarrow> ('a \<Rightarrow> 'e + 'b) \<Rightarrow> 'e + 'b" where
  "and_then r k = (case r of Inl err \<Rightarrow> Inl err | Inr x \<Rightarrow> k x)"

lemma and_then_simps [simp]: "and_then (Inl err) k = Inl err" "and_then (Inr x) k = k x"
  by (simp_all add: and_then_def)

lemma and_then_cong [fundef_cong]:
  assumes "r = r'" "\<And>x. r' = Inr x \<Longrightarrow> k x = k' x"
  shows "and_then r k = and_then r' k'"
  using assms by (cases r') simp_all

lemma and_then_assoc: "and_then (and_then r k) h = and_then r (\<lambda>x. and_then (k x) h)"
  by (cases r) simp_all

lemma and_then_Inr: "and_then r k = Inr y \<longleftrightarrow> (\<exists>x. r = Inr x \<and> k x = Inr y)"
  by (cases r) simp_all

section \<open>Substitution of the index\<close>

definition idx_at :: "string \<Rightarrow> nat \<Rightarrow> bool" where
  "idx_at body s \<longleftrightarrow>
     body ! s = CHR ''I'' \<and> body ! (s + 1) = CHR ''D'' \<and> body ! (s + 2) = CHR ''X'' \<and>
     (s = 0 \<or> \<not> is_word_char (body ! (s - 1))) \<and> (s + 3 \<ge> length body \<or> \<not> is_word_char (body ! (s + 3)))"

definition find_idx :: "string \<Rightarrow> nat \<Rightarrow> nat option" where
  "find_idx body p = find (idx_at body) [p..<length body - 2]"

lemma find_idx_bounds: "find_idx body p = Some s \<Longrightarrow> p \<le> s \<and> s + 3 \<le> length body"
  by (auto simp: find_idx_def find_Some_iff)

text \<open>\<open>char idx_str[16]\<close> takes 15 digits.\<close>

definition idx_text :: "nat \<Rightarrow> string" where
  "idx_text idx = take 15 (show_nat idx)"

function substitute_from :: "string \<Rightarrow> string \<Rightarrow> nat \<Rightarrow> nat \<Rightarrow> RepeatExpandContext \<Rightarrow> nat \<Rightarrow> RepeatError + string" where
  "substitute_from sb body p idx ctx repeat_at =
     (if p < length body
      then (case find_idx body p of
              Some found \<Rightarrow>
                and_then (sb_append_limited sb (slice_text body p found) ctx repeat_at) (\<lambda>sb1.
                and_then (sb_append_limited sb1 (idx_text idx) ctx repeat_at) (\<lambda>sb2.
                substitute_from sb2 body (found + 3) idx ctx repeat_at))
            | None \<Rightarrow> sb_append_limited sb (slice_text body p (length body)) ctx repeat_at)
      else Inr sb)"
  by pat_completeness auto

termination
  by (relation "measure (\<lambda>(sb, body, p, idx, ctx, at). length body - p)") (auto dest: find_idx_bounds)

declare substitute_from.simps [simp del]

definition substitute_idx :: "string \<Rightarrow> string \<Rightarrow> nat \<Rightarrow> RepeatExpandContext \<Rightarrow> nat \<Rightarrow> RepeatError + string" where
  "substitute_idx sb body idx ctx repeat_at = substitute_from sb body 0 idx ctx repeat_at"

text \<open>The iterations \<open>i\<close>, ..., \<open>i + n - 1\<close> of a body.\<close>

fun repeat_copies :: "nat \<Rightarrow> nat \<Rightarrow> string \<Rightarrow> string \<Rightarrow> RepeatExpandContext \<Rightarrow> nat \<Rightarrow> RepeatError + string" where
  "repeat_copies 0 i sb body ctx repeat_at = Inr sb"
| "repeat_copies (Suc n) i sb body ctx repeat_at =
     and_then (substitute_idx sb body i ctx repeat_at) (\<lambda>sb1. repeat_copies n (Suc i) sb1 body ctx repeat_at)"

section \<open>The directive\<close>

text \<open>The digits of the count, with the overflow flag; the count stays as it was on overflow.\<close>

function parse_count :: "string \<Rightarrow> nat \<Rightarrow> nat \<Rightarrow> int \<Rightarrow> bool \<Rightarrow> int \<times> bool \<times> nat" where
  "parse_count src p e count overflow =
     (if p < e \<and> isdigit (src ! p)
      then let digit = of_char (src ! p) - 48 :: int
           in if \<not> overflow \<and> count > (size_max - digit) div 10
              then parse_count src (Suc p) e count True
              else parse_count src (Suc p) e (if overflow then count else count * 10 + digit) overflow
      else (count, overflow, p))"
  by pat_completeness auto

termination
  by (relation "measure (\<lambda>(src, p, e, c, ov). e - p)") auto

declare parse_count.simps [simp del]

text \<open>\<open>@repeat\<close> at \<open>at\<close>: the count, where the body starts, and where its \<open>@end\<close> stands.\<close>

definition parse_repeat :: "RepeatExpandContext \<Rightarrow> nat \<Rightarrow> nat \<Rightarrow> RepeatError + (nat \<times> nat \<times> nat)" where
  "parse_repeat ctx at e =
     (let src = full_src ctx;
          p = skip_hspace src (at + 7) e
      in if p \<ge> e \<or> \<not> isdigit (src ! p) then Inl (report_repeat_rule ctx at RPT_COUNT_INVALID)
         else let (count, overflow, p1) = parse_count src p e 0 False
              in if count = 0 then Inl (report_repeat_rule ctx at RPT_COUNT_INVALID)
                 else if overflow \<or> count > repeat_max_count (limits ctx)
                 then Inl (report_repeat_rule ctx at RPT_COUNT_LIMIT_EXCEEDED)
                 else let body_start = skip_newline src (skip_hspace src p1 e) e
                      in case find_matching_end src body_start e of
                           None \<Rightarrow> Inl (report_repeat_rule ctx at RPT_NO_MATCHING_END)
                         | Some end_at \<Rightarrow> Inr (nat count, body_start, end_at))"

definition after_end :: "string \<Rightarrow> nat \<Rightarrow> nat \<Rightarrow> nat" where
  "after_end src end_at e = skip_newline src (skip_hspace src (end_at + 4) e) e"

definition string_end :: "string \<Rightarrow> nat \<Rightarrow> nat \<Rightarrow> nat" where
  "string_end src p e =
     (let q = string_body src (Suc p) e in if q < e \<and> src ! q = CHR 0x22 then Suc q else q)"

section \<open>The stack machine\<close>

text \<open>The stack is full: the capacity is 8 or doubles. \<open>None\<close> is a failed allocation.\<close>

definition repeat_frame_stack_push :: "(nat \<Rightarrow> ReallocAnswer) \<Rightarrow> RepeatFrameStack \<Rightarrow> RepeatFrame \<Rightarrow> RepeatFrameStack option" where
  "repeat_frame_stack_push answer stack frame =
     (let new_cap = (if stack_cap stack = 0 then 8 else stack_cap stack * 2);
          grown = (if length (frames stack) = stack_cap stack
                   then (case answer new_cap of
                           REALLOC_FAILS \<Rightarrow> None
                         | REALLOC_IN_PLACE \<Rightarrow> Some (stack\<lparr>stack_cap := new_cap\<rparr>)
                         | REALLOC_MOVES \<Rightarrow> Some (stack\<lparr>stack_cap := new_cap, stack_array := Suc (stack_array stack)\<rparr>))
                   else Some stack)
      in case grown of
           None \<Rightarrow> None
         | Some stack1 \<Rightarrow> Some (stack1\<lparr>frames := frame\<lparr>out_array := stack_array stack1\<rparr> # frames stack1\<rparr>))"

text \<open>The buffer behind \<open>out\<close>; \<open>None\<close> when the pointer dangles.\<close>

definition out_buffer :: "RepeatFrameStack \<Rightarrow> RepeatFrame \<Rightarrow> string option" where
  "out_buffer stack frame = (if owns_out frame \<and> out_array frame \<noteq> stack_array stack then None else Some (out_text frame))"

datatype expand_outcome = Running RepeatFrameStack | Finished string | Failed RepeatError | Undefined

text \<open>Append to the buffer of the top frame and move it to \<open>q\<close>.\<close>

definition copy_to :: "RepeatExpandContext \<Rightarrow> RepeatFrameStack \<Rightarrow> RepeatFrame \<Rightarrow> RepeatFrame list \<Rightarrow> nat \<Rightarrow> expand_outcome" where
  "copy_to ctx stack frame rest q =
     (case out_buffer stack frame of
        None \<Rightarrow> Undefined
      | Some sb \<Rightarrow>
          (case sb_append_limited sb (slice_text (full_src ctx) (scan_pos frame) q) ctx (scan_pos frame) of
             Inl err \<Rightarrow> Failed err
           | Inr out \<Rightarrow> Running (stack\<lparr>frames := frame\<lparr>out_text := out, scan_pos := q\<rparr> # rest\<rparr>)))"

text \<open>
  A finished region: the child's text goes into the parent once per iteration, which touches the
  parent's buffer unless the text is empty. (The position of a parent without pending repeat is
  read after the stack was freed.)
\<close>

definition pop_frame :: "RepeatExpandContext \<Rightarrow> RepeatFrameStack \<Rightarrow> RepeatFrame \<Rightarrow> RepeatFrame list \<Rightarrow> expand_outcome" where
  "pop_frame ctx stack child rest =
     (case rest of
        [] \<Rightarrow> Finished (out_text child)
      | parent # rest' \<Rightarrow>
          (case pending parent of
             None \<Rightarrow> Undefined
           | Some (count, repeat_at, end_at) \<Rightarrow>
               (case out_buffer stack child of
                  None \<Rightarrow> Undefined
                | Some child_text \<Rightarrow>
                    if child_text \<noteq> [] \<and> out_buffer stack parent = None then Undefined
                    else case repeat_copies count 0 (out_text parent) child_text ctx repeat_at of
                           Inl err \<Rightarrow> Failed err
                         | Inr out \<Rightarrow>
                             Running (stack\<lparr>frames := parent\<lparr>out_text := out, pending := None,
                               scan_pos := after_end (full_src ctx) end_at (region_end parent)\<rparr> # rest'\<rparr>))))"

definition push_repeat :: "(nat \<Rightarrow> ReallocAnswer) \<Rightarrow> RepeatExpandContext \<Rightarrow> RepeatFrameStack \<Rightarrow> RepeatFrame \<Rightarrow> RepeatFrame list \<Rightarrow> expand_outcome" where
  "push_repeat answer ctx stack frame rest =
     (case parse_repeat ctx (scan_pos frame) (region_end frame) of
        Inl err \<Rightarrow> Failed err
      | Inr (count, body_start, end_at) \<Rightarrow>
          (case repeat_frame_stack_push answer
                  (stack\<lparr>frames := frame\<lparr>pending := Some (count, scan_pos frame, end_at)\<rparr> # rest\<rparr>)
                  \<lparr>region_end = end_at, scan_pos = body_start, out_text = [], owns_out = True, out_array = 0, pending = None\<rparr> of
             None \<Rightarrow> Failed (report_repeat_rule ctx (scan_pos frame) RPT_INTERNAL)
           | Some stack' \<Rightarrow> Running stack'))"

definition expand_step :: "(nat \<Rightarrow> ReallocAnswer) \<Rightarrow> RepeatExpandContext \<Rightarrow> RepeatFrameStack \<Rightarrow> RepeatFrame \<Rightarrow> RepeatFrame list \<Rightarrow> expand_outcome" where
  "expand_step answer ctx stack frame rest =
     (let src = full_src ctx; p = scan_pos frame; e = region_end frame
      in if p \<ge> e then pop_frame ctx stack frame rest
         else if line_comment_at src p e then copy_to ctx stack frame rest (end_of_line src p e)
         else if src ! p = CHR 0x22 then copy_to ctx stack frame rest (string_end src p e)
         else if at_directive src p e ''@repeat'' then push_repeat answer ctx stack frame rest
         else copy_to ctx stack frame rest (Suc p))"

text \<open>What is left to do: the top frame counts by its position, a waiting one by its pending \<open>@end\<close>.\<close>

fun stack_measure :: "RepeatFrame list \<Rightarrow> nat" where
  "stack_measure [] = 0"
| "stack_measure (f # fs) = 2 * (region_end f - scan_pos f) + 1 +
     (\<Sum>g\<leftarrow>fs. case pending g of None \<Rightarrow> 0 | Some (c, r, en) \<Rightarrow> 2 * (region_end g - (en + 4)) + 2)"

lemma skip_bounds:
  "p \<le> skip_hspace src p e" "p \<le> skip_newline src p e" "p \<le> e \<Longrightarrow> skip_hspace src p e \<le> e" "p \<le> e \<Longrightarrow> skip_newline src p e \<le> e"
  by (simp_all add: skip_hspace_def skip_newline_def scan_to_bounds)

lemma parse_count_bounds: "p \<le> snd (snd (parse_count src p e c ov))"
proof (induction src p e c ov rule: parse_count.induct)
  case (1 src p e c ov)
  then show ?case
    by (subst parse_count.simps) (auto simp: Let_def intro: order_trans [OF le_SucI [OF order_refl]])
qed

lemma parse_count_nonneg: "0 \<le> c \<Longrightarrow> 0 \<le> fst (parse_count src p e c ov)"
proof (induction src p e c ov rule: parse_count.induct)
  case (1 src p e c ov)
  have "0 \<le> (of_char (src ! p) - 48 :: int)" if "isdigit (src ! p)"
    using that of_nat_mono [of 48 "of_char (src ! p) :: nat", where 'a = int] by (simp add: isdigit_def of_char_def)
  then show ?case using 1 by (subst parse_count.simps) (simp add: Let_def)
qed

lemma parse_repeat_bounds:
  assumes "parse_repeat ctx at e = Inr (count, body, en)"
  shows "at + 7 \<le> body" "body \<le> en" "en + 4 \<le> e" "int count \<le> repeat_max_count (limits ctx)"
proof -
  define p where "p = skip_hspace (full_src ctx) (at + 7) e"
  obtain c ov p1 where pc: "parse_count (full_src ctx) p e 0 False = (c, ov, p1)" by (metis prod_cases3)
  have f: "find_matching_end (full_src ctx) body e = Some en" and b: "body = skip_newline (full_src ctx) (skip_hspace (full_src ctx) p1 e) e"
    and c: "count = nat c" "c \<le> repeat_max_count (limits ctx)"
    using assms pc by (auto simp: parse_repeat_def Let_def p_def [symmetric] split: if_splits option.splits)
  have "at + 7 \<le> p" "p \<le> p1"
    using skip_bounds(1) [of "at + 7"] parse_count_bounds [of p "full_src ctx" e 0 False] pc by (simp_all add: p_def)
  moreover have "p1 \<le> body"
    using skip_bounds(1) [of p1 "full_src ctx" e] skip_bounds(2) [of "skip_hspace (full_src ctx) p1 e" "full_src ctx" e] b by simp
  ultimately show "at + 7 \<le> body" by simp
  show "body \<le> en" "en + 4 \<le> e" using find_matching_end_bounds [OF f] by simp_all
  have "0 \<le> c"
    using parse_count_nonneg [of 0 "full_src ctx" p e False] pc by simp
  then show "int count \<le> repeat_max_count (limits ctx)" using c by simp
qed

lemma after_end_ge: "en + 4 \<le> after_end src en e"
  using skip_bounds(1) [of "en + 4" src e] skip_bounds(2) [of "skip_hspace src (en + 4) e" src e] by (simp add: after_end_def)

lemma string_end_gt: "p < string_end src p e"
  using string_body_bounds(1) [of "Suc p" src e] by (simp add: string_end_def Let_def)

lemma push_frames:
  assumes "repeat_frame_stack_push answer stack f = Some stack'"
  shows "frames stack' = f\<lparr>out_array := stack_array stack'\<rparr> # frames stack"
  using assms by (auto simp: repeat_frame_stack_push_def Let_def split: option.splits if_splits ReallocAnswer.splits)

lemma expand_step_decreases:
  assumes "expand_step answer ctx stack f fs = Running st"
  shows "stack_measure (frames st) < stack_measure (f # fs)"
proof -
  have copy: "stack_measure (frames st) < stack_measure (f # fs)"
    if "copy_to ctx stack f fs q = Running st" "scan_pos f < q" "scan_pos f < region_end f" for q
    using that by (auto simp: copy_to_def split: sum.splits option.splits)
  have pop: "stack_measure (frames st) < stack_measure (f # fs)" if popped: "pop_frame ctx stack f fs = Running st"
  proof -
    obtain g gs c r en where fs: "fs = g # gs" "pending g = Some (c, r, en)"
      using popped by (cases fs) (auto simp: pop_frame_def split: option.splits)
    then show ?thesis using popped after_end_ge [of en "full_src ctx" "region_end g"]
      by (auto simp: pop_frame_def split: sum.splits option.splits if_splits)
  qed
  have push: "stack_measure (frames st) < stack_measure (f # fs)" if "push_repeat answer ctx stack f fs = Running st" "scan_pos f < region_end f"
    using that parse_repeat_bounds [of ctx "scan_pos f" "region_end f"]
    by (fastforce simp: push_repeat_def push_frames split: sum.splits option.splits)
  show ?thesis
    using assms copy pop push comment_advances(1) [of "full_src ctx" "scan_pos f" "region_end f"]
      string_end_gt [of "scan_pos f" "full_src ctx" "region_end f"]
    by (auto simp: expand_step_def Let_def split: if_splits)
qed

text \<open>The main loop; \<open>None\<close> is an access through a dangling pointer.\<close>

function expand_loop :: "(nat \<Rightarrow> ReallocAnswer) \<Rightarrow> RepeatExpandContext \<Rightarrow> RepeatFrameStack \<Rightarrow> (RepeatError + string) option" where
  "expand_loop answer ctx stack =
     (case frames stack of
        [] \<Rightarrow> Some (Inr [])
      | f # fs \<Rightarrow>
          (case expand_step answer ctx stack f fs of
             Running stack' \<Rightarrow> expand_loop answer ctx stack'
           | Finished out \<Rightarrow> Some (Inr out)
           | Failed err \<Rightarrow> Some (Inl err)
           | Undefined \<Rightarrow> None))"
  by pat_completeness auto

termination
  by (relation "measure (\<lambda>(answer, ctx, st). stack_measure (frames st))") (auto dest: expand_step_decreases)

declare expand_loop.simps [simp del]

definition expand_region :: "(nat \<Rightarrow> ReallocAnswer) \<Rightarrow> nat \<Rightarrow> nat \<Rightarrow> RepeatExpandContext \<Rightarrow> (RepeatError + string) option" where
  "expand_region answer start src_end ctx =
     (case repeat_frame_stack_push answer \<lparr>frames = [], stack_cap = 0, stack_array = 0\<rparr>
             \<lparr>region_end = src_end, scan_pos = start, out_text = [], owns_out = False, out_array = 0, pending = None\<rparr> of
        None \<Rightarrow> Some (Inl (report_repeat_rule ctx start RPT_INTERNAL))
      | Some stack \<Rightarrow> expand_loop answer ctx stack)"

section \<open>Entry point\<close>

definition contains_repeat :: "string \<Rightarrow> bool" where
  "contains_repeat source = list_ex (\<lambda>i. take 7 (drop i source) = ''@repeat'') [0..<length source]"

text \<open>
  The expanded text or NULL, and the diagnostics; \<open>None\<close> among the arguments is a NULL diagnostics
  list or NULL limits, as the result it is undefined behaviour.
\<close>

definition jz_repeat_expand ::
  "(nat \<Rightarrow> ReallocAnswer) \<Rightarrow> string \<Rightarrow> RepeatError list option \<Rightarrow> JZExpansionLimits option \<Rightarrow>
    (string option \<times> RepeatError list option) option" where
  "jz_repeat_expand answer source diagnostics lims =
     (if \<not> contains_repeat source then Some (Some source, diagnostics)
      else let ctx = \<lparr>full_src = source,
                      limits = (case lims of Some l \<Rightarrow> l | None \<Rightarrow> JZ_EXPANSION_LIMITS_DEFAULT)\<rparr>
           in case expand_region answer 0 (length source) ctx of
                None \<Rightarrow> None
              | Some (Inl err) \<Rightarrow> Some (None, map_option (\<lambda>ds. ds @ [err]) diagnostics)
              | Some (Inr out) \<Rightarrow> Some (Some out, diagnostics))"

end
