(* ===== verification/Repeat_Expand_Props.thy ===== *)
theory Repeat_Expand_Props
  imports Repeat_Expand
begin

text \<open>
  What the expansion of repeats computes: the stack machine against plain recursion over
  regions, the text it produces against the unrolled text, its size limits, and the nestings for
  which no pointer into the stack dangles.
\<close>

section \<open>Recursion over regions\<close>

text \<open>The expansion of the region from \<open>p\<close> to \<open>e\<close>, appended to \<open>out\<close>; a repeat recurses into its body.\<close>

function expand_rec :: "RepeatExpandContext \<Rightarrow> nat \<Rightarrow> nat \<Rightarrow> string \<Rightarrow> RepeatError + string" where
  "expand_rec ctx p e out =
     (let src = full_src ctx
      in if p \<ge> e then Inr out
         else if src ! p = CHR ''@'' \<and> at_directive src p e ''@repeat''
         then and_then (parse_repeat ctx p e) (\<lambda>(count, body, en).
              and_then (expand_rec ctx body en []) (\<lambda>child.
              and_then (repeat_copies count 0 out child ctx p) (\<lambda>out1.
              expand_rec ctx (after_end src en e) e out1)))
         else let q = (if line_comment_at src p e then end_of_line src p e
                       else if src ! p = CHR 0x22 then string_end src p e else Suc p)
              in and_then (sb_append_limited out (slice_text src p q) ctx p) (\<lambda>out1. expand_rec ctx q e out1))"
  by pat_completeness auto

termination
proof (relation "measure (\<lambda>(ctx, p, e, out). e - p)", goal_cases)
  case 1
  then show ?case by simp
next
  case (2 ctx p e out src v count z body en)
  then show ?case using parse_repeat_bounds [of ctx p e count body en] by auto
next
  case (3 ctx p e out src v count z body en)
  then show ?case using parse_repeat_bounds [of ctx p e count body en] after_end_ge [of en "full_src ctx" e] by auto
next
  case (4 ctx p e out src q)
  then show ?case
    using comment_advances(1) [of "full_src ctx" p e] string_end_gt [of p "full_src ctx" e] by (auto split: if_splits)
qed

declare expand_rec.simps [simp del]


lemma directive_at:
  assumes "at_directive src p e (CHR ''@'' # d)"
  shows "src ! p = CHR ''@''" "\<not> line_comment_at src p e"
proof -
  have "take (Suc (length d)) (drop p src) = CHR ''@'' # d"
    using assms by (simp add: at_directive_def matches_directive_def)
  then obtain r where "drop p src = CHR ''@'' # r" by (cases "drop p src") auto
  then show "src ! p = CHR ''@''" by (rule nth_via_drop)
  then show "\<not> line_comment_at src p e" by (simp add: line_comment_at_def)
qed

definition copy_target :: "string \<Rightarrow> nat \<Rightarrow> nat \<Rightarrow> nat" where
  "copy_target src p e =
     (if line_comment_at src p e then end_of_line src p e
      else if src ! p = CHR 0x22 then string_end src p e else Suc p)"

lemma copy_target_gt: "p < e \<Longrightarrow> p < copy_target src p e"
  by (auto simp: copy_target_def comment_advances string_end_gt)

lemma expand_rec_step:
  "expand_rec ctx p e out =
     (if p \<ge> e then Inr out
      else if at_directive (full_src ctx) p e ''@repeat''
      then and_then (parse_repeat ctx p e) (\<lambda>(count, body, en).
           and_then (expand_rec ctx body en []) (\<lambda>child.
           and_then (repeat_copies count 0 out child ctx p) (\<lambda>out1.
           expand_rec ctx (after_end (full_src ctx) en e) e out1)))
      else and_then (sb_append_limited out (slice_text (full_src ctx) p (copy_target (full_src ctx) p e)) ctx p)
             (expand_rec ctx (copy_target (full_src ctx) p e) e))"
  using directive_at(1) [of "full_src ctx" p e "''repeat''"]
  by (subst expand_rec.simps) (auto simp: Let_def copy_target_def)

lemma expand_step_eq:
  "expand_step answer ctx st f fs =
     (if scan_pos f \<ge> region_end f then pop_frame ctx st f fs
      else if at_directive (full_src ctx) (scan_pos f) (region_end f) ''@repeat'' then push_repeat answer ctx st f fs
      else copy_to ctx st f fs (copy_target (full_src ctx) (scan_pos f) (region_end f)))"
  using directive_at [of "full_src ctx" "scan_pos f" "region_end f" "''repeat''"]
  by (auto simp: expand_step_def Let_def copy_target_def)

text \<open>What is left to do for a stack: the rest of the top region, then of the regions below.\<close>

fun resume :: "RepeatExpandContext \<Rightarrow> RepeatFrame list \<Rightarrow> string \<Rightarrow> RepeatError + string" where
  "resume ctx [] t = Inr t"
| "resume ctx (g # gs) t =
     (case the (pending g) of
        (count, at, en) \<Rightarrow>
          and_then (repeat_copies count 0 (out_text g) t ctx at) (\<lambda>out.
          and_then (expand_rec ctx (after_end (full_src ctx) en (region_end g)) (region_end g) out) (resume ctx gs)))"

fun stack_meaning :: "RepeatExpandContext \<Rightarrow> RepeatFrame list \<Rightarrow> RepeatError + string" where
  "stack_meaning ctx [] = Inr []"
| "stack_meaning ctx (f # fs) = and_then (expand_rec ctx (scan_pos f) (region_end f) (out_text f)) (resume ctx fs)"

text \<open>How deep the repeats of a region are nested.\<close>

function repeat_depth :: "RepeatExpandContext \<Rightarrow> nat \<Rightarrow> nat \<Rightarrow> nat" where
  "repeat_depth ctx p e =
     (if p \<ge> e then 0
      else if at_directive (full_src ctx) p e ''@repeat''
      then (case parse_repeat ctx p e of
              Inl err \<Rightarrow> 0
            | Inr (count, body, en) \<Rightarrow> max (Suc (repeat_depth ctx body en)) (repeat_depth ctx (after_end (full_src ctx) en e) e))
      else repeat_depth ctx (copy_target (full_src ctx) p e) e)"
  by pat_completeness auto

termination
proof (relation "measure (\<lambda>(ctx, p, e). e - p)", goal_cases)
  case (2 ctx p e y x z body en)
  then show ?case using parse_repeat_bounds [of ctx p e x body en] by auto
next
  case (3 ctx p e y x z body en)
  then show ?case using parse_repeat_bounds [of ctx p e x body en] after_end_ge [of en "full_src ctx" e] by auto
next
  case (4 ctx p e)
  then show ?case using copy_target_gt [of p e "full_src ctx"] by auto
qed simp

declare repeat_depth.simps [simp del]

text \<open>The repeats that are left in every region of the stack fit into \<open>n\<close> frames.\<close>

fun frames_fit :: "nat \<Rightarrow> RepeatExpandContext \<Rightarrow> RepeatFrame list \<Rightarrow> bool" where
  "frames_fit n ctx [] \<longleftrightarrow> True"
| "frames_fit n ctx (g # gs) \<longleftrightarrow>
     length gs + 1 + repeat_depth ctx (after_end (full_src ctx) (snd (snd (the (pending g)))) (region_end g)) (region_end g) \<le> n \<and>
     frames_fit n ctx gs"

fun stack_fits :: "nat \<Rightarrow> RepeatExpandContext \<Rightarrow> RepeatFrame list \<Rightarrow> bool" where
  "stack_fits n ctx [] \<longleftrightarrow> True"
| "stack_fits n ctx (f # fs) \<longleftrightarrow> length fs + 1 + repeat_depth ctx (scan_pos f) (region_end f) \<le> n \<and> frames_fit n ctx fs"

definition outs_valid :: "RepeatFrameStack \<Rightarrow> bool" where
  "outs_valid st \<longleftrightarrow> (\<forall>f \<in> set (frames st). out_buffer st f = Some (out_text f))"

text \<open>
  The invariant of the stack: a waiting frame has a pending repeat, the capacity is at least 8;
  \<open>small\<close> says that the repeats were found to fit into eight frames, and then, or when the array
  never moves, every pointer leads into the array.
\<close>

definition stack_inv :: "(nat \<Rightarrow> ReallocAnswer) \<Rightarrow> RepeatExpandContext \<Rightarrow> bool \<Rightarrow> RepeatFrameStack \<Rightarrow> bool" where
  "stack_inv answer ctx small st \<longleftrightarrow> (\<forall>g \<in> set (tl (frames st)). pending g \<noteq> None) \<and> 8 \<le> stack_cap st \<and>
     (small \<longrightarrow> stack_fits 8 ctx (frames st)) \<and> (small \<or> (\<forall>n. answer n \<noteq> REALLOC_MOVES) \<longrightarrow> outs_valid st)"

text \<open>What one step keeps, and what it says when it is the last.\<close>

definition step_ok :: "(nat \<Rightarrow> ReallocAnswer) \<Rightarrow> RepeatExpandContext \<Rightarrow> bool \<Rightarrow> RepeatFrameStack \<Rightarrow> expand_outcome \<Rightarrow> bool" where
  "step_ok answer ctx small st r \<longleftrightarrow> (case r of
     Running st' \<Rightarrow> stack_inv answer ctx small st' \<and> stack_meaning ctx (frames st') = stack_meaning ctx (frames st)
   | Finished out \<Rightarrow> stack_meaning ctx (frames st) = Inr out
   | Failed err \<Rightarrow> stack_meaning ctx (frames st) = Inl err \<or>
       \<not> small \<and> (\<exists>at n. err = report_repeat_rule ctx at RPT_INTERNAL \<and> answer n = REALLOC_FAILS)
   | Undefined \<Rightarrow> \<not> small \<and> (\<exists>n. answer n = REALLOC_MOVES))"

lemma dangling:
  "stack_inv answer ctx small st \<Longrightarrow> g \<in> set (frames st) \<Longrightarrow> out_buffer st g = None \<Longrightarrow>
     \<not> small \<and> (\<exists>n. answer n = REALLOC_MOVES)"
  by (auto simp: stack_inv_def outs_valid_def)

lemma out_buffer_Some: "out_buffer st f = Some t \<Longrightarrow> t = out_text f"
  by (auto simp: out_buffer_def split: if_splits)

lemma out_buffer_update [simp]:
  "out_buffer (st\<lparr>frames := fs\<rparr>) f = out_buffer st f"
  "out_buffer st (f\<lparr>scan_pos := p\<rparr>) = out_buffer st f" "out_buffer st (f\<lparr>pending := pd\<rparr>) = out_buffer st f"
  "out_buffer st (f\<lparr>out_text := t\<rparr>) = map_option (\<lambda>_. t) (out_buffer st f)"
  by (simp_all add: out_buffer_def)

lemma copy_ok:
  assumes inv: "stack_inv answer ctx small st" "frames st = f # fs"
    and c: "scan_pos f < region_end f" "\<not> at_directive (full_src ctx) (scan_pos f) (region_end f) ''@repeat''"
  shows "step_ok answer ctx small st (copy_to ctx st f fs (copy_target (full_src ctx) (scan_pos f) (region_end f)))"
proof (cases "out_buffer st f")
  case None
  then show ?thesis using dangling [OF inv(1), of f] inv(2) by (simp add: copy_to_def step_ok_def)
next
  case (Some sb)
  let ?q = "copy_target (full_src ctx) (scan_pos f) (region_end f)"
  have depth: "repeat_depth ctx (scan_pos f) (region_end f) = repeat_depth ctx ?q (region_end f)"
    using c by (subst repeat_depth.simps) simp
  have rec: "expand_rec ctx (scan_pos f) (region_end f) (out_text f) =
      and_then (sb_append_limited (out_text f) (slice_text (full_src ctx) (scan_pos f) ?q) ctx (scan_pos f)) (expand_rec ctx ?q (region_end f))"
    using c by (subst expand_rec_step) simp
  show ?thesis
    using Some [folded out_buffer_Some [OF Some]] inv depth rec out_buffer_Some [OF Some]
    by (auto simp: copy_to_def step_ok_def stack_inv_def outs_valid_def split: sum.splits)
qed

lemma pop_ok:
  assumes inv: "stack_inv answer ctx small st" "frames st = f # fs" and e: "scan_pos f \<ge> region_end f"
  shows "step_ok answer ctx small st (pop_frame ctx st f fs)"
proof -
  have rec: "expand_rec ctx (scan_pos f) (region_end f) (out_text f) = Inr (out_text f)"
    using e by (subst expand_rec_step) simp
  show ?thesis
  proof (cases fs)
    case Nil
    then show ?thesis using rec inv(2) by (simp add: pop_frame_def step_ok_def)
  next
    case (Cons g gs)
    then obtain count at en where g: "pending g = Some (count, at, en)"
      using inv by (auto simp: stack_inv_def)
    show ?thesis
    proof (cases "out_buffer st f = None \<or> out_text f \<noteq> [] \<and> out_buffer st g = None")
      case True
      then show ?thesis
        using dangling [OF inv(1), of f] dangling [OF inv(1), of g] inv(2) Cons g out_buffer_Some [of st f]
        by (auto simp: pop_frame_def step_ok_def split: option.splits)
    next
      case False
      then have f: "out_buffer st f = Some (out_text f)" using out_buffer_Some [of st f] by auto
      show ?thesis
        using False f inv Cons g rec
        by (auto simp: pop_frame_def step_ok_def stack_inv_def outs_valid_def split: sum.splits)
    qed
  qed
qed

lemma push_ok:
  assumes inv: "stack_inv answer ctx small st" "frames st = f # fs"
    and c: "scan_pos f < region_end f" "at_directive (full_src ctx) (scan_pos f) (region_end f) ''@repeat''"
  shows "step_ok answer ctx small st (push_repeat answer ctx st f fs)"
proof (cases "parse_repeat ctx (scan_pos f) (region_end f)")
  case (Inl err)
  then have "expand_rec ctx (scan_pos f) (region_end f) (out_text f) = Inl err" using c by (subst expand_rec_step) simp
  then show ?thesis using Inl inv(2) by (simp add: push_repeat_def step_ok_def)
next
  case (Inr r)
  obtain count body en where r: "r = (count, body, en)" by (metis prod_cases3)
  let ?src = "full_src ctx" and ?e = "region_end f" and ?p = "scan_pos f"
  let ?g = "f\<lparr>pending := Some (count, ?p, en)\<rparr>"
  let ?child = "\<lparr>region_end = en, scan_pos = body, out_text = [], owns_out = True, out_array = 0, pending = None\<rparr>"
  have depth: "repeat_depth ctx ?p ?e = max (Suc (repeat_depth ctx body en)) (repeat_depth ctx (after_end ?src en ?e) ?e)"
    using c Inr r by (subst repeat_depth.simps) simp
  have rec: "and_then (expand_rec ctx ?p ?e (out_text f)) (resume ctx fs) = and_then (expand_rec ctx body en []) (resume ctx (?g # fs))"
    using c Inr r by (subst expand_rec_step, cases "expand_rec ctx body en []") (simp_all add: and_then_assoc)
  have fits: "small \<Longrightarrow> Suc (length fs) < stack_cap st" using inv depth by (auto simp: stack_inv_def)
  show ?thesis
  proof (cases "repeat_frame_stack_push answer (st\<lparr>frames := ?g # fs\<rparr>) ?child")
    case None
    then have "\<not> small \<and> (\<exists>n. answer n = REALLOC_FAILS)"
      using fits by (auto simp: repeat_frame_stack_push_def Let_def split: if_splits ReallocAnswer.splits)
    then show ?thesis using Inr r None by (auto simp: push_repeat_def step_ok_def)
  next
    case (Some st')
    have fr: "frames st' = ?child\<lparr>out_array := stack_array st'\<rparr> # ?g # fs" using push_frames [OF Some] by simp
    have cap: "8 \<le> stack_cap st'"
      using Some inv(1) by (auto simp: repeat_frame_stack_push_def Let_def stack_inv_def split: if_splits option.splits ReallocAnswer.splits)
    have arr: "stack_array st' = stack_array st" if "small \<or> (\<forall>n. answer n \<noteq> REALLOC_MOVES)"
      using Some that fits by (auto simp: repeat_frame_stack_push_def Let_def split: if_splits option.splits ReallocAnswer.splits)
    have "outs_valid st'" if "small \<or> (\<forall>n. answer n \<noteq> REALLOC_MOVES)"
      using inv arr [OF that] that fr by (auto simp: stack_inv_def outs_valid_def out_buffer_def split: if_splits)
    then show ?thesis
      using Inr r Some fr cap inv depth rec by (auto simp: push_repeat_def step_ok_def stack_inv_def)
  qed
qed

lemma step_keeps:
  assumes "stack_inv answer ctx small st" "frames st = f # fs"
  shows "step_ok answer ctx small st (expand_step answer ctx st f fs)"
  using copy_ok [OF assms] pop_ok [OF assms] push_ok [OF assms] by (simp add: expand_step_eq)

text \<open>The whole loop.\<close>

definition run_ok :: "(nat \<Rightarrow> ReallocAnswer) \<Rightarrow> RepeatExpandContext \<Rightarrow> bool \<Rightarrow> RepeatError + string \<Rightarrow> (RepeatError + string) option \<Rightarrow> bool" where
  "run_ok answer ctx small meaning r \<longleftrightarrow> (case r of
     Some x \<Rightarrow> x = meaning \<or> \<not> small \<and> (\<exists>at n. x = Inl (report_repeat_rule ctx at RPT_INTERNAL) \<and> answer n = REALLOC_FAILS)
   | None \<Rightarrow> \<not> small \<and> (\<exists>n. answer n = REALLOC_MOVES))"

lemma expand_loop_ok:
  "stack_inv answer ctx small st \<Longrightarrow> run_ok answer ctx small (stack_meaning ctx (frames st)) (expand_loop answer ctx st)"
proof (induction answer ctx st rule: expand_loop.induct)
  case (1 answer ctx st)
  show ?case
  proof (cases "frames st")
    case Nil
    then show ?thesis by (subst expand_loop.simps) (simp add: run_ok_def)
  next
    case (Cons f fs)
    show ?thesis
      using step_keeps [OF "1.prems" Cons] "1.IH" [OF Cons] Cons
      by (subst expand_loop.simps) (auto simp: step_ok_def run_ok_def split: expand_outcome.splits option.splits)
  qed
qed

lemma expand_region_ok:
  assumes "answer 8 \<noteq> REALLOC_FAILS"
  shows "run_ok answer ctx (repeat_depth ctx p e \<le> 7) (expand_rec ctx p e []) (expand_region answer p e ctx)"
proof -
  let ?root = "\<lparr>region_end = e, scan_pos = p, out_text = [], owns_out = False, out_array = 0, pending = None\<rparr>"
  obtain st where st: "repeat_frame_stack_push answer \<lparr>frames = [], stack_cap = 0, stack_array = 0\<rparr> ?root = Some st"
    using assms by (cases "answer 8") (auto simp: repeat_frame_stack_push_def)
  have fr: "frames st = [?root\<lparr>out_array := stack_array st\<rparr>]" using push_frames [OF st] by simp
  have "stack_cap st = 8" using st by (auto simp: repeat_frame_stack_push_def split: ReallocAnswer.splits)
  then have "stack_inv answer ctx (repeat_depth ctx p e \<le> 7) st" using fr by (simp add: stack_inv_def outs_valid_def out_buffer_def)
  from expand_loop_ok [OF this] show ?thesis
    using st fr by (cases "expand_rec ctx p e []") (simp_all add: expand_region_def)
qed

section \<open>The text that is meant\<close>

text \<open>A body with every standalone \<open>IDX\<close> at or after position \<open>p\<close> replaced by the index.\<close>

function instantiate :: "string \<Rightarrow> nat \<Rightarrow> nat \<Rightarrow> string" where
  "instantiate body i p =
     (if p \<ge> length body then []
      else if p + 3 \<le> length body \<and> idx_at body p then idx_text i @ instantiate body i (p + 3)
      else body ! p # instantiate body i (Suc p))"
  by pat_completeness auto

termination
  by (relation "measure (\<lambda>(body, i, p). length body - p)") auto

text \<open>The region with every repeat unrolled; where a directive is malformed the text ends.\<close>

function unrolled :: "RepeatExpandContext \<Rightarrow> nat \<Rightarrow> nat \<Rightarrow> string" where
  "unrolled ctx p e =
     (let src = full_src ctx
      in if p \<ge> e then []
         else if at_directive src p e ''@repeat''
         then (case parse_repeat ctx p e of
                 Inl err \<Rightarrow> []
               | Inr (count, body, en) \<Rightarrow>
                   concat (map (\<lambda>i. instantiate (unrolled ctx body en) i 0) [0..<count]) @
                   unrolled ctx (after_end src en e) e)
         else slice_text src p (copy_target src p e) @ unrolled ctx (copy_target src p e) e)"
  by pat_completeness auto

termination
proof (relation "measure (\<lambda>(ctx, p, e). e - p)", goal_cases)
  case (2 ctx p e src y x z body en)
  then show ?case using parse_repeat_bounds [of ctx p e x body en] by auto
next
  case (3 ctx p e src y x z body en)
  then show ?case using parse_repeat_bounds [of ctx p e x body en] after_end_ge [of en "full_src ctx" e] by auto
next
  case (4 ctx p e src)
  then show ?case using copy_target_gt [of p e "full_src ctx"] by auto
qed simp

declare instantiate.simps [simp del] unrolled.simps [simp del]

lemma sb_append_InrD:
  assumes "sb_append_limited sb s ctx at = Inr t"
  shows "t = sb @ s" "t = sb \<or> int (length t) \<le> repeat_max_bytes (limits ctx)"
  using assms by (auto simp: sb_append_limited_def split: if_splits)

lemma slice_text_Suc: "p < q \<Longrightarrow> q \<le> length src \<Longrightarrow> slice_text src p q = src ! p # slice_text src (Suc p) q"
  by (simp add: slice_text_def Cons_nth_drop_Suc [symmetric] take_Cons' )

lemma instantiate_skip:
  assumes "p \<le> s" "s \<le> length body" "\<And>r. p \<le> r \<Longrightarrow> r < s \<Longrightarrow> \<not> (r + 3 \<le> length body \<and> idx_at body r)"
  shows "instantiate body i p = slice_text body p s @ instantiate body i s"
  using assms
proof (induction "s - p" arbitrary: p)
  case 0
  then show ?case by (simp add: slice_text_def)
next
  case (Suc n)
  then have p: "p < s" by simp
  have "instantiate body i p = body ! p # instantiate body i (Suc p)"
    using Suc.prems(2,3) p by (subst instantiate.simps) auto
  also have "instantiate body i (Suc p) = slice_text body (Suc p) s @ instantiate body i s"
    using Suc p by (intro Suc.hyps(1)) auto
  finally show ?case using slice_text_Suc [OF p Suc.prems(2)] by simp
qed

lemma find_idx_first:
  "find_idx body p = Some s \<Longrightarrow> idx_at body s \<and> (\<forall>r. p \<le> r \<longrightarrow> r < s \<longrightarrow> \<not> idx_at body r)"
  "find_idx body p = None \<Longrightarrow> p \<le> r \<Longrightarrow> r + 3 \<le> length body \<Longrightarrow> \<not> idx_at body r"
proof -
  assume a: "find_idx body p = Some s"
  then obtain k where k: "k < length [p..<length body - 2]" "idx_at body ([p..<length body - 2] ! k)"
    "s = [p..<length body - 2] ! k" "\<forall>j < k. \<not> idx_at body ([p..<length body - 2] ! j)"
    by (auto simp: find_idx_def find_Some_iff)
  have "\<not> idx_at body r" if "p \<le> r" "r < s" for r
  proof -
    have "r - p < k" using k(1,3) that by simp
    then show ?thesis using k(4) [rule_format, of "r - p"] k(1) that by simp
  qed
  then show "idx_at body s \<and> (\<forall>r. p \<le> r \<longrightarrow> r < s \<longrightarrow> \<not> idx_at body r)" using k(2,3) by simp
next
  assume "find_idx body p = None" "p \<le> r" "r + 3 \<le> length body"
  then show "\<not> idx_at body r" by (auto simp: find_idx_def find_None_iff)
qed

lemma substitute_from_meaning:
  "substitute_from sb body p idx ctx at = Inr t \<Longrightarrow>
     t = sb @ instantiate body idx p \<and> (t = sb \<or> int (length t) \<le> repeat_max_bytes (limits ctx))"
proof (induction sb body p idx ctx at rule: substitute_from.induct)
  case (1 sb body p idx ctx at)
  show ?case
  proof (cases "p < length body")
    case False
    then show ?thesis using "1.prems" by (simp add: substitute_from.simps [of sb] instantiate.simps [of body])
  next
    case True
    show ?thesis
    proof (cases "find_idx body p")
      case None
      have "instantiate body idx p = slice_text body p (length body) @ instantiate body idx (length body)"
        using True find_idx_first(2) [OF None] by (intro instantiate_skip) auto
      then have "instantiate body idx p = slice_text body p (length body)" by (simp add: instantiate.simps [of body _ "length body"])
      then show ?thesis
        using "1.prems" True None sb_append_InrD [of sb _ ctx at t] by (simp add: substitute_from.simps [of sb])
    next
      case (Some f)
      obtain sb1 sb2 where a: "sb_append_limited sb (slice_text body p f) ctx at = Inr sb1"
        "sb_append_limited sb1 (idx_text idx) ctx at = Inr sb2" "substitute_from sb2 body (f + 3) idx ctx at = Inr t"
        using "1.prems" True Some by (auto simp: substitute_from.simps [of sb] and_then_Inr)
      note b = find_idx_bounds [OF Some]
      have "instantiate body idx p = slice_text body p f @ instantiate body idx f"
        using b find_idx_first(1) [OF Some] by (intro instantiate_skip) auto
      also have "instantiate body idx f = idx_text idx @ instantiate body idx (f + 3)"
        using b find_idx_first(1) [OF Some] by (subst instantiate.simps) simp
      finally show ?thesis
        using "1.IH" [OF True Some a] sb_append_InrD [OF a(1)] sb_append_InrD [OF a(2)] by auto
    qed
  qed
qed

lemma repeat_copies_meaning:
  "repeat_copies n i sb body ctx at = Inr t \<Longrightarrow>
     t = sb @ concat (map (\<lambda>j. instantiate body j 0) [i..<i + n]) \<and> (t = sb \<or> int (length t) \<le> repeat_max_bytes (limits ctx))"
proof (induction n i sb body ctx at rule: repeat_copies.induct)
  case (2 n i sb body ctx at)
  then obtain sb1 where "substitute_idx sb body i ctx at = Inr sb1" "repeat_copies n (Suc i) sb1 body ctx at = Inr t"
    by (auto simp: and_then_Inr)
  note sub = substitute_from_meaning [OF this(1) [unfolded substitute_idx_def]] and IH = "2.IH" [OF this]
  have "[i..<i + Suc n] = i # [Suc i..<Suc i + n]" by (simp add: upt_conv_Cons)
  then have "t = sb @ concat (map (\<lambda>j. instantiate body j 0) [i..<i + Suc n])" using sub IH by simp
  moreover have "t = sb \<or> int (length t) \<le> repeat_max_bytes (limits ctx)" using sub IH by metis
  ultimately show ?case by blast
qed simp

lemma expand_rec_meaning:
  "expand_rec ctx p e out = Inr t \<Longrightarrow>
     t = out @ unrolled ctx p e \<and> (t = out \<or> int (length t) \<le> repeat_max_bytes (limits ctx))"
proof (induction "e - p" arbitrary: p e out t rule: less_induct)
  case less
  define q where "q = copy_target (full_src ctx) p e"
  consider "p \<ge> e" | "p < e" "\<not> at_directive (full_src ctx) p e ''@repeat''" | "p < e" "at_directive (full_src ctx) p e ''@repeat''"
    by linarith
  then show ?case
  proof cases
    case 1
    then show ?thesis using less.prems by (simp add: expand_rec_step [of ctx p] unrolled.simps [of ctx p])
  next
    case 2
    then obtain out1 where o: "sb_append_limited out (slice_text (full_src ctx) p q) ctx p = Inr out1" "expand_rec ctx q e out1 = Inr t"
      using less.prems by (auto simp: expand_rec_step [of ctx p] and_then_Inr q_def)
    have "p < q" using copy_target_gt [OF 2(1)] by (simp add: q_def)
    then have "e - q < e - p" using 2(1) by simp
    then show ?thesis
      using less.hyps [OF _ o(2)] sb_append_InrD [OF o(1)] 2
      by (auto simp: unrolled.simps [of ctx p] Let_def q_def [symmetric])
  next
    case 3
    then obtain count body en child out1 where r: "parse_repeat ctx p e = Inr (count, body, en)"
      "expand_rec ctx body en [] = Inr child" "repeat_copies count 0 out child ctx p = Inr out1"
      "expand_rec ctx (after_end (full_src ctx) en e) e out1 = Inr t"
      using less.prems by (auto simp: expand_rec_step [of ctx p] and_then_Inr split: prod.splits)
    note b = parse_repeat_bounds [OF r(1)]
    have "en - body < e - p" using b by simp
    then have c: "child = unrolled ctx body en" using less.hyps [OF _ r(2)] by simp
    have "e - after_end (full_src ctx) en e < e - p" using b after_end_ge [of en "full_src ctx" e] by simp
    then show ?thesis
      using less.hyps [OF _ r(4)] repeat_copies_meaning [OF r(3)] 3 r(1)
      by (auto simp: unrolled.simps [of ctx p] c)
  qed
qed


section \<open>Text without directives\<close>

lemma scan_to_le: "p \<le> e \<Longrightarrow> scan_to P src p e \<le> e"
  by (rule scan_to_bounds(2))

lemma copy_target_le:
  assumes "p < e"
  shows "copy_target src p e \<le> e"
proof -
  have "string_end src p e \<le> e"
    using assms string_body_bounds(2) [of "Suc p" e src] by (auto simp: string_end_def Let_def)
  then show ?thesis using assms comment_advances(2) by (auto simp: copy_target_def)
qed

lemma slice_text_append: "p \<le> q \<Longrightarrow> q \<le> e \<Longrightarrow> slice_text src p q @ slice_text src q e = slice_text src p e"
proof -
  assume a: "p \<le> q" "q \<le> e"
  have "take (e - p) (drop p src) = take (q - p) (drop p src) @ take (e - q) (drop (q - p) (drop p src))"
    using a by (metis add.commute le_add_diff_inverse le_diff_conv diff_add_assoc2 Nat.diff_diff_right take_add diff_diff_left ordered_cancel_comm_monoid_diff_class.add_diff_inverse add_diff_cancel_left')
  then show ?thesis using a by (simp add: slice_text_def)
qed

lemma unrolled_plain:
  assumes "\<And>q. p \<le> q \<Longrightarrow> \<not> at_directive (full_src ctx) q e ''@repeat''" "p \<le> e"
  shows "unrolled ctx p e = slice_text (full_src ctx) p e"
  using assms
proof (induction "e - p" arbitrary: p rule: less_induct)
  case less
  show ?case
  proof (cases "p = e")
    case True
    then show ?thesis by (simp add: unrolled.simps slice_text_def)
  next
    case False
    then have p: "p < e" using less.prems by simp
    define q where "q = copy_target (full_src ctx) p e"
    have q: "p < q" "q \<le> e" using p copy_target_gt copy_target_le by (simp_all add: q_def)
    have "unrolled ctx q e = slice_text (full_src ctx) q e" by (rule less.hyps) (use q p less.prems in auto)
    then show ?thesis
      using p q less.prems(1) [of p] slice_text_append [of p q e "full_src ctx"]
      by (subst unrolled.simps) (simp add: Let_def q_def [symmetric])
  qed
qed

lemma no_repeat_no_directive:
  assumes "\<not> contains_repeat src"
  shows "\<not> at_directive src p (length src) ''@repeat''"
proof
  assume d: "at_directive src p (length src) ''@repeat''"
  then have "p + 7 \<le> length src" "take 7 (drop p src) = ''@repeat''" by (auto simp: at_directive_def matches_directive_def eval_nat_numeral)
  then show False using assms by (auto simp: contains_repeat_def list_ex_iff intro!: bexI [of _ p])
qed

lemma run_region:
  "expand_region answer start src_end ctx = Some (expand_rec ctx start src_end []) \<or>
   (\<exists>at n. expand_region answer start src_end ctx = Some (Inl (report_repeat_rule ctx at RPT_INTERNAL)) \<and>
      answer n = REALLOC_FAILS \<and> (n = 8 \<or> 7 < repeat_depth ctx start src_end)) \<or>
   (expand_region answer start src_end ctx = None \<and> 7 < repeat_depth ctx start src_end \<and> (\<exists>n. answer n = REALLOC_MOVES))"
proof (cases "answer 8 = REALLOC_FAILS")
  case True
  then have "expand_region answer start src_end ctx = Some (Inl (report_repeat_rule ctx start RPT_INTERNAL))"
    by (simp add: expand_region_def repeat_frame_stack_push_def)
  then show ?thesis using True by auto
next
  case False
  show ?thesis using expand_region_ok [of answer ctx start src_end, OF False] by (auto simp: run_ok_def split: option.splits)
qed

section \<open>Properties\<close>

text \<open>
  C25: the explicit stack of \<open>expand_region\<close> is recursion over the nesting of the directives. For
  every region, every limits and every allocator the machine returns what \<open>expand_rec\<close> returns,
  which expands the body of a repeat by a recursive call and then appends one instance per
  iteration: the same text, or the same diagnostic at the same line. There are two exceptions.
  When an allocation of the stack is refused, the result may be RPT_INTERNAL; and when
  \<open>realloc\<close> moves the array of frames, which takes eight nested repeats, the behaviour may be
  undefined (\<open>None\<close>): a waiting frame appends through a pointer into the freed array. With at most
  seven nested repeats and the first allocation granted, neither happens.
\<close>

theorem expand_region_is_recursion:
  "expand_region answer start src_end ctx = Some (expand_rec ctx start src_end []) \<or>
   (\<exists>at n. expand_region answer start src_end ctx = Some (Inl (report_repeat_rule ctx at RPT_INTERNAL)) \<and>
      answer n = REALLOC_FAILS \<and> (n = 8 \<or> 7 < repeat_depth ctx start src_end)) \<or>
   (expand_region answer start src_end ctx = None \<and> 7 < repeat_depth ctx start src_end \<and> (\<exists>n. answer n = REALLOC_MOVES))"
  by (rule run_region)


text \<open>A nested repeat, and what the limits reject.\<close>

lemma repeat_expand_examples:
  "jz_repeat_expand (\<lambda>_. REALLOC_MOVES) ''@repeat 2 a_IDX IDX;@end'' None None = Some (Some ''a_IDX 0;a_IDX 1;'', None)"
  "jz_repeat_expand (\<lambda>_. REALLOC_MOVES) ''@repeat 2 <IDX @repeat 2 IDX@end>@end'' (Some []) None = Some (Some ''<0 01><1 01>'', Some [])"
  "jz_repeat_expand (\<lambda>_. REALLOC_MOVES) ''@repeat 3 x@end'' (Some []) (Some \<lparr>repeat_max_count = 2, repeat_max_bytes = 10\<rparr>) =
     Some (None, Some [(RPT_COUNT_LIMIT_EXCEEDED, 1)])"
  by code_simp+

text \<open>Block comments are not recognised: a directive named in one is obeyed.\<close>

lemma block_comment_expanded:
  "jz_repeat_expand (\<lambda>_. REALLOC_MOVES) ''/* @repeat blocks are expanded */'' (Some []) None = Some (None, Some [(RPT_COUNT_INVALID, 1)])"
  by code_simp

text \<open>
  The root frame and seven nested ones fill the array. The push for the eighth repeat moves it,
  and seven pointers are left behind: undefined, although the text is harmless.
\<close>

definition nested_repeats :: "nat \<Rightarrow> string" where
  "nested_repeats n = concat (replicate n ''@repeat 1'') @ ''x'' @ concat (replicate n ''@end'')"

lemma ninth_frame_dangles:
  "jz_repeat_expand (\<lambda>_. REALLOC_MOVES) (nested_repeats 8) None None = None"
  "jz_repeat_expand (\<lambda>_. REALLOC_IN_PLACE) (nested_repeats 8) None None = Some (Some ''x'', None)"
  by code_simp+

end
