(* ===== verification/Sem_Literal_Props.thy ===== *)
theory Sem_Literal_Props
  imports Sem_Literal_Decode
begin

text \<open>
  The properties of literals: the analysis accepts what fits, and a literal the lexer accepted is
  typed, decoded and evaluated as the number it denotes.
\<close>

section \<open>The analysis\<close>

text \<open>C22. The analysis of a literal with at least one digit and fewer than 2^30 characters, only valid digits of its base and a
  declared width above 0, and, if it is decimal, with a value below 2^64 (above, whatever does not
  fit is accepted, see \<open>decimal_beyond_64_bits\<close>), accepts it if and only if it fits the declared
  width: a binary literal if it has no more digits, a decimal or hexadecimal one if its value
  needs no more bits. The intrinsic width it reports is, for a binary literal, the number of its
  digits and otherwise the least positive number of bits that holds the value; it reports no
  extension exactly when that is the declared width, and decimal and hexadecimal literals are
  otherwise extended with zeros.\<close>

theorem literal_analyze_correct:
  assumes "validate_digits base s = None" "0 < digit_count s" "4 * length s < 2 ^ 32" "0 < w"
    "base = JZ_NUM_BASE_DEC \<longrightarrow> literal_value base s < 2 ^ 64"
  shows "case jz_literal_analyze base s w of
           None \<Rightarrow> \<not> fits base s (unat w)
         | Some (i, ext) \<Rightarrow> fits base s (unat w) \<and> intrinsic_width base s (unat i) \<and>
             (ext = JZ_LITERAL_EXT_NONE \<longleftrightarrow> i = w) \<and>
             (base \<noteq> JZ_NUM_BASE_BIN \<longrightarrow> ext \<in> {JZ_LITERAL_EXT_NONE, JZ_LITERAL_EXT_ZERO})"
  using analyze_correct [OF assms(1-4)] assms(5) by (auto split: option.splits)

theorem literal_analyze_correct_witness:
  "jz_literal_analyze JZ_NUM_BASE_HEX ''1_fF'' 8 = None \<and> \<not> fits JZ_NUM_BASE_HEX ''1_fF'' 8"
proof -
  have r: "jz_literal_analyze JZ_NUM_BASE_HEX ''1_fF'' 8 = None" by code_simp
  show ?thesis using literal_analyze_correct [of JZ_NUM_BASE_HEX "''1_fF''" 8] r
    by (simp add: is_hex_digit_def isdigit_def word_less_nat_alt)
qed

section \<open>From the text to the value\<close>


definition demo_hex :: string where
  "demo_hex = ''8'' @ quote # CHR ''h'' # ''F_0''"


section \<open>What the checks let through\<close>

text \<open>A decimal value of 2^64 or more counts as 64 bits wide, whatever it is: it is accepted at
  every width from 64 on, and its digits are accumulated modulo 2^64.\<close>

lemma decimal_beyond_64_bits:
  "infer_literal_type (''128'' @ quote # CHR ''d'' # ''18446744073709551617'') = (jz_type_scalar 128 False, None)"
  "ir_decode_sized_literal eval_const (''128'' @ quote # CHR ''d'' # ''18446744073709551617'') =
     Some \<lparr>lit_words = [1, 0, 0, 0], lit_width = 128, lit_is_z = False\<rparr>"
  "literal_value JZ_NUM_BASE_DEC ''18446744073709551617'' = 2 ^ 64 + 1"
proof -
  have a: "jz_literal_analyze JZ_NUM_BASE_DEC ''18446744073709551617'' 128 = Some (64, JZ_LITERAL_EXT_ZERO)"
    "parse_simple_positive_int ''128'' = Some 128" "decode_dec 0 ''18446744073709551617'' = Some 1"
    by code_simp+
  then show "infer_literal_type (''128'' @ quote # CHR ''d'' # ''18446744073709551617'') = (jz_type_scalar 128 False, None)"
    by (simp add: infer_literal_type_def numeric_base_def Let_def)
  show "ir_decode_sized_literal eval_const (''128'' @ quote # CHR ''d'' # ''18446744073709551617'') =
     Some \<lparr>lit_words = [1, 0, 0, 0], lit_width = 128, lit_is_z = False\<rparr>"
    using a by (simp add: ir_decode_sized_literal_def numeric_base_def Let_def literal_width_def decode_digits_def replicate_4
        isspace_def sint_uint)
  show "literal_value JZ_NUM_BASE_DEC ''18446744073709551617'' = 2 ^ 64 + 1"
    by (simp add: digit_of_def radix_def digit_value_def)
qed

text \<open>The buffer for the digits holds 255 of them. A binary literal with 256 digits loses its last
  one, so that all-ones of 256 bits becomes 2^255 - 1.\<close>

lemma ones_value: "literal_value JZ_NUM_BASE_BIN (replicate n (CHR ''1'')) = 2 ^ n - 1"
  "digit_count (replicate n (CHR ''1'')) = n" "validate_digits JZ_NUM_BASE_BIN (replicate n (CHR ''1'')) = None"
  by (induction n) (simp_all add: digit_of_def radix_def)

lemma long_binary_truncated:
  "\<exists>l. ir_decode_sized_literal eval_const (''256'' @ quote # CHR ''b'' # replicate 256 (CHR ''1'')) = Some l \<and>
       lit_width l = 256 \<and> wval (lit_words l) = 2 ^ 255 - 1"
  "infer_literal_type (''256'' @ quote # CHR ''b'' # replicate 256 (CHR ''1'')) = (jz_type_scalar 256 False, None)"
proof -
  let ?o = "\<lambda>n. replicate n (CHR ''1'')"
  have w: "parse_simple_positive_int ''256'' = Some 256" by code_simp
  have a: "jz_literal_analyze JZ_NUM_BASE_BIN (?o n) 256 \<noteq> None" if "0 < n" "n \<le> 256" for n
    using analyze_correct(1) [OF ones_value(3), of n 256] that by (simp add: ones_value fits_def word_less_nat_alt)
  have r: "rev (dropWhile isspace (rev (?o 256))) = ?o 256"
    by (rule valid_digits_trim [OF ones_value(3)]) simp_all
  have c: "count_lit_digits (?o 255) = 255" using no_blanks [OF ones_value(3), of 255] by (simp only: ones_value(2)) simp
  obtain st where st: "decode_digits JZ_NUM_BASE_BIN (Some 256) (?o 255) (?o 256) = Some st" "length (ls_words st) = 4"
      "wval (ls_words st) = 2 ^ 255 - 1"
    using decode_bin_value [OF ones_value(3), of lit_scan_init 255]
    by (simp only: decode_digits_def c ones_value decoded_def) (simp add: lit_scan_init_def)
  have t: "take 255 (?o 256) = ?o 255" by simp
  show "\<exists>l. ir_decode_sized_literal eval_const (''256'' @ quote # CHR ''b'' # ?o 256) = Some l \<and>
       lit_width l = 256 \<and> wval (lit_words l) = 2 ^ 255 - 1"
    using a [of 255] w st
    by (simp only: ir_decode_sized_literal_def Let_def)
       (simp add: numeric_base_def literal_width_def r t sint_uint isspace_def del: replicate.simps take_replicate)
  show "infer_literal_type (''256'' @ quote # CHR ''b'' # ?o 256) = (jz_type_scalar 256 False, None)"
    using a [of 256] w by (auto simp: infer_literal_type_def numeric_base_def Let_def)
qed

end
