(* ===== verification/Comb_Graph.thy ===== *)
theory Comb_Graph
  imports Prelude
begin

text \<open>
  The graph searches of the combinational loop check (sem/driver_comb.c): a set of edges between
  nets is packed into an array of neighbours, and two iterative depth-first searches with an
  explicit stack decide whether there is a cycle and whether one net reaches another.
\<close>

type_synonym JZCombEdge = "nat \<times> nat"

section \<open>The array of neighbours\<close>

text \<open>The neighbours of net \<open>v\<close> are the entries from \<open>adj_offset ! v\<close> up to \<open>adj_offset ! (v + 1)\<close> of \<open>adj_dst\<close>.\<close>

definition adj_counts :: "JZCombEdge list \<Rightarrow> nat \<Rightarrow> nat list" where
  "adj_counts edges net_count =
     fold (\<lambda>(s, d) c. if s < net_count then c[s := c ! s + 1] else c) edges (replicate net_count 0)"

fun adj_offsets :: "nat \<Rightarrow> nat list \<Rightarrow> nat list" where
  "adj_offsets acc [] = [acc]"
| "adj_offsets acc (c # cs) = acc # adj_offsets (acc + c) cs"

definition adj_fill :: "JZCombEdge list \<Rightarrow> nat \<Rightarrow> nat list \<Rightarrow> nat list \<times> nat list" where
  "adj_fill edges net_count adj_offset =
     fold (\<lambda>(s, d) (adj_dst, adj_count).
             if s < net_count then (adj_dst[adj_offset ! s + adj_count ! s := d], adj_count[s := adj_count ! s + 1])
             else (adj_dst, adj_count))
       edges (replicate (length edges) 0, replicate net_count 0)"

definition adj_row :: "JZCombEdge list \<Rightarrow> nat \<Rightarrow> nat \<Rightarrow> nat list" where
  "adj_row edges net_count =
     (let adj_offset = adj_offsets 0 (adj_counts edges net_count);
          adj_dst = fst (adj_fill edges net_count adj_offset)
      in (\<lambda>v. map ((!) adj_dst) [adj_offset ! v ..< adj_offset ! (v + 1)]))"

section \<open>The search for a cycle\<close>

datatype Scan = FOUND_GRAY | PUSH nat | ALL_DONE

text \<open>The colours: 0 white, 1 gray (on the stack), 2 black.\<close>

fun scan_row :: "nat list \<Rightarrow> nat list \<Rightarrow> Scan" where
  "scan_row color [] = ALL_DONE"
| "scan_row color (w # ws) =
     (if w \<ge> length color then scan_row color ws
      else if color ! w = 1 then FOUND_GRAY
      else if color ! w = 0 then PUSH w
      else scan_row color ws)"

lemma scan_row_PUSH: "scan_row color ws = PUSH w \<Longrightarrow> w \<in> set ws \<and> w < length color \<and> color ! w = 0"
  by (induction ws) (auto split: if_splits)

lemma count_list_update_0: "w < length xs \<Longrightarrow> xs ! w = 0 \<Longrightarrow> a \<noteq> 0 \<Longrightarrow> count_list xs 0 = Suc (count_list (xs[w := a]) (0 :: nat))"
proof (induction xs arbitrary: w)
  case (Cons x xs)
  then show ?case by (cases w) auto
qed simp

lemma count_list_update_le: "a \<noteq> 0 \<Longrightarrow> count_list (xs[v := a]) (0 :: nat) \<le> count_list xs 0"
proof (induction xs arbitrary: v)
  case (Cons x xs)
  then show ?case by (cases v) (auto intro: le_SucI)
qed simp

text \<open>The \<open>while\<close> loop; the head of the list is the top of the stack.\<close>

function dfs_cycle :: "(nat \<Rightarrow> nat list) \<Rightarrow> nat list \<Rightarrow> nat list \<Rightarrow> bool \<times> nat list" where
  "dfs_cycle row color [] = (False, color)"
| "dfs_cycle row color (v # stack) =
     (case scan_row color (row v) of
        FOUND_GRAY \<Rightarrow> (True, color)
      | PUSH w \<Rightarrow> dfs_cycle row (color[w := 1]) (w # v # stack)
      | ALL_DONE \<Rightarrow> dfs_cycle row (color[v := 2]) stack)"
  by pat_completeness auto
termination
proof (relation "measure (\<lambda>(row, color, stack). 2 * count_list color 0 + length stack)", goal_cases)
  case (2 row color v stack w)
  then have "w < length color" "color ! w = 0" using scan_row_PUSH by metis+
  then show ?case using count_list_update_0 [of w color 1] by simp
next
  case (3 row color v stack)
  then show ?case using count_list_update_le [of 2 color v] by simp
qed simp

fun dfs_starts :: "(nat \<Rightarrow> nat list) \<Rightarrow> nat list \<Rightarrow> nat list \<Rightarrow> bool" where
  "dfs_starts row color [] = False"
| "dfs_starts row color (start # starts) =
     (if color ! start \<noteq> 0 then dfs_starts row color starts
      else if row start = [] then dfs_starts row (color[start := 2]) starts
      else let (has_cycle, color') = dfs_cycle row (color[start := 1]) [start]
           in if has_cycle then True else dfs_starts row color' starts)"

definition sem_comb_edgeset_has_cycle :: "JZCombEdge list \<Rightarrow> nat \<Rightarrow> bool" where
  "sem_comb_edgeset_has_cycle edges net_count =
     (if edges = [] \<or> net_count = 0 then False
      else dfs_starts (adj_row edges net_count) (replicate net_count 0) [0 ..< net_count])"

section \<open>The search for a net\<close>

text \<open>One row: stop at the destination, push what has not been visited.\<close>

fun visit_row :: "nat \<Rightarrow> nat list \<Rightarrow> nat list \<Rightarrow> nat list \<Rightarrow> bool \<times> nat list \<times> nat list" where
  "visit_row dst [] visited stack = (False, visited, stack)"
| "visit_row dst (w # ws) visited stack =
     (if w \<ge> length visited then visit_row dst ws visited stack
      else if w = dst then (True, visited, stack)
      else if visited ! w = 0 then visit_row dst ws (visited[w := 1]) (w # stack)
      else visit_row dst ws visited stack)"

lemma visit_row_measure:
  "visit_row dst ws visited stack = (found, visited', stack') \<Longrightarrow>
     2 * count_list visited' 0 + length stack' \<le> 2 * count_list visited 0 + length stack"
proof (induction dst ws visited stack rule: visit_row.induct)
  case (2 dst w ws visited stack)
  then show ?case using count_list_update_0 [of w visited 1] by (auto split: if_splits)
qed simp

function dfs_reach :: "(nat \<Rightarrow> nat list) \<Rightarrow> nat \<Rightarrow> nat list \<Rightarrow> nat list \<Rightarrow> bool" where
  "dfs_reach row dst visited [] = False"
| "dfs_reach row dst visited (v # stack) =
     (case visit_row dst (row v) visited stack of
        (True, _) \<Rightarrow> True
      | (False, visited', stack') \<Rightarrow> dfs_reach row dst visited' stack')"
  by pat_completeness auto
termination
  by (relation "measure (\<lambda>(row, dst, visited, stack). 2 * count_list visited 0 + length stack)")
     (auto dest: visit_row_measure visit_row_measure [OF sym])

definition sem_comb_reachable_in_edgeset :: "JZCombEdge list \<Rightarrow> nat \<Rightarrow> nat \<Rightarrow> nat \<Rightarrow> bool" where
  "sem_comb_reachable_in_edgeset edges net_count src dst =
     (if edges = [] \<or> net_count = 0 \<or> src \<ge> net_count \<or> dst \<ge> net_count then False
      else let row = adj_row edges net_count
           in case visit_row dst (row src) (replicate net_count 0) [] of
                (True, _) \<Rightarrow> True
              | (False, visited, stack) \<Rightarrow> dfs_reach row dst visited stack)"

end
