(* ===== verification/Comb_Loop.thy ===== *)
theory Comb_Loop
  imports Comb_Graph Parse_Core Sem_Literal Realloc
begin

text \<open>
  The combinational loop check (sem/driver_comb.c): the walk over the statements of an
  ASYNCHRONOUS block with one set of edges per execution path, the union of the paths when there
  are more than 256, the summaries of the paths from the inputs to the outputs of instantiated
  modules with their cache, and the report. A declaration is named by its symbol; the net graph
  of a module (sem/driver_net.c) is given as the number of its nets and the net of each
  declaration. Allocations succeed.
\<close>

section \<open>Scopes and the nets of an expression\<close>

record JZModuleScope =
  scope_node :: JZASTNode
  module_symbols :: "JZSymbol list"
  net_count :: nat
  net_of :: "string \<Rightarrow> nat option"

definition decl_of_kind :: "JZModuleScope \<Rightarrow> JZSymbolKind set \<Rightarrow> string \<Rightarrow> string list" where
  "decl_of_kind sc kinds n =
     (case module_scope_lookup (module_symbols sc) n of
        None \<Rightarrow> []
      | Some s \<Rightarrow> if sym_kind s \<in> kinds then [sym_name s] else [])"

fun sem_comb_collect_targets_from_lhs :: "JZModuleScope \<Rightarrow> JZASTNode \<Rightarrow> string list" where
  "sem_comb_collect_targets_from_lhs sc (AST_NODE ty loc n tx bk cs) =
     (case ty of
        JZ_AST_EXPR_CONCAT \<Rightarrow> concat (map (sem_comb_collect_targets_from_lhs sc) cs)
      | JZ_AST_EXPR_SLICE \<Rightarrow>
          (case cs of
             base # _ \<Rightarrow>
               (case (node_type base, node_name base) of
                  (JZ_AST_EXPR_IDENTIFIER, Some b) \<Rightarrow> decl_of_kind sc {JZ_SYM_PORT, JZ_SYM_WIRE, JZ_SYM_REGISTER, JZ_SYM_LATCH} b
                | _ \<Rightarrow> [])
           | [] \<Rightarrow> [])
      | JZ_AST_EXPR_IDENTIFIER \<Rightarrow>
          (case n of Some m \<Rightarrow> decl_of_kind sc {JZ_SYM_PORT, JZ_SYM_WIRE, JZ_SYM_REGISTER} m | None \<Rightarrow> [])
      | _ \<Rightarrow> [])"

text \<open>The part of a qualified name before its first dot, if it fits the buffer of 256 bytes.\<close>

definition bus_port_name :: "string \<Rightarrow> string option" where
  "bus_port_name n =
     (let port = takeWhile (\<lambda>c. c \<noteq> CHR ''.'') n
      in if CHR ''.'' \<in> set n \<and> port \<noteq> [] \<and> length port < 256 then Some port else None)"

fun sem_comb_collect_sources_from_expr :: "JZModuleScope \<Rightarrow> JZASTNode \<Rightarrow> string list" where
  "sem_comb_collect_sources_from_expr sc (AST_NODE ty loc n tx bk cs) =
     (let decl = decl_of_kind sc {JZ_SYM_PORT, JZ_SYM_WIRE, JZ_SYM_REGISTER}
      in if ty = JZ_AST_EXPR_IDENTIFIER \<or> ty = JZ_AST_EXPR_BUS_ACCESS then (case n of Some m \<Rightarrow> decl m | None \<Rightarrow> [])
         else if ty = JZ_AST_EXPR_QUALIFIED_IDENTIFIER
         then (case Option.bind n bus_port_name of Some m \<Rightarrow> decl m | None \<Rightarrow> [])
         else if ty \<in> {JZ_AST_EXPR_SLICE, JZ_AST_EXPR_CONCAT, JZ_AST_EXPR_UNARY, JZ_AST_EXPR_BINARY, JZ_AST_EXPR_TERNARY, JZ_AST_EXPR_BUILTIN_CALL}
         then concat (map (sem_comb_collect_sources_from_expr sc) cs)
         else [])"

section \<open>The edges of an assignment\<close>

type_synonym CombPath = "JZCombEdge list"

definition is_alias_op :: "string \<Rightarrow> bool" where
  "is_alias_op oper \<longleftrightarrow> oper = ''ALIAS'' \<or> oper = ''ALIAS_Z'' \<or> oper = ''ALIAS_S''"

definition is_drive_op :: "string \<Rightarrow> bool" where
  "is_drive_op oper \<longleftrightarrow> take 5 oper = ''DRIVE''"

text \<open>The nets of the declarations that have one of the module's nets.\<close>

definition nets_of :: "JZModuleScope \<Rightarrow> string list \<Rightarrow> nat list" where
  "nets_of sc ds = filter (\<lambda>v. v < net_count sc) (List.map_filter (net_of sc) ds)"

fun assign_edges :: "JZModuleScope \<Rightarrow> JZASTNode \<Rightarrow> JZCombEdge list" where
  "assign_edges sc (AST_NODE ty loc n tx bk (lhs # rhs # cs)) =
     (let oper = (case bk of Some k \<Rightarrow> k | None \<Rightarrow> []);
          lhs_nets = nets_of sc (sem_comb_collect_targets_from_lhs sc lhs);
          rhs_nets = nets_of sc (sem_comb_collect_sources_from_expr sc rhs)
      in if is_alias_op oper then []
         else concat (map (\<lambda>l. map (\<lambda>r. if is_drive_op oper then (l, r) else (r, l)) rhs_nets) lhs_nets))"
| "assign_edges sc _ = []"

definition sem_comb_record_edges_for_assign :: "JZModuleScope \<Rightarrow> JZASTNode \<Rightarrow> CombPath list \<Rightarrow> CombPath list" where
  "sem_comb_record_edges_for_assign sc stmt paths = map (\<lambda>p. p @ assign_edges sc stmt) paths"

section \<open>Too many paths\<close>

text \<open>The set of seen edges is a bitmap with one bit per pair of nets.\<close>

definition bitmap_step :: "nat \<Rightarrow> JZCombEdge \<Rightarrow> CombPath \<times> 8 word list \<Rightarrow> CombPath \<times> 8 word list" where
  "bitmap_step n e st =
     (let (out, seen) = st; key = fst e * n + snd e
      in if bit (seen ! (key div 8)) (key mod 8) then (out, seen)
         else (out @ [e], seen[key div 8 := seen ! (key div 8) OR push_bit (key mod 8) 1]))"

definition dedup_bitmap :: "nat \<Rightarrow> CombPath \<Rightarrow> CombPath" where
  "dedup_bitmap n edges = fst (fold (bitmap_step n) edges ([], replicate ((n * n + 7) div 8) 0))"

definition dedup_scan :: "CombPath \<Rightarrow> CombPath" where
  "dedup_scan edges = fold (\<lambda>e out. if e \<in> set out then out else out @ [e]) edges []"

definition dedup_edges :: "CombPath \<Rightarrow> CombPath" where
  "dedup_edges edges =
     (let n = fold (\<lambda>(s, d) m. max (max m s) d) edges 0 + 1
      in if length edges \<le> 1 then edges
         else if n \<le> 4096 then dedup_bitmap n edges
         else dedup_scan edges)"

definition COMB_MAX_PATHS :: nat where
  "COMB_MAX_PATHS = 256"

definition sem_comb_collapse_paths :: "CombPath list \<Rightarrow> CombPath list" where
  "sem_comb_collapse_paths paths = (if length paths \<le> 1 then paths else [dedup_edges (concat paths)])"

definition limit_paths :: "CombPath list \<Rightarrow> CombPath list" where
  "limit_paths paths = (if length paths > COMB_MAX_PATHS then sem_comb_collapse_paths paths else paths)"

section \<open>The walk over statements\<close>

text \<open>The statements of a branch: after the condition, or all of an ELSE.\<close>

fun branch_body :: "JZASTNode \<Rightarrow> JZASTNode list" where
  "branch_body (AST_NODE ty loc n tx bk cs) =
     (if ty = JZ_AST_STMT_IF \<or> ty = JZ_AST_STMT_ELIF then tl cs else if ty = JZ_AST_STMT_ELSE then cs else [])"

text \<open>The statements of a case: after its value, or all of a DEFAULT.\<close>

fun case_body :: "JZASTNode \<Rightarrow> JZASTNode list" where
  "case_body (AST_NODE ty loc n tx bk cs) = (if ty = JZ_AST_STMT_CASE then tl cs else cs)"

definition has_default :: "JZASTNode list \<Rightarrow> bool" where
  "has_default cases \<longleftrightarrow> (\<exists>c \<in> set cases. node_type c = JZ_AST_STMT_DEFAULT)"

lemma size_list_member: "x \<in> set xs \<Longrightarrow> size x < size_list size xs"
  by (induction xs) auto

lemma size_list_tl: "size_list (size :: JZASTNode \<Rightarrow> nat) (tl xs) \<le> size_list size xs"
  by (cases xs) auto

lemma size_branch_body: "size_list size (branch_body b) < size b"
  using size_list_tl by (cases b) (auto intro: le_less_trans)

lemma size_case_body: "size_list size (case_body c) < size c"
  using size_list_tl by (cases c) (auto intro: le_less_trans)

lemma size_children: "size_list size (children s) < size s"
  by (cases s) simp

lemma size_child: "x \<in> set (tl (children s)) \<Longrightarrow> size x < size s"
  using size_children [of s] size_list_tl [where xs = "children s"] size_list_member [of x "tl (children s)"] by simp

lemma size_body_bounds:
  "Suc (2 * size_list size (branch_body s)) < 2 * size s" "Suc (2 * size_list size (children s)) < 2 * size s"
  "x \<in> set (tl (children s)) \<Longrightarrow> Suc (2 * size_list size (case_body x)) < 2 * size s"
  using size_branch_body [of s] size_children [of s] size_case_body [of x] size_child [of x s] by linarith+

text \<open>
  Every function takes the node and the paths so far. An IF that is met here is a chain of its
  own: the ELIF and ELSE that follow it in a nested body are skipped.
\<close>

function sem_comb_analyze_stmt :: "JZModuleScope \<Rightarrow> JZASTNode \<Rightarrow> CombPath list \<Rightarrow> CombPath list"
  and sem_comb_analyze_body :: "JZModuleScope \<Rightarrow> JZASTNode list \<Rightarrow> CombPath list \<Rightarrow> CombPath list" where
  "sem_comb_analyze_stmt sc stmt paths =
     (case node_type stmt of
        JZ_AST_STMT_ASSIGN \<Rightarrow> sem_comb_record_edges_for_assign sc stmt paths
      | JZ_AST_STMT_IF \<Rightarrow>
          limit_paths (concat (map (\<lambda>base. sem_comb_analyze_body sc (branch_body stmt) [base] @ [base]) paths))
      | JZ_AST_STMT_SELECT \<Rightarrow>
          (if length (children stmt) < 2 then paths
           else let cases = tl (children stmt)
                in limit_paths (concat (map (\<lambda>base.
                     concat (map (\<lambda>c. if case_body c = [] then [] else sem_comb_analyze_body sc (case_body c) [base]) cases) @
                     (if has_default cases then [] else [base])) paths)))
      | JZ_AST_BLOCK \<Rightarrow> sem_comb_analyze_body sc (children stmt) paths
      | _ \<Rightarrow> paths)"
| "sem_comb_analyze_body sc [] paths = paths"
| "sem_comb_analyze_body sc (s # ss) paths = sem_comb_analyze_body sc ss (sem_comb_analyze_stmt sc s paths)"
  by pat_completeness auto
termination
  by (relation "measure (\<lambda>x. case x of Inl (sc, s, ps) \<Rightarrow> 2 * size s | Inr (sc, ss, ps) \<Rightarrow> Suc (2 * size_list size ss))")
     (auto simp: size_body_bounds)

definition has_else :: "JZASTNode list \<Rightarrow> bool" where
  "has_else chain \<longleftrightarrow> node_type (last chain) = JZ_AST_STMT_ELSE"

definition sem_comb_analyze_if_chain :: "JZModuleScope \<Rightarrow> JZASTNode list \<Rightarrow> CombPath list \<Rightarrow> CombPath list" where
  "sem_comb_analyze_if_chain sc chain paths =
     limit_paths (concat (map (\<lambda>base.
       concat (map (\<lambda>b. sem_comb_analyze_body sc (branch_body b) [base]) chain) @ (if has_else chain then [] else [base])) paths))"

text \<open>The ELIF and ELSE branches after an IF, up to the first ELSE, and the statements after them.\<close>

fun take_chain :: "JZASTNode list \<Rightarrow> JZASTNode list \<times> JZASTNode list" where
  "take_chain [] = ([], [])"
| "take_chain (s # ss) =
     (if node_type s = JZ_AST_STMT_ELSE then ([s], ss)
      else if node_type s = JZ_AST_STMT_ELIF then (let (chain, after) = take_chain ss in (s # chain, after))
      else ([], s # ss))"

lemma take_chain_length: "take_chain ss = (chain, after) \<Longrightarrow> length after \<le> length ss"
  by (induction ss arbitrary: chain after) (fastforce split: if_splits prod.splits)+

text \<open>The statements of a block.\<close>

function analyze_block :: "JZModuleScope \<Rightarrow> JZASTNode list \<Rightarrow> CombPath list \<Rightarrow> CombPath list" where
  "analyze_block sc [] paths = paths"
| "analyze_block sc (s # ss) paths =
     (if node_type s = JZ_AST_STMT_IF
      then (case take_chain ss of (chain, after) \<Rightarrow> analyze_block sc after (sem_comb_analyze_if_chain sc (s # chain) paths))
      else analyze_block sc ss (sem_comb_analyze_stmt sc s paths))"
  by pat_completeness auto
termination
  by (relation "measure (\<lambda>(sc, ss, ps). length ss)") (auto simp: less_Suc_eq_le dest: take_chain_length [OF sym])

section \<open>Loops of a set of paths\<close>

definition sem_comb_union_has_cycle :: "CombPath list \<Rightarrow> nat \<Rightarrow> bool" where
  "sem_comb_union_has_cycle paths n = (n \<noteq> 0 \<and> sem_comb_edgeset_has_cycle (concat paths) n)"

definition sem_comb_any_path_has_cycle :: "CombPath list \<Rightarrow> nat \<Rightarrow> bool" where
  "sem_comb_any_path_has_cycle paths n = (n \<noteq> 0 \<and> list_ex (\<lambda>p. p \<noteq> [] \<and> sem_comb_edgeset_has_cycle p n) paths)"

section \<open>Summaries of instantiated modules\<close>

record JZCombPortEdge =
  in_port :: string
  out_port :: string
  conditional :: bool

datatype CombCacheState = COMB_CACHE_PENDING | COMB_CACHE_DONE | COMB_CACHE_IN_PROGRESS | COMB_CACHE_OPAQUE

text \<open>
  A slot of the cache; a module is named by its index in the list of scopes. The slots lie in a
  \<open>JZBuffer\<close>: a block of memory with a capacity in bytes. \<open>realloc\<close> may fail, keep the block or
  move it, which is a parameter of the project (the capacity grows at every call, so a function
  of the two capacities stands for every sequence of answers). A block that has moved has a new
  number, and a pointer to a slot is the block it was taken from with an index: reading or
  writing through a pointer into a block that is no longer that of the buffer is \<open>None\<close>.
\<close>

record JZModuleCombCache =
  cache_module :: nat
  cache_edges :: "JZCombPortEdge list"
  cache_state :: CombCacheState

record CombCacheBuffer =
  cache_slots :: "JZModuleCombCache list"
  cache_cap :: usize
  cache_block :: nat

record CombProject =
  module_scopes :: "JZModuleScope list"
  find_scope :: "string \<Rightarrow> nat option"
  realloc_answer :: "usize \<Rightarrow> usize \<Rightarrow> ReallocAnswer"

type_synonym SlotPointer = "nat \<times> nat"

definition slot_at :: "SlotPointer \<Rightarrow> CombCacheBuffer \<Rightarrow> JZModuleCombCache option" where
  "slot_at r cache =
     (if fst r = cache_block cache \<and> snd r < length (cache_slots cache) then Some (cache_slots cache ! snd r) else None)"

definition slot_write :: "SlotPointer \<Rightarrow> JZModuleCombCache \<Rightarrow> CombCacheBuffer \<Rightarrow> CombCacheBuffer" where
  "slot_write r s cache = cache\<lparr>cache_slots := (cache_slots cache)[snd r := s]\<rparr>"

text \<open>\<open>sizeof(JZModuleCombCache)\<close>: a pointer, a buffer and an \<open>int\<close>.\<close>

definition comb_slot_size :: nat where
  "comb_slot_size = 40"

definition append_slot :: "(usize \<Rightarrow> usize \<Rightarrow> ReallocAnswer) \<Rightarrow> JZModuleCombCache \<Rightarrow> CombCacheBuffer \<Rightarrow> CombCacheBuffer option" where
  "append_slot answer s cache =
     (let cap = cache_cap cache
      in case jz_buf_reserve (\<lambda>n. answer cap n \<noteq> REALLOC_FAILS) \<lparr>buf_bytes = [], buf_cap = cap\<rparr>
               (word_of_nat (comb_slot_size * Suc (length (cache_slots cache)))) of
           None \<Rightarrow> None
         | Some buf \<Rightarrow> Some \<lparr>cache_slots = cache_slots cache @ [s], cache_cap = buf_cap buf,
             cache_block = (if buf_cap buf \<noteq> cap \<and> answer cap (buf_cap buf) = REALLOC_MOVES
                            then Suc (cache_block cache) else cache_block cache)\<rparr>)"

text \<open>The pointer to the slot of a module, which is appended when there is none.\<close>

definition sem_comb_cache_slot :: "CombProject \<Rightarrow> CombCacheBuffer \<Rightarrow> nat \<Rightarrow> (SlotPointer \<times> CombCacheBuffer) option" where
  "sem_comb_cache_slot pr cache key =
     (let i = length (takeWhile (\<lambda>s. cache_module s \<noteq> key) (cache_slots cache))
      in if i < length (cache_slots cache) then Some ((cache_block cache, i), cache)
         else case append_slot (realloc_answer pr) \<lparr>cache_module = key, cache_edges = [], cache_state = COMB_CACHE_PENDING\<rparr> cache of
                None \<Rightarrow> None
              | Some cache' \<Rightarrow> Some ((cache_block cache', length (cache_slots cache)), cache'))"

definition set_cache_state :: "SlotPointer \<Rightarrow> CombCacheState \<Rightarrow> CombCacheBuffer \<Rightarrow> CombCacheBuffer option" where
  "set_cache_state r st cache =
     (case slot_at r cache of None \<Rightarrow> None | Some s \<Rightarrow> Some (slot_write r (s\<lparr>cache_state := st\<rparr>) cache))"

text \<open>The end of a summary: the port edges are appended to the slot, which is done.\<close>

definition finish_summary :: "SlotPointer \<Rightarrow> JZCombPortEdge list \<Rightarrow> CombCacheBuffer \<Rightarrow> CombCacheBuffer option" where
  "finish_summary r pes cache =
     (case slot_at r cache of
        None \<Rightarrow> None
      | Some s \<Rightarrow> Some (slot_write r (s\<lparr>cache_edges := cache_edges s @ pes, cache_state := COMB_CACHE_DONE\<rparr>) cache))"

text \<open>The edges a summary offers to the module around.\<close>

definition slot_edges :: "JZModuleCombCache \<Rightarrow> JZCombPortEdge list" where
  "slot_edges s = (if cache_state s = COMB_CACHE_DONE then cache_edges s else [])"

definition sem_comb_add_edge_to_paths :: "nat \<Rightarrow> nat \<Rightarrow> bool \<Rightarrow> CombPath list \<Rightarrow> CombPath list" where
  "sem_comb_add_edge_to_paths s d cond paths =
     (if paths = [] then []
      else if \<not> cond then map (\<lambda>p. p @ [(s, d)]) paths
      else limit_paths (concat (map (\<lambda>p. [p @ [(s, d)], p]) paths)))"

definition sem_comb_find_instance_binding :: "JZASTNode \<Rightarrow> string \<Rightarrow> JZASTNode option" where
  "sem_comb_find_instance_binding inst port_name =
     (if node_type inst \<noteq> JZ_AST_MODULE_INSTANCE then None
      else List.find (\<lambda>b. node_type b = JZ_AST_PORT_DECL \<and> node_name b = Some port_name) (children inst))"

text \<open>The edges one port edge of the child stands for between the nets around the instance.\<close>

definition instance_edges :: "JZModuleScope \<Rightarrow> JZASTNode \<Rightarrow> JZCombPortEdge \<Rightarrow> JZCombEdge list" where
  "instance_edges sc inst pe =
     (case (Option.bind (sem_comb_find_instance_binding inst (in_port pe)) (\<lambda>b. case children b of [] \<Rightarrow> None | x # _ \<Rightarrow> Some x),
            Option.bind (sem_comb_find_instance_binding inst (out_port pe)) (\<lambda>b. case children b of [] \<Rightarrow> None | x # _ \<Rightarrow> Some x)) of
        (Some in_rhs, Some out_rhs) \<Rightarrow>
          List.product (nets_of sc (sem_comb_collect_sources_from_expr sc in_rhs)) (nets_of sc (sem_comb_collect_targets_from_lhs sc out_rhs))
      | _ \<Rightarrow> [])"

definition add_port_edges :: "JZModuleScope \<Rightarrow> JZASTNode \<Rightarrow> bool \<Rightarrow> JZCombPortEdge list \<Rightarrow> CombPath list \<Rightarrow> CombPath list" where
  "add_port_edges sc inst extra_conditional pes paths =
     fold (\<lambda>pe. fold (\<lambda>(s, d). sem_comb_add_edge_to_paths s d (conditional pe \<or> extra_conditional)) (instance_edges sc inst pe)) pes paths"

text \<open>The instances of a module with whether a feature guard surrounds them, in order.\<close>

definition module_instances :: "JZASTNode \<Rightarrow> (JZASTNode \<times> bool) list" where
  "module_instances m =
     concat (map (\<lambda>c.
       if node_type c = JZ_AST_FEATURE_GUARD
       then map (\<lambda>i. (i, True)) (filter (\<lambda>i. node_type i = JZ_AST_MODULE_INSTANCE) (concat (map children (tl (children c)))))
       else if node_type c = JZ_AST_MODULE_INSTANCE then [(c, False)] else []) (children m))"

definition port_decls :: "string list \<Rightarrow> JZASTNode \<Rightarrow> string list" where
  "port_decls kinds m =
     List.map_filter (\<lambda>p. if node_type p = JZ_AST_PORT_DECL \<and> (\<exists>k \<in> set kinds. block_kind p = Some k) then node_name p else None)
       (concat (map children (filter (\<lambda>b. node_type b = JZ_AST_PORT_BLOCK) (children m))))"

definition async_blocks :: "JZASTNode \<Rightarrow> JZASTNode list" where
  "async_blocks m = filter (\<lambda>b. node_type b = JZ_AST_BLOCK \<and> block_kind b = Some ''ASYNCHRONOUS'') (children m)"

text \<open>The number of paths with a connection between two nets.\<close>

definition reachable_in :: "JZModuleScope \<Rightarrow> CombPath list \<Rightarrow> nat \<Rightarrow> nat \<Rightarrow> nat" where
  "reachable_in sc paths v w = length (filter (\<lambda>p. p \<noteq> [] \<and> sem_comb_reachable_in_edgeset p (net_count sc) v w) paths)"

text \<open>The pairs of an input and an output with a connection, and on all paths or only some.\<close>

definition port_edge :: "JZModuleScope \<Rightarrow> CombPath list \<Rightarrow> string \<Rightarrow> string \<Rightarrow> JZCombPortEdge option" where
  "port_edge sc paths i x =
     (if i = x then None
      else case (net_of sc i, net_of sc x) of
             (Some v, Some w) \<Rightarrow>
               if v \<ge> net_count sc \<or> w \<ge> net_count sc \<or> reachable_in sc paths v w = 0 then None
               else Some \<lparr>in_port = i, out_port = x, conditional = (reachable_in sc paths v w < length paths)\<rparr>
           | _ \<Rightarrow> None)"

definition port_edges :: "JZModuleScope \<Rightarrow> CombPath list \<Rightarrow> JZCombPortEdge list" where
  "port_edges sc paths =
     concat (map (\<lambda>i. List.map_filter (port_edge sc paths i) (port_decls [''OUT'', ''INOUT''] (scope_node sc)))
       (port_decls [''IN'', ''INOUT''] (scope_node sc)))"

text \<open>
  The summary of a module needs those of the modules it instantiates. A module that is being
  summarised, or that is too deep, has no edges; neither has one whose slot cannot be allocated.
  The pointer to a slot is held while the summaries of the modules inside append theirs, so the
  result is \<open>None\<close> when the buffer has moved meanwhile.
\<close>

function sem_comb_build_summary :: "CombProject \<Rightarrow> u32 \<Rightarrow> SlotPointer \<Rightarrow> nat \<Rightarrow> CombCacheBuffer \<Rightarrow> CombCacheBuffer option"
  and sem_comb_inject_instances :: "CombProject \<Rightarrow> u32 \<Rightarrow> JZModuleScope \<Rightarrow> (JZASTNode \<times> bool) list \<Rightarrow> CombCacheBuffer \<Rightarrow>
    CombPath list \<Rightarrow> (CombCacheBuffer \<times> CombPath list) option" where
  "sem_comb_build_summary pr depth slot m cache =
     (case jz_depth_enter_checked depth JZ_LIMIT_SEM_RECURSION_DEPTH of
        None \<Rightarrow> set_cache_state slot COMB_CACHE_OPAQUE cache
      | Some d \<Rightarrow>
          (case set_cache_state slot COMB_CACHE_IN_PROGRESS cache of
             None \<Rightarrow> None
           | Some cache1 \<Rightarrow>
               let sc = module_scopes pr ! m; node = scope_node sc
               in if node_type node = JZ_AST_BLACKBOX then set_cache_state slot COMB_CACHE_OPAQUE cache1
                  else case sem_comb_inject_instances pr d sc (module_instances node) cache1 [[]] of
                         None \<Rightarrow> None
                       | Some (cache2, paths) \<Rightarrow>
                           finish_summary slot (port_edges sc (fold (\<lambda>b. analyze_block sc (children b)) (async_blocks node) paths)) cache2))"
| "sem_comb_inject_instances pr depth sc [] cache paths = Some (cache, paths)"
| "sem_comb_inject_instances pr depth sc ((inst, extra) # insts) cache paths =
     (case Option.bind (node_text inst) (find_scope pr) of
        None \<Rightarrow> sem_comb_inject_instances pr depth sc insts cache paths
      | Some m \<Rightarrow>
          (case sem_comb_cache_slot pr cache m of
             None \<Rightarrow> sem_comb_inject_instances pr depth sc insts cache paths
           | Some (slot, cache1) \<Rightarrow>
               (case (if map_option cache_state (slot_at slot cache1) = Some COMB_CACHE_PENDING
                      then sem_comb_build_summary pr depth slot m cache1 else Some cache1) of
                  None \<Rightarrow> None
                | Some cache2 \<Rightarrow>
                    (case slot_at slot cache2 of
                       None \<Rightarrow> None
                     | Some s \<Rightarrow> sem_comb_inject_instances pr depth sc insts cache2 (add_port_edges sc inst extra (slot_edges s) paths)))))"
  by pat_completeness auto
termination
proof (relation "inv_image (less_than <*lex*> less_than)
    (\<lambda>x. case x of Inl (pr, d, s, m, c) \<Rightarrow> (1024 - unat d, 0) | Inr (pr, d, sc, is, c, ps) \<Rightarrow> (1024 - unat d, Suc (length is)))", goal_cases)
  case (2 pr depth slot m cache d)
  have "unat depth < 2 ^ 32" using unsigned_less [of depth] by simp
  then have "unat (ucast depth :: usize) = unat depth" by (simp add: unsigned_ucast_eq take_bit_nat_eq_self)
  then have "unat depth < 1024" "d = depth + 1"
    using 2(1) by (auto simp: jz_depth_enter_checked_def Let_def word_le_nat_alt not_le split: if_splits)
  then show ?case by (simp add: unat_word_ariths)
qed auto

section \<open>The check of a module\<close>

text \<open>The rule reported for an ASYNCHRONOUS block, if any.\<close>

definition loop_report :: "CombPath list \<Rightarrow> nat \<Rightarrow> string option" where
  "loop_report paths n =
     (if sem_comb_any_path_has_cycle paths n then Some ''COMB_LOOP_UNCONDITIONAL''
      else if sem_comb_union_has_cycle paths n then Some ''COMB_LOOP_CONDITIONAL_SAFE''
      else None)"

fun check_blocks :: "CombProject \<Rightarrow> JZModuleScope \<Rightarrow> JZASTNode list \<Rightarrow> CombCacheBuffer \<Rightarrow>
    (CombCacheBuffer \<times> string option list) option" where
  "check_blocks pr sc [] cache = Some (cache, [])"
| "check_blocks pr sc (b # bs) cache =
     (case sem_comb_inject_instances pr 0 sc (module_instances (scope_node sc)) cache [[]] of
        None \<Rightarrow> None
      | Some (cache1, paths) \<Rightarrow>
          map_option (\<lambda>(cache2, reports). (cache2, loop_report (analyze_block sc (children b) paths) (net_count sc) # reports))
            (check_blocks pr sc bs cache1))"

definition sem_check_combinational_loops_for_module ::
  "CombProject \<Rightarrow> JZModuleScope \<Rightarrow> CombCacheBuffer \<Rightarrow> (CombCacheBuffer \<times> string option list) option" where
  "sem_check_combinational_loops_for_module pr sc cache = check_blocks pr sc (async_blocks (scope_node sc)) cache"

end
