(* ===== verification/Comb_Graph_Sound.thy ===== *)
theory Comb_Graph_Sound
  imports Comb_Graph
begin

text \<open>
  The array of neighbours lists the edges of a net in their order, and the two searches decide
  exactly the transitive closure of the edges between existing nets.
\<close>

section \<open>The array of neighbours\<close>

definition neighbours :: "JZCombEdge list \<Rightarrow> nat \<Rightarrow> nat list" where
  "neighbours edges v = map snd (filter (\<lambda>e. fst e = v) edges)"

lemma neighbours_simps [simp]:
  "neighbours [] v = []" "neighbours ((s, d) # es) v = (if s = v then d # neighbours es v else neighbours es v)"
  "neighbours (es @ fs) v = neighbours es v @ neighbours fs v"
  by (simp_all add: neighbours_def)

lemma in_neighbours: "w \<in> set (neighbours edges v) \<longleftrightarrow> (v, w) \<in> set edges"
  by (force simp: neighbours_def)

lemma adj_counts_nth:
  "length (adj_counts edges n) = n" "v < n \<Longrightarrow> adj_counts edges n ! v = length (neighbours edges v)"
proof -
  have "length (fold (\<lambda>(s, d) c. if s < n then c[s := c ! s + 1] else c) es c) = length c \<and>
      (v < n \<longrightarrow> length c = n \<longrightarrow>
        fold (\<lambda>(s, d) c. if s < n then c[s := c ! s + 1] else c) es c ! v = c ! v + length (neighbours es v))" for es c v
    by (induction es arbitrary: c) (auto simp: nth_list_update)
  then show "length (adj_counts edges n) = n" "v < n \<Longrightarrow> adj_counts edges n ! v = length (neighbours edges v)"
    by (simp_all add: adj_counts_def)
qed

lemma adj_offsets_nth:
  "length (adj_offsets a cs) = Suc (length cs)" "i \<le> length cs \<Longrightarrow> adj_offsets a cs ! i = a + sum_list (take i cs)"
proof -
  show "length (adj_offsets a cs) = Suc (length cs)" by (induction cs arbitrary: a) simp_all
  show "i \<le> length cs \<Longrightarrow> adj_offsets a cs ! i = a + sum_list (take i cs)"
    by (induction cs arbitrary: a i) (auto simp: nth_Cons take_Cons split: nat.splits)
qed

definition row_start :: "JZCombEdge list \<Rightarrow> nat \<Rightarrow> nat \<Rightarrow> nat" where
  "row_start edges n v = adj_offsets 0 (adj_counts edges n) ! v"

lemma row_start_Suc: "v < n \<Longrightarrow> row_start edges n (Suc v) = row_start edges n v + length (neighbours edges v)"
  by (simp add: row_start_def adj_offsets_nth adj_counts_nth take_Suc_conv_app_nth)

lemma row_start_mono: "v \<le> w \<Longrightarrow> w \<le> n \<Longrightarrow> row_start edges n v \<le> row_start edges n w"
proof (induction rule: dec_induct)
  case (step k)
  then show ?case using row_start_Suc [of k n edges] by simp
qed simp

lemma row_start_total: "row_start edges n n \<le> length edges"
proof -
  have e: "row_start es n n = sum_list (map (\<lambda>v. length (neighbours es v)) [0 ..< n])" for es
  proof -
    have "adj_counts es n = map (\<lambda>v. length (neighbours es v)) [0 ..< n]"
      by (rule nth_equalityI) (simp_all add: adj_counts_nth)
    then show ?thesis by (simp add: row_start_def adj_offsets_nth adj_counts_nth)
  qed
  have "sum_list (map (\<lambda>v. length (neighbours es v)) [0 ..< n]) \<le> length es" for es
  proof (induction es)
    case (Cons x es)
    obtain s d where x: "x = (s, d)" by fastforce
    have "sum_list (map (\<lambda>v. length (neighbours (x # es) v)) vs) =
        sum_list (map (\<lambda>v. length (neighbours es v)) vs) + count_list vs s" for vs
      by (induction vs) (auto simp: x)
    moreover have "count_list [0 ..< n] s \<le> 1" by (induction n) auto
    ultimately show ?case using Cons.IH by simp
  qed simp
  then show ?thesis using e by simp
qed

lemma adj_fill_prefix:
  assumes "edges = es @ rest"
    "fold (\<lambda>(s, d) (adj_dst, adj_count).
             if s < n then (adj_dst[adj_offsets 0 (adj_counts edges n) ! s + adj_count ! s := d], adj_count[s := adj_count ! s + 1])
             else (adj_dst, adj_count)) es (replicate (length edges) 0, replicate n 0) = (dst, cnt)"
  shows "length dst = length edges \<and> length cnt = n \<and>
    (\<forall>v < n. cnt ! v = length (neighbours es v) \<and> (\<forall>k < cnt ! v. dst ! (row_start edges n v + k) = neighbours es v ! k))"
  using assms
proof (induction es arbitrary: rest dst cnt rule: rev_induct)
  case (snoc x es)
  obtain s d where x: "x = (s, d)" by fastforce
  obtain dst0 cnt0 where f: "fold (\<lambda>(s, d) (adj_dst, adj_count).
             if s < n then (adj_dst[adj_offsets 0 (adj_counts edges n) ! s + adj_count ! s := d], adj_count[s := adj_count ! s + 1])
             else (adj_dst, adj_count)) es (replicate (length edges) 0, replicate n 0) = (dst0, cnt0)" by fastforce
  have IH: "length dst0 = length edges" "length cnt0 = n" "\<And>v. v < n \<Longrightarrow> cnt0 ! v = length (neighbours es v)"
    "\<And>v k. v < n \<Longrightarrow> k < cnt0 ! v \<Longrightarrow> dst0 ! (row_start edges n v + k) = neighbours es v ! k"
    using snoc.IH [of "x # rest", OF _ f] snoc.prems(1) by simp_all
  show ?case
  proof (cases "s < n")
    case False
    then show ?thesis using snoc.prems(2) f IH by (auto simp: x)
  next
    case True
    let ?P = "row_start edges n s + cnt0 ! s"
    have r: "dst = dst0[?P := d]" "cnt = cnt0[s := cnt0 ! s + 1]" using snoc.prems(2) f True by (auto simp: x row_start_def)
    have len: "cnt0 ! v + (if v = s then 1 else 0) \<le> length (neighbours edges v)" if "v < n" for v
      using IH(3) [OF that] snoc.prems(1) by (simp add: x)
    have P: "?P < row_start edges n (Suc s)" using row_start_Suc [OF True, of edges] len [OF True] by simp
    then have Pl: "?P < length edges" using row_start_mono [of "Suc s" n n edges] row_start_total [of edges n] True by simp
    have apart: "row_start edges n v + k \<noteq> ?P" if "v < n" "v \<noteq> s" "k < cnt0 ! v" for v k
    proof (cases "v < s")
      case True
      then have "row_start edges n v + k < row_start edges n s"
        using row_start_Suc [of v n edges] row_start_mono [of "Suc v" s n edges] len [OF that(1)] that \<open>s < n\<close> by simp
      then show ?thesis by simp
    next
      case False
      then have "?P < row_start edges n v" using P row_start_mono [of "Suc s" v n edges] that by simp
      then show ?thesis by simp
    qed
    show ?thesis
    proof (intro conjI allI impI)
      fix v k
      assume v: "v < n"
      show "cnt ! v = length (neighbours (es @ [x]) v)" using v IH(2,3) by (simp add: r x nth_list_update)
      assume k: "k < cnt ! v"
      show "dst ! (row_start edges n v + k) = neighbours (es @ [x]) v ! k"
      proof (cases "v = s \<and> k = cnt0 ! s")
        case True
        then show ?thesis using Pl IH(1,3) v by (simp add: r x nth_append)
      next
        case False
        then have kk: "k < cnt0 ! v" using k v IH(2) by (cases "v = s") (auto simp: r)
        then have "row_start edges n v + k \<noteq> ?P" using apart [OF v _ kk] False by (cases "v = s") auto
        then show ?thesis using IH(3) [OF v] IH(4) [OF v kk] kk by (simp add: r nth_append)
      qed
    qed (simp_all add: r IH)
  qed
qed auto

lemma adj_row_eq: "v < n \<Longrightarrow> adj_row edges n v = neighbours edges v"
proof -
  assume v: "v < n"
  obtain dst cnt where f: "adj_fill edges n (adj_offsets 0 (adj_counts edges n)) = (dst, cnt)" by fastforce
  have p: "cnt ! v = length (neighbours edges v)" "\<And>k. k < cnt ! v \<Longrightarrow> dst ! (row_start edges n v + k) = neighbours edges v ! k"
    using adj_fill_prefix [of edges edges "[]" n dst cnt] f v by (simp_all add: adj_fill_def)
  have "adj_row edges n v = map ((!) dst) [row_start edges n v ..< row_start edges n (Suc v)]"
    by (simp add: adj_row_def f row_start_def Let_def)
  then show ?thesis using p by (auto simp: row_start_Suc [OF v] intro!: nth_equalityI)
qed

section \<open>The graph\<close>

definition net_graph :: "(nat \<Rightarrow> nat list) \<Rightarrow> nat \<Rightarrow> (nat \<times> nat) set" where
  "net_graph row n = {(v, w). v < n \<and> w < n \<and> w \<in> set (row v)}"

lemma net_graph_less: "(v, w) \<in> (net_graph row n)\<^sup>+ \<Longrightarrow> v < n \<and> w < n"
  by (induction rule: trancl_induct) (auto simp: net_graph_def)

section \<open>The search for a cycle\<close>

lemma scan_row_cases:
  "scan_row color ws = FOUND_GRAY \<Longrightarrow> \<exists>w \<in> set ws. w < length color \<and> color ! w = 1"
  "scan_row color ws = ALL_DONE \<Longrightarrow> w \<in> set ws \<Longrightarrow> w < length color \<Longrightarrow> color ! w \<notin> {0, 1}"
  by (induction ws) (auto split: if_splits)

fun chained :: "(nat \<times> nat) set \<Rightarrow> nat list \<Rightarrow> bool" where
  "chained G (v # u # st) = ((u, v) \<in> G \<and> chained G (u # st))"
| "chained G _ = True"

lemma chained_reach: "chained G (v # st) \<Longrightarrow> w \<in> set (v # st) \<Longrightarrow> (w, v) \<in> G\<^sup>*"
proof (induction G "v # st" arbitrary: v st rule: chained.induct)
  case (1 G v u st)
  then show ?case by (auto intro: rtrancl_into_rtrancl)
qed auto

definition dfs_inv :: "(nat \<Rightarrow> nat list) \<Rightarrow> nat \<Rightarrow> nat list \<Rightarrow> nat list \<Rightarrow> bool" where
  "dfs_inv row n color stack \<longleftrightarrow>
     length color = n \<and> set stack = {v. v < n \<and> color ! v = 1} \<and> distinct stack \<and> chained (net_graph row n) stack \<and>
     (\<forall>v < n. color ! v \<notin> {0, 1} \<longrightarrow>
        (\<forall>w. (v, w) \<in> net_graph row n \<longrightarrow> color ! w \<notin> {0, 1}) \<and> (v, v) \<notin> (net_graph row n)\<^sup>+)"

lemma dfs_invI:
  assumes "length color = n" "set stack = {v. v < n \<and> color ! v = 1}" "distinct stack" "chained (net_graph row n) stack"
    "\<And>v w. v < n \<Longrightarrow> color ! v \<notin> {0, 1} \<Longrightarrow> (v, w) \<in> net_graph row n \<Longrightarrow> color ! w \<notin> {0, 1}"
    "\<And>v. v < n \<Longrightarrow> color ! v \<notin> {0, 1} \<Longrightarrow> (v, v) \<notin> (net_graph row n)\<^sup>+"
  shows "dfs_inv row n color stack"
  using assms unfolding dfs_inv_def by blast

lemma dfs_invD:
  assumes "dfs_inv row n color stack"
  shows "length color = n" "set stack = {v. v < n \<and> color ! v = 1}" "distinct stack" "chained (net_graph row n) stack"
    "\<And>v w. v < n \<Longrightarrow> color ! v \<notin> {0, 1} \<Longrightarrow> (v, w) \<in> net_graph row n \<Longrightarrow> color ! w \<notin> {0, 1}"
    "\<And>v. v < n \<Longrightarrow> color ! v \<notin> {0, 1} \<Longrightarrow> (v, v) \<notin> (net_graph row n)\<^sup>+"
  using assms unfolding dfs_inv_def by blast+

text \<open>Marking a net leaves the black nets as they are.\<close>

lemma black_update:
  assumes "w < length color" "color ! w \<in> {0, 1}" "a = 1"
  shows "color[w := a] ! u \<notin> {0, 1} \<longleftrightarrow> color ! u \<notin> {0, 1 :: nat}"
  using assms by (cases "u = w") auto

text \<open>A set of nets closed under successors, none of them on a cycle, can be extended by a net all of whose successors are in it.\<close>

lemma closed_reach:
  assumes "\<And>v w. P v \<Longrightarrow> (v, w) \<in> G \<Longrightarrow> P w" "(v, w) \<in> G\<^sup>+" "P v"
  shows "P w"
  using assms(2,3) by (induction rule: trancl_induct) (use assms(1) in blast)+

lemma not_on_cycle:
  assumes "\<And>v w. P v \<Longrightarrow> (v, w) \<in> G \<Longrightarrow> P w" "\<And>w. (u, w) \<in> G \<Longrightarrow> P w" "\<not> P u"
  shows "(u, u) \<notin> G\<^sup>+"
proof
  assume "(u, u) \<in> G\<^sup>+"
  then obtain w where w: "(u, w) \<in> G" "(w, u) \<in> G\<^sup>*" by (meson tranclD)
  then have "P w" using assms(2) by simp
  then show False using w assms(1,3) closed_reach [of P G w u] by (metis rtranclD)
qed

lemma dfs_cycle_correct:
  assumes "dfs_inv row n color stack" "dfs_cycle row color stack = (found, color')"
  shows "if found then \<exists>v. (v, v) \<in> (net_graph row n)\<^sup>+
         else dfs_inv row n color' [] \<and> (\<forall>v < n. color ! v \<noteq> 0 \<longrightarrow> color' ! v \<noteq> 0)"
  using assms
proof (induction row color stack arbitrary: found color' rule: dfs_cycle.induct)
  case (1 row color)
  then show ?case by auto
next
  case (2 row color v stack)
  let ?G = "net_graph row n"
  note inv = dfs_invD [OF 2(3)]
  have v: "v < n" "color ! v = 1" using inv(2) by auto
  show ?case
  proof (cases "scan_row color (row v)")
    case FOUND_GRAY
    then obtain w where w: "w \<in> set (row v)" "w < n" "color ! w = 1" using scan_row_cases(1) inv(1) by metis
    then have "(w, v) \<in> ?G\<^sup>*" using chained_reach [OF inv(4)] inv(2) by blast
    moreover have "(v, w) \<in> ?G" using w v by (simp add: net_graph_def)
    ultimately have "(v, v) \<in> ?G\<^sup>+" by (meson rtrancl_into_trancl2)
    then show ?thesis using 2(4) FOUND_GRAY by auto
  next
    case (PUSH w)
    then have w: "w \<in> set (row v)" "w < n" "color ! w = 0" using scan_row_PUSH inv(1) by metis+
    have black: "color[w := 1] ! u \<notin> {0, 1} \<longleftrightarrow> color ! u \<notin> {0, 1}" for u using black_update w inv(1) by blast
    have "dfs_inv row n (color[w := 1]) (w # v # stack)"
    proof (rule dfs_invI)
      show "set (w # v # stack) = {u. u < n \<and> color[w := 1] ! u = 1}" using inv(1,2) w by (auto simp: nth_list_update)
      have "w \<notin> set (v # stack)" using inv(2) w(3) by auto
      then show "distinct (w # v # stack)" using inv(3) by simp
      show "chained ?G (w # v # stack)" using inv(4) w v by (simp add: net_graph_def)
      show "color[w := 1] ! x \<notin> {0, 1}" if "u < n" "color[w := 1] ! u \<notin> {0, 1}" "(u, x) \<in> ?G" for u x
        using inv(5) that black by blast
      show "(u, u) \<notin> ?G\<^sup>+" if "u < n" "color[w := 1] ! u \<notin> {0, 1}" for u using inv(6) that black by blast
    qed (simp add: inv(1))
    moreover have "dfs_cycle row (color[w := 1]) (w # v # stack) = (found, color')" using 2(4) PUSH by simp
    ultimately have "if found then \<exists>v. (v, v) \<in> ?G\<^sup>+
        else dfs_inv row n color' [] \<and> (\<forall>u < n. color[w := 1] ! u \<noteq> 0 \<longrightarrow> color' ! u \<noteq> 0)"
      by (rule 2(1) [OF PUSH])
    then show ?thesis using w(2) inv(1) by (auto simp: nth_list_update split: if_splits)
  next
    case ALL_DONE
    have fin: "color ! w \<notin> {0, 1}" if "(v, w) \<in> ?G" for w
      using scan_row_cases(2) [OF ALL_DONE] that inv(1) by (auto simp: net_graph_def)
    have less: "w < n" if "(u, w) \<in> ?G" for u w using that by (simp add: net_graph_def)
    have cyc: "(v, v) \<notin> ?G\<^sup>+"
      by (rule not_on_cycle [of "\<lambda>u. u < n \<and> color ! u \<notin> {0, 1}"]) (use inv(5) fin less v(2) in blast)+
    have black: "color[v := 2] ! u \<notin> {0, 1} \<longleftrightarrow> u = v \<or> color ! u \<notin> {0, 1}" for u
      using v(1) inv(1) by (cases "u = v") auto
    have "dfs_inv row n (color[v := 2]) stack"
    proof (rule dfs_invI)
      have "u \<in> set stack \<longleftrightarrow> u < n \<and> color[v := 2] ! u = 1" for u
      proof (cases "u = v")
        case True
        then show ?thesis using inv(1,3) v(1) by simp
      next
        case False
        have "u \<in> set (v # stack) \<longleftrightarrow> u < n \<and> color ! u = 1" unfolding inv(2) by simp
        then show ?thesis using False by simp
      qed
      then show "set stack = {u. u < n \<and> color[v := 2] ! u = 1}" by blast
      show "distinct stack" using inv(3) by simp
      show "chained ?G stack" using inv(4) by (cases stack) auto
      show "color[v := 2] ! x \<notin> {0, 1}" if "u < n" "color[v := 2] ! u \<notin> {0, 1}" "(u, x) \<in> ?G" for u x
      proof -
        have "u = v \<or> color ! u \<notin> {0, 1}" using that(2) unfolding black .
        then have "color ! x \<notin> {0, 1}" using inv(5) [OF that(1) _ that(3)] fin that(3) by blast
        then show ?thesis unfolding black by simp
      qed
      show "(u, u) \<notin> ?G\<^sup>+" if "u < n" "color[v := 2] ! u \<notin> {0, 1}" for u
        using inv(6) [OF that(1)] cyc that(2) unfolding black by blast
    qed (simp add: inv(1))
    moreover have "dfs_cycle row (color[v := 2]) stack = (found, color')" using 2(4) ALL_DONE by simp
    ultimately have "if found then \<exists>v. (v, v) \<in> ?G\<^sup>+
        else dfs_inv row n color' [] \<and> (\<forall>u < n. color[v := 2] ! u \<noteq> 0 \<longrightarrow> color' ! u \<noteq> 0)"
      by (rule 2(2) [OF ALL_DONE])
    then show ?thesis using v(1) inv(1) by (auto simp: nth_list_update split: if_splits)
  qed
qed

lemma dfs_starts_correct:
  assumes "dfs_inv row n color []" "\<And>v. v < n \<Longrightarrow> color ! v \<noteq> 0 \<or> v \<in> set starts" "set starts \<subseteq> {..<n}"
  shows "dfs_starts row color starts \<longleftrightarrow> (\<exists>v. (v, v) \<in> (net_graph row n)\<^sup>+)"
  using assms
proof (induction starts arbitrary: color)
  case Nil
  have "color ! v \<notin> {0, 1}" if v: "v < n" for v
  proof -
    have "color ! v \<noteq> 0" using Nil(2) [OF v] by simp
    moreover have "v \<notin> {v. v < n \<and> color ! v = 1}" using Nil(1) unfolding dfs_inv_def list.set by blast
    ultimately show ?thesis using v by simp
  qed
  then have "(v, v) \<notin> (net_graph row n)\<^sup>+" for v using dfs_invD(6) [OF Nil(1)] net_graph_less by blast
  then show ?case by simp
next
  case (Cons start starts)
  let ?G = "net_graph row n"
  note inv = dfs_invD [OF Cons.prems(1)]
  have s: "start < n" "set starts \<subseteq> {..<n}" using Cons.prems(3) by auto
  have rest: "c ! v \<noteq> 0 \<or> v \<in> set starts" if "v < n" "\<And>u. u < n \<Longrightarrow> color ! u \<noteq> 0 \<or> u = start \<Longrightarrow> c ! u \<noteq> 0" for c v
    using Cons.prems(2) [OF that(1)] that by auto
  show ?case
  proof (cases "color ! start = 0")
    case False
    then show ?thesis using Cons.IH [OF Cons.prems(1) rest s(2)] by auto
  next
    case white: True
    show ?thesis
    proof (cases "row start = []")
      case True
      then have no: "(start, w) \<notin> ?G" for w by (simp add: net_graph_def)
      have black: "color[start := 2] ! u \<notin> {0, 1} \<longleftrightarrow> u = start \<or> color ! u \<notin> {0, 1}" for u
        using s(1) inv(1) by (cases "u = start") auto
      have "dfs_inv row n (color[start := 2]) []"
      proof (rule dfs_invI)
        show "set [] = {u. u < n \<and> color[start := 2] ! u = 1}" using inv(1,2) s(1) white by (auto simp: nth_list_update split: if_splits)
        show "color[start := 2] ! x \<notin> {0, 1}" if "u < n" "color[start := 2] ! u \<notin> {0, 1}" "(u, x) \<in> ?G" for u x
        proof -
          have "u \<noteq> start" using no that(3) by blast
          then show ?thesis using inv(5) [OF that(1) _ that(3)] that(2) unfolding black by blast
        qed
        show "(u, u) \<notin> ?G\<^sup>+" if "u < n" "color[start := 2] ! u \<notin> {0, 1}" for u
          using inv(6) no that black tranclD by metis
      qed (simp_all add: inv(1))
      moreover have "color[start := 2] ! v \<noteq> 0 \<or> v \<in> set starts" if "v < n" for v
        by (rule rest [OF that]) (use inv(1) s(1) in \<open>auto simp: nth_list_update\<close>)
      ultimately have "dfs_starts row (color[start := 2]) starts \<longleftrightarrow> (\<exists>v. (v, v) \<in> ?G\<^sup>+)" by (rule Cons.IH [OF _ _ s(2)])
      then show ?thesis using white True by simp
    next
      case False
      obtain found color' where r: "dfs_cycle row (color[start := 1]) [start] = (found, color')" by fastforce
      have black: "color[start := 1] ! u \<notin> {0, 1} \<longleftrightarrow> color ! u \<notin> {0, 1}" for u using black_update s(1) inv(1) white by blast
      have "dfs_inv row n (color[start := 1]) [start]"
      proof (rule dfs_invI)
        show "set [start] = {u. u < n \<and> color[start := 1] ! u = 1}" using inv(1,2) s(1) white by (auto simp: nth_list_update split: if_splits)
        show "color[start := 1] ! x \<notin> {0, 1}" if "u < n" "color[start := 1] ! u \<notin> {0, 1}" "(u, x) \<in> ?G" for u x
          using inv(5) that black by blast
        show "(u, u) \<notin> ?G\<^sup>+" if "u < n" "color[start := 1] ! u \<notin> {0, 1}" for u using inv(6) that black by blast
      qed (simp_all add: inv(1))
      note C = dfs_cycle_correct [OF this r]
      show ?thesis
      proof (cases found)
        case True
        then show ?thesis using C white False r by auto
      next
        case nf: False
        have "color' ! v \<noteq> 0 \<or> v \<in> set starts" if "v < n" for v
          by (rule rest [OF that]) (use C nf inv(1) s(1) in \<open>auto simp: nth_list_update\<close>)
        moreover have "dfs_inv row n color' []" using C nf by simp
        ultimately have "dfs_starts row color' starts \<longleftrightarrow> (\<exists>v. (v, v) \<in> ?G\<^sup>+)" using Cons.IH [OF _ _ s(2)] by blast
        then show ?thesis using nf white False r by simp
      qed
    qed
  qed
qed

lemma net_graph_edges: "net_graph (adj_row edges n) n = {(v, w). (v, w) \<in> set edges \<and> v < n \<and> w < n}"
  using adj_row_eq [of _ n edges] by (auto simp: net_graph_def in_neighbours)

lemma edgeset_has_cycle_eq:
  "sem_comb_edgeset_has_cycle edges n \<longleftrightarrow> (\<exists>v. (v, v) \<in> {(v, w). (v, w) \<in> set edges \<and> v < n \<and> w < n}\<^sup>+)"
proof (cases "edges = [] \<or> n = 0")
  case True
  then have "{(v, w). (v, w) \<in> set edges \<and> v < n \<and> w < n} = {}" by auto
  then show ?thesis unfolding sem_comb_edgeset_has_cycle_def using True by (metis empty_iff trancl_empty)
next
  case False
  have "dfs_inv (adj_row edges n) n (replicate n 0) []" by (auto simp: dfs_inv_def)
  then have "dfs_starts (adj_row edges n) (replicate n 0) [0 ..< n] \<longleftrightarrow> (\<exists>v. (v, v) \<in> (net_graph (adj_row edges n) n)\<^sup>+)"
    by (rule dfs_starts_correct) auto
  then show ?thesis using False by (simp add: sem_comb_edgeset_has_cycle_def net_graph_edges)
qed

section \<open>The search for a net\<close>

lemma visit_row_correct:
  assumes "visit_row dst ws visited stack = (found, visited', stack')" "dst < length visited"
  shows "if found then dst \<in> set ws
    else dst \<notin> set ws \<and> length visited' = length visited \<and> set stack \<subseteq> set stack' \<and>
      (\<forall>v < length visited. (visited' ! v \<noteq> 0 \<longleftrightarrow> visited ! v \<noteq> 0 \<or> v \<in> set ws) \<and>
        (visited' ! v \<noteq> 0 \<longrightarrow> visited ! v \<noteq> 0 \<or> v \<in> set stack')) \<and>
      (\<forall>v \<in> set stack'. v \<in> set stack \<or> v < length visited \<and> visited' ! v \<noteq> 0)"
  using assms
proof (induction dst ws visited stack rule: visit_row.induct)
  case (2 dst w ws visited stack)
  consider "w \<ge> length visited" | "w < length visited" "w = dst" | "w < length visited" "w \<noteq> dst" "visited ! w = 0"
    | "w < length visited" "w \<noteq> dst" "visited ! w \<noteq> 0" by fastforce
  then show ?case
  proof cases
    case 1
    then show ?thesis using 2(1) 2(4,5) by (auto split: if_splits)
  next
    case 3
    have p: "\<not> length visited \<le> w" "w \<noteq> dst" "visited ! w = 0" "dst < length (visited[w := 1])" using 3 2(5) by simp_all
    have "visit_row dst ws (visited[w := 1]) (w # stack) = (found, visited', stack')" using 2(4) 3 by simp
    note IH = 2(2) [OF p(1-3) this p(4), unfolded length_list_update]
    show ?thesis
    proof (cases found)
      case False
      have upd: "visited[w := 1] ! v \<noteq> 0 \<longleftrightarrow> v = w \<or> visited ! v \<noteq> 0" for v using 3(1) by (cases "v = w") auto
      have I: "dst \<notin> set ws" "length visited' = length visited" "w \<in> set stack'" "set stack \<subseteq> set stack'"
        "\<And>v. v < length visited \<Longrightarrow> visited' ! v \<noteq> 0 \<longleftrightarrow> v = w \<or> visited ! v \<noteq> 0 \<or> v \<in> set ws"
        "\<And>v. v < length visited \<Longrightarrow> visited' ! v \<noteq> 0 \<Longrightarrow> v = w \<or> visited ! v \<noteq> 0 \<or> v \<in> set stack'"
        "\<And>v. v \<in> set stack' \<Longrightarrow> v = w \<or> v \<in> set stack \<or> v < length visited \<and> visited' ! v \<noteq> 0"
        using IH False unfolding upd by auto
      have "\<And>v. v \<in> set stack' \<Longrightarrow> v \<in> set stack \<or> v < length visited \<and> visited' ! v \<noteq> 0" using I(5,7) 3(1) by blast
      moreover have "dst \<notin> set (w # ws)" using I(1) 3(2) by simp
      moreover have "\<And>v. v < length visited \<Longrightarrow> (visited' ! v \<noteq> 0 \<longleftrightarrow> visited ! v \<noteq> 0 \<or> v \<in> set (w # ws)) \<and>
          (visited' ! v \<noteq> 0 \<longrightarrow> visited ! v \<noteq> 0 \<or> v \<in> set stack')"
        using I(3,5,6) by (metis list.set_intros(1) list.set_intros(2) set_ConsD)
      ultimately show ?thesis unfolding if_not_P [OF False] using I(2,4) by blast
    qed (use IH in simp)
  next
    case 4
    then show ?thesis using 2(3) 2(4,5) by (auto split: if_splits)
  qed (use 2(4) in auto)
qed simp

definition reach_inv :: "(nat \<Rightarrow> nat list) \<Rightarrow> nat \<Rightarrow> nat \<Rightarrow> nat \<Rightarrow> nat list \<Rightarrow> nat list \<Rightarrow> bool" where
  "reach_inv row n src dst visited stack \<longleftrightarrow>
     length visited = n \<and> src < n \<and> dst < n \<and> visited ! dst = 0 \<and> set stack \<subseteq> {v. v < n \<and> visited ! v \<noteq> 0} \<and>
     (\<forall>v < n. visited ! v \<noteq> 0 \<longrightarrow> (src, v) \<in> (net_graph row n)\<^sup>+) \<and>
     (\<forall>w. (src, w) \<in> net_graph row n \<longrightarrow> visited ! w \<noteq> 0) \<and>
     (\<forall>v < n. visited ! v \<noteq> 0 \<longrightarrow> v \<notin> set stack \<longrightarrow> (\<forall>w. (v, w) \<in> net_graph row n \<longrightarrow> visited ! w \<noteq> 0))"

lemma dfs_reach_correct:
  "reach_inv row n src dst visited stack \<Longrightarrow> dfs_reach row dst visited stack \<longleftrightarrow> (src, dst) \<in> (net_graph row n)\<^sup>+"
proof (induction row dst visited stack rule: dfs_reach.induct)
  case (1 row dst visited)
  let ?G = "net_graph row n"
  have inv: "visited ! dst = 0" "\<And>w. (src, w) \<in> ?G \<Longrightarrow> visited ! w \<noteq> 0"
    "\<And>v w. v < n \<Longrightarrow> visited ! v \<noteq> 0 \<Longrightarrow> (v, w) \<in> ?G \<Longrightarrow> visited ! w \<noteq> 0"
    using 1 by (auto simp: reach_inv_def)
  have "(src, dst) \<notin> ?G\<^sup>+"
  proof
    assume "(src, dst) \<in> ?G\<^sup>+"
    then obtain w where w: "(src, w) \<in> ?G" "(w, dst) \<in> ?G\<^sup>*" by (meson tranclD)
    have "w < n \<and> visited ! w \<noteq> 0" using inv(2) w(1) by (auto simp: net_graph_def)
    then show False
      using w(2) inv closed_reach [of "\<lambda>u. u < n \<and> visited ! u \<noteq> 0" ?G w dst] by (auto simp: net_graph_def dest!: rtranclD)
  qed
  then show ?case by simp
next
  case (2 row dst visited v stack)
  let ?G = "net_graph row n"
  have inv: "length visited = n" "src < n" "dst < n" "visited ! dst = 0" "set (v # stack) \<subseteq> {v. v < n \<and> visited ! v \<noteq> 0}"
    "\<And>v. v < n \<Longrightarrow> visited ! v \<noteq> 0 \<Longrightarrow> (src, v) \<in> ?G\<^sup>+"
    "\<And>w. (src, w) \<in> ?G \<Longrightarrow> visited ! w \<noteq> 0"
    "\<And>v' w. v' < n \<Longrightarrow> visited ! v' \<noteq> 0 \<Longrightarrow> v' \<notin> set (v # stack) \<Longrightarrow> (v', w) \<in> ?G \<Longrightarrow> visited ! w \<noteq> 0"
    using 2(2) unfolding reach_inv_def by blast+
  have v: "v < n" "(src, v) \<in> ?G\<^sup>+" using inv(5,6) by auto
  obtain found visited' stack' where r: "visit_row dst (row v) visited stack = (found, visited', stack')"
    by (cases "visit_row dst (row v) visited stack") auto
  have d: "dst < length visited" using inv(1,3) by simp
  note V = visit_row_correct [OF r d]
  show ?case
  proof (cases found)
    case True
    then have "(v, dst) \<in> ?G" using V v inv(3) by (simp add: net_graph_def)
    then show ?thesis using r True v(2) by (auto intro: trancl_into_trancl)
  next
    case False
    have V': "dst \<notin> set (row v)" "length visited' = n" "set stack \<subseteq> set stack'"
      "\<And>u. u < n \<Longrightarrow> visited' ! u \<noteq> 0 \<longleftrightarrow> visited ! u \<noteq> 0 \<or> u \<in> set (row v)"
      "\<And>u. u < n \<Longrightarrow> visited' ! u \<noteq> 0 \<Longrightarrow> visited ! u = 0 \<Longrightarrow> u \<in> set stack'"
      "\<And>u. u \<in> set stack' \<Longrightarrow> u \<in> set stack \<or> u < n \<and> visited' ! u \<noteq> 0"
      using V False inv(1) by auto
    have "reach_inv row n src dst visited' stack'"
      unfolding reach_inv_def
    proof (intro conjI allI impI)
      show "visited' ! dst = 0" using V'(1,4) inv(3,4) by blast
      show "set stack' \<subseteq> {v. v < n \<and> visited' ! v \<noteq> 0}" using V'(4,6) inv(5) by fastforce
    next
      fix u assume u: "u < n" "visited' ! u \<noteq> 0"
      show "(src, u) \<in> ?G\<^sup>+"
      proof (cases "visited ! u \<noteq> 0")
        case False
        then have "(v, u) \<in> ?G" using u V'(4) v by (simp add: net_graph_def)
        then show ?thesis using v(2) by (rule trancl_into_trancl [rotated])
      qed (use inv(6) u in blast)
      fix w assume w: "u \<notin> set stack'" "(u, w) \<in> ?G"
      have wn: "w < n" using w by (simp add: net_graph_def)
      have "visited ! u \<noteq> 0" using V'(5) u w by blast
      moreover have "u \<notin> set stack" using V'(3) w by blast
      ultimately show "visited' ! w \<noteq> 0"
        using inv(8) [OF u(1) _ _ w(2)] V'(4) [OF wn] w(2) unfolding net_graph_def by (cases "u = v") simp_all
    next
      fix w assume w: "(src, w) \<in> ?G"
      then have "w < n" by (simp add: net_graph_def)
      then show "visited' ! w \<noteq> 0" using inv(7) [OF w] V'(4) by blast
    qed (use V'(2) inv(1-3) in simp_all)
    then show ?thesis using 2(1) [OF r [symmetric]] r False by auto
  qed
qed

lemma reachable_in_edgeset_eq:
  assumes "src < n" "dst < n"
  shows "sem_comb_reachable_in_edgeset edges n src dst \<longleftrightarrow>
    (src, dst) \<in> {(v, w). (v, w) \<in> set edges \<and> v < n \<and> w < n}\<^sup>+"
proof (cases "edges = []")
  case True
  then have "{(v, w). (v, w) \<in> set edges \<and> v < n \<and> w < n} = {}" by auto
  then show ?thesis unfolding sem_comb_reachable_in_edgeset_def using True by (metis empty_iff trancl_empty)
next
  case False
  let ?row = "adj_row edges n"
  obtain found visited stack where r: "visit_row dst (?row src) (replicate n 0) [] = (found, visited, stack)"
    by (cases "visit_row dst (?row src) (replicate n 0) []") auto
  have d: "dst < length (replicate n (0 :: nat))" using assms by simp
  note V = visit_row_correct [OF r d]
  show ?thesis
  proof (cases found)
    case True
    then have "(src, dst) \<in> net_graph ?row n" using V assms by (simp add: net_graph_def)
    then show ?thesis using True False r assms by (auto simp: sem_comb_reachable_in_edgeset_def net_graph_edges)
  next
    case nf: False
    have "reach_inv ?row n src dst visited stack"
      using V nf assms by (auto simp: reach_inv_def net_graph_def)
    then show ?thesis using dfs_reach_correct nf False r assms by (auto simp: sem_comb_reachable_in_edgeset_def net_graph_edges)
  qed
qed

end
