(* ===== verification/Comb_Loop_Sound.thy ===== *)
theory Comb_Loop_Sound
  imports Comb_Loop Comb_Graph_Sound
begin

text \<open>
  The paths the loop check keeps are the executions of the block: every execution is covered by
  a path, and while there are at most 256 paths every path is an execution.
\<close>

declare sem_comb_analyze_stmt.simps [simp del]

section \<open>Removing duplicates\<close>

lemma bit_set: "m < 8 \<Longrightarrow> bit (x OR push_bit m 1 :: 8 word) j \<longleftrightarrow> bit x j \<or> j = m"
  by (auto simp: bit_simps possible_bit_def)

lemma key_inj: "s < n \<Longrightarrow> d < n \<Longrightarrow> s' < n \<Longrightarrow> d' < n \<Longrightarrow> s * n + d = s' * n + d' \<longleftrightarrow> s = s' \<and> d = (d' :: nat)"
proof
  assume l: "s < n" "d < n" "s' < n" "d' < n" and e: "s * n + d = s' * n + d'"
  have "(s * n + d) div n = s" "(s' * n + d') div n = s'" using l by simp_all
  then have "s = s'" using e by simp
  then show "s = s' \<and> d = d'" using e by simp
qed simp

lemma key_less: "s < n \<Longrightarrow> d < n \<Longrightarrow> s * n + d < n * (n :: nat)"
proof -
  assume "s < n" "d < n"
  then have "s * n + d < Suc s * n" by simp
  also have "\<dots> \<le> n * n" using \<open>s < n\<close> by (intro mult_le_mono1) simp
  finally show ?thesis .
qed

lemma div8_less: "k < m \<Longrightarrow> k div 8 < (m + 7) div (8 :: nat)"
proof -
  assume "k < m"
  have "Suc (k div 8) = (k + 8) div 8" by simp
  also have "\<dots> \<le> (m + 7) div 8" using \<open>k < m\<close> by (intro div_le_mono) simp
  finally show ?thesis by simp
qed

lemma bitmap_fold:
  assumes "\<forall>(s, d) \<in> set es. s < n \<and> d < n" "fold (bitmap_step n) es ([], replicate ((n * n + 7) div 8) 0) = (uniq, seen)"
  shows "length seen = (n * n + 7) div 8 \<and> set uniq = set es \<and> distinct uniq \<and>
    (\<forall>s d. s < n \<longrightarrow> d < n \<longrightarrow> bit (seen ! ((s * n + d) div 8)) ((s * n + d) mod 8) = ((s, d) \<in> set es))"
  using assms
proof (induction es arbitrary: uniq seen rule: rev_induct)
  case Nil
  have "replicate ((n * n + 7) div 8) (0 :: 8 word) ! ((s * n + d) div 8) = 0" if "s < n" "d < n" for s d
    using div8_less [OF key_less [OF that]] by simp
  then show ?case using Nil by auto
next
  case (snoc e es)
  obtain s0 d0 where e: "e = (s0, d0)" by fastforce
  obtain uniq0 seen0 where f: "fold (bitmap_step n) es ([], replicate ((n * n + 7) div 8) 0) = (uniq0, seen0)" by fastforce
  have l: "s0 < n" "d0 < n" using snoc.prems(1) e by auto
  have IH: "length seen0 = (n * n + 7) div 8" "set uniq0 = set es" "distinct uniq0"
    "\<And>s d. s < n \<Longrightarrow> d < n \<Longrightarrow> bit (seen0 ! ((s * n + d) div 8)) ((s * n + d) mod 8) = ((s, d) \<in> set es)"
    using snoc.IH [OF _ f] snoc.prems(1) by auto
  have step: "bitmap_step n e (uniq0, seen0) = (uniq, seen)" using snoc.prems(2) f by simp
  let ?k0 = "s0 * n + d0"
  have k0: "?k0 div 8 < length seen0" using div8_less [OF key_less [OF l]] IH(1) by simp
  show ?case
  proof (cases "(s0, d0) \<in> set es")
    case True
    then have "uniq = uniq0" "seen = seen0" using step IH(4) [OF l] by (auto simp: bitmap_step_def e Let_def)
    then show ?thesis using IH True by (auto simp: e)
  next
    case False
    then have r: "uniq = uniq0 @ [(s0, d0)]" "seen = seen0[?k0 div 8 := seen0 ! (?k0 div 8) OR push_bit (?k0 mod 8) 1]"
      using step IH(4) [OF l] by (auto simp: bitmap_step_def e Let_def)
    have "bit (seen ! ((s * n + d) div 8)) ((s * n + d) mod 8) = ((s, d) \<in> set (es @ [e]))" if sd: "s < n" "d < n" for s d
    proof (cases "(s * n + d) div 8 = ?k0 div 8")
      case same: True
      have "(s * n + d) mod 8 = ?k0 mod 8 \<longleftrightarrow> s * n + d = ?k0" using same by (metis div_mult_mod_eq)
      then have "(s * n + d) mod 8 = ?k0 mod 8 \<longleftrightarrow> s = s0 \<and> d = d0" using key_inj sd l by blast
      then show ?thesis using IH(4) [OF sd] same k0 bit_set [of "?k0 mod 8"] by (auto simp: r e)
    next
      case False
      then have "\<not> (s = s0 \<and> d = d0)" by auto
      then show ?thesis using IH(4) [OF sd] False by (auto simp: r e)
    qed
    then show ?thesis using IH(1-3) False by (auto simp: r e)
  qed
qed

lemma dedup_edges_set: "set (dedup_edges edges) = set edges" "distinct (dedup_edges edges)"
proof -
  define n where "n = fold (\<lambda>(s, d) m. max (max m s) d) edges (0 :: nat) + 1"
  have "m \<le> fold (\<lambda>(s, d) m. max (max m s) d) es m \<and> (\<forall>(s, d) \<in> set es. s \<le> fold (\<lambda>(s, d) m. max (max m s) d) es m \<and>
      d \<le> fold (\<lambda>(s, d) m. max (max m s) d) es m)" for es and m :: nat
  proof (induction es arbitrary: m)
    case (Cons x es)
    obtain s d where "x = (s, d)" by fastforce
    then show ?case using Cons.IH [of "max (max m s) d"] by auto
  qed simp
  then have n: "\<forall>(s, d) \<in> set edges. s < n \<and> d < n" unfolding n_def by (fastforce simp: less_Suc_eq_le)
  have b: "set (dedup_bitmap n edges) = set edges \<and> distinct (dedup_bitmap n edges)"
    using bitmap_fold [OF n] unfolding dedup_bitmap_def by (metis surjective_pairing)
  have s: "set (fold (\<lambda>e uniq. if e \<in> set uniq then uniq else uniq @ [e]) es uniq) = set uniq \<union> set es \<and>
      (distinct uniq \<longrightarrow> distinct (fold (\<lambda>e uniq. if e \<in> set uniq then uniq else uniq @ [e]) es uniq))" for es and uniq :: CombPath
    by (induction es arbitrary: uniq) auto
  have one: "length edges \<le> 1 \<Longrightarrow> distinct edges" by (cases edges; cases "tl edges") auto
  have "dedup_edges edges = (if length edges \<le> 1 then edges else if n \<le> 4096 then dedup_bitmap n edges else dedup_scan edges)"
    unfolding dedup_edges_def n_def Let_def ..
  then show "set (dedup_edges edges) = set edges" "distinct (dedup_edges edges)"
    using b s [of edges "[]"] one unfolding dedup_scan_def by simp_all
qed

lemma limit_paths_covers: "p \<in> set paths \<Longrightarrow> \<exists>q \<in> set (limit_paths paths). set p \<subseteq> set q"
proof -
  assume p: "p \<in> set paths"
  show ?thesis
  proof (cases "length paths > COMB_MAX_PATHS")
    case True
    then have "set (limit_paths paths) = {dedup_edges (concat paths)}"
      by (auto simp: limit_paths_def sem_comb_collapse_paths_def COMB_MAX_PATHS_def)
    then show ?thesis using p dedup_edges_set(1) [of "concat paths"] by auto
  qed (use p in \<open>auto simp: limit_paths_def\<close>)
qed

lemma limit_paths_id: "length paths \<le> 256 \<Longrightarrow> limit_paths paths = paths"
  by (simp add: limit_paths_def COMB_MAX_PATHS_def)

section \<open>Executions\<close>

text \<open>The edges of an execution of a list of statements: one branch of every IF chain and one case
  of every SELECT, or none where there is no ELSE or DEFAULT.\<close>

inductive runs :: "JZModuleScope \<Rightarrow> JZASTNode list \<Rightarrow> JZCombEdge set \<Rightarrow> bool" for sc where
  run_end: "runs sc [] {}"
| run_assign: "node_type s = JZ_AST_STMT_ASSIGN \<Longrightarrow> runs sc ss F \<Longrightarrow> runs sc (s # ss) (set (assign_edges sc s) \<union> F)"
| run_if: "node_type s = JZ_AST_STMT_IF \<Longrightarrow> take_chain ss = (chain, after) \<Longrightarrow> b \<in> set (s # chain) \<Longrightarrow> runs sc (branch_body b) E \<Longrightarrow>
    runs sc after F \<Longrightarrow> runs sc (s # ss) (E \<union> F)"
| run_no_branch: "node_type s = JZ_AST_STMT_IF \<Longrightarrow> take_chain ss = (chain, after) \<Longrightarrow> \<not> has_else (s # chain) \<Longrightarrow>
    runs sc after F \<Longrightarrow> runs sc (s # ss) F"
| run_select: "node_type s = JZ_AST_STMT_SELECT \<Longrightarrow> c \<in> set (tl (children s)) \<Longrightarrow> runs sc (case_body c) E \<Longrightarrow>
    runs sc ss F \<Longrightarrow> runs sc (s # ss) (E \<union> F)"
| run_no_case: "node_type s = JZ_AST_STMT_SELECT \<Longrightarrow> \<not> has_default (tl (children s)) \<Longrightarrow> runs sc ss F \<Longrightarrow> runs sc (s # ss) F"
| run_block: "node_type s = JZ_AST_BLOCK \<Longrightarrow> runs sc (children s) E \<Longrightarrow> runs sc ss F \<Longrightarrow> runs sc (s # ss) (E \<union> F)"
| run_other: "node_type s \<notin> {JZ_AST_STMT_ASSIGN, JZ_AST_STMT_IF, JZ_AST_STMT_SELECT, JZ_AST_BLOCK} \<Longrightarrow> runs sc ss F \<Longrightarrow> runs sc (s # ss) F"

inductive_cases runs_NilE: "runs sc [] E"

lemma size_body_less:
  "2 * size_list size (branch_body s) < Suc (Suc (2 * size s + k))" "2 * size_list size (children s) < Suc (Suc (2 * size s + k))"
  "x \<in> set (tl (children s)) \<Longrightarrow> 2 * size_list size (case_body x) < Suc (Suc (2 * size s + k))"
  using size_body_bounds [of s] size_body_bounds(3) [of x s] by linarith+

text \<open>
  Where the walk is faithful: in nested bodies no ELIF or ELSE follows an IF, and a SELECT with a
  DEFAULT has a case that is not empty.
\<close>

definition some_case :: "JZASTNode list \<Rightarrow> bool" where
  "some_case cases \<longleftrightarrow> \<not> has_default cases \<or> list_ex (\<lambda>c. case_body c \<noteq> []) cases"

function nested_ok :: "JZASTNode list \<Rightarrow> bool" where
  "nested_ok [] = True"
| "nested_ok (s # ss) \<longleftrightarrow>
     nested_ok ss \<and>
     (case node_type s of
        JZ_AST_STMT_IF \<Rightarrow> take_chain ss = ([], ss) \<and> nested_ok (branch_body s)
      | JZ_AST_STMT_SELECT \<Rightarrow> some_case (tl (children s)) \<and> list_all (\<lambda>c. nested_ok (case_body c)) (tl (children s))
      | JZ_AST_BLOCK \<Rightarrow> nested_ok (children s)
      | _ \<Rightarrow> True)"
  by pat_completeness auto
termination
  by (relation "measure (\<lambda>ss. Suc (2 * size_list size ss))") (auto simp: size_body_less)

function block_ok :: "JZASTNode list \<Rightarrow> bool" where
  "block_ok [] = True"
| "block_ok (s # ss) \<longleftrightarrow>
     (if node_type s = JZ_AST_STMT_IF
      then (case take_chain ss of (chain, after) \<Rightarrow> list_all (\<lambda>b. nested_ok (branch_body b)) (s # chain) \<and> block_ok after)
      else nested_ok [s] \<and> block_ok ss)"
  by pat_completeness auto
termination
  by (relation "measure length") (auto simp: less_Suc_eq_le dest: take_chain_length [OF sym])

section \<open>Every execution is covered\<close>

lemma analyze_if:
  "node_type s = JZ_AST_STMT_IF \<Longrightarrow> sem_comb_analyze_stmt sc s paths =
     limit_paths (concat (map (\<lambda>base. sem_comb_analyze_body sc (branch_body s) [base] @ [base]) paths))"
  by (simp add: sem_comb_analyze_stmt.simps)

definition case_paths :: "JZModuleScope \<Rightarrow> JZASTNode list \<Rightarrow> CombPath \<Rightarrow> CombPath list" where
  "case_paths sc cases base =
     concat (map (\<lambda>c. if case_body c = [] then [] else sem_comb_analyze_body sc (case_body c) [base]) cases) @
     (if has_default cases then [] else [base])"

lemma analyze_select:
  assumes "node_type s = JZ_AST_STMT_SELECT" "length paths \<le> 256 \<or> 2 \<le> length (children s)"
  shows "sem_comb_analyze_stmt sc s paths = limit_paths (concat (map (case_paths sc (tl (children s))) paths))"
proof (cases "length (children s) < 2")
  case True
  then have "tl (children s) = []" by (cases "children s") auto
  then have "case_paths sc (tl (children s)) = (\<lambda>base. [base])" by (auto simp: case_paths_def has_default_def)
  then show ?thesis using assms True by (simp add: sem_comb_analyze_stmt.simps limit_paths_id concat_map_singleton)
next
  case False
  then show ?thesis using assms by (simp add: sem_comb_analyze_stmt.simps Let_def case_paths_def [abs_def])
qed

lemma select_few: "node_type s = JZ_AST_STMT_SELECT \<Longrightarrow> length (children s) < 2 \<Longrightarrow> sem_comb_analyze_stmt sc s paths = paths"
  by (simp add: sem_comb_analyze_stmt.simps)

lemma analyze_assign:
  "node_type s = JZ_AST_STMT_ASSIGN \<Longrightarrow> sem_comb_analyze_stmt sc s paths = map (\<lambda>p. p @ assign_edges sc s) paths"
  by (simp add: sem_comb_analyze_stmt.simps sem_comb_record_edges_for_assign_def)

lemma analyze_nested: "node_type s = JZ_AST_BLOCK \<Longrightarrow> sem_comb_analyze_stmt sc s paths = sem_comb_analyze_body sc (children s) paths"
  by (simp add: sem_comb_analyze_stmt.simps)

lemma analyze_other:
  "node_type s \<notin> {JZ_AST_STMT_ASSIGN, JZ_AST_STMT_IF, JZ_AST_STMT_SELECT, JZ_AST_BLOCK} \<Longrightarrow> sem_comb_analyze_stmt sc s paths = paths"
  by (cases "node_type s") (simp_all add: sem_comb_analyze_stmt.simps)

definition covers :: "CombPath list \<Rightarrow> JZCombEdge set \<Rightarrow> bool" where
  "covers paths E \<longleftrightarrow> (\<exists>q \<in> set paths. E \<subseteq> set q)"

lemma covers_limit: "covers paths E \<Longrightarrow> covers (limit_paths paths) E"
  using limit_paths_covers unfolding covers_def by (meson subset_trans)

lemma covers_concat: "p \<in> set paths \<Longrightarrow> covers (f p) E \<Longrightarrow> covers (concat (map f paths)) E"
  unfolding covers_def by auto

text \<open>What covers the edges of a path covers them after more statements.\<close>

lemma analyze_body_extends:
  "nested_ok ss \<Longrightarrow> covers paths E \<Longrightarrow> covers (sem_comb_analyze_body sc ss paths) E"
proof (induction ss arbitrary: paths E rule: nested_ok.induct)
  case (2 s ss)
  obtain p where p: "p \<in> set paths" "E \<subseteq> set p" using 2(6) unfolding covers_def by blast
  have one: "covers [p] E" using p unfolding covers_def by simp
  have "covers (sem_comb_analyze_stmt sc s paths) E"
  proof (cases "node_type s")
    case JZ_AST_STMT_ASSIGN
    then show ?thesis using p by (auto simp: analyze_assign covers_def)
  next
    case JZ_AST_STMT_IF
    show ?thesis unfolding analyze_if [OF JZ_AST_STMT_IF]
      by (rule covers_limit, rule covers_concat [OF p(1)]) (use p(2) in \<open>auto simp: covers_def\<close>)
  next
    case JZ_AST_STMT_SELECT
    show ?thesis
    proof (cases "length (children s) < 2")
      case False
      have ok: "some_case (tl (children s))" "\<And>c. c \<in> set (tl (children s)) \<Longrightarrow> nested_ok (case_body c)"
        using 2(5) JZ_AST_STMT_SELECT by (auto simp: list_all_iff)
      have "covers (case_paths sc (tl (children s)) p) E"
      proof (cases "has_default (tl (children s))")
        case True
        then obtain c where c: "c \<in> set (tl (children s))" "case_body c \<noteq> []" using ok(1) by (auto simp: some_case_def list_ex_iff)
        have "covers (sem_comb_analyze_body sc (case_body c) [p]) E" using 2(4) [OF JZ_AST_STMT_SELECT c(1) ok(2) [OF c(1)] one] .
        then show ?thesis using c unfolding case_paths_def covers_def by auto
      qed (use p(2) in \<open>auto simp: case_paths_def covers_def\<close>)
      then show ?thesis using False JZ_AST_STMT_SELECT p(1) by (simp add: analyze_select covers_limit covers_concat)
    qed (use 2(6) JZ_AST_STMT_SELECT select_few in simp)
  next
    case JZ_AST_BLOCK
    then show ?thesis using 2(2) [OF JZ_AST_BLOCK] 2(5,6) by (simp add: analyze_nested)
  qed (use 2(6) in \<open>simp_all add: analyze_other\<close>)
  then show ?case using 2(1) 2(5) by simp
qed simp

lemma covers_mono: "covers paths E \<Longrightarrow> F \<subseteq> E \<Longrightarrow> covers paths F"
  unfolding covers_def by blast

lemma covers_singleton: "p \<in> set paths \<Longrightarrow> covers paths (set p)"
  unfolding covers_def by blast

text \<open>An execution of nested statements, after any path.\<close>

definition run_covered :: "JZModuleScope \<Rightarrow> JZASTNode list \<Rightarrow> JZCombEdge set \<Rightarrow> bool" where
  "run_covered sc ss E \<longleftrightarrow> (\<forall>paths P. covers paths P \<longrightarrow> covers (sem_comb_analyze_body sc ss paths) (P \<union> E))"

lemma run_covered_Cons:
  assumes "run_covered sc ss F" "\<And>paths P. covers paths P \<Longrightarrow> covers (sem_comb_analyze_stmt sc s paths) (P \<union> E)"
  shows "run_covered sc (s # ss) (E \<union> F)"
  using assms unfolding run_covered_def by (simp add: Un_assoc [symmetric])

lemma case_paths_cover:
  assumes "some_case cases" "\<And>c. c \<in> set cases \<Longrightarrow> nested_ok (case_body c)" "P \<subseteq> set p"
  shows "covers (case_paths sc cases p) P"
proof (cases "has_default cases")
  case True
  then obtain c where c: "c \<in> set cases" "case_body c \<noteq> []" using assms(1) by (auto simp: some_case_def list_ex_iff)
  have "covers (sem_comb_analyze_body sc (case_body c) [p]) P"
    using analyze_body_extends [OF assms(2) [OF c(1)], of "[p]" P] assms(3) by (simp add: covers_def)
  then show ?thesis using c unfolding case_paths_def covers_def by auto
qed (use assms(3) in \<open>auto simp: case_paths_def covers_def\<close>)

lemma runs_covered: "runs sc ss E \<Longrightarrow> nested_ok ss \<Longrightarrow> run_covered sc ss E"
proof (induction rule: runs.induct)
  case run_end
  then show ?case by (simp add: run_covered_def)
next
  case (run_assign s ss F)
  have "covers (sem_comb_analyze_stmt sc s paths) (P \<union> set (assign_edges sc s))" if "covers paths P" for paths P
    using that run_assign.hyps(1) unfolding covers_def by (auto simp: analyze_assign)
  then show ?case using run_covered_Cons run_assign by simp
next
  case (run_if s ss chain after b E F)
  have c: "chain = []" "after = ss" "b = s" "nested_ok (branch_body s)" "nested_ok ss" using run_if.hyps(1-3) run_if.prems by auto
  have "covers (sem_comb_analyze_stmt sc s paths) (P \<union> E)" if P: "covers paths P" for paths P
  proof -
    obtain p where p: "p \<in> set paths" "P \<subseteq> set p" using P unfolding covers_def by blast
    have "covers (sem_comb_analyze_body sc (branch_body s) [p]) (P \<union> E)"
      using run_if.IH(1) c p(2) unfolding run_covered_def by (simp add: covers_def)
    then have "covers (sem_comb_analyze_body sc (branch_body s) [p] @ [p]) (P \<union> E)" unfolding covers_def by auto
    then show ?thesis unfolding analyze_if [OF run_if.hyps(1)] by (intro covers_limit covers_concat [OF p(1)])
  qed
  then show ?case using run_covered_Cons run_if.IH(2) c by simp
next
  case (run_no_branch s ss chain after F)
  have c: "after = ss" "nested_ok ss" "nested_ok [s]" using run_no_branch.hyps(1,2) run_no_branch.prems by auto
  have "covers (sem_comb_analyze_stmt sc s paths) (P \<union> {})" if "covers paths P" for paths P
    using analyze_body_extends [OF c(3) that, of sc] by simp
  then show ?case using run_covered_Cons [of sc ss F s "{}"] run_no_branch.IH c by simp
next
  case (run_select s c E ss F)
  have ok: "some_case (tl (children s))" "\<And>c. c \<in> set (tl (children s)) \<Longrightarrow> nested_ok (case_body c)" "nested_ok ss"
    using run_select.hyps(1) run_select.prems by (auto simp: list_all_iff)
  have l: "2 \<le> length (children s)" using run_select.hyps(2) by (cases "children s"; cases "tl (children s)") auto
  have "covers (sem_comb_analyze_stmt sc s paths) (P \<union> E)" if P: "covers paths P" for paths P
  proof -
    obtain p where p: "p \<in> set paths" "P \<subseteq> set p" using P unfolding covers_def by blast
    have "covers (case_paths sc (tl (children s)) p) (P \<union> E)"
    proof (cases "case_body c = []")
      case True
      then have "E = {}" using run_select.hyps(3) by (auto elim: runs_NilE)
      then show ?thesis using case_paths_cover [OF ok(1,2) p(2)] by simp
    next
      case False
      have "covers (sem_comb_analyze_body sc (case_body c) [p]) (P \<union> E)"
        using run_select.IH(1) ok(2) [OF run_select.hyps(2)] p(2) unfolding run_covered_def by (simp add: covers_def)
      then show ?thesis using False run_select.hyps(2) unfolding case_paths_def covers_def by auto
    qed
    then show ?thesis using analyze_select [OF run_select.hyps(1)] l by (simp add: covers_limit covers_concat [OF p(1)])
  qed
  then show ?case using run_covered_Cons run_select.IH(2) ok(3) by simp
next
  case (run_no_case s ss F)
  have c: "nested_ok ss" "nested_ok [s]" using run_no_case.hyps(1) run_no_case.prems by auto
  have "covers (sem_comb_analyze_stmt sc s paths) (P \<union> {})" if "covers paths P" for paths P
    using analyze_body_extends [OF c(2) that, of sc] by simp
  then show ?case using run_covered_Cons [of sc ss F s "{}"] run_no_case.IH c by simp
next
  case (run_block s E ss F)
  have c: "nested_ok ss" "nested_ok (children s)" using run_block.hyps(1) run_block.prems by auto
  have "covers (sem_comb_analyze_stmt sc s paths) (P \<union> E)" if "covers paths P" for paths P
    using run_block.IH(1) [OF c(2)] that analyze_nested [OF run_block.hyps(1)] unfolding run_covered_def by simp
  then show ?case using run_covered_Cons run_block.IH(2) c by simp
next
  case (run_other s ss F)
  then show ?case using run_covered_Cons [of sc ss F s "{}"] by (simp add: analyze_other)
qed

text \<open>The chains of a block.\<close>

lemma runs_ConsE_nonif:
  assumes "runs sc (s # ss) E" "node_type s \<noteq> JZ_AST_STMT_IF"
  obtains F G where "runs sc [s] F" "runs sc ss G" "E = F \<union> G"
  using assms(1)
proof cases
  case run_assign
  then show ?thesis using that [of "set (assign_edges sc s) \<union> {}"] runs.run_assign [OF _ run_end] by simp
next
  case (run_select c F G)
  then show ?thesis using that [of "F \<union> {}" G] runs.run_select [OF run_select(2-4) run_end] run_select by simp
next
  case run_no_case
  then show ?thesis using that [of "{}" E] runs.run_no_case [OF _ _ run_end] by simp
next
  case (run_block F G)
  then show ?thesis using that [of "F \<union> {}" G] runs.run_block [OF run_block(2,3) run_end] run_block by simp
next
  case run_other
  then show ?thesis using that [of "{}" E] runs.run_other [OF _ run_end] by simp
qed (use assms(2) in simp_all)

lemma chain_covered:
  assumes "b \<in> set chain" "run_covered sc (branch_body b) E" "covers paths P"
  shows "covers (sem_comb_analyze_if_chain sc chain paths) (P \<union> E)"
proof -
  obtain p where p: "p \<in> set paths" "P \<subseteq> set p" using assms(3) unfolding covers_def by blast
  have "covers (sem_comb_analyze_body sc (branch_body b) [p]) (P \<union> E)" using assms(2) p(2) unfolding run_covered_def by (simp add: covers_def)
  then have "covers (concat (map (\<lambda>b. sem_comb_analyze_body sc (branch_body b) [p]) chain) @ (if has_else chain then [] else [p])) (P \<union> E)"
    using assms(1) unfolding covers_def by auto
  then show ?thesis unfolding sem_comb_analyze_if_chain_def by (intro covers_limit covers_concat [OF p(1)])
qed

lemma block_runs_covered:
  "block_ok ss \<Longrightarrow> runs sc ss E \<Longrightarrow> covers paths P \<Longrightarrow> covers (analyze_block sc ss paths) (P \<union> E)"
proof (induction sc ss paths arbitrary: E P rule: analyze_block.induct)
  case (1 sc paths)
  then show ?case by (auto elim: runs_NilE)
next
  case (2 sc s ss paths)
  show ?case
  proof (cases "node_type s = JZ_AST_STMT_IF")
    case True
    obtain chain after where t: "take_chain ss = (chain, after)" by fastforce
    have ok: "\<And>b. b \<in> set (s # chain) \<Longrightarrow> nested_ok (branch_body b)" "block_ok after" using 2(3) True t by (auto simp: list_all_iff)
    note IH = 2(1) [OF True t [symmetric] ok(2)]
    from 2(4) show ?thesis
    proof cases
      case (run_if chain' after' b F G)
      then have b: "b \<in> set (s # chain)" "runs sc after G" using t by simp_all
      have "covers (sem_comb_analyze_if_chain sc (s # chain) paths) (P \<union> F)"
        using chain_covered [OF b(1) runs_covered [OF run_if(5) ok(1) [OF b(1)]] 2(5)] .
      from IH [OF b(2) this] show ?thesis using True t run_if(1) by (simp add: Un_assoc)
    next
      case (run_no_branch chain' after')
      then have b: "\<not> has_else (s # chain)" "runs sc after E" using t by simp_all
      obtain p where p: "p \<in> set paths" "P \<subseteq> set p" using 2(5) unfolding covers_def by blast
      have "covers (sem_comb_analyze_if_chain sc (s # chain) paths) P"
        unfolding sem_comb_analyze_if_chain_def
        by (rule covers_limit, rule covers_concat [OF p(1)]) (use b(1) p(2) in \<open>auto simp: covers_def\<close>)
      from IH [OF b(2) this] show ?thesis using True t by simp
    qed (use True in simp_all)
  next
    case False
    obtain F G where E: "runs sc [s] F" "runs sc ss G" "E = F \<union> G" using runs_ConsE_nonif [OF 2(4) False] .
    have ok: "nested_ok [s]" "block_ok ss" using 2(3) False by simp_all
    have "covers (sem_comb_analyze_stmt sc s paths) (P \<union> F)"
      using runs_covered [OF E(1) ok(1)] 2(5) unfolding run_covered_def by simp
    from 2(2) [OF False ok(2) E(2) this] show ?thesis using False E(3) by (simp add: Un_assoc)
  qed
qed

end
