(* ===== verification/Comb_Loop_Exact.thy ===== *)
theory Comb_Loop_Exact
  imports Comb_Loop_Sound
begin

text \<open>
  While no more than 256 paths arise, every path of the loop check is the set of edges of one
  execution, so that the check reports an unconditional loop exactly when an execution has one.
\<close>

section \<open>The number of paths\<close>

definition case_count :: "(JZASTNode list \<Rightarrow> nat) \<Rightarrow> JZASTNode list \<Rightarrow> nat" where
  "case_count f cases = sum_list (map (\<lambda>c. if case_body c = [] then 0 else f (case_body c)) cases) + (if has_default cases then 0 else 1)"

lemma case_count_cong [fundef_cong]:
  "cs = ds \<Longrightarrow> (\<And>c. c \<in> set ds \<Longrightarrow> f (case_body c) = g (case_body c)) \<Longrightarrow> case_count f cs = case_count g ds"
  unfolding case_count_def by (auto intro!: arg_cong [where f = sum_list] map_cong)

function path_count :: "JZASTNode list \<Rightarrow> nat" where
  "path_count [] = 1"
| "path_count (s # ss) =
     (case node_type s of
        JZ_AST_STMT_IF \<Rightarrow> path_count (branch_body s) + 1
      | JZ_AST_STMT_SELECT \<Rightarrow> case_count path_count (tl (children s))
      | JZ_AST_BLOCK \<Rightarrow> path_count (children s)
      | _ \<Rightarrow> 1) * path_count ss"
  by pat_completeness auto
termination
  by (relation "measure (\<lambda>ss. Suc (2 * size_list size ss))") (auto simp: size_body_less)

function block_paths :: "JZASTNode list \<Rightarrow> nat" where
  "block_paths [] = 1"
| "block_paths (s # ss) =
     (if node_type s = JZ_AST_STMT_IF
      then (case take_chain ss of (chain, after) \<Rightarrow>
             (sum_list (map (\<lambda>b. path_count (branch_body b)) (s # chain)) + (if has_else (s # chain) then 0 else 1)) * block_paths after)
      else path_count [s] * block_paths ss)"
  by pat_completeness auto
termination
  by (relation "measure length") (auto simp: less_Suc_eq_le dest: take_chain_length [OF sym])

section \<open>Nested statements\<close>

text \<open>The paths are executions of \<open>ss\<close> that go on from the given paths.\<close>

definition exact :: "JZModuleScope \<Rightarrow> JZASTNode list \<Rightarrow> CombPath list \<Rightarrow> CombPath list \<Rightarrow> bool" where
  "exact sc ss paths paths' \<longleftrightarrow> (\<forall>q \<in> set paths'. \<exists>p \<in> set paths. \<exists>E. runs sc ss E \<and> set q = set p \<union> E)"

lemma runs_Cons:
  assumes "runs sc [s] E" "runs sc ss F" "node_type s = JZ_AST_STMT_IF \<longrightarrow> take_chain ss = ([], ss)"
  shows "runs sc (s # ss) (E \<union> F)"
  using assms(1)
proof cases
  case (run_assign G)
  then have "G = {}" by (auto elim: runs_NilE)
  then show ?thesis using runs.run_assign [OF run_assign(2) assms(2)] run_assign(1) by simp
next
  case (run_if chain after b G H)
  then have "H = {}" "b = s" by (auto elim: runs_NilE)
  then show ?thesis using runs.run_if [OF run_if(2), of ss "[]" ss s sc G F] assms(2,3) run_if by simp
next
  case (run_no_branch chain after)
  then have "E = {}" "chain = []" by (auto elim: runs_NilE)
  then show ?thesis using runs.run_no_branch [OF run_no_branch(1), of ss "[]" ss sc F] assms(2,3) run_no_branch by simp
next
  case (run_select c G H)
  then have "H = {}" by (auto elim: runs_NilE)
  then show ?thesis using runs.run_select [OF run_select(2-4) assms(2)] run_select(1) by simp
next
  case run_no_case
  then have "E = {}" by (auto elim: runs_NilE)
  then show ?thesis using runs.run_no_case [OF run_no_case(1,2) assms(2)] by simp
next
  case (run_block G H)
  then have "H = {}" by (auto elim: runs_NilE)
  then show ?thesis using runs.run_block [OF run_block(2,3) assms(2)] run_block(1) by simp
next
  case run_other
  then have "E = {}" by (auto elim: runs_NilE)
  then show ?thesis using runs.run_other [OF run_other(1) assms(2)] by simp
qed

lemma exact_Cons:
  assumes "exact sc [s] paths ps" "exact sc ss ps qs" "node_type s = JZ_AST_STMT_IF \<longrightarrow> take_chain ss = ([], ss)"
  shows "exact sc (s # ss) paths qs"
  unfolding exact_def
proof
  fix q assume "q \<in> set qs"
  then obtain r F where r: "r \<in> set ps" "runs sc ss F" "set q = set r \<union> F" using assms(2) unfolding exact_def by blast
  then obtain p E where p: "p \<in> set paths" "runs sc [s] E" "set r = set p \<union> E" using assms(1) unfolding exact_def by blast
  show "\<exists>p \<in> set paths. \<exists>E. runs sc (s # ss) E \<and> set q = set p \<union> E"
    using runs_Cons [OF p(2) r(2) assms(3)] p(1,3) r(3) by (metis Un_assoc)
qed

text \<open>The paths after one statement, if each path gives \<open>n\<close> paths.\<close>

lemma exact_concat:
  assumes "\<And>p. p \<in> set paths \<Longrightarrow> length (f p) = n \<and> exact sc ss [p] (f p)" "n * length paths \<le> 256"
  shows "length (limit_paths (concat (map f paths))) = n * length paths \<and> exact sc ss paths (limit_paths (concat (map f paths)))"
proof -
  have "length (concat (map f paths)) = n * length paths" using assms(1) by (induction paths) auto
  then have l: "limit_paths (concat (map f paths)) = concat (map f paths)" "length (concat (map f paths)) = n * length paths"
    using limit_paths_id assms(2) by simp_all
  have "exact sc ss paths (concat (map f paths))" using assms(1) unfolding exact_def by fastforce
  then show ?thesis using l by simp
qed

lemma exact_id: "runs sc [s] {} \<Longrightarrow> exact sc [s] paths paths"
  unfolding exact_def by (metis Un_empty_right)

lemma exact_append: "exact sc ss ps xs \<Longrightarrow> exact sc ss ps ys \<Longrightarrow> exact sc ss ps (xs @ ys)"
  unfolding exact_def by auto

lemma path_count_pos: "nested_ok ss \<Longrightarrow> 0 < path_count ss"
proof (induction ss rule: nested_ok.induct)
  case (2 s ss)
  have "0 < case_count path_count (tl (children s))" if s: "node_type s = JZ_AST_STMT_SELECT"
  proof (cases "has_default (tl (children s))")
    case True
    then obtain c where c: "c \<in> set (tl (children s))" "case_body c \<noteq> []"
      using 2(5) s by (auto simp: some_case_def list_ex_iff)
    have "nested_ok (case_body c)" using 2(5) s c(1) by (auto simp: list_all_iff)
    then have "0 < path_count (case_body c)" using 2(4) [OF s c(1)] by simp
    moreover have "path_count (case_body c) \<in> set (map (\<lambda>c. if case_body c = [] then 0 else path_count (case_body c)) (tl (children s)))"
      using c by force
    ultimately show ?thesis unfolding case_count_def by (metis add_gr_0 gr_zeroI sum_list_eq_0_iff zero_less_iff_neq_zero)
  qed (simp add: case_count_def)
  then show ?case using 2(1-3,5) by (cases "node_type s") simp_all
qed simp

lemma case_paths_exact:
  assumes s: "node_type s = JZ_AST_STMT_SELECT"
    and IH: "\<And>c. c \<in> set (tl (children s)) \<Longrightarrow> case_body c \<noteq> [] \<Longrightarrow>
      length (sem_comb_analyze_body sc (case_body c) [p]) = path_count (case_body c) \<and>
      exact sc (case_body c) [p] (sem_comb_analyze_body sc (case_body c) [p])"
  shows "length (case_paths sc (tl (children s)) p) = case_count path_count (tl (children s)) \<and>
    exact sc [s] [p] (case_paths sc (tl (children s)) p)"
proof
  have "length (concat (map (\<lambda>c. if case_body c = [] then [] else sem_comb_analyze_body sc (case_body c) [p]) cs)) =
      sum_list (map (\<lambda>c. if case_body c = [] then 0 else path_count (case_body c)) cs)" if "set cs \<subseteq> set (tl (children s))" for cs
    using that IH by (induction cs) auto
  then show "length (case_paths sc (tl (children s)) p) = case_count path_count (tl (children s))"
    by (simp add: case_paths_def case_count_def)
  show "exact sc [s] [p] (case_paths sc (tl (children s)) p)"
    unfolding exact_def
  proof
    fix q assume "q \<in> set (case_paths sc (tl (children s)) p)"
    then consider "q = p" "\<not> has_default (tl (children s))"
      | c where "c \<in> set (tl (children s))" "case_body c \<noteq> []" "q \<in> set (sem_comb_analyze_body sc (case_body c) [p])"
      by (auto simp: case_paths_def split: if_splits)
    then show "\<exists>p' \<in> set [p]. \<exists>E. runs sc [s] E \<and> set q = set p' \<union> E"
    proof cases
      case 1
      then show ?thesis using run_no_case [OF s _ run_end] by auto
    next
      case 2
      then obtain E where "runs sc (case_body c) E" "set q = set p \<union> E" using IH unfolding exact_def by fastforce
      then show ?thesis using run_select [OF s 2(1) _ run_end] by fastforce
    qed
  qed
qed

lemma analyze_body_exact:
  "nested_ok ss \<Longrightarrow> path_count ss * length paths \<le> 256 \<Longrightarrow>
     length (sem_comb_analyze_body sc ss paths) = path_count ss * length paths \<and> exact sc ss paths (sem_comb_analyze_body sc ss paths)"
proof (induction ss arbitrary: paths rule: nested_ok.induct)
  case 1
  show ?case using run_end unfolding exact_def by (auto simp del: Un_iff)
next
  case (2 s ss)
  define n where "n = (case node_type s of
        JZ_AST_STMT_IF \<Rightarrow> path_count (branch_body s) + 1
      | JZ_AST_STMT_SELECT \<Rightarrow> case_count path_count (tl (children s))
      | JZ_AST_BLOCK \<Rightarrow> path_count (children s)
      | _ \<Rightarrow> 1)"
  have pc: "path_count (s # ss) = n * path_count ss" by (simp add: n_def)
  have ok: "nested_ok ss" "node_type s = JZ_AST_STMT_IF \<longrightarrow> take_chain ss = ([], ss)" using 2(5) by auto
  have nl: "n * length paths \<le> 256"
    using 2(6) path_count_pos [OF ok(1)] unfolding pc by (metis (no_types) le_trans mult.assoc mult.commute mult_le_mono2 nat_mult_1 Suc_leI One_nat_def)
  have stmt: "length (sem_comb_analyze_stmt sc s paths) = n * length paths \<and> exact sc [s] paths (sem_comb_analyze_stmt sc s paths)"
  proof (cases "node_type s")
    case JZ_AST_STMT_ASSIGN
    have "runs sc [s] (set (assign_edges sc s))" using run_assign [OF JZ_AST_STMT_ASSIGN run_end] by simp
    then show ?thesis using JZ_AST_STMT_ASSIGN by (auto simp: analyze_assign exact_def n_def)
  next
    case JZ_AST_STMT_IF
    have n: "n = path_count (branch_body s) + 1" by (simp add: n_def JZ_AST_STMT_IF)
    have "length (sem_comb_analyze_body sc (branch_body s) [p] @ [p]) = n \<and> exact sc [s] [p] (sem_comb_analyze_body sc (branch_body s) [p] @ [p])"
      if p: "p \<in> set paths" for p
    proof -
      have "0 < length paths" using p by (cases paths) auto
      then have "path_count (branch_body s) \<le> 256" using nl unfolding n by (cases "length paths") auto
      then have I: "length (sem_comb_analyze_body sc (branch_body s) [p]) = path_count (branch_body s)"
        "exact sc (branch_body s) [p] (sem_comb_analyze_body sc (branch_body s) [p])"
        using 2(3) [OF JZ_AST_STMT_IF, of "[p]"] 2(5) JZ_AST_STMT_IF by auto
      have r: "\<And>E. runs sc (branch_body s) E \<Longrightarrow> runs sc [s] E"
        using run_if [OF JZ_AST_STMT_IF take_chain.simps(1) _ _ run_end, of s] by simp
      have "runs sc [s] {}" using run_no_branch [OF JZ_AST_STMT_IF take_chain.simps(1) _ run_end] JZ_AST_STMT_IF by (simp add: has_else_def)
      then have "exact sc [s] [p] [p]" by (rule exact_id)
      moreover have "exact sc [s] [p] (sem_comb_analyze_body sc (branch_body s) [p])" using I(2) r unfolding exact_def by blast
      ultimately show ?thesis using I(1) n exact_append by simp
    qed
    then show ?thesis unfolding analyze_if [OF JZ_AST_STMT_IF] by (rule exact_concat [OF _ nl])
  next
    case JZ_AST_STMT_SELECT
    have n: "n = case_count path_count (tl (children s))" by (simp add: n_def JZ_AST_STMT_SELECT)
    show ?thesis
    proof (cases "length (children s) < 2")
      case True
      then have e: "tl (children s) = []" by (cases "children s") auto
      have "runs sc [s] {}" using run_no_case [OF JZ_AST_STMT_SELECT _ run_end] e by (simp add: has_default_def)
      then show ?thesis using select_few [OF JZ_AST_STMT_SELECT True] exact_id e by (simp add: n case_count_def has_default_def)
    next
      case False
      have "length (case_paths sc (tl (children s)) p) = n \<and> exact sc [s] [p] (case_paths sc (tl (children s)) p)" if p: "p \<in> set paths" for p
        unfolding n
      proof (rule case_paths_exact [OF JZ_AST_STMT_SELECT])
        fix c assume c: "c \<in> set (tl (children s))" "case_body c \<noteq> []"
        have "0 < length paths" using p by (cases paths) auto
        then have "n \<le> 256" using nl by (cases "length paths") auto
        moreover have "path_count (case_body c) \<le> n"
          using member_le_sum_list [of "path_count (case_body c)" "map (\<lambda>c. if case_body c = [] then 0 else path_count (case_body c)) (tl (children s))"] c
          unfolding n case_count_def by force
        moreover have "nested_ok (case_body c)" using 2(5) JZ_AST_STMT_SELECT c(1) by (auto simp: list_all_iff)
        ultimately show "length (sem_comb_analyze_body sc (case_body c) [p]) = path_count (case_body c) \<and>
            exact sc (case_body c) [p] (sem_comb_analyze_body sc (case_body c) [p])"
          using 2(4) [OF JZ_AST_STMT_SELECT c(1), of "[p]"] by simp
      qed
      then have "length (limit_paths (concat (map (case_paths sc (tl (children s))) paths))) = n * length paths \<and>
          exact sc [s] paths (limit_paths (concat (map (case_paths sc (tl (children s))) paths)))"
        by (rule exact_concat [OF _ nl])
      then show ?thesis using analyze_select [OF JZ_AST_STMT_SELECT] False by simp
    qed
  next
    case JZ_AST_BLOCK
    have r: "\<And>E. runs sc (children s) E \<Longrightarrow> runs sc [s] E" using run_block [OF JZ_AST_BLOCK _ run_end] by simp
    have n: "n = path_count (children s)" by (simp add: n_def JZ_AST_BLOCK)
    have "nested_ok (children s)" using 2(5) JZ_AST_BLOCK by simp
    from 2(2) [OF JZ_AST_BLOCK this nl [unfolded n]] show ?thesis
      using r unfolding analyze_nested [OF JZ_AST_BLOCK] exact_def n by blast
  qed (use run_other [of s sc "[]" "{}"] run_end exact_id in \<open>simp_all add: analyze_other n_def\<close>)
  have "path_count ss * length (sem_comb_analyze_stmt sc s paths) \<le> 256" using 2(6) stmt unfolding pc by (simp add: ac_simps)
  then have "length (sem_comb_analyze_body sc ss (sem_comb_analyze_stmt sc s paths)) = path_count ss * (n * length paths) \<and>
      exact sc ss (sem_comb_analyze_stmt sc s paths) (sem_comb_analyze_body sc ss (sem_comb_analyze_stmt sc s paths))"
    using 2(1) [OF ok(1)] stmt by simp
  then show ?case using exact_Cons [OF conjunct2 [OF stmt] _ ok(2)] unfolding pc by (simp add: ac_simps)
qed

section \<open>Blocks\<close>

lemma branch_paths_exact:
  assumes s: "node_type s = JZ_AST_STMT_IF" and t: "take_chain ss = (chain, after)"
    and ok: "\<And>b. b \<in> set (s # chain) \<Longrightarrow> nested_ok (branch_body b)"
    and n: "n = sum_list (map (\<lambda>b. path_count (branch_body b)) (s # chain)) + (if has_else (s # chain) then 0 else 1)"
    and nl: "n * length paths \<le> 256"
  shows "length (sem_comb_analyze_if_chain sc (s # chain) paths) = n * length paths \<and>
    (\<forall>q \<in> set (sem_comb_analyze_if_chain sc (s # chain) paths). \<exists>p \<in> set paths. \<exists>E. set q = set p \<union> E \<and>
       (\<forall>F. runs sc after F \<longrightarrow> runs sc (s # ss) (E \<union> F)))"
proof -
  let ?f = "\<lambda>base. concat (map (\<lambda>b. sem_comb_analyze_body sc (branch_body b) [base]) (s # chain)) @ (if has_else (s # chain) then [] else [base])"
  have one: "length (sem_comb_analyze_body sc (branch_body b) [p]) = path_count (branch_body b) \<and>
      exact sc (branch_body b) [p] (sem_comb_analyze_body sc (branch_body b) [p])" if b: "b \<in> set (s # chain)" and p: "p \<in> set paths" for b p
  proof -
    have "0 < length paths" using p by (cases paths) auto
    then have "n \<le> 256" using nl by (cases "length paths") auto
    moreover have "path_count (branch_body b) \<le> n"
      using member_le_sum_list [of "path_count (branch_body b)" "map (\<lambda>b. path_count (branch_body b)) (s # chain)"] b unfolding n by force
    ultimately show ?thesis using analyze_body_exact [OF ok [OF b], of "[p]" sc] by simp
  qed
  have "length (?f p) = n" if p: "p \<in> set paths" for p
  proof -
    have "length (concat (map (\<lambda>b. sem_comb_analyze_body sc (branch_body b) [p]) bs)) = sum_list (map (\<lambda>b. path_count (branch_body b)) bs)"
      if "set bs \<subseteq> set (s # chain)" for bs
      using that one p by (induction bs) auto
    from this [of "s # chain"] show ?thesis by (simp add: n)
  qed
  then have l: "length (concat (map ?f paths)) = n * length paths" by (induction paths) auto
  then have e: "sem_comb_analyze_if_chain sc (s # chain) paths = concat (map ?f paths)"
    using nl unfolding sem_comb_analyze_if_chain_def by (simp add: limit_paths_id)
  have "\<exists>p \<in> set paths. \<exists>E. set q = set p \<union> E \<and> (\<forall>F. runs sc after F \<longrightarrow> runs sc (s # ss) (E \<union> F))"
    if "q \<in> set (concat (map ?f paths))" for q
  proof -
    from that obtain p where p: "p \<in> set paths" "q \<in> set (?f p)" by auto
    then consider b where "b \<in> set (s # chain)" "q \<in> set (sem_comb_analyze_body sc (branch_body b) [p])" | "q = p" "\<not> has_else (s # chain)"
      by (auto split: if_splits)
    then show ?thesis
    proof cases
      case 1
      then obtain E where E: "runs sc (branch_body b) E" "set q = set p \<union> E" using one [OF 1(1) p(1)] unfolding exact_def by auto
      then show ?thesis using p(1) run_if [OF s t 1(1) E(1)] by blast
    next
      case 2
      have "set q = set p \<union> {}" "\<forall>F. runs sc after F \<longrightarrow> runs sc (s # ss) ({} \<union> F)" using 2 run_no_branch [OF s t 2(2)] by auto
      then show ?thesis using p(1) by blast
    qed
  qed
  then show ?thesis using e l by simp
qed

lemma block_paths_pos: "block_ok ss \<Longrightarrow> 0 < block_paths ss"
proof (induction ss rule: block_ok.induct)
  case (2 s ss)
  then show ?case using path_count_pos [of "branch_body s"] path_count_pos [of "[s]"]
    by (auto simp: list_all_iff split: prod.splits)
qed simp

lemma block_exact:
  "block_ok ss \<Longrightarrow> block_paths ss * length paths \<le> 256 \<Longrightarrow> exact sc ss paths (analyze_block sc ss paths)"
proof (induction sc ss paths rule: analyze_block.induct)
  case (1 sc paths)
  show ?case using run_end unfolding exact_def by auto
next
  case (2 sc s ss paths)
  show ?case
  proof (cases "node_type s = JZ_AST_STMT_IF")
    case True
    obtain chain after where t: "take_chain ss = (chain, after)" by fastforce
    define n where "n = sum_list (map (\<lambda>b. path_count (branch_body b)) (s # chain)) + (if has_else (s # chain) then 0 else 1)"
    have ok: "\<And>b. b \<in> set (s # chain) \<Longrightarrow> nested_ok (branch_body b)" "block_ok after" using 2(3) True t by (auto simp: list_all_iff)
    have bp: "block_paths (s # ss) = n * block_paths after" using True t by (simp add: n_def)
    then have "n * length paths * block_paths after \<le> 256" using 2(4) by (simp add: ac_simps)
    then have nl: "n * length paths \<le> 256" using block_paths_pos [OF ok(2)] by (cases "block_paths after") auto
    let ?ps = "sem_comb_analyze_if_chain sc (s # chain) paths"
    have C: "length ?ps = n * length paths" "\<And>q. q \<in> set ?ps \<Longrightarrow> \<exists>p \<in> set paths. \<exists>E. set q = set p \<union> E \<and>
       (\<forall>F. runs sc after F \<longrightarrow> runs sc (s # ss) (E \<union> F))"
      using branch_paths_exact [OF True t ok(1) n_def nl, of sc] by blast+
    have "exact sc after ?ps (analyze_block sc after ?ps)"
      using 2(1) [OF True t [symmetric] ok(2)] 2(4) C(1) bp by (simp add: ac_simps)
    then have "exact sc (s # ss) paths (analyze_block sc after ?ps)"
      unfolding exact_def using C(2) by (metis Un_assoc)
    then show ?thesis using True t by simp
  next
    case False
    have ok: "nested_ok [s]" "block_ok ss" using 2(3) False by simp_all
    have "path_count [s] * length paths * block_paths ss \<le> 256" using 2(4) False by (simp add: ac_simps)
    then have nl: "path_count [s] * length paths \<le> 256" using block_paths_pos [OF ok(2)] by (cases "block_paths ss") auto
    have S: "length (sem_comb_analyze_stmt sc s paths) = path_count [s] * length paths" "exact sc [s] paths (sem_comb_analyze_stmt sc s paths)"
      using analyze_body_exact [OF ok(1) nl, of sc] by simp_all
    have "exact sc ss (sem_comb_analyze_stmt sc s paths) (analyze_block sc ss (sem_comb_analyze_stmt sc s paths))"
      using 2(2) [OF False ok(2)] 2(4) S(1) False by (simp add: ac_simps)
    then show ?thesis using exact_Cons [OF S(2)] False by simp
  qed
qed

section \<open>Loops\<close>

definition has_loop :: "nat \<Rightarrow> JZCombEdge set \<Rightarrow> bool" where
  "has_loop n E \<longleftrightarrow> (\<exists>v. (v, v) \<in> {(v, w). (v, w) \<in> E \<and> v < n \<and> w < n}\<^sup>+)"

lemma has_loop_mono: "has_loop n E \<Longrightarrow> E \<subseteq> F \<Longrightarrow> has_loop n F"
proof -
  assume "has_loop n E" "E \<subseteq> F"
  moreover have "E \<subseteq> F \<Longrightarrow> {(v, w). (v, w) \<in> E \<and> v < n \<and> w < n}\<^sup>+ \<subseteq> {(v, w). (v, w) \<in> F \<and> v < n \<and> w < n}\<^sup>+"
    by (intro trancl_mono_subset) auto
  ultimately show ?thesis unfolding has_loop_def by blast
qed

lemma has_loop_edges: "sem_comb_edgeset_has_cycle edges n \<longleftrightarrow> has_loop n (set edges)"
  by (simp add: edgeset_has_cycle_eq has_loop_def)

lemma has_loop_empty: "has_loop n E \<Longrightarrow> n \<noteq> 0 \<and> E \<noteq> {}"
proof -
  assume "has_loop n E"
  then obtain v where "(v, v) \<in> {(v, w). (v, w) \<in> E \<and> v < n \<and> w < n}\<^sup>+" unfolding has_loop_def by blast
  from tranclD [OF this] obtain z where "(v, z) \<in> {(v, w). (v, w) \<in> E \<and> v < n \<and> w < n}" by blast
  then show ?thesis by auto
qed

lemma any_path_has_cycle_eq: "sem_comb_any_path_has_cycle paths n \<longleftrightarrow> (\<exists>p \<in> set paths. has_loop n (set p))"
proof -
  have "p \<noteq> [] \<and> has_loop n (set p) \<longleftrightarrow> has_loop n (set p)" "n \<noteq> 0 \<and> has_loop n (set p) \<longleftrightarrow> has_loop n (set p)" for p
    using has_loop_empty [of n "set p"] by auto
  then show ?thesis unfolding sem_comb_any_path_has_cycle_def list_ex_iff has_loop_edges by blast
qed

lemma union_has_cycle_eq: "sem_comb_union_has_cycle paths n \<longleftrightarrow> has_loop n (\<Union> (set ` set paths))"
  unfolding sem_comb_union_has_cycle_def has_loop_edges set_concat using has_loop_empty by blast

end
