(* ===== verification/Comb_Loop_Props.thy ===== *)
theory Comb_Loop_Props
  imports Comb_Loop_Exact
begin

text \<open>
  The properties of the combinational loop check, and the loops it does not see: those in the
  ELSE of a nested IF, and all loops after a SELECT whose cases are all empty.
\<close>

section \<open>The searches\<close>

text \<open>C12. The search for a cycle is exact: the iterative three-colour search answers yes if and
  only if some net reaches itself through one or more of the given edges between existing nets.\<close>

theorem edgeset_has_cycle_correct:
  "sem_comb_edgeset_has_cycle edges n \<longleftrightarrow> (\<exists>v. (v, v) \<in> {(v, w). (v, w) \<in> set edges \<and> v < n \<and> w < n}\<^sup>+)"
  by (rule edgeset_has_cycle_eq)

text \<open>Note. The search for a path is exact: for two existing nets it answers yes if and only if the
  second can be reached from the first through one or more of the given edges.\<close>

theorem reachable_in_edgeset_correct:
  assumes "s < n" "d < n"
  shows "sem_comb_reachable_in_edgeset edges n s d \<longleftrightarrow>
    (s, d) \<in> {(v, w). (v, w) \<in> set edges \<and> v < n \<and> w < n}\<^sup>+"
  by (rule reachable_in_edgeset_eq [OF assms])

theorem reachable_in_edgeset_correct_witness:
  "(0, 2) \<in> {(v, w). (v, w) \<in> set [(1, 2), (0, 1)] \<and> v < 3 \<and> w < (3 :: nat)}\<^sup>+ \<and>
   (2, 0) \<notin> {(v, w). (v, w) \<in> set [(1, 2), (0, 1)] \<and> v < 3 \<and> w < (3 :: nat)}\<^sup>+"
proof -
  have "sem_comb_reachable_in_edgeset [(1, 2), (0, 1)] 3 0 2" "\<not> sem_comb_reachable_in_edgeset [(1, 2), (0, 1)] 3 2 0" by code_simp+
  then show ?thesis
    using reachable_in_edgeset_correct [of 0 3 2 "[(1, 2), (0, 1)]"] reachable_in_edgeset_correct [of 2 3 0 "[(1, 2), (0, 1)]"] by simp
qed

section \<open>The check of a block\<close>

lemma report_unconditional: "loop_report paths n = Some ''COMB_LOOP_UNCONDITIONAL'' \<longleftrightarrow> (\<exists>p \<in> set paths. has_loop n (set p))"
  by (auto simp: loop_report_def any_path_has_cycle_eq)

text \<open>A wire \<open>a\<close> with net 0 and a wire \<open>b\<close> with net 1.\<close>

definition no_loc :: JZLocation where
  "no_loc = \<lparr>loc_filename = [], loc_line = 0, loc_column = 0\<rparr>"

definition wire_symbol :: "string \<Rightarrow> JZSymbol" where
  "wire_symbol n = \<lparr>sym_name = n, sym_kind = JZ_SYM_WIRE, sym_id = 0, sym_width = None\<rparr>"

definition demo_module :: JZModuleScope where
  "demo_module = \<lparr>scope_node = jz_ast_new JZ_AST_MODULE no_loc, module_symbols = [wire_symbol ''a'', wire_symbol ''b''],
     net_count = 2, net_of = map_of [(''a'', 0), (''b'', 1)]\<rparr>"

definition loop_ident :: "string \<Rightarrow> JZASTNode" where
  "loop_ident n = AST_NODE JZ_AST_EXPR_IDENTIFIER no_loc (Some n) None None []"

definition loop_node :: "JZASTNodeType \<Rightarrow> JZASTNode list \<Rightarrow> JZASTNode" where
  "loop_node ty cs = AST_NODE ty no_loc None None None cs"

definition loop_assign :: "string \<Rightarrow> string \<Rightarrow> JZASTNode" where
  "loop_assign l r = AST_NODE JZ_AST_STMT_ASSIGN no_loc None None (Some ''RECEIVE'') [loop_ident l, loop_ident r]"

text \<open>\<open>IF (c) { a <= b; } ELSE { b <= a; }\<close> and the same with both assignments in the IF.\<close>

definition demo_exclusive :: "JZASTNode list" where
  "demo_exclusive = [loop_node JZ_AST_STMT_IF [loop_ident ''c'', loop_assign ''a'' ''b''], loop_node JZ_AST_STMT_ELSE [loop_assign ''b'' ''a'']]"

definition demo_loop :: "JZASTNode list" where
  "demo_loop = [loop_node JZ_AST_STMT_IF [loop_ident ''c'', loop_assign ''a'' ''b'', loop_assign ''b'' ''a''], loop_node JZ_AST_STMT_ELSE [loop_assign ''b'' ''a'']]"

lemma demo_edges: "set (assign_edges demo_module (loop_assign ''a'' ''b'')) = {(1, 0)}" "set (assign_edges demo_module (loop_assign ''b'' ''a'')) = {(0, 1)}"
  by code_simp+

lemma runs_two: "runs demo_module [loop_assign ''a'' ''b'', loop_assign ''b'' ''a''] {(1, 0), (0, 1)}"
proof -
  have "runs demo_module [loop_assign ''a'' ''b'', loop_assign ''b'' ''a''] (set (assign_edges demo_module (loop_assign ''a'' ''b'')) \<union>
      (set (assign_edges demo_module (loop_assign ''b'' ''a'')) \<union> {}))"
    by (intro run_assign run_end) (simp_all add: loop_assign_def)
  then show ?thesis unfolding demo_edges by (simp add: insert_commute)
qed

lemma loop_two: "has_loop 2 {(1, 0), (0, 1)}"
proof -
  have "sem_comb_edgeset_has_cycle [(1, 0), (0, 1)] 2" by code_simp
  then show ?thesis unfolding has_loop_edges by simp
qed

text \<open>C11. The check misses no loop of an execution of a block that the walk follows (\<open>block_ok\<close>: below
  the top level no ELIF or ELSE follows an IF, and no SELECT with a DEFAULT has only empty cases;
  \<open>nested_else_not_seen\<close> and \<open>empty_select_not_seen\<close> show that both are needed). Then, whatever the
  number of paths: an execution whose edges, with those of a start path of the instances, contain
  a loop makes the check report an unconditional loop; and if it reports nothing, then not even
  the edges of all executions together contain a loop.\<close>

theorem comb_loop_check_sound:
  assumes "block_ok ss"
  shows "(\<forall>p \<in> set paths. \<forall>E. runs sc ss E \<and> has_loop n (set p \<union> E) \<longrightarrow>
            loop_report (analyze_block sc ss paths) n = Some ''COMB_LOOP_UNCONDITIONAL'') \<and>
    (loop_report (analyze_block sc ss paths) n = None \<longrightarrow> \<not> has_loop n (\<Union> {set p \<union> E | p E. p \<in> set paths \<and> runs sc ss E}))"
proof (intro conjI ballI allI impI)
  have cov: "\<exists>q \<in> set (analyze_block sc ss paths). set p \<union> E \<subseteq> set q" if "p \<in> set paths" "runs sc ss E" for p E
    using block_runs_covered [OF assms that(2) covers_singleton [OF that(1)]] unfolding covers_def .
  show "loop_report (analyze_block sc ss paths) n = Some ''COMB_LOOP_UNCONDITIONAL''"
    if "p \<in> set paths" "runs sc ss E \<and> has_loop n (set p \<union> E)" for p E
    using cov [OF that(1)] that(2) has_loop_mono unfolding report_unconditional by blast
  assume "loop_report (analyze_block sc ss paths) n = None"
  then have "\<not> has_loop n (\<Union> (set ` set (analyze_block sc ss paths)))"
    by (auto simp: loop_report_def union_has_cycle_eq split: if_splits)
  moreover have "\<Union> {set p \<union> E | p E. p \<in> set paths \<and> runs sc ss E} \<subseteq> \<Union> (set ` set (analyze_block sc ss paths))"
    using cov by fastforce
  ultimately show "\<not> has_loop n (\<Union> {set p \<union> E | p E. p \<in> set paths \<and> runs sc ss E})" using has_loop_mono by blast
qed

theorem comb_loop_check_sound_witness:
  "loop_report (analyze_block demo_module demo_loop [[]]) 2 = Some ''COMB_LOOP_UNCONDITIONAL''"
proof -
  have ok: "block_ok demo_loop" by code_simp
  have "runs demo_module demo_loop ({(1, 0), (0, 1)} \<union> {})"
    unfolding demo_loop_def
    by (rule run_if [where b = "loop_node JZ_AST_STMT_IF [loop_ident ''c'', loop_assign ''a'' ''b'', loop_assign ''b'' ''a'']" and after = "[]"])
       (use runs_two in \<open>simp_all add: loop_node_def run_end\<close>)
  then show ?thesis using comb_loop_check_sound [OF ok, of "[[]]" demo_module 2] loop_two by auto
qed

text \<open>C10. While a block gives at most 256 paths, start paths of the instances included, and is one
  that the walk follows (\<open>block_ok\<close>: below the top level no ELIF or ELSE follows an IF, and no
  SELECT with a DEFAULT has only empty cases), the report is exact: the check reports an
  unconditional loop if and only if the edges of one execution of the block, with those of one
  start path (one choice of conditional instance edges), contain a loop. So mutually exclusive
  branches raise no false alarm.\<close>

theorem comb_loop_check_exact:
  assumes "block_ok ss" "block_paths ss * length paths \<le> 256"
  shows "loop_report (analyze_block sc ss paths) n = Some ''COMB_LOOP_UNCONDITIONAL'' \<longleftrightarrow>
    (\<exists>p \<in> set paths. \<exists>E. runs sc ss E \<and> has_loop n (set p \<union> E))"
proof
  assume "loop_report (analyze_block sc ss paths) n = Some ''COMB_LOOP_UNCONDITIONAL''"
  then obtain q where q: "q \<in> set (analyze_block sc ss paths)" "has_loop n (set q)" unfolding report_unconditional by blast
  then show "\<exists>p \<in> set paths. \<exists>E. runs sc ss E \<and> has_loop n (set p \<union> E)"
    using block_exact [OF assms, of sc] unfolding exact_def by metis
next
  assume "\<exists>p \<in> set paths. \<exists>E. runs sc ss E \<and> has_loop n (set p \<union> E)"
  then obtain p E where p: "p \<in> set paths" "runs sc ss E" "has_loop n (set p \<union> E)" by blast
  then show "loop_report (analyze_block sc ss paths) n = Some ''COMB_LOOP_UNCONDITIONAL''"
    using block_runs_covered [OF assms(1) p(2) covers_singleton [OF p(1)]] has_loop_mono unfolding report_unconditional covers_def by blast
qed

theorem comb_loop_check_exact_witness:
  "loop_report (analyze_block demo_module demo_exclusive [[]]) 2 = Some ''COMB_LOOP_CONDITIONAL_SAFE'' \<and>
   \<not> (\<exists>E. runs demo_module demo_exclusive E \<and> has_loop 2 E)"
proof -
  have ok: "block_ok demo_exclusive" "block_paths demo_exclusive * length [[] :: CombPath] \<le> 256" by code_simp+
  have r: "loop_report (analyze_block demo_module demo_exclusive [[]]) 2 = Some ''COMB_LOOP_CONDITIONAL_SAFE''" by code_simp
  show ?thesis using comb_loop_check_exact [OF ok, of demo_module 2] r by simp
qed

section \<open>The summary of a module\<close>

lemma port_edge_ports: "port_edge sc paths i x = Some e \<Longrightarrow> in_port e = i \<and> out_port e = x"
  by (auto simp: port_edge_def split: if_splits option.splits)

lemma port_edges_mem:
  "(\<exists>c. \<lparr>in_port = i, out_port = x, conditional = c\<rparr> \<in>
      set (concat (map (\<lambda>i. List.map_filter (port_edge sc paths i) outs) ins))) \<longleftrightarrow>
     i \<in> set ins \<and> x \<in> set outs \<and> port_edge sc paths i x \<noteq> None"
proof -
  have m: "e \<in> set (List.map_filter (port_edge sc paths j) outs) \<longleftrightarrow> (\<exists>y \<in> set outs. port_edge sc paths j y = Some e)" for e j
    by (force simp: map_filter_def)
  have u: "(\<exists>c. \<lparr>in_port = i, out_port = x, conditional = c\<rparr> = e) \<longleftrightarrow> in_port e = i \<and> out_port e = x" for e :: JZCombPortEdge
    by (cases e) auto
  have "(\<exists>c. \<lparr>in_port = i, out_port = x, conditional = c\<rparr> \<in> set (concat (map (\<lambda>i. List.map_filter (port_edge sc paths i) outs) ins))) \<longleftrightarrow>
      (\<exists>e. (\<exists>j \<in> set ins. \<exists>y \<in> set outs. port_edge sc paths j y = Some e) \<and> (\<exists>c. \<lparr>in_port = i, out_port = x, conditional = c\<rparr> = e))"
    unfolding set_concat set_map UN_iff bex_simps m by blast
  also have "\<dots> \<longleftrightarrow> (\<exists>e. i \<in> set ins \<and> x \<in> set outs \<and> port_edge sc paths i x = Some e)"
    unfolding u using port_edge_ports by fast
  finally show ?thesis by blast
qed

text \<open>C13. The summary of a module without instances (the start path is empty) and with one
  ASYNCHRONOUS block, which gives at most 256 paths and which the walk follows (\<open>block_ok\<close>: below
  the top level no ELIF or ELSE follows an IF, and no SELECT with a DEFAULT has only empty
  cases): an edge between two different ports whose nets exist is listed exactly when the one is
  IN or INOUT, the other OUT or INOUT, and the net of the first reaches the net of the second
  through the edges of one execution of the block.\<close>

theorem port_edges_correct:
  assumes "block_ok ss" "block_paths ss \<le> 256" "net_of sc i = Some v" "net_of sc x = Some w" "v < net_count sc" "w < net_count sc"
  shows "(\<exists>c. \<lparr>in_port = i, out_port = x, conditional = c\<rparr> \<in> set (port_edges sc (analyze_block sc ss [[]]))) \<longleftrightarrow>
    i \<in> set (port_decls [''IN'', ''INOUT''] (scope_node sc)) \<and> x \<in> set (port_decls [''OUT'', ''INOUT''] (scope_node sc)) \<and> i \<noteq> x \<and>
    (\<exists>E. runs sc ss E \<and> (v, w) \<in> {(s, d). (s, d) \<in> E \<and> s < net_count sc \<and> d < net_count sc}\<^sup>+)"
proof -
  let ?paths = "analyze_block sc ss [[]]"
  let ?conn = "\<lambda>E. (v, w) \<in> {(s, d). (s, d) \<in> E \<and> s < net_count sc \<and> d < net_count sc}\<^sup>+"
  have mono: "?conn F" if "?conn E" "E \<subseteq> F" for E F
  proof -
    have "{(s, d). (s, d) \<in> E \<and> s < net_count sc \<and> d < net_count sc}\<^sup>+ \<subseteq> {(s, d). (s, d) \<in> F \<and> s < net_count sc \<and> d < net_count sc}\<^sup>+"
      using that(2) by (intro trancl_mono_subset) auto
    then show ?thesis using that(1) by blast
  qed
  have some: "(\<exists>q \<in> set ?paths. ?conn (set q)) \<longleftrightarrow> (\<exists>E. runs sc ss E \<and> ?conn E)"
  proof
    assume "\<exists>q \<in> set ?paths. ?conn (set q)"
    then show "\<exists>E. runs sc ss E \<and> ?conn E"
      using block_exact [OF assms(1), of "[[]]" sc] assms(2) unfolding exact_def by fastforce
  next
    assume "\<exists>E. runs sc ss E \<and> ?conn E"
    then obtain E where E: "runs sc ss E" "?conn E" by blast
    have "covers ?paths (set [] \<union> E)" by (rule block_runs_covered [OF assms(1) E(1) covers_singleton]) simp
    then obtain q where "q \<in> set ?paths" "E \<subseteq> set q" unfolding covers_def by auto
    then show "\<exists>q \<in> set ?paths. ?conn (set q)" using mono [OF E(2)] by blast
  qed
  have ne: "\<not> sem_comb_reachable_in_edgeset [] (net_count sc) v w" by (simp add: sem_comb_reachable_in_edgeset_def)
  then have cnt: "reachable_in sc ?paths v w = 0 \<longleftrightarrow> \<not> (\<exists>q \<in> set ?paths. ?conn (set q))"
    unfolding reachable_in_edgeset_eq [OF assms(5,6), symmetric] reachable_in_def length_0_conv filter_empty_conv by metis
  have "(\<exists>c. \<lparr>in_port = i, out_port = x, conditional = c\<rparr> \<in> set (port_edges sc ?paths)) \<longleftrightarrow>
      i \<in> set (port_decls [''IN'', ''INOUT''] (scope_node sc)) \<and> x \<in> set (port_decls [''OUT'', ''INOUT''] (scope_node sc)) \<and>
      port_edge sc ?paths i x \<noteq> None"
    unfolding port_edges_def by (rule port_edges_mem)
  moreover have "port_edge sc ?paths i x \<noteq> None \<longleftrightarrow> i \<noteq> x \<and> reachable_in sc ?paths v w \<noteq> 0"
    using assms(5,6) by (simp add: port_edge_def assms(3,4))
  ultimately show ?thesis unfolding some [symmetric] cnt by blast
qed

text \<open>The input of \<open>y <= x\<close> reaches its output.\<close>

definition demo_child :: JZModuleScope where
  "demo_child = \<lparr>scope_node = loop_node JZ_AST_MODULE [loop_node JZ_AST_PORT_BLOCK
       [AST_NODE JZ_AST_PORT_DECL no_loc (Some ''a'') None (Some ''IN'') [], AST_NODE JZ_AST_PORT_DECL no_loc (Some ''b'') None (Some ''OUT'') []]],
     module_symbols = [wire_symbol ''a'', wire_symbol ''b''], net_count = 2, net_of = map_of [(''a'', 0), (''b'', 1)]\<rparr>"

theorem port_edges_correct_witness:
  "\<exists>E. runs demo_child [loop_assign ''b'' ''a''] E \<and> (0, 1) \<in> {(s, d). (s, d) \<in> E \<and> s < 2 \<and> d < 2}\<^sup>+"
proof -
  have n: "net_of demo_child ''a'' = Some 0" "net_of demo_child ''b'' = Some 1" "net_count demo_child = 2" by (simp_all add: demo_child_def)
  have c: "block_ok [loop_assign ''b'' ''a'']" "block_paths [loop_assign ''b'' ''a''] \<le> 256"
    "\<lparr>in_port = ''a'', out_port = ''b'', conditional = False\<rparr> \<in> set (port_edges demo_child (analyze_block demo_child [loop_assign ''b'' ''a''] [[]]))"
    by code_simp+
  show ?thesis using port_edges_correct [OF c(1,2) n(1,2)] c(3) n(3) by auto
qed

section \<open>Loops that are not seen\<close>

text \<open>The ELIF and ELSE branches of an IF inside another IF, a CASE or a nested block are skipped:
  \<open>IF (c) { IF (c) { } ELSE { a <= b; b <= a; } }\<close> has an execution with a loop, and nothing is
  reported.\<close>

definition demo_nested_else :: "JZASTNode list" where
  "demo_nested_else = [loop_node JZ_AST_STMT_IF [loop_ident ''c'', loop_node JZ_AST_STMT_IF [loop_ident ''c''],
     loop_node JZ_AST_STMT_ELSE [loop_assign ''a'' ''b'', loop_assign ''b'' ''a'']]]"

lemma nested_else_not_seen:
  "loop_report (analyze_block demo_module demo_nested_else [[]]) 2 = None"
  "runs demo_module demo_nested_else {(1, 0), (0, 1)} \<and> has_loop 2 {(1, 0), (0, 1)}"
proof -
  show "loop_report (analyze_block demo_module demo_nested_else [[]]) 2 = None" by code_simp
  let ?else = "loop_node JZ_AST_STMT_ELSE [loop_assign ''a'' ''b'', loop_assign ''b'' ''a'']"
  have "runs demo_module [loop_node JZ_AST_STMT_IF [loop_ident ''c''], ?else] ({(1, 0), (0, 1)} \<union> {})"
    by (rule run_if [where b = ?else and after = "[]" and chain = "[?else]"]) (use runs_two in \<open>simp_all add: loop_node_def run_end\<close>)
  then have "runs demo_module demo_nested_else ({(1, 0), (0, 1)} \<union> {})"
    unfolding demo_nested_else_def
    by (intro run_if [where b = "loop_node JZ_AST_STMT_IF [loop_ident ''c'', loop_node JZ_AST_STMT_IF [loop_ident ''c''], ?else]" and after = "[]"])
       (simp_all add: loop_node_def run_end)
  then show "runs demo_module demo_nested_else {(1, 0), (0, 1)} \<and> has_loop 2 {(1, 0), (0, 1)}" using loop_two by simp
qed

text \<open>A SELECT with a DEFAULT in which all bodies are empty leaves no path at all, so nothing before
  or after it is checked: \<open>a <= b; b <= a; SELECT (c) { DEFAULT { } }\<close>.\<close>

lemma empty_select_not_seen:
  "loop_report (analyze_block demo_module [loop_assign ''a'' ''b'', loop_assign ''b'' ''a''] [[]]) 2 = Some ''COMB_LOOP_UNCONDITIONAL''"
  "analyze_block demo_module [loop_assign ''a'' ''b'', loop_assign ''b'' ''a'',
     loop_node JZ_AST_STMT_SELECT [loop_ident ''c'', loop_node JZ_AST_STMT_DEFAULT []]] [[]] = []"
  "loop_report (analyze_block demo_module [loop_assign ''a'' ''b'', loop_assign ''b'' ''a'',
     loop_node JZ_AST_STMT_SELECT [loop_ident ''c'', loop_node JZ_AST_STMT_DEFAULT []]] [[]]) 2 = None"
  by code_simp+

end
