(* ===== verification/Comb_Cache.thy ===== *)
theory Comb_Cache
  imports Comb_Loop
begin

text \<open>
  The cache of module summaries: a summary that is finished or in progress is never touched
  again, and the module that was asked for ends finished or opaque, also when modules instantiate
  each other in a cycle or too deeply, unless the buffer of the cache moves while a summary is
  being computed: then the pointer to its slot dangles.
\<close>

definition keeps_slots :: "CombCacheBuffer \<Rightarrow> CombCacheBuffer \<Rightarrow> bool" where
  "keeps_slots c c' \<longleftrightarrow> length (cache_slots c) \<le> length (cache_slots c') \<and>
     (\<forall>j < length (cache_slots c). cache_module (cache_slots c' ! j) = cache_module (cache_slots c ! j) \<and>
        (cache_state (cache_slots c ! j) \<noteq> COMB_CACHE_PENDING \<longrightarrow> cache_slots c' ! j = cache_slots c ! j))"

lemma keeps_refl: "keeps_slots c c"
  by (simp add: keeps_slots_def)

lemma keeps_trans: "keeps_slots a b \<Longrightarrow> keeps_slots b c \<Longrightarrow> keeps_slots a c"
  unfolding keeps_slots_def by (metis dual_order.strict_trans1 order.trans)

text \<open>A pointer that leads into the buffer.\<close>

lemma slot_at_Some: "slot_at r c = Some s \<longleftrightarrow> fst r = cache_block c \<and> snd r < length (cache_slots c) \<and> s = cache_slots c ! snd r"
  by (auto simp: slot_at_def split: if_splits)

lemma slot_write_simps [simp]:
  "cache_slots (slot_write r s c) = (cache_slots c)[snd r := s]" "cache_block (slot_write r s c) = cache_block c"
  by (simp_all add: slot_write_def)

lemma slot_at_write: "slot_at r c = Some s \<Longrightarrow> slot_at r (slot_write r t c) = Some t"
  by (auto simp: slot_at_def split: if_splits)

lemma keeps_write:
  "slot_at r c = Some s \<Longrightarrow> cache_state s = COMB_CACHE_PENDING \<Longrightarrow> cache_module t = cache_module s \<Longrightarrow> keeps_slots c (slot_write r t c)"
  by (auto simp: keeps_slots_def slot_at_Some nth_list_update)

lemma append_slot_keeps:
  assumes "append_slot answer s c = Some c'"
  shows "keeps_slots c c'" "cache_slots c' = cache_slots c @ [s]"
    "cache_block c' = cache_block c \<or> (\<exists>a b. answer a b = REALLOC_MOVES)"
  using assms by (auto simp: append_slot_def Let_def keeps_slots_def nth_append split: option.splits if_splits)

lemma cache_slot_keeps:
  assumes "sem_comb_cache_slot pr c m = Some (r, c')"
  shows "keeps_slots c c'" "\<exists>s. slot_at r c' = Some s \<and> cache_module s = m"
    "cache_block c' = cache_block c \<or> (\<exists>a b. realloc_answer pr a b = REALLOC_MOVES)"
proof -
  let ?i = "length (takeWhile (\<lambda>s. cache_module s \<noteq> m) (cache_slots c))"
  have "?i < length (cache_slots c) \<Longrightarrow> cache_module (cache_slots c ! ?i) = m" using nth_length_takeWhile by blast
  then show "keeps_slots c c'" "\<exists>s. slot_at r c' = Some s \<and> cache_module s = m"
    "cache_block c' = cache_block c \<or> (\<exists>a b. realloc_answer pr a b = REALLOC_MOVES)"
    using assms append_slot_keeps
    by (auto simp: sem_comb_cache_slot_def Let_def slot_at_def keeps_refl split: if_splits option.splits)
qed

text \<open>
  What a summary leaves of its own slot \<open>i\<close>; \<open>moved\<close> says that the buffer may have moved, which
  is the only reason for no result.
\<close>

definition summarised :: "bool \<Rightarrow> nat \<Rightarrow> CombCacheBuffer \<Rightarrow> CombCacheBuffer option \<Rightarrow> bool" where
  "summarised moved i c result = (case result of
     None \<Rightarrow> moved
   | Some c' \<Rightarrow> keeps_slots c c' \<and> cache_state (cache_slots c' ! i) \<in> {COMB_CACHE_DONE, COMB_CACHE_OPAQUE} \<and>
       (moved \<or> cache_block c' = cache_block c))"

lemma set_state_eq:
  "slot_at r c = Some s \<Longrightarrow> set_cache_state r st c = Some (slot_write r (s\<lparr>cache_state := st\<rparr>) c)"
  by (simp add: set_cache_state_def)

lemma summarised_opaque:
  "slot_at r c = Some s \<Longrightarrow> cache_state s = COMB_CACHE_PENDING \<Longrightarrow> summarised moved (snd r) c (set_cache_state r COMB_CACHE_OPAQUE c)"
  by (auto simp: summarised_def set_state_eq intro!: keeps_write) (auto simp: slot_at_Some)

text \<open>A summary that was in progress and comes to its end.\<close>

lemma summarised_finish:
  assumes s: "slot_at r c = Some s" "cache_state s = COMB_CACHE_PENDING"
    and k: "keeps_slots (slot_write r (s\<lparr>cache_state := COMB_CACHE_IN_PROGRESS\<rparr>) c) c2" "moved \<or> cache_block c2 = cache_block c"
  shows "summarised moved (snd r) c (finish_summary r pes c2)"
proof (cases "slot_at r c2")
  case None
  have "snd r < length (cache_slots c2)" using s k(1) by (auto simp: keeps_slots_def slot_at_Some)
  then have "cache_block c2 \<noteq> cache_block c" using None s(1) by (auto simp: slot_at_def split: if_splits)
  then show ?thesis using k(2) None by (simp add: finish_summary_def summarised_def)
next
  case (Some t)
  let ?c1 = "slot_write r (s\<lparr>cache_state := COMB_CACHE_IN_PROGRESS\<rparr>) c"
  have l: "snd r < length (cache_slots c)" "snd r < length (cache_slots c2)" using s(1) Some by (auto simp: slot_at_Some)
  have same: "cache_slots c2 ! j = cache_slots c ! j" if "j < length (cache_slots c)" "cache_state (cache_slots c ! j) \<noteq> COMB_CACHE_PENDING" for j
    using k(1) that s by (auto simp: keeps_slots_def slot_at_Some nth_list_update dest!: spec [of _ j] split: if_splits)
  have "keeps_slots c (slot_write r (t\<lparr>cache_edges := e, cache_state := COMB_CACHE_DONE\<rparr>) c2)" for e
    using k(1) same s Some l by (auto simp: keeps_slots_def nth_list_update slot_at_Some split: if_splits)
  then show ?thesis using Some k(2) l by (auto simp: finish_summary_def summarised_def)
qed

lemma cache_invariant:
  "slot_at slot cache = Some s \<Longrightarrow> cache_state s = COMB_CACHE_PENDING \<Longrightarrow>
     summarised (\<exists>a b. realloc_answer pr a b = REALLOC_MOVES) (snd slot) cache (sem_comb_build_summary pr depth slot m cache)"
  "case sem_comb_inject_instances pr depth sc insts cache paths of
     None \<Rightarrow> \<exists>a b. realloc_answer pr a b = REALLOC_MOVES
   | Some (cache', _) \<Rightarrow> keeps_slots cache cache' \<and> ((\<exists>a b. realloc_answer pr a b = REALLOC_MOVES) \<or> cache_block cache' = cache_block cache)"
proof (induction pr depth slot m cache and pr depth sc insts cache paths arbitrary: s
    rule: sem_comb_build_summary_sem_comb_inject_instances.induct)
  case (1 pr depth slot m cache)
  let ?moved = "\<exists>a b. realloc_answer pr a b = REALLOC_MOVES"
  show ?case
  proof (cases "jz_depth_enter_checked depth JZ_LIMIT_SEM_RECURSION_DEPTH")
    case None
    then show ?thesis using summarised_opaque [OF 1(2,3)] by simp
  next
    case (Some d)
    let ?sc = "module_scopes pr ! m" and ?c1 = "slot_write slot (s\<lparr>cache_state := COMB_CACHE_IN_PROGRESS\<rparr>) cache"
    note c1 = set_state_eq [OF 1(2), of COMB_CACHE_IN_PROGRESS]
    show ?thesis
    proof (cases "node_type (scope_node ?sc) = JZ_AST_BLACKBOX")
      case True
      have "set_cache_state slot COMB_CACHE_OPAQUE ?c1 = set_cache_state slot COMB_CACHE_OPAQUE cache"
        by (simp add: set_state_eq [OF 1(2)] set_state_eq [OF slot_at_write [OF 1(2)]]) (simp add: slot_write_def)
      then show ?thesis using summarised_opaque [OF 1(2,3)] Some True c1 by (simp add: Let_def)
    next
      case False
      note IH = 1(1) [OF Some c1 refl refl False]
      show ?thesis
      proof (cases "sem_comb_inject_instances pr d ?sc (module_instances (scope_node ?sc)) ?c1 [[]]")
        case None
        then show ?thesis using IH Some c1 False by (simp add: Let_def summarised_def)
      next
        case (Some a)
        obtain c2 paths where a: "a = (c2, paths)" by fastforce
        have "summarised ?moved (snd slot) cache (finish_summary slot pes c2)" for pes
          by (rule summarised_finish [OF 1(2,3)]) (use IH Some a in auto)
        then show ?thesis using Some a c1 False \<open>jz_depth_enter_checked depth _ = Some d\<close> by (simp add: Let_def)
      qed
    qed
  qed
next
  case (2 pr depth sc cache paths)
  show ?case by (simp add: keeps_refl)
next
  case (3 pr depth sc inst extra insts cache paths)
  let ?moved = "\<exists>a b. realloc_answer pr a b = REALLOC_MOVES"
  show ?case
  proof (cases "Option.bind (node_text inst) (find_scope pr)")
    case None
    then show ?thesis using 3(1) [OF None] by simp
  next
    case m: (Some m)
    show ?thesis
    proof (cases "sem_comb_cache_slot pr cache m")
      case None
      then show ?thesis using 3(2) [OF m None] m by simp
    next
      case (Some a)
      then obtain slot c1 where a: "sem_comb_cache_slot pr cache m = Some (slot, c1)" by (cases a) simp
      note S = cache_slot_keeps [OF a]
      obtain s where s: "slot_at slot c1 = Some s" using S(2) by blast
      define nx where "nx = (if map_option cache_state (slot_at slot c1) = Some COMB_CACHE_PENDING
        then sem_comb_build_summary pr depth slot m c1 else Some c1)"
      have n: "case nx of None \<Rightarrow> ?moved | Some c2 \<Rightarrow> keeps_slots c1 c2 \<and> (?moved \<or> cache_block c2 = cache_block c1)"
        using 3(3) [OF m a refl _ s] s by (auto simp: nx_def summarised_def keeps_refl split: option.splits)
      have eq: "sem_comb_inject_instances pr depth sc ((inst, extra) # insts) cache paths =
          (case nx of None \<Rightarrow> None
           | Some c2 \<Rightarrow> (case slot_at slot c2 of None \<Rightarrow> None
               | Some s \<Rightarrow> sem_comb_inject_instances pr depth sc insts c2 (add_port_edges sc inst extra (slot_edges s) paths)))"
        using m a by (simp add: nx_def del: sem_comb_build_summary.simps)
      show ?thesis
      proof (cases nx)
        case None
        then show ?thesis unfolding eq using n by simp
      next
        case c2: (Some c2)
        have c1: "keeps_slots c1 c2" "?moved \<or> cache_block c2 = cache_block c1" using n c2 by simp_all
        have k: "keeps_slots cache c2" by (rule keeps_trans [OF S(1) c1(1)])
        have b: "?moved \<or> cache_block c2 = cache_block cache" using c1(2) S(3) by argo
        show ?thesis
        proof (cases "slot_at slot c2")
          case None
          have "?moved" using None n c2 s by (auto simp: slot_at_def keeps_slots_def split: if_splits)
          then show ?thesis unfolding eq using None c2 by simp
        next
          case (Some t)
          show ?thesis unfolding eq
            using 3(4) [OF m a refl c2 [unfolded nx_def] Some] k b c2 Some by (auto simp del: sem_comb_inject_instances.simps split: option.splits intro: keeps_trans)
        qed
      qed
    qed
  qed
qed

text \<open>C14. The cache of summaries. Summarising the pending module of a slot leaves the slot finished
  or opaque, never pending or in progress, and every other summary that was finished, opaque or
  in progress exactly as it was, however deep or cyclic the instances are; so each module is
  summarised once and a cycle of instances ends. The only other outcome is undefined behaviour,
  a state written through a dangling pointer, and it needs a \<open>realloc\<close> that moved the buffer.\<close>

theorem build_summary_keeps_cache:
  assumes "slot_at slot cache = Some s" "cache_state s = COMB_CACHE_PENDING"
  shows "case sem_comb_build_summary pr depth slot m cache of
    Some cache' \<Rightarrow>
      cache_state (cache_slots cache' ! snd slot) \<in> {COMB_CACHE_DONE, COMB_CACHE_OPAQUE} \<and>
      (\<forall>j < length (cache_slots cache). cache_state (cache_slots cache ! j) \<noteq> COMB_CACHE_PENDING \<longrightarrow>
         cache_slots cache' ! j = cache_slots cache ! j)
  | None \<Rightarrow> \<exists>old new. realloc_answer pr old new = REALLOC_MOVES"
  using cache_invariant(1) [OF assms, of pr depth m] unfolding summarised_def keeps_slots_def by (auto split: option.splits)

text \<open>The check of a module always returns when the buffer stays where it is.\<close>

lemma module_check_returns:
  assumes "\<And>old new. realloc_answer pr old new \<noteq> REALLOC_MOVES"
  shows "sem_check_combinational_loops_for_module pr sc cache \<noteq> None"
proof -
  have r: "sem_comb_inject_instances pr 0 sc is c [[]] \<noteq> None" for "is" c
    using cache_invariant(2) [where pr = pr and depth = 0 and sc = sc and insts = "is" and cache = c and paths = "[[]]"] assms
    by (auto split: option.splits simp del: sem_comb_inject_instances.simps)
  have "check_blocks pr sc bs cache \<noteq> None" for bs
    by (induction bs arbitrary: cache) (use r in \<open>auto split: option.splits simp del: sem_comb_inject_instances.simps\<close>)
  then show ?thesis by (simp add: sem_check_combinational_loops_for_module_def)
qed

text \<open>Modules without ports or assignments that instantiate the named modules.\<close>

definition no_loc :: JZLocation where
  "no_loc = \<lparr>loc_filename = [], loc_line = 0, loc_column = 0\<rparr>"

definition module_of :: "string list \<Rightarrow> JZModuleScope" where
  "module_of names = \<lparr>scope_node = AST_NODE JZ_AST_MODULE no_loc None None None
       (map (\<lambda>n. AST_NODE JZ_AST_MODULE_INSTANCE no_loc (Some ''u'') (Some n) None []) names),
     module_symbols = [], net_count = 0, net_of = (\<lambda>_. None)\<rparr>"

text \<open>A module that instantiates itself.\<close>

definition recursive_project :: CombProject where
  "recursive_project = \<lparr>module_scopes = [module_of [''m'']], find_scope = (\<lambda>n. if n = ''m'' then Some 0 else None),
     realloc_answer = (\<lambda>_ _. REALLOC_MOVES)\<rparr>"

definition one_slot :: CombCacheBuffer where
  "one_slot = \<lparr>cache_slots = [\<lparr>cache_module = 0, cache_edges = [], cache_state = COMB_CACHE_PENDING\<rparr>], cache_cap = 64, cache_block = 0\<rparr>"

theorem build_summary_keeps_cache_witness:
  "\<exists>cache'. sem_comb_build_summary recursive_project 0 (0, 0) 0 one_slot = Some cache' \<and>
     cache_state (cache_slots cache' ! 0) \<in> {COMB_CACHE_DONE, COMB_CACHE_OPAQUE}"
proof -
  have "slot_at (0, 0) one_slot = Some \<lparr>cache_module = 0, cache_edges = [], cache_state = COMB_CACHE_PENDING\<rparr>" by code_simp
  from build_summary_keeps_cache [OF this, of recursive_project 0 0]
  have "case sem_comb_build_summary recursive_project 0 (0, 0) 0 one_slot of
      Some cache' \<Rightarrow> cache_state (cache_slots cache' ! 0) \<in> {COMB_CACHE_DONE, COMB_CACHE_OPAQUE} | None \<Rightarrow> True"
    by (simp split: option.splits)
  moreover have "sem_comb_build_summary recursive_project 0 (0, 0) 0 one_slot \<noteq> None" by code_simp
  ultimately show ?thesis by (auto split: option.splits)
qed

text \<open>
  Module 0 instantiates module 1. The second slot does not fit into the first 64 bytes; when
  \<open>realloc\<close> moves the buffer, the slot of module 0 is written through a dangling pointer.
\<close>

definition chain_project :: "ReallocAnswer \<Rightarrow> CombProject" where
  "chain_project answer = \<lparr>module_scopes = [module_of [''b''], module_of []], find_scope = (\<lambda>n. if n = ''b'' then Some 1 else None),
     realloc_answer = (\<lambda>_ _. answer)\<rparr>"

lemma moved_cache_dangles:
  "sem_comb_build_summary (chain_project REALLOC_MOVES) 0 (0, 0) 0 one_slot = None"
  "map_option (\<lambda>c. map cache_state (cache_slots c)) (sem_comb_build_summary (chain_project REALLOC_IN_PLACE) 0 (0, 0) 0 one_slot) =
     Some [COMB_CACHE_DONE, COMB_CACHE_DONE]"
  by code_simp+

end
